(* ===== verification/Prelude.thy ===== *)
theory Prelude
  imports Main "HOL-Library.Word"
begin

text \<open>
  The prelude of the development: the machine types, the error values, the result type and its
  sequencing, arrays read and written with their bounds, host memory as a partial map from byte
  addresses, and the byte orders of C integers. Every component theory builds on these.

  The modelled program is C on x86-64: \<open>int\<close> values that the code never lets overflow are
  HOL integers, every unsigned counter is a word of its width, pointers into host memory are
  natural numbers with 0 for \<open>NULL\<close>.
\<close>

unbundle bit_operations_syntax

named_theorems res_simps \<open>equations that run the result type\<close>
named_theorems byte_simps \<open>byte order and memory access\<close>
named_theorems frame_simps \<open>what an operation leaves unchanged\<close>

section \<open>Machine types\<close>

type_synonym u8 = "8 word"
type_synonym u16 = "16 word"
type_synonym u32 = "32 word"
type_synonym u64 = "64 word"

section \<open>Errors and results\<close>

text \<open>
  \<open>Die\<close> is a call of \<open>rc_die\<close> (or \<open>exit\<close>) with its message: the process ends. A
  \<open>Fault\<close> is a step the C standard gives no meaning to: a read or write outside an object, a
  null pointer followed, an object taken for one of another type, an object used after it was freed,
  an \<open>int\<close> that overflows; or, for \<open>Deadlock\<close>, a lock taken again while it is held.
\<close>

datatype fault = NullDeref | OutOfBounds | BadAddress | WrongType | UseAfterFree | DoubleFree
  | NoReturnValue | SignedOverflow | Deadlock

datatype abort = Die string | Fault fault

type_synonym 'a res = "abort + 'a"

definition bindR :: "'a res \<Rightarrow> ('a \<Rightarrow> 'b res) \<Rightarrow> 'b res" where
  "bindR m f = (case m of Inl e \<Rightarrow> Inl e | Inr x \<Rightarrow> f x)"

definition assertR :: "bool \<Rightarrow> abort \<Rightarrow> unit res" where
  "assertR b e = (if b then Inr () else Inl e)"

definition of_option :: "abort \<Rightarrow> 'a option \<Rightarrow> 'a res" where
  "of_option e x = (case x of None \<Rightarrow> Inl e | Some y \<Rightarrow> Inr y)"

lemma bindR_Inr [simp, res_simps]: "bindR (Inr x) f = f x"
  by (simp add: bindR_def)

lemma bindR_Inl [simp, res_simps]: "bindR (Inl e) f = Inl e"
  by (simp add: bindR_def)

lemma bindR_eq_Inr: "bindR m f = Inr y \<longleftrightarrow> (\<exists>x. m = Inr x \<and> f x = Inr y)"
  by (cases m) auto

lemma bindR_eq_Inl:
  "bindR m f = Inl e \<longleftrightarrow> m = Inl e \<or> (\<exists>x. m = Inr x \<and> f x = Inl e)"
  by (cases m) auto

lemma bindR_assoc: "bindR (bindR m f) g = bindR m (\<lambda>x. bindR (f x) g)"
  by (cases m) auto

lemma bindR_cong [fundef_cong]:
  "m = m' \<Longrightarrow> (\<And>x. m' = Inr x \<Longrightarrow> f x = f' x) \<Longrightarrow> bindR m f = bindR m' f'"
  by (cases m') auto

lemma assertR_simps [simp, res_simps]:
  "assertR True e = Inr ()" "assertR False e = Inl e"
  by (simp_all add: assertR_def)

lemma assertR_eq_Inr [simp]: "assertR b e = Inr u \<longleftrightarrow> b"
  by (simp add: assertR_def)

lemma of_option_simps [simp, res_simps]:
  "of_option e None = Inl e" "of_option e (Some x) = Inr x"
  by (simp_all add: of_option_def)

lemma of_option_eq_Inr [simp]: "of_option e x = Inr y \<longleftrightarrow> x = Some y"
  by (cases x) auto

text \<open>A loop that may stop early with an error.\<close>

fun foldR :: "('x \<Rightarrow> 's \<Rightarrow> 's res) \<Rightarrow> 'x list \<Rightarrow> 's \<Rightarrow> 's res" where
  "foldR f [] s = Inr s"
| "foldR f (x # xs) s = bindR (f x s) (foldR f xs)"

lemma foldR_append: "foldR f (xs @ ys) s = bindR (foldR f xs s) (foldR f ys)"
proof (induction xs arbitrary: s)
  case Nil
  then show ?case by simp
next
  case (Cons x xs)
  then have "foldR f (xs @ ys) = (\<lambda>r. bindR (foldR f xs r) (foldR f ys))" by (intro ext)
  then show ?case by (simp add: bindR_assoc)
qed

text \<open>An invariant of the body is an invariant of the loop.\<close>

lemma foldR_invariant:
  assumes "foldR f xs s = Inr t" and "P s"
    and "\<And>x s t. x \<in> set xs \<Longrightarrow> P s \<Longrightarrow> f x s = Inr t \<Longrightarrow> P t"
  shows "P t"
  using assms
proof (induction xs arbitrary: s)
  case Nil
  then show ?case by simp
next
  case (Cons x xs)
  from Cons.prems(1) obtain r where r: "f x s = Inr r" "foldR f xs r = Inr t"
    by (auto simp: bindR_eq_Inr)
  have "P r" using Cons.prems(2,3) r(1) by auto
  then show ?case using Cons.IH [OF r(2)] Cons.prems(3) by auto
qed

section \<open>Arrays\<close>

definition read_at :: "'a list \<Rightarrow> nat \<Rightarrow> 'a res" where
  "read_at xs i = (if i < length xs then Inr (xs ! i) else Inl (Fault OutOfBounds))"

definition write_at :: "'a list \<Rightarrow> nat \<Rightarrow> 'a \<Rightarrow> 'a list res" where
  "write_at xs i x = (if i < length xs then Inr (xs[i := x]) else Inl (Fault OutOfBounds))"

lemma read_at_in [simp]: "i < length xs \<Longrightarrow> read_at xs i = Inr (xs ! i)"
  by (simp add: read_at_def)

lemma write_at_in [simp]: "i < length xs \<Longrightarrow> write_at xs i x = Inr (xs[i := x])"
  by (simp add: write_at_def)

lemma read_at_eq_Inr: "read_at xs i = Inr x \<longleftrightarrow> i < length xs \<and> x = xs ! i"
  by (auto simp: read_at_def)

lemma write_at_eq_Inr: "write_at xs i x = Inr ys \<longleftrightarrow> i < length xs \<and> ys = xs[i := x]"
  by (auto simp: write_at_def)

text \<open>An \<open>int\<close> used as an array index: a negative one is out of bounds.\<close>

definition read_int :: "'a list \<Rightarrow> int \<Rightarrow> 'a res" where
  "read_int xs i = (if 0 \<le> i then read_at xs (nat i) else Inl (Fault OutOfBounds))"

definition write_int :: "'a list \<Rightarrow> int \<Rightarrow> 'a \<Rightarrow> 'a list res" where
  "write_int xs i x = (if 0 \<le> i then write_at xs (nat i) x else Inl (Fault OutOfBounds))"

lemma read_int_eq_Inr: "read_int xs i = Inr x \<longleftrightarrow> 0 \<le> i \<and> nat i < length xs \<and> x = xs ! nat i"
  by (auto simp: read_int_def read_at_eq_Inr)

lemma write_int_eq_Inr:
  "write_int xs i x = Inr ys \<longleftrightarrow> 0 \<le> i \<and> nat i < length xs \<and> ys = xs[nat i := x]"
  by (auto simp: write_int_def write_at_eq_Inr)

lemma read_int_in [simp]: "0 \<le> i \<Longrightarrow> nat i < length xs \<Longrightarrow> read_int xs i = Inr (xs ! nat i)"
  by (simp add: read_int_def)

lemma write_int_in [simp]:
  "0 \<le> i \<Longrightarrow> nat i < length xs \<Longrightarrow> write_int xs i x = Inr (xs[nat i := x])"
  by (simp add: write_int_def)

section \<open>Host memory\<close>

text \<open>\<open>None\<close> is an address no object occupies: touching it is a fault.\<close>

type_synonym memory = "nat \<rightharpoonup> u8"

fun upd_bytes :: "nat \<Rightarrow> u8 list \<Rightarrow> memory \<Rightarrow> memory" where
  "upd_bytes a [] m = m"
| "upd_bytes a (b # bs) m = upd_bytes (Suc a) bs (m(a \<mapsto> b))"

definition mapped :: "memory \<Rightarrow> nat \<Rightarrow> nat \<Rightarrow> bool" where
  "mapped m a n = list_all (\<lambda>i. m (a + i) \<noteq> None) [0..<n]"

definition bytes_at :: "memory \<Rightarrow> nat \<Rightarrow> nat \<Rightarrow> u8 list" where
  "bytes_at m a n = map (\<lambda>i. case m (a + i) of None \<Rightarrow> 0 | Some b \<Rightarrow> b) [0..<n]"

definition store_bytes :: "nat \<Rightarrow> u8 list \<Rightarrow> memory \<Rightarrow> memory res" where
  "store_bytes a bs m =
     (if mapped m a (length bs) then Inr (upd_bytes a bs m) else Inl (Fault BadAddress))"

definition load_bytes :: "nat \<Rightarrow> nat \<Rightarrow> memory \<Rightarrow> u8 list res" where
  "load_bytes a n m = (if mapped m a n then Inr (bytes_at m a n) else Inl (Fault BadAddress))"

lemma upd_bytes_apply:
  "upd_bytes a bs m x = (if a \<le> x \<and> x < a + length bs then Some (bs ! (x - a)) else m x)"
proof (induction bs arbitrary: a m)
  case Nil
  then show ?case by auto
next
  case (Cons b bs)
  show ?case
    by (cases "x - a") (auto simp: Cons.IH nth_Cons Suc_diff_le diff_Suc split: nat.splits)
qed

lemma upd_bytes_outside: "x < a \<or> a + length bs \<le> x \<Longrightarrow> upd_bytes a bs m x = m x"
  by (auto simp: upd_bytes_apply)

lemma upd_bytes_append:
  "upd_bytes a (bs @ cs) m = upd_bytes (a + length bs) cs (upd_bytes a bs m)"
  by (induction bs arbitrary: a m) auto

lemma mapped_iff: "mapped m a n \<longleftrightarrow> (\<forall>x. a \<le> x \<and> x < a + n \<longrightarrow> m x \<noteq> None)"
proof
  assume *: "mapped m a n"
  show "\<forall>x. a \<le> x \<and> x < a + n \<longrightarrow> m x \<noteq> None"
  proof (intro allI impI)
    fix x assume x: "a \<le> x \<and> x < a + n"
    then have "x - a < n" by arith
    then have "m (a + (x - a)) \<noteq> None"
      using * unfolding mapped_def list_all_iff by fastforce
    then show "m x \<noteq> None" using x by simp
  qed
next
  assume "\<forall>x. a \<le> x \<and> x < a + n \<longrightarrow> m x \<noteq> None"
  then show "mapped m a n" by (auto simp: mapped_def list_all_iff)
qed

lemma mapped_upd [simp, byte_simps]: "mapped m a n \<Longrightarrow> mapped (upd_bytes b bs m) a n"
  by (auto simp: mapped_iff upd_bytes_apply)

lemma mapped_sub: "mapped m a n \<Longrightarrow> a \<le> b \<Longrightarrow> b + k \<le> a + n \<Longrightarrow> mapped m b k"
  by (auto simp: mapped_iff)

lemma mapped_0 [simp]: "mapped m a 0"
  by (simp add: mapped_def)

lemma length_bytes_at [simp]: "length (bytes_at m a n) = n"
  by (simp add: bytes_at_def)

lemma bytes_at_same [simp, byte_simps]: "bytes_at (upd_bytes a bs m) a (length bs) = bs"
  by (auto simp: bytes_at_def upd_bytes_apply intro: nth_equalityI)

lemma bytes_at_same' [byte_simps]: "n = length bs \<Longrightarrow> bytes_at (upd_bytes a bs m) a n = bs"
  by simp

lemma bytes_at_disjoint [byte_simps]:
  "b + length bs \<le> a \<or> a + n \<le> b \<Longrightarrow> bytes_at (upd_bytes b bs m) a n = bytes_at m a n"
  by (auto simp: bytes_at_def upd_bytes_apply)

lemma bytes_at_cong:
  "(\<And>x. a \<le> x \<Longrightarrow> x < a + n \<Longrightarrow> m x = m' x) \<Longrightarrow> bytes_at m a n = bytes_at m' a n"
  by (auto simp: bytes_at_def)

lemma bytes_at_add: "bytes_at m a (n + k) = bytes_at m a n @ bytes_at m (a + n) k"
proof -
  have "[0..<n + k] = [0..<n] @ map ((+) n) [0..<k]"
    using upt_add_eq_append [of 0 n k] map_add_upt [of n k] by (simp add: add.commute [of _ n])
  then show ?thesis by (simp add: bytes_at_def add.assoc)
qed

lemma store_bytes_mapped [simp]:
  "mapped m a (length bs) \<Longrightarrow> store_bytes a bs m = Inr (upd_bytes a bs m)"
  by (simp add: store_bytes_def)

lemma store_bytes_eq_Inr:
  "store_bytes a bs m = Inr m' \<longleftrightarrow> mapped m a (length bs) \<and> m' = upd_bytes a bs m"
  by (auto simp: store_bytes_def)

lemma load_bytes_mapped [simp]: "mapped m a n \<Longrightarrow> load_bytes a n m = Inr (bytes_at m a n)"
  by (simp add: load_bytes_def)

section \<open>Byte orders\<close>

text \<open>The host stores integers with the least significant byte first.\<close>

definition le32 :: "u32 \<Rightarrow> u8 list" where
  "le32 x = [ucast x, ucast (drop_bit 8 x), ucast (drop_bit 16 x), ucast (drop_bit 24 x)]"

fun of_le32 :: "u8 list \<Rightarrow> u32" where
  "of_le32 [a, b, c, d] =
     ucast a OR push_bit 8 (ucast b) OR push_bit 16 (ucast c) OR push_bit 24 (ucast d)"
| "of_le32 _ = 0"

definition le64 :: "u64 \<Rightarrow> u8 list" where
  "le64 x = le32 (ucast x) @ le32 (ucast (drop_bit 32 x))"

definition of_le64 :: "u8 list \<Rightarrow> u64" where
  "of_le64 bs = ucast (of_le32 (take 4 bs)) OR push_bit 32 (ucast (of_le32 (drop 4 bs)))"

text \<open>\<open>htonl\<close> of a little-endian host reverses the bytes of its argument, and so does
  \<open>ntohl\<close>.\<close>

definition htonl :: "u32 \<Rightarrow> u32" where
  "htonl x = of_le32 (rev (le32 x))"

definition ntohl :: "u32 \<Rightarrow> u32" where
  "ntohl x = of_le32 (rev (le32 x))"

text \<open>The network order, which the adapter reads.\<close>

definition be32 :: "u32 \<Rightarrow> u8 list" where
  "be32 x = rev (le32 x)"

definition be64 :: "u64 \<Rightarrow> u8 list" where
  "be64 x = rev (le64 x)"

lemma length_le32 [simp]: "length (le32 x) = 4"
  by (simp add: le32_def)

lemma length_le64 [simp]: "length (le64 x) = 8"
  by (simp add: le64_def)

lemma length_be [simp]: "length (be32 x) = 4" "length (be64 y) = 8"
  by (simp_all add: be32_def be64_def)

lemma length_4_cases: "length bs = 4 \<Longrightarrow> \<exists>a b c d. bs = [a, b, c, d]"
  by (auto simp: numeral_eq_Suc length_Suc_conv)

lemma of_le32_le32 [simp, byte_simps]: "of_le32 (le32 x) = x"
proof -
  have "n < 8 \<or> (8 \<le> n \<and> n < 16) \<or> (16 \<le> n \<and> n < 24) \<or> (24 \<le> n \<and> n < 32)"
    if "n < 32" for n :: nat using that by arith
  then show ?thesis
    unfolding le32_def of_le32.simps
    by (intro bit_word_eqI) (force simp: bit_simps)
qed

lemma le32_of_le32_4 [simp]: "le32 (of_le32 [a, b, c, d]) = [a, b, c, d]"
proof -
  have out: "\<not> bit x (k + n)" if "8 \<le> k" for x :: u8 and k n
    using that bit_imp_le_length [of x "k + n"] by auto
  show ?thesis
    unfolding le32_def of_le32.simps list.inject
    by (intro conjI bit_word_eqI) (auto simp: bit_simps out)
qed

lemma le32_of_le32: "length bs = 4 \<Longrightarrow> le32 (of_le32 bs) = bs"
  using length_4_cases [of bs] le32_of_le32_4 by (metis (no_types))

lemma le32_htonl [simp, byte_simps]: "le32 (htonl x) = be32 x"
  by (simp add: htonl_def be32_def le32_of_le32)

lemma ntohl_htonl [simp]: "ntohl (htonl x) = x"
  by (simp add: ntohl_def be32_def)

lemma htonl_ntohl [simp]: "htonl (ntohl x) = x"
  by (simp add: ntohl_def htonl_def le32_of_le32)

lemma be32_inj [simp]: "be32 x = be32 y \<longleftrightarrow> x = y"
  by (metis be32_def of_le32_le32 rev_rev_ident)

lemma of_le64_le64 [simp, byte_simps]: "of_le64 (le64 x) = x"
proof -
  have "of_le64 (le64 x) = ucast (ucast x :: u32) OR push_bit 32 (ucast (ucast (drop_bit 32 x) :: u32))"
    by (simp add: of_le64_def le64_def)
  also have "\<dots> = x"
    by (intro bit_word_eqI) (auto simp: bit_simps)
  finally show ?thesis .
qed

lemma be64_inj [simp]: "be64 x = be64 y \<longleftrightarrow> x = y"
  by (metis be64_def of_le64_le64 rev_rev_ident)

lemma be64_split: "be64 x = be32 (ucast (drop_bit 32 x)) @ be32 (ucast x)"
  by (simp add: be64_def be32_def le64_def)

text \<open>Reading a field in network order.\<close>

definition of_be32 :: "u8 list \<Rightarrow> u32" where
  "of_be32 bs = of_le32 (rev bs)"

definition of_be64 :: "u8 list \<Rightarrow> u64" where
  "of_be64 bs = of_le64 (rev bs)"

lemma of_be_be [simp, byte_simps]: "of_be32 (be32 x) = x" "of_be64 (be64 y) = y"
  by (simp_all add: of_be32_def of_be64_def be32_def be64_def)

section \<open>Stores and loads of C integers\<close>

definition store8 :: "nat \<Rightarrow> u8 \<Rightarrow> memory \<Rightarrow> memory res" where
  "store8 a x = store_bytes a [x]"

definition store32 :: "nat \<Rightarrow> u32 \<Rightarrow> memory \<Rightarrow> memory res" where
  "store32 a x = store_bytes a (le32 x)"

definition store64 :: "nat \<Rightarrow> u64 \<Rightarrow> memory \<Rightarrow> memory res" where
  "store64 a x = store_bytes a (le64 x)"

definition load32 :: "nat \<Rightarrow> memory \<Rightarrow> u32 res" where
  "load32 a m = bindR (load_bytes a 4 m) (\<lambda>bs. Inr (of_le32 bs))"

section \<open>Generic lemmas\<close>

text \<open>Masking with a power of two less one is the remainder: the ring index of the code.\<close>

lemma unat_and_mask: "unat (x AND mask k :: 'a::len word) = unat x mod 2 ^ k"
proof -
  have "unat (x AND mask k) = unat (take_bit k x)" by (simp only: take_bit_eq_mask)
  also have "\<dots> = take_bit k (unat x)" by (rule unsigned_take_bit_eq)
  finally show ?thesis by (simp only: take_bit_eq_mod)
qed

lemma unat_and_pow2:
  fixes x c :: "'a::len word"
  assumes "unat c = 2 ^ k"
  shows "unat (x AND (c - 1)) = unat x mod unat c"
proof -
  have "c = 2 ^ k"
    using assms by (metis of_nat_numeral of_nat_power of_nat_unat ucast_id)
  then have "c - 1 = mask k" by (simp add: mask_eq_exp_minus_1)
  then show ?thesis using assms by (simp add: unat_and_mask)
qed

lemma unat_u32_less: "unat (x :: u32) < 4294967296"
  using unsigned_less [of x] by simp

lemma unat_u8_less: "unat (x :: u8) < 256"
  using unsigned_less [of x] by simp

lemma unat_u64_less: "unat (x :: u64) < 18446744073709551616"
  using unsigned_less [of x] by simp

lemma list_all_nth: "list_all P xs \<Longrightarrow> i < length xs \<Longrightarrow> P (xs ! i)"
  by (simp add: list_all_length)

end
