(* ===== verification/Utils.thy ===== *)
theory Utils
  imports Prelude
begin

text \<open>
  \<open>src/rdma/utils.h\<close>: work-request counters that wrap around, the rounding division, the
  integer arrays used as bitmaps, and the copy of an IPv4 address. A bitmap is a C array of
  \<open>int\<close>; every access is checked against its length.
\<close>

section \<open>Counters\<close>

definition DIV_ROUND_UP :: "u32 \<Rightarrow> u32 \<Rightarrow> u32" where
  "DIV_ROUND_UP n d = (n + d - 1) div d"

definition cmp_counters :: "u32 \<Rightarrow> u32 \<Rightarrow> int" where
  "cmp_counters a b =
     (if a = b then 0
      else if a - b < 0xFFFFFFFF div 2 then 1
      else -1)"

text \<open>The conversion of the unsigned difference to the \<open>int\<close> result keeps its bits.\<close>

definition diff_counters :: "u32 \<Rightarrow> u32 \<Rightarrow> int" where
  "diff_counters a b = (if b \<le> a then sint (a - b) else sint (b - a))"

lemma DIV_ROUND_UP_ceil:
  assumes "0 < unat d" and "unat n + unat d \<le> 2 ^ 32"
  shows "unat (DIV_ROUND_UP n d) = (unat n + unat d - 1) div unat d"
proof -
  have pos: "0 < unat n + unat d" using assms(1) by simp
  have "unat (n + d - 1) = unat n + unat d - 1"
    using pos assms(2) unat_u32_less [of n] unat_u32_less [of d]
    by (auto simp: unat_sub_if' unat_plus_if')
  then show ?thesis by (simp add: DIV_ROUND_UP_def unat_div)
qed

lemma cmp_counters_refl [simp]: "cmp_counters a a = 0"
  by (simp add: cmp_counters_def)

lemma cmp_counters_range: "cmp_counters a b \<in> {-1, 0, 1}"
  by (simp add: cmp_counters_def)

lemma cmp_counters_eq_0 [simp]: "cmp_counters a b = 0 \<longleftrightarrow> a = b"
  by (simp add: cmp_counters_def)

text \<open>The comparison depends on the distance alone, so it survives the wrap of both counters.\<close>

lemma cmp_counters_shift: "cmp_counters (a + c) (b + c) = cmp_counters a b"
  by (simp add: cmp_counters_def)

lemma cmp_counters_ahead: "cmp_counters (b + d) b = (if d = 0 then 0 else if d < 0x7FFFFFFF then 1 else -1)"
  by (simp add: cmp_counters_def)

lemma cmp_counters_pos_iff: "cmp_counters a b > 0 \<longleftrightarrow> a \<noteq> b \<and> a - b < 0x7FFFFFFF"
  by (simp add: cmp_counters_def)

lemma unat_minus_swap: "a \<noteq> b \<Longrightarrow> unat (b - a) = 2 ^ 32 - unat (a - b)" for a b :: u32
proof -
  assume "a \<noteq> b"
  then have "unat a \<noteq> unat b" by (simp add: word_unat_eq_iff)
  then show ?thesis
    using unat_u32_less [of a] unat_u32_less [of b] by (auto simp: unat_sub_if')
qed

lemma cmp_counters_antisym: "cmp_counters a b = 1 \<Longrightarrow> cmp_counters b a = -1"
proof -
  assume *: "cmp_counters a b = 1"
  then have ne: "a \<noteq> b" and lt: "unat (a - b) < 0x7FFFFFFF"
    by (auto simp: cmp_counters_def word_less_nat_alt split: if_splits)
  then have "\<not> unat (b - a) < 0x7FFFFFFF" using unat_minus_swap [OF ne] by simp
  then show ?thesis using ne by (simp add: cmp_counters_def word_less_nat_alt)
qed

text \<open>Exactly three distances are \<open>older\<close> in both directions.\<close>

lemma cmp_counters_both_older:
  "cmp_counters a b = -1 \<and> cmp_counters b a = -1 \<longleftrightarrow> a - b \<in> {0x7FFFFFFF, 0x80000000, 0x80000001}"
proof (cases "a = b")
  case True
  then show ?thesis by simp
next
  case False
  have neg: "cmp_counters x y = -1 \<longleftrightarrow> 0x7FFFFFFF \<le> unat (x - y)" if "x \<noteq> y" for x y
    using that by (simp add: cmp_counters_def word_less_nat_alt not_less)
  have "cmp_counters a b = -1 \<and> cmp_counters b a = -1 \<longleftrightarrow>
      unat (a - b) \<in> {0x7FFFFFFF, 0x80000000, 0x80000001}"
    using neg [of a b] neg [of b a] False unat_minus_swap [OF False] unat_u32_less [of "a - b"] by auto
  also have "\<dots> \<longleftrightarrow> a - b \<in> {0x7FFFFFFF, 0x80000000, 0x80000001}"
    by (simp add: word_unat_eq_iff)
  finally show ?thesis .
qed

section \<open>Bitmaps\<close>

text \<open>The compare-and-swap of the compiler: the old value, and the array with the new one.\<close>

definition ibw_cmpxchg :: "int list \<Rightarrow> int \<Rightarrow> int \<Rightarrow> int \<Rightarrow> (int \<times> int list) res" where
  "ibw_cmpxchg xs i old new =
     bindR (read_int xs i) (\<lambda>v.
       if v = old then bindR (write_int xs i new) (\<lambda>ys. Inr (v, ys)) else Inr (v, xs))"

text \<open>The loop \<open>for (i = ...; i < n; i++) if (p (bitmap[i])) return i; return -1;\<close>\<close>

function find_from :: "(int \<Rightarrow> bool) \<Rightarrow> int list \<Rightarrow> int \<Rightarrow> int \<Rightarrow> int res" where
  "find_from p xs i n =
     (if i < n
      then bindR (read_int xs i) (\<lambda>x. if p x then Inr i else find_from p xs (i + 1) n)
      else Inr (-1))"
  by pat_completeness auto
termination
  by (relation "measure (\<lambda>(p, xs, i, n). nat (n - i))") auto

declare find_from.simps [simp del]

definition find_first_empty_bit :: "int list \<Rightarrow> int \<Rightarrow> int res" where
  "find_first_empty_bit bitmap n = find_from (\<lambda>x. x = 0) bitmap 0 n"

definition find_next_empty_bit :: "int \<Rightarrow> int list \<Rightarrow> int \<Rightarrow> int res" where
  "find_next_empty_bit idx bitmap n = find_from (\<lambda>x. x = 0) bitmap (idx + 1) n"

definition find_first_set_bit :: "int list \<Rightarrow> int \<Rightarrow> int res" where
  "find_first_set_bit bitmap n = find_from (\<lambda>x. x \<noteq> 0) bitmap 0 n"

definition find_next_set_bit :: "int \<Rightarrow> int list \<Rightarrow> int \<Rightarrow> int res" where
  "find_next_set_bit idx bitmap n = find_from (\<lambda>x. x \<noteq> 0) bitmap (idx + 1) n"

text \<open>The two loops that also write swap each entry until the old value tells them to stop.\<close>

function swap_from :: "(int \<Rightarrow> bool) \<Rightarrow> int \<Rightarrow> int \<Rightarrow> int list \<Rightarrow> int \<Rightarrow> int \<Rightarrow> (int \<times> int list) res" where
  "swap_from stop old new xs i n =
     (if i < n
      then bindR (ibw_cmpxchg xs i old new) (\<lambda>(v, ys).
             if stop v then Inr (i, ys) else swap_from stop old new ys (i + 1) n)
      else Inr (-1, xs))"
  by pat_completeness auto
termination
  by (relation "measure (\<lambda>(stop, old, new, xs, i, n). nat (n - i))") auto

declare swap_from.simps [simp del]

definition find_first_empty_bit_and_set :: "int list \<Rightarrow> int \<Rightarrow> (int \<times> int list) res" where
  "find_first_empty_bit_and_set bitmap n = swap_from (\<lambda>v. v = 0) 0 1 bitmap 0 n"

definition find_first_set_bit_and_empty :: "int list \<Rightarrow> int \<Rightarrow> (int \<times> int list) res" where
  "find_first_set_bit_and_empty bitmap n = swap_from (\<lambda>v. v \<noteq> 0) 1 0 bitmap 0 n"

function weight_from :: "int list \<Rightarrow> int \<Rightarrow> int \<Rightarrow> int \<Rightarrow> int res" where
  "weight_from xs i n w =
     (if i < n then bindR (read_int xs i) (\<lambda>x. weight_from xs (i + 1) n (w + x)) else Inr w)"
  by pat_completeness auto
termination
  by (relation "measure (\<lambda>(xs, i, n, w). nat (n - i))") auto

declare weight_from.simps [simp del]

definition find_bitmap_weight :: "int list \<Rightarrow> int \<Rightarrow> int res" where
  "find_bitmap_weight bitmap n = weight_from bitmap 0 n 0"


text \<open>The scan returns the first index that satisfies the test, or -1 when none does; it stays
  inside an array that is long enough.\<close>

definition first_hit :: "(int \<Rightarrow> bool) \<Rightarrow> int list \<Rightarrow> int \<Rightarrow> int \<Rightarrow> int \<Rightarrow> bool" where
  "first_hit p xs i n r \<longleftrightarrow>
     (r = -1 \<and> (\<forall>k. i \<le> k \<and> k < n \<longrightarrow> \<not> p (xs ! nat k))) \<or>
     (i \<le> r \<and> r < n \<and> p (xs ! nat r) \<and> (\<forall>k. i \<le> k \<and> k < r \<longrightarrow> \<not> p (xs ! nat k)))"

lemma find_from_first_hit:
  assumes "0 \<le> i" and "n \<le> int (length xs)"
  shows "\<exists>r. find_from p xs i n = Inr r \<and> first_hit p xs i n r"
  using assms
proof (induction p xs i n rule: find_from.induct)
  case (1 p xs i n)
  show ?case
  proof (cases "i < n")
    case False
    then show ?thesis by (auto simp: find_from.simps [of p xs i n] first_hit_def)
  next
    case True
    then have rd: "read_int xs i = Inr (xs ! nat i)" using "1.prems" by simp
    show ?thesis
    proof (cases "p (xs ! nat i)")
      case hit: True
      then show ?thesis using True rd by (auto simp: find_from.simps [of p xs i n] first_hit_def)
    next
      case miss: False
      then obtain r where r: "find_from p xs (i + 1) n = Inr r" "first_hit p xs (i + 1) n r"
        using "1.IH" [OF True rd miss] "1.prems" by auto
      have "\<not> p (xs ! nat k)" if "\<forall>k. i + 1 \<le> k \<and> k < m \<longrightarrow> \<not> p (xs ! nat k)" "i \<le> k" "k < m" for k m
        using that miss by (cases "k = i") auto
      then have "first_hit p xs i n r" using r(2) by (auto simp: first_hit_def)
      then show ?thesis using True rd miss r(1) by (simp add: find_from.simps [of p xs i n])
    qed
  qed
qed

lemma first_hit_unique: "first_hit p xs i n r \<Longrightarrow> first_hit p xs i n s \<Longrightarrow> 0 \<le> i \<Longrightarrow> r = s"
  by (auto simp: first_hit_def) (metis linorder_neqE_linordered_idom)+

lemma find_from_eq_iff:
  assumes "0 \<le> i" and "n \<le> int (length xs)"
  shows "find_from p xs i n = Inr r \<longleftrightarrow> first_hit p xs i n r"
  using find_from_first_hit [OF assms, of p] first_hit_unique assms(1) by fastforce

lemma find_from_range:
  assumes "find_from p xs i n = Inr r" and "r \<noteq> -1" and "0 \<le> i" and "n \<le> int (length xs)"
  shows "i \<le> r \<and> r < n \<and> p (xs ! nat r)"
  using assms find_from_eq_iff [of i n xs p r] by (auto simp: first_hit_def)

text \<open>A swapping loop that stops at every entry it would change changes one entry at most: the one
  the reading loop finds.\<close>

lemma swap_from_find_from:
  assumes "stop old" and "0 \<le> i"
  shows "swap_from stop old new xs i n =
    bindR (find_from stop xs i n) (\<lambda>r.
      Inr (r, if r \<noteq> -1 \<and> xs ! nat r = old then xs[nat r := new] else xs))"
  using assms
proof (induction stop old new xs i n rule: swap_from.induct)
  case (1 stop old new xs i n)
  show ?case
  proof (cases "i < n")
    case False
    then show ?thesis
      by (simp add: swap_from.simps [of stop old new xs i n] find_from.simps [of stop xs i n])
  next
    case True
    show ?thesis
    proof (cases "read_int xs i")
      case (Inl e)
      with True show ?thesis
        by (simp add: swap_from.simps [of stop old new xs i n] find_from.simps [of stop xs i n]
            ibw_cmpxchg_def)
    next
      case (Inr v)
      then have v: "nat i < length xs" "v = xs ! nat i" "0 \<le> i"
        by (auto simp: read_int_eq_Inr)
      show ?thesis
      proof (cases "stop v")
        case True
        with \<open>i < n\<close> Inr v "1.prems"(1) show ?thesis
          by (simp add: swap_from.simps [of stop old new xs i n] find_from.simps [of stop xs i n]
              ibw_cmpxchg_def)
      next
        case False
        then have ne: "v \<noteq> old" using "1.prems"(1) by auto
        then have c: "ibw_cmpxchg xs i old new = Inr (v, xs)" by (simp add: ibw_cmpxchg_def Inr)
        then show ?thesis
          using \<open>i < n\<close> Inr False "1.IH" [OF \<open>i < n\<close> c refl False] "1.prems"
          by (simp add: swap_from.simps [of stop old new xs i n] find_from.simps [of stop xs i n])
      qed
    qed
  qed
qed

lemma find_first_empty_bit_and_set_eq:
  "find_first_empty_bit_and_set xs n =
    bindR (find_first_empty_bit xs n) (\<lambda>r. Inr (r, if r \<noteq> -1 \<and> xs ! nat r = 0 then xs[nat r := 1] else xs))"
  by (simp add: find_first_empty_bit_and_set_def find_first_empty_bit_def swap_from_find_from)

lemma find_first_set_bit_and_empty_eq:
  "find_first_set_bit_and_empty xs n =
    bindR (find_first_set_bit xs n) (\<lambda>r. Inr (r, if r \<noteq> -1 \<and> xs ! nat r = 1 then xs[nat r := 0] else xs))"
  by (simp add: find_first_set_bit_and_empty_def find_first_set_bit_def swap_from_find_from)

lemma weight_from_sum:
  assumes "0 \<le> i" and "n \<le> int (length xs)"
  shows "weight_from xs i n w = Inr (w + sum_list (take (nat (n - i)) (drop (nat i) xs)))"
  using assms
proof (induction xs i n w rule: weight_from.induct)
  case (1 xs i n w)
  show ?case
  proof (cases "i < n")
    case False
    then show ?thesis by (simp add: weight_from.simps [of xs i n w])
  next
    case True
    then have i: "nat i < length xs" using "1.prems" by simp
    have "nat (n - i) = Suc (nat (n - (i + 1)))" using True by simp
    moreover have "drop (nat i) xs = xs ! nat i # drop (nat (i + 1)) xs"
      using i "1.prems"(1) by (simp add: Cons_nth_drop_Suc [symmetric] nat_add_distrib)
    ultimately show ?thesis
      using True i "1.prems" "1.IH" by (simp add: weight_from.simps [of xs i n w])
  qed
qed

lemma find_bitmap_weight_sum:
  "n \<le> int (length xs) \<Longrightarrow> find_bitmap_weight xs n = Inr (sum_list (take (nat n) xs))"
  by (simp add: find_bitmap_weight_def weight_from_sum)

lemma sum_list_bits: "set xs \<subseteq> {0, 1} \<Longrightarrow> sum_list xs = int (length (filter (\<lambda>b. b \<noteq> 0) xs))" for xs :: "int list"
  by (induction xs) auto

section \<open>Addresses\<close>

text \<open>A socket address storage holds an IPv4 address (port and address, in network order) or an
  address of another family.\<close>

datatype sockaddr_storage = AF_INET u16 u32 | AF_OTHER

type_synonym sockaddr_in = "u16 \<times> u32"

definition copy_ipv4_sockaddr :: "sockaddr_storage \<Rightarrow> sockaddr_in option" where
  "copy_ipv4_sockaddr a = (case a of AF_INET port addr \<Rightarrow> Some (port, addr) | AF_OTHER \<Rightarrow> None)"

end
