(* ===== verification/Table_Spec.thy ===== *)
theory Table_Spec
  imports Prelude
begin

text \<open>
  The interface between the connection code and the hash table it keeps its records in: records
  are linked in and out by address and found by key. What the connection lookups rely on is proved
  here once, from the laws; \<open>Uthash\<close> discharges the laws for the table of
  \<open>src/rdma/uthash.h\<close>.
\<close>

locale keyed_table =
  fixes invar :: "'t \<Rightarrow> bool"
    and room :: "'t \<Rightarrow> bool"
    and contents :: "'t \<Rightarrow> (nat \<times> 'k \<times> 'v) list"
    and search :: "'t \<Rightarrow> 'k \<Rightarrow> (nat \<times> 'v) option res"
    and link :: "nat \<Rightarrow> 'k \<Rightarrow> 'v \<Rightarrow> 't \<Rightarrow> 't res"
    and unlink :: "nat \<Rightarrow> 't \<Rightarrow> 't res"
    and new :: 't
  assumes new_ok: "invar new" "contents new = []"
    and contents_distinct: "invar t \<Longrightarrow> distinct (map fst (contents t))"
    and search_ok: "invar t \<Longrightarrow> \<exists>r. search t k = Inr r \<and>
      (case r of None \<Rightarrow> k \<notin> (\<lambda>x. fst (snd x)) ` set (contents t)
       | Some (e, v) \<Rightarrow> (e, k, v) \<in> set (contents t))"
    and link_ok: "invar t \<Longrightarrow> room t \<Longrightarrow> e \<notin> fst ` set (contents t) \<Longrightarrow>
      \<exists>t'. link e k v t = Inr t' \<and> invar t' \<and> contents t' = contents t @ [(e, k, v)]"
    and unlink_ok: "invar t \<Longrightarrow> e \<in> fst ` set (contents t) \<Longrightarrow>
      \<exists>t'. unlink e t = Inr t' \<and> invar t' \<and> contents t' = filter (\<lambda>x. fst x \<noteq> e) (contents t)"
begin

text \<open>A table whose keys are distinct is a map.\<close>

definition keys_distinct :: "'t \<Rightarrow> bool" where
  "keys_distinct t = distinct (map (\<lambda>x. fst (snd x)) (contents t))"

definition as_map :: "'t \<Rightarrow> 'k \<rightharpoonup> nat \<times> 'v" where
  "as_map t = map_of (map (\<lambda>x. (fst (snd x), (fst x, snd (snd x)))) (contents t))"

lemma as_map_eq_Some:
  "keys_distinct t \<Longrightarrow> as_map t k = Some (e, v) \<longleftrightarrow> (e, k, v) \<in> set (contents t)"
  unfolding as_map_def keys_distinct_def
  by (subst map_of_eq_Some_iff) (force simp: comp_def image_iff)+

lemma as_map_eq_None: "as_map t k = None \<longleftrightarrow> k \<notin> (\<lambda>x. fst (snd x)) ` set (contents t)"
  unfolding as_map_def map_of_eq_None_iff by (force simp: image_iff)

lemma search_as_map:
  assumes "invar t" and "keys_distinct t"
  shows "search t k = Inr (as_map t k)"
proof -
  obtain r where r: "search t k = Inr r" "case r of
      None \<Rightarrow> k \<notin> (\<lambda>x. fst (snd x)) ` set (contents t) | Some (e, v) \<Rightarrow> (e, k, v) \<in> set (contents t)"
    using search_ok [OF assms(1)] by blast
  have "as_map t k = r"
    using r(2) as_map_eq_Some [OF assms(2), of k] as_map_eq_None [of t k] by (cases r) auto
  then show ?thesis using r(1) by simp
qed

lemma search_present:
  assumes "invar t" and "(e, k, v) \<in> set (contents t)"
  shows "\<exists>e' v'. search t k = Inr (Some (e', v')) \<and> (e', k, v') \<in> set (contents t)"
  using search_ok [OF assms(1), of k] assms(2) by (force split: option.splits)

lemma search_absent:
  assumes "invar t" and "k \<notin> (\<lambda>x. fst (snd x)) ` set (contents t)"
  shows "search t k = Inr None"
  using search_ok [OF assms(1), of k] assms(2) by (force split: option.splits)

lemma link_new_key:
  assumes "invar t" "room t" "keys_distinct t" "e \<notin> fst ` set (contents t)" "as_map t k = None"
  shows "\<exists>t'. link e k v t = Inr t' \<and> invar t' \<and> keys_distinct t' \<and>
    as_map t' = (as_map t)(k \<mapsto> (e, v))"
proof -
  obtain t' where t': "link e k v t = Inr t'" "invar t'" "contents t' = contents t @ [(e, k, v)]"
    using link_ok [OF assms(1,2,4)] by blast
  have none: "k \<notin> (\<lambda>x. fst (snd x)) ` set (contents t)"
    using assms(5) by (simp add: as_map_eq_None)
  then have d: "keys_distinct t'"
    using assms(3) by (simp add: keys_distinct_def t'(3))
  have "as_map t' = [k \<mapsto> (e, v)] ++ as_map t"
    by (simp add: as_map_def t'(3))
  also have "\<dots> = (as_map t)(k \<mapsto> (e, v))"
    using assms(5) by (auto simp: map_add_def split: option.splits)
  finally have "as_map t' = (as_map t)(k \<mapsto> (e, v))" .
  then show ?thesis using t' d by blast
qed

lemma unlink_key:
  assumes "invar t" "keys_distinct t" "as_map t k = Some (e, v)"
  shows "\<exists>t'. unlink e t = Inr t' \<and> invar t' \<and> keys_distinct t' \<and> as_map t' = (as_map t)(k := None)"
proof -
  have mem: "(e, k, v) \<in> set (contents t)" using as_map_eq_Some [OF assms(2)] assms(3) by simp
  then obtain t' where t': "unlink e t = Inr t'" "invar t'"
    "contents t' = filter (\<lambda>x. fst x \<noteq> e) (contents t)"
    using unlink_ok [OF assms(1), of e] by force
  have d: "keys_distinct t'"
    using assms(2) by (simp add: keys_distinct_def t'(3) distinct_map_filter)
  have same: "x = (e, k, v)" if "x \<in> set (contents t)" "fst x = e" for x
    using contents_distinct [OF assms(1)] that mem
    by (metis distinct_map fst_conv inj_onD)
  have "as_map t' q = ((as_map t)(k := None)) q" for q
  proof (cases "as_map t' q")
    case None
    have "q = k" if "as_map t q = Some p" for p
    proof (rule ccontr)
      assume "q \<noteq> k"
      have in_t: "(fst p, q, snd p) \<in> set (contents t)"
        using as_map_eq_Some [OF assms(2), of q "fst p" "snd p"] that by simp
      then have "fst p \<noteq> e" using same [of "(fst p, q, snd p)"] \<open>q \<noteq> k\<close> by auto
      then have "(fst p, q, snd p) \<in> set (contents t')" using in_t by (simp add: t'(3))
      then show False using None as_map_eq_Some [OF d, of q "fst p" "snd p"] by simp
    qed
    then show ?thesis using None by (cases "as_map t q") auto
  next
    case (Some p)
    then have "(fst p, q, snd p) \<in> set (contents t')"
      using as_map_eq_Some [OF d, of q "fst p" "snd p"] by simp
    then have in_t: "(fst p, q, snd p) \<in> set (contents t)" and ne: "fst p \<noteq> e" by (simp_all add: t'(3))
    have "as_map t q = Some p" using as_map_eq_Some [OF assms(2), of q "fst p" "snd p"] in_t by simp
    moreover have "q \<noteq> k" using assms(3) ne \<open>as_map t q = Some p\<close> by auto
    ultimately show ?thesis using Some by simp
  qed
  then show ?thesis using t' d by blast
qed

text \<open>Deleting the record at hand while walking the records in order empties the table.\<close>

lemma unlink_all:
  assumes "invar t"
  shows "\<exists>t'. foldR unlink (map fst (contents t)) t = Inr t' \<and> invar t' \<and> contents t' = []"
proof -
  have "\<exists>t'. foldR unlink es t = Inr t' \<and> invar t' \<and> contents t' = []"
    if "invar t" "map fst (contents t) = es" for es
    using that
  proof (induction es arbitrary: t)
    case (Cons e es)
    then have "e \<in> fst ` set (contents t)" by (metis list.set_intros(1) list.set_map)
    then obtain t1 where 1: "unlink e t = Inr t1" "invar t1"
      "contents t1 = filter (\<lambda>x. fst x \<noteq> e) (contents t)"
      using unlink_ok [OF Cons.prems(1)] by blast
    obtain x xs where xs: "contents t = x # xs" "fst x = e" "map fst xs = es"
      using Cons.prems(2) by (cases "contents t") auto
    have "e \<notin> set es" using contents_distinct [OF Cons.prems(1)] xs by auto
    then have "filter (\<lambda>x. fst x \<noteq> e) xs = xs" using xs(3) by (intro filter_True) force
    then have "map fst (contents t1) = es" using 1(3) xs by simp
    from Cons.IH [OF 1(2) this] show ?case using 1(1) by simp
  qed auto
  then show ?thesis using assms by blast
qed

end

end
