(* ===== verification/Uthash.thy ===== *)
theory Uthash
  imports Utils Table_Spec "HOL-Library.Multiset"
begin

text \<open>
  \<open>src/rdma/uthash.h\<close>: the hash table the connection code keeps its records in. A handle
  stands for one record: its address, its key, the hash value of the key and the record itself. The
  chain of a bucket is the list from \<open>hh_head\<close> along \<open>hh_next\<close>; the application order is the
  list from the table's head along \<open>next\<close>, whose last handle is \<open>tail\<close>. A null head is
  \<open>None\<close>. Records of one table have keys of one C type, so that equal key lengths come for
  free and \<open>memcmp\<close> is equality. Allocation is assumed to succeed.
\<close>

section \<open>Hash functions\<close>

definition HASH_JEN_MIX :: "u32 \<times> u32 \<times> u32 \<Rightarrow> u32 \<times> u32 \<times> u32" where
  "HASH_JEN_MIX = (\<lambda>(a, b, c).
     let a = a - b; a = a - c; a = a XOR drop_bit 13 c;
         b = b - c; b = b - a; b = b XOR push_bit 8 a;
         c = c - a; c = c - b; c = c XOR drop_bit 13 b;
         a = a - b; a = a - c; a = a XOR drop_bit 12 c;
         b = b - c; b = b - a; b = b XOR push_bit 16 a;
         c = c - a; c = c - b; c = c XOR drop_bit 5 b;
         a = a - b; a = a - c; a = a XOR drop_bit 3 c;
         b = b - c; b = b - a; b = b XOR push_bit 10 a;
         c = c - a; c = c - b; c = c XOR drop_bit 15 b
     in (a, b, c))"

definition byte_sum :: "u8 \<Rightarrow> u8 \<Rightarrow> u8 \<Rightarrow> u8 \<Rightarrow> u32" where
  "byte_sum b0 b1 b2 b3 =
     ucast b0 + push_bit 8 (ucast b1) + push_bit 16 (ucast b2) + push_bit 24 (ucast b3)"

text \<open>The last bytes, fewer than twelve: the \<open>switch\<close> falls through from the number of bytes
  left, so each byte that is there is added at its place. The first byte of the third word is taken
  by the key length.\<close>

definition jen_tail :: "u8 list \<Rightarrow> u32 \<times> u32 \<times> u32 \<Rightarrow> u32 \<times> u32 \<times> u32" where
  "jen_tail ks = (\<lambda>(i, j, hv).
     let b = (\<lambda>n. if n < length ks then ks ! n else 0)
     in (i + byte_sum (b 0) (b 1) (b 2) (b 3),
         j + byte_sum (b 4) (b 5) (b 6) (b 7),
         hv + push_bit 8 (ucast (b 8)) + push_bit 16 (ucast (b 9)) + push_bit 24 (ucast (b 10))))"

fun jen_loop :: "u32 \<Rightarrow> u8 list \<Rightarrow> u32 \<times> u32 \<times> u32 \<Rightarrow> u32 \<times> u32 \<times> u32" where
  "jen_loop len (k0 # k1 # k2 # k3 # k4 # k5 # k6 # k7 # k8 # k9 # k10 # k11 # ks) (i, j, hv) =
     jen_loop len ks (HASH_JEN_MIX
       (i + byte_sum k0 k1 k2 k3, j + byte_sum k4 k5 k6 k7, hv + byte_sum k8 k9 k10 k11))"
| "jen_loop len ks (i, j, hv) = HASH_JEN_MIX (jen_tail ks (i, j, hv + len))"

definition HASH_JEN :: "u8 list \<Rightarrow> u32" where
  "HASH_JEN key =
     snd (snd (jen_loop (of_nat (length key)) key (0x9e3779b9, 0x9e3779b9, 0xfeedbeef)))"

section \<open>The table\<close>

record ('k, 'v) UT_hash_handle =
  elmt :: nat
  hkey :: 'k
  hashv :: u32
  item :: 'v

record ('k, 'v) UT_hash_bucket =
  hh_head :: "('k, 'v) UT_hash_handle list"
  bkt_count :: u32
  expand_mult :: u32

record ('k, 'v) UT_hash_table =
  buckets :: "('k, 'v) UT_hash_bucket list"
  num_buckets :: u32
  log2_num_buckets :: u32
  num_items :: u32
  app_order :: "('k, 'v) UT_hash_handle list"
  ideal_chain_maxlen :: u32
  nonideal_items :: u32
  ineff_expands :: u32
  noexpand :: bool

type_synonym ('k, 'v) hash_head = "('k, 'v) UT_hash_table option"

definition empty_bucket :: "('k, 'v) UT_hash_bucket" where
  "empty_bucket = \<lparr>hh_head = [], bkt_count = 0, expand_mult = 0\<rparr>"

definition HASH_MAKE_TABLE :: "('k, 'v) UT_hash_handle \<Rightarrow> ('k, 'v) UT_hash_table" where
  "HASH_MAKE_TABLE h =
     \<lparr>buckets = replicate 32 empty_bucket, num_buckets = 32, log2_num_buckets = 5, num_items = 0,
      app_order = [h], ideal_chain_maxlen = 0, nonideal_items = 0, ineff_expands = 0,
      noexpand = False\<rparr>"

definition HASH_TO_BKT :: "u32 \<Rightarrow> u32 \<Rightarrow> nat" where
  "HASH_TO_BKT hv num_bkts = unat (hv AND (num_bkts - 1))"

definition HASH_FIND_IN_BKT ::
  "('k, 'v) UT_hash_bucket \<Rightarrow> 'k \<Rightarrow> u32 \<Rightarrow> ('k, 'v) UT_hash_handle option" where
  "HASH_FIND_IN_BKT b key hv = find (\<lambda>h. hashv h = hv \<and> hkey h = key) (hh_head b)"

definition HASH_FIND ::
  "('k \<Rightarrow> u32) \<Rightarrow> ('k, 'v) hash_head \<Rightarrow> 'k \<Rightarrow> ('k, 'v) UT_hash_handle option res" where
  "HASH_FIND hf head key =
     (case head of
        None \<Rightarrow> Inr None
      | Some t \<Rightarrow>
          bindR (read_at (buckets t) (HASH_TO_BKT (hf key) (num_buckets t))) (\<lambda>b.
            Inr (HASH_FIND_IN_BKT b key (hf key))))"

text \<open>One step of the redistribution: the handle is pushed on its new bucket.\<close>

definition expand_one ::
  "u32 \<Rightarrow> u32 \<Rightarrow> ('k, 'v) UT_hash_handle \<Rightarrow> ('k, 'v) UT_hash_bucket list \<times> u32
    \<Rightarrow> (('k, 'v) UT_hash_bucket list \<times> u32) res" where
  "expand_one ideal nb h = (\<lambda>(bs, nonideal).
     let i = HASH_TO_BKT (hashv h) nb
     in bindR (read_at bs i) (\<lambda>b.
          let c = bkt_count b + 1;
              nonideal' = (if c > ideal then nonideal + 1 else nonideal);
              mult = (if c > ideal \<and> c > expand_mult b * ideal then expand_mult b + 1
                      else expand_mult b)
          in bindR (write_at bs i \<lparr>hh_head = h # hh_head b, bkt_count = c, expand_mult = mult\<rparr>)
               (\<lambda>bs'. Inr (bs', nonideal'))))"

definition HASH_EXPAND_BUCKETS ::
  "('k, 'v) UT_hash_table \<Rightarrow> ('k, 'v) UT_hash_table res" where
  "HASH_EXPAND_BUCKETS t =
     (let nb = num_buckets t * 2;
          ideal = drop_bit (unat (log2_num_buckets t + 1)) (num_items t) +
                  (if num_items t AND (nb - 1) \<noteq> 0 then 1 else 0)
      in bindR (foldR (expand_one ideal nb)
                 (concat (map hh_head (take (unat (num_buckets t)) (buckets t))))
                 (replicate (unat (num_buckets t) * 2) empty_bucket, 0)) (\<lambda>(bs, nonideal).
           let ineff = (if nonideal > drop_bit 1 (num_items t) then ineff_expands t + 1 else 0)
           in Inr (t\<lparr>buckets := bs, num_buckets := nb, log2_num_buckets := log2_num_buckets t + 1,
                     ideal_chain_maxlen := ideal, nonideal_items := nonideal,
                     ineff_expands := ineff,
                     noexpand := (if ineff > 1 then True else noexpand t)\<rparr>)))"

definition HASH_ADD_TO_BKT ::
  "nat \<Rightarrow> ('k, 'v) UT_hash_handle \<Rightarrow> ('k, 'v) UT_hash_table \<Rightarrow> ('k, 'v) UT_hash_table res" where
  "HASH_ADD_TO_BKT i h t =
     bindR (read_at (buckets t) i) (\<lambda>b.
       let b' = b\<lparr>hh_head := h # hh_head b, bkt_count := bkt_count b + 1\<rparr>
       in bindR (write_at (buckets t) i b') (\<lambda>bs.
            let t' = t\<lparr>buckets := bs\<rparr>
            in if bkt_count b' \<ge> (expand_mult b' + 1) * 10 \<and> \<not> noexpand t'
               then HASH_EXPAND_BUCKETS t' else Inr t'))"

definition HASH_ADD_TO_TABLE ::
  "('k, 'v) UT_hash_handle \<Rightarrow> ('k, 'v) UT_hash_table \<Rightarrow> ('k, 'v) UT_hash_table res" where
  "HASH_ADD_TO_TABLE h t =
     (let t' = t\<lparr>num_items := num_items t + 1\<rparr>
      in HASH_ADD_TO_BKT (HASH_TO_BKT (hashv h) (num_buckets t')) h t')"

definition HASH_ADD ::
  "('k \<Rightarrow> u32) \<Rightarrow> nat \<Rightarrow> 'k \<Rightarrow> 'v \<Rightarrow> ('k, 'v) hash_head \<Rightarrow> ('k, 'v) hash_head res" where
  "HASH_ADD hf e key v head =
     (let h = \<lparr>elmt = e, hkey = key, hashv = hf key, item = v\<rparr>;
          t = (case head of
                 None \<Rightarrow> HASH_MAKE_TABLE h
               | Some t \<Rightarrow> t\<lparr>app_order := app_order t @ [h]\<rparr>)
      in bindR (HASH_ADD_TO_TABLE h t) (\<lambda>t'. Inr (Some t')))"

definition HASH_DEL_IN_BKT ::
  "('k, 'v) UT_hash_handle \<Rightarrow> ('k, 'v) UT_hash_bucket \<Rightarrow> ('k, 'v) UT_hash_bucket" where
  "HASH_DEL_IN_BKT h b = b\<lparr>hh_head := remove1 h (hh_head b), bkt_count := bkt_count b - 1\<rparr>"

text \<open>Deletion is given the record's address; a record that is not in the table has no valid
  handle. The last record takes the table with it.\<close>

definition HASH_DELETE :: "nat \<Rightarrow> ('k, 'v) hash_head \<Rightarrow> ('k, 'v) hash_head res" where
  "HASH_DELETE e head =
     bindR (of_option (Fault NullDeref) head) (\<lambda>t.
       bindR (of_option (Fault UseAfterFree) (find (\<lambda>h. elmt h = e) (app_order t))) (\<lambda>h.
         if length (app_order t) = 1 then Inr None
         else
           let i = HASH_TO_BKT (hashv h) (num_buckets t);
               t' = t\<lparr>app_order := remove1 h (app_order t)\<rparr>
           in bindR (read_at (buckets t') i) (\<lambda>b.
                bindR (write_at (buckets t') i (HASH_DEL_IN_BKT h b)) (\<lambda>bs.
                  Inr (Some (t'\<lparr>buckets := bs, num_items := num_items t' - 1\<rparr>))))))"

definition HASH_CNT :: "('k, 'v) hash_head \<Rightarrow> u32" where
  "HASH_CNT head = (case head of None \<Rightarrow> 0 | Some t \<Rightarrow> num_items t)"

text \<open>\<open>HASH_ITER\<close> visits the records in application order and reads the next one before the body
  runs, so that the body may delete the current one: the loop that empties a table.\<close>

definition HASH_ITER :: "('k, 'v) hash_head \<Rightarrow> nat list" where
  "HASH_ITER head = (case head of None \<Rightarrow> [] | Some t \<Rightarrow> map elmt (app_order t))"

definition delete_all :: "('k, 'v) hash_head \<Rightarrow> ('k, 'v) hash_head res" where
  "delete_all head = foldR HASH_DELETE (HASH_ITER head) head"

section \<open>The invariant of a table\<close>

text \<open>Each chain holds the records of the application order that hash to its bucket, in some
  order (an expansion reverses chains), and the counters count.\<close>

definition bucket_ok ::
  "u32 \<Rightarrow> ('k, 'v) UT_hash_handle list \<Rightarrow> nat \<Rightarrow> ('k, 'v) UT_hash_bucket \<Rightarrow> bool" where
  "bucket_ok nb hs i b \<longleftrightarrow>
     mset (hh_head b) = mset (filter (\<lambda>h. HASH_TO_BKT (hashv h) nb = i) hs) \<and>
     bkt_count b = of_nat (length (hh_head b))"

definition table_inv :: "('k \<Rightarrow> u32) \<Rightarrow> ('k, 'v) UT_hash_table \<Rightarrow> bool" where
  "table_inv hf t \<longleftrightarrow>
     unat (num_buckets t) = 2 ^ unat (log2_num_buckets t) \<and>
     length (buckets t) = unat (num_buckets t) \<and>
     app_order t \<noteq> [] \<and>
     distinct (map elmt (app_order t)) \<and>
     list_all (\<lambda>h. hashv h = hf (hkey h)) (app_order t) \<and>
     list_all (\<lambda>i. bucket_ok (num_buckets t) (app_order t) i (buckets t ! i))
       [0..<length (buckets t)] \<and>
     num_items t = of_nat (length (app_order t))"

definition hash_inv :: "('k \<Rightarrow> u32) \<Rightarrow> ('k, 'v) hash_head \<Rightarrow> bool" where
  "hash_inv hf head = (case head of None \<Rightarrow> True | Some t \<Rightarrow> table_inv hf t)"

text \<open>Room for one more expansion without wrapping the 32-bit bucket counter.\<close>

definition hash_room :: "('k, 'v) hash_head \<Rightarrow> bool" where
  "hash_room head = (case head of None \<Rightarrow> True | Some t \<Rightarrow> unat (num_buckets t) \<le> 2 ^ 30)"

text \<open>What a table means: the records in application order.\<close>

definition entries :: "('k, 'v) hash_head \<Rightarrow> (nat \<times> 'k \<times> 'v) list" where
  "entries head = (case head of None \<Rightarrow> []
     | Some t \<Rightarrow> map (\<lambda>h. (elmt h, hkey h, item h)) (app_order t))"

lemma HASH_TO_BKT_mod:
  "unat nb = 2 ^ k \<Longrightarrow> HASH_TO_BKT hv nb = unat hv mod unat nb"
  by (simp add: HASH_TO_BKT_def unat_and_pow2)

lemma HASH_TO_BKT_less:
  assumes "unat nb = 2 ^ k"
  shows "HASH_TO_BKT hv nb < unat nb"
proof -
  have "0 < unat nb" using assms by simp
  then show ?thesis by (simp add: HASH_TO_BKT_mod [OF assms])
qed

lemma table_invD:
  assumes "table_inv hf t"
  shows "unat (num_buckets t) = 2 ^ unat (log2_num_buckets t)"
    and "length (buckets t) = unat (num_buckets t)"
    and "app_order t \<noteq> []" and "distinct (map elmt (app_order t))"
    and "h \<in> set (app_order t) \<Longrightarrow> hashv h = hf (hkey h)"
    and "i < length (buckets t) \<Longrightarrow> bucket_ok (num_buckets t) (app_order t) i (buckets t ! i)"
    and "num_items t = of_nat (length (app_order t))"
    and "HASH_TO_BKT hv (num_buckets t) < length (buckets t)"
  using assms HASH_TO_BKT_less [of "num_buckets t" "unat (log2_num_buckets t)" hv]
  by (auto simp: table_inv_def list_all_iff)

lemma bucket_mem:
  assumes "bucket_ok nb hs i b"
  shows "h \<in> set (hh_head b) \<longleftrightarrow> h \<in> set hs \<and> HASH_TO_BKT (hashv h) nb = i"
proof -
  have "set (hh_head b) = set (filter (\<lambda>h. HASH_TO_BKT (hashv h) nb = i) hs)"
    using assms by (metis bucket_ok_def set_mset_mset)
  then show ?thesis by auto
qed

section \<open>Lookup\<close>

lemma find_Some_D: "find P xs = Some x \<Longrightarrow> P x \<and> x \<in> set xs"
  by (induction xs) (auto split: if_splits)

theorem HASH_FIND_spec:
  assumes "hash_inv hf head"
  shows "\<exists>r. HASH_FIND hf head key = Inr r \<and>
    (case r of None \<Rightarrow> key \<notin> (\<lambda>x. fst (snd x)) ` set (entries head)
     | Some h \<Rightarrow> hkey h = key \<and> (elmt h, key, item h) \<in> set (entries head))"
proof (cases head)
  case None
  then show ?thesis by (simp add: HASH_FIND_def entries_def)
next
  case (Some t)
  then have inv: "table_inv hf t" using assms by (simp add: hash_inv_def)
  let ?i = "HASH_TO_BKT (hf key) (num_buckets t)"
  note i = table_invD(8) [OF inv, of "hf key"]
  note mem = bucket_mem [OF table_invD(6) [OF inv i]]
  have run: "HASH_FIND hf head key = Inr (HASH_FIND_IN_BKT (buckets t ! ?i) key (hf key))"
    using i Some by (simp add: HASH_FIND_def)
  show ?thesis
  proof (cases "HASH_FIND_IN_BKT (buckets t ! ?i) key (hf key)")
    case None
    then have "\<not> (\<exists>h \<in> set (app_order t). hkey h = key)"
      using mem table_invD(5) [OF inv] unfolding HASH_FIND_IN_BKT_def find_None_iff by metis
    then show ?thesis using run None Some by (auto simp: entries_def)
  next
    case (Some h)
    then have "hkey h = key \<and> h \<in> set (app_order t)"
      using mem [of h] find_Some_D unfolding HASH_FIND_IN_BKT_def by fastforce
    then show ?thesis using run Some \<open>head = Some t\<close> by (force simp: entries_def)
  qed
qed

section \<open>Expansion\<close>

lemma expand_fold:
  assumes "\<And>h. h \<in> set xs \<Longrightarrow> HASH_TO_BKT (hashv h) nb < length bs"
  shows "\<exists>bs' n'. foldR (expand_one ideal nb) xs (bs, n) = Inr (bs', n') \<and> length bs' = length bs \<and>
    (\<forall>i < length bs.
       hh_head (bs' ! i) = rev (filter (\<lambda>h. HASH_TO_BKT (hashv h) nb = i) xs) @ hh_head (bs ! i) \<and>
       bkt_count (bs' ! i) = bkt_count (bs ! i) +
         of_nat (length (filter (\<lambda>h. HASH_TO_BKT (hashv h) nb = i) xs)))"
  using assms
proof (induction xs arbitrary: bs n)
  case Nil
  then show ?case by simp
next
  case (Cons h xs)
  let ?i = "HASH_TO_BKT (hashv h) nb"
  have i: "?i < length bs" using Cons.prems by simp
  obtain bs1 n1 where 1: "expand_one ideal nb h (bs, n) = Inr (bs1, n1)"
    and l1: "length bs1 = length bs"
    and c1: "\<And>j. j < length bs \<Longrightarrow> hh_head (bs1 ! j) = (if j = ?i then [h] else []) @ hh_head (bs ! j) \<and>
       bkt_count (bs1 ! j) = bkt_count (bs ! j) + (if j = ?i then 1 else 0)"
    using i by (auto simp: expand_one_def Let_def)
  have "\<And>x. x \<in> set xs \<Longrightarrow> HASH_TO_BKT (hashv x) nb < length bs1"
    using Cons.prems l1 by simp
  from Cons.IH [OF this, of n1] show ?case
    using 1 l1 c1 by (auto simp: ac_simps)
qed

lemma bucket_partition:
  fixes f :: "'a \<Rightarrow> nat"
  assumes "\<And>x. x \<in># M \<Longrightarrow> f x < N"
  shows "(\<Sum>i \<in> {0..<N}. filter_mset (\<lambda>x. f x = i) M) = M"
proof (rule multiset_eqI)
  fix x
  have "count (\<Sum>i \<in> {0..<N}. filter_mset (\<lambda>x. f x = i) M) x =
      (\<Sum>i \<in> {0..<N}. if f x = i then count M x else 0)"
    by (simp add: count_sum)
  also have "\<dots> = count M x"
    using assms [of x] by (cases "x \<in># M") (simp_all add: not_in_iff cong: if_cong)
  finally show "count (\<Sum>i \<in> {0..<N}. filter_mset (\<lambda>x. f x = i) M) x = count M x" .
qed

lemma chains_mset:
  assumes "length bs = unat nb" and "unat nb = 2 ^ k"
    and "\<And>i. i < length bs \<Longrightarrow> bucket_ok nb hs i (bs ! i)"
  shows "mset (concat (map hh_head bs)) = mset hs"
proof -
  have "mset (concat (map hh_head bs)) = (\<Sum>i \<in> {0..<length bs}. mset (hh_head (bs ! i)))"
    by (simp add: mset_concat sum_list_sum_nth comp_def)
  also have "\<dots> = (\<Sum>i \<in> {0..<length bs}. filter_mset (\<lambda>h. HASH_TO_BKT (hashv h) nb = i) (mset hs))"
    using assms(3) by (intro sum.cong) (auto simp: bucket_ok_def)
  also have "\<dots> = mset hs"
    using HASH_TO_BKT_less [OF assms(2)] assms(1) by (intro bucket_partition) auto
  finally show ?thesis .
qed

lemma double_pow2:
  fixes nb k :: u32
  assumes "unat nb = 2 ^ unat k" and "unat nb \<le> 2 ^ 30"
  shows "unat (nb * 2) = 2 ^ unat (k + 1)" and "unat (nb * 2) = unat nb * 2"
    and "unat (k + 1) = Suc (unat k)"
proof -
  have "(2::nat) ^ unat k \<le> 2 ^ 30" using assms by simp
  then have k: "unat k \<le> 30" by (rule power_le_imp_le_exp [rotated]) simp
  then show k1: "unat (k + 1) = Suc (unat k)" by (simp add: unat_plus_if')
  have "unat nb * 2 < 2 ^ 32" using assms(2) by simp
  then show two: "unat (nb * 2) = unat nb * 2" by (simp add: unat_mult_lem [THEN iffD1])
  show "unat (nb * 2) = 2 ^ unat (k + 1)" unfolding two k1 using assms(1) by simp
qed

lemma HASH_EXPAND_BUCKETS_ok:
  fixes t :: "('a, 'b) UT_hash_table"
  assumes inv: "table_inv hf t" and room: "unat (num_buckets t) \<le> 2 ^ 30"
  shows "\<exists>t'. HASH_EXPAND_BUCKETS t = Inr t' \<and> table_inv hf t' \<and> app_order t' = app_order t \<and>
    unat (num_buckets t') = 2 * unat (num_buckets t)"
proof -
  let ?nb = "num_buckets t * 2"
  note D = table_invD [OF inv]
  note two = double_pow2 [OF D(1) room]
  let ?xs = "concat (map hh_head (take (unat (num_buckets t)) (buckets t)))"
  let ?bs = "replicate (unat (num_buckets t) * 2) empty_bucket :: ('a, 'b) UT_hash_bucket list"
  have mset: "mset ?xs = mset (app_order t)"
    using chains_mset [OF D(2,1)] D(2,6) by simp
  have lt: "HASH_TO_BKT (hashv h) ?nb < length ?bs" for h :: "('a, 'b) UT_hash_handle"
    using HASH_TO_BKT_less [OF two(1)] two(2) by simp
  define ideal where "ideal = drop_bit (unat (log2_num_buckets t + 1)) (num_items t) +
                  (if num_items t AND (?nb - 1) \<noteq> 0 then 1 else 0)"
  obtain bs' n' where f: "foldR (expand_one ideal ?nb) ?xs (?bs, 0) = Inr (bs', n')"
    and l: "length bs' = length ?bs"
    and b: "\<And>i. i < length ?bs \<Longrightarrow>
       hh_head (bs' ! i) = rev (filter (\<lambda>h. HASH_TO_BKT (hashv h) ?nb = i) ?xs) @ hh_head (?bs ! i) \<and>
       bkt_count (bs' ! i) = bkt_count (?bs ! i) +
         of_nat (length (filter (\<lambda>h. HASH_TO_BKT (hashv h) ?nb = i) ?xs))"
    using expand_fold [where xs = ?xs and nb = ?nb and bs = ?bs and ideal = ideal and n = 0, OF lt]
    by blast
  have "bucket_ok ?nb (app_order t) i (bs' ! i)" if "i < length ?bs" for i
  proof -
    let ?P = "\<lambda>h. HASH_TO_BKT (hashv h) ?nb = i"
    have "hh_head (bs' ! i) = rev (filter ?P ?xs)" "bkt_count (bs' ! i) = of_nat (length (filter ?P ?xs))"
      using b [OF that] that by (simp_all add: empty_bucket_def)
    moreover have "mset (filter ?P ?xs) = mset (filter ?P (app_order t))"
      unfolding mset_filter mset ..
    ultimately show ?thesis by (simp add: bucket_ok_def)
  qed
  then have ok: "list_all (\<lambda>i. bucket_ok ?nb (app_order t) i (bs' ! i)) [0..<length bs']"
    using l by (simp add: list_all_iff)
  show ?thesis
    unfolding HASH_EXPAND_BUCKETS_def Let_def ideal_def [symmetric] f bindR_Inr prod.case
    using ok l two D(3,4,5,7) by (simp add: table_inv_def list_all_iff)
qed

section \<open>Insertion\<close>

lemma HASH_ADD_TO_TABLE_ok:
  assumes pow: "unat (num_buckets t) = 2 ^ unat (log2_num_buckets t)"
    and len: "length (buckets t) = unat (num_buckets t)"
    and ok: "\<And>i. i < length (buckets t) \<Longrightarrow> bucket_ok (num_buckets t) hs i (buckets t ! i)"
    and app: "app_order t = hs @ [h]" and dist: "distinct (map elmt (hs @ [h]))"
    and hv: "\<And>x. x \<in> set (hs @ [h]) \<Longrightarrow> hashv x = hf (hkey x)"
    and items: "num_items t = of_nat (length hs)" and room: "unat (num_buckets t) \<le> 2 ^ 30"
  shows "\<exists>t'. HASH_ADD_TO_TABLE h t = Inr t' \<and> table_inv hf t' \<and> app_order t' = hs @ [h] \<and>
    unat (num_buckets t') \<in> {unat (num_buckets t), 2 * unat (num_buckets t)}"
proof -
  let ?i = "HASH_TO_BKT (hashv h) (num_buckets t)"
  let ?b = "buckets t ! ?i"
  let ?b' = "?b\<lparr>hh_head := h # hh_head ?b, bkt_count := bkt_count ?b + 1\<rparr>"
  let ?t = "t\<lparr>num_items := num_items t + 1, buckets := (buckets t)[?i := ?b']\<rparr>"
  have i: "?i < length (buckets t)" using HASH_TO_BKT_less [OF pow] len by simp
  have "bucket_ok (num_buckets t) (hs @ [h]) j ((buckets t)[?i := ?b'] ! j)"
    if "j < length (buckets t)" for j
    using ok [OF that] i by (cases "j = ?i") (auto simp: bucket_ok_def)
  then have inv: "table_inv hf ?t"
    using pow len app dist hv items by (auto simp: table_inv_def list_all_iff)
  have run: "HASH_ADD_TO_TABLE h t =
      (if bkt_count ?b' \<ge> (expand_mult ?b' + 1) * 10 \<and> \<not> noexpand ?t
       then HASH_EXPAND_BUCKETS ?t else Inr ?t)"
    using i by (simp add: HASH_ADD_TO_TABLE_def HASH_ADD_TO_BKT_def Let_def)
  obtain t' where "HASH_EXPAND_BUCKETS ?t = Inr t'" "table_inv hf t'" "app_order t' = hs @ [h]"
    "unat (num_buckets t') = 2 * unat (num_buckets t)"
    using HASH_EXPAND_BUCKETS_ok [OF inv] room app by auto
  then show ?thesis using run inv app by auto
qed

lemma HASH_ADD_ok:
  assumes inv: "hash_inv hf head" and room: "hash_room head"
    and new: "e \<notin> fst ` set (entries head)"
  shows "\<exists>head'. HASH_ADD hf e key v head = Inr head' \<and> hash_inv hf head' \<and>
    entries head' = entries head @ [(e, key, v)]"
proof -
  let ?h = "\<lparr>elmt = e, hkey = key, hashv = hf key, item = v\<rparr>"
  show ?thesis
  proof (cases head)
    case None
    have "bucket_ok 32 [] i (replicate 32 empty_bucket ! i)" if "i < 32" for i
      using that by (simp add: bucket_ok_def empty_bucket_def)
    then obtain t' where "HASH_ADD_TO_TABLE ?h (HASH_MAKE_TABLE ?h) = Inr t'" "table_inv hf t'"
      "app_order t' = [?h]"
      using HASH_ADD_TO_TABLE_ok [of "HASH_MAKE_TABLE ?h" "[]" ?h hf]
      by (auto simp: HASH_MAKE_TABLE_def)
    then show ?thesis using None by (simp add: HASH_ADD_def entries_def hash_inv_def)
  next
    case (Some t)
    then have ti: "table_inv hf t" using inv by (simp add: hash_inv_def)
    note D = table_invD [OF ti]
    let ?t = "t\<lparr>app_order := app_order t @ [?h]\<rparr>"
    have "distinct (map elmt (app_order t @ [?h]))"
      using D(4) new Some by (auto simp: entries_def image_image)
    then obtain t' where "HASH_ADD_TO_TABLE ?h ?t = Inr t'" "table_inv hf t'"
      "app_order t' = app_order t @ [?h]"
      using HASH_ADD_TO_TABLE_ok [of ?t "app_order t" ?h hf] D(1,2,5,6,7) room Some
      by (simp add: hash_room_def) (metis UT_hash_handle.select_convs(2,3))
    then show ?thesis using Some by (simp add: HASH_ADD_def entries_def hash_inv_def)
  qed
qed

section \<open>Deletion\<close>

lemma remove1_filter_distinct:
  "distinct (map f xs) \<Longrightarrow> x \<in> set xs \<Longrightarrow> remove1 x xs = filter (\<lambda>y. f y \<noteq> f x) xs"
proof (induction xs)
  case (Cons a xs)
  have "f a \<notin> f ` set xs" using Cons.prems(1) by simp
  then have "filter (\<lambda>y. f y \<noteq> f a) xs = xs" by (intro filter_True) (metis imageI)
  then show ?case using Cons by auto
qed simp

lemma find_distinct:
  "distinct (map f xs) \<Longrightarrow> x \<in> set xs \<Longrightarrow> find (\<lambda>y. f y = f x) xs = Some x"
  by (induction xs) auto

lemma mset_remove1_filter:
  "mset (filter P (remove1 x xs)) = mset (filter P xs) - (if P x then {#x#} else {#})"
  by (induction xs) (auto simp: not_in_iff)

lemma bucket_remove:
  assumes "bucket_ok nb hs i b" and "h \<in> set hs"
  shows "bucket_ok nb (remove1 h hs) i
    (if i = HASH_TO_BKT (hashv h) nb then HASH_DEL_IN_BKT h b else b)"
proof (cases "i = HASH_TO_BKT (hashv h) nb")
  case True
  then have "h \<in> set (hh_head b)" using bucket_mem [OF assms(1)] assms(2) by simp
  then have "of_nat (length (hh_head b)) - 1 = (of_nat (length (hh_head b) - 1) :: u32)"
    by (cases "hh_head b") simp_all
  then show ?thesis
    using assms(1) True \<open>h \<in> set (hh_head b)\<close>
    by (auto simp: bucket_ok_def HASH_DEL_IN_BKT_def mset_remove1_filter length_remove1)
next
  case False
  then show ?thesis
    using assms(1) by (auto simp: bucket_ok_def mset_remove1_filter)
qed

lemma HASH_DELETE_ok:
  assumes inv: "hash_inv hf head" and mem: "e \<in> fst ` set (entries head)"
  shows "\<exists>head'. HASH_DELETE e head = Inr head' \<and> hash_inv hf head' \<and>
    entries head' = filter (\<lambda>x. fst x \<noteq> e) (entries head)"
proof -
  obtain t where t: "head = Some t" "table_inv hf t"
    using inv mem by (cases head) (auto simp: hash_inv_def entries_def)
  note D = table_invD [OF t(2)]
  obtain h where h: "h \<in> set (app_order t)" "elmt h = e"
    using mem t(1) by (auto simp: entries_def)
  have f: "find (\<lambda>h. elmt h = e) (app_order t) = Some h"
    using find_distinct [OF D(4) h(1)] h(2) by simp
  have rem: "remove1 h (app_order t) = filter (\<lambda>y. elmt y \<noteq> e) (app_order t)"
    using remove1_filter_distinct [OF D(4) h(1)] h(2) by simp
  show ?thesis
  proof (cases "length (app_order t) = 1")
    case True
    then show ?thesis using h t(1) f
      by (auto simp: HASH_DELETE_def entries_def hash_inv_def length_Suc_conv)
  next
    case False
    let ?i = "HASH_TO_BKT (hashv h) (num_buckets t)"
    let ?t = "t\<lparr>app_order := remove1 h (app_order t),
      buckets := (buckets t)[?i := HASH_DEL_IN_BKT h (buckets t ! ?i)], num_items := num_items t - 1\<rparr>"
    have run: "HASH_DELETE e head = Inr (Some ?t)"
      using False f t(1) D(8) by (simp add: HASH_DELETE_def Let_def)
    have "bucket_ok (num_buckets t) (remove1 h (app_order t)) j
        ((buckets t)[?i := HASH_DEL_IN_BKT h (buckets t ! ?i)] ! j)" if "j < length (buckets t)" for j
      using bucket_remove [OF D(6) [OF that] h(1)] that D(8) [of "hashv h"]
      by (auto split: if_splits simp: nth_list_update)
    moreover have "remove1 h (app_order t) \<noteq> []"
    proof -
      have "length (remove1 h (app_order t)) \<noteq> 0"
        using False h(1) D(3) by (cases "app_order t") (auto simp: length_remove1)
      then show ?thesis by auto
    qed
    moreover have "num_items t - 1 = of_nat (length (remove1 h (app_order t)))"
      using h(1) D(7) by (cases "length (app_order t)") (simp_all add: length_remove1)
    moreover have "distinct (map elmt (remove1 h (app_order t)))"
      unfolding rem using D(4) by (simp add: distinct_map_filter)
    ultimately have "table_inv hf ?t"
      using D set_remove1_subset [of h "app_order t"] by (auto simp: table_inv_def list_all_iff)
    then show ?thesis
      using run t(1) by (simp add: hash_inv_def entries_def rem filter_map comp_def)
  qed
qed

section \<open>The table as the interface promises it\<close>

definition hash_search ::
  "('k \<Rightarrow> u32) \<Rightarrow> ('k, 'v) hash_head \<Rightarrow> 'k \<Rightarrow> (nat \<times> 'v) option res" where
  "hash_search hf head key =
     bindR (HASH_FIND hf head key) (\<lambda>r. Inr (map_option (\<lambda>h. (elmt h, item h)) r))"

interpretation uth: keyed_table "hash_inv hf" hash_room entries "hash_search hf" "HASH_ADD hf" HASH_DELETE None
proof (unfold_locales, goal_cases)
  case 1 show ?case by (simp add: hash_inv_def)
next
  case 2 show ?case by (simp add: entries_def)
next
  case (3 t)
  then show ?case
    by (cases t) (auto simp: hash_inv_def entries_def comp_def dest: table_invD(4))
next
  case (4 t k)
  from HASH_FIND_spec [OF 4, of k] obtain r where r: "HASH_FIND hf t k = Inr r" "case r of
      None \<Rightarrow> k \<notin> (\<lambda>x. fst (snd x)) ` set (entries t)
    | Some h \<Rightarrow> hkey h = k \<and> (elmt h, k, item h) \<in> set (entries t)"
    by (elim exE conjE) (rule that)
  then show ?case by (cases r) (simp_all add: hash_search_def)
next
  case (5 t e k v)
  then show ?case by (rule HASH_ADD_ok)
next
  case (6 t e)
  then show ?case by (rule HASH_DELETE_ok)
qed

lemma HASH_ITER_entries: "HASH_ITER head = map fst (entries head)"
  by (cases head) (auto simp: HASH_ITER_def entries_def)

lemma entries_Nil: "hash_inv hf head \<Longrightarrow> entries head = [] \<longleftrightarrow> head = None"
  by (cases head) (auto simp: hash_inv_def entries_def dest: table_invD(3))

lemma delete_all_empties: "hash_inv hf head \<Longrightarrow> delete_all head = Inr None"
  using uth.unlink_all [of hf head] entries_Nil
  by (auto simp: delete_all_def HASH_ITER_entries)

lemma HASH_CNT_entries: "hash_inv hf head \<Longrightarrow> HASH_CNT head = of_nat (length (entries head))"
  by (cases head) (auto simp: HASH_CNT_def hash_inv_def entries_def dest: table_invD(7))

end
