(* ===== verification/Conn_Types.thy ===== *)
theory Conn_Types
  imports Uthash
begin

text \<open>
  The data of the library (\<open>common.h\<close>, \<open>connection.h\<close>, \<open>messaging.h\<close>, \<open>globals.h\<close>,
  and the work requests of the verbs interface): records with the fields of the C structures, the
  library's static state as one record \<open>world\<close>, the answers of the verbs, connection-manager and
  operating-system calls as the record \<open>env\<close>, and the log of the calls made to them.

  A call to code outside the repository appends an event to the log, and its answer is the entry of
  \<open>env\<close> at the number of calls made before it. The locks of a connection are left out: an operation
  runs to its end unless its theory says where others interleave.
\<close>

section \<open>Constants\<close>

definition IBV_INLINE_THRESHOLD :: int where "IBV_INLINE_THRESHOLD = 128"
definition MAX_DEVICES :: int where "MAX_DEVICES = 2"
definition MAX_CONNECTIONS :: int where "MAX_CONNECTIONS = 1000"
definition MAX_MR :: int where "MAX_MR = 2"
definition MAX_PENDING :: u32 where "MAX_PENDING = 500"
definition MAX_BUFFER :: nat where "MAX_BUFFER = 1"
definition MAX_SEND_QUEUE_SIZE :: u32 where "MAX_SEND_QUEUE_SIZE = 1024"
definition MAX_RECV_QUEUE_SIZE :: u32 where "MAX_RECV_QUEUE_SIZE = 1024"

lemmas limits = IBV_INLINE_THRESHOLD_def MAX_DEVICES_def MAX_CONNECTIONS_def MAX_MR_def
  MAX_PENDING_def MAX_BUFFER_def

text \<open>The control bits of a work queue entry (\<open>mlx5dv.h\<close>).\<close>

definition MLX5_WQE_CTRL_CQ_UPDATE :: u8 where "MLX5_WQE_CTRL_CQ_UPDATE = 8"
definition MLX5_WQE_CTRL_SOLICITED :: u8 where "MLX5_WQE_CTRL_SOLICITED = 2"
definition MLX5_WQE_CTRL_FENCE :: u8 where "MLX5_WQE_CTRL_FENCE = 128"
definition MLX5_SEND_WQE_BB :: u32 where "MLX5_SEND_WQE_BB = 64"
definition SEND_WQE_SHIFT :: nat where "SEND_WQE_SHIFT = 6"

section \<open>Connection states\<close>

datatype rc_connection_state =
    RC_CONNECTION_TERMINATED | RC_CONNECTION_PENDING | RC_CONNECTION_ACTIVE | RC_CONNECTION_READY

fun state_num :: "rc_connection_state \<Rightarrow> int" where
  "state_num RC_CONNECTION_TERMINATED = -1"
| "state_num RC_CONNECTION_PENDING = 0"
| "state_num RC_CONNECTION_ACTIVE = 1"
| "state_num RC_CONNECTION_READY = 2"

lemma state_num_inj [simp]: "state_num s = state_num t \<longleftrightarrow> s = t"
  by (cases s; cases t) simp_all

text \<open>The code compares states as the integers of the enumeration.\<close>

instantiation rc_connection_state :: linorder
begin

definition less_eq_rc_connection_state :: "rc_connection_state \<Rightarrow> rc_connection_state \<Rightarrow> bool" where
  "less_eq_rc_connection_state s t \<longleftrightarrow> state_num s \<le> state_num t"

definition less_rc_connection_state :: "rc_connection_state \<Rightarrow> rc_connection_state \<Rightarrow> bool" where
  "less_rc_connection_state s t \<longleftrightarrow> state_num s < state_num t"

instance
  by standard (auto simp: less_eq_rc_connection_state_def less_rc_connection_state_def)

end

lemmas state_order = less_eq_rc_connection_state_def less_rc_connection_state_def

section \<open>Memory regions and messages\<close>

record mr_context =
  mr_type :: int
  mr_addr :: u64
  mr_length :: u64
  mr_lkey :: u32
  mr_rkey :: u32
  mr_physical :: int

text \<open>A region the verbs library registered.\<close>

record ibv_mr =
  reg_addr :: u64
  reg_length :: u64
  reg_lkey :: u32
  reg_rkey :: u32

datatype message_id = MSG_INVALID | MSG_INIT | MSG_MR | MSG_READY | MSG_DONE | MSG_CUSTOM

text \<open>
  A message starts with a union: \<open>meta.mr\<close> and \<open>meta.app\<close> share their bytes. The fields are
  those of \<open>meta.mr\<close>; \<open>meta.app.sockfd\<close> lies on \<open>m_type\<close>, \<open>meta.app.data\<close> on \<open>m_addr\<close>,
  and \<open>meta.app.id\<close> on the padding after the type, here \<open>m_app_id\<close>.
\<close>

record message =
  m_id :: message_id
  m_type :: int
  m_app_id :: u32
  m_addr :: u64
  m_length :: u64
  m_lkey :: u32
  m_rkey :: u32
  m_physical :: int

text \<open>A message buffer: its address and its content.\<close>

record msg_buf =
  buf_addr :: u64
  buf_msg :: message

definition sizeof_message :: u64 where "sizeof_message = 48"

text \<open>The payload starts after the header.\<close>

definition msg_data :: "msg_buf \<Rightarrow> u64" where
  "msg_data b = buf_addr b + sizeof_message"

text \<open>The message an application callback receives.\<close>

record app_context =
  app_sockfd :: int
  app_id :: u32
  app_data :: u64

text \<open>What two peers exchange in the private data of a connection request.\<close>

record rc_metadata =
  meta_flags :: u32
  meta_type :: int
  meta_mr_count :: int
  meta_addr :: "u64 list"
  meta_length :: "u64 list"
  meta_rkey :: "u32 list"

definition sizeof_rc_metadata :: u64 where "sizeof_rc_metadata = 56"

record rdma_conn_param =
  private_data :: "rc_metadata option"
  private_data_len :: u64

section \<open>Work requests\<close>

datatype wr_opcode =
    IBV_EXP_WR_SEND | IBV_EXP_WR_SEND_WITH_IMM | IBV_EXP_WR_SEND_WITH_INV
  | IBV_EXP_WR_RDMA_WRITE | IBV_EXP_WR_RDMA_WRITE_WITH_IMM | IBV_EXP_WR_RDMA_READ
  | IBV_EXP_WR_ATOMIC_CMP_AND_SWP | IBV_EXP_WR_ATOMIC_FETCH_AND_ADD
  | IBV_EXP_WR_EXT_MASKED_ATOMIC_CMP_AND_SWP | IBV_EXP_WR_EXT_MASKED_ATOMIC_FETCH_AND_ADD
  | IBV_EXP_WR_SEND_ENABLE | IBV_EXP_WR_RECV_ENABLE | IBV_EXP_WR_CQE_WAIT | IBV_EXP_WR_NOP
  | IBV_EXP_WR_UMR_FILL | IBV_EXP_WR_UMR_INVALIDATE | IBV_EXP_WR_TSO | IBV_EXP_WR_BIND_MW
  | IBV_EXP_WR_LOCAL_INV

record ibv_sge =
  sg_addr :: u64
  sg_length :: u32
  sg_lkey :: u32

record ibv_qp =
  qp_handle :: nat
  qp_num :: u32

text \<open>
  One record for \<open>ibv_send_wr\<close> and \<open>ibv_exp_send_wr\<close>, whose opcodes agree. A chain linked by
  \<open>next\<close> is a list of requests; \<open>sg_list\<close> holds the entries behind the pointer and is \<open>None\<close>
  for a null one. Flags are words, their bits given by \<open>verbs_abi\<close>.
\<close>

record send_wr =
  wr_id :: u64
  exp_opcode :: wr_opcode
  num_sge :: int
  sg_list :: "ibv_sge list option"
  send_flags :: u64
  imm_data :: u32
  rdma_remote_addr :: u64
  rdma_rkey :: u32
  atomic_remote_addr :: u64
  atomic_compare_add :: u64
  atomic_swap :: u64
  atomic_rkey :: u32
  cqe_wait_cq :: nat
  cqe_wait_count :: u32
  wqe_enable_qp :: "ibv_qp option"
  wqe_enable_count :: u32
  calc_op :: int

text \<open>A request after \<open>memset(wr, 0, sizeof *wr)\<close>; the first opcode of the enumeration is
  \<open>IBV_WR_RDMA_WRITE\<close>.\<close>

definition zero_wr :: send_wr where
  "zero_wr = \<lparr>wr_id = 0, exp_opcode = IBV_EXP_WR_RDMA_WRITE, num_sge = 0, sg_list = None,
     send_flags = 0, imm_data = 0, rdma_remote_addr = 0, rdma_rkey = 0, atomic_remote_addr = 0,
     atomic_compare_add = 0, atomic_swap = 0, atomic_rkey = 0, cqe_wait_cq = 0,
     cqe_wait_count = 0, wqe_enable_qp = None, wqe_enable_count = 0, calc_op = 0\<rparr>"

record recv_wr =
  rwr_id :: u64
  rsg_list :: "ibv_sge list option"
  rnum_sge :: int

text \<open>A work completion.\<close>

record ibv_wc =
  wc_wr_id :: u64
  wc_success :: bool
  wc_recv :: bool
  wc_qp_num :: u32
  wc_imm_data :: u32

section \<open>A connection\<close>

record mlx5dv_qp =
  sq_buf :: nat
  sq_cnt :: u32
  sq_stride :: u32
  bf_reg :: nat
  bf_size :: u32

record mlx5dv_cq =
  cqn :: u32

text \<open>The records of the tables a connection keeps.\<close>

type_synonym buffer_table = "(u32, int) hash_head"
type_synonym response_table = "(u32, int) hash_head"

record conn_context =
  devid :: int
  sockfd :: int
  state :: rc_connection_state
  app_type :: int
  iqp :: "mlx5dv_qp option"
  icq :: "mlx5dv_cq option"
  cq :: nat
  comp_channel :: nat
  cq_poller_thread :: bool
  poll_always :: int
  poll_enable :: int
  poll_permission :: int
  local_mr :: "ibv_mr option list"
  remote_mr :: "mr_context option list"
  mr_init_sent :: int
  mr_init_recv :: int
  local_mr_ready :: "int list"
  remote_mr_ready :: "int list"
  local_mr_sent :: "int list"
  remote_mr_total :: int
  local_mr_to_sync :: int
  msg_send_mr :: "ibv_mr option list"
  msg_rcv_mr :: "ibv_mr option list"
  msg_send :: "msg_buf option list"
  msg_rcv :: "msg_buf option list"
  send_slots :: "int list"
  send_idx :: u8
  ctx_id :: nat
  last_send :: u32
  last_send_compl :: u32
  last_rcv :: u32
  last_rcv_compl :: u32
  n_posted_ops :: u32
  pendings :: response_table
  buffer_bindings :: buffer_table
  sq_mr_idx :: int
  sq_start :: nat
  sq_wqe_cnt :: u64
  sq_wrid :: "u64 list option"
  sq_end :: nat
  scur_post :: u32
  bf_offset :: u32
  fm_ce_se_tbl :: "u8 list"
  fm_ce_se_acc :: "u8 list"
  sq_signal_bits :: u8
  flags :: u32

text \<open>The connection after \<open>calloc\<close>.\<close>

definition zero_context :: conn_context where
  "zero_context = \<lparr>devid = 0, sockfd = 0, state = RC_CONNECTION_PENDING, app_type = 0,
     iqp = None, icq = None, cq = 0, comp_channel = 0, cq_poller_thread = False, poll_always = 0,
     poll_enable = 0, poll_permission = 0, local_mr = [], remote_mr = [], mr_init_sent = 0,
     mr_init_recv = 0, local_mr_ready = [], remote_mr_ready = [], local_mr_sent = [],
     remote_mr_total = 0, local_mr_to_sync = 0, msg_send_mr = [], msg_rcv_mr = [], msg_send = [],
     msg_rcv = [], send_slots = [], send_idx = 0, ctx_id = 0, last_send = 0,
     last_send_compl = 0, last_rcv = 0, last_rcv_compl = 0, n_posted_ops = 0, pendings = None,
     buffer_bindings = None, sq_mr_idx = 0, sq_start = 0, sq_wqe_cnt = 0, sq_wrid = None,
     sq_end = 0, scur_post = 0, bf_offset = 0, fm_ce_se_tbl = replicate 8 0,
     fm_ce_se_acc = replicate 32 0, sq_signal_bits = 0, flags = 0\<rparr>"

text \<open>An \<open>rdma_cm_id\<close>, and the record both lookup tables hold for a connection.\<close>

record rdma_cm_id =
  verbs :: nat
  cm_qp :: "ibv_qp option"
  src_storage :: sockaddr_storage
  dst_storage :: sockaddr_storage
  cm_context :: "conn_context option"

text \<open>The device table and the two lookup tables (\<open>struct context\<close>); a table's record is the
  address of the \<open>rdma_cm_id\<close>.\<close>

record dev_context =
  n_dev :: int
  dev_ctx :: "nat list"
  dev_pd :: "nat list"
  id_by_addr :: "(sockaddr_in, nat) hash_head"
  id_by_qp :: "(u32, nat) hash_head"

end
