(* ===== verification/World.thy ===== *)
theory World
  imports Conn_Types
begin

text \<open>
  The state of the process and its surroundings: the library's static variables, the objects it
  allocates, the calls that leave the repository and their answers.
\<close>

section \<open>Calls that leave the repository\<close>

datatype access = LOCAL_WRITE | REMOTE_WRITE | REMOTE_ATOMIC | REMOTE_READ

record qp_init_attr =
  attr_send_cq :: nat
  attr_recv_cq :: nat
  attr_rc :: bool
  max_send_wr :: u32
  max_recv_wr :: u32
  max_send_sge :: u32
  max_recv_sge :: u32
  sq_sig_all :: int

record conn_param =
  initiator_depth :: int
  responder_resources :: int
  rnr_retry_count :: int
  param_data :: rdma_conn_param

datatype event =
    IbvAllocPd nat
  | IbvCreateCompChannel nat
  | IbvCreateCq nat int nat
  | IbvReqNotifyCq nat int
  | IbvGetCqEvent nat
  | IbvAckCqEvents nat int
  | IbvPollCq nat
  | Mlx5dvInitCq nat
  | Mlx5dvInitQp "ibv_qp option"
  | RdmaCreateQp nat nat qp_init_attr
  | RdmaDestroyQp nat
  | RdmaResolveRoute nat int
  | RdmaConnect nat conn_param
  | RdmaAccept nat conn_param
  | RdmaDisconnect nat
  | RdmaGetCmEvent
  | RdmaAckCmEvent
  | RdmaCreateEventChannel
  | RdmaDestroyEventChannel nat
  | RdmaCreateId nat
  | RdmaResolveAddr nat "char list" "char list"
  | GetAddrInfo "char list" "char list"
  | IbvRegMr nat u64 u64 "access list"
  | IbvDeregMr "ibv_mr option"
  | IbvPostSend "ibv_qp option" "send_wr list"
  | IbvExpPostSend "ibv_qp option" "send_wr list"
  | IbvExpPostTask nat "ibv_qp option" "send_wr list"
  | IbvPostRecv "ibv_qp option" recv_wr
  | PosixMemalign u64
  | PthreadCreate nat
  | PthreadCancel nat
  | Sleep int
  | AppConnect int
  | AppDisconnect int
  | AppReceive app_context

text \<open>The events of the connection manager (\<open>struct rdma_cm_event\<close>).\<close>

datatype cm_event_type =
    RDMA_CM_EVENT_ADDR_RESOLVED | RDMA_CM_EVENT_ROUTE_RESOLVED | RDMA_CM_EVENT_CONNECT_REQUEST
  | RDMA_CM_EVENT_ESTABLISHED | RDMA_CM_EVENT_DISCONNECTED | RDMA_CM_EVENT_REJECTED
  | RDMA_CM_EVENT_TIMEWAIT_EXIT | RDMA_CM_EVENT_OTHER

record cm_event =
  ev_type :: cm_event_type
  ev_id :: nat
  ev_param :: rdma_conn_param

text \<open>The bits of the flag words, from the headers of libibverbs.\<close>

record verbs_abi =
  IBV_SEND_FENCE :: u64
  IBV_SEND_SIGNALED :: u64
  IBV_SEND_SOLICITED :: u64
  IBV_SEND_INLINE :: u64
  IBV_EXP_SEND_WAIT_EN_LAST :: u64
  IBV_EXP_SEND_WITH_CALC :: u64
  IBV_EXP_QP_BURST_SIGNALED :: u64
  IBV_EXP_QP_BURST_SOLICITED :: u64
  IBV_EXP_QP_BURST_FENCE :: u64
  IBV_EXP_QP_CREATE_MANAGED_SEND :: u32
  IBV_EXP_QP_CREATE_MANAGED_RECV :: u32

text \<open>The answers, by the number of calls made before. \<open>None\<close> and 0 are the failures a call
  reports by a null pointer; an \<open>int\<close> is the call's own error code. A new
  \<open>rdma_cm_id\<close> comes with its address.\<close>

record env =
  abi :: verbs_abi
  ans_alloc_pd :: "nat \<Rightarrow> nat"
  ans_comp_channel :: "nat \<Rightarrow> nat"
  ans_create_cq :: "nat \<Rightarrow> nat"
  ans_dv_cq :: "nat \<Rightarrow> mlx5dv_cq"
  ans_create_qp :: "nat \<Rightarrow> ibv_qp option"
  ans_dv_qp :: "nat \<Rightarrow> mlx5dv_qp"
  ans_reg_mr :: "nat \<Rightarrow> ibv_mr option"
  ans_memalign :: "nat \<Rightarrow> msg_buf option"
  ans_post_send :: "nat \<Rightarrow> int"
  ans_post_task :: "nat \<Rightarrow> int"
  ans_connect :: "nat \<Rightarrow> int"
  ans_poll_cq :: "nat \<Rightarrow> ibv_wc option"
  ans_cq_event :: "nat \<Rightarrow> nat"
  ans_cm_event :: "nat \<Rightarrow> cm_event option"
  ans_event_channel :: "nat \<Rightarrow> nat"
  ans_create_id :: "nat \<Rightarrow> nat \<times> rdma_cm_id"

section \<open>The state\<close>

text \<open>The functions the library registers as callbacks are those of \<open>agent.c\<close>.\<close>

datatype callback = ON_PRE_CONN | ON_CONNECTION | ON_COMPLETION | ON_DISCONNECT

record world =
  cm_ids :: "nat \<rightharpoonup> rdma_cm_id"
  s_ctx :: "dev_context option"
  s_conn_bitmap :: "int list option"
  s_conn_ids :: "nat list option"
  s_on_pre_conn_cb :: "callback option"
  s_on_connect_cb :: "callback option"
  s_on_completion_cb :: "callback option"
  s_on_disconnect_cb :: "callback option"
  mr_regions :: "ibv_mr option list"
  num_mrs :: int
  mrs :: "mr_context list"
  msg_size :: int
  ec :: nat
  rdma_initialized :: int
  app_callbacks :: bool
  heap_next :: nat
  trace :: "event list"
  mem :: memory

definition initial_world :: world where
  "initial_world = \<lparr>cm_ids = Map.empty, s_ctx = None, s_conn_bitmap = None, s_conn_ids = None,
     s_on_pre_conn_cb = None, s_on_connect_cb = None, s_on_completion_cb = None,
     s_on_disconnect_cb = None, mr_regions = replicate (nat MAX_MR) None, num_mrs = 0, mrs = [],
     msg_size = 0, ec = 0, rdma_initialized = 0, app_callbacks = False, heap_next = 1, trace = [],
     mem = Map.empty\<rparr>"

text \<open>A call: its event is logged, its answer looked up.\<close>

definition call :: "event \<Rightarrow> (nat \<Rightarrow> 'a) \<Rightarrow> world \<Rightarrow> 'a \<times> world" where
  "call ev ans w = (ans (length (trace w)), w\<lparr>trace := trace w @ [ev]\<rparr>)"

text \<open>A call whose answer the code does not look at.\<close>

definition emit :: "event \<Rightarrow> world \<Rightarrow> world" where
  "emit ev w = w\<lparr>trace := trace w @ [ev]\<rparr>"

text \<open>Allocation gives an address no object has had.\<close>

definition fresh :: "world \<Rightarrow> nat \<times> world" where
  "fresh w = (heap_next w, w\<lparr>heap_next := heap_next w + 1\<rparr>)"

section \<open>Following pointers\<close>

text \<open>A \<open>rdma_cm_id\<close> pointer: null, freed or never allocated, or to an object.\<close>

definition cm_id_at :: "nat \<Rightarrow> world \<Rightarrow> rdma_cm_id res" where
  "cm_id_at p w = (if p = 0 then Inl (Fault NullDeref)
                   else of_option (Fault UseAfterFree) (cm_ids w p))"

definition ctx_of :: "nat \<Rightarrow> world \<Rightarrow> conn_context res" where
  "ctx_of p w = bindR (cm_id_at p w) (\<lambda>i. of_option (Fault NullDeref) (cm_context i))"

definition qp_of :: "nat \<Rightarrow> world \<Rightarrow> ibv_qp res" where
  "qp_of p w = bindR (cm_id_at p w) (\<lambda>i. of_option (Fault NullDeref) (cm_qp i))"

definition set_cm_id :: "nat \<Rightarrow> rdma_cm_id \<Rightarrow> world \<Rightarrow> world" where
  "set_cm_id p i w = w\<lparr>cm_ids := (cm_ids w)(p \<mapsto> i)\<rparr>"

text \<open>Writing through \<open>id->context\<close>.\<close>

definition set_ctx :: "nat \<Rightarrow> conn_context \<Rightarrow> world \<Rightarrow> world" where
  "set_ctx p c w = (case cm_ids w p of None \<Rightarrow> w
     | Some i \<Rightarrow> w\<lparr>cm_ids := (cm_ids w)(p \<mapsto> i\<lparr>cm_context := Some c\<rparr>)\<rparr>)"

definition update_ctx :: "nat \<Rightarrow> (conn_context \<Rightarrow> conn_context) \<Rightarrow> world \<Rightarrow> world res" where
  "update_ctx p f w = bindR (ctx_of p w) (\<lambda>c. Inr (set_ctx p (f c) w))"

definition deref :: "'a option \<Rightarrow> 'a res" where
  "deref p = of_option (Fault NullDeref) p"

lemma deref_simps [simp, res_simps]:
  "deref None = Inl (Fault NullDeref)" "deref (Some x) = Inr x"
  by (simp_all add: deref_def)

lemma deref_eq_Inr [simp]: "deref p = Inr x \<longleftrightarrow> p = Some x"
  by (cases p) auto

lemma cm_id_at_eq_Inr: "cm_id_at p w = Inr i \<longleftrightarrow> p \<noteq> 0 \<and> cm_ids w p = Some i"
  by (auto simp: cm_id_at_def)

lemma ctx_of_eq_Inr:
  "ctx_of p w = Inr c \<longleftrightarrow> p \<noteq> 0 \<and> (\<exists>i. cm_ids w p = Some i \<and> cm_context i = Some c)"
  by (auto simp: ctx_of_def bindR_eq_Inr cm_id_at_eq_Inr)

lemma qp_of_eq_Inr:
  "qp_of p w = Inr q \<longleftrightarrow> p \<noteq> 0 \<and> (\<exists>i. cm_ids w p = Some i \<and> cm_qp i = Some q)"
  by (auto simp: qp_of_def bindR_eq_Inr cm_id_at_eq_Inr)

lemma ctx_of_set_ctx [simp]:
  "ctx_of p w = Inr c \<Longrightarrow> ctx_of p (set_ctx p c' w) = Inr c'"
  by (auto simp: ctx_of_eq_Inr set_ctx_def)

lemma ctx_of_set_ctx_other [simp]: "p \<noteq> q \<Longrightarrow> ctx_of p (set_ctx q c w) = ctx_of p w"
  by (auto simp: ctx_of_def cm_id_at_def set_ctx_def split: option.splits)

lemma qp_of_set_ctx [simp]: "qp_of p (set_ctx q c w) = qp_of p w"
  by (auto simp: qp_of_def cm_id_at_def set_ctx_def split: option.splits)

lemma set_ctx_twice [simp]: "set_ctx p c (set_ctx p d w) = set_ctx p c w"
  by (auto simp: set_ctx_def split: option.splits)

lemma ctx_of_frame [simp, frame_simps]:
  "ctx_of p (w\<lparr>trace := t\<rparr>) = ctx_of p w" "ctx_of p (w\<lparr>mem := m\<rparr>) = ctx_of p w"
  "ctx_of p (w\<lparr>heap_next := n\<rparr>) = ctx_of p w" "ctx_of p (w\<lparr>s_ctx := s\<rparr>) = ctx_of p w"
  "ctx_of p (w\<lparr>mr_regions := r\<rparr>) = ctx_of p w" "ctx_of p (w\<lparr>s_conn_bitmap := b\<rparr>) = ctx_of p w"
  "ctx_of p (w\<lparr>s_conn_ids := d\<rparr>) = ctx_of p w"
  by (simp_all add: ctx_of_def cm_id_at_def)

lemma qp_of_frame [simp, frame_simps]:
  "qp_of p (w\<lparr>trace := t\<rparr>) = qp_of p w" "qp_of p (w\<lparr>mem := m\<rparr>) = qp_of p w"
  "qp_of p (w\<lparr>heap_next := n\<rparr>) = qp_of p w" "qp_of p (w\<lparr>s_ctx := s\<rparr>) = qp_of p w"
  "qp_of p (w\<lparr>mr_regions := r\<rparr>) = qp_of p w"
  by (simp_all add: qp_of_def cm_id_at_def)

text \<open>Writing a connection leaves every other part of the state alone.\<close>

lemma set_ctx_frame [simp, frame_simps]:
  "trace (set_ctx p c w) = trace w" "mem (set_ctx p c w) = mem w"
  "s_ctx (set_ctx p c w) = s_ctx w" "s_conn_bitmap (set_ctx p c w) = s_conn_bitmap w"
  "s_conn_ids (set_ctx p c w) = s_conn_ids w" "mr_regions (set_ctx p c w) = mr_regions w"
  "num_mrs (set_ctx p c w) = num_mrs w" "mrs (set_ctx p c w) = mrs w"
  "msg_size (set_ctx p c w) = msg_size w" "heap_next (set_ctx p c w) = heap_next w"
  "ec (set_ctx p c w) = ec w" "rdma_initialized (set_ctx p c w) = rdma_initialized w"
  "s_on_pre_conn_cb (set_ctx p c w) = s_on_pre_conn_cb w"
  "s_on_connect_cb (set_ctx p c w) = s_on_connect_cb w"
  "s_on_completion_cb (set_ctx p c w) = s_on_completion_cb w"
  "s_on_disconnect_cb (set_ctx p c w) = s_on_disconnect_cb w"
  "app_callbacks (set_ctx p c w) = app_callbacks w"
  by (simp_all add: set_ctx_def split: option.splits)

lemma emit_frame [simp, frame_simps]:
  "trace (emit e w) = trace w @ [e]" "mem (emit e w) = mem w" "s_ctx (emit e w) = s_ctx w"
  "s_conn_bitmap (emit e w) = s_conn_bitmap w" "s_conn_ids (emit e w) = s_conn_ids w"
  "mr_regions (emit e w) = mr_regions w" "num_mrs (emit e w) = num_mrs w" "mrs (emit e w) = mrs w"
  "msg_size (emit e w) = msg_size w" "heap_next (emit e w) = heap_next w"
  "cm_ids (emit e w) = cm_ids w" "s_on_completion_cb (emit e w) = s_on_completion_cb w"
  "ctx_of p (emit e w) = ctx_of p w" "qp_of p (emit e w) = qp_of p w"
  by (simp_all add: emit_def)

end
