(* ===== verification/Wqe.thy ===== *)
theory Wqe
  imports World
begin

text \<open>
  \<open>src/rdma/mlx5_intf.h\<close>: the segments of a work queue entry, written into the send queue byte by
  byte in the adapter's order. Every writer works on the host memory and fails where the C code
  would store outside it. The second half shows where in the ring the data segments land and reads
  the segments back.
\<close>

section \<open>Opcodes\<close>

definition MLX5_WRAPPER_INLINE_SEG :: u32 where "MLX5_WRAPPER_INLINE_SEG = 0x80000000"

definition MLX5_WRAPPER_OPCODE_BASIC :: u32 where "MLX5_WRAPPER_OPCODE_BASIC = 0x00010000"
definition MLX5_WRAPPER_OPCODE_MANAGED :: u32 where "MLX5_WRAPPER_OPCODE_MANAGED = 0x00020000"
definition MLX5_WRAPPER_OPCODE_WITH_IMM :: u32 where "MLX5_WRAPPER_OPCODE_WITH_IMM = 0x01000000"

definition MLX5_WRAPPER_IB_OPCODE :: "u32 \<Rightarrow> u32 \<Rightarrow> u32 \<Rightarrow> u32" where
  "MLX5_WRAPPER_IB_OPCODE op cls attr =
     (cls AND 0x00FF0000) OR (attr AND 0xFF000000) OR (op AND 0x0000FFFF)"

definition MLX5_WRAPPER_IB_OPCODE_GET_CLASS :: "u32 \<Rightarrow> u32" where
  "MLX5_WRAPPER_IB_OPCODE_GET_CLASS opcode = opcode AND 0x00FF0000"

definition MLX5_WRAPPER_IB_OPCODE_GET_OP :: "u32 \<Rightarrow> u32" where
  "MLX5_WRAPPER_IB_OPCODE_GET_OP opcode = opcode AND 0x0000FFFF"

definition MLX5_WRAPPER_IB_OPCODE_GET_ATTR :: "u32 \<Rightarrow> u32" where
  "MLX5_WRAPPER_IB_OPCODE_GET_ATTR opcode = opcode AND 0xFF000000"

fun mlx5_ib_opcode :: "wr_opcode \<Rightarrow> u32" where
  "mlx5_ib_opcode IBV_EXP_WR_SEND =
     MLX5_WRAPPER_IB_OPCODE 0x0a MLX5_WRAPPER_OPCODE_BASIC 0"
| "mlx5_ib_opcode IBV_EXP_WR_SEND_WITH_IMM =
     MLX5_WRAPPER_IB_OPCODE 0x0b MLX5_WRAPPER_OPCODE_BASIC MLX5_WRAPPER_OPCODE_WITH_IMM"
| "mlx5_ib_opcode IBV_EXP_WR_SEND_WITH_INV =
     MLX5_WRAPPER_IB_OPCODE 0x01 MLX5_WRAPPER_OPCODE_BASIC MLX5_WRAPPER_OPCODE_WITH_IMM"
| "mlx5_ib_opcode IBV_EXP_WR_RDMA_WRITE =
     MLX5_WRAPPER_IB_OPCODE 0x08 MLX5_WRAPPER_OPCODE_BASIC 0"
| "mlx5_ib_opcode IBV_EXP_WR_RDMA_WRITE_WITH_IMM =
     MLX5_WRAPPER_IB_OPCODE 0x09 MLX5_WRAPPER_OPCODE_BASIC MLX5_WRAPPER_OPCODE_WITH_IMM"
| "mlx5_ib_opcode IBV_EXP_WR_RDMA_READ =
     MLX5_WRAPPER_IB_OPCODE 0x10 MLX5_WRAPPER_OPCODE_BASIC 0"
| "mlx5_ib_opcode IBV_EXP_WR_ATOMIC_CMP_AND_SWP =
     MLX5_WRAPPER_IB_OPCODE 0x11 MLX5_WRAPPER_OPCODE_BASIC 0"
| "mlx5_ib_opcode IBV_EXP_WR_ATOMIC_FETCH_AND_ADD =
     MLX5_WRAPPER_IB_OPCODE 0x12 MLX5_WRAPPER_OPCODE_BASIC 0"
| "mlx5_ib_opcode IBV_EXP_WR_EXT_MASKED_ATOMIC_CMP_AND_SWP =
     MLX5_WRAPPER_IB_OPCODE 0x14 MLX5_WRAPPER_OPCODE_BASIC 0"
| "mlx5_ib_opcode IBV_EXP_WR_EXT_MASKED_ATOMIC_FETCH_AND_ADD =
     MLX5_WRAPPER_IB_OPCODE 0x15 MLX5_WRAPPER_OPCODE_BASIC 0"
| "mlx5_ib_opcode IBV_EXP_WR_SEND_ENABLE =
     MLX5_WRAPPER_IB_OPCODE 0x17 MLX5_WRAPPER_OPCODE_MANAGED 0"
| "mlx5_ib_opcode IBV_EXP_WR_RECV_ENABLE =
     MLX5_WRAPPER_IB_OPCODE 0x16 MLX5_WRAPPER_OPCODE_MANAGED 0"
| "mlx5_ib_opcode IBV_EXP_WR_CQE_WAIT =
     MLX5_WRAPPER_IB_OPCODE 0x0f MLX5_WRAPPER_OPCODE_MANAGED 0"
| "mlx5_ib_opcode IBV_EXP_WR_NOP = MLX5_WRAPPER_IB_OPCODE 0x00 MLX5_WRAPPER_OPCODE_BASIC 0"
| "mlx5_ib_opcode IBV_EXP_WR_UMR_FILL = MLX5_WRAPPER_IB_OPCODE 0x25 MLX5_WRAPPER_OPCODE_BASIC 0"
| "mlx5_ib_opcode IBV_EXP_WR_UMR_INVALIDATE =
     MLX5_WRAPPER_IB_OPCODE 0x25 MLX5_WRAPPER_OPCODE_BASIC 0"
| "mlx5_ib_opcode IBV_EXP_WR_TSO = MLX5_WRAPPER_IB_OPCODE 0x0e MLX5_WRAPPER_OPCODE_BASIC 0"
| "mlx5_ib_opcode IBV_EXP_WR_BIND_MW = MLX5_WRAPPER_IB_OPCODE 0x25 MLX5_WRAPPER_OPCODE_BASIC 0"
| "mlx5_ib_opcode IBV_EXP_WR_LOCAL_INV = MLX5_WRAPPER_IB_OPCODE 0x25 MLX5_WRAPPER_OPCODE_BASIC 0"

definition send_ieth :: "send_wr \<Rightarrow> u32" where
  "send_ieth wr =
     (if MLX5_WRAPPER_IB_OPCODE_GET_ATTR (mlx5_ib_opcode (exp_opcode wr)) AND
         MLX5_WRAPPER_OPCODE_WITH_IMM \<noteq> 0
      then imm_data wr else 0)"

section \<open>Segment writers\<close>

definition htonll :: "u64 \<Rightarrow> u64" where
  "htonll x = push_bit 32 (ucast (htonl (ucast (x AND 0xFFFFFFFF)))) +
              ucast (htonl (ucast (drop_bit 32 x)))"

definition ENOMEM :: int where "ENOMEM = 12"
definition EINVAL :: int where "EINVAL = 22"

definition get_send_wqe :: "conn_context \<Rightarrow> int \<Rightarrow> nat" where
  "get_send_wqe ctx n = nat (int (sq_start ctx) + n * 2 ^ SEND_WQE_SHIFT)"

definition set_ctrl_seg ::
  "nat \<Rightarrow> u32 \<Rightarrow> u8 \<Rightarrow> u16 \<Rightarrow> u8 \<Rightarrow> u8 \<Rightarrow> u8 \<Rightarrow> u32 \<Rightarrow> memory \<Rightarrow> memory res" where
  "set_ctrl_seg start qpn opcode idx opmod ds fm_ce_se imm m =
     bindR (store32 start
       (htonl (push_bit 24 (ucast opmod) OR push_bit 8 (ucast idx) OR ucast opcode)) m) (\<lambda>m.
     bindR (store32 (start + 4) (htonl (push_bit 8 qpn OR (ucast ds AND 0x3F))) m) (\<lambda>m.
     bindR (store32 (start + 8) (htonl (ucast fm_ce_se)) m) (\<lambda>m.
     store32 (start + 12) imm m)))"

definition set_ctrl_seg_sig ::
  "nat \<Rightarrow> u32 \<Rightarrow> u8 \<Rightarrow> u16 \<Rightarrow> u8 \<Rightarrow> u8 \<Rightarrow> u8 \<Rightarrow> u32 \<Rightarrow> memory \<Rightarrow> memory res" where
  "set_ctrl_seg_sig start qpn opcode idx opmod ds fm_ce_se imm m =
     set_ctrl_seg start qpn opcode idx opmod ds fm_ce_se imm m"

definition set_raddr_seg :: "nat \<Rightarrow> u64 \<Rightarrow> u32 \<Rightarrow> memory \<Rightarrow> memory res" where
  "set_raddr_seg rseg remote_addr rkey m =
     bindR (store64 rseg (htonll remote_addr) m) (\<lambda>m.
     bindR (store32 (rseg + 8) (htonl rkey) m) (\<lambda>m.
     store32 (rseg + 12) 0 m))"

definition set_atomic_seg :: "nat \<Rightarrow> wr_opcode \<Rightarrow> u64 \<Rightarrow> u64 \<Rightarrow> memory \<Rightarrow> memory res" where
  "set_atomic_seg aseg opcode swap compare_add m =
     (if opcode = IBV_EXP_WR_ATOMIC_CMP_AND_SWP
      then bindR (store64 aseg (htonll swap) m) (store64 (aseg + 8) (htonll compare_add))
      else bindR (store64 aseg (htonll compare_add) m) (store64 (aseg + 8) 0))"

definition set_wait_en_seg :: "nat \<Rightarrow> u32 \<Rightarrow> u32 \<Rightarrow> memory \<Rightarrow> memory res" where
  "set_wait_en_seg seg obj_num pi_index m =
     bindR (store32 (seg + 8) (htonl pi_index) m) (store32 (seg + 12) (htonl obj_num))"

definition set_data_ptr_seg :: "nat \<Rightarrow> ibv_sge \<Rightarrow> int \<Rightarrow> memory \<Rightarrow> memory res" where
  "set_data_ptr_seg dseg sg offset m =
     bindR (store32 dseg (htonl (sg_length sg - of_int offset)) m) (\<lambda>m.
     bindR (store32 (dseg + 4) (htonl (sg_lkey sg)) m) (\<lambda>m.
     store64 (dseg + 8) (htonll (sg_addr sg + of_int offset)) m))"

text \<open>\<open>memcpy\<close>: a negative length becomes a huge one, which no object has.\<close>

definition memcpy :: "nat \<Rightarrow> nat \<Rightarrow> int \<Rightarrow> memory \<Rightarrow> memory res" where
  "memcpy dst src n m =
     (if n < 0 then Inl (Fault BadAddress)
      else bindR (load_bytes src (nat n) m) (\<lambda>bs. store_bytes dst bs m))"

text \<open>\<open>sg_list[i]\<close>\<close>

definition sge_at :: "ibv_sge list option \<Rightarrow> int \<Rightarrow> ibv_sge res" where
  "sge_at sgs i = bindR (deref sgs) (\<lambda>l. read_int l i)"

section \<open>Data segments\<close>

text \<open>The loops over the scatter list. The inline one returns \<open>None\<close> where the code returns
  \<open>ENOMEM\<close>.\<close>

function inl_loop ::
  "conn_context \<Rightarrow> int \<Rightarrow> ibv_sge list option \<Rightarrow> int \<Rightarrow> int \<Rightarrow> nat \<Rightarrow> int \<Rightarrow> memory
    \<Rightarrow> (int option \<times> memory) res" where
  "inl_loop ctx num sgs i offset wqe inl m =
     (if i < num then
        bindR (sge_at sgs i) (\<lambda>sg.
          let addr = unat (sg_addr sg + of_int offset);
              len = sint (sg_length sg - of_int offset);
              inl' = inl + len
          in if inl' > IBV_INLINE_THRESHOLD then Inr (None, m)
             else if int wqe + len > int (sq_end ctx) then
               let copy = int (sq_end ctx) - int wqe
               in bindR (memcpy wqe addr copy m) (\<lambda>m1.
                    let wqe0 = get_send_wqe ctx 0
                    in bindR (memcpy wqe0 (nat (int addr + copy)) (len - copy) m1) (\<lambda>m2.
                         inl_loop ctx num sgs (i + 1) 0 (nat (int wqe0 + (len - copy))) inl' m2))
             else bindR (memcpy wqe addr len m) (\<lambda>m1.
                    inl_loop ctx num sgs (i + 1) 0 (nat (int wqe + len)) inl' m1))
      else Inr (Some inl, m))"
  by pat_completeness auto
termination
  by (relation "measure (\<lambda>(ctx, num, sgs, i, _). nat (num - i))") auto

declare inl_loop.simps [simp del]

definition set_data_inl_seg ::
  "conn_context \<Rightarrow> int \<Rightarrow> ibv_sge list option \<Rightarrow> nat \<Rightarrow> int \<Rightarrow> int \<Rightarrow> int \<Rightarrow> memory
    \<Rightarrow> (int \<times> int \<times> memory) res" where
  "set_data_inl_seg ctx num sgs wqe sz idx offset m =
     bindR (inl_loop ctx num sgs idx offset (wqe + 4) 0 m) (\<lambda>(r, m1).
       case r of
         None \<Rightarrow> Inr (ENOMEM, sz, m1)
       | Some inl \<Rightarrow>
           if inl \<noteq> 0 then
             bindR (store32 wqe (htonl (of_int inl OR MLX5_WRAPPER_INLINE_SEG)) m1) (\<lambda>m2.
               Inr (0, sz + (inl + 4 + 15) div 16, m2))
           else Inr (0, sz, m1))"

function non_inl_loop ::
  "conn_context \<Rightarrow> int \<Rightarrow> ibv_sge list option \<Rightarrow> int \<Rightarrow> int \<Rightarrow> nat \<Rightarrow> int \<Rightarrow> memory
    \<Rightarrow> (int \<times> memory) res" where
  "non_inl_loop ctx num sgs i offset dpseg sz m =
     (if i < num then
        let d = (if dpseg = sq_end ctx then get_send_wqe ctx 0 else dpseg)
        in bindR (sge_at sgs i) (\<lambda>sg.
             if sg_length sg \<noteq> 0 then
               bindR (set_data_ptr_seg d sg offset m) (\<lambda>m1.
                 non_inl_loop ctx num sgs (i + 1) 0 (d + 16) (sz + 1) m1)
             else non_inl_loop ctx num sgs (i + 1) offset d sz m)
      else Inr (sz, m))"
  by pat_completeness auto
termination
  by (relation "measure (\<lambda>(ctx, num, sgs, i, _). nat (num - i))") auto

declare non_inl_loop.simps [simp del]

definition set_data_non_inl_seg ::
  "conn_context \<Rightarrow> int \<Rightarrow> ibv_sge list option \<Rightarrow> nat \<Rightarrow> int \<Rightarrow> int \<Rightarrow> int \<Rightarrow> memory
    \<Rightarrow> (int \<times> int \<times> memory) res" where
  "set_data_non_inl_seg ctx num sgs wqe sz idx offset m =
     bindR (non_inl_loop ctx num sgs idx offset wqe sz m) (\<lambda>(sz', m'). Inr (0, sz', m'))"

function atom_loop ::
  "conn_context \<Rightarrow> int \<Rightarrow> ibv_sge list option \<Rightarrow> int \<Rightarrow> nat \<Rightarrow> int \<Rightarrow> u32 \<Rightarrow> memory
    \<Rightarrow> (int \<times> memory) res" where
  "atom_loop ctx num sgs i dpseg sz atom_arg m =
     (if i < num then
        let d = (if dpseg = sq_end ctx then get_send_wqe ctx 0 else dpseg)
        in bindR (sge_at sgs i) (\<lambda>sg.
             if sg_length sg \<noteq> 0 then
               bindR (set_data_ptr_seg d (sg\<lparr>sg_length := atom_arg\<rparr>) 0 m) (\<lambda>m1.
                 atom_loop ctx num sgs (i + 1) (d + 16) (sz + 1) atom_arg m1)
             else atom_loop ctx num sgs (i + 1) d sz atom_arg m)
      else Inr (sz, m))"
  by pat_completeness auto
termination
  by (relation "measure (\<lambda>(ctx, num, sgs, i, _). nat (num - i))") auto

declare atom_loop.simps [simp del]

definition set_data_atom_seg ::
  "conn_context \<Rightarrow> int \<Rightarrow> ibv_sge list option \<Rightarrow> nat \<Rightarrow> int \<Rightarrow> int \<Rightarrow> memory
    \<Rightarrow> (int \<times> int \<times> memory) res" where
  "set_data_atom_seg ctx num sgs wqe sz atom_arg m =
     bindR (atom_loop ctx num sgs 0 wqe sz (of_int atom_arg) m) (\<lambda>(sz', m'). Inr (0, sz', m'))"

definition set_data_seg ::
  "conn_context \<Rightarrow> nat \<Rightarrow> int \<Rightarrow> bool \<Rightarrow> int \<Rightarrow> ibv_sge list option \<Rightarrow> int \<Rightarrow> int \<Rightarrow> int \<Rightarrow> memory
    \<Rightarrow> (int \<times> int \<times> memory) res" where
  "set_data_seg ctx seg sz is_inl num sgs atom_arg idx offset m =
     (if is_inl then set_data_inl_seg ctx num sgs seg sz idx offset m
      else if atom_arg \<noteq> 0 then set_data_atom_seg ctx num sgs seg sz atom_arg m
      else set_data_non_inl_seg ctx num sgs seg sz idx offset m)"

section \<open>What the writers store\<close>

text \<open>Stores to neighbouring addresses are one store of the bytes in a row.\<close>

lemma store_bytes_seq [byte_simps]:
  "b = a + length xs \<Longrightarrow>
   bindR (store_bytes a xs m) (\<lambda>m'. bindR (store_bytes b ys m') f) = bindR (store_bytes a (xs @ ys) m) f"
proof -
  assume b: "b = a + length xs"
  have "mapped m a (length (xs @ ys)) \<longleftrightarrow> mapped m a (length xs) \<and> mapped m b (length ys)"
    unfolding b mapped_iff length_append by (smt (verit) add.assoc add_leD1 le_add1 nat_less_le not_le)
  moreover have "mapped (upd_bytes a xs m) b (length ys) \<longleftrightarrow> mapped m b (length ys)"
    unfolding b mapped_iff upd_bytes_apply by auto
  ultimately show ?thesis
    by (auto simp: store_bytes_def b upd_bytes_append)
qed

lemma store_bytes_seq' [byte_simps]:
  "b = a + length xs \<Longrightarrow>
   bindR (store_bytes a xs m) (store_bytes b ys) = store_bytes a (xs @ ys) m"
  using store_bytes_seq [of b a xs m ys Inr]
  by (metis (no_types, lifting) bindR_def sum.case_eq_if sum.collapse(1) sum.collapse(2) ext)

lemma le64_htonll [simp, byte_simps]: "le64 (htonll x) = be64 x"
proof -
  have add: "push_bit 32 (ucast a) + ucast b = (push_bit 32 (ucast a) OR ucast b :: u64)" for a b :: u32
    by (rule disjunctive_add) (auto simp: bit_simps dest: bit_imp_le_length)
  have lo: "(ucast (htonll x) :: u32) = htonl (ucast (drop_bit 32 x))"
    unfolding htonll_def add by (rule bit_word_eqI) (auto simp: bit_simps)
  have hi: "(ucast (drop_bit 32 (htonll x)) :: u32) = htonl (ucast x)"
  proof -
    have "(ucast (x AND 0xFFFFFFFF) :: u32) = ucast x"
    proof -
      have m: "(0xFFFFFFFF :: u64) = mask 32" by (simp add: mask_eq_exp_minus_1)
      show ?thesis unfolding m by (rule bit_word_eqI) (auto simp: bit_simps)
    qed
    then show ?thesis
      unfolding htonll_def add
      by (intro bit_word_eqI) (auto simp: bit_simps dest: bit_imp_le_length)
  qed
  show ?thesis by (simp add: le64_def lo hi be64_split)
qed

lemma le64_0: "le64 0 = replicate 8 0" "le32 0 = replicate 4 0"
  by (simp_all add: le64_def le32_def numeral_eq_Suc)

text \<open>The bytes of each segment.\<close>

definition ctrl_bytes :: "u32 \<Rightarrow> u8 \<Rightarrow> u16 \<Rightarrow> u8 \<Rightarrow> u8 \<Rightarrow> u8 \<Rightarrow> u32 \<Rightarrow> u8 list" where
  "ctrl_bytes qpn opcode idx opmod ds fm_ce_se imm =
     be32 (push_bit 24 (ucast opmod) OR push_bit 8 (ucast idx) OR ucast opcode) @
     be32 (push_bit 8 qpn OR (ucast ds AND 0x3F)) @ be32 (ucast fm_ce_se) @ le32 imm"

definition raddr_bytes :: "u64 \<Rightarrow> u32 \<Rightarrow> u8 list" where
  "raddr_bytes raddr rkey = be64 raddr @ be32 rkey @ le32 0"

definition atomic_bytes :: "wr_opcode \<Rightarrow> u64 \<Rightarrow> u64 \<Rightarrow> u8 list" where
  "atomic_bytes opcode swap compare_add =
     (if opcode = IBV_EXP_WR_ATOMIC_CMP_AND_SWP then be64 swap @ be64 compare_add
      else be64 compare_add @ le64 0)"

definition data_bytes :: "ibv_sge \<Rightarrow> u8 list" where
  "data_bytes sg = be32 (sg_length sg) @ be32 (sg_lkey sg) @ be64 (sg_addr sg)"

lemma length_seg_bytes [simp]:
  "length (ctrl_bytes qpn opcode idx opmod ds f imm) = 16"
  "length (raddr_bytes raddr rkey) = 16" "length (atomic_bytes op swap ca) = 16"
  "length (data_bytes sg) = 16"
  by (simp_all add: ctrl_bytes_def raddr_bytes_def atomic_bytes_def data_bytes_def)

lemma set_ctrl_seg_bytes:
  "set_ctrl_seg_sig a qpn opcode idx opmod ds f imm m =
   store_bytes a (ctrl_bytes qpn opcode idx opmod ds f imm) m"
  by (simp add: set_ctrl_seg_sig_def set_ctrl_seg_def store32_def ctrl_bytes_def byte_simps)

lemma set_raddr_seg_bytes:
  "set_raddr_seg a raddr rkey m = store_bytes a (raddr_bytes raddr rkey) m"
  by (simp add: set_raddr_seg_def store32_def store64_def raddr_bytes_def byte_simps)

lemma set_atomic_seg_bytes:
  "set_atomic_seg a opcode swap ca m = store_bytes a (atomic_bytes opcode swap ca) m"
  by (simp add: set_atomic_seg_def store64_def [abs_def] atomic_bytes_def byte_simps)

lemma set_wait_en_seg_bytes:
  "set_wait_en_seg a obj n m = store_bytes (a + 8) (be32 n @ be32 obj) m"
  by (simp add: set_wait_en_seg_def store32_def [abs_def] byte_simps)

lemma set_data_ptr_seg_bytes:
  "set_data_ptr_seg a sg 0 m = store_bytes a (data_bytes sg) m"
  by (simp add: set_data_ptr_seg_def store32_def store64_def data_bytes_def byte_simps)

end
