(* ===== verification/Wqe_Ring.thy ===== *)
theory Wqe_Ring
  imports Wqe
begin

text \<open>
  The send queue as a ring of 16-byte chunks, four to a basic block of 64 bytes, and what the
  segment writers do to it: storing segments in host memory with the wrap-around of the code is
  putting chunks into the ring at consecutive positions.
\<close>

section \<open>The ring\<close>

type_synonym chunk = "u8 list"

fun ring_put :: "nat \<Rightarrow> chunk list \<Rightarrow> chunk list \<Rightarrow> chunk list" where
  "ring_put k [] r = r"
| "ring_put k (b # bs) r = ring_put (k + 1) bs (r[k mod length r := b])"

lemma length_ring_put [simp]: "length (ring_put k bs r) = length r"
  by (induction bs arbitrary: k r) auto

lemma ring_put_append: "ring_put k (as @ bs) r = ring_put (k + length as) bs (ring_put k as r)"
  by (induction as arbitrary: k r) auto

lemma ring_put_outside:
  assumes "\<And>j. j < length bs \<Longrightarrow> (k + j) mod length r \<noteq> p"
  shows "ring_put k bs r ! p = r ! p"
  using assms
proof (induction bs arbitrary: k r)
  case (Cons b bs)
  have "k mod length r \<noteq> p" using Cons.prems [of 0] by simp
  moreover have "(k + 1 + j) mod length (r[k mod length r := b]) \<noteq> p" if "j < length bs" for j
    using Cons.prems [of "j + 1"] that by simp
  ultimately show ?case using Cons.IH [of "k + 1" "r[k mod length r := b]"] by simp
qed simp

lemma mod_add_inj:
  fixes k n i j :: nat
  assumes "(k + i) mod n = (k + j) mod n" and "i < n" and "j < n"
  shows "i = j"
proof -
  have "i = j" if "(k + i) mod n = (k + j) mod n" "i \<le> j" "j < n" for i j
  proof -
    have "n dvd (k + j) - (k + i)" using that mod_eq_dvd_iff_nat [of "k + i" "k + j" n] by simp
    then have "n dvd j - i" by simp
    then show ?thesis using that by (auto dest: dvd_imp_le)
  qed
  then show ?thesis using assms by (metis nle_le)
qed

lemma ring_put_nth:
  assumes "j < length bs" and "length bs \<le> length r"
  shows "ring_put k bs r ! ((k + j) mod length r) = bs ! j"
  using assms
proof (induction bs arbitrary: j k r)
  case (Cons b bs)
  let ?r = "r[k mod length r := b]"
  show ?case
  proof (cases j)
    case 0
    have "(k + 1 + i) mod length ?r \<noteq> k mod length r" if "i < length bs" for i
    proof
      assume "(k + 1 + i) mod length ?r = k mod length r"
      then have "(k + (i + 1)) mod length r = (k + 0) mod length r" by (simp add: add.commute add.left_commute)
      then show False using mod_add_inj [of k "i + 1" "length r" 0] that Cons.prems by (cases r) auto
    qed
    then have "ring_put (k + 1) bs ?r ! (k mod length r) = ?r ! (k mod length r)"
      by (intro ring_put_outside) auto
    moreover have "k mod length r < length r" using Cons.prems by (cases r) auto
    ultimately show ?thesis using 0 by simp
  next
    case (Suc i)
    then show ?thesis using Cons.IH [of i ?r "k + 1"] Cons.prems by simp
  qed
qed simp

lemma ring_put_Cons_last:
  assumes "length (b # bs) \<le> length r"
  shows "(ring_put (k + 1) bs r)[k mod length r := b] = ring_put k (b # bs) r"
proof (rule nth_equalityI)
  fix p assume "p < length ((ring_put (k + 1) bs r)[k mod length r := b])"
  then have p: "p < length r" by simp
  show "(ring_put (k + 1) bs r)[k mod length r := b] ! p = ring_put k (b # bs) r ! p"
  proof (cases "\<exists>j < length (b # bs). (k + j) mod length r = p")
    case True
    then obtain j where j: "j < length (b # bs)" "p = (k + j) mod length r" by auto
    note R = ring_put_nth [OF j(1) assms, of k, folded j(2)]
    show ?thesis
    proof (cases j)
      case 0 then show ?thesis using R j p by simp
    next
      case (Suc i)
      have "p \<noteq> k mod length r"
        using mod_add_inj [of k j "length r" 0] j assms Suc by (cases r) auto
      moreover have "ring_put (k + 1) bs r ! p = bs ! i"
        using ring_put_nth [of i bs r "k + 1"] j Suc assms by simp
      ultimately show ?thesis using R Suc by simp
    qed
  next
    case False
    then have "ring_put k (b # bs) r ! p = r ! p" by (intro ring_put_outside) auto
    moreover have "ring_put (k + 1) bs r ! p = r ! p"
    proof (rule ring_put_outside)
      fix j assume "j < length bs"
      then show "(k + 1 + j) mod length r \<noteq> p" using False by (auto simp: add.assoc)
    qed
    moreover have "p \<noteq> k mod length r" using False by force
    ultimately show ?thesis by simp
  qed
qed simp

section \<open>The ring in host memory\<close>

text \<open>A queue of \<open>cnt\<close> basic blocks from \<open>sq_start\<close> to \<open>sq_end\<close>.\<close>

definition sq_ok :: "conn_context \<Rightarrow> nat \<Rightarrow> memory \<Rightarrow> bool" where
  "sq_ok c cnt m \<longleftrightarrow> 0 < cnt \<and> sq_end c = sq_start c + 64 * cnt \<and> mapped m (sq_start c) (64 * cnt)"

definition chunk_at :: "conn_context \<Rightarrow> memory \<Rightarrow> nat \<Rightarrow> chunk" where
  "chunk_at c m p = bytes_at m (sq_start c + 16 * p) 16"

definition ring_chunks :: "conn_context \<Rightarrow> nat \<Rightarrow> memory \<Rightarrow> chunk list" where
  "ring_chunks c cnt m = map (chunk_at c m) [0..<4 * cnt]"

lemma length_ring_chunks [simp]: "length (ring_chunks c cnt m) = 4 * cnt"
  by (simp add: ring_chunks_def)

lemma nth_ring_chunks: "p < 4 * cnt \<Longrightarrow> ring_chunks c cnt m ! p = chunk_at c m p"
  by (simp add: ring_chunks_def)

lemma chunk_at_upd:
  assumes "length b = 16"
  shows "chunk_at c (upd_bytes (sq_start c + 16 * q) b m) p = (if p = q then b else chunk_at c m p)"
proof (cases "p = q")
  case True
  then show ?thesis using assms by (simp add: chunk_at_def bytes_at_same')
next
  case False
  then have "sq_start c + 16 * q + length b \<le> sq_start c + 16 * p \<or>
      sq_start c + 16 * p + 16 \<le> sq_start c + 16 * q" using assms by auto
  then show ?thesis using False by (simp add: chunk_at_def bytes_at_disjoint)
qed

lemma ring_chunks_upd:
  "length b = 16 \<Longrightarrow>
   ring_chunks c cnt (upd_bytes (sq_start c + 16 * q) b m) = (ring_chunks c cnt m)[q := b]"
  by (rule nth_equalityI) (auto simp: nth_ring_chunks chunk_at_upd nth_list_update)

lemma sq_ok_mapped:
  "sq_ok c cnt m \<Longrightarrow> p < 4 * cnt \<Longrightarrow> off + n \<le> 16 \<Longrightarrow> mapped m (sq_start c + 16 * p + off) n"
  unfolding sq_ok_def by (auto intro!: mapped_sub [where a = "sq_start c" and n = "64 * cnt"])

lemma sq_ok_upd [simp]: "sq_ok c cnt m \<Longrightarrow> sq_ok c cnt (upd_bytes a bs m)"
  by (simp add: sq_ok_def)

section \<open>Where the data segments land\<close>

definition ring_next :: "conn_context \<Rightarrow> nat \<Rightarrow> nat" where
  "ring_next c d = (if d = sq_end c then get_send_wqe c 0 else d)"

lemma get_send_wqe_0 [simp]: "get_send_wqe c 0 = sq_start c"
  by (simp add: get_send_wqe_def)

lemma get_send_wqe_nat: "get_send_wqe c (int n) = sq_start c + 64 * n"
  by (simp add: get_send_wqe_def SEND_WQE_SHIFT_def nat_add_distrib nat_mult_distrib)

lemma ring_next_idem [simp]: "ring_next c (ring_next c d) = ring_next c d"
  by (simp add: ring_next_def)

fun put_chunks :: "conn_context \<Rightarrow> nat \<Rightarrow> chunk list \<Rightarrow> memory \<Rightarrow> memory res" where
  "put_chunks c d [] m = Inr m"
| "put_chunks c d (b # bs) m =
     bindR (store_bytes (ring_next c d) b m) (put_chunks c (ring_next c d + 16) bs)"

lemma put_chunks_next: "put_chunks c (ring_next c d) bs m = put_chunks c d bs m"
  by (cases bs) simp_all

definition nonempty :: "ibv_sge \<Rightarrow> bool" where
  "nonempty sg \<longleftrightarrow> sg_length sg \<noteq> 0"

lemma sge_at_append: "sge_at (Some (pre @ sg # post)) (int (length pre)) = Inr sg"
  by (simp add: sge_at_def)

lemma non_inl_loop_chunks:
  "non_inl_loop c (int (length (pre @ l))) (Some (pre @ l)) (int (length pre)) 0 d sz m =
   bindR (put_chunks c d (map data_bytes (filter nonempty l)) m) (\<lambda>m'.
     Inr (sz + int (length (filter nonempty l)), m'))"
proof (induction l arbitrary: pre d sz m)
  case Nil
  then show ?case by (simp add: non_inl_loop.simps)
next
  case (Cons sg l)
  let ?n = "int (length (pre @ sg # l))" and ?L = "Some (pre @ sg # l)"
  have IH: "non_inl_loop c ?n ?L (int (length pre) + 1) 0 d sz m =
      bindR (put_chunks c d (map data_bytes (filter nonempty l)) m) (\<lambda>m'.
        Inr (sz + int (length (filter nonempty l)), m'))" for d sz m
    using Cons.IH [of "pre @ [sg]" d sz m] by (simp add: add.commute)
  have "non_inl_loop c ?n ?L (int (length pre)) 0 d sz m =
      (if nonempty sg
       then bindR (store_bytes (ring_next c d) (data_bytes sg) m) (\<lambda>m1.
              non_inl_loop c ?n ?L (int (length pre) + 1) 0 (ring_next c d + 16) (sz + 1) m1)
       else non_inl_loop c ?n ?L (int (length pre) + 1) 0 (ring_next c d) sz m)"
    by (subst non_inl_loop.simps)
      (simp add: sge_at_append Let_def set_data_ptr_seg_bytes nonempty_def ring_next_def)
  then show ?case
    unfolding IH by (simp add: bindR_assoc put_chunks_next add.assoc)
qed

lemma atom_loop_chunks:
  "atom_loop c (int (length (pre @ l))) (Some (pre @ l)) (int (length pre)) d sz arg m =
   bindR (put_chunks c d (map (\<lambda>s. data_bytes (s\<lparr>sg_length := arg\<rparr>)) (filter nonempty l)) m) (\<lambda>m'.
     Inr (sz + int (length (filter nonempty l)), m'))"
proof (induction l arbitrary: pre d sz m)
  case Nil
  then show ?case by (simp add: atom_loop.simps)
next
  case (Cons sg l)
  let ?n = "int (length (pre @ sg # l))" and ?L = "Some (pre @ sg # l)"
  have IH: "atom_loop c ?n ?L (int (length pre) + 1) d sz arg m =
      bindR (put_chunks c d (map (\<lambda>s. data_bytes (s\<lparr>sg_length := arg\<rparr>)) (filter nonempty l)) m)
        (\<lambda>m'. Inr (sz + int (length (filter nonempty l)), m'))" for d sz m
    using Cons.IH [of "pre @ [sg]" d sz m] by (simp add: add.commute)
  have "atom_loop c ?n ?L (int (length pre)) d sz arg m =
      (if nonempty sg
       then bindR (store_bytes (ring_next c d) (data_bytes (sg\<lparr>sg_length := arg\<rparr>)) m) (\<lambda>m1.
              atom_loop c ?n ?L (int (length pre) + 1) (ring_next c d + 16) (sz + 1) arg m1)
       else atom_loop c ?n ?L (int (length pre) + 1) (ring_next c d) sz arg m)"
    by (subst atom_loop.simps)
      (simp add: sge_at_append Let_def set_data_ptr_seg_bytes nonempty_def ring_next_def)
  then show ?case
    unfolding IH by (simp add: bindR_assoc put_chunks_next add.assoc)
qed

text \<open>In a queue that is mapped, the chunks go to consecutive positions of the ring.\<close>

fun put_ring :: "conn_context \<Rightarrow> nat \<Rightarrow> nat \<Rightarrow> chunk list \<Rightarrow> memory \<Rightarrow> memory" where
  "put_ring c cnt k [] m = m"
| "put_ring c cnt k (b # bs) m =
     put_ring c cnt (k + 1) bs (upd_bytes (sq_start c + 16 * (k mod (4 * cnt))) b m)"

lemma ring_chunks_put_ring:
  "list_all (\<lambda>b. length b = 16) bs \<Longrightarrow>
   ring_chunks c cnt (put_ring c cnt k bs m) = ring_put k bs (ring_chunks c cnt m)"
  by (induction bs arbitrary: k m) (simp_all add: ring_chunks_upd)

lemma put_ring_outside:
  assumes "list_all (\<lambda>b. length b = 16) bs" and "0 < cnt"
    and "x < sq_start c \<or> sq_start c + 64 * cnt \<le> x"
  shows "put_ring c cnt k bs m x = m x"
  using assms
proof (induction bs arbitrary: k m)
  case (Cons b bs)
  have "k mod (4 * cnt) < 4 * cnt" using Cons.prems by simp
  then have "16 * (k mod (4 * cnt)) + 16 \<le> 64 * cnt" by simp
  then show ?case using Cons by (auto simp: upd_bytes_outside)
qed simp

lemma ring_next_step:
  assumes "sq_ok c cnt m"
  shows "ring_next c (sq_start c + 16 * (k mod (4 * cnt)) + 16) = sq_start c + 16 * (Suc k mod (4 * cnt))"
proof -
  have cnt: "0 < cnt" "sq_end c = sq_start c + 64 * cnt" using assms by (auto simp: sq_ok_def)
  have lt: "k mod (4 * cnt) < 4 * cnt" using cnt by simp
  then show ?thesis using cnt by (auto simp: ring_next_def mod_Suc)
qed

lemma put_chunks_ring:
  assumes "sq_ok c cnt m" and "list_all (\<lambda>b. length b = 16) bs"
    and "ring_next c d = sq_start c + 16 * (k mod (4 * cnt))"
  shows "put_chunks c d bs m = Inr (put_ring c cnt k bs m)"
  using assms
proof (induction bs arbitrary: d k m)
  case (Cons b bs)
  have "k mod (4 * cnt) < 4 * cnt" using Cons.prems by (simp add: sq_ok_def)
  then have "mapped m (sq_start c + 16 * (k mod (4 * cnt)) + 0) 16"
    using Cons.prems by (intro sq_ok_mapped) auto
  then have "store_bytes (ring_next c d) b m = Inr (upd_bytes (ring_next c d) b m)"
    using Cons.prems by simp
  moreover have "put_chunks c (ring_next c d + 16) bs (upd_bytes (ring_next c d) b m) =
      Inr (put_ring c cnt (k + 1) bs (upd_bytes (ring_next c d) b m))"
    using Cons.prems ring_next_step [OF Cons.prems(1), of k]
    by (intro Cons.IH) simp_all
  ultimately show ?case using Cons.prems(3) by simp
qed simp

end
