(* ===== verification/Post_Send.thy ===== *)
theory Post_Send
  imports Wqe_Ring
begin

text \<open>
  \<open>src/rdma/mlx5_intf.c\<close> and \<open>src/rdma/doorbell.h\<close>: the control-bit tables, the construction of
  work queue entries in the send queue, the doorbell, and the wrappers through which every verb
  posts and which keep the library's own copy of the producer counter. The configuration is the
  one of the build files: no modified driver, doorbells of two 32-bit stores under a lock.
\<close>

section \<open>Control-bit tables\<close>

definition table_set :: "nat \<Rightarrow> u8 \<Rightarrow> u8 list \<Rightarrow> u8 list res" where
  "table_set i v xs = write_at xs i v"

definition combine_bits :: "u64 \<Rightarrow> u64 \<Rightarrow> u64 \<Rightarrow> (nat \<times> u8) list" where
  "combine_bits sol sig fence =
     [(0, 0),
      (unat fence, MLX5_WQE_CTRL_FENCE),
      (unat sig, MLX5_WQE_CTRL_CQ_UPDATE),
      (unat (sig OR fence), MLX5_WQE_CTRL_CQ_UPDATE OR MLX5_WQE_CTRL_FENCE),
      (unat sol, MLX5_WQE_CTRL_SOLICITED),
      (unat (sol OR fence), MLX5_WQE_CTRL_SOLICITED OR MLX5_WQE_CTRL_FENCE),
      (unat (sol OR sig), MLX5_WQE_CTRL_SOLICITED OR MLX5_WQE_CTRL_CQ_UPDATE),
      (unat (sol OR sig OR fence),
         MLX5_WQE_CTRL_SOLICITED OR MLX5_WQE_CTRL_CQ_UPDATE OR MLX5_WQE_CTRL_FENCE)]"

definition mlx5_build_ctrl_metadata :: "verbs_abi \<Rightarrow> conn_context \<Rightarrow> conn_context res" where
  "mlx5_build_ctrl_metadata A ctx =
     bindR (foldR (case_prod table_set)
              (combine_bits (IBV_SEND_SOLICITED A) (IBV_SEND_SIGNALED A) (IBV_SEND_FENCE A))
              (fm_ce_se_tbl ctx)) (\<lambda>tbl.
     let tbl' = map (\<lambda>b. sq_signal_bits ctx OR b) tbl
     in bindR (foldR (case_prod table_set)
              (combine_bits (IBV_EXP_QP_BURST_SOLICITED A) (IBV_EXP_QP_BURST_SIGNALED A)
                 (IBV_EXP_QP_BURST_FENCE A))
              (replicate (length (fm_ce_se_acc ctx)) 0)) (\<lambda>acc.
          Inr (ctx\<lparr>fm_ce_se_tbl := tbl',
                   fm_ce_se_acc := map (\<lambda>b. sq_signal_bits ctx OR b) acc\<rparr>)))"

section \<open>Doorbells\<close>

datatype mlx5_db_method =
    MLX5_DB_METHOD_DEDIC_BF_1_THREAD | MLX5_DB_METHOD_DEDIC_BF | MLX5_DB_METHOD_BF | MLX5_DB_METHOD_DB

text \<open>The register takes the first eight bytes of the entry in two stores.\<close>

definition mlx5_write64 :: "nat \<Rightarrow> nat \<Rightarrow> memory \<Rightarrow> memory res" where
  "mlx5_write64 val dest m =
     bindR (load32 val m) (\<lambda>v0.
     bindR (store32 dest v0 m) (\<lambda>m1.
     bindR (load32 (val + 4) m1) (\<lambda>v1.
     store32 (dest + 4) v1 m1)))"

definition mlx5_write_db :: "nat \<Rightarrow> nat \<Rightarrow> memory \<Rightarrow> memory res" where
  "mlx5_write_db dst src m = bindR (load_bytes src 8 m) (\<lambda>bs. store_bytes dst bs m)"

text \<open>The copy of whole blocks; \<open>bytecnt\<close> is a multiple of 64 at every call, so that the counter
  reaches zero after \<open>bytecnt div 64\<close> rounds.\<close>

fun bf_copy_blocks :: "nat \<Rightarrow> nat \<Rightarrow> nat \<Rightarrow> nat \<Rightarrow> nat \<Rightarrow> memory \<Rightarrow> memory res" where
  "bf_copy_blocks 0 dst src qend buf m = Inr m"
| "bf_copy_blocks (Suc n) dst src qend buf m =
     bindR (load_bytes src 64 m) (\<lambda>bs.
     bindR (store_bytes dst bs m) (\<lambda>m1.
       let src' = src + 64
       in bf_copy_blocks n (dst + 64) (if src' = qend then buf else src') qend buf m1))"

definition mlx5_bf_copy ::
  "nat \<Rightarrow> nat \<Rightarrow> u32 \<Rightarrow> conn_context \<Rightarrow> mlx5dv_qp \<Rightarrow> memory \<Rightarrow> memory res" where
  "mlx5_bf_copy dst src bytecnt ctx q m =
     bf_copy_blocks (unat bytecnt div 64) dst src (sq_end ctx) (sq_buf q) m"

definition ring_db ::
  "conn_context \<Rightarrow> mlx5_db_method \<Rightarrow> nat \<Rightarrow> int \<Rightarrow> memory \<Rightarrow> (conn_context \<times> memory) res" where
  "ring_db ctx db_method seg sz m =
     bindR (deref (iqp ctx)) (\<lambda>q.
       let reg = bf_reg q + unat (bf_offset ctx);
           flipped = ctx\<lparr>bf_offset := bf_offset ctx XOR bf_size q\<rparr>;
           blue_flame =
             (if of_int sz \<le> bf_size q div 64
              then mlx5_bf_copy reg seg (of_int (sz * 64)) ctx q m
              else mlx5_write_db reg seg m)
       in case db_method of
            MLX5_DB_METHOD_DEDIC_BF_1_THREAD \<Rightarrow> bindR blue_flame (\<lambda>m'. Inr (flipped, m'))
          | MLX5_DB_METHOD_DEDIC_BF \<Rightarrow> bindR blue_flame (\<lambda>m'. Inr (flipped, m'))
          | MLX5_DB_METHOD_BF \<Rightarrow> bindR blue_flame (\<lambda>m'. Inr (flipped, m'))
          | MLX5_DB_METHOD_DB \<Rightarrow> bindR (mlx5_write64 seg reg m) (\<lambda>m'. Inr (ctx, m')))"

section \<open>Building one entry\<close>

text \<open>The segments between the control segment and the data: the new write position, the size in
  chunks, the atomic argument and the memory, or the error the code returns.\<close>

definition op_segs ::
  "env \<Rightarrow> send_wr \<Rightarrow> conn_context \<Rightarrow> nat \<Rightarrow> int \<Rightarrow> memory
    \<Rightarrow> (int + nat \<times> int \<times> int \<times> memory) res" where
  "op_segs E wr ctx seg sz m =
     (case exp_opcode wr of
        IBV_EXP_WR_RDMA_READ \<Rightarrow>
          bindR (set_raddr_seg seg (rdma_remote_addr wr) (rdma_rkey wr) m) (\<lambda>m.
            Inr (Inr (seg + 16, sz + 1, 0, m)))
      | IBV_EXP_WR_RDMA_WRITE \<Rightarrow>
          bindR (set_raddr_seg seg (rdma_remote_addr wr) (rdma_rkey wr) m) (\<lambda>m.
            Inr (Inr (seg + 16, sz + 1, 0, m)))
      | IBV_EXP_WR_RDMA_WRITE_WITH_IMM \<Rightarrow>
          bindR (set_raddr_seg seg (rdma_remote_addr wr) (rdma_rkey wr) m) (\<lambda>m.
            Inr (Inr (seg + 16, sz + 1, 0, m)))
      | IBV_EXP_WR_ATOMIC_CMP_AND_SWP \<Rightarrow>
          bindR (set_raddr_seg seg (atomic_remote_addr wr) (atomic_rkey wr) m) (\<lambda>m.
          bindR (set_atomic_seg (seg + 16) (exp_opcode wr) (atomic_swap wr)
                   (atomic_compare_add wr) m) (\<lambda>m.
            Inr (Inr (seg + 32, sz + 2, 8, m))))
      | IBV_EXP_WR_ATOMIC_FETCH_AND_ADD \<Rightarrow>
          bindR (set_raddr_seg seg (atomic_remote_addr wr) (atomic_rkey wr) m) (\<lambda>m.
          bindR (set_atomic_seg (seg + 16) (exp_opcode wr) (atomic_swap wr)
                   (atomic_compare_add wr) m) (\<lambda>m.
            Inr (Inr (seg + 32, sz + 2, 8, m))))
      | IBV_EXP_WR_CQE_WAIT \<Rightarrow>
          bindR (deref (icq ctx)) (\<lambda>q.
          bindR (set_wait_en_seg seg (cqn q) (cqe_wait_count wr) m) (\<lambda>m.
            Inr (Inr (seg + 16, sz + 1, 0, m))))
      | IBV_EXP_WR_SEND_ENABLE \<Rightarrow>
          if flags ctx AND IBV_EXP_QP_CREATE_MANAGED_SEND (abi E) = 0 then Inr (Inl EINVAL)
          else
            bindR (deref (wqe_enable_qp wr)) (\<lambda>q.
            bindR (set_wait_en_seg seg (qp_num q) (wqe_enable_count wr) m) (\<lambda>m.
              Inr (Inr (seg + 16, sz + 1, 0, m))))
      | IBV_EXP_WR_RECV_ENABLE \<Rightarrow>
          if flags ctx AND IBV_EXP_QP_CREATE_MANAGED_RECV (abi E) = 0 then Inr (Inl EINVAL)
          else
            bindR (deref (wqe_enable_qp wr)) (\<lambda>q.
            bindR (set_wait_en_seg seg (qp_num q) (wqe_enable_count wr) m) (\<lambda>m.
              Inr (Inr (seg + 16, sz + 1, 0, m))))
      | _ \<Rightarrow> Inr (Inr (seg, sz, 0, m)))"

text \<open>\<open>__mlx5_post_send\<close>: the error code, the size in chunks (meaningful without error) and the
  memory. \<open>qpn\<close> is \<open>ctx->id->qp->qp_num\<close>.\<close>

definition mlx5_post_send_wqe ::
  "env \<Rightarrow> send_wr \<Rightarrow> conn_context \<Rightarrow> u32 \<Rightarrow> u64 \<Rightarrow> nat \<Rightarrow> memory \<Rightarrow> (int \<times> int \<times> memory) res" where
  "mlx5_post_send_wqe E wr ctx qpn exp_send_flags ctrl m =
     (let mlx5_opcode = MLX5_WRAPPER_IB_OPCODE_GET_OP (mlx5_ib_opcode (exp_opcode wr));
          imm = send_ieth wr
      in bindR (op_segs E wr ctx (ctrl + 16) 1 m) (\<lambda>r.
           case r of
             Inl err \<Rightarrow> Inr (err, 0, m)
           | Inr (seg, sz, atom_arg, m1) \<Rightarrow>
               bindR (set_data_seg ctx seg sz
                        (exp_send_flags AND IBV_SEND_INLINE (abi E) \<noteq> 0)
                        (num_sge wr) (sg_list wr) atom_arg 0 0 m1) (\<lambda>(err, size', m2).
                 if err \<noteq> 0 then Inr (err, 0, m2)
                 else
                   bindR (read_at (fm_ce_se_tbl ctx)
                            (unat (exp_send_flags AND (IBV_SEND_SOLICITED (abi E) OR
                               IBV_SEND_SIGNALED (abi E) OR IBV_SEND_FENCE (abi E))))) (\<lambda>fm_ce_se.
                   bindR (set_ctrl_seg_sig ctrl qpn (ucast mlx5_opcode) 0 0 (of_int size')
                            fm_ce_se imm m2) (\<lambda>m3.
                     Inr (0, size', m3))))))"

section \<open>Posting a chain\<close>

text \<open>The loop over the chain: the error, the request it stopped at, the number of entries built,
  the last entry and its size, and the new state.\<close>

fun post_loop ::
  "env \<Rightarrow> u32 \<Rightarrow> send_wr list \<Rightarrow> nat \<Rightarrow> nat \<Rightarrow> int \<Rightarrow> conn_context \<Rightarrow> memory
    \<Rightarrow> (int \<times> send_wr option \<times> nat \<times> nat \<times> int \<times> conn_context \<times> memory) res" where
  "post_loop E qpn [] nreq wqe2ring sz ctx m =
     Inr (0, None, nreq, wqe2ring, sz, ctx, m)"
| "post_loop E qpn (wr # wrs) nreq wqe2ring sz ctx m =
     bindR (deref (iqp ctx)) (\<lambda>q.
       let idx = scur_post ctx AND (sq_cnt q - 1);
           seg = get_send_wqe ctx (uint idx)
       in if num_sge wr > 16 then Inr (ENOMEM, Some wr, nreq, wqe2ring, sz, ctx, m)
          else
            bindR (mlx5_post_send_wqe E wr ctx qpn (send_flags wr) seg m) (\<lambda>(err, size', m1).
              if err \<noteq> 0 then Inr (err, Some wr, nreq, wqe2ring, sz, ctx, m1)
              else
                bindR (deref (sq_wrid ctx)) (\<lambda>ids.
                bindR (write_at ids (unat idx) (wr_id wr)) (\<lambda>ids'.
                  post_loop E qpn wrs (nreq + 1) seg size'
                    (ctx\<lparr>sq_wrid := Some ids',
                         scur_post := scur_post ctx +
                           DIV_ROUND_UP (of_int (size' * 16)) MLX5_SEND_WQE_BB\<rparr>) m1))))"

text \<open>The chain is posted and the doorbell rung, unless the queue is a managed one.\<close>

definition mlx5_post_send ::
  "env \<Rightarrow> nat \<Rightarrow> send_wr list \<Rightarrow> world \<Rightarrow> (int \<times> send_wr option \<times> world) res" where
  "mlx5_post_send E p wrs w =
     bindR (ctx_of p w) (\<lambda>ctx.
     bindR (if wrs = [] then Inr 0 else bindR (qp_of (ctx_id ctx) w) (\<lambda>q. Inr (qp_num q))) (\<lambda>qpn.
     bindR (post_loop E qpn wrs 0 0 0 ctx (mem w))
       (\<lambda>(err, bad, nreq, wqe2ring, sz, ctx1, m1).
         if nreq \<noteq> 0 \<and> flags ctx1 AND IBV_EXP_QP_CREATE_MANAGED_SEND (abi E) = 0 then
           bindR (ring_db ctx1 MLX5_DB_METHOD_DB wqe2ring ((sz + 3) div 4) m1) (\<lambda>(ctx2, m2).
             Inr (err, bad, set_ctx p ctx2 (w\<lparr>mem := m2\<rparr>)))
         else Inr (err, bad, set_ctx p ctx1 (w\<lparr>mem := m1\<rparr>)))))"

section \<open>The wrappers\<close>

text \<open>The size the shadow counter gives an operation before its data.\<close>

fun op_size :: "wr_opcode \<Rightarrow> int" where
  "op_size IBV_EXP_WR_RDMA_READ = 1"
| "op_size IBV_EXP_WR_RDMA_WRITE = 1"
| "op_size IBV_EXP_WR_RDMA_WRITE_WITH_IMM = 1"
| "op_size IBV_EXP_WR_ATOMIC_CMP_AND_SWP = 2"
| "op_size IBV_EXP_WR_ATOMIC_FETCH_AND_ADD = 2"
| "op_size IBV_EXP_WR_CQE_WAIT = 1"
| "op_size IBV_EXP_WR_SEND_ENABLE = 1"
| "op_size IBV_EXP_WR_RECV_ENABLE = 1"
| "op_size _ = 0"

function count_sges :: "int \<Rightarrow> ibv_sge list option \<Rightarrow> int \<Rightarrow> int \<Rightarrow> int res" where
  "count_sges num sgs i sz =
     (if i < num then
        bindR (sge_at sgs i) (\<lambda>sg.
          count_sges num sgs (i + 1) (if sg_length sg > 0 then sz + 1 else sz))
      else Inr sz)"
  by pat_completeness auto
termination
  by (relation "measure (\<lambda>(num, sgs, i, _). nat (num - i))") auto

declare count_sges.simps [simp del]

definition update_scur_post :: "send_wr \<Rightarrow> conn_context \<Rightarrow> conn_context res" where
  "update_scur_post wr ctx =
     bindR (deref (iqp ctx)) (\<lambda>q.
       let idx = scur_post ctx AND (sq_cnt q - 1)
       in bindR (deref (sq_wrid ctx)) (\<lambda>ids.
          bindR (write_at ids (unat idx) (wr_id wr)) (\<lambda>ids'.
          bindR (count_sges (num_sge wr) (sg_list wr) 0 (1 + op_size (exp_opcode wr))) (\<lambda>sz.
            Inr (ctx\<lparr>sq_wrid := Some ids',
                     scur_post := scur_post ctx +
                       DIV_ROUND_UP (of_int (sz * 16)) MLX5_SEND_WQE_BB\<rparr>)))))"

definition ibv_post_send_wrapper ::
  "env \<Rightarrow> nat \<Rightarrow> ibv_qp option \<Rightarrow> send_wr list \<Rightarrow> world \<Rightarrow> (int \<times> world) res" where
  "ibv_post_send_wrapper E p qp wrs w =
     bindR (ctx_of p w) (\<lambda>ctx.
       case wrs of
         [] \<Rightarrow> Inl (Fault NullDeref)
       | wr # _ \<Rightarrow>
           bindR (update_scur_post wr ctx) (\<lambda>ctx'.
             Inr (call (IbvPostSend qp wrs) (ans_post_send E) (set_ctx p ctx' w))))"

definition ibv_exp_post_send_wrapper ::
  "env \<Rightarrow> nat \<Rightarrow> ibv_qp option \<Rightarrow> send_wr list \<Rightarrow> world \<Rightarrow> (int \<times> world) res" where
  "ibv_exp_post_send_wrapper E p qp wrs w =
     bindR (ctx_of p w) (\<lambda>ctx.
       case wrs of
         [] \<Rightarrow> Inl (Fault NullDeref)
       | wr # _ \<Rightarrow>
           bindR (update_scur_post wr ctx) (\<lambda>ctx'.
             Inr (call (IbvExpPostSend qp wrs) (ans_post_send E) (set_ctx p ctx' w))))"

end
