(* ===== verification/Post_Correct.thy ===== *)
theory Post_Correct
  imports Post_Send
begin

text \<open>
  Correctness of posting: an entry built by the code is the chunk list of the specification
  below, put into the ring at the producer's position; a chain is built as consecutive entries;
  the wrappers' shadow counter moves as the builder's does; the doorbell register receives the head
  of the last entry; the control segment can be read back.
\<close>

section \<open>What an entry should contain\<close>

definition sges :: "send_wr \<Rightarrow> ibv_sge list" where
  "sges wr = (case sg_list wr of None \<Rightarrow> [] | Some l \<Rightarrow> l)"

text \<open>The count of a request is the length of its list.\<close>

definition wr_ok :: "send_wr \<Rightarrow> bool" where
  "wr_ok wr \<longleftrightarrow> num_sge wr = int (length (sges wr))"

definition is_atomic :: "wr_opcode \<Rightarrow> bool" where
  "is_atomic op \<longleftrightarrow> op = IBV_EXP_WR_ATOMIC_CMP_AND_SWP \<or> op = IBV_EXP_WR_ATOMIC_FETCH_AND_ADD"

definition data_chunks :: "send_wr \<Rightarrow> chunk list" where
  "data_chunks wr = map (\<lambda>s. data_bytes (if is_atomic (exp_opcode wr) then s\<lparr>sg_length := 8\<rparr> else s))
     (filter nonempty (sges wr))"

text \<open>The segments between control and data; \<open>old\<close> is the chunk a wait segment leaves half of.\<close>

definition op_chunks :: "conn_context \<Rightarrow> send_wr \<Rightarrow> chunk \<Rightarrow> chunk list" where
  "op_chunks ctx wr old =
     (case exp_opcode wr of
        IBV_EXP_WR_RDMA_READ \<Rightarrow> [raddr_bytes (rdma_remote_addr wr) (rdma_rkey wr)]
      | IBV_EXP_WR_RDMA_WRITE \<Rightarrow> [raddr_bytes (rdma_remote_addr wr) (rdma_rkey wr)]
      | IBV_EXP_WR_RDMA_WRITE_WITH_IMM \<Rightarrow> [raddr_bytes (rdma_remote_addr wr) (rdma_rkey wr)]
      | IBV_EXP_WR_ATOMIC_CMP_AND_SWP \<Rightarrow>
          [raddr_bytes (atomic_remote_addr wr) (atomic_rkey wr),
           be64 (atomic_swap wr) @ be64 (atomic_compare_add wr)]
      | IBV_EXP_WR_ATOMIC_FETCH_AND_ADD \<Rightarrow>
          [raddr_bytes (atomic_remote_addr wr) (atomic_rkey wr),
           be64 (atomic_compare_add wr) @ le64 0]
      | IBV_EXP_WR_CQE_WAIT \<Rightarrow>
          [take 8 old @ be32 (cqe_wait_count wr) @ be32 (cqn (the (icq ctx)))]
      | IBV_EXP_WR_SEND_ENABLE \<Rightarrow>
          [take 8 old @ be32 (wqe_enable_count wr) @ be32 (qp_num (the (wqe_enable_qp wr)))]
      | IBV_EXP_WR_RECV_ENABLE \<Rightarrow>
          [take 8 old @ be32 (wqe_enable_count wr) @ be32 (qp_num (the (wqe_enable_qp wr)))]
      | _ \<Rightarrow> [])"

definition wqe_size :: "send_wr \<Rightarrow> nat" where
  "wqe_size wr = 1 + nat (op_size (exp_opcode wr)) + length (filter nonempty (sges wr))"

definition flag_index :: "verbs_abi \<Rightarrow> u64 \<Rightarrow> nat" where
  "flag_index A fl = unat (fl AND (IBV_SEND_SOLICITED A OR IBV_SEND_SIGNALED A OR IBV_SEND_FENCE A))"

definition wqe_chunks :: "env \<Rightarrow> conn_context \<Rightarrow> u32 \<Rightarrow> send_wr \<Rightarrow> chunk \<Rightarrow> chunk list" where
  "wqe_chunks E ctx qpn wr old =
     ctrl_bytes qpn (ucast (MLX5_WRAPPER_IB_OPCODE_GET_OP (mlx5_ib_opcode (exp_opcode wr)))) 0 0
       (of_nat (wqe_size wr)) (fm_ce_se_tbl ctx ! flag_index (abi E) (send_flags wr)) (send_ieth wr)
     # op_chunks ctx wr old @ data_chunks wr"

text \<open>What posting needs of a request: no inline data, an entry no longer than the queue, and what
  its operation refers to.\<close>

definition postable :: "env \<Rightarrow> conn_context \<Rightarrow> nat \<Rightarrow> send_wr \<Rightarrow> bool" where
  "postable E ctx cnt wr \<longleftrightarrow>
     wr_ok wr \<and> length (sges wr) \<le> 16 \<and> wqe_size wr \<le> 4 * cnt \<and>
     send_flags wr AND IBV_SEND_INLINE (abi E) = 0 \<and>
     flag_index (abi E) (send_flags wr) < length (fm_ce_se_tbl ctx) \<and>
     (exp_opcode wr = IBV_EXP_WR_CQE_WAIT \<longrightarrow> icq ctx \<noteq> None) \<and>
     (exp_opcode wr = IBV_EXP_WR_SEND_ENABLE \<longrightarrow>
        flags ctx AND IBV_EXP_QP_CREATE_MANAGED_SEND (abi E) \<noteq> 0 \<and> wqe_enable_qp wr \<noteq> None) \<and>
     (exp_opcode wr = IBV_EXP_WR_RECV_ENABLE \<longrightarrow>
        flags ctx AND IBV_EXP_QP_CREATE_MANAGED_RECV (abi E) \<noteq> 0 \<and> wqe_enable_qp wr \<noteq> None)"

lemma length_op_chunks [simp]: "length (op_chunks ctx wr old) = nat (op_size (exp_opcode wr))"
  by (simp add: op_chunks_def split: wr_opcode.split)

lemma op_size_range: "0 \<le> op_size op" "op_size op \<le> 2"
  by (cases op; simp)+

lemma length_data_chunks [simp]: "length (data_chunks wr) = length (filter nonempty (sges wr))"
  by (simp add: data_chunks_def)

lemma length_wqe_chunks [simp]: "length (wqe_chunks E ctx qpn wr old) = wqe_size wr"
  by (simp add: wqe_chunks_def wqe_size_def)

lemma op_chunks_16: "length old = 16 \<Longrightarrow> list_all (\<lambda>b. length b = 16) (op_chunks ctx wr old)"
  by (simp add: op_chunks_def split: wr_opcode.split)

lemma data_chunks_16: "list_all (\<lambda>b. length b = 16) (data_chunks wr)"
  by (simp add: data_chunks_def list_all_iff)

section \<open>The pieces of the builder\<close>

lemma upd_bytes_self: "mapped m a n \<Longrightarrow> upd_bytes a (bytes_at m a n) m = m"
proof (rule ext)
  fix x assume m: "mapped m a n"
  show "upd_bytes a (bytes_at m a n) m x = m x"
  proof (cases "a \<le> x \<and> x < a + n")
    case True
    then have "x - a < n" "a + (x - a) = x" by auto
    then show ?thesis using m True by (auto simp: upd_bytes_apply bytes_at_def mapped_iff split: option.splits)
  qed (auto simp: upd_bytes_apply)
qed

lemma set_wait_en_seg_chunk:
  assumes "mapped m a 16"
  shows "set_wait_en_seg a obj n m = Inr (upd_bytes a (take 8 (bytes_at m a 16) @ be32 n @ be32 obj) m)"
proof -
  have "take 8 (bytes_at m a 16) = bytes_at m a 8" using bytes_at_add [of m a 8 8] by simp
  moreover have "mapped m a 8" "mapped m (a + 8) 8" using assms by (auto intro: mapped_sub)
  ultimately show ?thesis
    using upd_bytes_self [of m a 8] upd_bytes_append [of a "bytes_at m a 8" "be32 n @ be32 obj" m]
    by (simp add: set_wait_en_seg_bytes)
qed

text \<open>The operation's segments are put behind the control segment.\<close>

lemma op_segs_ring:
  assumes sq: "sq_ok ctx cnt m" and idx: "i < cnt" and ok: "postable E ctx cnt wr"
  shows "op_segs E wr ctx (sq_start ctx + 16 * (4 * i + 1)) 1 m =
    Inr (Inr (sq_start ctx + 16 * (4 * i + 1 + nat (op_size (exp_opcode wr))),
      1 + op_size (exp_opcode wr), if is_atomic (exp_opcode wr) then 8 else 0,
      put_ring ctx cnt (4 * i + 1) (op_chunks ctx wr (chunk_at ctx m (4 * i + 1))) m))"
proof -
  let ?a = "sq_start ctx + 16 * (4 * i + 1)"
  have mod: "(4 * i + 1) mod (4 * cnt) = 4 * i + 1" "(4 * i + 1 + 1) mod (4 * cnt) = 4 * i + 2"
    using idx by simp_all
  have m1: "mapped m ?a 16" and m2: "mapped m (?a + 16) 16"
    using sq_ok_mapped [OF sq, of "4 * i + 1" 0 16] sq_ok_mapped [OF sq, of "4 * i + 2" 0 16] idx
    by (simp_all add: add.assoc)
  have m3: "mapped (upd_bytes ?a b m) (?a + 16) 16" for b using m2 by simp
  have "set_wait_en_seg ?a obj n m =
      Inr (upd_bytes ?a (take 8 (chunk_at ctx m (4 * i + 1)) @ be32 n @ be32 obj) m)" for obj n
    using set_wait_en_seg_chunk [OF m1] by (simp add: chunk_at_def)
  then show ?thesis
    using ok m1 m2 m3 mod
    by (cases "exp_opcode wr")
      (auto simp: op_segs_def op_chunks_def is_atomic_def set_raddr_seg_bytes set_atomic_seg_bytes
        atomic_bytes_def postable_def add.commute add.left_commute)
qed

text \<open>A scatter list goes to the ring after them.\<close>

lemma set_data_seg_chunks:
  assumes "wr_ok wr"
  shows "set_data_seg ctx seg sz False (num_sge wr) (sg_list wr)
      (if is_atomic (exp_opcode wr) then 8 else 0) 0 0 m =
    bindR (put_chunks ctx seg (data_chunks wr) m) (\<lambda>m'.
      Inr (0, sz + int (length (data_chunks wr)), m'))"
proof (cases "sg_list wr")
  case None
  then have "num_sge wr = 0" "sges wr = []" using assms by (simp_all add: wr_ok_def sges_def)
  then show ?thesis
    by (simp add: set_data_seg_def set_data_atom_seg_def set_data_non_inl_seg_def
        atom_loop.simps non_inl_loop.simps data_chunks_def)
next
  case (Some l)
  then have "num_sge wr = int (length l)" "sges wr = l" using assms by (simp_all add: wr_ok_def sges_def)
  then show ?thesis
    using Some non_inl_loop_chunks [of ctx "[]" l seg sz m] atom_loop_chunks [of ctx "[]" l seg sz 8 m]
    by (simp add: set_data_seg_def set_data_atom_seg_def set_data_non_inl_seg_def bindR_assoc data_chunks_def)
qed

section \<open>One entry\<close>

lemma put_ring_append:
  "put_ring c cnt k (as @ bs) m = put_ring c cnt (k + length as) bs (put_ring c cnt k as m)"
  by (induction as arbitrary: k m) auto

lemma sq_ok_put_ring [simp]: "sq_ok c cnt m \<Longrightarrow> sq_ok c cnt (put_ring c cnt k bs m)"
  by (induction bs arbitrary: k m) auto

text \<open>Building an entry at block \<open>i\<close> puts its chunks into the ring there, and stores nothing outside
  the queue.\<close>

lemma mlx5_post_send_wqe_ring:
  assumes sq: "sq_ok ctx cnt m" and i: "i < cnt" and ok: "postable E ctx cnt wr"
  shows "\<exists>m'. mlx5_post_send_wqe E wr ctx qpn (send_flags wr) (sq_start ctx + 64 * i) m =
      Inr (0, int (wqe_size wr), m') \<and> sq_ok ctx cnt m' \<and>
    ring_chunks ctx cnt m' = ring_put (4 * i)
      (wqe_chunks E ctx qpn wr (ring_chunks ctx cnt m ! (4 * i + 1))) (ring_chunks ctx cnt m) \<and>
    (\<forall>x. x < sq_start ctx \<or> sq_end ctx \<le> x \<longrightarrow> m' x = m x)"
proof -
  let ?old = "chunk_at ctx m (4 * i + 1)"
  let ?n = "nat (op_size (exp_opcode wr))"
  let ?ops = "op_chunks ctx wr ?old" and ?data = "data_chunks wr"
  let ?m1 = "put_ring ctx cnt (4 * i + 1) ?ops m"
  let ?m2 = "put_ring ctx cnt (4 * i + 1) (?ops @ ?data) m"
  let ?a = "sq_start ctx + 64 * i"
  let ?c = "ctrl_bytes qpn (ucast (MLX5_WRAPPER_IB_OPCODE_GET_OP (mlx5_ib_opcode (exp_opcode wr)))) 0 0
       (of_nat (wqe_size wr)) (fm_ce_se_tbl ctx ! flag_index (abi E) (send_flags wr)) (send_ieth wr)"
  let ?m3 = "upd_bytes (sq_start ctx + 16 * (4 * i)) ?c ?m2"
  have cnt: "0 < cnt" using i by simp
  have n2: "?n \<le> 2" and n0: "int ?n = op_size (exp_opcode wr)"
    using op_size_range [of "exp_opcode wr"] by simp_all
  have old: "length ?old = 16" by (simp add: chunk_at_def)
  have len16: "list_all (\<lambda>b. length b = 16) (?ops @ ?data)"
    using op_chunks_16 [OF old] data_chunks_16 by (simp add: list_all_append)
  have a: "?a + 16 = sq_start ctx + 16 * (4 * i + 1)" by simp
  have inl: "send_flags wr AND IBV_SEND_INLINE (abi E) = 0" "wr_ok wr" "wqe_size wr \<le> 4 * cnt"
    and fl: "flag_index (abi E) (send_flags wr) < length (fm_ce_se_tbl ctx)"
    using ok by (auto simp: postable_def)
  have nxt: "ring_next ctx (sq_start ctx + 16 * (4 * i + 1 + ?n)) =
      sq_start ctx + 16 * ((4 * i + 1 + ?n) mod (4 * cnt))"
    using sq i n2 by (simp add: ring_next_def sq_ok_def)
  have put: "put_chunks ctx (sq_start ctx + 16 * (4 * i + 1 + ?n)) ?data ?m1 = Inr ?m2"
    using put_chunks_ring [OF sq_ok_put_ring [OF sq] data_chunks_16 nxt]
    by (simp add: put_ring_append)
  have sz: "1 + int ?n + int (length ?data) = int (wqe_size wr)" by (simp add: wqe_size_def)
  have data: "set_data_seg ctx (sq_start ctx + 16 * (4 * i + 1 + ?n)) (1 + op_size (exp_opcode wr))
      (send_flags wr AND IBV_SEND_INLINE (abi E) \<noteq> 0) (num_sge wr) (sg_list wr)
      (if is_atomic (exp_opcode wr) then 8 else 0) 0 0 ?m1 = Inr (0, int (wqe_size wr), ?m2)"
    using set_data_seg_chunks [OF inl(2)] put inl(1) sz n0 by simp
  have ctrl: "store_bytes ?a ?c ?m2 = Inr ?m3"
    using sq_ok_mapped [OF sq_ok_put_ring [OF sq], of "4 * i" 0 16] i by simp
  have run: "mlx5_post_send_wqe E wr ctx qpn (send_flags wr) ?a m =
      Inr (0, int (wqe_size wr), ?m3)"
    unfolding mlx5_post_send_wqe_def Let_def a op_segs_ring [OF sq i ok] bindR_Inr sum.case prod.case
      data
    using fl ctrl by (simp add: flag_index_def set_ctrl_seg_bytes)
  let ?r = "ring_chunks ctx cnt m"
  have "ring_chunks ctx cnt ?m3 = (ring_put (4 * i + 1) (?ops @ ?data) ?r)[4 * i := ?c]"
    by (simp only: ring_chunks_upd [OF length_seg_bytes(1)] ring_chunks_put_ring [OF len16])
  also have "\<dots> = ring_put (4 * i) (?c # ?ops @ ?data) ?r"
  proof -
    have "length (?c # ?ops @ ?data) \<le> length ?r"
      using inl(3) by (simp add: wqe_size_def)
    from ring_put_Cons_last [OF this, of "4 * i"] show ?thesis using i by simp
  qed
  finally have ring: "ring_chunks ctx cnt ?m3 =
      ring_put (4 * i) (wqe_chunks E ctx qpn wr (?r ! (4 * i + 1))) ?r"
    using i by (simp add: wqe_chunks_def nth_ring_chunks)
  have "?m3 x = m x" if "x < sq_start ctx \<or> sq_end ctx \<le> x" for x
    using put_ring_outside [OF len16 cnt, of x ctx] that i sq
    by (auto simp: upd_bytes_apply sq_ok_def)
  then show ?thesis using run ring sq by simp
qed

section \<open>The shadow counter\<close>

lemma count_sges_list:
  "count_sges (int (length (pre @ l))) (Some (pre @ l)) (int (length pre)) sz =
   Inr (sz + int (length (filter nonempty l)))"
proof (induction l arbitrary: pre sz)
  case Nil
  then show ?case by (simp add: count_sges.simps)
next
  case (Cons sg l)
  have "sg_length sg > 0 \<longleftrightarrow> nonempty sg" by (simp add: nonempty_def word_gt_0)
  then show ?case
    using Cons.IH [of "pre @ [sg]"]
    by (subst count_sges.simps) (auto simp: sge_at_append add.commute algebra_simps)
qed

lemma count_sges_wr:
  assumes "wr_ok wr"
  shows "count_sges (num_sge wr) (sg_list wr) 0 sz = Inr (sz + int (length (filter nonempty (sges wr))))"
  using assms count_sges_list [of "[]" "sges wr" sz]
  by (cases "sg_list wr") (simp_all add: wr_ok_def sges_def count_sges.simps)

text \<open>The blocks an entry takes.\<close>

definition wqe_blocks :: "send_wr \<Rightarrow> nat" where
  "wqe_blocks wr = (wqe_size wr + 3) div 4"

lemma DIV_ROUND_UP_blocks:
  assumes "n < 2 ^ 26"
  shows "DIV_ROUND_UP (of_nat (n * 16)) MLX5_SEND_WQE_BB = of_nat ((n + 3) div 4)"
proof -
  have u: "unat (of_nat (n * 16) :: u32) = n * 16"
    using assms by (simp add: unat_of_nat take_bit_eq_mod del: of_nat_mult)
  have "unat (DIV_ROUND_UP (of_nat (n * 16)) MLX5_SEND_WQE_BB) = (n * 16 + 63) div 64"
    using assms u by (subst DIV_ROUND_UP_ceil) (simp_all add: MLX5_SEND_WQE_BB_def)
  also have "\<dots> = (n + 3) div 4" by arith
  finally have "unat (DIV_ROUND_UP (of_nat (n * 16)) MLX5_SEND_WQE_BB) = (n + 3) div 4" .
  then show ?thesis by (metis of_nat_unat ucast_id)
qed

lemma postable_size:
  assumes "postable E ctx cnt wr"
  shows "wqe_size wr \<le> 19"
proof -
  have "length (sges wr) \<le> 16" using assms by (simp add: postable_def)
  then show ?thesis
    unfolding wqe_size_def
    using op_size_range [of "exp_opcode wr"] length_filter_le [of nonempty "sges wr"] by linarith
qed

lemma blocks_of_size:
  assumes "wqe_size wr < 2 ^ 26"
  shows "DIV_ROUND_UP (of_int (int (wqe_size wr) * 16)) MLX5_SEND_WQE_BB = of_nat (wqe_blocks wr)"
proof -
  have "(of_int (int (wqe_size wr) * 16) :: u32) = of_nat (wqe_size wr * 16)" by simp
  then show ?thesis unfolding wqe_blocks_def by (simp only: DIV_ROUND_UP_blocks [OF assms])
qed

section \<open>A chain of entries\<close>

text \<open>The specification: every request of a chain is put at the block the producer's counter
  selects, and the counter moves by the blocks it takes.\<close>

fun post_spec ::
  "env \<Rightarrow> conn_context \<Rightarrow> u32 \<Rightarrow> nat \<Rightarrow> send_wr list \<Rightarrow> u32 \<Rightarrow> chunk list \<Rightarrow> u32 \<times> chunk list" where
  "post_spec E ctx qpn cnt [] pos r = (pos, r)"
| "post_spec E ctx qpn cnt (wr # wrs) pos r =
     (let i = unat pos mod cnt
      in post_spec E ctx qpn cnt wrs (pos + of_nat (wqe_blocks wr))
           (ring_put (4 * i) (wqe_chunks E ctx qpn wr (r ! (4 * i + 1))) r))"

fun block_of_last :: "nat \<Rightarrow> send_wr list \<Rightarrow> u32 \<Rightarrow> nat \<Rightarrow> nat" where
  "block_of_last cnt [] pos i = i"
| "block_of_last cnt (wr # wrs) pos i =
     block_of_last cnt wrs (pos + of_nat (wqe_blocks wr)) (unat pos mod cnt)"

text \<open>What the queue of a connection looks like: a power of two of blocks, an identifier for each.\<close>

definition queue_ok :: "conn_context \<Rightarrow> nat \<Rightarrow> memory \<Rightarrow> bool" where
  "queue_ok ctx cnt m \<longleftrightarrow>
     (case (iqp ctx, sq_wrid ctx) of
        (Some q, Some ids) \<Rightarrow> unat (sq_cnt q) = cnt \<and> length ids = cnt \<and>
          (\<exists>k < 32. cnt = 2 ^ k) \<and> sq_ok ctx cnt m
      | _ \<Rightarrow> False)"

text \<open>The parts of a connection that posting does not change.\<close>

definition same_queue :: "conn_context \<Rightarrow> conn_context \<Rightarrow> bool" where
  "same_queue c d \<longleftrightarrow> (\<exists>ids pos. d = c\<lparr>sq_wrid := ids, scur_post := pos\<rparr>)"

lemma same_queue_refl [simp]: "same_queue c c"
  unfolding same_queue_def by (rule exI [of _ "sq_wrid c"], rule exI [of _ "scur_post c"]) simp

lemma same_queue_upd: "same_queue c (c\<lparr>sq_wrid := ids, scur_post := pos\<rparr>)"
  by (auto simp: same_queue_def)

lemma same_queue_trans: "same_queue c d \<Longrightarrow> same_queue d e \<Longrightarrow> same_queue c e"
  using same_queue_upd [of c] by (auto simp: same_queue_def)

lemma same_queue_simps:
  assumes "same_queue c d"
  shows "sq_ok d cnt m = sq_ok c cnt m" "ring_chunks d cnt m = ring_chunks c cnt m"
    "wqe_chunks E d qpn wr old = wqe_chunks E c qpn wr old" "postable E d cnt wr = postable E c cnt wr"
    "iqp d = iqp c" "sq_start d = sq_start c" "sq_end d = sq_end c" "flags d = flags c"
    "post_spec E d qpn cnt wrs pos r = post_spec E c qpn cnt wrs pos r" "bf_offset d = bf_offset c"
    "ctx_id d = ctx_id c"
proof -
  obtain ids p where d: "d = c\<lparr>sq_wrid := ids, scur_post := p\<rparr>" using assms by (auto simp: same_queue_def)
  show w: "wqe_chunks E d qpn wr old = wqe_chunks E c qpn wr old" for qpn wr old
    by (simp add: d wqe_chunks_def op_chunks_def cong: wr_opcode.case_cong)
  show "post_spec E d qpn cnt wrs pos r = post_spec E c qpn cnt wrs pos r"
    by (induction wrs arbitrary: pos r) (simp_all add: w Let_def)
qed (use assms in \<open>auto simp: same_queue_def sq_ok_def ring_chunks_def chunk_at_def postable_def\<close>)

lemma mod_less_cnt: "0 < cnt \<Longrightarrow> unat (pos :: u32) mod cnt < cnt"
  by simp

lemma get_send_wqe_idx:
  assumes "unat n = 2 ^ k"
  shows "get_send_wqe ctx (uint (pos AND (n - 1))) = sq_start ctx + 64 * (unat pos mod unat n)"
    and "unat (pos AND (n - 1)) = unat pos mod unat n"
proof -
  show u: "unat (pos AND (n - 1)) = unat pos mod unat n" by (rule unat_and_pow2 [OF assms])
  show "get_send_wqe ctx (uint (pos AND (n - 1))) = sq_start ctx + 64 * (unat pos mod unat n)"
    using get_send_wqe_nat [of ctx "unat pos mod unat n"] u by (metis uint_nat)
qed

lemma post_loop_ring:
  assumes "queue_ok ctx cnt m" and "list_all (postable E ctx cnt) wrs"
    and "seg = sq_start ctx + 64 * i"
  shows "\<exists>ctx' m' sz'. post_loop E qpn wrs n seg sz ctx m =
      Inr (0, None, n + length wrs,
        sq_start ctx + 64 * block_of_last cnt wrs (scur_post ctx) i, sz', ctx', m') \<and>
    same_queue ctx ctx' \<and> queue_ok ctx' cnt m' \<and>
    (scur_post ctx', ring_chunks ctx cnt m') =
      post_spec E ctx qpn cnt wrs (scur_post ctx) (ring_chunks ctx cnt m) \<and>
    (\<forall>x. x < sq_start ctx \<or> sq_end ctx \<le> x \<longrightarrow> m' x = m x)"
  using assms
proof (induction wrs arbitrary: n seg i sz ctx m)
  case Nil
  then show ?case by simp
next
  case (Cons wr wrs)
  obtain q ids k where q: "iqp ctx = Some q" "sq_wrid ctx = Some ids" "unat (sq_cnt q) = cnt"
    "length ids = cnt" "cnt = 2 ^ k" and sq: "sq_ok ctx cnt m"
    using Cons.prems(1) by (auto simp: queue_ok_def split: option.splits)
  let ?i = "unat (scur_post ctx) mod cnt"
  have i: "?i < cnt" using q(5) by simp
  have ok: "postable E ctx cnt wr" and oks: "list_all (postable E ctx cnt) wrs"
    using Cons.prems(2) by simp_all
  have small: "wqe_size wr < 2 ^ 26" using postable_size [OF ok] by simp
  obtain m1 where m1: "mlx5_post_send_wqe E wr ctx qpn (send_flags wr) (sq_start ctx + 64 * ?i) m =
      Inr (0, int (wqe_size wr), m1)" and sq1: "sq_ok ctx cnt m1"
    and ring1: "ring_chunks ctx cnt m1 = ring_put (4 * ?i)
      (wqe_chunks E ctx qpn wr (ring_chunks ctx cnt m ! (4 * ?i + 1))) (ring_chunks ctx cnt m)"
    and out1: "\<forall>x. x < sq_start ctx \<or> sq_end ctx \<le> x \<longrightarrow> m1 x = m x"
    using mlx5_post_send_wqe_ring [OF sq i ok] by blast
  note idx = get_send_wqe_idx(1) [where n = "sq_cnt q" and ctx = ctx and pos = "scur_post ctx",
      unfolded q(3), OF q(5)]
    get_send_wqe_idx(2) [where n = "sq_cnt q" and pos = "scur_post ctx", unfolded q(3), OF q(5)]
  let ?ctx = "ctx\<lparr>sq_wrid := Some (ids[?i := wr_id wr]),
     scur_post := scur_post ctx + of_nat (wqe_blocks wr)\<rparr>"
  have same: "same_queue ctx ?ctx" by (rule same_queue_upd)
  note S = same_queue_simps [OF same]
  have len: "num_sge wr \<le> 16" using ok by (simp add: postable_def wr_ok_def)
  have step: "post_loop E qpn (wr # wrs) n seg sz ctx m =
      post_loop E qpn wrs (n + 1) (sq_start ctx + 64 * ?i) (int (wqe_size wr)) ?ctx m1"
    using q idx m1 len i blocks_of_size [OF small]
    by (simp add: Let_def del: of_int_mult)
  have qok: "queue_ok ?ctx cnt m1" using q sq1 S Cons.prems(1) by (auto simp: queue_ok_def)
  have oks': "list_all (postable E ?ctx cnt) wrs" unfolding S(4) by (rule oks)
  have seg: "sq_start ctx + 64 * ?i = sq_start ?ctx + 64 * ?i" by simp
  from Cons.IH [OF qok oks' seg, of "n + 1" "int (wqe_size wr)", unfolded S]
  obtain ctx' m' sz' where r: "post_loop E qpn wrs (n + 1) (sq_start ctx + 64 * ?i)
        (int (wqe_size wr)) ?ctx m1 = Inr (0, None, n + 1 + length wrs,
        sq_start ctx + 64 * block_of_last cnt wrs (scur_post ?ctx) ?i, sz', ctx', m')"
    "same_queue ?ctx ctx'" "queue_ok ctx' cnt m'"
    "(scur_post ctx', ring_chunks ctx cnt m') =
      post_spec E ctx qpn cnt wrs (scur_post ?ctx) (ring_chunks ctx cnt m1)"
    "\<forall>x. x < sq_start ctx \<or> sq_end ctx \<le> x \<longrightarrow> m' x = m1 x"
    by (elim exE conjE) (rule that)
  have "same_queue ctx ctx'" using same r(2) by (rule same_queue_trans)
  then show ?case
    using r step ring1 out1 by (simp add: Let_def)
qed

lemma post_spec_pos:
  "fst (post_spec E ctx qpn cnt wrs pos r) = pos + of_nat (sum_list (map wqe_blocks wrs))"
  by (induction wrs arbitrary: pos r) (simp_all add: Let_def add.assoc)

lemma length_post_spec [simp]: "length (snd (post_spec E ctx qpn cnt wrs pos r)) = length r"
  by (induction wrs arbitrary: pos r) (simp_all add: Let_def)

lemma block_of_last_less: "0 < cnt \<Longrightarrow> wrs \<noteq> [] \<Longrightarrow> block_of_last cnt wrs pos i < cnt"
proof (induction wrs arbitrary: pos i)
  case (Cons wr wrs)
  then show ?case by (cases wrs) auto
qed simp

section \<open>The wrappers' counter\<close>

text \<open>The wrappers touch no queue memory: they need the counts and the identifiers only.\<close>

definition counter_ok :: "conn_context \<Rightarrow> nat \<Rightarrow> bool" where
  "counter_ok ctx cnt \<longleftrightarrow>
     (case (iqp ctx, sq_wrid ctx) of
        (Some q, Some ids) \<Rightarrow> unat (sq_cnt q) = cnt \<and> length ids = cnt \<and> (\<exists>k < 32. cnt = 2 ^ k)
      | _ \<Rightarrow> False)"

lemma queue_ok_counter: "queue_ok ctx cnt m \<Longrightarrow> counter_ok ctx cnt"
  by (auto simp: queue_ok_def counter_ok_def split: option.splits)

text \<open>The connection after one request went through a wrapper.\<close>

definition advanced :: "nat \<Rightarrow> send_wr \<Rightarrow> conn_context \<Rightarrow> conn_context" where
  "advanced cnt wr ctx = ctx\<lparr>
     sq_wrid := map_option (\<lambda>ids. ids[unat (scur_post ctx) mod cnt := wr_id wr]) (sq_wrid ctx),
     scur_post := scur_post ctx + of_nat (wqe_blocks wr)\<rparr>"

lemma update_scur_post_eq:
  assumes "counter_ok ctx cnt" and "wr_ok wr" and "length (sges wr) < 2 ^ 20"
  shows "update_scur_post wr ctx = Inr (advanced cnt wr ctx)"
proof -
  obtain q ids k where q: "iqp ctx = Some q" "sq_wrid ctx = Some ids" "unat (sq_cnt q) = cnt"
    "length ids = cnt" "cnt = 2 ^ k"
    using assms(1) by (auto simp: counter_ok_def split: option.splits)
  note idx = get_send_wqe_idx(2) [where n = "sq_cnt q" and pos = "scur_post ctx", unfolded q(3), OF q(5)]
  have i: "unat (scur_post ctx) mod cnt < length ids" using q(4,5) by simp
  have "wqe_size wr < 2 ^ 26"
    unfolding wqe_size_def
    using op_size_range [of "exp_opcode wr"] le_less_trans [OF length_filter_le assms(3), of nonempty]
    by simp
  note blocks = blocks_of_size [OF this]
  have "1 + op_size (exp_opcode wr) + int (length (filter nonempty (sges wr))) = int (wqe_size wr)"
    using op_size_range [of "exp_opcode wr"] by (simp add: wqe_size_def)
  then show ?thesis
    using q i idx blocks count_sges_wr [OF assms(2), of "1 + op_size (exp_opcode wr)"]
    by (simp add: update_scur_post_def advanced_def Let_def del: of_int_mult)
qed

text \<open>One request: the counter and the identifiers end up as the builder leaves them.\<close>

lemma update_scur_post_builder:
  assumes q: "queue_ok ctx cnt m" and ok: "postable E ctx cnt wr"
    and run: "post_loop E qpn [wr] 0 0 0 ctx m = Inr (0, bad, n, seg, sz, ctx', m')"
  shows "update_scur_post wr ctx = Inr ctx'"
proof -
  have wr: "wr_ok wr" "length (sges wr) < 2 ^ 20" using ok by (auto simp: postable_def)
  obtain q ids k where Q: "iqp ctx = Some q" "sq_wrid ctx = Some ids" "unat (sq_cnt q) = cnt"
    "length ids = cnt" "cnt = 2 ^ k" and sq: "sq_ok ctx cnt m"
    using q by (auto simp: queue_ok_def split: option.splits)
  let ?i = "unat (scur_post ctx) mod cnt"
  have i: "?i < cnt" using Q(5) by simp
  obtain m1 where m1: "mlx5_post_send_wqe E wr ctx qpn (send_flags wr) (sq_start ctx + 64 * ?i) m =
      Inr (0, int (wqe_size wr), m1)"
    using mlx5_post_send_wqe_ring [OF sq i ok] by blast
  note idx = get_send_wqe_idx(1) [where n = "sq_cnt q" and ctx = ctx and pos = "scur_post ctx",
      unfolded Q(3), OF Q(5)]
    get_send_wqe_idx(2) [where n = "sq_cnt q" and pos = "scur_post ctx", unfolded Q(3), OF Q(5)]
  have "wqe_size wr < 2 ^ 26" using postable_size [OF ok] by simp
  note blocks = blocks_of_size [OF this]
  have len: "num_sge wr \<le> 16" using ok by (simp add: postable_def wr_ok_def)
  have "ctx' = ctx\<lparr>sq_wrid := Some (ids[?i := wr_id wr]),
      scur_post := scur_post ctx + of_nat (wqe_blocks wr)\<rparr>"
    using run Q idx m1 len i blocks by (simp add: Let_def del: of_int_mult)
  then show ?thesis using update_scur_post_eq [OF queue_ok_counter [OF q] wr] Q(2) by (simp add: advanced_def)
qed

section \<open>The doorbell\<close>

lemma mlx5_write64_bytes:
  assumes "mapped m val 8" and "mapped m dest 8" and "val + 8 \<le> dest \<or> dest + 8 \<le> val"
  shows "mlx5_write64 val dest m = Inr (upd_bytes dest (bytes_at m val 8) m)"
proof -
  let ?x = "bytes_at m val 4" and ?y = "bytes_at m (val + 4) 4"
  have maps: "mapped m val 4" "mapped m (val + 4) 4" "mapped m dest 4" "mapped m (dest + 4) 4"
    using assms(1,2) by (auto intro: mapped_sub)
  have "bytes_at (upd_bytes dest ?x m) (val + 4) 4 = ?y"
    using assms(3) by (intro bytes_at_disjoint) auto
  then have "mlx5_write64 val dest m = Inr (upd_bytes (dest + 4) ?y (upd_bytes dest ?x m))"
    using maps by (simp add: mlx5_write64_def load32_def store32_def le32_of_le32)
  then show ?thesis
    using bytes_at_add [of m val 4 4] upd_bytes_append [of dest ?x ?y m] by simp
qed

lemma ring_db_DB:
  assumes "iqp ctx = Some q" and "mapped m seg 8" and "mapped m (bf_reg q + unat (bf_offset ctx)) 8"
    and "seg + 8 \<le> bf_reg q + unat (bf_offset ctx) \<or> bf_reg q + unat (bf_offset ctx) + 8 \<le> seg"
  shows "ring_db ctx MLX5_DB_METHOD_DB seg sz m =
    Inr (ctx, upd_bytes (bf_reg q + unat (bf_offset ctx)) (bytes_at m seg 8) m)"
  using assms by (simp add: ring_db_def mlx5_write64_bytes)

text \<open>Where the doorbell register of a connection is, and that it lies outside the queue.\<close>

definition db_reg :: "conn_context \<Rightarrow> nat" where
  "db_reg ctx = (case iqp ctx of None \<Rightarrow> 0 | Some q \<Rightarrow> bf_reg q + unat (bf_offset ctx))"

definition db_ok :: "conn_context \<Rightarrow> memory \<Rightarrow> bool" where
  "db_ok ctx m \<longleftrightarrow> mapped m (db_reg ctx) 8 \<and> (db_reg ctx + 8 \<le> sq_start ctx \<or> sq_end ctx \<le> db_reg ctx)"

lemma post_loop_first:
  "wrs \<noteq> [] \<Longrightarrow> post_loop E qpn wrs n seg sz ctx m = Inr (0, r) \<Longrightarrow>
   post_loop E qpn wrs n seg' sz' ctx m = Inr (0, r)"
  by (cases wrs) (auto simp: Let_def bindR_eq_Inr ENOMEM_def split: if_splits)

lemma mlx5_post_send_ring:
  assumes ctx: "ctx_of p w = Inr ctx" and qp: "qp_of (ctx_id ctx) w = Inr qp"
    and q: "queue_ok ctx cnt (mem w)" and ok: "list_all (postable E ctx cnt) wrs" and ne: "wrs \<noteq> []"
    and db: "db_ok ctx (mem w)"
  shows "\<exists>ctx' w'. mlx5_post_send E p wrs w = Inr (0, None, w') \<and> ctx_of p w' = Inr ctx' \<and>
    same_queue ctx ctx' \<and>
    (scur_post ctx', ring_chunks ctx cnt (mem w')) =
      post_spec E ctx (qp_num qp) cnt wrs (scur_post ctx) (ring_chunks ctx cnt (mem w)) \<and>
    bytes_at (mem w') (db_reg ctx) 8 =
      (if flags ctx AND IBV_EXP_QP_CREATE_MANAGED_SEND (abi E) = 0
       then take 8 (ring_chunks ctx cnt (mem w') ! (4 * block_of_last cnt wrs (scur_post ctx) 0))
       else bytes_at (mem w) (db_reg ctx) 8)"
proof -
  let ?b = "block_of_last cnt wrs (scur_post ctx) 0"
  let ?seg = "sq_start ctx + 64 * ?b"
  obtain Q k where Q: "iqp ctx = Some Q" "cnt = 2 ^ k"
    using q by (auto simp: queue_ok_def split: option.splits)
  have cnt: "0 < cnt" using Q(2) by simp
  have start: "sq_start ctx = sq_start ctx + 64 * 0" by simp
  from post_loop_ring [OF q ok start, of "qp_num qp" 0 0]
  obtain ctx' m' sz' where run0: "post_loop E (qp_num qp) wrs 0 (sq_start ctx) 0 ctx (mem w) =
      Inr (0, None, 0 + length wrs, ?seg, sz', ctx', m')"
    and same: "same_queue ctx ctx'" and q': "queue_ok ctx' cnt m'"
    and spec: "(scur_post ctx', ring_chunks ctx cnt m') =
      post_spec E ctx (qp_num qp) cnt wrs (scur_post ctx) (ring_chunks ctx cnt (mem w))"
    and out: "\<forall>x. x < sq_start ctx \<or> sq_end ctx \<le> x \<longrightarrow> m' x = mem w x"
    by (elim exE conjE) (rule that)
  have run: "post_loop E (qp_num qp) wrs 0 0 0 ctx (mem w) =
      Inr (0, None, length wrs, ?seg, sz', ctx', m')"
    using post_loop_first [OF ne run0] by simp
  note S = same_queue_simps [OF same]
  let ?reg = "db_reg ctx"
  have reg: "?reg + 8 \<le> sq_start ctx \<or> sq_end ctx \<le> ?reg" "mapped (mem w) ?reg 8"
    using db by (auto simp: db_ok_def)
  have bytes: "bytes_at m' ?reg 8 = bytes_at (mem w) ?reg 8"
    using out reg(1) by (intro bytes_at_cong) auto
  have b: "?b < cnt" using block_of_last_less [OF cnt ne] .
  have sq': "sq_ok ctx cnt m'" using q' S by (auto simp: queue_ok_def split: option.splits)
  have nz: "length wrs \<noteq> 0" using ne by simp
  have ctx2: "ctx_of p (set_ctx p c (w\<lparr>mem := mm\<rparr>)) = Inr c" for c mm
    using ctx by simp
  show ?thesis
  proof (cases "flags ctx AND IBV_EXP_QP_CREATE_MANAGED_SEND (abi E) = 0")
    case False
    then have "mlx5_post_send E p wrs w = Inr (0, None, set_ctx p ctx' (w\<lparr>mem := m'\<rparr>))"
      using ctx qp run ne S by (simp add: mlx5_post_send_def)
    then show ?thesis using False bytes same spec ctx2 by auto
  next
    case True
    have regmap: "mapped m' ?reg 8"
      using reg out unfolding mapped_iff by (metis le_trans less_le_trans not_less)
    have segmap: "mapped m' ?seg 8"
      using sq_ok_mapped [OF sq', of "4 * ?b" 0 8] b by simp
    have "?seg + 8 \<le> sq_end ctx" using sq' b by (simp add: sq_ok_def)
    then have dis: "?seg + 8 \<le> ?reg \<or> ?reg + 8 \<le> ?seg" using reg(1) by auto
    let ?m2 = "upd_bytes ?reg (bytes_at m' ?seg 8) m'"
    have ring: "ring_db ctx' MLX5_DB_METHOD_DB ?seg sz2 m' = Inr (ctx', ?m2)" for sz2
      using ring_db_DB [of ctx' Q m' ?seg] Q(1) S segmap regmap dis by (simp add: db_reg_def)
    have "mlx5_post_send E p wrs w = Inr (0, None, set_ctx p ctx' (w\<lparr>mem := ?m2\<rparr>))"
      using True ctx qp run ne S ring by (simp add: mlx5_post_send_def)
    moreover have rc: "ring_chunks ctx cnt ?m2 = ring_chunks ctx cnt m'"
    proof -
      have "chunk_at ctx ?m2 i = chunk_at ctx m' i" if "i < 4 * cnt" for i
        unfolding chunk_at_def using reg(1) that sq'
        by (intro bytes_at_disjoint) (auto simp: sq_ok_def)
      then show ?thesis by (simp add: ring_chunks_def)
    qed
    moreover have "bytes_at ?m2 ?reg 8 = take 8 (ring_chunks ctx cnt ?m2 ! (4 * ?b))"
      using b rc bytes_at_add [of m' ?seg 8 8]
      by (simp add: nth_ring_chunks chunk_at_def bytes_at_same')
    ultimately show ?thesis using True same spec ctx2 by auto
  qed
qed

section \<open>The control-bit table\<close>

definition abi_ok :: "verbs_abi \<Rightarrow> bool" where
  "abi_ok A \<longleftrightarrow>
     distinct [IBV_SEND_FENCE A, IBV_SEND_SIGNALED A, IBV_SEND_SOLICITED A] \<and>
     {IBV_SEND_FENCE A, IBV_SEND_SIGNALED A, IBV_SEND_SOLICITED A} \<subseteq> {1, 2, 4} \<and>
     distinct [IBV_EXP_QP_BURST_SIGNALED A, IBV_EXP_QP_BURST_SOLICITED A, IBV_EXP_QP_BURST_FENCE A] \<and>
     {IBV_EXP_QP_BURST_SIGNALED A, IBV_EXP_QP_BURST_SOLICITED A, IBV_EXP_QP_BURST_FENCE A}
       \<subseteq> {1, 2, 4, 8, 16}"

text \<open>The control bits a set of flags should give.\<close>

definition ctrl_bits :: "bool \<Rightarrow> bool \<Rightarrow> bool \<Rightarrow> u8" where
  "ctrl_bits sol sig fence =
     (if sol then MLX5_WQE_CTRL_SOLICITED else 0) OR (if sig then MLX5_WQE_CTRL_CQ_UPDATE else 0) OR
     (if fence then MLX5_WQE_CTRL_FENCE else 0)"

lemma three_bits:
  fixes fl :: u64
  shows "fl AND 7 \<in> {0, 1, 2, 3, 4, 5, 6, 7}"
proof -
  have m: "(7 :: u64) = mask 3" by (simp add: mask_eq_exp_minus_1)
  have "unat (fl AND 7) < 8" unfolding m by (simp add: unat_and_mask)
  then have "unat (fl AND 7) \<in> {0, 1, 2, 3, 4, 5, 6, 7}" by auto
  then show ?thesis by (auto simp: word_unat_eq_iff)
qed

text \<open>All eight entries are written, whatever the table held.\<close>

definition table_for :: "u64 \<Rightarrow> u64 \<Rightarrow> u64 \<Rightarrow> u8 list \<Rightarrow> bool" where
  "table_for sol sig fence tbl \<longleftrightarrow> (\<exists>tbl'.
     foldR (case_prod table_set) (combine_bits sol sig fence) tbl = Inr tbl' \<and> length tbl' = 8 \<and>
     (\<forall>x \<in> {0, 1, 2, 3, 4, 5, 6, 7}. tbl' ! unat x =
        ctrl_bits (x AND sol \<noteq> 0) (x AND sig \<noteq> 0) (x AND fence \<noteq> 0)))"

lemmas table_eval = table_for_def combine_bits_def table_set_def write_at_def ctrl_bits_def
  MLX5_WQE_CTRL_CQ_UPDATE_def MLX5_WQE_CTRL_SOLICITED_def MLX5_WQE_CTRL_FENCE_def

lemma table_for_perms:
  "table_for 4 2 1 [a, b, c, d, e, f, g, h]" "table_for 4 1 2 [a, b, c, d, e, f, g, h]"
  "table_for 2 4 1 [a, b, c, d, e, f, g, h]" "table_for 2 1 4 [a, b, c, d, e, f, g, h]"
  "table_for 1 4 2 [a, b, c, d, e, f, g, h]" "table_for 1 2 4 [a, b, c, d, e, f, g, h]"
  by (simp_all add: table_eval)

lemma flag_perms:
  assumes "distinct [fence, sig, sol]" and "{fence, sig, sol} \<subseteq> {1, 2, 4 :: u64}"
  shows "(fence, sig, sol) \<in> {(1, 2, 4), (1, 4, 2), (2, 1, 4), (2, 4, 1), (4, 1, 2), (4, 2, 1)}"
  using assms by auto

lemma three_flags:
  assumes "distinct [fence, sig, sol]" and "{fence, sig, sol} \<subseteq> {1, 2, 4 :: u64}"
  shows "sol OR sig OR fence = 7"
  using flag_perms [OF assms] by (elim insertE emptyE) simp_all

lemma length_8_cases:
  "length xs = 8 \<Longrightarrow> \<exists>a b c d e f g h. xs = [a, b, c, d, e, f, g, h]"
  by (simp add: numeral_eq_Suc length_Suc_conv) blast

lemma combine_table:
  assumes "length tbl = 8" and "distinct [fence, sig, sol]" and "{fence, sig, sol} \<subseteq> {1, 2, 4}"
  shows "\<exists>tbl'. foldR (case_prod table_set) (combine_bits sol sig fence) tbl = Inr tbl' \<and>
    length tbl' = 8 \<and>
    (\<forall>fl. tbl' ! unat (fl AND (sol OR sig OR fence)) =
       ctrl_bits (fl AND sol \<noteq> 0) (fl AND sig \<noteq> 0) (fl AND fence \<noteq> 0))"
proof -
  obtain t0 t1 t2 t3 t4 t5 t6 t7 where tbl: "tbl = [t0, t1, t2, t3, t4, t5, t6, t7]"
    using length_8_cases [OF assms(1)] by (elim exE) (rule that)
  note perm = flag_perms [OF assms(2,3)] and seven = three_flags [OF assms(2,3)]
  have "table_for sol sig fence tbl"
    unfolding tbl using perm by (elim insertE emptyE) (simp_all add: table_for_perms)
  then obtain tbl' where t: "foldR (case_prod table_set) (combine_bits sol sig fence) tbl = Inr tbl'"
    "length tbl' = 8" "\<And>x. x \<in> {0, 1, 2, 3, 4, 5, 6, 7} \<Longrightarrow> tbl' ! unat x =
       ctrl_bits (x AND sol \<noteq> 0) (x AND sig \<noteq> 0) (x AND fence \<noteq> 0)"
    unfolding table_for_def by (elim exE conjE) (rule that, assumption, assumption, erule bspec)
  have and7: "(fl AND 7) AND s = fl AND s" if "s \<in> {1, 2, 4}" for fl s :: u64
    using that by (elim insertE emptyE) (simp_all add: and.assoc)
  have mem: "sol \<in> {1, 2, 4}" "sig \<in> {1, 2, 4}" "fence \<in> {1, 2, 4}" using assms(3) by simp_all
  note masks = and7 [OF mem(1)] and7 [OF mem(2)] and7 [OF mem(3)]
  have "tbl' ! unat (fl AND 7) =
      ctrl_bits (fl AND sol \<noteq> 0) (fl AND sig \<noteq> 0) (fl AND fence \<noteq> 0)" for fl
    using t(3) [OF three_bits [of fl]] by (simp only: masks)
  then show ?thesis
    unfolding seven by (intro exI [of _ tbl'] conjI allI t(1,2))
qed

lemma write_foldR_total:
  "(\<And>i v. (i, v) \<in> set ws \<Longrightarrow> i < length tbl) \<Longrightarrow>
   \<exists>tbl'. foldR (case_prod table_set) ws tbl = Inr tbl' \<and> length tbl' = length tbl"
proof (induction ws arbitrary: tbl)
  case (Cons w ws)
  obtain i v where w: "w = (i, v)" by (cases w)
  have "i < length tbl" using Cons.prems w by auto
  then have "table_set i v tbl = Inr (tbl[i := v])" by (simp add: table_set_def)
  moreover have "\<And>j u. (j, u) \<in> set ws \<Longrightarrow> j < length (tbl[i := v])"
    using Cons.prems by auto
  from Cons.IH [OF this] have "\<exists>tbl'. foldR (case_prod table_set) ws (tbl[i := v]) = Inr tbl' \<and>
    length tbl' = length tbl" by simp
  ultimately show ?case by (simp add: w)
qed simp

lemma or_less_32:
  assumes "a \<in> {1, 2, 4, 8, 16 :: u64}" "b \<in> {1, 2, 4, 8, 16}" "c \<in> {1, 2, 4, 8, 16}"
  shows "unat (a OR b) < 32" "unat (a OR b OR c) < 32" "unat a < 32"
proof -
  have m31: "mask 5 = (31 :: u64)" by (simp add: mask_eq_exp_minus_1)
  have m: "x AND mask 5 = x" if "x \<in> {1, 2, 4, 8, 16 :: u64}" for x
    using that unfolding m31 by (elim insertE emptyE) simp_all
  have lt: "unat x < 32" if "x AND mask 5 = x" for x :: u64
  proof -
    have "unat x = unat x mod 2 ^ 5" using unat_and_mask [of x 5] that by simp
    also have "\<dots> < 2 ^ 5" by (rule mod_less_divisor) simp
    finally show ?thesis by simp
  qed
  have ab: "(a OR b) AND mask 5 = a OR b" and abc: "(a OR b OR c) AND mask 5 = a OR b OR c"
    by (simp_all only: word_ao_dist m [OF assms(1)] m [OF assms(2)] m [OF assms(3)])
  show "unat (a OR b) < 32" by (rule lt [OF ab])
  show "unat (a OR b OR c) < 32" by (rule lt [OF abc])
  show "unat a < 32" by (rule lt [OF m [OF assms(1)]])
qed

text \<open>The table the code builds gives each set of flags its control bits, with the signal bit of the
  queue added.\<close>

lemma mlx5_build_ctrl_metadata_ok:
  assumes "abi_ok A" and "length (fm_ce_se_tbl ctx) = 8" and "length (fm_ce_se_acc ctx) = 32"
  shows "\<exists>ctx'. mlx5_build_ctrl_metadata A ctx = Inr ctx' \<and> length (fm_ce_se_tbl ctx') = 8 \<and>
    (\<forall>fl. fm_ce_se_tbl ctx' ! flag_index A fl = sq_signal_bits ctx OR
       ctrl_bits (fl AND IBV_SEND_SOLICITED A \<noteq> 0) (fl AND IBV_SEND_SIGNALED A \<noteq> 0)
         (fl AND IBV_SEND_FENCE A \<noteq> 0))"
proof -
  let ?sol = "IBV_SEND_SOLICITED A" and ?sig = "IBV_SEND_SIGNALED A" and ?fence = "IBV_SEND_FENCE A"
  let ?bsol = "IBV_EXP_QP_BURST_SOLICITED A" and ?bsig = "IBV_EXP_QP_BURST_SIGNALED A"
    and ?bfence = "IBV_EXP_QP_BURST_FENCE A"
  obtain tbl where t: "foldR (case_prod table_set) (combine_bits ?sol ?sig ?fence) (fm_ce_se_tbl ctx) =
      Inr tbl" "length tbl = 8"
    "\<And>fl. tbl ! unat (fl AND (?sol OR ?sig OR ?fence)) =
       ctrl_bits (fl AND ?sol \<noteq> 0) (fl AND ?sig \<noteq> 0) (fl AND ?fence \<noteq> 0)"
    using combine_table [of "fm_ce_se_tbl ctx" ?fence ?sig ?sol] assms(1,2) unfolding abi_ok_def by blast
  have seven: "?sol OR ?sig OR ?fence = 7"
    using assms(1) by (intro three_flags) (simp_all add: abi_ok_def)
  have b: "?bsig \<in> {1, 2, 4, 8, 16}" "?bsol \<in> {1, 2, 4, 8, 16}" "?bfence \<in> {1, 2, 4, 8, 16}"
    using assms(1) by (auto simp: abi_ok_def)
  have lt: "unat ?bfence < 32" "unat ?bsig < 32" "unat (?bsig OR ?bfence) < 32" "unat ?bsol < 32"
    "unat (?bsol OR ?bfence) < 32" "unat (?bsol OR ?bsig) < 32" "unat (?bsol OR ?bsig OR ?bfence) < 32"
    by (rule or_less_32 [OF b(2,1,3)] or_less_32 [OF b(2,3,1)] or_less_32 [OF b(1,3,2)]
      or_less_32 [OF b(3,1,2)])+
  have "i < length (replicate (length (fm_ce_se_acc ctx)) (0 :: u8))"
    if "(i, v) \<in> set (combine_bits ?bsol ?bsig ?bfence)" for i v
    using that unfolding combine_bits_def assms(3) length_replicate set_simps
    by (elim insertE emptyE) (simp_all add: lt)
  then obtain acc where "foldR (case_prod table_set) (combine_bits ?bsol ?bsig ?bfence)
      (replicate (length (fm_ce_se_acc ctx)) 0) = Inr acc"
    using write_foldR_total [where ws = "combine_bits ?bsol ?bsig ?bfence" and
        tbl = "replicate (length (fm_ce_se_acc ctx)) 0"] by metis
  then have "mlx5_build_ctrl_metadata A ctx = Inr (ctx\<lparr>
      fm_ce_se_tbl := map (\<lambda>b. sq_signal_bits ctx OR b) tbl,
      fm_ce_se_acc := map (\<lambda>b. sq_signal_bits ctx OR b) acc\<rparr>)"
    using t(1) by (simp add: mlx5_build_ctrl_metadata_def Let_def)
  moreover have lt8: "flag_index A fl < 8" for fl
    unfolding flag_index_def seven using three_bits [of fl] by (elim insertE emptyE) simp_all
  ultimately show ?thesis
    using t(2) t(3) [folded flag_index_def] by (simp add: lt8)
qed

section \<open>Reading an entry back\<close>

text \<open>What the adapter makes of a control segment.\<close>

record ctrl_view =
  view_opcode :: u8
  view_idx :: u16
  view_opmod :: u8
  view_qpn :: u32
  view_ds :: u8
  view_fm_ce_se :: u8
  view_imm :: u32

definition parse_ctrl :: "u8 list \<Rightarrow> ctrl_view" where
  "parse_ctrl bs =
     (let w0 = of_be32 (take 4 bs);
          w1 = of_be32 (take 4 (drop 4 bs));
          w2 = of_be32 (take 4 (drop 8 bs))
      in \<lparr>view_opcode = ucast w0, view_idx = ucast (drop_bit 8 w0), view_opmod = ucast (drop_bit 24 w0),
          view_qpn = drop_bit 8 w1, view_ds = ucast w1 AND 0x3F, view_fm_ce_se = ucast w2,
          view_imm = of_le32 (drop 12 bs)\<rparr>)"

lemma parse_ctrl_bytes:
  assumes "unat qpn < 2 ^ 24" and "unat ds < 64"
  shows "parse_ctrl (ctrl_bytes qpn opcode idx opmod ds f imm) =
    \<lparr>view_opcode = opcode, view_idx = idx, view_opmod = opmod, view_qpn = qpn, view_ds = ds,
     view_fm_ce_se = f, view_imm = imm\<rparr>"
proof -
  let ?w0 = "push_bit 24 (ucast opmod) OR push_bit 8 (ucast idx) OR ucast opcode :: u32"
  let ?w1 = "push_bit 8 qpn OR (ucast ds AND 0x3F) :: u32"
  have q: "take_bit 24 qpn = qpn" and d: "take_bit 6 ds = ds"
    using assms by (simp_all only: word_unat_eq_iff unsigned_take_bit_eq) (simp_all add: take_bit_eq_mod)
  have m: "(0x3F :: u32) = mask 6" "(0x3F :: u8) = mask 6" by (simp_all add: mask_eq_exp_minus_1)
  have bq: "bit qpn n \<Longrightarrow> n < 24" for n using q by (metis bit_take_bit_iff)
  have bd: "bit ds n \<Longrightarrow> n < 6" for n using d by (metis bit_take_bit_iff)
  have bo: "bit opcode n \<Longrightarrow> n < 8" "bit opmod n \<Longrightarrow> n < 8" "bit idx n \<Longrightarrow> n < 16" for n
    by (auto dest: bit_imp_le_length)
  have "(ucast ?w0 :: u8) = opcode" "(ucast (drop_bit 8 ?w0) :: u16) = idx"
    "(ucast (drop_bit 24 ?w0) :: u8) = opmod"
    by (rule bit_word_eqI; auto simp: bit_simps dest: bo)+
  moreover have "drop_bit 8 ?w1 = qpn" "ucast ?w1 AND 0x3F = ds"
    unfolding m by (rule bit_word_eqI; auto simp: bit_simps dest: bq bd bit_imp_le_length)+
  moreover have "(ucast (ucast f :: u32) :: u8) = f" by (rule bit_word_eqI) (auto simp: bit_simps)
  ultimately show ?thesis by (simp add: parse_ctrl_def ctrl_bytes_def Let_def)
qed

section \<open>The BlueFlame copy\<close>

text \<open>Blocks are copied in ring order: past the end of the queue the copy goes on at its start.\<close>

lemma bf_copy_blocks_ring:
  assumes "i < cnt" and "mapped m start (64 * cnt)" and "mapped m dst (64 * n)"
    and "dst + 64 * n \<le> start \<or> start + 64 * cnt \<le> dst"
  shows "\<exists>m'. bf_copy_blocks n dst (start + 64 * i) (start + 64 * cnt) start m = Inr m' \<and>
    bytes_at m' dst (64 * n) =
      concat (map (\<lambda>j. bytes_at m (start + 64 * ((i + j) mod cnt)) 64) [0..<n]) \<and>
    (\<forall>x. x < dst \<or> dst + 64 * n \<le> x \<longrightarrow> m' x = m x)"
  using assms
proof (induction n arbitrary: dst i m)
  case 0
  then show ?case by (simp add: bytes_at_def)
next
  case (Suc n)
  let ?src = "start + 64 * i"
  let ?b = "bytes_at m ?src 64"
  let ?m1 = "upd_bytes dst ?b m"
  let ?i = "(i + 1) mod cnt"
  have maps: "mapped m ?src 64" "mapped m dst 64"
    using Suc.prems by (auto intro: mapped_sub)
  have dstn: "mapped ?m1 (dst + 64) (64 * n)"
    by (intro mapped_upd mapped_sub [OF Suc.prems(3)]) auto
  have src: "(if ?src + 64 = start + 64 * cnt then start else ?src + 64) = start + 64 * ?i"
    using Suc.prems(1) by (cases "i + 1 = cnt") auto
  have "?i < cnt" using Suc.prems(1) by simp
  from Suc.IH [OF this mapped_upd [OF Suc.prems(2)] dstn]
  obtain m' where m': "bf_copy_blocks n (dst + 64) (start + 64 * ?i) (start + 64 * cnt) start ?m1 = Inr m'"
    "bytes_at m' (dst + 64) (64 * n) =
       concat (map (\<lambda>j. bytes_at ?m1 (start + 64 * ((?i + j) mod cnt)) 64) [0..<n])"
    "\<forall>x. x < dst + 64 \<or> dst + 64 + 64 * n \<le> x \<longrightarrow> m' x = ?m1 x"
    using Suc.prems(4) by auto
  have same: "bytes_at ?m1 (start + 64 * (k mod cnt)) 64 = bytes_at m (start + 64 * (k mod cnt)) 64" for k
  proof -
    have "k mod cnt < cnt" using Suc.prems(1) by simp
    then show ?thesis using Suc.prems(4) by (intro bytes_at_disjoint) auto
  qed
  have "bytes_at m' dst 64 = bytes_at ?m1 dst 64" using m'(3) by (intro bytes_at_cong) auto
  also have "\<dots> = ?b" by (rule bytes_at_same') simp
  finally have hd: "bytes_at m' dst 64 = ?b" .
  have idx: "(?i + j) mod cnt = (i + Suc j) mod cnt" for j by (simp add: mod_add_left_eq)
  have "bytes_at m' dst (64 * Suc n) = ?b @ bytes_at m' (dst + 64) (64 * n)"
    using bytes_at_add [of m' dst 64 "64 * n"] hd by simp
  also have "\<dots> = concat (map (\<lambda>j. bytes_at m (start + 64 * ((i + j) mod cnt)) 64) [0..<Suc n])"
    unfolding m'(2) same idx using Suc.prems(1)
    by (simp add: map_upt_Suc del: upt_Suc)
  finally have bytes: "bytes_at m' dst (64 * Suc n) = \<dots>" .
  have run: "bf_copy_blocks (Suc n) dst ?src (start + 64 * cnt) start m = Inr m'"
    using maps m'(1) src by (simp add: Let_def)
  have "m' x = m x" if "x < dst \<or> dst + 64 * Suc n \<le> x" for x
    using m'(3) that by (auto simp: upd_bytes_apply)
  then show ?case using run bytes by blast
qed

end
