(* ===== verification/Conn_Core.thy ===== *)
theory Conn_Core
  imports Post_Send
begin

text \<open>
  The connection table of \<open>src/rdma/connection.c\<close>: sockets, states, lookups, device handles and
  message buffers. A socket is an index of the bitmap and of the array of \<open>rdma_cm_id\<close> pointers.
\<close>

section \<open>Keys of the hash tables\<close>

text \<open>The hash is taken over the bytes of the key, an \<open>uint32_t\<close> or a \<open>struct sockaddr_in\<close>.\<close>

definition hash_u32 :: "u32 \<Rightarrow> u32" where
  "hash_u32 k = HASH_JEN (le32 k)"

definition sockaddr_bytes :: "sockaddr_in \<Rightarrow> u8 list" where
  "sockaddr_bytes a = [2, 0, ucast (fst a), ucast (drop_bit 8 (fst a))] @ le32 (snd a) @ replicate 8 0"

definition hash_addr :: "sockaddr_in \<Rightarrow> u32" where
  "hash_addr a = HASH_JEN (sockaddr_bytes a)"

section \<open>The socket table\<close>

definition rc_init ::
  "callback option \<Rightarrow> callback option \<Rightarrow> callback option \<Rightarrow> callback option \<Rightarrow> world \<Rightarrow> world" where
  "rc_init pre_conn connect completion disconnect w =
     w\<lparr>s_conn_bitmap := Some (replicate (nat MAX_CONNECTIONS) 0),
       s_conn_ids := Some (replicate (nat MAX_CONNECTIONS) 0),
       s_on_pre_conn_cb := pre_conn, s_on_connect_cb := connect, s_on_completion_cb := completion,
       s_on_disconnect_cb := disconnect\<rparr>"

definition get_connection :: "int \<Rightarrow> world \<Rightarrow> nat res" where
  "get_connection sock w =
     (if sock > MAX_CONNECTIONS then Inl (Die ''invalid sockfd; must be less than MAX_CONNECTIONS'')
      else
        bindR (deref (s_conn_bitmap w)) (\<lambda>bm.
        bindR (read_int bm sock) (\<lambda>b.
          if b \<noteq> 0 then bindR (deref (s_conn_ids w)) (\<lambda>ids. read_int ids sock) else Inr 0)))"

text \<open>\<open>get_connection(sockfd)->context\<close>, the first line of most operations, with the pointer it
  goes through.\<close>

definition sock_ctx :: "int \<Rightarrow> world \<Rightarrow> (nat \<times> conn_context) res" where
  "sock_ctx sock w =
     bindR (get_connection sock w) (\<lambda>p. bindR (ctx_of p w) (\<lambda>c. Inr (p, c)))"

text \<open>\<open>s_conn_ids[sockfd]\<close>\<close>

definition conn_id_at :: "int \<Rightarrow> world \<Rightarrow> nat res" where
  "conn_id_at sock w = bindR (deref (s_conn_ids w)) (\<lambda>ids. read_int ids sock)"

definition find_next_connection :: "nat \<Rightarrow> world \<Rightarrow> nat res" where
  "find_next_connection p w =
     bindR (deref (s_conn_bitmap w)) (\<lambda>bm.
     bindR (if p = 0 then find_first_set_bit bm MAX_CONNECTIONS
            else bindR (ctx_of p w) (\<lambda>ctx. find_next_set_bit (sockfd ctx) bm MAX_CONNECTIONS)) (\<lambda>i.
       if i \<ge> 0 then get_connection i w else Inr 0))"

section \<open>Lookups by address and by queue pair\<close>

definition find_connection_by_addr :: "sockaddr_in \<Rightarrow> world \<Rightarrow> nat res" where
  "find_connection_by_addr addr w =
     bindR (deref (s_ctx w)) (\<lambda>d.
     bindR (HASH_FIND hash_addr (id_by_addr d) addr) (\<lambda>entry.
       case entry of
         None \<Rightarrow> Inl (Die ''hash lookup failed; id doesn't exist'')
       | Some e \<Rightarrow> Inr (item e)))"

definition find_connection_by_wc :: "ibv_wc \<Rightarrow> world \<Rightarrow> nat res" where
  "find_connection_by_wc wc w =
     bindR (deref (s_ctx w)) (\<lambda>d.
     bindR (HASH_FIND hash_u32 (id_by_qp d) (wc_qp_num wc)) (\<lambda>entry.
       case entry of
         None \<Rightarrow> Inl (Die ''hash lookup failed; id doesn't exist'')
       | Some e \<Rightarrow> Inr (item e)))"

section \<open>States\<close>

definition rc_set_state :: "nat \<Rightarrow> rc_connection_state \<Rightarrow> world \<Rightarrow> world res" where
  "rc_set_state p new_state w =
     bindR (ctx_of p w) (\<lambda>ctx.
       if state ctx = new_state then Inr w
       else
         let ctx1 = ctx\<lparr>state := new_state\<rparr>;
             ctx2 = (if (new_state = RC_CONNECTION_READY \<and> poll_always ctx1 = 0) \<or>
                        new_state = RC_CONNECTION_TERMINATED
                     then ctx1\<lparr>poll_enable := 0\<rparr> else ctx1);
             w' = set_ctx p ctx2 w
         in Inr (if new_state = RC_CONNECTION_TERMINATED then emit (PthreadCancel p) w' else w'))"

text \<open>The queries ask \<open>get_connection\<close> first and then read through the array.\<close>

definition state_query :: "(rc_connection_state \<Rightarrow> bool) \<Rightarrow> int \<Rightarrow> world \<Rightarrow> int res" where
  "state_query P sock w =
     bindR (get_connection sock w) (\<lambda>p.
       if p \<noteq> 0 then
         bindR (conn_id_at sock w) (\<lambda>q.
         bindR (ctx_of q w) (\<lambda>ctx. Inr (if P (state ctx) then 1 else 0)))
       else Inr 0)"

definition rc_ready :: "int \<Rightarrow> world \<Rightarrow> int res" where
  "rc_ready = state_query (\<lambda>s. s = RC_CONNECTION_READY)"

definition rc_active :: "int \<Rightarrow> world \<Rightarrow> int res" where
  "rc_active = state_query (\<lambda>s. s \<ge> RC_CONNECTION_ACTIVE)"

definition rc_terminated :: "int \<Rightarrow> world \<Rightarrow> int res" where
  "rc_terminated = state_query (\<lambda>s. s = RC_CONNECTION_TERMINATED)"

section \<open>Connection information\<close>

definition rc_connection_count :: "world \<Rightarrow> int res" where
  "rc_connection_count w =
     bindR (deref (s_conn_bitmap w)) (\<lambda>bm. find_bitmap_weight bm MAX_CONNECTIONS)"

definition rc_next_connection :: "int \<Rightarrow> world \<Rightarrow> int res" where
  "rc_next_connection cur w =
     bindR (deref (s_conn_bitmap w)) (\<lambda>bm.
     bindR (if cur < 0 then find_first_set_bit bm MAX_CONNECTIONS
            else find_next_set_bit cur bm MAX_CONNECTIONS) (\<lambda>i.
       if i \<ge> 0 then Inr i else Inr (-1)))"

definition rc_connection_meta :: "int \<Rightarrow> world \<Rightarrow> int res" where
  "rc_connection_meta sock w =
     bindR (get_connection sock w) (\<lambda>p.
       if p \<noteq> 0 then bindR (conn_id_at sock w) (\<lambda>q. bindR (ctx_of q w) (\<lambda>ctx. Inr (app_type ctx)))
       else Inr (-1))"

text \<open>The peer's address; the code formats it with \<open>inet_ntoa\<close>.\<close>

definition rc_connection_ip :: "int \<Rightarrow> world \<Rightarrow> u32 option res" where
  "rc_connection_ip sock w =
     bindR (get_connection sock w) (\<lambda>p.
       if p \<noteq> 0 then
         bindR (conn_id_at sock w) (\<lambda>q.
         bindR (cm_id_at q w) (\<lambda>i.
         bindR (deref (copy_ipv4_sockaddr (dst_storage i))) (\<lambda>a. Inr (Some (snd a)))))
       else Inr None)"

definition rc_connection_qpnum :: "int \<Rightarrow> world \<Rightarrow> int res" where
  "rc_connection_qpnum sock w =
     bindR (get_connection sock w) (\<lambda>p.
       if p \<noteq> 0 then
         bindR (conn_id_at sock w) (\<lambda>q.
         bindR (ctx_of q w) (\<lambda>ctx.
         bindR (qp_of (ctx_id ctx) w) (\<lambda>qp. Inr (sint (qp_num qp)))))
       else Inr (-1))"

definition rc_connection_cqnum :: "int \<Rightarrow> world \<Rightarrow> int res" where
  "rc_connection_cqnum sock w =
     bindR (get_connection sock w) (\<lambda>p.
       if p \<noteq> 0 then
         bindR (conn_id_at sock w) (\<lambda>q.
         bindR (ctx_of q w) (\<lambda>ctx.
         bindR (deref (icq ctx)) (\<lambda>c. Inr (sint (cqn c)))))
       else Inr (-1))"

definition rc_get_pd :: "nat \<Rightarrow> world \<Rightarrow> nat res" where
  "rc_get_pd p w =
     bindR (ctx_of p w) (\<lambda>ctx.
       if devid ctx > MAX_DEVICES - 1 then Inl (Die ''invalid rdma device index for connection.'')
       else bindR (deref (s_ctx w)) (\<lambda>d. read_int (dev_pd d) (devid ctx)))"

definition rc_get_context :: "int \<Rightarrow> world \<Rightarrow> nat res" where
  "rc_get_context dev w = bindR (deref (s_ctx w)) (\<lambda>d. read_int (dev_ctx d) dev)"

section \<open>Message buffers\<close>

text \<open>The index of the buffer, the pointer handed to the application, the new state. With one
  buffer per connection the index is always 0.\<close>

definition rc_acquire_buffer_at :: "int \<Rightarrow> int \<Rightarrow> world \<Rightarrow> (int \<times> u64 option \<times> world) res" where
  "rc_acquire_buffer_at sock user w =
     bindR (sock_ctx sock w) (\<lambda>(p, ctx).
       let i = unat (send_idx ctx) mod MAX_BUFFER;
           ctx1 = ctx\<lparr>send_idx := send_idx ctx + 1\<rparr>
       in if user \<noteq> 0 then
            bindR (read_at (msg_send ctx1) i) (\<lambda>slot.
            bindR (deref slot) (\<lambda>b.
              let b' = b\<lparr>buf_msg := (buf_msg b)\<lparr>m_app_id := 0, m_addr := msg_data b\<rparr>\<rparr>
              in Inr (int i, Some (buf_addr b + 8),
                      set_ctx p (ctx1\<lparr>msg_send := (msg_send ctx1)[i := Some b']\<rparr>) w)))
          else Inr (int i, None, set_ctx p ctx1 w))"

definition rc_acquire_buffer :: "int \<Rightarrow> world \<Rightarrow> (int \<times> u64 option \<times> world) res" where
  "rc_acquire_buffer sock w = rc_acquire_buffer_at sock 1 w"

definition rc_bind_buffer :: "nat \<Rightarrow> int \<Rightarrow> u32 \<Rightarrow> world \<Rightarrow> (int \<times> world) res" where
  "rc_bind_buffer p buffer wr w =
     bindR (ctx_of p w) (\<lambda>ctx.
       let (rec, w1) = fresh w
       in bindR (HASH_ADD hash_u32 rec wr buffer (buffer_bindings ctx)) (\<lambda>t.
            Inr (1, set_ctx p (ctx\<lparr>buffer_bindings := t\<rparr>) w1)))"

definition rc_release_buffer :: "int \<Rightarrow> u32 \<Rightarrow> world \<Rightarrow> (int \<times> world) res" where
  "rc_release_buffer sock wr w =
     bindR (conn_id_at sock w) (\<lambda>p.
     bindR (ctx_of p w) (\<lambda>ctx.
     bindR (HASH_FIND hash_u32 (buffer_bindings ctx) wr) (\<lambda>b.
       case b of
         None \<Rightarrow> Inl (Die ''failed to release buffer. possible race condition.'')
       | Some h \<Rightarrow>
           bindR (HASH_DELETE (elmt h) (buffer_bindings ctx)) (\<lambda>t.
           bindR (read_int (send_slots ctx) (item h)) (\<lambda>s.
           bindR (if s \<noteq> 0 then write_int (send_slots ctx) (item h) 0
                  else Inr (send_slots ctx)) (\<lambda>slots.
             Inr (item h, set_ctx p (ctx\<lparr>buffer_bindings := t, send_slots := slots\<rparr>) w)))))))"

end
