(* ===== verification/Mr.thy ===== *)
theory Mr
  imports Conn_Core
begin

text \<open>
  \<open>src/rdma/mr.c\<close>: registration of the local memory regions and message buffers, the regions the
  peer announced, and the accessors that wait until a connection is active and a region is known.
  The accessors sleep between checks; a sleep is an event, and what other threads do meanwhile is the
  parameter \<open>tick\<close>, the state after the sleep.
\<close>

section \<open>Synchronisation flags\<close>

definition mr_all_recv :: "conn_context \<Rightarrow> int res" where
  "mr_all_recv ctx =
     bindR (find_bitmap_weight (remote_mr_ready ctx) MAX_MR) (\<lambda>n.
       Inr (if remote_mr_total ctx = n \<and> mr_init_recv ctx \<noteq> 0 then 1 else 0))"

definition mr_all_sent :: "conn_context \<Rightarrow> world \<Rightarrow> int res" where
  "mr_all_sent ctx w =
     bindR (find_bitmap_weight (local_mr_sent ctx) MAX_MR) (\<lambda>n.
       Inr (if num_mrs w = n then 1 else 0))"

definition mr_all_synced :: "conn_context \<Rightarrow> world \<Rightarrow> int res" where
  "mr_all_synced ctx w =
     bindR (mr_all_recv ctx) (\<lambda>r.
       if r \<noteq> 0 then bindR (mr_all_sent ctx w) (\<lambda>s. Inr (if s \<noteq> 0 then 1 else 0)) else Inr 0)"

definition mr_local_ready :: "conn_context \<Rightarrow> int \<Rightarrow> int res" where
  "mr_local_ready ctx mr_id =
     (if mr_id > MAX_MR then Inl (Die ''invalid memory region id; must be less than MAX_MR'')
      else bindR (read_int (local_mr_ready ctx) mr_id) (\<lambda>b. Inr (if b \<noteq> 0 then 1 else 0)))"

definition mr_remote_ready :: "conn_context \<Rightarrow> int \<Rightarrow> int res" where
  "mr_remote_ready ctx mr_id =
     (if mr_id > MAX_MR then Inl (Die ''invalid memory region id; must be less than MAX_MR'')
      else bindR (read_int (remote_mr_ready ctx) mr_id) (\<lambda>b. Inr (if b \<noteq> 0 then 1 else 0)))"

section \<open>Registration\<close>

definition ALL_ACCESS :: "access list" where
  "ALL_ACCESS = [LOCAL_WRITE, REMOTE_WRITE, REMOTE_ATOMIC, REMOTE_READ]"

text \<open>One round of the loop over the regions: a region is registered with the adapter once for the
  process and shared by its connections.\<close>

definition mr_register_one :: "env \<Rightarrow> nat \<Rightarrow> mr_context list \<Rightarrow> int \<Rightarrow> world \<Rightarrow> world res" where
  "mr_register_one E p regions i w =
     (if i > MAX_MR - 1 then Inl (Die ''memory region type outside of MAX_MR'')
      else
        bindR (read_int (mr_regions w) i) (\<lambda>known.
        bindR (if known = None then
                 bindR (read_int regions i) (\<lambda>m.
                   if mr_physical m \<noteq> 0 then Inl (Die ''physical MRs not supported'')
                   else
                     bindR (ctx_of p w) (\<lambda>ctx.
                     bindR (rc_get_pd (ctx_id ctx) w) (\<lambda>pd.
                       let (r, w1) = call (IbvRegMr pd (mr_addr m) (mr_length m) ALL_ACCESS)
                                       (ans_reg_mr E) w
                       in bindR (write_int (mr_regions w1) i r) (\<lambda>rs.
                            Inr (w1\<lparr>mr_regions := rs\<rparr>)))))
               else Inr w) (\<lambda>w2.
        bindR (ctx_of p w2) (\<lambda>ctx.
        bindR (read_int (mr_regions w2) i) (\<lambda>r.
        bindR (write_int (local_mr ctx) i r) (\<lambda>lm.
          if r = None then Inl (Die ''ibv_reg_mr failed'')
          else
            bindR (write_int (local_mr_ready ctx) i 1) (\<lambda>lr.
              Inr (set_ctx p (ctx\<lparr>local_mr := lm, local_mr_ready := lr\<rparr>) w2))))))))"

text \<open>One message buffer: allocated, registered, stored in its slot.\<close>

definition alloc_buffer ::
  "env \<Rightarrow> nat \<Rightarrow> u64 \<Rightarrow> access list \<Rightarrow> world \<Rightarrow> (msg_buf \<times> ibv_mr \<times> world) res" where
  "alloc_buffer E p len acc w =
     (let (b, w1) = call (PosixMemalign len) (ans_memalign E) w
      in case b of
           None \<Rightarrow> Inl (Die ''posix_memalign failed'')
         | Some buf \<Rightarrow>
             bindR (ctx_of p w1) (\<lambda>ctx.
             bindR (rc_get_pd (ctx_id ctx) w1) (\<lambda>pd.
               let (r, w2) = call (IbvRegMr pd (buf_addr buf) len acc) (ans_reg_mr E) w1
               in case r of
                    None \<Rightarrow> Inl (Die ''ibv_reg_mr failed'')
                  | Some mr \<Rightarrow> Inr (buf, mr, w2))))"

definition mr_register_buffer :: "env \<Rightarrow> nat \<Rightarrow> int \<Rightarrow> nat \<Rightarrow> world \<Rightarrow> world res" where
  "mr_register_buffer E p msize i w =
     (let len = sizeof_message + of_int msize
      in bindR (alloc_buffer E p len [LOCAL_WRITE] w) (\<lambda>(sb, smr, w1).
         bindR (ctx_of p w1) (\<lambda>ctx.
         bindR (write_at (msg_send ctx) i (Some sb)) (\<lambda>ms.
         bindR (write_at (msg_send_mr ctx) i (Some smr)) (\<lambda>msm.
         bindR (alloc_buffer E p len [LOCAL_WRITE, REMOTE_WRITE]
                  (set_ctx p (ctx\<lparr>msg_send := ms, msg_send_mr := msm\<rparr>) w1)) (\<lambda>(rb, rmr, w2).
         bindR (ctx_of p w2) (\<lambda>ctx2.
         bindR (write_at (msg_rcv ctx2) i (Some rb)) (\<lambda>mr.
         bindR (write_at (msg_rcv_mr ctx2) i (Some rmr)) (\<lambda>mrm.
           Inr (set_ctx p (ctx2\<lparr>msg_rcv := mr, msg_rcv_mr := mrm\<rparr>) w2))))))))))"

definition mr_register :: "env \<Rightarrow> nat \<Rightarrow> mr_context list \<Rightarrow> int \<Rightarrow> int \<Rightarrow> world \<Rightarrow> world res" where
  "mr_register E p regions n msize w =
     bindR (foldR (mr_register_one E p regions) [0..n - 1] w) (\<lambda>w1.
     bindR (ctx_of p w1) (\<lambda>ctx.
     bindR (find_first_set_bit (local_mr_ready ctx) MAX_MR) (\<lambda>s.
       foldR (mr_register_buffer E p msize) [0..<MAX_BUFFER]
         (set_ctx p (ctx\<lparr>local_mr_to_sync := s\<rparr>) w1))))"

section \<open>What the peer announced\<close>

definition mr_remote_update_one ::
  "u64 list \<Rightarrow> u64 list \<Rightarrow> u32 list \<Rightarrow> int \<Rightarrow> conn_context \<Rightarrow> conn_context res" where
  "mr_remote_update_one addrs lens rkeys i ctx =
     bindR (read_int addrs i) (\<lambda>a.
     bindR (read_int lens i) (\<lambda>l.
     bindR (read_int rkeys i) (\<lambda>k.
     bindR (write_int (remote_mr ctx) i
              (Some \<lparr>mr_type = i, mr_addr = a, mr_length = l, mr_lkey = 0, mr_rkey = k,
                     mr_physical = 0\<rparr>)) (\<lambda>rm.
     bindR (write_int (remote_mr_ready ctx) i 1) (\<lambda>rr.
       Inr (ctx\<lparr>remote_mr := rm, remote_mr_ready := rr\<rparr>))))))"

definition mr_remote_update ::
  "u64 list \<Rightarrow> u64 list \<Rightarrow> u32 list \<Rightarrow> int \<Rightarrow> conn_context \<Rightarrow> conn_context res" where
  "mr_remote_update addrs lens rkeys mr_count ctx =
     foldR (mr_remote_update_one addrs lens rkeys) [0..mr_count - 1] ctx"

section \<open>Messages that announce a region\<close>

text \<open>The loop advances \<open>local_mr_to_sync\<close> to the last ready region; the search after it
  overwrites that.\<close>

definition mr_next_to_sync :: "conn_context \<Rightarrow> (int \<times> conn_context) res" where
  "mr_next_to_sync ctx =
     (let idx = local_mr_to_sync ctx
      in bindR (read_int (local_mr_ready ctx) idx) (\<lambda>b.
           if b = 0 then Inl (Die ''failed to find mr to sync; invalid local_mr index'')
           else
             bindR (foldR (\<lambda>i c. bindR (read_int (local_mr_ready c) i) (\<lambda>r.
                      Inr (if r \<noteq> 0 then c\<lparr>local_mr_to_sync := i\<rparr> else c)))
                      [idx + 1..MAX_MR - 1] ctx) (\<lambda>c1.
             bindR (find_next_set_bit idx (local_mr_ready c1) MAX_MR) (\<lambda>n.
               Inr (idx, c1\<lparr>local_mr_to_sync := n\<rparr>)))))"

definition mr_prepare_msg :: "int \<Rightarrow> message_id \<Rightarrow> conn_context \<Rightarrow> conn_context res" where
  "mr_prepare_msg buffer msg_type ctx =
     (if msg_type = MSG_MR then
        bindR (mr_next_to_sync ctx) (\<lambda>(mr, ctx1).
        bindR (mr_local_ready ctx1 mr) (\<lambda>r.
          if r = 0 then Inl (Die ''failed to prepare MSG_MR; memory region metadata unavailable'')
          else
            bindR (read_int (msg_send ctx1) buffer) (\<lambda>slot.
            bindR (deref slot) (\<lambda>b.
            bindR (read_int (local_mr ctx1) mr) (\<lambda>lm.
            bindR (deref lm) (\<lambda>reg.
              let m = (buf_msg b)\<lparr>m_id := MSG_MR, m_type := mr, m_addr := reg_addr reg,
                        m_length := reg_length reg, m_rkey := reg_rkey reg\<rparr>
              in bindR (write_int (msg_send ctx1) buffer (Some (b\<lparr>buf_msg := m\<rparr>))) (\<lambda>ms.
                   Inr (ctx1\<lparr>msg_send := ms\<rparr>))))))))
      else Inl (Die ''failed to prepare msg; undefined type''))"

section \<open>Accessors\<close>

text \<open>\<open>while (!ready()) { if (timeout == 0) rc_die(msg); timeout--; sleep(1); }\<close>: the timeout
  left and the state. The timeout makes it end.\<close>

fun await ::
  "(world \<Rightarrow> world) \<Rightarrow> (world \<Rightarrow> int res) \<Rightarrow> string \<Rightarrow> nat \<Rightarrow> world \<Rightarrow> (nat \<times> world) res" where
  "await tick ready msg timeout w =
     bindR (ready w) (\<lambda>r.
       if r \<noteq> 0 then Inr (timeout, w)
       else case timeout of
              0 \<Rightarrow> Inl (Die msg)
            | Suc t \<Rightarrow> await tick ready msg t (tick (emit (Sleep 1) w)))"

declare await.simps [simp del]

text \<open>The common shape of the accessors: wait for the connection, then for the region, then read.\<close>

definition mr_get ::
  "(world \<Rightarrow> world) \<Rightarrow> (conn_context \<Rightarrow> int res) \<Rightarrow> string \<Rightarrow> string \<Rightarrow> (conn_context \<Rightarrow> 'a res) \<Rightarrow>
   int \<Rightarrow> world \<Rightarrow> ('a \<times> world) res" where
  "mr_get tick ready msg1 msg2 get sock w =
     bindR (await tick (rc_active sock) msg1 10 w) (\<lambda>(t, w1).
     bindR (get_connection sock w1) (\<lambda>p.
     bindR (ctx_of p w1) (\<lambda>_.
     bindR (await tick (\<lambda>w. bindR (ctx_of p w) ready) msg2 t w1) (\<lambda>(_, w2).
     bindR (ctx_of p w2) (\<lambda>ctx.
     bindR (get ctx) (\<lambda>x. Inr (x, w2)))))))"

definition LOCAL_INACTIVE :: string where
  "LOCAL_INACTIVE = ''failed to get local memory address; connection is not active''"
definition LOCAL_MISSING :: string where
  "LOCAL_MISSING = ''failed to get local memory address; no metadata available for region''"
definition REMOTE_INACTIVE :: string where
  "REMOTE_INACTIVE = ''failed to get remote memory address; connection is not active''"
definition REMOTE_MISSING :: string where
  "REMOTE_MISSING = ''failed to get remote memory address; no metadata available for region''"

definition local_region :: "int \<Rightarrow> conn_context \<Rightarrow> ibv_mr res" where
  "local_region mr_id ctx = bindR (read_int (local_mr ctx) mr_id) deref"

definition remote_region :: "int \<Rightarrow> conn_context \<Rightarrow> mr_context res" where
  "remote_region mr_id ctx = bindR (read_int (remote_mr ctx) mr_id) deref"

definition mr_local_key :: "(world \<Rightarrow> world) \<Rightarrow> int \<Rightarrow> int \<Rightarrow> world \<Rightarrow> (u64 \<times> world) res" where
  "mr_local_key tick sock mr_id =
     mr_get tick (\<lambda>c. mr_local_ready c mr_id) LOCAL_INACTIVE LOCAL_MISSING
       (\<lambda>c. bindR (local_region mr_id c) (\<lambda>r. Inr (ucast (reg_lkey r)))) sock"

definition mr_local_rkey :: "(world \<Rightarrow> world) \<Rightarrow> int \<Rightarrow> int \<Rightarrow> world \<Rightarrow> (u64 \<times> world) res" where
  "mr_local_rkey tick sock mr_id =
     mr_get tick (\<lambda>c. mr_local_ready c mr_id) LOCAL_INACTIVE LOCAL_MISSING
       (\<lambda>c. bindR (local_region mr_id c) (\<lambda>r. Inr (ucast (reg_rkey r)))) sock"

definition mr_local_addr :: "(world \<Rightarrow> world) \<Rightarrow> int \<Rightarrow> int \<Rightarrow> world \<Rightarrow> (u64 \<times> world) res" where
  "mr_local_addr tick sock mr_id =
     mr_get tick (\<lambda>c. mr_local_ready c mr_id) LOCAL_INACTIVE LOCAL_MISSING
       (\<lambda>c. bindR (local_region mr_id c) (\<lambda>r. Inr (reg_addr r))) sock"

definition mr_remote_key :: "(world \<Rightarrow> world) \<Rightarrow> int \<Rightarrow> int \<Rightarrow> world \<Rightarrow> (u64 \<times> world) res" where
  "mr_remote_key tick sock mr_id =
     mr_get tick (\<lambda>c. mr_remote_ready c mr_id) REMOTE_INACTIVE REMOTE_MISSING
       (\<lambda>c. bindR (remote_region mr_id c) (\<lambda>r. Inr (ucast (mr_rkey r)))) sock"

definition mr_remote_addr :: "(world \<Rightarrow> world) \<Rightarrow> int \<Rightarrow> int \<Rightarrow> world \<Rightarrow> (u64 \<times> world) res" where
  "mr_remote_addr tick sock mr_id =
     mr_get tick (\<lambda>c. mr_remote_ready c mr_id) REMOTE_INACTIVE REMOTE_MISSING
       (\<lambda>c. bindR (remote_region mr_id c) (\<lambda>r. Inr (mr_addr r))) sock"

definition mr_get_sq_idx :: "(world \<Rightarrow> world) \<Rightarrow> int \<Rightarrow> world \<Rightarrow> (int \<times> world) res" where
  "mr_get_sq_idx tick sock w =
     bindR (await tick (rc_active sock) REMOTE_INACTIVE 10 w) (\<lambda>(_, w1).
     bindR (sock_ctx sock w1) (\<lambda>(_, ctx). Inr (sq_mr_idx ctx, w1)))"

text \<open>The send queue of one connection registered in the protection domain of another.\<close>

definition register_wq :: "env \<Rightarrow> int \<Rightarrow> int \<Rightarrow> world \<Rightarrow> (ibv_mr option \<times> world) res" where
  "register_wq E wq_sock pd_sock w =
     bindR (get_connection wq_sock w) (\<lambda>wq_id.
     bindR (get_connection pd_sock w) (\<lambda>pd_id.
     bindR (ctx_of wq_id w) (\<lambda>ctx.
     bindR (rc_get_pd pd_id w) (\<lambda>pd.
     bindR (deref (iqp ctx)) (\<lambda>q.
       Inr (call (IbvRegMr pd (of_nat (sq_start ctx)) (sq_wqe_cnt ctx * ucast (sq_stride q)) ALL_ACCESS)
              (ans_reg_mr E) w))))))"

end
