(* ===== verification/Conn_Setup.thy ===== *)
theory Conn_Setup
  imports Mr
begin

text \<open>
  The life of a connection in \<open>src/rdma/connection.c\<close> (creation, set-up of its device, queues and
  table entries, completion, tear-down) and the bootstrap messages of \<open>src/rdma/messaging.c\<close>.
\<close>

section \<open>Creation\<close>

definition new_context :: "nat \<Rightarrow> int \<Rightarrow> int \<Rightarrow> int \<Rightarrow> u32 \<Rightarrow> conn_context" where
  "new_context p sock type always_poll fl = zero_context\<lparr>
     local_mr := replicate (nat MAX_MR) None,
     remote_mr := replicate (nat MAX_MR) None,
     remote_mr_ready := replicate (nat MAX_MR) 0,
     local_mr_ready := replicate (nat MAX_MR) 0,
     local_mr_sent := replicate (nat MAX_MR) 0,
     msg_send_mr := replicate MAX_BUFFER None,
     msg_rcv_mr := replicate MAX_BUFFER None,
     msg_send := replicate MAX_BUFFER None,
     msg_rcv := replicate MAX_BUFFER None,
     send_slots := replicate MAX_BUFFER 0,
     poll_permission := 1,
     poll_always := always_poll,
     poll_enable := 1,
     flags := fl,
     ctx_id := p,
     sockfd := sock,
     app_type := type\<rparr>"

definition init_connection :: "nat \<Rightarrow> int \<Rightarrow> int \<Rightarrow> u32 \<Rightarrow> world \<Rightarrow> (int \<times> world) res" where
  "init_connection p type always_poll fl w =
     bindR (deref (s_conn_bitmap w)) (\<lambda>bm.
     bindR (find_first_empty_bit_and_set bm MAX_CONNECTIONS) (\<lambda>(sock, bm1).
       if sock < 0 then
         Inl (Die ''can't open new connection; number of open sockets == MAX_CONNECTIONS'')
       else
         bindR (cm_id_at p w) (\<lambda>i.
         bindR (write_int bm1 sock 1) (\<lambda>bm2.
         bindR (deref (s_conn_ids w)) (\<lambda>ids.
         bindR (write_int ids sock p) (\<lambda>ids'.
           Inr (sock,
             set_cm_id p (i\<lparr>cm_context := Some (new_context p sock type always_poll fl)\<rparr>)
               (w\<lparr>s_conn_bitmap := Some bm2, s_conn_ids := Some ids'\<rparr>))))))))"

section \<open>Devices and queues\<close>

definition new_device_table :: dev_context where
  "new_device_table = \<lparr>n_dev = 0, dev_ctx = replicate (nat MAX_DEVICES) 0,
     dev_pd = replicate (nat MAX_DEVICES) 0, id_by_addr = None, id_by_qp = None\<rparr>"

text \<open>The index of a device among those already opened.\<close>

function find_device :: "nat list \<Rightarrow> nat \<Rightarrow> int \<Rightarrow> int \<Rightarrow> int option res" where
  "find_device devs v i n =
     (if i < n then bindR (read_int devs i) (\<lambda>d. if d = v then Inr (Some i) else find_device devs v (i + 1) n)
      else Inr None)"
  by pat_completeness auto
termination
  by (relation "measure (\<lambda>(devs, v, i, n). nat (n - i))") auto

declare find_device.simps [simp del]

definition try_build_device :: "env \<Rightarrow> nat \<Rightarrow> world \<Rightarrow> world res" where
  "try_build_device E p w =
     bindR (ctx_of p w) (\<lambda>ctx.
     bindR (cm_id_at p w) (\<lambda>i.
       let d = (case s_ctx w of None \<Rightarrow> new_device_table | Some d \<Rightarrow> d)
       in bindR (find_device (dev_ctx d) (verbs i) 0 (n_dev d)) (\<lambda>r.
            case r of
              Some k \<Rightarrow> Inr (set_ctx p (ctx\<lparr>devid := k\<rparr>) (w\<lparr>s_ctx := Some d\<rparr>))
            | None \<Rightarrow>
                if n_dev d = MAX_DEVICES then
                  Inl (Die ''failed to allocate new rdma device. try increasing MAX_DEVICES.'')
                else
                  bindR (write_int (dev_ctx d) (n_dev d) (verbs i)) (\<lambda>cs.
                    let (pd, w1) = call (IbvAllocPd (verbs i)) (ans_alloc_pd E) w
                    in bindR (write_int (dev_pd d) (n_dev d) pd) (\<lambda>pds.
                         Inr (set_ctx p (ctx\<lparr>devid := n_dev d\<rparr>)
                           (w1\<lparr>s_ctx := Some (d\<lparr>n_dev := n_dev d + 1, dev_ctx := cs,
                                                dev_pd := pds\<rparr>)\<rparr>)))))))"

text \<open>The completion channel and queue of a connection, and the thread that polls it.\<close>

definition build_cq_channel :: "env \<Rightarrow> nat \<Rightarrow> world \<Rightarrow> world res" where
  "build_cq_channel E p w =
     bindR (ctx_of p w) (\<lambda>ctx.
     bindR (rc_get_context (devid ctx) w) (\<lambda>dev.
       let (ch, w1) = call (IbvCreateCompChannel dev) (ans_comp_channel E) w
       in if ch = 0 then Inl (Die ''ibv_create_comp_channel() failed'')
          else
            bindR (rc_get_context (devid ctx) w1) (\<lambda>dev1.
              let (q, w2) = call (IbvCreateCq dev1 50 ch) (ans_create_cq E) w1
              in if q = 0 then Inl (Die ''Failed to create CQ'')
                 else
                   let w3 = emit (IbvReqNotifyCq q 0) w2;
                       (dv, w4) = call (Mlx5dvInitCq q) (ans_dv_cq E) w3;
                       ctx1 = ctx\<lparr>comp_channel := ch, cq := q, icq := Some dv, cq_poller_thread := True\<rparr>
                   in Inr (emit (PthreadCreate p) (set_ctx p ctx1 w4)))))"

definition build_qp_attr :: "conn_context \<Rightarrow> qp_init_attr" where
  "build_qp_attr ctx = \<lparr>attr_send_cq = cq ctx, attr_recv_cq = cq ctx, attr_rc = True,
     max_send_wr = MAX_SEND_QUEUE_SIZE, max_recv_wr = MAX_RECV_QUEUE_SIZE, max_send_sge = 16,
     max_recv_sge = 16, sq_sig_all = 0\<rparr>"

text \<open>The private data of a connection request: flags, type and the local regions.\<close>

definition meta_add :: "conn_context \<Rightarrow> int \<Rightarrow> rc_metadata \<Rightarrow> rc_metadata res" where
  "meta_add ctx i m =
     bindR (local_region i ctx) (\<lambda>r.
     bindR (write_int (meta_addr m) i (reg_addr r)) (\<lambda>a.
     bindR (write_int (meta_length m) i (reg_length r)) (\<lambda>l.
     bindR (write_int (meta_rkey m) i (reg_rkey r)) (\<lambda>k.
       Inr (m\<lparr>meta_addr := a, meta_length := l, meta_rkey := k\<rparr>)))))"

definition build_rc_params :: "nat \<Rightarrow> world \<Rightarrow> conn_param res" where
  "build_rc_params p w =
     bindR (ctx_of p w) (\<lambda>ctx.
     bindR (foldR (meta_add ctx) [0..num_mrs w - 1]
              \<lparr>meta_flags = flags ctx, meta_type = app_type ctx, meta_mr_count = num_mrs w,
               meta_addr = replicate (nat MAX_MR) 0, meta_length = replicate (nat MAX_MR) 0,
               meta_rkey = replicate (nat MAX_MR) 0\<rparr>) (\<lambda>m.
       if sizeof_rc_metadata > 56 then Inl (Die ''metadata length greater than max allowed size'')
       else Inr \<lparr>initiator_depth = 1, responder_resources = 1, rnr_retry_count = 7,
                 param_data = \<lparr>private_data = Some m, private_data_len = sizeof_rc_metadata\<rparr>\<rparr>))"

section \<open>Set-up and completion\<close>

text \<open>The metadata of the peer, when its request carried any.\<close>

definition peer_meta :: "rdma_conn_param option \<Rightarrow> rc_metadata option res" where
  "peer_meta params =
     (case params of
        None \<Rightarrow> Inr None
      | Some cp \<Rightarrow>
          case private_data cp of
            None \<Rightarrow> Inr None
          | Some m \<Rightarrow> if sizeof_rc_metadata > private_data_len cp
                      then Inl (Die ''invalid connection param length'') else Inr (Some m))"

text \<open>The record of a connection enters both tables.\<close>

definition add_id_record :: "nat \<Rightarrow> sockaddr_in \<Rightarrow> u32 \<Rightarrow> world \<Rightarrow> world res" where
  "add_id_record p addr qpn w =
     (let (entry, w1) = fresh w
      in bindR (deref (s_ctx w1)) (\<lambda>d.
         bindR (HASH_ADD hash_u32 entry qpn p (id_by_qp d)) (\<lambda>by_qp.
         bindR (HASH_ADD hash_addr entry addr p (id_by_addr d)) (\<lambda>by_addr.
           Inr (w1\<lparr>s_ctx := Some (d\<lparr>id_by_qp := by_qp, id_by_addr := by_addr\<rparr>)\<rparr>)))))"

definition create_queue_pair :: "env \<Rightarrow> nat \<Rightarrow> world \<Rightarrow> world res" where
  "create_queue_pair E p w =
     bindR (ctx_of p w) (\<lambda>ctx.
       let attr = build_qp_attr ctx
       in bindR (rc_get_pd p w) (\<lambda>pd.
            let (r, w1) = call (RdmaCreateQp p pd attr) (ans_create_qp E) w
            in case r of
                 None \<Rightarrow> Inl (Die ''queue pair creation failed'')
               | Some qp \<Rightarrow>
                   bindR (cm_id_at p w1) (\<lambda>i.
                     let w2 = set_cm_id p (i\<lparr>cm_qp := Some qp\<rparr>) w1;
                         (dv, w3) = call (Mlx5dvInitQp (Some qp)) (ans_dv_qp E) w2
                     in Inr (set_ctx p (ctx\<lparr>iqp := Some dv,
                               sq_wrid := Some (replicate (unat (sq_cnt dv)) 0),
                               sq_signal_bits := (if sq_sig_all attr \<noteq> 0
                                                  then MLX5_WQE_CTRL_CQ_UPDATE else 0)\<rparr>) w3))))"

definition setup_connection :: "env \<Rightarrow> nat \<Rightarrow> rdma_conn_param option \<Rightarrow> world \<Rightarrow> world res" where
  "setup_connection E p params w =
     bindR (ctx_of p w) (\<lambda>_.
     bindR (try_build_device E p w) (\<lambda>w1.
     bindR (peer_meta params) (\<lambda>meta.
     bindR (case meta of
              None \<Rightarrow> Inr w1
            | Some m \<Rightarrow>
                bindR (ctx_of p w1) (\<lambda>ctx.
                bindR (mr_remote_update (meta_addr m) (meta_length m) (meta_rkey m) (meta_mr_count m)
                         (ctx\<lparr>flags := meta_flags m, app_type := meta_type m\<rparr>)) (\<lambda>ctx1.
                  Inr (set_ctx p ctx1 w1)))) (\<lambda>w2.
     bindR (build_cq_channel E p w2) (\<lambda>w3.
     bindR (create_queue_pair E p w3) (\<lambda>w4.
     bindR (cm_id_at p w4) (\<lambda>i.
       case copy_ipv4_sockaddr (src_storage i) of
         None \<Rightarrow> Inl (Die ''compatibility issue: can't use a non-IPv4 address'')
       | Some addr \<Rightarrow>
           bindR (qp_of p w4) (\<lambda>qp. add_id_record p addr (qp_num qp) w4))))))))"

definition finalize_connection :: "nat \<Rightarrow> rdma_conn_param option \<Rightarrow> world \<Rightarrow> world res" where
  "finalize_connection p params w =
     bindR (ctx_of p w) (\<lambda>ctx.
     bindR (peer_meta params) (\<lambda>meta.
     bindR (case meta of
              None \<Rightarrow> Inr w
            | Some m \<Rightarrow>
                bindR (mr_remote_update (meta_addr m) (meta_length m) (meta_rkey m) (meta_mr_count m) ctx)
                  (\<lambda>ctx1. Inr (set_ctx p ctx1 w))) (\<lambda>w1.
     rc_set_state p RC_CONNECTION_READY w1)))"

section \<open>Tear-down\<close>

definition remove_id_record :: "u32 \<Rightarrow> world \<Rightarrow> world res" where
  "remove_id_record qpn w =
     bindR (deref (s_ctx w)) (\<lambda>d.
     bindR (HASH_FIND hash_u32 (id_by_qp d) qpn) (\<lambda>entry.
       case entry of
         None \<Rightarrow> Inl (Die ''hash delete failed; id doesn't exist'')
       | Some e \<Rightarrow>
           bindR (HASH_DELETE (elmt e) (id_by_qp d)) (\<lambda>by_qp.
           bindR (HASH_DELETE (elmt e) (id_by_addr d)) (\<lambda>by_addr.
             Inr (w\<lparr>s_ctx := Some (d\<lparr>id_by_qp := by_qp, id_by_addr := by_addr\<rparr>)\<rparr>)))))"

definition rc_disconnect :: "nat \<Rightarrow> world \<Rightarrow> world res" where
  "rc_disconnect p w =
     bindR (rc_set_state p RC_CONNECTION_TERMINATED w) (\<lambda>w1.
     bindR (qp_of p w1) (\<lambda>qp.
     bindR (remove_id_record (qp_num qp) w1) (\<lambda>w2.
     bindR (ctx_of p w2) (\<lambda>ctx.
     bindR (delete_all (pendings ctx)) (\<lambda>ps.
     bindR (delete_all (buffer_bindings ctx)) (\<lambda>bs.
       Inr (emit (RdmaDisconnect p) (emit (RdmaDestroyQp p)
         (set_ctx p (ctx\<lparr>pendings := ps, buffer_bindings := bs\<rparr>) w2)))))))))"

text \<open>The loops of \<open>rc_clear\<close> over the regions and the buffers: the ready remote regions are freed,
  the message buffers deregistered and freed (with the debug output, which reads the registration).\<close>

definition clear_region :: "conn_context \<Rightarrow> int \<Rightarrow> world \<Rightarrow> world res" where
  "clear_region ctx i w =
     bindR (read_int (local_mr_ready ctx) i) (\<lambda>_.
     bindR (read_int (remote_mr_ready ctx) i) (\<lambda>r.
       if r \<noteq> 0 then bindR (read_int (remote_mr ctx) i) (\<lambda>_. Inr w) else Inr w))"

definition clear_buffer :: "conn_context \<Rightarrow> nat \<Rightarrow> world \<Rightarrow> world res" where
  "clear_buffer ctx i w =
     bindR (bindR (read_at (msg_send_mr ctx) i) deref) (\<lambda>smr.
     bindR (bindR (read_at (msg_rcv_mr ctx) i) deref) (\<lambda>rmr.
     bindR (read_at (msg_send ctx) i) (\<lambda>_.
     bindR (read_at (msg_rcv ctx) i) (\<lambda>_.
       Inr (emit (IbvDeregMr (Some rmr)) (emit (IbvDeregMr (Some smr)) w))))))"

definition rc_clear :: "nat \<Rightarrow> world \<Rightarrow> world res" where
  "rc_clear p w =
     bindR (ctx_of p w) (\<lambda>ctx.
     bindR (rc_terminated (sockfd ctx) w) (\<lambda>t.
       if t = 0 then Inl (Die ''can't clear metadata for non-terminated connection'')
       else
         bindR (deref (s_conn_bitmap w)) (\<lambda>bm.
         bindR (write_int bm (sockfd ctx) 0) (\<lambda>bm'.
         bindR (deref (s_conn_ids w)) (\<lambda>ids.
         bindR (write_int ids (sockfd ctx) 0) (\<lambda>ids'.
         bindR (foldR (clear_region ctx) [0..MAX_MR - 1]
                  (w\<lparr>s_conn_bitmap := Some bm', s_conn_ids := Some ids'\<rparr>)) (\<lambda>w1.
         bindR (foldR (clear_buffer ctx) [0..<MAX_BUFFER] w1) (\<lambda>w2.
           Inr (w2\<lparr>cm_ids := (cm_ids w2)(p := None)\<rparr>)))))))))"

section \<open>Bootstrap messages\<close>

text \<open>The union's \<open>addr\<close> and \<open>length\<close> carry the application type and the count.\<close>

definition create_message :: "nat \<Rightarrow> message_id \<Rightarrow> int \<Rightarrow> world \<Rightarrow> (int \<times> world) res" where
  "create_message p msg_type val w =
     bindR (ctx_of p w) (\<lambda>ctx0.
     bindR (rc_acquire_buffer_at (sockfd ctx0) 0 w) (\<lambda>(i, _, w1).
     bindR (ctx_of p w1) (\<lambda>ctx.
       if msg_type = MSG_MR then
         bindR (mr_prepare_msg i msg_type ctx) (\<lambda>ctx1. Inr (i, set_ctx p ctx1 w1))
       else if msg_type = MSG_INIT then
         bindR (read_int (msg_send ctx) i) (\<lambda>slot.
         bindR (deref slot) (\<lambda>b.
           let m1 = (buf_msg b)\<lparr>m_id := MSG_INIT\<rparr>;
               m2 = (if app_type ctx \<ge> 0 then m1\<lparr>m_addr := of_int (app_type ctx)\<rparr> else m1);
               m3 = m2\<lparr>m_length := of_int val\<rparr>
           in bindR (write_int (msg_send ctx) i (Some (b\<lparr>buf_msg := m3\<rparr>))) (\<lambda>ms.
                if val > MAX_MR then Inl (Die ''error; local mr count shouldn't exceed MAX_MR'')
                else Inr (i, set_ctx p (ctx\<lparr>msg_send := ms\<rparr>) w1))))
       else Inl (Die ''create message failed; invalid type''))))"

end
