(* ===== verification/Completion.thy ===== *)
theory Completion
  imports Conn_Setup
begin

text \<open>
  Completions: how \<open>src/rdma/connection.c\<close> records them, the completion callback of
  \<open>src/rdma/agent.c\<close>, the polling loops and the four waits. A loop that ends only when the adapter
  or another thread makes progress takes fuel: \<open>None\<close> says that the fuel ran out. \<open>tick\<close> is what
  the other threads do during a pause of the loop.
\<close>

section \<open>Loops that may not end\<close>

type_synonym 'a run = "'a res option"

definition bindF :: "'a run \<Rightarrow> ('a \<Rightarrow> 'b run) \<Rightarrow> 'b run" where
  "bindF m f = (case m of None \<Rightarrow> None | Some (Inl e) \<Rightarrow> Some (Inl e) | Some (Inr x) \<Rightarrow> f x)"

lemma bindF_simps [simp, res_simps]:
  "bindF None f = None" "bindF (Some (Inl e)) f = Some (Inl e)" "bindF (Some (Inr x)) f = f x"
  by (simp_all add: bindF_def)

lemma bindF_eq_Inr: "bindF m f = Some (Inr y) \<longleftrightarrow> (\<exists>x. m = Some (Inr x) \<and> f x = Some (Inr y))"
  by (cases m) (auto simp: bindF_def split: sum.splits)

lemma bindF_cong [fundef_cong]:
  "m = m' \<Longrightarrow> (\<And>x. m' = Some (Inr x) \<Longrightarrow> f x = f' x) \<Longrightarrow> bindF m f = bindF m' f'"
  by (cases m') (auto simp: bindF_def split: sum.splits)

section \<open>Recording a completion\<close>

definition last_compl_wr_id :: "conn_context \<Rightarrow> int \<Rightarrow> u32" where
  "last_compl_wr_id ctx send = (if send \<noteq> 0 then last_send_compl ctx else last_rcv_compl ctx)"

definition update_completions :: "ibv_wc \<Rightarrow> world \<Rightarrow> world res" where
  "update_completions wc w =
     bindR (find_connection_by_wc wc w) (\<lambda>p.
     bindR (qp_of p w) (\<lambda>_.
       if wc_recv wc then Inr w
       else update_ctx p (\<lambda>ctx. ctx\<lparr>last_send_compl := ucast (wc_wr_id wc)\<rparr>) w))"

text \<open>\<open>update_pending\<close> of \<open>verbs.c\<close>\<close>

definition update_pending :: "nat \<Rightarrow> u32 \<Rightarrow> world \<Rightarrow> world res" where
  "update_pending p app w =
     bindR (ctx_of p w) (\<lambda>ctx.
     bindR (qp_of p w) (\<lambda>_. Inr (set_ctx p (ctx\<lparr>last_rcv_compl := app\<rparr>) w)))"

definition on_completion :: "ibv_wc \<Rightarrow> world \<Rightarrow> world res" where
  "on_completion wc w =
     bindR (find_connection_by_wc wc w) (\<lambda>p.
       if wc_recv wc then
         bindR (ctx_of p w) (\<lambda>ctx.
         bindR (rc_ready (sockfd ctx) w) (\<lambda>r.
           if r \<noteq> 0 then
             let app = ntohl (wc_imm_data wc)
             in bindR (update_pending p app w) (\<lambda>w1.
                  if app_callbacks w1
                  then Inr (emit (AppReceive \<lparr>app_sockfd = sockfd ctx, app_id = app, app_data = 0\<rparr>) w1)
                  else Inl (Fault NullDeref))
           else Inl (Die ''invalid message'')))
       else bindR (cm_id_at p w) (\<lambda>_. Inr w))"

definition completion_cb :: "ibv_wc \<Rightarrow> world \<Rightarrow> world res" where
  "completion_cb wc w =
     (case s_on_completion_cb w of None \<Rightarrow> Inl (Fault NullDeref) | Some _ \<Rightarrow> on_completion wc w)"

section \<open>Polling\<close>

text \<open>One completion: recorded and handed on, or dropped when its status is a failure.\<close>

definition handle_wc :: "ibv_wc \<Rightarrow> world \<Rightarrow> world res" where
  "handle_wc wc w =
     (if wc_success wc then bindR (update_completions wc w) (completion_cb wc)
      else bindR (find_connection_by_wc wc w) (\<lambda>p. bindR (cm_id_at p w) (\<lambda>_. Inr w)))"

fun poll_cq :: "nat \<Rightarrow> env \<Rightarrow> nat \<Rightarrow> world \<Rightarrow> world run" where
  "poll_cq 0 E q w = None"
| "poll_cq (Suc n) E q w =
     (let (r, w1) = call (IbvPollCq q) (ans_poll_cq E) w
      in case r of
           None \<Rightarrow> Some (Inr w1)
         | Some wc \<Rightarrow> bindF (Some (handle_wc wc w1)) (poll_cq n E q))"

text \<open>The debug variant stops at the first receive and does not tolerate failures.\<close>

fun poll_cq_debug :: "nat \<Rightarrow> env \<Rightarrow> nat \<Rightarrow> world \<Rightarrow> world run" where
  "poll_cq_debug 0 E q w = None"
| "poll_cq_debug (Suc n) E q w =
     (let (r, w1) = call (IbvPollCq q) (ans_poll_cq E) w
      in case r of
           None \<Rightarrow> Some (Inr w1)
         | Some wc \<Rightarrow>
             if wc_success wc then
               bindF (Some (bindR (update_completions wc w1) (completion_cb wc))) (\<lambda>w2.
                 if wc_recv wc then Some (Inr w2) else poll_cq_debug n E q w2)
             else Some (Inl (Die ''poll_cq: status is not IBV_WC_SUCCESS'')))"

text \<open>Waiting for an event of the completion channel; the event names the queue to re-arm.\<close>

definition await_cq_event :: "env \<Rightarrow> nat \<Rightarrow> world \<Rightarrow> world" where
  "await_cq_event E ch w =
     (let (q, w1) = call (IbvGetCqEvent ch) (ans_cq_event E) w
      in emit (IbvReqNotifyCq q 0) (emit (IbvAckCqEvents q 1) w1))"

section \<open>Waiting for a response\<close>

text \<open>A response with sequence number \<open>seqn\<close> is awaited until the last one received is at most
  \<open>MAX_PENDING\<close> ahead.\<close>

definition response_missing :: "u32 \<Rightarrow> conn_context \<Rightarrow> bool" where
  "response_missing seqn ctx \<longleftrightarrow>
     last_rcv_compl ctx < seqn \<or> last_rcv_compl ctx - seqn > MAX_PENDING"

fun spin_till_response :: "nat \<Rightarrow> (world \<Rightarrow> world) \<Rightarrow> env \<Rightarrow> nat \<Rightarrow> u32 \<Rightarrow> world \<Rightarrow> world run" where
  "spin_till_response 0 tick E p seqn w = None"
| "spin_till_response (Suc n) tick E p seqn w =
     bindF (Some (ctx_of p w)) (\<lambda>ctx.
       if response_missing seqn ctx then
         bindF (poll_cq n E (cq ctx) w) (\<lambda>w1. spin_till_response n tick E p seqn (tick w1))
       else Some (Inr w))"

fun block_till_response :: "nat \<Rightarrow> (world \<Rightarrow> world) \<Rightarrow> env \<Rightarrow> nat \<Rightarrow> u32 \<Rightarrow> world \<Rightarrow> world run" where
  "block_till_response 0 tick E p seqn w = None"
| "block_till_response (Suc n) tick E p seqn w =
     bindF (Some (ctx_of p w)) (\<lambda>ctx.
       if response_missing seqn ctx then
         bindF (poll_cq n E (cq ctx) (await_cq_event E (comp_channel ctx) w)) (\<lambda>w1.
           block_till_response n tick E p seqn (tick w1))
       else Some (Inr w))"

section \<open>Waiting for a completion\<close>

definition send_pending :: "u32 \<Rightarrow> conn_context \<Rightarrow> bool" where
  "send_pending wr ctx \<longleftrightarrow> cmp_counters wr (last_compl_wr_id ctx 1) > 0"

fun spin_till_completion :: "nat \<Rightarrow> (world \<Rightarrow> world) \<Rightarrow> nat \<Rightarrow> u32 \<Rightarrow> world \<Rightarrow> world run" where
  "spin_till_completion 0 tick p wr w = None"
| "spin_till_completion (Suc n) tick p wr w =
     bindF (Some (ctx_of p w)) (\<lambda>ctx.
       if send_pending wr ctx then spin_till_completion n tick p wr (tick w)
       else Some (Inr w))"

text \<open>\<open>while (!ibw_cmpxchg(&ctx->poll_permission, 1, 0)) ibw_cpu_relax();\<close>\<close>

fun take_permission :: "nat \<Rightarrow> (world \<Rightarrow> world) \<Rightarrow> nat \<Rightarrow> world \<Rightarrow> world run" where
  "take_permission 0 tick p w = None"
| "take_permission (Suc n) tick p w =
     bindF (Some (ctx_of p w)) (\<lambda>ctx.
       let old = poll_permission ctx;
           w1 = (if old = 1 then set_ctx p (ctx\<lparr>poll_permission := 0\<rparr>) w else w)
       in if old = 0 then take_permission n tick p (tick w1) else Some (Inr w1))"

fun block_loop :: "nat \<Rightarrow> (world \<Rightarrow> world) \<Rightarrow> env \<Rightarrow> nat \<Rightarrow> u32 \<Rightarrow> world \<Rightarrow> world run" where
  "block_loop 0 tick E p wr w = None"
| "block_loop (Suc n) tick E p wr w =
     bindF (Some (ctx_of p w)) (\<lambda>ctx.
       if send_pending wr ctx then
         bindF (poll_cq n E (cq ctx) (await_cq_event E (comp_channel ctx) w)) (\<lambda>w1.
           block_loop n tick E p wr (tick w1))
       else Some (Inr w))"

definition release_permission :: "nat \<Rightarrow> world \<Rightarrow> world res" where
  "release_permission p w =
     bindR (ctx_of p w) (\<lambda>ctx.
       let old = poll_permission ctx
       in if old \<noteq> 0 then Inl (Die ''failed to reset permission; possible race condition'')
          else Inr (set_ctx p (ctx\<lparr>poll_permission := 1\<rparr>) w))"

definition block_till_completion ::
  "nat \<Rightarrow> (world \<Rightarrow> world) \<Rightarrow> env \<Rightarrow> nat \<Rightarrow> u32 \<Rightarrow> world \<Rightarrow> world run" where
  "block_till_completion n tick E p wr w =
     bindF (take_permission n tick p w) (\<lambda>w1.
     bindF (block_loop n tick E p wr w1) (\<lambda>w2. Some (release_permission p w2)))"

section \<open>The polling threads\<close>

fun poll_cq_spinning_loop :: "nat \<Rightarrow> (world \<Rightarrow> world) \<Rightarrow> env \<Rightarrow> nat \<Rightarrow> world \<Rightarrow> world run" where
  "poll_cq_spinning_loop 0 tick E p w = None"
| "poll_cq_spinning_loop (Suc n) tick E p w =
     bindF (Some (ctx_of p w)) (\<lambda>ctx.
       if poll_enable ctx = 0 then Some (Inr w)
       else
         bindF (if poll_permission ctx \<noteq> 0 then poll_cq n E (cq ctx) w else Some (Inr w)) (\<lambda>w1.
           poll_cq_spinning_loop n tick E p (tick w1)))"

fun poll_cq_blocking_loop :: "nat \<Rightarrow> (world \<Rightarrow> world) \<Rightarrow> env \<Rightarrow> nat \<Rightarrow> world \<Rightarrow> world run" where
  "poll_cq_blocking_loop 0 tick E p w = None"
| "poll_cq_blocking_loop (Suc n) tick E p w =
     bindF (Some (ctx_of p w)) (\<lambda>ctx.
       if poll_enable ctx = 0 then Some (Inr w)
       else
         bindF (poll_cq n E (cq ctx) (await_cq_event E (comp_channel ctx) w)) (\<lambda>w1.
           poll_cq_blocking_loop n tick E p (tick w1)))"

end
