(* ===== verification/Verbs.thy ===== *)
theory Verbs
  imports Completion
begin

text \<open>
  \<open>src/rdma/verbs.h\<close> and the basic part of \<open>src/rdma/verbs.c\<close>: work request identifiers, one-sided
  and two-sided operations, atomics, receives, messages, pending responses, waits and broadcasts.
  The configuration is the debug build of the project, whose messages read the queue pair and the
  scatter list.
\<close>

section \<open>Helpers of the header\<close>

text \<open>An operation and the operations batched behind it (\<open>rdma_meta_t\<close> linked by \<open>next\<close>) are a
  list of these.\<close>

record rdma_metadata =
  md_op :: int
  md_wr_id :: u32
  md_addr :: u64
  md_length :: u64
  md_imm :: u32
  md_sge_count :: int
  md_sge_entries :: "ibv_sge list"

definition range_valid :: "u64 \<Rightarrow> u64 \<Rightarrow> u64 \<Rightarrow> u64 \<Rightarrow> int" where
  "range_valid inner_addr inner_len outer_addr outer_len =
     (if inner_addr + inner_len > outer_addr + outer_len \<or> inner_addr < outer_addr then 0 else 1)"

fun stringify_verb :: "wr_opcode \<Rightarrow> string" where
  "stringify_verb IBV_EXP_WR_RDMA_WRITE = ''RDMA_WRITE''"
| "stringify_verb IBV_EXP_WR_RDMA_WRITE_WITH_IMM = ''RDMA_WRITE_IMM''"
| "stringify_verb IBV_EXP_WR_SEND = ''RDMA_SEND''"
| "stringify_verb IBV_EXP_WR_SEND_WITH_IMM = ''RDMA_SEND_IMM''"
| "stringify_verb IBV_EXP_WR_RDMA_READ = ''RDMA_READ''"
| "stringify_verb IBV_EXP_WR_ATOMIC_FETCH_AND_ADD = ''ATOMIC_FETCH_AND_ADD''"
| "stringify_verb IBV_EXP_WR_ATOMIC_CMP_AND_SWP = ''ATOMIC_CMP_AND_SWP''"
| "stringify_verb _ = ''UNDEFINED''"

definition op_one_sided :: "wr_opcode \<Rightarrow> int" where
  "op_one_sided opcode =
     (if opcode = IBV_EXP_WR_RDMA_READ \<or> opcode = IBV_EXP_WR_RDMA_WRITE \<or>
         opcode = IBV_EXP_WR_RDMA_WRITE_WITH_IMM then 1 else 0)"

definition next_wr_id :: "conn_context \<Rightarrow> int \<Rightarrow> u32 \<times> conn_context" where
  "next_wr_id ctx send =
     (if send \<noteq> 0 then
        if send \<ge> 1 then (last_send ctx + 1, ctx\<lparr>last_send := last_send ctx + 1\<rparr>) else (0, ctx)
      else (last_rcv ctx + 1, ctx\<lparr>last_rcv := last_rcv ctx + 1\<rparr>))"

section \<open>Identifiers and entries\<close>

definition IBV_NEXT_WR_ID :: "int \<Rightarrow> world \<Rightarrow> (u32 \<times> world) res" where
  "IBV_NEXT_WR_ID sock w =
     bindR (sock_ctx sock w) (\<lambda>(p, ctx).
       let (n, ctx1) = next_wr_id ctx 1 in Inr (n, set_ctx p ctx1 w))"

definition IBV_GET_CQ :: "int \<Rightarrow> world \<Rightarrow> nat res" where
  "IBV_GET_CQ sock w = bindR (sock_ctx sock w) (\<lambda>(p, ctx). Inr (cq ctx))"

text \<open>The search for an entry by its identifier: the address of the entry, 0 when there is none.
  A hit reads the head of the entry, for the message.\<close>

function find_wqe :: "conn_context \<Rightarrow> memory \<Rightarrow> u32 \<Rightarrow> nat \<Rightarrow> nat res" where
  "find_wqe ctx m wr i =
     (if i < unat (sq_wqe_cnt ctx) then
        bindR (deref (sq_wrid ctx)) (\<lambda>ids.
        bindR (read_at ids i) (\<lambda>x.
          if x = ucast wr then
            bindR (load32 (get_send_wqe ctx (int i)) m) (\<lambda>_. Inr (get_send_wqe ctx (int i)))
          else find_wqe ctx m wr (i + 1)))
      else Inr 0)"
  by pat_completeness auto
termination
  by (relation "measure (\<lambda>(ctx, m, wr, i). unat (sq_wqe_cnt ctx) - i)") auto

declare find_wqe.simps [simp del]

definition IBV_FIND_WQE :: "int \<Rightarrow> u32 \<Rightarrow> world \<Rightarrow> nat res" where
  "IBV_FIND_WQE sock wr w = bindR (sock_ctx sock w) (\<lambda>(p, ctx). find_wqe ctx (mem w) wr 0)"

definition IBV_GET_WQE :: "int \<Rightarrow> u32 \<Rightarrow> world \<Rightarrow> nat res" where
  "IBV_GET_WQE sock idx w = bindR (sock_ctx sock w) (\<lambda>(p, ctx). Inr (get_send_wqe ctx (sint idx)))"

section \<open>Posting one request\<close>

text \<open>The end of every asynchronous operation: the request is counted and posted on the queue pair of
  the connection, a failure ends the process.\<close>

definition post_or_die :: "env \<Rightarrow> nat \<Rightarrow> send_wr list \<Rightarrow> world \<Rightarrow> world res" where
  "post_or_die E p wrs w =
     bindR (ctx_of p w) (\<lambda>ctx.
     bindR (cm_id_at (ctx_id ctx) w) (\<lambda>i.
     bindR (ibv_post_send_wrapper E p (cm_qp i) wrs w) (\<lambda>(ret, w1).
       if ret \<noteq> 0 then Inl (Die ''failed to post rdma operation'') else Inr w1)))"

definition count_and_post :: "env \<Rightarrow> nat \<Rightarrow> conn_context \<Rightarrow> send_wr \<Rightarrow> world \<Rightarrow> (u32 \<times> world) res" where
  "count_and_post E p ctx wr w =
     bindR (post_or_die E p [wr] (set_ctx p (ctx\<lparr>n_posted_ops := n_posted_ops ctx + 1\<rparr>) w)) (\<lambda>w1.
       Inr (ucast (wr_id wr), w1))"

definition IBV_SEND_ASYNC ::
  "env \<Rightarrow> int \<Rightarrow> u64 \<Rightarrow> u64 \<Rightarrow> u32 \<Rightarrow> int \<Rightarrow> world \<Rightarrow> (u32 \<times> world) res" where
  "IBV_SEND_ASYNC E sock src len imm local_id w =
     bindR (sock_ctx sock w) (\<lambda>(p, ctx).
     bindR (local_region local_id ctx) (\<lambda>mr.
       let sge = \<lparr>sg_addr = src, sg_length = ucast len, sg_lkey = reg_lkey mr\<rparr>;
           sr = zero_wr\<lparr>wr_id := 99, sg_list := Some [sge], num_sge := 1,
                  send_flags := IBV_SEND_SIGNALED (abi E)\<rparr>;
           sr1 = (if imm \<noteq> 0
                  then sr\<lparr>imm_data := htonl imm, exp_opcode := IBV_EXP_WR_SEND_WITH_IMM\<rparr>
                  else sr\<lparr>exp_opcode := IBV_EXP_WR_SEND\<rparr>)
       in count_and_post E p ctx sr1 w))"

definition IBV_CAS_ASYNC ::
  "env \<Rightarrow> int \<Rightarrow> u64 \<Rightarrow> u64 \<Rightarrow> u64 \<Rightarrow> u64 \<Rightarrow> u64 \<Rightarrow> u64 \<Rightarrow> int \<Rightarrow> world \<Rightarrow> (u32 \<times> world) res" where
  "IBV_CAS_ASYNC E sock src dst compare swap lkey rkey fence w =
     bindR (sock_ctx sock w) (\<lambda>(p, ctx).
       let (n, ctx1) = next_wr_id ctx 1;
           sge = \<lparr>sg_addr = src, sg_length = 8, sg_lkey = ucast lkey\<rparr>;
           fl = IBV_SEND_SIGNALED (abi E) OR (if fence \<noteq> 0 then IBV_SEND_FENCE (abi E) else 0);
           sr = zero_wr\<lparr>wr_id := ucast n, sg_list := Some [sge], num_sge := 1,
                  atomic_compare_add := compare, atomic_swap := swap, atomic_remote_addr := dst,
                  atomic_rkey := ucast rkey, send_flags := fl,
                  exp_opcode := IBV_EXP_WR_ATOMIC_CMP_AND_SWP\<rparr>
       in count_and_post E p ctx1 sr w)"

definition IBV_FETCH_ADD_ASYNC ::
  "env \<Rightarrow> int \<Rightarrow> u64 \<Rightarrow> u64 \<Rightarrow> u64 \<Rightarrow> u64 \<Rightarrow> u64 \<Rightarrow> u64 \<Rightarrow> world \<Rightarrow> (u32 \<times> world) res" where
  "IBV_FETCH_ADD_ASYNC E sock src dst len add lkey rkey w =
     bindR (sock_ctx sock w) (\<lambda>(p, ctx).
       let (n, ctx1) = next_wr_id ctx 1;
           sge = \<lparr>sg_addr = src, sg_length = ucast len, sg_lkey = ucast lkey\<rparr>;
           sr = zero_wr\<lparr>wr_id := ucast n, sg_list := Some [sge], num_sge := 1,
                  atomic_compare_add := add, atomic_swap := 0, atomic_remote_addr := dst,
                  atomic_rkey := ucast rkey,
                  send_flags := IBV_SEND_SIGNALED (abi E) OR IBV_SEND_FENCE (abi E),
                  exp_opcode := IBV_EXP_WR_ATOMIC_FETCH_AND_ADD\<rparr>
       in count_and_post E p ctx1 sr w)"

text \<open>One entry for every byte, the last byte of the source first.\<close>

definition reversed_sges :: "u64 \<Rightarrow> u64 \<Rightarrow> u64 \<Rightarrow> ibv_sge list" where
  "reversed_sges src len lkey =
     map (\<lambda>i. \<lparr>sg_addr = src + len - 1 - of_nat i, sg_length = 1, sg_lkey = ucast lkey\<rparr>) [0..<unat len]"

definition IBV_CONVERT_ENDIAN_ASYNC ::
  "env \<Rightarrow> int \<Rightarrow> u64 \<Rightarrow> u64 \<Rightarrow> u64 \<Rightarrow> u64 \<Rightarrow> u64 \<Rightarrow> world \<Rightarrow> (u32 \<times> world) res" where
  "IBV_CONVERT_ENDIAN_ASYNC E sock src dst len lkey rkey w =
     bindR (sock_ctx sock w) (\<lambda>(p, ctx).
       if len > 16 then Inl (Die ''endian conversion failed; max number of sge allowed is 16'')
       else
         let (n, ctx1) = next_wr_id ctx 1;
             sr = zero_wr\<lparr>exp_opcode := IBV_EXP_WR_RDMA_READ, wr_id := ucast n,
                    sg_list := Some (reversed_sges src len lkey), num_sge := int (unat len),
                    rdma_rkey := ucast rkey, rdma_remote_addr := dst,
                    send_flags := IBV_SEND_SIGNALED (abi E)\<rparr>
         in count_and_post E p ctx1 sr w)"

text \<open>The opcode 0 is the first one of the enumeration.\<close>

definition IBV_NOOP_ASYNC :: "env \<Rightarrow> int \<Rightarrow> int \<Rightarrow> world \<Rightarrow> (u32 \<times> world) res" where
  "IBV_NOOP_ASYNC E sock signaled w =
     bindR (sock_ctx sock w) (\<lambda>(p, ctx).
       let (n, ctx1) = next_wr_id ctx 1;
           sge = \<lparr>sg_addr = 0, sg_length = 0, sg_lkey = 0\<rparr>;
           sr = zero_wr\<lparr>wr_id := ucast n, sg_list := Some [sge], num_sge := 0,
                  send_flags := (if signaled \<noteq> 0 then IBV_SEND_SIGNALED (abi E) else 0),
                  exp_opcode := IBV_EXP_WR_RDMA_WRITE\<rparr>
       in count_and_post E p ctx1 sr w)"

text \<open>A chain the caller built. The message printed for each request reads its first scatter
  entry.\<close>

definition count_post :: "send_wr \<Rightarrow> conn_context \<Rightarrow> conn_context res" where
  "count_post wr ctx =
     bindR (sge_at (sg_list wr) 0) (\<lambda>_. Inr (ctx\<lparr>n_posted_ops := n_posted_ops ctx + 1\<rparr>))"

definition IBV_POST_ASYNC :: "env \<Rightarrow> int \<Rightarrow> send_wr list \<Rightarrow> world \<Rightarrow> (u32 \<times> world) res" where
  "IBV_POST_ASYNC E sock wrs w =
     bindR (sock_ctx sock w) (\<lambda>(p, ctx).
       if wrs = [] then Inl (Fault NullDeref)
       else
         bindR (foldR count_post wrs ctx) (\<lambda>ctx1.
         bindR (post_or_die E p wrs (set_ctx p ctx1 w)) (\<lambda>w1.
           Inr (ucast (wr_id (last wrs)), w1))))"

section \<open>Synchronous variants\<close>

definition then_spin ::
  "nat \<Rightarrow> (world \<Rightarrow> world) \<Rightarrow> int \<Rightarrow> (u32 \<times> world) res \<Rightarrow> world run" where
  "then_spin n tick sock r =
     bindF (Some r) (\<lambda>(wr, w1).
     bindF (Some (get_connection sock w1)) (\<lambda>p. spin_till_completion n tick p wr w1))"

definition IBV_SEND_SYNC ::
  "nat \<Rightarrow> (world \<Rightarrow> world) \<Rightarrow> env \<Rightarrow> int \<Rightarrow> u64 \<Rightarrow> u64 \<Rightarrow> u32 \<Rightarrow> int \<Rightarrow> world \<Rightarrow> world run" where
  "IBV_SEND_SYNC n tick E sock src len imm local_id w =
     then_spin n tick sock (IBV_SEND_ASYNC E sock src len imm local_id w)"

definition IBV_POST_SYNC ::
  "nat \<Rightarrow> (world \<Rightarrow> world) \<Rightarrow> env \<Rightarrow> int \<Rightarrow> send_wr list \<Rightarrow> world \<Rightarrow> world run" where
  "IBV_POST_SYNC n tick E sock wrs w = then_spin n tick sock (IBV_POST_ASYNC E sock wrs w)"

definition IBV_CAS_SYNC ::
  "nat \<Rightarrow> (world \<Rightarrow> world) \<Rightarrow> env \<Rightarrow> int \<Rightarrow> u64 \<Rightarrow> u64 \<Rightarrow> u64 \<Rightarrow> u64 \<Rightarrow> u64 \<Rightarrow> u64 \<Rightarrow> int \<Rightarrow> world \<Rightarrow> world run" where
  "IBV_CAS_SYNC n tick E sock src dst compare swap lkey rkey fence w =
     then_spin n tick sock (IBV_CAS_ASYNC E sock src dst compare swap lkey rkey fence w)"

definition IBV_FETCH_ADD_SYNC ::
  "nat \<Rightarrow> (world \<Rightarrow> world) \<Rightarrow> env \<Rightarrow> int \<Rightarrow> u64 \<Rightarrow> u64 \<Rightarrow> u64 \<Rightarrow> u64 \<Rightarrow> u64 \<Rightarrow> u64 \<Rightarrow> world \<Rightarrow> world run" where
  "IBV_FETCH_ADD_SYNC n tick E sock src dst len add lkey rkey w =
     then_spin n tick sock (IBV_FETCH_ADD_ASYNC E sock src dst len add lkey rkey w)"

definition IBV_CONVERT_ENDIAN_SYNC ::
  "nat \<Rightarrow> (world \<Rightarrow> world) \<Rightarrow> env \<Rightarrow> int \<Rightarrow> u64 \<Rightarrow> u64 \<Rightarrow> u64 \<Rightarrow> u64 \<Rightarrow> u64 \<Rightarrow> world \<Rightarrow> world run" where
  "IBV_CONVERT_ENDIAN_SYNC n tick E sock src dst len lkey rkey w =
     then_spin n tick sock (IBV_CONVERT_ENDIAN_ASYNC E sock src dst len lkey rkey w)"

definition IBV_NOOP_SYNC ::
  "nat \<Rightarrow> (world \<Rightarrow> world) \<Rightarrow> env \<Rightarrow> int \<Rightarrow> int \<Rightarrow> world \<Rightarrow> world run" where
  "IBV_NOOP_SYNC n tick E sock signaled w =
     (if signaled = 0 then Some (Inl (Die ''cannot synchronously execute unsignaled verb''))
      else then_spin n tick sock (IBV_NOOP_ASYNC E sock signaled w))"

end
