(* ===== verification/Rdma_Ops.thy ===== *)
theory Rdma_Ops
  imports Verbs
begin

text \<open>
  The low-level operations at the end of \<open>src/rdma/verbs.c\<close> (\<open>send_rdma_operation\<close>,
  \<open>send_message\<close>, \<open>receive_message\<close>, \<open>receive_imm\<close>) and what is built on them: the wrappers by
  opcode, the broadcasts, the receives, the messages, the pending responses and the waits.
\<close>

section \<open>One-sided and two-sided operations\<close>

text \<open>The memory keys of an operation are ready.\<close>

definition keys_ready :: "nat \<Rightarrow> int \<Rightarrow> int \<Rightarrow> wr_opcode \<Rightarrow> world \<Rightarrow> int res" where
  "keys_ready p local_id remote_id opcode w =
     bindR (ctx_of p w) (\<lambda>ctx.
     bindR (mr_local_ready ctx local_id) (\<lambda>l.
       if l = 0 then Inr 0
       else if op_one_sided opcode \<noteq> 0 then mr_remote_ready ctx remote_id
       else Inr 1))"

text \<open>The key of the local region is written into every entry of the operation.\<close>

definition set_lkey :: "u32 \<Rightarrow> int \<Rightarrow> ibv_sge list \<Rightarrow> ibv_sge list res" where
  "set_lkey k i es = bindR (read_int es i) (\<lambda>s. write_int es i (s\<lparr>sg_lkey := k\<rparr>))"

definition set_lkeys :: "conn_context \<Rightarrow> int \<Rightarrow> int \<Rightarrow> ibv_sge list \<Rightarrow> ibv_sge list res" where
  "set_lkeys ctx local_id n es =
     (if n \<le> 0 then Inr es
      else bindR (local_region local_id ctx) (\<lambda>mr. foldR (set_lkey (reg_lkey mr)) [0..n - 1] es))"

definition batch_wr ::
  "env \<Rightarrow> int \<Rightarrow> int \<Rightarrow> wr_opcode \<Rightarrow> rdma_metadata \<Rightarrow> conn_context \<Rightarrow> (send_wr \<times> conn_context) res" where
  "batch_wr E local_id remote_id opcode md ctx =
     bindR (set_lkeys ctx local_id (md_sge_count md) (md_sge_entries md)) (\<lambda>es.
     bindR (if op_one_sided opcode \<noteq> 0
            then bindR (remote_region remote_id ctx) (\<lambda>r. Inr (md_addr md, mr_rkey r))
            else Inr (0, 0)) (\<lambda>(raddr, rkey).
       let (n, ctx1) = next_wr_id ctx 1;
           wr = zero_wr\<lparr>rdma_remote_addr := raddr, rdma_rkey := rkey, wr_id := ucast n,
                  exp_opcode := opcode, send_flags := IBV_SEND_SIGNALED (abi E),
                  num_sge := md_sge_count md,
                  sg_list := (if md_sge_count md \<noteq> 0 then Some es else None),
                  imm_data := (if opcode = IBV_EXP_WR_RDMA_WRITE_WITH_IMM \<or>
                                  opcode = IBV_EXP_WR_SEND_WITH_IMM
                               then htonl (md_imm md) else 0)\<rparr>
       in Inr (wr, ctx1\<lparr>n_posted_ops := n_posted_ops ctx1 + 1\<rparr>)))"

fun batch_wrs ::
  "env \<Rightarrow> int \<Rightarrow> int \<Rightarrow> wr_opcode \<Rightarrow> rdma_metadata list \<Rightarrow> conn_context
    \<Rightarrow> (send_wr list \<times> conn_context) res" where
  "batch_wrs E l r op [] ctx = Inr ([], ctx)"
| "batch_wrs E l r op (md # mds) ctx =
     bindR (batch_wr E l r op md ctx) (\<lambda>(wr, ctx1).
     bindR (batch_wrs E l r op mds ctx1) (\<lambda>(wrs, ctx2). Inr (wr # wrs, ctx2)))"

definition send_rdma_operation ::
  "env \<Rightarrow> (world \<Rightarrow> world) \<Rightarrow> nat \<Rightarrow> rdma_metadata list \<Rightarrow> int \<Rightarrow> int \<Rightarrow> wr_opcode \<Rightarrow> world
    \<Rightarrow> (u32 \<times> world) res" where
  "send_rdma_operation E tick p metas local_id remote_id opcode w =
     bindR (cm_id_at p w) (\<lambda>_.
       if local_id > MAX_MR \<or> remote_id > MAX_MR then Inl (Die ''invalid memory regions specified'')
       else
         bindR (await tick (keys_ready p local_id remote_id opcode)
                  ''failed to issue sync; no metadata available for remote mr'' 5 w) (\<lambda>(_, w1).
         bindR (ctx_of p w1) (\<lambda>ctx.
         bindR (read_int (local_mr ctx) local_id) (\<lambda>_.
         bindR (if op_one_sided opcode \<noteq> 0
                then bindR (read_int (remote_mr ctx) remote_id) (\<lambda>_. Inr ()) else Inr ()) (\<lambda>_.
           if metas = [] then Inl (Fault NullDeref)
           else
             bindR (batch_wrs E local_id remote_id opcode metas ctx) (\<lambda>(wrs, ctx1).
             bindR (cm_id_at p w1) (\<lambda>i.
             bindR (ibv_post_send_wrapper E p (cm_qp i) wrs (set_ctx p ctx1 w1)) (\<lambda>(ret, w2).
               if ret \<noteq> 0 then Inl (Die ''failed to post rdma operation'')
               else Inr (ucast (wr_id (last wrs)), w2))))))))) "

definition send_message :: "env \<Rightarrow> nat \<Rightarrow> int \<Rightarrow> world \<Rightarrow> (u32 \<times> world) res" where
  "send_message E p buffer w =
     bindR (ctx_of p w) (\<lambda>ctx.
       let (n, ctx1) = next_wr_id ctx 2
       in bindR (read_int (msg_send ctx1) buffer) (\<lambda>slot.
          bindR (bindR (read_int (msg_send_mr ctx1) buffer) deref) (\<lambda>mr.
            let sge = \<lparr>sg_addr = (case slot of None \<Rightarrow> 0 | Some b \<Rightarrow> buf_addr b),
                       sg_length = ucast sizeof_message + of_int (msg_size w), sg_lkey = reg_lkey mr\<rparr>;
                wr = zero_wr\<lparr>wr_id := ucast n, exp_opcode := IBV_EXP_WR_SEND, sg_list := Some [sge],
                       num_sge := 1, send_flags := IBV_SEND_SIGNALED (abi E)\<rparr>
            in bindR (rc_bind_buffer p buffer n (set_ctx p ctx1 w)) (\<lambda>(ok, w1).
                 if ok = 0 then Inl (Die ''failed to bind send buffer'')
                 else
                   bindR (qp_of p w1) (\<lambda>qp.
                   bindR (ibv_post_send_wrapper E p (Some qp) [wr] w1) (\<lambda>(ret, w2).
                     if ret \<noteq> 0 then Inl (Die ''failed to post rdma operation'')
                     else
                       bindR (update_ctx p (\<lambda>c. c\<lparr>n_posted_ops := n_posted_ops c + 1\<rparr>) w2)
                         (\<lambda>w3. Inr (n, w3))))))))"

definition post_recv :: "nat \<Rightarrow> recv_wr \<Rightarrow> world \<Rightarrow> world res" where
  "post_recv p wr w = bindR (cm_id_at p w) (\<lambda>i. Inr (emit (IbvPostRecv (cm_qp i) wr) w))"

definition receive_message :: "nat \<Rightarrow> int \<Rightarrow> world \<Rightarrow> world res" where
  "receive_message p buffer w =
     bindR (ctx_of p w) (\<lambda>ctx.
     bindR (read_int (msg_rcv ctx) buffer) (\<lambda>slot.
     bindR (bindR (read_int (msg_rcv_mr ctx) buffer) deref) (\<lambda>mr.
     bindR (qp_of p w) (\<lambda>_.
       let sge = \<lparr>sg_addr = (case slot of None \<Rightarrow> 0 | Some b \<Rightarrow> buf_addr b),
                  sg_length = ucast sizeof_message + of_int (msg_size w), sg_lkey = reg_lkey mr\<rparr>
       in post_recv p \<lparr>rwr_id = of_int buffer, rsg_list = Some [sge], rnum_sge = 1\<rparr> w))))"

definition receive_imm :: "nat \<Rightarrow> int \<Rightarrow> world \<Rightarrow> world res" where
  "receive_imm p buffer w = post_recv p \<lparr>rwr_id = of_int buffer, rsg_list = None, rnum_sge = 0\<rparr> w"

section \<open>Wrappers by opcode\<close>

definition IBV_WRAPPER_OP_ASYNC ::
  "env \<Rightarrow> (world \<Rightarrow> world) \<Rightarrow> int \<Rightarrow> rdma_metadata list \<Rightarrow> int \<Rightarrow> int \<Rightarrow> wr_opcode \<Rightarrow> world
    \<Rightarrow> (u32 \<times> world) res" where
  "IBV_WRAPPER_OP_ASYNC E tick sock metas l r op w =
     bindR (get_connection sock w) (\<lambda>p. send_rdma_operation E tick p metas l r op w)"

definition IBV_WRAPPER_OP_SYNC ::
  "nat \<Rightarrow> env \<Rightarrow> (world \<Rightarrow> world) \<Rightarrow> int \<Rightarrow> rdma_metadata list \<Rightarrow> int \<Rightarrow> int \<Rightarrow> wr_opcode \<Rightarrow> world
    \<Rightarrow> world run" where
  "IBV_WRAPPER_OP_SYNC n E tick sock metas l r op w =
     then_spin n tick sock (IBV_WRAPPER_OP_ASYNC E tick sock metas l r op w)"

text \<open>The loop over the open connections: the connections served, with their request identifiers.\<close>

fun broadcast ::
  "nat \<Rightarrow> env \<Rightarrow> (world \<Rightarrow> world) \<Rightarrow> nat \<Rightarrow> rdma_metadata list \<Rightarrow> int \<Rightarrow> int \<Rightarrow> wr_opcode \<Rightarrow> world
    \<Rightarrow> ((nat \<times> u32) list \<times> world) run" where
  "broadcast 0 E tick p metas l r op w = None"
| "broadcast (Suc n) E tick p metas l r op w =
     (if p = 0 then Some (Inr ([], w))
      else
        bindF (Some (send_rdma_operation E tick p metas l r op w)) (\<lambda>(wr, w1).
        bindF (Some (find_next_connection p w1)) (\<lambda>p1.
        bindF (broadcast n E tick p1 metas l r op w1) (\<lambda>(sent, w2). Some (Inr ((p, wr) # sent, w2))))))"

definition IBV_WRAPPER_OP_ASYNC_ALL ::
  "nat \<Rightarrow> env \<Rightarrow> (world \<Rightarrow> world) \<Rightarrow> rdma_metadata list \<Rightarrow> int \<Rightarrow> int \<Rightarrow> wr_opcode \<Rightarrow> world
    \<Rightarrow> world run" where
  "IBV_WRAPPER_OP_ASYNC_ALL n E tick metas l r op w =
     bindF (Some (find_next_connection 0 w)) (\<lambda>p.
     bindF (broadcast n E tick p metas l r op w) (\<lambda>(_, w1). Some (Inr w1)))"

fun spin_all :: "nat \<Rightarrow> (world \<Rightarrow> world) \<Rightarrow> (nat \<times> u32) list \<Rightarrow> world \<Rightarrow> world run" where
  "spin_all n tick [] w = Some (Inr w)"
| "spin_all n tick ((p, wr) # sent) w =
     bindF (spin_till_completion n tick p wr w) (spin_all n tick sent)"

text \<open>The two arrays of the synchronous broadcast have one slot per open connection.\<close>

definition IBV_WRAPPER_OP_SYNC_ALL ::
  "nat \<Rightarrow> env \<Rightarrow> (world \<Rightarrow> world) \<Rightarrow> rdma_metadata list \<Rightarrow> int \<Rightarrow> int \<Rightarrow> wr_opcode \<Rightarrow> world
    \<Rightarrow> world run" where
  "IBV_WRAPPER_OP_SYNC_ALL n E tick metas l r op w =
     bindF (Some (rc_connection_count w)) (\<lambda>slots.
     bindF (Some (find_next_connection 0 w)) (\<lambda>p.
     bindF (broadcast n E tick p metas l r op w) (\<lambda>(sent, w1).
       if int (length sent) > slots then Some (Inl (Fault OutOfBounds))
       else spin_all n tick sent w1)))"

text \<open>The functions the macro \<open>IBV_WRAPPER_FUNC\<close> generates. The asynchronous one calls the
  operation and ends without a return statement: its value is indeterminate, here \<open>None\<close>.\<close>

definition IBV_WRAPPER_FUNC_ASYNC ::
  "wr_opcode \<Rightarrow> env \<Rightarrow> (world \<Rightarrow> world) \<Rightarrow> int \<Rightarrow> rdma_metadata list \<Rightarrow> int \<Rightarrow> int \<Rightarrow> world
    \<Rightarrow> (u32 option \<times> world) res" where
  "IBV_WRAPPER_FUNC_ASYNC op E tick sock metas l r w =
     bindR (IBV_WRAPPER_OP_ASYNC E tick sock metas l r op w) (\<lambda>(_, w1). Inr (None, w1))"

definition IBV_WRAPPER_FUNC_SYNC ::
  "wr_opcode \<Rightarrow> nat \<Rightarrow> env \<Rightarrow> (world \<Rightarrow> world) \<Rightarrow> int \<Rightarrow> rdma_metadata list \<Rightarrow> int \<Rightarrow> int \<Rightarrow> world
    \<Rightarrow> world run" where
  "IBV_WRAPPER_FUNC_SYNC op n E tick sock metas l r w = IBV_WRAPPER_OP_SYNC n E tick sock metas l r op w"

section \<open>Receives\<close>

definition IBV_RECEIVE_IMM :: "int \<Rightarrow> world \<Rightarrow> world res" where
  "IBV_RECEIVE_IMM sock w = bindR (get_connection sock w) (\<lambda>p. receive_imm p 0 w)"

definition IBV_RECEIVE ::
  "(world \<Rightarrow> world) \<Rightarrow> int \<Rightarrow> u64 \<Rightarrow> u64 \<Rightarrow> int \<Rightarrow> world \<Rightarrow> world res" where
  "IBV_RECEIVE tick sock addr len local_id w =
     bindR (sock_ctx sock w) (\<lambda>(p, ctx).
     bindR (read_int (local_mr ctx) local_id) (\<lambda>_.
     bindR (mr_local_key tick sock local_id w) (\<lambda>(k, w1).
     bindR (qp_of p w1) (\<lambda>_.
       post_recv p \<lparr>rwr_id = 99, rsg_list = Some [\<lparr>sg_addr = addr, sg_length = ucast len,
         sg_lkey = ucast k\<rparr>], rnum_sge = 1\<rparr> w1))))"

definition IBV_RECEIVE_ANY :: "int \<Rightarrow> u64 \<Rightarrow> u64 \<Rightarrow> u64 \<Rightarrow> world \<Rightarrow> world res" where
  "IBV_RECEIVE_ANY sock addr len lkey w =
     bindR (sock_ctx sock w) (\<lambda>(p, ctx).
     bindR (qp_of p w) (\<lambda>_.
       post_recv p \<lparr>rwr_id = 99, rsg_list = Some [\<lparr>sg_addr = addr, sg_length = ucast len,
         sg_lkey = ucast lkey\<rparr>], rnum_sge = 1\<rparr> w))"

definition IBV_RECEIVE_SG ::
  "int \<Rightarrow> rdma_metadata \<Rightarrow> u64 \<Rightarrow> world \<Rightarrow> (rdma_metadata \<times> world) res" where
  "IBV_RECEIVE_SG sock md lkey w =
     bindR (sock_ctx sock w) (\<lambda>(p, ctx).
       let n = md_sge_count md
       in if n = 0 \<or> n > 16 then Inl (Die ''invalid number of sge entries for receive'')
          else
            bindR (foldR (set_lkey (ucast lkey)) [0..n - 1] (md_sge_entries md)) (\<lambda>es.
            bindR (qp_of p w) (\<lambda>_.
            bindR (post_recv p \<lparr>rwr_id = 99, rsg_list = Some es, rnum_sge = n\<rparr> w) (\<lambda>w1.
              Inr (md\<lparr>md_sge_entries := es\<rparr>, w1)))))"

section \<open>Messages\<close>

definition set_msg_id :: "int \<Rightarrow> message_id \<Rightarrow> conn_context \<Rightarrow> conn_context res" where
  "set_msg_id buffer m ctx =
     bindR (bindR (read_int (msg_send ctx) buffer) deref) (\<lambda>b.
     bindR (write_int (msg_send ctx) buffer (Some (b\<lparr>buf_msg := (buf_msg b)\<lparr>m_id := m\<rparr>\<rparr>))) (\<lambda>ms.
       Inr (ctx\<lparr>msg_send := ms\<rparr>)))"

definition IBV_WRAPPER_SEND_MSG_SYNC ::
  "nat \<Rightarrow> (world \<Rightarrow> world) \<Rightarrow> env \<Rightarrow> int \<Rightarrow> int \<Rightarrow> int \<Rightarrow> world \<Rightarrow> world run" where
  "IBV_WRAPPER_SEND_MSG_SYNC n tick E sock buffer_id solicit w =
     bindF (Some (sock_ctx sock w)) (\<lambda>(p, ctx).
     bindF (Some (bindR (read_int (msg_send ctx) buffer_id) deref)) (\<lambda>b.
       if solicit \<noteq> 0 \<and> m_app_id (buf_msg b) = 0 then
         Some (Inl (Die ''app_id must be greater than 0 to match request to response''))
       else
         bindF (Some (set_msg_id buffer_id MSG_CUSTOM ctx)) (\<lambda>ctx1.
         bindF (Some (send_message E p buffer_id (set_ctx p ctx1 w))) (\<lambda>(wr, w1).
           spin_till_completion n tick p wr w1))))"

definition IBV_WRAPPER_SEND_MSG_ASYNC ::
  "env \<Rightarrow> int \<Rightarrow> int \<Rightarrow> int \<Rightarrow> world \<Rightarrow> (u32 \<times> world) res" where
  "IBV_WRAPPER_SEND_MSG_ASYNC E sock buffer_id solicit w =
     bindR (sock_ctx sock w) (\<lambda>(p, ctx).
     bindR (set_msg_id buffer_id MSG_CUSTOM ctx) (\<lambda>ctx1. send_message E p buffer_id (set_ctx p ctx1 w)))"

definition IBV_RECEIVE_MSG :: "int \<Rightarrow> int \<Rightarrow> world \<Rightarrow> world res" where
  "IBV_RECEIVE_MSG sock buffer w = bindR (get_connection sock w) (\<lambda>p. receive_message p buffer w)"

section \<open>Pending responses\<close>

text \<open>A response record holds its identifier and a ready flag.\<close>

definition register_pending :: "nat \<Rightarrow> u32 \<Rightarrow> world \<Rightarrow> world res" where
  "register_pending p app w =
     bindR (ctx_of p w) (\<lambda>ctx.
       let (rec, w1) = fresh w
       in bindR (qp_of p w1) (\<lambda>_.
          bindR (HASH_ADD hash_u32 rec app 0 (pendings ctx)) (\<lambda>t.
            Inr (set_ctx p (ctx\<lparr>pendings := t\<rparr>) w1))))"

text \<open>The message reads the record before the null check.\<close>

definition remove_pending :: "nat \<Rightarrow> (u32, int) UT_hash_handle option \<Rightarrow> world \<Rightarrow> world res" where
  "remove_pending p r w =
     bindR (ctx_of p w) (\<lambda>ctx.
     bindR (deref r) (\<lambda>h.
     bindR (qp_of p w) (\<lambda>_.
     bindR (HASH_DELETE (elmt h) (pendings ctx)) (\<lambda>t. Inr (set_ctx p (ctx\<lparr>pendings := t\<rparr>) w)))))"

section \<open>Waits\<close>

definition on_conn :: "int \<Rightarrow> world \<Rightarrow> (nat \<Rightarrow> world run) \<Rightarrow> world run" where
  "on_conn sock w f = bindF (Some (get_connection sock w)) f"

definition IBV_AWAIT_RESPONSE ::
  "nat \<Rightarrow> (world \<Rightarrow> world) \<Rightarrow> env \<Rightarrow> int \<Rightarrow> u32 \<Rightarrow> world \<Rightarrow> world run" where
  "IBV_AWAIT_RESPONSE n tick E sock app w = on_conn sock w (\<lambda>p. spin_till_response n tick E p app w)"

definition IBV_AWAIT_RESPONSE_NOTIFY ::
  "nat \<Rightarrow> (world \<Rightarrow> world) \<Rightarrow> env \<Rightarrow> int \<Rightarrow> u32 \<Rightarrow> world \<Rightarrow> world run" where
  "IBV_AWAIT_RESPONSE_NOTIFY n tick E sock app w =
     on_conn sock w (\<lambda>p. block_till_response n tick E p app w)"

definition IBV_AWAIT_WORK_COMPLETION ::
  "nat \<Rightarrow> (world \<Rightarrow> world) \<Rightarrow> int \<Rightarrow> u32 \<Rightarrow> world \<Rightarrow> world run" where
  "IBV_AWAIT_WORK_COMPLETION n tick sock wr w =
     on_conn sock w (\<lambda>p. spin_till_completion n tick p wr w)"

definition IBV_AWAIT_WORK_COMPLETION_NOTIFY ::
  "nat \<Rightarrow> (world \<Rightarrow> world) \<Rightarrow> env \<Rightarrow> int \<Rightarrow> u32 \<Rightarrow> world \<Rightarrow> world run" where
  "IBV_AWAIT_WORK_COMPLETION_NOTIFY n tick E sock wr w =
     on_conn sock w (\<lambda>p. block_till_completion n tick E p wr w)"

definition IBV_AWAIT_PENDING_WORK_COMPLETIONS ::
  "nat \<Rightarrow> (world \<Rightarrow> world) \<Rightarrow> int \<Rightarrow> world \<Rightarrow> world run" where
  "IBV_AWAIT_PENDING_WORK_COMPLETIONS n tick sock w =
     bindF (Some (sock_ctx sock w)) (\<lambda>(p, ctx). spin_till_completion n tick p (last_send ctx) w)"

end
