(* ===== verification/Exp_Verbs.thy ===== *)
theory Exp_Verbs
  imports Rdma_Ops
begin

text \<open>
  The experimental verbs of \<open>src/rdma/verbs.c\<close>: calculations on the way to memory, and the
  cross-channel requests with which one queue waits for, and enables, the work of another. The
  driver is not the modified one.
\<close>

section \<open>Posting\<close>

definition exp_post_or_die :: "string \<Rightarrow> env \<Rightarrow> nat \<Rightarrow> send_wr \<Rightarrow> world \<Rightarrow> (u32 \<times> world) res" where
  "exp_post_or_die msg E p wr w =
     bindR (ctx_of p w) (\<lambda>ctx.
     bindR (cm_id_at (ctx_id ctx) w) (\<lambda>i.
     bindR (ibv_exp_post_send_wrapper E p (cm_qp i) [wr] w) (\<lambda>(ret, w1).
       if ret \<noteq> 0 then Inl (Die msg) else Inr (ucast (wr_id wr), w1))))"

text \<open>Both connections of a cross-channel request; they may be the same.\<close>

definition two_socks :: "int \<Rightarrow> int \<Rightarrow> world \<Rightarrow> (nat \<times> conn_context \<times> nat \<times> conn_context) res" where
  "two_socks msock sock w =
     bindR (sock_ctx msock w) (\<lambda>(mp, mctx).
     bindR (sock_ctx sock w) (\<lambda>(p, ctx). Inr (mp, mctx, p, ctx)))"

section \<open>Calculations\<close>

definition IBV_CALC_OP_ASYNC ::
  "env \<Rightarrow> int \<Rightarrow> rdma_metadata \<Rightarrow> int \<Rightarrow> int \<Rightarrow> int \<Rightarrow> world \<Rightarrow> (u32 \<times> world) res" where
  "IBV_CALC_OP_ASYNC E sock md local_id remote_id opcode w =
     bindR (sock_ctx sock w) (\<lambda>(p, ctx).
     bindR (read_int (local_mr ctx) local_id) (\<lambda>_.
     bindR (read_int (remote_mr ctx) remote_id) (\<lambda>_.
     bindR (set_lkeys ctx local_id (md_sge_count md) (md_sge_entries md)) (\<lambda>es.
       let (n, ctx1) = next_wr_id ctx 1
       in bindR (remote_region remote_id ctx1) (\<lambda>r.
            let sr = zero_wr\<lparr>wr_id := ucast n, exp_opcode := IBV_EXP_WR_RDMA_WRITE,
                       sg_list := Some es, num_sge := md_sge_count md,
                       rdma_remote_addr := md_addr md, rdma_rkey := mr_rkey r,
                       send_flags := IBV_SEND_SIGNALED (abi E) OR IBV_EXP_SEND_WITH_CALC (abi E),
                       calc_op := opcode\<rparr>
            in bindR (qp_of (ctx_id ctx1) w) (\<lambda>_.
                 exp_post_or_die ''failed to post rdma operation'' E p sr
                   (set_ctx p (ctx1\<lparr>n_posted_ops := n_posted_ops ctx1 + 1\<rparr>) w)))))))"

definition IBV_CALC_OP_SYNC ::
  "nat \<Rightarrow> (world \<Rightarrow> world) \<Rightarrow> env \<Rightarrow> int \<Rightarrow> rdma_metadata \<Rightarrow> int \<Rightarrow> int \<Rightarrow> int \<Rightarrow> world \<Rightarrow> world run" where
  "IBV_CALC_OP_SYNC n tick E sock md l r opcode w =
     then_spin n tick sock (IBV_CALC_OP_ASYNC E sock md l r opcode w)"

section \<open>Waiting on another queue\<close>

definition wait_wr :: "u32 \<Rightarrow> nat \<Rightarrow> u32 \<Rightarrow> u64 \<Rightarrow> send_wr" where
  "wait_wr n q cnt fl = zero_wr\<lparr>wr_id := ucast n, exp_opcode := IBV_EXP_WR_CQE_WAIT,
     cqe_wait_cq := q, cqe_wait_count := cnt, send_flags := fl\<rparr>"

definition IBV_WAIT :: "env \<Rightarrow> int \<Rightarrow> int \<Rightarrow> world \<Rightarrow> (u32 \<times> world) res" where
  "IBV_WAIT E msock sock w =
     bindR (two_socks msock sock w) (\<lambda>(mp, mctx, p, ctx).
       let (n, mctx1) = next_wr_id mctx 1
       in exp_post_or_die ''failed to post rdma wr'' E mp (wait_wr n (cq ctx) (n_posted_ops ctx) 0)
            (set_ctx mp mctx1 w))"

definition IBV_WAIT_TILL :: "env \<Rightarrow> int \<Rightarrow> int \<Rightarrow> u32 \<Rightarrow> world \<Rightarrow> (u32 \<times> world) res" where
  "IBV_WAIT_TILL E msock sock cnt w =
     bindR (two_socks msock sock w) (\<lambda>(mp, mctx, p, ctx).
       let (n, mctx1) = next_wr_id mctx 1
       in exp_post_or_die ''failed to post rdma wr'' E mp
            (wait_wr n (cq ctx) (n_posted_ops ctx + cnt) (IBV_EXP_SEND_WAIT_EN_LAST (abi E)))
            (set_ctx mp mctx1 w))"

definition IBV_WAIT_EXPLICIT :: "env \<Rightarrow> int \<Rightarrow> int \<Rightarrow> u32 \<Rightarrow> world \<Rightarrow> (u32 \<times> world) res" where
  "IBV_WAIT_EXPLICIT E msock sock cnt w =
     bindR (two_socks msock sock w) (\<lambda>(mp, mctx, p, ctx).
       let (n, mctx1) = next_wr_id mctx 1
       in exp_post_or_die ''failed to post rdma wr'' E mp
            (wait_wr n (cq ctx) cnt (IBV_EXP_SEND_WAIT_EN_LAST (abi E))) (set_ctx mp mctx1 w))"

text \<open>Requests handed to the caller. The send request keeps the address of a scatter entry of the
  function's own frame, which is gone when it returns: \<open>sg_list\<close> is the entry as it was.\<close>

definition ibv_create_exp_wait_wr ::
  "env \<Rightarrow> int \<Rightarrow> int \<Rightarrow> int \<Rightarrow> int \<Rightarrow> world \<Rightarrow> (send_wr \<times> world) res" where
  "ibv_create_exp_wait_wr E sendQ listenQ n_wait is_last w =
     bindR (two_socks sendQ listenQ w) (\<lambda>(sp, sctx, lp, lctx).
       let (n, sctx1) = next_wr_id sctx 1
       in Inr (wait_wr n (cq lctx) (if n_wait \<noteq> 0 then of_int n_wait else n_posted_ops lctx)
                 (if is_last \<noteq> 0 then IBV_EXP_SEND_WAIT_EN_LAST (abi E) else 0),
               set_ctx sp sctx1 w))"

definition ibv_create_exp_send_wr ::
  "env \<Rightarrow> (world \<Rightarrow> world) \<Rightarrow> int \<Rightarrow> wr_opcode \<Rightarrow> int \<Rightarrow> int \<Rightarrow> u64 \<Rightarrow> world \<Rightarrow> (send_wr \<times> world) res" where
  "ibv_create_exp_send_wr E tick sendQ opcode local remote len w =
     bindR (get_connection sendQ w) (\<lambda>p.
     bindR (ctx_of p w) (\<lambda>_.
     bindR (mr_local_addr tick sendQ local w) (\<lambda>(a, w1).
     bindR (mr_local_key tick sendQ local w1) (\<lambda>(k, w2).
     bindR (ctx_of p w2) (\<lambda>sctx.
       let (n, sctx1) = next_wr_id sctx 1
       in bindR (mr_remote_addr tick sendQ remote (set_ctx p sctx1 w2)) (\<lambda>(ra, w3).
          bindR (mr_remote_key tick sendQ remote w3) (\<lambda>(rk, w4).
            Inr (zero_wr\<lparr>wr_id := ucast n, sg_list := Some [\<lparr>sg_addr = a, sg_length = ucast len,
                   sg_lkey = ucast k\<rparr>], num_sge := 1, exp_opcode := opcode, rdma_remote_addr := ra,
                   rdma_rkey := ucast rk, send_flags := IBV_SEND_SIGNALED (abi E)\<rparr>, w4))))))))"

section \<open>Enabling another queue\<close>

definition enable_wr :: "u32 \<Rightarrow> ibv_qp option \<Rightarrow> u32 \<Rightarrow> u64 \<Rightarrow> send_wr" where
  "enable_wr n qp cnt fl = zero_wr\<lparr>wr_id := ucast n, exp_opcode := IBV_EXP_WR_SEND_ENABLE,
     wqe_enable_qp := qp, wqe_enable_count := cnt, send_flags := fl\<rparr>"

definition IBV_TRIGGER :: "env \<Rightarrow> int \<Rightarrow> int \<Rightarrow> int \<Rightarrow> world \<Rightarrow> (u32 \<times> world) res" where
  "IBV_TRIGGER E msock sock cnt w =
     bindR (two_socks msock sock w) (\<lambda>(mp, mctx, p, ctx).
     bindR (cm_id_at (ctx_id ctx) w) (\<lambda>i.
       let (n, mctx1) = next_wr_id mctx 1
       in exp_post_or_die ''failed to post rdma wr'' E mp
            (enable_wr n (cm_qp i) (of_int cnt) (IBV_EXP_SEND_WAIT_EN_LAST (abi E)))
            (set_ctx mp mctx1 w)))"

text \<open>The count is patched into the entry after it was posted, through the address the search by
  identifier gives.\<close>

definition IBV_TRIGGER_EXPLICIT :: "env \<Rightarrow> int \<Rightarrow> int \<Rightarrow> int \<Rightarrow> world \<Rightarrow> (u32 \<times> world) res" where
  "IBV_TRIGGER_EXPLICIT E msock sock cnt w =
     bindR (two_socks msock sock w) (\<lambda>(mp, mctx, p, ctx).
     bindR (cm_id_at (ctx_id ctx) w) (\<lambda>i.
       let (n, mctx1) = next_wr_id mctx 1
       in bindR (exp_post_or_die ''failed to post rdma wr'' E mp (enable_wr n (cm_qp i) 0 0)
                   (set_ctx mp mctx1 w)) (\<lambda>(wr, w1).
          bindR (IBV_FIND_WQE msock wr w1) (\<lambda>sr_ctrl.
          bindR (store32 (sr_ctrl + 16 + 8) (htonl (of_int cnt)) (mem w1)) (\<lambda>m.
            Inr (wr, w1\<lparr>mem := m\<rparr>))))))"

text \<open>The chain of a task: an enable, then pairs of a wait and an enable, with consecutive
  identifiers.\<close>

fun trigger_chain ::
  "env \<Rightarrow> nat \<Rightarrow> nat \<Rightarrow> ibv_qp option \<Rightarrow> u32 \<Rightarrow> conn_context \<Rightarrow> send_wr list \<times> conn_context" where
  "trigger_chain E 0 q qp nwait mctx = ([], mctx)"
| "trigger_chain E (Suc k) q qp nwait mctx =
     (let (n1, c1) = next_wr_id mctx 1;
          (n2, c2) = next_wr_id c1 1;
          fl = IBV_EXP_SEND_WAIT_EN_LAST (abi E);
          (wrs, c3) = trigger_chain E k q qp nwait c2
      in (wait_wr n1 q nwait fl # enable_wr n2 qp nwait fl # wrs, c3))"

definition IBV_SET_TRIGGER :: "env \<Rightarrow> int \<Rightarrow> int \<Rightarrow> int \<Rightarrow> int \<Rightarrow> world \<Rightarrow> world res" where
  "IBV_SET_TRIGGER E msock sock nops nwait w =
     bindR (two_socks msock sock w) (\<lambda>(mp, mctx, p, ctx).
     bindR (cm_id_at (ctx_id mctx) w) (\<lambda>mi.
     bindR (cm_id_at (ctx_id ctx) w) (\<lambda>i.
       if 2 * nops - 1 \<le> 0 then Inl (Fault OutOfBounds)
       else
         let (n0, c0) = next_wr_id mctx 1;
             first = enable_wr n0 (cm_qp i) (of_int nwait) (IBV_EXP_SEND_WAIT_EN_LAST (abi E));
             (rest, c1) = trigger_chain E (nat (nops - 1)) (cq ctx) (cm_qp i) (of_int nwait) c0;
             w1 = set_ctx mp c1 w
         in bindR (rc_get_context (devid ctx) w1) (\<lambda>dev.
              let (ret, w2) = call (IbvExpPostTask dev (cm_qp mi) (first # rest)) (ans_post_task E) w1
              in if ret \<noteq> 0 then Inl (Die ''failed to post rdma task'') else Inr w2))))"

end
