(* ===== verification/Agent.thy ===== *)
theory Agent
  imports Exp_Verbs
begin

text \<open>
  \<open>src/rdma/agent.c\<close> and the event loop of \<open>src/rdma/connection.c\<close>: initialisation, new client
  connections, the callbacks, and the reaction to every event of the connection manager.
\<close>

section \<open>Callbacks\<close>

definition on_pre_conn :: "env \<Rightarrow> nat \<Rightarrow> world \<Rightarrow> world res" where
  "on_pre_conn E p w = bindR (cm_id_at p w) (\<lambda>_. mr_register E p (mrs w) (num_mrs w) (msg_size w) w)"

definition on_connection :: "nat \<Rightarrow> world \<Rightarrow> world res" where
  "on_connection p w =
     bindR (ctx_of p w) (\<lambda>ctx.
     bindR (qp_of p w) (\<lambda>_.
       if app_callbacks w then Inr (emit (AppConnect (sockfd ctx)) w) else Inl (Fault NullDeref)))"

definition on_disconnect :: "nat \<Rightarrow> world \<Rightarrow> world res" where
  "on_disconnect p w =
     bindR (ctx_of p w) (\<lambda>ctx.
       if app_callbacks w then Inr (emit (AppDisconnect (sockfd ctx)) w) else Inl (Fault NullDeref))"

definition run_callback :: "env \<Rightarrow> callback option \<Rightarrow> nat \<Rightarrow> world \<Rightarrow> world res" where
  "run_callback E cb p w =
     (case cb of
        None \<Rightarrow> Inr w
      | Some ON_PRE_CONN \<Rightarrow> on_pre_conn E p w
      | Some ON_CONNECTION \<Rightarrow> on_connection p w
      | Some ON_DISCONNECT \<Rightarrow> on_disconnect p w
      | Some ON_COMPLETION \<Rightarrow> Inl (Fault BadAddress))"

section \<open>The event loop\<close>

text \<open>What the loop does after an event.\<close>

datatype loop_step = Continue | Break

definition handle_event :: "env \<Rightarrow> bool \<Rightarrow> bool \<Rightarrow> cm_event \<Rightarrow> world \<Rightarrow> (loop_step \<times> world) res" where
  "handle_event E exit_on_connect exit_on_disconnect ev w =
     (let p = ev_id ev; go = (\<lambda>w. Inr (Continue, w))
      in case ev_type ev of
           RDMA_CM_EVENT_ADDR_RESOLVED \<Rightarrow> go (emit (RdmaResolveRoute p 500) w)
         | RDMA_CM_EVENT_ROUTE_RESOLVED \<Rightarrow>
             bindR (setup_connection E p None w) (\<lambda>w1.
             bindR (run_callback E (s_on_pre_conn_cb w1) p w1) (\<lambda>w2.
             bindR (build_rc_params p w2) (\<lambda>params.
               let (r, w3) = call (RdmaConnect p params) (ans_connect E) w2
               in if r \<noteq> 0 then Inl (Die ''failed to connect'') else go w3)))
         | RDMA_CM_EVENT_CONNECT_REQUEST \<Rightarrow>
             bindR (init_connection p (-1) 1 0 w) (\<lambda>(_, w1).
             bindR (setup_connection E p (Some (ev_param ev)) w1) (\<lambda>w2.
             bindR (run_callback E (s_on_pre_conn_cb w2) p w2) (\<lambda>w3.
             bindR (build_rc_params p w3) (\<lambda>params. go (emit (RdmaAccept p params) w3)))))
         | RDMA_CM_EVENT_ESTABLISHED \<Rightarrow>
             bindR (finalize_connection p (Some (ev_param ev)) w) (\<lambda>w1.
             bindR (run_callback E (s_on_connect_cb w1) p w1) (\<lambda>w2.
               Inr (if exit_on_connect then Break else Continue, w2)))
         | RDMA_CM_EVENT_DISCONNECTED \<Rightarrow>
             bindR (run_callback E (s_on_disconnect_cb w) p w) (\<lambda>w1.
             bindR (rc_disconnect p w1) (\<lambda>w2.
               if exit_on_disconnect then bindR (rc_clear p w2) (\<lambda>w3. Inr (Break, w3)) else go w2))
         | RDMA_CM_EVENT_REJECTED \<Rightarrow> Inl (Die ''Connection failure. Exiting..'')
         | RDMA_CM_EVENT_TIMEWAIT_EXIT \<Rightarrow> bindR (rc_clear p w) go
         | RDMA_CM_EVENT_OTHER \<Rightarrow> Inl (Die ''Unhandled event. Exiting..''))"

text \<open>The loop ends when no event can be had, or on the event it was told to stop at. A new
  connection request brings a fresh \<open>rdma_cm_id\<close>, \<open>arrive\<close> adds it.\<close>

fun rdma_event_loop ::
  "nat \<Rightarrow> (cm_event \<Rightarrow> world \<Rightarrow> world) \<Rightarrow> env \<Rightarrow> bool \<Rightarrow> bool \<Rightarrow> world \<Rightarrow> world run" where
  "rdma_event_loop 0 arrive E on_conn_exit on_disc_exit w = None"
| "rdma_event_loop (Suc n) arrive E on_conn_exit on_disc_exit w =
     (let (r, w1) = call RdmaGetCmEvent (ans_cm_event E) w
      in case r of
           None \<Rightarrow> Some (Inr w1)
         | Some ev \<Rightarrow>
             bindF (Some (handle_event E on_conn_exit on_disc_exit ev (emit RdmaAckCmEvent (arrive ev w1)))) (\<lambda>(s, w2).
               case s of Break \<Rightarrow> Some (Inr w2) | Continue \<Rightarrow> rdma_event_loop n arrive E on_conn_exit on_disc_exit w2))"

definition client_loop ::
  "nat \<Rightarrow> (cm_event \<Rightarrow> world \<Rightarrow> world) \<Rightarrow> env \<Rightarrow> world \<Rightarrow> world run" where
  "client_loop n arrive E w =
     bindF (rdma_event_loop n arrive E False True w) (\<lambda>w1.
       Some (Inr (emit (RdmaDestroyEventChannel (ec w1)) w1)))"

section \<open>Initialisation\<close>

text \<open>The thread that runs the event loop is an event; a second call does nothing.\<close>

definition init_rdma_agent ::
  "env \<Rightarrow> mr_context list \<Rightarrow> int \<Rightarrow> u16 \<Rightarrow> bool \<Rightarrow> bool \<Rightarrow> world \<Rightarrow> world res" where
  "init_rdma_agent E regions region_count buffer_size is_client callbacks w =
     (if rdma_initialized w \<noteq> 0 then Inr w
      else if region_count > MAX_MR then Inl (Die ''region count is greater than MAX_MR'')
      else
        let w1 = w\<lparr>mrs := regions, num_mrs := region_count, msg_size := int (unat buffer_size),
                   app_callbacks := callbacks\<rparr>;
            w2 = rc_init (Some ON_PRE_CONN) (Some ON_CONNECTION) (Some ON_COMPLETION)
                   (Some ON_DISCONNECT) w1;
            (ch, w3) = call RdmaCreateEventChannel (ans_event_channel E) w2
        in if ch = 0 then Inl (Die ''failed to create event channel'')
           else Inr ((emit (PthreadCreate 0) (w3\<lparr>ec := ch\<rparr>))\<lparr>rdma_initialized := 1\<rparr>))"

text \<open>A client connection: the address is resolved later, by the event loop.\<close>

definition add_connection ::
  "env \<Rightarrow> string \<Rightarrow> string \<Rightarrow> int \<Rightarrow> int \<Rightarrow> u32 \<Rightarrow> world \<Rightarrow> (int \<times> world) res" where
  "add_connection E ip port type polling fl w =
     (if rdma_initialized w = 0 then
        Inl (Die ''can't add connection; client must be initialized first'')
      else
        let w1 = emit RdmaCreateEventChannel (emit (GetAddrInfo ip port) w);
            ((p, i), w2) = call (RdmaCreateId (ec w1)) (ans_create_id E) w1;
            w3 = emit (RdmaResolveAddr p ip port) (set_cm_id p i w2)
        in init_connection p type polling fl w3)"

end
