(* ===== verification/Conn_Inv.thy ===== *)
theory Conn_Inv
  imports Agent
begin

text \<open>
  The invariant of the connection table and its preservation. \<open>keeps w w'\<close> is the frame of the
  operations on existing connections: the table, the identities of the connections and the settings
  stay; every operation that creates or clears no connection is within it.
\<close>

named_theorems keeps_intros \<open>what stays within the frame\<close>

section \<open>The invariant\<close>

text \<open>What no operation changes of a connection: its socket, the pointer it keeps to its own
  \<open>rdma_cm_id\<close>, and the place of its send queue.\<close>

definition who :: "conn_context \<Rightarrow> int \<times> nat \<times> nat \<times> u64" where
  "who c = (sockfd c, ctx_id c, sq_start c, sq_wqe_cnt c)"

declare who_def [simp]

definition conn_who :: "world \<Rightarrow> nat \<Rightarrow> (int \<times> nat \<times> nat \<times> u64) option" where
  "conn_who w p = (case ctx_of p w of Inl _ \<Rightarrow> None | Inr c \<Rightarrow> Some (who c))"

definition conn_ident :: "world \<Rightarrow> nat \<Rightarrow> (int \<times> nat) option" where
  "conn_ident w p = (case ctx_of p w of Inl _ \<Rightarrow> None | Inr c \<Rightarrow> Some (sockfd c, ctx_id c))"

text \<open>The table is exact: every open socket leads to a connection that knows its socket, and every
  connection is found at its socket.\<close>

definition slots_exact :: "world \<Rightarrow> int list \<Rightarrow> nat list \<Rightarrow> bool" where
  "slots_exact w bm ids \<longleftrightarrow>
     (\<forall>i < nat MAX_CONNECTIONS. bm ! i \<noteq> 0 \<longrightarrow> conn_ident w (ids ! i) = Some (int i, ids ! i)) \<and>
     (\<forall>p s q. conn_ident w p = Some (s, q) \<longrightarrow>
        q = p \<and> 0 \<le> s \<and> s < MAX_CONNECTIONS \<and> bm ! nat s \<noteq> 0 \<and> ids ! nat s = p)"

definition conn_inv :: "world \<Rightarrow> bool" where
  "conn_inv w =
     (case (s_conn_bitmap w, s_conn_ids w) of
        (Some bm, Some ids) \<Rightarrow>
          length bm = nat MAX_CONNECTIONS \<and> length ids = nat MAX_CONNECTIONS \<and> set bm \<subseteq> {0, 1} \<and>
          slots_exact w bm ids
      | _ \<Rightarrow> False)"

text \<open>The abstract table: the connection at every socket.\<close>

definition slots :: "world \<Rightarrow> nat option list" where
  "slots w = (case (s_conn_bitmap w, s_conn_ids w) of
     (Some bm, Some ids) \<Rightarrow> map2 (\<lambda>b p. if b \<noteq> 0 then Some p else None) bm ids | _ \<Rightarrow> [])"

lemma conn_ident_eq: "conn_ident w p = Some (s, q) \<longleftrightarrow> (\<exists>c. ctx_of p w = Inr c \<and> sockfd c = s \<and> ctx_id c = q)"
  by (auto simp: conn_ident_def split: sum.splits)

lemma conn_ident_who: "conn_ident w p = map_option (\<lambda>(s, q, _). (s, q)) (conn_who w p)"
  by (simp add: conn_ident_def conn_who_def who_def split: sum.splits)

lemma conn_ident_cong: "conn_who w' = conn_who w \<Longrightarrow> conn_ident w' = conn_ident w"
  by (simp add: fun_eq_iff conn_ident_who)

lemma conn_ident_ctx: "ctx_of p w = Inr c \<Longrightarrow> conn_ident w p = Some (sockfd c, ctx_id c)"
  by (simp add: conn_ident_def)

lemma conn_ident_None: "conn_ident w p = None \<longleftrightarrow> (\<forall>c. ctx_of p w \<noteq> Inr c)"
  by (auto simp: conn_ident_def split: sum.splits)

lemma conn_ident_nonzero: "conn_ident w p = Some x \<Longrightarrow> p \<noteq> 0"
  by (cases x) (auto simp: conn_ident_eq ctx_of_eq_Inr)

lemma conn_invE:
  assumes "conn_inv w"
  obtains bm ids where "s_conn_bitmap w = Some bm" "s_conn_ids w = Some ids"
    "length bm = 1000" "length ids = 1000" "set bm \<subseteq> {0, 1}" "slots_exact w bm ids"
  using assms
  by (cases "s_conn_bitmap w"; cases "s_conn_ids w") (auto simp: conn_inv_def MAX_CONNECTIONS_def)

lemma conn_invI:
  assumes "s_conn_bitmap w = Some bm" "s_conn_ids w = Some ids"
    "length bm = 1000" "length ids = 1000" "set bm \<subseteq> {0, 1}" "slots_exact w bm ids"
  shows "conn_inv w"
  using assms by (simp add: conn_inv_def MAX_CONNECTIONS_def)

lemma slots_exactD:
  assumes "slots_exact w bm ids"
  shows "i < 1000 \<Longrightarrow> bm ! i \<noteq> 0 \<Longrightarrow> conn_ident w (ids ! i) = Some (int i, ids ! i)"
    and "conn_ident w p = Some (s, q) \<Longrightarrow> q = p \<and> 0 \<le> s \<and> s < 1000 \<and> bm ! nat s \<noteq> 0 \<and> ids ! nat s = p"
  using assms by (auto simp: slots_exact_def MAX_CONNECTIONS_def)

lemma conn_inv_rc_init:
  assumes "\<And>p. conn_ident w p = None"
  shows "conn_inv (rc_init a b c d w)"
proof -
  have "conn_ident (rc_init a b c d w) p = None" for p
    using assms [of p] by (simp add: rc_init_def conn_ident_None ctx_of_eq_Inr)
  then show ?thesis
    by (intro conn_invI [of _ "replicate 1000 0" "replicate 1000 0"])
      (simp_all add: rc_init_def slots_exact_def MAX_CONNECTIONS_def)
qed

section \<open>The socket lookup\<close>

lemma length_slots [simp]: "conn_inv w \<Longrightarrow> length (slots w) = 1000"
  by (erule conn_invE) (simp add: slots_def)

lemma nth_slots:
  assumes "s_conn_bitmap w = Some bm" "s_conn_ids w = Some ids" "i < length bm" "i < length ids"
  shows "slots w ! i = (if bm ! i \<noteq> 0 then Some (ids ! i) else None)"
  using assms by (simp add: slots_def)

text \<open>The table and the connections determine each other.\<close>

lemma slots_ident:
  assumes "conn_inv w" and "i < 1000"
  shows "slots w ! i = Some p \<longleftrightarrow> conn_ident w p = Some (int i, p)"
proof -
  obtain bm ids where "s_conn_bitmap w = Some bm" "s_conn_ids w = Some ids"
    "length bm = 1000" "length ids = 1000" "slots_exact w bm ids"
    using assms(1) by (rule conn_invE)
  then show ?thesis
    using assms(2) slots_exactD [of w bm ids] by (fastforce simp: nth_slots)
qed

lemma ident_slots:
  assumes "conn_inv w" and "conn_ident w p = Some (s, q)"
  shows "q = p" "0 \<le> s" "s < 1000" "slots w ! nat s = Some p"
proof -
  obtain bm ids where "slots_exact w bm ids" using assms(1) by (rule conn_invE)
  then show "q = p" "0 \<le> s" "s < 1000" using slots_exactD(2) assms(2) by blast+
  then show "slots w ! nat s = Some p" using assms slots_ident [OF assms(1), of "nat s" p] by simp
qed

lemma get_connection_slots:
  assumes "conn_inv w" and "0 \<le> s" and "s < 1000"
  shows "get_connection s w = Inr (case slots w ! nat s of None \<Rightarrow> 0 | Some p \<Rightarrow> p)"
proof -
  obtain bm ids where "s_conn_bitmap w = Some bm" "s_conn_ids w = Some ids"
    "length bm = 1000" "length ids = 1000"
    using assms(1) by (rule conn_invE)
  then show ?thesis
    using assms(2,3) by (auto simp: get_connection_def MAX_CONNECTIONS_def nth_slots)
qed

text \<open>An open socket leads to its own connection, and no two sockets to the same one.\<close>

lemma sock_ctx_open:
  assumes "conn_inv w" and "i < 1000" and "slots w ! i = Some p"
  shows "\<exists>c. sock_ctx (int i) w = Inr (p, c) \<and> sockfd c = int i \<and> ctx_id c = p"
  using assms slots_ident [OF assms(1,2), of p] get_connection_slots [OF assms(1), of "int i"]
  by (auto simp: sock_ctx_def conn_ident_eq)

lemma slots_distinct:
  assumes "conn_inv w" and "i < 1000" and "j < 1000"
    and "slots w ! i = Some p" and "slots w ! j = Some p"
  shows "i = j"
  using assms slots_ident [OF assms(1)] by auto

section \<open>The frame\<close>

definition keeps :: "world \<Rightarrow> world \<Rightarrow> bool" where
  "keeps w w' \<longleftrightarrow>
     s_conn_bitmap w' = s_conn_bitmap w \<and> s_conn_ids w' = s_conn_ids w \<and>
     s_on_completion_cb w' = s_on_completion_cb w \<and> app_callbacks w' = app_callbacks w \<and>
     num_mrs w' = num_mrs w \<and> mrs w' = mrs w \<and> msg_size w' = msg_size w \<and>
     heap_next w \<le> heap_next w' \<and> conn_who w' = conn_who w \<and> dom (cm_ids w') = dom (cm_ids w)"

lemma keeps_refl [simp, intro, keeps_intros]: "keeps w w"
  by (simp add: keeps_def)

lemma keeps_trans [trans]: "keeps w w1 \<Longrightarrow> keeps w1 w2 \<Longrightarrow> keeps w w2"
  by (simp add: keeps_def)

lemma who_set_ctx:
  assumes "ctx_of p w = Inr c" and "who c' = who c"
  shows "conn_who (set_ctx p c' w) = conn_who w"
proof
  fix q
  show "conn_who (set_ctx p c' w) q = conn_who w q"
    using assms by (cases "q = p") (auto simp: conn_who_def)
qed

lemma keeps_set_ctx [keeps_intros]:
  assumes "keeps w w1" and "ctx_of p w1 = Inr c" and "who c' = who c"
  shows "keeps w (set_ctx p c' w1)"
proof -
  have "dom (cm_ids (set_ctx p c' w1)) = dom (cm_ids w1)"
    by (auto simp: set_ctx_def split: option.splits)
  then show ?thesis
    using assms by (simp add: keeps_def frame_simps who_set_ctx)
qed

lemma who_frame [simp, frame_simps]:
  "conn_who (w\<lparr>trace := t\<rparr>) = conn_who w" "conn_who (w\<lparr>mem := m\<rparr>) = conn_who w"
  "conn_who (w\<lparr>s_ctx := s\<rparr>) = conn_who w" "conn_who (w\<lparr>mr_regions := r\<rparr>) = conn_who w"
  "conn_who (w\<lparr>heap_next := n\<rparr>) = conn_who w" "conn_who (emit e w) = conn_who w"
  "conn_who (w\<lparr>s_conn_bitmap := b\<rparr>) = conn_who w" "conn_who (w\<lparr>s_conn_ids := d\<rparr>) = conn_who w"
  by (simp_all add: conn_who_def fun_eq_iff emit_def)

lemma ident_frame [simp, frame_simps]:
  "conn_ident (w\<lparr>trace := t\<rparr>) = conn_ident w" "conn_ident (emit e w) = conn_ident w"
  "conn_ident (w\<lparr>s_conn_bitmap := b\<rparr>) = conn_ident w" "conn_ident (w\<lparr>s_conn_ids := d\<rparr>) = conn_ident w"
  by (rule conn_ident_cong; simp)+

lemma keeps_frame [keeps_intros]:
  "keeps w w1 \<Longrightarrow> keeps w (w1\<lparr>trace := t\<rparr>)" "keeps w w1 \<Longrightarrow> keeps w (w1\<lparr>mem := m\<rparr>)"
  "keeps w w1 \<Longrightarrow> keeps w (w1\<lparr>s_ctx := s\<rparr>)" "keeps w w1 \<Longrightarrow> keeps w (w1\<lparr>mr_regions := r\<rparr>)"
  by (simp_all add: keeps_def)

lemma keeps_emit [keeps_intros]: "keeps w w1 \<Longrightarrow> keeps w (emit e w1)"
  by (simp add: emit_def keeps_frame)

lemma keeps_fresh [keeps_intros]: "keeps w w1 \<Longrightarrow> keeps w (w1\<lparr>heap_next := Suc (heap_next w1)\<rparr>)"
  by (simp add: keeps_def)

lemma keeps_call: "call ev f w1 = (r, w2) \<Longrightarrow> keeps w w1 \<Longrightarrow> keeps w w2"
  by (auto simp: call_def keeps_frame)

lemma ctx_of_set_qp [simp]:
  "cm_ids w p = Some i \<Longrightarrow> ctx_of q (set_cm_id p (i\<lparr>cm_qp := x\<rparr>) w) = ctx_of q w"
  by (auto simp: ctx_of_def cm_id_at_def set_cm_id_def)

lemma keeps_set_qp [keeps_intros]:
  assumes "keeps w w1" and "cm_ids w1 p = Some i"
  shows "keeps w (set_cm_id p (i\<lparr>cm_qp := q\<rparr>) w1)"
proof -
  have "conn_who (set_cm_id p (i\<lparr>cm_qp := q\<rparr>) w1) = conn_who w1"
    using assms(2) by (simp add: conn_who_def fun_eq_iff)
  then show ?thesis
    using assms by (auto simp: keeps_def set_cm_id_def)
qed

lemma slots_exact_cong: "conn_ident w' = conn_ident w \<Longrightarrow> slots_exact w' = slots_exact w"
  by (simp add: slots_exact_def fun_eq_iff)

lemma conn_inv_keeps: "keeps w w' \<Longrightarrow> conn_inv w \<Longrightarrow> conn_inv w'"
  using slots_exact_cong [of w' w] conn_ident_cong [of w' w] by (auto simp: conn_inv_def keeps_def split: option.splits)

lemma slots_keeps: "keeps w w' \<Longrightarrow> slots w' = slots w"
  by (simp add: slots_def keeps_def)

section \<open>Every operation on a connection is within the frame\<close>

lemma keeps_foldR:
  assumes "foldR f xs w = Inr w'" and "\<And>x u v. f x u = Inr v \<Longrightarrow> keeps u v"
  shows "keeps w w'"
  using assms(1) foldR_invariant [of f xs w w' "keeps w"] assms(2) keeps_trans by blast

lemma keeps_rc_set_state: "rc_set_state p s w = Inr w' \<Longrightarrow> keeps w w'"
  by (auto simp: rc_set_state_def bindR_eq_Inr Let_def split: if_splits intro!: keeps_intros)

lemma keeps_update_ctx:
  "update_ctx p f w = Inr w' \<Longrightarrow> (\<And>c. who (f c) = who c) \<Longrightarrow> keeps w w'"
  by (auto simp: update_ctx_def bindR_eq_Inr intro!: keeps_intros)

lemma keeps_acquire: "rc_acquire_buffer_at s u w = Inr (i, x, w') \<Longrightarrow> keeps w w'"
  by (auto simp: rc_acquire_buffer_at_def sock_ctx_def bindR_eq_Inr Let_def split: if_splits
      intro!: keeps_intros)

lemma keeps_bind: "rc_bind_buffer p b n w = Inr (i, w') \<Longrightarrow> keeps w w'"
  by (auto simp: rc_bind_buffer_def fresh_def bindR_eq_Inr Let_def intro!: keeps_intros)

lemma keeps_release: "rc_release_buffer s n w = Inr (i, w') \<Longrightarrow> keeps w w'"
  by (auto simp: rc_release_buffer_def bindR_eq_Inr split: option.splits intro!: keeps_intros)

lemma keeps_mr_register_one: "mr_register_one E p ms i w = Inr w' \<Longrightarrow> keeps w w'"
  by (auto simp: mr_register_one_def bindR_eq_Inr call_def Let_def split: if_splits
      intro!: keeps_intros)

lemma keeps_alloc_buffer: "alloc_buffer E p n a w = Inr (b, r, w') \<Longrightarrow> keeps w w'"
  by (auto simp: alloc_buffer_def bindR_eq_Inr call_def Let_def split: option.splits
      intro!: keeps_intros)

lemma keeps_mr_register_buffer: "mr_register_buffer E p n i w = Inr w' \<Longrightarrow> keeps w w'"
  unfolding mr_register_buffer_def
  by (auto simp: bindR_eq_Inr Let_def intro!: keeps_intros dest!: keeps_alloc_buffer
      elim: keeps_trans [rotated])

lemma keeps_mr_register:
  assumes "mr_register E p ms n k w = Inr w'"
  shows "keeps w w'"
proof -
  obtain w1 ctx s where 1: "foldR (mr_register_one E p ms) [0..n - 1] w = Inr w1"
    "ctx_of p w1 = Inr ctx"
    "foldR (mr_register_buffer E p k) [0..<MAX_BUFFER] (set_ctx p (ctx\<lparr>local_mr_to_sync := s\<rparr>) w1) = Inr w'"
    using assms by (auto simp: mr_register_def bindR_eq_Inr)
  have "keeps w w1" by (rule keeps_foldR [OF 1(1) keeps_mr_register_one])
  then have "keeps w (set_ctx p (ctx\<lparr>local_mr_to_sync := s\<rparr>) w1)"
    using 1(2) by (intro keeps_set_ctx) auto
  then show ?thesis by (rule keeps_trans [OF _ keeps_foldR [OF 1(3) keeps_mr_register_buffer]])
qed

lemma keeps_try_build_device: "try_build_device E p w = Inr w' \<Longrightarrow> keeps w w'"
  by (auto simp: try_build_device_def bindR_eq_Inr call_def Let_def split: option.splits if_splits
      intro!: keeps_intros)

lemma keeps_build_cq_channel: "build_cq_channel E p w = Inr w' \<Longrightarrow> keeps w w'"
  by (auto simp: build_cq_channel_def bindR_eq_Inr call_def Let_def split: if_splits
      intro!: keeps_intros)

lemma mr_remote_update_same:
  assumes "mr_remote_update a l k n ctx = Inr ctx'"
  shows "who ctx' = who ctx"
  using assms unfolding mr_remote_update_def
  by (rule foldR_invariant [where P = "\<lambda>c. who c = who ctx"])
    (auto simp: mr_remote_update_one_def bindR_eq_Inr)

lemma keeps_add_id_record: "add_id_record p a q w = Inr w' \<Longrightarrow> keeps w w'"
  by (auto simp: add_id_record_def fresh_def bindR_eq_Inr Let_def intro!: keeps_intros)

lemma keeps_remove_id_record: "remove_id_record q w = Inr w' \<Longrightarrow> keeps w w'"
  by (auto simp: remove_id_record_def bindR_eq_Inr split: option.splits intro!: keeps_intros)

lemma keeps_create_queue_pair:
  assumes "create_queue_pair E p w = Inr w'"
  shows "keeps w w'"
proof -
  obtain ctx pd i qp where 1: "ctx_of p w = Inr ctx" "cm_ids w p = Some i"
    and w': "w' = set_ctx p (ctx\<lparr>iqp := Some (ans_dv_qp E (Suc (length (trace w)))),
        sq_wrid := Some (replicate (unat (sq_cnt (ans_dv_qp E (Suc (length (trace w)))))) 0),
        sq_signal_bits := 0\<rparr>)
      (emit (Mlx5dvInitQp (Some qp)) (set_cm_id p (i\<lparr>cm_qp := Some qp\<rparr>)
        (emit (RdmaCreateQp p pd (build_qp_attr ctx)) w)))"
    using assms
    by (auto simp: create_queue_pair_def bindR_eq_Inr call_def Let_def cm_id_at_eq_Inr emit_def
        set_cm_id_def build_qp_attr_def split: option.splits)
  show ?thesis
    unfolding w' using 1
    by (intro keeps_set_ctx [where c = ctx] keeps_emit keeps_set_qp keeps_refl)
      (simp_all add: ctx_of_set_qp)
qed

lemma bindR_InrE: "bindR m f = Inr y \<Longrightarrow> (\<And>x. m = Inr x \<Longrightarrow> f x = Inr y \<Longrightarrow> P) \<Longrightarrow> P"
  by (auto simp: bindR_eq_Inr)

text \<open>The facts so far as rules that lengthen a frame by one operation.\<close>

lemmas keeps_more =
  keeps_rc_set_state [THEN keeps_trans [rotated]] keeps_acquire [THEN keeps_trans [rotated]]
  keeps_bind [THEN keeps_trans [rotated]] keeps_release [THEN keeps_trans [rotated]]
  keeps_mr_register [THEN keeps_trans [rotated]] keeps_try_build_device [THEN keeps_trans [rotated]]
  keeps_build_cq_channel [THEN keeps_trans [rotated]] keeps_add_id_record [THEN keeps_trans [rotated]]
  keeps_remove_id_record [THEN keeps_trans [rotated]] keeps_create_queue_pair [THEN keeps_trans [rotated]]

lemma keeps_remote_update:
  "mr_remote_update a l k n c = Inr c' \<Longrightarrow> ctx_of p w1 = Inr c \<Longrightarrow> keeps w w1 \<Longrightarrow>
   keeps w (set_ctx p c' w1)"
  "mr_remote_update a l k n (c\<lparr>flags := f, app_type := t\<rparr>) = Inr c' \<Longrightarrow> ctx_of p w1 = Inr c \<Longrightarrow>
   keeps w w1 \<Longrightarrow> keeps w (set_ctx p c' w1)"
  by (auto dest!: mr_remote_update_same intro!: keeps_set_ctx)

lemma keeps_setup_connection: "setup_connection E p ps w = Inr w' \<Longrightarrow> keeps w w'"
  unfolding setup_connection_def
  by (auto elim!: bindR_InrE split: option.splits)
    (erule keeps_more keeps_remote_update(2) | assumption | rule keeps_refl)+

lemma keeps_finalize_connection: "finalize_connection p ps w = Inr w' \<Longrightarrow> keeps w w'"
  unfolding finalize_connection_def
  by (auto elim!: bindR_InrE split: option.splits) (meson keeps_more keeps_refl keeps_remote_update)+

lemma keeps_rc_disconnect: "rc_disconnect p w = Inr w' \<Longrightarrow> keeps w w'"
  unfolding rc_disconnect_def
  by (auto elim!: bindR_InrE split: option.splits intro!: keeps_emit keeps_set_ctx)
    (meson keeps_more keeps_refl)

section \<open>Posting\<close>

named_theorems same_conn \<open>the identity of a connection stays\<close>

lemma next_wr_id_send [simp]:
  "1 \<le> s \<Longrightarrow> next_wr_id c s = (last_send c + 1, c\<lparr>last_send := last_send c + 1\<rparr>)"
  by (simp add: next_wr_id_def)

lemma update_scur_post_same [same_conn]:
  "update_scur_post wr c = Inr c' \<Longrightarrow> who c' = who c"
  by (auto simp: update_scur_post_def Let_def elim!: bindR_InrE)

lemma count_post_same [same_conn]:
  assumes "foldR count_post wrs c = Inr c'"
  shows "who c' = who c"
  using assms
  by (rule foldR_invariant [where P = "\<lambda>d. who d = who c"])
    (auto simp: count_post_def elim!: bindR_InrE)

lemma batch_wr_same [same_conn]:
  "batch_wr E l r op md c = Inr (wr, c') \<Longrightarrow> who c' = who c"
  by (auto simp: batch_wr_def Let_def split: prod.splits elim!: bindR_InrE)

lemma batch_wrs_same [same_conn]:
  "batch_wrs E l r op mds c = Inr (wrs, c') \<Longrightarrow> who c' = who c"
proof (induction mds arbitrary: c wrs)
  case Nil
  then show ?case by simp
next
  case (Cons md mds)
  then show ?case by (auto elim!: bindR_InrE dest!: batch_wr_same)
qed

lemma set_msg_id_same [same_conn]:
  "set_msg_id b m c = Inr c' \<Longrightarrow> who c' = who c"
  by (auto simp: set_msg_id_def elim!: bindR_InrE)

lemma trigger_chain_same [same_conn]:
  "trigger_chain E k q qp n c = (wrs, c') \<Longrightarrow> who c' = who c"
proof (induction k arbitrary: c wrs)
  case 0
  then show ?case by simp
next
  case (Suc k)
  then show ?case
    by (fastforce simp: Let_def split: prod.splits)
qed

lemma keeps_update:
  assumes "ctx_of p w = Inr c" and "who c' = who c"
  shows "keeps w (set_ctx p c' w)"
  using assms by (intro keeps_set_ctx) auto

lemma keeps_post: "ibv_post_send_wrapper E p qp wrs w = Inr (r, w') \<Longrightarrow> keeps w w'"
  unfolding ibv_post_send_wrapper_def
  by (auto simp: call_def split: list.splits elim!: bindR_InrE dest: update_scur_post_same
      intro!: keeps_frame keeps_update)

lemma keeps_exp_post: "ibv_exp_post_send_wrapper E p qp wrs w = Inr (r, w') \<Longrightarrow> keeps w w'"
  unfolding ibv_exp_post_send_wrapper_def
  by (auto simp: call_def split: list.splits elim!: bindR_InrE dest: update_scur_post_same
      intro!: keeps_frame keeps_update)

lemma keeps_post_or_die: "post_or_die E p wrs w = Inr w' \<Longrightarrow> keeps w w'"
  by (auto simp: post_or_die_def split: if_splits elim!: bindR_InrE dest: keeps_post)

lemma keeps_exp_post_or_die: "exp_post_or_die msg E p wr w = Inr (r, w') \<Longrightarrow> keeps w w'"
  by (auto simp: exp_post_or_die_def split: if_splits elim!: bindR_InrE dest: keeps_exp_post)

lemma keeps_count_and_post:
  assumes "count_and_post E p c' wr w = Inr (r, w')" and "ctx_of p w = Inr c"
    and "who c' = who c"
  shows "keeps w w'"
proof -
  have "post_or_die E p [wr] (set_ctx p (c'\<lparr>n_posted_ops := n_posted_ops c' + 1\<rparr>) w) = Inr w'"
    using assms(1) by (auto simp: count_and_post_def elim!: bindR_InrE)
  then have "keeps (set_ctx p (c'\<lparr>n_posted_ops := n_posted_ops c' + 1\<rparr>) w) w'"
    by (rule keeps_post_or_die)
  moreover have "keeps w (set_ctx p (c'\<lparr>n_posted_ops := n_posted_ops c' + 1\<rparr>) w)"
    using assms(2,3) by (intro keeps_update) auto
  ultimately show ?thesis by (rule keeps_trans [rotated])
qed

lemma sock_ctx_eq_Inr:
  "sock_ctx s w = Inr (p, c) \<longleftrightarrow> get_connection s w = Inr p \<and> ctx_of p w = Inr c"
  by (auto simp: sock_ctx_def bindR_eq_Inr)

lemma keeps_next_wr_id: "IBV_NEXT_WR_ID s w = Inr (n, w') \<Longrightarrow> keeps w w'"
  by (auto simp: IBV_NEXT_WR_ID_def sock_ctx_eq_Inr split: prod.splits elim!: bindR_InrE
      intro!: keeps_update)

lemma keeps_one_sided:
  "IBV_SEND_ASYNC E s a n i l w = Inr (r, w') \<Longrightarrow> keeps w w'"
  "IBV_CAS_ASYNC E s a d x y lk rk f w = Inr (r, w') \<Longrightarrow> keeps w w'"
  "IBV_FETCH_ADD_ASYNC E s a d n x lk rk w = Inr (r, w') \<Longrightarrow> keeps w w'"
  "IBV_CONVERT_ENDIAN_ASYNC E s a d n lk rk w = Inr (r, w') \<Longrightarrow> keeps w w'"
  "IBV_NOOP_ASYNC E s sg w = Inr (r, w') \<Longrightarrow> keeps w w'"
  by (auto simp: IBV_SEND_ASYNC_def IBV_CAS_ASYNC_def IBV_FETCH_ADD_ASYNC_def
      IBV_CONVERT_ENDIAN_ASYNC_def IBV_NOOP_ASYNC_def Let_def sock_ctx_eq_Inr
      split: prod.splits if_splits elim!: bindR_InrE) (erule keeps_count_and_post, assumption, simp)+

lemma keeps_post_async: "IBV_POST_ASYNC E s wrs w = Inr (r, w') \<Longrightarrow> keeps w w'"
  by (auto simp: IBV_POST_ASYNC_def sock_ctx_eq_Inr split: if_splits elim!: bindR_InrE
      dest!: keeps_post_or_die count_post_same)
    (erule keeps_trans [rotated], rule keeps_update, assumption, simp)

lemma keeps_send_message:
  assumes "send_message E p b w = Inr (r, w')"
  shows "keeps w w'"
proof -
  obtain c n wr w1 w2 qp ok where 1: "ctx_of p w = Inr c"
    "rc_bind_buffer p b n (set_ctx p (c\<lparr>last_send := last_send c + 1\<rparr>) w) = Inr (ok, w1)"
    "ibv_post_send_wrapper E p qp [wr] w1 = Inr (0, w2)"
    "update_ctx p (\<lambda>c. c\<lparr>n_posted_ops := n_posted_ops c + 1\<rparr>) w2 = Inr w'"
    using assms unfolding send_message_def next_wr_id_send [of 2, simplified] Let_def prod.case
    by (auto split: if_splits elim!: bindR_InrE)
  have "keeps w (set_ctx p (c\<lparr>last_send := last_send c + 1\<rparr>) w)"
    using 1(1) by (intro keeps_update) auto
  also note keeps_bind [OF 1(2)] also note keeps_post [OF 1(3)] also note keeps_update_ctx [OF 1(4)]
  finally show ?thesis by simp
qed

lemma keeps_receives:
  "post_recv p r w = Inr w' \<Longrightarrow> keeps w w'"
  "receive_message p b w = Inr w' \<Longrightarrow> keeps w w'"
  "receive_imm p b w = Inr w' \<Longrightarrow> keeps w w'"
  "IBV_RECEIVE_ANY s a n k w = Inr w' \<Longrightarrow> keeps w w'"
  "IBV_RECEIVE_SG s md k w = Inr (md', w') \<Longrightarrow> keeps w w'"
  by (auto simp: post_recv_def receive_message_def receive_imm_def IBV_RECEIVE_ANY_def
      IBV_RECEIVE_SG_def Let_def split: if_splits prod.splits elim!: bindR_InrE intro!: keeps_emit)

section \<open>Completions\<close>

lemma keeps_update_pending: "update_pending p a w = Inr w' \<Longrightarrow> keeps w w'"
  by (auto simp: update_pending_def elim!: bindR_InrE intro!: keeps_update)

lemma keeps_handle_wc: "handle_wc wc w = Inr w' \<Longrightarrow> keeps w w'"
  unfolding handle_wc_def update_completions_def completion_cb_def on_completion_def
  by (auto simp: Let_def split: if_splits option.splits elim!: bindR_InrE
      intro!: keeps_emit dest!: keeps_update_pending keeps_update_ctx)

lemma keeps_poll_cq: "poll_cq n E q w = Some (Inr w') \<Longrightarrow> keeps w w'"
proof (induction n arbitrary: w)
  case 0
  then show ?case by simp
next
  case (Suc n)
  have e: "keeps w (emit (IbvPollCq q) w)" by (intro keeps_intros)
  show ?case
  proof (cases "ans_poll_cq E (length (trace w))")
    case None
    then show ?thesis using Suc.prems e by (simp add: call_def emit_def)
  next
    case (Some wc)
    then obtain w1 where w1: "handle_wc wc (emit (IbvPollCq q) w) = Inr w1"
      "poll_cq n E q w1 = Some (Inr w')"
      using Suc.prems by (auto simp: call_def emit_def bindF_eq_Inr)
    note e also note keeps_handle_wc [OF w1(1)] also note Suc.IH [OF w1(2)]
    finally show ?thesis .
  qed
qed

section \<open>Cross-channel operations\<close>

lemma two_socks_eq_Inr:
  "two_socks ms s w = Inr (mp, mc, p, c) \<longleftrightarrow> sock_ctx ms w = Inr (mp, mc) \<and> sock_ctx s w = Inr (p, c)"
  by (auto simp: two_socks_def bindR_eq_Inr)

lemma keeps_exp_verbs:
  "IBV_WAIT E ms s w = Inr (x, w') \<Longrightarrow> keeps w w'"
  "IBV_WAIT_TILL E ms s n w = Inr (x, w') \<Longrightarrow> keeps w w'"
  "IBV_WAIT_EXPLICIT E ms s n w = Inr (x, w') \<Longrightarrow> keeps w w'"
  "IBV_TRIGGER E ms s k w = Inr (x, w') \<Longrightarrow> keeps w w'"
  unfolding IBV_WAIT_def IBV_WAIT_TILL_def IBV_WAIT_EXPLICIT_def IBV_TRIGGER_def
  by (auto simp: two_socks_eq_Inr sock_ctx_eq_Inr elim!: bindR_InrE dest!: keeps_exp_post_or_die)
    (erule keeps_trans [rotated], rule keeps_update, assumption, simp)+

lemma keeps_trigger_explicit: "IBV_TRIGGER_EXPLICIT E ms s k w = Inr (x, w') \<Longrightarrow> keeps w w'"
  unfolding IBV_TRIGGER_EXPLICIT_def
  by (auto simp: two_socks_eq_Inr sock_ctx_eq_Inr elim!: bindR_InrE dest!: keeps_exp_post_or_die)
    (rule keeps_frame, erule keeps_trans [rotated], rule keeps_update, assumption, simp)

lemma keeps_set_trigger: "IBV_SET_TRIGGER E ms s k n w = Inr w' \<Longrightarrow> keeps w w'"
  unfolding IBV_SET_TRIGGER_def
  by (auto simp: two_socks_eq_Inr sock_ctx_eq_Inr call_def Let_def split: if_splits prod.splits
      elim!: bindR_InrE intro!: keeps_frame dest!: trigger_chain_same)
    (rule keeps_update, assumption, simp)

lemma keeps_calc: "IBV_CALC_OP_ASYNC E s md l r opc w = Inr (x, w') \<Longrightarrow> keeps w w'"
  unfolding IBV_CALC_OP_ASYNC_def
  by (auto simp: sock_ctx_eq_Inr elim!: bindR_InrE dest!: keeps_exp_post_or_die)
    (erule keeps_trans [rotated], rule keeps_update, assumption, simp)

section \<open>The remaining operations without a pause\<close>

lemma keeps_receive_posts:
  "IBV_RECEIVE_IMM s w = Inr w' \<Longrightarrow> keeps w w'"
  "IBV_RECEIVE_MSG s b w = Inr w' \<Longrightarrow> keeps w w'"
  by (auto simp: IBV_RECEIVE_IMM_def IBV_RECEIVE_MSG_def elim!: bindR_InrE dest: keeps_receives(2,3))

lemma keeps_pending:
  "register_pending p a w = Inr w' \<Longrightarrow> keeps w w'"
  "remove_pending p r w = Inr w' \<Longrightarrow> keeps w w'"
  by (auto simp: register_pending_def remove_pending_def fresh_def Let_def elim!: bindR_InrE
      intro!: keeps_intros)

lemma keeps_message: "IBV_WRAPPER_SEND_MSG_ASYNC E sk b so w = Inr (wr, w') \<Longrightarrow> keeps w w'"
  unfolding IBV_WRAPPER_SEND_MSG_ASYNC_def
  by (auto simp: sock_ctx_eq_Inr elim!: bindR_InrE dest!: keeps_send_message set_msg_id_same)
    (erule keeps_trans [rotated], rule keeps_update, assumption, simp)

lemma keeps_acquire_buffer: "rc_acquire_buffer sk w = Inr (n, x, w') \<Longrightarrow> keeps w w'"
  unfolding rc_acquire_buffer_def by (rule keeps_acquire)

lemma mr_next_to_sync_same: "mr_next_to_sync c = Inr (i, c') \<Longrightarrow> who c' = who c"
proof -
  let ?f = "\<lambda>i c. bindR (read_int (local_mr_ready c) i) (\<lambda>r.
    Inr (if r \<noteq> 0 then c\<lparr>local_mr_to_sync := i\<rparr> else c))"
  assume "mr_next_to_sync c = Inr (i, c')"
  then obtain c1 n where c1: "foldR ?f [local_mr_to_sync c + 1..MAX_MR - 1] c = Inr c1"
    "c' = c1\<lparr>local_mr_to_sync := n\<rparr>"
    by (auto simp: mr_next_to_sync_def Let_def split: if_splits elim!: bindR_InrE)
  have "who c1 = who c"
    using c1(1) by (rule foldR_invariant [where P = "\<lambda>d. who d = who c"]) (auto elim!: bindR_InrE)
  then show ?thesis using c1(2) by simp
qed

lemma mr_prepare_msg_same: "mr_prepare_msg i t c = Inr c' \<Longrightarrow> who c' = who c"
  by (auto simp: mr_prepare_msg_def Let_def split: if_splits elim!: bindR_InrE dest!: mr_next_to_sync_same)

lemma keeps_create_message: "create_message p t v w = Inr (i, w') \<Longrightarrow> keeps w w'"
  unfolding create_message_def
  by (auto simp: Let_def split: if_splits elim!: bindR_InrE dest!: keeps_acquire mr_prepare_msg_same)
    (erule keeps_set_ctx, assumption, simp)+

lemma keeps_register_wq: "register_wq E s t w = Inr (r, w') \<Longrightarrow> keeps w w'"
  by (auto simp: register_wq_def elim!: bindR_InrE dest: keeps_call)

lemma keeps_wait_wr: "ibv_create_exp_wait_wr E s l n i w = Inr (x, w') \<Longrightarrow> keeps w w'"
  by (auto simp: ibv_create_exp_wait_wr_def two_socks_eq_Inr sock_ctx_eq_Inr Let_def split: prod.splits
      elim!: bindR_InrE intro!: keeps_update)

lemma keeps_poll_cq_debug: "poll_cq_debug n E q w = Some (Inr w') \<Longrightarrow> keeps w w'"
proof (induction n arbitrary: w)
  case 0
  then show ?case by simp
next
  case (Suc n)
  have e: "keeps w (emit (IbvPollCq q) w)" by (intro keeps_intros)
  show ?case
  proof (cases "ans_poll_cq E (length (trace w))")
    case None
    then show ?thesis using Suc.prems e by (simp add: call_def emit_def)
  next
    case (Some wc)
    then obtain w1 where w1: "handle_wc wc (emit (IbvPollCq q) w) = Inr w1"
      "w' = w1 \<or> poll_cq_debug n E q w1 = Some (Inr w')"
      using Suc.prems by (auto simp: call_def emit_def bindF_eq_Inr handle_wc_def split: if_splits)
    have "keeps w w1" using e keeps_handle_wc [OF w1(1)] by (rule keeps_trans)
    then show ?thesis using w1(2) Suc.IH by (auto intro: keeps_trans)
  qed
qed

lemma keeps_release_permission: "release_permission p w = Inr w' \<Longrightarrow> keeps w w'"
  by (auto simp: release_permission_def Let_def split: if_splits elim!: bindR_InrE intro!: keeps_update)

lemma keeps_update_completions: "update_completions wc w = Inr w' \<Longrightarrow> keeps w w'"
  unfolding update_completions_def
  by (auto split: if_splits elim!: bindR_InrE dest!: keeps_update_ctx)

lemma keeps_await_cq_event: "keeps w w1 \<Longrightarrow> keeps w (await_cq_event E ch w1)"
  by (simp add: await_cq_event_def call_def keeps_intros)

section \<open>Operations that wait\<close>

text \<open>What holds of an operation that pauses holds because of what the other threads do meanwhile:
  a transitive relation that contains the frame and that every pause respects.\<close>

locale pauses =
  fixes R :: "world \<Rightarrow> world \<Rightarrow> bool"
  assumes frame: "keeps u v \<Longrightarrow> R u v"
    and trans: "R u v \<Longrightarrow> R v w \<Longrightarrow> R u w"
begin

lemma then_frame: "R u v \<Longrightarrow> keeps v w \<Longrightarrow> R u w"
  by (rule trans [OF _ frame])

lemma frame_then: "keeps u v \<Longrightarrow> R v w \<Longrightarrow> R u w"
  by (rule trans [OF frame])

lemma await:
  assumes "\<And>u. R u (tick u)"
  shows "await tick ready msg n w = Inr (t, w') \<Longrightarrow> R w w'"
proof (induction n arbitrary: w)
  case 0
  then show ?case by (subst (asm) await.simps) (auto split: if_splits elim!: bindR_InrE intro: frame)
next
  case (Suc n)
  obtain r where r: "ready w = Inr r" "r \<noteq> 0 \<Longrightarrow> w' = w"
    "r = 0 \<Longrightarrow> await tick ready msg n (tick (emit (Sleep 1) w)) = Inr (t, w')"
    using Suc.prems by (subst (asm) await.simps) (auto split: if_splits elim!: bindR_InrE)
  show ?case
  proof (cases "r = 0")
    case True
    have "keeps w (emit (Sleep 1) w)" by (intro keeps_intros)
    then show ?thesis using Suc.IH [OF r(3) [OF True]] assms frame_then trans by blast
  qed (simp add: r(2) frame)
qed

lemma mr_get:
  assumes "\<And>u. R u (tick u)" and "mr_get tick ready m1 m2 get s w = Inr (x, w')"
  shows "R w w'"
  using assms(2) unfolding mr_get_def
  by (auto elim!: bindR_InrE dest!: await [OF assms(1)] intro: trans)

lemma keys:
  assumes "\<And>u. R u (tick u)"
  shows "mr_local_key tick s r w = Inr (x, w') \<Longrightarrow> R w w'"
    "mr_local_rkey tick s r w = Inr (x, w') \<Longrightarrow> R w w'"
    "mr_local_addr tick s r w = Inr (x, w') \<Longrightarrow> R w w'"
    "mr_remote_key tick s r w = Inr (x, w') \<Longrightarrow> R w w'"
    "mr_remote_addr tick s r w = Inr (x, w') \<Longrightarrow> R w w'"
  unfolding mr_local_key_def mr_local_rkey_def mr_local_addr_def mr_remote_key_def mr_remote_addr_def
  by (erule mr_get [OF assms])+

lemma sq_idx:
  assumes "\<And>u. R u (tick u)" and "mr_get_sq_idx tick s w = Inr (x, w')"
  shows "R w w'"
  using assms(2) unfolding mr_get_sq_idx_def
  by (auto elim!: bindR_InrE dest!: await [OF assms(1)])

lemma receive:
  assumes "\<And>u. R u (tick u)" and "IBV_RECEIVE tick s a n l w = Inr w'"
  shows "R w w'"
  using assms(2) unfolding IBV_RECEIVE_def
  by (auto simp: sock_ctx_eq_Inr elim!: bindR_InrE dest!: keys(1) [OF assms(1)] keeps_receives(1)
      intro: then_frame)

lemma send_rdma_operation:
  assumes "\<And>u. R u (tick u)" and "send_rdma_operation E tick p mds l r op w = Inr (x, w')"
  shows "R w w'"
  using assms(2) unfolding send_rdma_operation_def
  by (auto split: if_splits elim!: bindR_InrE
      dest!: await [OF assms(1)] keeps_post batch_wrs_same)
    (erule then_frame, erule keeps_trans [rotated], rule keeps_update, assumption, simp)+

lemma wrapper_op:
  assumes "\<And>u. R u (tick u)"
  shows "IBV_WRAPPER_OP_ASYNC E tick s mds l r op w = Inr (x, w') \<Longrightarrow> R w w'"
    "IBV_WRAPPER_FUNC_ASYNC op E tick s mds l r w = Inr (y, w') \<Longrightarrow> R w w'"
  unfolding IBV_WRAPPER_FUNC_ASYNC_def IBV_WRAPPER_OP_ASYNC_def
  by (auto elim!: bindR_InrE intro: send_rdma_operation [OF assms(1)])

lemma send_wr:
  assumes "\<And>u. R u (tick u)" and "ibv_create_exp_send_wr E tick s op l r n w = Inr (x, w')"
  shows "R w w'"
proof -
  obtain p a w1 k w2 c ra w3 rk where w: "mr_local_addr tick s l w = Inr (a, w1)"
    "mr_local_key tick s l w1 = Inr (k, w2)" "ctx_of p w2 = Inr c"
    "mr_remote_addr tick s r (set_ctx p (c\<lparr>last_send := last_send c + 1\<rparr>) w2) = Inr (ra, w3)"
    "mr_remote_key tick s r w3 = Inr (rk, w')"
    using assms(2) by (auto simp: ibv_create_exp_send_wr_def elim!: bindR_InrE)
  have "keeps w2 (set_ctx p (c\<lparr>last_send := last_send c + 1\<rparr>) w2)"
    using w(3) by (intro keeps_update) simp_all
  with w(1,2,4,5) show ?thesis
    by (meson keys [OF assms(1)] frame trans)
qed

lemma broadcast:
  assumes "\<And>u. R u (tick u)"
  shows "broadcast n E tick p mds l r op w = Some (Inr (sent, w')) \<Longrightarrow> R w w'"
proof (induction n arbitrary: p w sent)
  case 0
  then show ?case by simp
next
  case (Suc n)
  then show ?case
    by (auto simp: bindF_eq_Inr frame split: if_splits dest!: send_rdma_operation [OF assms] intro: trans)
qed

section \<open>Waits\<close>

lemma spin:
  assumes "\<And>u. R u (tick u)"
  shows "spin_till_completion n tick p wr w = Some (Inr w') \<Longrightarrow> R w w'"
proof (induction n arbitrary: w)
  case 0
  then show ?case by simp
next
  case (Suc n)
  then show ?case using assms by (auto simp: bindF_eq_Inr frame split: if_splits intro: trans)
qed

lemma spin_all:
  assumes "\<And>u. R u (tick u)"
  shows "spin_all n tick sent w = Some (Inr w') \<Longrightarrow> R w w'"
proof (induction sent arbitrary: w)
  case (Cons x sent)
  obtain p wr where x: "x = (p, wr)" by (cases x)
  then obtain v where v: "spin_till_completion n tick p wr w = Some (Inr v)" "spin_all n tick sent v = Some (Inr w')"
    using Cons.prems by (auto simp: bindF_eq_Inr)
  show ?case by (rule trans [OF spin [OF assms v(1)] Cons.IH [OF v(2)]])
qed (simp add: frame)

lemma then_spin:
  assumes "\<And>u. R u (tick u)" and "then_spin n tick s r = Some (Inr w')" and "\<And>x v. r = Inr (x, v) \<Longrightarrow> R w v"
  shows "R w w'"
  using assms(2,3) by (auto simp: then_spin_def bindF_eq_Inr dest!: spin [OF assms(1)] intro: trans)

lemma take_permission:
  assumes "\<And>u. R u (tick u)"
  shows "take_permission n tick p w = Some (Inr w') \<Longrightarrow> R w w'"
proof (induction n arbitrary: w)
  case 0
  then show ?case by simp
next
  case (Suc n)
  obtain c where c: "ctx_of p w = Inr c" using Suc.prems by (auto simp: bindF_eq_Inr)
  show ?case
  proof (cases "poll_permission c = 0")
    case True
    then have "take_permission n tick p (tick w) = Some (Inr w')" using Suc.prems c by simp
    then show ?thesis using Suc.IH assms trans by blast
  next
    case False
    then show ?thesis using Suc.prems c
      by (auto simp: Let_def split: if_splits intro!: frame keeps_update)
  qed
qed

text \<open>One round of a loop that polls: perhaps an event, then the completions, then the others.\<close>

lemma poll_round:
  assumes "\<And>u. R u (tick u)" and "poll_cq n E q v = Some (Inr w1)" and "keeps w v"
    and "R (tick w1) w'"
  shows "R w w'"
  using keeps_trans [OF assms(3) keeps_poll_cq [OF assms(2)]] assms(1,4) by (blast intro: frame trans)

lemma block_loop:
  assumes "\<And>u. R u (tick u)"
  shows "block_loop n tick E p wr w = Some (Inr w') \<Longrightarrow> R w w'"
proof (induction n arbitrary: w)
  case 0
  then show ?case by simp
next
  case (Suc n)
  then show ?case
    by (auto simp: bindF_eq_Inr frame keeps_await_cq_event split: if_splits intro: poll_round [OF assms])
qed

lemma responses:
  assumes "\<And>u. R u (tick u)"
  shows "spin_till_response n tick E p sn w = Some (Inr w') \<Longrightarrow> R w w'"
    and "block_till_response n tick E p sn w = Some (Inr w') \<Longrightarrow> R w w'"
proof (induction n arbitrary: w)
  case (Suc n)
  {
    case 1
    then show ?case using Suc.IH(1) by (auto simp: bindF_eq_Inr frame split: if_splits intro: poll_round [OF assms])
  next
    case 2
    then show ?case using Suc.IH(2)
      by (auto simp: bindF_eq_Inr frame keeps_await_cq_event split: if_splits intro: poll_round [OF assms])
  }
qed simp_all

lemma polling_threads:
  assumes "\<And>u. R u (tick u)"
  shows "poll_cq_spinning_loop n tick E p w = Some (Inr w') \<Longrightarrow> R w w'"
    and "poll_cq_blocking_loop n tick E p w = Some (Inr w') \<Longrightarrow> R w w'"
proof (induction n arbitrary: w)
  case (Suc n)
  {
    case 1
    then show ?case using Suc.IH(1) assms
      by (auto simp: bindF_eq_Inr frame split: if_splits intro: poll_round [OF assms] trans)
  next
    case 2
    then show ?case using Suc.IH(2)
      by (auto simp: bindF_eq_Inr frame keeps_await_cq_event split: if_splits intro: poll_round [OF assms])
  }
qed simp_all

lemma block:
  assumes "\<And>u. R u (tick u)" and "block_till_completion n tick E p wr w = Some (Inr w')"
  shows "R w w'"
  using assms(2)
  by (auto simp: block_till_completion_def bindF_eq_Inr
      dest!: take_permission [OF assms(1)] block_loop [OF assms(1)] keeps_release_permission
      intro: trans then_frame)

lemma awaits:
  assumes "\<And>u. R u (tick u)"
  shows "IBV_AWAIT_RESPONSE n tick E s a w = Some (Inr w') \<Longrightarrow> R w w'"
    "IBV_AWAIT_RESPONSE_NOTIFY n tick E s a w = Some (Inr w') \<Longrightarrow> R w w'"
    "IBV_AWAIT_WORK_COMPLETION n tick s wr w = Some (Inr w') \<Longrightarrow> R w w'"
    "IBV_AWAIT_WORK_COMPLETION_NOTIFY n tick E s wr w = Some (Inr w') \<Longrightarrow> R w w'"
    "IBV_AWAIT_PENDING_WORK_COMPLETIONS n tick s w = Some (Inr w') \<Longrightarrow> R w w'"
  unfolding IBV_AWAIT_RESPONSE_def IBV_AWAIT_RESPONSE_NOTIFY_def IBV_AWAIT_WORK_COMPLETION_def
    IBV_AWAIT_WORK_COMPLETION_NOTIFY_def IBV_AWAIT_PENDING_WORK_COMPLETIONS_def on_conn_def
  by (auto simp: bindF_eq_Inr intro: responses [OF assms] spin [OF assms] block [OF assms])

lemma syncs:
  assumes "\<And>u. R u (tick u)"
  shows "IBV_SEND_SYNC n tick E s src len imm l w = Some (Inr w') \<Longrightarrow> R w w'"
    "IBV_POST_SYNC n tick E s wrs w = Some (Inr w') \<Longrightarrow> R w w'"
    "IBV_CAS_SYNC n tick E s src dst x y lk rk f w = Some (Inr w') \<Longrightarrow> R w w'"
    "IBV_FETCH_ADD_SYNC n tick E s src dst len x lk rk w = Some (Inr w') \<Longrightarrow> R w w'"
    "IBV_CONVERT_ENDIAN_SYNC n tick E s src dst len lk rk w = Some (Inr w') \<Longrightarrow> R w w'"
    "IBV_NOOP_SYNC n tick E s sg w = Some (Inr w') \<Longrightarrow> R w w'"
    "IBV_CALC_OP_SYNC n tick E s md l r oc w = Some (Inr w') \<Longrightarrow> R w w'"
    "IBV_WRAPPER_OP_SYNC n E tick s mds l r op w = Some (Inr w') \<Longrightarrow> R w w'"
    "IBV_WRAPPER_FUNC_SYNC op n E tick s mds l r w = Some (Inr w') \<Longrightarrow> R w w'"
  unfolding IBV_SEND_SYNC_def IBV_POST_SYNC_def IBV_CAS_SYNC_def IBV_FETCH_ADD_SYNC_def
    IBV_CONVERT_ENDIAN_SYNC_def IBV_NOOP_SYNC_def IBV_CALC_OP_SYNC_def IBV_WRAPPER_OP_SYNC_def
    IBV_WRAPPER_FUNC_SYNC_def
  by (auto split: if_splits elim!: then_spin [OF assms]
      intro: wrapper_op(1) [OF assms] frame keeps_one_sided keeps_post_async keeps_calc)

lemma send_msg_sync:
  assumes "\<And>u. R u (tick u)" and "IBV_WRAPPER_SEND_MSG_SYNC n tick E s b so w = Some (Inr w')"
  shows "R w w'"
proof -
  obtain p c c1 wr w1 where w: "ctx_of p w = Inr c" "set_msg_id b MSG_CUSTOM c = Inr c1"
    "send_message E p b (set_ctx p c1 w) = Inr (wr, w1)" "spin_till_completion n tick p wr w1 = Some (Inr w')"
    using assms(2) by (auto simp: IBV_WRAPPER_SEND_MSG_SYNC_def bindF_eq_Inr sock_ctx_eq_Inr split: if_splits)
  have "keeps w (set_ctx p c1 w)" by (rule keeps_update [OF w(1) set_msg_id_same [OF w(2)]])
  then show ?thesis using keeps_send_message [OF w(3)] spin [OF assms(1) w(4)] by (blast intro: frame_then)
qed

lemma broadcasts:
  assumes "\<And>u. R u (tick u)"
  shows "IBV_WRAPPER_OP_ASYNC_ALL n E tick mds l r op w = Some (Inr w') \<Longrightarrow> R w w'"
    "IBV_WRAPPER_OP_SYNC_ALL n E tick mds l r op w = Some (Inr w') \<Longrightarrow> R w w'"
  unfolding IBV_WRAPPER_OP_ASYNC_ALL_def IBV_WRAPPER_OP_SYNC_ALL_def
  by (auto simp: bindF_eq_Inr split: if_splits
      dest!: broadcast [OF assms] spin_all [OF assms] intro: trans)

end

interpretation threads: pauses keeps
  by unfold_locales (auto intro: keeps_trans)

lemmas keeps_send_rdma_operation = threads.send_rdma_operation

end
