(* ===== verification/Conn_Life.thy ===== *)
theory Conn_Life
  imports Conn_Inv
begin

text \<open>
  The life of a connection in the table: creation takes the lowest free socket, clearing gives it
  back, lookups and iteration agree with the table. The last section closes the invariant over
  everything the library does after its initialisation.
\<close>

section \<open>The lowest free socket\<close>

definition first_free :: "'a option list \<Rightarrow> nat option" where
  "first_free xs = (if None \<in> set xs then Some (length (takeWhile (\<lambda>x. x \<noteq> None) xs)) else None)"

lemma first_free_None: "first_free xs = None \<longleftrightarrow> None \<notin> set xs"
  by (simp add: first_free_def)

lemma first_free_SomeD:
  assumes "first_free xs = Some k"
  shows "k < length xs" "xs ! k = None" "\<And>j. j < k \<Longrightarrow> xs ! j \<noteq> None"
proof -
  let ?P = "\<lambda>x :: 'a option. x \<noteq> None"
  have k: "k = length (takeWhile ?P xs)" and n: "None \<in> set xs"
    using assms by (auto simp: first_free_def split: if_splits)
  have "length xs = length (takeWhile ?P xs) + length (dropWhile ?P xs)"
    by (metis length_append takeWhile_dropWhile_id)
  moreover have "length (dropWhile ?P xs) \<noteq> 0" unfolding length_0_conv
  proof
    assume "dropWhile ?P xs = []"
    then have "\<forall>x \<in> set xs. ?P x" by (simp only: dropWhile_eq_Nil_conv)
    from bspec [OF this n] show False by simp
  qed
  ultimately show "k < length xs" unfolding k by linarith
  then show "xs ! k = None" unfolding k by (auto dest: nth_length_takeWhile)
  show "xs ! j \<noteq> None" if "j < k" for j
    using that set_takeWhileD [of "xs ! j" ?P xs] nth_mem [of j "takeWhile ?P xs"]
    unfolding k by (simp add: takeWhile_nth)
qed

lemma slots_None:
  assumes "conn_inv w" and "s_conn_bitmap w = Some bm" and "i < 1000"
  shows "slots w ! i = None \<longleftrightarrow> bm ! i = 0"
proof -
  obtain bm' ids where "s_conn_bitmap w = Some bm'" "s_conn_ids w = Some ids"
    "length bm' = 1000" "length ids = 1000" using assms(1) by (rule conn_invE)
  then show ?thesis using assms(2,3) by (simp add: nth_slots)
qed

lemma find_first_empty_slots:
  assumes "conn_inv w" and "s_conn_bitmap w = Some bm"
  shows "find_first_empty_bit bm MAX_CONNECTIONS =
    Inr (case first_free (slots w) of None \<Rightarrow> - 1 | Some k \<Rightarrow> int k)"
proof -
  have len: "length bm = 1000" using assms by (auto elim: conn_invE)
  have free: "bm ! i = 0 \<longleftrightarrow> slots w ! i = None" if "i < 1000" for i
    using slots_None [OF assms that] by simp
  have "first_hit (\<lambda>x. x = 0) bm 0 1000 (case first_free (slots w) of None \<Rightarrow> - 1 | Some k \<Rightarrow> int k)"
  proof (cases "first_free (slots w)")
    case None
    then have "slots w ! i \<noteq> None" if "i < 1000" for i
      using that assms(1) by (metis first_free_None length_slots nth_mem)
    then have "bm ! nat k \<noteq> 0" if "0 \<le> k" "k < 1000" for k using free that by simp
    then show ?thesis by (simp add: None first_hit_def)
  next
    case (Some k)
    note k = first_free_SomeD [OF Some]
    have "k < 1000" using k(1) assms(1) by simp
    moreover have "bm ! nat j \<noteq> 0" if "0 \<le> j" "j < int k" for j
      using free [of "nat j"] k(3) [of "nat j"] that \<open>k < 1000\<close> by simp
    ultimately show ?thesis
      using free [of k] k(2) by (auto simp: Some first_hit_def)
  qed
  then show ?thesis
    by (simp add: find_first_empty_bit_def MAX_CONNECTIONS_def find_from_eq_iff len)
qed

section \<open>Creation\<close>

lemma slots_exact_open:
  assumes "slots_exact w bm ids" and "length bm = 1000" and "length ids = 1000" and "k < 1000"
    and "bm ! k = 0" and "conn_ident w p = None" and "conn_ident w' = (conn_ident w)(p \<mapsto> (int k, p))"
  shows "slots_exact w' (bm[k := 1]) (ids[k := p])"
  unfolding slots_exact_def MAX_CONNECTIONS_def
proof (intro conjI allI impI)
  fix i assume i: "i < nat 1000" "bm[k := 1] ! i \<noteq> 0"
  show "conn_ident w' (ids[k := p] ! i) = Some (int i, ids[k := p] ! i)"
    using assms(2-7) slots_exactD(1) [OF assms(1), of i] i by (cases "i = k") auto
next
  fix q s r assume q: "conn_ident w' q = Some (s, r)"
  have "r = q \<and> 0 \<le> s \<and> s < 1000 \<and> bm[k := 1] ! nat s \<noteq> 0 \<and> ids[k := p] ! nat s = q"
  proof (cases "q = p")
    case True
    then show ?thesis using q assms by auto
  next
    case False
    then have "conn_ident w q = Some (s, r)" using q assms(7) by simp
    note D = slots_exactD(2) [OF assms(1) this]
    then have "nat s \<noteq> k" using assms(5) by auto
    then show ?thesis using D by simp
  qed
  then show "r = q" "0 \<le> s" "s < 1000" "bm[k := 1] ! nat s \<noteq> 0" "ids[k := p] ! nat s = q" by auto
qed

lemma slots_update:
  assumes "s_conn_bitmap w = Some bm" "s_conn_ids w = Some ids" "length bm = length ids" "k < length bm"
    and "s_conn_bitmap w' = Some (bm[k := b])" "s_conn_ids w' = Some (ids[k := p])"
  shows "slots w' = (slots w)[k := (if b \<noteq> 0 then Some p else None)]"
  using assms by (auto simp: slots_def list_eq_iff_nth_eq nth_list_update)

text \<open>A connection is created at the lowest free socket, and nothing else of the table changes; with
  no socket free the library gives up.\<close>

lemma init_connection_full:
  assumes "conn_inv w" and "first_free (slots w) = None"
  shows "init_connection p ty al fl w =
    Inl (Die ''can't open new connection; number of open sockets == MAX_CONNECTIONS'')"
proof -
  obtain bm where bm: "s_conn_bitmap w = Some bm" using assms(1) by (rule conn_invE)
  show ?thesis
    using find_first_empty_slots [OF assms(1) bm] assms(2)
    by (simp add: init_connection_def bm find_first_empty_bit_and_set_eq)
qed

lemma new_context_ident [simp]:
  "sockfd (new_context p s ty al fl) = s" "ctx_id (new_context p s ty al fl) = p"
  "sq_start (new_context p s ty al fl) = 0" "sq_wqe_cnt (new_context p s ty al fl) = 0"
  by (simp_all add: new_context_def zero_context_def)

lemma init_connection_slots:
  assumes "conn_inv w" and "first_free (slots w) = Some k"
    and "p \<noteq> 0" and "cm_ids w p = Some i" and "conn_ident w p = None"
  obtains w' where "init_connection p ty al fl w = Inr (int k, w')"
    "conn_inv w'" "slots w' = (slots w)[k := Some p]"
    "ctx_of p w' = Inr (new_context p (int k) ty al fl)"
    "conn_who w' = (conn_who w)(p \<mapsto> (int k, p, 0, 0))"
proof -
  obtain bm ids where bm: "s_conn_bitmap w = Some bm" "s_conn_ids w = Some ids"
    "length bm = 1000" "length ids = 1000" "set bm \<subseteq> {0, 1}" "slots_exact w bm ids"
    using assms(1) by (rule conn_invE)
  have k: "k < 1000" "bm ! k = 0"
    using first_free_SomeD [OF assms(2)] slots_None [OF assms(1) bm(1)] assms(1) by auto
  let ?w = "set_cm_id p (i\<lparr>cm_context := Some (new_context p (int k) ty al fl)\<rparr>)
    (w\<lparr>s_conn_bitmap := Some (bm[k := 1]), s_conn_ids := Some (ids[k := p])\<rparr>)"
  have run: "init_connection p ty al fl w = Inr (int k, ?w)"
    using find_first_empty_slots [OF assms(1) bm(1)] assms(2-4) bm k
    by (simp add: init_connection_def find_first_empty_bit_and_set_eq cm_id_at_def)
  have ctx: "ctx_of q ?w = (if q = p then Inr (new_context p (int k) ty al fl) else ctx_of q w)" for q
    using assms(3) by (simp add: ctx_of_def cm_id_at_def set_cm_id_def)
  have who: "conn_who ?w = (conn_who w)(p \<mapsto> (int k, p, 0, 0))"
    by (rule ext) (simp add: conn_who_def ctx)
  then have ident: "conn_ident ?w = (conn_ident w)(p \<mapsto> (int k, p))"
    by (simp add: fun_eq_iff conn_ident_who)
  have inv: "conn_inv ?w"
  proof (rule conn_invI)
    show "slots_exact ?w (bm[k := 1]) (ids[k := p])"
      using bm k assms(5) ident by (intro slots_exact_open [OF bm(6)]) auto
    show "set (bm[k := 1]) \<subseteq> {0, 1}" using bm(5) set_update_subset_insert [of bm k 1] by auto
  qed (use bm in \<open>simp_all add: set_cm_id_def\<close>)
  have "slots ?w = (slots w)[k := Some p]"
    using slots_update [OF bm(1,2), of k ?w 1 p] bm k by (simp add: set_cm_id_def)
  then show thesis using that [OF run inv _ _ who] ctx by simp
qed

section \<open>Clearing\<close>

lemma slots_exact_close:
  assumes "slots_exact w bm ids" and "length bm = 1000" and "length ids = 1000"
    and "conn_ident w p = Some (int k, p)" and "conn_ident w' = (conn_ident w)(p := None)"
  shows "slots_exact w' (bm[k := 0]) (ids[k := 0])"
proof -
  have k: "k < 1000" using slots_exactD(2) [OF assms(1,4)] by auto
  show ?thesis
    unfolding slots_exact_def MAX_CONNECTIONS_def
  proof (intro conjI allI impI)
    fix i assume i: "i < nat 1000" "bm[k := 0] ! i \<noteq> 0"
    then have "i \<noteq> k" "bm ! i \<noteq> 0" using k assms(2) by (auto simp: nth_list_update split: if_splits)
    moreover from this have "conn_ident w (ids ! i) = Some (int i, ids ! i)"
      using slots_exactD(1) [OF assms(1)] i(1) by simp
    ultimately show "conn_ident w' (ids[k := 0] ! i) = Some (int i, ids[k := 0] ! i)"
      using assms(4,5) by auto
  next
    fix q s r assume q: "conn_ident w' q = Some (s, r)"
    then have ne: "q \<noteq> p" and w: "conn_ident w q = Some (s, r)"
      using assms(5) by (auto split: if_splits)
    note D = slots_exactD(2) [OF assms(1) w] and E = slots_exactD(2) [OF assms(1,4)]
    have "nat s \<noteq> k" using D E ne by auto
    then show "r = q" "0 \<le> s" "s < 1000" "bm[k := 0] ! nat s \<noteq> 0" "ids[k := 0] ! nat s = q"
      using D by simp_all
  qed
qed

lemma clear_region_same: "clear_region c i w = Inr w' \<Longrightarrow> w' = w"
  by (auto simp: clear_region_def split: if_splits elim!: bindR_InrE)

lemma clear_regions_same: "foldR (clear_region c) is w = Inr w' \<Longrightarrow> w' = w"
  by (rule foldR_invariant [where P = "\<lambda>u. u = w"]) (auto dest: clear_region_same)

lemma clear_buffers_keep: "foldR (clear_buffer c) is w = Inr w' \<Longrightarrow> keeps w w'"
  by (erule keeps_foldR)
    (auto simp: clear_buffer_def elim!: bindR_InrE intro!: keeps_intros)

text \<open>Clearing a terminated connection frees its socket and its \<open>rdma_cm_id\<close>, and nothing else.\<close>

lemma rc_clear_slots:
  assumes "conn_inv w" and "ctx_of p w = Inr c" and "rc_clear p w = Inr w'"
  shows "conn_inv w'" "slots w' = (slots w)[nat (sockfd c) := None]"
    "conn_who w' = (conn_who w)(p := None)" "cm_ids w' p = None"
    "state c = RC_CONNECTION_TERMINATED"
proof -
  obtain bm ids where bm: "s_conn_bitmap w = Some bm" "s_conn_ids w = Some ids"
    "length bm = 1000" "length ids = 1000" "set bm \<subseteq> {0, 1}" "slots_exact w bm ids"
    using assms(1) by (rule conn_invE)
  define k where "k = nat (sockfd c)"
  have id: "conn_ident w p = Some (int k, p)" "k < 1000" "sockfd c = int k" "slots w ! k = Some p"
    using ident_slots [OF assms(1) conn_ident_ctx [OF assms(2)]] conn_ident_ctx [OF assms(2)]
    by (auto simp: k_def)
  define w0 where "w0 = w\<lparr>s_conn_bitmap := Some (bm[k := 0]), s_conn_ids := Some (ids[k := 0])\<rparr>"
  obtain t w2 where run: "rc_terminated (sockfd c) w = Inr t" "t \<noteq> 0"
    "foldR (clear_buffer c) [0..<MAX_BUFFER] w0 = Inr w2" "w' = w2\<lparr>cm_ids := (cm_ids w2)(p := None)\<rparr>"
    using assms(2,3) bm id
    unfolding rc_clear_def w0_def
    by (auto split: if_splits elim!: bindR_InrE dest!: clear_regions_same)
  have ks: "keeps w0 w2" using run(3) by (rule clear_buffers_keep)
  have "conn_who w' q = (if q = p then None else conn_who w2 q)" for q
    using run(4) by (auto simp: conn_who_def ctx_of_def cm_id_at_def)
  then show who: "conn_who w' = (conn_who w)(p := None)"
    using ks by (auto simp: keeps_def w0_def)
  then have ident: "conn_ident w' = (conn_ident w)(p := None)"
    by (simp add: fun_eq_iff conn_ident_who)
  have tab: "s_conn_bitmap w' = Some (bm[k := 0])" "s_conn_ids w' = Some (ids[k := 0])"
    using ks run(4) by (auto simp: keeps_def w0_def)
  show "conn_inv w'"
  proof (rule conn_invI [OF tab])
    show "slots_exact w' (bm[k := 0]) (ids[k := 0])"
      using slots_exact_close [OF bm(6,3,4) id(1) ident] .
    show "set (bm[k := 0]) \<subseteq> {0, 1}" using bm(5) set_update_subset_insert [of bm k 0] by auto
  qed (use bm in simp_all)
  show "slots w' = (slots w)[nat (sockfd c) := None]"
    using slots_update [OF bm(1,2) _ _ tab] bm id by (simp add: id(3))
  show "cm_ids w' p = None" using run(4) by simp
  show "state c = RC_CONNECTION_TERMINATED"
    using run(1,2) assms get_connection_slots [OF assms(1), of "sockfd c"] id bm
    by (auto simp: rc_terminated_def state_query_def conn_id_at_def nth_slots
        split: if_splits elim!: bindR_InrE)
qed

section \<open>Iteration\<close>

text \<open>The first open socket after a given one.\<close>

definition next_open :: "int \<Rightarrow> nat option list \<Rightarrow> nat option" where
  "next_open cur sl = find (\<lambda>i. cur < int i \<and> sl ! i \<noteq> None) [0..<length sl]"

lemma next_open_first_hit:
  assumes "conn_inv w" and "s_conn_bitmap w = Some bm" and "- 1 \<le> cur"
  shows "first_hit (\<lambda>x. x \<noteq> 0) bm (cur + 1) 1000
    (case next_open cur (slots w) of None \<Rightarrow> - 1 | Some k \<Rightarrow> int k)"
proof -
  have open_iff: "bm ! i \<noteq> 0 \<longleftrightarrow> slots w ! i \<noteq> None" if "i < 1000" for i
    using slots_None [OF assms(1,2) that] by simp
  have len: "length (slots w) = 1000" using assms(1) by simp
  show ?thesis
  proof (cases "next_open cur (slots w)")
    case None
    then have "\<not> (cur < int i \<and> slots w ! i \<noteq> None)" if "i < 1000" for i
      using that len by (auto simp: next_open_def find_None_iff)
    then have "\<not> bm ! nat k \<noteq> 0" if "cur + 1 \<le> k" "k < 1000" for k
      using open_iff [of "nat k"] that assms(3) by force
    then show ?thesis by (simp add: None first_hit_def)
  next
    case (Some k)
    then have k: "k < 1000" "cur < int k" "slots w ! k \<noteq> None"
      "\<And>j. j < k \<Longrightarrow> \<not> (cur < int j \<and> slots w ! j \<noteq> None)"
      using len by (auto simp: next_open_def find_Some_iff nth_upt)
    have "\<not> bm ! nat j \<noteq> 0" if "cur + 1 \<le> j" "j < int k" for j
      using open_iff [of "nat j"] k(1) k(4) [of "nat j"] that assms(3) by simp
    then show ?thesis using k open_iff [of k] by (auto simp: Some first_hit_def)
  qed
qed

lemma find_set_slots:
  assumes "conn_inv w" and "s_conn_bitmap w = Some bm" and "- 1 \<le> cur"
  shows "find_from (\<lambda>x. x \<noteq> 0) bm (cur + 1) MAX_CONNECTIONS =
    Inr (case next_open cur (slots w) of None \<Rightarrow> - 1 | Some k \<Rightarrow> int k)"
  using next_open_first_hit [OF assms] assms
  by (auto simp: find_from_eq_iff MAX_CONNECTIONS_def elim!: conn_invE)

lemma rc_next_connection_slots:
  assumes "conn_inv w" and "- 1 \<le> cur"
  shows "rc_next_connection cur w = Inr (case next_open cur (slots w) of None \<Rightarrow> - 1 | Some k \<Rightarrow> int k)"
proof -
  obtain bm where bm: "s_conn_bitmap w = Some bm" using assms(1) by (rule conn_invE)
  show ?thesis
    using find_set_slots [OF assms(1) bm assms(2)]
    by (cases "cur < 0"; cases "cur = - 1"; cases "next_open cur (slots w)")
      (use assms(2) in \<open>simp_all add: rc_next_connection_def bm find_first_set_bit_def find_next_set_bit_def\<close>)
qed

lemma find_next_connection_slots:
  assumes "conn_inv w" and "p = 0 \<and> cur = - 1 \<or> slots w ! nat cur = Some p \<and> 0 \<le> cur \<and> cur < 1000"
  shows "find_next_connection p w = Inr (case next_open cur (slots w) of None \<Rightarrow> 0 | Some k \<Rightarrow> the (slots w ! k))"
proof -
  obtain bm where bm: "s_conn_bitmap w = Some bm" using assms(1) by (rule conn_invE)
  have scan: "(if p = 0 then find_first_set_bit bm MAX_CONNECTIONS
      else bindR (ctx_of p w) (\<lambda>c. find_next_set_bit (sockfd c) bm MAX_CONNECTIONS)) =
    Inr (case next_open cur (slots w) of None \<Rightarrow> - 1 | Some k \<Rightarrow> int k)"
  proof (cases "p = 0")
    case True
    have "slots w ! nat cur \<noteq> Some p" if "0 \<le> cur" "cur < 1000"
      using that True slots_ident [OF assms(1), of "nat cur" p] conn_ident_nonzero [of w p] by force
    then have "cur = - 1" using assms(2) by auto
    then show ?thesis using True find_set_slots [OF assms(1) bm, of "- 1"]
      by (simp add: find_first_set_bit_def)
  next
    case False
    then have c: "slots w ! nat cur = Some p" "0 \<le> cur" "cur < 1000" using assms(2) by auto
    then obtain c where "ctx_of p w = Inr c" "sockfd c = cur"
      using slots_ident [OF assms(1), of "nat cur" p] by (auto simp: conn_ident_eq)
    then show ?thesis using False c find_set_slots [OF assms(1) bm, of cur]
      by (simp add: find_next_set_bit_def)
  qed
  show ?thesis
  proof (cases "next_open cur (slots w)")
    case None
    then show ?thesis using scan by (simp add: find_next_connection_def bm)
  next
    case (Some k)
    then have k: "k < 1000" "slots w ! k \<noteq> None"
      using assms(1) by (auto simp: next_open_def find_Some_iff)
    then show ?thesis
      using scan Some get_connection_slots [OF assms(1), of "int k"]
      by (auto simp: find_next_connection_def bm)
  qed
qed

text \<open>The number of connections.\<close>

lemma rc_connection_count_slots:
  assumes "conn_inv w"
  shows "rc_connection_count w = Inr (int (length (filter (\<lambda>s. s \<noteq> None) (slots w))))"
proof -
  obtain bm ids where bm: "s_conn_bitmap w = Some bm" "s_conn_ids w = Some ids"
    "length bm = 1000" "length ids = 1000" "set bm \<subseteq> {0, 1}" using assms by (rule conn_invE)
  have "length (filter (\<lambda>s. s \<noteq> None) (map2 (\<lambda>b p. if b \<noteq> 0 then Some p else None) bs ps)) =
      length (filter (\<lambda>b. b \<noteq> 0) bs)" if "length bs = length ps" for bs :: "int list" and ps :: "nat list"
    using that by (induction bs ps rule: list_induct2) auto
  then show ?thesis
    using bm by (simp add: rc_connection_count_def slots_def find_bitmap_weight_sum MAX_CONNECTIONS_def
        sum_list_bits del: not_None_eq)
qed

section \<open>Everything the library does\<close>

text \<open>Seen from the table, the library does four things: it leaves the table alone, it gets an
  \<open>rdma_cm_id\<close> from the connection manager, it opens a connection, or it clears one.\<close>

inductive table_step :: "world \<Rightarrow> world \<Rightarrow> bool" where
  stay: "keeps w w' \<Longrightarrow> table_step w w'"
| arrive: "cm_ids w p = None \<Longrightarrow> cm_context i = None \<Longrightarrow> table_step w (set_cm_id p i w)"
| opened: "conn_ident w p = None \<Longrightarrow> init_connection p ty al fl w = Inr (s, w') \<Longrightarrow> table_step w w'"
| cleared: "rc_clear p w = Inr w' \<Longrightarrow> table_step w w'"

inductive_cases table_stepE: "table_step w w'"

lemma init_connection_result:
  assumes "conn_inv w" and "conn_ident w p = None" and "init_connection p ty al fl w = Inr (s, w')"
  obtains k where "first_free (slots w) = Some k" "s = int k" "conn_inv w'"
    "slots w' = (slots w)[k := Some p]" "conn_who w' = (conn_who w)(p \<mapsto> (int k, p, 0, 0))"
proof -
  have free: "first_free (slots w) \<noteq> None"
    using init_connection_full [OF assms(1), of p ty al fl] assms(3) by auto
  then obtain k where k: "first_free (slots w) = Some k" by auto
  obtain i where i: "p \<noteq> 0" "cm_ids w p = Some i"
    using assms(3) by (auto simp: init_connection_def cm_id_at_eq_Inr split: if_splits elim!: bindR_InrE)
  obtain w1 where w1: "init_connection p ty al fl w = Inr (int k, w1)" "conn_inv w1"
    "slots w1 = (slots w)[k := Some p]" "conn_who w1 = (conn_who w)(p \<mapsto> (int k, p, 0, 0))"
    by (rule init_connection_slots [OF assms(1) k i assms(2)])
  then show thesis using assms(3) k by (intro that [of k]) auto
qed

lemma set_new_id:
  assumes "cm_ids w p = None" and "cm_context i = None"
  shows "conn_who (set_cm_id p i w) = conn_who w" "slots (set_cm_id p i w) = slots w"
    "conn_inv w \<Longrightarrow> conn_inv (set_cm_id p i w)"
proof -
  show who: "conn_who (set_cm_id p i w) = conn_who w"
    using assms by (auto simp: fun_eq_iff conn_who_def ctx_of_def cm_id_at_def set_cm_id_def)
  show "slots (set_cm_id p i w) = slots w" by (simp add: slots_def set_cm_id_def)
  show "conn_inv (set_cm_id p i w)" if "conn_inv w"
    using that slots_exact_cong [OF conn_ident_cong [OF who]]
    by (auto simp: conn_inv_def set_cm_id_def split: option.splits)
qed

lemma rc_clear_ctx: "rc_clear p w = Inr w' \<Longrightarrow> \<exists>c. ctx_of p w = Inr c"
  unfolding rc_clear_def by (elim bindR_InrE) (rule exI)

text \<open>What the library never sets: the place of the send queue stays what the creation made it.\<close>

definition sq_unset :: "world \<Rightarrow> bool" where
  "sq_unset w \<longleftrightarrow> (\<forall>p s q a n. conn_who w p = Some (s, q, a, n) \<longrightarrow> a = 0 \<and> n = 0)"

lemma table_step_inv:
  assumes "table_step w w'" and "conn_inv w"
  shows "conn_inv w'" and "sq_unset w \<Longrightarrow> sq_unset w'"
proof -
  from assms(1) have "conn_inv w' \<and> (sq_unset w \<longrightarrow> sq_unset w')"
  proof (elim table_stepE, goal_cases)
    case 1
    then show ?case using assms(2) conn_inv_keeps by (auto simp: sq_unset_def keeps_def)
  next
    case (2 p i)
    then show ?case using assms(2) set_new_id [of w p i] by (auto simp: sq_unset_def)
  next
    case (3 p ty al fl s)
    obtain k where "conn_inv w'" "conn_who w' = (conn_who w)(p \<mapsto> (int k, p, 0, 0))"
      by (rule init_connection_result [OF assms(2) 3])
    then show ?case by (auto simp: sq_unset_def)
  next
    case (4 p)
    obtain c where "ctx_of p w = Inr c" using rc_clear_ctx [OF 4] by blast
    note rc_clear_slots(1,3) [OF assms(2) this 4]
    then show ?case by (auto simp: sq_unset_def)
  qed
  then show "conn_inv w'" and "sq_unset w \<Longrightarrow> sq_unset w'" by auto
qed

lemma keeps_run_callback: "run_callback E cb p w = Inr w' \<Longrightarrow> keeps w w'"
  by (auto simp: run_callback_def on_pre_conn_def on_connection_def on_disconnect_def
      split: option.splits callback.splits if_splits elim!: bindR_InrE
      intro: keeps_mr_register intro!: keeps_emit)

lemma conn_ident_no_id: "cm_ids w p = None \<Longrightarrow> conn_ident w p = None"
  by (auto simp: conn_ident_None ctx_of_eq_Inr)

lemma table_steps_keeps: "table_step\<^sup>*\<^sup>* w w1 \<Longrightarrow> keeps w1 w2 \<Longrightarrow> table_step\<^sup>*\<^sup>* w w2"
  by (meson rtranclp.rtrancl_into_rtrancl table_step.stay)

lemma handle_event_steps:
  assumes "handle_event E a b ev w = Inr (s, w')"
    and "ev_type ev = RDMA_CM_EVENT_CONNECT_REQUEST \<Longrightarrow> conn_ident w (ev_id ev) = None"
  shows "table_step\<^sup>*\<^sup>* w w'"
proof (cases "ev_type ev")
  case RDMA_CM_EVENT_ADDR_RESOLVED
  then have "w' = emit (RdmaResolveRoute (ev_id ev) 500) w"
    using assms(1) by (auto simp: handle_event_def Let_def)
  then show ?thesis by (auto intro!: table_step.stay keeps_intros)
next
  case RDMA_CM_EVENT_ROUTE_RESOLVED
  then obtain w1 w2 ps where r: "setup_connection E (ev_id ev) None w = Inr w1"
    "run_callback E (s_on_pre_conn_cb w1) (ev_id ev) w1 = Inr w2"
    "w' = w2\<lparr>trace := trace w2 @ [RdmaConnect (ev_id ev) ps]\<rparr>"
    using assms(1) by (auto simp: handle_event_def call_def Let_def split: if_splits elim!: bindR_InrE)
  note keeps_setup_connection [OF r(1)] also note keeps_run_callback [OF r(2)]
  finally have "keeps w w'" unfolding r(3) by (rule keeps_frame)
  then show ?thesis by (blast intro: table_step.stay)
next
  case RDMA_CM_EVENT_CONNECT_REQUEST
  then obtain k w1 w2 w3 ps where w1: "init_connection (ev_id ev) (- 1) 1 0 w = Inr (k, w1)"
    and r: "setup_connection E (ev_id ev) (Some (ev_param ev)) w1 = Inr w2"
    "run_callback E (s_on_pre_conn_cb w2) (ev_id ev) w2 = Inr w3" "w' = emit (RdmaAccept (ev_id ev) ps) w3"
    using assms(1) by (auto simp: handle_event_def Let_def elim!: bindR_InrE)
  note keeps_setup_connection [OF r(1)] also note keeps_run_callback [OF r(2)]
  finally have "keeps w1 w'" unfolding r(3) by (rule keeps_emit)
  moreover have "table_step w w1"
    using table_step.opened [OF _ w1] assms(2) RDMA_CM_EVENT_CONNECT_REQUEST by simp
  then have "table_step\<^sup>*\<^sup>* w w1" by (rule r_into_rtranclp)
  ultimately show ?thesis by (rule table_steps_keeps [rotated])
next
  case RDMA_CM_EVENT_ESTABLISHED
  then obtain w1 where r: "finalize_connection (ev_id ev) (Some (ev_param ev)) w = Inr w1"
    "run_callback E (s_on_connect_cb w1) (ev_id ev) w1 = Inr w'"
    using assms(1) by (auto simp: handle_event_def Let_def elim!: bindR_InrE)
  note keeps_finalize_connection [OF r(1)] also note keeps_run_callback [OF r(2)]
  finally show ?thesis by (blast intro: table_step.stay)
next
  case RDMA_CM_EVENT_DISCONNECTED
  then obtain w1 w2 where r: "run_callback E (s_on_disconnect_cb w) (ev_id ev) w = Inr w1"
    "rc_disconnect (ev_id ev) w1 = Inr w2" and w': "w' = w2 \<or> rc_clear (ev_id ev) w2 = Inr w'"
    using assms(1) by (auto simp: handle_event_def Let_def split: if_splits elim!: bindR_InrE)
  note keeps_run_callback [OF r(1)] also note keeps_rc_disconnect [OF r(2)]
  finally have "table_step\<^sup>*\<^sup>* w w2" by (blast intro: table_step.stay)
  then show ?thesis using w' by (auto intro: table_step.cleared rtranclp.rtrancl_into_rtrancl)
next
  case RDMA_CM_EVENT_TIMEWAIT_EXIT
  then show ?thesis
    using assms(1) by (auto simp: handle_event_def Let_def elim!: bindR_InrE intro: table_step.cleared)
qed (use assms(1) in \<open>auto simp: handle_event_def Let_def\<close>)

text \<open>Other threads may open and clear connections while an operation pauses: every operation that waits is
  a sequence of steps of the table when the other threads are.\<close>

interpretation steps: pauses "table_step\<^sup>*\<^sup>*"
  by unfold_locales (auto intro: table_step.stay)

text \<open>The calls of the application and of the polling threads: every function of \<open>verbs.h\<close>, \<open>mr.h\<close>,
  \<open>messaging.h\<close> and \<open>connection.h\<close> that can change the state, but for \<open>rc_init\<close>, \<open>init_connection\<close> and the
  event loop, which are in the steps of the library below. What runs while a call sleeps or spins (\<open>tick\<close>) is any
  sequence of steps of the table.\<close>

inductive app_call :: "env \<Rightarrow> world \<Rightarrow> world \<Rightarrow> bool" for E where
  next_wr_id: "IBV_NEXT_WR_ID sk w = Inr (wr, w') \<Longrightarrow> app_call E w w'"
| send: "IBV_SEND_ASYNC E sk src len imm l w = Inr (wr, w') \<Longrightarrow> app_call E w w'"
| post: "IBV_POST_ASYNC E sk wrs w = Inr (wr, w') \<Longrightarrow> app_call E w w'"
| cas: "IBV_CAS_ASYNC E sk src dst x y lk rk f w = Inr (wr, w') \<Longrightarrow> app_call E w w'"
| fetch_add: "IBV_FETCH_ADD_ASYNC E sk src dst len x lk rk w = Inr (wr, w') \<Longrightarrow> app_call E w w'"
| endian: "IBV_CONVERT_ENDIAN_ASYNC E sk src dst len lk rk w = Inr (wr, w') \<Longrightarrow> app_call E w w'"
| noop: "IBV_NOOP_ASYNC E sk sg w = Inr (wr, w') \<Longrightarrow> app_call E w w'"
| calc: "IBV_CALC_OP_ASYNC E sk md l r opc w = Inr (wr, w') \<Longrightarrow> app_call E w w'"
| wrapper_op: "(\<And>u. table_step\<^sup>*\<^sup>* u (tick u)) \<Longrightarrow>
    IBV_WRAPPER_OP_ASYNC E tick sk mds l r op w = Inr (wr, w') \<Longrightarrow> app_call E w w'"
| wrapper_func: "(\<And>u. table_step\<^sup>*\<^sup>* u (tick u)) \<Longrightarrow>
    IBV_WRAPPER_FUNC_ASYNC op E tick sk mds l r w = Inr (y, w') \<Longrightarrow> app_call E w w'"
| wrapper_all: "(\<And>u. table_step\<^sup>*\<^sup>* u (tick u)) \<Longrightarrow>
    IBV_WRAPPER_OP_ASYNC_ALL n E tick mds l r op w = Some (Inr w') \<Longrightarrow> app_call E w w'"
| message: "IBV_WRAPPER_SEND_MSG_ASYNC E sk b so w = Inr (wr, w') \<Longrightarrow> app_call E w w'"
| send_sync: "(\<And>u. table_step\<^sup>*\<^sup>* u (tick u)) \<Longrightarrow>
    IBV_SEND_SYNC n tick E sk src len imm l w = Some (Inr w') \<Longrightarrow> app_call E w w'"
| post_sync: "(\<And>u. table_step\<^sup>*\<^sup>* u (tick u)) \<Longrightarrow>
    IBV_POST_SYNC n tick E sk wrs w = Some (Inr w') \<Longrightarrow> app_call E w w'"
| cas_sync: "(\<And>u. table_step\<^sup>*\<^sup>* u (tick u)) \<Longrightarrow>
    IBV_CAS_SYNC n tick E sk src dst x y lk rk f w = Some (Inr w') \<Longrightarrow> app_call E w w'"
| fetch_add_sync: "(\<And>u. table_step\<^sup>*\<^sup>* u (tick u)) \<Longrightarrow>
    IBV_FETCH_ADD_SYNC n tick E sk src dst len x lk rk w = Some (Inr w') \<Longrightarrow> app_call E w w'"
| endian_sync: "(\<And>u. table_step\<^sup>*\<^sup>* u (tick u)) \<Longrightarrow>
    IBV_CONVERT_ENDIAN_SYNC n tick E sk src dst len lk rk w = Some (Inr w') \<Longrightarrow> app_call E w w'"
| noop_sync: "(\<And>u. table_step\<^sup>*\<^sup>* u (tick u)) \<Longrightarrow>
    IBV_NOOP_SYNC n tick E sk sg w = Some (Inr w') \<Longrightarrow> app_call E w w'"
| calc_sync: "(\<And>u. table_step\<^sup>*\<^sup>* u (tick u)) \<Longrightarrow>
    IBV_CALC_OP_SYNC n tick E sk md l r opc w = Some (Inr w') \<Longrightarrow> app_call E w w'"
| wrapper_op_sync: "(\<And>u. table_step\<^sup>*\<^sup>* u (tick u)) \<Longrightarrow>
    IBV_WRAPPER_OP_SYNC n E tick sk mds l r op w = Some (Inr w') \<Longrightarrow> app_call E w w'"
| wrapper_func_sync: "(\<And>u. table_step\<^sup>*\<^sup>* u (tick u)) \<Longrightarrow>
    IBV_WRAPPER_FUNC_SYNC op n E tick sk mds l r w = Some (Inr w') \<Longrightarrow> app_call E w w'"
| wrapper_all_sync: "(\<And>u. table_step\<^sup>*\<^sup>* u (tick u)) \<Longrightarrow>
    IBV_WRAPPER_OP_SYNC_ALL n E tick mds l r op w = Some (Inr w') \<Longrightarrow> app_call E w w'"
| message_sync: "(\<And>u. table_step\<^sup>*\<^sup>* u (tick u)) \<Longrightarrow>
    IBV_WRAPPER_SEND_MSG_SYNC n tick E sk b so w = Some (Inr w') \<Longrightarrow> app_call E w w'"
| receive_imm: "IBV_RECEIVE_IMM sk w = Inr w' \<Longrightarrow> app_call E w w'"
| receive_msg: "IBV_RECEIVE_MSG sk b w = Inr w' \<Longrightarrow> app_call E w w'"
| receive_any: "IBV_RECEIVE_ANY sk addr len lk w = Inr w' \<Longrightarrow> app_call E w w'"
| receive_sg: "IBV_RECEIVE_SG sk md lk w = Inr (md', w') \<Longrightarrow> app_call E w w'"
| receive: "(\<And>u. table_step\<^sup>*\<^sup>* u (tick u)) \<Longrightarrow>
    IBV_RECEIVE tick sk addr len l w = Inr w' \<Longrightarrow> app_call E w w'"
| wait: "IBV_WAIT E msk sk w = Inr (wr, w') \<Longrightarrow> app_call E w w'"
| wait_till: "IBV_WAIT_TILL E msk sk cnt w = Inr (wr, w') \<Longrightarrow> app_call E w w'"
| wait_explicit: "IBV_WAIT_EXPLICIT E msk sk cnt w = Inr (wr, w') \<Longrightarrow> app_call E w w'"
| wait_wr: "ibv_create_exp_wait_wr E msk sk cnt lst w = Inr (sr, w') \<Longrightarrow> app_call E w w'"
| send_wr: "(\<And>u. table_step\<^sup>*\<^sup>* u (tick u)) \<Longrightarrow>
    ibv_create_exp_send_wr E tick sk op l r len w = Inr (sr, w') \<Longrightarrow> app_call E w w'"
| trigger: "IBV_TRIGGER E msk sk k w = Inr (wr, w') \<Longrightarrow> app_call E w w'"
| trigger_explicit: "IBV_TRIGGER_EXPLICIT E msk sk k w = Inr (wr, w') \<Longrightarrow> app_call E w w'"
| set_trigger: "IBV_SET_TRIGGER E msk sk k m w = Inr w' \<Longrightarrow> app_call E w w'"
| await_response: "(\<And>u. table_step\<^sup>*\<^sup>* u (tick u)) \<Longrightarrow>
    IBV_AWAIT_RESPONSE n tick E sk a w = Some (Inr w') \<Longrightarrow> app_call E w w'"
| await_response_notify: "(\<And>u. table_step\<^sup>*\<^sup>* u (tick u)) \<Longrightarrow>
    IBV_AWAIT_RESPONSE_NOTIFY n tick E sk a w = Some (Inr w') \<Longrightarrow> app_call E w w'"
| await_completion: "(\<And>u. table_step\<^sup>*\<^sup>* u (tick u)) \<Longrightarrow>
    IBV_AWAIT_WORK_COMPLETION n tick sk wr w = Some (Inr w') \<Longrightarrow> app_call E w w'"
| await_completion_notify: "(\<And>u. table_step\<^sup>*\<^sup>* u (tick u)) \<Longrightarrow>
    IBV_AWAIT_WORK_COMPLETION_NOTIFY n tick E sk wr w = Some (Inr w') \<Longrightarrow> app_call E w w'"
| await_pending: "(\<And>u. table_step\<^sup>*\<^sup>* u (tick u)) \<Longrightarrow>
    IBV_AWAIT_PENDING_WORK_COMPLETIONS n tick sk w = Some (Inr w') \<Longrightarrow> app_call E w w'"
| add_pending: "register_pending p a w = Inr w' \<Longrightarrow> app_call E w w'"
| drop_pending: "remove_pending p r w = Inr w' \<Longrightarrow> app_call E w w'"
| note_pending: "update_pending p a w = Inr w' \<Longrightarrow> app_call E w w'"
| acquire: "rc_acquire_buffer sk w = Inr (m, x, w') \<Longrightarrow> app_call E w w'"
| bind: "rc_bind_buffer p b wr w = Inr (m, w') \<Longrightarrow> app_call E w w'"
| release: "rc_release_buffer sk wr w = Inr (m, w') \<Longrightarrow> app_call E w w'"
| local_key: "(\<And>u. table_step\<^sup>*\<^sup>* u (tick u)) \<Longrightarrow>
    mr_local_key tick sk l w = Inr (k, w') \<Longrightarrow> app_call E w w'"
| local_rkey: "(\<And>u. table_step\<^sup>*\<^sup>* u (tick u)) \<Longrightarrow>
    mr_local_rkey tick sk l w = Inr (k, w') \<Longrightarrow> app_call E w w'"
| local_addr: "(\<And>u. table_step\<^sup>*\<^sup>* u (tick u)) \<Longrightarrow>
    mr_local_addr tick sk l w = Inr (k, w') \<Longrightarrow> app_call E w w'"
| remote_key: "(\<And>u. table_step\<^sup>*\<^sup>* u (tick u)) \<Longrightarrow>
    mr_remote_key tick sk l w = Inr (k, w') \<Longrightarrow> app_call E w w'"
| remote_addr: "(\<And>u. table_step\<^sup>*\<^sup>* u (tick u)) \<Longrightarrow>
    mr_remote_addr tick sk l w = Inr (k, w') \<Longrightarrow> app_call E w w'"
| sq_idx: "(\<And>u. table_step\<^sup>*\<^sup>* u (tick u)) \<Longrightarrow>
    mr_get_sq_idx tick sk w = Inr (m, w') \<Longrightarrow> app_call E w w'"
| regions: "mr_register E p rs m j w = Inr w' \<Longrightarrow> app_call E w w'"
| queue_region: "register_wq E sk psk w = Inr (mr, w') \<Longrightarrow> app_call E w w'"
| new_message: "create_message p ty v w = Inr (m, w') \<Longrightarrow> app_call E w w'"
| post_message: "send_message E p b w = Inr (wr, w') \<Longrightarrow> app_call E w w'"
| await_message: "receive_message p b w = Inr w' \<Longrightarrow> app_call E w w'"
| await_immediate: "receive_imm p b w = Inr w' \<Longrightarrow> app_call E w w'"
| set_state: "rc_set_state p st w = Inr w' \<Longrightarrow> app_call E w w'"
| disconnect: "rc_disconnect p w = Inr w' \<Longrightarrow> app_call E w w'"
| clear: "rc_clear p w = Inr w' \<Longrightarrow> app_call E w w'"
| acquire_at: "rc_acquire_buffer_at sk u w = Inr (m, x, w') \<Longrightarrow> app_call E w w'"
| operation: "(\<And>u. table_step\<^sup>*\<^sup>* u (tick u)) \<Longrightarrow>
    send_rdma_operation E tick p mds l r op w = Inr (wr, w') \<Longrightarrow> app_call E w w'"
| device: "try_build_device E p w = Inr w' \<Longrightarrow> app_call E w w'"
| channel: "build_cq_channel E p w = Inr w' \<Longrightarrow> app_call E w w'"
| set_up: "setup_connection E p ps w = Inr w' \<Longrightarrow> app_call E w w'"
| finalized: "finalize_connection p ps w = Inr w' \<Longrightarrow> app_call E w w'"
| remote_regions: "ctx_of p w = Inr c \<Longrightarrow> mr_remote_update a l k m c = Inr c' \<Longrightarrow>
    app_call E w (set_ctx p c' w)"
| prepared: "ctx_of p w = Inr c \<Longrightarrow> mr_prepare_msg i ty c = Inr c' \<Longrightarrow> app_call E w (set_ctx p c' w)"
| next_region: "ctx_of p w = Inr c \<Longrightarrow> mr_next_to_sync c = Inr (i, c') \<Longrightarrow> app_call E w (set_ctx p c' w)"
| completion: "update_completions wc w = Inr w' \<Longrightarrow> app_call E w w'"
| spin_response: "(\<And>u. table_step\<^sup>*\<^sup>* u (tick u)) \<Longrightarrow>
    spin_till_response n tick E p sn w = Some (Inr w') \<Longrightarrow> app_call E w w'"
| block_response: "(\<And>u. table_step\<^sup>*\<^sup>* u (tick u)) \<Longrightarrow>
    block_till_response n tick E p sn w = Some (Inr w') \<Longrightarrow> app_call E w w'"
| spin_completion: "(\<And>u. table_step\<^sup>*\<^sup>* u (tick u)) \<Longrightarrow>
    spin_till_completion n tick p wr w = Some (Inr w') \<Longrightarrow> app_call E w w'"
| block_completion: "(\<And>u. table_step\<^sup>*\<^sup>* u (tick u)) \<Longrightarrow>
    block_till_completion n tick E p wr w = Some (Inr w') \<Longrightarrow> app_call E w w'"
| poll: "poll_cq n E q w = Some (Inr w') \<Longrightarrow> app_call E w w'"
| poll_debug: "poll_cq_debug n E q w = Some (Inr w') \<Longrightarrow> app_call E w w'"
| polling: "(\<And>u. table_step\<^sup>*\<^sup>* u (tick u)) \<Longrightarrow>
    poll_cq_spinning_loop n tick E p w = Some (Inr w') \<Longrightarrow> app_call E w w'"
| polling_blocked: "(\<And>u. table_step\<^sup>*\<^sup>* u (tick u)) \<Longrightarrow>
    poll_cq_blocking_loop n tick E p w = Some (Inr w') \<Longrightarrow> app_call E w w'"

lemmas keeps_calls = keeps_next_wr_id keeps_one_sided keeps_post_async keeps_calc keeps_message
  keeps_receive_posts keeps_receives keeps_exp_verbs keeps_wait_wr keeps_trigger_explicit keeps_set_trigger
  keeps_pending keeps_update_pending keeps_acquire_buffer keeps_bind keeps_release keeps_mr_register
  keeps_register_wq keeps_create_message keeps_send_message keeps_rc_set_state keeps_rc_disconnect
  keeps_poll_cq keeps_poll_cq_debug keeps_acquire keeps_try_build_device keeps_build_cq_channel
  keeps_setup_connection keeps_finalize_connection keeps_update_completions
  keeps_update [OF _ mr_remote_update_same] keeps_update [OF _ mr_prepare_msg_same]
  keeps_update [OF _ mr_next_to_sync_same]

lemmas steps_calls = steps.wrapper_op steps.broadcasts steps.syncs steps.send_msg_sync steps.receive
  steps.send_wr steps.awaits steps.keys steps.sq_idx steps.polling_threads steps.send_rdma_operation
  steps.responses steps.spin steps.block

lemma app_call_table: "app_call E w w' \<Longrightarrow> table_step\<^sup>*\<^sup>* w w'"
  by (induction rule: app_call.induct)
    (blast intro: steps.frame keeps_calls steps_calls r_into_rtranclp [of table_step, OF table_step.cleared])+

text \<open>One step of the library: an event of the connection manager, a new client connection, a repeated
  initialisation, or a call. A new \<open>rdma_cm_id\<close> is not one in use. A call that ends in a fault or in the
  end of the process is no step.\<close>

inductive lib_step :: "env \<Rightarrow> world \<Rightarrow> world \<Rightarrow> bool" for E where
  cm_event: "ev_type ev \<noteq> RDMA_CM_EVENT_CONNECT_REQUEST \<Longrightarrow> handle_event E a b ev w = Inr (s, w') \<Longrightarrow>
    lib_step E w w'"
| request: "ev_type ev = RDMA_CM_EVENT_CONNECT_REQUEST \<Longrightarrow> cm_ids w (ev_id ev) = None \<Longrightarrow>
    cm_context i = None \<Longrightarrow> handle_event E a b ev (set_cm_id (ev_id ev) i w) = Inr (s, w') \<Longrightarrow>
    lib_step E w w'"
| client: "ans_create_id E (length (trace w) + 2) = (p, i) \<Longrightarrow> cm_ids w p = None \<Longrightarrow>
    cm_context i = None \<Longrightarrow> add_connection E ip port ty al fl w = Inr (k, w') \<Longrightarrow> lib_step E w w'"
| again: "init_rdma_agent E rs n bs cl cb w = Inr w' \<Longrightarrow> rdma_initialized w \<noteq> 0 \<Longrightarrow> lib_step E w w'"
| called: "app_call E w w' \<Longrightarrow> lib_step E w w'"

lemma add_connection_steps:
  assumes "ans_create_id E (length (trace w) + 2) = (p, i)" and "cm_ids w p = None"
    and "cm_context i = None" and "add_connection E ip port ty al fl w = Inr (k, w')"
  shows "table_step\<^sup>*\<^sup>* w w'"
proof -
  let ?w0 = "emit RdmaCreateEventChannel (emit (GetAddrInfo ip port) w)"
  let ?w1 = "?w0\<lparr>trace := trace ?w0 @ [RdmaCreateId (ec ?w0)]\<rparr>"
  let ?w2 = "set_cm_id p i ?w1"
  have run: "init_connection p ty al fl (emit (RdmaResolveAddr p ip port) ?w2) = Inr (k, w')"
    using assms(1,4) by (auto simp: add_connection_def call_def Let_def split: if_splits)
  have "keeps w ?w1" by (intro keeps_intros)
  then have 1: "table_step w ?w1" by (rule table_step.stay)
  have 2: "table_step ?w1 ?w2" using assms(2,3) by (intro table_step.arrive) simp_all
  have 3: "table_step ?w2 (emit (RdmaResolveAddr p ip port) ?w2)"
    by (intro table_step.stay keeps_intros)
  have "conn_ident (emit (RdmaResolveAddr p ip port) ?w2) p = None"
    using assms(2,3) by (simp add: conn_ident_None ctx_of_eq_Inr set_cm_id_def)
  then have 4: "table_step (emit (RdmaResolveAddr p ip port) ?w2) w'" using run by (rule table_step.opened)
  show ?thesis using 1 2 3 4 by (meson rtranclp.rtrancl_into_rtrancl rtranclp.rtrancl_refl)
qed

text \<open>The library simulates the table.\<close>

lemma lib_step_table:
  assumes "lib_step E w w'"
  shows "table_step\<^sup>*\<^sup>* w w'"
  using assms
proof (induction rule: lib_step.induct)
  case (cm_event ev a b w s w')
  then show ?case by (intro handle_event_steps [of E a b ev w s w']) auto
next
  case (request ev w i a b s w')
  have "conn_ident (set_cm_id (ev_id ev) i w) (ev_id ev) = None"
    using request(2,3) by (simp add: conn_ident_None ctx_of_eq_Inr set_cm_id_def)
  then have "table_step\<^sup>*\<^sup>* (set_cm_id (ev_id ev) i w) w'"
    by (intro handle_event_steps [OF request(4)])
  then show ?case
    using table_step.arrive [OF request(2,3)] by (rule converse_rtranclp_into_rtranclp [rotated])
next
  case (client w p i ip port ty al fl k w')
  then show ?case by (rule add_connection_steps)
next
  case (again rs n bs cl cb w w')
  then show ?case by (simp add: init_rdma_agent_def)
qed (rule app_call_table)

lemma table_steps_inv:
  assumes "table_step\<^sup>*\<^sup>* w w'" and "conn_inv w"
  shows "conn_inv w' \<and> (sq_unset w \<longrightarrow> sq_unset w')"
  using assms by (induction rule: rtranclp_induct) (auto dest: table_step_inv)

inductive reachable :: "env \<Rightarrow> world \<Rightarrow> bool" for E where
  start: "init_rdma_agent E rs n bs cl cb initial_world = Inr w \<Longrightarrow> reachable E w"
| step: "reachable E w \<Longrightarrow> lib_step E w w' \<Longrightarrow> reachable E w'"

lemma init_rdma_agent_inv:
  assumes "init_rdma_agent E rs n bs cl cb initial_world = Inr w"
  shows "conn_inv w" "slots w = replicate 1000 None" "sq_unset w"
proof -
  define v where "v = rc_init (Some ON_PRE_CONN) (Some ON_CONNECTION) (Some ON_COMPLETION)
    (Some ON_DISCONNECT) (initial_world\<lparr>mrs := rs, num_mrs := n, msg_size := int (unat bs), app_callbacks := cb\<rparr>)"
  have w: "w = (emit (PthreadCreate 0) (v\<lparr>trace := trace v @ [RdmaCreateEventChannel], ec := ans_event_channel E (length (trace v))\<rparr>))
      \<lparr>rdma_initialized := 1\<rparr>"
    using assms by (auto simp: init_rdma_agent_def call_def v_def Let_def initial_world_def split: if_splits)
  have v: "conn_inv v"
    unfolding v_def by (rule conn_inv_rc_init) (simp add: conn_ident_None ctx_of_eq_Inr initial_world_def)
  have none: "conn_ident u p = None" if "cm_ids u = Map.empty" for u p
    using that by (simp add: conn_ident_None ctx_of_eq_Inr)
  have empty: "cm_ids v = Map.empty" "cm_ids w = Map.empty"
    by (simp_all add: w v_def rc_init_def initial_world_def emit_def)
  have id: "conn_ident w = conn_ident v"
    using none empty by (simp add: fun_eq_iff)
  have "conn_who w p = None" for p
    using empty by (simp add: conn_who_def ctx_of_def cm_id_at_def)
  then show "sq_unset w" by (simp add: sq_unset_def)
  show "conn_inv w"
    using v slots_exact_cong [OF id] by (auto simp: conn_inv_def w emit_def split: option.splits)
  show "slots w = replicate 1000 None"
    by (simp add: slots_def w v_def rc_init_def emit_def MAX_CONNECTIONS_def list_eq_iff_nth_eq)
qed

lemma reachable_inv: "reachable E w \<Longrightarrow> conn_inv w \<and> sq_unset w"
proof (induction rule: reachable.induct)
  case (start rs n bs cl cb w)
  then show ?case by (intro conjI init_rdma_agent_inv)
next
  case (step w w')
  then show ?case using table_steps_inv lib_step_table by blast
qed

end
