(* ===== verification/Conn_Ids.thy ===== *)
theory Conn_Ids
  imports Conn_Life
begin

text \<open>
  The two tables that lead from a queue pair and from an address to a connection: they hold the same
  records, a connection that was set up is found by the completions of its queue pair, and one that
  was disconnected is in neither table any more.
\<close>

section \<open>The invariant of the tables\<close>

definition id_tables :: "world \<Rightarrow> (u32, nat) hash_head \<times> (sockaddr_in, nat) hash_head" where
  "id_tables w = (case s_ctx w of None \<Rightarrow> (None, None) | Some d \<Rightarrow> (id_by_qp d, id_by_addr d))"

definition by_qp :: "world \<Rightarrow> (u32, nat) hash_head" where "by_qp w = fst (id_tables w)"
definition by_addr :: "world \<Rightarrow> (sockaddr_in, nat) hash_head" where "by_addr w = snd (id_tables w)"

text \<open>The record behind an entry: its address and the connection it names.\<close>

definition records :: "('k, nat) hash_head \<Rightarrow> (nat \<times> nat) list" where
  "records t = map (\<lambda>x. (fst x, snd (snd x))) (entries t)"

definition ids_ok :: "world \<Rightarrow> bool" where
  "ids_ok w \<longleftrightarrow> hash_inv hash_u32 (by_qp w) \<and> hash_inv hash_addr (by_addr w) \<and>
     records (by_qp w) = records (by_addr w) \<and>
     list_all (\<lambda>r. fst r < heap_next w) (records (by_qp w))"

lemma id_tables_frame [simp, frame_simps]:
  "id_tables (set_ctx p c w) = id_tables w" "id_tables (emit e w) = id_tables w"
  "id_tables (w\<lparr>trace := t\<rparr>) = id_tables w" "id_tables (w\<lparr>heap_next := n\<rparr>) = id_tables w"
  by (simp_all add: id_tables_def)

lemma map_fst_records: "map fst (records t) = map fst (entries t)"
  by (simp add: records_def comp_def)

lemma fst_records: "fst ` set (records t) = fst ` set (entries t)"
  using map_fst_records [of t] by (metis list.set_map)

lemma ids_ok_cong:
  "ids_ok w \<Longrightarrow> id_tables w' = id_tables w \<Longrightarrow> heap_next w \<le> heap_next w' \<Longrightarrow> ids_ok w'"
  by (auto simp: ids_ok_def by_qp_def by_addr_def list_all_iff intro: less_le_trans)

lemma find_connection_by_wc_search:
  "find_connection_by_wc wc w =
    (if s_ctx w = None then Inl (Fault NullDeref)
     else bindR (hash_search hash_u32 (by_qp w) (wc_qp_num wc)) (\<lambda>r.
       case r of None \<Rightarrow> Inl (Die ''hash lookup failed; id doesn't exist'') | Some (e, p) \<Rightarrow> Inr p))"
  by (auto simp: find_connection_by_wc_def hash_search_def by_qp_def id_tables_def bindR_assoc
      split: option.splits intro!: bindR_cong)

lemma find_connection_by_addr_search:
  "find_connection_by_addr a w =
    (if s_ctx w = None then Inl (Fault NullDeref)
     else bindR (hash_search hash_addr (by_addr w) a) (\<lambda>r.
       case r of None \<Rightarrow> Inl (Die ''hash lookup failed; id doesn't exist'') | Some (e, p) \<Rightarrow> Inr p))"
  by (auto simp: find_connection_by_addr_def hash_search_def by_addr_def id_tables_def bindR_assoc
      split: option.splits intro!: bindR_cong)

section \<open>Entering a connection\<close>

lemma add_id_record_ok:
  assumes "ids_ok w" and "s_ctx w = Some d" and "hash_room (by_qp w)" and "hash_room (by_addr w)"
  shows "\<exists>w'. add_id_record p a q w = Inr w' \<and> ids_ok w' \<and> s_ctx w' \<noteq> None \<and>
    entries (by_qp w') = entries (by_qp w) @ [(heap_next w, q, p)] \<and>
    entries (by_addr w') = entries (by_addr w) @ [(heap_next w, a, p)]"
proof -
  have d: "by_qp w = id_by_qp d" "by_addr w = id_by_addr d"
    using assms(2) by (simp_all add: by_qp_def by_addr_def id_tables_def)
  have new: "heap_next w \<notin> fst ` set (entries (by_qp w))" "heap_next w \<notin> fst ` set (entries (by_addr w))"
    using assms(1) unfolding ids_ok_def fst_records [symmetric] list_all_iff by (metis imageE less_irrefl)+
  obtain t where t: "HASH_ADD hash_u32 (heap_next w) q p (by_qp w) = Inr t" "hash_inv hash_u32 t"
    "entries t = entries (by_qp w) @ [(heap_next w, q, p)]"
    using uth.link_ok [OF _ assms(3) new(1), of hash_u32 q p] assms(1) by (auto simp: ids_ok_def)
  obtain u where u: "HASH_ADD hash_addr (heap_next w) a p (by_addr w) = Inr u" "hash_inv hash_addr u"
    "entries u = entries (by_addr w) @ [(heap_next w, a, p)]"
    using uth.link_ok [OF _ assms(4) new(2), of hash_addr a p] assms(1) by (auto simp: ids_ok_def)
  let ?w = "w\<lparr>heap_next := heap_next w + 1, s_ctx := Some (d\<lparr>id_by_qp := t, id_by_addr := u\<rparr>)\<rparr>"
  have tabs: "by_qp ?w = t" "by_addr ?w = u" by (simp_all add: by_qp_def by_addr_def id_tables_def)
  have "add_id_record p a q w = Inr ?w"
    using t(1) u(1) assms(2) by (simp add: add_id_record_def fresh_def d)
  moreover have "records t = records (by_qp w) @ [(heap_next w, p)]"
    "records u = records (by_addr w) @ [(heap_next w, p)]"
    by (simp_all add: records_def t(3) u(3))
  then have "ids_ok ?w"
    using assms(1) t(2) u(2) unfolding ids_ok_def tabs
    by (auto simp: list_all_iff intro!: less_SucI dest!: bspec)
  ultimately show ?thesis using t u tabs by auto
qed

section \<open>Removing a connection\<close>

lemma HASH_FIND_search: "HASH_FIND hf t k = Inr (Some h) \<Longrightarrow> hash_search hf t k = Inr (Some (elmt h, item h))"
  by (simp add: hash_search_def)

lemma remove_id_record_ok:
  assumes "ids_ok w" and "s_ctx w = Some d" and "(e, q, p) \<in> set (entries (by_qp w))"
    and "uth.keys_distinct (by_qp w)"
  shows "\<exists>w'. remove_id_record q w = Inr w' \<and> ids_ok w' \<and> s_ctx w' \<noteq> None \<and>
    entries (by_qp w') = filter (\<lambda>x. fst x \<noteq> e) (entries (by_qp w)) \<and>
    entries (by_addr w') = filter (\<lambda>x. fst x \<noteq> e) (entries (by_addr w))"
proof -
  have d: "by_qp w = id_by_qp d" "by_addr w = id_by_addr d"
    using assms(2) by (simp_all add: by_qp_def by_addr_def id_tables_def)
  have inv: "hash_inv hash_u32 (by_qp w)" "hash_inv hash_addr (by_addr w)"
    using assms(1) by (simp_all add: ids_ok_def)
  have "uth.as_map (by_qp w) q = Some (e, p)"
    using uth.as_map_eq_Some [OF assms(4)] assms(3) by simp
  then have "hash_search hash_u32 (by_qp w) q = Inr (Some (e, p))"
    using uth.search_as_map [OF inv(1) assms(4)] by simp
  then obtain h where h: "HASH_FIND hash_u32 (by_qp w) q = Inr (Some h)" "elmt h = e"
    by (auto simp: hash_search_def bindR_eq_Inr)
  have e: "e \<in> fst ` set (entries (by_qp w))" using assms(3) by force
  then have e': "e \<in> fst ` set (entries (by_addr w))"
    using assms(1) unfolding ids_ok_def fst_records [symmetric] by simp
  obtain t where t: "HASH_DELETE e (by_qp w) = Inr t" "hash_inv hash_u32 t"
    "entries t = filter (\<lambda>x. fst x \<noteq> e) (entries (by_qp w))"
    using uth.unlink_ok [OF inv(1) e] by blast
  obtain u where u: "HASH_DELETE e (by_addr w) = Inr u" "hash_inv hash_addr u"
    "entries u = filter (\<lambda>x. fst x \<noteq> e) (entries (by_addr w))"
    using uth.unlink_ok [OF inv(2) e'] by blast
  let ?w = "w\<lparr>s_ctx := Some (d\<lparr>id_by_qp := t, id_by_addr := u\<rparr>)\<rparr>"
  have tabs: "by_qp ?w = t" "by_addr ?w = u" by (simp_all add: by_qp_def by_addr_def id_tables_def)
  have rec: "records v = filter (\<lambda>x. fst x \<noteq> e) (records v')"
    if "entries v = filter (\<lambda>x. fst x \<noteq> e) (entries v')" for v v' :: "('k, nat) hash_head"
    using that by (simp add: records_def filter_map comp_def)
  have "remove_id_record q w = Inr ?w"
    using h t(1) u(1) assms(2) by (simp add: remove_id_record_def d)
  moreover have "ids_ok ?w"
    using assms(1) t u unfolding ids_ok_def tabs
    by (auto simp: rec [OF t(3)] rec [OF u(3)] list_all_iff)
  ultimately show ?thesis using t u tabs by auto
qed

section \<open>Set-up and tear-down\<close>

lemma try_build_device_ids:
  assumes "try_build_device E p w = Inr w'"
  shows "id_tables w' = id_tables w" "s_ctx w' \<noteq> None" "heap_next w' = heap_next w"
proof -
  have "id_tables w' = id_tables w \<and> s_ctx w' \<noteq> None \<and> heap_next w' = heap_next w"
    using assms
    by (auto simp: try_build_device_def Let_def call_def id_tables_def new_device_table_def
        split: option.splits if_splits elim!: bindR_InrE)
  then show "id_tables w' = id_tables w" "s_ctx w' \<noteq> None" "heap_next w' = heap_next w" by auto
qed

lemma build_cq_channel_ids:
  "build_cq_channel E p w = Inr w' \<Longrightarrow> s_ctx w' = s_ctx w \<and> heap_next w' = heap_next w"
  by (auto simp: build_cq_channel_def Let_def call_def split: if_splits elim!: bindR_InrE)

lemma create_queue_pair_ids:
  "create_queue_pair E p w = Inr w' \<Longrightarrow> s_ctx w' = s_ctx w \<and> heap_next w' = heap_next w"
  by (auto simp: create_queue_pair_def Let_def call_def set_cm_id_def
      split: option.splits elim!: bindR_InrE)

lemma add_id_record_qp: "add_id_record p a q w = Inr w' \<Longrightarrow> cm_ids w' = cm_ids w"
  by (auto simp: add_id_record_def fresh_def elim!: bindR_InrE)

lemma qp_of_cong: "cm_ids w' = cm_ids w \<Longrightarrow> qp_of p w' = qp_of p w"
  by (simp add: qp_of_def cm_id_at_def)

lemma setup_connection_ids:
  assumes "ids_ok w" and "setup_connection E p ps w = Inr w'"
    and "hash_room (by_qp w)" and "hash_room (by_addr w)"
  obtains a q where "ids_ok w'" "s_ctx w' \<noteq> None" "qp_of p w' = Inr q"
    "entries (by_qp w') = entries (by_qp w) @ [(heap_next w, qp_num q, p)]"
    "entries (by_addr w') = entries (by_addr w) @ [(heap_next w, a, p)]"
proof -
  obtain w1 w2 w3 w4 a q where r: "try_build_device E p w = Inr w1"
    "w2 = w1 \<or> (\<exists>c. w2 = set_ctx p c w1)" "build_cq_channel E p w2 = Inr w3"
    "create_queue_pair E p w3 = Inr w4" "qp_of p w4 = Inr q" "add_id_record p a (qp_num q) w4 = Inr w'"
    using assms(2) unfolding setup_connection_def
    by (auto split: option.splits elim!: bindR_InrE) blast+
  have same: "id_tables w4 = id_tables w" "s_ctx w4 \<noteq> None" "heap_next w4 = heap_next w"
    using try_build_device_ids [OF r(1)] r(2) build_cq_channel_ids [OF r(3)]
      create_queue_pair_ids [OF r(4)] by (auto simp: id_tables_def)
  then obtain d where d: "s_ctx w4 = Some d" by auto
  have "ids_ok w4" using assms(1) same by (auto intro: ids_ok_cong)
  moreover have tabs: "by_qp w4 = by_qp w" "by_addr w4 = by_addr w"
    using same(1) by (simp_all add: by_qp_def by_addr_def)
  ultimately obtain w5 where w5: "add_id_record p a (qp_num q) w4 = Inr w5" "ids_ok w5" "s_ctx w5 \<noteq> None"
    "entries (by_qp w5) = entries (by_qp w) @ [(heap_next w, qp_num q, p)]"
    "entries (by_addr w5) = entries (by_addr w) @ [(heap_next w, a, p)]"
    using add_id_record_ok [of w4 d p a "qp_num q"] d assms(3,4) same(3) by auto
  moreover have "qp_of p w' = Inr q" using r(5,6) qp_of_cong [OF add_id_record_qp] by metis
  ultimately show thesis using that r(6) by auto
qed

text \<open>A completion of a queue pair entered under a new number finds its connection; the numbers
  known before lead where they led.\<close>

lemma found_after_entry:
  assumes "ids_ok w'" and "s_ctx w' \<noteq> None" and "uth.keys_distinct (by_qp w)"
    and "entries (by_qp w') = entries (by_qp w) @ [(e, n, p)]" and "uth.as_map (by_qp w) n = None"
  shows "wc_qp_num wc = n \<Longrightarrow> find_connection_by_wc wc w' = Inr p"
    and "wc_qp_num wc \<noteq> n \<Longrightarrow> uth.as_map (by_qp w) (wc_qp_num wc) = Some (e', p') \<Longrightarrow>
      find_connection_by_wc wc w' = Inr p'"
proof -
  have inv: "hash_inv hash_u32 (by_qp w')" using assms(1) by (simp add: ids_ok_def)
  have dist: "uth.keys_distinct (by_qp w')"
    using assms(3-5) by (simp add: uth.keys_distinct_def uth.as_map_eq_None)
  note map = uth.search_as_map [OF inv dist] and some = uth.as_map_eq_Some [OF dist]
  show "find_connection_by_wc wc w' = Inr p" if "wc_qp_num wc = n"
    using that assms(2,4) map [of n] some [of n e p] by (simp add: find_connection_by_wc_search)
  show "find_connection_by_wc wc w' = Inr p'"
    if "wc_qp_num wc \<noteq> n" "uth.as_map (by_qp w) (wc_qp_num wc) = Some (e', p')"
    using that assms(2,4) map [of "wc_qp_num wc"] some [of "wc_qp_num wc" e' p']
      uth.as_map_eq_Some [OF assms(3), of "wc_qp_num wc" e' p']
    by (simp add: find_connection_by_wc_search)
qed

lemma gone_after_removal:
  assumes "ids_ok w'" and "s_ctx w' \<noteq> None" and "uth.keys_distinct (by_qp w)"
    and "(e, n, p) \<in> set (entries (by_qp w))" and "hash_inv hash_u32 (by_qp w)"
    and "entries (by_qp w') = filter (\<lambda>x. fst x \<noteq> e) (entries (by_qp w))" and "wc_qp_num wc = n"
  shows "find_connection_by_wc wc w' = Inl (Die ''hash lookup failed; id doesn't exist'')"
proof -
  have inv: "hash_inv hash_u32 (by_qp w')" using assms(1) by (simp add: ids_ok_def)
  have "n \<notin> (\<lambda>x. fst (snd x)) ` set (entries (by_qp w'))"
  proof
    assume "n \<in> (\<lambda>x. fst (snd x)) ` set (entries (by_qp w'))"
    then obtain e' p' where x: "(e', n, p') \<in> set (entries (by_qp w))" "e' \<noteq> e"
      using assms(6) by auto
    then have "uth.as_map (by_qp w) n = Some (e', p')" "uth.as_map (by_qp w) n = Some (e, p)"
      using uth.as_map_eq_Some [OF assms(3)] assms(4) by blast+
    then show False using x(2) by simp
  qed
  then have "hash_search hash_u32 (by_qp w') n = Inr None"
    by (rule uth.search_absent [OF inv])
  then show ?thesis using assms(2,7) by (simp add: find_connection_by_wc_search)
qed

text \<open>Entering a state: the polling thread is told to stop when it was only needed during bootstrap
  or when the connection ends.\<close>

definition entered :: "rc_connection_state \<Rightarrow> conn_context \<Rightarrow> conn_context" where
  "entered s c =
     (if state c = s then c
      else c\<lparr>state := s, poll_enable :=
             (if s = RC_CONNECTION_TERMINATED \<or> s = RC_CONNECTION_READY \<and> poll_always c = 0 then 0
              else poll_enable c)\<rparr>)"

lemma set_ctx_self:
  assumes "ctx_of p w = Inr c"
  shows "set_ctx p c w = w"
proof -
  obtain i where i: "cm_ids w p = Some i" "cm_context i = Some c"
    using assms by (auto simp: ctx_of_eq_Inr)
  then have "i\<lparr>cm_context := Some c\<rparr> = i" by (cases i) simp
  then show ?thesis using i(1) by (simp add: set_ctx_def map_upd_triv)
qed

lemma rc_set_state_entered:
  assumes "ctx_of p w = Inr c"
  shows "rc_set_state p s w = Inr
    (let w1 = set_ctx p (entered s c) w
     in if s = RC_CONNECTION_TERMINATED \<and> state c \<noteq> s then emit (PthreadCancel p) w1 else w1)"
proof -
  have "set_ctx p c w = w" using assms by (rule set_ctx_self)
  moreover have "c\<lparr>state := s, poll_enable := poll_enable c\<rparr> = c\<lparr>state := s\<rparr>" by simp
  ultimately show ?thesis
    using assms by (auto simp: rc_set_state_def entered_def Let_def)
qed

lemma rc_disconnect_ok:
  assumes "ids_ok w" and "s_ctx w \<noteq> None" and "ctx_of p w = Inr c" and "qp_of p w = Inr q"
    and "(e, qp_num q, p) \<in> set (entries (by_qp w))" and "uth.keys_distinct (by_qp w)"
    and "hash_inv hash_u32 (pendings c)" and "hash_inv hash_u32 (buffer_bindings c)"
  shows "\<exists>w'. rc_disconnect p w = Inr w' \<and> ids_ok w' \<and> s_ctx w' \<noteq> None \<and>
    entries (by_qp w') = filter (\<lambda>x. fst x \<noteq> e) (entries (by_qp w)) \<and>
    entries (by_addr w') = filter (\<lambda>x. fst x \<noteq> e) (entries (by_addr w)) \<and>
    ctx_of p w' = Inr ((entered RC_CONNECTION_TERMINATED c)\<lparr>pendings := None, buffer_bindings := None\<rparr>)"
proof -
  define w1 where "w1 = (let w1 = set_ctx p (entered RC_CONNECTION_TERMINATED c) w
     in if state c \<noteq> RC_CONNECTION_TERMINATED then emit (PthreadCancel p) w1 else w1)"
  have st: "rc_set_state p RC_CONNECTION_TERMINATED w = Inr w1"
    unfolding w1_def using rc_set_state_entered [OF assms(3)] by (simp add: Let_def)
  have f: "id_tables w1 = id_tables w" "s_ctx w1 = s_ctx w" "heap_next w1 = heap_next w"
    "ctx_of p w1 = Inr (entered RC_CONNECTION_TERMINATED c)" "qp_of p w1 = Inr q"
    using assms(3,4) by (auto simp: w1_def Let_def)
  have tabs: "by_qp w1 = by_qp w" "by_addr w1 = by_addr w" using f(1) by (simp_all add: by_qp_def by_addr_def)
  obtain d where d: "s_ctx w1 = Some d" using assms(2) f(2) by auto
  have "ids_ok w1" using assms(1) f by (auto intro: ids_ok_cong)
  then obtain w2 where w2: "remove_id_record (qp_num q) w1 = Inr w2" "ids_ok w2" "s_ctx w2 \<noteq> None"
    "entries (by_qp w2) = filter (\<lambda>x. fst x \<noteq> e) (entries (by_qp w))"
    "entries (by_addr w2) = filter (\<lambda>x. fst x \<noteq> e) (entries (by_addr w))"
    using remove_id_record_ok [of w1 d e "qp_num q" p] d assms(5,6) by (auto simp: tabs)
  have "cm_ids w2 = cm_ids w1" using w2(1) by (auto simp: remove_id_record_def split: option.splits elim!: bindR_InrE)
  then have c2: "ctx_of p w2 = Inr (entered RC_CONNECTION_TERMINATED c)"
    using f(4) by (simp add: ctx_of_eq_Inr)
  have e: "pendings (entered s c) = pendings c" "buffer_bindings (entered s c) = buffer_bindings c" for s
    by (simp_all add: entered_def)
  let ?w = "emit (RdmaDisconnect p) (emit (RdmaDestroyQp p) (set_ctx p
    ((entered RC_CONNECTION_TERMINATED c)\<lparr>pendings := None, buffer_bindings := None\<rparr>) w2))"
  have "rc_disconnect p w = Inr ?w"
    using st f(5) w2(1) c2 delete_all_empties [OF assms(7)] delete_all_empties [OF assms(8)]
    by (simp add: rc_disconnect_def e)
  moreover have "ids_ok ?w" using w2(2) by (rule ids_ok_cong) simp_all
  moreover have "by_qp ?w = by_qp w2" "by_addr ?w = by_addr w2" by (simp_all add: by_qp_def by_addr_def)
  moreover have "ctx_of p ?w = Inr ((entered RC_CONNECTION_TERMINATED c)\<lparr>pendings := None, buffer_bindings := None\<rparr>)"
    using c2 by simp
  moreover have "s_ctx ?w \<noteq> None" using w2(3) by simp
  ultimately show ?thesis using w2(4,5) by metis
qed

end
