(* ===== verification/Mr_Correct.thy ===== *)
theory Mr_Correct
  imports Conn_Ids
begin

text \<open>
  Memory regions: the waits of the accessors end, what a connection announces to its peer is what the
  peer learns, regions are registered once and shared, and the regions are announced in order.
\<close>

section \<open>Waiting\<close>

text \<open>One round of a wait: a sleep, then what the other threads did.\<close>

definition pause :: "(world \<Rightarrow> world) \<Rightarrow> world \<Rightarrow> world" where
  "pause tick w = tick (emit (Sleep 1) w)"

lemma funpow_pause: "(pause tick ^^ k) (tick (emit (Sleep 1) w)) = (pause tick ^^ Suc k) w"
  by (simp add: pause_def funpow_swap1)

lemma await_step:
  "await tick ready msg n w = bindR (ready w) (\<lambda>r.
     if r \<noteq> 0 then Inr (n, w)
     else case n of 0 \<Rightarrow> Inl (Die msg) | Suc t \<Rightarrow> await tick ready msg t (pause tick w))"
  unfolding pause_def by (rule await.simps)

text \<open>The wait ends at the first check that succeeds, within the timeout.\<close>

lemma await_succeeds:
  assumes "\<And>j. j < k \<Longrightarrow> ready ((pause tick ^^ j) w) = Inr 0" and "k \<le> n"
    and "ready ((pause tick ^^ k) w) = Inr r" and "r \<noteq> 0"
  shows "await tick ready msg n w = Inr (n - k, (pause tick ^^ k) w)"
  using assms
proof (induction k arbitrary: n w)
  case 0
  then show ?case by (subst await_step) simp
next
  case (Suc k)
  then obtain m where m: "n = Suc m" by (cases n) auto
  have r0: "ready w = Inr 0" using Suc.prems(1) [of 0] by simp
  have "await tick ready msg m (pause tick w) = Inr (m - k, (pause tick ^^ k) (pause tick w))"
  proof (rule Suc.IH)
    show "ready ((pause tick ^^ j) (pause tick w)) = Inr 0" if "j < k" for j
      using Suc.prems(1) [of "Suc j"] that by (simp add: funpow_swap1)
  qed (use Suc.prems m in \<open>simp_all add: funpow_swap1\<close>)
  then show ?case by (subst await_step) (simp add: r0 m funpow_swap1)
qed

text \<open>When every check within the timeout fails, the process ends with the message.\<close>

lemma await_dies:
  assumes "\<And>j. j \<le> n \<Longrightarrow> ready ((pause tick ^^ j) w) = Inr 0"
  shows "await tick ready msg n w = Inl (Die msg)"
  using assms
proof (induction n arbitrary: w)
  case 0
  then show ?case by (subst await_step) (simp add: "0" [of 0, simplified])
next
  case (Suc n)
  have "await tick ready msg n (pause tick w) = Inl (Die msg)"
  proof (rule Suc.IH)
    show "ready ((pause tick ^^ j) (pause tick w)) = Inr 0" if "j \<le> n" for j
      using Suc.prems [of "Suc j"] that by (simp add: funpow_swap1)
  qed
  then show ?case using Suc.prems [of 0] by (subst await_step) simp
qed

section \<open>The accessors\<close>

text \<open>The connection behind a socket is at least active.\<close>

lemma rc_active_slots:
  assumes "conn_inv w" and "i < 1000" and "slots w ! i = Some p" and "ctx_of p w = Inr c"
  shows "rc_active (int i) w = Inr (if state c \<ge> RC_CONNECTION_ACTIVE then 1 else 0)"
proof -
  obtain bm ids where bm: "s_conn_bitmap w = Some bm" "s_conn_ids w = Some ids"
    "length bm = 1000" "length ids = 1000" using assms(1) by (rule conn_invE)
  have "ids ! i = p" using assms(2,3) bm by (simp add: nth_slots split: if_splits)
  moreover have "p \<noteq> 0" using assms(4) by (simp add: ctx_of_eq_Inr)
  ultimately show ?thesis
    using get_connection_slots [OF assms(1), of "int i"] assms(2-4) bm
    by (simp add: rc_active_def state_query_def conn_id_at_def)
qed

text \<open>An accessor sleeps until its connection is active, then until the region is known, ten seconds
  in all, and returns what the region says.\<close>

lemma mr_get_returns:
  fixes w :: world and tick :: "world \<Rightarrow> world"
  defines "at \<equiv> \<lambda>k. (pause tick ^^ k) w"
  assumes "\<And>i. i < j \<Longrightarrow> rc_active sock (at i) = Inr 0" and "rc_active sock (at j) = Inr a" "a \<noteq> 0"
    and "get_connection sock (at j) = Inr p"
    and "\<And>i. i \<le> k \<Longrightarrow> ctx_of p (at (j + i)) = Inr (c i)"
    and "\<And>i. i < k \<Longrightarrow> ready (c i) = Inr 0" and "ready (c k) = Inr r" "r \<noteq> 0"
    and "get (c k) = Inr x" and "j + k \<le> 10"
  shows "mr_get tick ready m1 m2 get sock w = Inr (x, at (j + k))"
proof -
  have 1: "await tick (rc_active sock) m1 10 w = Inr (10 - j, at j)"
    unfolding at_def using assms by (intro await_succeeds [of j]) (auto simp: at_def)
  have shift: "(pause tick ^^ i) (at j) = at (j + i)" for i
    by (simp add: at_def funpow_add add.commute [of j])
  have 2: "await tick (\<lambda>w. bindR (ctx_of p w) ready) m2 (10 - j) (at j) = Inr (10 - j - k, at (j + k))"
    using assms(6-9,11) await_succeeds [of k "\<lambda>w. bindR (ctx_of p w) ready" tick "at j" "10 - j" r m2]
    by (simp add: shift)
  show ?thesis
    using 1 2 assms(5) assms(6) [of 0] assms(6) [of k] assms(10) by (simp add: mr_get_def)
qed

lemma mr_get_inactive:
  assumes "\<And>i. i \<le> 10 \<Longrightarrow> rc_active sock ((pause tick ^^ i) w) = Inr 0"
  shows "mr_get tick ready m1 m2 get sock w = Inl (Die m1)"
  using await_dies [where ready = "rc_active sock" and n = 10, OF assms] by (simp add: mr_get_def)

section \<open>Bounds of the region tables\<close>

definition region_arrays :: "conn_context \<Rightarrow> bool" where
  "region_arrays c \<longleftrightarrow> length (local_mr c) = 2 \<and> length (remote_mr c) = 2 \<and>
     length (local_mr_ready c) = 2 \<and> length (remote_mr_ready c) = 2 \<and> length (local_mr_sent c) = 2"

lemma region_arrays_new [simp]: "region_arrays (new_context p s ty al fl)"
  by (simp add: region_arrays_def new_context_def MAX_MR_def)

lemma mr_local_ready_in:
  "region_arrays c \<Longrightarrow> 0 \<le> i \<Longrightarrow> i < 2 \<Longrightarrow>
   mr_local_ready c i = Inr (if local_mr_ready c ! nat i \<noteq> 0 then 1 else 0)"
  by (auto simp: mr_local_ready_def region_arrays_def MAX_MR_def)

lemma mr_remote_ready_in:
  "region_arrays c \<Longrightarrow> 0 \<le> i \<Longrightarrow> i < 2 \<Longrightarrow>
   mr_remote_ready c i = Inr (if remote_mr_ready c ! nat i \<noteq> 0 then 1 else 0)"
  by (auto simp: mr_remote_ready_def region_arrays_def MAX_MR_def)

lemma mr_ready_MAX_MR:
  "region_arrays c \<Longrightarrow> mr_local_ready c MAX_MR = Inl (Fault OutOfBounds)"
  "region_arrays c \<Longrightarrow> mr_remote_ready c MAX_MR = Inl (Fault OutOfBounds)"
  by (simp_all add: mr_local_ready_def mr_remote_ready_def region_arrays_def MAX_MR_def read_int_def read_at_def)

section \<open>What the peer announced\<close>

text \<open>The first \<open>n\<close> announced regions, over what was known.\<close>

definition announced :: "u64 list \<Rightarrow> u64 list \<Rightarrow> u32 list \<Rightarrow> nat \<Rightarrow> mr_context" where
  "announced addrs lens rkeys i =
     \<lparr>mr_type = int i, mr_addr = addrs ! i, mr_length = lens ! i, mr_lkey = 0, mr_rkey = rkeys ! i,
      mr_physical = 0\<rparr>"

lemma upto_Suc: "0 \<le> k \<Longrightarrow> [0..k] = [0..k - 1] @ [k]"
  by (simp add: upto_rec2)

lemma two_elements: "length xs = 2 \<Longrightarrow> (\<And>a b. xs = [a, b] \<Longrightarrow> P) \<Longrightarrow> P"
  by (cases xs; cases "tl xs") auto

lemma two_lists: "replicate 2 x = [x, x]" "[0..<2] = [0, 1 :: nat]"
  by (simp_all add: numeral_2_eq_2)

lemma mr_remote_update_prefix:
  assumes "region_arrays c" and "length addrs = 2" "length lens = 2" "length rkeys = 2" and "n \<le> 2"
  shows "mr_remote_update addrs lens rkeys (int n) c =
    Inr (c\<lparr>remote_mr := map (\<lambda>i. Some (announced addrs lens rkeys i)) [0..<n] @ drop n (remote_mr c),
           remote_mr_ready := replicate n 1 @ drop n (remote_mr_ready c)\<rparr>)"
proof -
  have n: "n = 0 \<or> n = 1 \<or> n = 2" using assms(5) by auto
  obtain a b where "remote_mr c = [a, b]"
    using two_elements [of "remote_mr c"] assms(1) unfolding region_arrays_def by blast
  moreover obtain d e where "remote_mr_ready c = [d, e]"
    using two_elements [of "remote_mr_ready c"] assms(1) unfolding region_arrays_def by blast
  ultimately show ?thesis
    using n assms(2-4)
    by (elim disjE)
      (simp_all add: mr_remote_update_def mr_remote_update_one_def announced_def upto_rec1 two_lists)
qed

lemma mr_remote_update_overrun:
  assumes "region_arrays c" and "length addrs = 2" "length lens = 2" "length rkeys = 2" and "n > 2"
  shows "mr_remote_update addrs lens rkeys n c = Inl (Fault OutOfBounds)"
proof -
  have "[0..n - 1] = 0 # 1 # 2 # [3..n - 1]" using assms(5) by (simp add: upto_rec1)
  then show ?thesis
    using assms(1-4)
    by (simp add: region_arrays_def mr_remote_update_def mr_remote_update_one_def read_int_def read_at_def write_int_def write_at_def)
qed

section \<open>What a connection announces\<close>

lemma meta_add_in:
  assumes "0 \<le> i" "i < 2" "length (meta_addr m) = 2" "length (meta_length m) = 2"
    "length (meta_rkey m) = 2" "local_region i c = Inr r"
  shows "meta_add c i m = Inr (m\<lparr>meta_addr := (meta_addr m)[nat i := reg_addr r],
    meta_length := (meta_length m)[nat i := reg_length r], meta_rkey := (meta_rkey m)[nat i := reg_rkey r]\<rparr>)"
  using assms by (simp add: meta_add_def)

text \<open>The announcement carries the address, length and remote key of every local region.\<close>

lemma build_rc_params_ok:
  assumes "ctx_of p w = Inr c" and "num_mrs w = int n" and "n \<le> 2"
    and "\<And>i. i < n \<Longrightarrow> local_region (int i) c = Inr (r i)"
  obtains m where "build_rc_params p w = Inr \<lparr>initiator_depth = 1, responder_resources = 1,
      rnr_retry_count = 7, param_data = \<lparr>private_data = Some m, private_data_len = 56\<rparr>\<rparr>"
    "meta_flags m = flags c" "meta_type m = app_type c" "meta_mr_count m = int n"
    "length (meta_addr m) = 2" "length (meta_length m) = 2" "length (meta_rkey m) = 2"
    "\<And>i. i < n \<Longrightarrow> meta_addr m ! i = reg_addr (r i) \<and> meta_length m ! i = reg_length (r i) \<and>
       meta_rkey m ! i = reg_rkey (r i)"
proof -
  have "n = 0 \<or> n = 1 \<or> n = 2" using assms(3) by auto
  then consider "n = 0" | "n = 1" | "n = 2" by auto
  then show thesis
  proof cases
    case 1
    then show ?thesis
      using that assms(1,2) by (simp add: build_rc_params_def MAX_MR_def sizeof_rc_metadata_def)
  next
    case 2
    then show ?thesis
      using that assms(1,2) assms(4) [of 0]
      by (simp add: build_rc_params_def MAX_MR_def sizeof_rc_metadata_def meta_add_in [where r = "r 0"])
  next
    case 3
    let ?m = "\<lparr>meta_flags = flags c, meta_type = app_type c, meta_mr_count = 2,
      meta_addr = [reg_addr (r 0), reg_addr (r 1)], meta_length = [reg_length (r 0), reg_length (r 1)],
      meta_rkey = [reg_rkey (r 0), reg_rkey (r 1)]\<rparr>"
    have "build_rc_params p w = Inr \<lparr>initiator_depth = 1, responder_resources = 1,
      rnr_retry_count = 7, param_data = \<lparr>private_data = Some ?m, private_data_len = 56\<rparr>\<rparr>"
      using assms(1,2) assms(4) [of 0] assms(4) [of 1] 3
      by (simp add: two_lists build_rc_params_def MAX_MR_def sizeof_rc_metadata_def upto_rec1
          meta_add_in [where r = "r 0"] meta_add_in [where r = "r 1"])
    then show ?thesis by (rule that) (auto simp: 3 less_2_cases_iff)
  qed
qed

text \<open>What one side announces in its request or reply is what the other side knows of it after the
  exchange: every region with its address, length and remote key.\<close>

lemma announce_update:
  assumes "ctx_of p w = Inr c" and "num_mrs w = int n" and "n \<le> 2"
    and "\<And>i. i < n \<Longrightarrow> local_region (int i) c = Inr (r i)"
    and "build_rc_params p w = Inr ps" and "region_arrays d"
  obtains m d' where "peer_meta (Some (param_data ps)) = Inr (Some m)"
    "mr_remote_update (meta_addr m) (meta_length m) (meta_rkey m) (meta_mr_count m) d = Inr d'"
    "region_arrays d'"
    "\<And>i. i < n \<Longrightarrow> mr_remote_ready d' (int i) = Inr 1 \<and>
       remote_region (int i) d' = Inr \<lparr>mr_type = int i, mr_addr = reg_addr (r i),
         mr_length = reg_length (r i), mr_lkey = 0, mr_rkey = reg_rkey (r i), mr_physical = 0\<rparr>"
    "\<And>i. n \<le> i \<Longrightarrow> i < 2 \<Longrightarrow> mr_remote_ready d' (int i) = mr_remote_ready d (int i)"
proof -
  obtain m where b: "build_rc_params p w = Inr \<lparr>initiator_depth = 1, responder_resources = 1,
      rnr_retry_count = 7, param_data = \<lparr>private_data = Some m, private_data_len = 56\<rparr>\<rparr>"
    and m: "meta_mr_count m = int n" "length (meta_addr m) = 2" "length (meta_length m) = 2"
    "length (meta_rkey m) = 2" "\<And>i. i < n \<Longrightarrow> meta_addr m ! i = reg_addr (r i) \<and>
       meta_length m ! i = reg_length (r i) \<and> meta_rkey m ! i = reg_rkey (r i)"
    by (rule build_rc_params_ok [OF assms(1-4)]) (assumption | (rule that; assumption))+
  have ps: "ps = \<lparr>initiator_depth = 1, responder_resources = 1, rnr_retry_count = 7,
      param_data = \<lparr>private_data = Some m, private_data_len = 56\<rparr>\<rparr>"
    using b assms(5) by simp
  let ?d = "d\<lparr>remote_mr := map (\<lambda>i. Some (announced (meta_addr m) (meta_length m) (meta_rkey m) i)) [0..<n] @
      drop n (remote_mr d), remote_mr_ready := replicate n 1 @ drop n (remote_mr_ready d)\<rparr>"
  have upd: "mr_remote_update (meta_addr m) (meta_length m) (meta_rkey m) (meta_mr_count m) d = Inr ?d"
    unfolding m(1) by (rule mr_remote_update_prefix [OF assms(6) m(2-4) assms(3)])
  have arr: "region_arrays ?d" using assms(3,6) by (simp add: region_arrays_def)
  show thesis
  proof (rule that [OF _ upd arr])
    show "peer_meta (Some (param_data ps)) = Inr (Some m)"
      by (simp add: ps peer_meta_def sizeof_rc_metadata_def)
    fix i
    show "mr_remote_ready ?d (int i) = Inr 1 \<and> remote_region (int i) ?d = Inr \<lparr>mr_type = int i,
        mr_addr = reg_addr (r i), mr_length = reg_length (r i), mr_lkey = 0, mr_rkey = reg_rkey (r i),
        mr_physical = 0\<rparr>" if "i < n"
      using that assms(3,6) m(5) [OF that] mr_remote_ready_in [OF arr, of "int i"]
      by (simp add: remote_region_def region_arrays_def nth_append announced_def)
    show "mr_remote_ready ?d (int i) = mr_remote_ready d (int i)" if "n \<le> i" "i < 2"
      using that assms(3,6) mr_remote_ready_in [OF arr, of "int i"] mr_remote_ready_in [OF assms(6), of "int i"]
      by (simp add: region_arrays_def nth_append)
  qed
qed

section \<open>Registration\<close>

text \<open>A region the process registered before is shared: no call is made, the connection gets it.\<close>

lemma mr_register_one_shared:
  assumes "ctx_of p w = Inr c" and "region_arrays c" and "length (mr_regions w) = 2"
    and "i < 2" and "mr_regions w ! i = Some r"
  shows "mr_register_one E p ms (int i) w =
    Inr (set_ctx p (c\<lparr>local_mr := (local_mr c)[i := Some r],
      local_mr_ready := (local_mr_ready c)[i := 1]\<rparr>) w)"
  using assms by (simp add: mr_register_one_def MAX_MR_def region_arrays_def)

text \<open>A new one is registered once, with every access right, in the protection domain of the
  connection's device.\<close>

lemma mr_register_one_new:
  assumes "ctx_of p w = Inr c" and "region_arrays c" and "length (mr_regions w) = 2"
    and "i < 2" and "mr_regions w ! i = None" and "i < length ms" and "mr_physical (ms ! i) = 0"
    and "rc_get_pd (ctx_id c) w = Inr pd" and "ans_reg_mr E (length (trace w)) = Some r"
  shows "mr_register_one E p ms (int i) w =
    Inr (set_ctx p (c\<lparr>local_mr := (local_mr c)[i := Some r],
        local_mr_ready := (local_mr_ready c)[i := 1]\<rparr>)
      ((emit (IbvRegMr pd (mr_addr (ms ! i)) (mr_length (ms ! i)) ALL_ACCESS) w)
        \<lparr>mr_regions := (mr_regions w)[i := Some r]\<rparr>))"
  using assms by (simp add: mr_register_one_def MAX_MR_def region_arrays_def call_def emit_def)

section \<open>Announcing region after region\<close>

text \<open>The index of the region announced next: the next ready one, or -1.\<close>

lemma mr_next_to_sync_ok:
  assumes "region_arrays c" and "0 \<le> local_mr_to_sync c" and "local_mr_to_sync c < 2"
    and "local_mr_ready c ! nat (local_mr_to_sync c) \<noteq> 0"
  shows "mr_next_to_sync c = Inr (local_mr_to_sync c, c\<lparr>local_mr_to_sync :=
    (if local_mr_to_sync c = 0 \<and> local_mr_ready c ! 1 \<noteq> 0 then 1 else - 1)\<rparr>)"
proof -
  have i: "local_mr_to_sync c = 0 \<or> local_mr_to_sync c = 1" using assms(2,3) by auto
  have f: "find_from p xs 2 2 = Inr (- 1)" for p xs by (subst find_from.simps) simp
  have g: "find_from (\<lambda>x. x \<noteq> 0) xs 1 2 = Inr (if xs ! 1 \<noteq> 0 then 1 else - 1)" if "length xs = 2" for xs
    using that f by (subst find_from.simps) simp
  show ?thesis
    using i assms(1,4) f g
    by (elim disjE) (simp_all add: mr_next_to_sync_def region_arrays_def MAX_MR_def find_next_set_bit_def)
qed

lemma mr_next_to_sync_done:
  "local_mr_to_sync c = - 1 \<Longrightarrow> mr_next_to_sync c = Inl (Fault OutOfBounds)"
  by (simp add: mr_next_to_sync_def read_int_def)

end
