(* ===== verification/Verbs_Correct.thy ===== *)
theory Verbs_Correct
  imports Post_Correct Mr_Correct
begin

text \<open>
  The operations of \<open>src/rdma/verbs.c\<close>: what each of them hands to the adapter, how requests are
  numbered and counted, batches, broadcasts, chains of cross-channel requests, and the search for an
  entry.
\<close>

section \<open>Posting one request\<close>

text \<open>A connection that can post: it is who it says it is, its queue is set up, and the adapter takes
  the next request.\<close>

definition can_post :: "env \<Rightarrow> nat \<Rightarrow> world \<Rightarrow> conn_context \<Rightarrow> ibv_qp \<Rightarrow> nat \<Rightarrow> bool" where
  "can_post E p w c q cnt \<longleftrightarrow>
     ctx_of p w = Inr c \<and> qp_of p w = Inr q \<and> ctx_id c = p \<and> counter_ok c cnt \<and>
     ans_post_send E (length (trace w)) = 0"

lemma cm_qp_of: "qp_of p w = Inr q \<Longrightarrow> \<exists>i. cm_id_at p w = Inr i \<and> cm_qp i = Some q"
  by (auto simp: qp_of_eq_Inr cm_id_at_def)

lemma cm_qp_set_ctx:
  "qp_of p w = Inr q \<Longrightarrow> \<exists>i. cm_id_at p (set_ctx r c w) = Inr i \<and> cm_qp i = Some q"
  using cm_qp_of [of p "set_ctx r c w" q] by simp

lemma counter_ok_simps [simp]:
  "counter_ok (c\<lparr>n_posted_ops := n\<rparr>) cnt = counter_ok c cnt"
  "counter_ok (c\<lparr>last_send := l\<rparr>) cnt = counter_ok c cnt"
  by (simp_all add: counter_ok_def)

lemma post_or_die_ok:
  assumes "ctx_of p w = Inr c" and "qp_of p w = Inr q" and "ctx_id c = p" and "counter_ok c cnt"
    and "wr_ok wr" and "length (sges wr) \<le> 16" and "ans_post_send E (length (trace w)) = 0"
  shows "post_or_die E p (wr # wrs) w =
    Inr (emit (IbvPostSend (Some q) (wr # wrs)) (set_ctx p (advanced cnt wr c) w))"
proof -
  obtain i where "cm_id_at p w = Inr i" "cm_qp i = Some q" using cm_qp_of [OF assms(2)] by blast
  then show ?thesis
    using assms update_scur_post_eq [OF assms(4,5)]
    by (simp add: post_or_die_def ibv_post_send_wrapper_def call_def emit_def)
qed

text \<open>The common end of the asynchronous operations: the request is counted, posted on the queue
  pair of the connection, and its number returned.\<close>

lemma count_and_post_ok:
  assumes "can_post E p w c q cnt" and "wr_ok wr" and "length (sges wr) \<le> 16"
    and "counter_ok d cnt" and "ctx_id d = p"
  shows "count_and_post E p d wr w = Inr (ucast (wr_id wr),
    emit (IbvPostSend (Some q) [wr])
      (set_ctx p (advanced cnt wr (d\<lparr>n_posted_ops := n_posted_ops d + 1\<rparr>)) w))"
  using assms post_or_die_ok [of p "set_ctx p (d\<lparr>n_posted_ops := n_posted_ops d + 1\<rparr>) w"
      "d\<lparr>n_posted_ops := n_posted_ops d + 1\<rparr>" q cnt wr E "[]"]
  by (simp add: count_and_post_def can_post_def)

text \<open>An adapter that refuses the request ends the process.\<close>

lemma count_and_post_refused:
  assumes "ctx_of p w = Inr c" and "qp_of p w = Inr q" and "ctx_id d = p" and "counter_ok d cnt"
    and "wr_ok wr" and "length (sges wr) \<le> 16" and "ans_post_send E (length (trace w)) \<noteq> 0"
  shows "count_and_post E p d wr w = Inl (Die ''failed to post rdma operation'')"
proof -
  obtain i where "cm_id_at p (set_ctx p (d\<lparr>n_posted_ops := n_posted_ops d + 1\<rparr>) w) = Inr i"
    using cm_qp_set_ctx [OF assms(2)] by blast
  then show ?thesis
    using assms update_scur_post_eq [of "d\<lparr>n_posted_ops := n_posted_ops d + 1\<rparr>" cnt wr]
    by (simp add: count_and_post_def post_or_die_def ibv_post_send_wrapper_def call_def)
qed

section \<open>The requests\<close>

definition cas_request :: "env \<Rightarrow> u32 \<Rightarrow> u64 \<Rightarrow> u64 \<Rightarrow> u64 \<Rightarrow> u64 \<Rightarrow> u64 \<Rightarrow> u64 \<Rightarrow> int \<Rightarrow> send_wr" where
  "cas_request E n src dst compare swap lkey rkey fence = zero_wr\<lparr>wr_id := ucast n,
     sg_list := Some [\<lparr>sg_addr = src, sg_length = 8, sg_lkey = ucast lkey\<rparr>], num_sge := 1,
     atomic_compare_add := compare, atomic_swap := swap, atomic_remote_addr := dst,
     atomic_rkey := ucast rkey,
     send_flags := IBV_SEND_SIGNALED (abi E) OR (if fence \<noteq> 0 then IBV_SEND_FENCE (abi E) else 0),
     exp_opcode := IBV_EXP_WR_ATOMIC_CMP_AND_SWP\<rparr>"

lemma ucast_wr_id [simp]: "(ucast (ucast n :: u64) :: u32) = n" for n :: u32
  by (rule bit_word_eqI) (auto simp: bit_simps dest: bit_imp_le_length)

text \<open>The connection after an operation that numbers and posts one request.\<close>

definition after_post :: "nat \<Rightarrow> send_wr \<Rightarrow> conn_context \<Rightarrow> conn_context" where
  "after_post cnt wr c = advanced cnt wr
     (c\<lparr>last_send := last_send c + 1, n_posted_ops := n_posted_ops c + 1\<rparr>)"

lemma IBV_CAS_ASYNC_posts:
  assumes "get_connection s w = Inr p" and "can_post E p w c q cnt"
    and "wr = cas_request E (last_send c + 1) src dst cmpv swp lk rk f"
  shows "IBV_CAS_ASYNC E s src dst cmpv swp lk rk f w = Inr (last_send c + 1,
    emit (IbvPostSend (Some q) [wr]) (set_ctx p (after_post cnt wr c) w))"
proof -
  have ok: "wr_ok wr" "length (sges wr) \<le> 16" by (simp_all add: assms(3) cas_request_def wr_ok_def sges_def)
  have "sock_ctx s w = Inr (p, c)" using assms(1,2) by (simp add: sock_ctx_eq_Inr can_post_def)
  moreover have "wr_id wr = ucast (last_send c + 1)" by (simp add: assms(3) cas_request_def)
  ultimately show ?thesis
    using count_and_post_ok [OF assms(2) ok, of "c\<lparr>last_send := last_send c + 1\<rparr>"] assms(2)
    by (simp add: IBV_CAS_ASYNC_def Let_def after_post_def can_post_def assms(3) cas_request_def)
qed

section \<open>Reversing the bytes\<close>

text \<open>What the adapter reads through a scatter list, in order.\<close>

definition gather :: "memory \<Rightarrow> ibv_sge list \<Rightarrow> u8 list" where
  "gather m es = concat (map (\<lambda>s. bytes_at m (unat (sg_addr s)) (unat (sg_length s))) es)"

lemma rev_bytes: "rev (map f [0..<n]) = map (\<lambda>i. f (n - 1 - i)) [0..<n]"
  by (rule nth_equalityI) (simp_all add: rev_nth)

lemma gather_reversed:
  assumes "unat src + unat len < 2 ^ 64"
  shows "gather m (reversed_sges src len lk) = rev (bytes_at m (unat src) (unat len))"
proof -
  let ?b = "\<lambda>a. case m a of None \<Rightarrow> 0 | Some b \<Rightarrow> b"
  have addr: "unat (src + len - 1 - of_nat i) = unat src + (unat len - 1 - i)" if "i < unat len" for i
  proof -
    let ?n = "unat src + (unat len - 1 - i)"
    have "src + len - 1 - of_nat i = (of_nat ?n :: u64)" using that by (simp add: of_nat_diff)
    then have "unat (src + len - 1 - of_nat i) = unat (of_nat ?n :: u64)" by (rule arg_cong)
    moreover have "?n < 2 ^ 64" using assms by linarith
    then have "unat (of_nat ?n :: u64) = ?n" by (simp only: unat_of_nat) (simp add: take_bit_eq_mod)
    ultimately show ?thesis by (rule trans)
  qed
  have "gather m (reversed_sges src len lk) =
      map (\<lambda>i. ?b (unat (src + len - 1 - of_nat i))) [0..<unat len]"
    by (simp add: gather_def reversed_sges_def bytes_at_def comp_def concat_map_singleton)
  also have "\<dots> = map (\<lambda>i. ?b (unat src + (unat len - 1 - i))) [0..<unat len]"
    using addr by (intro map_cong) simp_all
  also have "\<dots> = rev (bytes_at m (unat src) (unat len))"
    unfolding bytes_at_def by (rule rev_bytes [symmetric])
  finally show ?thesis .
qed

definition endian_request :: "env \<Rightarrow> u32 \<Rightarrow> u64 \<Rightarrow> u64 \<Rightarrow> u64 \<Rightarrow> u64 \<Rightarrow> u64 \<Rightarrow> send_wr" where
  "endian_request E n src dst len lkey rkey = zero_wr\<lparr>exp_opcode := IBV_EXP_WR_RDMA_READ,
     wr_id := ucast n, sg_list := Some (reversed_sges src len lkey), num_sge := int (unat len),
     rdma_rkey := ucast rkey, rdma_remote_addr := dst, send_flags := IBV_SEND_SIGNALED (abi E)\<rparr>"

lemma IBV_CONVERT_ENDIAN_ASYNC_posts:
  assumes "get_connection s w = Inr p" and "can_post E p w c q cnt" and "len \<le> 16"
    and "wr = endian_request E (last_send c + 1) src dst len lk rk"
  shows "IBV_CONVERT_ENDIAN_ASYNC E s src dst len lk rk w = Inr (last_send c + 1,
    emit (IbvPostSend (Some q) [wr]) (set_ctx p (after_post cnt wr c) w))"
proof -
  have l: "unat len \<le> 16" using assms(3) by (simp add: word_le_nat_alt)
  then have ok: "wr_ok wr" "length (sges wr) \<le> 16"
    by (simp_all add: assms(4) endian_request_def wr_ok_def sges_def reversed_sges_def)
  have "sock_ctx s w = Inr (p, c)" using assms(1,2) by (simp add: sock_ctx_eq_Inr can_post_def)
  moreover have "wr_id wr = ucast (last_send c + 1)" by (simp add: assms(4) endian_request_def)
  moreover have "\<not> 16 < len" using assms(3) by simp
  ultimately show ?thesis
    using count_and_post_ok [OF assms(2) ok, of "c\<lparr>last_send := last_send c + 1\<rparr>"] assms(2)
    by (simp add: IBV_CONVERT_ENDIAN_ASYNC_def Let_def after_post_def can_post_def assms(4) endian_request_def)
qed

section \<open>Batches\<close>

text \<open>The key of a local region in the first entries of a scatter list.\<close>

lemma set_lkey_fold:
  assumes "int k \<le> n" and "n \<le> int (length es)"
  shows "foldR (set_lkey key) [int k..n - 1] (map (\<lambda>s. s\<lparr>sg_lkey := key\<rparr>) (take k es) @ drop k es) =
    Inr (map (\<lambda>s. s\<lparr>sg_lkey := key\<rparr>) (take (nat n) es) @ drop (nat n) es)"
  using assms
proof (induction "nat n - k" arbitrary: k)
  case 0
  then have "k = nat n" by simp
  then show ?case using 0 by simp
next
  case (Suc m)
  then have k: "int k < n" "k < length es" by auto
  let ?f = "\<lambda>s. s\<lparr>sg_lkey := key\<rparr>"
  have step: "set_lkey key (int k) (map ?f (take k es) @ drop k es) =
      Inr (map ?f (take (Suc k) es) @ drop (Suc k) es)"
    using k(2) by (simp add: set_lkey_def nth_append list_update_append take_Suc_conv_app_nth
        Cons_nth_drop_Suc [symmetric])
  have "[int k..n - 1] = int k # [int (Suc k)..n - 1]" using k(1) by (simp add: upto_rec1 add.commute)
  then show ?case using step Suc.hyps(1) [of "Suc k"] Suc.hyps(2) k Suc.prems by simp
qed

lemma set_lkeys_ok:
  assumes "local_region l c = Inr r" and "n = int (length es)"
  shows "set_lkeys c l n es = Inr (map (\<lambda>s. s\<lparr>sg_lkey := reg_lkey r\<rparr>) es)"
  using assms set_lkey_fold [of 0 n es "reg_lkey r"] by (simp add: set_lkeys_def)

text \<open>The request an entry of a batch becomes: numbered, signalled, with the local key everywhere and
  the remote address and key where the operation is one-sided.\<close>

definition batch_request ::
  "env \<Rightarrow> ibv_mr \<Rightarrow> (u64 \<times> u32) \<Rightarrow> wr_opcode \<Rightarrow> u32 \<Rightarrow> rdma_metadata \<Rightarrow> send_wr" where
  "batch_request E r remote op n md = zero_wr\<lparr>
     rdma_remote_addr := fst remote, rdma_rkey := snd remote, wr_id := ucast n, exp_opcode := op,
     send_flags := IBV_SEND_SIGNALED (abi E), num_sge := md_sge_count md,
     sg_list := (if md_sge_count md \<noteq> 0
                 then Some (map (\<lambda>s. s\<lparr>sg_lkey := reg_lkey r\<rparr>) (md_sge_entries md)) else None),
     imm_data := (if op = IBV_EXP_WR_RDMA_WRITE_WITH_IMM \<or> op = IBV_EXP_WR_SEND_WITH_IMM
                  then htonl (md_imm md) else 0)\<rparr>"

definition remote_of :: "wr_opcode \<Rightarrow> mr_context \<Rightarrow> rdma_metadata \<Rightarrow> u64 \<times> u32" where
  "remote_of op rr md = (if op_one_sided op \<noteq> 0 then (md_addr md, mr_rkey rr) else (0, 0))"

text \<open>Consecutive numbers from the next one on, one request per entry, in order.\<close>

definition batch_requests ::
  "env \<Rightarrow> ibv_mr \<Rightarrow> mr_context \<Rightarrow> wr_opcode \<Rightarrow> u32 \<Rightarrow> rdma_metadata list \<Rightarrow> send_wr list" where
  "batch_requests E r rr op n mds =
     map (\<lambda>i. batch_request E r (remote_of op rr (mds ! i)) op (n + 1 + of_nat i) (mds ! i)) [0..<length mds]"

lemma batch_requests_Cons:
  "batch_requests E r rr op n (md # mds) =
   batch_request E r (remote_of op rr md) op (n + 1) md # batch_requests E r rr op (n + 1) mds"
  by (simp add: batch_requests_def map_upt_Suc add.assoc del: upt_Suc)

lemma batch_wrs_ok:
  assumes "local_region l c = Inr r" and "op_one_sided op \<noteq> 0 \<Longrightarrow> remote_region rm c = Inr rr"
    and "list_all (\<lambda>md. md_sge_count md = int (length (md_sge_entries md))) mds"
  shows "batch_wrs E l rm op mds c = Inr (batch_requests E r rr op (last_send c) mds,
    c\<lparr>last_send := last_send c + of_nat (length mds),
      n_posted_ops := n_posted_ops c + of_nat (length mds)\<rparr>)"
  using assms
proof (induction mds arbitrary: c)
  case Nil
  then show ?case by (simp add: batch_requests_def)
next
  case (Cons md mds)
  let ?c = "c\<lparr>last_send := last_send c + 1, n_posted_ops := n_posted_ops c + 1\<rparr>"
  have one: "batch_wr E l rm op md c =
      Inr (batch_request E r (remote_of op rr md) op (last_send c + 1) md, ?c)"
    using Cons.prems
    by (simp add: batch_wr_def set_lkeys_ok batch_request_def remote_of_def Let_def)
  have same: "local_region l ?c = local_region l c" "remote_region rm ?c = remote_region rm c"
    by (simp_all add: local_region_def remote_region_def)
  have "batch_wrs E l rm op mds ?c = Inr (batch_requests E r rr op (last_send c + 1) mds,
      ?c\<lparr>last_send := last_send c + 1 + of_nat (length mds),
         n_posted_ops := n_posted_ops c + 1 + of_nat (length mds)\<rparr>)"
    using Cons.IH [of ?c] Cons.prems unfolding same by simp
  then show ?case using one by (simp add: batch_requests_Cons add.assoc)
qed

text \<open>A batch on a connection whose regions are known: one chain of consecutively numbered requests
  goes to the adapter, and the number of the last is returned.\<close>

lemma send_rdma_operation_posts:
  assumes "can_post E p w c q cnt" and "l \<le> MAX_MR" "rm \<le> MAX_MR"
    and "keys_ready p l rm op w = Inr 1" and "local_region l c = Inr r"
    and "op_one_sided op \<noteq> 0 \<Longrightarrow> remote_region rm c = Inr rr"
    and "list_all (\<lambda>md. md_sge_count md = int (length (md_sge_entries md)) \<and> md_sge_count md \<le> 16) mds"
    and "mds \<noteq> []"
    and wrs: "wrs = batch_requests E r rr op (last_send c) mds"
  shows "send_rdma_operation E tick p mds l rm op w = Inr (last_send c + of_nat (length mds),
    emit (IbvPostSend (Some q) wrs) (set_ctx p (advanced cnt (hd wrs)
      (c\<lparr>last_send := last_send c + of_nat (length mds),
         n_posted_ops := n_posted_ops c + of_nat (length mds)\<rparr>)) w))"
proof -
  let ?c = "c\<lparr>last_send := last_send c + of_nat (length mds),
    n_posted_ops := n_posted_ops c + of_nat (length mds)\<rparr>"
  have ctx: "ctx_of p w = Inr c" and qp: "qp_of p w = Inr q" and cok: "counter_ok c cnt"
    and ans: "ans_post_send E (length (trace w)) = 0"
    using assms(1) by (auto simp: can_post_def)
  obtain i where i: "cm_id_at p w = Inr i" "cm_qp i = Some q" using cm_qp_of [OF qp] by blast
  have aw: "await tick (keys_ready p l rm op) msg 5 w = Inr (5, w)" for msg
    using assms(4) by (subst await_step) simp
  have batch: "batch_wrs E l rm op mds c = Inr (wrs, ?c)"
    unfolding wrs using assms(7) by (intro batch_wrs_ok [OF assms(5,6)]) (auto simp: list_all_iff)
  obtain md mds' where mds: "mds = md # mds'" using assms(8) by (cases mds) auto
  have hd: "wrs = hd wrs # tl wrs"
    "hd wrs = batch_request E r (remote_of op rr md) op (last_send c + 1) md"
    by (simp_all add: wrs mds batch_requests_Cons)
  have ok: "wr_ok (hd wrs)" "length (sges (hd wrs)) < 2 ^ 20"
    using assms(7) by (auto simp: hd(2) batch_request_def wr_ok_def sges_def mds)
  have upd: "update_scur_post (hd wrs) ?c = Inr (advanced cnt (hd wrs) ?c)"
    using update_scur_post_eq [of ?c cnt "hd wrs"] cok ok by simp
  have "ibv_post_send_wrapper E p (Some q) (hd wrs # tl wrs) (set_ctx p ?c w) =
      Inr (0, emit (IbvPostSend (Some q) (hd wrs # tl wrs)) (set_ctx p (advanced cnt (hd wrs) ?c) w))"
    using upd ctx ans by (simp add: ibv_post_send_wrapper_def call_def emit_def)
  then have post: "ibv_post_send_wrapper E p (Some q) wrs (set_ctx p ?c w) =
      Inr (0, emit (IbvPostSend (Some q) wrs) (set_ctx p (advanced cnt (hd wrs) ?c) w))"
    by (simp only: hd(1) [symmetric])
  have last: "wr_id (last wrs) = ucast (last_send c + of_nat (length mds))"
  proof -
    have "last wrs = wrs ! (length mds - 1)"
      using assms(8) by (simp add: wrs last_conv_nth batch_requests_def)
    also have "\<dots> = batch_request E r (remote_of op rr (mds ! (length mds - 1))) op
        (last_send c + 1 + of_nat (length mds - 1)) (mds ! (length mds - 1))"
      using assms(8) by (simp add: wrs batch_requests_def)
    finally show ?thesis using assms(8) by (simp add: batch_request_def of_nat_diff Suc_leI)
  qed
  have lm: "read_int (local_mr c) l = Inr (Some r)"
    using assms(5) by (auto simp: local_region_def bindR_eq_Inr)
  have rmr: "(if op_one_sided op \<noteq> 0 then bindR (read_int (remote_mr c) rm) (\<lambda>_. Inr ()) else Inr ()) = Inr ()"
    using assms(6) by (auto simp: remote_region_def bindR_eq_Inr)
  show ?thesis
    using i aw ctx batch post last lm rmr assms(2,3,8)
    by (simp add: send_rdma_operation_def cong: if_cong)
qed

section \<open>Broadcasts\<close>

text \<open>The connections at the open sockets above a given one, in socket order.\<close>

definition conns_after :: "int \<Rightarrow> nat option list \<Rightarrow> nat list" where
  "conns_after cur sl = map (\<lambda>i. the (sl ! i)) (filter (\<lambda>i. cur < int i \<and> sl ! i \<noteq> None) [0..<length sl])"

lemma filter_upt_first:
  assumes "find P [0..<n] = Some k"
  shows "filter P [0..<n] = k # filter (\<lambda>i. k < i \<and> P i) [0..<n]"
proof -
  have k: "k < n" "P k" "\<And>j. j < k \<Longrightarrow> \<not> P j" using assms by (auto simp: find_Some_iff)
  have "[0..<n] = [0..<k] @ k # [Suc k..<n]" using k(1) by (metis less_imp_add_positive upt_add_eq_append upt_conv_Cons zero_le less_add_same_cancel1 add.left_neutral)
  moreover have "filter P [0..<k] = []" "filter (\<lambda>i. k < i \<and> P i) [0..<k] = []"
    using k(3) by (auto simp: filter_empty_conv)
  moreover have "filter (\<lambda>i. k < i \<and> P i) [Suc k..<n] = filter P [Suc k..<n]"
    by (rule filter_cong) auto
  ultimately show ?thesis using k(2) by simp
qed

lemma conns_after_next:
  "next_open cur sl = None \<Longrightarrow> conns_after cur sl = []"
  "next_open cur sl = Some k \<Longrightarrow> conns_after cur sl = the (sl ! k) # conns_after (int k) sl"
proof -
  show "conns_after cur sl = []" if "next_open cur sl = None"
    using that by (auto simp: next_open_def conns_after_def find_None_iff filter_empty_conv)
  assume k: "next_open cur sl = Some k"
  then have "cur < int k" by (auto simp: next_open_def find_Some_iff)
  then have "(\<lambda>i. k < i \<and> cur < int i \<and> sl ! i \<noteq> None) = (\<lambda>i. int k < int i \<and> sl ! i \<noteq> None)" by auto
  then show "conns_after cur sl = the (sl ! k) # conns_after (int k) sl"
    using filter_upt_first [OF k [unfolded next_open_def]] by (simp add: conns_after_def)
qed

lemma next_open_SomeD:
  "next_open cur sl = Some k \<Longrightarrow> k < length sl \<and> cur < int k \<and> (\<exists>p. sl ! k = Some p)"
  by (auto simp: next_open_def find_Some_iff)

text \<open>Where the iteration stands: at its end, or at the next open socket.\<close>

lemma at_next_open:
  assumes "p = (case next_open cur sl of None \<Rightarrow> 0 | Some k \<Rightarrow> the (sl ! k))"
  shows "p = 0 \<and> next_open cur sl = None \<or> (\<exists>k. next_open cur sl = Some k \<and> sl ! k = Some p)"
  using assms next_open_SomeD [of cur sl] by (cases "next_open cur sl") auto

text \<open>A broadcast that comes to its end served every open connection once, in socket order.\<close>

text \<open>The walk's position: the connection at the first open socket above \<open>cur\<close>, or the end.\<close>

definition at_walk :: "int \<Rightarrow> nat option list \<Rightarrow> nat \<Rightarrow> bool" where
  "at_walk cur sl p \<longleftrightarrow> p = 0 \<and> next_open cur sl = None \<or>
     (\<exists>k. next_open cur sl = Some k \<and> sl ! k = Some p)"

lemma walk_start:
  assumes "conn_inv w" and "find_next_connection 0 w = Inr p"
  shows "at_walk (- 1) (slots w) p"
proof -
  have "p = (case next_open (- 1) (slots w) of None \<Rightarrow> 0 | Some k \<Rightarrow> the (slots w ! k))"
    using assms(2) find_next_connection_slots [OF assms(1), of 0 "- 1"] by simp
  then show ?thesis unfolding at_walk_def by (rule at_next_open)
qed

lemma walk_next:
  assumes "conn_inv w" and "next_open cur (slots w) = Some k" and "slots w ! k = Some p" and "keeps w w1"
  shows "p \<noteq> 0" "conn_inv w1" "slots w1 = slots w"
    "\<exists>p1. find_next_connection p w1 = Inr p1 \<and> at_walk (int k) (slots w1) p1"
proof -
  have k: "k < 1000" using next_open_SomeD [OF assms(2)] assms(1) by simp
  have "conn_ident w p = Some (int k, p)" using slots_ident [OF assms(1) k] assms(3) by blast
  then show "p \<noteq> 0" by (rule conn_ident_nonzero)
  show inv: "conn_inv w1" and sl: "slots w1 = slots w"
    using conn_inv_keeps [OF assms(4,1)] slots_keeps [OF assms(4)] by auto
  have "find_next_connection p w1 = Inr (case next_open (int k) (slots w1) of None \<Rightarrow> 0 | Some j \<Rightarrow> the (slots w1 ! j))"
    using find_next_connection_slots [OF inv, of p "int k"] assms(3) k sl by simp
  then show "\<exists>p1. find_next_connection p w1 = Inr p1 \<and> at_walk (int k) (slots w1) p1"
    using at_next_open [OF refl, where cur = "int k" and sl = "slots w1"] by (simp add: at_walk_def)
qed

lemma broadcast_conns:
  assumes "\<And>u. keeps u (tick u)" and "conn_inv w" and "at_walk cur (slots w) p"
    and "broadcast n E tick p mds l r op w = Some (Inr (sent, w'))"
  shows "map fst sent = conns_after cur (slots w) \<and> keeps w w'"
  using assms(2-4)
proof (induction n arbitrary: p cur w sent)
  case 0
  then show ?case by simp
next
  case (Suc n)
  from Suc.prems(2) show ?case
    unfolding at_walk_def
  proof (elim disjE exE conjE)
    assume "p = 0" "next_open cur (slots w) = None"
    then show ?thesis using Suc.prems(3) conns_after_next(1) by auto
  next
    fix k assume k: "next_open cur (slots w) = Some k" "slots w ! k = Some p"
    have p: "p \<noteq> 0" by (rule walk_next(1) [OF Suc.prems(1) k]) (rule keeps_refl)
    obtain wr w1 p1 sent1 where run: "send_rdma_operation E tick p mds l r op w = Inr (wr, w1)"
      "find_next_connection p w1 = Inr p1" "broadcast n E tick p1 mds l r op w1 = Some (Inr (sent1, w'))"
      "sent = (p, wr) # sent1"
      using Suc.prems(3) p by (auto simp: bindF_eq_Inr)
    have ks: "keeps w w1" by (rule keeps_send_rdma_operation [OF assms(1) run(1)])
    note nx = walk_next(2-4) [OF Suc.prems(1) k ks]
    then have "at_walk (int k) (slots w1) p1" using run(2) by simp
    from Suc.IH [OF nx(1) this run(3)] have "map fst sent1 = conns_after (int k) (slots w) \<and> keeps w1 w'"
      by (simp add: nx(2))
    then show ?thesis
      using run(4) conns_after_next(2) [OF k(1)] k(2) keeps_trans [OF ks] by auto
  qed
qed

text \<open>The walk ends: each round moves to a higher socket.\<close>

lemma broadcast_ends:
  assumes "\<And>u. keeps u (tick u)" and "conn_inv w" and "at_walk cur (slots w) p"
    and "length (conns_after cur (slots w)) < n"
  shows "broadcast n E tick p mds l r op w \<noteq> None"
  using assms(2-4)
proof (induction n arbitrary: p cur w)
  case 0
  then show ?case by simp
next
  case (Suc n)
  show ?case
  proof (cases "p = 0")
    case True
    then show ?thesis by simp
  next
    case False
    then obtain k where k: "next_open cur (slots w) = Some k" "slots w ! k = Some p"
      using Suc.prems(2) by (auto simp: at_walk_def)
    show ?thesis
    proof (cases "send_rdma_operation E tick p mds l r op w")
      case (Inl e)
      then show ?thesis using False by simp
    next
      case (Inr x)
      obtain wr w1 where x: "x = (wr, w1)" by (cases x)
      have ks: "keeps w w1" using Inr x keeps_send_rdma_operation [OF assms(1)] by blast
      obtain p1 where p1: "find_next_connection p w1 = Inr p1" "at_walk (int k) (slots w1) p1"
        using walk_next(4) [OF Suc.prems(1) k ks] by blast
      have "length (conns_after (int k) (slots w1)) < n"
        using Suc.prems(3) conns_after_next(2) [OF k(1)] walk_next(3) [OF Suc.prems(1) k ks] by simp
      from Suc.IH [OF walk_next(2) [OF Suc.prems(1) k ks] p1(2) this] show ?thesis
        using False Inr x p1(1) by (cases "broadcast n E tick p1 mds l r op w1") (auto simp: bindF_def split: sum.splits)
    qed
  qed
qed

lemma conns_after_start: "conns_after (- 1) sl = map the (filter (\<lambda>x. x \<noteq> None) sl)"
proof -
  have "filter (\<lambda>x. x \<noteq> None) (map ((!) sl) [0..<length sl]) =
      map ((!) sl) (filter (\<lambda>i. sl ! i \<noteq> None) [0..<length sl])"
    by (simp add: filter_map comp_def)
  then show ?thesis by (simp add: map_nth conns_after_def comp_def)
qed

lemma IBV_WRAPPER_OP_ASYNC_ALL_conns:
  assumes "\<And>u. keeps u (tick u)" and "conn_inv w"
    and "IBV_WRAPPER_OP_ASYNC_ALL n E tick mds l r op w = Some (Inr w')"
  obtains p sent where "find_next_connection 0 w = Inr p"
    "broadcast n E tick p mds l r op w = Some (Inr (sent, w'))"
    "map fst sent = map the (filter (\<lambda>x. x \<noteq> None) (slots w))" "keeps w w'"
proof -
  obtain p sent where run: "find_next_connection 0 w = Inr p"
    "broadcast n E tick p mds l r op w = Some (Inr (sent, w'))"
    using assms(3) by (auto simp: IBV_WRAPPER_OP_ASYNC_ALL_def bindF_eq_Inr)
  have "map fst sent = conns_after (- 1) (slots w) \<and> keeps w w'"
    by (rule broadcast_conns [OF assms(1,2) walk_start [OF assms(2) run(1)] run(2)])
  then show thesis using that run by (simp add: conns_after_start)
qed

section \<open>Cross-channel chains\<close>

text \<open>The numbers of a task's requests are consecutive, and waits and enables alternate.\<close>

lemma trigger_chain_ok:
  "trigger_chain E k q qp n c = (concat (map (\<lambda>i.
      [wait_wr (last_send c + 1 + 2 * of_nat i) q n (IBV_EXP_SEND_WAIT_EN_LAST (abi E)),
       enable_wr (last_send c + 2 + 2 * of_nat i) qp n (IBV_EXP_SEND_WAIT_EN_LAST (abi E))]) [0..<k]),
    c\<lparr>last_send := last_send c + 2 * of_nat k\<rparr>)"
proof (induction k arbitrary: c)
  case 0
  then show ?case by simp
next
  case (Suc k)
  let ?c = "c\<lparr>last_send := last_send c + 1 + 1\<rparr>"
  have idx: "last_send ?c + 1 + 2 * of_nat i = last_send c + 1 + 2 * of_nat (Suc i)"
    "last_send ?c + 2 + 2 * of_nat i = last_send c + 2 + 2 * of_nat (Suc i)" for i
    by (simp_all add: algebra_simps)
  show ?case
    using Suc.IH [of ?c, unfolded idx]
    by (simp add: Let_def map_upt_Suc algebra_simps del: upt_Suc)
qed

section \<open>The search for an entry\<close>

text \<open>A connection whose entry count was never set has no entry to find.\<close>

lemma find_wqe_unset: "sq_wqe_cnt c = 0 \<Longrightarrow> find_wqe c m wr i = Inr 0"
  by (subst find_wqe.simps) simp

lemma sq_unsetD: "sq_unset w \<Longrightarrow> ctx_of p w = Inr c \<Longrightarrow> sq_start c = 0 \<and> sq_wqe_cnt c = 0"
  unfolding sq_unset_def conn_who_def by (auto split: sum.splits)

lemma IBV_FIND_WQE_unset:
  assumes "sq_unset w" and "sock_ctx s w = Inr (p, c)"
  shows "IBV_FIND_WQE s wr w = Inr 0"
proof -
  have "ctx_of p w = Inr c" using assms(2) by (simp add: sock_ctx_eq_Inr)
  then show ?thesis using assms find_wqe_unset sq_unsetD by (simp add: IBV_FIND_WQE_def)
qed

text \<open>With the count set, the search finds the first entry that carries the number.\<close>

lemma find_wqe_first:
  assumes "sq_wrid c = Some ids" and "unat (sq_wqe_cnt c) = length ids" and "j < length ids"
    and "ids ! j = ucast wr" and "\<And>k. i \<le> k \<Longrightarrow> k < j \<Longrightarrow> ids ! k \<noteq> ucast wr" and "i \<le> j"
    and "mapped m (sq_start c + 64 * j) 4"
  shows "find_wqe c m wr i = Inr (sq_start c + 64 * j)"
  using assms(5,6)
proof (induction "j - i" arbitrary: i)
  case 0
  then have "i = j" by simp
  then show ?case
    using assms by (subst find_wqe.simps) (simp add: load32_def load_bytes_def get_send_wqe_nat)
next
  case (Suc d)
  then have i: "i < j" "ids ! i \<noteq> ucast wr" by auto
  then show ?case
    using assms(1-3) Suc.hyps(1) [of "i + 1"] Suc.hyps(2) Suc.prems
    by (subst find_wqe.simps) simp
qed

section \<open>Ranges\<close>

text \<open>Without wrap-around the check is containment.\<close>

lemma range_valid_contained:
  assumes "unat ia + unat il < 2 ^ 64" and "unat oa + unat ol < 2 ^ 64"
  shows "range_valid ia il oa ol = 1 \<longleftrightarrow> unat oa \<le> unat ia \<and> unat ia + unat il \<le> unat oa + unat ol"
proof -
  have "unat (ia + il) = unat ia + unat il" "unat (oa + ol) = unat oa + unat ol"
    using assms by (simp_all add: unat_word_ariths)
  then show ?thesis by (auto simp: range_valid_def word_less_nat_alt)
qed

end
