(* ===== verification/Completion_Correct.thy ===== *)
theory Completion_Correct
  imports Conn_Ids
begin

text \<open>
  Completions: what one completion changes, what a polling run records, and when the waits return.
  Fuel is never the reason for a result: more fuel gives the same result, and enough of it is given
  by the number of completions, or of rounds the wait needs.
\<close>

section \<open>One completion\<close>

text \<open>The connection a completion belongs to, when the tables know its queue pair.\<close>

lemma find_connection_by_wc_frame [simp]:
  "find_connection_by_wc wc (set_ctx p c w) = find_connection_by_wc wc w"
  "find_connection_by_wc wc (emit e w) = find_connection_by_wc wc w"
  "find_connection_by_wc wc (w\<lparr>trace := t\<rparr>) = find_connection_by_wc wc w"
  by (simp_all add: find_connection_by_wc_def)

text \<open>A successful send completion moves the completion counter of its connection.\<close>

lemma handle_wc_send:
  assumes "wc_success wc" and "\<not> wc_recv wc" and "find_connection_by_wc wc w = Inr p"
    and "ctx_of p w = Inr c" and "qp_of p w = Inr q" and "s_on_completion_cb w \<noteq> None"
  shows "handle_wc wc w = Inr (set_ctx p (c\<lparr>last_send_compl := ucast (wc_wr_id wc)\<rparr>) w)"
proof -
  have "p \<noteq> 0" "\<exists>i. cm_ids w p = Some i" using assms(4) by (auto simp: ctx_of_eq_Inr)
  then obtain i where "cm_id_at p (set_ctx p (c\<lparr>last_send_compl := ucast (wc_wr_id wc)\<rparr>) w) = Inr i"
    by (auto simp: cm_id_at_def set_ctx_def)
  then show ?thesis
    using assms
    by (auto simp: handle_wc_def update_completions_def completion_cb_def on_completion_def update_ctx_def
        split: option.splits)
qed

text \<open>A successful receive of a ready connection hands the identifier in the immediate value, in host
  order, to the application, with the socket it came from.\<close>

lemma handle_wc_recv:
  assumes "wc_success wc" and "wc_recv wc" and "find_connection_by_wc wc w = Inr p"
    and "ctx_of p w = Inr c" and "qp_of p w = Inr q" and "s_on_completion_cb w \<noteq> None"
    and "app_callbacks w" and "rc_ready (sockfd c) w = Inr 1"
  shows "handle_wc wc w = Inr (emit (AppReceive \<lparr>app_sockfd = sockfd c,
      app_id = ntohl (wc_imm_data wc), app_data = 0\<rparr>)
    (set_ctx p (c\<lparr>last_rcv_compl := ntohl (wc_imm_data wc)\<rparr>) w))"
  using assms
  by (auto simp: handle_wc_def update_completions_def completion_cb_def on_completion_def
      update_pending_def Let_def split: option.splits)

text \<open>A failed completion is dropped.\<close>

lemma handle_wc_failed: "\<not> wc_success wc \<Longrightarrow> handle_wc wc w = Inr w' \<Longrightarrow> w' = w"
  by (auto simp: handle_wc_def elim!: bindR_InrE)

definition counted :: "world \<Rightarrow> nat \<Rightarrow> ibv_wc \<Rightarrow> bool" where
  "counted w p wc \<longleftrightarrow> wc_success wc \<and> \<not> wc_recv wc \<and> find_connection_by_wc wc w = Inr p"

lemma handle_wc_frame:
  assumes "handle_wc wc w = Inr w'" and "ctx_of p w = Inr c"
  shows "find_connection_by_wc x w' = find_connection_by_wc x w"
    and "\<exists>c'. ctx_of p w' = Inr c' \<and> last_send_compl c' =
      (if counted w p wc then ucast (wc_wr_id wc) else last_send_compl c)"
proof -
  have "find_connection_by_wc x w' = find_connection_by_wc x w \<and>
    (\<exists>c'. ctx_of p w' = Inr c' \<and> last_send_compl c' =
      (if counted w p wc then ucast (wc_wr_id wc) else last_send_compl c))"
  proof (cases "wc_success wc")
    case False
    then show ?thesis using handle_wc_failed [OF _ assms(1)] assms(2) by (simp add: counted_def)
  next
    case True
    then obtain w1 where 1: "update_completions wc w = Inr w1" "on_completion wc w1 = Inr w'"
      using assms(1) by (auto simp: handle_wc_def completion_cb_def split: option.splits elim!: bindR_InrE)
    obtain p1 where p1: "find_connection_by_wc wc w = Inr p1"
      using 1(1) unfolding update_completions_def by (elim bindR_InrE)
    show ?thesis
    proof (cases "wc_recv wc")
      case True
      then obtain c1 where c1: "ctx_of p1 w = Inr c1" "w' = emit (AppReceive \<lparr>app_sockfd = sockfd c1,
          app_id = ntohl (wc_imm_data wc), app_data = 0\<rparr>)
        (set_ctx p1 (c1\<lparr>last_rcv_compl := ntohl (wc_imm_data wc)\<rparr>) w)"
        using 1 p1 by (auto simp: update_completions_def on_completion_def update_pending_def Let_def
            split: if_splits elim!: bindR_InrE)
      then show ?thesis using True assms(2) by (cases "p1 = p") (auto simp: counted_def)
    next
      case False
      then obtain c1 where c1: "ctx_of p1 w = Inr c1"
        "w' = set_ctx p1 (c1\<lparr>last_send_compl := ucast (wc_wr_id wc)\<rparr>) w"
        using 1 p1 by (auto simp: update_completions_def on_completion_def update_ctx_def elim!: bindR_InrE)
      then show ?thesis using False True p1 assms(2) by (cases "p1 = p") (auto simp: counted_def)
    qed
  qed
  then show "find_connection_by_wc x w' = find_connection_by_wc x w"
    and "\<exists>c'. ctx_of p w' = Inr c' \<and> last_send_compl c' =
      (if counted w p wc then ucast (wc_wr_id wc) else last_send_compl c)" by auto
qed

section \<open>Draining the queue\<close>

text \<open>The queue holds the completions \<open>wcs\<close>, and the state after all of them is \<open>w'\<close>.\<close>

fun drains :: "env \<Rightarrow> nat \<Rightarrow> ibv_wc list \<Rightarrow> world \<Rightarrow> world \<Rightarrow> bool" where
  "drains E q [] w w' \<longleftrightarrow> ans_poll_cq E (length (trace w)) = None \<and> w' = emit (IbvPollCq q) w"
| "drains E q (wc # wcs) w w' \<longleftrightarrow> ans_poll_cq E (length (trace w)) = Some wc \<and>
     (case handle_wc wc (emit (IbvPollCq q) w) of Inl _ \<Rightarrow> False | Inr w1 \<Rightarrow> drains E q wcs w1 w')"

lemma poll_cq_drains: "drains E q wcs w w' \<Longrightarrow> length wcs < n \<Longrightarrow> poll_cq n E q w = Some (Inr w')"
proof (induction wcs arbitrary: n w)
  case Nil
  then obtain m where "n = Suc m" by (cases n) auto
  then show ?case using Nil by (simp add: call_def emit_def)
next
  case (Cons wc wcs)
  then obtain m where m: "n = Suc m" by (cases n) auto
  obtain w1 where "handle_wc wc (emit (IbvPollCq q) w) = Inr w1" "drains E q wcs w1 w'"
    using Cons.prems(1) by (auto split: sum.splits)
  then show ?case using Cons.IH [of w1 m] Cons.prems m by (simp add: call_def emit_def)
qed

lemma poll_cq_result: "poll_cq n E q w = Some (Inr w') \<Longrightarrow> \<exists>wcs. length wcs < n \<and> drains E q wcs w w'"
proof (induction n arbitrary: w)
  case 0
  then show ?case by simp
next
  case (Suc n)
  show ?case
  proof (cases "ans_poll_cq E (length (trace w))")
    case None
    then have "drains E q [] w w'" using Suc.prems by (simp add: call_def emit_def)
    then show ?thesis by (intro exI [of _ "[]"]) simp
  next
    case (Some wc)
    then obtain w1 where w1: "handle_wc wc (emit (IbvPollCq q) w) = Inr w1" "poll_cq n E q w1 = Some (Inr w')"
      using Suc.prems by (auto simp: call_def emit_def bindF_eq_Inr)
    then obtain wcs where "length wcs < n" "drains E q wcs w1 w'" using Suc.IH by blast
    then show ?thesis using Some w1(1) by (intro exI [of _ "wc # wcs"]) simp
  qed
qed

text \<open>After a run the counter of a connection is that of its last successful send.\<close>

fun last_counted :: "world \<Rightarrow> nat \<Rightarrow> ibv_wc list \<Rightarrow> u32 \<Rightarrow> u32" where
  "last_counted w p [] k = k"
| "last_counted w p (wc # wcs) k = last_counted w p wcs (if counted w p wc then ucast (wc_wr_id wc) else k)"

lemma drains_counter:
  assumes "drains E q wcs w w'" and "ctx_of p w = Inr c"
  shows "\<exists>c'. ctx_of p w' = Inr c' \<and> last_send_compl c' = last_counted w p wcs (last_send_compl c)"
proof -
  have "\<exists>c'. ctx_of p w' = Inr c' \<and> last_send_compl c' = last_counted v p wcs (last_send_compl c)"
    if "drains E q wcs w w'" "ctx_of p w = Inr c"
      "\<forall>x. find_connection_by_wc x w = find_connection_by_wc x v" for v
    using that
  proof (induction wcs arbitrary: w c)
    case Nil
    then show ?case by simp
  next
    case (Cons wc wcs)
    obtain w1 where w1: "handle_wc wc (emit (IbvPollCq q) w) = Inr w1" "drains E q wcs w1 w'"
      using Cons.prems(1) by (auto split: sum.splits)
    have c: "ctx_of p (emit (IbvPollCq q) w) = Inr c" using Cons.prems(2) by simp
    note f = handle_wc_frame [OF w1(1) c]
    obtain c1 where c1: "ctx_of p w1 = Inr c1"
      "last_send_compl c1 = (if counted v p wc then ucast (wc_wr_id wc) else last_send_compl c)"
      using f(2) Cons.prems(3) by (auto simp: counted_def)
    have "\<forall>x. find_connection_by_wc x w1 = find_connection_by_wc x v"
      using f(1) Cons.prems(3) by simp
    from Cons.IH [OF w1(2) c1(1) this] show ?case using c1(2) by simp
  qed
  from this [OF assms, of w] show ?thesis by simp
qed

section \<open>Waiting for a completion\<close>

text \<open>A request is pending while its number is ahead of the counter, on the circle of 32-bit numbers.\<close>

lemma send_pending_iff:
  "send_pending wr c \<longleftrightarrow> wr \<noteq> last_send_compl c \<and> wr - last_send_compl c < 0x7FFFFFFF"
  by (simp add: send_pending_def last_compl_wr_id_def cmp_counters_pos_iff)

lemma spin_till_completion_returns:
  assumes "\<And>i. i \<le> k \<Longrightarrow> ctx_of p ((tick ^^ i) w) = Inr (c i)"
    and "\<And>i. i < k \<Longrightarrow> send_pending wr (c i)" and "\<not> send_pending wr (c k)" and "k < n"
  shows "spin_till_completion n tick p wr w = Some (Inr ((tick ^^ k) w))"
  using assms
proof (induction k arbitrary: n w c)
  case 0
  then obtain m where "n = Suc m" by (cases n) auto
  then show ?case using "0"(1) [of 0] "0"(3) by simp
next
  case (Suc k)
  then obtain m where m: "n = Suc m" by (cases n) auto
  have "spin_till_completion m tick p wr (tick w) = Some (Inr ((tick ^^ k) (tick w)))"
  proof (rule Suc.IH [of "tick w" "\<lambda>i. c (Suc i)"])
    show "ctx_of p ((tick ^^ i) (tick w)) = Inr (c (Suc i))" if "i \<le> k" for i
      using Suc.prems(1) [of "Suc i"] that by (simp add: funpow_swap1)
  qed (use Suc.prems m in auto)
  then show ?case using Suc.prems(1) [of 0] Suc.prems(2) [of 0] m by (simp add: funpow_swap1)
qed

lemma spin_till_completion_result:
  "spin_till_completion n tick p wr w = Some (Inr w') \<Longrightarrow>
   \<exists>k < n. w' = (tick ^^ k) w \<and>
     (\<forall>i \<le> k. \<exists>c. ctx_of p ((tick ^^ i) w) = Inr c \<and> (send_pending wr c \<longleftrightarrow> i < k))"
proof (induction n arbitrary: w)
  case 0
  then show ?case by simp
next
  case (Suc n)
  obtain c where c: "ctx_of p w = Inr c" using Suc.prems by (auto simp: bindF_eq_Inr)
  show ?case
  proof (cases "send_pending wr c")
    case False
    then show ?thesis using Suc.prems c by (intro exI [of _ 0]) simp
  next
    case True
    then have "spin_till_completion n tick p wr (tick w) = Some (Inr w')" using Suc.prems c by simp
    then obtain k where k: "k < n" "w' = (tick ^^ k) (tick w)"
      "\<And>i. i \<le> k \<Longrightarrow> \<exists>c. ctx_of p ((tick ^^ i) (tick w)) = Inr c \<and> (send_pending wr c \<longleftrightarrow> i < k)"
      using Suc.IH by blast
    have "\<exists>c. ctx_of p ((tick ^^ i) w) = Inr c \<and> (send_pending wr c \<longleftrightarrow> i < Suc k)" if "i \<le> Suc k" for i
      using that k(3) [of "i - 1"] c True by (cases i) (auto simp: funpow_swap1)
    then show ?thesis using k(1,2) by (intro exI [of _ "Suc k"]) (simp add: funpow_swap1)
  qed
qed

text \<open>The wait returns after \<open>k\<close> rounds of the other threads exactly when the request is pending before
  each of them and no longer after the last.\<close>

lemma spin_till_completion_iff:
  "spin_till_completion n tick p wr w = Some (Inr w') \<longleftrightarrow>
   (\<exists>k < n. w' = (tick ^^ k) w \<and>
     (\<forall>i \<le> k. \<exists>c. ctx_of p ((tick ^^ i) w) = Inr c \<and> (send_pending wr c \<longleftrightarrow> i < k)))" (is "?L \<longleftrightarrow> ?R")
proof
  assume ?R
  then obtain k where k: "k < n" "w' = (tick ^^ k) w"
    "\<forall>i \<le> k. \<exists>c. ctx_of p ((tick ^^ i) w) = Inr c \<and> (send_pending wr c \<longleftrightarrow> i < k)" by blast
  from k(3) obtain c where c: "\<And>i. i \<le> k \<Longrightarrow> ctx_of p ((tick ^^ i) w) = Inr (c i) \<and> (send_pending wr (c i) \<longleftrightarrow> i < k)"
    by metis
  show ?L unfolding k(2) by (rule spin_till_completion_returns [where c = c]) (use c k(1) in auto)
qed (rule spin_till_completion_result)

lemma spin_till_completion_stuck:
  assumes "\<And>i. ctx_of p ((tick ^^ i) w) = Inr (c i)" and "\<And>i. send_pending wr (c i)"
  shows "spin_till_completion n tick p wr w = None"
  using assms
proof (induction n arbitrary: w c)
  case 0
  then show ?case by simp
next
  case (Suc n)
  have "spin_till_completion n tick p wr (tick w) = None"
    using Suc.prems(1) [of "Suc i" for i] Suc.prems(2)
    by (intro Suc.IH [of "tick w" "\<lambda>i. c (Suc i)"]) (simp_all add: funpow_swap1)
  then show ?case using Suc.prems(1) [of 0] Suc.prems(2) [of 0] by simp
qed

section \<open>Waiting in turn\<close>

text \<open>The rounds of a blocking wait: in each the event of the channel is taken, the completions \<open>wcs\<close> of
  the queue are drained and the other threads run. The number is the fuel the rounds use up.\<close>

inductive block_rounds :: "env \<Rightarrow> (world \<Rightarrow> world) \<Rightarrow> nat \<Rightarrow> u32 \<Rightarrow> world \<Rightarrow> nat \<Rightarrow> world \<Rightarrow> bool"
  for E tick p wr where
  arrived: "ctx_of p w = Inr c \<Longrightarrow> \<not> send_pending wr c \<Longrightarrow> block_rounds E tick p wr w 0 w"
| waiting: "ctx_of p w = Inr c \<Longrightarrow> send_pending wr c \<Longrightarrow>
    drains E (cq c) wcs (await_cq_event E (comp_channel c) w) v \<Longrightarrow> block_rounds E tick p wr (tick v) f w' \<Longrightarrow>
    block_rounds E tick p wr w (Suc (max (length wcs) f)) w'"

lemma block_rounds_returns:
  "block_rounds E tick p wr w f w' \<Longrightarrow> f < n \<Longrightarrow> block_loop n tick E p wr w = Some (Inr w')"
proof (induction arbitrary: n rule: block_rounds.induct)
  case (arrived w c)
  then show ?case by (cases n) auto
next
  case (waiting w c wcs v f w')
  then obtain m where "n = Suc m" "length wcs < m" "f < m" by (cases n) auto
  then show ?case using waiting.hyps(1,2) waiting.IH poll_cq_drains [OF waiting.hyps(3)] by simp
qed

lemma block_loop_rounds:
  "block_loop n tick E p wr w = Some (Inr w') \<Longrightarrow> \<exists>f < n. block_rounds E tick p wr w f w'"
proof (induction n arbitrary: w)
  case 0
  then show ?case by simp
next
  case (Suc n)
  obtain c where c: "ctx_of p w = Inr c" using Suc.prems by (auto simp: bindF_eq_Inr)
  show ?case
  proof (cases "send_pending wr c")
    case True
    then obtain v where v: "poll_cq n E (cq c) (await_cq_event E (comp_channel c) w) = Some (Inr v)"
      "block_loop n tick E p wr (tick v) = Some (Inr w')" using Suc.prems c by (auto simp: bindF_eq_Inr)
    obtain wcs where "length wcs < n" "drains E (cq c) wcs (await_cq_event E (comp_channel c) w) v"
      using poll_cq_result [OF v(1)] by blast
    moreover obtain f where "f < n" "block_rounds E tick p wr (tick v) f w'" using Suc.IH [OF v(2)] by blast
    ultimately show ?thesis using c True
      by (intro exI [of _ "Suc (max (length wcs) f)"]) (simp add: block_rounds.waiting)
  next
    case False
    then show ?thesis using Suc.prems c block_rounds.arrived [of p w c] by auto
  qed
qed

lemma block_rounds_arrived:
  "block_rounds E tick p wr w f w' \<Longrightarrow> \<exists>c. ctx_of p w' = Inr c \<and> \<not> send_pending wr c"
  by (induction rule: block_rounds.induct) auto

text \<open>The permission is taken in the first state in which it is not zero.\<close>

lemma take_permission_iff:
  "take_permission n tick p w = Some (Inr w') \<longleftrightarrow>
   (\<exists>j < n. \<exists>c. (\<forall>i < j. \<exists>d. ctx_of p ((tick ^^ i) w) = Inr d \<and> poll_permission d = 0) \<and>
     ctx_of p ((tick ^^ j) w) = Inr c \<and> poll_permission c \<noteq> 0 \<and>
     w' = (if poll_permission c = 1 then set_ctx p (c\<lparr>poll_permission := 0\<rparr>) ((tick ^^ j) w) else (tick ^^ j) w))"
proof (induction n arbitrary: w)
  case 0
  then show ?case by simp
next
  case (Suc n)
  have suc: "(\<exists>j < Suc n. P j) \<longleftrightarrow> P 0 \<or> (\<exists>j < n. P (Suc j))" for P
    using less_Suc_eq_0_disj by auto
  have all: "(\<forall>i < Suc j. Q i) \<longleftrightarrow> Q 0 \<and> (\<forall>i < j. Q (Suc i))" for Q j
    using less_Suc_eq_0_disj by auto
  show ?case
    unfolding suc all
    using Suc.IH [of "tick w"]
    by (cases "ctx_of p w") (auto simp: Let_def funpow_swap1 bindF_eq_Inr)
qed

lemma release_permission_eq_Inr:
  "release_permission p w = Inr w' \<longleftrightarrow>
   (\<exists>c. ctx_of p w = Inr c \<and> poll_permission c = 0 \<and> w' = set_ctx p (c\<lparr>poll_permission := 1\<rparr>) w)"
  by (cases "ctx_of p w") (auto simp: release_permission_def Let_def)

lemma block_till_completion_iff:
  "block_till_completion n tick E p wr w = Some (Inr w') \<longleftrightarrow>
   (\<exists>w1 w2 f c. take_permission n tick p w = Some (Inr w1) \<and> f < n \<and> block_rounds E tick p wr w1 f w2 \<and>
      ctx_of p w2 = Inr c \<and> poll_permission c = 0 \<and> w' = set_ctx p (c\<lparr>poll_permission := 1\<rparr>) w2)"
  (is "?L \<longleftrightarrow> ?R")
proof
  assume ?L
  then obtain w1 w2 where w: "take_permission n tick p w = Some (Inr w1)"
    "block_loop n tick E p wr w1 = Some (Inr w2)" "release_permission p w2 = Inr w'"
    by (auto simp: block_till_completion_def bindF_eq_Inr)
  show ?R using w(1,3) block_loop_rounds [OF w(2)] unfolding release_permission_eq_Inr by blast
next
  assume ?R
  then obtain w1 w2 f c where w: "take_permission n tick p w = Some (Inr w1)" "f < n"
    "block_rounds E tick p wr w1 f w2" "ctx_of p w2 = Inr c" "poll_permission c = 0"
    "w' = set_ctx p (c\<lparr>poll_permission := 1\<rparr>) w2" by blast
  then show ?L using block_rounds_returns [OF w(3,2)]
    by (simp add: block_till_completion_def release_permission_def)
qed

end
