(* ===== verification/Samples.thy ===== *)
theory Samples
  imports Verbs_Correct Completion_Correct
begin

text \<open>
  Concrete states: an adapter that accepts everything, the library after its initialisation, with one
  connection in the table, with that connection set up for posting, and with it entered in the lookup
  tables. The properties are instantiated on them.
\<close>

section \<open>The surroundings\<close>

definition sample_abi :: verbs_abi where
  "sample_abi = \<lparr>IBV_SEND_FENCE = 1, IBV_SEND_SIGNALED = 2, IBV_SEND_SOLICITED = 4,
     IBV_SEND_INLINE = 8, IBV_EXP_SEND_WAIT_EN_LAST = 32, IBV_EXP_SEND_WITH_CALC = 64,
     IBV_EXP_QP_BURST_SIGNALED = 1, IBV_EXP_QP_BURST_SOLICITED = 2, IBV_EXP_QP_BURST_FENCE = 4,
     IBV_EXP_QP_CREATE_MANAGED_SEND = 8, IBV_EXP_QP_CREATE_MANAGED_RECV = 16\<rparr>"

definition sample_qp :: ibv_qp where "sample_qp = \<lparr>qp_handle = 9, qp_num = 17\<rparr>"

definition sample_dv :: mlx5dv_qp where
  "sample_dv = \<lparr>sq_buf = 4096, sq_cnt = 4, sq_stride = 64, bf_reg = 1024, bf_size = 256\<rparr>"

definition sample_id :: rdma_cm_id where
  "sample_id = \<lparr>verbs = 5, cm_qp = Some sample_qp, src_storage = AF_INET 18515 16777226,
     dst_storage = AF_INET 18516 33554442, cm_context = None\<rparr>"

definition sample_mr :: ibv_mr where
  "sample_mr = \<lparr>reg_addr = 8192, reg_length = 4096, reg_lkey = 3, reg_rkey = 4\<rparr>"

definition sample_env :: env where
  "sample_env = \<lparr>abi = sample_abi, ans_alloc_pd = \<lambda>_. 11, ans_comp_channel = \<lambda>_. 12,
     ans_create_cq = \<lambda>_. 13, ans_dv_cq = \<lambda>_. \<lparr>cqn = 21\<rparr>, ans_create_qp = \<lambda>_. Some sample_qp,
     ans_dv_qp = \<lambda>_. sample_dv, ans_reg_mr = \<lambda>_. Some sample_mr, ans_memalign = \<lambda>_. None,
     ans_post_send = \<lambda>_. 0, ans_post_task = \<lambda>_. 0, ans_connect = \<lambda>_. 0, ans_poll_cq = \<lambda>_. None,
     ans_cq_event = \<lambda>_. 13, ans_cm_event = \<lambda>_. None, ans_event_channel = \<lambda>_. 14,
     ans_create_id = \<lambda>_. (7, sample_id)\<rparr>"

section \<open>The library after its initialisation\<close>

definition agent_world :: world where
  "agent_world = (case init_rdma_agent sample_env [] 0 0 True True initial_world of
     Inl _ \<Rightarrow> initial_world | Inr w \<Rightarrow> w)"

lemma agent_world_run: "init_rdma_agent sample_env [] 0 0 True True initial_world = Inr agent_world"
  by (simp add: agent_world_def init_rdma_agent_def initial_world_def call_def Let_def sample_env_def
      MAX_MR_def)

lemmas agent_world_facts = init_rdma_agent_inv [OF agent_world_run]

lemma agent_world_reachable: "reachable sample_env agent_world"
  by (rule reachable.start [OF agent_world_run])

lemma agent_world_fields:
  "cm_ids agent_world = Map.empty" "s_ctx agent_world = None" "app_callbacks agent_world"
  "s_on_completion_cb agent_world = Some ON_COMPLETION" "num_mrs agent_world = 0"
  "rdma_initialized agent_world = 1"
  by (simp_all add: agent_world_def init_rdma_agent_def initial_world_def call_def Let_def sample_env_def
      MAX_MR_def rc_init_def emit_def)

section \<open>One connection\<close>

definition arrival_world :: world where
  "arrival_world = set_cm_id 7 sample_id agent_world"

lemma arrival_world_facts:
  "conn_inv arrival_world" "slots arrival_world = replicate 1000 None"
  "cm_ids arrival_world 7 = Some sample_id" "conn_ident arrival_world 7 = None"
  "sq_unset arrival_world"
proof -
  have fresh: "cm_ids agent_world 7 = None" "cm_context sample_id = None"
    by (simp_all add: agent_world_fields sample_id_def)
  note new = set_new_id [OF fresh]
  show "conn_inv arrival_world" "slots arrival_world = replicate 1000 None"
    unfolding arrival_world_def using new agent_world_facts by simp_all
  show "cm_ids arrival_world 7 = Some sample_id" by (simp add: arrival_world_def set_cm_id_def)
  show "conn_ident arrival_world 7 = None"
    by (simp add: arrival_world_def conn_ident_None ctx_of_eq_Inr set_cm_id_def sample_id_def)
  show "sq_unset arrival_world"
    unfolding arrival_world_def using new(1) agent_world_facts(3) by (simp add: sq_unset_def)
qed

lemma first_free_empty: "first_free (replicate 1000 None) = Some 0"
  by (simp add: first_free_def numeral_eq_Suc)

definition open_world :: world where
  "open_world = (case init_connection 7 0 1 0 arrival_world of Inl _ \<Rightarrow> arrival_world | Inr (_, w) \<Rightarrow> w)"

definition sample_ctx :: conn_context where "sample_ctx = new_context 7 0 0 1 0"

lemma open_world_facts:
  "init_connection 7 0 1 0 arrival_world = Inr (0, open_world)" "conn_inv open_world"
  "slots open_world = (replicate 1000 None)[0 := Some 7]" "ctx_of 7 open_world = Inr sample_ctx"
  "sq_unset open_world"
proof -
  note A = arrival_world_facts
  have nonzero: "(7 :: nat) \<noteq> 0" by simp
  have free: "first_free (slots arrival_world) = Some 0" by (simp add: A(2) first_free_empty)
  obtain w where w: "init_connection 7 0 1 0 arrival_world = Inr (int 0, w)" "conn_inv w"
    "slots w = (slots arrival_world)[0 := Some 7]" "ctx_of 7 w = Inr (new_context 7 (int 0) 0 1 0)"
    "conn_who w = (conn_who arrival_world)(7 \<mapsto> (int 0, 7, 0, 0))"
    by (rule init_connection_slots [where ty = 0 and al = 1 and fl = 0, OF A(1) free nonzero A(3,4)])
      (rule that)
  have "open_world = w" by (simp add: open_world_def w(1))
  then show "init_connection 7 0 1 0 arrival_world = Inr (0, open_world)" "conn_inv open_world"
    "slots open_world = (replicate 1000 None)[0 := Some 7]" "ctx_of 7 open_world = Inr sample_ctx"
    "sq_unset open_world"
    using w A(2,5) by (auto simp: sample_ctx_def sq_unset_def)
qed

lemma init_connection_fields:
  assumes "init_connection p ty al fl w = Inr (s, w')" and "cm_ids w p = Some i"
  shows "cm_ids w' = (cm_ids w)(p \<mapsto> i\<lparr>cm_context := Some (new_context p s ty al fl)\<rparr>)"
    "s_ctx w' = s_ctx w" "app_callbacks w' = app_callbacks w" "s_on_completion_cb w' = s_on_completion_cb w"
  using assms by (auto simp: init_connection_def set_cm_id_def cm_id_at_eq_Inr split: if_splits elim!: bindR_InrE)

lemma open_world_cm_ids:
  "cm_ids open_world = (cm_ids arrival_world)(7 \<mapsto> sample_id\<lparr>cm_context := Some sample_ctx\<rparr>)"
  "s_ctx open_world = None" "app_callbacks open_world" "s_on_completion_cb open_world = Some ON_COMPLETION"
  using init_connection_fields [OF open_world_facts(1) arrival_world_facts(3)]
  by (simp_all add: sample_ctx_def arrival_world_def agent_world_fields set_cm_id_def)

lemma open_world_cm_id: "cm_id_at 7 open_world = Inr (sample_id\<lparr>cm_context := Some sample_ctx\<rparr>)"
  by (simp add: cm_id_at_eq_Inr open_world_cm_ids)

lemma open_world_qp: "qp_of 7 open_world = Inr sample_qp"
  using open_world_cm_ids(1) by (auto simp: qp_of_eq_Inr sample_id_def)

lemma open_world_get: "get_connection 0 open_world = Inr 7"
  using get_connection_slots [OF open_world_facts(2), of 0] open_world_facts(3) by simp

section \<open>A connection that can post\<close>

definition queue_ctx :: conn_context where
  "queue_ctx = sample_ctx\<lparr>state := RC_CONNECTION_READY, iqp := Some sample_dv,
     sq_wrid := Some [0, 0, 0, 0], local_mr := [Some sample_mr, None], local_mr_ready := [1, 0],
     remote_mr := [Some \<lparr>mr_type = 0, mr_addr = 64, mr_length = 32, mr_lkey = 0, mr_rkey = 5,
       mr_physical = 0\<rparr>, None], remote_mr_ready := [1, 0]\<rparr>"

definition queue_world :: world where "queue_world = set_ctx 7 queue_ctx open_world"

lemma queue_world_keeps: "keeps open_world queue_world"
  unfolding queue_world_def using open_world_facts(4)
  by (rule keeps_update) (simp add: queue_ctx_def)

lemma queue_world_facts:
  "conn_inv queue_world" "slots queue_world = (replicate 1000 None)[0 := Some 7]"
  "ctx_of 7 queue_world = Inr queue_ctx" "qp_of 7 queue_world = Inr sample_qp"
  "get_connection 0 queue_world = Inr 7" "sq_unset queue_world"
  "trace queue_world = trace open_world" "s_on_completion_cb queue_world = s_on_completion_cb open_world"
  "app_callbacks queue_world = app_callbacks open_world"
proof -
  show inv: "conn_inv queue_world" by (rule conn_inv_keeps [OF queue_world_keeps open_world_facts(2)])
  show sl: "slots queue_world = (replicate 1000 None)[0 := Some 7]"
    using slots_keeps [OF queue_world_keeps] open_world_facts(3) by simp
  show "get_connection 0 queue_world = Inr 7" using get_connection_slots [OF inv, of 0] sl by simp
  show "sq_unset queue_world" using queue_world_keeps open_world_facts(5) by (simp add: keeps_def sq_unset_def)
qed (use open_world_facts(4) open_world_qp in \<open>simp_all add: queue_world_def\<close>)

lemma queue_ctx_counter: "counter_ok queue_ctx 4"
proof -
  have "(4 :: nat) = 2 ^ 2" by simp
  then have "\<exists>k < 32. (4 :: nat) = 2 ^ k" by (intro exI [of _ 2]) simp
  then show ?thesis by (simp add: counter_ok_def queue_ctx_def sample_dv_def)
qed

lemma queue_world_can_post: "can_post sample_env 7 queue_world queue_ctx sample_qp 4"
  unfolding can_post_def using queue_world_facts(3,4) queue_ctx_counter
  by simp (simp add: queue_ctx_def sample_ctx_def sample_env_def)

section \<open>A queue in memory\<close>

definition memory_ctx :: conn_context where
  "memory_ctx = queue_ctx\<lparr>sq_start := 4096, sq_end := 4352\<rparr>"

definition memory_world :: world where
  "memory_world = (set_ctx 7 memory_ctx queue_world)\<lparr>mem := \<lambda>_. Some 0\<rparr>"

definition sample_wr :: send_wr where
  "sample_wr = zero_wr\<lparr>wr_id := 7, exp_opcode := IBV_EXP_WR_RDMA_WRITE, num_sge := 1,
     sg_list := Some [\<lparr>sg_addr = 8192, sg_length = 16, sg_lkey = 3\<rparr>], send_flags := 2,
     rdma_remote_addr := 64, rdma_rkey := 5\<rparr>"

lemma memory_world_facts:
  "ctx_of 7 memory_world = Inr memory_ctx" "qp_of (ctx_id memory_ctx) memory_world = Inr sample_qp"
  "queue_ok memory_ctx 4 (mem memory_world)" "db_ok memory_ctx (mem memory_world)"
proof -
  show "ctx_of 7 memory_world = Inr memory_ctx"
    using queue_world_facts(3) by (simp add: memory_world_def)
  have "ctx_id memory_ctx = 7" by (simp add: memory_ctx_def queue_ctx_def sample_ctx_def)
  then show "qp_of (ctx_id memory_ctx) memory_world = Inr sample_qp"
    using queue_world_facts(4) by (simp add: memory_world_def)
  show "queue_ok memory_ctx 4 (mem memory_world)"
    using queue_ctx_counter
    by (simp add: queue_ok_def counter_ok_def sq_ok_def memory_ctx_def memory_world_def mapped_iff
        split: option.splits)
  show "db_ok memory_ctx (mem memory_world)"
    by (simp add: db_ok_def db_reg_def memory_ctx_def memory_world_def mapped_iff queue_ctx_def sample_dv_def
        sample_ctx_def new_context_def zero_context_def)
qed

lemma sample_wr_postable: "postable sample_env memory_ctx 4 sample_wr"
  by (simp add: postable_def wr_ok_def sges_def sample_wr_def wqe_size_def nonempty_def sample_env_def
      sample_abi_def flag_index_def memory_ctx_def queue_ctx_def sample_ctx_def new_context_def zero_context_def)

section \<open>A connection in the lookup tables\<close>

definition table_world :: world where
  "table_world = (case add_id_record 7 (18515, 16777226) 17
       (queue_world\<lparr>s_ctx := Some new_device_table\<rparr>) of Inl _ \<Rightarrow> queue_world | Inr w \<Rightarrow> w)"

lemma empty_tables:
  assumes "s_ctx w = Some new_device_table"
  shows "by_qp w = None" "by_addr w = None" "ids_ok w"
  using assms
  by (simp_all add: by_qp_def by_addr_def id_tables_def new_device_table_def ids_ok_def hash_inv_def
      records_def entries_def)

lemma add_id_record_cm_ids:
  "add_id_record p a q w = Inr w' \<Longrightarrow> ctx_of r w' = ctx_of r w \<and> qp_of r w' = qp_of r w \<and> trace w' = trace w \<and>
   s_on_completion_cb w' = s_on_completion_cb w \<and> app_callbacks w' = app_callbacks w"
  by (auto simp: add_id_record_def fresh_def elim!: bindR_InrE)

lemma add_id_record_devices:
  "add_id_record p a q w = Inr w' \<Longrightarrow> map_option dev_ctx (s_ctx w') = map_option dev_ctx (s_ctx w)"
  by (auto simp: add_id_record_def fresh_def elim!: bindR_InrE)

lemma table_world_facts:
  "ids_ok table_world" "s_ctx table_world \<noteq> None"
  "entries (by_qp table_world) = [(heap_next queue_world, 17, 7)]"
  "entries (by_addr table_world) = [(heap_next queue_world, (18515, 16777226), 7)]"
  "ctx_of 7 table_world = Inr queue_ctx" "qp_of 7 table_world = Inr sample_qp"
  "keeps queue_world table_world" "map_option dev_ctx (s_ctx table_world) = Some [0, 0]"
proof -
  let ?w = "queue_world\<lparr>s_ctx := Some new_device_table\<rparr>"
  note E = empty_tables [of ?w, simplified]
  have room: "hash_room (by_qp ?w)" "hash_room (by_addr ?w)" by (simp_all add: E hash_room_def)
  obtain w where w: "add_id_record 7 (18515, 16777226) 17 ?w = Inr w" "ids_ok w" "s_ctx w \<noteq> None"
    "entries (by_qp w) = entries (by_qp ?w) @ [(heap_next ?w, 17, 7)]"
    "entries (by_addr w) = entries (by_addr ?w) @ [(heap_next ?w, (18515, 16777226), 7)]"
    using add_id_record_ok [OF E(3) _ room, of new_device_table 7 "(18515, 16777226)" 17] by auto
  have t: "table_world = w" by (simp add: table_world_def w(1))
  show "ids_ok table_world" "s_ctx table_world \<noteq> None"
    "entries (by_qp table_world) = [(heap_next queue_world, 17, 7)]"
    "entries (by_addr table_world) = [(heap_next queue_world, (18515, 16777226), 7)]"
    using w(2-5) by (simp_all add: t E entries_def)
  show "ctx_of 7 table_world = Inr queue_ctx" "qp_of 7 table_world = Inr sample_qp"
    using add_id_record_cm_ids [OF w(1)] queue_world_facts(3,4) by (simp_all add: t)
  have "keeps queue_world ?w" by (intro keeps_intros)
  then show "keeps queue_world table_world"
    using keeps_add_id_record [OF w(1)] unfolding t by (rule keeps_trans)
  show "map_option dev_ctx (s_ctx table_world) = Some [0, 0]"
    using add_id_record_devices [OF w(1)] by (simp add: t new_device_table_def MAX_DEVICES_def two_lists)
qed

section \<open>Set-up and its stages\<close>

definition setup_world :: world where
  "setup_world = (case setup_connection sample_env 7 None open_world of Inl _ \<Rightarrow> open_world | Inr w \<Rightarrow> w)"

definition sample_devices :: dev_context where
  "sample_devices = \<lparr>n_dev = 1, dev_ctx = [5, 0], dev_pd = [11, 0], id_by_addr = None, id_by_qp = None\<rparr>"

lemma device_stage:
  "\<exists>w. try_build_device sample_env 7 open_world = Inr w \<and> ctx_of 7 w = Inr sample_ctx \<and>
    cm_ids w 7 = Some (sample_id\<lparr>cm_context := Some sample_ctx\<rparr>) \<and> s_ctx w = Some sample_devices"
proof -
  have "sample_ctx\<lparr>devid := 0\<rparr> = sample_ctx" "verbs sample_id = 5"
    by (simp_all add: sample_ctx_def new_context_def zero_context_def sample_id_def)
  then show ?thesis
    using open_world_cm_ids(1,2) open_world_facts(4)
    by (simp add: try_build_device_def find_device.simps new_device_table_def MAX_DEVICES_def call_def
        sample_env_def sample_devices_def cm_id_at_def set_ctx_def ctx_of_def two_lists)
qed

lemma channel_stage:
  assumes "ctx_of 7 w = Inr c" "devid c = 0" "s_ctx w = Some sample_devices"
    and "cm_ids w 7 = Some (sample_id\<lparr>cm_context := Some c\<rparr>)"
  shows "\<exists>w' c'. build_cq_channel sample_env 7 w = Inr w' \<and> ctx_of 7 w' = Inr c' \<and> devid c' = 0 \<and>
    cm_ids w' 7 = Some (sample_id\<lparr>cm_context := Some c'\<rparr>) \<and> s_ctx w' = Some sample_devices"
  using assms
  by (simp add: build_cq_channel_def call_def rc_get_context_def set_ctx_def ctx_of_def cm_id_at_def
      sample_env_def sample_devices_def)

lemma queue_pair_stage:
  assumes "ctx_of 7 w = Inr c" "devid c = 0" "s_ctx w = Some sample_devices"
    and "cm_ids w 7 = Some (sample_id\<lparr>cm_context := Some c\<rparr>)"
  shows "\<exists>w' c'. create_queue_pair sample_env 7 w = Inr w' \<and> ctx_of 7 w' = Inr c' \<and>
    cm_ids w' 7 = Some (sample_id\<lparr>cm_context := Some c'\<rparr>) \<and> s_ctx w' = Some sample_devices"
  using assms
  by (simp add: create_queue_pair_def call_def rc_get_pd_def set_ctx_def set_cm_id_def ctx_of_def
      cm_id_at_def sample_env_def sample_id_def sample_devices_def MAX_DEVICES_def Let_def)

lemma setup_world_run:
  "setup_connection sample_env 7 None open_world = Inr setup_world" "qp_of 7 setup_world = Inr sample_qp"
proof -
  obtain w1 where w1: "try_build_device sample_env 7 open_world = Inr w1" "ctx_of 7 w1 = Inr sample_ctx"
    "cm_ids w1 7 = Some (sample_id\<lparr>cm_context := Some sample_ctx\<rparr>)" "s_ctx w1 = Some sample_devices"
    using device_stage by blast
  have "devid sample_ctx = 0" by (simp add: sample_ctx_def new_context_def zero_context_def)
  then obtain w3 c3 where w3: "build_cq_channel sample_env 7 w1 = Inr w3" "ctx_of 7 w3 = Inr c3"
    "devid c3 = 0" "cm_ids w3 7 = Some (sample_id\<lparr>cm_context := Some c3\<rparr>)" "s_ctx w3 = Some sample_devices"
    using channel_stage [OF w1(2) _ w1(4,3)] by blast
  then obtain w4 c4 where w4: "create_queue_pair sample_env 7 w3 = Inr w4"
    "cm_ids w4 7 = Some (sample_id\<lparr>cm_context := Some c4\<rparr>)" "s_ctx w4 = Some sample_devices"
    using queue_pair_stage [OF w3(2,3,5,4)] by blast
  have tabs: "by_qp w4 = None" "by_addr w4 = None"
    using w4(3) by (simp_all add: by_qp_def by_addr_def id_tables_def sample_devices_def)
  then have "ids_ok w4" by (simp add: ids_ok_def hash_inv_def records_def entries_def)
  then obtain w5 where w5: "add_id_record 7 (18515, 16777226) 17 w4 = Inr w5"
    using add_id_record_ok [OF _ w4(3), of 7 "(18515, 16777226)" 17] tabs by (auto simp: hash_room_def)
  then have run: "setup_connection sample_env 7 None open_world = Inr w5"
    using open_world_facts(4) w1(1) w3(1) w4(1,2)
    by (simp add: setup_connection_def peer_meta_def cm_id_at_def qp_of_def sample_id_def copy_ipv4_sockaddr_def
        sample_qp_def)
  then show "setup_connection sample_env 7 None open_world = Inr setup_world" by (simp add: setup_world_def)
  have "qp_of 7 w4 = Inr sample_qp" using w4(2) by (simp add: qp_of_eq_Inr sample_id_def)
  then show "qp_of 7 setup_world = Inr sample_qp"
    using run add_id_record_cm_ids [OF w5] by (simp add: setup_world_def)
qed

section \<open>A client connection, through the library's own steps\<close>

definition client_world :: world where
  "client_world = (case add_connection sample_env ''10.0.0.2'' ''18515'' 0 1 0 agent_world of
     Inl _ \<Rightarrow> agent_world | Inr (_, w) \<Rightarrow> w)"

lemma client_world_facts:
  "add_connection sample_env ''10.0.0.2'' ''18515'' 0 1 0 agent_world = Inr (0, client_world)"
  "sock_ctx 0 client_world = Inr (7, sample_ctx)" "reachable sample_env client_world"
proof -
  let ?w0 = "emit RdmaCreateEventChannel (emit (GetAddrInfo ''10.0.0.2'' ''18515'') agent_world)"
  let ?w1 = "?w0\<lparr>trace := trace ?w0 @ [RdmaCreateId (ec ?w0)]\<rparr>"
  let ?w3 = "emit (RdmaResolveAddr 7 ''10.0.0.2'' ''18515'') (set_cm_id 7 sample_id ?w1)"
  have k1: "keeps agent_world ?w1" by (intro keeps_intros)
  have fresh: "cm_ids ?w1 7 = None" "cm_context sample_id = None"
    by (simp_all add: agent_world_fields sample_id_def)
  have k3: "keeps (set_cm_id 7 sample_id ?w1) ?w3" by (intro keeps_intros)
  have inv: "conn_inv ?w3" and sl: "slots ?w3 = replicate 1000 None"
    using conn_inv_keeps [OF k3 set_new_id(3) [OF fresh conn_inv_keeps [OF k1 agent_world_facts(1)]]]
      slots_keeps [OF k3] set_new_id(2) [OF fresh] slots_keeps [OF k1] agent_world_facts(2) by simp_all
  have free: "first_free (slots ?w3) = Some 0" by (simp only: sl first_free_empty)
  have nz: "(7 :: nat) \<noteq> 0" by simp
  have id: "cm_ids ?w3 7 = Some sample_id" by (simp add: set_cm_id_def)
  have none: "conn_ident ?w3 7 = None" by (simp add: conn_ident_None ctx_of_eq_Inr set_cm_id_def sample_id_def)
  obtain w where w: "init_connection 7 0 1 0 ?w3 = Inr (int 0, w)" "conn_inv w"
    "slots w = (slots ?w3)[0 := Some 7]" "ctx_of 7 w = Inr (new_context 7 (int 0) 0 1 0)"
    by (rule init_connection_slots [where ty = 0 and al = 1 and fl = 0, OF inv free nz id none]) (rule that)
  have run: "add_connection sample_env ''10.0.0.2'' ''18515'' 0 1 0 agent_world = Inr (0, w)"
    using w(1) by (simp add: add_connection_def call_def Let_def sample_env_def agent_world_fields)
  then show add: "add_connection sample_env ''10.0.0.2'' ''18515'' 0 1 0 agent_world = Inr (0, client_world)"
    by (simp add: client_world_def)
  have "client_world = w" using run by (simp add: client_world_def)
  then show "sock_ctx 0 client_world = Inr (7, sample_ctx)"
    using get_connection_slots [OF w(2), of 0] w(3,4) sl by (simp add: sock_ctx_eq_Inr sample_ctx_def)
  have "ans_create_id sample_env (length (trace agent_world) + 2) = (7, sample_id)" by (simp add: sample_env_def)
  then have "lib_step sample_env agent_world client_world"
    by (rule lib_step.client [OF _ _ _ add]) (simp_all add: agent_world_fields sample_id_def)
  with agent_world_reachable show "reachable sample_env client_world" by (rule reachable.step)
qed

end
