(* ===== verification/Queue_Props.thy ===== *)
theory Queue_Props
  imports Samples
begin

text \<open>
  What the code of \<open>src/rdma/mlx5_intf.c\<close>, \<open>mlx5_intf.h\<close> and \<open>doorbell.h\<close> guarantees of the send
  queue: the properties of posting, of the entries it leaves for the adapter, of the producer
  counter the wrappers keep and of the doorbell, each with an instance on a concrete queue.
\<close>

section \<open>Posting a chain\<close>

text \<open>C1: \<open>mlx5_post_send\<close> refines the abstract ring. On a connection whose queue lies in memory
  (\<open>queue_ok\<close>: a power of two of 64-byte blocks, the id array of the same length) every non-empty
  chain of requests that \<open>postable\<close> admits (at most 16 scatter entries, no inline data, an entry not
  longer than the queue) is posted whole: the result is 0 with no bad request; the producer counter
  and the ring of 16-byte chunks after the call are exactly \<open>post_spec\<close> of those before, which
  writes control, operation and data segments of every request in turn, wrapping at the end of the
  buffer; nothing of the connection but \<open>sq_wrid\<close> and the counter changes; and the doorbell
  register holds the first eight bytes of the last entry, unless the queue is a managed one, when it
  is not touched.\<close>

theorem mlx5_post_send_refines:
  assumes "ctx_of p w = Inr ctx" and "qp_of (ctx_id ctx) w = Inr qp"
    and "queue_ok ctx cnt (mem w)" and "list_all (postable E ctx cnt) wrs" and "wrs \<noteq> []"
    and "db_ok ctx (mem w)"
  shows "\<exists>ctx' w'. mlx5_post_send E p wrs w = Inr (0, None, w') \<and> ctx_of p w' = Inr ctx' \<and>
    same_queue ctx ctx' \<and>
    (scur_post ctx', ring_chunks ctx cnt (mem w')) =
      post_spec E ctx (qp_num qp) cnt wrs (scur_post ctx) (ring_chunks ctx cnt (mem w)) \<and>
    bytes_at (mem w') (db_reg ctx) 8 =
      (if flags ctx AND IBV_EXP_QP_CREATE_MANAGED_SEND (abi E) = 0
       then take 8 (ring_chunks ctx cnt (mem w') ! (4 * block_of_last cnt wrs (scur_post ctx) 0))
       else bytes_at (mem w) (db_reg ctx) 8)"
  by (rule mlx5_post_send_ring [OF assms])

theorem mlx5_post_send_refines_witness:
  "\<exists>ctx' w'. mlx5_post_send sample_env 7 [sample_wr, sample_wr] memory_world = Inr (0, None, w') \<and>
    ctx_of 7 w' = Inr ctx' \<and> scur_post ctx' = 2"
proof -
  have ne: "[sample_wr, sample_wr] \<noteq> []" by simp
  have ok: "list_all (postable sample_env memory_ctx 4) [sample_wr, sample_wr]"
    by (simp add: sample_wr_postable)
  have blocks: "wqe_blocks sample_wr = 1" and start: "scur_post memory_ctx = 0"
    by (simp_all add: wqe_blocks_def wqe_size_def sges_def nonempty_def sample_wr_def memory_ctx_def
        queue_ctx_def sample_ctx_def new_context_def zero_context_def)
  obtain ctx' w' where "mlx5_post_send sample_env 7 [sample_wr, sample_wr] memory_world = Inr (0, None, w')"
    "ctx_of 7 w' = Inr ctx'"
    "(scur_post ctx', ring_chunks memory_ctx 4 (mem w')) = post_spec sample_env memory_ctx (qp_num sample_qp) 4
      [sample_wr, sample_wr] (scur_post memory_ctx) (ring_chunks memory_ctx 4 (mem memory_world))"
    using mlx5_post_send_refines [OF memory_world_facts(1-3) ok ne memory_world_facts(4)] by blast
  then show ?thesis
    using post_spec_pos [of sample_env memory_ctx "qp_num sample_qp" 4 "[sample_wr, sample_wr]"
        "scur_post memory_ctx" "ring_chunks memory_ctx 4 (mem memory_world)"]
    by (intro exI conjI) (assumption | (drule arg_cong [of _ _ fst], simp add: blocks start))+
qed

text \<open>C32: what the adapter reads is what was asked for. After posting one request, the first chunk
  at the producer position, read as the adapter reads a control segment, gives back the opcode of the
  request's operation, the queue pair's number, the entry's length in chunks, the control byte the
  table holds for the request's flags, and the immediate value of the operations that carry one. The
  entry index is always 0: the code passes the constant instead of the counter.\<close>

theorem posted_entry_parses:
  assumes "ctx_of p w = Inr ctx" and "qp_of (ctx_id ctx) w = Inr qp"
    and "queue_ok ctx cnt (mem w)" and "postable E ctx cnt wr" and "db_ok ctx (mem w)"
    and "unat (qp_num qp) < 2 ^ 24"
  shows "\<exists>w'. mlx5_post_send E p [wr] w = Inr (0, None, w') \<and>
    parse_ctrl (ring_chunks ctx cnt (mem w') ! (4 * (unat (scur_post ctx) mod cnt))) =
      \<lparr>view_opcode = ucast (MLX5_WRAPPER_IB_OPCODE_GET_OP (mlx5_ib_opcode (exp_opcode wr))),
       view_idx = 0, view_opmod = 0, view_qpn = qp_num qp, view_ds = of_nat (wqe_size wr),
       view_fm_ce_se = fm_ce_se_tbl ctx ! flag_index (abi E) (send_flags wr),
       view_imm = send_ieth wr\<rparr>"
proof -
  let ?i = "unat (scur_post ctx) mod cnt" and ?r = "ring_chunks ctx cnt (mem w)"
  let ?bs = "wqe_chunks E ctx (qp_num qp) wr (?r ! (4 * ?i + 1))"
  have cnt: "0 < cnt" using assms(3) by (auto simp: queue_ok_def sq_ok_def split: option.splits)
  have chain: "list_all (postable E ctx cnt) [wr]" and nonempty: "[wr] \<noteq> []" using assms(4) by simp_all
  obtain w' and c' :: conn_context where w': "mlx5_post_send E p [wr] w = Inr (0, None, w')"
    "(scur_post c', ring_chunks ctx cnt (mem w')) = post_spec E ctx (qp_num qp) cnt [wr] (scur_post ctx) ?r"
    using mlx5_post_send_ring [OF assms(1-3) chain nonempty assms(5)]
    by (elim exE conjE) (rule that; assumption)
  have len: "wqe_size wr \<le> 4 * cnt" "0 < wqe_size wr"
    using assms(4) by (simp_all add: postable_def wqe_size_def)
  have "ring_chunks ctx cnt (mem w') ! ((4 * ?i + 0) mod length ?r) = ?bs ! 0"
    using w'(2) ring_put_nth [of 0 ?bs ?r "4 * ?i"] len by (simp add: Let_def)
  moreover have "(4 * ?i + 0) mod length ?r = 4 * ?i" using cnt by simp
  moreover have "unat (of_nat (wqe_size wr) :: u8) < 64"
    using postable_size [OF assms(4)] by (simp add: unat_of_nat)
  ultimately show ?thesis
    using w'(1) assms(6) by (auto simp: wqe_chunks_def parse_ctrl_bytes)
qed

theorem posted_entry_parses_witness:
  "\<exists>w'. mlx5_post_send sample_env 7 [sample_wr] memory_world = Inr (0, None, w') \<and>
    view_opcode (parse_ctrl (ring_chunks memory_ctx 4 (mem w') ! 0)) = 8 \<and>
    view_qpn (parse_ctrl (ring_chunks memory_ctx 4 (mem w') ! 0)) = 17 \<and>
    view_ds (parse_ctrl (ring_chunks memory_ctx 4 (mem w') ! 0)) = 3"
proof -
  have qpn: "unat (qp_num sample_qp) < 2 ^ 24" by (simp add: sample_qp_def)
  have start: "scur_post memory_ctx = 0"
    by (simp add: memory_ctx_def queue_ctx_def sample_ctx_def new_context_def zero_context_def)
  show ?thesis
    using posted_entry_parses [OF memory_world_facts(1-3) sample_wr_postable memory_world_facts(4) qpn]
    by (auto simp: start sample_wr_def sample_qp_def wqe_size_def sges_def nonempty_def
        MLX5_WRAPPER_IB_OPCODE_def MLX5_WRAPPER_IB_OPCODE_GET_OP_def MLX5_WRAPPER_OPCODE_BASIC_def)
qed

section \<open>The library's own producer counter\<close>

text \<open>The initial block and size of the loop only show when the first request fails.\<close>

lemma post_loop_initial:
  assumes "post_loop E qpn (wr # wrs) n seg sz ctx m = Inr (0, None, r)"
  shows "post_loop E qpn (wr # wrs) n seg' sz' ctx m = Inr (0, None, r)"
  using assms by (auto simp: Let_def split: if_splits elim!: bindR_InrE)

lemma post_loop_from_zero:
  assumes "queue_ok ctx cnt m" and "list_all (postable E ctx cnt) (wr # wrs)"
  obtains ctx' m' seg sz where
    "post_loop E qpn (wr # wrs) 0 0 0 ctx m = Inr (0, None, Suc (length wrs), seg, sz, ctx', m')"
    "scur_post ctx' = scur_post ctx + of_nat (sum_list (map wqe_blocks (wr # wrs)))"
proof -
  obtain ctx' m' sz' where run: "post_loop E qpn (wr # wrs) 0 (sq_start ctx + 64 * 0) 0 ctx m = Inr (0, None,
      0 + length (wr # wrs), sq_start ctx + 64 * block_of_last cnt (wr # wrs) (scur_post ctx) 0, sz', ctx', m')"
    and spec: "(scur_post ctx', ring_chunks ctx cnt m') =
      post_spec E ctx qpn cnt (wr # wrs) (scur_post ctx) (ring_chunks ctx cnt m)"
    using post_loop_ring [OF assms refl, of qpn 0 0 0] by metis
  have "scur_post ctx' = scur_post ctx + of_nat (sum_list (map wqe_blocks (wr # wrs)))"
    using post_spec_pos [of E ctx qpn cnt "wr # wrs"] arg_cong [OF spec, of fst] by (simp del: post_spec.simps)
  then show thesis using that post_loop_initial [OF run] by simp
qed

text \<open>For a single request the counter that \<open>update_scur_post\<close> keeps for the unmodified driver is
  the one the queue builder itself reaches: \<open>mlx5_post_send\<close>'s loop posts the request without error,
  and the wrapper's prediction is the very connection state it leaves, id array and counter alike.\<close>

theorem shadow_counter_single:
  assumes "queue_ok ctx cnt m" and "postable E ctx cnt wr"
  shows "\<exists>seg sz ctx' m'. post_loop E qpn [wr] 0 0 0 ctx m = Inr (0, None, 1, seg, sz, ctx', m') \<and>
    update_scur_post wr ctx = Inr ctx'"
proof -
  have ok: "list_all (postable E ctx cnt) [wr]" using assms(2) by simp
  obtain ctx' m' seg sz where
    run: "post_loop E qpn [wr] 0 0 0 ctx m = Inr (0, None, Suc (length ([] :: send_wr list)), seg, sz, ctx', m')"
    by (rule post_loop_from_zero [OF assms(1) ok, of qpn]) (rule that; assumption)
  show ?thesis using run update_scur_post_builder [OF assms run] by auto
qed

theorem shadow_counter_single_witness:
  "\<exists>ctx'. update_scur_post sample_wr memory_ctx = Inr ctx'"
  using shadow_counter_single [OF memory_world_facts(3) sample_wr_postable] by blast

text \<open>For a chain it is not. The wrapper looks at the head of the chain only, so that after two
  requests its counter stands short of the builder's by the blocks of the second: the builder's
  counter advances over both.\<close>

theorem shadow_counter_chain_drifts:
  assumes "queue_ok ctx cnt m" and "postable E ctx cnt wr" and "postable E ctx cnt wr2"
  shows "\<exists>seg sz ctx' m' c. post_loop E qpn [wr, wr2] 0 0 0 ctx m = Inr (0, None, 2, seg, sz, ctx', m') \<and>
    update_scur_post wr ctx = Inr c \<and>
    scur_post ctx' = scur_post c + of_nat (wqe_blocks wr2) \<and> scur_post ctx' \<noteq> scur_post c"
proof -
  have ok: "list_all (postable E ctx cnt) [wr, wr2]" using assms(2,3) by simp
  obtain ctx' m' seg sz where
    run: "post_loop E qpn [wr, wr2] 0 0 0 ctx m = Inr (0, None, Suc (length [wr2]), seg, sz, ctx', m')"
    and "scur_post ctx' = scur_post ctx + of_nat (sum_list (map wqe_blocks [wr, wr2]))"
    by (rule post_loop_from_zero [OF assms(1) ok, of qpn])
  then have pos: "scur_post ctx' = scur_post ctx + of_nat (wqe_blocks wr) + of_nat (wqe_blocks wr2)" by simp
  have "wr_ok wr" "length (sges wr) < 2 ^ 20" using assms(2) by (simp_all add: postable_def)
  then have upd: "update_scur_post wr ctx = Inr (advanced cnt wr ctx)"
    using update_scur_post_eq [OF queue_ok_counter [OF assms(1)]] by simp
  have "0 < wqe_blocks wr2" "wqe_blocks wr2 \<le> 5"
    using postable_size [OF assms(3)] by (simp_all add: wqe_blocks_def wqe_size_def)
  then have "unat (of_nat (wqe_blocks wr2) :: u32) \<noteq> 0" by (simp add: unat_of_nat)
  then have "(of_nat (wqe_blocks wr2) :: u32) \<noteq> 0" by (simp only: unat_eq_0 simp_thms)
  then show ?thesis using run upd pos by (auto simp: advanced_def numeral_2_eq_2)
qed

theorem shadow_counter_chain_drifts_witness:
  "\<exists>seg sz ctx' m' c. post_loop sample_env 17 [sample_wr, sample_wr] 0 0 0 memory_ctx (mem memory_world) =
     Inr (0, None, 2, seg, sz, ctx', m') \<and> update_scur_post sample_wr memory_ctx = Inr c \<and>
     scur_post ctx' \<noteq> scur_post c"
  using shadow_counter_chain_drifts [OF memory_world_facts(3) sample_wr_postable sample_wr_postable] by blast

section \<open>Control bits\<close>

text \<open>\<open>mlx5_build_ctrl_metadata\<close> succeeds on the arrays \<open>init_connection\<close> makes, and from then on the
  control byte found under a request's flags holds the solicited, completion and fence bits the
  request asks for and no others, joined with the queue's signal-all bits, whatever other flags are
  set. \<open>abi_ok\<close> says that the verbs library gives the three flags the values 1, 2 and 4 in some order,
  as the tables of eight entries presume.\<close>

theorem control_bits_of_flags:
  assumes "abi_ok A" and "length (fm_ce_se_tbl ctx) = 8" and "length (fm_ce_se_acc ctx) = 32"
  shows "\<exists>ctx'. mlx5_build_ctrl_metadata A ctx = Inr ctx' \<and> length (fm_ce_se_tbl ctx') = 8 \<and>
    (\<forall>fl. fm_ce_se_tbl ctx' ! flag_index A fl = sq_signal_bits ctx OR
       ctrl_bits (fl AND IBV_SEND_SOLICITED A \<noteq> 0) (fl AND IBV_SEND_SIGNALED A \<noteq> 0)
         (fl AND IBV_SEND_FENCE A \<noteq> 0))"
  by (rule mlx5_build_ctrl_metadata_ok [OF assms])

theorem control_bits_of_flags_witness:
  "\<exists>ctx'. mlx5_build_ctrl_metadata sample_abi sample_ctx = Inr ctx' \<and>
    fm_ce_se_tbl ctx' ! flag_index sample_abi 3 = MLX5_WQE_CTRL_CQ_UPDATE OR MLX5_WQE_CTRL_FENCE"
proof -
  have "abi_ok sample_abi" by (simp add: abi_ok_def sample_abi_def)
  moreover have "length (fm_ce_se_tbl sample_ctx) = 8" "length (fm_ce_se_acc sample_ctx) = 32"
    by (simp_all add: sample_ctx_def new_context_def zero_context_def)
  moreover have "sq_signal_bits sample_ctx = 0"
    by (simp add: sample_ctx_def new_context_def zero_context_def)
  ultimately show ?thesis
    using control_bits_of_flags [of sample_abi sample_ctx]
    by (auto simp: ctrl_bits_def sample_abi_def)
qed

section \<open>The BlueFlame copy\<close>

text \<open>\<open>mlx5_bf_copy\<close> copies the entry whole: with the register clear of the queue, copying \<open>n\<close>
  64-byte blocks from block \<open>i\<close> puts into the register the blocks \<open>i, i + 1, ...\<close> of the queue, the
  one after the last being the first, and changes no other byte of memory.\<close>

theorem bf_copy_wraps:
  assumes "sq_end ctx = sq_buf q + 64 * cnt" and "i < cnt" and "mapped m (sq_buf q) (64 * cnt)"
    and "mapped m dst (64 * n)" and "unat bytecnt = 64 * n"
    and "dst + 64 * n \<le> sq_buf q \<or> sq_buf q + 64 * cnt \<le> dst"
  shows "\<exists>m'. mlx5_bf_copy dst (sq_buf q + 64 * i) bytecnt ctx q m = Inr m' \<and>
    bytes_at m' dst (64 * n) =
      concat (map (\<lambda>j. bytes_at m (sq_buf q + 64 * ((i + j) mod cnt)) 64) [0..<n]) \<and>
    (\<forall>x. x < dst \<or> dst + 64 * n \<le> x \<longrightarrow> m' x = m x)"
  using bf_copy_blocks_ring [OF assms(2,3,4,6)] assms(1,5) by (simp add: mlx5_bf_copy_def)

theorem bf_copy_wraps_witness:
  "\<exists>m'. mlx5_bf_copy 1024 (4096 + 64 * 3) 128 memory_ctx sample_dv (\<lambda>_. Some 5) = Inr m' \<and>
    bytes_at m' 1024 (64 * 2) = concat (map (\<lambda>j. replicate 64 5) [0..<2])"
proof -
  have bytes: "bytes_at (\<lambda>_. Some 5) a 64 = replicate 64 5" for a
    by (simp add: bytes_at_def map_replicate_const)
  have fits: "sq_end memory_ctx = sq_buf sample_dv + 64 * 4" "sq_buf sample_dv = 4096"
    by (simp_all add: memory_ctx_def sample_dv_def)
  show ?thesis
    using bf_copy_wraps [OF fits(1), where i = 3 and m = "\<lambda>_. Some 5" and dst = 1024 and n = 2 and bytecnt = 128]
    by (auto simp: fits(2) mapped_iff bytes)
qed

end
