(* ===== verification/Conn_Spec.thy ===== *)
theory Conn_Spec
  imports Conn_Ids Mr_Correct
begin

text \<open>
  The abstract connection table, a list of sockets each free or taken, and the simulation: whatever
  the library does, its bitmap and its array of connection identifiers go through steps of that table
  only. The simulation argument is an interface of its own (\<open>simulation\<close>), interpreted on the
  library's steps.
\<close>

section \<open>Simulations\<close>

locale simulation =
  fixes start :: "'c \<Rightarrow> bool" and step :: "'c \<Rightarrow> 'c \<Rightarrow> bool" and inv :: "'c \<Rightarrow> bool"
    and view :: "'c \<Rightarrow> 'a" and astart :: "'a \<Rightarrow> bool" and astep :: "'a \<Rightarrow> 'a \<Rightarrow> bool"
  assumes start_ok: "start w \<Longrightarrow> inv w \<and> astart (view w)"
    and step_ok: "inv w \<Longrightarrow> step w w' \<Longrightarrow> inv w' \<and> astep\<^sup>*\<^sup>* (view w) (view w')"
begin

lemma steps_ok:
  assumes "step\<^sup>*\<^sup>* w w'" and "inv w"
  shows "inv w' \<and> astep\<^sup>*\<^sup>* (view w) (view w')"
  using assms by (induction rule: rtranclp_induct) (auto dest: step_ok intro: rtranclp_trans)

lemma run_inv: "start w \<Longrightarrow> step\<^sup>*\<^sup>* w w' \<Longrightarrow> inv w'"
  using start_ok steps_ok by blast

lemma run_view: "start w \<Longrightarrow> step\<^sup>*\<^sup>* w w' \<Longrightarrow> \<exists>a. astart a \<and> astep\<^sup>*\<^sup>* a (view w')"
  using start_ok steps_ok by blast

end

section \<open>The table of sockets\<close>

inductive slot_step :: "nat option list \<Rightarrow> nat option list \<Rightarrow> bool" where
  takes: "first_free t = Some k \<Longrightarrow> Some p \<notin> set t \<Longrightarrow> slot_step t (t[k := Some p])"
| frees: "k < length t \<Longrightarrow> t ! k = Some p \<Longrightarrow> slot_step t (t[k := None])"

inductive_cases slot_stepE: "slot_step t t'"

definition slots_valid :: "nat option list \<Rightarrow> bool" where
  "slots_valid t \<longleftrightarrow> length t = 1000 \<and> distinct (filter (\<lambda>s. s \<noteq> None) t)"

lemma distinct_filter_update:
  assumes "distinct (filter P xs)" and "k < length xs" and "x \<notin> set xs \<or> \<not> P x"
  shows "distinct (filter P (xs[k := x]))"
  using assms
proof (induction xs arbitrary: k)
  case (Cons a xs)
  then show ?case
    by (cases k) (auto split: if_splits dest: set_update_subset_insert [THEN subsetD])
qed simp

lemma slot_step_valid: "slot_step t t' \<Longrightarrow> slots_valid t \<Longrightarrow> slots_valid t'"
  by (auto simp: slots_valid_def elim!: slot_stepE intro!: distinct_filter_update dest: first_free_SomeD(1))

lemma slot_steps_valid: "slot_step\<^sup>*\<^sup>* t t' \<Longrightarrow> slots_valid t \<Longrightarrow> slots_valid t'"
  by (induction rule: rtranclp_induct) (auto dest: slot_step_valid)

section \<open>The library simulates it\<close>

lemma not_at_a_socket:
  assumes "conn_inv w" and "conn_ident w p = None"
  shows "Some p \<notin> set (slots w)"
proof
  assume "Some p \<in> set (slots w)"
  then obtain i where "i < 1000" "slots w ! i = Some p"
    using assms(1) by (auto simp: in_set_conv_nth)
  then show False using slots_ident [OF assms(1)] assms(2) by auto
qed

lemma table_step_slots:
  assumes "table_step w w'" and "conn_inv w"
  shows "slot_step\<^sup>=\<^sup>= (slots w) (slots w')"
  using assms(1)
proof (elim table_stepE, goal_cases)
  case 1
  then show ?case using slots_keeps by simp
next
  case (2 p i)
  then show ?case using set_new_id(2) [of w p i] by simp
next
  case (3 p ty al fl s)
  obtain k where "first_free (slots w) = Some k" "slots w' = (slots w)[k := Some p]"
    by (rule init_connection_result [OF assms(2) 3])
  then show ?case using not_at_a_socket [OF assms(2) 3(1)] slot_step.takes by simp
next
  case (4 p)
  obtain c where c: "ctx_of p w = Inr c" using rc_clear_ctx [OF 4] by blast
  then have "nat (sockfd c) < length (slots w)" "slots w ! nat (sockfd c) = Some p"
    using ident_slots [OF assms(2) conn_ident_ctx [OF c]] assms(2) by simp_all
  then show ?case using slot_step.frees rc_clear_slots(2) [OF assms(2) c 4] by simp
qed

lemma table_steps_slots:
  assumes "table_step\<^sup>*\<^sup>* w w'" and "conn_inv w"
  shows "conn_inv w' \<and> slot_step\<^sup>*\<^sup>* (slots w) (slots w')"
  using assms
proof (induction rule: rtranclp_induct)
  case (step u v)
  then have "slot_step\<^sup>=\<^sup>= (slots u) (slots v)" "conn_inv v"
    using table_step_slots table_step_inv(1) by blast+
  then show ?case using step by (auto intro: rtranclp.rtrancl_into_rtrancl)
qed simp

definition started :: "env \<Rightarrow> world \<Rightarrow> bool" where
  "started E w \<longleftrightarrow> (\<exists>rs n bs cl cb. init_rdma_agent E rs n bs cl cb initial_world = Inr w)"

interpretation conns: simulation "started E" "lib_step E" conn_inv slots "\<lambda>t. t = replicate 1000 None" slot_step
  for E
proof (unfold_locales, goal_cases)
  case (1 w)
  then show ?case by (auto simp: started_def init_rdma_agent_inv)
next
  case (2 w w')
  then show ?case using table_steps_slots lib_step_table by blast
qed

lemma reachable_steps: "reachable E w \<Longrightarrow> \<exists>w0. started E w0 \<and> (lib_step E)\<^sup>*\<^sup>* w0 w"
proof (induction rule: reachable.induct)
  case (start rs n bs cl cb w)
  then have "started E w" unfolding started_def by blast
  then show ?case by blast
next
  case (step w w')
  then show ?case by (blast intro: rtranclp.rtrancl_into_rtrancl)
qed

lemma reachable_slots: "reachable E w \<Longrightarrow> slot_step\<^sup>*\<^sup>* (replicate 1000 None) (slots w)"
  using reachable_steps conns.run_view by blast

lemma reachable_slots_valid:
  assumes "reachable E w"
  shows "slots_valid (slots w)"
proof -
  have "slots_valid (replicate 1000 None)" by (simp add: slots_valid_def filter_replicate)
  then show ?thesis using reachable_slots [OF assms] by (rule slot_steps_valid [rotated])
qed

section \<open>Clearing a connection\<close>

lemma state_query_slots:
  assumes "conn_inv w" and "ctx_of p w = Inr c"
  shows "state_query P (sockfd c) w = Inr (if P (state c) then 1 else 0)"
proof -
  note at = ident_slots [OF assms(1) conn_ident_ctx [OF assms(2)]]
  obtain bm ids where bm: "s_conn_bitmap w = Some bm" "s_conn_ids w = Some ids"
    "length bm = 1000" "length ids = 1000"
    using assms(1) by (rule conn_invE)
  have "conn_id_at (sockfd c) w = Inr p"
    using at bm nth_slots [OF bm(1,2), of "nat (sockfd c)"] by (simp add: conn_id_at_def split: if_splits)
  moreover have "p \<noteq> 0" using assms(2) by (auto simp: ctx_of_eq_Inr)
  ultimately show ?thesis
    using at assms get_connection_slots [OF assms(1), of "sockfd c"] by (simp add: state_query_def)
qed

lemma rc_clear_refused:
  assumes "conn_inv w" and "ctx_of p w = Inr c" and "state c \<noteq> RC_CONNECTION_TERMINATED"
  shows "rc_clear p w = Inl (Die ''can't clear metadata for non-terminated connection'')"
  using assms state_query_slots [OF assms(1,2)] by (simp add: rc_clear_def rc_terminated_def)

text \<open>The message buffers of a connection are registered, each way.\<close>

definition buffers_registered :: "conn_context \<Rightarrow> bool" where
  "buffers_registered c \<longleftrightarrow>
     length (msg_send_mr c) = MAX_BUFFER \<and> None \<notin> set (msg_send_mr c) \<and>
     length (msg_rcv_mr c) = MAX_BUFFER \<and> None \<notin> set (msg_rcv_mr c) \<and>
     length (msg_send c) = MAX_BUFFER \<and> length (msg_rcv c) = MAX_BUFFER"

lemma clear_regions_run: "region_arrays c \<Longrightarrow> foldR (clear_region c) [0..MAX_MR - 1] w = Inr w"
  by (auto simp: region_arrays_def clear_region_def MAX_MR_def upto.simps [of 0] upto.simps [of 1])

lemma foldR_run:
  assumes "\<And>x s. x \<in> set xs \<Longrightarrow> \<exists>t. f x s = Inr t"
  shows "\<exists>t. foldR f xs s = Inr t"
  using assms
proof (induction xs arbitrary: s)
  case (Cons x xs)
  obtain t where "f x s = Inr t" using Cons.prems [of x s] by auto
  then show ?case using Cons by simp
qed simp

lemma clear_buffer_run:
  assumes "buffers_registered c" and "i < MAX_BUFFER"
  shows "\<exists>w'. clear_buffer c i w = Inr w'"
proof -
  have "msg_send_mr c ! i \<noteq> None" "msg_rcv_mr c ! i \<noteq> None"
    using assms by (metis buffers_registered_def nth_mem)+
  then show ?thesis using assms by (auto simp: clear_buffer_def buffers_registered_def)
qed

lemma rc_clear_run:
  assumes "conn_inv w" and "ctx_of p w = Inr c" and "state c = RC_CONNECTION_TERMINATED"
    and "region_arrays c" and "buffers_registered c"
  shows "\<exists>w'. rc_clear p w = Inr w'"
proof -
  obtain bm ids where "s_conn_bitmap w = Some bm" "s_conn_ids w = Some ids"
    "length bm = 1000" "length ids = 1000"
    using assms(1) by (rule conn_invE)
  moreover have "0 \<le> sockfd c" "sockfd c < 1000"
    using ident_slots [OF assms(1) conn_ident_ctx [OF assms(2)]] by simp_all
  moreover obtain w2 where "foldR (clear_buffer c) [0..<MAX_BUFFER] v = Inr (w2 v)" for v
    using foldR_run [of "[0..<MAX_BUFFER]" "clear_buffer c"] clear_buffer_run [OF assms(5)]
    by (metis atLeastLessThan_iff set_upt)
  ultimately show ?thesis
    using assms state_query_slots [OF assms(1,2)]
    by (simp add: rc_clear_def rc_terminated_def clear_regions_run)
qed

end
