(* ===== verification/Conn_Props.thy ===== *)
theory Conn_Props
  imports Samples Conn_Spec
begin

text \<open>
  What \<open>src/rdma/connection.c\<close> guarantees of the connection table, of the lookup tables and of the
  states of a connection, over everything the library does, each property with a concrete instance.
\<close>

section \<open>The connection table\<close>

text \<open>C2: the connection table is exact in every state the library can reach from its initialisation
  through any sequence of the steps of \<open>lib_step\<close>: events of the connection manager (a new \<open>rdma_cm_id\<close> is not
  one in use), client connections, and the calls of \<open>app_call\<close> that return, which are the functions of
  \<open>verbs.h\<close>, \<open>mr.h\<close>, \<open>messaging.h\<close> and \<open>connection.h\<close> that change the state, synchronous, broadcasting and waiting ones
  included, and the polling threads; while one of them pauses, the other threads may themselves open, clear
  and use connections. (A call that faults or ends the process is no step; \<open>rc_init\<close> runs once, in the
  initialisation.) Both arrays exist with 1000 entries, the bitmap holds zeros and ones only, every socket
  marked open leads to a connection that records this socket and its own identifier, and every
  connection is found at the socket it records.\<close>

theorem reachable_table_exact:
  assumes "reachable E w"
  shows "conn_inv w"
  using reachable_inv [OF assms] by simp

text \<open>A client connects, and the application takes a request identifier on the new socket.\<close>

theorem reachable_table_exact_witness:
  "\<exists>w. IBV_NEXT_WR_ID 0 client_world = Inr (1, w) \<and> w \<noteq> client_world \<and> conn_inv w"
proof -
  let ?w = "set_ctx 7 (sample_ctx\<lparr>last_send := 1\<rparr>) client_world"
  have c: "sock_ctx 0 client_world = Inr (7, sample_ctx)" "ctx_of 7 client_world = Inr sample_ctx"
    using client_world_facts(2) by (simp_all add: sock_ctx_eq_Inr)
  have start: "last_send sample_ctx = 0" by (simp add: sample_ctx_def new_context_def zero_context_def)
  have run: "IBV_NEXT_WR_ID 0 client_world = Inr (1, ?w)" using c(1) start by (simp add: IBV_NEXT_WR_ID_def)
  then have "lib_step sample_env client_world ?w" by (intro lib_step.called app_call.next_wr_id)
  with client_world_facts(3) have "reachable sample_env ?w" by (rule reachable.step)
  moreover have set: "ctx_of 7 ?w = Inr (sample_ctx\<lparr>last_send := 1\<rparr>)" using c(2) by simp
  have "last_send (sample_ctx\<lparr>last_send := 1\<rparr>) \<noteq> last_send sample_ctx" using start by simp
  then have "?w \<noteq> client_world" using c(2) set by (metis sum.inject(2))
  ultimately show ?thesis using run reachable_table_exact by blast
qed

text \<open>C27: the library refines the abstract table of sockets. Starting from 1000 free sockets, every
  reachable state's table is reached by taking the lowest free socket for a connection that sits at no
  socket, and by freeing a taken one; so no connection ever sits at two sockets.\<close>

theorem reachable_table_simulated:
  assumes "reachable E w"
  shows "slot_step\<^sup>*\<^sup>* (replicate 1000 None) (slots w) \<and> slots_valid (slots w)"
  using reachable_slots [OF assms] reachable_slots_valid [OF assms] by simp_all

theorem reachable_table_simulated_witness:
  "slot_step\<^sup>*\<^sup>* (replicate 1000 None) (slots client_world) \<and> slots_valid (slots client_world)"
  by (rule reachable_table_simulated [OF client_world_facts(3)])

text \<open>\<open>get_connection\<close> answers for every socket below the maximum: 0 exactly for a free one, and
  otherwise the identifier of a connection that records this socket and points to itself.\<close>

theorem socket_names_its_connection:
  assumes "reachable E w" and "0 \<le> s" and "s < MAX_CONNECTIONS"
  shows "\<exists>p. get_connection s w = Inr p \<and> (p = 0 \<longleftrightarrow> slots w ! nat s = None) \<and>
    (p = 0 \<or> (\<exists>c. ctx_of p w = Inr c \<and> sockfd c = s \<and> ctx_id c = p))"
proof -
  have inv: "conn_inv w" using reachable_inv [OF assms(1)] by simp
  have s: "0 \<le> s" "s < 1000" using assms by (simp_all add: MAX_CONNECTIONS_def)
  note get = get_connection_slots [OF inv s]
  show ?thesis
  proof (cases "slots w ! nat s")
    case None
    then show ?thesis using get by simp
  next
    case (Some p)
    then have "conn_ident w p = Some (s, p)" using slots_ident [OF inv, of "nat s" p] s by simp
    then show ?thesis
      using Some get conn_ident_nonzero [of w p "(s, p)"] by (auto simp: conn_ident_eq)
  qed
qed

theorem socket_names_its_connection_witness: "get_connection 5 agent_world = Inr 0"
proof -
  have "slots agent_world ! nat 5 = None" by (simp add: agent_world_facts(2))
  then show ?thesis
    using socket_names_its_connection [OF agent_world_reachable, of 5] by (auto simp: MAX_CONNECTIONS_def)
qed

text \<open>\<open>init_connection\<close> creates a connection at the lowest free socket: it returns that socket,
  the new context is the zeroed one with the given type, poll and flag settings, the table changes at
  this socket only, and the table stays exact.\<close>

theorem init_connection_lowest_free:
  assumes "conn_inv w" and "first_free (slots w) = Some k"
    and "p \<noteq> 0" and "cm_ids w p = Some i" and "conn_ident w p = None"
  shows "\<exists>w'. init_connection p ty al fl w = Inr (int k, w') \<and> conn_inv w' \<and>
    slots w' = (slots w)[k := Some p] \<and> ctx_of p w' = Inr (new_context p (int k) ty al fl)"
proof -
  obtain w' where w': "init_connection p ty al fl w = Inr (int k, w')" "conn_inv w'"
    "slots w' = (slots w)[k := Some p]" "ctx_of p w' = Inr (new_context p (int k) ty al fl)"
    by (rule init_connection_slots [OF assms, of ty al fl])
  then show ?thesis by (intro exI [of _ w'] conjI)
qed

theorem init_connection_lowest_free_witness:
  "\<exists>w'. init_connection 7 0 1 0 arrival_world = Inr (int 0, w') \<and> conn_inv w'"
proof -
  have free: "first_free (slots arrival_world) = Some 0"
    by (simp add: arrival_world_facts(2) first_free_empty)
  have nz: "(7 :: nat) \<noteq> 0" by simp
  show ?thesis
    using init_connection_lowest_free [OF arrival_world_facts(1) free nz arrival_world_facts(3,4)] by blast
qed

text \<open>With all 1000 sockets taken the library refuses a new connection with its message, rather
  than reuse a socket or write outside the bitmap.\<close>

theorem init_connection_table_full:
  assumes "conn_inv w" and "first_free (slots w) = None"
  shows "init_connection p ty al fl w =
    Inl (Die ''can't open new connection; number of open sockets == MAX_CONNECTIONS'')"
  by (rule init_connection_full [OF assms])

text \<open>A full table: connection \<open>i + 1\<close> at socket \<open>i\<close>.\<close>

definition full_world :: world where
  "full_world = initial_world\<lparr>s_conn_bitmap := Some (replicate 1000 1), s_conn_ids := Some [1..<1001],
     cm_ids := (\<lambda>p. if 1 \<le> p \<and> p \<le> 1000
       then Some (sample_id\<lparr>cm_context := Some (new_context p (int (p - 1)) 0 0 0)\<rparr>) else None)\<rparr>"

lemma full_world_inv: "conn_inv full_world" "first_free (slots full_world) = None"
proof -
  have id: "conn_ident full_world p = (if 1 \<le> p \<and> p \<le> 1000 then Some (int (p - 1), p) else None)" for p
    by (auto simp: conn_ident_eq conn_ident_None ctx_of_eq_Inr full_world_def)
  have ex: "slots_exact full_world (replicate 1000 1) [1..<1001]"
    by (auto simp: slots_exact_def id MAX_CONNECTIONS_def nth_upt split: if_splits)
  have fields: "s_conn_bitmap full_world = Some (replicate 1000 1)" "s_conn_ids full_world = Some [1..<1001]"
    by (simp_all add: full_world_def)
  show "conn_inv full_world" by (rule conn_invI [OF fields _ _ _ ex]) simp_all
  show "first_free (slots full_world) = None"
    by (auto simp: first_free_None slots_def full_world_def in_set_zip)
qed

theorem init_connection_table_full_witness:
  "init_connection 2000 0 0 0 full_world =
    Inl (Die ''can't open new connection; number of open sockets == MAX_CONNECTIONS'')"
  by (rule init_connection_table_full [OF full_world_inv])

text \<open>\<open>rc_clear\<close> gives the socket back. A terminated connection whose region arrays and message
  buffers are in place is cleared without a fault: its socket is free again, its identifier is gone,
  every other connection keeps its place, and the table stays exact. A connection that is not
  terminated is refused.\<close>

theorem rc_clear_frees_socket:
  assumes "conn_inv w" and "ctx_of p w = Inr c"
  shows "(state c = RC_CONNECTION_TERMINATED \<and> region_arrays c \<and> buffers_registered c \<longrightarrow>
      (\<exists>w'. rc_clear p w = Inr w' \<and> conn_inv w' \<and> slots w' = (slots w)[nat (sockfd c) := None] \<and>
        cm_ids w' p = None \<and> (\<forall>q. conn_ident w' q = (if q = p then None else conn_ident w q)))) \<and>
    (state c \<noteq> RC_CONNECTION_TERMINATED \<longrightarrow>
      rc_clear p w = Inl (Die ''can't clear metadata for non-terminated connection''))"
proof (intro conjI impI)
  assume c: "state c = RC_CONNECTION_TERMINATED \<and> region_arrays c \<and> buffers_registered c"
  then obtain w' where w': "rc_clear p w = Inr w'" using rc_clear_run [OF assms] by blast
  note facts = rc_clear_slots [OF assms w']
  have "conn_ident w' q = (if q = p then None else conn_ident w q)" for q
    using facts(3) by (simp add: conn_ident_who)
  then show "\<exists>w'. rc_clear p w = Inr w' \<and> conn_inv w' \<and> slots w' = (slots w)[nat (sockfd c) := None] \<and>
      cm_ids w' p = None \<and> (\<forall>q. conn_ident w' q = (if q = p then None else conn_ident w q))"
    using w' facts by blast
qed (rule rc_clear_refused [OF assms])

definition ended_ctx :: conn_context where
  "ended_ctx = sample_ctx\<lparr>state := RC_CONNECTION_TERMINATED, msg_send_mr := [Some sample_mr],
     msg_rcv_mr := [Some sample_mr]\<rparr>"

theorem rc_clear_frees_socket_witness:
  "\<exists>w'. rc_clear 7 (set_ctx 7 ended_ctx open_world) = Inr w' \<and> slots w' = replicate 1000 None"
proof -
  have k: "keeps open_world (set_ctx 7 ended_ctx open_world)"
    using open_world_facts(4) by (rule keeps_update) (simp add: ended_ctx_def)
  have inv: "conn_inv (set_ctx 7 ended_ctx open_world)" by (rule conn_inv_keeps [OF k open_world_facts(2)])
  have ctx: "ctx_of 7 (set_ctx 7 ended_ctx open_world) = Inr ended_ctx" using open_world_facts(4) by simp
  have ok: "state ended_ctx = RC_CONNECTION_TERMINATED \<and> region_arrays ended_ctx \<and> buffers_registered ended_ctx"
    by (simp add: ended_ctx_def sample_ctx_def buffers_registered_def MAX_BUFFER_def new_context_def
        region_arrays_def MAX_MR_def zero_context_def)
  have sock: "sockfd ended_ctx = 0" by (simp add: ended_ctx_def sample_ctx_def new_context_def)
  have "slots (set_ctx 7 ended_ctx open_world) = (replicate 1000 None)[0 := Some 7]"
    using slots_keeps [OF k] open_world_facts(3) by simp
  then show ?thesis
    using rc_clear_frees_socket [OF inv ctx] ok sock
    by (auto simp: list_eq_iff_nth_eq nth_list_update)
qed

text \<open>The iteration and the count agree with the table: \<open>rc_next_connection\<close> returns the first open
  socket above the given one (-1 when there is none), and \<open>rc_connection_count\<close> the number of open
  sockets.\<close>

theorem iteration_and_count:
  assumes "conn_inv w" and "- 1 \<le> cur"
  shows "rc_next_connection cur w =
      Inr (case find (\<lambda>i. cur < int i \<and> slots w ! i \<noteq> None) [0..<1000] of None \<Rightarrow> - 1 | Some k \<Rightarrow> int k) \<and>
    rc_connection_count w = Inr (int (length (filter (\<lambda>s. s \<noteq> None) (slots w))))"
  using rc_next_connection_slots [OF assms] rc_connection_count_slots [OF assms(1)] assms(1)
  by (simp_all add: next_open_def)

theorem iteration_and_count_witness: "rc_connection_count open_world = Inr 1"
proof -
  have "(replicate 1000 None)[0 := Some (7 :: nat)] = Some 7 # replicate 999 None"
    by (simp add: numeral_eq_Suc)
  then show ?thesis
    using iteration_and_count [OF open_world_facts(2), of "- 1"]
    by (simp add: open_world_facts(3) filter_replicate)
qed

end
