(* ===== verification/Lookup_Props.thy ===== *)
theory Lookup_Props
  imports Samples Conn_Spec
begin

text \<open>
  The two lookup tables of a device context (\<open>uthash.h\<close> as \<open>connection.c\<close> uses it): from the hash
  table itself to what the set-up and the end of a connection mean for the completions that arrive.
\<close>

section \<open>The hash table\<close>

text \<open>C40: a hash table under \<open>hash_inv\<close> (32, 64, ... buckets, every handle in the bucket of its hash,
  counts and insertion order right) is a map for whoever keeps keys distinct. \<open>HASH_ADD\<close> of a new
  element under a new key always succeeds, expanding the buckets when a chain is long, keeps the
  invariant, and afterwards \<open>HASH_FIND\<close> of the key finds the element and every other key what it
  found before.\<close>

theorem hash_add_then_find:
  assumes "hash_inv hf t" and "hash_room t" and "uth.keys_distinct t"
    and "e \<notin> fst ` set (entries t)" and "uth.as_map t k = None"
  shows "\<exists>t'. HASH_ADD hf e k v t = Inr t' \<and> hash_inv hf t' \<and> uth.keys_distinct t' \<and>
    hash_search hf t' k = Inr (Some (e, v)) \<and> (\<forall>j. j = k \<or> hash_search hf t' j = hash_search hf t j)"
proof -
  obtain t' where t': "HASH_ADD hf e k v t = Inr t'" "hash_inv hf t'" "uth.keys_distinct t'"
    "uth.as_map t' = (uth.as_map t)(k \<mapsto> (e, v))"
    using uth.link_new_key [OF assms, of v] by blast
  then show ?thesis
    using uth.search_as_map [OF t'(2,3)] uth.search_as_map [OF assms(1,3)] by (intro exI [of _ t']) simp
qed

theorem hash_add_then_find_witness:
  "\<exists>t'. HASH_ADD hash_u32 3 17 (7 :: nat) None = Inr t' \<and> hash_search hash_u32 t' 17 = Inr (Some (3, 7))"
proof -
  have "hash_inv hash_u32 None" "hash_room None" "uth.keys_distinct None" "3 \<notin> fst ` set (entries None)"
    "uth.as_map None 17 = None"
    by (simp_all add: hash_inv_def hash_room_def uth.keys_distinct_def uth.as_map_def entries_def)
  from hash_add_then_find [OF this, of "7 :: nat"] show ?thesis by blast
qed

text \<open>\<open>HASH_DELETE\<close> of the element found under a key succeeds, keeps the invariant, and afterwards
  that key is not found while every other is found as before.\<close>

theorem hash_delete_then_find:
  assumes "hash_inv hf t" and "uth.keys_distinct t" and "uth.as_map t k = Some (e, v)"
  shows "\<exists>t'. HASH_DELETE e t = Inr t' \<and> hash_inv hf t' \<and> uth.keys_distinct t' \<and>
    hash_search hf t' k = Inr None \<and> (\<forall>j. j = k \<or> hash_search hf t' j = hash_search hf t j)"
proof -
  obtain t' where t': "HASH_DELETE e t = Inr t'" "hash_inv hf t'" "uth.keys_distinct t'"
    "uth.as_map t' = (uth.as_map t)(k := None)"
    using uth.unlink_key [OF assms] by blast
  then show ?thesis
    using uth.search_as_map [OF t'(2,3)] uth.search_as_map [OF assms(1,2)] by (intro exI [of _ t']) simp
qed

theorem hash_delete_then_find_witness:
  "\<exists>t'. HASH_DELETE (heap_next queue_world) (by_qp table_world) = Inr t' \<and>
    hash_search hash_u32 t' 17 = Inr None"
proof -
  have inv: "hash_inv hash_u32 (by_qp table_world)" using table_world_facts(1) by (simp add: ids_ok_def)
  have "uth.keys_distinct (by_qp table_world)"
    "uth.as_map (by_qp table_world) 17 = Some (heap_next queue_world, 7)"
    by (simp_all add: uth.keys_distinct_def uth.as_map_def table_world_facts(3))
  from hash_delete_then_find [OF inv this] show ?thesis by blast
qed

section \<open>Connections in the tables\<close>

text \<open>C30: after \<open>setup_connection\<close> the completions of its queue pair find the connection. Where the set-up
  returns, both tables are consistent and hold the same records, the new one last; if the new queue
  pair's number was not in use, \<open>find_connection_by_wc\<close> returns the connection for it, and for every
  number known before what it returned before.\<close>

theorem setup_makes_completions_find:
  assumes "ids_ok w" and "uth.keys_distinct (by_qp w)" and "hash_room (by_qp w)" and "hash_room (by_addr w)"
    and "setup_connection E p ps w = Inr w'"
  shows "\<exists>q. qp_of p w' = Inr q \<and> ids_ok w' \<and>
    records (by_qp w') = records (by_qp w) @ [(heap_next w, p)] \<and>
    (uth.as_map (by_qp w) (qp_num q) = None \<longrightarrow>
      (\<forall>wc. wc_qp_num wc = qp_num q \<longrightarrow> find_connection_by_wc wc w' = Inr p) \<and>
      (\<forall>wc e' p'. wc_qp_num wc \<noteq> qp_num q \<longrightarrow> uth.as_map (by_qp w) (wc_qp_num wc) = Some (e', p') \<longrightarrow>
        find_connection_by_wc wc w' = Inr p'))"
proof -
  obtain a q where a: "ids_ok w'" "s_ctx w' \<noteq> None" "qp_of p w' = Inr q"
    "entries (by_qp w') = entries (by_qp w) @ [(heap_next w, qp_num q, p)]"
    "entries (by_addr w') = entries (by_addr w) @ [(heap_next w, a, p)]"
    by (rule setup_connection_ids [OF assms(1,5,3,4)])
  then have rec: "records (by_qp w') = records (by_qp w) @ [(heap_next w, p)]" by (simp add: records_def)
  note found = found_after_entry [OF a(1,2) assms(2) a(4)]
  show ?thesis
    by (intro exI conjI impI allI)
      (rule a(3) a(1) rec found(1) found(2) | assumption)+
qed

theorem setup_makes_completions_find_witness:
  "find_connection_by_wc \<lparr>wc_wr_id = 0, wc_success = True, wc_recv = False, wc_qp_num = 17, wc_imm_data = 0\<rparr>
     setup_world = Inr 7"
proof -
  have none: "by_qp open_world = None" "by_addr open_world = None"
    using open_world_cm_ids(2) by (simp_all add: by_qp_def by_addr_def id_tables_def)
  have ok: "ids_ok open_world" "uth.keys_distinct (by_qp open_world)" "hash_room (by_qp open_world)"
    "hash_room (by_addr open_world)" "uth.as_map (by_qp open_world) n = None" for n
    by (simp_all add: ids_ok_def none hash_inv_def records_def entries_def uth.keys_distinct_def hash_room_def
        uth.as_map_def)
  show ?thesis
    using setup_makes_completions_find [OF ok(1-4) setup_world_run(1)] setup_world_run(2) ok(5)
    by (auto simp: sample_qp_def)
qed

text \<open>C31: \<open>rc_disconnect\<close> takes a connection out of both tables and empties its own. On consistent
  tables that hold the connection it succeeds; its record is gone from both tables and all others
  stay; the connection is terminated, with its polling switched off and its pending requests and
  buffer bindings freed; and a late completion of its queue pair is answered by the library's
  \<open>hash lookup failed\<close> exit instead of a stale connection.\<close>

theorem disconnect_removes_connection:
  assumes "ids_ok w" and "s_ctx w \<noteq> None" and "ctx_of p w = Inr c" and "qp_of p w = Inr q"
    and "(e, qp_num q, p) \<in> set (entries (by_qp w))" and "uth.keys_distinct (by_qp w)"
    and "hash_inv hash_u32 (pendings c)" and "hash_inv hash_u32 (buffer_bindings c)"
  shows "\<exists>w' c'. rc_disconnect p w = Inr w' \<and> ids_ok w' \<and>
    entries (by_qp w') = filter (\<lambda>x. fst x \<noteq> e) (entries (by_qp w)) \<and>
    entries (by_addr w') = filter (\<lambda>x. fst x \<noteq> e) (entries (by_addr w)) \<and>
    ctx_of p w' = Inr c' \<and> state c' = RC_CONNECTION_TERMINATED \<and> pendings c' = None \<and>
    buffer_bindings c' = None \<and> (state c = RC_CONNECTION_TERMINATED \<or> poll_enable c' = 0) \<and>
    (\<forall>wc. wc_qp_num wc = qp_num q \<longrightarrow>
      find_connection_by_wc wc w' = Inl (Die ''hash lookup failed; id doesn't exist''))"
proof -
  let ?c = "(entered RC_CONNECTION_TERMINATED c)\<lparr>pendings := None, buffer_bindings := None\<rparr>"
  obtain w' where w': "rc_disconnect p w = Inr w'" "ids_ok w'" "s_ctx w' \<noteq> None"
    "entries (by_qp w') = filter (\<lambda>x. fst x \<noteq> e) (entries (by_qp w))"
    "entries (by_addr w') = filter (\<lambda>x. fst x \<noteq> e) (entries (by_addr w))" "ctx_of p w' = Inr ?c"
    using rc_disconnect_ok [OF assms] by blast
  have "hash_inv hash_u32 (by_qp w)" using assms(1) by (simp add: ids_ok_def)
  then have "\<forall>wc. wc_qp_num wc = qp_num q \<longrightarrow>
      find_connection_by_wc wc w' = Inl (Die ''hash lookup failed; id doesn't exist'')"
    using gone_after_removal [OF w'(2,3) assms(6,5) _ w'(4)] by blast
  moreover have "state ?c = RC_CONNECTION_TERMINATED" "pendings ?c = None" "buffer_bindings ?c = None"
    "state c = RC_CONNECTION_TERMINATED \<or> poll_enable ?c = 0"
    by (simp_all add: entered_def)
  ultimately show ?thesis using w' by blast
qed

theorem disconnect_removes_connection_witness:
  "\<exists>w'. rc_disconnect 7 table_world = Inr w' \<and> entries (by_qp w') = []"
proof -
  have "(heap_next queue_world, qp_num sample_qp, 7) \<in> set (entries (by_qp table_world))"
    "uth.keys_distinct (by_qp table_world)"
    by (simp_all add: table_world_facts(3) sample_qp_def uth.keys_distinct_def)
  moreover have "hash_inv hash_u32 (pendings queue_ctx)" "hash_inv hash_u32 (buffer_bindings queue_ctx)"
    by (simp_all add: queue_ctx_def sample_ctx_def new_context_def zero_context_def hash_inv_def)
  ultimately show ?thesis
    using disconnect_removes_connection [OF table_world_facts(1,2,5,6)] by (fastforce simp: table_world_facts(3))
qed

section \<open>States of a connection\<close>

text \<open>\<open>rc_set_state\<close> enters any state once: entering the present state changes nothing; entering
  another sets it, switches the polling thread off when the connection ends, or when it becomes ready
  and polling was only wanted for the bootstrap, and cancels the thread when the connection ends.\<close>

theorem set_state_effect:
  assumes "ctx_of p w = Inr c"
  shows "\<exists>w' c'. rc_set_state p s w = Inr w' \<and> ctx_of p w' = Inr c' \<and> state c' = s \<and>
    (state c = s \<longrightarrow> w' = w) \<and>
    (state c \<noteq> s \<longrightarrow> poll_enable c' =
      (if s = RC_CONNECTION_TERMINATED \<or> s = RC_CONNECTION_READY \<and> poll_always c = 0 then 0
       else poll_enable c)) \<and>
    trace w' = trace w @ (if s = RC_CONNECTION_TERMINATED \<and> state c \<noteq> s then [PthreadCancel p] else [])"
  using rc_set_state_entered [OF assms, of s] set_ctx_self [OF assms] assms
  by (auto simp: Let_def entered_def emit_def)

theorem set_state_effect_witness:
  "\<exists>w' c'. rc_set_state 7 RC_CONNECTION_TERMINATED open_world = Inr w' \<and> ctx_of 7 w' = Inr c' \<and>
    poll_enable c' = 0"
proof -
  have "state sample_ctx \<noteq> RC_CONNECTION_TERMINATED"
    by (simp add: sample_ctx_def new_context_def zero_context_def)
  then show ?thesis using set_state_effect [OF open_world_facts(4), of RC_CONNECTION_TERMINATED] by auto
qed

end
