(* ===== verification/Mr_Props.thy ===== *)
theory Mr_Props
  imports Samples Conn_Spec
begin

text \<open>
  What \<open>src/rdma/mr.c\<close> and the handshake of \<open>connection.c\<close> guarantee of the memory regions: their
  registration, their announcement to the peer, the accessors that wait for them, and the limits the
  code does not check.
\<close>

section \<open>The handshake\<close>

text \<open>C4: what one side announces is what the other side learns. The connection parameters that
  \<open>build_rc_params\<close> makes of \<open>n\<close> registered regions (\<open>n\<close> at most 2) fit the 56 bytes of private data;
  the peer that runs \<open>mr_remote_update\<close> on the data it received has its first \<open>n\<close> remote regions
  ready, each with the address, the length and the key of the region registered here, and the
  readiness of its other regions unchanged.\<close>

theorem handshake_transfers_regions:
  assumes "ctx_of p w = Inr c" and "num_mrs w = int n" and "n \<le> 2"
    and "\<And>i. i < n \<Longrightarrow> local_region (int i) c = Inr (r i)" and "region_arrays d"
  shows "\<exists>ps m d'. build_rc_params p w = Inr ps \<and> private_data_len (param_data ps) = 56 \<and>
    peer_meta (Some (param_data ps)) = Inr (Some m) \<and>
    mr_remote_update (meta_addr m) (meta_length m) (meta_rkey m) (meta_mr_count m) d = Inr d' \<and>
    (\<forall>i < n. mr_remote_ready d' (int i) = Inr 1 \<and>
       remote_region (int i) d' = Inr \<lparr>mr_type = int i, mr_addr = reg_addr (r i),
         mr_length = reg_length (r i), mr_lkey = 0, mr_rkey = reg_rkey (r i), mr_physical = 0\<rparr>) \<and>
    (\<forall>i. n \<le> i \<and> i < 2 \<longrightarrow> mr_remote_ready d' (int i) = mr_remote_ready d (int i))"
proof -
  obtain m0 where ps: "build_rc_params p w = Inr \<lparr>initiator_depth = 1, responder_resources = 1,
      rnr_retry_count = 7, param_data = \<lparr>private_data = Some m0, private_data_len = 56\<rparr>\<rparr>"
    by (rule build_rc_params_ok [OF assms(1-4)])
  obtain m :: rc_metadata and d' :: conn_context
    where "peer_meta (Some \<lparr>private_data = Some m0, private_data_len = 56\<rparr>) = Inr (Some m)"
    "mr_remote_update (meta_addr m) (meta_length m) (meta_rkey m) (meta_mr_count m) d = Inr d'"
    "\<And>i. i < n \<Longrightarrow> mr_remote_ready d' (int i) = Inr 1 \<and>
       remote_region (int i) d' = Inr \<lparr>mr_type = int i, mr_addr = reg_addr (r i),
         mr_length = reg_length (r i), mr_lkey = 0, mr_rkey = reg_rkey (r i), mr_physical = 0\<rparr>"
    "\<And>i. n \<le> i \<Longrightarrow> i < 2 \<Longrightarrow> mr_remote_ready d' (int i) = mr_remote_ready d (int i)"
    by (rule announce_update [OF assms(1-4) ps assms(5), simplified]) (rule that; assumption)
  then show ?thesis using ps by (intro exI conjI) (assumption | simp)+
qed

theorem handshake_transfers_regions_witness:
  "\<exists>ps. build_rc_params 7 (queue_world\<lparr>num_mrs := 1\<rparr>) = Inr ps \<and> private_data_len (param_data ps) = 56"
proof -
  have 1: "ctx_of 7 (queue_world\<lparr>num_mrs := 1\<rparr>) = Inr queue_ctx"
    using queue_world_facts(3) by (simp add: ctx_of_def cm_id_at_def)
  have 2: "num_mrs (queue_world\<lparr>num_mrs := 1\<rparr>) = int 1" "(1 :: nat) \<le> 2" by simp_all
  have 3: "local_region (int i) queue_ctx = Inr sample_mr" if "i < 1" for i
    using that by (simp add: local_region_def queue_ctx_def)
  have 4: "region_arrays sample_ctx" by (simp add: sample_ctx_def)
  show ?thesis using handshake_transfers_regions [OF 1 2 3 4] by blast
qed

text \<open>The number of regions in a peer's message is not checked. \<open>mr_remote_update\<close> with a count above
  the two slots a connection has writes past its arrays, whatever the rest of the message says; the
  count arrives over the network in the private data of the connection request.\<close>

theorem remote_count_overruns:
  assumes "region_arrays c" and "length addrs = 2" "length lens = 2" "length rkeys = 2" and "n > 2"
  shows "mr_remote_update addrs lens rkeys n c = Inl (Fault OutOfBounds)"
  by (rule mr_remote_update_overrun [OF assms])

theorem remote_count_overruns_witness:
  "mr_remote_update [0, 0] [0, 0] [0, 0] 3 sample_ctx = Inl (Fault OutOfBounds)"
  by (rule remote_count_overruns) (simp_all add: sample_ctx_def)

section \<open>Registration\<close>

text \<open>A region is registered once and shared. Registering region \<open>i\<close> on a connection asks the adapter
  only when no connection registered it before (with write, read and atomic access, in the protection
  domain of the connection's device); either way the connection ends with the shared registration in
  its slot, marked ready, and nothing else of it changed.\<close>

theorem region_registered_once:
  assumes "ctx_of p w = Inr c" and "region_arrays c" and "length (mr_regions w) = 2" and "i < 2"
  shows "(\<forall>r. mr_regions w ! i = Some r \<longrightarrow> mr_register_one E p ms (int i) w =
      Inr (set_ctx p (c\<lparr>local_mr := (local_mr c)[i := Some r],
        local_mr_ready := (local_mr_ready c)[i := 1]\<rparr>) w)) \<and>
    (\<forall>pd r. mr_regions w ! i = None \<and> i < length ms \<and> mr_physical (ms ! i) = 0 \<and>
      rc_get_pd (ctx_id c) w = Inr pd \<and> ans_reg_mr E (length (trace w)) = Some r \<longrightarrow>
      mr_register_one E p ms (int i) w = Inr (set_ctx p (c\<lparr>local_mr := (local_mr c)[i := Some r],
          local_mr_ready := (local_mr_ready c)[i := 1]\<rparr>)
        ((emit (IbvRegMr pd (mr_addr (ms ! i)) (mr_length (ms ! i)) ALL_ACCESS) w)
          \<lparr>mr_regions := (mr_regions w)[i := Some r]\<rparr>)))"
  using mr_register_one_shared [OF assms(1-4)] mr_register_one_new [OF assms(1-4)] by blast

theorem region_registered_once_witness:
  "mr_register_one sample_env 7 [] (int 0) (open_world\<lparr>mr_regions := [Some sample_mr, None]\<rparr>) =
    Inr (set_ctx 7 (sample_ctx\<lparr>local_mr := (local_mr sample_ctx)[0 := Some sample_mr],
      local_mr_ready := (local_mr_ready sample_ctx)[0 := 1]\<rparr>)
      (open_world\<lparr>mr_regions := [Some sample_mr, None]\<rparr>))"
proof -
  have 1: "ctx_of 7 (open_world\<lparr>mr_regions := [Some sample_mr, None]\<rparr>) = Inr sample_ctx"
    using open_world_facts(4) by (simp add: ctx_of_def cm_id_at_def)
  have 2: "region_arrays sample_ctx" "length (mr_regions (open_world\<lparr>mr_regions := [Some sample_mr, None]\<rparr>)) = 2"
    "(0 :: nat) < 2" by (simp_all add: sample_ctx_def)
  show ?thesis using region_registered_once [OF 1 2] by simp
qed

text \<open>Regions are announced in order and each once: \<open>mr_next_to_sync\<close> hands out the region to be
  synchronised next and moves to the following ready one; after the last region the index is -1, and
  asking again reads in front of the array.\<close>

theorem sync_order:
  assumes "region_arrays c" and "local_mr_to_sync c = - 1 \<or>
      0 \<le> local_mr_to_sync c \<and> local_mr_to_sync c < 2 \<and> local_mr_ready c ! nat (local_mr_to_sync c) \<noteq> 0"
  shows "mr_next_to_sync c =
    (if local_mr_to_sync c = - 1 then Inl (Fault OutOfBounds)
     else Inr (local_mr_to_sync c, c\<lparr>local_mr_to_sync :=
       (if local_mr_to_sync c = 0 \<and> local_mr_ready c ! 1 \<noteq> 0 then 1 else - 1)\<rparr>))"
  using mr_next_to_sync_ok [OF assms(1)] mr_next_to_sync_done [of c] assms(2) by auto

theorem sync_order_witness:
  "mr_next_to_sync queue_ctx = Inr (0, queue_ctx\<lparr>local_mr_to_sync := - 1\<rparr>)"
proof -
  have "region_arrays queue_ctx" by (simp add: queue_ctx_def sample_ctx_def region_arrays_def new_context_def MAX_MR_def)
  moreover have "local_mr_to_sync queue_ctx = 0" "local_mr_ready queue_ctx = [1, 0]"
    by (simp_all add: queue_ctx_def sample_ctx_def new_context_def zero_context_def)
  ultimately show ?thesis using sync_order [of queue_ctx] by simp
qed

section \<open>Accessors\<close>

text \<open>An accessor such as \<open>mr_local_key\<close> waits for its data, ten sleeps at most. If the connection
  becomes active after \<open>j\<close> sleeps and its region is known \<open>k\<close> sleeps later, with \<open>j + k\<close> at most 10, it
  returns the registration's key, in the state after \<open>j + k\<close> sleeps. What the other threads do during a
  sleep is \<open>tick\<close>.\<close>

theorem accessor_waits:
  assumes "\<And>i. i < j \<Longrightarrow> rc_active sock ((pause tick ^^ i) w) = Inr 0"
    and "rc_active sock ((pause tick ^^ j) w) = Inr a" and "a \<noteq> 0"
    and "get_connection sock ((pause tick ^^ j) w) = Inr p"
    and "\<And>i. i \<le> k \<Longrightarrow> ctx_of p ((pause tick ^^ (j + i)) w) = Inr (c i)"
    and "\<And>i. i < k \<Longrightarrow> mr_local_ready (c i) m = Inr 0"
    and "mr_local_ready (c k) m = Inr r" and "r \<noteq> 0"
    and "local_region m (c k) = Inr x" and "j + k \<le> 10"
  shows "mr_local_key tick sock m w = Inr (ucast (reg_lkey x), (pause tick ^^ (j + k)) w)"
proof -
  have x: "bindR (local_region m (c k)) (\<lambda>r. Inr (ucast (reg_lkey r))) = Inr (ucast (reg_lkey x))"
    using assms(9) by simp
  show ?thesis
    unfolding mr_local_key_def
    by (rule mr_get_returns [where ready = "\<lambda>c. mr_local_ready c m" and c = c and j = j and k = k])
      (fact assms x)+
qed

theorem accessor_waits_witness:
  "mr_local_key id 0 0 queue_world = Inr (3, queue_world)"
proof -
  have ready: "rc_active 0 queue_world = Inr 1"
    using rc_active_slots [OF queue_world_facts(1), of 0 7] queue_world_facts(2,3)
    by (simp add: queue_ctx_def less_eq_rc_connection_state_def)
  have reg: "mr_local_ready queue_ctx 0 = Inr 1" "local_region 0 queue_ctx = Inr sample_mr"
    by (simp_all add: mr_local_ready_def local_region_def queue_ctx_def MAX_MR_def)
  show ?thesis
    using accessor_waits [of 0 0 id queue_world 1 7 0 "\<lambda>_. queue_ctx" 0 1 sample_mr] ready reg
      queue_world_facts(3,5) by (simp add: sample_mr_def)
qed

text \<open>An accessor gives up. If the connection is still inactive after ten sleeps of a second, it exits
  with its message, having slept exactly ten times.\<close>

theorem accessor_gives_up:
  assumes "\<And>i. i \<le> 10 \<Longrightarrow> rc_active sock ((pause tick ^^ i) w) = Inr 0"
  shows "mr_local_key tick sock m w = Inl (Die LOCAL_INACTIVE)"
  unfolding mr_local_key_def by (rule mr_get_inactive [OF assms])

lemma sleeping_slots: "get_connection sock ((pause id ^^ i) w) = get_connection sock w"
proof -
  have "s_conn_bitmap ((pause id ^^ i) w) = s_conn_bitmap w \<and> s_conn_ids ((pause id ^^ i) w) = s_conn_ids w"
    by (induction i) (simp_all add: pause_def emit_def)
  then have e: "s_conn_bitmap ((pause id ^^ i) w) = s_conn_bitmap w" "s_conn_ids ((pause id ^^ i) w) = s_conn_ids w"
    by simp_all
  show ?thesis unfolding get_connection_def e ..
qed

theorem accessor_gives_up_witness: "mr_local_key id 5 0 open_world = Inl (Die LOCAL_INACTIVE)"
proof -
  have "get_connection 5 open_world = Inr 0"
    using get_connection_slots [OF open_world_facts(2), of 5] open_world_facts(3) by simp
  then have "rc_active 5 ((pause id ^^ i) open_world) = Inr 0" for i
    by (simp add: rc_active_def state_query_def sleeping_slots)
  then show ?thesis by (rule accessor_gives_up)
qed

section \<open>The limit of the region identifiers\<close>

text \<open>The bound on region identifiers is off by one. Identifiers 0 and 1 are the valid ones and are
  answered; the identifier \<open>MAX_MR\<close> passes the check \<open>mr_id > MAX_MR\<close> in both readiness queries, which
  then read past their arrays; larger ones are refused with a message.\<close>

theorem region_limit_off_by_one:
  assumes "region_arrays c"
  shows "mr_local_ready c MAX_MR = Inl (Fault OutOfBounds) \<and> mr_remote_ready c MAX_MR = Inl (Fault OutOfBounds) \<and>
    (\<forall>i. 0 \<le> i \<and> i < MAX_MR \<longrightarrow> mr_local_ready c i = Inr (if local_mr_ready c ! nat i \<noteq> 0 then 1 else 0)) \<and>
    (\<forall>i. MAX_MR < i \<longrightarrow> (\<exists>msg. mr_local_ready c i = Inl (Die msg)))"
proof (intro conjI allI impI)
  show "\<exists>msg. mr_local_ready c i = Inl (Die msg)" if "MAX_MR < i" for i
    using that by (simp add: mr_local_ready_def)
qed (use mr_ready_MAX_MR [OF assms] mr_local_ready_in [OF assms] in \<open>simp_all add: MAX_MR_def\<close>)

theorem region_limit_off_by_one_witness: "mr_local_ready sample_ctx 2 = Inl (Fault OutOfBounds)"
proof -
  have "region_arrays sample_ctx" by (simp add: sample_ctx_def)
  then show ?thesis using region_limit_off_by_one by (simp add: MAX_MR_def)
qed

end
