(* ===== verification/Completion_Props.thy ===== *)
theory Completion_Props
  imports Samples Conn_Spec
begin

text \<open>
  What the completion half of \<open>src/rdma/connection.c\<close> guarantees: what polling does to the counters,
  what a received message reaches the application with, when the waits return, what is true when
  they have, and when they never do.
\<close>

section \<open>Polling\<close>

definition sample_wc :: ibv_wc where
  "sample_wc = \<lparr>wc_wr_id = 5, wc_success = True, wc_recv = False, wc_qp_num = 17, wc_imm_data = 0\<rparr>"

definition one_completion :: env where
  "one_completion = sample_env\<lparr>ans_poll_cq :=
     (\<lambda>n. if n = length (trace table_world) then Some sample_wc else None)\<rparr>"

lemma table_world_find: "wc_qp_num wc = 17 \<Longrightarrow> find_connection_by_wc wc table_world = Inr 7"
proof -
  assume wc: "wc_qp_num wc = 17"
  have inv: "hash_inv hash_u32 (by_qp table_world)" using table_world_facts(1) by (simp add: ids_ok_def)
  have "uth.keys_distinct (by_qp table_world)"
    "uth.as_map (by_qp table_world) 17 = Some (heap_next queue_world, 7)"
    by (simp_all add: uth.keys_distinct_def uth.as_map_def table_world_facts(3))
  then show ?thesis
    using uth.search_as_map [OF inv] wc table_world_facts(2) by (simp add: find_connection_by_wc_search)
qed

lemma table_world_callback: "s_on_completion_cb table_world \<noteq> None" "app_callbacks table_world"
proof -
  have "keeps open_world table_world"
    using queue_world_keeps table_world_facts(7) by (rule keeps_trans)
  then show "s_on_completion_cb table_world \<noteq> None" "app_callbacks table_world"
    using open_world_cm_ids(3,4) by (simp_all add: keeps_def)
qed

lemma one_completion_drains:
  "\<exists>w'. drains one_completion 3 [sample_wc] table_world w'"
proof -
  have "handle_wc sample_wc (emit (IbvPollCq 3) table_world) =
    Inr (set_ctx 7 (queue_ctx\<lparr>last_send_compl := 5\<rparr>) (emit (IbvPollCq 3) table_world))"
    using handle_wc_send [of sample_wc "emit (IbvPollCq 3) table_world" 7 queue_ctx sample_qp] table_world_find [of sample_wc]
      table_world_facts(5,6) table_world_callback
    by (simp add: sample_wc_def)
  then show ?thesis by (simp add: one_completion_def)
qed

text \<open>C3: \<open>poll_cq\<close> returns once the completion queue is empty, and has counted every completion. If the
  adapter's queue holds the completions \<open>wcs\<close>, each handled without a fault, then with fuel above their
  number the loop ends, in the state after the last; and the counter of completed sends of every
  connection is then the identifier of its last successful send completion among them (what it was,
  if there is none): receives, failures and other connections' completions leave it alone.\<close>

theorem poll_cq_counts_completions:
  assumes "drains E q wcs w w'" and "length wcs < n" and "ctx_of p w = Inr c"
  shows "poll_cq n E q w = Some (Inr w') \<and>
    (\<exists>c'. ctx_of p w' = Inr c' \<and> last_send_compl c' =
      fold (\<lambda>wc k. if wc_success wc \<and> \<not> wc_recv wc \<and> find_connection_by_wc wc w = Inr p
                    then ucast (wc_wr_id wc) else k) wcs (last_send_compl c))"
proof -
  have "last_counted w p wcs k = fold (\<lambda>wc k. if wc_success wc \<and> \<not> wc_recv wc \<and>
      find_connection_by_wc wc w = Inr p then ucast (wc_wr_id wc) else k) wcs k" for k
    by (induction wcs arbitrary: k) (simp_all add: counted_def)
  then show ?thesis using poll_cq_drains [OF assms(1,2)] drains_counter [OF assms(1,3)] by simp
qed

theorem poll_cq_counts_completions_witness:
  "\<exists>w' c'. poll_cq 2 one_completion 3 table_world = Some (Inr w') \<and> ctx_of 7 w' = Inr c' \<and> last_send_compl c' = 5"
proof -
  obtain w' where w': "drains one_completion 3 [sample_wc] table_world w'" using one_completion_drains by blast
  have "length [sample_wc] < 2" by simp
  from poll_cq_counts_completions [OF w' this table_world_facts(5)] show ?thesis
    using table_world_find [of sample_wc] by (auto simp: sample_wc_def)
qed

text \<open>A received message reaches the application in host byte order. A successful receive completion
  of a ready connection sets the connection's received counter to the immediate value converted from
  the network order, and hands the application the connection's socket and the same value: what the
  sender's verb put in with \<open>htonl\<close> comes out.\<close>

theorem receive_delivers_immediate:
  assumes "wc_success wc" and "wc_recv wc" and "find_connection_by_wc wc w = Inr p"
    and "ctx_of p w = Inr c" and "qp_of p w = Inr q" and "s_on_completion_cb w \<noteq> None"
    and "app_callbacks w" and "rc_ready (sockfd c) w = Inr 1" and "wc_imm_data wc = htonl imm"
  shows "\<exists>w'. handle_wc wc w = Inr w' \<and>
    trace w' = trace w @ [AppReceive \<lparr>app_sockfd = sockfd c, app_id = imm, app_data = 0\<rparr>] \<and>
    ctx_of p w' = Inr (c\<lparr>last_rcv_compl := imm\<rparr>)"
  using handle_wc_recv [OF assms(1-8)] assms(4,9) by simp

theorem receive_delivers_immediate_witness:
  "\<exists>w'. handle_wc (sample_wc\<lparr>wc_recv := True, wc_imm_data := htonl 99\<rparr>) table_world = Inr w' \<and>
    trace w' = trace table_world @ [AppReceive \<lparr>app_sockfd = 0, app_id = 99, app_data = 0\<rparr>]"
proof -
  let ?wc = "sample_wc\<lparr>wc_recv := True, wc_imm_data := htonl 99\<rparr>"
  have wc: "wc_success ?wc" "wc_recv ?wc" "wc_imm_data ?wc = htonl 99" "find_connection_by_wc ?wc table_world = Inr 7"
    using table_world_find [of ?wc] by (simp_all add: sample_wc_def)
  have inv: "conn_inv table_world" by (rule conn_inv_keeps [OF table_world_facts(7) queue_world_facts(1)])
  have "rc_ready (sockfd queue_ctx) table_world = Inr 1"
    using state_query_slots [OF inv table_world_facts(5)] by (simp add: rc_ready_def queue_ctx_def)
  moreover have "sockfd queue_ctx = 0" by (simp add: queue_ctx_def sample_ctx_def)
  ultimately show ?thesis
    using receive_delivers_immediate [OF wc(1,2,4) table_world_facts(5,6) table_world_callback _ wc(3)] by auto
qed

section \<open>Waiting for a send\<close>

text \<open>C33: \<open>spin_till_completion\<close> returns exactly when the completion has arrived. A request is pending
  while its identifier is ahead of the last completed one, by less than half the range of the
  counter. The wait returns, with fuel \<open>n\<close>, if and only if there is a number \<open>k\<close> of rounds of the other
  threads, below the fuel, such that the connection is there and the request pending before each of
  the first \<open>k\<close> rounds and no longer pending after the last; the state returned is then the one after
  exactly these rounds, in which the request is not pending.\<close>

theorem spin_returns_on_completion:
  "spin_till_completion n tick p wr w = Some (Inr w') \<longleftrightarrow>
   (\<exists>k < n. w' = (tick ^^ k) w \<and>
     (\<forall>i \<le> k. \<exists>c. ctx_of p ((tick ^^ i) w) = Inr c \<and>
        ((wr \<noteq> last_send_compl c \<and> wr - last_send_compl c < 0x7FFFFFFF) \<longleftrightarrow> i < k)))"
  by (simp add: spin_till_completion_iff send_pending_iff)

definition completes :: "world \<Rightarrow> world" where
  "completes w = set_ctx 7 (queue_ctx\<lparr>last_send_compl := 1\<rparr>) w"

theorem spin_returns_on_completion_witness:
  "spin_till_completion 5 completes 7 1 queue_world = Some (Inr (completes queue_world))"
proof -
  let ?c = "\<lambda>i. if i = 0 then queue_ctx else queue_ctx\<lparr>last_send_compl := 1\<rparr>"
  have c: "ctx_of 7 ((completes ^^ i) queue_world) = Inr (?c i)" if "i \<le> 1" for i
    using that queue_world_facts(3) by (cases i) (auto simp: completes_def)
  have start: "last_send_compl queue_ctx = 0"
    by (simp add: queue_ctx_def sample_ctx_def new_context_def zero_context_def)
  show ?thesis
    unfolding spin_returns_on_completion by (rule exI [of _ 1]) (use c start in auto)
qed

text \<open>C34: when a blocking wait returns, and how. \<open>block_till_completion\<close> first takes the permission to poll,
  then waits for events of the completion channel and polls until the request is not pending, and
  gives the permission back. It returns, with fuel \<open>n\<close>, if and only if the permission is zero for \<open>j\<close>
  rounds of the other threads and then not, a run of rounds of the waiting loop leads from there to
  \<open>w2\<close> (in each round the request is pending, an event is taken, the adapter's queue is emptied and
  the other threads run; in \<open>w2\<close> the request is no longer pending), \<open>j\<close> and the fuel of the rounds are
  below \<open>n\<close>, and nobody has touched the permission in between. The state returned is \<open>w2\<close> with the
  permission set: whoever waits next can poll, and the request is no longer pending.\<close>

theorem block_returns_with_permission:
  "block_till_completion n tick E p wr w = Some (Inr w') \<longleftrightarrow>
   (\<exists>j < n. \<exists>f < n. \<exists>c1 w2 c2.
      (\<forall>i < j. \<exists>c. ctx_of p ((tick ^^ i) w) = Inr c \<and> poll_permission c = 0) \<and>
      ctx_of p ((tick ^^ j) w) = Inr c1 \<and> poll_permission c1 \<noteq> 0 \<and>
      block_rounds E tick p wr
        (if poll_permission c1 = 1 then set_ctx p (c1\<lparr>poll_permission := 0\<rparr>) ((tick ^^ j) w) else (tick ^^ j) w) f w2 \<and>
      ctx_of p w2 = Inr c2 \<and> poll_permission c2 = 0 \<and>
      (wr = last_send_compl c2 \<or> 0x7FFFFFFF \<le> wr - last_send_compl c2) \<and>
      w' = set_ctx p (c2\<lparr>poll_permission := 1\<rparr>) w2)"
proof -
  have "wr = last_send_compl c \<or> 0x7FFFFFFF \<le> wr - last_send_compl c"
    if "block_rounds E tick p wr w1 f w2" "ctx_of p w2 = Inr c" for w1 f w2 c
    using block_rounds_arrived [OF that(1)] that(2) by (auto simp: send_pending_iff not_less)
  then show ?thesis unfolding block_till_completion_iff take_permission_iff by blast
qed

definition late_completion :: env where
  "late_completion = sample_env\<lparr>ans_poll_cq :=
     (\<lambda>n. if n = length (trace table_world) + 3 then Some sample_wc else None)\<rparr>"

text \<open>Another thread holds the permission, and gives it back in its first round.\<close>

definition held_world :: world where
  "held_world = set_ctx 7 (queue_ctx\<lparr>poll_permission := 0\<rparr>) table_world"

definition gives_back :: "world \<Rightarrow> world" where
  "gives_back w = (if length (trace w) = length (trace table_world) then set_ctx 7 queue_ctx w else w)"

lemma late_completion_drains:
  "\<exists>v. drains late_completion q [sample_wc] (await_cq_event late_completion ch held_world) v \<and>
    ctx_of 7 v = Inr (queue_ctx\<lparr>poll_permission := 0, last_send_compl := 5\<rparr>) \<and>
    length (trace v) = length (trace table_world) + 5"
proof -
  let ?w = "emit (IbvPollCq q) (await_cq_event late_completion ch held_world)"
  let ?v = "set_ctx 7 (queue_ctx\<lparr>poll_permission := 0, last_send_compl := 5\<rparr>) ?w"
  have len: "length (trace (await_cq_event late_completion ch held_world)) = length (trace table_world) + 3"
    by (simp add: await_cq_event_def call_def emit_def held_world_def)
  have w: "ctx_of 7 ?w = Inr (queue_ctx\<lparr>poll_permission := 0\<rparr>)"
    using table_world_facts(5) by (simp add: held_world_def await_cq_event_def call_def)
  have step: "handle_wc sample_wc ?w = Inr ?v"
    using handle_wc_send [of sample_wc ?w 7 "queue_ctx\<lparr>poll_permission := 0\<rparr>" sample_qp]
      table_world_find [of sample_wc] table_world_facts(5,6) table_world_callback
    by (simp add: sample_wc_def held_world_def await_cq_event_def call_def)
  have ans: "ans_poll_cq late_completion i = (if i = length (trace table_world) + 3 then Some sample_wc else None)" for i
    by (simp add: late_completion_def)
  have "drains late_completion q [sample_wc] (await_cq_event late_completion ch held_world) (emit (IbvPollCq q) ?v)"
    using step by (simp add: ans len emit_def)
  moreover have "ctx_of 7 ?v = Inr (queue_ctx\<lparr>poll_permission := 0, last_send_compl := 5\<rparr>)"
    using w by simp
  ultimately show ?thesis using len by (intro exI [of _ "emit (IbvPollCq q) ?v"]) (simp add: emit_def)
qed

theorem block_returns_with_permission_witness:
  "\<exists>w'. block_till_completion 3 gives_back late_completion 7 5 held_world = Some (Inr w') \<and>
    ctx_of 7 w' = Inr (queue_ctx\<lparr>last_send_compl := 5\<rparr>)"
proof -
  let ?d = "queue_ctx\<lparr>poll_permission := 0, last_send_compl := 5\<rparr>"
  let ?w = "set_ctx 7 (queue_ctx\<lparr>poll_permission := 0\<rparr>) (gives_back held_world)"
  have q: "poll_permission queue_ctx = 1" "last_send_compl queue_ctx = 0"
    by (simp_all add: queue_ctx_def sample_ctx_def new_context_def zero_context_def)
  have c: "ctx_of 7 held_world = Inr (queue_ctx\<lparr>poll_permission := 0\<rparr>)"
    "ctx_of 7 (gives_back held_world) = Inr queue_ctx"
    using table_world_facts(5) by (simp_all add: held_world_def gives_back_def)
  have eq: "?w = held_world"
    using table_world_facts(5) by (simp add: held_world_def gives_back_def)
  obtain v where v: "drains late_completion (cq queue_ctx) [sample_wc] (await_cq_event late_completion (comp_channel queue_ctx) ?w) v"
    "ctx_of 7 v = Inr ?d" "gives_back v = v"
    using late_completion_drains [of "cq queue_ctx" "comp_channel queue_ctx"] unfolding eq
    by (auto simp: gives_back_def simp del: drains.simps)
  have "block_rounds late_completion gives_back 7 5 (gives_back v) 0 v"
    using v(2,3) by (simp add: block_rounds.arrived send_pending_iff)
  then have r: "block_rounds late_completion gives_back 7 5 ?w (Suc (max (length [sample_wc]) 0)) v"
    using v(1) q c(1) unfolding eq
    by (intro block_rounds.waiting [where c = "queue_ctx\<lparr>poll_permission := 0\<rparr>"]) (simp_all add: send_pending_iff)
  have "block_till_completion 3 gives_back late_completion 7 5 held_world =
      Some (Inr (set_ctx 7 (?d\<lparr>poll_permission := 1\<rparr>) v))"
    unfolding block_returns_with_permission
    by (rule exI [of _ 1], rule conjI, simp, rule exI [of _ 2], rule conjI, simp,
        rule exI [of _ queue_ctx], rule exI [of _ v], rule exI [of _ ?d]) (use r q c v(2) in \<open>simp add: numeral_2_eq_2\<close>)
  then show ?thesis using v(2) q(1) by simp
qed

section \<open>Failures\<close>

text \<open>A failed completion is lost. \<open>poll_cq\<close> leaves the state as it is when a work completion carries an
  error status, so a thread that spins for a request the adapter has failed never returns: if every
  completion the adapter delivers is a failure, then for no amount of fuel does
  \<open>spin_till_completion\<close> come back, however often the polling thread runs.\<close>

theorem failed_completion_never_wakes:
  assumes "\<And>k wc. ans_poll_cq E k = Some wc \<Longrightarrow> \<not> wc_success wc"
    and "ctx_of p w = Inr c" and "wr \<noteq> last_send_compl c" and "wr - last_send_compl c < 0x7FFFFFFF"
  shows "spin_till_completion n (\<lambda>u. case poll_cq m E q u of Some (Inr u') \<Rightarrow> u' | _ \<Rightarrow> u) p wr w = None"
proof -
  let ?tick = "\<lambda>u. case poll_cq m E q u of Some (Inr u') \<Rightarrow> u' | _ \<Rightarrow> u"
  have drain: "last_counted v p wcs k = k" if "drains E q wcs u u'" for wcs u u' v k
    using that assms(1)
    by (induction wcs arbitrary: u) (auto simp: counted_def split: sum.splits)
  have one: "\<exists>c'. ctx_of p (?tick u) = Inr c' \<and> last_send_compl c' = last_send_compl c"
    if "ctx_of p u = Inr d" "last_send_compl d = last_send_compl c" for u d
  proof (cases "\<exists>u'. poll_cq m E q u = Some (Inr u')")
    case True
    then obtain u' wcs where u': "poll_cq m E q u = Some (Inr u')" "drains E q wcs u u'"
      using poll_cq_result by blast
    then show ?thesis using drains_counter [OF u'(2) that(1)] drain [OF u'(2)] that(2) by simp
  next
    case False
    then have "?tick u = u" by (auto split: option.splits sum.splits)
    then show ?thesis using that by auto
  qed
  have all: "\<exists>c'. ctx_of p ((?tick ^^ i) w) = Inr c' \<and> last_send_compl c' = last_send_compl c" for i
    by (induction i) (use assms(2) one in auto)
  then obtain d where d: "\<And>i. ctx_of p ((?tick ^^ i) w) = Inr (d i)" "\<And>i. last_send_compl (d i) = last_send_compl c"
    by metis
  show ?thesis
    by (rule spin_till_completion_stuck [OF d(1)]) (use assms(3,4) d(2) in \<open>simp add: send_pending_iff\<close>)
qed

theorem failed_completion_never_wakes_witness:
  "\<forall>n. spin_till_completion n (\<lambda>u. case poll_cq 10 sample_env 3 u of Some (Inr u') \<Rightarrow> u' | _ \<Rightarrow> u)
    7 1 queue_world = None"
proof -
  have "last_send_compl queue_ctx = 0"
    by (simp add: queue_ctx_def sample_ctx_def new_context_def zero_context_def)
  then show ?thesis
    using failed_completion_never_wakes [of sample_env, OF _ queue_world_facts(3), of 1 _ 10 3]
    by (simp add: sample_env_def)
qed

end
