(* ===== verification/Verbs_Props.thy ===== *)
theory Verbs_Props
  imports Samples Conn_Spec
begin

text \<open>
  What the verbs of \<open>src/rdma/verbs.c\<close> guarantee: which requests they post, what they record of them,
  how broadcasts walk the table, and where they fail; with the arithmetic of \<open>utils.h\<close> they rest on.
\<close>

section \<open>Single requests\<close>

text \<open>\<open>IBV_CAS_ASYNC\<close> posts one compare-and-swap. On an open socket whose queue can take it, it asks the
  adapter for exactly one request: 8 bytes at the local address, the given remote address, key,
  compare and swap values (not exchanged), signalled, fenced on demand, numbered one above the last
  identifier; it returns that number, and the connection's counters (last identifier, operations
  posted, producer counter and id array) have advanced by this request alone.\<close>

theorem cas_posts_one_request:
  assumes "get_connection s w = Inr p" and "can_post E p w c q cnt"
  shows "\<exists>wr w'. IBV_CAS_ASYNC E s src dst cmpv swp lk rk f w = Inr (last_send c + 1, w') \<and>
    trace w' = trace w @ [IbvPostSend (Some q) [wr]] \<and>
    wr = zero_wr\<lparr>wr_id := ucast (last_send c + 1), num_sge := 1,
      sg_list := Some [\<lparr>sg_addr = src, sg_length = 8, sg_lkey = ucast lk\<rparr>],
      exp_opcode := IBV_EXP_WR_ATOMIC_CMP_AND_SWP, atomic_remote_addr := dst, atomic_rkey := ucast rk,
      atomic_compare_add := cmpv, atomic_swap := swp,
      send_flags := IBV_SEND_SIGNALED (abi E) OR (if f \<noteq> 0 then IBV_SEND_FENCE (abi E) else 0)\<rparr> \<and>
    ctx_of p w' = Inr (advanced cnt wr
      (c\<lparr>last_send := last_send c + 1, n_posted_ops := n_posted_ops c + 1\<rparr>))"
proof -
  have "ctx_of p w = Inr c" using assms(2) by (simp add: can_post_def)
  then show ?thesis
    using IBV_CAS_ASYNC_posts [OF assms refl, of src dst cmpv swp lk rk f]
    by (simp add: cas_request_def after_post_def)
qed

theorem cas_posts_one_request_witness:
  "\<exists>w'. IBV_CAS_ASYNC sample_env 0 8192 64 1 2 3 5 0 queue_world = Inr (1, w')"
proof -
  have "last_send queue_ctx = 0" by (simp add: queue_ctx_def sample_ctx_def new_context_def zero_context_def)
  then show ?thesis
    using cas_posts_one_request [OF queue_world_facts(5) queue_world_can_post] by fastforce
qed

text \<open>\<open>IBV_CONVERT_ENDIAN_ASYNC\<close> reverses the bytes. Of at most 16 bytes it posts one read whose scatter
  list, one entry a byte, gathers from any memory exactly the bytes of the source in reverse order, so
  that a value changes its byte order on the way.\<close>

theorem endian_conversion_reverses:
  assumes "get_connection s w = Inr p" and "can_post E p w c q cnt" and "len \<le> 16"
    and "unat src + unat len < 2 ^ 64"
  shows "\<exists>wr es w'. IBV_CONVERT_ENDIAN_ASYNC E s src dst len lk rk w = Inr (last_send c + 1, w') \<and>
    trace w' = trace w @ [IbvPostSend (Some q) [wr]] \<and> exp_opcode wr = IBV_EXP_WR_RDMA_READ \<and>
    rdma_remote_addr wr = dst \<and> rdma_rkey wr = ucast rk \<and> sg_list wr = Some es \<and>
    num_sge wr = int (length es) \<and> (\<forall>m. gather m es = rev (bytes_at m (unat src) (unat len)))"
proof -
  have "length (reversed_sges src len lk) = unat len" by (simp add: reversed_sges_def)
  then show ?thesis
    using IBV_CONVERT_ENDIAN_ASYNC_posts [OF assms(1-3) refl, of src dst lk rk] gather_reversed [OF assms(4), of _ lk]
    by (simp add: endian_request_def)
qed

theorem endian_conversion_reverses_witness:
  "\<exists>wr es w'. IBV_CONVERT_ENDIAN_ASYNC sample_env 0 8192 64 4 3 5 queue_world = Inr (1, w') \<and>
    trace w' = trace queue_world @ [IbvPostSend (Some sample_qp) [wr]] \<and> sg_list wr = Some es \<and>
    (\<forall>m. gather m es = rev (bytes_at m 8192 4))"
proof -
  have "last_send queue_ctx = 0" by (simp add: queue_ctx_def sample_ctx_def new_context_def zero_context_def)
  then show ?thesis
    using endian_conversion_reverses [OF queue_world_facts(5) queue_world_can_post, of 4 8192 64 3 5] by auto
qed

text \<open>A refused request ends the process. If the adapter refuses the request, \<open>IBV_CAS_ASYNC\<close> exits with
  its message; it never returns a number for a request that was not taken.\<close>

theorem refused_request_dies:
  assumes "get_connection s w = Inr p" and "ctx_of p w = Inr c" and "qp_of p w = Inr q" and "ctx_id c = p"
    and "counter_ok c cnt" and "ans_post_send E (length (trace w)) \<noteq> 0"
  shows "IBV_CAS_ASYNC E s src dst cmpv swp lk rk f w = Inl (Die ''failed to post rdma operation'')"
proof -
  let ?wr = "cas_request E (last_send c + 1) src dst cmpv swp lk rk f"
  have wr: "wr_ok ?wr" "length (sges ?wr) \<le> 16" by (simp_all add: cas_request_def wr_ok_def sges_def)
  have "ctx_id (c\<lparr>last_send := last_send c + 1\<rparr>) = p" "counter_ok (c\<lparr>last_send := last_send c + 1\<rparr>) cnt"
    using assms(4,5) by simp_all
  then have "count_and_post E p (c\<lparr>last_send := last_send c + 1\<rparr>) ?wr w =
      Inl (Die ''failed to post rdma operation'')"
    using count_and_post_refused [OF assms(2,3) _ _ wr assms(6)] by blast
  then show ?thesis
    using assms(1,2) by (simp add: IBV_CAS_ASYNC_def sock_ctx_def Let_def cas_request_def)
qed

theorem refused_request_dies_witness:
  "IBV_CAS_ASYNC (sample_env\<lparr>ans_post_send := \<lambda>_. 12\<rparr>) 0 8192 64 1 2 3 5 0 queue_world =
    Inl (Die ''failed to post rdma operation'')"
proof -
  have "ctx_id queue_ctx = 7" by (simp add: queue_ctx_def sample_ctx_def)
  then show ?thesis
    using refused_request_dies [OF queue_world_facts(5,3,4) _ queue_ctx_counter] by simp
qed

section \<open>Batches and broadcasts\<close>

text \<open>C28: \<open>send_rdma_operation\<close> posts a batch as one chain. With both regions ready, the operations
  \<open>mds\<close> (none with more than 16 scatter entries) become one chain posted in one call, numbered
  consecutively, every scatter entry under the local region's key, every one-sided request with its own
  remote address and the remote region's key, the immediate in network order; the number returned is
  that of the last request and every operation is counted. The producer counter, however, advances by
  the first request only (\<open>advanced\<close> with the head of the chain).\<close>

theorem batch_posted_as_chain:
  assumes "can_post E p w c q cnt" and "l \<le> MAX_MR" "rm \<le> MAX_MR"
    and "keys_ready p l rm op w = Inr 1" and "local_region l c = Inr r"
    and "op_one_sided op \<noteq> 0 \<Longrightarrow> remote_region rm c = Inr rr"
    and "list_all (\<lambda>md. md_sge_count md = int (length (md_sge_entries md)) \<and> md_sge_count md \<le> 16) mds"
    and "mds \<noteq> []"
  shows "\<exists>w' wrs. send_rdma_operation E tick p mds l rm op w = Inr (last_send c + of_nat (length mds), w') \<and>
    trace w' = trace w @ [IbvPostSend (Some q) wrs] \<and> length wrs = length mds \<and>
    (\<forall>i < length mds. wrs ! i =
      batch_request E r (remote_of op rr (mds ! i)) op (last_send c + 1 + of_nat i) (mds ! i)) \<and>
    ctx_of p w' = Inr (advanced cnt (hd wrs)
      (c\<lparr>last_send := last_send c + of_nat (length mds),
         n_posted_ops := n_posted_ops c + of_nat (length mds)\<rparr>))"
proof -
  have "ctx_of p w = Inr c" using assms(1) by (simp add: can_post_def)
  then show ?thesis
    using send_rdma_operation_posts [OF assms refl, of tick] by (simp add: batch_requests_def)
qed

theorem batch_posted_as_chain_witness:
  "\<exists>w' wrs. send_rdma_operation sample_env id 7
      [\<lparr>md_op = 0, md_wr_id = 0, md_addr = 64, md_length = 16, md_imm = 0, md_sge_count = 0, md_sge_entries = []\<rparr>,
       \<lparr>md_op = 0, md_wr_id = 0, md_addr = 80, md_length = 16, md_imm = 0, md_sge_count = 0, md_sge_entries = []\<rparr>]
      0 0 IBV_EXP_WR_RDMA_WRITE queue_world = Inr (2, w') \<and>
    trace w' = trace queue_world @ [IbvPostSend (Some sample_qp) wrs] \<and> length wrs = 2"
proof -
  let ?mds = "[\<lparr>md_op = 0, md_wr_id = 0, md_addr = 64, md_length = 16, md_imm = 0, md_sge_count = 0, md_sge_entries = []\<rparr>,
       \<lparr>md_op = 0, md_wr_id = 0, md_addr = 80, md_length = 16, md_imm = 0, md_sge_count = 0, md_sge_entries = []\<rparr>]"
  let ?rr = "\<lparr>mr_type = 0, mr_addr = 64, mr_length = 32, mr_lkey = 0, mr_rkey = 5, mr_physical = 0\<rparr>"
  have ready: "keys_ready 7 0 0 IBV_EXP_WR_RDMA_WRITE queue_world = Inr 1"
    using queue_world_facts(3)
    by (simp add: keys_ready_def mr_local_ready_def mr_remote_ready_def queue_ctx_def MAX_MR_def)
  have regions: "local_region 0 queue_ctx = Inr sample_mr" "remote_region 0 queue_ctx = Inr ?rr"
    by (simp_all add: local_region_def remote_region_def queue_ctx_def)
  have lim: "(0 :: int) \<le> MAX_MR" by (simp add: MAX_MR_def)
  have ok: "list_all (\<lambda>md. md_sge_count md = int (length (md_sge_entries md)) \<and> md_sge_count md \<le> 16) ?mds"
    "?mds \<noteq> []" by simp_all
  have start: "last_send queue_ctx = 0"
    by (simp add: queue_ctx_def sample_ctx_def new_context_def zero_context_def)
  show ?thesis
    using batch_posted_as_chain [OF queue_world_can_post lim lim ready regions ok, of id] start
    by (auto simp: numeral_2_eq_2)
qed

text \<open>C29: a broadcast serves every open connection exactly once. \<open>IBV_WRAPPER_OP_ASYNC_ALL\<close> ends with fuel
  above the number of open connections, whatever the answers of the adapter; and when it returns, the
  connections the operation was sent on are those of the open sockets, in the order of the sockets.
  \<open>tick\<close>, what other threads do while it sleeps, leaves the table alone.\<close>

theorem broadcast_serves_each_once:
  assumes "\<And>u. keeps u (tick u)" and "conn_inv w"
    and "length (filter (\<lambda>x. x \<noteq> None) (slots w)) < n"
  shows "\<exists>p res. find_next_connection 0 w = Inr p \<and> broadcast n E tick p mds l r op w = Some res \<and>
    IBV_WRAPPER_OP_ASYNC_ALL n E tick mds l r op w = Some (map_sum id snd res) \<and>
    (\<forall>sent w'. res = Inr (sent, w') \<longrightarrow>
      map fst sent = map the (filter (\<lambda>x. x \<noteq> None) (slots w)) \<and> slots w' = slots w)"
proof -
  obtain p where p: "find_next_connection 0 w = Inr p"
    using find_next_connection_slots [OF assms(2), of 0 "- 1"] by auto
  note walk = walk_start [OF assms(2) p]
  have "length (conns_after (- 1) (slots w)) < n" using assms(3) by (simp add: conns_after_start)
  then obtain res where res: "broadcast n E tick p mds l r op w = Some res"
    using broadcast_ends [OF assms(1,2) walk] by blast
  have "map fst sent = map the (filter (\<lambda>x. x \<noteq> None) (slots w)) \<and> slots w' = slots w"
    if "res = Inr (sent, w')" for sent w'
    using broadcast_conns [OF assms(1,2) walk, of n E mds l r op sent w'] res that slots_keeps
    by (simp add: conns_after_start)
  moreover have "IBV_WRAPPER_OP_ASYNC_ALL n E tick mds l r op w = Some (map_sum id snd res)"
    using p res by (cases res) (auto simp: IBV_WRAPPER_OP_ASYNC_ALL_def)
  ultimately show ?thesis using p res by blast
qed

abbreviation one_write :: "rdma_metadata list" where
  "one_write \<equiv> [\<lparr>md_op = 0, md_wr_id = 0, md_addr = 64, md_length = 16, md_imm = 0, md_sge_count = 0, md_sge_entries = []\<rparr>]"

lemma one_write_broadcast:
  "\<exists>sent w'. broadcast 2 sample_env id 7 one_write 0 0 IBV_EXP_WR_RDMA_WRITE queue_world = Some (Inr (sent, w'))"
proof -
  let ?rr = "\<lparr>mr_type = 0, mr_addr = 64, mr_length = 32, mr_lkey = 0, mr_rkey = 5, mr_physical = 0\<rparr>"
  have ready: "keys_ready 7 0 0 IBV_EXP_WR_RDMA_WRITE queue_world = Inr 1"
    using queue_world_facts(3)
    by (simp add: keys_ready_def mr_local_ready_def mr_remote_ready_def queue_ctx_def MAX_MR_def)
  have regions: "local_region 0 queue_ctx = Inr sample_mr" "remote_region 0 queue_ctx = Inr ?rr"
    by (simp_all add: local_region_def remote_region_def queue_ctx_def)
  have lim: "(0 :: int) \<le> MAX_MR" by (simp add: MAX_MR_def)
  obtain wr w' where w': "send_rdma_operation sample_env id 7 one_write 0 0 IBV_EXP_WR_RDMA_WRITE queue_world = Inr (wr, w')"
    using send_rdma_operation_posts [OF queue_world_can_post lim lim ready regions _ _ refl, of one_write id] by auto
  have ks: "keeps queue_world w'" by (rule keeps_send_rdma_operation [OF _ w']) simp
  have sl: "slots w' = (replicate 1000 None)[0 := Some 7]" using slots_keeps [OF ks] queue_world_facts(2) by simp
  have "slots w' ! nat 0 = Some 7 \<and> (0::int) \<le> 0 \<and> (0::int) < 1000" by (simp add: sl)
  then have "find_next_connection 7 w' = Inr (case next_open 0 (slots w') of None \<Rightarrow> 0 | Some k \<Rightarrow> the (slots w' ! k))"
    by (intro find_next_connection_slots conn_inv_keeps [OF ks queue_world_facts(1)] disjI2)
  moreover have "next_open 0 (slots w') = None"
    by (auto simp: next_open_def find_None_iff sl nth_list_update)
  ultimately have "find_next_connection 7 w' = Inr 0" by simp
  then show ?thesis using w' by (simp add: numeral_2_eq_2)
qed

theorem broadcast_serves_each_once_witness:
  "\<exists>sent w'. broadcast 2 sample_env id 7 one_write 0 0 IBV_EXP_WR_RDMA_WRITE queue_world = Some (Inr (sent, w')) \<and>
    IBV_WRAPPER_OP_ASYNC_ALL 2 sample_env id one_write 0 0 IBV_EXP_WR_RDMA_WRITE queue_world = Some (Inr w') \<and>
    map fst sent = [7]"
proof -
  have "(replicate 1000 None)[0 := Some (7 :: nat)] = Some 7 # replicate 999 None"
    by (simp add: numeral_eq_Suc)
  then have one: "filter (\<lambda>x. x \<noteq> None) (slots queue_world) = [Some 7]"
    by (simp add: queue_world_facts(2) filter_replicate)
  have keeps: "keeps u (id u)" for u by (simp add: keeps_refl)
  have "length (filter (\<lambda>x. x \<noteq> None) (slots queue_world)) < 2" unfolding one by simp
  note all = broadcast_serves_each_once [where tick = id, OF keeps queue_world_facts(1) this, of sample_env one_write 0 0 IBV_EXP_WR_RDMA_WRITE]
  have "find_next_connection 0 queue_world = Inr (case next_open (- 1) (slots queue_world) of None \<Rightarrow> 0 | Some k \<Rightarrow> the (slots queue_world ! k))"
    by (intro find_next_connection_slots queue_world_facts(1)) simp
  moreover have "next_open (- 1) (slots queue_world) = Some 0"
    by (simp add: next_open_def find_Some_iff queue_world_facts(2)) (rule exI [of _ 0], simp)
  ultimately have p: "find_next_connection 0 queue_world = Inr 7" by (simp add: queue_world_facts(2))
  obtain sent w' where run: "broadcast 2 sample_env id 7 one_write 0 0 IBV_EXP_WR_RDMA_WRITE queue_world = Some (Inr (sent, w'))"
    using one_write_broadcast by blast
  show ?thesis using all run p unfolding one by (intro exI [of _ sent] exI [of _ w']) auto
qed

text \<open>The arrays of the synchronous broadcast are large enough: \<open>IBV_WRAPPER_OP_SYNC_ALL\<close> sizes them by
  the connection count before it walks the table, and never stores more than that many numbers; it
  fails or hangs only where the operations or the waits do.\<close>

theorem sync_broadcast_within_arrays:
  assumes "\<And>u. keeps u (tick u)" and "conn_inv w"
  shows "IBV_WRAPPER_OP_SYNC_ALL n E tick mds l r op w =
    bindF (Some (find_next_connection 0 w)) (\<lambda>p.
    bindF (broadcast n E tick p mds l r op w) (\<lambda>(sent, w1). spin_all n tick sent w1))"
proof -
  obtain p where p: "find_next_connection 0 w = Inr p"
    using find_next_connection_slots [OF assms(2), of 0 "- 1"] by auto
  have len: "length sent = length (filter (\<lambda>x. x \<noteq> None) (slots w))"
    if "broadcast n E tick p mds l r op w = Some (Inr (sent, w1))" for sent w1
    using broadcast_conns [OF assms walk_start [OF assms(2) p] that]
    by (simp add: conns_after_start) (metis length_map)
  show ?thesis
    using p rc_connection_count_slots [OF assms(2)] len
    by (cases "broadcast n E tick p mds l r op w")
      (auto simp: IBV_WRAPPER_OP_SYNC_ALL_def bindF_def split: sum.splits)
qed

theorem sync_broadcast_within_arrays_witness:
  "IBV_WRAPPER_OP_SYNC_ALL 5 sample_env id [] 0 0 IBV_EXP_WR_RDMA_WRITE open_world =
    bindF (Some (find_next_connection 0 open_world)) (\<lambda>p.
    bindF (broadcast 5 sample_env id p [] 0 0 IBV_EXP_WR_RDMA_WRITE open_world)
      (\<lambda>(sent, w1). spin_all 5 id sent w1))"
  by (rule sync_broadcast_within_arrays [OF _ open_world_facts(2)]) (simp add: keeps_refl)

section \<open>Triggers and the lookup of entries\<close>

text \<open>The task of \<open>IBV_SET_TRIGGER\<close> alternates. For \<open>nops\<close> operations it posts one task of
  \<open>2 * nops - 1\<close> requests: an enable, then a wait and an enable for each further operation, each wait on
  the worker's completion queue for \<open>nwait\<close> completions and each enable of the worker's queue pair by
  \<open>nwait\<close> entries, numbered consecutively from the master's counter.\<close>

theorem trigger_task_alternates:
  assumes "two_socks ms s w = Inr (mp, mctx, p, ctx)" and "0 < nops"
    and "IBV_SET_TRIGGER E ms s nops nwait w = Inr w'"
  shows "\<exists>mi i dev wrs. cm_id_at (ctx_id mctx) w = Inr mi \<and> cm_id_at (ctx_id ctx) w = Inr i \<and>
    trace w' = trace w @ [IbvExpPostTask dev (cm_qp mi) wrs] \<and>
    wrs = enable_wr (last_send mctx + 1) (cm_qp i) (of_int nwait) (IBV_EXP_SEND_WAIT_EN_LAST (abi E)) #
      concat (map (\<lambda>j.
        [wait_wr (last_send mctx + 2 + 2 * of_nat j) (cq ctx) (of_int nwait) (IBV_EXP_SEND_WAIT_EN_LAST (abi E)),
         enable_wr (last_send mctx + 3 + 2 * of_nat j) (cm_qp i) (of_int nwait) (IBV_EXP_SEND_WAIT_EN_LAST (abi E))])
        [0..<nat (nops - 1)])"
proof -
  obtain mi i dev where ids: "cm_id_at (ctx_id mctx) w = Inr mi" "cm_id_at (ctx_id ctx) w = Inr i"
    and tr: "trace w' = trace w @ [IbvExpPostTask dev (cm_qp mi)
      (enable_wr (last_send mctx + 1) (cm_qp i) (of_int nwait) (IBV_EXP_SEND_WAIT_EN_LAST (abi E)) #
       fst (trigger_chain E (nat (nops - 1)) (cq ctx) (cm_qp i) (of_int nwait)
         (mctx\<lparr>last_send := last_send mctx + 1\<rparr>)))]"
    using assms
    by (auto simp: IBV_SET_TRIGGER_def call_def Let_def split: prod.splits if_splits elim!: bindR_InrE)
  have "fst (trigger_chain E (nat (nops - 1)) (cq ctx) (cm_qp i) (of_int nwait)
      (mctx\<lparr>last_send := last_send mctx + 1\<rparr>)) = concat (map (\<lambda>j.
        [wait_wr (last_send mctx + 2 + 2 * of_nat j) (cq ctx) (of_int nwait) (IBV_EXP_SEND_WAIT_EN_LAST (abi E)),
         enable_wr (last_send mctx + 3 + 2 * of_nat j) (cm_qp i) (of_int nwait) (IBV_EXP_SEND_WAIT_EN_LAST (abi E))])
        [0..<nat (nops - 1)])"
    by (simp add: trigger_chain_ok algebra_simps)
  then show ?thesis using ids tr by auto
qed

theorem trigger_task_alternates_witness:
  "\<exists>w' dev qp wrs. IBV_SET_TRIGGER sample_env 0 0 3 1 table_world = Inr w' \<and>
    trace w' = trace table_world @ [IbvExpPostTask dev qp wrs] \<and> length wrs = 5"
proof -
  have inv: "conn_inv table_world" by (rule conn_inv_keeps [OF table_world_facts(7) queue_world_facts(1)])
  have "get_connection 0 table_world = Inr 7"
    using get_connection_slots [OF inv, of 0] slots_keeps [OF table_world_facts(7)] queue_world_facts(2) by simp
  then have socks: "two_socks 0 0 table_world = Inr (7, queue_ctx, 7, queue_ctx)"
    using table_world_facts(5) by (simp add: two_socks_eq_Inr sock_ctx_eq_Inr)
  obtain d where d: "s_ctx table_world = Some d" "dev_ctx d = [0, 0]" using table_world_facts(8) by auto
  obtain i where "cm_id_at 7 table_world = Inr i" using cm_qp_of [OF table_world_facts(6)] by blast
  moreover have "ctx_id queue_ctx = 7" "devid queue_ctx = 0"
    by (simp_all add: queue_ctx_def sample_ctx_def new_context_def zero_context_def)
  ultimately obtain w' where w': "IBV_SET_TRIGGER sample_env 0 0 3 1 table_world = Inr w'"
    using socks d
    by (auto simp: IBV_SET_TRIGGER_def Let_def call_def rc_get_context_def sample_env_def trigger_chain_ok)
  have "(0 :: int) < 3" by simp
  from trigger_task_alternates [OF socks this w'] obtain qp dev wrs where
    wrs: "trace w' = trace table_world @ [IbvExpPostTask dev qp wrs]" "length wrs = 5"
    by (auto simp: two_lists)
  show ?thesis by (rule exI [of _ w'], rule exI [of _ dev], rule exI [of _ qp], rule exI [of _ wrs]) (simp add: w' wrs)
qed

text \<open>\<open>IBV_FIND_WQE\<close> never finds an entry. The fields it searches by, the start of the send queue and
  its number of entries, are read in several places and assigned in none, so in every state the
  library can reach they are zero, the search ends before its first round, and the null pointer comes
  back whatever the request's number.\<close>

theorem find_wqe_never_finds:
  assumes "reachable E w" and "sock_ctx s w = Inr (p, c)"
  shows "IBV_FIND_WQE s wr w = Inr 0"
  using IBV_FIND_WQE_unset reachable_inv [OF assms(1)] assms(2) by blast

theorem find_wqe_never_finds_witness: "IBV_FIND_WQE 0 1 client_world = Inr 0"
  by (rule find_wqe_never_finds [OF client_world_facts(3,2)])

section \<open>Arithmetic\<close>

text \<open>Where \<open>cmp_counters\<close> is an order and where it is not. It is zero on equal counters only; a counter
  less than \<open>0x7FFFFFFF\<close> steps ahead is later and the comparison reversed says earlier, also across the
  wrap-around. For the three distances at half the range both comparisons say earlier, so that neither
  of the two requests counts as pending after the other.\<close>

theorem cmp_counters_wraps:
  "(cmp_counters a b = 0 \<longleftrightarrow> a = b) \<and>
   (a \<noteq> b \<and> a - b < 0x7FFFFFFF \<longrightarrow> cmp_counters a b = 1 \<and> cmp_counters b a = - 1) \<and>
   (cmp_counters a b = - 1 \<and> cmp_counters b a = - 1 \<longleftrightarrow> a - b \<in> {0x7FFFFFFF, 0x80000000, 0x80000001})"
proof -
  have "cmp_counters a b = 1" if "a \<noteq> b" "a - b < 0x7FFFFFFF"
    using that cmp_counters_pos_iff [of a b] cmp_counters_range [of a b] by auto
  then show ?thesis using cmp_counters_antisym cmp_counters_both_older by auto
qed

theorem cmp_counters_wraps_witness: "cmp_counters 3 0xFFFFFFFE = 1 \<and> cmp_counters 0xFFFFFFFE 3 = - 1"
  using cmp_counters_wraps [of 3 "0xFFFFFFFE"] by simp

text \<open>\<open>find_first_empty_bit_and_set\<close> claims the first empty entry. Inside the array it returns the index
  of the first zero and leaves the array with a one there and otherwise as it was; with no zero among
  the entries it returns -1 and changes nothing.\<close>

theorem first_empty_claimed:
  assumes "n \<le> int (length xs)"
  shows "\<exists>r ys. find_first_empty_bit_and_set xs n = Inr (r, ys) \<and>
    (if \<exists>k. 0 \<le> k \<and> k < n \<and> xs ! nat k = 0
     then 0 \<le> r \<and> r < n \<and> xs ! nat r = 0 \<and> (\<forall>k. 0 \<le> k \<and> k < r \<longrightarrow> xs ! nat k \<noteq> 0) \<and> ys = xs[nat r := 1]
     else r = - 1 \<and> ys = xs)"
proof -
  obtain r where r: "find_from (\<lambda>x. x = 0) xs 0 n = Inr r" "first_hit (\<lambda>x. x = 0) xs 0 n r"
    using find_from_first_hit [of 0 n xs "\<lambda>x. x = 0"] assms by auto
  then show ?thesis
    by (auto simp: find_first_empty_bit_and_set_eq find_first_empty_bit_def first_hit_def)
qed

theorem first_empty_claimed_witness:
  "find_first_empty_bit_and_set [0, 0] 1 = Inr (0, [1, 0])"
proof -
  have "\<exists>k. 0 \<le> k \<and> k < 1 \<and> [0, 0 :: int] ! nat k = 0" by (rule exI [of _ 0]) simp
  with first_empty_claimed [of 1 "[0, 0]"] obtain r ys where
    r: "find_first_empty_bit_and_set [0, 0] 1 = Inr (r, ys)" "0 \<le> r" "r < 1" "ys = [0, 0][nat r := 1]"
    by auto
  then have "r = 0" by simp
  then show ?thesis using r by simp
qed

end
