(* ===== verification/Driver_Base.thy ===== *)
theory Driver_Base
  imports Prelude
begin

text \<open>
  What the theories of the driver under \<open>src/ooo/lib/libmlx5-41mlnx1\<close> share: the lowest bit set
  in a word, 16-bit fields in network order, the address of the page an address lies on.
\<close>

section \<open>Bits\<close>

text \<open>\<open>ffs\<close> and \<open>ffsl\<close> of the C library: the position of the lowest bit set, from 1; 0 for 0.\<close>

definition ffs :: "'a::len word \<Rightarrow> nat" where
  "ffs x = (case find (bit x) [0..<LENGTH('a)] of None \<Rightarrow> 0 | Some j \<Rightarrow> Suc j)"

lemma ffs_eq_0 [simp]: "ffs x = 0 \<longleftrightarrow> x = 0"
proof -
  have "find (bit x) [0..<LENGTH('a)] = None \<longleftrightarrow> x = 0"
    by (auto simp: find_None_iff intro: bit_word_eqI)
  then show ?thesis unfolding ffs_def by (metis nat.distinct(1) option.case_eq_if)
qed

lemma ffs_SucD:
  assumes "ffs (x :: 'a::len word) = Suc j"
  shows "j < LENGTH('a)" "bit x j" "\<And>i. i < j \<Longrightarrow> \<not> bit x i"
proof -
  have "find (bit x) [0..<LENGTH('a)] = Some j"
    using assms by (auto simp: ffs_def split: option.splits)
  then obtain i where i: "i < LENGTH('a)" "bit x i" "j = i" "\<forall>k<i. \<not> bit x k"
    by (auto simp: find_Some_iff)
  then show "j < LENGTH('a)" "bit x j" "\<And>i. i < j \<Longrightarrow> \<not> bit x i" by auto
qed

lemma ffs_bit: "x \<noteq> 0 \<Longrightarrow> \<exists>j. ffs x = Suc j"
  by (cases "ffs x") simp_all

section \<open>Pages\<close>

text \<open>\<open>(uintptr_t) p & ~(ps - 1)\<close>.\<close>

definition page_base :: "nat \<Rightarrow> nat \<Rightarrow> nat" where
  "page_base ps p = unat ((of_nat p :: u64) AND NOT (of_nat ps - 1))"

lemma page_base_eq:
  assumes "ps = 2 ^ k" "k < 64" "p < 2 ^ 64"
  shows "page_base ps p = p - p mod ps"
proof -
  have m: "(of_nat ps :: u64) - 1 = mask k" by (simp add: assms(1) mask_eq_exp_minus_1)
  have p: "unat (of_nat p :: u64) = p" using assms(3) by (simp add: unat_of_nat)
  have "(of_nat p AND NOT (mask k) :: u64) = push_bit k (drop_bit k (of_nat p))"
    by (rule bit_word_eqI) (auto simp: bit_simps)
  then have "(of_nat p AND NOT (mask k) :: u64) + (of_nat p AND mask k) = of_nat p"
    by (simp add: bits_ident flip: take_bit_eq_mask)
  then have eq: "(of_nat p AND NOT (mask k) :: u64) = of_nat p - (of_nat p AND mask k)"
    by (simp add: eq_diff_eq)
  have le: "(of_nat p AND mask k :: u64) \<le> of_nat p"
    by (simp add: word_and_le2)
  have "unat (of_nat p AND NOT (mask k) :: u64) = p - p mod 2 ^ k"
    unfolding eq by (subst unat_sub [OF le]) (simp add: unat_and_mask p)
  then show ?thesis unfolding page_base_def m by (simp only: assms(1))
qed

lemma page_base_offset:
  assumes "ps = 2 ^ k" "k < 64" "ps dvd b" "off < ps" "b + ps \<le> 2 ^ 64"
  shows "page_base ps (b + off) = b"
proof -
  have "(b + off) mod ps = off" using assms(3,4) by (auto simp: dvd_def)
  moreover have "b + off < 2 ^ 64" using assms(4,5) by linarith
  ultimately show ?thesis using page_base_eq [OF assms(1,2)] by simp
qed

section \<open>Bytes in network order, 16 bits\<close>

definition htons :: "u16 \<Rightarrow> u16" where
  "htons x = push_bit 8 x OR drop_bit 8 x"

definition ntohs :: "u16 \<Rightarrow> u16" where
  "ntohs x = push_bit 8 x OR drop_bit 8 x"

lemma ntohs_htons [simp]: "ntohs (htons x) = x" and htons_ntohs [simp]: "htons (ntohs x) = x"
  unfolding htons_def ntohs_def by (rule bit_word_eqI; auto simp: bit_simps)+

definition le16 :: "u16 \<Rightarrow> u8 list" where
  "le16 x = [ucast x, ucast (drop_bit 8 x)]"

fun of_le16 :: "u8 list \<Rightarrow> u16" where
  "of_le16 [a, b] = ucast a OR push_bit 8 (ucast b)"
| "of_le16 _ = 0"

lemma length_le16 [simp]: "length (le16 x) = 2"
  by (simp add: le16_def)

lemma of_le16_le16 [simp, byte_simps]: "of_le16 (le16 x) = x"
proof -
  have "n < 8 \<or> (8 \<le> n \<and> n < 16)" if "n < 16" for n :: nat using that by arith
  then show ?thesis
    unfolding le16_def of_le16.simps by (intro bit_word_eqI) (force simp: bit_simps)
qed

definition store16 :: "nat \<Rightarrow> u16 \<Rightarrow> memory \<Rightarrow> memory res" where
  "store16 a x = store_bytes a (le16 x)"

definition load16 :: "nat \<Rightarrow> memory \<Rightarrow> u16 res" where
  "load16 a m = bindR (load_bytes a 2 m) (\<lambda>bs. Inr (of_le16 bs))"

definition load64 :: "nat \<Rightarrow> memory \<Rightarrow> u64 res" where
  "load64 a m = bindR (load_bytes a 8 m) (\<lambda>bs. Inr (of_le64 bs))"

section \<open>Memory that stays mapped\<close>

definition keeps_mapped :: "memory \<Rightarrow> memory \<Rightarrow> bool" where
  "keeps_mapped m m' \<longleftrightarrow> (\<forall>a n. mapped m a n \<longrightarrow> mapped m' a n)"

lemma keeps_mapped_refl [simp]: "keeps_mapped m m"
  by (simp add: keeps_mapped_def)

lemma keeps_mapped_trans: "keeps_mapped m m1 \<Longrightarrow> keeps_mapped m1 m2 \<Longrightarrow> keeps_mapped m m2"
  by (simp add: keeps_mapped_def)

lemma keeps_mapped_upd [simp]: "keeps_mapped m (upd_bytes a bs m)"
  by (simp add: keeps_mapped_def)

lemma keeps_mappedD: "keeps_mapped m m' \<Longrightarrow> mapped m a n \<Longrightarrow> mapped m' a n"
  by (simp add: keeps_mapped_def)

lemma stores_mapped:
  "mapped m a 1 \<Longrightarrow> store8 a x m = Inr (upd_bytes a [x] m)"
  "mapped m a 2 \<Longrightarrow> store16 a y m = Inr (upd_bytes a (le16 y) m)"
  "mapped m a 4 \<Longrightarrow> store32 a z m = Inr (upd_bytes a (le32 z) m)"
  "mapped m a 8 \<Longrightarrow> store64 a w m = Inr (upd_bytes a (le64 w) m)"
  by (simp_all add: store8_def store16_def store32_def store64_def)

section \<open>Signatures\<close>

text \<open>\<open>calc_xor\<close> over the bytes of an object.\<close>

definition calc_xor :: "u8 list \<Rightarrow> u8" where
  "calc_xor bs = fold (XOR) bs 0"

lemma fold_xor: "fold (XOR) bs (x XOR y) = x XOR fold (XOR) bs (y :: u8)"
proof (induction bs arbitrary: y)
  case Nil
  then show ?case by simp
next
  case (Cons b bs)
  have "b XOR (x XOR y) = x XOR (b XOR y)" by (simp add: ac_simps)
  then show ?case by (simp add: Cons.IH)
qed

lemma calc_xor_Cons [simp]: "calc_xor (b # bs) = b XOR calc_xor bs"
  using fold_xor [of bs b 0] by (simp add: calc_xor_def)

lemma calc_xor_Nil [simp]: "calc_xor [] = 0"
  by (simp add: calc_xor_def)

lemma calc_xor_append [simp]: "calc_xor (xs @ ys) = calc_xor xs XOR calc_xor ys"
  by (induction xs) (simp_all add: ac_simps)

section \<open>Powers of two\<close>

text \<open>\<open>for (ret = 1; ret < sz; ret <<= 1)\<close>, with the limit of \<open>int\<close> checked after it.\<close>

function double_until :: "int \<Rightarrow> int \<Rightarrow> int" where
  "double_until r sz = (if 0 < r \<and> r < sz then double_until (2 * r) sz else r)"
  by pat_completeness auto
termination
  by (relation "measure (\<lambda>(r, sz). nat (sz - r))") auto

declare double_until.simps [simp del]

lemma double_until_spec:
  "\<exists>k. double_until (2 ^ j) sz = 2 ^ k \<and> sz \<le> 2 ^ k \<and> (k = j \<or> 2 ^ k < 2 * sz)"
proof (induction "nat (sz - 2 ^ j)" arbitrary: j rule: less_induct)
  case less
  show ?case
  proof (cases "(2::int) ^ j < sz")
    case True
    then have "nat (sz - 2 ^ Suc j) < nat (sz - 2 ^ j)" by simp
    from less.hyps [OF this] obtain k where k: "double_until (2 ^ Suc j) sz = 2 ^ k" "sz \<le> 2 ^ k"
      "k = Suc j \<or> (2::int) ^ k < 2 * sz" by blast
    have "double_until (2 ^ j) sz = 2 ^ k"
      using k(1) True by (subst double_until.simps) (simp add: mult.commute)
    then show ?thesis using k True by auto
  next
    case False
    then have "double_until (2 ^ j) sz = 2 ^ j" by (subst double_until.simps) simp
    then show ?thesis using False by (intro exI [of _ j]) simp
  qed
qed

end
