(* ===== verification/Pool_Spec.thy ===== *)
theory Pool_Spec
  imports Prelude
begin

text \<open>
  The contract of the driver's allocators: a pool hands out items and takes them back. A client that
  gives back only what it holds is never handed an item twice, whatever the pool is made of. The
  theories of the doorbell records and of the user indices discharge the laws.
\<close>

datatype 'a pool_event = Got 'a | Refused | Gave 'a

text \<open>What a client holds after the calls of a trace, the newest first.\<close>

fun held :: "'a pool_event list \<Rightarrow> 'a set" where
  "held [] = {}"
| "held (Got a # t) = insert a (held t)"
| "held (Refused # t) = held t"
| "held (Gave a # t) = held t - {a}"

text \<open>No item is handed out while it is held, and none is given back twice.\<close>

fun exclusive :: "'a pool_event list \<Rightarrow> bool" where
  "exclusive [] = True"
| "exclusive (Got a # t) = (a \<notin> held t \<and> exclusive t)"
| "exclusive (Refused # t) = exclusive t"
| "exclusive (Gave a # t) = (a \<in> held t \<and> exclusive t)"

text \<open>
  The runs of a client: \<open>take\<close> is called with an answer \<open>e\<close> of the surroundings that is \<open>fair\<close>, and
  \<open>give\<close> only with an item that is held.
\<close>

inductive served ::
  "('e \<Rightarrow> 's \<Rightarrow> ('a option \<times> 's) res) \<Rightarrow> ('a \<Rightarrow> 's \<Rightarrow> 's res) \<Rightarrow> ('e \<Rightarrow> 's \<Rightarrow> bool) \<Rightarrow> 's \<Rightarrow>
    'a pool_event list \<Rightarrow> 's \<Rightarrow> bool"
  for tk gv fair s0 where
  served_start: "served tk gv fair s0 [] s0"
| served_got: "served tk gv fair s0 t s \<Longrightarrow> fair e s \<Longrightarrow> tk e s = Inr (Some a, s') \<Longrightarrow>
    served tk gv fair s0 (Got a # t) s'"
| served_refused: "served tk gv fair s0 t s \<Longrightarrow> fair e s \<Longrightarrow> tk e s = Inr (None, s') \<Longrightarrow>
    served tk gv fair s0 (Refused # t) s'"
| served_gave: "served tk gv fair s0 t s \<Longrightarrow> a \<in> held t \<Longrightarrow> gv a s = Inr s' \<Longrightarrow>
    served tk gv fair s0 (Gave a # t) s'"

inductive_cases served_GotE: "served tk gv fair s0 (Got a # t) s"
inductive_cases served_GaveE: "served tk gv fair s0 (Gave a # t) s"

locale slot_pool =
  fixes ok :: "'s \<Rightarrow> bool"
    and live :: "'s \<Rightarrow> 'a set"
    and tk :: "'e \<Rightarrow> 's \<Rightarrow> ('a option \<times> 's) res"
    and gv :: "'a \<Rightarrow> 's \<Rightarrow> 's res"
    and fair :: "'e \<Rightarrow> 's \<Rightarrow> bool"
  assumes take_ok: "ok s \<Longrightarrow> fair e s \<Longrightarrow> \<exists>r s'. tk e s = Inr (r, s') \<and> ok s' \<and>
      (case r of None \<Rightarrow> live s' = live s | Some a \<Rightarrow> a \<notin> live s \<and> live s' = insert a (live s))"
    and give_ok: "ok s \<Longrightarrow> a \<in> live s \<Longrightarrow> \<exists>s'. gv a s = Inr s' \<and> ok s' \<and> live s' = live s - {a}"
begin

lemma take_SomeD:
  assumes "ok s" "fair e s" "tk e s = Inr (Some a, s')"
  shows "ok s'" "a \<notin> live s" "live s' = insert a (live s)"
  using take_ok [OF assms(1,2)] assms(3) by (auto split: option.splits)

lemma take_NoneD:
  assumes "ok s" "fair e s" "tk e s = Inr (None, s')"
  shows "ok s'" "live s' = live s"
  using take_ok [OF assms(1,2)] assms(3) by auto

lemma give_InrD:
  assumes "ok s" "a \<in> live s" "gv a s = Inr s'"
  shows "ok s'" "live s' = live s - {a}"
  using give_ok [OF assms(1,2)] assms(3) by auto

text \<open>The pool follows the trace: what it counts as handed out is what the client holds.\<close>

lemma served_exact:
  assumes "served tk gv fair s0 t s" and "ok s0" and "live s0 = {}"
  shows "ok s \<and> live s = held t \<and> exclusive t"
  using assms
proof (induction rule: served.induct)
  case served_start
  then show ?case by simp
next
  case (served_got t s e a s')
  then show ?case using take_SomeD [of s e a s'] by auto
next
  case (served_refused t s e s')
  then show ?case using take_NoneD [of s e s'] by auto
next
  case (served_gave t s a s')
  then show ?case using give_InrD [of s a s'] by auto
qed

text \<open>The calls of such a client never fault.\<close>

lemma served_total:
  assumes "served tk gv fair s0 t s" and "ok s0" and "live s0 = {}"
  shows "(fair e s \<longrightarrow> (\<exists>r. tk e s = Inr r)) \<and> (a \<in> held t \<longrightarrow> (\<exists>s'. gv a s = Inr s'))"
  using served_exact [OF assms] take_ok [of s e] give_ok [of s a] by auto

end

section \<open>Tables of handles\<close>

text \<open>
  The contract of the tables in which the driver finds its objects by the number the adapter knows
  them by: a client that stores a number only while it is absent, and clears it only while it is
  present, sees a finite map. The two tables of resources interpret it.
\<close>

datatype ('k, 'v) table_call = Put 'k 'v | Drop 'k

fun map_effect :: "('k, 'v) table_call \<Rightarrow> ('k \<rightharpoonup> 'v) \<Rightarrow> 'k \<rightharpoonup> 'v" where
  "map_effect (Put k v) m = m(k \<mapsto> v)"
| "map_effect (Drop k) m = m(k := None)"

fun legal_call :: "('k, 'v) table_call \<Rightarrow> ('k \<rightharpoonup> 'v) \<Rightarrow> bool" where
  "legal_call (Put k v) m \<longleftrightarrow> m k = None"
| "legal_call (Drop k) m \<longleftrightarrow> m k \<noteq> None"

fun legal_calls :: "('k, 'v) table_call list \<Rightarrow> ('k \<rightharpoonup> 'v) \<Rightarrow> bool" where
  "legal_calls [] m = True"
| "legal_calls (c # cs) m = (legal_call c m \<and> legal_calls cs (map_effect c m))"

fun run_call :: "('k \<Rightarrow> 'v \<Rightarrow> 't \<Rightarrow> 't res) \<Rightarrow> ('k \<Rightarrow> 't \<Rightarrow> 't res) \<Rightarrow> ('k, 'v) table_call \<Rightarrow> 't \<Rightarrow> 't res" where
  "run_call put drp (Put k v) t = put k v t"
| "run_call put drp (Drop k) t = drp k t"

text \<open>The numbers and objects a table is made for.\<close>

fun sensible :: "('k \<Rightarrow> bool) \<Rightarrow> ('v \<Rightarrow> bool) \<Rightarrow> ('k, 'v) table_call \<Rightarrow> bool" where
  "sensible number object (Put k v) = (number k \<and> object v)"
| "sensible number object (Drop k) = number k"

locale handle_table =
  fixes ok :: "'t \<Rightarrow> bool"
    and number :: "'k \<Rightarrow> bool"
    and object :: "'v \<Rightarrow> bool"
    and view :: "'t \<Rightarrow> 'k \<rightharpoonup> 'v"
    and look :: "'t \<Rightarrow> 'k \<Rightarrow> 'v option res"
    and put :: "'k \<Rightarrow> 'v \<Rightarrow> 't \<Rightarrow> 't res"
    and drp :: "'k \<Rightarrow> 't \<Rightarrow> 't res"
  assumes look_ok: "ok t \<Longrightarrow> number k \<Longrightarrow> look t k = Inr (view t k)"
    and put_ok: "ok t \<Longrightarrow> number k \<Longrightarrow> object v \<Longrightarrow> view t k = None \<Longrightarrow>
      \<exists>t'. put k v t = Inr t' \<and> ok t' \<and> view t' = (view t)(k \<mapsto> v)"
    and drp_ok: "ok t \<Longrightarrow> number k \<Longrightarrow> view t k \<noteq> None \<Longrightarrow>
      \<exists>t'. drp k t = Inr t' \<and> ok t' \<and> view t' = (view t)(k := None)"
begin

lemma one_call:
  assumes "ok t" "sensible number object c" "legal_call c (view t)"
  shows "\<exists>t'. run_call put drp c t = Inr t' \<and> ok t' \<and> view t' = map_effect c (view t)"
  using assms put_ok drp_ok by (cases c) auto

lemma calls_refine:
  assumes "ok t" "\<forall>c \<in> set cs. sensible number object c" "legal_calls cs (view t)"
  shows "\<exists>t'. foldR (run_call put drp) cs t = Inr t' \<and> ok t' \<and> view t' = fold map_effect cs (view t)"
  using assms
proof (induction cs arbitrary: t)
  case Nil
  then show ?case by simp
next
  case (Cons c cs)
  obtain t1 where 1: "run_call put drp c t = Inr t1" "ok t1" "view t1 = map_effect c (view t)"
    using one_call [OF Cons.prems(1)] Cons.prems(2,3) by auto
  show ?case using Cons.IH [OF 1(2)] Cons.prems(2,3) 1 by simp
qed

text \<open>What a look-up answers after any such run.\<close>

lemma look_after:
  assumes "ok t" "\<forall>c \<in> set cs. sensible number object c" "legal_calls cs (view t)" "number k"
  shows "bindR (foldR (run_call put drp) cs t) (\<lambda>t. look t k) = Inr (fold map_effect cs (view t) k)"
  using calls_refine [OF assms(1-3)] look_ok assms(4) by auto

end

end
