(* ===== verification/Dbrec.thy ===== *)
theory Dbrec
  imports Driver_Base Pool_Spec
begin

text \<open>
  \<open>dbrec.c\<close> of the driver: doorbell records, cache lines cut from pages. A page has one bit per
  record, set while the record is free, and counts the records in use; a page whose last record
  is freed goes back to the system. The list threaded through \<open>prev\<close> and \<open>next\<close> is a list here,
  the mutex around each operation makes it atomic.
\<close>

record mlx5_db_page =
  page_buf :: nat
  num_db :: int
  use_cnt :: int
  free_map :: "u64 list"

record db_context =
  db_list :: "mlx5_db_page list"
  page_size :: nat
  cache_line_size :: nat

text \<open>
  What the system answers when a page is wanted: whether the descriptor was allocated, and the
  address of the page that \<open>mlx5_alloc_buf\<close> got, 0 when it got none.
\<close>

record page_answer =
  descr_ok :: bool
  page_mem :: nat

definition add_page :: "page_answer \<Rightarrow> db_context \<Rightarrow> mlx5_db_page option \<times> db_context" where
  "add_page e ctx =
     (let ps = page_size ctx; pp = ps div cache_line_size ctx; nlong = (pp + 64 - 1) div 64 in
      if \<not> descr_ok e \<or> page_mem e = 0 then (None, ctx)
      else let page = \<lparr>page_buf = page_mem e, num_db = int pp, use_cnt = 0,
                       free_map = replicate nlong (NOT 0)\<rparr>
           in (Some page, ctx\<lparr>db_list := page # db_list ctx\<rparr>))"

text \<open>\<open>for (i = 0; !page->free[i]; ++i)\<close>\<close>

function first_word :: "u64 list \<Rightarrow> nat \<Rightarrow> nat res" where
  "first_word fr i =
     bindR (read_at fr i) (\<lambda>x. if x = 0 then first_word fr (Suc i) else Inr i)"
  by pat_completeness auto
termination
  by (relation "measure (\<lambda>(fr, i). length fr - i)") (auto simp: read_at_def split: if_splits)

declare first_word.simps [simp del]

text \<open>The steps from the label \<open>found\<close> on: the record's address and the page.\<close>

definition claim_record :: "nat \<Rightarrow> mlx5_db_page \<Rightarrow> (nat \<times> mlx5_db_page) res" where
  "claim_record line page =
     bindR (first_word (free_map page) 0) (\<lambda>i.
     bindR (read_at (free_map page) i) (\<lambda>x.
       let j = ffs x - 1 in
       bindR (write_at (free_map page) i (x AND NOT (push_bit j 1))) (\<lambda>fr.
         Inr (page_buf page + (i * 64 + j) * line,
              page\<lparr>use_cnt := use_cnt page + 1, free_map := fr\<rparr>))))"

text \<open>The walk over the list, and the claim on the page it stops at.\<close>

fun claim_in :: "nat \<Rightarrow> mlx5_db_page list \<Rightarrow> (nat \<times> mlx5_db_page list) option res" where
  "claim_in line [] = Inr None"
| "claim_in line (page # pages) =
     (if use_cnt page < num_db page
      then bindR (claim_record line page) (\<lambda>(db, page'). Inr (Some (db, page' # pages)))
      else bindR (claim_in line pages) (\<lambda>r.
             Inr (map_option (\<lambda>(db, pages'). (db, page # pages')) r)))"

definition mlx5_alloc_dbrec :: "page_answer \<Rightarrow> db_context \<Rightarrow> (nat option \<times> db_context) res" where
  "mlx5_alloc_dbrec e ctx =
     bindR (claim_in (cache_line_size ctx) (db_list ctx)) (\<lambda>r.
       case r of
         Some (db, pages) \<Rightarrow> Inr (Some db, ctx\<lparr>db_list := pages\<rparr>)
       | None \<Rightarrow>
           (case add_page e ctx of
              (None, ctx) \<Rightarrow> Inr (None, ctx)
            | (Some page, ctx) \<Rightarrow>
                bindR (claim_record (cache_line_size ctx) page) (\<lambda>(db, page').
                  Inr (Some db, ctx\<lparr>db_list := page' # tl (db_list ctx)\<rparr>))))"

text \<open>Setting the record's bit; the page leaves the list with its last record.\<close>

definition release_record :: "nat \<Rightarrow> nat \<Rightarrow> mlx5_db_page \<Rightarrow> mlx5_db_page option res" where
  "release_record line db page =
     (let i = (db - page_buf page) div line in
      bindR (read_at (free_map page) (i div 64)) (\<lambda>x.
      bindR (write_at (free_map page) (i div 64) (x OR push_bit (i mod 64) 1)) (\<lambda>fr.
        let n = use_cnt page - 1 in
        Inr (if n = 0 then None else Some (page\<lparr>use_cnt := n, free_map := fr\<rparr>)))))"

fun release_in :: "nat \<Rightarrow> nat \<Rightarrow> nat \<Rightarrow> mlx5_db_page list \<Rightarrow> mlx5_db_page list res" where
  "release_in ps line db [] = Inr []"
| "release_in ps line db (page # pages) =
     (if page_base ps db = page_buf page
      then bindR (release_record line db page) (\<lambda>r.
             Inr (case r of None \<Rightarrow> pages | Some page' \<Rightarrow> page' # pages))
      else bindR (release_in ps line db pages) (\<lambda>pages'. Inr (page # pages')))"

definition mlx5_free_db :: "nat \<Rightarrow> db_context \<Rightarrow> db_context res" where
  "mlx5_free_db db ctx =
     bindR (release_in (page_size ctx) (cache_line_size ctx) db (db_list ctx)) (\<lambda>pages.
       Inr (ctx\<lparr>db_list := pages\<rparr>))"

end
