(* ===== verification/Dbrec_Correct.thy ===== *)
theory Dbrec_Correct
  imports Dbrec
begin

text \<open>
  The doorbell-record allocator is a pool: its invariant, the set of records in use, and the laws
  of \<open>slot_pool\<close> for \<open>mlx5_alloc_dbrec\<close> and \<open>mlx5_free_db\<close>.
\<close>

section \<open>One page\<close>

definition record_free :: "u64 list \<Rightarrow> nat \<Rightarrow> bool" where
  "record_free fr i = bit (fr ! (i div 64)) (i mod 64)"

definition used_slots :: "nat \<Rightarrow> u64 list \<Rightarrow> nat set" where
  "used_slots pp fr = {i. i < pp \<and> \<not> record_free fr i}"

definition page_ok :: "nat \<Rightarrow> nat \<Rightarrow> mlx5_db_page \<Rightarrow> bool" where
  "page_ok ps line p \<longleftrightarrow>
     ps dvd page_buf p \<and> 0 < page_buf p \<and> page_buf p + ps \<le> 2 ^ 64 \<and>
     num_db p = int (ps div line) \<and>
     length (free_map p) = (ps div line + 63) div 64 \<and>
     use_cnt p = int (card (used_slots (ps div line) (free_map p))) \<and>
     (\<forall>i. ps div line \<le> i \<longrightarrow> i < 64 * length (free_map p) \<longrightarrow> record_free (free_map p) i)"

text \<open>The addresses of the records of a page that are in use.\<close>

definition page_records :: "nat \<Rightarrow> nat \<Rightarrow> mlx5_db_page \<Rightarrow> nat set" where
  "page_records ps line p = (\<lambda>i. page_buf p + i * line) ` used_slots (ps div line) (free_map p)"

lemma finite_used [simp]: "finite (used_slots pp fr)"
  by (simp add: used_slots_def)

lemma page_okD:
  assumes "page_ok ps line p"
  shows "ps dvd page_buf p" "0 < page_buf p" "page_buf p + ps \<le> 2 ^ 64"
    "num_db p = int (ps div line)" "length (free_map p) = (ps div line + 63) div 64"
    "use_cnt p = int (card (used_slots (ps div line) (free_map p)))"
    "\<And>i. ps div line \<le> i \<Longrightarrow> i < 64 * length (free_map p) \<Longrightarrow> record_free (free_map p) i"
  using assms by (auto simp: page_ok_def)

lemma slot_word_in:
  assumes "page_ok ps line p" "i < ps div line"
  shows "i div 64 < length (free_map p)"
  using assms(2) page_okD(5) [OF assms(1)] by linarith

lemma record_free_update:
  assumes "w < length fr"
  shows "record_free (fr[w := x]) i = (if i div 64 = w then bit x (i mod 64) else record_free fr i)"
  using assms by (simp add: record_free_def)

lemma slot_index:
  assumes "j < 64"
  shows "(w * 64 + j) div 64 = w" "(w * 64 + j) mod 64 = (j::nat)"
  using assms by simp_all

lemma clear_slot:
  assumes "w < length fr" "j < 64" "i div 64 < length fr"
  shows "record_free (fr[w := fr ! w AND NOT (push_bit j 1)]) i \<longleftrightarrow> record_free fr i \<and> i \<noteq> w * 64 + j"
proof -
  have "i = w * 64 + j \<longleftrightarrow> i div 64 = w \<and> i mod 64 = j"
    using slot_index [OF assms(2)] by (metis div_mult_mod_eq)
  moreover have "bit (x AND NOT (push_bit j 1)) m \<longleftrightarrow> bit x m \<and> m \<noteq> j" if "m < 64" for x :: u64 and m
    using that by (auto simp: bit_simps simp del: push_bit_of_1)
  ultimately show ?thesis
    unfolding record_free_update [OF assms(1)] by (auto simp: record_free_def simp del: push_bit_of_1)
qed

lemma set_slot:
  assumes "k div 64 < length fr" "i div 64 < length fr"
  shows "record_free (fr[k div 64 := fr ! (k div 64) OR push_bit (k mod 64) 1]) i \<longleftrightarrow>
    record_free fr i \<or> i = k"
proof -
  have "i = k \<longleftrightarrow> i div 64 = k div 64 \<and> i mod 64 = k mod 64"
    by (metis div_mult_mod_eq)
  moreover have "bit (x OR push_bit (k mod 64) 1) m \<longleftrightarrow> bit x m \<or> m = k mod 64" if "m < 64" for x :: u64 and m
    using that by (auto simp: bit_simps simp del: push_bit_of_1)
  ultimately show ?thesis
    unfolding record_free_update [OF assms(1)] by (auto simp: record_free_def simp del: push_bit_of_1)
qed

lemma first_word_spec:
  assumes "k < length fr" "fr ! k \<noteq> 0" "i \<le> k"
  shows "\<exists>w. first_word fr i = Inr w \<and> i \<le> w \<and> w \<le> k \<and> fr ! w \<noteq> 0 \<and> (\<forall>v. i \<le> v \<longrightarrow> v < w \<longrightarrow> fr ! v = 0)"
  using assms
proof (induction fr i rule: first_word.induct)
  case (1 fr i)
  have read: "read_at fr i = Inr (fr ! i)" using 1(2,4) by simp
  show ?case
  proof (cases "fr ! i = 0")
    case False
    then show ?thesis using 1(4) read by (subst first_word.simps) auto
  next
    case True
    then have "i \<noteq> k" using 1(3) by auto
    then have "Suc i \<le> k" using 1(4) by simp
    from 1(1) [OF read True 1(2,3) this] obtain w where w: "first_word fr (Suc i) = Inr w"
      "Suc i \<le> w" "w \<le> k" "fr ! w \<noteq> 0" "\<forall>v. Suc i \<le> v \<longrightarrow> v < w \<longrightarrow> fr ! v = 0" by auto
    have "first_word fr i = Inr w" using True read w(1) by (subst first_word.simps) simp
    moreover have "\<forall>v. i \<le> v \<longrightarrow> v < w \<longrightarrow> fr ! v = 0"
      using w(5) True by (metis Suc_leI le_neq_implies_less)
    ultimately show ?thesis using w by (intro exI [of _ w]) auto
  qed
qed

text \<open>The lowest free slot of a page that is not full.\<close>

lemma lowest_free:
  assumes ok: "page_ok ps line p" and room: "use_cnt p < num_db p"
  shows "\<exists>w j. first_word (free_map p) 0 = Inr w \<and> w < length (free_map p) \<and>
    ffs (free_map p ! w) = Suc j \<and> j < 64 \<and> w * 64 + j < ps div line \<and> record_free (free_map p) (w * 64 + j)"
proof -
  let ?fr = "free_map p" and ?pp = "ps div line"
  have "card (used_slots ?pp ?fr) < ?pp" using room page_okD(4,6) [OF ok] by simp
  then have "used_slots ?pp ?fr \<noteq> {..<?pp}" by (metis card_lessThan less_irrefl)
  then obtain i where i: "i < ?pp" "record_free ?fr i" unfolding used_slots_def by blast
  have k: "i div 64 < length ?fr" by (rule slot_word_in [OF ok i(1)])
  have nz: "?fr ! (i div 64) \<noteq> 0" using i(2) by (metis bit_0_eq bot_apply bot_bool_def record_free_def)
  obtain w where w: "first_word ?fr 0 = Inr w" "w \<le> i div 64" "?fr ! w \<noteq> 0"
    using first_word_spec [OF k nz, of 0] by blast
  obtain j where j: "ffs (?fr ! w) = Suc j" using ffs_bit [OF w(3)] by blast
  note J = ffs_SucD [OF j]
  have j64: "j < 64" using J(1) by simp
  have "w * 64 + j \<le> i"
  proof (cases "w = i div 64")
    case True
    then have "\<not> i mod 64 < j" using J(3) [of "i mod 64"] i(2) by (auto simp: record_free_def)
    then show ?thesis using True by (metis add_le_cancel_left div_mult_mod_eq not_le)
  next
    case False
    then have "w < i div 64" using w(2) by simp
    then show ?thesis using j64 by linarith
  qed
  moreover have "record_free ?fr (w * 64 + j)"
    using J(2) slot_index [OF j64] by (simp add: record_free_def)
  ultimately have "w * 64 + j < ?pp \<and> record_free ?fr (w * 64 + j)" using i(1) by linarith
  moreover have "w < length ?fr" using w(2) k by linarith
  ultimately show ?thesis using w(1) j j64 by (intro exI [of _ w] exI [of _ j]) simp
qed

lemma claim_record_ok:
  assumes ok: "page_ok ps line p" and room: "use_cnt p < num_db p" and line: "0 < line"
  shows "\<exists>db p'. claim_record line p = Inr (db, p') \<and> page_ok ps line p' \<and> page_buf p' = page_buf p \<and>
    use_cnt p' = use_cnt p + 1 \<and> db \<notin> page_records ps line p \<and>
    page_records ps line p' = insert db (page_records ps line p)"
proof -
  let ?fr = "free_map p" and ?pp = "ps div line"
  obtain w j where w: "first_word ?fr 0 = Inr w" "w < length ?fr" "ffs (?fr ! w) = Suc j" "j < 64"
    "w * 64 + j < ?pp" "record_free ?fr (w * 64 + j)"
    using lowest_free [OF ok room] by blast
  let ?i = "w * 64 + j" and ?fr' = "?fr[w := ?fr ! w AND NOT (push_bit j 1)]"
  let ?p' = "p\<lparr>use_cnt := use_cnt p + 1, free_map := ?fr'\<rparr>"
  have run: "claim_record line p = Inr (page_buf p + ?i * line, ?p')"
    by (simp add: claim_record_def w del: push_bit_of_1)
  have used: "used_slots ?pp ?fr' = insert ?i (used_slots ?pp ?fr)"
    using clear_slot [OF w(2,4)] slot_word_in [OF ok] w(5) by (auto simp: used_slots_def)
  have new: "?i \<notin> used_slots ?pp ?fr" using w(6) by (simp add: used_slots_def)
  have tail: "record_free ?fr' i" if "?pp \<le> i" "i < 64 * length ?fr" for i
  proof -
    have "i div 64 < length ?fr" using that(2) by (simp add: less_mult_imp_div_less mult.commute)
    then show ?thesis using clear_slot [OF w(2,4)] page_okD(7) [OF ok that] that(1) w(5) by simp
  qed
  have "page_ok ps line ?p'"
    using ok used new tail by (simp add: page_ok_def del: push_bit_of_1)
  moreover have "page_buf p + ?i * line \<notin> page_records ps line p"
    using new line by (auto simp: page_records_def)
  moreover have "page_records ps line ?p' = insert (page_buf p + ?i * line) (page_records ps line p)"
    using used by (simp add: page_records_def del: push_bit_of_1)
  ultimately show ?thesis using run by (intro exI [of _ "page_buf p + ?i * line"] exI [of _ ?p']) (simp del: push_bit_of_1)
qed

lemma release_record_ok:
  assumes ok: "page_ok ps line p" and db: "db \<in> page_records ps line p" and line: "0 < line"
  shows "\<exists>r. release_record line db p = Inr r \<and>
    (case r of None \<Rightarrow> page_records ps line p = {db}
     | Some p' \<Rightarrow> page_ok ps line p' \<and> page_buf p' = page_buf p \<and> 0 < use_cnt p' \<and>
         page_records ps line p' = page_records ps line p - {db})"
proof -
  let ?fr = "free_map p" and ?pp = "ps div line"
  obtain i where i: "i \<in> used_slots ?pp ?fr" "db = page_buf p + i * line"
    using db by (auto simp: page_records_def)
  have ipp: "i < ?pp" using i(1) by (simp add: used_slots_def)
  have k: "i div 64 < length ?fr" by (rule slot_word_in [OF ok ipp])
  let ?fr' = "?fr[i div 64 := ?fr ! (i div 64) OR push_bit (i mod 64) 1]"
  let ?p' = "p\<lparr>use_cnt := use_cnt p - 1, free_map := ?fr'\<rparr>"
  have idx: "(db - page_buf p) div line = i" using i(2) line by simp
  have run: "release_record line db p = Inr (if use_cnt p - 1 = 0 then None else Some ?p')"
    unfolding release_record_def Let_def idx using k by (simp del: push_bit_of_1)
  have used: "used_slots ?pp ?fr' = used_slots ?pp ?fr - {i}"
    using set_slot [OF k] slot_word_in [OF ok] by (auto simp: used_slots_def)
  have card: "card (used_slots ?pp ?fr) = Suc (card (used_slots ?pp ?fr - {i}))"
    by (rule card.remove [OF finite_used i(1)])
  have inj: "inj (\<lambda>i. page_buf p + i * line)" using line by (auto intro: injI)
  have recs: "page_records ps line ?p' = page_records ps line p - {db}"
    using used by (simp add: page_records_def i(2) image_set_diff [OF inj] del: push_bit_of_1)
  show ?thesis
  proof (cases "use_cnt p - 1 = 0")
    case True
    then have "card (used_slots ?pp ?fr - {i}) = 0" using card page_okD(6) [OF ok] by simp
    then have "used_slots ?pp ?fr - {i} = {}"
      by (simp only: card_0_eq [OF finite_Diff [OF finite_used]])
    then have "used_slots ?pp ?fr = {i}" using i(1) by blast
    then have "page_records ps line p = {db}" by (simp add: page_records_def i(2))
    then show ?thesis using run True by simp
  next
    case False
    have tail: "record_free ?fr' m" if "?pp \<le> m" "m < 64 * length ?fr" for m
    proof -
      have "m div 64 < length ?fr" using that(2) by (simp add: less_mult_imp_div_less mult.commute)
      then show ?thesis using set_slot [OF k] page_okD(7) [OF ok that] by simp
    qed
    have "page_ok ps line ?p'" using ok used card tail by (simp add: page_ok_def del: push_bit_of_1)
    moreover have "0 < use_cnt ?p'"
    proof -
      have "use_cnt p - 1 = int (card (used_slots ?pp ?fr - {i}))" using card page_okD(6) [OF ok] by simp
      then show ?thesis using False by (simp del: push_bit_of_1 card_0_eq)
    qed
    ultimately show ?thesis using run False recs by (simp del: push_bit_of_1)
  qed
qed

section \<open>The list of pages\<close>

definition pages_ok :: "nat \<Rightarrow> nat \<Rightarrow> mlx5_db_page list \<Rightarrow> bool" where
  "pages_ok ps line pages \<longleftrightarrow> distinct (map page_buf pages) \<and>
     (\<forall>p \<in> set pages. page_ok ps line p \<and> 0 < use_cnt p)"

definition dbrec_ok :: "db_context \<Rightarrow> bool" where
  "dbrec_ok c \<longleftrightarrow> (\<exists>k<64. page_size c = 2 ^ k) \<and> 0 < cache_line_size c \<and>
     cache_line_size c \<le> page_size c \<and> pages_ok (page_size c) (cache_line_size c) (db_list c)"

text \<open>The records handed out.\<close>

definition records_of :: "nat \<Rightarrow> nat \<Rightarrow> mlx5_db_page list \<Rightarrow> nat set" where
  "records_of ps line pages = (\<Union>p \<in> set pages. page_records ps line p)"

definition live_records :: "db_context \<Rightarrow> nat set" where
  "live_records c = records_of (page_size c) (cache_line_size c) (db_list c)"

text \<open>A page the system gives is aligned, not null, inside the address space and not in use.\<close>

definition page_fresh :: "page_answer \<Rightarrow> db_context \<Rightarrow> bool" where
  "page_fresh e c \<longleftrightarrow> page_mem e \<noteq> 0 \<longrightarrow>
     page_size c dvd page_mem e \<and> page_mem e + page_size c \<le> 2 ^ 64 \<and>
     page_mem e \<notin> page_buf ` set (db_list c)"

lemma records_of_simps [simp]:
  "records_of ps line [] = {}"
  "records_of ps line (p # pages) = page_records ps line p \<union> records_of ps line pages"
  by (simp_all add: records_of_def)

lemma pages_ok_Nil [simp]: "pages_ok ps line []"
  by (simp add: pages_ok_def)

lemma pages_ok_Cons [simp]: "pages_ok ps line (p # pages) \<longleftrightarrow> page_ok ps line p \<and> 0 < use_cnt p \<and>
    page_buf p \<notin> page_buf ` set pages \<and> pages_ok ps line pages"
  by (auto simp: pages_ok_def)

lemma record_in_page:
  assumes "page_ok ps line p" "db \<in> page_records ps line p" "0 < line"
  shows "\<exists>off. db = page_buf p + off \<and> off < ps"
proof -
  obtain i where i: "db = page_buf p + i * line" "i < ps div line"
    using assms(2) by (auto simp: page_records_def used_slots_def)
  have "Suc i * line \<le> ps div line * line" using i(2) by (intro mult_le_mono1) simp
  also have "\<dots> \<le> ps" by (simp add: mult.commute)
  finally have "i * line < ps" using assms(3) by simp
  then show ?thesis using i(1) by auto
qed

text \<open>The page of a record is found from its address.\<close>

lemma record_page_base:
  assumes "page_ok ps line p" "db \<in> page_records ps line p" "0 < line" "ps = 2 ^ k" "k < 64"
  shows "page_base ps db = page_buf p"
proof -
  obtain off where off: "db = page_buf p + off" "off < ps" using record_in_page [OF assms(1-3)] by blast
  show ?thesis unfolding off(1)
    by (rule page_base_offset [OF assms(4,5) page_okD(1) [OF assms(1)] off(2) page_okD(3) [OF assms(1)]])
qed

lemma records_bases:
  assumes "pages_ok ps line pages" "db \<in> records_of ps line pages" "0 < line" "ps = 2 ^ k" "k < 64"
  shows "page_base ps db \<in> page_buf ` set pages"
proof -
  obtain p where p: "p \<in> set pages" "db \<in> page_records ps line p" "page_ok ps line p"
    using assms(1,2) by (auto simp: records_of_def pages_ok_def)
  show ?thesis using record_page_base [OF p(3,2) assms(3-5)] p(1) by simp
qed

text \<open>The records of a page are not records of the other pages.\<close>

lemma record_elsewhere:
  assumes "page_ok ps line p" "db \<in> page_records ps line p" "page_buf p \<notin> page_buf ` set pages"
    "pages_ok ps line pages" "0 < line" "ps = 2 ^ k" "k < 64"
  shows "db \<notin> records_of ps line pages"
  using record_page_base [OF assms(1,2,5-7)] records_bases [OF assms(4) _ assms(5-7), of db] assms(3) by metis

lemma claim_in_ok:
  assumes "pages_ok ps line pages" "0 < line" "ps = 2 ^ k" "k < 64"
  shows "\<exists>r. claim_in line pages = Inr r \<and>
    (case r of None \<Rightarrow> \<forall>p \<in> set pages. num_db p \<le> use_cnt p
     | Some (db, pages') \<Rightarrow> pages_ok ps line pages' \<and> page_buf ` set pages' = page_buf ` set pages \<and>
         db \<notin> records_of ps line pages \<and> records_of ps line pages' = insert db (records_of ps line pages))"
  using assms(1)
proof (induction pages)
  case Nil
  then show ?case by simp
next
  case (Cons p pages)
  have okp: "page_ok ps line p" and ok: "pages_ok ps line pages"
    and new: "page_buf p \<notin> page_buf ` set pages" using Cons.prems by simp_all
  show ?case
  proof (cases "use_cnt p < num_db p")
    case True
    obtain db p' where c: "claim_record line p = Inr (db, p')" "page_ok ps line p'" "page_buf p' = page_buf p"
      "use_cnt p' = use_cnt p + 1" "db \<notin> page_records ps line p"
      "page_records ps line p' = insert db (page_records ps line p)"
      using claim_record_ok [OF okp True assms(2)] by blast
    have "db \<notin> records_of ps line pages"
      by (rule record_elsewhere [OF c(2) _ _ ok assms(2-4)]) (simp_all add: c(3,6) new)
    then show ?thesis using True c Cons.prems by auto
  next
    case False
    obtain r where r: "claim_in line pages = Inr r"
      "case r of None \<Rightarrow> \<forall>p \<in> set pages. num_db p \<le> use_cnt p
     | Some (db, pages') \<Rightarrow> pages_ok ps line pages' \<and> page_buf ` set pages' = page_buf ` set pages \<and>
         db \<notin> records_of ps line pages \<and> records_of ps line pages' = insert db (records_of ps line pages)"
      using Cons.IH [OF ok] by blast
    show ?thesis
    proof (cases r)
      case None
      then show ?thesis using r False by simp
    next
      case (Some x)
      obtain db pages' where x: "x = (db, pages')" by (cases x)
      note R = r(2) [unfolded Some x, simplified]
      have "db \<notin> page_records ps line p"
        using record_elsewhere [OF okp _ _ _ assms(2-4), of db pages'] R new by auto
      then show ?thesis using r(1) False Some x R Cons.prems by auto
    qed
  qed
qed

lemma release_in_ok:
  assumes "pages_ok ps line pages" "db \<in> records_of ps line pages" "0 < line" "ps = 2 ^ k" "k < 64"
  shows "\<exists>pages'. release_in ps line db pages = Inr pages' \<and> pages_ok ps line pages' \<and>
    page_buf ` set pages' \<subseteq> page_buf ` set pages \<and>
    records_of ps line pages' = records_of ps line pages - {db}"
  using assms(1,2)
proof (induction pages)
  case Nil
  then show ?case by simp
next
  case (Cons p pages)
  have okp: "page_ok ps line p" and ok: "pages_ok ps line pages"
    and new: "page_buf p \<notin> page_buf ` set pages" using Cons.prems by simp_all
  show ?case
  proof (cases "db \<in> page_records ps line p")
    case True
    have base: "page_base ps db = page_buf p" by (rule record_page_base [OF okp True assms(3-5)])
    have other: "db \<notin> records_of ps line pages" by (rule record_elsewhere [OF okp True new ok assms(3-5)])
    obtain r where "release_record line db p = Inr r"
      "case r of None \<Rightarrow> page_records ps line p = {db}
       | Some p' \<Rightarrow> page_ok ps line p' \<and> page_buf p' = page_buf p \<and> 0 < use_cnt p' \<and>
           page_records ps line p' = page_records ps line p - {db}"
      using release_record_ok [OF okp True assms(3)] by blast
    then show ?thesis using base other Cons.prems by (cases r) auto
  next
    case False
    then have rest: "db \<in> records_of ps line pages" using Cons.prems(2) by simp
    have "page_base ps db \<noteq> page_buf p" using records_bases [OF ok rest assms(3-5)] new by auto
    moreover obtain pages' where "release_in ps line db pages = Inr pages'" "pages_ok ps line pages'"
      and sub: "page_buf ` set pages' \<subseteq> page_buf ` set pages"
      and "records_of ps line pages' = records_of ps line pages - {db}"
      using Cons.IH [OF ok rest] by blast
    moreover have "page_buf p \<notin> page_buf ` set pages'" using sub new by blast
    moreover have "page_buf ` set (p # pages') \<subseteq> page_buf ` set (p # pages)" using sub by auto
    ultimately show ?thesis using Cons.prems False
      by (intro exI [of _ "p # pages'"]) (simp add: Un_Diff)
  qed
qed

text \<open>A page just added has all its records free.\<close>

lemma add_page_ok:
  assumes "dbrec_ok c" "page_fresh e c" "add_page e c = (Some p, c')"
  shows "page_ok (page_size c) (cache_line_size c) p" "page_buf p \<notin> page_buf ` set (db_list c)"
    "use_cnt p < num_db p" "page_records (page_size c) (cache_line_size c) p = {}"
    "c' = c\<lparr>db_list := p # db_list c\<rparr>"
proof -
  let ?pp = "page_size c div cache_line_size c"
  have e: "page_mem e \<noteq> 0" and p: "p = \<lparr>page_buf = page_mem e, num_db = int ?pp, use_cnt = 0,
      free_map = replicate ((?pp + 63) div 64) (NOT 0)\<rparr>" and c': "c' = c\<lparr>db_list := p # db_list c\<rparr>"
    using assms(3) by (auto simp: add_page_def Let_def split: if_splits)
  have free: "record_free (free_map p) i" if "i < 64 * length (free_map p)" for i
  proof -
    have "i div 64 < length (free_map p)" using that by (simp add: less_mult_imp_div_less mult.commute)
    then show ?thesis by (simp add: p record_free_def)
  qed
  have "?pp \<le> 64 * length (free_map p)" by (simp add: p)
  then have none: "used_slots ?pp (free_map p) = {}" using free by (auto simp: used_slots_def)
  have "0 < ?pp" using assms(1) by (auto simp: dbrec_ok_def div_greater_zero_iff)
  then show "use_cnt p < num_db p" by (simp add: p)
  show "page_ok (page_size c) (cache_line_size c) p"
    using assms(2) e none free by (simp add: page_ok_def page_fresh_def) (simp add: p)
  show "page_buf p \<notin> page_buf ` set (db_list c)" using assms(2) e by (simp add: page_fresh_def p)
  show "page_records (page_size c) (cache_line_size c) p = {}" by (simp add: page_records_def none)
  show "c' = c\<lparr>db_list := p # db_list c\<rparr>" by (rule c')
qed

section \<open>The laws\<close>

lemma mlx5_alloc_dbrec_ok:
  assumes ok: "dbrec_ok c" and fresh: "page_fresh e c"
  shows "\<exists>r c'. mlx5_alloc_dbrec e c = Inr (r, c') \<and> dbrec_ok c' \<and>
    (case r of None \<Rightarrow> live_records c' = live_records c
     | Some db \<Rightarrow> db \<notin> live_records c \<and> live_records c' = insert db (live_records c))"
proof -
  let ?ps = "page_size c" and ?l = "cache_line_size c"
  obtain k where k: "?ps = 2 ^ k" "k < 64" using ok by (auto simp: dbrec_ok_def)
  have l: "0 < ?l" and pages: "pages_ok ?ps ?l (db_list c)" using ok by (auto simp: dbrec_ok_def)
  obtain r where r: "claim_in ?l (db_list c) = Inr r"
    "case r of None \<Rightarrow> \<forall>p \<in> set (db_list c). num_db p \<le> use_cnt p
     | Some (db, pages') \<Rightarrow> pages_ok ?ps ?l pages' \<and> page_buf ` set pages' = page_buf ` set (db_list c) \<and>
         db \<notin> records_of ?ps ?l (db_list c) \<and>
         records_of ?ps ?l pages' = insert db (records_of ?ps ?l (db_list c))"
    using claim_in_ok [OF pages l k] by blast
  show ?thesis
  proof (cases r)
    case (Some x)
    then show ?thesis using r ok
      by (cases x) (simp add: mlx5_alloc_dbrec_def dbrec_ok_def live_records_def)
  next
    case None
    show ?thesis
    proof (cases "add_page e c")
      case (Pair q c1)
      show ?thesis
      proof (cases q)
        case None
        moreover have "c1 = c" using Pair None by (auto simp: add_page_def Let_def split: if_splits)
        ultimately show ?thesis using r(1) \<open>r = None\<close> Pair ok by (simp add: mlx5_alloc_dbrec_def)
      next
        case (Some p)
        note A = add_page_ok [OF ok fresh, of p c1, unfolded Pair Some, simplified]
        obtain db p' where c: "claim_record ?l p = Inr (db, p')" "page_ok ?ps ?l p'" "page_buf p' = page_buf p"
          "use_cnt p' = use_cnt p + 1" "page_records ?ps ?l p' = insert db (page_records ?ps ?l p)"
          using claim_record_ok [OF A(1,3) l] by blast
        have "db \<notin> records_of ?ps ?l (db_list c)"
          by (rule record_elsewhere [OF c(2) _ _ pages l k]) (simp_all add: c(3,5) A(2))
        moreover have "0 < use_cnt p'" using c(4) page_okD(6) [OF A(1)] by simp
        ultimately show ?thesis
          using r(1) \<open>r = None\<close> Pair Some A c ok
          by (simp add: mlx5_alloc_dbrec_def dbrec_ok_def live_records_def)
      qed
    qed
  qed
qed

lemma mlx5_free_db_ok:
  assumes ok: "dbrec_ok c" and db: "db \<in> live_records c"
  shows "\<exists>c'. mlx5_free_db db c = Inr c' \<and> dbrec_ok c' \<and> live_records c' = live_records c - {db}"
proof -
  obtain k where k: "page_size c = 2 ^ k" "k < 64" using ok by (auto simp: dbrec_ok_def)
  have l: "0 < cache_line_size c" and pages: "pages_ok (page_size c) (cache_line_size c) (db_list c)"
    using ok by (auto simp: dbrec_ok_def)
  from release_in_ok [OF pages _ l k, of db] db obtain pages' where
    "release_in (page_size c) (cache_line_size c) db (db_list c) = Inr pages'"
    "pages_ok (page_size c) (cache_line_size c) pages'"
    "records_of (page_size c) (cache_line_size c) pages' =
       records_of (page_size c) (cache_line_size c) (db_list c) - {db}"
    by (auto simp: live_records_def)
  then show ?thesis using ok by (simp add: mlx5_free_db_def dbrec_ok_def live_records_def)
qed

interpretation dbrec: slot_pool dbrec_ok live_records mlx5_alloc_dbrec mlx5_free_db page_fresh
  by unfold_locales (fact mlx5_alloc_dbrec_ok, fact mlx5_free_db_ok)

text \<open>A record that lies on no page of the list is ignored.\<close>

lemma mlx5_free_db_unknown:
  assumes "page_base (page_size c) db \<notin> page_buf ` set (db_list c)"
  shows "mlx5_free_db db c = Inr c"
proof -
  have "release_in ps line db pages = Inr pages" if "page_base ps db \<notin> page_buf ` set pages" for ps line pages
    using that by (induction pages) auto
  then show ?thesis using assms by (simp add: mlx5_free_db_def)
qed

text \<open>Two records in use lie a cache line apart, on one page or on two.\<close>

lemma live_records_spaced:
  assumes ok: "dbrec_ok c" and a: "a \<in> live_records c" and b: "b \<in> live_records c" and ab: "a < b"
  shows "a + cache_line_size c \<le> b"
proof -
  let ?ps = "page_size c" and ?l = "cache_line_size c"
  have pages: "pages_ok ?ps ?l (db_list c)" using ok by (simp add: dbrec_ok_def)
  obtain p i where p: "p \<in> set (db_list c)" "a = page_buf p + i * ?l" "i < ?ps div ?l"
    using a by (auto simp: live_records_def records_of_def page_records_def used_slots_def)
  obtain q j where q: "q \<in> set (db_list c)" "b = page_buf q + j * ?l" "j < ?ps div ?l"
    using b by (auto simp: live_records_def records_of_def page_records_def used_slots_def)
  have room: "k * ?l + ?l \<le> ?ps" if "k < ?ps div ?l" for k
  proof -
    have "Suc k * ?l \<le> ?ps div ?l * ?l" by (rule mult_le_mono1) (use that in simp)
    also have "\<dots> \<le> ?ps" by (rule div_times_less_eq_dividend)
    finally show ?thesis by simp
  qed
  have al: "?ps dvd page_buf p" "?ps dvd page_buf q"
    using pages p(1) q(1) by (auto simp: pages_ok_def page_ok_def)
  show ?thesis
  proof (cases "page_buf p = page_buf q")
    case True
    then have "i * ?l < j * ?l" using ab p(2) q(2) by simp
    then have "Suc i \<le> j" by simp
    then have "Suc i * ?l \<le> j * ?l" by (rule mult_le_mono1)
    then show ?thesis using True p(2) q(2) by simp
  next
    case False
    obtain x y where xy: "page_buf p = ?ps * x" "page_buf q = ?ps * y" using al by (auto simp: dvd_def)
    have "x < y"
    proof (rule ccontr)
      assume "\<not> x < y"
      then have "Suc y \<le> x" using False xy by (cases "x = y") auto
      then have "?ps * Suc y \<le> ?ps * x" by (rule mult_le_mono2)
      then show False using ab p(2) q(2) xy room [OF q(3)] by simp
    qed
    then have "?ps * Suc x \<le> ?ps * y" by (intro mult_le_mono2) simp
    then show ?thesis using p(2) q(2) xy room [OF p(3)] by simp
  qed
qed

end
