(* ===== verification/Rsc_Table.thy ===== *)
theory Rsc_Table
  imports Driver_Base Pool_Spec
begin

text \<open>
  The driver's tables of objects: queue pairs by number (\<open>qp.c\<close>), shared receive queues by number
  (\<open>srq.c\<close>) and objects by user index (\<open>mlx5.c\<close>, \<open>mlx5.h\<close>). A table has 4096 sub-tables of 4096
  pointers, each allocated with its first entry and freed with its last. Arrays of fixed size are
  functions here, with every index checked; a sub-table that is not allocated, or was freed, is
  \<open>None\<close>. A pointer is a number, 0 for \<open>NULL\<close>.
\<close>

record rsc_subtable =
  sub_table :: "(nat \<Rightarrow> nat) option"
  refcnt :: int

type_synonym rsc_tables = "nat \<Rightarrow> rsc_subtable"

record mlx5_tables =
  rsc_table :: rsc_tables
  srq_table :: rsc_tables
  uidx_table :: rsc_tables

definition MLX5_QP_TABLE_SHIFT :: nat where "MLX5_QP_TABLE_SHIFT = 12"
definition MLX5_QP_TABLE_MASK :: u32 where "MLX5_QP_TABLE_MASK = 0xFFF"
definition MLX5_QP_TABLE_SIZE :: nat where "MLX5_QP_TABLE_SIZE = 4096"
definition MLX5_SRQ_TABLE_SHIFT :: nat where "MLX5_SRQ_TABLE_SHIFT = 12"
definition MLX5_SRQ_TABLE_MASK :: u32 where "MLX5_SRQ_TABLE_MASK = 0xFFF"

text \<open>The sub-table \<open>tind\<close>, and a pointer in an allocated one.\<close>

definition sub_at :: "rsc_tables \<Rightarrow> nat \<Rightarrow> rsc_subtable res" where
  "sub_at t i = (if i < MLX5_QP_TABLE_SIZE then Inr (t i) else Inl (Fault OutOfBounds))"

definition slot_at :: "rsc_subtable \<Rightarrow> nat \<Rightarrow> nat res" where
  "slot_at s j = bindR (of_option (Fault UseAfterFree) (sub_table s)) (\<lambda>f.
     if j < 4096 then Inr (f j) else Inl (Fault OutOfBounds))"

definition set_slot_at :: "rsc_subtable \<Rightarrow> nat \<Rightarrow> nat \<Rightarrow> rsc_subtable res" where
  "set_slot_at s j v = bindR (of_option (Fault UseAfterFree) (sub_table s)) (\<lambda>f.
     if j < 4096 then Inr (s\<lparr>sub_table := Some (f(j := v))\<rparr>) else Inl (Fault OutOfBounds))"

text \<open>
  The three bodies the tables share; \<open>got\<close> says whether \<open>calloc\<close> had memory. \<open>i\<close> and \<open>j\<close> are the
  index of the sub-table and the index in it.
\<close>

definition table_find :: "rsc_tables \<Rightarrow> nat \<Rightarrow> nat \<Rightarrow> nat res" where
  "table_find t i j = bindR (sub_at t i) (\<lambda>s. if refcnt s \<noteq> 0 then slot_at s j else Inr 0)"

definition table_store :: "bool \<Rightarrow> rsc_tables \<Rightarrow> nat \<Rightarrow> nat \<Rightarrow> nat \<Rightarrow> (bool \<times> rsc_tables) res" where
  "table_store got t i j v =
     bindR (sub_at t i) (\<lambda>s.
       if refcnt s = 0 \<and> \<not> got then Inr (False, t(i := s\<lparr>sub_table := None\<rparr>))
       else let s = (if refcnt s = 0 then s\<lparr>sub_table := Some (\<lambda>_. 0)\<rparr> else s) in
            bindR (set_slot_at (s\<lparr>refcnt := refcnt s + 1\<rparr>) j v) (\<lambda>s. Inr (True, t(i := s))))"

definition table_clear :: "rsc_tables \<Rightarrow> nat \<Rightarrow> nat \<Rightarrow> rsc_tables res" where
  "table_clear t i j =
     bindR (sub_at t i) (\<lambda>s.
       let s = s\<lparr>refcnt := refcnt s - 1\<rparr> in
       if refcnt s = 0 then Inr (t(i := s\<lparr>sub_table := None\<rparr>))
       else bindR (set_slot_at s j 0) (\<lambda>s. Inr (t(i := s))))"

definition qp_tind :: "u32 \<Rightarrow> nat" where
  "qp_tind n = unat (drop_bit MLX5_QP_TABLE_SHIFT n)"

definition qp_slot :: "u32 \<Rightarrow> nat" where
  "qp_slot n = unat (n AND MLX5_QP_TABLE_MASK)"

definition srq_tind :: "u32 \<Rightarrow> nat" where
  "srq_tind n = unat (drop_bit MLX5_SRQ_TABLE_SHIFT n)"

definition srq_slot :: "u32 \<Rightarrow> nat" where
  "srq_slot n = unat (n AND MLX5_SRQ_TABLE_MASK)"

section \<open>Queue pairs\<close>

definition mlx5_find_rsc :: "mlx5_tables \<Rightarrow> u32 \<Rightarrow> nat res" where
  "mlx5_find_rsc ctx rsn = table_find (rsc_table ctx) (qp_tind rsn) (qp_slot rsn)"

definition mlx5_store_rsc :: "bool \<Rightarrow> mlx5_tables \<Rightarrow> u32 \<Rightarrow> nat \<Rightarrow> (int \<times> mlx5_tables) res" where
  "mlx5_store_rsc got ctx rsn rsc =
     bindR (table_store got (rsc_table ctx) (qp_tind rsn) (qp_slot rsn) rsc) (\<lambda>(b, t).
       Inr (if b then 0 else -1, ctx\<lparr>rsc_table := t\<rparr>))"

definition mlx5_clear_rsc :: "mlx5_tables \<Rightarrow> u32 \<Rightarrow> mlx5_tables res" where
  "mlx5_clear_rsc ctx rsn =
     bindR (table_clear (rsc_table ctx) (qp_tind rsn) (qp_slot rsn)) (\<lambda>t. Inr (ctx\<lparr>rsc_table := t\<rparr>))"

section \<open>Shared receive queues\<close>

text \<open>As in the code, the store masks with the constant of the queue pairs, the clear shifts by it.\<close>

definition mlx5_find_srq :: "mlx5_tables \<Rightarrow> u32 \<Rightarrow> nat res" where
  "mlx5_find_srq ctx srqn = table_find (srq_table ctx) (srq_tind srqn) (srq_slot srqn)"

definition mlx5_store_srq :: "bool \<Rightarrow> mlx5_tables \<Rightarrow> u32 \<Rightarrow> nat \<Rightarrow> (int \<times> mlx5_tables) res" where
  "mlx5_store_srq got ctx srqn srq =
     bindR (table_store got (srq_table ctx) (srq_tind srqn) (qp_slot srqn) srq) (\<lambda>(b, t).
       Inr (if b then 0 else -1, ctx\<lparr>srq_table := t\<rparr>))"

definition mlx5_clear_srq :: "mlx5_tables \<Rightarrow> u32 \<Rightarrow> mlx5_tables res" where
  "mlx5_clear_srq ctx srqn =
     bindR (table_clear (srq_table ctx) (qp_tind srqn) (srq_slot srqn)) (\<lambda>t. Inr (ctx\<lparr>srq_table := t\<rparr>))"

section \<open>User indices\<close>

definition mlx5_find_uidx :: "mlx5_tables \<Rightarrow> u32 \<Rightarrow> nat res" where
  "mlx5_find_uidx ctx uidx = table_find (uidx_table ctx) (qp_tind uidx) (qp_slot uidx)"

text \<open>The two loops: the first sub-table with room, and its first empty slot, 4096 when there is none.\<close>

definition first_below :: "(nat \<Rightarrow> bool) \<Rightarrow> nat \<Rightarrow> nat" where
  "first_below p n = (case find p [0..<n] of None \<Rightarrow> n | Some i \<Rightarrow> i)"

definition get_free_uidx :: "mlx5_tables \<Rightarrow> int res" where
  "get_free_uidx ctx =
     (let t = uidx_table ctx;
          tind = first_below (\<lambda>i. refcnt (t i) < uint MLX5_QP_TABLE_MASK) MLX5_QP_TABLE_SIZE in
      if tind = MLX5_QP_TABLE_SIZE then Inr (-1)
      else if refcnt (t tind) = 0 then Inr (int (push_bit MLX5_QP_TABLE_SHIFT tind))
      else bindR (of_option (Fault UseAfterFree) (sub_table (t tind))) (\<lambda>f.
             let i = first_below (\<lambda>i. f i = 0) (unat MLX5_QP_TABLE_MASK + 1) in
             Inr (int (push_bit MLX5_QP_TABLE_SHIFT tind OR i))))"

definition mlx5_store_uidx :: "bool \<Rightarrow> mlx5_tables \<Rightarrow> nat \<Rightarrow> (u32 \<times> mlx5_tables) res" where
  "mlx5_store_uidx got ctx rsc =
     bindR (get_free_uidx ctx) (\<lambda>uidx.
       if uidx < 0 then Inr (-1, ctx)
       else bindR (table_store got (uidx_table ctx) (qp_tind (of_int uidx)) (qp_slot (of_int uidx)) rsc) (\<lambda>(b, t).
              Inr (if b then of_int uidx else -1, ctx\<lparr>uidx_table := t\<rparr>)))"

definition mlx5_clear_uidx :: "mlx5_tables \<Rightarrow> u32 \<Rightarrow> mlx5_tables res" where
  "mlx5_clear_uidx ctx uidx =
     bindR (table_clear (uidx_table ctx) (qp_tind uidx) (qp_slot uidx)) (\<lambda>t. Inr (ctx\<lparr>uidx_table := t\<rparr>))"

section \<open>The table as a map\<close>

text \<open>A sub-table counts its entries, and is allocated while it has some.\<close>

definition sub_ok :: "rsc_subtable \<Rightarrow> bool" where
  "sub_ok s \<longleftrightarrow> (case sub_table s of None \<Rightarrow> refcnt s = 0
     | Some f \<Rightarrow> 0 < refcnt s \<and> refcnt s = int (card {j. j < 4096 \<and> f j \<noteq> 0}))"

definition tables_ok :: "rsc_tables \<Rightarrow> bool" where
  "tables_ok t \<longleftrightarrow> (\<forall>i < MLX5_QP_TABLE_SIZE. sub_ok (t i))"

definition entry :: "rsc_tables \<Rightarrow> nat \<Rightarrow> nat \<Rightarrow> nat" where
  "entry t i j = (case sub_table (t i) of None \<Rightarrow> 0 | Some f \<Rightarrow> f j)"

definition number_ok :: "u32 \<Rightarrow> bool" where
  "number_ok n \<longleftrightarrow> n < 0x1000000"

definition table_map :: "rsc_tables \<Rightarrow> u32 \<rightharpoonup> nat" where
  "table_map t n = (let v = entry t (qp_tind n) (qp_slot n) in
     if number_ok n \<and> v \<noteq> 0 then Some v else None)"

definition as_pointer :: "nat \<Rightarrow> nat option" where
  "as_pointer p = (if p = 0 then None else Some p)"

lemma tind_slot:
  "qp_tind n = unat n div 4096" "qp_slot n = unat n mod 4096"
  "srq_tind n = unat n div 4096" "srq_slot n = unat n mod 4096"
proof -
  have m: "(0xFFF :: u32) = mask 12" by (simp add: mask_eq_exp_minus_1)
  show "qp_tind n = unat n div 4096" "srq_tind n = unat n div 4096"
    by (simp_all add: qp_tind_def srq_tind_def MLX5_QP_TABLE_SHIFT_def MLX5_SRQ_TABLE_SHIFT_def
        drop_bit_eq_div unat_div)
  show "qp_slot n = unat n mod 4096" "srq_slot n = unat n mod 4096"
    unfolding qp_slot_def srq_slot_def MLX5_QP_TABLE_MASK_def MLX5_SRQ_TABLE_MASK_def m
    by (simp_all add: unat_and_mask)
qed

lemma slot_below [simp]: "qp_slot n < 4096" "srq_slot n < 4096"
  by (simp_all add: tind_slot)

lemma tind_below: "number_ok n \<Longrightarrow> qp_tind n < MLX5_QP_TABLE_SIZE"
  by (simp add: tind_slot number_ok_def MLX5_QP_TABLE_SIZE_def word_less_nat_alt)

lemma same_number: "qp_tind n = qp_tind m \<Longrightarrow> qp_slot n = qp_slot m \<Longrightarrow> n = m"
  unfolding tind_slot by (metis div_mult_mod_eq word_unat_eq_iff)

lemma srq_as_qp: "srq_tind n = qp_tind n" "srq_slot n = qp_slot n"
  by (simp_all add: tind_slot)

lemma tables_ok_upd: "tables_ok t \<Longrightarrow> sub_ok s \<Longrightarrow> tables_ok (t(i := s))"
  by (simp add: tables_ok_def)

lemma entry_upd:
  "entry (t(i := s)) k l = (if k = i then (case sub_table s of None \<Rightarrow> 0 | Some f \<Rightarrow> f l) else entry t k l)"
  by (simp add: entry_def)

lemma table_find_ok:
  assumes "tables_ok t" "i < MLX5_QP_TABLE_SIZE" "j < 4096"
  shows "table_find t i j = Inr (entry t i j)"
  using assms by (cases "sub_table (t i)")
    (auto simp: table_find_def sub_at_def slot_at_def entry_def tables_ok_def sub_ok_def)

lemma card_fun_upd:
  assumes "j < 4096" "v \<noteq> (0::nat)" "f j = 0"
  shows "card {k. k < (4096::nat) \<and> (f(j := v)) k \<noteq> 0} = Suc (card {k. k < 4096 \<and> f k \<noteq> 0})"
proof -
  have "{k. k < (4096::nat) \<and> (f(j := v)) k \<noteq> 0} = insert j {k. k < 4096 \<and> f k \<noteq> 0}"
    using assms by auto
  then show ?thesis using assms(3) by simp
qed

lemma table_store_ok:
  assumes ok: "tables_ok t" and i: "i < MLX5_QP_TABLE_SIZE" and j: "j < 4096"
    and v: "v \<noteq> 0" and empty: "entry t i j = 0"
  shows "\<exists>b t'. table_store got t i j v = Inr (b, t') \<and> tables_ok t' \<and> (got \<longrightarrow> b) \<and>
    (\<forall>k l. entry t' k l = (if b \<and> k = i \<and> l = j then v else entry t k l))"
proof (cases "sub_table (t i)")
  case None
  then have r0: "refcnt (t i) = 0" using ok i by (auto simp: tables_ok_def sub_ok_def)
  show ?thesis
  proof (cases got)
    case False
    let ?s = "t i\<lparr>sub_table := None\<rparr>"
    have "table_store got t i j v = Inr (False, t(i := ?s))"
      using False r0 i by (simp add: table_store_def sub_at_def)
    moreover have "sub_ok ?s" using r0 by (simp add: sub_ok_def)
    ultimately show ?thesis using tables_ok_upd [OF ok] None False
      by (intro exI [of _ False] exI [of _ "t(i := ?s)"]) (simp add: entry_upd entry_def)
  next
    case True
    let ?s = "t i\<lparr>refcnt := 1, sub_table := Some ((\<lambda>_. 0)(j := v))\<rparr>"
    have "table_store got t i j v = Inr (True, t(i := ?s))"
      using True r0 i j by (simp add: table_store_def sub_at_def set_slot_at_def)
    moreover have "card {k. k < (4096::nat) \<and> ((\<lambda>_. 0)(j := v)) k \<noteq> 0} = 1"
      using card_fun_upd [OF j v, of "\<lambda>_. 0"] by simp
    then have "sub_ok ?s" by (simp add: sub_ok_def)
    ultimately show ?thesis using tables_ok_upd [OF ok] None
      by (intro exI [of _ True] exI [of _ "t(i := ?s)"]) (simp add: entry_upd entry_def)
  qed
next
  case (Some f)
  then have r: "refcnt (t i) \<noteq> 0" "refcnt (t i) = int (card {k. k < 4096 \<and> f k \<noteq> 0})"
    using ok i by (auto simp: tables_ok_def sub_ok_def)
  have "f j = 0" using empty Some by (simp add: entry_def)
  note c = card_fun_upd [where f = f, OF j v this]
  let ?s = "t i\<lparr>refcnt := refcnt (t i) + 1, sub_table := Some (f(j := v))\<rparr>"
  have "table_store got t i j v = Inr (True, t(i := ?s))"
    using Some r(1) i j by (simp add: table_store_def sub_at_def set_slot_at_def Let_def)
  moreover have "sub_ok ?s" using c r(2) by (simp add: sub_ok_def)
  then have "tables_ok (t(i := ?s))" by (rule tables_ok_upd [OF ok])
  moreover have "\<forall>k l. entry (t(i := ?s)) k l = (if k = i \<and> l = j then v else entry t k l)"
    using Some by (simp add: entry_upd entry_def)
  ultimately show ?thesis by auto
qed

lemma table_clear_ok:
  assumes ok: "tables_ok t" and i: "i < MLX5_QP_TABLE_SIZE" and j: "j < 4096" and used: "entry t i j \<noteq> 0"
  shows "\<exists>t'. table_clear t i j = Inr t' \<and> tables_ok t' \<and>
    (\<forall>k l. l < 4096 \<longrightarrow> entry t' k l = (if k = i \<and> l = j then 0 else entry t k l))"
proof -
  obtain f where f: "sub_table (t i) = Some f" "f j \<noteq> 0"
    using used by (auto simp: entry_def split: option.splits)
  have r: "refcnt (t i) = int (card {k. k < 4096 \<and> f k \<noteq> 0})"
    using ok i f(1) by (auto simp: tables_ok_def sub_ok_def)
  have "{k. k < 4096 \<and> f k \<noteq> 0} = insert j {k. k < 4096 \<and> (f(j := 0)) k \<noteq> 0}"
    using j f(2) by auto
  then have c: "refcnt (t i) - 1 = int (card {k. k < 4096 \<and> (f(j := 0)) k \<noteq> 0})" (is "_ = int (card ?R)")
    using r by simp
  show ?thesis
  proof (cases "refcnt (t i) - 1 = 0")
    case True
    then have "?R = {}" using c by simp
    then have "f l = 0" if "l < 4096" "l \<noteq> j" for l using that by (auto split: if_splits)
    moreover have "table_clear t i j = Inr (t(i := t i\<lparr>refcnt := 0, sub_table := None\<rparr>))"
      using True i by (simp add: table_clear_def sub_at_def)
    moreover have "sub_ok (t i\<lparr>refcnt := 0, sub_table := None\<rparr>)" by (simp add: sub_ok_def)
    ultimately show ?thesis using tables_ok_upd [OF ok] f(1)
      by (intro exI [of _ "t(i := t i\<lparr>refcnt := 0, sub_table := None\<rparr>)"]) (simp add: entry_upd entry_def)
  next
    case False
    let ?s = "t i\<lparr>refcnt := refcnt (t i) - 1, sub_table := Some (f(j := 0))\<rparr>"
    have "table_clear t i j = Inr (t(i := ?s))"
      using False i j f(1) by (simp add: table_clear_def sub_at_def set_slot_at_def)
    moreover have "0 < refcnt (t i) - 1" using False c by linarith
    then have "sub_ok ?s" using c by (simp add: sub_ok_def del: fun_upd_apply)
    ultimately show ?thesis using tables_ok_upd [OF ok] f(1)
      by (intro exI [of _ "t(i := ?s)"]) (simp add: entry_upd entry_def)
  qed
qed

lemma table_map_upd:
  assumes "\<forall>k l. l < 4096 \<longrightarrow> entry t' k l = (if k = qp_tind n \<and> l = qp_slot n then v else entry t k l)"
    and "number_ok n"
  shows "table_map t' = (table_map t)(n := as_pointer v)"
proof
  fix m
  show "table_map t' m = ((table_map t)(n := as_pointer v)) m"
    using assms same_number [of m n] by (auto simp: table_map_def as_pointer_def Let_def)
qed

lemma table_map_same:
  assumes "\<forall>k l. l < 4096 \<longrightarrow> entry t' k l = entry t k l"
  shows "table_map t' = table_map t"
  using assms by (auto simp: table_map_def Let_def)

lemma table_map_None: "number_ok n \<Longrightarrow> table_map t n = None \<longleftrightarrow> entry t (qp_tind n) (qp_slot n) = 0"
  by (simp add: table_map_def Let_def)

lemma find_number:
  assumes "tables_ok t" "number_ok n"
  shows "table_find t (qp_tind n) (qp_slot n) = Inr (entry t (qp_tind n) (qp_slot n)) \<and>
    as_pointer (entry t (qp_tind n) (qp_slot n)) = table_map t n"
  using table_find_ok [OF assms(1) tind_below [OF assms(2)] slot_below(1)] assms(2)
  by (simp add: table_map_def as_pointer_def Let_def)

lemma store_number:
  assumes "tables_ok t" "number_ok n" "v \<noteq> 0" "table_map t n = None"
  shows "\<exists>b t'. table_store got t (qp_tind n) (qp_slot n) v = Inr (b, t') \<and> tables_ok t' \<and> (got \<longrightarrow> b) \<and>
    table_map t' = (if b then (table_map t)(n \<mapsto> v) else table_map t)"
proof -
  have "entry t (qp_tind n) (qp_slot n) = 0" using assms(2,4) by (simp add: table_map_None)
  from table_store_ok [OF assms(1) tind_below [OF assms(2)] slot_below(1) assms(3) this, of got]
  obtain b t' where t': "table_store got t (qp_tind n) (qp_slot n) v = Inr (b, t')" "tables_ok t'"
    "got \<longrightarrow> b" "\<forall>k l. entry t' k l = (if b \<and> k = qp_tind n \<and> l = qp_slot n then v else entry t k l)"
    by blast
  have "table_map t' = (if b then (table_map t)(n \<mapsto> v) else table_map t)"
    using t'(4) table_map_upd [of t' n v t] table_map_same [of t' t] assms(2,3)
    by (cases b) (simp_all add: as_pointer_def)
  then show ?thesis using t'(1-3) by blast
qed

lemma clear_number:
  assumes "tables_ok t" "number_ok n" "table_map t n \<noteq> None"
  shows "\<exists>t'. table_clear t (qp_tind n) (qp_slot n) = Inr t' \<and> tables_ok t' \<and>
    table_map t' = (table_map t)(n := None)"
proof -
  have "entry t (qp_tind n) (qp_slot n) \<noteq> 0" using assms(2,3) by (simp add: table_map_None)
  from table_clear_ok [OF assms(1) tind_below [OF assms(2)] slot_below(1) this]
  obtain t' where t': "table_clear t (qp_tind n) (qp_slot n) = Inr t'" "tables_ok t'"
    "\<forall>k l. l < 4096 \<longrightarrow> entry t' k l = (if k = qp_tind n \<and> l = qp_slot n then 0 else entry t k l)"
    by blast
  have "table_map t' = (table_map t)(n := None)"
    using table_map_upd [OF t'(3) assms(2)] by (simp add: as_pointer_def)
  then show ?thesis using t'(1,2) by blast
qed

section \<open>Resources and shared receive queues by number\<close>

text \<open>The calls of a client that has the memory it asks for.\<close>

definition rsc_look :: "mlx5_tables \<Rightarrow> u32 \<Rightarrow> nat option res" where
  "rsc_look c n = bindR (mlx5_find_rsc c n) (\<lambda>p. Inr (as_pointer p))"

definition rsc_put :: "u32 \<Rightarrow> nat \<Rightarrow> mlx5_tables \<Rightarrow> mlx5_tables res" where
  "rsc_put n p c = bindR (mlx5_store_rsc True c n p) (\<lambda>(r, c). Inr c)"

definition rsc_drop :: "u32 \<Rightarrow> mlx5_tables \<Rightarrow> mlx5_tables res" where
  "rsc_drop n c = mlx5_clear_rsc c n"

definition srq_look :: "mlx5_tables \<Rightarrow> u32 \<Rightarrow> nat option res" where
  "srq_look c n = bindR (mlx5_find_srq c n) (\<lambda>p. Inr (as_pointer p))"

definition srq_put :: "u32 \<Rightarrow> nat \<Rightarrow> mlx5_tables \<Rightarrow> mlx5_tables res" where
  "srq_put n p c = bindR (mlx5_store_srq True c n p) (\<lambda>(r, c). Inr c)"

definition srq_drop :: "u32 \<Rightarrow> mlx5_tables \<Rightarrow> mlx5_tables res" where
  "srq_drop n c = mlx5_clear_srq c n"

interpretation rsc: handle_table "\<lambda>c. tables_ok (rsc_table c)" number_ok "\<lambda>p. p \<noteq> 0"
  "\<lambda>c. table_map (rsc_table c)" rsc_look rsc_put rsc_drop
proof (unfold_locales, goal_cases)
  case (1 c n)
  then show ?case using find_number [OF 1] by (simp add: rsc_look_def mlx5_find_rsc_def)
next
  case (2 c n p)
  then show ?case using store_number [of "rsc_table c" n p True]
    by (auto simp: rsc_put_def mlx5_store_rsc_def)
next
  case (3 c n)
  then show ?case using clear_number [OF 3] by (auto simp: rsc_drop_def mlx5_clear_rsc_def)
qed

interpretation srq: handle_table "\<lambda>c. tables_ok (srq_table c)" number_ok "\<lambda>p. p \<noteq> 0"
  "\<lambda>c. table_map (srq_table c)" srq_look srq_put srq_drop
proof (unfold_locales, goal_cases)
  case (1 c n)
  then show ?case using find_number [OF 1] by (simp add: srq_look_def mlx5_find_srq_def srq_as_qp)
next
  case (2 c n p)
  then show ?case using store_number [of "srq_table c" n p True]
    by (auto simp: srq_put_def mlx5_store_srq_def srq_as_qp)
next
  case (3 c n)
  then show ?case using clear_number [OF 3] by (auto simp: srq_drop_def mlx5_clear_srq_def srq_as_qp)
qed

text \<open>Without memory a store fails, or succeeds in a sub-table that has entries; no entry changes else.\<close>

lemma mlx5_store_rsc_result:
  assumes "tables_ok (rsc_table c)" "number_ok n" "p \<noteq> 0" "table_map (rsc_table c) n = None"
  shows "\<exists>r c'. mlx5_store_rsc got c n p = Inr (r, c') \<and> tables_ok (rsc_table c') \<and>
    srq_table c' = srq_table c \<and> uidx_table c' = uidx_table c \<and> (got \<longrightarrow> r = 0) \<and>
    (r = 0 \<and> table_map (rsc_table c') = (table_map (rsc_table c))(n \<mapsto> p) \<or>
     r = -1 \<and> table_map (rsc_table c') = table_map (rsc_table c))"
  using store_number [OF assms, of got] by (auto simp: mlx5_store_rsc_def)

section \<open>User indices are handed out as from a pool\<close>

lemma first_below_cases:
  "(first_below p n = n \<and> (\<forall>i<n. \<not> p i)) \<or> (first_below p n < n \<and> p (first_below p n))"
proof (cases "find p [0..<n]")
  case None
  then have "\<forall>i \<in> set [0..<n]. \<not> p i" by (simp only: find_None_iff) blast
  then show ?thesis using None by (simp add: first_below_def)
next
  case (Some i)
  then have "i < n \<and> p i" by (auto simp: find_Some_iff)
  then show ?thesis using Some by (simp add: first_below_def)
qed

lemma first_below_less: "first_below p n < n \<longleftrightarrow> (\<exists>i<n. p i)"
  using first_below_cases [of p n] by auto

lemma first_below_holds: "first_below p n < n \<Longrightarrow> p (first_below p n)"
  using first_below_cases [of p n] by auto

lemma first_below_le: "first_below p n \<le> n"
  using first_below_cases [of p n] by auto

lemma push_or:
  assumes "i < 4096"
  shows "push_bit 12 a OR i = a * 4096 + (i::nat)"
proof -
  have "push_bit 12 a AND i = 0"
  proof (rule bit_eqI)
    fix k
    have "\<not> bit i k" if "12 \<le> k"
    proof -
      have "i < 2 ^ k" using assms that power_increasing [of 12 k "2::nat"] by simp
      then show ?thesis by (simp add: bit_iff_odd)
    qed
    then show "bit (push_bit 12 a AND i) k \<longleftrightarrow> bit (0::nat) k" by (auto simp: bit_simps)
  qed
  then have "push_bit 12 a OR i = push_bit 12 a + i"
    by (metis add.right_neutral disjunctive_add bit_and_iff bit_0_eq bot_apply bot_bool_def)
  then show ?thesis by (simp add: push_bit_eq_mult)
qed

text \<open>The index found is free; none is found exactly when every sub-table holds 4095 entries or more.\<close>

lemma get_free_uidx_ok:
  assumes ok: "tables_ok (uidx_table c)"
  shows "\<exists>u. get_free_uidx c = Inr u \<and>
    (u = -1 \<and> (\<forall>i < MLX5_QP_TABLE_SIZE. 4095 \<le> refcnt (uidx_table c i)) \<or>
     (\<exists>n < 2 ^ 24. u = int n \<and> entry (uidx_table c) (n div 4096) (n mod 4096) = 0))"
proof -
  let ?t = "uidx_table c"
  let ?P = "\<lambda>i. refcnt (?t i) < uint MLX5_QP_TABLE_MASK"
  let ?i = "first_below ?P MLX5_QP_TABLE_SIZE"
  have mask: "uint MLX5_QP_TABLE_MASK = 4095" "unat MLX5_QP_TABLE_MASK + 1 = 4096"
    by (simp_all add: MLX5_QP_TABLE_MASK_def)
  show ?thesis
  proof (cases "?i = MLX5_QP_TABLE_SIZE")
    case True
    then have "\<not> (\<exists>i<MLX5_QP_TABLE_SIZE. ?P i)"
      using first_below_less [of ?P MLX5_QP_TABLE_SIZE] by simp
    then have "\<forall>i < MLX5_QP_TABLE_SIZE. 4095 \<le> refcnt (?t i)" by (metis mask(1) not_less)
    moreover have "get_free_uidx c = Inr (-1)" using True by (simp add: get_free_uidx_def Let_def)
    ultimately show ?thesis by blast
  next
    case False
    then have i: "?i < MLX5_QP_TABLE_SIZE" using first_below_le [of ?P MLX5_QP_TABLE_SIZE] by simp
    then have low: "refcnt (?t ?i) < 4095" using first_below_holds [OF i] by (simp only: mask)
    have i4: "?i < 4096" using i by (simp add: MLX5_QP_TABLE_SIZE_def)
    show ?thesis
    proof (cases "sub_table (?t ?i)")
      case None
      then have "refcnt (?t ?i) = 0" using ok i by (auto simp: tables_ok_def sub_ok_def)
      then have "get_free_uidx c = Inr (int (?i * 4096))"
        using False by (simp add: get_free_uidx_def Let_def MLX5_QP_TABLE_SHIFT_def push_bit_eq_mult)
      moreover have "?i * 4096 < 2 ^ 24" using i4 by simp
      moreover have "entry ?t (?i * 4096 div 4096) (?i * 4096 mod 4096) = 0" using None by (simp add: entry_def)
      ultimately show ?thesis by blast
    next
      case (Some f)
      have r: "0 < refcnt (?t ?i)" "refcnt (?t ?i) = int (card {j. j < 4096 \<and> f j \<noteq> 0})"
        using ok i Some by (auto simp: tables_ok_def sub_ok_def)
      have "\<exists>j<4096. f j = 0"
      proof (rule ccontr)
        assume "\<not> ?thesis"
        then have "{j. j < 4096 \<and> f j \<noteq> 0} = {..<4096}" by auto
        then show False using r(2) low by simp
      qed
      then have j: "first_below (\<lambda>j. f j = 0) 4096 < 4096" by (simp add: first_below_less)
      let ?j = "first_below (\<lambda>j. f j = 0) 4096"
      have "get_free_uidx c = Inr (int (push_bit 12 ?i OR ?j))"
        using False Some r(1) unfolding get_free_uidx_def Let_def mask(2) by (simp add: MLX5_QP_TABLE_SHIFT_def)
      then have "get_free_uidx c = Inr (int (?i * 4096 + ?j))" using push_or [OF j] by simp
      moreover have "f ?j = 0" by (rule first_below_holds [OF j])
      then have "entry ?t ((?i * 4096 + ?j) div 4096) ((?i * 4096 + ?j) mod 4096) = 0"
        using Some j by (simp add: entry_def)
      moreover have "?i * 4096 + ?j < 2 ^ 24" using i4 j by simp
      ultimately show ?thesis by blast
    qed
  qed
qed

text \<open>The indices in use, and what the surroundings answer: whether there is memory, and the object.\<close>

definition live_uidx :: "mlx5_tables \<Rightarrow> u32 set" where
  "live_uidx c = {n. table_map (uidx_table c) n \<noteq> None}"

definition uidx_take :: "bool \<times> nat \<Rightarrow> mlx5_tables \<Rightarrow> (u32 option \<times> mlx5_tables) res" where
  "uidx_take e c = bindR (mlx5_store_uidx (fst e) c (snd e)) (\<lambda>(r, c).
     Inr (if r = -1 then None else Some r, c))"

definition uidx_give :: "u32 \<Rightarrow> mlx5_tables \<Rightarrow> mlx5_tables res" where
  "uidx_give n c = mlx5_clear_uidx c n"

definition object_given :: "bool \<times> nat \<Rightarrow> mlx5_tables \<Rightarrow> bool" where
  "object_given e c \<longleftrightarrow> snd e \<noteq> 0"

lemma free_number:
  assumes "n < 2 ^ 24"
  shows "number_ok (of_nat n)" "qp_tind (of_nat n) = n div 4096" "qp_slot (of_nat n) = n mod 4096"
    "(of_nat n :: u32) \<noteq> -1"
proof -
  have u: "unat (of_nat n :: u32) = n"
    using assms by (simp add: unat_of_nat)
  show ok: "number_ok (of_nat n)" "qp_tind (of_nat n) = n div 4096" "qp_slot (of_nat n) = n mod 4096"
    using assms by (simp_all add: number_ok_def tind_slot word_less_nat_alt u)
  have "\<not> number_ok (-1)" by (simp add: number_ok_def)
  then show "(of_nat n :: u32) \<noteq> -1" using ok(1) by metis
qed

lemma mlx5_store_uidx_ok:
  assumes ok: "tables_ok (uidx_table c)" and v: "v \<noteq> 0"
  shows "\<exists>r c'. mlx5_store_uidx got c v = Inr (r, c') \<and> tables_ok (uidx_table c') \<and>
    (if r = -1 then table_map (uidx_table c') = table_map (uidx_table c) \<and>
       (got \<longrightarrow> (\<forall>i < MLX5_QP_TABLE_SIZE. 4095 \<le> refcnt (uidx_table c i)))
     else number_ok r \<and> table_map (uidx_table c) r = None \<and>
       table_map (uidx_table c') = (table_map (uidx_table c))(r \<mapsto> v))"
proof -
  obtain u where u: "get_free_uidx c = Inr u"
    "u = -1 \<and> (\<forall>i < MLX5_QP_TABLE_SIZE. 4095 \<le> refcnt (uidx_table c i)) \<or>
     (\<exists>n < 2 ^ 24. u = int n \<and> entry (uidx_table c) (n div 4096) (n mod 4096) = 0)"
    using get_free_uidx_ok [OF ok] by blast
  show ?thesis
  proof (cases "u = -1")
    case True
    then show ?thesis using u ok by (simp add: mlx5_store_uidx_def)
  next
    case False
    then obtain n where n: "n < 2 ^ 24" "u = int n" "entry (uidx_table c) (n div 4096) (n mod 4096) = 0"
      using u(2) by auto
    note N = free_number [OF n(1)]
    have none: "table_map (uidx_table c) (of_nat n) = None"
      using table_map_None [OF N(1)] n(3) N(2,3) by simp
    obtain b t' where t': "table_store got (uidx_table c) (qp_tind (of_nat n)) (qp_slot (of_nat n)) v = Inr (b, t')"
      "tables_ok t'" "got \<longrightarrow> b"
      "table_map t' = (if b then (table_map (uidx_table c))(of_nat n \<mapsto> v) else table_map (uidx_table c))"
      using store_number [OF ok N(1) v none] by blast
    then show ?thesis using u(1) n(2) N(1,4) none by (cases b) (simp_all add: mlx5_store_uidx_def)
  qed
qed

interpretation uidx: slot_pool "\<lambda>c. tables_ok (uidx_table c)" live_uidx uidx_take uidx_give object_given
proof (unfold_locales, goal_cases)
  case (1 c e)
  obtain r c' where r: "mlx5_store_uidx (fst e) c (snd e) = Inr (r, c')" "tables_ok (uidx_table c')"
    "if r = -1 then table_map (uidx_table c') = table_map (uidx_table c) \<and>
       (fst e \<longrightarrow> (\<forall>i < MLX5_QP_TABLE_SIZE. 4095 \<le> refcnt (uidx_table c i)))
     else number_ok r \<and> table_map (uidx_table c) r = None \<and>
       table_map (uidx_table c') = (table_map (uidx_table c))(r \<mapsto> snd e)"
    using mlx5_store_uidx_ok [OF 1(1), of "snd e" "fst e"] 1(2) by (auto simp: object_given_def)
  then show ?case by (cases "r = -1") (auto simp: uidx_take_def live_uidx_def)
next
  case (2 c n)
  then have "number_ok n" "table_map (uidx_table c) n \<noteq> None"
    by (auto simp: live_uidx_def table_map_def Let_def split: if_splits)
  from clear_number [OF 2(1) this] show ?case
    by (auto simp: uidx_give_def mlx5_clear_uidx_def live_uidx_def)
qed

end
