(* ===== verification/Pool_Props.thy ===== *)
theory Pool_Props
  imports Dbrec_Correct Rsc_Table
begin

text \<open>
  What the driver guarantees of the things it hands out by number: doorbell records (\<open>dbrec.c\<close>), the
  tables in which completions find their queue pair or shared receive queue, and user indices.
\<close>

section \<open>Doorbell records\<close>

definition sample_db :: db_context where
  "sample_db = \<lparr>db_list = [], page_size = 4096, cache_line_size = 64\<rparr>"

text \<open>C26: a doorbell record has one owner. Along any run of \<open>mlx5_alloc_dbrec\<close> and \<open>mlx5_free_db\<close>
  that starts without records and frees only what it holds, whatever pages the system answers with
  (aligned, inside the address space and not in use, or none), no record is handed out twice, the
  records marked in the pages are exactly those the client holds, and two of them lie a cache line
  apart.\<close>

theorem doorbell_record_has_one_owner:
  assumes "served mlx5_alloc_dbrec mlx5_free_db page_fresh c0 t c"
    and "dbrec_ok c0" and "live_records c0 = {}"
  shows "exclusive t \<and> live_records c = held t \<and>
    (\<forall>a b. a \<in> held t \<and> b \<in> held t \<and> a < b \<longrightarrow> a + cache_line_size c \<le> b)"
  using dbrec.served_exact [OF assms] live_records_spaced [of c] by auto

theorem doorbell_record_has_one_owner_witness:
  "\<exists>c. served mlx5_alloc_dbrec mlx5_free_db page_fresh sample_db [Gave 8192, Got 8256, Got 8192] c \<and>
     live_records c = {8256}"
proof -
  let ?e = "\<lparr>descr_ok = True, page_mem = 8192\<rparr>"
  let ?c = "\<lambda>n x. sample_db\<lparr>db_list := [\<lparr>page_buf = 8192, num_db = 64, use_cnt = n, free_map = [x]\<rparr>]\<rparr>"
  have ok: "dbrec_ok sample_db"
    by (auto simp: dbrec_ok_def pages_ok_def sample_db_def intro: exI [of _ 12])
  have empty: "live_records sample_db = {}" by (simp add: live_records_def records_of_def sample_db_def)
  have fair: "page_fresh ?e sample_db" "page_fresh \<lparr>descr_ok = False, page_mem = 0\<rparr> c" for c
    by (simp_all add: page_fresh_def sample_db_def)
  have run: "mlx5_alloc_dbrec ?e sample_db = Inr (Some 8192, ?c 1 0xFFFFFFFFFFFFFFFE)"
    "mlx5_alloc_dbrec \<lparr>descr_ok = False, page_mem = 0\<rparr> (?c 1 0xFFFFFFFFFFFFFFFE) =
       Inr (Some 8256, ?c 2 0xFFFFFFFFFFFFFFFC)"
    "mlx5_free_db 8192 (?c 2 0xFFFFFFFFFFFFFFFC) = Inr (?c 1 0xFFFFFFFFFFFFFFFD)"
    by code_simp+
  have served: "served mlx5_alloc_dbrec mlx5_free_db page_fresh sample_db [Gave 8192, Got 8256, Got 8192]
      (?c 1 0xFFFFFFFFFFFFFFFD)"
    by (rule served_gave, rule served_got, rule served_got, rule served_start) (fact fair run | simp)+
  have "held [Gave 8192, Got 8256, Got (8192::nat)] = {8256}" by auto
  then show ?thesis using served doorbell_record_has_one_owner [OF served ok empty] by auto
qed

section \<open>Tables of objects\<close>

definition empty_tables :: mlx5_tables where
  "empty_tables = \<lparr>rsc_table = \<lambda>_. \<lparr>sub_table = None, refcnt = 0\<rparr>,
     srq_table = \<lambda>_. \<lparr>sub_table = None, refcnt = 0\<rparr>, uidx_table = \<lambda>_. \<lparr>sub_table = None, refcnt = 0\<rparr>\<rparr>"

lemma empty_tables_ok:
  "tables_ok (rsc_table empty_tables)" "tables_ok (srq_table empty_tables)" "tables_ok (uidx_table empty_tables)"
  "table_map (rsc_table empty_tables) = Map.empty" "table_map (srq_table empty_tables) = Map.empty"
  "table_map (uidx_table empty_tables) = Map.empty"
  by (auto simp: empty_tables_def tables_ok_def sub_ok_def table_map_def entry_def)

text \<open>C37: completions find their queue pair. After any sequence of stores (of a number of 24 bits
  that is absent, with an object that is not null) and clears (of a number that is present) on the
  table of queue pairs, with memory for the sub-tables, \<open>mlx5_find_rsc\<close> answers for every number the
  object that was stored last and not cleared since, and \<open>NULL\<close> when there is none: the two-level
  table with its counted, lazily allocated sub-tables is a finite map, and no call leaves an array
  or touches a freed sub-table.\<close>

theorem resource_table_is_map:
  assumes "tables_ok (rsc_table c)"
    and "\<forall>x \<in> set calls. sensible number_ok (\<lambda>p. p \<noteq> 0) x"
    and "legal_calls calls (table_map (rsc_table c))" and "number_ok n"
  shows "bindR (foldR (run_call rsc_put rsc_drop) calls c) (\<lambda>c. mlx5_find_rsc c n) =
    Inr (case fold map_effect calls (table_map (rsc_table c)) n of None \<Rightarrow> 0 | Some p \<Rightarrow> p)"
  using rsc.look_after [OF assms] by (fastforce simp: rsc_look_def as_pointer_def bindR_eq_Inr split: if_splits option.splits)

theorem resource_table_is_map_witness:
  "bindR (foldR (run_call rsc_put rsc_drop) [Put 0x11 7, Put 0x12 8, Drop 0x11] empty_tables) (\<lambda>c. mlx5_find_rsc c 0x12) = Inr 8"
  using resource_table_is_map [where c = empty_tables and calls = "[Put 0x11 7, Put 0x12 8, Drop 0x11]" and n = "0x12"]
  by (simp add: empty_tables_ok number_ok_def)

text \<open>The table of shared receive queues is a finite map as well, although the code masks with the
  queue pairs' constant when it stores and shifts by it when it clears: the constants of the two
  tables agree.\<close>

theorem srq_table_is_map:
  assumes "tables_ok (srq_table c)"
    and "\<forall>x \<in> set calls. sensible number_ok (\<lambda>p. p \<noteq> 0) x"
    and "legal_calls calls (table_map (srq_table c))" and "number_ok n"
  shows "bindR (foldR (run_call srq_put srq_drop) calls c) (\<lambda>c. mlx5_find_srq c n) =
    Inr (case fold map_effect calls (table_map (srq_table c)) n of None \<Rightarrow> 0 | Some p \<Rightarrow> p)"
  using srq.look_after [OF assms] by (fastforce simp: srq_look_def as_pointer_def bindR_eq_Inr split: if_splits option.splits)

theorem srq_table_is_map_witness:
  "bindR (foldR (run_call srq_put srq_drop) [Put 0x1011 7, Drop 0x1011] empty_tables) (\<lambda>c. mlx5_find_srq c 0x1011) = Inr 0"
  using srq_table_is_map [where c = empty_tables and calls = "[Put 0x1011 7, Drop 0x1011]" and n = "0x1011"]
  by (simp add: empty_tables_ok number_ok_def)

section \<open>User indices\<close>

text \<open>A user index has one owner. Along any run of \<open>mlx5_store_uidx\<close> and \<open>mlx5_clear_uidx\<close> from
  an empty table, with or without memory for sub-tables, no index is handed out while it is held;
  and an allocation with memory is refused only when every one of the 4096 sub-tables holds 4095
  entries or more.\<close>

theorem user_index_has_one_owner:
  assumes "served uidx_take uidx_give object_given c0 t c"
    and "tables_ok (uidx_table c0)" and "live_uidx c0 = {}" and "p \<noteq> 0"
  shows "exclusive t \<and> live_uidx c = held t \<and>
    (\<exists>r c'. mlx5_store_uidx True c p = Inr (r, c') \<and>
       (if r = -1 then \<forall>i < MLX5_QP_TABLE_SIZE. 4095 \<le> refcnt (uidx_table c i)
        else r \<notin> held t \<and> table_map (uidx_table c') r = Some p))"
proof -
  have s: "tables_ok (uidx_table c)" "live_uidx c = held t" "exclusive t"
    using uidx.served_exact [OF assms(1-3)] by auto
  obtain r c' where "mlx5_store_uidx True c p = Inr (r, c')"
    "if r = -1 then \<forall>i < MLX5_QP_TABLE_SIZE. 4095 \<le> refcnt (uidx_table c i)
     else table_map (uidx_table c) r = None \<and> table_map (uidx_table c') = (table_map (uidx_table c))(r \<mapsto> p)"
    using mlx5_store_uidx_ok [OF s(1) assms(4), of True] by (auto split: if_splits)
  moreover have "r \<notin> held t" if "table_map (uidx_table c) r = None"
    using that by (simp add: s(2) [symmetric] live_uidx_def)
  ultimately show ?thesis using s(2,3) by (auto split: if_splits)
qed

theorem user_index_has_one_owner_witness:
  "\<exists>r c'. mlx5_store_uidx True empty_tables 7 = Inr (r, c') \<and> r \<noteq> -1 \<and> table_map (uidx_table c') r = Some 7"
proof -
  have "live_uidx empty_tables = {}" by (simp add: live_uidx_def empty_tables_ok)
  from user_index_has_one_owner [OF served_start empty_tables_ok(3) this, of 7]
  obtain r c' where r: "mlx5_store_uidx True empty_tables 7 = Inr (r, c')"
    "if r = -1 then \<forall>i < MLX5_QP_TABLE_SIZE. 4095 \<le> refcnt (uidx_table empty_tables i)
     else r \<notin> held [] \<and> table_map (uidx_table c') r = Some 7" by auto
  have "refcnt (uidx_table empty_tables 0) = 0" "0 < MLX5_QP_TABLE_SIZE"
    by (simp_all add: empty_tables_def MLX5_QP_TABLE_SIZE_def)
  then have "r \<noteq> -1" using r(2) by force
  then show ?thesis using r by auto
qed

end
