(* ===== verification/Srq.thy ===== *)
theory Srq
  imports Wqe Driver_Base Pool_Spec
begin

text \<open>
  \<open>srq.c\<close> of the driver: shared receive queues. The entries of the queue lie in one buffer; those
  that are free are linked into a list by the index in their first segment, from \<open>head\<close> to \<open>tail\<close>.
  Posting takes entries from the head, a completion appends the entry behind the tail. The lock
  makes each operation atomic. Indices are natural numbers, since the code only assigns array
  indices and 16-bit fields to them.
\<close>

record mlx5_srq =
  srq_buf :: nat
  srq_wrid :: "u64 list"
  srq_srqn :: u32
  srq_max :: nat
  srq_max_gs :: int
  srq_wqe_shift :: nat
  srq_head :: nat
  srq_tail :: nat
  srq_db :: nat
  srq_counter :: u16
  srq_wq_sig :: bool

definition MLX5_INVALID_LKEY :: u32 where "MLX5_INVALID_LKEY = 0x100"

definition get_wqe :: "mlx5_srq \<Rightarrow> nat \<Rightarrow> nat" where
  "get_wqe srq n = srq_buf srq + push_bit (srq_wqe_shift srq) n"

text \<open>The link of an entry: two bytes in network order at offset 2.\<close>

definition load_link :: "mlx5_srq \<Rightarrow> nat \<Rightarrow> memory \<Rightarrow> nat res" where
  "load_link srq n m = bindR (load16 (get_wqe srq n + 2) m) (\<lambda>x. Inr (unat (ntohs x)))"

definition store_link :: "mlx5_srq \<Rightarrow> nat \<Rightarrow> nat \<Rightarrow> memory \<Rightarrow> memory res" where
  "store_link srq n ind m = store16 (get_wqe srq n + 2) (htons (of_nat ind)) m"

definition mlx5_free_srq_wqe :: "nat \<Rightarrow> mlx5_srq \<Rightarrow> memory \<Rightarrow> (mlx5_srq \<times> memory) res" where
  "mlx5_free_srq_wqe ind srq m =
     bindR (store_link srq (srq_tail srq) ind m) (\<lambda>m. Inr (srq\<lparr>srq_tail := ind\<rparr>, m))"

text \<open>The signature makes the XOR of entry, queue number and index all ones.\<close>

definition set_sig_seg :: "mlx5_srq \<Rightarrow> nat \<Rightarrow> nat \<Rightarrow> u16 \<Rightarrow> memory \<Rightarrow> memory res" where
  "set_sig_seg srq nxt sz idx m =
     bindR (store8 (nxt + 4) 0 m) (\<lambda>m.
     bindR (load_bytes nxt sz m) (\<lambda>bs.
       let sign = calc_xor bs XOR calc_xor (le32 (srq_srqn srq)) XOR calc_xor (le16 idx) in
       store8 (nxt + 4) (NOT sign) m))"

text \<open>The three fields of a data segment.\<close>

definition set_scat :: "nat \<Rightarrow> u32 \<Rightarrow> u32 \<Rightarrow> u64 \<Rightarrow> memory \<Rightarrow> memory res" where
  "set_scat a byte_count lkey addr m =
     bindR (store32 a byte_count m) (\<lambda>m.
     bindR (store32 (a + 4) lkey m) (store64 (a + 8) addr))"

text \<open>\<open>for (i = 0; i < wr->num_sge; ++i)\<close> of the post, from the scatter entry \<open>i\<close> on.\<close>

function fill_scat :: "recv_wr \<Rightarrow> nat \<Rightarrow> int \<Rightarrow> memory \<Rightarrow> memory res" where
  "fill_scat wr scat i m =
     (if i < rnum_sge wr
      then bindR (sge_at (rsg_list wr) i) (\<lambda>sg.
           bindR (set_scat (scat + 16 * nat i) (htonl (sg_length sg)) (htonl (sg_lkey sg)) (htonll (sg_addr sg)) m)
             (fill_scat wr scat (i + 1)))
      else Inr m)"
  by pat_completeness auto
termination
  by (relation "measure (\<lambda>(wr, scat, i, m). nat (rnum_sge wr - i))") auto

declare fill_scat.simps [simp del]

text \<open>The steps for one request, once it has passed the two checks.\<close>

definition post_one :: "recv_wr \<Rightarrow> nat \<Rightarrow> mlx5_srq \<Rightarrow> memory \<Rightarrow> (mlx5_srq \<times> memory) res" where
  "post_one wr nreq srq m =
     (let head = srq_head srq; nxt = get_wqe srq head; scat = nxt + 16; i = nat (rnum_sge wr) in
      bindR (write_at (srq_wrid srq) head (rwr_id wr)) (\<lambda>ids.
      bindR (load_link srq head m) (\<lambda>link.
        let srq = srq\<lparr>srq_wrid := ids, srq_head := link\<rparr> in
        bindR (fill_scat wr scat 0 m) (\<lambda>m.
        bindR (if int i < srq_max_gs srq
               then set_scat (scat + 16 * i) 0 (htonl MLX5_INVALID_LKEY) 0 m else Inr m) (\<lambda>m.
        bindR (if srq_wq_sig srq
               then set_sig_seg srq nxt (2 ^ srq_wqe_shift srq) (of_nat (head + nreq)) m else Inr m) (\<lambda>m.
          Inr (srq, m)))))))"

text \<open>The loop: the error, the requests not posted, their number, the queue and the memory.\<close>

fun post_srq_loop :: "recv_wr list \<Rightarrow> nat \<Rightarrow> mlx5_srq \<Rightarrow> memory \<Rightarrow>
    (int \<times> recv_wr list \<times> nat \<times> mlx5_srq \<times> memory) res" where
  "post_srq_loop [] nreq srq m = Inr (0, [], nreq, srq, m)"
| "post_srq_loop (wr # wrs) nreq srq m =
     (if srq_max_gs srq < rnum_sge wr then Inr (EINVAL, wr # wrs, nreq, srq, m)
      else if srq_head srq = srq_tail srq then Inr (ENOMEM, wr # wrs, nreq, srq, m)
      else bindR (post_one wr nreq srq m) (\<lambda>(srq, m). post_srq_loop wrs (Suc nreq) srq m))"

text \<open>The counter and the doorbell record, when something was posted.\<close>

definition mlx5_post_srq_recv ::
  "recv_wr list \<Rightarrow> mlx5_srq \<Rightarrow> memory \<Rightarrow> (int \<times> recv_wr list \<times> mlx5_srq \<times> memory) res" where
  "mlx5_post_srq_recv wrs srq m =
     bindR (post_srq_loop wrs 0 srq m) (\<lambda>(err, bad_wr, nreq, srq, m).
       if nreq = 0 then Inr (err, bad_wr, srq, m)
       else let srq = srq\<lparr>srq_counter := srq_counter srq + of_nat nreq\<rparr> in
            bindR (store32 (srq_db srq) (htonl (ucast (srq_counter srq))) m) (\<lambda>m.
              Inr (err, bad_wr, srq, m)))"

text \<open>Copying the scatter entries of an entry to another, up to the first invalid one.\<close>

function copy_scat :: "nat \<Rightarrow> nat \<Rightarrow> int \<Rightarrow> int \<Rightarrow> memory \<Rightarrow> memory res" where
  "copy_scat dst src i n m =
     (if i < n
      then bindR (load_bytes (src + 16 * nat i) 16 m) (\<lambda>bs.
           bindR (store_bytes (dst + 16 * nat i) bs m) (\<lambda>m.
             if of_le32 (take 4 (drop 4 bs)) = htonl MLX5_INVALID_LKEY then Inr m
             else copy_scat dst src (i + 1) n m))
      else Inr m)"
  by pat_completeness auto
termination
  by (relation "measure (\<lambda>(dst, src, i, n, m). nat (n - i))") auto

declare copy_scat.simps [simp del]

definition mlx5_requeue_srq_wqe :: "nat \<Rightarrow> mlx5_srq \<Rightarrow> memory \<Rightarrow> (mlx5_srq \<times> memory) res" where
  "mlx5_requeue_srq_wqe ind srq m =
     bindR (read_at (srq_wrid srq) ind) (\<lambda>id.
     bindR (write_at (srq_wrid srq) (srq_head srq) id) (\<lambda>ids.
       let old = get_wqe srq ind; head = get_wqe srq (srq_head srq) in
       bindR (store_link srq (srq_tail srq) ind m) (\<lambda>m.
       bindR (load_link srq (srq_head srq) m) (\<lambda>link.
         let srq' = srq\<lparr>srq_wrid := ids, srq_tail := ind, srq_head := link,
                        srq_counter := srq_counter srq + 1\<rparr> in
         bindR (copy_scat (head + 16) (old + 16) 0 (srq_max_gs srq) m) (\<lambda>m.
         bindR (if srq_wq_sig srq
                then set_sig_seg srq head (2 ^ srq_wqe_shift srq) (of_nat (srq_head srq)) m else Inr m) (\<lambda>m.
         bindR (store32 (srq_db srq) (htonl (ucast (srq_counter srq'))) m) (\<lambda>m.
           Inr (srq', m))))))))"

text \<open>
  \<open>mlx5_copy_to_recv_srq\<close>: the data of a completion scattered to the entry's segments, of which the
  loop visits as many as fit in a whole entry. The status is \<open>True\<close> for \<open>IBV_WC_SUCCESS\<close> and
  \<open>False\<close> for \<open>IBV_WC_LOC_LEN_ERR\<close>.
\<close>

function scatter :: "nat \<Rightarrow> nat \<Rightarrow> int \<Rightarrow> int \<Rightarrow> int \<Rightarrow> memory \<Rightarrow> (bool \<times> memory) res" where
  "scatter scat src left i mx m =
     (if i < mx
      then bindR (load32 scat m) (\<lambda>bc.
           bindR (load64 (scat + 8) m) (\<lambda>addr.
             let copy = (if of_int left < ntohl bc then left else sint (ntohl bc)) in
             bindR (memcpy (unat (htonll addr)) src copy m) (\<lambda>m.
               if left - copy \<le> 0 then Inr (True, m)
               else scatter (scat + 16) (src + nat copy) (left - copy) (i + 1) mx m)))
      else Inr (False, m))"
  by pat_completeness auto
termination
  by (relation "measure (\<lambda>(scat, src, left, i, mx, m). nat (mx - i))") auto

declare scatter.simps [simp del]

definition mlx5_copy_to_recv_srq :: "mlx5_srq \<Rightarrow> nat \<Rightarrow> nat \<Rightarrow> int \<Rightarrow> memory \<Rightarrow> (bool \<times> memory) res" where
  "mlx5_copy_to_recv_srq srq idx buf left m =
     scatter (get_wqe srq idx + 16) buf left 0 (2 ^ (srq_wqe_shift srq - 4)) m"

section \<open>Set-up\<close>

definition mlx5_round_up_power_of_two :: "int \<Rightarrow> int" where
  "mlx5_round_up_power_of_two sz =
     (let r = double_until 1 sz in if 2147483647 < r then - ENOMEM else r)"

text \<open>\<open>mlx5_ilog2\<close>: the least \<open>t\<close> with \<open>n \<le> 2 ^ t\<close>, as the loop finds it while \<open>1 << t\<close> is an \<open>int\<close>.\<close>

function ilog2_from :: "nat \<Rightarrow> nat \<Rightarrow> nat" where
  "ilog2_from t n = (if 2 ^ t < n then ilog2_from (Suc t) n else t)"
  by pat_completeness auto
termination
proof (relation "measure (\<lambda>(t, n). n - 2 ^ t)")
  fix t n :: nat
  assume "2 ^ t < n"
  moreover have "(2::nat) ^ t < 2 ^ Suc t" by simp
  ultimately have "n - 2 ^ Suc t < n - 2 ^ t" by (rule diff_less_mono2 [rotated])
  then show "((Suc t, n), t, n) \<in> measure (\<lambda>(t, n). n - 2 ^ t)" by simp
qed simp

declare ilog2_from.simps [simp del]

definition mlx5_ilog2 :: "nat \<Rightarrow> int" where
  "mlx5_ilog2 n = (if n = 0 then -1 else int (ilog2_from 0 n))"

text \<open>The loop that links the entries, from entry \<open>i\<close> on.\<close>

function link_all :: "mlx5_srq \<Rightarrow> nat \<Rightarrow> memory \<Rightarrow> memory res" where
  "link_all srq i m =
     (if i < srq_max srq
      then bindR (store_link srq i (unat ((of_nat (i + 1) :: u32) AND (of_nat (srq_max srq) - 1))) m)
             (link_all srq (i + 1))
      else Inr m)"
  by pat_completeness auto
termination
  by (relation "measure (\<lambda>(srq, i, m). srq_max srq - i)") auto

declare link_all.simps [simp del]

text \<open>
  \<open>mlx5_alloc_srq_buf\<close>: \<open>ids\<close> is what \<open>malloc\<close> answers for the array of identifiers, \<open>buf\<close> the address
  and the memory \<open>mlx5_alloc_buf\<close> gives, \<open>None\<close> when either fails. The result is the code's \<open>int\<close>. The size of
  an entry is computed as a \<open>size_t\<close> and cut down to an \<open>int\<close>; a size that is negative makes the shift of
  \<open>mlx5_ilog2\<close> overflow, and \<open>srq->max * size\<close> is a product of two \<open>int\<close>s.
\<close>

definition mlx5_alloc_srq_buf ::
  "u64 list option \<Rightarrow> nat option \<Rightarrow> int \<Rightarrow> mlx5_srq \<Rightarrow> memory \<Rightarrow> (int \<times> mlx5_srq \<times> memory) res" where
  "mlx5_alloc_srq_buf ids buf max_rq_desc_sz srq m =
     (if srq_max_gs srq < 0 then Inr (-1, srq, m)
      else case ids of None \<Rightarrow> Inr (-1, srq, m)
      | Some ids \<Rightarrow>
        let srq = srq\<lparr>srq_wrid := ids\<rparr>;
            sz = mlx5_round_up_power_of_two (max 32 (signed_take_bit 31 (16 + srq_max_gs srq * 16))) in
        if max_rq_desc_sz < sz then Inr (-1, srq, m)
        else if sz < 0 \<or> 0x7FFFFFFF < int (srq_max srq) * sz then Inl (Fault SignedOverflow)
        else let srq = srq\<lparr>srq_max_gs := (sz - 16) div 16, srq_wqe_shift := nat (mlx5_ilog2 (nat sz))\<rparr> in
             case buf of None \<Rightarrow> Inr (-1, srq, m)
             | Some b \<Rightarrow>
               let srq = srq\<lparr>srq_buf := b\<rparr> in
               bindR (store_bytes b (replicate (srq_max srq * nat sz) 0) m) (\<lambda>m.
               bindR (link_all srq 0 m) (\<lambda>m.
                 Inr (0, srq\<lparr>srq_head := 0, srq_tail := srq_max srq - 1\<rparr>, m))))"

text \<open>
  \<open>mlx5_alloc_srq\<close>. The answers of the surroundings: whether the descriptor and its lock could be
  made, the array, the buffer, and the doorbell record. When the rounded number of entries does not
  fit in an \<open>int\<close> it is negative, and the array of that many identifiers is larger than the address
  space. The attributes' \<open>max_sge\<close> is returned, as the code writes it back.
\<close>

record srq_answers =
  srq_made :: bool
  lock_made :: bool
  ids_made :: "u64 list option"
  buf_made :: "nat option"
  db_made :: "nat option"

record srq_limits =
  max_srq_recv_wr :: u32
  max_recv_wr :: int
  max_rq_desc_sz :: int
  srq_sig_enabled :: bool

definition mlx5_alloc_srq ::
  "srq_answers \<Rightarrow> srq_limits \<Rightarrow> u32 \<Rightarrow> u32 \<Rightarrow> memory \<Rightarrow> (mlx5_srq option \<times> u32 \<times> memory) res" where
  "mlx5_alloc_srq e lim max_wr max_sge m =
     (if \<not> srq_made e \<or> \<not> lock_made e then Inr (None, max_sge, m)
      else if max_srq_recv_wr lim < max_wr then Inr (None, max_sge, m)
      else if of_int (max_recv_wr lim div 16) < max_sge then Inr (None, max_sge, m)
      else let n = mlx5_round_up_power_of_two (uint (max_wr + 1));
               srq = \<lparr>srq_buf = 0, srq_wrid = [], srq_srqn = 0, srq_max = nat n, srq_max_gs = sint max_sge,
                      srq_wqe_shift = 0, srq_head = 0, srq_tail = 0, srq_db = 0, srq_counter = 0,
                      srq_wq_sig = srq_sig_enabled lim\<rparr> in
           bindR (mlx5_alloc_srq_buf (if n < 0 then None else ids_made e) (buf_made e) (max_rq_desc_sz lim) srq m)
             (\<lambda>(r, srq, m).
               if r \<noteq> 0 then Inr (None, max_sge, m)
               else let max_sge = of_int (srq_max_gs srq) in
                    case db_made e of None \<Rightarrow> Inr (None, max_sge, m)
                    | Some db \<Rightarrow>
                      bindR (store32 db 0 m) (\<lambda>m. bindR (store32 (db + 4) 0 m) (\<lambda>m.
                        Inr (Some (srq\<lparr>srq_db := db\<rparr>), max_sge, m)))))"

end
