(* ===== verification/Srq_Correct.thy ===== *)
theory Srq_Correct
  imports Srq
begin

text \<open>
  The free entries of a shared receive queue form a queue. The chain from \<open>head\<close> to \<open>tail\<close> is the
  abstract state; posting drops entries from its front, a completion appends one at its end, and
  neither touches the links of the others. The last entry of the chain is never posted.
\<close>

section \<open>The chain of free entries\<close>

definition link_of :: "mlx5_srq \<Rightarrow> memory \<Rightarrow> nat \<Rightarrow> nat" where
  "link_of srq m i = unat (ntohs (of_le16 (bytes_at m (get_wqe srq i + 2) 2)))"

fun linked :: "mlx5_srq \<Rightarrow> memory \<Rightarrow> nat list \<Rightarrow> bool" where
  "linked srq m [] = False"
| "linked srq m [i] = (i = srq_tail srq)"
| "linked srq m (i # j # is) = (link_of srq m i = j \<and> linked srq m (j # is))"

text \<open>The queue's buffer is its entries, the doorbell record lies elsewhere.\<close>

definition srq_geom :: "mlx5_srq \<Rightarrow> memory \<Rightarrow> bool" where
  "srq_geom srq m \<longleftrightarrow> 0 < srq_max srq \<and> srq_max srq \<le> 65536 \<and> length (srq_wrid srq) = srq_max srq \<and>
     0 \<le> srq_max_gs srq \<and> 16 + 16 * nat (srq_max_gs srq) \<le> 2 ^ srq_wqe_shift srq \<and>
     mapped m (srq_buf srq) (srq_max srq * 2 ^ srq_wqe_shift srq) \<and> mapped m (srq_db srq) 4 \<and>
     (srq_db srq + 4 \<le> srq_buf srq \<or> srq_buf srq + srq_max srq * 2 ^ srq_wqe_shift srq \<le> srq_db srq)"

definition srq_ok :: "mlx5_srq \<Rightarrow> memory \<Rightarrow> nat list \<Rightarrow> bool" where
  "srq_ok srq m xs \<longleftrightarrow> srq_geom srq m \<and> linked srq m xs \<and> hd xs = srq_head srq \<and>
     distinct xs \<and> set xs \<subseteq> {..<srq_max srq}"

lemma get_wqe_eq: "get_wqe srq n = srq_buf srq + n * 2 ^ srq_wqe_shift srq"
  by (simp add: get_wqe_def push_bit_eq_mult)

lemma get_wqe_less: "i < j \<Longrightarrow> get_wqe srq i + 2 ^ srq_wqe_shift srq \<le> get_wqe srq j"
proof -
  assume "i < j"
  then have "Suc i * 2 ^ srq_wqe_shift srq \<le> j * 2 ^ srq_wqe_shift srq" by (intro mult_le_mono1) simp
  then show ?thesis by (simp add: get_wqe_eq)
qed

lemma get_wqe_end:
  "i < srq_max srq \<Longrightarrow> get_wqe srq i + 2 ^ srq_wqe_shift srq \<le> srq_buf srq + srq_max srq * 2 ^ srq_wqe_shift srq"
  using get_wqe_less [of i "srq_max srq" srq] by (simp add: get_wqe_eq)

lemma srq_geom_shift: "srq_geom srq m \<Longrightarrow> 16 \<le> (2::nat) ^ srq_wqe_shift srq"
  by (simp add: srq_geom_def)

text \<open>An area inside one entry, behind its link.\<close>

definition in_body :: "mlx5_srq \<Rightarrow> nat \<Rightarrow> nat \<Rightarrow> nat \<Rightarrow> bool" where
  "in_body srq h a n \<longleftrightarrow> h < srq_max srq \<and> get_wqe srq h + 4 \<le> a \<and> a + n \<le> get_wqe srq h + 2 ^ srq_wqe_shift srq"

lemma in_body_link:
  assumes "in_body srq h a n"
  shows "a + n \<le> get_wqe srq i + 2 \<or> get_wqe srq i + 4 \<le> a \<or> n = 0"
proof (cases i h rule: linorder_cases)
  case less
  show ?thesis
  proof (cases "4 \<le> (2::nat) ^ srq_wqe_shift srq")
    case True
    then show ?thesis using get_wqe_less [OF less, of srq] assms by (auto simp: in_body_def)
  next
    case False
    then show ?thesis using assms by (auto simp: in_body_def)
  qed
next
  case equal
  then show ?thesis using assms by (auto simp: in_body_def)
next
  case greater
  then show ?thesis using get_wqe_less [OF greater, of srq] assms by (auto simp: in_body_def)
qed

lemma link_frame:
  assumes "in_body srq h a (length bs)"
  shows "link_of srq (upd_bytes a bs m) i = link_of srq m i"
proof -
  have "bytes_at (upd_bytes a bs m) (get_wqe srq i + 2) 2 = bytes_at m (get_wqe srq i + 2) 2"
    using in_body_link [OF assms, of i] bytes_at_disjoint [of a bs "get_wqe srq i + 2" 2 m]
    by (cases bs) auto
  then show ?thesis by (simp add: link_of_def)
qed

lemma body_mapped:
  assumes "srq_geom srq m" "in_body srq h a n"
  shows "mapped m a n"
proof (rule mapped_sub)
  show "mapped m (srq_buf srq) (srq_max srq * 2 ^ srq_wqe_shift srq)" using assms(1) by (simp add: srq_geom_def)
  show "srq_buf srq \<le> a" using assms(2) by (simp add: in_body_def get_wqe_eq)
  show "a + n \<le> srq_buf srq + srq_max srq * 2 ^ srq_wqe_shift srq"
    using assms(2) get_wqe_end [of h srq] by (simp add: in_body_def)
qed

lemma geom_upd [simp]: "srq_geom srq m \<Longrightarrow> srq_geom srq (upd_bytes a bs m)"
  by (simp add: srq_geom_def)

lemma linked_cong:
  assumes "\<And>i. i \<in> set (butlast xs) \<Longrightarrow> link_of srq' m' i = link_of srq m i" "srq_tail srq' = srq_tail srq"
  shows "linked srq' m' xs = linked srq m xs"
  using assms by (induction srq m xs rule: linked.induct) auto

lemma link_of_same: "get_wqe srq' = get_wqe srq \<Longrightarrow> link_of srq' m = link_of srq m"
  by (rule ext) (simp add: link_of_def)

lemma get_wqe_upd [simp]:
  "get_wqe (srq\<lparr>srq_wrid := ids\<rparr>) = get_wqe srq" "get_wqe (srq\<lparr>srq_head := h\<rparr>) = get_wqe srq"
  "get_wqe (srq\<lparr>srq_tail := h\<rparr>) = get_wqe srq" "get_wqe (srq\<lparr>srq_counter := c\<rparr>) = get_wqe srq"
  by (rule ext; simp add: get_wqe_def)+

lemma link_of_upd [simp]:
  "link_of (srq\<lparr>srq_wrid := ids\<rparr>) m = link_of srq m" "link_of (srq\<lparr>srq_head := h\<rparr>) m = link_of srq m"
  "link_of (srq\<lparr>srq_tail := h\<rparr>) m = link_of srq m" "link_of (srq\<lparr>srq_counter := c\<rparr>) m = link_of srq m"
  by (rule link_of_same; simp)+

lemma load_link_ok:
  assumes "srq_geom srq m" "i < srq_max srq"
  shows "load_link srq i m = Inr (link_of srq m i)"
proof -
  have "mapped m (get_wqe srq i + 2) 2"
  proof (rule mapped_sub)
    show "mapped m (srq_buf srq) (srq_max srq * 2 ^ srq_wqe_shift srq)" using assms(1) by (simp add: srq_geom_def)
    show "srq_buf srq \<le> get_wqe srq i + 2" by (simp add: get_wqe_eq)
    show "get_wqe srq i + 2 + 2 \<le> srq_buf srq + srq_max srq * 2 ^ srq_wqe_shift srq"
      using get_wqe_end [OF assms(2)] srq_geom_shift [OF assms(1)] by linarith
  qed
  then show ?thesis by (simp add: load_link_def load16_def link_of_def)
qed

text \<open>Storing a link changes that link alone.\<close>

lemma store_link_ok:
  assumes geom: "srq_geom srq m" and i: "i < srq_max srq" and v: "v < 65536"
  shows "\<exists>m'. store_link srq i v m = Inr m' \<and> srq_geom srq m' \<and>
    (\<forall>j. link_of srq m' j = (if j = i then v else link_of srq m j)) \<and>
    m' = upd_bytes (get_wqe srq i + 2) (le16 (htons (of_nat v))) m"
proof -
  let ?bs = "le16 (htons (of_nat v))" and ?a = "get_wqe srq i + 2"
  have "mapped m ?a 2"
  proof (rule mapped_sub)
    show "mapped m (srq_buf srq) (srq_max srq * 2 ^ srq_wqe_shift srq)" using geom by (simp add: srq_geom_def)
    show "srq_buf srq \<le> ?a" by (simp add: get_wqe_eq)
    show "?a + 2 \<le> srq_buf srq + srq_max srq * 2 ^ srq_wqe_shift srq"
      using get_wqe_end [OF i] srq_geom_shift [OF geom] by linarith
  qed
  then have "store_link srq i v m = Inr (upd_bytes ?a ?bs m)"
    by (simp add: store_link_def store16_def)
  moreover have "link_of srq (upd_bytes ?a ?bs m) j = (if j = i then v else link_of srq m j)" for j
  proof (cases "j = i")
    case True
    have "bytes_at (upd_bytes ?a ?bs m) ?a 2 = ?bs" by (rule bytes_at_same') simp
    then show ?thesis using True v by (simp add: link_of_def unat_of_nat)
  next
    case False
    have "bytes_at (upd_bytes ?a ?bs m) (get_wqe srq j + 2) 2 = bytes_at m (get_wqe srq j + 2) 2"
      by (rule bytes_at_disjoint)
        (use False get_wqe_less [of i j srq] get_wqe_less [of j i srq] srq_geom_shift [OF geom]
          in \<open>auto simp: neq_iff\<close>)
    then show ?thesis using False by (simp add: link_of_def)
  qed
  ultimately show ?thesis using geom by simp
qed

section \<open>Giving an entry back\<close>

lemma linked_nonempty: "linked srq m xs \<Longrightarrow> xs \<noteq> []"
  by (cases xs) auto

lemma linked_last: "linked srq m xs \<Longrightarrow> last xs = srq_tail srq"
  by (induction srq m xs rule: linked.induct) auto

lemma linked_append:
  assumes "linked srq m xs"
  shows "linked srq' m' (xs @ [i]) \<longleftrightarrow> i = srq_tail srq' \<and> link_of srq' m' (last xs) = i \<and>
    (\<forall>k. Suc k < length xs \<longrightarrow> link_of srq' m' (xs ! k) = xs ! Suc k)"
  using assms
proof (induction srq m xs rule: linked.induct)
  case (3 srq m a b xs)
  have all: "(\<forall>k. Suc k < length (a # b # xs) \<longrightarrow> P k) \<longleftrightarrow> P 0 \<and> (\<forall>k. Suc k < length (b # xs) \<longrightarrow> P (Suc k))" for P
    by (auto simp: less_Suc_eq_0_disj)
  show ?case using 3 unfolding all by auto
qed auto

lemma linked_links: "linked srq m xs \<Longrightarrow> Suc k < length xs \<Longrightarrow> link_of srq m (xs ! k) = xs ! Suc k"
proof (induction srq m xs arbitrary: k rule: linked.induct)
  case (3 srq m a b xs)
  then show ?case by (cases k) auto
qed auto

lemma mlx5_free_srq_wqe_ok:
  assumes ok: "srq_ok srq m xs" and ind: "ind < srq_max srq" "ind \<notin> set xs"
  shows "\<exists>m'. mlx5_free_srq_wqe ind srq m = Inr (srq\<lparr>srq_tail := ind\<rparr>, m') \<and>
    srq_ok (srq\<lparr>srq_tail := ind\<rparr>) m' (xs @ [ind])"
proof -
  have geom: "srq_geom srq m" and lk: "linked srq m xs" and d: "distinct xs"
    and sub: "set xs \<subseteq> {..<srq_max srq}" and hd: "hd xs = srq_head srq"
    using ok by (auto simp: srq_ok_def)
  have ne: "xs \<noteq> []" by (rule linked_nonempty [OF lk])
  have tail: "srq_tail srq = last xs" using linked_last [OF lk] by simp
  then have t: "srq_tail srq < srq_max srq" using sub ne last_in_set by fastforce
  have v: "ind < 65536" using ind(1) geom by (simp add: srq_geom_def)
  obtain m' where m': "store_link srq (srq_tail srq) ind m = Inr m'" "srq_geom srq m'"
    "\<forall>j. link_of srq m' j = (if j = srq_tail srq then ind else link_of srq m j)"
    using store_link_ok [OF geom t v] by blast
  have "link_of srq m' (xs ! k) = xs ! Suc k" if "Suc k < length xs" for k
  proof -
    have "xs ! k \<noteq> last xs" using d that ne by (simp add: last_conv_nth nth_eq_iff_index_eq)
    then show ?thesis using m'(3) linked_links [OF lk that] by (simp add: tail)
  qed
  then have "linked (srq\<lparr>srq_tail := ind\<rparr>) m' (xs @ [ind])"
    unfolding linked_append [OF lk] using m'(3) by (simp add: tail)
  moreover have "srq_geom (srq\<lparr>srq_tail := ind\<rparr>) m'" using m'(2) by (simp add: srq_geom_def)
  ultimately have "srq_ok (srq\<lparr>srq_tail := ind\<rparr>) m' (xs @ [ind])"
    using d sub hd ne ind by (simp add: srq_ok_def)
  then show ?thesis using m'(1) by (simp add: mlx5_free_srq_wqe_def)
qed

text \<open>The store lies inside the queue's buffer.\<close>

lemma free_srq_wqe_store:
  assumes ok: "srq_ok srq m xs" and run: "mlx5_free_srq_wqe ind srq m = Inr (s', m')"
  shows "\<exists>a bs. m' = upd_bytes a bs m \<and> srq_buf srq \<le> a \<and>
    a + length bs \<le> srq_buf srq + srq_max srq * 2 ^ srq_wqe_shift srq"
proof -
  have geom: "srq_geom srq m" and lk: "linked srq m xs" and sub: "set xs \<subseteq> {..<srq_max srq}"
    using ok by (auto simp: srq_ok_def)
  have t: "srq_tail srq < srq_max srq"
    using linked_last [OF lk] linked_nonempty [OF lk] sub last_in_set by fastforce
  have "m' = upd_bytes (get_wqe srq (srq_tail srq) + 2) (le16 (htons (of_nat ind))) m"
    using run by (auto simp: mlx5_free_srq_wqe_def store_link_def store16_def bindR_eq_Inr store_bytes_eq_Inr)
  moreover have "srq_buf srq \<le> get_wqe srq (srq_tail srq)" by (simp add: get_wqe_eq)
  moreover have "get_wqe srq (srq_tail srq) + 16 \<le> srq_buf srq + srq_max srq * 2 ^ srq_wqe_shift srq"
    using get_wqe_end [OF t] srq_geom_shift [OF geom] by linarith
  ultimately show ?thesis by (intro exI conjI) (assumption | simp)+
qed

section \<open>Posting one request\<close>

text \<open>The scatter list a request brings, and the bytes its entry gets behind the first segment.\<close>

definition wr_sges :: "recv_wr \<Rightarrow> ibv_sge list" where
  "wr_sges wr = take (nat (rnum_sge wr)) (case rsg_list wr of None \<Rightarrow> [] | Some l \<Rightarrow> l)"

definition recv_ok :: "recv_wr \<Rightarrow> bool" where
  "recv_ok wr \<longleftrightarrow> int (length (wr_sges wr)) = rnum_sge wr"

definition end_bytes :: "u8 list" where
  "end_bytes = le32 0 @ be32 MLX5_INVALID_LKEY @ le64 0"

definition entry_bytes :: "int \<Rightarrow> recv_wr \<Rightarrow> u8 list" where
  "entry_bytes gs wr = concat (map data_bytes (wr_sges wr)) @ (if rnum_sge wr < gs then end_bytes else [])"

lemma length_data_list: "length (concat (map data_bytes sgs)) = 16 * length sgs"
  by (induction sgs) simp_all

lemma length_entry: "recv_ok wr \<Longrightarrow> rnum_sge wr \<le> gs \<Longrightarrow> length (entry_bytes gs wr) \<le> 16 * nat gs"
  by (auto simp: entry_bytes_def length_data_list end_bytes_def recv_ok_def)

lemma set_scat_sge: "set_scat a (htonl (sg_length sg)) (htonl (sg_lkey sg)) (htonll (sg_addr sg)) m = store_bytes a (data_bytes sg) m"
  by (simp add: set_scat_def store32_def store64_def [abs_def] data_bytes_def byte_simps)

lemma set_scat_end: "set_scat a 0 (htonl MLX5_INVALID_LKEY) 0 m = store_bytes a end_bytes m"
  by (simp add: set_scat_def store32_def store64_def [abs_def] end_bytes_def byte_simps)

lemma wr_sge_at:
  assumes "recv_ok wr" "0 \<le> i" "i < rnum_sge wr"
  shows "sge_at (rsg_list wr) i = Inr (wr_sges wr ! nat i)"
proof (cases "rsg_list wr")
  case None
  then show ?thesis using assms by (simp add: recv_ok_def wr_sges_def)
next
  case (Some l)
  then have "nat i < length l" "wr_sges wr ! nat i = l ! nat i"
    using assms by (auto simp: recv_ok_def wr_sges_def)
  then show ?thesis using Some assms(2) by (simp add: sge_at_def)
qed

lemma fill_scat_bytes:
  assumes "recv_ok wr" "0 \<le> i" "i \<le> rnum_sge wr"
  shows "fill_scat wr scat i m = store_bytes (scat + 16 * nat i) (concat (map data_bytes (drop (nat i) (wr_sges wr)))) m"
  using assms
proof (induction "nat (rnum_sge wr - i)" arbitrary: i m rule: less_induct)
  case less
  show ?case
  proof (cases "i < rnum_sge wr")
    case False
    then have "drop (nat i) (wr_sges wr) = []" using less.prems by (auto simp: recv_ok_def)
    then show ?thesis using False by (subst fill_scat.simps) simp
  next
    case True
    let ?sg = "wr_sges wr ! nat i"
    have sg: "sge_at (rsg_list wr) i = Inr ?sg" by (rule wr_sge_at [OF less.prems(1,2) True])
    have n: "nat i < length (wr_sges wr)" using True less.prems(1,2) by (auto simp: recv_ok_def)
    have s: "nat (i + 1) = Suc (nat i)" using less.prems(2) by simp
    have rest: "fill_scat wr scat (i + 1) m' =
        store_bytes (scat + 16 * Suc (nat i)) (concat (map data_bytes (drop (Suc (nat i)) (wr_sges wr)))) m'" for m'
      using less.hyps [of "i + 1" m'] less.prems True s by simp
    have "fill_scat wr scat i m = bindR (store_bytes (scat + 16 * nat i) (data_bytes ?sg) m) (fill_scat wr scat (i + 1))"
      using True sg by (subst fill_scat.simps) (simp add: set_scat_sge)
    also have "\<dots> = bindR (store_bytes (scat + 16 * nat i) (data_bytes ?sg) m)
        (store_bytes (scat + 16 * Suc (nat i)) (concat (map data_bytes (drop (Suc (nat i)) (wr_sges wr)))))"
      by (simp only: rest [abs_def])
    also have "\<dots> = store_bytes (scat + 16 * nat i) (data_bytes ?sg @ concat (map data_bytes (drop (Suc (nat i)) (wr_sges wr)))) m"
      by (rule store_bytes_seq') simp
    finally show ?thesis using Cons_nth_drop_Suc [OF n, symmetric] by simp
  qed
qed

lemma entry_stored:
  assumes "recv_ok wr" "rnum_sge wr \<le> gs"
  shows "bindR (fill_scat wr scat 0 m) (\<lambda>m.
      bindR (if int (nat (rnum_sge wr)) < gs then set_scat (scat + 16 * nat (rnum_sge wr)) 0 (htonl MLX5_INVALID_LKEY) 0 m
             else Inr m) f) = bindR (store_bytes scat (entry_bytes gs wr) m) f"
proof -
  have n: "0 \<le> rnum_sge wr" "nat (rnum_sge wr) = length (wr_sges wr)"
    "int (length (wr_sges wr)) = rnum_sge wr" using assms(1) by (auto simp: recv_ok_def)
  have fill: "fill_scat wr scat 0 m = store_bytes scat (concat (map data_bytes (wr_sges wr))) m"
    using fill_scat_bytes [OF assms(1), of 0 scat m] n by simp
  show ?thesis
  proof (cases "rnum_sge wr < gs")
    case True
    have "bindR (store_bytes scat (concat (map data_bytes (wr_sges wr))) m)
        (\<lambda>m. bindR (store_bytes (scat + 16 * length (wr_sges wr)) end_bytes m) f) =
      bindR (store_bytes scat (concat (map data_bytes (wr_sges wr)) @ end_bytes) m) f"
      by (rule store_bytes_seq) (simp add: length_data_list)
    then show ?thesis using True n fill by (simp add: entry_bytes_def set_scat_end)
  next
    case False
    then show ?thesis using n fill by (simp add: entry_bytes_def)
  qed
qed

subsection \<open>The signature\<close>

lemma bytes_at_split:
  "k < n \<Longrightarrow> bytes_at m a n = bytes_at m a k @ bytes_at m (a + k) 1 @ bytes_at m (a + Suc k) (n - Suc k)"
proof -
  assume "k < n"
  then have n: "n = k + (1 + (n - Suc k))" by simp
  show ?thesis by (subst n) (simp only: bytes_at_add add.assoc Suc_eq_plus1)
qed

lemma xor_with_byte:
  assumes "k < n"
  shows "calc_xor (bytes_at (upd_bytes (a + k) [x] m) a n) =
    calc_xor (bytes_at m a k) XOR x XOR calc_xor (bytes_at m (a + Suc k) (n - Suc k))"
proof -
  have "bytes_at (upd_bytes (a + k) [x] m) a k = bytes_at m a k"
    by (rule bytes_at_disjoint) simp
  moreover have "bytes_at (upd_bytes (a + k) [x] m) (a + Suc k) (n - Suc k) = bytes_at m (a + Suc k) (n - Suc k)"
    by (rule bytes_at_disjoint) simp
  moreover have "bytes_at (upd_bytes (a + k) [x] m) (a + k) 1 = [x]"
    by (rule bytes_at_same') simp
  ultimately show ?thesis unfolding bytes_at_split [OF assms, of "upd_bytes (a + k) [x] m"]
    by (simp add: ac_simps)
qed

text \<open>What the adapter checks: the XOR of the entry, the queue number and the index is all ones.\<close>

definition signed_entry :: "mlx5_srq \<Rightarrow> nat \<Rightarrow> nat \<Rightarrow> u16 \<Rightarrow> memory \<Rightarrow> bool" where
  "signed_entry srq nxt sz idx m \<longleftrightarrow>
     calc_xor (bytes_at m nxt sz) XOR calc_xor (le32 (srq_srqn srq)) XOR calc_xor (le16 idx) = NOT 0"

lemma set_sig_seg_ok:
  assumes "mapped m nxt sz" "4 < sz"
  shows "\<exists>b. set_sig_seg srq nxt sz idx m = Inr (upd_bytes (nxt + 4) [b] m) \<and>
    signed_entry srq nxt sz idx (upd_bytes (nxt + 4) [b] m)"
proof -
  let ?q = "calc_xor (le32 (srq_srqn srq)) XOR calc_xor (le16 idx)"
  let ?m0 = "upd_bytes (nxt + 4) [0] m"
  let ?r = "calc_xor (bytes_at m nxt 4) XOR calc_xor (bytes_at m (nxt + 5) (sz - 5))"
  let ?b = "NOT (?r XOR ?q)"
  have m1: "mapped m (nxt + 4) 1" by (rule mapped_sub [OF assms(1)]) (use assms(2) in simp_all)
  have x0: "calc_xor (bytes_at ?m0 nxt sz) = ?r"
    using xor_with_byte [OF assms(2), of nxt 0 m] by (simp add: numeral_eq_Suc)
  have twice: "upd_bytes (nxt + 4) [?b] ?m0 = upd_bytes (nxt + 4) [?b] m" by simp
  have run: "set_sig_seg srq nxt sz idx m = Inr (upd_bytes (nxt + 4) [?b] m)"
    using m1 assms(1) x0 twice
    by (simp add: set_sig_seg_def store8_def Let_def ac_simps del: upd_bytes.simps)
  have "calc_xor (bytes_at (upd_bytes (nxt + 4) [?b] m) nxt sz) = ?r XOR ?b"
    using xor_with_byte [OF assms(2), of nxt ?b m] by (simp add: numeral_eq_Suc ac_simps)
  then have "signed_entry srq nxt sz idx (upd_bytes (nxt + 4) [?b] m)"
    by (simp add: signed_entry_def)
  then show ?thesis using run by blast
qed

subsection \<open>One request\<close>

text \<open>Two memories that differ inside the entry \<open>h\<close> only, behind its link.\<close>

definition body_only :: "mlx5_srq \<Rightarrow> nat \<Rightarrow> memory \<Rightarrow> memory \<Rightarrow> bool" where
  "body_only srq h m m' \<longleftrightarrow>
     (\<forall>x. x < get_wqe srq h + 4 \<or> get_wqe srq h + 2 ^ srq_wqe_shift srq \<le> x \<longrightarrow> m' x = m x)"

lemma body_onlyI: "in_body srq h a (length bs) \<Longrightarrow> body_only srq h m (upd_bytes a bs m)"
  by (auto simp: body_only_def in_body_def upd_bytes_outside)

lemma body_only_trans: "body_only srq h m m' \<Longrightarrow> body_only srq h m' m'' \<Longrightarrow> body_only srq h m m''"
  by (simp add: body_only_def)

lemma post_one_ok:
  assumes geom: "srq_geom srq m" and h: "srq_head srq < srq_max srq"
    and wr: "recv_ok wr" "rnum_sge wr \<le> srq_max_gs srq"
  shows "\<exists>m'. post_one wr nreq srq m =
      Inr (srq\<lparr>srq_wrid := (srq_wrid srq)[srq_head srq := rwr_id wr], srq_head := link_of srq m (srq_head srq)\<rparr>, m') \<and>
    srq_geom srq m' \<and> body_only srq (srq_head srq) m m' \<and> (\<forall>i. link_of srq m' i = link_of srq m i) \<and>
    bytes_at m' (get_wqe srq (srq_head srq) + 16) (length (entry_bytes (srq_max_gs srq) wr)) =
      entry_bytes (srq_max_gs srq) wr \<and>
    (srq_wq_sig srq \<longrightarrow> signed_entry srq (get_wqe srq (srq_head srq)) (2 ^ srq_wqe_shift srq)
       (of_nat (srq_head srq + nreq)) m')"
proof -
  let ?h = "srq_head srq" and ?nxt = "get_wqe srq (srq_head srq)" and ?eb = "entry_bytes (srq_max_gs srq) wr"
  let ?ids = "(srq_wrid srq)[?h := rwr_id wr]" and ?sz = "2 ^ srq_wqe_shift srq :: nat"
  let ?srq = "srq\<lparr>srq_wrid := ?ids, srq_head := link_of srq m ?h\<rparr>"
  let ?m1 = "upd_bytes (?nxt + 16) ?eb m"
  have gs: "0 \<le> srq_max_gs srq" "16 + 16 * nat (srq_max_gs srq) \<le> ?sz" "length (srq_wrid srq) = srq_max srq"
    using geom by (simp_all add: srq_geom_def)
  have len: "length ?eb \<le> 16 * nat (srq_max_gs srq)" by (rule length_entry [OF wr])
  have body: "in_body srq ?h (?nxt + 16) (length ?eb)" using h gs len by (simp add: in_body_def)
  have st: "store_bytes (?nxt + 16) ?eb m = Inr ?m1" using body_mapped [OF geom body] by simp
  have geom1: "srq_geom srq ?m1" using geom by simp
  have run: "post_one wr nreq srq m =
      bindR (if srq_wq_sig srq then set_sig_seg ?srq ?nxt ?sz (of_nat (?h + nreq)) ?m1 else Inr ?m1) (\<lambda>m. Inr (?srq, m))"
    using h gs(3) load_link_ok [OF geom h] st
    by (simp add: post_one_def Let_def entry_stored [OF wr] del: int_nat_eq)
  have same: "bytes_at ?m1 (?nxt + 16) (length ?eb) = ?eb" by simp
  have lk1: "link_of srq ?m1 i = link_of srq m i" for i by (rule link_frame [OF body])
  show ?thesis
  proof (cases "srq_wq_sig srq")
    case False
    then show ?thesis using run geom1 body_onlyI [OF body] lk1 same by (intro exI [of _ ?m1]) simp
  next
    case True
    have big: "4 < ?sz" using gs(2) by simp
    have "in_body srq ?h (?nxt + 4) (?sz - 4)" using h big by (simp add: in_body_def)
    have "mapped ?m1 ?nxt ?sz"
    proof (rule mapped_sub)
      show "mapped ?m1 (srq_buf srq) (srq_max srq * ?sz)" using geom1 by (simp add: srq_geom_def)
      show "srq_buf srq \<le> ?nxt" by (simp add: get_wqe_eq)
      show "?nxt + ?sz \<le> srq_buf srq + srq_max srq * ?sz" by (rule get_wqe_end [OF h])
    qed
    from set_sig_seg_ok [OF this big] obtain b where
      b: "set_sig_seg ?srq ?nxt ?sz (of_nat (?h + nreq)) ?m1 = Inr (upd_bytes (?nxt + 4) [b] ?m1)"
      "signed_entry ?srq ?nxt ?sz (of_nat (?h + nreq)) (upd_bytes (?nxt + 4) [b] ?m1)" by blast
    let ?m2 = "upd_bytes (?nxt + 4) [b] ?m1"
    have body4: "in_body srq ?h (?nxt + 4) (length [b])" using h big by (simp add: in_body_def)
    have "bytes_at ?m2 (?nxt + 16) (length ?eb) = ?eb"
      by (subst bytes_at_disjoint) (simp_all add: same)
    moreover have "link_of srq ?m2 i = link_of srq m i" for i using link_frame [OF body4, of ?m1 i] lk1 by simp
    moreover have "body_only srq ?h m ?m2"
      by (rule body_only_trans [OF body_onlyI [OF body] body_onlyI [OF body4]])
    moreover have "signed_entry srq ?nxt ?sz (of_nat (?h + nreq)) ?m2"
      using b(2) by (simp add: signed_entry_def del: upd_bytes.simps)
    ultimately show ?thesis using run True b(1) geom_upd [OF geom1, of "?nxt + 4" "[b]"]
      by (intro exI [of _ ?m2]) (simp del: upd_bytes.simps)
  qed
qed

lemma post_one_chain:
  assumes ok: "srq_ok srq m (h # j # js)" and wr: "recv_ok wr" "rnum_sge wr \<le> srq_max_gs srq"
  shows "\<exists>m'. post_one wr nreq srq m =
      Inr (srq\<lparr>srq_wrid := (srq_wrid srq)[h := rwr_id wr], srq_head := j\<rparr>, m') \<and>
    srq_ok (srq\<lparr>srq_wrid := (srq_wrid srq)[h := rwr_id wr], srq_head := j\<rparr>) m' (j # js) \<and>
    body_only srq h m m' \<and>
    bytes_at m' (get_wqe srq h + 16) (length (entry_bytes (srq_max_gs srq) wr)) = entry_bytes (srq_max_gs srq) wr \<and>
    (srq_wq_sig srq \<longrightarrow> signed_entry srq (get_wqe srq h) (2 ^ srq_wqe_shift srq) (of_nat (h + nreq)) m')"
proof -
  let ?srq = "srq\<lparr>srq_wrid := (srq_wrid srq)[h := rwr_id wr], srq_head := j\<rparr>"
  have geom: "srq_geom srq m" and hd: "srq_head srq = h" and h: "h < srq_max srq"
    and lk: "link_of srq m h = j" "linked srq m (j # js)" using ok by (auto simp: srq_ok_def)
  obtain m' where m': "post_one wr nreq srq m = Inr (?srq, m')" "srq_geom srq m'" "body_only srq h m m'"
    "\<forall>i. link_of srq m' i = link_of srq m i"
    "bytes_at m' (get_wqe srq h + 16) (length (entry_bytes (srq_max_gs srq) wr)) = entry_bytes (srq_max_gs srq) wr"
    "srq_wq_sig srq \<longrightarrow> signed_entry srq (get_wqe srq h) (2 ^ srq_wqe_shift srq) (of_nat (h + nreq)) m'"
    using post_one_ok [OF geom _ wr, of nreq] h unfolding hd lk(1) by blast
  have "srq_geom ?srq m'" using m'(2) by (simp add: srq_geom_def)
  moreover have "linked ?srq m' (j # js)"
    using lk(2) m'(4) by (subst linked_cong [of _ ?srq m' srq m]) simp_all
  ultimately have "srq_ok ?srq m' (j # js)" using ok by (simp add: srq_ok_def)
  then show ?thesis using m' by blast
qed

section \<open>Posting a list of requests\<close>

text \<open>How many requests are posted when \<open>f\<close> entries are free, and the error that stops the loop.\<close>

fun admitted :: "int \<Rightarrow> nat \<Rightarrow> recv_wr list \<Rightarrow> nat \<times> int" where
  "admitted gs f [] = (0, 0)"
| "admitted gs f (wr # wrs) =
     (if gs < rnum_sge wr then (0, EINVAL)
      else if f \<le> 1 then (0, ENOMEM)
      else (Suc (fst (admitted gs (f - 1) wrs)), snd (admitted gs (f - 1) wrs)))"

lemma admitted_bounds: "fst (admitted gs f wrs) \<le> length wrs" "0 < f \<Longrightarrow> fst (admitted gs f wrs) < f"
  by (induction gs f wrs rule: admitted.induct) auto

lemma admitted_err: "snd (admitted gs f wrs) = 0 \<longleftrightarrow> fst (admitted gs f wrs) = length wrs"
  by (induction gs f wrs rule: admitted.induct) (auto simp: EINVAL_def ENOMEM_def)

text \<open>The identifiers of the requests, each at the entry it got.\<close>

fun put_ids :: "nat list \<Rightarrow> recv_wr list \<Rightarrow> u64 list \<Rightarrow> u64 list" where
  "put_ids (x # xs) (wr # wrs) ids = put_ids xs wrs (ids[x := rwr_id wr])"
| "put_ids _ _ ids = ids"

lemma length_put_ids [simp]: "length (put_ids xs wrs ids) = length ids"
  by (induction xs wrs ids rule: put_ids.induct) simp_all

lemma put_ids_other: "i \<notin> set xs \<Longrightarrow> put_ids xs wrs ids ! i = ids ! i"
  by (induction xs wrs ids rule: put_ids.induct) auto

lemma put_ids_nth:
  "distinct xs \<Longrightarrow> set xs \<subseteq> {..<length ids} \<Longrightarrow> k < length xs \<Longrightarrow> k < length wrs \<Longrightarrow>
   put_ids xs wrs ids ! (xs ! k) = rwr_id (wrs ! k)"
proof (induction xs wrs ids arbitrary: k rule: put_ids.induct)
  case (1 x xs wr wrs ids)
  then show ?case by (cases k) (auto simp: put_ids_other)
qed auto

text \<open>What posting leaves alone in the descriptor of the queue.\<close>

definition same_srq :: "mlx5_srq \<Rightarrow> mlx5_srq \<Rightarrow> bool" where
  "same_srq srq srq' \<longleftrightarrow> srq_buf srq' = srq_buf srq \<and> srq_max srq' = srq_max srq \<and>
     srq_max_gs srq' = srq_max_gs srq \<and> srq_wqe_shift srq' = srq_wqe_shift srq \<and>
     srq_tail srq' = srq_tail srq \<and> srq_db srq' = srq_db srq \<and> srq_counter srq' = srq_counter srq \<and>
     srq_srqn srq' = srq_srqn srq \<and> srq_wq_sig srq' = srq_wq_sig srq"

lemma same_srq_refl [simp]: "same_srq srq srq"
  by (simp add: same_srq_def)

lemma post_srq_loop_ok:
  assumes "srq_ok srq m xs" "\<forall>wr \<in> set wrs. recv_ok wr" "admitted (srq_max_gs srq) (length xs) wrs = (k, err)"
  shows "\<exists>srq' m'. post_srq_loop wrs nreq srq m = Inr (err, drop k wrs, nreq + k, srq', m') \<and>
    srq_ok srq' m' (drop k xs) \<and>
    srq_wrid srq' = put_ids (take k xs) wrs (srq_wrid srq) \<and> same_srq srq srq' \<and>
    (\<forall>x. x < srq_buf srq \<or> srq_buf srq + srq_max srq * 2 ^ srq_wqe_shift srq \<le> x \<longrightarrow> m' x = m x)"
  using assms
proof (induction wrs arbitrary: nreq srq m xs k err)
  case Nil
  have "xs \<noteq> []" using Nil.prems(1) linked_nonempty by (auto simp: srq_ok_def)
  then have "srq_head srq = xs ! 0" using Nil.prems(1) by (simp add: srq_ok_def hd_conv_nth)
  then show ?case using Nil by simp
next
  case (Cons wr wrs)
  have ne: "xs \<noteq> []" using Cons.prems(1) linked_nonempty by (auto simp: srq_ok_def)
  have hd: "srq_head srq = xs ! 0" using Cons.prems(1) ne by (simp add: srq_ok_def hd_conv_nth)
  show ?case
  proof (cases "srq_max_gs srq < rnum_sge wr")
    case True
    then have "k = 0" "err = EINVAL" using Cons.prems(3) by simp_all
    then show ?thesis using True Cons.prems(1) hd by simp
  next
    case gs: False
    show ?thesis
    proof (cases "length xs \<le> 1")
      case True
      then obtain x where x: "xs = [x]" using ne by (cases xs) auto
      then have full: "srq_head srq = srq_tail srq" using Cons.prems(1) by (simp add: srq_ok_def)
      have "k = 0" "err = ENOMEM" using Cons.prems(3) gs x by simp_all
      then show ?thesis using full gs Cons.prems(1) hd x by simp
    next
      case False
      then obtain h j js where x: "xs = h # j # js" by (metis One_nat_def Suc_le_length_iff not_less_eq_eq)
      have full: "srq_head srq \<noteq> srq_tail srq"
      proof -
        have "linked srq m xs" using Cons.prems(1) by (simp add: srq_ok_def)
        then have "last xs = srq_tail srq" by (rule linked_last)
        moreover have "last xs \<in> set (j # js)" unfolding x by (metis last_ConsR last_in_set list.distinct(1))
        ultimately have "srq_tail srq \<in> set (j # js)" by simp
        moreover have "srq_head srq = h" "h \<notin> set (j # js)" using Cons.prems(1) by (auto simp: srq_ok_def x)
        ultimately show ?thesis by metis
      qed
      have wr: "recv_ok wr" "rnum_sge wr \<le> srq_max_gs srq" using Cons.prems(2) gs by auto
      define s1 where "s1 = srq\<lparr>srq_wrid := (srq_wrid srq)[h := rwr_id wr], srq_head := j\<rparr>"
      have s1: "srq_max_gs s1 = srq_max_gs srq" "srq_buf s1 = srq_buf srq" "srq_max s1 = srq_max srq"
        "srq_wqe_shift s1 = srq_wqe_shift srq" "srq_wrid s1 = (srq_wrid srq)[h := rwr_id wr]" "same_srq srq s1"
        by (simp_all add: s1_def same_srq_def)
      obtain m1 where m1: "post_one wr nreq srq m = Inr (s1, m1)" "srq_ok s1 m1 (j # js)"
        "body_only srq h m m1"
        using post_one_chain [OF Cons.prems(1) [unfolded x] wr] unfolding s1_def by blast
      have h: "h < srq_max srq" using Cons.prems(1) by (simp add: srq_ok_def x)
      obtain k' where k: "k = Suc k'" "admitted (srq_max_gs s1) (length (j # js)) wrs = (k', err)"
        using Cons.prems(3) gs False by (cases "admitted (srq_max_gs srq) (length (j # js)) wrs") (simp add: x s1)
      have wrs: "\<forall>wr \<in> set wrs. recv_ok wr" using Cons.prems(2) by simp
      obtain srq' m' where IH: "post_srq_loop wrs (Suc nreq) s1 m1 = Inr (err, drop k' wrs, Suc nreq + k', srq', m')"
        "srq_ok srq' m' (drop k' (j # js))"
        "srq_wrid srq' = put_ids (take k' (j # js)) wrs (srq_wrid s1)" "same_srq s1 srq'"
        "\<forall>x. x < srq_buf s1 \<or> srq_buf s1 + srq_max s1 * 2 ^ srq_wqe_shift s1 \<le> x \<longrightarrow> m' x = m1 x"
        using Cons.IH [OF m1(2) wrs k(2), of "Suc nreq"] by blast
      have out: "m1 x = m x" if "x < srq_buf srq \<or> srq_buf srq + srq_max srq * 2 ^ srq_wqe_shift srq \<le> x" for x
        using m1(3) that get_wqe_end [OF h] by (auto simp: body_only_def get_wqe_eq)
      have "post_srq_loop (wr # wrs) nreq srq m = Inr (err, drop k (wr # wrs), nreq + k, srq', m')"
        using gs full m1(1) IH(1) k(1) by simp
      moreover have "srq_ok srq' m' (drop k xs)" using IH(2) by (simp add: k(1) x)
      moreover have "srq_wrid srq' = put_ids (take k xs) (wr # wrs) (srq_wrid srq)"
        using IH(3) by (simp add: k(1) x s1)
      moreover have "same_srq srq srq'" using IH(4) s1(6) by (simp add: same_srq_def)
      moreover have "\<forall>x. x < srq_buf srq \<or> srq_buf srq + srq_max srq * 2 ^ srq_wqe_shift srq \<le> x \<longrightarrow> m' x = m x"
        using IH(5) out by (simp add: s1)
      ultimately show ?thesis by blast
    qed
  qed
qed

lemma counter_geom: "srq_geom srq m \<Longrightarrow> srq_geom (srq\<lparr>srq_counter := c\<rparr>) m"
  by (simp add: srq_geom_def)

text \<open>Writing outside the buffer keeps the chain; the doorbell record is outside it.\<close>

lemma outside_ok:
  assumes ok: "srq_ok srq m xs"
    and out: "a + length bs \<le> srq_buf srq \<or> srq_buf srq + srq_max srq * 2 ^ srq_wqe_shift srq \<le> a"
  shows "srq_ok srq (upd_bytes a bs m) xs"
proof -
  have geom: "srq_geom srq m" using ok by (simp add: srq_ok_def)
  let ?m = "upd_bytes a bs m"
  have "link_of srq ?m i = link_of srq m i" if "i < srq_max srq" for i
  proof -
    have "srq_buf srq \<le> get_wqe srq i" by (simp add: get_wqe_eq)
    moreover have "get_wqe srq i + 16 \<le> srq_buf srq + srq_max srq * 2 ^ srq_wqe_shift srq"
      using get_wqe_end [OF that] srq_geom_shift [OF geom] by linarith
    ultimately have "bytes_at ?m (get_wqe srq i + 2) 2 = bytes_at m (get_wqe srq i + 2) 2"
      using out by (intro bytes_at_disjoint) auto
    then show ?thesis by (simp add: link_of_def)
  qed
  moreover have "i < srq_max srq" if "i \<in> set (butlast xs)" for i
    using ok in_set_butlastD [OF that] by (auto simp: srq_ok_def)
  ultimately have "linked srq ?m xs = linked srq m xs"
    by (intro linked_cong) simp_all
  then show ?thesis using ok geom by (simp add: srq_ok_def)
qed

lemma srq_ok_counter: "srq_ok (srq\<lparr>srq_counter := c\<rparr>) m xs = srq_ok srq m xs"
proof -
  have "linked (srq\<lparr>srq_counter := c\<rparr>) m xs = linked srq m xs" by (rule linked_cong) simp_all
  then show ?thesis by (simp add: srq_ok_def srq_geom_def)
qed

lemma doorbell_ok:
  assumes ok: "srq_ok srq m xs"
  shows "\<exists>m'. store32 (srq_db srq) v m = Inr m' \<and> srq_ok (srq\<lparr>srq_counter := c\<rparr>) m' xs \<and>
    m' = upd_bytes (srq_db srq) (le32 v) m"
proof -
  have geom: "srq_geom srq m" using ok by (simp add: srq_ok_def)
  have "store32 (srq_db srq) v m = Inr (upd_bytes (srq_db srq) (le32 v) m)"
    using geom by (simp add: store32_def srq_geom_def)
  moreover have "srq_ok srq (upd_bytes (srq_db srq) (le32 v) m) xs"
    by (rule outside_ok [OF ok]) (use geom in \<open>auto simp: srq_geom_def\<close>)
  ultimately show ?thesis by (simp add: srq_ok_counter)
qed

text \<open>The whole call.\<close>

lemma mlx5_post_srq_recv_ok:
  assumes ok: "srq_ok srq m xs" and wrs: "\<forall>wr \<in> set wrs. recv_ok wr"
    and k: "admitted (srq_max_gs srq) (length xs) wrs = (k, err)"
  shows "\<exists>srq' m'. mlx5_post_srq_recv wrs srq m = Inr (err, drop k wrs, srq', m') \<and>
    srq_ok srq' m' (drop k xs) \<and> srq_wrid srq' = put_ids (take k xs) wrs (srq_wrid srq) \<and>
    srq_counter srq' = srq_counter srq + of_nat k \<and> srq_max srq' = srq_max srq \<and>
    (0 < k \<longrightarrow> bytes_at m' (srq_db srq) 4 = be32 (ucast (srq_counter srq')))"
proof -
  obtain srq' m' where r: "post_srq_loop wrs 0 srq m = Inr (err, drop k wrs, k, srq', m')"
    "srq_ok srq' m' (drop k xs)"
    "srq_wrid srq' = put_ids (take k xs) wrs (srq_wrid srq)" "same_srq srq srq'"
    using post_srq_loop_ok [OF ok wrs k, of 0] by auto
  show ?thesis
  proof (cases "k = 0")
    case True
    then show ?thesis using r by (simp add: mlx5_post_srq_recv_def same_srq_def)
  next
    case False
    let ?c = "srq_counter srq + of_nat k"
    obtain m2 where m2: "store32 (srq_db srq') (htonl (ucast ?c)) m' = Inr m2"
      "srq_ok (srq'\<lparr>srq_counter := ?c\<rparr>) m2 (drop k xs)" "m2 = upd_bytes (srq_db srq') (le32 (htonl (ucast ?c))) m'"
      using doorbell_ok [OF r(2)] by blast
    have "bytes_at m2 (srq_db srq) 4 = be32 (ucast ?c)"
      unfolding m2(3) using r(4) by (simp add: bytes_at_same' same_srq_def)
    then show ?thesis using r m2(1,2) False
      by (intro exI [of _ "srq'\<lparr>srq_counter := ?c\<rparr>"] exI [of _ m2])
        (simp add: mlx5_post_srq_recv_def Let_def same_srq_def)
  qed
qed

text \<open>One request: what its entry holds when the call has returned.\<close>

lemma post_single_ok:
  assumes ok: "srq_ok srq m (h # j # js)" and wr: "recv_ok wr" "rnum_sge wr \<le> srq_max_gs srq"
  shows "\<exists>srq' m'. mlx5_post_srq_recv [wr] srq m = Inr (0, [], srq', m') \<and>
    bytes_at m' (get_wqe srq h + 16) (length (entry_bytes (srq_max_gs srq) wr)) = entry_bytes (srq_max_gs srq) wr \<and>
    (srq_wq_sig srq \<longrightarrow> signed_entry srq (get_wqe srq h) (2 ^ srq_wqe_shift srq) (of_nat h) m')"
proof -
  let ?srq = "srq\<lparr>srq_wrid := (srq_wrid srq)[h := rwr_id wr], srq_head := j\<rparr>"
  let ?c = "srq_counter srq + 1"
  obtain m1 where m1: "post_one wr 0 srq m = Inr (?srq, m1)" "srq_ok ?srq m1 (j # js)" "body_only srq h m m1"
    "bytes_at m1 (get_wqe srq h + 16) (length (entry_bytes (srq_max_gs srq) wr)) = entry_bytes (srq_max_gs srq) wr"
    "srq_wq_sig srq \<longrightarrow> signed_entry srq (get_wqe srq h) (2 ^ srq_wqe_shift srq) (of_nat h) m1"
    using post_one_chain [OF ok wr, of 0] by auto
  have geom: "srq_geom srq m" and h: "h < srq_max srq" "srq_head srq = h"
    using ok by (auto simp: srq_ok_def)
  have lk: "linked srq m (h # j # js)" and "h \<notin> set (j # js)" using ok by (auto simp: srq_ok_def)
  moreover have "srq_tail srq \<in> set (j # js)"
    using linked_last [OF lk] last_in_set [of "j # js"] by simp
  ultimately have ht: "srq_head srq \<noteq> srq_tail srq" using h(2) by metis
  let ?m' = "upd_bytes (srq_db srq) (le32 (htonl (ucast ?c))) m1"
  have db: "store32 (srq_db srq) (htonl (ucast ?c)) m1 = Inr ?m'"
    using doorbell_ok [OF m1(2), of "htonl (ucast ?c)" ?c] by auto
  have run: "mlx5_post_srq_recv [wr] srq m = Inr (0, [], ?srq\<lparr>srq_counter := ?c\<rparr>, ?m')"
    using wr(2) ht m1(1) db by (simp add: mlx5_post_srq_recv_def Let_def)
  have in_buf: "srq_buf srq \<le> get_wqe srq h" "get_wqe srq h + 2 ^ srq_wqe_shift srq \<le>
      srq_buf srq + srq_max srq * 2 ^ srq_wqe_shift srq"
    using get_wqe_end [OF h(1)] by (simp_all add: get_wqe_eq)
  have "16 + length (entry_bytes (srq_max_gs srq) wr) \<le> 2 ^ srq_wqe_shift srq"
    using length_entry [OF wr] geom by (simp add: srq_geom_def)
  then have "bytes_at ?m' (get_wqe srq h + 16) (length (entry_bytes (srq_max_gs srq) wr)) =
      bytes_at m1 (get_wqe srq h + 16) (length (entry_bytes (srq_max_gs srq) wr))"
    "bytes_at ?m' (get_wqe srq h) (2 ^ srq_wqe_shift srq) = bytes_at m1 (get_wqe srq h) (2 ^ srq_wqe_shift srq)"
    using in_buf geom unfolding srq_geom_def by (auto intro!: bytes_at_disjoint)
  then have "bytes_at ?m' (get_wqe srq h + 16) (length (entry_bytes (srq_max_gs srq) wr)) = entry_bytes (srq_max_gs srq) wr"
    "srq_wq_sig srq \<longrightarrow> signed_entry srq (get_wqe srq h) (2 ^ srq_wqe_shift srq) (of_nat h) ?m'"
    using m1(4,5) unfolding signed_entry_def by simp_all
  then show ?thesis using run by blast
qed

section \<open>Putting an entry back and taking another for its request\<close>

lemma tl_linked: "linked srq m xs \<Longrightarrow> tl xs \<noteq> [] \<Longrightarrow> linked srq m (tl xs) \<and> link_of srq m (hd xs) = hd (tl xs)"
  by (cases "(srq, m, xs)" rule: linked.cases) auto

lemma copy_scat_frame:
  assumes "srq_geom srq m" "h < srq_max srq" "ind < srq_max srq" "0 \<le> i" "n \<le> srq_max_gs srq"
  shows "\<exists>m'. copy_scat (get_wqe srq h + 16) (get_wqe srq ind + 16) i n m = Inr m' \<and> srq_geom srq m' \<and>
    body_only srq h m m' \<and> (\<forall>j. link_of srq m' j = link_of srq m j)"
  using assms
proof (induction "nat (n - i)" arbitrary: i m rule: less_induct)
  case less
  show ?case
  proof (cases "i < n")
    case False
    then show ?thesis using less.prems by (subst copy_scat.simps) (simp add: body_only_def)
  next
    case True
    have i: "nat i < nat (srq_max_gs srq)" using True less.prems by linarith
    have gs: "16 + 16 * nat (srq_max_gs srq) \<le> 2 ^ srq_wqe_shift srq" using less.prems(1) by (simp add: srq_geom_def)
    have src: "in_body srq ind (get_wqe srq ind + 16 + 16 * nat i) 16"
      and dst: "in_body srq h (get_wqe srq h + 16 + 16 * nat i) 16"
      using i gs less.prems(2,3) by (auto simp: in_body_def)
    let ?bs = "bytes_at m (get_wqe srq ind + 16 + 16 * nat i) 16"
    let ?m = "upd_bytes (get_wqe srq h + 16 + 16 * nat i) ?bs m"
    have run: "copy_scat (get_wqe srq h + 16) (get_wqe srq ind + 16) i n m =
        (if of_le32 (take 4 (drop 4 ?bs)) = htonl MLX5_INVALID_LKEY then Inr ?m
         else copy_scat (get_wqe srq h + 16) (get_wqe srq ind + 16) (i + 1) n ?m)"
      using True body_mapped [OF less.prems(1) src] body_mapped [OF less.prems(1) dst]
      by (subst copy_scat.simps) simp
    have dst': "in_body srq h (get_wqe srq h + 16 + 16 * nat i) (length ?bs)" using dst by simp
    note frame = body_onlyI [OF dst', of m] link_frame [OF dst', of m]
    show ?thesis
    proof (cases "of_le32 (take 4 (drop 4 ?bs)) = htonl MLX5_INVALID_LKEY")
      case True
      then show ?thesis using run frame less.prems(1) by (intro exI [of _ ?m]) simp
    next
      case False
      obtain m' where "copy_scat (get_wqe srq h + 16) (get_wqe srq ind + 16) (i + 1) n ?m = Inr m'"
        "srq_geom srq m'" "body_only srq h ?m m'" "\<forall>j. link_of srq m' j = link_of srq ?m j"
        using less.hyps [of "i + 1" ?m] less.prems True by auto
      then show ?thesis using run False frame body_only_trans [OF frame(1)]
        by (intro exI [of _ m']) simp
    qed
  qed
qed

text \<open>The memory outside the buffer and the doorbell record.\<close>

definition srq_apart :: "mlx5_srq \<Rightarrow> nat \<Rightarrow> bool" where
  "srq_apart srq x \<longleftrightarrow> (x < srq_buf srq \<or> srq_buf srq + srq_max srq * 2 ^ srq_wqe_shift srq \<le> x) \<and>
     (x < srq_db srq \<or> srq_db srq + 4 \<le> x)"

lemma body_only_apart:
  "body_only srq h m m' \<Longrightarrow> h < srq_max srq \<Longrightarrow> srq_apart srq x \<Longrightarrow> m' x = m x"
  using get_wqe_end [of h srq] by (auto simp: body_only_def srq_apart_def get_wqe_eq)

lemma requeue_frame:
  assumes ok: "srq_ok srq m xs" and ind: "ind < srq_max srq" "ind \<notin> set xs"
  shows "\<exists>m'. mlx5_requeue_srq_wqe ind srq m = Inr (srq\<lparr>srq_wrid := (srq_wrid srq)[hd xs := srq_wrid srq ! ind],
      srq_tail := ind, srq_head := hd (tl (xs @ [ind])), srq_counter := srq_counter srq + 1\<rparr>, m') \<and>
    srq_ok (srq\<lparr>srq_wrid := (srq_wrid srq)[hd xs := srq_wrid srq ! ind],
      srq_tail := ind, srq_head := hd (tl (xs @ [ind])), srq_counter := srq_counter srq + 1\<rparr>) m' (tl (xs @ [ind])) \<and>
    (\<forall>x. srq_apart srq x \<longrightarrow> m' x = m x)"
proof -
  have geom: "srq_geom srq m" and hd: "srq_head srq = hd xs" and lk0: "linked srq m xs" using ok by (auto simp: srq_ok_def)
  have ne: "xs \<noteq> []" by (rule linked_nonempty [OF lk0])
  have h: "hd xs < srq_max srq" using ok ne hd_in_set by (fastforce simp: srq_ok_def)
  have len: "length (srq_wrid srq) = srq_max srq" using geom by (simp add: srq_geom_def)
  obtain m1 where m1: "mlx5_free_srq_wqe ind srq m = Inr (srq\<lparr>srq_tail := ind\<rparr>, m1)"
    "srq_ok (srq\<lparr>srq_tail := ind\<rparr>) m1 (xs @ [ind])"
    using mlx5_free_srq_wqe_ok [OF ok ind] by blast
  have st: "store_link srq (srq_tail srq) ind m = Inr m1"
    using m1(1) by (auto simp: mlx5_free_srq_wqe_def bindR_eq_Inr)
  have f1: "m1 x = m x" if "srq_apart srq x" for x
    using free_srq_wqe_store [OF ok m1(1)] that by (auto simp: srq_apart_def intro!: upd_bytes_outside)
  let ?t = "srq\<lparr>srq_tail := ind\<rparr>"
  have geom1: "srq_geom srq m1" using m1(2) by (simp add: srq_ok_def srq_geom_def)
  have lk: "linked ?t m1 (tl (xs @ [ind]))" "link_of srq m1 (hd xs) = hd (tl (xs @ [ind]))"
    using tl_linked [of ?t m1 "xs @ [ind]"] m1(2) ne by (simp_all add: srq_ok_def)
  obtain m2 where m2: "copy_scat (get_wqe srq (hd xs) + 16) (get_wqe srq ind + 16) 0 (srq_max_gs srq) m1 = Inr m2"
    "srq_geom srq m2" "\<forall>j. link_of srq m2 j = link_of srq m1 j" "body_only srq (hd xs) m1 m2"
    using copy_scat_frame [OF geom1 h ind(1), of 0 "srq_max_gs srq"] by auto
  have "\<exists>m3. (if srq_wq_sig srq then set_sig_seg srq (get_wqe srq (hd xs)) (2 ^ srq_wqe_shift srq) (of_nat (hd xs)) m2
      else Inr m2) = Inr m3 \<and> srq_geom srq m3 \<and> (\<forall>j. link_of srq m3 j = link_of srq m2 j) \<and> body_only srq (hd xs) m2 m3"
  proof (cases "srq_wq_sig srq")
    case True
    have big: "4 < (2::nat) ^ srq_wqe_shift srq" using srq_geom_shift [OF geom] by simp
    have "mapped m2 (get_wqe srq (hd xs)) (2 ^ srq_wqe_shift srq)"
      by (rule mapped_sub [of m2 "srq_buf srq" "srq_max srq * 2 ^ srq_wqe_shift srq"])
        (use m2(2) get_wqe_end [OF h] in \<open>simp_all add: srq_geom_def get_wqe_eq\<close>)
    from set_sig_seg_ok [OF this big, of srq "of_nat (hd xs)"] obtain b where
      b: "set_sig_seg srq (get_wqe srq (hd xs)) (2 ^ srq_wqe_shift srq) (of_nat (hd xs)) m2 =
        Inr (upd_bytes (get_wqe srq (hd xs) + 4) [b] m2)" by blast
    have "in_body srq (hd xs) (get_wqe srq (hd xs) + 4) (length [b])" using h big by (simp add: in_body_def)
    then show ?thesis using True b m2(2) link_frame body_onlyI by (simp del: upd_bytes.simps)
  qed (use m2 in \<open>simp add: body_only_def\<close>)
  then obtain m3 where m3: "(if srq_wq_sig srq
      then set_sig_seg srq (get_wqe srq (hd xs)) (2 ^ srq_wqe_shift srq) (of_nat (hd xs)) m2
      else Inr m2) = Inr m3" "srq_geom srq m3" "\<forall>j. link_of srq m3 j = link_of srq m2 j"
    "body_only srq (hd xs) m2 m3" by blast
  define s where "s = srq\<lparr>srq_wrid := (srq_wrid srq)[hd xs := srq_wrid srq ! ind], srq_tail := ind,
    srq_head := hd (tl (xs @ [ind]))\<rparr>"
  have "linked s m3 (tl (xs @ [ind]))"
    using lk(1) m3(3) m2(3) by (subst linked_cong [of _ s m3 ?t m1]) (simp_all add: s_def)
  moreover have "srq_geom s m3" using m3(2) by (simp add: s_def srq_geom_def)
  moreover have "set (tl (xs @ [ind])) \<subseteq> set (xs @ [ind])" by (cases xs) auto
  then have "distinct (tl (xs @ [ind]))" "set (tl (xs @ [ind])) \<subseteq> {..<srq_max s}"
    using m1(2) by (auto simp: srq_ok_def s_def distinct_tl)
  ultimately have "srq_ok s m3 (tl (xs @ [ind]))" by (simp add: srq_ok_def s_def)
  from doorbell_ok [OF this, of "htonl (ucast (srq_counter srq + 1))" "srq_counter srq + 1"]
  obtain m4 where m4: "store32 (srq_db srq) (htonl (ucast (srq_counter srq + 1))) m3 = Inr m4"
    "srq_ok (s\<lparr>srq_counter := srq_counter srq + 1\<rparr>) m4 (tl (xs @ [ind]))"
    "m4 = upd_bytes (srq_db srq) (le32 (htonl (ucast (srq_counter srq + 1)))) m3"
    by (auto simp: s_def)
  have f4: "m4 x = m x" if x: "srq_apart srq x" for x
  proof -
    have "m4 x = m3 x" unfolding m4(3) by (rule upd_bytes_outside) (use x in \<open>auto simp: srq_apart_def\<close>)
    also have "\<dots> = m1 x" using body_only_apart [OF m3(4) h x] body_only_apart [OF m2(4) h x] by simp
    finally show ?thesis using f1 [OF x] by simp
  qed
  have "mlx5_requeue_srq_wqe ind srq m = Inr (s\<lparr>srq_counter := srq_counter srq + 1\<rparr>, m4)"
    using ind(1) h len hd st load_link_ok [OF geom1 h] lk(2) m2(1) m3(1) m4(1)
    by (cases "srq_wq_sig srq") (simp_all add: mlx5_requeue_srq_wqe_def s_def Let_def)
  then show ?thesis using m4(2) f4 by (simp add: s_def)
qed

lemma requeue_ok:
  assumes "srq_ok srq m xs" and "ind < srq_max srq" "ind \<notin> set xs"
  shows "\<exists>srq' m'. mlx5_requeue_srq_wqe ind srq m = Inr (srq', m') \<and> srq_ok srq' m' (tl (xs @ [ind])) \<and>
    srq_wrid srq' = (srq_wrid srq)[hd xs := srq_wrid srq ! ind] \<and> srq_counter srq' = srq_counter srq + 1"
proof -
  let ?s = "srq\<lparr>srq_wrid := (srq_wrid srq)[hd xs := srq_wrid srq ! ind],
      srq_tail := ind, srq_head := hd (tl (xs @ [ind])), srq_counter := srq_counter srq + 1\<rparr>"
  obtain m' where "mlx5_requeue_srq_wqe ind srq m = Inr (?s, m')" "srq_ok ?s m' (tl (xs @ [ind]))"
    using requeue_frame [OF assms] by blast
  then show ?thesis by (intro exI [of _ ?s] exI [of _ m']) simp
qed

section \<open>A new queue\<close>

lemma ilog2_pow: "mlx5_ilog2 (2 ^ k) = int k"
proof -
  have "ilog2_from t (2 ^ k) = k" if "t \<le> k" for t
    using that
  proof (induction "k - t" arbitrary: t)
    case 0
    then show ?case by (subst ilog2_from.simps) simp
  next
    case (Suc d)
    then have "(2::nat) ^ t < 2 ^ k" "ilog2_from (Suc t) (2 ^ k) = k" by simp_all
    then show ?case by (subst ilog2_from.simps) simp
  qed
  then show ?thesis by (simp add: mlx5_ilog2_def)
qed

lemma ring_next:
  assumes "i < 2 ^ k" "k \<le> 16"
  shows "unat ((of_nat (i + 1) :: u32) AND (of_nat (2 ^ k) - 1)) = (i + 1) mod 2 ^ k"
proof -
  have "(2::nat) ^ k \<le> 2 ^ 16" using assms(2) by (intro power_increasing) auto
  then have "i + 1 < 2 ^ 32" using assms(1) by simp
  then have "unat (of_nat (i + 1) :: u32) = i + 1" by (simp only: unat_of_nat) simp
  moreover have "(of_nat (2 ^ k) :: u32) - 1 = mask k" by (simp add: mask_eq_exp_minus_1)
  ultimately show ?thesis by (simp add: unat_and_mask)
qed

lemma link_all_ok:
  assumes "srq_geom srq m" "srq_max srq = 2 ^ k" "k \<le> 16" "i \<le> srq_max srq"
  shows "\<exists>m'. link_all srq i m = Inr m' \<and> srq_geom srq m' \<and>
    (\<forall>j < srq_max srq. link_of srq m' j = (if i \<le> j then (j + 1) mod srq_max srq else link_of srq m j)) \<and>
    (\<forall>x. x < srq_buf srq \<or> srq_buf srq + srq_max srq * 2 ^ srq_wqe_shift srq \<le> x \<longrightarrow> m' x = m x)"
  using assms
proof (induction "srq_max srq - i" arbitrary: i m)
  case 0
  then show ?case by (subst link_all.simps) simp
next
  case (Suc d)
  have i: "i < srq_max srq" and d: "d = srq_max srq - (i + 1)" using Suc.hyps(2) by simp_all
  have p16: "(2::nat) ^ k \<le> 65536" using power_increasing [OF Suc.prems(3), of "2::nat"] by simp
  let ?v = "(i + 1) mod srq_max srq"
  have v: "unat ((of_nat (i + 1) :: u32) AND (of_nat (srq_max srq) - 1)) = ?v"
    using ring_next [of i k] i Suc.prems(3) unfolding Suc.prems(2) by blast
  have "?v < srq_max srq" using i by simp
  then have v16: "?v < 65536" by (rule order_less_le_trans) (use p16 Suc.prems(2) in simp)
  obtain m1 where m1: "store_link srq i ?v m = Inr m1" "srq_geom srq m1"
    "\<forall>j. link_of srq m1 j = (if j = i then ?v else link_of srq m j)"
    "m1 = upd_bytes (get_wqe srq i + 2) (le16 (htons (of_nat ?v))) m"
    using store_link_ok [OF Suc.prems(1) i v16] by blast
  obtain m' where m': "link_all srq (i + 1) m1 = Inr m'" "srq_geom srq m'"
    "\<forall>j < srq_max srq. link_of srq m' j = (if i + 1 \<le> j then (j + 1) mod srq_max srq else link_of srq m1 j)"
    "\<forall>x. x < srq_buf srq \<or> srq_buf srq + srq_max srq * 2 ^ srq_wqe_shift srq \<le> x \<longrightarrow> m' x = m1 x"
    using Suc.hyps(1) [OF d m1(2) Suc.prems(2,3)] i by auto
  have "link_all srq i m = Inr m'"
    using i v m1(1) m'(1) by (subst link_all.simps) (simp del: of_nat_add)
  moreover have "link_of srq m' j = (if i \<le> j then (j + 1) mod srq_max srq else link_of srq m j)"
    if "j < srq_max srq" for j
    using m'(3) m1(3) that by (cases "j = i") auto
  moreover have "m' x = m x" if "x < srq_buf srq \<or> srq_buf srq + srq_max srq * 2 ^ srq_wqe_shift srq \<le> x" for x
  proof -
    have "get_wqe srq i + 4 \<le> srq_buf srq + srq_max srq * 2 ^ srq_wqe_shift srq"
      using get_wqe_end [OF i] srq_geom_shift [OF Suc.prems(1)] by linarith
    moreover have "srq_buf srq \<le> get_wqe srq i" by (simp add: get_wqe_eq)
    ultimately have "m1 x = m x" using that unfolding m1(4) by (intro upd_bytes_outside) auto
    moreover have "m' x = m1 x" using m'(4) that by blast
    ultimately show ?thesis by simp
  qed
  ultimately show ?case using m'(2) by blast
qed

lemma linked_ring:
  assumes "srq_tail srq = n - 1" "0 < n" "\<And>j. j < n \<Longrightarrow> link_of srq m j = (j + 1) mod n"
  shows "i < n \<Longrightarrow> linked srq m [i..<n]"
proof (induction "n - i" arbitrary: i)
  case 0
  then show ?case by simp
next
  case (Suc d)
  show ?case
  proof (cases "Suc i = n")
    case True
    then show ?thesis using assms(1) by (auto simp: upt_rec [of i])
  next
    case False
    then have "Suc i < n" using Suc.prems by simp
    moreover have "linked srq m [Suc i..<n]" using Suc.hyps calculation by simp
    moreover have "[i..<n] = i # Suc i # [Suc (Suc i)..<n]" "[Suc i..<n] = Suc i # [Suc (Suc i)..<n]"
      using calculation(1) by (simp_all add: upt_conv_Cons)
    ultimately show ?thesis using assms(3) [OF Suc.prems] by simp
  qed
qed

lemma power_room: "k \<le> 16 \<Longrightarrow> (2::nat) ^ k \<le> 65536"
  using power_increasing [of k 16 "2::nat"] by simp

text \<open>The buffer, once zeroed and linked, holds one chain of all the entries.\<close>

lemma fresh_chain:
  assumes "srq_geom srq m" "srq_max srq = 2 ^ k" "k \<le> 16" "srq_head srq = 0" "srq_tail srq = srq_max srq - 1"
  shows "\<exists>m'. link_all srq 0 m = Inr m' \<and> srq_ok srq m' [0..<srq_max srq] \<and>
    (\<forall>x. x < srq_buf srq \<or> srq_buf srq + srq_max srq * 2 ^ srq_wqe_shift srq \<le> x \<longrightarrow> m' x = m x)"
proof -
  obtain m' where m': "link_all srq 0 m = Inr m'" "srq_geom srq m'"
    "\<forall>j < srq_max srq. link_of srq m' j = (j + 1) mod srq_max srq"
    "\<forall>x. x < srq_buf srq \<or> srq_buf srq + srq_max srq * 2 ^ srq_wqe_shift srq \<le> x \<longrightarrow> m' x = m x"
    using link_all_ok [OF assms(1-3), of 0] by auto
  have pos: "0 < srq_max srq" using assms(2) by simp
  have "linked srq m' [0..<srq_max srq]"
    by (rule linked_ring [OF assms(5) pos _ pos]) (use m'(3) in blast)
  then have "srq_ok srq m' [0..<srq_max srq]"
    using m'(2) assms(4) pos by (auto simp: srq_ok_def hd_upt)
  then show ?thesis using m'(1,4) by blast
qed

text \<open>The size of an entry is a power of two with room for the scatter list asked for.\<close>

lemma entry_size:
  assumes "0 \<le> gs" "gs < 2 ^ 20"
  shows "\<exists>s. mlx5_round_up_power_of_two (max 32 (16 + gs * 16)) = 2 ^ s \<and> 5 \<le> s \<and> s \<le> 25 \<and>
    gs \<le> (2 ^ s - 16) div 16"
proof -
  define n where "n = max 32 (16 + gs * 16)"
  have n: "32 \<le> n" "16 + gs * 16 \<le> n" "n < 33554432" using assms by (auto simp: n_def)
  obtain s where s: "double_until (2 ^ 0) n = 2 ^ s" "n \<le> 2 ^ s" "s = 0 \<or> (2::int) ^ s < 2 * n"
    using double_until_spec [of 0 n] by blast
  have "(2::int) ^ 5 \<le> 2 ^ s" using s(2) n(1) by simp
  then have s5: "5 \<le> s" by (simp only: power_increasing_iff) 
  have "(2::int) ^ s < 2 * n" using s(3) s5 by auto
  then have "(2::int) ^ s < 67108864" using n(3) by linarith
  then have "(2::int) ^ s < 2 ^ 26" by simp
  then have s25: "s \<le> 25" by (simp only: power_strict_increasing_iff)
  then have "(2::int) ^ s \<le> 2 ^ 25" by (intro power_increasing) auto
  then have "mlx5_round_up_power_of_two n = 2 ^ s"
    using s(1) by (simp add: mlx5_round_up_power_of_two_def)
  moreover have "gs \<le> (2 ^ s - 16) div 16" using s(2) n(2) by simp
  ultimately show ?thesis using s5 s25 unfolding n_def by blast
qed

text \<open>What the surroundings give when they have memory: areas that are mapped and apart.\<close>

definition buffers_given :: "srq_answers \<Rightarrow> nat \<Rightarrow> nat \<Rightarrow> memory \<Rightarrow> bool" where
  "buffers_given e n bytes m \<longleftrightarrow> srq_made e \<and> lock_made e \<and>
     (\<exists>ids b db. ids_made e = Some ids \<and> length ids = n \<and> buf_made e = Some b \<and> db_made e = Some db \<and>
        mapped m b (n * bytes) \<and> mapped m db 8 \<and> (db + 8 \<le> b \<or> b + n * bytes \<le> db))"

lemma queue_length:
  fixes max_wr :: u32
  assumes "max_wr < 65536"
  shows "\<exists>k \<le> 16. mlx5_round_up_power_of_two (uint (max_wr + 1)) = 2 ^ k \<and> unat max_wr < 2 ^ k"
proof -
  define n where "n = int (unat max_wr) + 1"
  have w: "unat max_wr < 65536" using assms by (simp add: word_less_nat_alt)
  then have n: "1 \<le> n" "n \<le> 65536" unfolding n_def by linarith+
  have "unat (max_wr + 1) = unat max_wr + 1" using w by (simp add: unat_word_ariths(1))
  then have n': "uint (max_wr + 1) = n" unfolding n_def uint_nat by (simp only: of_nat_add of_nat_1)
  obtain k where k: "double_until (2 ^ 0) n = 2 ^ k" "n \<le> 2 ^ k" "k = 0 \<or> (2::int) ^ k < 2 * n"
    using double_until_spec [of 0 n] by blast
  have "(2::int) ^ k < 2 ^ 17"
  proof (cases "k = 0")
    case False
    then have "(2::int) ^ k < 2 * n" using k(3) by simp
    also have "\<dots> \<le> 2 ^ 17" using n(2) by simp
    finally show ?thesis .
  qed simp
  then have "k < 17" by (rule power_less_imp_less_exp [rotated]) simp
  then have k16: "k \<le> 16" by simp
  then have "(2::int) ^ k \<le> 2 ^ 16" by (intro power_increasing) auto
  then have "mlx5_round_up_power_of_two n = 2 ^ k" using k(1) by (simp add: mlx5_round_up_power_of_two_def)
  moreover have "unat max_wr < 2 ^ k"
  proof -
    have "int (unat max_wr) < 2 ^ k" using k(2) unfolding n_def by linarith
    then have "int (unat max_wr) < int (2 ^ k)" by (simp only: of_nat_power of_nat_numeral)
    then show ?thesis by (simp only: of_nat_less_iff)
  qed
  ultimately show ?thesis using k16 n' by auto
qed

lemma link_all_cong:
  assumes "srq_max s = srq_max t" "get_wqe s = get_wqe t"
  shows "link_all s i m = link_all t i m"
proof (induction "srq_max t - i" arbitrary: i m)
  case 0
  then show ?case using assms by (simp add: link_all.simps [of _ i m])
next
  case (Suc d)
  then have d: "d = srq_max t - (i + 1)" by simp
  have "link_all s (i + 1) = link_all t (i + 1)" by (rule ext) (rule Suc.hyps(1) [OF d])
  then show ?case using assms by (simp add: link_all.simps [of _ i m] store_link_def)
qed

lemma mlx5_alloc_srq_ok:
  assumes wr: "max_wr \<le> max_srq_recv_wr lim" "max_srq_recv_wr lim < 65536"
    and sge: "max_sge \<le> of_int (max_recv_wr lim div 16)" "max_sge < 0x100000"
    and sz: "sz = mlx5_round_up_power_of_two (max 32 (16 + uint max_sge * 16))" "sz \<le> max_rq_desc_sz lim"
    and given: "buffers_given e (nat (mlx5_round_up_power_of_two (uint (max_wr + 1)))) (nat sz) m"
    and small: "mlx5_round_up_power_of_two (uint (max_wr + 1)) * sz < 2 ^ 31"
  shows "\<exists>srq sge m'. mlx5_alloc_srq e lim max_wr max_sge m = Inr (Some srq, sge, m') \<and>
    srq_ok srq m' [0..<srq_max srq] \<and> unat max_wr < srq_max srq \<and> max_sge \<le> sge \<and>
    uint sge = srq_max_gs srq \<and> srq_counter srq = 0 \<and>
    int (srq_max srq) = mlx5_round_up_power_of_two (uint (max_wr + 1))"
proof -
  obtain k where k: "k \<le> 16" "mlx5_round_up_power_of_two (uint (max_wr + 1)) = 2 ^ k" "unat max_wr < 2 ^ k"
    using queue_length [OF le_less_trans [OF wr]] by blast
  have u: "uint max_sge < 2 ^ 20" using sge(2) by (simp add: word_less_def)
  have u0: "0 \<le> uint max_sge" by (rule unsigned_greater_eq)
  have s_u: "sint max_sge = uint max_sge"
    unfolding sint_uint by (rule signed_take_bit_int_eq_self) (use u u0 in \<open>simp; linarith\<close>)+
  obtain s where s: "sz = 2 ^ s" "5 \<le> s" "s \<le> 25" "uint max_sge \<le> (2 ^ s - 16) div 16"
    using entry_size [OF _ u] sz(1) by auto
  have nk: "nat ((2::int) ^ k) = 2 ^ k" "nat ((2::int) ^ s) = 2 ^ s" by (simp_all add: nat_power_eq)
  obtain ids b db where e: "srq_made e" "lock_made e" "ids_made e = Some ids" "length ids = 2 ^ k"
    "buf_made e = Some b" "db_made e = Some db" "mapped m b (2 ^ k * 2 ^ s)" "mapped m db 8"
    "db + 8 \<le> b \<or> b + 2 ^ k * 2 ^ s \<le> db"
    using given by (auto simp: buffers_given_def k(2) s(1) nk)
  let ?gs = "(2 ^ s - 16) div 16 :: int"
  define q where "q = \<lparr>srq_buf = b, srq_wrid = ids, srq_srqn = 0, srq_max = 2 ^ k, srq_max_gs = ?gs,
    srq_wqe_shift = s, srq_head = 0, srq_tail = 2 ^ k - 1, srq_db = db, srq_counter = 0,
    srq_wq_sig = srq_sig_enabled lim\<rparr>"
  let ?m1 = "upd_bytes b (replicate (2 ^ k * 2 ^ s) 0) m"
  have "16 + 16 * ?gs \<le> 2 ^ s" by (simp add: algebra_simps)
  have p5: "(2::int) ^ 5 \<le> 2 ^ s" using s(2) by (intro power_increasing) auto
  have gs: "0 \<le> ?gs" "16 + 16 * nat ?gs \<le> 2 ^ s"
  proof -
    show g0: "0 \<le> ?gs" using p5 by simp
    have "int (16 + 16 * nat ?gs) \<le> int (2 ^ s)" using g0 p5 by simp
    then show "16 + 16 * nat ?gs \<le> 2 ^ s" by (simp only: of_nat_le_iff)
  qed
  have geom: "srq_geom q ?m1"
    using e gs power_room [OF k(1)] mapped_sub [OF e(8), of db 4] by (auto simp: srq_geom_def q_def)
  obtain m2 where m2: "link_all q 0 ?m1 = Inr m2" "srq_ok q m2 [0..<2 ^ k]"
    "\<forall>x. x < b \<or> b + 2 ^ k * 2 ^ s \<le> x \<longrightarrow> m2 x = ?m1 x"
    using fresh_chain [OF geom, of k] k(1) by (auto simp: q_def)
  let ?q0 = "\<lparr>srq_buf = b, srq_wrid = ids, srq_srqn = 0, srq_max = 2 ^ k, srq_max_gs = ?gs,
    srq_wqe_shift = s, srq_head = 0, srq_tail = 0, srq_db = 0, srq_counter = 0,
    srq_wq_sig = srq_sig_enabled lim\<rparr>"
  have link: "link_all ?q0 0 ?m1 = Inr m2"
    using link_all_cong [of ?q0 q 0 ?m1] m2(1) by (simp add: q_def get_wqe_def [abs_def])
  have rup: "mlx5_round_up_power_of_two (max 32 (16 + uint max_sge * 16)) = 2 ^ s" and le: "2 ^ s \<le> max_rq_desc_sz lim"
    using sz s(1) by simp_all
  have cut: "signed_take_bit 31 (16 + uint max_sge * 16) = 16 + uint max_sge * 16"
    by (rule signed_take_bit_int_eq_self) (use u u0 in \<open>simp; linarith\<close>)+
  have fits: "\<not> 0x7FFFFFFF < (2::int) ^ k * 2 ^ s" using small by (simp add: k(2) s(1))
  have il: "nat (mlx5_ilog2 (2 ^ s)) = s" by (simp add: ilog2_pow)
  have buf: "mlx5_alloc_srq_buf (Some ids) (Some b) (max_rq_desc_sz lim)
      \<lparr>srq_buf = 0, srq_wrid = [], srq_srqn = 0, srq_max = 2 ^ k, srq_max_gs = uint max_sge,
       srq_wqe_shift = 0, srq_head = 0, srq_tail = 0, srq_db = 0, srq_counter = 0,
       srq_wq_sig = srq_sig_enabled lim\<rparr> m = Inr (0, q\<lparr>srq_db := 0\<rparr>, m2)"
    using le e(7) link u0
    by (simp add: mlx5_alloc_srq_buf_def Let_def cut rup fits nk il q_def not_less [of "max_rq_desc_sz lim"])
  let ?m3 = "upd_bytes db (le32 0) m2" and ?m4 = "upd_bytes (db + 4) (le32 0) (upd_bytes db (le32 0) m2)"
  have mdb: "mapped m2 db 8"
  proof -
    have "m2 x = m x" if "db \<le> x" "x < db + 8" for x
      using m2(3) e(9) that upd_bytes_outside [of x b "replicate (2 ^ k * 2 ^ s) 0" m] by auto
    then show ?thesis using e(8) by (simp add: mapped_iff)
  qed
  have st: "store32 db 0 m2 = Inr ?m3" "store32 (db + 4) 0 ?m3 = Inr ?m4"
    using mapped_sub [OF mdb, of db 4] mapped_sub [OF mdb, of "db + 4" 4] by (simp_all add: store32_def)
  have ok: "srq_ok q ?m4 [0..<2 ^ k]"
    by (intro outside_ok m2(2)) (use e(9) in \<open>auto simp: q_def\<close>)
  have g: "(of_int ?gs :: u32) = of_int ?gs" "uint (of_int ?gs :: u32) = ?gs"
  proof -
    have "(2::int) ^ s \<le> 2 ^ 25" using s(3) by (intro power_increasing) auto
    then have "?gs < 2 ^ 32" by simp
    then show "uint (of_int ?gs :: u32) = ?gs" using gs(1) by (simp add: unsigned_of_int take_bit_int_eq_self)
  qed simp
  have "mlx5_alloc_srq e lim max_wr max_sge m = Inr (Some q, of_int ?gs, ?m4)"
    using e(1-3,5,6) wr(1) sge(1) buf st
    by (simp add: mlx5_alloc_srq_def k(2) nk s_u not_less[symmetric] q_def)
  moreover have "max_sge \<le> of_int ?gs" using s(4) g(2) by (simp add: word_le_def)
  ultimately show ?thesis using ok k(3) g(2)
    by (intro exI [of _ q] exI [of _ "of_int ?gs"] exI [of _ ?m4]) (simp add: q_def k(2))
qed

text \<open>A larger buffer: the product of the two sizes does not fit in an \<open>int\<close>.\<close>

lemma mlx5_alloc_srq_overflows:
  assumes wr: "max_wr \<le> max_srq_recv_wr lim" "max_srq_recv_wr lim < 65536"
    and sge: "max_sge \<le> of_int (max_recv_wr lim div 16)" "max_sge < 0x100000"
    and sz: "sz = mlx5_round_up_power_of_two (max 32 (16 + uint max_sge * 16))" "sz \<le> max_rq_desc_sz lim"
    and given: "buffers_given e (nat (mlx5_round_up_power_of_two (uint (max_wr + 1)))) (nat sz) m"
    and large: "2 ^ 31 \<le> mlx5_round_up_power_of_two (uint (max_wr + 1)) * sz"
  shows "mlx5_alloc_srq e lim max_wr max_sge m = Inl (Fault SignedOverflow)"
proof -
  obtain k where k: "mlx5_round_up_power_of_two (uint (max_wr + 1)) = 2 ^ k"
    using queue_length [OF le_less_trans [OF wr]] by blast
  have u: "uint max_sge < 2 ^ 20" using sge(2) by (simp add: word_less_def)
  have u0: "0 \<le> uint max_sge" by (rule unsigned_greater_eq)
  have s_u: "sint max_sge = uint max_sge"
    unfolding sint_uint by (rule signed_take_bit_int_eq_self) (use u u0 in \<open>simp; linarith\<close>)+
  have cut: "signed_take_bit 31 (16 + uint max_sge * 16) = 16 + uint max_sge * 16"
    by (rule signed_take_bit_int_eq_self) (use u u0 in \<open>simp; linarith\<close>)+
  have nk: "int (nat ((2::int) ^ k)) = 2 ^ k" by simp
  obtain ids where e: "srq_made e" "lock_made e" "ids_made e = Some ids"
    using given by (auto simp: buffers_given_def)
  have l: "0x7FFFFFFF < (2::int) ^ k * mlx5_round_up_power_of_two (max 32 (16 + uint max_sge * 16))"
    using large by (simp add: k sz(1))
  have "mlx5_alloc_srq_buf (Some ids) (buf_made e) (max_rq_desc_sz lim)
      \<lparr>srq_buf = 0, srq_wrid = [], srq_srqn = 0, srq_max = nat (2 ^ k), srq_max_gs = uint max_sge,
       srq_wqe_shift = 0, srq_head = 0, srq_tail = 0, srq_db = 0, srq_counter = 0,
       srq_wq_sig = srq_sig_enabled lim\<rparr> m = Inl (Fault SignedOverflow)"
    using l sz u0 by (simp add: mlx5_alloc_srq_buf_def Let_def cut nk)
  then show ?thesis
    using e wr(1) sge(1) by (simp add: mlx5_alloc_srq_def k s_u not_less [symmetric])
qed

section \<open>Scattering a message\<close>

lemma of_le64_be64: "of_le64 (be64 x) = htonll x"
  by (metis le64_htonll of_le64_le64)

lemma htonll_htonll [simp]: "htonll (htonll x) = x"
proof -
  have "le64 (htonll (htonll x)) = le64 x" by (simp add: be64_def)
  then show ?thesis by (metis of_le64_le64)
qed

lemma of_le32_be32: "of_le32 (be32 x) = htonl x"
  by (metis le32_htonl of_le32_le32)

text \<open>The message in the buffers of the scatter list, read piece by piece.\<close>

fun gathered :: "memory \<Rightarrow> ibv_sge list \<Rightarrow> nat \<Rightarrow> u8 list" where
  "gathered m [] n = []"
| "gathered m (sg # sgs) n =
     (let k = min n (unat (sg_length sg)) in
      bytes_at m (unat (sg_addr sg)) k @ gathered m sgs (n - k))"

definition total_length :: "ibv_sge list \<Rightarrow> nat" where
  "total_length sgs = sum_list (map (\<lambda>sg. unat (sg_length sg)) sgs)"

text \<open>Two areas of memory without a common byte.\<close>

definition apart :: "nat \<Rightarrow> nat \<Rightarrow> nat \<Rightarrow> nat \<Rightarrow> bool" where
  "apart a n b k \<longleftrightarrow> a + n \<le> b \<or> b + k \<le> a \<or> n = 0 \<or> k = 0"

lemma bytes_apart:
  "apart a n b (length bs) \<Longrightarrow> bytes_at (upd_bytes b bs m) a n = bytes_at m a n"
proof (cases "n = 0 \<or> bs = []")
  case True
  then show ?thesis by (auto simp: bytes_at_def)
next
  case False
  assume "apart a n b (length bs)"
  then show ?thesis using False by (intro bytes_at_disjoint) (auto simp: apart_def)
qed

text \<open>The buffers are mapped, apart from each other, from the entry and from the message.\<close>

fun targets_ok :: "memory \<Rightarrow> ibv_sge list \<Rightarrow> nat \<Rightarrow> nat \<Rightarrow> nat \<Rightarrow> nat \<Rightarrow> bool" where
  "targets_ok m [] ent en src sn = True"
| "targets_ok m (sg # sgs) ent en src sn =
     (let a = unat (sg_addr sg); l = unat (sg_length sg) in
      l < 2 ^ 31 \<and> mapped m a l \<and> apart ent en a l \<and> apart src sn a l \<and>
      (\<forall>t \<in> set sgs. apart (unat (sg_addr t)) (unat (sg_length t)) a l) \<and>
      targets_ok m sgs ent en src sn)"

lemma targets_ok_upd: "targets_ok m sgs ent en src sn \<Longrightarrow> targets_ok (upd_bytes b bs m) sgs ent en src sn"
  by (induction sgs) (auto simp: Let_def)

lemma apart_sub: "apart a n b k \<Longrightarrow> a \<le> a' \<Longrightarrow> a' + n' \<le> a + n \<Longrightarrow> b \<le> b' \<Longrightarrow> b' + k' \<le> b + k \<Longrightarrow> apart a' n' b' k'"
  by (auto simp: apart_def)

lemma targets_ok_sub:
  assumes "targets_ok m sgs ent en src sn" "ent \<le> ent'" "ent' + en' \<le> ent + en" "src \<le> src'" "src' + sn' \<le> src + sn"
  shows "targets_ok m sgs ent' en' src' sn'"
  using assms by (induction sgs) (auto simp: Let_def intro: apart_sub)

lemma gathered_frame:
  assumes "\<forall>t \<in> set sgs. apart (unat (sg_addr t)) (unat (sg_length t)) b (length bs)"
  shows "gathered (upd_bytes b bs m) sgs n = gathered m sgs n"
  using assms
proof (induction sgs arbitrary: n)
  case (Cons sg sgs)
  have "apart (unat (sg_addr sg)) (min n (unat (sg_length sg))) b (length bs)"
    using Cons.prems by (auto intro: apart_sub)
  then show ?case using Cons by (simp add: Let_def bytes_apart)
qed simp

text \<open>The two fields the loop reads from a data segment.\<close>

lemma read_segment:
  assumes "mapped m scat (16 * Suc n)" "bytes_at m scat (16 * Suc n) = data_bytes sg @ rest"
  shows "load32 scat m = Inr (htonl (sg_length sg))" "load64 (scat + 8) m = Inr (htonll (sg_addr sg))"
    "bytes_at m (scat + 16) (16 * n) = rest"
proof -
  have s16: "16 * Suc n = 4 + (4 + (8 + 16 * n))" by simp
  have b: "bytes_at m scat 4 @ bytes_at m (scat + 4) 4 @ bytes_at m (scat + 8) 8 @ bytes_at m (scat + 16) (16 * n) =
      be32 (sg_length sg) @ be32 (sg_lkey sg) @ be64 (sg_addr sg) @ rest"
    using assms(2) unfolding s16 bytes_at_add data_bytes_def by (simp add: add.assoc)
  then have eq: "bytes_at m scat 4 = be32 (sg_length sg)" "bytes_at m (scat + 8) 8 = be64 (sg_addr sg)"
    "bytes_at m (scat + 16) (16 * n) = rest" by simp_all
  have "mapped m scat 4" "mapped m (scat + 8) 8" by (auto intro: mapped_sub [OF assms(1)])
  then show "load32 scat m = Inr (htonl (sg_length sg))" "load64 (scat + 8) m = Inr (htonll (sg_addr sg))"
    using eq by (simp_all add: load32_def load64_def of_le32_be32 of_le64_be64)
  show "bytes_at m (scat + 16) (16 * n) = rest" by (rule eq)
qed

text \<open>The bytes the code copies for one segment: all that is left, or the segment's length.\<close>

lemma piece_size:
  assumes l: "unat (len :: u32) < 2 ^ 31" and n: "n < 2 ^ 31"
  shows "(if (of_int (int n) :: u32) < ntohl (htonl len) then int n else sint (ntohl (htonl len))) = int (min n (unat len))"
proof -
  let ?l = "unat len"
  have less: "(of_int (int n) :: u32) < len \<longleftrightarrow> n < ?l"
    using n by (simp add: word_less_nat_alt unat_of_nat)
  have "sint len = int ?l"
  proof -
    have u: "uint len = int ?l" by (rule uint_nat)
    have u0: "0 \<le> uint len" by (rule unsigned_greater_eq)
    have "?l < 2147483648" using l by simp
    then have u1: "uint len < 2147483648" using u by linarith
    have "sint len = uint len"
      unfolding sint_uint by (rule signed_take_bit_int_eq_self) (use u0 u1 in \<open>simp; linarith\<close>)+
    then show ?thesis using u by (rule trans)
  qed
  then show ?thesis using less by (auto simp: min_def)
qed

lemma scatter_step:
  assumes seg: "load32 scat m = Inr (htonl (sg_length sg))" "load64 (scat + 8) m = Inr (htonll (sg_addr sg))"
    and l: "unat (sg_length sg) < 2 ^ 31" and n: "n < 2 ^ 31" and i: "i < mx"
    and tgt: "mapped m (unat (sg_addr sg)) (unat (sg_length sg))" and src: "mapped m src n"
  shows "scatter scat src (int n) i mx m =
    (let k = min n (unat (sg_length sg)); m' = upd_bytes (unat (sg_addr sg)) (bytes_at m src k) m in
     if n - k = 0 then Inr (True, m') else scatter (scat + 16) (src + k) (int (n - k)) (i + 1) mx m')"
proof -
  let ?l = "unat (sg_length sg)" and ?k = "min n (unat (sg_length sg))"
  note copy = piece_size [OF l n]
  have mk: "mapped m src ?k" "mapped m (unat (sg_addr sg)) ?k"
    by (rule mapped_sub [OF src] mapped_sub [OF tgt]; simp)+
  have cp: "memcpy (unat (sg_addr sg)) src (int ?k) m = Inr (upd_bytes (unat (sg_addr sg)) (bytes_at m src ?k) m)"
    using mk by (simp add: memcpy_def)
  have left: "int (n - ?k) \<le> 0 \<longleftrightarrow> n - ?k = 0" "int n - int ?k = int (n - ?k)" by auto
  show ?thesis
    by (subst scatter.simps) (simp only: i seg if_True bindR_Inr Let_def copy htonll_htonll cp left nat_int)
qed

text \<open>A message that fits is found in the buffers afterwards.\<close>

lemma scatter_ok:
  assumes ent: "mapped m scat (16 * length sgs)" "bytes_at m scat (16 * length sgs) = concat (map data_bytes sgs)"
    and tgt: "targets_ok m sgs scat (16 * length sgs) src n" and src: "mapped m src n"
    and n: "n \<le> total_length sgs" "n < 2 ^ 31" and mx: "int (length sgs) \<le> mx - i" and ne: "sgs \<noteq> []"
  shows "\<exists>m'. scatter scat src (int n) i mx m = Inr (True, m') \<and> gathered m' sgs n = bytes_at m src n \<and>
    (\<forall>a k. (\<forall>t \<in> set sgs. apart a k (unat (sg_addr t)) (unat (sg_length t))) \<longrightarrow> bytes_at m' a k = bytes_at m a k)"
  using assms
proof (induction sgs arbitrary: scat src n i m)
  case Nil
  then show ?case by simp
next
  case (Cons sg sgs)
  let ?a = "unat (sg_addr sg)" and ?l = "unat (sg_length sg)"
  let ?k = "min n ?l" and ?bs = "bytes_at m src (min n ?l)"
  let ?m = "upd_bytes ?a ?bs m"
  note T = Cons.prems(3) [simplified, unfolded Let_def]
  have seg: "mapped m scat (16 * Suc (length sgs))"
    "bytes_at m scat (16 * Suc (length sgs)) = data_bytes sg @ concat (map data_bytes sgs)"
    using Cons.prems(1,2) by simp_all
  note R = read_segment [OF seg]
  have l: "?l < 2 ^ 31" "mapped m ?a ?l" using T by auto
  have i: "i < mx" using Cons.prems(7) by simp
  have step: "scatter scat src (int n) i mx m =
      (if n - ?k = 0 then Inr (True, ?m) else scatter (scat + 16) (src + ?k) (int (n - ?k)) (i + 1) mx ?m)"
    using scatter_step [OF R(1,2) l(1) Cons.prems(6) i l(2) Cons.prems(4)] by (simp add: Let_def)
  have first: "bytes_at ?m ?a ?k = ?bs" by (rule bytes_at_same') simp
  have frame: "bytes_at ?m a j = bytes_at m a j" if "apart a j ?a ?l" for a j
    by (rule bytes_apart) (rule apart_sub [OF that], simp_all)
  show ?case
  proof (cases "n - ?k = 0")
    case True
    then have "n = ?k" by simp
    moreover have "gathered ?m sgs 0 = []" by (induction sgs) (simp_all add: Let_def bytes_at_def)
    ultimately show ?thesis using step True first frame
      by (intro exI [of _ ?m]) (simp add: Let_def)
  next
    case False
    then have k: "?k = ?l" by (simp add: min_def split: if_splits)
    have n': "n - ?k \<le> total_length sgs" "n - ?k < 2 ^ 31" using Cons.prems(5,6) k by (simp_all add: total_length_def)
    have ne: "sgs \<noteq> []" using n'(1) False by (cases sgs) (auto simp: total_length_def)
    have ent': "mapped ?m (scat + 16) (16 * length sgs)"
      using mapped_sub [OF seg(1), of "scat + 16" "16 * length sgs"] by simp
    have "apart (scat + 16) (16 * length sgs) ?a ?l"
      using T by (elim conjE) (erule apart_sub, simp_all)
    then have body': "bytes_at ?m (scat + 16) (16 * length sgs) = concat (map data_bytes sgs)"
      using frame R(3) by simp
    have tgt': "targets_ok ?m sgs (scat + 16) (16 * length sgs) (src + ?k) (n - ?k)"
      by (rule targets_ok_upd, rule targets_ok_sub [where ent = scat and en = "16 * Suc (length sgs)" and src = src and sn = n])
        (use T in simp_all)
    have src': "mapped ?m (src + ?k) (n - ?k)" using mapped_sub [OF Cons.prems(4), of "src + ?k" "n - ?k"] by simp
    have mx': "int (length sgs) \<le> mx - (i + 1)" using Cons.prems(7) by simp
    obtain m' where m': "scatter (scat + 16) (src + ?k) (int (n - ?k)) (i + 1) mx ?m = Inr (True, m')"
      "gathered m' sgs (n - ?k) = bytes_at ?m (src + ?k) (n - ?k)"
      "\<forall>a k. (\<forall>t \<in> set sgs. apart a k (unat (sg_addr t)) (unat (sg_length t))) \<longrightarrow> bytes_at m' a k = bytes_at ?m a k"
      using Cons.IH [OF ent' body' tgt' src' n' mx' ne] by blast
    have srcT: "apart src n ?a ?l" using T by blast
    have "apart (src + ?k) (n - ?k) ?a ?l" by (rule apart_sub [OF srcT]) simp_all
    then have rest: "bytes_at ?m (src + ?k) (n - ?k) = bytes_at m (src + ?k) (n - ?k)" by (rule frame)
    have "\<forall>t \<in> set sgs. apart ?a ?k (unat (sg_addr t)) (unat (sg_length t))"
      using T k by (auto simp: apart_def)
    then have "bytes_at m' ?a ?k = ?bs" using m'(3) first by simp
    moreover have "bytes_at m src n = ?bs @ bytes_at m (src + ?k) (n - ?k)"
      using bytes_at_add [of m src ?k "n - ?k"] by simp
    ultimately have "gathered m' (sg # sgs) n = bytes_at m src n" using m'(2) rest by (simp add: Let_def)
    moreover have "bytes_at m' a k = bytes_at m a k"
      if "\<forall>t \<in> set (sg # sgs). apart a k (unat (sg_addr t)) (unat (sg_length t))" for a k
      using that m'(3) frame by simp
    ultimately show ?thesis using step False m'(1) by (intro exI [of _ m']) simp
  qed
qed

text \<open>
  A message longer than all the buffers: the loop goes on with whatever follows the entry's
  segments, for as long as its count allows.
\<close>

lemma scatter_runs_on:
  assumes ent: "mapped m scat (16 * length sgs)" "bytes_at m scat (16 * length sgs) = concat (map data_bytes sgs)"
    and tgt: "targets_ok m sgs scat (16 * length sgs) src n" and src: "mapped m src n"
    and n: "total_length sgs < n" "n < 2 ^ 31" and mx: "int (length sgs) \<le> mx - i"
  shows "\<exists>m'. scatter scat src (int n) i mx m =
    scatter (scat + 16 * length sgs) (src + total_length sgs) (int (n - total_length sgs)) (i + int (length sgs)) mx m'"
  using assms
proof (induction sgs arbitrary: scat src n i m)
  case Nil
  then show ?case by (intro exI [of _ m]) (simp add: total_length_def)
next
  case (Cons sg sgs)
  let ?a = "unat (sg_addr sg)" and ?l = "unat (sg_length sg)"
  let ?m = "upd_bytes ?a (bytes_at m src ?l) m"
  note T = Cons.prems(3) [simplified, unfolded Let_def]
  have seg: "mapped m scat (16 * Suc (length sgs))"
    "bytes_at m scat (16 * Suc (length sgs)) = data_bytes sg @ concat (map data_bytes sgs)"
    using Cons.prems(1,2) by simp_all
  note R = read_segment [OF seg]
  have l: "?l < 2 ^ 31" "mapped m ?a ?l" using T by auto
  have i: "i < mx" using Cons.prems(7) by simp
  have k: "?l < n" "min n ?l = ?l" using Cons.prems(5) by (simp_all add: total_length_def)
  have step: "scatter scat src (int n) i mx m = scatter (scat + 16) (src + ?l) (int (n - ?l)) (i + 1) mx ?m"
    using scatter_step [OF R(1,2) l(1) Cons.prems(6) i l(2) Cons.prems(4)] k by (simp add: Let_def)
  have frame: "bytes_at ?m a j = bytes_at m a j" if "apart a j ?a ?l" for a j
    by (rule bytes_apart) (rule apart_sub [OF that], simp_all)
  have n': "total_length sgs < n - ?l" "n - ?l < 2 ^ 31" using Cons.prems(5,6) by (simp_all add: total_length_def)
  have ent': "mapped ?m (scat + 16) (16 * length sgs)"
    using mapped_sub [OF seg(1), of "scat + 16" "16 * length sgs"] by simp
  have "apart (scat + 16) (16 * length sgs) ?a ?l" using T by (elim conjE) (erule apart_sub, simp_all)
  then have body': "bytes_at ?m (scat + 16) (16 * length sgs) = concat (map data_bytes sgs)" using frame R(3) by simp
  have tgt': "targets_ok ?m sgs (scat + 16) (16 * length sgs) (src + ?l) (n - ?l)"
    by (rule targets_ok_upd, rule targets_ok_sub [where ent = scat and en = "16 * Suc (length sgs)" and src = src and sn = n])
      (use T k in simp_all)
  have src': "mapped ?m (src + ?l) (n - ?l)" using mapped_sub [OF Cons.prems(4), of "src + ?l" "n - ?l"] k by simp
  have mx': "int (length sgs) \<le> mx - (i + 1)" using Cons.prems(7) by simp
  show ?case using Cons.IH [OF ent' body' tgt' src' n' mx'] step by (simp add: total_length_def algebra_simps)
qed

lemma shift_split: "16 \<le> (2::nat) ^ s \<Longrightarrow> (2::nat) ^ s = 16 * 2 ^ (s - 4)"
proof -
  assume *: "16 \<le> (2::nat) ^ s"
  have "4 \<le> s"
  proof (rule ccontr)
    assume "\<not> 4 \<le> s"
    then have "(2::nat) ^ s \<le> 2 ^ 3" by (intro power_increasing) auto
    then show False using * by simp
  qed
  then obtain d where "s = 4 + d" using le_iff_add by blast
  then show ?thesis by (simp add: power_add)
qed

lemma segment_count:
  assumes "srq_geom srq m"
  shows "srq_max_gs srq + 1 \<le> 2 ^ (srq_wqe_shift srq - 4)"
proof -
  have g: "16 + 16 * nat (srq_max_gs srq) \<le> 2 ^ srq_wqe_shift srq" "0 \<le> srq_max_gs srq"
    using assms by (simp_all add: srq_geom_def)
  have "(2::nat) ^ srq_wqe_shift srq = 16 * 2 ^ (srq_wqe_shift srq - 4)"
    by (rule shift_split) (use g(1) in simp)
  then have "nat (srq_max_gs srq) + 1 \<le> 2 ^ (srq_wqe_shift srq - 4)" using g(1) by simp
  then have "int (nat (srq_max_gs srq) + 1) \<le> int (2 ^ (srq_wqe_shift srq - 4))" by (simp only: of_nat_le_iff)
  then show ?thesis using g(2) by simp
qed

lemma copy_to_recv_ok:
  assumes geom: "srq_geom srq m" and h: "idx < srq_max srq"
    and ent: "bytes_at m (get_wqe srq idx + 16) (16 * length sgs) = concat (map data_bytes sgs)"
    and len: "int (length sgs) \<le> srq_max_gs srq" "sgs \<noteq> []"
    and tgt: "targets_ok m sgs (get_wqe srq idx + 16) (16 * length sgs) buf n" and src: "mapped m buf n"
    and n: "n \<le> total_length sgs" "n < 2 ^ 31"
  shows "\<exists>m'. mlx5_copy_to_recv_srq srq idx buf (int n) m = Inr (True, m') \<and> gathered m' sgs n = bytes_at m buf n"
proof -
  have gs: "0 \<le> srq_max_gs srq" "16 + 16 * nat (srq_max_gs srq) \<le> 2 ^ srq_wqe_shift srq" using geom by (simp_all add: srq_geom_def)
  have "in_body srq idx (get_wqe srq idx + 16) (16 * length sgs)" using h gs len by (simp add: in_body_def)
  from body_mapped [OF geom this] have 1: "mapped m (get_wqe srq idx + 16) (16 * length sgs)" .
  have 2: "int (length sgs) \<le> 2 ^ (srq_wqe_shift srq - 4) - 0" using segment_count [OF geom] len(1) by linarith
  show ?thesis
    using scatter_ok [OF 1 ent tgt src n 2 len(2)] unfolding mlx5_copy_to_recv_srq_def by blast
qed

text \<open>A full scatter list that is too short sends the loop into the next entry.\<close>

lemma copy_to_recv_overrun:
  assumes geom: "srq_geom srq m" and h: "idx < srq_max srq"
    and ent: "bytes_at m (get_wqe srq idx + 16) (16 * length sgs) = concat (map data_bytes sgs)"
    and len: "int (length sgs) = srq_max_gs srq" "16 + 16 * length sgs = 2 ^ srq_wqe_shift srq"
    and tgt: "targets_ok m sgs (get_wqe srq idx + 16) (16 * length sgs) buf n" and src: "mapped m buf n"
    and n: "total_length sgs < n" "n < 2 ^ 31"
  shows "\<exists>m'. mlx5_copy_to_recv_srq srq idx buf (int n) m =
    scatter (get_wqe srq (Suc idx)) (buf + total_length sgs) (int (n - total_length sgs))
      (int (length sgs)) (int (length sgs) + 1) m'"
proof -
  have "in_body srq idx (get_wqe srq idx + 16) (16 * length sgs)" using h len by (simp add: in_body_def)
  from body_mapped [OF geom this] have 1: "mapped m (get_wqe srq idx + 16) (16 * length sgs)" .
  have "srq_max_gs srq + 1 \<le> 2 ^ (srq_wqe_shift srq - 4)" by (rule segment_count [OF geom])
  have "(2::nat) ^ srq_wqe_shift srq = 16 * 2 ^ (srq_wqe_shift srq - 4)"
    by (rule shift_split) (use len(2) in simp)
  then have "length sgs + 1 = 2 ^ (srq_wqe_shift srq - 4)" using len(2) by simp
  then have "int (length sgs + 1) = int (2 ^ (srq_wqe_shift srq - 4))" by (simp only:)
  then have mx: "(2::int) ^ (srq_wqe_shift srq - 4) = int (length sgs) + 1" by simp
  have nxt: "get_wqe srq idx + 16 + 16 * length sgs = get_wqe srq (Suc idx)"
    using len(2) by (simp add: get_wqe_eq)
  show ?thesis
    using scatter_runs_on [OF 1 ent tgt src n, of "int (length sgs) + 1" 0] nxt
    by (simp add: mlx5_copy_to_recv_srq_def mx)
qed

section \<open>Entries are handed out as from a pool\<close>

text \<open>The chain, computed from the links; the entries outside it belong to the adapter or the application.\<close>

fun chain_from :: "mlx5_srq \<Rightarrow> memory \<Rightarrow> nat \<Rightarrow> nat \<Rightarrow> nat list" where
  "chain_from srq m 0 i = []"
| "chain_from srq m (Suc n) i =
     (if i = srq_tail srq then [i] else i # chain_from srq m n (link_of srq m i))"

definition free_chain :: "mlx5_srq \<Rightarrow> memory \<Rightarrow> nat list" where
  "free_chain srq m = chain_from srq m (srq_max srq) (srq_head srq)"

lemma chain_from_linked:
  assumes "linked srq m xs" "distinct xs" "length xs \<le> n"
  shows "chain_from srq m n (hd xs) = xs"
  using assms
proof (induction srq m xs arbitrary: n rule: linked.induct)
  case (1 srq m)
  then show ?case by simp
next
  case (2 srq m i)
  then show ?case by (cases n) auto
next
  case (3 srq m i j js)
  have "srq_tail srq \<in> set (j # js)"
    using 3(2) linked_last [of srq m "j # js"] last_in_set [of "j # js"] by auto
  then have "i \<noteq> srq_tail srq" using 3(3) by auto
  then show ?case using 3 by (cases n) auto
qed

lemma free_chain_eq: "srq_ok srq m xs \<Longrightarrow> free_chain srq m = xs"
proof -
  assume ok: "srq_ok srq m xs"
  have "length xs = card (set xs)" using ok by (simp add: srq_ok_def distinct_card)
  also have "\<dots> \<le> card {..<srq_max srq}" using ok by (intro card_mono) (auto simp: srq_ok_def)
  finally have "length xs \<le> srq_max srq" by simp
  then show ?thesis using chain_from_linked [of srq m xs] ok by (simp add: free_chain_def srq_ok_def)
qed

definition srq_good :: "mlx5_srq \<times> memory \<Rightarrow> bool" where
  "srq_good s \<longleftrightarrow> srq_ok (fst s) (snd s) (free_chain (fst s) (snd s))"

definition posted_entries :: "mlx5_srq \<times> memory \<Rightarrow> nat set" where
  "posted_entries s = {..<srq_max (fst s)} - set (free_chain (fst s) (snd s))"

text \<open>Posting one request, and the entry it got; giving back the entry of a completion.\<close>

definition srq_take :: "recv_wr \<Rightarrow> mlx5_srq \<times> memory \<Rightarrow> (nat option \<times> mlx5_srq \<times> memory) res" where
  "srq_take wr s = bindR (mlx5_post_srq_recv [wr] (fst s) (snd s)) (\<lambda>(err, bad_wr, s').
     Inr (if err = 0 then Some (srq_head (fst s)) else None, s'))"

definition srq_give :: "nat \<Rightarrow> mlx5_srq \<times> memory \<Rightarrow> (mlx5_srq \<times> memory) res" where
  "srq_give ind s = mlx5_free_srq_wqe ind (fst s) (snd s)"

lemma srq_goodI: "srq_ok srq m xs \<Longrightarrow> srq_good (srq, m) \<and> free_chain srq m = xs"
  using free_chain_eq by (simp add: srq_good_def)

interpretation srq_entries: slot_pool srq_good posted_entries srq_take srq_give "\<lambda>wr s. recv_ok wr"
proof (unfold_locales, goal_cases)
  case (1 s wr)
  obtain srq m where s: "s = (srq, m)" by (cases s)
  let ?xs = "free_chain srq m"
  have ok: "srq_ok srq m ?xs" using 1(1) by (simp add: srq_good_def s)
  obtain k err where k: "admitted (srq_max_gs srq) (length ?xs) [wr] = (k, err)" by fastforce
  have "\<forall>w \<in> set [wr]. recv_ok w" using 1(2) by simp
  from mlx5_post_srq_recv_ok [OF ok this k] obtain srq' m' where
    r: "mlx5_post_srq_recv [wr] srq m = Inr (err, drop k [wr], srq', m')" "srq_ok srq' m' (drop k ?xs)"
    and mx: "srq_max srq' = srq_max srq" by blast
  note G = srq_goodI [OF r(2)]
  show ?case
  proof (cases "err = 0")
    case True
    then have k1: "k = 1" "1 < length ?xs" using k by (auto simp: EINVAL_def ENOMEM_def split: if_splits)
    then obtain h rest where x: "?xs = h # rest" by (cases ?xs) auto
    then have "srq_head srq = h" "h < srq_max srq" "h \<notin> set rest" using ok by (auto simp: srq_ok_def)
    then show ?thesis using r(1) G True k1(1) x mx
      by (auto simp: srq_take_def posted_entries_def s)
  next
    case False
    then have "k = 0" using k by (auto split: if_splits)
    then show ?thesis using r(1) G False mx by (simp add: srq_take_def posted_entries_def s)
  qed
next
  case (2 s ind)
  obtain srq m where s: "s = (srq, m)" by (cases s)
  have ok: "srq_ok srq m (free_chain srq m)" using 2(1) by (simp add: srq_good_def s)
  have ind: "ind < srq_max srq" "ind \<notin> set (free_chain srq m)" using 2(2) by (auto simp: posted_entries_def s)
  obtain m' where r: "mlx5_free_srq_wqe ind srq m = Inr (srq\<lparr>srq_tail := ind\<rparr>, m')"
    "srq_ok (srq\<lparr>srq_tail := ind\<rparr>) m' (free_chain srq m @ [ind])"
    using mlx5_free_srq_wqe_ok [OF ok ind] by blast
  show ?case using r(1) srq_goodI [OF r(2)]
    by (auto simp: srq_give_def posted_entries_def s)
qed

end
