(* ===== verification/Srq_Props.thy ===== *)
theory Srq_Props
  imports Srq_Correct
begin

text \<open>
  What \<open>srq.c\<close> guarantees of the driver's shared receive queues: the free entries are a queue, an
  entry has one owner, an entry reads back as it was asked for, a message is scattered to the
  segments of its entry. Each property has an instance on a queue of four entries of 32 bytes.
\<close>

definition sample_srq :: mlx5_srq where
  "sample_srq = \<lparr>srq_buf = 4096, srq_wrid = [0, 0, 0, 0], srq_srqn = 5, srq_max = 4, srq_max_gs = 1,
     srq_wqe_shift = 5, srq_head = 0, srq_tail = 3, srq_db = 8192, srq_counter = 0, srq_wq_sig = True\<rparr>"

definition srq_memory :: memory where
  "srq_memory = (\<lambda>_. Some 0)(4099 \<mapsto> 1, 4131 \<mapsto> 2, 4163 \<mapsto> 3)"

lemma sample_srq_ok: "srq_ok sample_srq srq_memory [0, 1, 2, 3]"
proof -
  have "srq_geom sample_srq srq_memory"
    by (auto simp: srq_geom_def sample_srq_def srq_memory_def mapped_iff)
  moreover have "linked sample_srq srq_memory [0, 1, 2, 3]" by code_simp
  ultimately show ?thesis by (auto simp: srq_ok_def sample_srq_def)
qed

definition recv_request :: "u64 \<Rightarrow> u64 \<Rightarrow> u32 \<Rightarrow> recv_wr" where
  "recv_request i a n = \<lparr>rwr_id = i, rsg_list = Some [\<lparr>sg_addr = a, sg_length = n, sg_lkey = 3\<rparr>], rnum_sge = 1\<rparr>"

lemma recv_request_ok [simp]: "recv_ok (recv_request i a n)" "rnum_sge (recv_request i a n) = 1"
  by (simp_all add: recv_ok_def wr_sges_def recv_request_def)

section \<open>Posting and completing\<close>

text \<open>C5: posting refines a queue of free entries. On a queue whose free entries are the chain \<open>xs\<close>
  from \<open>head\<close> to \<open>tail\<close>, a list of requests is posted up to the first that has more segments than an
  entry or finds only the last free entry (\<open>admitted\<close>), which is returned with \<open>EINVAL\<close> or \<open>ENOMEM\<close>;
  the chain afterwards is \<open>xs\<close> without its first \<open>k\<close> entries, the \<open>k\<close> requests' identifiers stand at
  those entries and nowhere else, the 16-bit counter has advanced by \<open>k\<close>, and the doorbell record
  holds it in network order.\<close>

theorem srq_post_refines_queue:
  assumes "srq_ok srq m xs" and "\<forall>wr \<in> set wrs. recv_ok wr"
    and "admitted (srq_max_gs srq) (length xs) wrs = (k, err)"
  shows "\<exists>srq' m'. mlx5_post_srq_recv wrs srq m = Inr (err, drop k wrs, srq', m') \<and>
    srq_ok srq' m' (drop k xs) \<and> srq_counter srq' = srq_counter srq + of_nat k \<and>
    (\<forall>i < k. srq_wrid srq' ! (xs ! i) = rwr_id (wrs ! i)) \<and>
    (\<forall>j. j \<notin> set (take k xs) \<longrightarrow> srq_wrid srq' ! j = srq_wrid srq ! j) \<and>
    (0 < k \<longrightarrow> bytes_at m' (srq_db srq) 4 = be32 (ucast (srq_counter srq')))"
proof -
  obtain srq' m' where r: "mlx5_post_srq_recv wrs srq m = Inr (err, drop k wrs, srq', m')"
    "srq_ok srq' m' (drop k xs)" "srq_wrid srq' = put_ids (take k xs) wrs (srq_wrid srq)"
    "srq_counter srq' = srq_counter srq + of_nat k"
    "0 < k \<longrightarrow> bytes_at m' (srq_db srq) 4 = be32 (ucast (srq_counter srq'))"
    using mlx5_post_srq_recv_ok [OF assms] by blast
  have "xs \<noteq> []" using assms(1) linked_nonempty by (auto simp: srq_ok_def)
  then have k: "k \<le> length wrs" "k < length xs"
    using admitted_bounds(1) [of "srq_max_gs srq" "length xs" wrs]
      admitted_bounds(2) [of "length xs" "srq_max_gs srq" wrs] assms(3) by simp_all
  have "distinct (take k xs)" "set (take k xs) \<subseteq> {..<length (srq_wrid srq)}"
    using assms(1) set_take_subset [of k xs] by (auto simp: srq_ok_def srq_geom_def)
  from put_ids_nth [OF this, of _ wrs] have "\<forall>i < k. srq_wrid srq' ! (xs ! i) = rwr_id (wrs ! i)"
    using k r(3) by simp
  moreover have "\<forall>j. j \<notin> set (take k xs) \<longrightarrow> srq_wrid srq' ! j = srq_wrid srq ! j"
    unfolding r(3) by (simp add: put_ids_other)
  ultimately show ?thesis using r(1,2,4,5) by blast
qed

theorem srq_post_refines_queue_witness:
  "\<exists>srq' m'. mlx5_post_srq_recv [recv_request 7 64 16, recv_request 8 96 16, recv_request 9 96 16, recv_request 10 0 4]
      sample_srq srq_memory = Inr (ENOMEM, [recv_request 10 0 4], srq', m') \<and> srq_ok srq' m' [3] \<and>
    srq_counter srq' = 3 \<and> srq_wrid srq' ! 1 = 8"
proof -
  let ?wrs = "[recv_request 7 64 16, recv_request 8 96 16, recv_request 9 96 16, recv_request 10 0 4]"
  have ok: "\<forall>wr \<in> set ?wrs. recv_ok wr" by simp
  have k: "admitted (srq_max_gs sample_srq) (length [0, 1, 2, 3 :: nat]) ?wrs = (3, ENOMEM)"
    by (simp add: sample_srq_def)
  obtain srq' m' where r: "mlx5_post_srq_recv ?wrs sample_srq srq_memory = Inr (ENOMEM, drop 3 ?wrs, srq', m')"
    "srq_ok srq' m' (drop 3 [0, 1, 2, 3])" "srq_counter srq' = srq_counter sample_srq + of_nat 3"
    "\<forall>i < 3. srq_wrid srq' ! ([0, 1, 2, 3] ! i) = rwr_id (?wrs ! i)"
    using srq_post_refines_queue [OF sample_srq_ok ok k] by blast
  have "srq_wrid srq' ! ([0, 1, 2, 3] ! 1) = rwr_id (?wrs ! 1)" using r(4) [THEN spec, of 1] by simp
  then show ?thesis using r(1-3) by (auto simp: sample_srq_def recv_request_def)
qed

text \<open>An entry of the queue has one owner. Along any run of posts of single requests and of
  \<open>mlx5_free_srq_wqe\<close> for entries that were posted, no entry is given to a second request before
  it was freed, the entries posted and not freed are those that are off the chain, and neither
  operation faults.\<close>

theorem srq_entry_has_one_owner:
  assumes "served srq_take srq_give (\<lambda>wr s. recv_ok wr) s0 t s"
    and "srq_good s0" and "posted_entries s0 = {}"
  shows "exclusive t \<and> posted_entries s = held t \<and> srq_good s \<and>
    (\<forall>wr. recv_ok wr \<longrightarrow> (\<exists>r. srq_take wr s = Inr r)) \<and> (\<forall>i \<in> held t. \<exists>s'. srq_give i s = Inr s')"
  using srq_entries.served_exact [OF assms] srq_entries.served_total [OF assms] by blast

theorem srq_entry_has_one_owner_witness:
  "\<exists>s. served srq_take srq_give (\<lambda>wr s. recv_ok wr) (sample_srq, srq_memory) [Got 0] s \<and> posted_entries s = {0}"
proof -
  let ?s0 = "(sample_srq, srq_memory)" and ?w = "recv_request 7 64 16"
  have good: "srq_good ?s0" and chain: "free_chain sample_srq srq_memory = [0, 1, 2, 3]"
    using srq_goodI [OF sample_srq_ok] by auto
  have none: "posted_entries ?s0 = {}" unfolding posted_entries_def fst_conv snd_conv chain
    by (auto simp: sample_srq_def)
  have "admitted (srq_max_gs sample_srq) (length [0, 1, 2, 3 :: nat]) [?w] = (1, 0)" "\<forall>wr \<in> set [?w]. recv_ok wr"
    by (simp_all add: sample_srq_def)
  from mlx5_post_srq_recv_ok [OF sample_srq_ok this(2,1)]
  obtain srq' m' where "mlx5_post_srq_recv [?w] sample_srq srq_memory = Inr (0, drop 1 [?w], srq', m')" by blast
  then have "srq_take ?w ?s0 = Inr (Some 0, srq', m')" by (simp add: srq_take_def sample_srq_def)
  then have run: "served srq_take srq_give (\<lambda>wr s. recv_ok wr) ?s0 [Got 0] (srq', m')"
    by (intro served_got [where e = ?w and s = ?s0]) (simp_all add: served_start)
  show ?thesis using run srq_entry_has_one_owner [OF run good none] by auto
qed

section \<open>What the entries hold\<close>

text \<open>An entry is what the adapter was asked for. Posting one request on a queue with two free
  entries or more writes, behind the entry's first segment, the segments of the request with length,
  key and address in network order, closed by the invalid key when the request has fewer than an
  entry holds; and on a queue with signatures the XOR of the whole entry, the queue's number and the
  entry's index is all ones.\<close>

theorem srq_entry_holds_request:
  assumes "srq_ok srq m (h # j # js)" and "recv_ok wr" and "rnum_sge wr \<le> srq_max_gs srq"
  shows "\<exists>srq' m'. mlx5_post_srq_recv [wr] srq m = Inr (0, [], srq', m') \<and>
    bytes_at m' (get_wqe srq h + 16) (length (entry_bytes (srq_max_gs srq) wr)) = entry_bytes (srq_max_gs srq) wr \<and>
    (srq_wq_sig srq \<longrightarrow> signed_entry srq (get_wqe srq h) (2 ^ srq_wqe_shift srq) (of_nat h) m')"
  by (rule post_single_ok [OF assms])

theorem srq_entry_holds_request_witness:
  "\<exists>srq' m'. mlx5_post_srq_recv [recv_request 7 64 16] sample_srq srq_memory = Inr (0, [], srq', m') \<and>
    bytes_at m' 4112 16 = [0, 0, 0, 16, 0, 0, 0, 3, 0, 0, 0, 0, 0, 0, 0, 64] \<and> signed_entry sample_srq 4096 32 0 m'"
proof -
  have "entry_bytes 1 (recv_request 7 64 16) = [0, 0, 0, 16, 0, 0, 0, 3, 0, 0, 0, 0, 0, 0, 0, 64]"
    by code_simp
  then show ?thesis
    using srq_entry_holds_request [OF sample_srq_ok, of "recv_request 7 64 16"]
    by (simp add: sample_srq_def get_wqe_def eval_nat_numeral)
qed

text \<open>Requeueing rotates the chain. \<open>mlx5_requeue_srq_wqe\<close> puts the entry at the end of the chain
  and takes one from its front, which gets the identifier of the requeued one; the counter advances
  by one, and the queue is well-formed again.\<close>

theorem srq_requeue_rotates:
  assumes "srq_ok srq m xs" and "ind < srq_max srq" and "ind \<notin> set xs"
  shows "\<exists>srq' m'. mlx5_requeue_srq_wqe ind srq m = Inr (srq', m') \<and> srq_ok srq' m' (tl xs @ [ind]) \<and>
    srq_wrid srq' ! hd xs = srq_wrid srq ! ind \<and> srq_counter srq' = srq_counter srq + 1"
proof -
  obtain srq' m' where r: "mlx5_requeue_srq_wqe ind srq m = Inr (srq', m')" "srq_ok srq' m' (tl (xs @ [ind]))"
    "srq_wrid srq' = (srq_wrid srq)[hd xs := srq_wrid srq ! ind]" "srq_counter srq' = srq_counter srq + 1"
    using requeue_ok [OF assms] by blast
  have ne: "xs \<noteq> []" using assms(1) linked_nonempty by (auto simp: srq_ok_def)
  then have "hd xs < length (srq_wrid srq)"
    using assms(1) hd_in_set [OF ne] by (auto simp: srq_ok_def srq_geom_def)
  then show ?thesis using r ne by simp
qed

theorem srq_requeue_rotates_witness:
  "\<exists>srq' m'. mlx5_requeue_srq_wqe 0 (sample_srq\<lparr>srq_head := 1, srq_wrid := [7, 0, 0, 0]\<rparr>) srq_memory = Inr (srq', m') \<and>
    srq_ok srq' m' [2, 3, 0] \<and> srq_wrid srq' ! 1 = 7 \<and> srq_counter srq' = 1"
proof -
  let ?q = "sample_srq\<lparr>srq_head := 1, srq_wrid := [7, 0, 0, 0]\<rparr>"
  have "srq_geom ?q srq_memory"
    by (auto simp: srq_geom_def sample_srq_def srq_memory_def mapped_iff)
  moreover have "linked ?q srq_memory [1, 2, 3]" by code_simp
  ultimately have ok: "srq_ok ?q srq_memory [1, 2, 3]" by (auto simp: srq_ok_def sample_srq_def)
  have ind: "0 < srq_max ?q" by (simp add: sample_srq_def)
  show ?thesis using srq_requeue_rotates [OF ok ind] by (auto simp: sample_srq_def)
qed

text \<open>C38: a new queue is well-formed, or its size does not fit in an \<open>int\<close>. The request is within the
  limits of the device, which are below 65536 requests and 0x100000 segments, the rounded size of one
  entry is within \<open>max_rq_desc_sz\<close>, and the surroundings give what is asked of them. If the buffer is
  smaller than 2^31 bytes, \<open>mlx5_alloc_srq\<close> succeeds with \<open>n\<close> entries (one more than were asked for, rounded
  up to a power of two), all of them linked in order from entry 0; an entry holds at least the segments asked for, and
  the number it really holds is written back. If it is not, the product of the number and the size of
  the entries overflows the \<open>int\<close> it is computed in (\<open>srq.c:254\<close>).\<close>

theorem new_srq_links_all_entries:
  assumes "max_wr \<le> max_srq_recv_wr lim" and "max_srq_recv_wr lim < 65536"
    and "max_sge \<le> of_int (max_recv_wr lim div 16)" and "max_sge < 0x100000"
    and "sz = mlx5_round_up_power_of_two (max 32 (16 + uint max_sge * 16))" and "sz \<le> max_rq_desc_sz lim"
    and "n = mlx5_round_up_power_of_two (uint (max_wr + 1))" and "buffers_given e (nat n) (nat sz) m"
  shows "(n * sz < 2 ^ 31 \<longrightarrow>
      (\<exists>srq sge m'. mlx5_alloc_srq e lim max_wr max_sge m = Inr (Some srq, sge, m') \<and>
        srq_ok srq m' [0..<srq_max srq] \<and> unat max_wr < srq_max srq \<and> max_sge \<le> sge \<and>
        uint sge = srq_max_gs srq \<and> srq_counter srq = 0 \<and> int (srq_max srq) = n)) \<and>
    (2 ^ 31 \<le> n * sz \<longrightarrow> mlx5_alloc_srq e lim max_wr max_sge m = Inl (Fault SignedOverflow))"
proof (intro conjI impI)
  assume "n * sz < 2 ^ 31"
  then show "\<exists>srq sge m'. mlx5_alloc_srq e lim max_wr max_sge m = Inr (Some srq, sge, m') \<and>
        srq_ok srq m' [0..<srq_max srq] \<and> unat max_wr < srq_max srq \<and> max_sge \<le> sge \<and>
        uint sge = srq_max_gs srq \<and> srq_counter srq = 0 \<and> int (srq_max srq) = n"
    using mlx5_alloc_srq_ok [OF assms(1-6) assms(8) [unfolded assms(7)]] unfolding assms(7) by blast
next
  assume "2 ^ 31 \<le> n * sz"
  then show "mlx5_alloc_srq e lim max_wr max_sge m = Inl (Fault SignedOverflow)"
    using mlx5_alloc_srq_overflows [OF assms(1-6) assms(8) [unfolded assms(7)]] unfolding assms(7) by blast
qed

theorem new_srq_links_all_entries_witness:
  "\<exists>srq sge m'. mlx5_alloc_srq \<lparr>srq_made = True, lock_made = True, ids_made = Some [0, 0, 0, 0],
       buf_made = Some 4096, db_made = Some 8192\<rparr>
     \<lparr>max_srq_recv_wr = 32767, max_recv_wr = 512, max_rq_desc_sz = 512, srq_sig_enabled = True\<rparr> 3 1 (\<lambda>_. Some 0) =
       Inr (Some srq, sge, m') \<and> srq_ok srq m' [0..<srq_max srq] \<and> 3 < srq_max srq"
proof -
  let ?e = "\<lparr>srq_made = True, lock_made = True, ids_made = Some [0, 0, 0, 0], buf_made = Some 4096, db_made = Some 8192\<rparr>"
  let ?lim = "\<lparr>max_srq_recv_wr = 32767, max_recv_wr = 512, max_rq_desc_sz = 512, srq_sig_enabled = True\<rparr>"
  have sz: "32 = mlx5_round_up_power_of_two (max 32 (16 + uint (1 :: u32) * 16))"
    "mlx5_round_up_power_of_two 4 = 4" by code_simp+
  have n: "4 = mlx5_round_up_power_of_two (uint ((3 :: u32) + 1))" by (simp add: sz(2))
  have "buffers_given ?e (nat 4) (nat 32) (\<lambda>_. Some 0)" by (simp add: buffers_given_def mapped_iff)
  from new_srq_links_all_entries [OF _ _ _ _ sz(1) _ n this, of ?lim] show ?thesis by fastforce
qed

section \<open>Messages\<close>

text \<open>C36: a message reaches the buffers of its entry. When the segments of the entry cover the
  message, lie apart from each other, from the entry and from the data, \<open>mlx5_copy_to_recv_srq\<close>
  succeeds, and reading the segments in their order gives back the \<open>n\<close> bytes of the message.\<close>

theorem srq_message_round_trip:
  assumes "srq_geom srq m" and "idx < srq_max srq"
    and "bytes_at m (get_wqe srq idx + 16) (16 * length sgs) = concat (map data_bytes sgs)"
    and "int (length sgs) \<le> srq_max_gs srq" and "sgs \<noteq> []"
    and "targets_ok m sgs (get_wqe srq idx + 16) (16 * length sgs) buf n" and "mapped m buf n"
    and "n \<le> total_length sgs" and "n < 2 ^ 31"
  shows "\<exists>m'. mlx5_copy_to_recv_srq srq idx buf (int n) m = Inr (True, m') \<and> gathered m' sgs n = bytes_at m buf n"
  by (rule copy_to_recv_ok [OF assms])

definition filled_memory :: memory where
  "filled_memory = upd_bytes 4112 (data_bytes \<lparr>sg_addr = 512, sg_length = 4, sg_lkey = 3\<rparr>)
     (upd_bytes 1024 [1, 2, 3, 4, 5] (\<lambda>_. Some 0))"

lemma filled_entry: "bytes_at filled_memory 4112 16 = data_bytes \<lparr>sg_addr = 512, sg_length = 4, sg_lkey = 3\<rparr>"
  unfolding filled_memory_def by (rule bytes_at_same') (simp add: data_bytes_def)

lemma filled_message: "n \<le> 5 \<Longrightarrow> bytes_at filled_memory 1024 n = take n [1, 2, 3, 4, 5]"
proof -
  assume n: "n \<le> 5"
  let ?m = "upd_bytes 1024 [1, 2, 3, 4, 5] (\<lambda>_. Some 0)"
  have "bytes_at filled_memory 1024 n = bytes_at ?m 1024 n"
    unfolding filled_memory_def using n by (intro bytes_at_disjoint) simp
  also have "\<dots> = take n (bytes_at ?m 1024 5)"
    using n bytes_at_add [of ?m 1024 n "5 - n"] by simp
  also have "bytes_at ?m 1024 5 = [1, 2, 3, 4, 5]" by (rule bytes_at_same') simp
  finally show ?thesis .
qed

lemma filled_mapped: "mapped filled_memory a n"
  unfolding filled_memory_def by (intro mapped_upd) (simp add: mapped_iff)

lemma sample_geom: "srq_geom sample_srq filled_memory"
  by (simp add: srq_geom_def sample_srq_def filled_mapped)

lemma sample_targets:
  assumes "n \<le> 5"
  shows "targets_ok filled_memory [\<lparr>sg_addr = 512, sg_length = 4, sg_lkey = 3\<rparr>] 4112 16 1024 n"
  using assms by (simp add: filled_mapped apart_def)

theorem srq_message_round_trip_witness:
  "\<exists>m'. mlx5_copy_to_recv_srq sample_srq 0 1024 3 filled_memory = Inr (True, m') \<and> bytes_at m' 512 3 = [1, 2, 3]"
proof -
  let ?sg = "\<lparr>sg_addr = 512, sg_length = 4, sg_lkey = 3\<rparr>"
  have "get_wqe sample_srq 0 = 4096" by code_simp
  then show ?thesis
    using srq_message_round_trip [OF sample_geom, of 0 "[?sg]" 1024 3] filled_entry filled_message [of 3] sample_targets [of 3]
    by (simp add: sample_srq_def filled_mapped total_length_def)
qed

text \<open>C39: a message longer than a full scatter list is read past its entry. The loop of
  \<open>mlx5_copy_to_recv_srq\<close> visits as many segments as fit in the whole entry, its first segment
  counted; when all segments of a full entry are used and data is left, the loop takes the header of
  the next entry in the buffer for a data segment and copies the rest where that says.\<close>

theorem srq_short_list_overruns:
  assumes "srq_geom srq m" and "idx < srq_max srq"
    and "bytes_at m (get_wqe srq idx + 16) (16 * length sgs) = concat (map data_bytes sgs)"
    and "int (length sgs) = srq_max_gs srq" and "16 + 16 * length sgs = 2 ^ srq_wqe_shift srq"
    and "targets_ok m sgs (get_wqe srq idx + 16) (16 * length sgs) buf n" and "mapped m buf n"
    and "total_length sgs < n" and "n < 2 ^ 31"
  shows "\<exists>m'. mlx5_copy_to_recv_srq srq idx buf (int n) m =
    scatter (get_wqe srq (Suc idx)) (buf + total_length sgs) (int (n - total_length sgs))
      (int (length sgs)) (int (length sgs) + 1) m'"
  by (rule copy_to_recv_overrun [OF assms])

theorem srq_short_list_overruns_witness:
  "\<exists>m'. mlx5_copy_to_recv_srq sample_srq 0 1024 5 filled_memory = scatter 4128 1028 1 1 2 m'"
proof -
  let ?sg = "\<lparr>sg_addr = 512, sg_length = 4, sg_lkey = 3\<rparr>"
  have "get_wqe sample_srq 0 = 4096" "get_wqe sample_srq (Suc 0) = 4128" by code_simp+
  then show ?thesis
    using srq_short_list_overruns [OF sample_geom, of 0 "[?sg]" 1024 5] filled_entry sample_targets [of 5]
    by (simp add: sample_srq_def filled_mapped total_length_def)
qed

end
