(* ===== verification/Cq.thy ===== *)
theory Cq
  imports Srq Rsc_Table
begin

text \<open>
  \<open>cq.c\<close> of the driver: the ring of completion queue entries in host memory, the bit by which adapter
  and software hand entries to each other, the expansion of compressed entries, the removal of the
  entries of a queue pair, the copy into a resized ring, and the doorbells. An entry is 64 bytes, or
  128 of which the second half is the entry proper. Counters are 32-bit words; an index into the ring
  is a counter masked with the number of entries less one.
\<close>

record mlx5_cq =
  cq_buf :: nat
  cq_cqe :: u32
  cq_sz :: nat
  cq_cons :: u32
  cq_dbrec :: nat
  cq_arm_sn :: u32
  cq_cqn :: u32
  cq_log_size :: nat
  cq_dv_owned :: bool
  next_decomp :: "u8 list"
  compressed_left :: u16
  compressed_wqe_cnt :: u16
  compressed_mp_rq :: bool
  mini_arr_idx :: nat
  mini_array :: "u8 list"
  cq_resize_buf :: nat
  cq_resize_cqes :: u32
  cq_resize_sz :: nat
  cq_active_cqes :: u32

text \<open>What the queue reaches through its context: the tables, and the type of the object at an address.\<close>

record cq_context =
  cq_tables :: mlx5_tables
  cqe_version :: u8
  is_mp_rwq :: "nat \<Rightarrow> bool"

definition MLX5_CQE_REQ :: u8 where "MLX5_CQE_REQ = 0"
definition MLX5_CQE_RESP_WR_IMM :: u8 where "MLX5_CQE_RESP_WR_IMM = 1"
definition MLX5_CQE_RESP_SEND :: u8 where "MLX5_CQE_RESP_SEND = 2"
definition MLX5_CQE_RESP_SEND_IMM :: u8 where "MLX5_CQE_RESP_SEND_IMM = 3"
definition MLX5_CQE_RESP_SEND_INV :: u8 where "MLX5_CQE_RESP_SEND_INV = 4"
definition MLX5_CQE_RESIZE_CQ :: u8 where "MLX5_CQE_RESIZE_CQ = 5"
definition MLX5_CQE_NO_PACKET :: u8 where "MLX5_CQE_NO_PACKET = 6"
definition MLX5_CQE_REQ_ERR :: u8 where "MLX5_CQE_REQ_ERR = 13"
definition MLX5_CQE_RESP_ERR :: u8 where "MLX5_CQE_RESP_ERR = 14"
definition MLX5_CQE_INVALID :: u8 where "MLX5_CQE_INVALID = 15"
definition MLX5_CQE_OWNER_MASK :: u8 where "MLX5_CQE_OWNER_MASK = 1"
definition MLX5_COMPRESSED :: u8 where "MLX5_COMPRESSED = 3"
definition MLX5_MINI_ARR_SIZE :: nat where "MLX5_MINI_ARR_SIZE = 8"

section \<open>Entries\<close>

text \<open>The offsets of the fields of \<open>struct mlx5_cqe64\<close> the queue reads or writes.\<close>

definition load8 :: "nat \<Rightarrow> memory \<Rightarrow> u8 res" where
  "load8 a m = bindR (load_bytes a 1 m) (\<lambda>bs. Inr (hd bs))"

definition op_own_of :: "nat \<Rightarrow> memory \<Rightarrow> u8 res" where
  "op_own_of cqe = load8 (cqe + 63)"

definition cqe_opcode :: "u8 \<Rightarrow> u8" where
  "cqe_opcode op_own = drop_bit 4 op_own"

definition mlx5_get_cqe_format :: "nat \<Rightarrow> memory \<Rightarrow> u8 res" where
  "mlx5_get_cqe_format cqe m = bindR (op_own_of cqe m) (\<lambda>b. Inr (drop_bit 2 (b AND 0xc)))"

definition get_buf_cqe :: "nat \<Rightarrow> u32 \<Rightarrow> nat \<Rightarrow> nat" where
  "get_buf_cqe buf n sz = buf + unat n * sz"

definition get_cqe :: "mlx5_cq \<Rightarrow> u32 \<Rightarrow> nat" where
  "get_cqe q n = get_buf_cqe (cq_buf q) n (cq_sz q)"

text \<open>The entry proper: \<open>cqe_sz == 64 ? cqe : cqe + 64\<close>.\<close>

definition cqe64_of :: "nat \<Rightarrow> nat \<Rightarrow> nat" where
  "cqe64_of sz cqe = (if sz = 64 then cqe else cqe + 64)"

text \<open>An entry is the software's when it is valid and its owner bit is the parity of the ring's pass.\<close>

definition get_sw_cqe :: "mlx5_cq \<Rightarrow> u32 \<Rightarrow> u32 \<Rightarrow> memory \<Rightarrow> nat option res" where
  "get_sw_cqe q n cqe_mask m =
     (let cqe = get_cqe q (n AND cqe_mask) in
      bindR (op_own_of (cqe64_of (cq_sz q) cqe) m) (\<lambda>b.
        Inr (if cqe_opcode b \<noteq> MLX5_CQE_INVALID \<and>
                (b AND MLX5_CQE_OWNER_MASK \<noteq> 0) = (n AND (cqe_mask + 1) \<noteq> 0)
             then Some cqe else None)))"

definition is_requestor :: "u8 \<Rightarrow> bool" where
  "is_requestor opcode \<longleftrightarrow> opcode = MLX5_CQE_REQ \<or> opcode = MLX5_CQE_REQ_ERR"

definition is_responder :: "u8 \<Rightarrow> bool" where
  "is_responder opcode \<longleftrightarrow> opcode \<in> {MLX5_CQE_RESP_WR_IMM, MLX5_CQE_RESP_SEND, MLX5_CQE_RESP_SEND_IMM,
     MLX5_CQE_RESP_SEND_INV, MLX5_CQE_RESP_ERR, MLX5_CQE_NO_PACKET}"

section \<open>Compressed entries\<close>

text \<open>
  A mini array is one entry's first 64 bytes, read as eight pairs: four bytes that are the hash of a
  received packet, or counter and opcode of a sent one, and the byte count.
\<close>

definition mini_ent :: "u8 list \<Rightarrow> nat \<Rightarrow> u8 list res" where
  "mini_ent mini i = (if 8 * i + 8 \<le> length mini then Inr (take 8 (drop (8 * i) mini)) else Inl (Fault OutOfBounds))"

text \<open>How many receive entries one completion stands for: its strides on a striding queue, else one.\<close>

definition wqe_cnt_step :: "bool \<Rightarrow> u8 list \<Rightarrow> u16" where
  "wqe_cnt_step mp_rq ent =
     (if mp_rq then ucast (drop_bit 16 (ntohl (of_le32 (drop 4 ent)) AND 0x3FFF0000)) else 1)"

text \<open>
  \<open>copy_cqes\<close>: from entry \<open>i\<close> of the array on; also the next counter. The title is passed by value: the
  fields the loop changes in the title's own entry are among those it sets in every entry, and of its
  last byte only the bits outside \<open>0xf2\<close> change.
\<close>

function copy_cqes :: "mlx5_cq \<Rightarrow> u8 list \<Rightarrow> u8 list \<Rightarrow> nat \<Rightarrow> nat \<Rightarrow> u16 \<Rightarrow> u32 \<Rightarrow> bool \<Rightarrow> u32 \<Rightarrow>
    memory \<Rightarrow> (u16 \<times> memory) res" where
  "copy_cqes q mini title i cnt wqe_cnt cqe_idx mp_rq cqe_mask m =
     (if i < cnt
      then bindR (mini_ent mini i) (\<lambda>ent. bindR (read_at title 63) (\<lambda>b.
           let idx = cqe_idx + of_nat i;
               cqe = get_cqe q (idx AND cqe_mask);
               own = (b AND 0xf2) OR ucast (drop_bit (cq_log_size q) idx AND 1) in
           bindR (store_bytes cqe title m) (\<lambda>m.
           bindR (store_bytes (cqe + 44) (drop 4 ent) m) (\<lambda>m.
           bindR (store8 (cqe + 63) own m) (\<lambda>m.
             if is_requestor (cqe_opcode b)
             then bindR (store_bytes (cqe + 60) (take 2 ent) m) (\<lambda>m.
                  bindR (store_bytes (cqe + 56) (take 1 (drop 2 ent)) m)
                    (copy_cqes q mini title (Suc i) cnt wqe_cnt cqe_idx mp_rq cqe_mask))
             else bindR (store_bytes (cqe + 12) (take 4 ent) m) (\<lambda>m.
                  bindR (store16 (cqe + 60) (htons wqe_cnt) m)
                    (copy_cqes q mini title (Suc i) cnt (wqe_cnt + wqe_cnt_step mp_rq ent) cqe_idx mp_rq cqe_mask)))))))
      else Inr (wqe_cnt, m))"
  by pat_completeness auto
termination
  by (relation "measure (\<lambda>(q, mini, title, i, cnt, wqe_cnt, idx, mp_rq, msk, m). cnt - i)") auto

declare copy_cqes.simps [simp del]

text \<open>The object an entry belongs to, by user index or by number.\<close>

definition find_rsc :: "cq_context \<Rightarrow> u8 list \<Rightarrow> nat res" where
  "find_rsc ctx cqe64 =
     (if cqe_version ctx \<noteq> 0
      then mlx5_find_uidx (cq_tables ctx) (ntohl (of_le32 (take 4 (drop 32 cqe64))) AND 0xffffff)
      else mlx5_find_rsc (cq_tables ctx) (ntohl (of_le32 (take 4 (drop 56 cqe64))) AND 0xffffff))"

text \<open>The loop over whole arrays of eight, and the rest of the session.\<close>

function expand_rest :: "mlx5_cq \<Rightarrow> u8 list \<Rightarrow> u8 list \<Rightarrow> int \<Rightarrow> u16 \<Rightarrow> u32 \<Rightarrow> bool \<Rightarrow> u32 \<Rightarrow> memory \<Rightarrow> memory res" where
  "expand_rest q mini title cqe_cnt wqe_cnt cqe_idx mp_rq cqe_mask m =
     (if cqe_cnt > 7
      then bindR (copy_cqes q mini title 0 MLX5_MINI_ARR_SIZE wqe_cnt cqe_idx mp_rq cqe_mask m) (\<lambda>(wqe_cnt, m).
           bindR (load_bytes (get_cqe q ((cqe_idx + 8) AND cqe_mask)) 64 m) (\<lambda>mini.
             expand_rest q mini title (cqe_cnt - 8) wqe_cnt (cqe_idx + 8) mp_rq cqe_mask m))
      else bindR (copy_cqes q mini title 0 (nat cqe_cnt) wqe_cnt cqe_idx mp_rq cqe_mask m) (\<lambda>(_, m). Inr m))"
  by pat_completeness auto
termination
  by (relation "measure (\<lambda>(q, mini, title, cnt, wqe_cnt, idx, mp_rq, msk, m). nat cnt)") auto

declare expand_rest.simps [simp del]

definition mlx5_decompress_cqe_idx :: "cq_context \<Rightarrow> mlx5_cq \<Rightarrow> u32 \<Rightarrow> u32 \<Rightarrow> memory \<Rightarrow> memory res" where
  "mlx5_decompress_cqe_idx ctx q cqe_idx cqe_mask m =
     bindR (load_bytes (get_cqe q (cqe_idx AND cqe_mask)) 64 m) (\<lambda>title.
     bindR (load_bytes (get_cqe q ((cqe_idx + 1) AND cqe_mask)) 64 m) (\<lambda>mini.
     bindR (find_rsc ctx title) (\<lambda>rsc.
       let cqe_cnt = sint (ntohl (of_le32 (take 4 (drop 44 title))));
           wqe_cnt = ntohs (of_le16 (take 2 (drop 60 title)));
           mp_rq = (rsc \<noteq> 0 \<and> is_mp_rwq ctx rsc) in
       expand_rest q mini title cqe_cnt wqe_cnt cqe_idx mp_rq cqe_mask m)))"

definition mlx5_decompress_curr :: "mlx5_cq \<Rightarrow> u32 \<Rightarrow> u32 \<Rightarrow> memory \<Rightarrow> (mlx5_cq \<times> memory) res" where
  "mlx5_decompress_curr q cqe_idx cqe_mask m =
     (let cqe_cnt = unat (compressed_left q) in
      if cqe_cnt = 0 then Inr (q, m)
      else let q' = q\<lparr>compressed_left := 0\<rparr>; title = next_decomp q;
               first_chunk = min cqe_cnt (MLX5_MINI_ARR_SIZE - mini_arr_idx q) in
           bindR (copy_cqes q' (drop (8 * mini_arr_idx q) (mini_array q)) title 0 first_chunk
                    (compressed_wqe_cnt q) cqe_idx (compressed_mp_rq q) cqe_mask m) (\<lambda>(wqe_cnt, m).
             if cqe_cnt - first_chunk = 0 then Inr (q', m)
             else let cqe_idx = cqe_idx + of_nat first_chunk in
                  bindR (load_bytes (get_cqe q' (cqe_idx AND cqe_mask)) 64 m) (\<lambda>mini.
                  bindR (expand_rest q' mini title (int (cqe_cnt - first_chunk)) wqe_cnt cqe_idx
                           (compressed_mp_rq q) cqe_mask m) (\<lambda>m. Inr (q', m)))))"

section \<open>Doorbells\<close>

definition mlx5_update_cons_index :: "mlx5_cq \<Rightarrow> memory \<Rightarrow> memory res" where
  "mlx5_update_cons_index q = store32 (cq_dbrec q) (htonl (cq_cons q AND 0xffffff))"

definition MLX5_CQ_DB_REQ_NOT_SOL :: u32 where "MLX5_CQ_DB_REQ_NOT_SOL = 0x01000000"
definition MLX5_CQ_DB_REQ_NOT :: u32 where "MLX5_CQ_DB_REQ_NOT = 0"

text \<open>\<open>mlx5_arm_cq\<close>: the record in memory, and the two words written to the adapter's register.\<close>

definition mlx5_arm_cq :: "mlx5_cq \<Rightarrow> bool \<Rightarrow> memory \<Rightarrow> (u32 list \<times> memory) res" where
  "mlx5_arm_cq q solicited m =
     (let sn = cq_arm_sn q AND 3; ci = cq_cons q AND 0xffffff;
          cmd = (if solicited then MLX5_CQ_DB_REQ_NOT_SOL else MLX5_CQ_DB_REQ_NOT) in
      bindR (store32 (cq_dbrec q + 4) (htonl (push_bit 28 sn OR cmd OR ci)) m) (\<lambda>m.
        Inr ([htonl (push_bit 28 sn OR cmd OR ci), htonl (cq_cqn q)], m)))"

definition mlx5_cq_event :: "mlx5_cq \<Rightarrow> mlx5_cq" where
  "mlx5_cq_event q = q\<lparr>cq_arm_sn := cq_arm_sn q + 1\<rparr>"

section \<open>Removing the entries of a queue\<close>

definition is_equal_rsn :: "nat \<Rightarrow> u32 \<Rightarrow> memory \<Rightarrow> bool res" where
  "is_equal_rsn cqe64 rsn m = bindR (load32 (cqe64 + 56) m) (\<lambda>x. Inr (rsn = (ntohl x AND 0xffffff)))"

definition is_equal_uidx :: "nat \<Rightarrow> u32 \<Rightarrow> memory \<Rightarrow> bool res" where
  "is_equal_uidx cqe64 uidx m = bindR (load32 (cqe64 + 32) m) (\<lambda>x. Inr (uidx = (ntohl x AND 0xffffff)))"

definition free_entry :: "nat \<Rightarrow> mlx5_srq option \<Rightarrow> memory \<Rightarrow> (mlx5_srq option \<times> memory) res" where
  "free_entry cqe64 srq m = bindR (load16 (cqe64 + 60) m) (\<lambda>x.
     case srq of None \<Rightarrow> Inl (Fault NullDeref)
     | Some s \<Rightarrow> bindR (mlx5_free_srq_wqe (unat (ntohs x)) s m) (\<lambda>(s, m). Inr (Some s, m)))"

definition free_res_cqe :: "nat \<Rightarrow> u32 \<Rightarrow> mlx5_srq option \<Rightarrow> u8 \<Rightarrow> memory \<Rightarrow> (bool \<times> mlx5_srq option \<times> memory) res" where
  "free_res_cqe cqe64 rsn_uidx srq version m =
     bindR (if version \<noteq> 0 then is_equal_uidx cqe64 rsn_uidx m else is_equal_rsn cqe64 rsn_uidx m) (\<lambda>eq.
       if \<not> eq then Inr (False, srq, m)
       else bindR (if version \<noteq> 0
                   then bindR (op_own_of cqe64 m) (\<lambda>b. Inr (srq \<noteq> None \<and> is_responder (cqe_opcode b)))
                   else bindR (load32 (cqe64 + 32) m) (\<lambda>x. Inr (srq \<noteq> None \<and> ntohl x AND 0xffffff \<noteq> 0))) (\<lambda>b.
              if b then bindR (free_entry cqe64 srq m) (\<lambda>(srq, m). Inr (True, srq, m))
              else Inr (True, srq, m)))"

text \<open>
  \<open>++i\<close> on an index that is unsigned in the clean-up and an \<open>int\<close> in the copy of a resize, where it
  must not overflow.
\<close>

definition next_index :: "bool \<Rightarrow> u32 \<Rightarrow> u32 res" where
  "next_index as_int i = (if as_int \<and> i = 0x7FFFFFFF then Inl (Fault SignedOverflow) else Inr (i + 1))"

text \<open>The first loop: up to the first entry that is the adapter's, or once around the ring.\<close>

function find_prod :: "bool \<Rightarrow> cq_context \<Rightarrow> mlx5_cq \<Rightarrow> u32 \<Rightarrow> u32 \<Rightarrow> memory \<Rightarrow> (u32 \<times> memory) res" where
  "find_prod as_int ctx q mask_cqe prod_index m =
     bindR (get_sw_cqe q prod_index mask_cqe m) (\<lambda>c.
       case c of
         None \<Rightarrow> Inr (prod_index, m)
       | Some cqe \<Rightarrow>
           bindR (mlx5_get_cqe_format cqe m) (\<lambda>f.
           bindR (if f = MLX5_COMPRESSED then mlx5_decompress_cqe_idx ctx q prod_index mask_cqe m else Inr m) (\<lambda>m.
             if prod_index = cq_cons q + mask_cqe then Inr (prod_index, m)
             else bindR (next_index as_int prod_index) (\<lambda>nxt. find_prod as_int ctx q mask_cqe nxt m))))"
  by pat_completeness auto
termination
proof (relation "measure (\<lambda>(sg, ctx, q, msk, prod, m). unat (cq_cons q + msk - prod))", goal_cases)
  case (2 sg ctx q msk prod m c cqe f m' nxt)
  then have "cq_cons q + msk - prod \<noteq> 0" "nxt = prod + 1" by (auto simp: next_index_def split: if_splits)
  then have "unat (cq_cons q + msk - prod - 1) < unat (cq_cons q + msk - prod)"
    by (simp add: unat_minus_one unat_gt_0)
  then show ?case using \<open>nxt = prod + 1\<close> by (simp add: diff_diff_add)
qed simp

declare find_prod.simps [simp del]

text \<open>
  The second loop, backwards from \<open>p\<close>: \<open>(int) p - (int) cons_index\<close> is an \<open>int\<close> subtraction, which
  must not overflow.
\<close>

definition int_diff :: "u32 \<Rightarrow> u32 \<Rightarrow> int res" where
  "int_diff a b = (let d = sint a - sint b in
     if - 2147483648 \<le> d \<and> d < 2147483648 then Inr d else Inl (Fault SignedOverflow))"

definition move_cqe :: "mlx5_cq \<Rightarrow> u32 \<Rightarrow> nat \<Rightarrow> memory \<Rightarrow> memory res" where
  "move_cqe q p nfreed m =
     (let cqe = get_cqe q (p AND cq_cqe q); dest = get_cqe q ((p + of_nat nfreed) AND cq_cqe q);
          dest64 = cqe64_of (cq_sz q) dest in
      bindR (op_own_of dest64 m) (\<lambda>owner.
      bindR (memcpy dest cqe (int (cq_sz q)) m) (\<lambda>m.
      bindR (op_own_of dest64 m) (\<lambda>b.
        store8 (dest64 + 63) ((owner AND MLX5_CQE_OWNER_MASK) OR (b AND NOT MLX5_CQE_OWNER_MASK)) m))))"

definition steps_left :: "u32 \<Rightarrow> u32 \<Rightarrow> nat" where
  "steps_left p c = (case int_diff p c of Inl e \<Rightarrow> 0 | Inr d \<Rightarrow> nat (d + 1))"

lemma sint_range: "- 2147483648 \<le> sint (x :: u32)" "sint x < 2147483648"
  using sint_ge [of x] sint_lt [of x] by simp_all

lemma steps_left_less:
  assumes "int_diff p c = Inr d" "0 \<le> d"
  shows "steps_left (p - 1) c < steps_left p c"
proof -
  have d: "d = sint p - sint c" using assms(1) by (auto simp: int_diff_def Let_def split: if_splits)
  have sp: "sint (p - 1) = signed_take_bit 31 (sint p - 1)"
    by (simp add: sint_word_ariths)
  show ?thesis
  proof (cases "sint p = - 2147483648")
    case True
    then have "sint (p - 1) = 2147483647" using sp by (simp add: signed_take_bit_eq_take_bit_shift take_bit_eq_mod)
    moreover have "sint c = - 2147483648" using True d assms(2) sint_range [of c] by linarith
    ultimately show ?thesis using assms by (simp add: steps_left_def int_diff_def Let_def)
  next
    case False
    then have "signed_take_bit 31 (sint p - 1) = sint p - 1"
      using sint_range [of p] by (intro signed_take_bit_int_eq_self) (simp; linarith)+
    then have "sint (p - 1) - sint c = d - 1" using sp d by simp
    then show ?thesis using assms d sint_range [of p] sint_range [of c]
      by (auto simp: steps_left_def int_diff_def Let_def split: if_splits)
  qed
qed

function sweep :: "mlx5_cq \<Rightarrow> u32 \<Rightarrow> u8 \<Rightarrow> u32 \<Rightarrow> nat \<Rightarrow> mlx5_srq option \<Rightarrow> memory \<Rightarrow>
    (nat \<times> mlx5_srq option \<times> memory) res" where
  "sweep q rsn_uidx version p nfreed srq m =
     (case int_diff p (cq_cons q) of
        Inl e \<Rightarrow> Inl e
      | Inr d \<Rightarrow>
          if d < 0 then Inr (nfreed, srq, m)
          else bindR (free_res_cqe (cqe64_of (cq_sz q) (get_cqe q (p AND cq_cqe q))) rsn_uidx srq version m) (\<lambda>(freed, srq, m).
            if freed then sweep q rsn_uidx version (p - 1) (Suc nfreed) srq m
            else if nfreed \<noteq> 0
            then bindR (move_cqe q p nfreed m) (sweep q rsn_uidx version (p - 1) nfreed srq)
            else sweep q rsn_uidx version (p - 1) nfreed srq m))"
  by pat_completeness auto
termination
  by (relation "measure (\<lambda>(q, r, v, p, n, srq, m). steps_left p (cq_cons q))")
    (auto simp: steps_left_less not_less)

declare sweep.simps [simp del]

text \<open>\<open>__mlx5_cq_clean\<close> for a queue that is there; one owned by a direct user is left alone.\<close>

definition mlx5_cq_clean :: "cq_context \<Rightarrow> mlx5_cq \<Rightarrow> u32 \<Rightarrow> mlx5_srq option \<Rightarrow> memory \<Rightarrow>
    (mlx5_cq \<times> mlx5_srq option \<times> memory) res" where
  "mlx5_cq_clean ctx q rsn_uidx srq m =
     (if cq_dv_owned q then Inr (q, srq, m)
      else bindR (mlx5_decompress_curr q (cq_cons q) (cq_cqe q) m) (\<lambda>(q, m).
           bindR (find_prod False ctx q (cq_cqe q) (cq_cons q) m) (\<lambda>(prod_index, m).
           bindR (sweep q rsn_uidx (cqe_version ctx) (prod_index - 1) 0 srq m) (\<lambda>(nfreed, srq, m).
             if nfreed = 0 then Inr (q, srq, m)
             else let q = q\<lparr>cq_cons := cq_cons q + of_nat nfreed\<rparr> in
                  bindR (mlx5_update_cons_index q m) (\<lambda>m. Inr (q, srq, m))))))"

section \<open>Resizing\<close>

definition sw_ownership_bit :: "u32 \<Rightarrow> u32 \<Rightarrow> u8" where
  "sw_ownership_bit n nent = (if n AND nent \<noteq> 0 then 1 else 0)"

definition is_hw :: "u8 \<Rightarrow> u32 \<Rightarrow> u32 \<Rightarrow> bool" where
  "is_hw own n cqe_mask \<longleftrightarrow> (own AND MLX5_CQE_OWNER_MASK \<noteq> 0) \<noteq> (n AND (cqe_mask + 1) \<noteq> 0)"

text \<open>
  The copy loop of \<open>mlx5_cq_resize_copy_cqes\<close> from entry \<open>i\<close> on: whether it met the resize entry. The
  fuel bounds the entries visited; \<open>None\<close> means more were needed.
\<close>

fun copy_loop :: "nat \<Rightarrow> mlx5_cq \<Rightarrow> u32 \<Rightarrow> memory \<Rightarrow> (bool \<times> memory) res option" where
  "copy_loop 0 q i m = None"
| "copy_loop (Suc n) q i m =
     (let ssize = cq_sz q; dsize = cq_resize_sz q;
          scqe = get_buf_cqe (cq_buf q) (i AND cq_active_cqes q) ssize in
      case op_own_of (cqe64_of ssize scqe) m of
        Inl e \<Rightarrow> Some (Inl e)
      | Inr b \<Rightarrow>
        if cqe_opcode b = MLX5_CQE_RESIZE_CQ then Some (Inr (True, m))
        else let dcqe = get_buf_cqe (cq_resize_buf q) ((i + 1) AND (cq_resize_cqes q - 1)) dsize;
                 dcqe64 = cqe64_of dsize dcqe;
                 sw_own = sw_ownership_bit (i + 1) (cq_resize_cqes q);
                 nxt = get_buf_cqe (cq_buf q) ((i + 1) AND cq_active_cqes q) ssize;
                 r = bindR (next_index True i) (\<lambda>_.
                     bindR (memcpy dcqe scqe (int ssize) m) (\<lambda>m.
                     bindR (op_own_of dcqe64 m) (\<lambda>b.
                     bindR (store8 (dcqe64 + 63) ((b AND NOT MLX5_CQE_OWNER_MASK) OR sw_own) m) (\<lambda>m.
                     bindR (op_own_of (cqe64_of ssize nxt) m) (\<lambda>b. Inr (b, m))))))
             in (case r of
                   Inl e \<Rightarrow> Some (Inl e)
                 | Inr (b, m) \<Rightarrow>
                     if is_hw b (i + 1) (cq_active_cqes q) then Some (Inr (False, m))
                     else if nxt = get_buf_cqe (cq_buf q) (cq_cons q AND cq_active_cqes q) ssize
                     then Some (Inr (False, m))
                     else copy_loop n q (i + 1) m))"

definition mlx5_cq_resize_copy_cqes :: "nat \<Rightarrow> cq_context \<Rightarrow> mlx5_cq \<Rightarrow> memory \<Rightarrow> (mlx5_cq \<times> memory) res option" where
  "mlx5_cq_resize_copy_cqes fuel ctx q m =
     (case bindR (mlx5_decompress_curr q (cq_cons q) (cq_active_cqes q) m) (\<lambda>(q, m).
           bindR (find_prod True ctx q (cq_active_cqes q) (cq_cons q) m) (\<lambda>(prod_index, m).
           bindR (op_own_of (cqe64_of (cq_sz q) (get_buf_cqe (cq_buf q) (cq_cons q AND cq_active_cqes q) (cq_sz q))) m)
             (\<lambda>b. Inr (b, q, m)))) of
        Inl e \<Rightarrow> Some (Inl e)
      | Inr (b, q, m) \<Rightarrow>
          if is_hw b (cq_cons q) (cq_active_cqes q) then Some (Inr (q, m))
          else map_option (\<lambda>r. bindR r (\<lambda>(found, m).
                 Inr (if found then q\<lparr>cq_cons := cq_cons q + 1\<rparr> else q, m)))
               (copy_loop fuel q (cq_cons q) m))"

section \<open>A new ring\<close>

text \<open>\<open>mlx5_alloc_cq_buf\<close> in the buffer it was given: zeroed, every entry marked invalid.\<close>

fun mark_invalid :: "nat \<Rightarrow> nat \<Rightarrow> nat \<Rightarrow> memory \<Rightarrow> memory res" where
  "mark_invalid 0 buf sz m = Inr m"
| "mark_invalid (Suc n) buf sz m =
     bindR (store8 ((if sz = 128 then buf + 64 else buf) + 63) (push_bit 4 MLX5_CQE_INVALID) m)
       (mark_invalid n (buf + sz) sz)"

definition mlx5_alloc_cq_buf :: "nat option \<Rightarrow> nat \<Rightarrow> nat \<Rightarrow> memory \<Rightarrow> (int \<times> nat \<times> memory) res" where
  "mlx5_alloc_cq_buf given nent sz m =
     (case given of
        None \<Rightarrow> Inr (-1, 0, m)
      | Some buf \<Rightarrow>
          bindR (store_bytes buf (replicate (nent * sz) 0) m) (\<lambda>m.
          bindR (mark_invalid nent buf sz m) (\<lambda>m. Inr (0, buf, m))))"

end
