(* ===== verification/Cq_Ring.thy ===== *)
theory Cq_Ring
  imports Cq Srq_Correct
begin

text \<open>
  The ring of completion queue entries as a sequence. Entry \<open>n\<close> of the sequence, for any natural
  number \<open>n\<close>, lies at \<open>n\<close> modulo the ring's length; it is a list of bytes, of which the last holds the
  opcode and the owner bit. What the software may poll are the entries from the consumer counter on
  whose owner bit is the parity of the pass they lie on.
\<close>

section \<open>The place of an entry\<close>

definition ring_len :: "mlx5_cq \<Rightarrow> nat" where
  "ring_len q = unat (cq_cqe q) + 1"

definition ring_at :: "mlx5_cq \<Rightarrow> nat \<Rightarrow> nat" where
  "ring_at q n = cq_buf q + n mod ring_len q * cq_sz q"

definition ring_end :: "mlx5_cq \<Rightarrow> nat" where
  "ring_end q = cq_buf q + ring_len q * cq_sz q"

definition cq_ring :: "mlx5_cq \<Rightarrow> memory \<Rightarrow> bool" where
  "cq_ring q m \<longleftrightarrow> (\<exists>k<32. ring_len q = 2 ^ k) \<and> (cq_sz q = 64 \<or> cq_sz q = 128) \<and>
     mapped m (cq_buf q) (ring_len q * cq_sz q)"

lemma cq_ring_upd [simp]: "cq_ring q m \<Longrightarrow> cq_ring q (upd_bytes a bs m)"
  by (simp add: cq_ring_def)

lemma ring_len_pos [simp]: "0 < ring_len q"
  by (simp add: ring_len_def)

lemma ring_mask:
  assumes "cq_ring q m"
  obtains k where "k < 32" "ring_len q = 2 ^ k" "cq_cqe q = mask k"
proof -
  obtain k where k: "k < 32" "ring_len q = 2 ^ k" using assms by (auto simp: cq_ring_def)
  have "unat (cq_cqe q) = mask k" using k(2) by (simp add: ring_len_def mask_eq_exp_minus_1)
  also have "\<dots> = unat (mask k :: u32)" unfolding take_bit_minus_one_eq_mask [symmetric] unsigned_take_bit_eq
    using k(1) by (simp add: unsigned_minus_1_eq_mask )
  finally show ?thesis using that k by (simp add: word_unat_eq_iff)
qed

lemma ring_len_le: "cq_ring q m \<Longrightarrow> ring_len q \<le> 2147483648"
proof -
  assume "cq_ring q m"
  then obtain k where k: "k < 32" "ring_len q = 2 ^ k" by (rule ring_mask)
  have "(2::nat) ^ k \<le> 2 ^ 31" using k(1) by (intro power_increasing) simp_all
  then show ?thesis by (simp add: k(2))
qed

text \<open>The 32-bit index \<open>w\<close> of entry \<open>n\<close>: its place, and the parity of its pass.\<close>

definition idx_of :: "nat \<Rightarrow> u32" where "idx_of n = of_nat n"

definition odd_pass :: "mlx5_cq \<Rightarrow> nat \<Rightarrow> bool" where
  "odd_pass q n \<longleftrightarrow> odd (n div ring_len q)"

lemma idx_of_unat: "idx_of (unat c + i) = c + of_nat i"
  by (simp add: idx_of_def)

lemma unat_idx_of: "unat (idx_of n) = take_bit 32 n"
  by (simp add: idx_of_def unat_of_nat take_bit_eq_mod)

lemma masked_index:
  assumes "cq_ring q m"
  shows "unat (idx_of n AND cq_cqe q) = n mod ring_len q"
proof -
  obtain k where k: "k < 32" "ring_len q = 2 ^ k" "cq_cqe q = mask k" by (rule ring_mask [OF assms])
  have "unat (idx_of n AND mask k) = take_bit k (take_bit 32 n)"
    by (simp only: take_bit_eq_mask [symmetric] unsigned_take_bit_eq unat_idx_of)
  also have "\<dots> = n mod 2 ^ k" using k(1) by (simp add: take_bit_eq_mod [symmetric])
  finally show ?thesis by (simp only: k)
qed

lemma get_cqe_at: "cq_ring q m \<Longrightarrow> get_cqe q (idx_of n AND cq_cqe q) = ring_at q n"
  by (simp add: get_cqe_def get_buf_cqe_def ring_at_def masked_index)

lemma pass_bit:
  assumes "cq_ring q m"
  shows "(idx_of n AND (cq_cqe q + 1) \<noteq> 0) = odd_pass q n"
proof -
  obtain k where k: "k < 32" "ring_len q = 2 ^ k" "cq_cqe q = mask k" by (rule ring_mask [OF assms])
  have "cq_cqe q + 1 = 2 ^ k" by (simp add: k mask_eq_exp_minus_1)
  then have "(idx_of n AND (cq_cqe q + 1) \<noteq> 0) = bit (idx_of n) k"
    by (simp add: and_exp_eq_0_iff_not_bit)
  also have "\<dots> = bit n k" using k(1)
    bit_unsigned_iff [where 'a = nat, of "idx_of n" k] by (simp add: unat_idx_of bit_take_bit_iff)
  finally show ?thesis by (simp add: odd_pass_def k bit_iff_odd)
qed

section \<open>Entries as bytes\<close>

definition entry_at :: "mlx5_cq \<Rightarrow> memory \<Rightarrow> nat \<Rightarrow> u8 list" where
  "entry_at q m n = bytes_at m (ring_at q n) (cq_sz q)"

lemma length_entry_at [simp]: "length (entry_at q m n) = cq_sz q"
  by (simp add: entry_at_def)

lemma ring_at_in: "ring_at q n + cq_sz q \<le> ring_end q" "cq_buf q \<le> ring_at q n"
proof -
  have "Suc (n mod ring_len q) * cq_sz q \<le> ring_len q * cq_sz q" by (intro mult_le_mono1) (simp add: Suc_le_eq)
  then show "ring_at q n + cq_sz q \<le> ring_end q" by (simp add: ring_at_def ring_end_def)
qed (simp add: ring_at_def)

lemma ring_mapped: "cq_ring q m \<Longrightarrow> ring_at q n \<le> a \<Longrightarrow> a + l \<le> ring_at q n + cq_sz q \<Longrightarrow> mapped m a l"
  using ring_at_in [of q n] by (auto simp: cq_ring_def ring_end_def intro: mapped_sub)

lemma ring_at_apart:
  assumes "n mod ring_len q \<noteq> n' mod ring_len q"
  shows "ring_at q n + cq_sz q \<le> ring_at q n' \<or> ring_at q n' + cq_sz q \<le> ring_at q n"
proof -
  have "i * cq_sz q + cq_sz q \<le> j * cq_sz q" if "i < j" for i j
    using mult_le_mono1 [of "Suc i" j "cq_sz q"] that by simp
  from this [of "n mod ring_len q" "n' mod ring_len q"] this [of "n' mod ring_len q" "n mod ring_len q"]
  show ?thesis using assms by (auto simp: ring_at_def neq_iff)
qed

lemma entry_at_frame:
  assumes "a + length bs \<le> cq_buf q \<or> ring_end q \<le> a"
  shows "entry_at q (upd_bytes a bs m) n = entry_at q m n"
  unfolding entry_at_def using assms ring_at_in [of q n] by (intro bytes_at_disjoint) linarith

lemma entry_at_other:
  assumes "n mod ring_len q \<noteq> n' mod ring_len q" "ring_at q n' \<le> a" "a + length bs \<le> ring_at q n' + cq_sz q"
  shows "entry_at q (upd_bytes a bs m) n = entry_at q m n"
  unfolding entry_at_def using assms(2,3) ring_at_apart [OF assms(1)] by (intro bytes_at_disjoint) linarith

lemma bytes_at_part:
  assumes "off + l \<le> n"
  shows "bytes_at m (a + off) l = take l (drop off (bytes_at m a n))"
proof -
  have n: "n = off + (l + (n - off - l))" using assms by simp
  show ?thesis by (subst n) (simp only: bytes_at_add, simp)
qed

text \<open>The entry proper, and its fields.\<close>

definition proper :: "u8 list \<Rightarrow> u8 list" where
  "proper e = drop (length e - 64) e"

definition raw_word :: "nat \<Rightarrow> u8 list \<Rightarrow> u32" where
  "raw_word off e = of_le32 (take 4 (drop off (proper e)))"

definition cqe_word :: "nat \<Rightarrow> u8 list \<Rightarrow> u32" where
  "cqe_word off e = ntohl (raw_word off e)"

definition raw_counter :: "u8 list \<Rightarrow> u16" where
  "raw_counter e = of_le16 (take 2 (drop 60 (proper e)))"

definition cqe_counter :: "u8 list \<Rightarrow> nat" where
  "cqe_counter e = unat (ntohs (raw_counter e))"

lemma cqe64_at:
  assumes "cq_ring q m"
  shows "cqe64_of (cq_sz q) (ring_at q n) = ring_at q n + (cq_sz q - 64)" "64 \<le> cq_sz q"
  using assms by (auto simp: cq_ring_def cqe64_of_def)

lemma load_part:
  assumes "cq_ring q m" "off + l \<le> 64"
  shows "load_bytes (cqe64_of (cq_sz q) (ring_at q n) + off) l m = Inr (take l (drop off (proper (entry_at q m n))))"
proof -
  have a: "cqe64_of (cq_sz q) (ring_at q n) + off = ring_at q n + (cq_sz q - 64 + off)" "64 \<le> cq_sz q"
    using cqe64_at [OF assms(1)] by simp_all
  have "mapped m (ring_at q n + (cq_sz q - 64 + off)) l"
    by (rule ring_mapped [OF assms(1), of n]) (use a(2) assms(2) in auto)
  moreover have "bytes_at m (ring_at q n + (cq_sz q - 64 + off)) l =
      take l (drop (cq_sz q - 64 + off) (entry_at q m n))"
    unfolding entry_at_def by (rule bytes_at_part) (use a(2) assms(2) in simp)
  ultimately show ?thesis unfolding a(1) by (simp add: proper_def add.commute)
qed

lemma op_own_at:
  assumes "cq_ring q m"
  shows "op_own_of (cqe64_of (cq_sz q) (ring_at q n)) m = Inr (last (entry_at q m n))"
proof -
  have "64 \<le> length (entry_at q m n)" using cqe64_at(2) [OF assms] by simp
  then have "hd (take 1 (drop 63 (proper (entry_at q m n)))) = last (entry_at q m n)"
    by (subst hd_take) (simp_all add: proper_def hd_drop_conv_nth last_conv_nth flip: length_greater_0_conv)
  then show ?thesis using load_part [OF assms, of 63 1 n] by (simp add: op_own_of_def load8_def)
qed

lemma word_at:
  "cq_ring q m \<Longrightarrow> off + 4 \<le> 64 \<Longrightarrow>
   load32 (cqe64_of (cq_sz q) (ring_at q n) + off) m = Inr (raw_word off (entry_at q m n))"
  by (simp add: load32_def load_part raw_word_def)

lemma counter_at:
  "cq_ring q m \<Longrightarrow> load16 (cqe64_of (cq_sz q) (ring_at q n) + 60) m = Inr (raw_counter (entry_at q m n))"
  by (simp add: load16_def load_part raw_counter_def)

end
