(* ===== verification/Cq_Clean.thy ===== *)
theory Cq_Clean
  imports Cq_Ring
begin

text \<open>
  \<open>mlx5_cq_clean\<close> filters the ring. Going backwards, entries of the queue pair are dropped, their
  receive entries returned to the shared queue, and the others moved up over them; the owner bits
  stay where they are, since they belong to the place and not to the entry.
\<close>

section \<open>One entry\<close>

definition matches :: "u8 \<Rightarrow> u32 \<Rightarrow> u8 list \<Rightarrow> bool" where
  "matches version rsn_uidx e \<longleftrightarrow> rsn_uidx = cqe_word (if version \<noteq> 0 then 32 else 56) e AND 0xffffff"

definition from_srq :: "u8 \<Rightarrow> u8 list \<Rightarrow> bool" where
  "from_srq version e \<longleftrightarrow>
     (if version \<noteq> 0 then is_responder (cqe_opcode (last e)) else cqe_word 32 e AND 0xffffff \<noteq> 0)"

text \<open>The entry without its owner bit, the owner bit, and an entry with the owner bit of a place.\<close>

definition body :: "u8 list \<Rightarrow> u8 list" where
  "body e = butlast e @ [last e AND NOT MLX5_CQE_OWNER_MASK]"

definition owner :: "u8 list \<Rightarrow> u8" where
  "owner e = last e AND MLX5_CQE_OWNER_MASK"

definition with_owner :: "u8 \<Rightarrow> u8 list \<Rightarrow> u8 list" where
  "with_owner b e = butlast e @ [(b AND MLX5_CQE_OWNER_MASK) OR (last e AND NOT MLX5_CQE_OWNER_MASK)]"

lemma owner_bits:
  "((b AND MLX5_CQE_OWNER_MASK) OR (x AND NOT MLX5_CQE_OWNER_MASK)) AND MLX5_CQE_OWNER_MASK = b AND MLX5_CQE_OWNER_MASK"
  "((b AND MLX5_CQE_OWNER_MASK) OR (x AND NOT MLX5_CQE_OWNER_MASK)) AND NOT MLX5_CQE_OWNER_MASK =
     x AND NOT MLX5_CQE_OWNER_MASK"
  by (auto intro!: bit_word_eqI simp: bit_and_iff bit_or_iff bit_not_iff)

lemma with_owner_simps [simp]:
  "body (with_owner b e) = body e" "owner (with_owner b e) = b AND MLX5_CQE_OWNER_MASK"
  by (simp_all add: body_def owner_def with_owner_def owner_bits)

text \<open>The receive queue that goes with the ring: well-formed, and away from the ring.\<close>

definition srq_side :: "mlx5_cq \<Rightarrow> mlx5_srq option \<Rightarrow> memory \<Rightarrow> nat list \<Rightarrow> bool" where
  "srq_side q srq m xs \<longleftrightarrow> (case srq of None \<Rightarrow> True | Some s \<Rightarrow> srq_ok s m xs \<and>
     (srq_buf s + srq_max s * 2 ^ srq_wqe_shift s \<le> cq_buf q \<or> ring_end q \<le> srq_buf s))"

lemma srq_side_ring:
  assumes "srq_side q srq m xs" "cq_buf q \<le> a" "a + length bs \<le> ring_end q"
  shows "srq_side q srq (upd_bytes a bs m) xs"
  using assms by (auto simp: srq_side_def split: option.splits intro!: outside_ok)

definition set_tail :: "mlx5_srq option \<Rightarrow> nat list \<Rightarrow> mlx5_srq option" where
  "set_tail srq xs = map_option (\<lambda>s. s\<lparr>srq_tail := last xs\<rparr>) srq"

lemma set_tail_same: "srq_side q srq m xs \<Longrightarrow> set_tail srq xs = srq"
  using linked_last by (auto simp: srq_side_def set_tail_def srq_ok_def split: option.splits)

text \<open>The receive entries the sweep gives back, and when it may.\<close>

definition released :: "u8 \<Rightarrow> u32 \<Rightarrow> mlx5_srq option \<Rightarrow> u8 list list \<Rightarrow> nat list" where
  "released v r srq es = (if srq = None then [] else map cqe_counter (filter (from_srq v) (filter (matches v r) es)))"

definition releasable :: "mlx5_srq option \<Rightarrow> nat list \<Rightarrow> nat list \<Rightarrow> bool" where
  "releasable srq xs is \<longleftrightarrow> (case srq of None \<Rightarrow> True | Some s \<Rightarrow> distinct (xs @ is) \<and> set is \<subseteq> {..<srq_max s})"

lemma released_snoc:
  "released v r srq (es @ [e]) =
     released v r srq es @ (if srq \<noteq> None \<and> matches v r e \<and> from_srq v e then [cqe_counter e] else [])"
  by (simp add: released_def)

lemma released_cong: "(srq = None) = (srq' = None) \<Longrightarrow> released v r srq es = released v r srq' es"
  by (simp add: released_def)

section \<open>The decision\<close>

lemma free_res_other:
  assumes "cq_ring q m" "\<not> matches v r (entry_at q m n)"
  shows "free_res_cqe (cqe64_of (cq_sz q) (ring_at q n)) r srq v m = Inr (False, srq, m)"
proof -
  have "(if v \<noteq> 0 then is_equal_uidx (cqe64_of (cq_sz q) (ring_at q n)) r m
         else is_equal_rsn (cqe64_of (cq_sz q) (ring_at q n)) r m) = Inr (matches v r (entry_at q m n))"
    by (simp add: is_equal_uidx_def is_equal_rsn_def word_at [OF assms(1)] matches_def cqe_word_def)
  then show ?thesis using assms(2) by (simp add: free_res_cqe_def)
qed

lemma free_res_match:
  assumes ring: "cq_ring q m" and mt: "matches v r (entry_at q m n)" and side: "srq_side q srq m xs"
    and rel: "srq \<noteq> None \<and> from_srq v (entry_at q m n) \<longrightarrow>
      releasable srq xs [cqe_counter (entry_at q m n)]"
  shows "\<exists>srq' a bs ys. free_res_cqe (cqe64_of (cq_sz q) (ring_at q n)) r srq v m = Inr (True, srq', upd_bytes a bs m) \<and>
    ys = (if srq \<noteq> None \<and> from_srq v (entry_at q m n) then [cqe_counter (entry_at q m n)] else []) \<and>
    srq' = set_tail srq (xs @ ys) \<and> srq_side q srq' (upd_bytes a bs m) (xs @ ys) \<and>
    (a + length bs \<le> cq_buf q \<or> ring_end q \<le> a)"
proof -
  let ?a = "cqe64_of (cq_sz q) (ring_at q n)" and ?e = "entry_at q m n"
  have eq: "(if v \<noteq> 0 then is_equal_uidx ?a r m else is_equal_rsn ?a r m) = Inr True"
    using mt by (simp add: is_equal_uidx_def is_equal_rsn_def word_at [OF ring] matches_def cqe_word_def)
  have fr: "(if v \<noteq> 0 then bindR (op_own_of ?a m) (\<lambda>b. Inr (srq \<noteq> None \<and> is_responder (cqe_opcode b)))
       else bindR (load32 (?a + 32) m) (\<lambda>x. Inr (srq \<noteq> None \<and> ntohl x AND 0xffffff \<noteq> 0))) =
     Inr (srq \<noteq> None \<and> from_srq v ?e)"
    by (simp add: op_own_at [OF ring] word_at [OF ring] from_srq_def cqe_word_def)
  have run: "free_res_cqe ?a r srq v m =
      (if srq \<noteq> None \<and> from_srq v ?e then bindR (free_entry ?a srq m) (\<lambda>(srq, m). Inr (True, srq, m))
       else Inr (True, srq, m))"
    unfolding free_res_cqe_def eq fr by simp
  show ?thesis
  proof (cases "srq \<noteq> None \<and> from_srq v ?e")
    case False
    then show ?thesis using run side set_tail_same [OF side]
      by (intro exI [of _ srq] exI [of _ 0] exI [of _ "[]"]) auto
  next
    case True
    then obtain s where s: "srq = Some s" by auto
    then have ok: "srq_ok s m xs" and ind: "cqe_counter ?e < srq_max s" "cqe_counter ?e \<notin> set xs"
      using side rel True by (auto simp: srq_side_def releasable_def)
    obtain m' where m': "mlx5_free_srq_wqe (cqe_counter ?e) s m = Inr (s\<lparr>srq_tail := cqe_counter ?e\<rparr>, m')"
      "srq_ok (s\<lparr>srq_tail := cqe_counter ?e\<rparr>) m' (xs @ [cqe_counter ?e])"
      using mlx5_free_srq_wqe_ok [OF ok ind] by blast
    obtain a bs where ab: "m' = upd_bytes a bs m" "srq_buf s \<le> a"
      "a + length bs \<le> srq_buf s + srq_max s * 2 ^ srq_wqe_shift s"
      using free_srq_wqe_store [OF ok m'(1)] by blast
    have "free_entry ?a srq m = Inr (Some (s\<lparr>srq_tail := cqe_counter ?e\<rparr>), m')"
      using m'(1) by (simp add: free_entry_def s counter_at [OF ring] cqe_counter_def)
    then have "free_res_cqe ?a r srq v m = Inr (True, Some (s\<lparr>srq_tail := cqe_counter ?e\<rparr>), upd_bytes a bs m)"
      using run True ab(1) by simp
    moreover have "a + length bs \<le> cq_buf q \<or> ring_end q \<le> a"
      using side s ab(2,3) by (auto simp: srq_side_def)
    ultimately show ?thesis using True m'(2) side s ab(1)
      by (intro exI conjI) (assumption | simp add: set_tail_def srq_side_def)+
  qed
qed

section \<open>The move\<close>

text \<open>Copying entry \<open>n\<close> to the place of entry \<open>n'\<close>, and the owner bit that was there back into it.\<close>

lemma move_cqe_ok:
  assumes ring: "cq_ring q m" and ne: "(n + f) mod ring_len q \<noteq> n mod ring_len q"
  shows "\<exists>bs. move_cqe q (idx_of n) f m = Inr (upd_bytes (ring_at q (n + f)) bs m) \<and> length bs = cq_sz q \<and>
    bs = with_owner (last (entry_at q m (n + f))) (entry_at q m n)"
proof -
  let ?d = "ring_at q (n + f)" and ?e = "entry_at q m n" and ?b = "last (entry_at q m (n + f))"
  let ?m1 = "upd_bytes ?d ?e m" and ?x = "(?b AND MLX5_CQE_OWNER_MASK) OR (last ?e AND NOT MLX5_CQE_OWNER_MASK)"
  have sz: "64 \<le> cq_sz q" and d64: "cqe64_of (cq_sz q) ?d + 63 = ?d + (cq_sz q - 1)"
    using cqe64_at [OF ring] by simp_all
  have at: "get_cqe q (idx_of n AND cq_cqe q) = ring_at q n"
    "get_cqe q ((idx_of n + of_nat f) AND cq_cqe q) = ?d"
    using get_cqe_at [OF ring, of "n + f"] get_cqe_at [OF ring] by (simp_all add: idx_of_def)
  have "memcpy ?d (ring_at q n) (int (cq_sz q)) m = Inr ?m1"
    using ring_mapped [OF ring, of n "ring_at q n" "cq_sz q"] ring_mapped [OF ring, of "n + f" ?d "cq_sz q"]
    by (simp add: memcpy_def entry_at_def)
  moreover have "last (entry_at q ?m1 (n + f)) = last ?e"
    unfolding entry_at_def by (subst bytes_at_same') simp_all
  moreover have "store8 (?d + (cq_sz q - 1)) ?x ?m1 = Inr (upd_bytes (?d + (cq_sz q - 1)) [?x] ?m1)"
    using ring_mapped [OF ring, of "n + f" "?d + (cq_sz q - 1)" 1] sz by (simp add: store8_def)
  ultimately have run: "move_cqe q (idx_of n) f m = Inr (upd_bytes (?d + (cq_sz q - 1)) [?x] ?m1)"
    using op_own_at [OF ring, of "n + f"] op_own_at [of q ?m1 "n + f"] ring
    by (simp add: move_cqe_def Let_def at d64 del: upd_bytes.simps)
  have ne0: "?e \<noteq> []" using sz by (metis length_entry_at list.size(3) not_numeral_le_zero)
  have "upd_bytes (?d + (cq_sz q - 1)) [?x] ?m1 = upd_bytes ?d (butlast ?e @ [?x]) m"
    by (rule ext) (use sz in \<open>auto simp: upd_bytes_apply nth_append nth_butlast simp del: upd_bytes.simps\<close>)
  then show ?thesis using run ne0 sz by (simp add: with_owner_def)
qed

section \<open>The sweep\<close>

text \<open>The subtraction of counters that do not lie across the boundary of the signed numbers.\<close>

definition signed_room :: "u32 \<Rightarrow> nat \<Rightarrow> bool" where
  "signed_room c n \<longleftrightarrow> - 2147483648 < sint c \<and> sint c + int n \<le> 2147483648"

lemma int_diff_room:
  assumes "signed_room c n" and "n \<le> 2147483648"
  shows "int_diff (idx_of (unat c + n) - 1) c = Inr (int n - 1)"
proof -
  have w: "idx_of (unat c + n) - 1 = of_int (sint c + int n - 1)"
    by (simp add: idx_of_def)
  have s: "sint (of_int x :: u32) = signed_take_bit 31 x" for x by (simp add: sint_sbintrunc')
  have "sint (idx_of (unat c + n) - 1) = signed_take_bit 31 (sint c + int n - 1)"
    unfolding w by (rule s)
  also have "\<dots> = sint c + int n - 1"
    using assms(1) by (intro signed_take_bit_int_eq_self) (simp_all add: signed_room_def)
  finally show ?thesis using assms sint_range [of c] by (simp add: int_diff_def)
qed

definition entries_from :: "mlx5_cq \<Rightarrow> memory \<Rightarrow> nat \<Rightarrow> nat \<Rightarrow> u8 list list" where
  "entries_from q m i j = map (\<lambda>k. entry_at q m (unat (cq_cons q) + k)) [i..<j]"

lemma length_entries_from [simp]: "length (entries_from q m i j) = j - i"
  by (simp add: entries_from_def)

lemma entries_from_Suc:
  "i \<le> j \<Longrightarrow> entries_from q m i (Suc j) = entries_from q m i j @ [entry_at q m (unat (cq_cons q) + j)]"
  by (simp add: entries_from_def)

lemma entries_from_cong:
  "(\<And>k. i \<le> k \<Longrightarrow> k < j \<Longrightarrow> entry_at q m' (unat (cq_cons q) + k) = entry_at q m (unat (cq_cons q) + k)) \<Longrightarrow>
   entries_from q m' i j = entries_from q m i j"
  by (simp add: entries_from_def)

text \<open>One round of the loop.\<close>

lemma sweep_step:
  assumes "cq_ring q m" "signed_room (cq_cons q) (Suc n)" "Suc n \<le> ring_len q"
  shows "sweep q r v (idx_of (unat (cq_cons q) + Suc n) - 1) f srq m =
    (let p = unat (cq_cons q) + n in
     bindR (free_res_cqe (cqe64_of (cq_sz q) (ring_at q p)) r srq v m) (\<lambda>(freed, srq, m).
       if freed then sweep q r v (idx_of p - 1) (Suc f) srq m
       else if f \<noteq> 0 then bindR (move_cqe q (idx_of p) f m) (sweep q r v (idx_of p - 1) f srq)
       else sweep q r v (idx_of p - 1) f srq m))"
proof -
  have p: "idx_of (unat (cq_cons q) + Suc n) - 1 = idx_of (unat (cq_cons q) + n)"
    by (simp add: idx_of_def)
  have "int_diff (idx_of (unat (cq_cons q) + n)) (cq_cons q) = Inr (int n)"
    using int_diff_room [OF assms(2)] assms(3) ring_len_le [OF assms(1)] unfolding p by simp
  then show ?thesis unfolding p
    by (subst sweep.simps) (simp add: get_cqe_at [OF assms(1)] Let_def cong: if_cong)
qed

lemma ring_apart:
  assumes "i < ring_len q" "j < ring_len q" "i \<noteq> j"
  shows "(b + i) mod ring_len q \<noteq> (b + j) mod ring_len q"
proof -
  have less: "(b + x) mod ring_len q \<noteq> (b + y) mod ring_len q" if "x < y" "y < ring_len q" for x y
  proof
    assume "(b + x) mod ring_len q = (b + y) mod ring_len q"
    then have "(b + y) mod ring_len q = (b + x) mod ring_len q" by (rule sym)
    then have "ring_len q dvd (b + y) - (b + x)" using that(1) by (subst (asm) mod_eq_dvd_iff_nat) simp_all
    then show False using that nat_dvd_not_less [of "y - x" "ring_len q"] by simp
  qed
  show ?thesis using less [of i j] less [of j i] assms by (metis nat_neq_iff)
qed

text \<open>
  What the sweep over the first \<open>n\<close> entries does when the \<open>f\<close> places behind them are free: the
  receive entries go to the queue, the entries that stay end up in order in front of place \<open>n + f\<close>,
  everything behind is as it was, and so is every owner bit.
\<close>

definition swept :: "mlx5_cq \<Rightarrow> u8 \<Rightarrow> u32 \<Rightarrow> nat \<Rightarrow> nat \<Rightarrow> mlx5_srq option \<Rightarrow> nat list \<Rightarrow> memory \<Rightarrow>
    nat \<Rightarrow> mlx5_srq option \<Rightarrow> memory \<Rightarrow> bool" where
  "swept q v r n f srq xs m g srq' m' \<longleftrightarrow>
     (let es = entries_from q m 0 n; ys = xs @ rev (released v r srq es); c = unat (cq_cons q) in
      srq' = set_tail srq ys \<and> srq_side q srq' m' ys \<and> cq_ring q m' \<and> keeps_mapped m m' \<and>
      g = f + length (filter (matches v r) es) \<and>
      map body (entries_from q m' g (n + f)) = map body (filter (\<lambda>e. \<not> matches v r e) es) \<and>
      (\<forall>k. n + f \<le> k \<and> k < ring_len q \<longrightarrow> entry_at q m' (c + k) = entry_at q m (c + k)) \<and>
      (\<forall>k. owner (entry_at q m' k) = owner (entry_at q m k)))"

lemma swept_0:
  assumes "cq_ring q m" "srq_side q srq m xs"
  shows "swept q v r 0 f srq xs m f srq m"
  using assms set_tail_same [OF assms(2)] by (cases srq) (simp_all add: swept_def entries_from_def released_def)

lemma swept_drop:
  assumes "matches v r (entry_at q m (unat (cq_cons q) + n))"
    and "\<And>k. entry_at q m1 k = entry_at q m k" and "keeps_mapped m m1"
    and "ys = (if srq \<noteq> None \<and> from_srq v (entry_at q m (unat (cq_cons q) + n))
      then [cqe_counter (entry_at q m (unat (cq_cons q) + n))] else [])"
    and "srq1 = set_tail srq (xs @ ys)"
    and "swept q v r n (Suc f) srq1 (xs @ ys) m1 g srq' m'"
  shows "swept q v r (Suc n) f srq xs m g srq' m'"
proof -
  have E: "entries_from q m 0 (Suc n) = entries_from q m 0 n @ [entry_at q m (unat (cq_cons q) + n)]"
    by (simp add: entries_from_Suc)
  have E1: "entries_from q m1 0 n = entries_from q m 0 n" using assms(2) by (simp add: entries_from_def)
  have none: "(srq1 = None) = (srq = None)" by (simp add: assms(5) set_tail_def)
  have tails: "set_tail srq1 zs = set_tail srq zs" for zs
    by (simp add: assms(5) set_tail_def option.map_comp comp_def)
  have rel: "(xs @ ys) @ rev (released v r srq1 (entries_from q m 0 n)) =
      xs @ rev (released v r srq (entries_from q m 0 (Suc n)))"
    using assms(1) released_cong [OF none] by (simp add: E released_snoc assms(4))
  have km: "keeps_mapped m m'" if "keeps_mapped m1 m'" using that assms(3) by (simp add: keeps_mapped_def)
  have F: "filter (matches v r) (entries_from q m 0 (Suc n)) =
      filter (matches v r) (entries_from q m 0 n) @ [entry_at q m (unat (cq_cons q) + n)]"
    "filter (\<lambda>e. \<not> matches v r e) (entries_from q m 0 (Suc n)) = filter (\<lambda>e. \<not> matches v r e) (entries_from q m 0 n)"
    using assms(1) by (simp_all add: E)
  show ?thesis using assms(6) km unfolding swept_def Let_def E1 rel tails assms(2) F
    by (elim conjE, intro conjI) simp_all
qed

lemma swept_keep:
  assumes "\<not> matches v r (entry_at q m (unat (cq_cons q) + n))" and "n + f < ring_len q"
    and "\<And>k. k < ring_len q \<Longrightarrow> k \<noteq> n + f \<Longrightarrow> entry_at q m1 (unat (cq_cons q) + k) = entry_at q m (unat (cq_cons q) + k)"
    and "body (entry_at q m1 (unat (cq_cons q) + (n + f))) = body (entry_at q m (unat (cq_cons q) + n))"
    and "\<And>k. owner (entry_at q m1 k) = owner (entry_at q m k)" and "keeps_mapped m m1"
    and "swept q v r n f srq xs m1 g srq' m'"
  shows "swept q v r (Suc n) f srq xs m g srq' m'"
proof -
  let ?c = "unat (cq_cons q)"
  have E: "entries_from q m 0 (Suc n) = entries_from q m 0 n @ [entry_at q m (?c + n)]"
    by (simp add: entries_from_Suc)
  have E1: "entries_from q m1 0 n = entries_from q m 0 n" using assms(2,3) by (intro entries_from_cong) simp
  have rel: "released v r srq (entries_from q m 0 (Suc n)) = released v r srq (entries_from q m 0 n)"
    using assms(1) by (simp add: E released_snoc)
  have km: "keeps_mapped m m'" if "keeps_mapped m1 m'" using that assms(6) by (simp add: keeps_mapped_def)
  note s = assms(7) [unfolded swept_def Let_def E1]
  have b: "map body (entries_from q m' g (n + f)) = map body (filter (\<lambda>e. \<not> matches v r e) (entries_from q m 0 n))"
    using s by (elim conjE)
  have "g \<le> n + f" using s length_filter_le [of "matches v r" "entries_from q m 0 n"] by simp
  then have "entries_from q m' g (Suc n + f) = entries_from q m' g (n + f) @ [entry_at q m' (?c + (n + f))]"
    by (simp add: entries_from_Suc)
  moreover have "entry_at q m' (?c + (n + f)) = entry_at q m1 (?c + (n + f))" using s assms(2) by blast
  ultimately have bodies: "map body (entries_from q m' g (Suc n + f)) =
      map body (filter (\<lambda>e. \<not> matches v r e) (entries_from q m 0 (Suc n)))"
    using b assms(1,4) by (simp add: E)
  have "entry_at q m' (?c + k) = entry_at q m (?c + k)" if "Suc n + f \<le> k" "k < ring_len q" for k
    using s assms(3) [of k] that by simp
  moreover have "filter (matches v r) (entries_from q m 0 (Suc n)) = filter (matches v r) (entries_from q m 0 n)"
    using assms(1) by (simp add: E)
  ultimately show ?thesis using s km assms(5) bodies unfolding swept_def Let_def rel
    by (elim conjE, intro conjI) simp_all
qed

lemma sweep_ok:
  assumes "cq_ring q m" and "srq_side q srq m xs" and "signed_room (cq_cons q) n"
    and "n + f \<le> ring_len q" and "releasable srq xs (released v r srq (entries_from q m 0 n))"
  shows "\<exists>srq' m' g. sweep q r v (idx_of (unat (cq_cons q) + n) - 1) f srq m = Inr (g, srq', m') \<and>
    swept q v r n f srq xs m g srq' m'"
  using assms
proof (induction n arbitrary: f srq m xs)
  case 0
  have "int_diff (idx_of (unat (cq_cons q) + 0) - 1) (cq_cons q) = Inr (int 0 - 1)"
    by (rule int_diff_room [OF 0(3)]) simp
  then have "sweep q r v (idx_of (unat (cq_cons q) + 0) - 1) f srq m = Inr (f, srq, m)"
    by (subst sweep.simps) simp
  then show ?case using swept_0 [OF 0(1,2)] by blast
next
  case (Suc n)
  let ?c = "unat (cq_cons q)" and ?p = "unat (cq_cons q) + n"
  let ?e = "entry_at q m ?p"
  have E: "entries_from q m 0 (Suc n) = entries_from q m 0 n @ [?e]" by (simp add: entries_from_Suc)
  have room: "signed_room (cq_cons q) n" using Suc.prems(3) by (simp add: signed_room_def)
  have "Suc n \<le> ring_len q" using Suc.prems(4) by simp
  note step = sweep_step [OF Suc.prems(1,3) this, of r v f srq, unfolded Let_def]
  show ?case
  proof (cases "matches v r ?e")
    case True
    define ys where "ys = (if srq \<noteq> None \<and> from_srq v ?e then [cqe_counter ?e] else [])"
    have rel: "releasable srq xs (released v r srq (entries_from q m 0 n) @ ys)"
      using Suc.prems(5) True by (simp add: E released_snoc ys_def)
    then have "srq \<noteq> None \<and> from_srq v ?e \<longrightarrow> releasable srq xs [cqe_counter ?e]"
      by (auto simp: releasable_def ys_def split: option.splits)
    from free_res_match [OF Suc.prems(1) True Suc.prems(2) this] obtain srq1 a bs where
      1: "free_res_cqe (cqe64_of (cq_sz q) (ring_at q ?p)) r srq v m = Inr (True, srq1, upd_bytes a bs m)"
      "srq1 = set_tail srq (xs @ ys)" "srq_side q srq1 (upd_bytes a bs m) (xs @ ys)"
      "a + length bs \<le> cq_buf q \<or> ring_end q \<le> a" unfolding ys_def by blast
    let ?m1 = "upd_bytes a bs m"
    have same: "entry_at q ?m1 k = entry_at q m k" for k by (rule entry_at_frame [OF 1(4)])
    have E1: "entries_from q ?m1 0 n = entries_from q m 0 n" using same by (simp add: entries_from_def)
    have "(srq1 = None) = (srq = None)" by (simp add: 1(2) set_tail_def)
    then have "released v r srq1 (entries_from q ?m1 0 n) = released v r srq (entries_from q m 0 n)"
      unfolding E1 by (rule released_cong)
    moreover have "releasable srq1 (xs @ ys) (released v r srq (entries_from q m 0 n))"
      using rel by (auto simp: releasable_def 1(2) set_tail_def split: option.splits)
    ultimately obtain srq' m' g where
      r: "sweep q r v (idx_of ?p - 1) (Suc f) srq1 ?m1 = Inr (g, srq', m')"
      "swept q v r n (Suc f) srq1 (xs @ ys) ?m1 g srq' m'"
      using Suc.IH [OF cq_ring_upd [OF Suc.prems(1)] 1(3) room, of "Suc f"] Suc.prems(4) by auto
    from swept_drop [OF True same keeps_mapped_upd ys_def 1(2) r(2)] r(1)
    show ?thesis unfolding step by (simp add: 1(1))
  next
    case False
    note other = free_res_other [OF Suc.prems(1) False, of srq]
    have nf: "n + f < ring_len q" using Suc.prems(4) by simp
    have rel: "releasable srq xs (released v r srq (entries_from q m 0 n))"
      using Suc.prems(5) False by (simp add: E released_snoc)
    show ?thesis
    proof (cases "f = 0")
      case True
      obtain srq' m' g where r: "sweep q r v (idx_of ?p - 1) 0 srq m = Inr (g, srq', m')"
        "swept q v r n 0 srq xs m g srq' m'"
        using Suc.IH [OF Suc.prems(1,2) room _ rel, of 0] Suc.prems(4) by auto
      have "swept q v r (Suc n) 0 srq xs m g srq' m'"
        by (rule swept_keep [OF False _ _ _ _ _ r(2)]) (use nf in simp_all)
      then show ?thesis using r(1) unfolding step by (simp add: other True)
    next
      case False2: False
      let ?d = "ring_at q (?p + f)"
      have ne: "(?p + f) mod ring_len q \<noteq> ?p mod ring_len q"
        using ring_apart [of "n + f" q n ?c] nf False2 by (simp add: add.assoc)
      obtain bs where mv: "move_cqe q (idx_of ?p) f m = Inr (upd_bytes ?d bs m)" "length bs = cq_sz q"
        "bs = with_owner (last (entry_at q m (?p + f))) ?e"
        using move_cqe_ok [OF Suc.prems(1) ne] by blast
      let ?m1 = "upd_bytes ?d bs m"
      have at: "entry_at q ?m1 (?p + f) = bs" unfolding entry_at_def by (rule bytes_at_same') (simp add: mv(2))
      have other_at: "entry_at q ?m1 k = entry_at q m k" if "k mod ring_len q \<noteq> (?p + f) mod ring_len q" for k
        by (rule entry_at_other [OF that]) (simp_all add: mv(2))
      have same: "entry_at q ?m1 (?c + k) = entry_at q m (?c + k)" if "k < ring_len q" "k \<noteq> n + f" for k
        using other_at [of "?c + k"] ring_apart [OF that(1) nf that(2), of ?c] by (simp add: add.assoc)
      have own: "owner (entry_at q ?m1 k) = owner (entry_at q m k)" for k
      proof (cases "k mod ring_len q = (?p + f) mod ring_len q")
        case True
        then have "ring_at q k = ring_at q (?p + f)" by (simp add: ring_at_def)
        then have "entry_at q ?m1 k = bs" "entry_at q m k = entry_at q m (?p + f)"
          using at by (simp_all add: entry_at_def)
        then show ?thesis unfolding mv(3) by (simp only: with_owner_simps(2) owner_def [of "entry_at q m (?p + f)"])
      next
        case False
        then show ?thesis by (simp add: other_at)
      qed
      have "body bs = body ?e" by (simp only: mv(3) with_owner_simps)
      with arg_cong [OF at, of body] have bd: "body (entry_at q ?m1 (?c + (n + f))) = body ?e"
        by (simp only: add.assoc)
      have side: "srq_side q srq ?m1 xs"
        by (rule srq_side_ring [OF Suc.prems(2)]) (use ring_at_in [of q "?p + f"] mv(2) in simp_all)
      have E1: "entries_from q ?m1 0 n = entries_from q m 0 n"
        using nf by (intro entries_from_cong) (simp add: same)
      obtain srq' m' g where r: "sweep q r v (idx_of ?p - 1) f srq ?m1 = Inr (g, srq', m')"
        "swept q v r n f srq xs ?m1 g srq' m'"
        using Suc.IH [OF cq_ring_upd [OF Suc.prems(1)] side room, of f] Suc.prems(4) rel unfolding E1 by auto
      have "swept q v r (Suc n) f srq xs m g srq' m'"
        by (rule swept_keep [OF False nf same bd own keeps_mapped_upd r(2)])
      then show ?thesis using r(1) False2 unfolding step by (simp add: other mv(1))
    qed
  qed
qed

section \<open>What the software may poll\<close>

definition sw_entry :: "mlx5_cq \<Rightarrow> memory \<Rightarrow> nat \<Rightarrow> bool" where
  "sw_entry q m n \<longleftrightarrow> cqe_opcode (last (entry_at q m n)) \<noteq> MLX5_CQE_INVALID \<and>
     (owner (entry_at q m n) \<noteq> 0) = odd_pass q n"

lemma get_sw_cqe_at:
  assumes "cq_ring q m"
  shows "get_sw_cqe q (idx_of n) (cq_cqe q) m = Inr (if sw_entry q m n then Some (ring_at q n) else None)"
  by (simp add: get_sw_cqe_def Let_def get_cqe_at [OF assms] op_own_at [OF assms] pass_bit [OF assms]
      sw_entry_def owner_def)

text \<open>An entry that does not start a compressed session, as the code tests it.\<close>

definition plain :: "u8 list \<Rightarrow> bool" where
  "plain e \<longleftrightarrow> drop_bit 2 (e ! 63 AND 0xc) \<noteq> MLX5_COMPRESSED"

lemma format_at:
  assumes "cq_ring q m"
  shows "mlx5_get_cqe_format (ring_at q n) m = Inr (drop_bit 2 (entry_at q m n ! 63 AND 0xc))"
proof -
  have sz: "64 \<le> cq_sz q" by (rule cqe64_at(2) [OF assms])
  have "load_bytes (ring_at q n + 63) 1 m = Inr (take 1 (drop 63 (entry_at q m n)))"
    using ring_mapped [OF assms, of n "ring_at q n + 63" 1] bytes_at_part [of 63 1 "cq_sz q" m "ring_at q n"] sz
    by (simp add: entry_at_def)
  moreover have "hd (take 1 (drop 63 (entry_at q m n))) = entry_at q m n ! 63"
    using sz by (subst hd_take) (simp_all add: hd_drop_conv_nth)
  ultimately show ?thesis by (simp add: mlx5_get_cqe_format_def op_own_of_def load8_def)
qed

lemma word_places:
  assumes "cq_ring q m"
  shows "ring_at q (unat ((c :: u32) + of_nat g) + k) = ring_at q (unat c + (g + k))"
    "odd_pass q (unat (c + of_nat g) + k) = odd_pass q (unat c + (g + k))"
proof -
  have i: "idx_of (unat (c + of_nat g) + k) = idx_of (unat c + (g + k))"
    by (simp only: idx_of_unat of_nat_add add.assoc)
  show "ring_at q (unat (c + of_nat g) + k) = ring_at q (unat c + (g + k))"
    using get_cqe_at [OF assms] i by metis
  show "odd_pass q (unat (c + of_nat g) + k) = odd_pass q (unat c + (g + k))"
    using pass_bit [OF assms] i by metis
qed

text \<open>The index at which the search for the producer stops.\<close>

definition run_ends :: "mlx5_cq \<Rightarrow> memory \<Rightarrow> nat \<Rightarrow> bool" where
  "run_ends q m n \<longleftrightarrow> (let c = unat (cq_cons q) in n < ring_len q \<and>
     (\<forall>k < n. sw_entry q m (c + k) \<and> plain (entry_at q m (c + k))) \<and>
     (\<not> sw_entry q m (c + n) \<or> Suc n = ring_len q \<and> plain (entry_at q m (c + n))))"

lemma last_index:
  assumes "cq_ring q m" "i < ring_len q"
  shows "idx_of (unat (cq_cons q) + i) = cq_cons q + cq_cqe q \<longleftrightarrow> Suc i = ring_len q"
proof -
  have l: "i < 2 ^ 32" using assms(2) ring_len_le [OF assms(1)] by simp
  have "idx_of (unat (cq_cons q) + i) = cq_cons q + cq_cqe q \<longleftrightarrow> (of_nat i :: u32) = cq_cqe q"
    by (simp add: idx_of_def)
  also have "\<dots> \<longleftrightarrow> unat (of_nat i :: u32) = unat (cq_cqe q)" by (rule word_unat_eq_iff)
  also have "unat (of_nat i :: u32) = i" using l by (simp add: unat_of_nat)
  finally show ?thesis by (simp add: ring_len_def)
qed

lemma find_prod_ok:
  assumes "cq_ring q m" "run_ends q m n" "i \<le> n"
    and int: "as_int \<longrightarrow> (\<forall>k < n. idx_of (unat (cq_cons q) + k) \<noteq> 0x7FFFFFFF)"
  shows "find_prod as_int ctx q (cq_cqe q) (idx_of (unat (cq_cons q) + i)) m = Inr (idx_of (unat (cq_cons q) + n), m)"
  using assms(3)
proof (induction "n - i" arbitrary: i)
  case 0
  then have i: "i = n" by simp
  have n: "n < ring_len q" using assms(2) by (simp add: run_ends_def Let_def)
  show ?case
  proof (cases "sw_entry q m (unat (cq_cons q) + n)")
    case True
    then have "Suc n = ring_len q" "plain (entry_at q m (unat (cq_cons q) + n))"
      using assms(2) by (simp_all add: run_ends_def Let_def)
    moreover have l: "idx_of (unat (cq_cons q) + n) = cq_cons q + cq_cqe q"
      using last_index [OF assms(1) n] \<open>Suc n = ring_len q\<close> by simp
    moreover have "get_sw_cqe q (cq_cons q + cq_cqe q) (cq_cqe q) m = Inr (Some (ring_at q (unat (cq_cons q) + n)))"
      using get_sw_cqe_at [OF assms(1), of "unat (cq_cons q) + n"] True by (simp add: l)
    ultimately show ?thesis unfolding i
      by (subst find_prod.simps) (simp add: format_at [OF assms(1)] plain_def)
  next
    case False
    then show ?thesis unfolding i
      by (subst find_prod.simps) (simp add: get_sw_cqe_at [OF assms(1)])
  qed
next
  case (Suc d)
  then have i: "i < n" by simp
  then have n: "Suc i \<noteq> ring_len q" "i < ring_len q" using assms(2) by (simp_all add: run_ends_def Let_def)
  have "sw_entry q m (unat (cq_cons q) + i)" "plain (entry_at q m (unat (cq_cons q) + i))"
    using assms(2) i by (simp_all add: run_ends_def Let_def)
  moreover have "idx_of (unat (cq_cons q) + i) + 1 = idx_of (unat (cq_cons q) + Suc i)" by (simp add: idx_of_def)
  ultimately show ?case using Suc.hyps(1) [of "Suc i"] Suc.hyps(2) i last_index [OF assms(1) n(2)] n(1) int
    by (subst find_prod.simps)
      (simp add: get_sw_cqe_at [OF assms(1)] format_at [OF assms(1)] plain_def next_index_def)
qed

section \<open>The whole clean-up\<close>

text \<open>The consumer's doorbell record lies away from the ring and from the receive queue.\<close>

definition record_apart :: "mlx5_cq \<Rightarrow> mlx5_srq option \<Rightarrow> memory \<Rightarrow> bool" where
  "record_apart q srq m \<longleftrightarrow> mapped m (cq_dbrec q) 4 \<and>
     (cq_dbrec q + 4 \<le> cq_buf q \<or> ring_end q \<le> cq_dbrec q) \<and>
     (case srq of None \<Rightarrow> True | Some s \<Rightarrow>
        cq_dbrec q + 4 \<le> srq_buf s \<or> srq_buf s + srq_max s * 2 ^ srq_wqe_shift s \<le> cq_dbrec q)"

lemma clean_ok:
  assumes ring: "cq_ring q m" and dv: "\<not> cq_dv_owned q" and cl: "compressed_left q = 0"
    and run: "run_ends q m n" and room: "signed_room (cq_cons q) n"
    and side: "srq_side q srq m xs" and rec: "record_apart q srq m"
    and rel: "releasable srq xs (released (cqe_version ctx) r srq (entries_from q m 0 n))"
  shows "\<exists>q' srq' m' g m1. mlx5_cq_clean ctx q r srq m = Inr (q', srq', m') \<and>
    q' = q\<lparr>cq_cons := cq_cons q + of_nat g\<rparr> \<and> swept q (cqe_version ctx) r n 0 srq xs m g srq' m1 \<and>
    srq_side q srq' m' (xs @ rev (released (cqe_version ctx) r srq (entries_from q m 0 n))) \<and> cq_ring q m' \<and>
    (\<forall>k. entry_at q m' k = entry_at q m1 k) \<and>
    (0 < g \<longrightarrow> bytes_at m' (cq_dbrec q) 4 = be32 (cq_cons q' AND 0xffffff))"
proof -
  have n: "n < ring_len q" using run by (simp add: run_ends_def Let_def)
  obtain srq' m1 g where sw: "sweep q r (cqe_version ctx) (idx_of (unat (cq_cons q) + n) - 1) 0 srq m = Inr (g, srq', m1)"
    "swept q (cqe_version ctx) r n 0 srq xs m g srq' m1"
    using sweep_ok [OF ring side room _ rel, of 0] n by auto
  have fp: "find_prod False ctx q (cq_cqe q) (cq_cons q) m = Inr (idx_of (unat (cq_cons q) + n), m)"
    using find_prod_ok [OF ring run, of 0 False ctx] by (simp add: idx_of_def)
  have after: "srq_side q srq' m1 (xs @ rev (released (cqe_version ctx) r srq (entries_from q m 0 n)))"
    "cq_ring q m1" "mapped m1 (cq_dbrec q) 4" "srq' = set_tail srq (xs @ rev (released (cqe_version ctx) r srq (entries_from q m 0 n)))"
    using sw(2) [unfolded swept_def Let_def keeps_mapped_def] rec [unfolded record_apart_def]
    by (elim conjE, assumption | blast)+
  let ?q = "q\<lparr>cq_cons := cq_cons q + of_nat g\<rparr>"
  show ?thesis
  proof (cases "g = 0")
    case True
    then have "mlx5_cq_clean ctx q r srq m = Inr (q, srq', m1)"
      using dv cl fp sw(1) by (simp add: mlx5_cq_clean_def mlx5_decompress_curr_def)
    then show ?thesis using sw(2) after True by (intro exI [of _ q] exI [of _ srq'] exI [of _ m1] exI [of _ g]) simp
  next
    case False
    let ?w = "le32 (htonl ((cq_cons q + of_nat g) AND 0xffffff))"
    let ?m2 = "upd_bytes (cq_dbrec q) ?w m1"
    have "mlx5_update_cons_index ?q m1 = Inr ?m2"
      using after(3) by (simp add: mlx5_update_cons_index_def store32_def)
    then have "mlx5_cq_clean ctx q r srq m = Inr (?q, srq', ?m2)"
      using dv cl fp sw(1) False by (simp add: mlx5_cq_clean_def mlx5_decompress_curr_def Let_def)
    moreover have "srq_side q srq' ?m2 (xs @ rev (released (cqe_version ctx) r srq (entries_from q m 0 n)))"
      using after(1,4) rec
      by (auto simp: srq_side_def set_tail_def record_apart_def split: option.splits intro!: outside_ok)
    moreover have "entry_at q ?m2 k = entry_at q m1 k" for k
      by (rule entry_at_frame) (use rec in \<open>simp add: record_apart_def\<close>)
    moreover have "bytes_at ?m2 (cq_dbrec q) 4 = be32 ((cq_cons q + of_nat g) AND 0xffffff)"
      by (subst bytes_at_same') (simp_all)
    ultimately show ?thesis using sw(2) after(2)
      by (intro exI [of _ ?q] exI [of _ srq'] exI [of _ ?m2] exI [of _ g] exI [of _ m1]) simp
  qed
qed

section \<open>Before and after\<close>

text \<open>
  The entries a consumer would poll, in order, without their owner bits: \<open>es\<close>, and behind them an
  entry that is not the software's.
\<close>

definition ready :: "mlx5_cq \<Rightarrow> memory \<Rightarrow> u8 list list \<Rightarrow> bool" where
  "ready q m es \<longleftrightarrow> (let c = unat (cq_cons q); n = length es in
     n < ring_len q \<and> es = map body (entries_from q m 0 n) \<and>
     (\<forall>k < n. sw_entry q m (c + k)) \<and> \<not> sw_entry q m (c + n))"

lemma fields_of_body:
  assumes "64 \<le> length e"
  shows "matches v r (body e) = matches v r e" "from_srq v (body e) = from_srq v e" "cqe_counter (body e) = cqe_counter e"
    "cqe_opcode (last (body e)) = cqe_opcode (last e)"
proof -
  have op: "cqe_opcode (x AND NOT MLX5_CQE_OWNER_MASK) = cqe_opcode x" for x
    unfolding cqe_opcode_def MLX5_CQE_OWNER_MASK_def
    by (intro bit_word_eqI) (simp only: bit_drop_bit_eq bit_and_iff bit_not_iff bit_1_iff comp_def, auto dest: bit_imp_le_length)
  show 1: "cqe_opcode (last (body e)) = cqe_opcode (last e)" by (simp add: body_def op)
  have "proper (body e) = butlast (proper e) @ [last e AND NOT MLX5_CQE_OWNER_MASK]"
    using assms by (simp add: proper_def body_def drop_butlast)
  then have f: "take l (drop off (proper (body e))) = take l (drop off (proper e))" if "off + l \<le> 63" for off l
    using that assms by (simp add: proper_def drop_butlast take_butlast flip: take_drop)
  have w: "cqe_word off (body e) = cqe_word off e" if "off + 4 \<le> 63" for off
    using f [of off 4] that by (simp add: cqe_word_def raw_word_def)
  show "matches v r (body e) = matches v r e" by (simp add: matches_def w)
  show "from_srq v (body e) = from_srq v e" by (simp add: from_srq_def w 1)
  show "cqe_counter (body e) = cqe_counter e" using f [of 60 2] by (simp add: cqe_counter_def raw_counter_def)
qed

lemma filter_body:
  assumes "\<forall>e \<in> set es. 64 \<le> length e"
  shows "map body (filter (\<lambda>e. P (matches v r e)) es) = filter (\<lambda>e. P (matches v r e)) (map body es)"
    "released v r srq (map body es) = released v r srq es"
    "length (filter (matches v r) (map body es)) = length (filter (matches v r) es)"
proof -
  have 1: "filter (\<lambda>e. P (matches v r e)) (map body es) = map body (filter (\<lambda>e. P (matches v r e)) es)" for P
    using assms by (induction es) (auto simp: fields_of_body)
  show "map body (filter (\<lambda>e. P (matches v r e)) es) = filter (\<lambda>e. P (matches v r e)) (map body es)"
    by (rule 1 [symmetric])
  show "length (filter (matches v r) (map body es)) = length (filter (matches v r) es)"
    using 1 [of "\<lambda>b. b"] by simp
  show "released v r srq (map body es) = released v r srq es"
    using assms by (induction es) (auto simp: fields_of_body released_def)
qed

lemma long_entries: "cq_ring q m \<Longrightarrow> \<forall>e \<in> set (entries_from q m i j). 64 \<le> length e"
  using cqe64_at(2) [of q m] by (auto simp: entries_from_def)

text \<open>An entry is the software's when its body is that of one that was, at a place that was.\<close>

lemma sw_entry_moved:
  assumes "body (entry_at q m' n) = body (entry_at q m k)" and "sw_entry q m k" and "sw_entry q m n"
    and "owner (entry_at q m' n) = owner (entry_at q m n)" and "64 \<le> cq_sz q"
  shows "sw_entry q m' n"
proof -
  have "cqe_opcode (last (entry_at q m' n)) = cqe_opcode (last (entry_at q m k))"
    using fields_of_body(4) [of "entry_at q m' n"] fields_of_body(4) [of "entry_at q m k"] assms(1,5) by simp
  then show ?thesis using assms(2-4) by (simp add: sw_entry_def)
qed

text \<open>The state after a sweep, seen from the new consumer counter.\<close>

lemma after_sweep:
  assumes ring: "cq_ring q m" and sw: "swept q v r n 0 srq xs m g srq' m1" and n: "n < ring_len q"
    and soft: "\<forall>k < n. sw_entry q m (unat (cq_cons q) + k)"
    and same: "\<forall>k. entry_at q m' k = entry_at q m1 k"
    and q': "q' = q\<lparr>cq_cons := cq_cons q + of_nat g\<rparr>"
  shows "g \<le> n" "map body (entries_from q' m' 0 (n - g)) = filter (\<lambda>e. \<not> matches v r e) (map body (entries_from q m 0 n))"
    "\<forall>k < n - g. sw_entry q' m' (unat (cq_cons q') + k)"
    "\<And>k. n \<le> g + k \<Longrightarrow> g + k < ring_len q \<Longrightarrow>
       sw_entry q' m' (unat (cq_cons q') + k) = sw_entry q m (unat (cq_cons q) + (g + k)) \<and>
       entry_at q' m' (unat (cq_cons q') + k) = entry_at q m (unat (cq_cons q) + (g + k))"
proof -
  let ?c = "unat (cq_cons q)"
  note s = sw [unfolded swept_def Let_def]
  have g: "g = length (filter (matches v r) (entries_from q m 0 n))"
    and kept: "map body (entries_from q m1 g n) = map body (filter (\<lambda>e. \<not> matches v r e) (entries_from q m 0 n))"
    and rest: "\<And>k. n \<le> k \<Longrightarrow> k < ring_len q \<Longrightarrow> entry_at q m1 (?c + k) = entry_at q m (?c + k)"
    and own: "\<And>k. owner (entry_at q m1 k) = owner (entry_at q m k)"
    using s [unfolded add_0 add_0_right] by blast+
  have len [simp]: "ring_len q' = ring_len q" "cq_sz q' = cq_sz q" "cq_buf q' = cq_buf q"
    by (simp_all add: q' ring_len_def)
  have r0: "ring_at q' k = ring_at q k" "odd_pass q' k = odd_pass q k" for k
    by (simp_all add: ring_at_def odd_pass_def)
  have cons: "cq_cons q' = cq_cons q + of_nat g" by (simp add: q')
  have at: "entry_at q' m' (unat (cq_cons q') + k) = entry_at q m1 (?c + (g + k))" for k
    using same word_places(1) [OF ring, of "cq_cons q" g k] by (simp only: entry_at_def len r0 cons)
  have sw_at: "sw_entry q' m' (unat (cq_cons q') + k) = sw_entry q m1 (?c + (g + k))" for k
    using word_places(2) [OF ring, of "cq_cons q" g k] at [of k] by (simp only: sw_entry_def r0 cons)
  show gn: "g \<le> n" using g length_filter_le [of "matches v r" "entries_from q m 0 n"] by simp
  have es: "entries_from q' m' 0 (n - g) = entries_from q m1 g n"
    by (rule nth_equalityI) (use at in \<open>simp_all add: entries_from_def\<close>)
  show "map body (entries_from q' m' 0 (n - g)) = filter (\<lambda>e. \<not> matches v r e) (map body (entries_from q m 0 n))"
    unfolding es kept using filter_body(1) [OF long_entries [OF ring], of Not] by simp
  show "\<forall>k < n - g. sw_entry q' m' (unat (cq_cons q') + k)"
  proof (intro allI impI)
    fix k assume k: "k < n - g"
    have "body (entry_at q m1 (?c + (g + k))) \<in> set (map body (entries_from q m1 g n))"
      using k by (auto simp: entries_from_def intro!: image_eqI [of _ _ "g + k"])
    then obtain i where i: "i < n" "body (entry_at q m1 (?c + (g + k))) = body (entry_at q m (?c + i))"
      unfolding kept by (auto simp: entries_from_def)
    show "sw_entry q' m' (unat (cq_cons q') + k)" unfolding sw_at
      by (rule sw_entry_moved [OF i(2) _ _ own cqe64_at(2) [OF ring]]) (use soft i(1) k gn in simp_all)
  qed
  fix k assume k: "n \<le> g + k" "g + k < ring_len q"
  show "sw_entry q' m' (unat (cq_cons q') + k) = sw_entry q m (?c + (g + k)) \<and>
       entry_at q' m' (unat (cq_cons q') + k) = entry_at q m (?c + (g + k))"
    using rest [OF k] unfolding sw_at at by (simp add: sw_entry_def odd_pass_def)
qed

lemma mlx5_cq_clean_ok:
  assumes ring: "cq_ring q m" and dv: "\<not> cq_dv_owned q" and cl: "compressed_left q = 0"
    and rdy: "ready q m es" and pl: "\<forall>k < length es. plain (entry_at q m (unat (cq_cons q) + k))"
    and room: "signed_room (cq_cons q) (length es)"
    and side: "srq_side q srq m xs" and rec: "record_apart q srq m"
    and rel: "releasable srq xs (released (cqe_version ctx) r srq es)"
  shows "\<exists>q' srq' m'. mlx5_cq_clean ctx q r srq m = Inr (q', srq', m') \<and>
    ready q' m' (filter (\<lambda>e. \<not> matches (cqe_version ctx) r e) es) \<and>
    srq_side q srq' m' (xs @ rev (released (cqe_version ctx) r srq es)) \<and>
    cq_cons q' = cq_cons q + of_nat (length (filter (matches (cqe_version ctx) r) es)) \<and>
    (cq_cons q' \<noteq> cq_cons q \<longrightarrow> bytes_at m' (cq_dbrec q) 4 = be32 (cq_cons q' AND 0xffffff))"
proof -
  let ?n = "length es" and ?v = "cqe_version ctx"
  have es: "es = map body (entries_from q m 0 ?n)" and n: "?n < ring_len q"
    and soft: "\<forall>k < ?n. sw_entry q m (unat (cq_cons q) + k)" "\<not> sw_entry q m (unat (cq_cons q) + ?n)"
    using rdy by (simp_all add: ready_def Let_def)
  have run: "run_ends q m ?n" using n soft pl by (simp add: run_ends_def Let_def)
  have rs: "released ?v r srq es = released ?v r srq (entries_from q m 0 ?n)"
    by (subst es) (rule filter_body(2) [OF long_entries [OF ring]])
  have cnt: "length (filter (matches ?v r) es) = length (filter (matches ?v r) (entries_from q m 0 ?n))"
    by (subst es) (rule filter_body(3) [OF long_entries [OF ring]])
  obtain q' srq' m' g m1 where c: "mlx5_cq_clean ctx q r srq m = Inr (q', srq', m')"
    "q' = q\<lparr>cq_cons := cq_cons q + of_nat g\<rparr>" "swept q ?v r ?n 0 srq xs m g srq' m1"
    "srq_side q srq' m' (xs @ rev (released ?v r srq es))"
    "\<forall>k. entry_at q m' k = entry_at q m1 k"
    "0 < g \<longrightarrow> bytes_at m' (cq_dbrec q) 4 = be32 (cq_cons q' AND 0xffffff)"
    using clean_ok [OF ring dv cl run room side rec rel [unfolded rs]] unfolding rs by blast
  note A = after_sweep [OF ring c(3) n soft(1) c(5,2)]
  have g: "g = length (filter (matches ?v r) es)" using c(3) cnt by (simp add: swept_def Let_def)
  have kept: "length (filter (\<lambda>e. \<not> matches ?v r e) es) = ?n - g"
    using sum_length_filter_compl [of "matches ?v r" es] g by simp
  have len: "ring_len q' = ring_len q" by (simp add: c(2) ring_len_def)
  have "\<not> sw_entry q' m' (unat (cq_cons q') + (?n - g))" using A(4) [of "?n - g"] A(1) n soft(2) by simp
  then have "ready q' m' (filter (\<lambda>e. \<not> matches ?v r e) es)"
    using A(2,3) n unfolding ready_def Let_def kept len es [symmetric] by simp
  moreover have "cq_cons q' \<noteq> cq_cons q \<longrightarrow> 0 < g" by (cases "g = 0") (auto simp: c(2))
  ultimately show ?thesis using c(1,2,4,6) g by auto
qed

text \<open>On a ring full of the software's entries the search stops before the last one, which is not swept.\<close>

lemma mlx5_cq_clean_full:
  assumes ring: "cq_ring q m" and dv: "\<not> cq_dv_owned q" and cl: "compressed_left q = 0"
    and full: "\<forall>k < ring_len q. sw_entry q m (unat (cq_cons q) + k) \<and> plain (entry_at q m (unat (cq_cons q) + k))"
    and es: "es = map body (entries_from q m 0 (ring_len q - 1))"
    and l: "l = entry_at q m (unat (cq_cons q) + (ring_len q - 1))"
    and room: "signed_room (cq_cons q) (ring_len q - 1)"
    and side: "srq_side q srq m xs" and rec: "record_apart q srq m"
    and rel: "releasable srq xs (released (cqe_version ctx) r srq es)"
  shows "\<exists>q' srq' m' n. mlx5_cq_clean ctx q r srq m = Inr (q', srq', m') \<and>
    n = length (filter (\<lambda>e. \<not> matches (cqe_version ctx) r e) es) \<and>
    map body (entries_from q' m' 0 n) = filter (\<lambda>e. \<not> matches (cqe_version ctx) r e) es \<and>
    entry_at q' m' (unat (cq_cons q') + n) = l \<and>
    (\<forall>k \<le> n. sw_entry q' m' (unat (cq_cons q') + k))"
proof -
  let ?n = "ring_len q - 1" and ?v = "cqe_version ctx"
  have n: "?n < ring_len q" "Suc ?n = ring_len q" using ring_len_pos [of q] by simp_all
  have run: "run_ends q m ?n" using full n by (simp add: run_ends_def Let_def)
  have soft: "\<forall>k < ?n. sw_entry q m (unat (cq_cons q) + k)" using full by simp
  have rs: "released ?v r srq es = released ?v r srq (entries_from q m 0 ?n)"
    unfolding es by (rule filter_body(2) [OF long_entries [OF ring]])
  obtain q' srq' m' g m1 where c: "mlx5_cq_clean ctx q r srq m = Inr (q', srq', m')"
    "q' = q\<lparr>cq_cons := cq_cons q + of_nat g\<rparr>" "swept q ?v r ?n 0 srq xs m g srq' m1"
    "\<forall>k. entry_at q m' k = entry_at q m1 k"
    using clean_ok [OF ring dv cl run room side rec rel [unfolded rs]] by blast
  note A = after_sweep [OF ring c(3) n(1) soft c(4,2)]
  have "length (map body (entries_from q' m' 0 (?n - g))) = length (filter (\<lambda>e. \<not> matches ?v r e) es)"
    unfolding A(2) es by simp
  then have k: "?n - g = length (filter (\<lambda>e. \<not> matches ?v r e) es)" by simp
  have last: "sw_entry q' m' (unat (cq_cons q') + (?n - g))" "entry_at q' m' (unat (cq_cons q') + (?n - g)) = l"
    using A(4) [of "?n - g", unfolded le_add_diff_inverse [OF A(1)]] full n unfolding l by blast+
  have "\<forall>j \<le> ?n - g. sw_entry q' m' (unat (cq_cons q') + j)"
    using A(3) last(1) by (auto simp: le_less)
  then show ?thesis using c(1) A(2) last(2) unfolding k es [symmetric] by blast
qed

text \<open>When the entries lie across the boundary of the signed numbers, the subtraction overflows.\<close>

lemma mlx5_cq_clean_overflow:
  assumes ring: "cq_ring q m" and dv: "\<not> cq_dv_owned q" and cl: "compressed_left q = 0"
    and run: "run_ends q m n" and cross: "2147483648 < sint (cq_cons q) + int n"
  shows "mlx5_cq_clean ctx q r srq m = Inl (Fault SignedOverflow)"
proof -
  let ?c = "cq_cons q" and ?p = "idx_of (unat (cq_cons q) + n) - 1"
  have n: "n \<le> 2147483648" using run ring_len_le [OF ring] by (simp add: run_ends_def Let_def)
  have w: "?p = of_int (sint ?c + int n - 1 - 4294967296)" by (simp add: idx_of_def)
  have s: "sint (of_int x :: u32) = signed_take_bit 31 x" for x by (simp add: sint_sbintrunc')
  have "sint ?p = signed_take_bit 31 (sint ?c + int n - 1 - 4294967296)" unfolding w by (rule s)
  also have "\<dots> = sint ?c + int n - 1 - 4294967296"
    using cross n sint_range [of ?c] by (intro signed_take_bit_int_eq_self) simp_all
  finally have "int_diff ?p ?c = Inl (Fault SignedOverflow)" using n by (simp add: int_diff_def)
  then have sw: "sweep q r (cqe_version ctx) ?p 0 srq m = Inl (Fault SignedOverflow)"
    by (subst sweep.simps) simp
  have fp: "find_prod False ctx q (cq_cqe q) (cq_cons q) m = Inr (idx_of (unat (cq_cons q) + n), m)"
    using find_prod_ok [OF ring run, of 0 False ctx] by (simp add: idx_of_def)
  show ?thesis unfolding mlx5_cq_clean_def using dv cl
    by (simp add: mlx5_decompress_curr_def fp sw)
qed

end
