(* ===== verification/Cq_Resize.thy ===== *)
theory Cq_Resize
  imports Cq_Clean
begin

text \<open>
  A new ring has no entry of the software, and the copy into a resized ring gives the new ring the
  entries that were polled from the old one, in order and with the owner bits of their new places.
\<close>

section \<open>A new ring\<close>

text \<open>The byte that holds opcode and owner bit of an entry of a ring at \<open>buf\<close>.\<close>

lemma mark_invalid_ok:
  assumes "mapped m buf (n * sz)" "sz = 64 \<or> sz = 128"
  shows "\<exists>m'. mark_invalid n buf sz m = Inr m' \<and> keeps_mapped m m' \<and>
    (\<forall>i < n. m' (buf + i * sz + (sz - 1)) = Some 0xF0) \<and>
    (\<forall>x. (\<forall>i < n. x \<noteq> buf + i * sz + (sz - 1)) \<longrightarrow> m' x = m x)"
  using assms(1)
proof (induction n arbitrary: buf m)
  case 0
  then show ?case by simp
next
  case (Suc n)
  let ?a = "buf + (sz - 1)"
  have a: "(if sz = 128 then buf + 64 else buf) + 63 = ?a" using assms(2) by auto
  have st: "store8 ?a (push_bit 4 MLX5_CQE_INVALID) m = Inr (upd_bytes ?a [0xF0] m)"
    using mapped_sub [OF Suc.prems, of ?a 1] assms(2)
    by (auto simp: store8_def MLX5_CQE_INVALID_def)
  have "mapped (upd_bytes ?a [0xF0] m) (buf + sz) (n * sz)"
    by (intro mapped_upd mapped_sub [OF Suc.prems]) simp_all
  from Suc.IH [OF this] obtain m' where m': "mark_invalid n (buf + sz) sz (upd_bytes ?a [0xF0] m) = Inr m'"
    "keeps_mapped (upd_bytes ?a [0xF0] m) m'" "\<forall>i < n. m' (buf + sz + i * sz + (sz - 1)) = Some 0xF0"
    "\<forall>x. (\<forall>i < n. x \<noteq> buf + sz + i * sz + (sz - 1)) \<longrightarrow> m' x = upd_bytes ?a [0xF0] m x" by blast
  have "m' ?a = Some 0xF0"
    using m'(4) [rule_format, of ?a] assms(2) by (auto simp: upd_bytes_apply simp del: upd_bytes.simps)
  then have all: "m' (buf + i * sz + (sz - 1)) = Some 0xF0" if "i < Suc n" for i
    using m'(3) that by (cases i) (auto simp: algebra_simps)
  have rest: "m' x = m x" if x: "\<forall>i < Suc n. x \<noteq> buf + i * sz + (sz - 1)" for x
  proof -
    have "x \<noteq> buf + sz + i * sz + (sz - 1)" if "i < n" for i using x [rule_format, of "Suc i"] that by simp
    moreover have "x \<noteq> ?a" using x [rule_format, of 0] by simp
    ultimately show ?thesis using m'(4) by (simp add: upd_bytes_apply)
  qed
  have "mark_invalid (Suc n) buf sz m = Inr m'" using a st m'(1) by simp
  moreover have "keeps_mapped m m'" by (rule keeps_mapped_trans [OF keeps_mapped_upd m'(2)])
  ultimately show ?case using all rest by blast
qed

lemma mlx5_alloc_cq_buf_ok:
  assumes sz: "cq_sz q = 64 \<or> cq_sz q = 128" and k: "k < 32" "nent = 2 ^ k" "unat (cq_cqe q) + 1 = nent"
    and room: "mapped m buf (nent * cq_sz q)" and buf: "cq_buf q = buf"
  shows "\<exists>m'. mlx5_alloc_cq_buf (Some buf) nent (cq_sz q) m = Inr (0, buf, m') \<and> cq_ring q m' \<and>
    (\<forall>n. entry_at q m' n = replicate (cq_sz q - 1) 0 @ [0xF0]) \<and> (\<forall>n. \<not> sw_entry q m' n)"
proof -
  let ?sz = "cq_sz q" and ?m0 = "upd_bytes buf (replicate (nent * cq_sz q) 0) m"
  have "mapped ?m0 buf (nent * ?sz)" using room by simp
  from mark_invalid_ok [OF this sz] obtain m' where m': "mark_invalid nent buf ?sz ?m0 = Inr m'"
    "keeps_mapped ?m0 m'" "\<forall>i < nent. m' (buf + i * ?sz + (?sz - 1)) = Some 0xF0"
    "\<forall>x. (\<forall>i < nent. x \<noteq> buf + i * ?sz + (?sz - 1)) \<longrightarrow> m' x = ?m0 x" by blast
  have run: "mlx5_alloc_cq_buf (Some buf) nent ?sz m = Inr (0, buf, m')"
    using room m'(1) by (simp add: mlx5_alloc_cq_buf_def)
  have len: "ring_len q = nent" using k(3) by (simp add: ring_len_def)
  have ring: "cq_ring q m'"
    using m'(2) room k sz by (auto simp: cq_ring_def len buf keeps_mapped_def)
  have at: "entry_at q m' n = replicate (?sz - 1) 0 @ [0xF0]" for n
  proof (rule nth_equalityI)
    show "length (entry_at q m' n) = length (replicate (?sz - 1) (0 :: u8) @ [0xF0])" using sz by auto
    fix j assume j: "j < length (entry_at q m' n)"
    let ?i = "n mod nent"
    have i: "?i < nent" using k(2) by simp
    have "m' (buf + ?i * ?sz + j) = Some ((replicate (?sz - 1) 0 @ [0xF0]) ! j)"
    proof (cases "j = ?sz - 1")
      case True
      then show ?thesis using m'(3) i by (simp add: nth_append)
    next
      case False
      then have j2: "j < ?sz - 1" using j by simp
      have ne: "buf + ?i * ?sz + j \<noteq> buf + i' * ?sz + (?sz - 1)" if "i' < nent" for i'
      proof
        assume "buf + ?i * ?sz + j = buf + i' * ?sz + (?sz - 1)"
        then have "(?i * ?sz + j) mod ?sz = (i' * ?sz + (?sz - 1)) mod ?sz" by simp
        then have "j mod ?sz = (?sz - 1) mod ?sz" by (simp only: mod_mult_self3)
        then show False using j2 by simp
      qed
      have "Suc ?i * ?sz \<le> nent * ?sz" using i by (intro mult_le_mono1) simp
      then have "?i * ?sz + j < nent * ?sz" using j2 unfolding mult_Suc by linarith
      then have "?m0 (buf + ?i * ?sz + j) = Some 0" using j2 by (simp add: upd_bytes_apply)
      then show ?thesis using m'(4) ne j2 by (simp add: nth_append)
    qed
    then show "entry_at q m' n ! j = (replicate (?sz - 1) 0 @ [0xF0]) ! j"
      using j by (simp add: entry_at_def bytes_at_def ring_at_def len buf add.assoc)
  qed
  have "\<not> sw_entry q m' n" for n by (simp add: sw_entry_def at cqe_opcode_def MLX5_CQE_INVALID_def)
  then show ?thesis using run ring at by blast
qed

section \<open>The copy of a resize\<close>

text \<open>The ring the entries go to.\<close>

definition resized :: "mlx5_cq \<Rightarrow> mlx5_cq" where
  "resized q = q\<lparr>cq_buf := cq_resize_buf q, cq_cqe := cq_resize_cqes q - 1, cq_sz := cq_resize_sz q\<rparr>"

lemma resized_fields [simp]:
  "cq_buf (resized q) = cq_resize_buf q" "cq_cqe (resized q) = cq_resize_cqes q - 1" "cq_sz (resized q) = cq_resize_sz q"
  "cq_cons (resized q) = cq_cons q"
  by (simp_all add: resized_def)

definition rings_apart :: "mlx5_cq \<Rightarrow> memory \<Rightarrow> bool" where
  "rings_apart q m \<longleftrightarrow> cq_ring q m \<and> cq_ring (resized q) m \<and> cq_active_cqes q = cq_cqe q \<and>
     cq_resize_sz q = cq_sz q \<and> (ring_end q \<le> cq_resize_buf q \<or> ring_end (resized q) \<le> cq_buf q)"

lemma rings_apart_upd [simp]: "rings_apart q m \<Longrightarrow> rings_apart q (upd_bytes a bs m)"
  by (simp add: rings_apart_def)

definition moved :: "mlx5_cq \<Rightarrow> nat \<Rightarrow> u8 list \<Rightarrow> u8 list" where
  "moved q n e = butlast e @ [(last e AND NOT MLX5_CQE_OWNER_MASK) OR (if odd_pass q n then 1 else 0)]"

lemma moved_simps [simp]:
  "body (moved q n e) = body e" "(owner (moved q n e) \<noteq> 0) = odd_pass q n" "e \<noteq> [] \<Longrightarrow> length (moved q n e) = length e"
proof -
  have "((x AND NOT 1) OR b) AND NOT 1 = x AND NOT 1" "((x AND NOT 1) OR b) AND 1 = b" if "b = 0 \<or> b = 1" for x b :: u8
    using that by (auto intro!: bit_word_eqI simp: bit_and_iff bit_or_iff bit_not_iff bit_1_iff)
  then show "body (moved q n e) = body e" "(owner (moved q n e) \<noteq> 0) = odd_pass q n"
    by (simp_all add: body_def owner_def moved_def MLX5_CQE_OWNER_MASK_def)
qed (simp add: moved_def)

lemma buf_cqe_at:
  assumes "rings_apart q m"
  shows "get_buf_cqe (cq_buf q) (idx_of n AND cq_active_cqes q) (cq_sz q) = ring_at q n"
    "get_buf_cqe (cq_resize_buf q) (idx_of n AND (cq_resize_cqes q - 1)) (cq_resize_sz q) = ring_at (resized q) n"
  using assms get_cqe_at [of q m n] get_cqe_at [of "resized q" m n]
  by (simp_all add: rings_apart_def get_cqe_def)

lemma sw_own_at:
  assumes "rings_apart q m"
  shows "sw_ownership_bit (idx_of n) (cq_resize_cqes q) = (if odd_pass (resized q) n then 1 else 0)"
    "is_hw (last (entry_at q m n)) (idx_of n) (cq_active_cqes q) \<longleftrightarrow> (owner (entry_at q m n) \<noteq> 0) \<noteq> odd_pass q n"
  using assms pass_bit [of "resized q" m] pass_bit [of q m]
  by (simp_all add: rings_apart_def sw_ownership_bit_def is_hw_def owner_def)

text \<open>One entry.\<close>

lemma copy_entry:
  assumes ap: "rings_apart q m" and d: "d = ring_at (resized q) n'"
  shows "bindR (memcpy d (ring_at q n) (int (cq_sz q)) m) (\<lambda>m.
      bindR (op_own_of (cqe64_of (cq_resize_sz q) d) m) (\<lambda>b.
        store8 (cqe64_of (cq_resize_sz q) d + 63)
          ((b AND NOT MLX5_CQE_OWNER_MASK) OR (if odd_pass (resized q) n' then 1 else 0)) m)) =
    Inr (upd_bytes d (moved (resized q) n' (entry_at q m n)) m)"
proof -
  let ?e = "entry_at q m n" and ?x = "(last (entry_at q m n) AND NOT MLX5_CQE_OWNER_MASK) OR (if odd_pass (resized q) n' then 1 else 0)"
  let ?m1 = "upd_bytes d ?e m"
  have ring: "cq_ring q m" "cq_ring (resized q) m" and sz: "cq_resize_sz q = cq_sz q" "cq_sz (resized q) = cq_sz q"
    using ap by (simp_all add: rings_apart_def)
  have s64: "64 \<le> cq_sz q" by (rule cqe64_at(2) [OF ring(1)])
  have d64: "cqe64_of (cq_sz q) d + 63 = d + (cq_sz q - 1)"
    using cqe64_at(1) [OF ring(2), of n'] s64 by (simp add: d sz)
  have "memcpy d (ring_at q n) (int (cq_sz q)) m = Inr ?m1"
    using ring_mapped [OF ring(1), of n "ring_at q n" "cq_sz q"] ring_mapped [OF ring(2), of n' d "cq_sz q"]
    by (simp add: memcpy_def entry_at_def d sz)
  moreover have own: "op_own_of (cqe64_of (cq_sz q) d) ?m1 = Inr (last ?e)"
  proof -
    have "entry_at (resized q) ?m1 n' = ?e"
      unfolding entry_at_def d sz by (subst bytes_at_same') simp_all
    then show ?thesis using op_own_at [of "resized q" ?m1 n'] ring(2) by (simp add: sz d)
  qed
  moreover have "store8 (d + (cq_sz q - 1)) ?x ?m1 = Inr (upd_bytes (d + (cq_sz q - 1)) [?x] ?m1)"
    using ring_mapped [OF ring(2), of n' "d + (cq_sz q - 1)" 1] s64 by (simp add: store8_def d sz)
  moreover have "upd_bytes (d + (cq_sz q - 1)) [?x] ?m1 = upd_bytes d (butlast ?e @ [?x]) m"
    by (rule ext) (use s64 in \<open>auto simp: upd_bytes_apply nth_append nth_butlast simp del: upd_bytes.simps\<close>)
  ultimately show ?thesis by (simp add: d64 sz(1) moved_def del: upd_bytes.simps)
qed

text \<open>One round of the loop, its addresses named.\<close>

lemma copy_loop_step:
  assumes at: "get_buf_cqe (cq_buf q) (i AND cq_active_cqes q) (cq_sz q) = s"
    "get_buf_cqe (cq_resize_buf q) ((i + 1) AND (cq_resize_cqes q - 1)) (cq_resize_sz q) = d"
    "get_buf_cqe (cq_buf q) ((i + 1) AND cq_active_cqes q) (cq_sz q) = t"
    "get_buf_cqe (cq_buf q) (cq_cons q AND cq_active_cqes q) (cq_sz q) = s0" "t \<noteq> s0"
    and own: "op_own_of (cqe64_of (cq_sz q) s) m = Inr b0" "cqe_opcode b0 \<noteq> MLX5_CQE_RESIZE_CQ"
    and nxt: "next_index True i = Inr j"
    and copy: "bindR (memcpy d s (int (cq_sz q)) m) (\<lambda>m.
      bindR (op_own_of (cqe64_of (cq_resize_sz q) d) m) (\<lambda>b.
        store8 (cqe64_of (cq_resize_sz q) d + 63)
          ((b AND NOT MLX5_CQE_OWNER_MASK) OR sw_ownership_bit (i + 1) (cq_resize_cqes q)) m)) = Inr m1"
    and hw: "op_own_of (cqe64_of (cq_sz q) t) m1 = Inr b1" "\<not> is_hw b1 (i + 1) (cq_active_cqes q)"
  shows "copy_loop (Suc f) q i m = copy_loop f q (i + 1) m1"
proof -
  obtain m2 b where "memcpy d s (int (cq_sz q)) m = Inr m2" "op_own_of (cqe64_of (cq_resize_sz q) d) m2 = Inr b"
    "store8 (cqe64_of (cq_resize_sz q) d + 63)
       ((b AND NOT MLX5_CQE_OWNER_MASK) OR sw_ownership_bit (i + 1) (cq_resize_cqes q)) m2 = Inr m1"
    using copy by (auto simp: bindR_eq_Inr)
  then show ?thesis
    unfolding copy_loop.simps Let_def at(1-4) own(1) nxt using own(2) hw at(5) by simp
qed

text \<open>The loop from entry \<open>k\<close> to the resize entry \<open>r\<close>.\<close>

lemma copy_loop_ok:
  assumes "rings_apart q m" and "k \<le> r" and "r < ring_len q" and "r \<le> ring_len (resized q)" and "r - k < fuel"
    and "\<forall>j \<le> r. sw_entry q m (unat (cq_cons q) + j)"
    and "\<forall>j < r. cqe_opcode (last (entry_at q m (unat (cq_cons q) + j))) \<noteq> MLX5_CQE_RESIZE_CQ"
    and "cqe_opcode (last (entry_at q m (unat (cq_cons q) + r))) = MLX5_CQE_RESIZE_CQ"
    and "\<forall>j < r. idx_of (unat (cq_cons q) + j) \<noteq> 0x7FFFFFFF"
  shows "\<exists>m'. copy_loop fuel q (idx_of (unat (cq_cons q) + k)) m = Some (Inr (True, m')) \<and> rings_apart q m' \<and>
    (\<forall>j. k \<le> j \<longrightarrow> j < r \<longrightarrow> entry_at (resized q) m' (unat (cq_cons q) + Suc j) =
       moved (resized q) (unat (cq_cons q) + Suc j) (entry_at q m (unat (cq_cons q) + j))) \<and>
    (\<forall>x. (\<forall>j. k \<le> j \<longrightarrow> j < r \<longrightarrow> x mod ring_len (resized q) \<noteq> (unat (cq_cons q) + Suc j) mod ring_len (resized q)) \<longrightarrow>
       entry_at (resized q) m' x = entry_at (resized q) m x)"
  using assms
proof (induction "r - k" arbitrary: k m fuel)
  case 0
  then have k: "k = r" by simp
  obtain f where f: "fuel = Suc f" using 0(6) by (cases fuel) auto
  have ring: "cq_ring q m" using 0(2) by (simp add: rings_apart_def)
  have "copy_loop fuel q (idx_of (unat (cq_cons q) + k)) m = Some (Inr (True, m))"
    unfolding f k using 0(9) by (simp add: Let_def buf_cqe_at [OF 0(2)] op_own_at [OF ring])
  then show ?case using 0(2) k by auto
next
  case (Suc d)
  let ?c = "unat (cq_cons q)" and ?q = "resized q"
  note ap = Suc(3)
  have kr: "k < r" "Suc k \<le> r" "d = r - Suc k" using Suc(2) by auto
  obtain f where f: "fuel = Suc f" "r - Suc k < f" using Suc(7) kr by (cases fuel) auto
  have ring: "cq_ring q m" "cq_ring ?q m" using ap by (simp_all add: rings_apart_def)
  have i1: "idx_of (?c + k) + 1 = idx_of (?c + Suc k)" by (simp add: idx_of_def)
  define d0 where "d0 = ring_at ?q (?c + Suc k)"
  let ?bs = "moved ?q (?c + Suc k) (entry_at q m (?c + k))"
  define m1 where "m1 = upd_bytes d0 ?bs m"
  have sz: "cq_sz ?q = cq_sz q" using ap by (simp add: rings_apart_def)
  have rsz: "cq_resize_sz q = cq_sz q" using ap by (simp add: rings_apart_def)
  have ne0: "entry_at q m (?c + k) \<noteq> []" using cqe64_at(2) [OF ring(1)]
    by (metis length_entry_at list.size(3) not_numeral_le_zero)
  have lbs: "length ?bs = cq_sz q" using ne0 by simp
  have ap1: "rings_apart q m1" unfolding m1_def using ap by simp
  have old: "entry_at q m1 x = entry_at q m x" for x
    unfolding m1_def using ap ring_at_in [of ?q "?c + Suc k"] lbs sz
    by (intro entry_at_frame) (auto simp: rings_apart_def d0_def)
  have new: "entry_at ?q m1 (?c + Suc k) = ?bs"
    unfolding m1_def entry_at_def [of ?q "upd_bytes d0 ?bs m"] d0_def [symmetric]
    by (rule bytes_at_same') (simp only: lbs sz)
  have other: "entry_at ?q m1 x = entry_at ?q m x" if "x mod ring_len ?q \<noteq> (?c + Suc k) mod ring_len ?q" for x
    unfolding m1_def by (rule entry_at_other [OF that]) (simp_all add: d0_def ne0 rsz)
  have soft: "sw_entry q m1 (?c + j)" if "j \<le> r" for j
    using Suc(8) that by (simp add: sw_entry_def old)
  have hw: "\<not> is_hw (last (entry_at q m1 (?c + Suc k))) (idx_of (?c + Suc k)) (cq_active_cqes q)"
    using sw_own_at(2) [OF ap1, of "?c + Suc k"] soft [OF kr(2)] by (auto simp: sw_entry_def)
  have start: "ring_at q (?c + Suc k) \<noteq> ring_at q ?c"
  proof -
    have "(?c + Suc k) mod ring_len q \<noteq> (?c + 0) mod ring_len q"
      using Suc(5) kr by (intro ring_apart) simp_all
    then show ?thesis using ring_at_apart [of "?c + Suc k" q ?c] cqe64_at(2) [OF ring(1)] by auto
  qed
  have at0: "get_buf_cqe (cq_buf q) (cq_cons q AND cq_active_cqes q) (cq_sz q) = ring_at q ?c"
    using buf_cqe_at(1) [OF ap, of ?c] by (simp add: idx_of_def)
  have n: "next_index True (idx_of (?c + k)) = Inr (idx_of (?c + Suc k))"
    using Suc(11) kr(1) i1 by (simp add: next_index_def)
  have cp: "bindR (memcpy d0 (ring_at q (?c + k)) (int (cq_sz q)) m) (\<lambda>m.
      bindR (op_own_of (cqe64_of (cq_resize_sz q) d0) m) (\<lambda>b.
        store8 (cqe64_of (cq_resize_sz q) d0 + 63)
          ((b AND NOT MLX5_CQE_OWNER_MASK) OR sw_ownership_bit (idx_of (?c + k) + 1) (cq_resize_cqes q)) m)) = Inr m1"
    unfolding i1 sw_own_at(1) [OF ap] m1_def by (rule copy_entry [OF ap d0_def])
  have ring1: "cq_ring q m1" using ap1 by (simp add: rings_apart_def)
  have "copy_loop (Suc f) q (idx_of (?c + k)) m = copy_loop f q (idx_of (?c + k) + 1) m1"
    by (rule copy_loop_step [OF buf_cqe_at(1) [OF ap] _ _ at0 start op_own_at [OF ring(1)] _ n cp op_own_at [OF ring1]])
      (use Suc(9) kr(1) hw in \<open>simp_all only: i1 buf_cqe_at [OF ap] d0_def not_False_eq_True simp_thms\<close>)
  then have step: "copy_loop (Suc f) q (idx_of (?c + k)) m = copy_loop f q (idx_of (?c + Suc k)) m1"
    unfolding i1 .
  obtain m' where m': "copy_loop f q (idx_of (?c + Suc k)) m1 = Some (Inr (True, m'))" "rings_apart q m'"
    "\<And>j. Suc k \<le> j \<Longrightarrow> j < r \<Longrightarrow> entry_at ?q m' (?c + Suc j) = moved ?q (?c + Suc j) (entry_at q m (?c + j))"
    "\<And>x. (\<And>j. Suc k \<le> j \<Longrightarrow> j < r \<Longrightarrow> x mod ring_len ?q \<noteq> (?c + Suc j) mod ring_len ?q) \<Longrightarrow>
       entry_at ?q m' x = entry_at ?q m1 x"
    using Suc(1) [OF kr(3) ap1 kr(2) Suc(5,6) f(2)] soft Suc(9-11) unfolding old by blast
  have far: "(?c + Suc k) mod ring_len ?q \<noteq> (?c + Suc j) mod ring_len ?q" if "Suc k \<le> j" "j < r" for j
    using ring_apart [of k ?q j "Suc ?c"] that kr Suc(6) by simp
  have "entry_at ?q m' (?c + Suc j) = moved ?q (?c + Suc j) (entry_at q m (?c + j))" if "k \<le> j" "j < r" for j
  proof (cases "j = k")
    case True
    then show ?thesis using m'(4) [OF far] new by simp
  next
    case False
    then show ?thesis using m'(3) that by simp
  qed
  moreover have "entry_at ?q m' x = entry_at ?q m x"
    if "\<forall>j. k \<le> j \<longrightarrow> j < r \<longrightarrow> x mod ring_len ?q \<noteq> (?c + Suc j) mod ring_len ?q" for x
    using m'(4) [of x] other [of x] that kr(1) by auto
  moreover have "copy_loop fuel q (idx_of (?c + k)) m = Some (Inr (True, m'))"
    unfolding f(1) step by (rule m'(1))
  ultimately show ?case using m'(2) by (intro exI [of _ m'] conjI allI impI) simp_all
qed

lemma mlx5_cq_resize_copy_cqes_ok:
  assumes ap: "rings_apart q m" and cl: "compressed_left q = 0" and run: "run_ends q m n" and r: "r \<le> n"
    and soft: "sw_entry q m (unat (cq_cons q) + r)"
    and before: "\<forall>j < r. cqe_opcode (last (entry_at q m (unat (cq_cons q) + j))) \<noteq> MLX5_CQE_RESIZE_CQ"
    and at: "cqe_opcode (last (entry_at q m (unat (cq_cons q) + r))) = MLX5_CQE_RESIZE_CQ"
    and int: "\<forall>j < n. idx_of (unat (cq_cons q) + j) \<noteq> 0x7FFFFFFF"
    and new: "\<forall>x. \<not> sw_entry (resized q) m x" and room: "r < ring_len (resized q)" and fuel: "r < fuel"
  shows "\<exists>q' m'. mlx5_cq_resize_copy_cqes fuel ctx q m = Some (Inr (q', m')) \<and> cq_cons q' = cq_cons q + 1 \<and>
    ready (resized q') m' (map body (entries_from q m 0 r))"
proof -
  let ?c = "unat (cq_cons q)" and ?q' = "q\<lparr>cq_cons := cq_cons q + 1\<rparr>"
  have ring: "cq_ring q m" and act: "cq_active_cqes q = cq_cqe q" using ap by (simp_all add: rings_apart_def)
  have rn: "n < ring_len q" "\<forall>k < n. sw_entry q m (?c + k)" using run by (simp_all add: run_ends_def Let_def)
  have softs: "\<forall>j \<le> r. sw_entry q m (?c + j)" using rn(2) soft r by (auto simp: le_less)
  have c0: "idx_of ?c = cq_cons q" by (simp add: idx_of_def)
  have fp: "find_prod True ctx q (cq_active_cqes q) (cq_cons q) m = Inr (idx_of (?c + n), m)"
    using find_prod_ok [OF ring run, of 0 True ctx] int by (simp add: act c0)
  have own: "op_own_of (cqe64_of (cq_sz q) (get_buf_cqe (cq_buf q) (cq_cons q AND cq_active_cqes q) (cq_sz q))) m =
      Inr (last (entry_at q m ?c))"
    using buf_cqe_at(1) [OF ap, of ?c] op_own_at [OF ring, of ?c] by (simp add: c0)
  have hw: "\<not> is_hw (last (entry_at q m ?c)) (cq_cons q) (cq_active_cqes q)"
    using sw_own_at(2) [OF ap, of ?c] softs [rule_format, of 0] by (auto simp: sw_entry_def c0)
  obtain m' where m': "copy_loop fuel q (idx_of (?c + 0)) m = Some (Inr (True, m'))" "rings_apart q m'"
    "\<And>j. j < r \<Longrightarrow> entry_at (resized q) m' (?c + Suc j) = moved (resized q) (?c + Suc j) (entry_at q m (?c + j))"
    "\<And>x. (\<And>j. j < r \<Longrightarrow> x mod ring_len (resized q) \<noteq> (?c + Suc j) mod ring_len (resized q)) \<Longrightarrow>
       entry_at (resized q) m' x = entry_at (resized q) m x"
    using copy_loop_ok [OF ap, of 0 r fuel] rn(1) r room fuel softs before at int by auto
  have res: "mlx5_cq_resize_copy_cqes fuel ctx q m = Some (Inr (?q', m'))"
    using cl fp own hw m'(1) by (simp add: mlx5_cq_resize_copy_cqes_def mlx5_decompress_curr_def c0)
  have len: "ring_len (resized ?q') = ring_len (resized q)" by (simp add: ring_len_def resized_def)
  have geo: "ring_at (resized ?q') x = ring_at (resized q) x" "odd_pass (resized ?q') x = odd_pass (resized q) x"
    "cq_sz (resized ?q') = cq_sz (resized q)" for x
    by (simp_all add: ring_at_def odd_pass_def len)
  have ring': "cq_ring (resized q) m'" using m'(2) by (simp add: rings_apart_def)
  have place: "ring_at (resized q) (unat (cq_cons q + 1) + k) = ring_at (resized q) (?c + Suc k)"
    "odd_pass (resized q) (unat (cq_cons q + 1) + k) = odd_pass (resized q) (?c + Suc k)" for k
    using word_places [OF ring', of "cq_cons q" 1 k] by simp_all
  have entry: "entry_at (resized ?q') m' (unat (cq_cons q + 1) + k) = entry_at (resized q) m' (?c + Suc k)" for k
    by (simp only: entry_at_def geo place)
  have sw: "sw_entry (resized ?q') m' (unat (cq_cons q + 1) + k) = sw_entry (resized q) m' (?c + Suc k)" for k
    by (simp only: sw_entry_def entry geo place)
  have bodies: "map body (entries_from (resized ?q') m' 0 r) = map body (entries_from q m 0 r)"
  proof (rule nth_equalityI)
    fix k assume "k < length (map body (entries_from (resized ?q') m' 0 r))"
    then have k: "k < r" by simp
    have "entry_at (resized ?q') m' (unat (cq_cons (resized ?q')) + k) = moved (resized q) (?c + Suc k) (entry_at q m (?c + k))"
      using entry [of k] m'(3) [OF k] by simp
    then show "map body (entries_from (resized ?q') m' 0 r) ! k = map body (entries_from q m 0 r) ! k"
      using k by (simp add: entries_from_def)
  qed simp
  have soft': "sw_entry (resized ?q') m' (unat (cq_cons q + 1) + k)" if k: "k < r" for k
  proof -
    let ?e = "entry_at q m (?c + k)"
    have long: "64 \<le> length ?e" using cqe64_at(2) [OF ring] by simp
    have ne: "?e \<noteq> []" using long by (metis list.size(3) not_numeral_le_zero)
    have "64 \<le> length (moved (resized q) (?c + Suc k) ?e)" using long ne by simp
    from fields_of_body(4) [OF this] fields_of_body(4) [OF long]
    have "cqe_opcode (last (moved (resized q) (?c + Suc k) ?e)) = cqe_opcode (last ?e)" by simp
    then show ?thesis using softs k m'(3) [OF k] unfolding sw by (simp add: sw_entry_def)
  qed
  have "(?c + Suc r) mod ring_len (resized q) \<noteq> (?c + Suc j) mod ring_len (resized q)" if "j < r" for j
    using ring_apart [of r "resized q" j "Suc ?c"] that room by simp
  then have "entry_at (resized q) m' (?c + Suc r) = entry_at (resized q) m (?c + Suc r)" by (rule m'(4))
  then have "\<not> sw_entry (resized ?q') m' (unat (cq_cons q + 1) + r)"
    using new unfolding sw by (simp add: sw_entry_def)
  then have "ready (resized ?q') m' (map body (entries_from q m 0 r))"
    using bodies soft' room unfolding ready_def Let_def len by simp
  then show ?thesis using res by (intro exI [of _ ?q'] exI [of _ m']) simp
qed

end
