(* ===== verification/Cq_Samples.thy ===== *)
theory Cq_Samples
  imports Cq_Resize
begin

text \<open>
  A completion queue of four entries of 64 bytes, its ring in memory and some entries: the instances
  on which the properties of completion queues are tried.
\<close>

definition sample_cq :: mlx5_cq where
  "sample_cq = \<lparr>cq_buf = 4096, cq_cqe = 3, cq_sz = 64, cq_cons = 0, cq_dbrec = 8192, cq_arm_sn = 0, cq_cqn = 9,
     cq_log_size = 2, cq_dv_owned = False, next_decomp = [], compressed_left = 0, compressed_wqe_cnt = 0,
     compressed_mp_rq = False, mini_arr_idx = 0, mini_array = [], cq_resize_buf = 16384, cq_resize_cqes = 8,
     cq_resize_sz = 64, cq_active_cqes = 3\<rparr>"

text \<open>An entry of queue pair \<open>n\<close> with the given last byte.\<close>

definition cqe_bytes :: "u8 \<Rightarrow> u8 \<Rightarrow> u8 list" where
  "cqe_bytes n b = replicate 59 0 @ [n, 0, 0, 0, b]"

lemma cqe_bytes_simps [simp]: "length (cqe_bytes n b) = 64" "last (cqe_bytes n b) = b" "cqe_bytes n b ! 63 = b"
  "proper (cqe_bytes n b) = cqe_bytes n b" "body (cqe_bytes n b) = cqe_bytes n (b AND NOT 1)"
  by (simp_all add: cqe_bytes_def proper_def body_def MLX5_CQE_OWNER_MASK_def nth_append butlast_append)

lemma cqe_bytes_qpn:
  "matches 0 5 (cqe_bytes 5 0x20)" "\<not> matches 0 5 (cqe_bytes 6 0x20)" "\<not> from_srq 0 (cqe_bytes 5 0x20)"
  by code_simp+

text \<open>Four entries from address 4096 on; behind them every 64th byte marks an invalid entry.\<close>

definition invalid_memory :: memory where
  "invalid_memory a = Some (if a mod 64 = 63 then 0xF0 else 0)"

definition cq_memory :: "u8 list \<Rightarrow> u8 list \<Rightarrow> u8 list \<Rightarrow> u8 list \<Rightarrow> memory" where
  "cq_memory e0 e1 e2 e3 = upd_bytes 4096 e0 (upd_bytes 4160 e1 (upd_bytes 4224 e2 (upd_bytes 4288 e3 invalid_memory)))"

lemma cq_memory_mapped: "mapped (cq_memory e0 e1 e2 e3) a n"
  unfolding cq_memory_def by (intro mapped_upd) (simp add: mapped_iff invalid_memory_def)

lemma sample_cq_fields [simp]:
  "cq_sz sample_cq = 64" "cq_buf sample_cq = 4096" "ring_len sample_cq = 4" "cq_cons sample_cq = 0"
  "compressed_left sample_cq = 0" "cq_dv_owned sample_cq = False" "cq_dbrec sample_cq = 8192"
  "ring_end sample_cq = 4352"
  by (simp_all add: sample_cq_def ring_len_def ring_end_def)

lemma sample_ring: "cq_ring sample_cq (cq_memory e0 e1 e2 e3)"
  by (auto simp: cq_ring_def cq_memory_mapped intro: exI [of _ 2])

lemma sample_entry:
  assumes "length e0 = 64" "length e1 = 64" "length e2 = 64" "length e3 = 64"
  shows "entry_at sample_cq (cq_memory e0 e1 e2 e3) 0 = e0" "entry_at sample_cq (cq_memory e0 e1 e2 e3) (Suc 0) = e1"
    "entry_at sample_cq (cq_memory e0 e1 e2 e3) 2 = e2" "entry_at sample_cq (cq_memory e0 e1 e2 e3) 3 = e3"
  using assms by (simp_all add: entry_at_def ring_at_def cq_memory_def byte_simps)

lemma sample_sw:
  "n < 4 \<Longrightarrow> sw_entry sample_cq m n \<longleftrightarrow> cqe_opcode (last (entry_at sample_cq m n)) \<noteq> MLX5_CQE_INVALID \<and>
     last (entry_at sample_cq m n) AND MLX5_CQE_OWNER_MASK = 0"
  by (simp add: sw_entry_def odd_pass_def owner_def)

text \<open>Entries of the queue pairs 5, 6 and 5, and an invalid one.\<close>

abbreviation three_entries :: memory where
  "three_entries \<equiv> cq_memory (cqe_bytes 5 0x20) (cqe_bytes 6 0x20) (cqe_bytes 5 0x20) (cqe_bytes 0 0xF0)"

lemma three_ready: "ready sample_cq three_entries [cqe_bytes 5 0x20, cqe_bytes 6 0x20, cqe_bytes 5 0x20]"
proof -
  have u: "[0..<3] = [0, 1, 2]" by (simp add: upt_rec)
  have "sw_entry sample_cq three_entries k" if "k < 3" for k
  proof -
    have "k = 0 \<or> k = Suc 0 \<or> k = 2" using that by auto
    then show ?thesis by (auto simp: sample_sw sample_entry cqe_opcode_def MLX5_CQE_INVALID_def MLX5_CQE_OWNER_MASK_def)
  qed
  moreover have "\<not> sw_entry sample_cq three_entries 3"
    by (simp add: sample_sw sample_entry cqe_opcode_def MLX5_CQE_INVALID_def)
  moreover have "entries_from sample_cq three_entries 0 3 = [cqe_bytes 5 0x20, cqe_bytes 6 0x20, cqe_bytes 5 0x20]"
    by (simp add: entries_from_def u sample_entry)
  moreover have "length [cqe_bytes 5 0x20, cqe_bytes 6 0x20, cqe_bytes 5 0x20] = 3" by simp
  ultimately show ?thesis unfolding ready_def Let_def by (simp only:) simp
qed

definition sample_cq_context :: cq_context where
  "sample_cq_context = \<lparr>cq_tables = \<lparr>rsc_table = \<lambda>_. \<lparr>sub_table = None, refcnt = 0\<rparr>,
     srq_table = \<lambda>_. \<lparr>sub_table = None, refcnt = 0\<rparr>, uidx_table = \<lambda>_. \<lparr>sub_table = None, refcnt = 0\<rparr>\<rparr>,
     cqe_version = 0, is_mp_rwq = (\<lambda>_. False)\<rparr>"

lemma sample_context_version [simp]: "cqe_version sample_cq_context = 0"
  by (simp add: sample_cq_context_def)

lemma sample_alone:
  "srq_side q None m xs" "releasable None xs is" "record_apart sample_cq None (cq_memory e0 e1 e2 e3)"
  by (simp_all add: srq_side_def releasable_def record_apart_def cq_memory_mapped)

end
