(* ===== verification/Cq_Props.thy ===== *)
theory Cq_Props
  imports Cq_Samples
begin

text \<open>
  What \<open>cq.c\<close> guarantees of the driver's completion queues when a queue pair goes away and when the
  ring is replaced, with instances on a ring of four entries of 64 bytes.
\<close>

section \<open>Removing a queue pair\<close>

text \<open>C6: \<open>mlx5_cq_clean\<close> filters what can be polled. On a ring whose pollable entries are \<open>es\<close> (not
  compressed, fewer than the ring holds, counters not across the boundary of the signed numbers), the
  entries that can be polled afterwards are those of \<open>es\<close> that do not belong to the queue pair, in
  their order; the receive entries of those that do are appended to the shared receive queue's chain,
  the last one first; the consumer counter has advanced by the number removed, and its doorbell
  record holds it when it changed.\<close>

theorem cq_clean_filters_ring:
  assumes "cq_ring q m" and "\<not> cq_dv_owned q" and "compressed_left q = 0"
    and "ready q m es" and "\<forall>k < length es. plain (entry_at q m (unat (cq_cons q) + k))"
    and "signed_room (cq_cons q) (length es)"
    and "srq_side q srq m xs" and "record_apart q srq m"
    and "releasable srq xs (released (cqe_version ctx) r srq es)"
  shows "\<exists>q' srq' m'. mlx5_cq_clean ctx q r srq m = Inr (q', srq', m') \<and>
    ready q' m' (filter (\<lambda>e. \<not> matches (cqe_version ctx) r e) es) \<and>
    srq_side q srq' m' (xs @ rev (released (cqe_version ctx) r srq es)) \<and>
    cq_cons q' = cq_cons q + of_nat (length (filter (matches (cqe_version ctx) r) es)) \<and>
    (cq_cons q' \<noteq> cq_cons q \<longrightarrow> bytes_at m' (cq_dbrec q) 4 = be32 (cq_cons q' AND 0xffffff))"
  by (rule mlx5_cq_clean_ok [OF assms])

theorem cq_clean_filters_ring_witness:
  "\<exists>q' srq' m'. mlx5_cq_clean sample_cq_context sample_cq 5 None three_entries = Inr (q', srq', m') \<and>
    ready q' m' [cqe_bytes 6 0x20] \<and> cq_cons q' = 2"
proof -
  have p: "\<forall>k < length [cqe_bytes 5 0x20, cqe_bytes 6 0x20, cqe_bytes 5 0x20].
      plain (entry_at sample_cq three_entries (unat (cq_cons sample_cq) + k))"
  proof (intro allI impI)
    fix k assume "k < length [cqe_bytes 5 0x20, cqe_bytes 6 0x20, cqe_bytes 5 0x20]"
    then have "k = 0 \<or> k = Suc 0 \<or> k = 2" by auto
    then show "plain (entry_at sample_cq three_entries (unat (cq_cons sample_cq) + k))"
      by (auto simp: sample_entry plain_def MLX5_COMPRESSED_def)
  qed
  have "signed_room (cq_cons sample_cq) (length [cqe_bytes 5 0x20, cqe_bytes 6 0x20, cqe_bytes 5 0x20])"
    by (simp add: signed_room_def)
  from cq_clean_filters_ring [OF sample_ring _ _ three_ready p this sample_alone(1) [where xs = "[]"] sample_alone(3,2),
      of sample_cq_context 5]
  show ?thesis by (auto simp: cqe_bytes_qpn)
qed

text \<open>On a full ring the last entry survives. When every entry of the ring can be polled, the search
  for the producer stops at the last one without counting it, so the sweep leaves it alone: it can
  still be polled after the clean-up, behind the others that stayed, even if it belongs to the queue
  pair that is going away.\<close>

theorem cq_clean_skips_last_of_full_ring:
  assumes "cq_ring q m" and "\<not> cq_dv_owned q" and "compressed_left q = 0"
    and "\<forall>k < ring_len q. sw_entry q m (unat (cq_cons q) + k) \<and> plain (entry_at q m (unat (cq_cons q) + k))"
    and "es = map body (entries_from q m 0 (ring_len q - 1))"
    and "l = entry_at q m (unat (cq_cons q) + (ring_len q - 1))"
    and "signed_room (cq_cons q) (ring_len q - 1)"
    and "srq_side q srq m xs" and "record_apart q srq m"
    and "releasable srq xs (released (cqe_version ctx) r srq es)"
  shows "\<exists>q' srq' m' n. mlx5_cq_clean ctx q r srq m = Inr (q', srq', m') \<and>
    n = length (filter (\<lambda>e. \<not> matches (cqe_version ctx) r e) es) \<and>
    map body (entries_from q' m' 0 n) = filter (\<lambda>e. \<not> matches (cqe_version ctx) r e) es \<and>
    entry_at q' m' (unat (cq_cons q') + n) = l \<and>
    (\<forall>k \<le> n. sw_entry q' m' (unat (cq_cons q') + k))"
  by (rule mlx5_cq_clean_full [OF assms])

abbreviation full_ring :: memory where
  "full_ring \<equiv> cq_memory (cqe_bytes 6 0x20) (cqe_bytes 5 0x20) (cqe_bytes 5 0x20) (cqe_bytes 5 0x20)"

theorem cq_clean_skips_last_of_full_ring_witness:
  "\<exists>q' srq' m'. mlx5_cq_clean sample_cq_context sample_cq 5 None full_ring = Inr (q', srq', m') \<and>
    sw_entry q' m' (unat (cq_cons q') + 1) \<and> entry_at q' m' (unat (cq_cons q') + 1) = cqe_bytes 5 0x20"
proof -
  have u: "[0..<3] = [0, 1, 2]" by (simp add: upt_rec)
  have full: "\<forall>k < ring_len sample_cq. sw_entry sample_cq full_ring (unat (cq_cons sample_cq) + k) \<and>
      plain (entry_at sample_cq full_ring (unat (cq_cons sample_cq) + k))"
  proof (intro allI impI)
    fix k assume "k < ring_len sample_cq"
    then have "k = 0 \<or> k = Suc 0 \<or> k = 2 \<or> k = 3" by auto
    then show "sw_entry sample_cq full_ring (unat (cq_cons sample_cq) + k) \<and>
        plain (entry_at sample_cq full_ring (unat (cq_cons sample_cq) + k))"
      by (auto simp: sample_sw sample_entry plain_def MLX5_COMPRESSED_def cqe_opcode_def MLX5_CQE_INVALID_def
          MLX5_CQE_OWNER_MASK_def)
  qed
  have es: "[cqe_bytes 6 0x20, cqe_bytes 5 0x20, cqe_bytes 5 0x20] =
      map body (entries_from sample_cq full_ring 0 (ring_len sample_cq - 1))"
    by (simp add: entries_from_def u sample_entry)
  have l: "cqe_bytes 5 0x20 = entry_at sample_cq full_ring (unat (cq_cons sample_cq) + (ring_len sample_cq - 1))"
    by (simp add: sample_entry)
  have "signed_room (cq_cons sample_cq) (ring_len sample_cq - 1)" by (simp add: signed_room_def)
  from cq_clean_skips_last_of_full_ring [OF sample_ring _ _ full es l this sample_alone(1,3,2), of sample_cq_context 5]
  obtain q' srq' m' n where "mlx5_cq_clean sample_cq_context sample_cq 5 None full_ring = Inr (q', srq', m')"
    "n = 1" "entry_at q' m' (unat (cq_cons q') + n) = cqe_bytes 5 0x20" "sw_entry q' m' (unat (cq_cons q') + n)"
    by (auto simp: cqe_bytes_qpn)
  then show ?thesis by auto
qed

text \<open>The sweep subtracts counters as \<open>int\<close>. When the entries that can be polled reach over the
  boundary of the signed numbers, as they do once in \<open>2 ^ 32\<close> completions, the first subtraction
  overflows, and what the clean-up does is not defined.\<close>

theorem cq_clean_overflows_at_boundary:
  assumes "cq_ring q m" and "\<not> cq_dv_owned q" and "compressed_left q = 0"
    and "run_ends q m n" and "2147483648 < sint (cq_cons q) + int n"
  shows "mlx5_cq_clean ctx q r srq m = Inl (Fault SignedOverflow)"
  by (rule mlx5_cq_clean_overflow [OF assms])

theorem cq_clean_overflows_at_boundary_witness:
  "mlx5_cq_clean sample_cq_context (sample_cq\<lparr>cq_cons := 0x7FFFFFFF\<rparr>) 5 None
     (cq_memory (cqe_bytes 5 0x20) (cqe_bytes 0 0xF0) (cqe_bytes 0 0xF0) (cqe_bytes 5 0x21)) = Inl (Fault SignedOverflow)"
proof -
  let ?q = "sample_cq\<lparr>cq_cons := 0x7FFFFFFF\<rparr>"
  let ?m = "cq_memory (cqe_bytes 5 0x20) (cqe_bytes 0 0xF0) (cqe_bytes 0 0xF0) (cqe_bytes 5 0x21)"
  have len: "ring_len ?q = 4" by (simp add: ring_len_def sample_cq_def)
  have ring: "cq_ring ?q ?m" using sample_ring by (simp add: cq_ring_def ring_len_def)
  have at: "entry_at ?q ?m n = entry_at sample_cq ?m (n mod 4)" for n
    by (simp add: entry_at_def ring_at_def len)
  have "run_ends ?q ?m 2"
  proof -
    have two: "k = 0 \<or> k = Suc 0" if "k < 2" for k :: nat using that by auto
    have e: "entry_at ?q ?m (0x7FFFFFFF + 0) = cqe_bytes 5 0x21" "entry_at ?q ?m (0x7FFFFFFF + Suc 0) = cqe_bytes 5 0x20"
      "entry_at ?q ?m (0x7FFFFFFF + 2) = cqe_bytes 0 0xF0" unfolding at by (simp_all add: sample_entry)
    have "sw_entry ?q ?m (0x7FFFFFFF + k) \<and> plain (entry_at ?q ?m (0x7FFFFFFF + k))" if "k < 2" for k
      using two [OF that] e
      by (auto simp: sw_entry_def odd_pass_def owner_def plain_def MLX5_COMPRESSED_def cqe_opcode_def
          MLX5_CQE_INVALID_def MLX5_CQE_OWNER_MASK_def len)
    moreover have "\<not> sw_entry ?q ?m (0x7FFFFFFF + 2)"
      using e(3) by (simp add: sw_entry_def cqe_opcode_def MLX5_CQE_INVALID_def)
    ultimately show ?thesis by (simp add: run_ends_def len)
  qed
  from cq_clean_overflows_at_boundary [OF ring _ _ this] show ?thesis by (simp add: sample_cq_def)
qed

section \<open>New and resized rings\<close>

text \<open>A new ring is empty. \<open>mlx5_alloc_cq_buf\<close> zeroes the buffer and marks every entry invalid, for
  entries of 64 and of 128 bytes; whatever the consumer counter, \<open>get_sw_cqe\<close> finds no entry.\<close>

theorem new_ring_is_empty:
  assumes "cq_sz q = 64 \<or> cq_sz q = 128" and "k < 32" and "nent = 2 ^ k" and "unat (cq_cqe q) + 1 = nent"
    and "mapped m buf (nent * cq_sz q)" and "cq_buf q = buf"
  shows "\<exists>m'. mlx5_alloc_cq_buf (Some buf) nent (cq_sz q) m = Inr (0, buf, m') \<and> cq_ring q m' \<and>
    (\<forall>n. entry_at q m' n = replicate (cq_sz q - 1) 0 @ [0xF0]) \<and>
    (\<forall>n. get_sw_cqe q n (cq_cqe q) m' = Inr None)"
proof -
  obtain m' where m': "mlx5_alloc_cq_buf (Some buf) nent (cq_sz q) m = Inr (0, buf, m')" "cq_ring q m'"
    "\<forall>n. entry_at q m' n = replicate (cq_sz q - 1) 0 @ [0xF0]" "\<forall>n. \<not> sw_entry q m' n"
    using mlx5_alloc_cq_buf_ok [OF assms] by blast
  have "get_sw_cqe q n (cq_cqe q) m' = Inr None" for n
    using get_sw_cqe_at [OF m'(2), of "unat n"] m'(4) by (simp add: idx_of_def)
  then show ?thesis using m' by blast
qed

theorem new_ring_is_empty_witness:
  "\<exists>m'. mlx5_alloc_cq_buf (Some 4096) 4 64 (\<lambda>_. Some 1) = Inr (0, 4096, m') \<and> get_sw_cqe sample_cq 7 3 m' = Inr None"
proof -
  have c: "cq_cqe sample_cq = 3" by (simp add: sample_cq_def)
  have "mapped (\<lambda>_. Some 1) 4096 (4 * cq_sz sample_cq)" by (simp add: mapped_iff)
  from new_ring_is_empty [OF _ _ _ _ this, of 2] show ?thesis by (auto simp: c)
qed

text \<open>C35: resizing a queue of plain entries copies the entries before the resize entry. The conditions
  are: the \<open>n\<close> entries from the consumer counter on are the software's and none of them is compressed,
  and no compressed session is open; the \<open>r\<close>-th is the first resize entry, and the entry at \<open>r\<close> is the
  software's; the entries of the new ring have the size of the old ones (for other sizes see the finding
  on \<open>cq.c:1670\<close>); the new ring lies apart from the old one, has more than \<open>r\<close> entries and none of them is
  the software's yet; the index 0x7FFFFFFF, from which the signed counter of the code cannot step on, is not among
  the \<open>n\<close>; the fuel is above \<open>r\<close>. Then \<open>mlx5_cq_resize_copy_cqes\<close> finds the resize entry, and from the
  consumer counter, advanced by one, the new ring offers exactly the \<open>r\<close> entries that stood before it,
  in order, with the owner bits of their new places.\<close>

theorem resize_copies_entries:
  assumes "rings_apart q m" and "compressed_left q = 0" and "run_ends q m n" and "r \<le> n"
    and "sw_entry q m (unat (cq_cons q) + r)"
    and "\<forall>j < r. cqe_opcode (last (entry_at q m (unat (cq_cons q) + j))) \<noteq> MLX5_CQE_RESIZE_CQ"
    and "cqe_opcode (last (entry_at q m (unat (cq_cons q) + r))) = MLX5_CQE_RESIZE_CQ"
    and "\<forall>j < n. idx_of (unat (cq_cons q) + j) \<noteq> 0x7FFFFFFF"
    and "\<forall>x. \<not> sw_entry (resized q) m x" and "r < ring_len (resized q)" and "r < fuel"
  shows "\<exists>q' m'. mlx5_cq_resize_copy_cqes fuel ctx q m = Some (Inr (q', m')) \<and> cq_cons q' = cq_cons q + 1 \<and>
    ready (resized q') m' (map body (entries_from q m 0 r))"
  by (rule mlx5_cq_resize_copy_cqes_ok [OF assms])

abbreviation resize_ring :: memory where
  "resize_ring \<equiv> cq_memory (cqe_bytes 5 0x20) (cqe_bytes 6 0x20) (cqe_bytes 0 0x50) (cqe_bytes 0 0xF0)"

theorem resize_copies_entries_witness:
  "\<exists>q' m'. mlx5_cq_resize_copy_cqes 3 sample_cq_context sample_cq resize_ring = Some (Inr (q', m')) \<and>
    ready (resized q') m' [cqe_bytes 5 0x20, cqe_bytes 6 0x20]"
proof -
  have three: "k = 0 \<or> k = Suc 0 \<or> k = 2" if "k < 3" for k :: nat using that by auto
  have u: "[0..<2] = [0, 1]" by (simp add: upt_rec)
  have sw: "sw_entry sample_cq resize_ring k \<and> plain (entry_at sample_cq resize_ring k)" if "k < 3" for k
    using three [OF that]
    by (auto simp: sample_sw sample_entry plain_def MLX5_COMPRESSED_def cqe_opcode_def MLX5_CQE_INVALID_def
        MLX5_CQE_OWNER_MASK_def)
  have run: "run_ends sample_cq resize_ring 3"
    using sw by (simp add: run_ends_def sample_sw sample_entry cqe_opcode_def MLX5_CQE_INVALID_def)
  have rc: "cq_resize_buf sample_cq = 16384" "cq_resize_sz sample_cq = 64" "cq_active_cqes sample_cq = cq_cqe sample_cq"
    by (simp_all add: sample_cq_def)
  have len: "ring_len (resized sample_cq) = 8" by (simp add: ring_len_def sample_cq_def resized_def)
  have "cq_ring (resized sample_cq) resize_ring"
    by (auto simp: cq_ring_def len rc cq_memory_mapped intro: exI [of _ 3])
  then have apart: "rings_apart sample_cq resize_ring"
    using sample_ring by (simp add: rings_apart_def rc)
  have new: "\<not> sw_entry (resized sample_cq) resize_ring x" for x
  proof -
    let ?a = "16384 + x mod 8 * 64"
    have "entry_at (resized sample_cq) resize_ring x = bytes_at invalid_memory ?a 64"
      by (simp add: entry_at_def ring_at_def len rc cq_memory_def byte_simps)
    moreover have "last (bytes_at invalid_memory ?a 64) = 0xF0"
    proof -
      have "(?a + 63) mod 64 = (63 + (256 + x mod 8) * 64) mod 64" by (simp add: algebra_simps)
      also have "\<dots> = 63" by (simp only: mod_mult_self1) simp
      finally show ?thesis by (simp add: last_conv_nth bytes_at_def invalid_memory_def flip: length_greater_0_conv)
    qed
    ultimately show ?thesis by (simp add: sw_entry_def cqe_opcode_def MLX5_CQE_INVALID_def)
  qed
  have int: "\<forall>j < 3. idx_of (unat (cq_cons sample_cq) + j) \<noteq> 0x7FFFFFFF"
    by (auto simp: idx_of_def dest!: three)
  have before: "\<forall>j < 2. cqe_opcode (last (entry_at sample_cq resize_ring (unat (cq_cons sample_cq) + j))) \<noteq> MLX5_CQE_RESIZE_CQ"
  proof (intro allI impI)
    fix j :: nat assume "j < 2"
    then have "j = 0 \<or> j = Suc 0" by auto
    then show "cqe_opcode (last (entry_at sample_cq resize_ring (unat (cq_cons sample_cq) + j))) \<noteq> MLX5_CQE_RESIZE_CQ"
      by (auto simp: sample_entry cqe_opcode_def MLX5_CQE_RESIZE_CQ_def)
  qed
  have at: "cqe_opcode (last (entry_at sample_cq resize_ring (unat (cq_cons sample_cq) + 2))) = MLX5_CQE_RESIZE_CQ"
    by (simp add: sample_entry cqe_opcode_def MLX5_CQE_RESIZE_CQ_def del: add_2_eq_Suc')
  have "map body (entries_from sample_cq resize_ring 0 2) = [cqe_bytes 5 0x20, cqe_bytes 6 0x20]"
    by (simp add: entries_from_def u sample_entry)
  moreover have "sw_entry sample_cq resize_ring (unat (cq_cons sample_cq) + 2)"
    using sw [of 2] by (simp del: add_2_eq_Suc')
  ultimately show ?thesis
    using resize_copies_entries [OF apart _ run _ _ before at int, of 3 sample_cq_context] new by (simp add: len) blast
qed

end
