(* ===== verification/Implicit_Lkey.thy ===== *)
theory Implicit_Lkey
  imports Wqe Driver_Base
begin

text \<open>
  \<open>implicit_lkey.c\<close> of the driver: memory regions for on-demand paging that are registered when an
  address is first used. A protection domain keeps three tables of regions; a table has two levels,
  indexed by bits 39 to 48 and 28 to 38 of the address, and a slot holds two regions of 256 MB, the
  second shifted by 128 MB for ranges that cross into the next block. Arrays of fixed size are
  functions, absent memory is \<open>None\<close>; the lock makes each step that adds an entry atomic.
\<close>

section \<open>The tables\<close>

definition LEVEL1_SIZE :: nat where "LEVEL1_SIZE = 10"
definition LEVEL2_SIZE :: nat where "LEVEL2_SIZE = 11"
definition MR_SIZE :: nat where "MR_SIZE = 28"
definition ADDR_EFFECTIVE_BITS :: nat where "ADDR_EFFECTIVE_BITS = MR_SIZE + LEVEL2_SIZE + LEVEL1_SIZE"
definition LEVEL1_SHIFT :: nat where "LEVEL1_SHIFT = MR_SIZE + LEVEL2_SIZE"
definition LEVEL2_SHIFT :: nat where "LEVEL2_SHIFT = MR_SIZE"

definition MASK :: "nat \<Rightarrow> u64" where
  "MASK len = push_bit len 1 - 1"

definition ODP_GLOBAL_R_LKEY :: u32 where "ODP_GLOBAL_R_LKEY = 0x101"
definition ODP_GLOBAL_W_LKEY :: u32 where "ODP_GLOBAL_W_LKEY = 0x102"

text \<open>The bits of \<open>exp_access\<close> as a set; \<open>Other_Access\<close> stands for the bits the file does not name.\<close>

datatype access_bit = IBV_EXP_ACCESS_LOCAL_WRITE | IBV_EXP_ACCESS_REMOTE_READ
  | IBV_EXP_ACCESS_REMOTE_WRITE | IBV_EXP_ACCESS_REMOTE_ATOMIC | IBV_EXP_ACCESS_ON_DEMAND
  | IBV_EXP_ACCESS_RELAXED | Other_Access nat

record odp_mr =
  om_addr :: u64
  om_length :: u64
  om_lkey :: u32
  om_relaxed :: bool
  om_odp :: bool

type_synonym level2 = "nat \<Rightarrow> nat \<Rightarrow> odp_mr option"

record mlx5_implicit_lkey =
  il_table :: "(nat \<Rightarrow> level2 option) option"
  il_access :: "access_bit set"

record mlx5_pd =
  r_ilkey :: mlx5_implicit_lkey
  w_ilkey :: mlx5_implicit_lkey
  remote_ilkey :: "mlx5_implicit_lkey option"

text \<open>
  What the surroundings answer: whether \<open>calloc\<close> had memory for the first level and for a sub-table,
  the region \<open>ibv_exp_reg_mr\<close> made for an address, a length and access bits, and the result of
  \<open>ibv_exp_prefetch_mr\<close>.
\<close>

record ilkey_env =
  level1_mem :: bool
  level2_mem :: "nat \<Rightarrow> bool"
  exp_reg_mr :: "u64 \<Rightarrow> u64 \<Rightarrow> access_bit set \<Rightarrow> odp_mr option"
  exp_prefetch_mr :: "odp_mr \<Rightarrow> u64 \<Rightarrow> u64 \<Rightarrow> int"

section \<open>Choosing and making a table\<close>

text \<open>\<open>init\<close> is what \<open>pthread_mutex_init\<close> answers.\<close>

definition mlx5_init_implicit_lkey :: "int \<Rightarrow> access_bit set \<Rightarrow> int \<times> mlx5_implicit_lkey" where
  "mlx5_init_implicit_lkey init acc =
     (if IBV_EXP_ACCESS_ON_DEMAND \<notin> acc then - EINVAL else init, \<lparr>il_table = None, il_access = acc\<rparr>)"

datatype ilkey_ref = R_Ilkey | W_Ilkey | Remote_Ilkey

definition remote_access :: "access_bit set" where
  "remote_access = {IBV_EXP_ACCESS_LOCAL_WRITE, IBV_EXP_ACCESS_REMOTE_READ, IBV_EXP_ACCESS_REMOTE_WRITE,
     IBV_EXP_ACCESS_REMOTE_ATOMIC, IBV_EXP_ACCESS_ON_DEMAND}"

text \<open>The table for the access bits, \<open>None\<close> for \<open>NULL\<close>; \<open>got\<close> is whether \<open>malloc\<close> had memory.\<close>

definition mlx5_get_implicit_lkey ::
  "bool \<Rightarrow> int \<Rightarrow> mlx5_pd \<Rightarrow> access_bit set \<Rightarrow> ilkey_ref option \<times> mlx5_pd" where
  "mlx5_get_implicit_lkey got init pd acc =
     (if IBV_EXP_ACCESS_ON_DEMAND \<notin> acc then (None, pd)
      else if acc - {IBV_EXP_ACCESS_RELAXED} = {IBV_EXP_ACCESS_ON_DEMAND} then (Some R_Ilkey, pd)
      else if acc - {IBV_EXP_ACCESS_RELAXED} = {IBV_EXP_ACCESS_ON_DEMAND, IBV_EXP_ACCESS_LOCAL_WRITE}
      then (Some W_Ilkey, pd)
      else if IBV_EXP_ACCESS_RELAXED \<notin> acc then (None, pd)
      else case remote_ilkey pd of
          Some il \<Rightarrow> (Some Remote_Ilkey, pd)
        | None \<Rightarrow>
            if \<not> got then (None, pd)
            else case mlx5_init_implicit_lkey init remote_access of (errno, il) \<Rightarrow>
              if errno \<noteq> 0 then (None, pd) else (Some Remote_Ilkey, pd\<lparr>remote_ilkey := Some il\<rparr>))"

text \<open>The whole-address-space region: its key, \<open>None\<close> when the access bits are refused.\<close>

definition mlx5_alloc_whole_addr_mr :: "bool \<Rightarrow> u64 \<Rightarrow> u64 \<Rightarrow> access_bit set \<Rightarrow> odp_mr option" where
  "mlx5_alloc_whole_addr_mr got addr len acc =
     (if \<not> acc \<subseteq> {IBV_EXP_ACCESS_ON_DEMAND, IBV_EXP_ACCESS_LOCAL_WRITE} then None
      else if \<not> got then None
      else Some \<lparr>om_addr = addr, om_length = len,
        om_lkey = (if IBV_EXP_ACCESS_LOCAL_WRITE \<in> acc then ODP_GLOBAL_W_LKEY else ODP_GLOBAL_R_LKEY),
        om_relaxed = False, om_odp = False\<rparr>)"

section \<open>Finding a region\<close>

definition key1_of :: "u64 \<Rightarrow> nat" where
  "key1_of addr = unat (drop_bit LEVEL1_SHIFT addr AND MASK LEVEL1_SIZE)"

definition key2_of :: "u64 \<Rightarrow> nat" where
  "key2_of addr = unat (drop_bit LEVEL2_SHIFT addr AND MASK LEVEL2_SIZE)"

definition mr_idx_in_pair :: "u64 \<Rightarrow> u64 \<Rightarrow> nat" where
  "mr_idx_in_pair addr len =
     (if drop_bit MR_SIZE addr AND 1 \<noteq> drop_bit MR_SIZE (addr + len + 1) AND 1 then 1 else 0)"

definition mr_base_addr :: "u64 \<Rightarrow> u64 \<Rightarrow> u64" where
  "mr_base_addr addr len =
     (addr AND NOT (MASK MR_SIZE)) OR push_bit (MR_SIZE - 1) (of_nat (mr_idx_in_pair addr len))"

text \<open>The region in a slot, registered when the slot is empty.\<close>

definition slot_mr :: "ilkey_env \<Rightarrow> u64 \<Rightarrow> access_bit set \<Rightarrow> odp_mr option \<Rightarrow> odp_mr option" where
  "slot_mr env base acc slot = (case slot of
      Some mr \<Rightarrow> Some mr
    | None \<Rightarrow> map_option (\<lambda>mr. mr\<lparr>om_addr := base, om_length := 2 ^ MR_SIZE, om_relaxed := True, om_odp := True\<rparr>)
        (exp_reg_mr env base (2 ^ MR_SIZE) acc))"

definition level1_of :: "ilkey_env \<Rightarrow> mlx5_implicit_lkey \<Rightarrow> (nat \<Rightarrow> level2 option) option" where
  "level1_of env il = (case il_table il of
      Some t \<Rightarrow> Some t
    | None \<Rightarrow> if level1_mem env then Some (\<lambda>_. None) else None)"

definition level2_of :: "ilkey_env \<Rightarrow> (nat \<Rightarrow> level2 option) \<Rightarrow> nat \<Rightarrow> level2 option" where
  "level2_of env t k = (case t k of
      Some l \<Rightarrow> Some l
    | None \<Rightarrow> if level2_mem env k then Some (\<lambda>_ _. None) else None)"

text \<open>The final \<open>assert\<close> compares addresses, which are 64-bit words.\<close>

definition mlx5_get_real_mr_from_implicit_lkey ::
  "ilkey_env \<Rightarrow> mlx5_implicit_lkey \<Rightarrow> u64 \<Rightarrow> u64 \<Rightarrow> (int \<times> odp_mr option \<times> mlx5_implicit_lkey) res" where
  "mlx5_get_real_mr_from_implicit_lkey env il addr len =
     (let k1 = key1_of addr; k2 = key2_of addr; msb = drop_bit ADDR_EFFECTIVE_BITS addr;
          i = mr_idx_in_pair addr len; base = mr_base_addr addr len in
      if drop_bit MR_SIZE len \<noteq> 0 then Inr (EINVAL, None, il)
      else if msb \<noteq> 0 \<and> msb \<noteq> drop_bit ADDR_EFFECTIVE_BITS (NOT 0) then Inr (EINVAL, None, il)
      else case level1_of env il of
        None \<Rightarrow> Inr (ENOMEM, None, il)
      | Some t \<Rightarrow>
        case level2_of env t k1 of
          None \<Rightarrow> Inr (ENOMEM, None, il\<lparr>il_table := Some t\<rparr>)
        | Some l \<Rightarrow>
          case slot_mr env base (il_access il) (l k2 i) of
            None \<Rightarrow> Inr (ENOMEM, None, il\<lparr>il_table := Some (t(k1 \<mapsto> l))\<rparr>)
          | Some mr \<Rightarrow>
            if om_addr mr \<le> addr \<and> addr + len \<le> om_addr mr + om_length mr
            then Inr (0, Some mr, il\<lparr>il_table := Some (t(k1 \<mapsto> l(k2 := (l k2)(i \<mapsto> mr))))\<rparr>)
            else Inl (Die ''assert''))"

definition mlx5_get_real_lkey_from_implicit_lkey ::
  "ilkey_env \<Rightarrow> mlx5_implicit_lkey \<Rightarrow> u64 \<Rightarrow> u64 \<Rightarrow> (int \<times> u32 option \<times> mlx5_implicit_lkey) res" where
  "mlx5_get_real_lkey_from_implicit_lkey env il addr len =
     bindR (mlx5_get_real_mr_from_implicit_lkey env il addr len) (\<lambda>(r, mr, il).
       Inr (r, if r = 0 then map_option om_lkey mr else None, il))"

section \<open>Prefetching a range\<close>

definition PREFETCH_STRIDE_SIZE :: u64 where "PREFETCH_STRIDE_SIZE = MASK (MR_SIZE - 1)"

definition effective_length :: "u64 \<Rightarrow> u64 \<Rightarrow> u64" where
  "effective_length addr end_addr =
     min (1 + PREFETCH_STRIDE_SIZE - (addr AND PREFETCH_STRIDE_SIZE)) (end_addr - addr)"

lemma effective_length_bounds:
  assumes "addr < end_addr"
  shows "0 < effective_length addr end_addr" "effective_length addr end_addr \<le> end_addr - addr"
proof -
  have "unat (addr AND PREFETCH_STRIDE_SIZE) \<le> unat PREFETCH_STRIDE_SIZE"
    by (simp add: word_and_le1 flip: word_le_nat_alt)
  then have "addr AND PREFETCH_STRIDE_SIZE < 1 + PREFETCH_STRIDE_SIZE"
    by (simp add: word_less_nat_alt PREFETCH_STRIDE_SIZE_def MASK_def MR_SIZE_def)
  then have "0 < 1 + PREFETCH_STRIDE_SIZE - (addr AND PREFETCH_STRIDE_SIZE)"
    by (metis eq_iff_diff_eq_0 word_neq_0_conv less_irrefl)
  moreover have "0 < end_addr - addr" using assms by (metis eq_iff_diff_eq_0 word_neq_0_conv less_irrefl)
  ultimately show "0 < effective_length addr end_addr" by (simp add: effective_length_def)
  show "effective_length addr end_addr \<le> end_addr - addr" by (simp add: effective_length_def)
qed

text \<open>The loop; the trace lists the calls of \<open>ibv_exp_prefetch_mr\<close>, the first one first.\<close>

function prefetch_loop :: "ilkey_env \<Rightarrow> mlx5_implicit_lkey \<Rightarrow> u64 \<Rightarrow> u64 \<Rightarrow> (odp_mr \<times> u64 \<times> u64) list \<Rightarrow>
    (int \<times> (odp_mr \<times> u64 \<times> u64) list \<times> mlx5_implicit_lkey) res" where
  "prefetch_loop env il addr end_addr t =
     (if addr < end_addr
      then let n = effective_length addr end_addr in
           bindR (mlx5_get_real_mr_from_implicit_lkey env il addr n) (\<lambda>(r, mr, il).
             if r \<noteq> 0 then Inr (r, t, il)
             else bindR (of_option (Fault NullDeref) mr) (\<lambda>mr.
                  let r = exp_prefetch_mr env mr addr n in
                  if r \<noteq> 0 then Inr (r, t @ [(mr, addr, n)], il)
                  else prefetch_loop env il (addr + n) end_addr (t @ [(mr, addr, n)])))
      else Inr (0, t, il))"
  by pat_completeness auto
termination
proof (relation "measure (\<lambda>(env, il, addr, end_addr, t). unat (end_addr - addr))", goal_cases)
  case (2 env il addr end_addr t n)
  note b = effective_length_bounds [OF 2(1)]
  have "0 < unat n" "unat n \<le> unat (end_addr - addr)"
    using b by (simp_all add: 2(2) unat_gt_0 word_le_nat_alt)
  then have "unat ((end_addr - addr) - n) < unat (end_addr - addr)"
    by (simp add: unat_sub word_le_nat_alt)
  then show ?case by (simp add: diff_diff_eq)
qed simp

declare prefetch_loop.simps [simp del]

definition mlx5_prefetch_implicit_lkey :: "ilkey_env \<Rightarrow> mlx5_implicit_lkey \<Rightarrow> u64 \<Rightarrow> u64 \<Rightarrow>
    (int \<times> (odp_mr \<times> u64 \<times> u64) list \<times> mlx5_implicit_lkey) res" where
  "mlx5_prefetch_implicit_lkey env il addr len =
     (let end_addr = addr + len in
      if end_addr < addr then Inr (EINVAL, [], il) else prefetch_loop env il addr end_addr [])"

section \<open>Destroying a table\<close>

text \<open>The regions deregistered, in order, with the flag that made them relaxed cleared.\<close>

definition destroy_level2 :: "level2 \<Rightarrow> odp_mr list" where
  "destroy_level2 l = concat (map (\<lambda>k. concat (map (\<lambda>i. case l k i of
      None \<Rightarrow> [] | Some mr \<Rightarrow> [mr\<lparr>om_relaxed := False\<rparr>]) [0, 1])) [0..<2 ^ LEVEL2_SIZE])"

definition mlx5_destroy_implicit_lkey :: "mlx5_implicit_lkey \<Rightarrow> odp_mr list" where
  "mlx5_destroy_implicit_lkey il = (case il_table il of
      None \<Rightarrow> []
    | Some t \<Rightarrow> concat (map (\<lambda>k. case t k of None \<Rightarrow> [] | Some l \<Rightarrow> destroy_level2 l) [0..<2 ^ LEVEL1_SIZE]))"

end
