(* ===== verification/Qp.thy ===== *)
theory Qp
  imports Srq Implicit_Lkey
begin

text \<open>
  Receive queues and the scattering of inline completion data, from \<open>qp.c\<close> of the driver: the state of
  a work queue (\<open>struct mlx5_wq\<close>) and of a queue pair, posting receive requests, the burst variants,
  and the copy of data that came in a completion entry to the segments of a receive or send entry.
  Counters are 32-bit words; an index is a counter masked with the number of entries less one.
\<close>

section \<open>State\<close>

datatype wc_opcode = IBV_WC_SEND | IBV_WC_RDMA_WRITE | IBV_WC_RDMA_READ | IBV_WC_COMP_SWAP
  | IBV_WC_FETCH_ADD | IBV_WC_BIND_MW | IBV_WC_LOCAL_INV | IBV_EXP_WC_MASKED_COMP_SWAP
  | IBV_EXP_WC_MASKED_FETCH_ADD | IBV_EXP_WC_TSO | IBV_EXP_WC_UMR | IBV_WC_RECV
  | IBV_WC_RECV_RDMA_WITH_IMM | IBV_EXP_WC_RECV_NOP | IBV_EXP_WC_TM_RECV | IBV_EXP_WC_TM_ADD
  | IBV_EXP_WC_TM_DEL | IBV_EXP_WC_TM_SYNC | IBV_EXP_WC_TM_NO_TAG

text \<open>\<open>IBV_WC_POLL_ERR\<close> is the value -2 that \<open>handle_responder\<close> may store in the status field.\<close>

datatype wc_status = IBV_WC_SUCCESS | IBV_WC_LOC_LEN_ERR | IBV_WC_LOC_QP_OP_ERR | IBV_WC_LOC_PROT_ERR
  | IBV_WC_WR_FLUSH_ERR | IBV_WC_MW_BIND_ERR | IBV_WC_BAD_RESP_ERR | IBV_WC_LOC_ACCESS_ERR
  | IBV_WC_REM_INV_REQ_ERR | IBV_WC_REM_ACCESS_ERR | IBV_WC_REM_OP_ERR | IBV_WC_RETRY_EXC_ERR
  | IBV_WC_RNR_RETRY_EXC_ERR | IBV_WC_REM_ABORT_ERR | IBV_WC_GENERAL_ERR | IBV_WC_POLL_ERR

datatype qp_transport = IBV_QPT_RC | IBV_QPT_UC | IBV_QPT_UD | IBV_QPT_RAW_ETH | IBV_QPT_XRC
  | IBV_QPT_XRC_SEND | IBV_QPT_XRC_RECV | IBV_EXP_QPT_DC_INI

record mlx5_wq =
  wq_wrid :: "u64 list"
  wq_wqe_cnt :: u32
  wq_head :: u32
  wq_tail :: u32
  wq_max_post :: u32
  wq_max_gs :: int
  wq_buff :: nat
  wq_wqe_shift :: nat
  wq_db :: nat
  wq_wr_data :: "wc_opcode list"

text \<open>
  The fields of a queue pair that the modelled code uses. \<open>q_below_rtr\<close> is \<open>state < IBV_QPS_RTR\<close>; the
  last two are the context's \<open>info.masked_log_atomic_arg_sizes_network_endianness\<close> and
  \<open>info.exp_atomic_cap == IBV_EXP_ATOMIC_HCA\<close>. \<open>q_srq\<close> is the address of the shared receive queue, or 0.
\<close>

record mlx5_qp =
  q_rsn :: u32
  q_num :: u32
  q_type :: qp_transport
  q_srq :: nat
  q_rq :: mlx5_wq
  q_sq :: mlx5_wq
  q_wqe_head :: "u32 list"
  q_sqstart :: nat
  q_sqend :: nat
  q_scur_post :: u32
  q_ignore_rq_overflow :: bool
  q_wq_sig :: bool
  q_underlay :: bool
  q_below_rtr :: bool
  q_rx_csum :: bool
  q_masked_endianness :: u64
  q_atomic_hca :: bool

definition get_recv_wqe :: "mlx5_wq \<Rightarrow> u32 \<Rightarrow> nat" where
  "get_recv_wqe rq n = wq_buff rq + push_bit (wq_wqe_shift rq) (unat n)"

definition mlx5_get_send_wqe :: "mlx5_qp \<Rightarrow> u32 \<Rightarrow> nat" where
  "mlx5_get_send_wqe qp n = q_sqstart qp + push_bit 6 (unat n)"

text \<open>The counters that a reset queue starts from.\<close>

definition mlx5_init_qp_indices :: "mlx5_qp \<Rightarrow> mlx5_qp" where
  "mlx5_init_qp_indices qp = qp\<lparr>q_sq := (q_sq qp)\<lparr>wq_head := 0, wq_tail := 0\<rparr>,
     q_rq := (q_rq qp)\<lparr>wq_head := 0, wq_tail := 0\<rparr>, q_scur_post := 0\<rparr>"

section \<open>Scattering inline data\<close>

text \<open>The bytes of an integer of 8, 4 or 2 bytes, turned to the host's order; others stay.\<close>

definition host_order :: "u8 list \<Rightarrow> u8 list" where
  "host_order bs = (if length bs = 8 \<or> length bs = 4 \<or> length bs = 2 then rev bs else bs)"

text \<open>
  The loop of \<open>copy_to_scat\<close> from segment \<open>i\<close> on: the status, what is left of \<open>*size\<close>, the memory.
  \<open>buf2cpy\<close> and \<open>buf\<close> are the code's two pointers: without conversion \<open>buf2cpy\<close> keeps its first value.
\<close>

function scat_loop :: "bool \<Rightarrow> nat \<Rightarrow> nat \<Rightarrow> nat \<Rightarrow> int \<Rightarrow> int \<Rightarrow> int \<Rightarrow> memory \<Rightarrow> (wc_status \<times> int \<times> memory) res" where
  "scat_loop conv buf2cpy scat buf left i mx m =
     (if i < mx
      then bindR (load32 scat m) (\<lambda>bc.
           bindR (load64 (scat + 8) m) (\<lambda>addr.
             let copy = (if of_int left < ntohl bc then left else sint (ntohl bc)) in
             bindR (if conv
                    then if copy < 0 then Inl (Fault BadAddress)
                         else bindR (load_bytes buf (nat copy) m) (\<lambda>bs. store_bytes (unat (htonll addr)) (host_order bs) m)
                    else memcpy (unat (htonll addr)) buf2cpy copy m) (\<lambda>m.
               if left - copy = 0 then Inr (IBV_WC_SUCCESS, 0, m)
               else scat_loop conv buf2cpy (scat + 16) (nat (int buf + copy)) (left - copy) (i + 1) mx m)))
      else Inr (IBV_WC_LOC_LEN_ERR, left, m))"
  by pat_completeness auto
termination
  by (relation "measure (\<lambda>(conv, b, scat, buf, left, i, mx, m). nat (mx - i))") auto

declare scat_loop.simps [simp del]

definition copy_to_scat :: "bool \<Rightarrow> nat \<Rightarrow> nat \<Rightarrow> int \<Rightarrow> int \<Rightarrow> memory \<Rightarrow> (wc_status \<times> int \<times> memory) res" where
  "copy_to_scat conv scat buf sz mx m =
     (if sz = 0 then Inr (IBV_WC_SUCCESS, sz, m) else scat_loop conv buf scat buf sz 0 mx m)"

definition mlx5_copy_to_recv_wqe :: "mlx5_qp \<Rightarrow> u32 \<Rightarrow> nat \<Rightarrow> int \<Rightarrow> memory \<Rightarrow> (wc_status \<times> memory) res" where
  "mlx5_copy_to_recv_wqe qp idx buf sz m =
     (let scat = get_recv_wqe (q_rq qp) idx + (if q_wq_sig qp then 16 else 0) in
      bindR (copy_to_scat False scat buf sz (2 ^ (wq_wqe_shift (q_rq qp) - 4)) m) (\<lambda>(st, _, m). Inr (st, m)))"

text \<open>
  Where the segments of a send entry begin that take inline data, and whether the data are integers
  the host reads in its own order; the error for an operation that returns no data. \<open>p\<close> is the
  address behind the control segment (and the datagram segment of a DC queue pair).
\<close>

definition response_segs :: "mlx5_qp \<Rightarrow> u32 \<Rightarrow> int \<Rightarrow> nat \<Rightarrow> (nat \<times> bool) option" where
  "response_segs qp opmod_idx_opcode sz p =
     (let op = opmod_idx_opcode AND 0xff in
      if op = 0x10 then Some (p + 16, False)
      else if op = 0x14 \<or> op = 0x15 then
        let lg = unat (drop_bit 24 opmod_idx_opcode AND 7); arg = 2 ^ (lg + 2);
            skip = (if lg < 7
                    then if op = 0x15 then (2 * arg + 15) div 16 * 16 else 4 * arg
                    else 16) in
        Some (p + 16 + skip, q_masked_endianness qp AND of_int sz = 0)
      else if op = 0x11 \<or> op = 0x12 then Some (p + 16 + 16, q_atomic_hca qp)
      else None)"

text \<open>
  \<open>mlx5_copy_to_send_wqe\<close>: the segments may run over the end of the send queue; \<open>mx\<close> counts those the
  entry has. The value \<open>(void *) dc_seg->av.base.dqp_dct\<close> is at offset 8 of the datagram segment.
\<close>

definition mlx5_copy_to_send_wqe :: "mlx5_qp \<Rightarrow> u16 \<Rightarrow> nat \<Rightarrow> int \<Rightarrow> memory \<Rightarrow> (wc_status \<times> memory) res" where
  "mlx5_copy_to_send_wqe qp idx buf sz m =
     (let ctrl = mlx5_get_send_wqe qp (ucast idx AND (wq_wqe_cnt (q_sq qp) - 1)) in
      if q_type qp \<noteq> IBV_QPT_RC \<and> q_type qp \<noteq> IBV_EXP_QPT_DC_INI then Inr (IBV_WC_GENERAL_ERR, m)
      else bindR (if q_type qp = IBV_EXP_QPT_DC_INI
                  then bindR (load32 (ctrl + 16 + 8) m) (\<lambda>x.
                       Inr (ctrl + 16 + (if x AND ntohl 0x80000000 \<noteq> 0 then 48 else 16)))
                  else Inr (ctrl + 16)) (\<lambda>p.
           bindR (load32 ctrl m) (\<lambda>w.
             case response_segs qp (ntohl w) sz p of
               None \<Rightarrow> Inr (IBV_WC_REM_INV_REQ_ERR, m)
             | Some (scat, conv) \<Rightarrow>
                 bindR (load32 (ctrl + 4) m) (\<lambda>ds.
                   let mx = sint (ntohl ds AND 0x3F) - int ((scat - ctrl) div 16); qend = q_sqend qp in
                   if int qend < int scat + 16 * mx then
                     if scat < qend then
                       let tmp = (qend - scat) div 16 in
                       bindR (copy_to_scat conv scat buf sz (int tmp) m) (\<lambda>(st, left, m).
                         if st = IBV_WC_SUCCESS then Inr (IBV_WC_SUCCESS, m)
                         else bindR (copy_to_scat conv (mlx5_get_send_wqe qp 0) (nat (int buf + (sz - left))) left
                                       (mx - int tmp) m) (\<lambda>(st, _, m). Inr (st, m)))
                     else bindR (copy_to_scat conv (mlx5_get_send_wqe qp 0 + (scat - qend)) buf sz mx m)
                            (\<lambda>(st, _, m). Inr (st, m))
                   else bindR (copy_to_scat conv scat buf sz mx m) (\<lambda>(st, _, m). Inr (st, m))))))"

section \<open>Posting receive requests\<close>

definition mlx5_wq_overflow :: "mlx5_wq \<Rightarrow> nat \<Rightarrow> bool" where
  "mlx5_wq_overflow wq nreq \<longleftrightarrow> \<not> wq_head wq - wq_tail wq + of_nat nreq < wq_max_post wq"

text \<open>\<open>set_data_ptr_seg\<close>: a key for the whole address space is replaced by that of a region.\<close>

definition set_odp_data_ptr_seg :: "ilkey_env \<Rightarrow> nat \<Rightarrow> ibv_sge \<Rightarrow> mlx5_pd \<Rightarrow> memory \<Rightarrow>
    (int \<times> mlx5_pd \<times> memory) res" where
  "set_odp_data_ptr_seg env dseg sg pd m =
     (let r = (sg_lkey sg = ODP_GLOBAL_R_LKEY); il = (if r then r_ilkey pd else w_ilkey pd) in
      bindR (mlx5_get_real_lkey_from_implicit_lkey env il (sg_addr sg) (ucast (sg_length sg))) (\<lambda>(err, lkey, il).
        let pd = (if r then pd\<lparr>r_ilkey := il\<rparr> else pd\<lparr>w_ilkey := il\<rparr>) in
        if err \<noteq> 0 then Inr (ENOMEM, pd, m)
        else bindR (of_option (Fault NullDeref) lkey) (\<lambda>lkey.
             bindR (set_scat dseg (htonl (sg_length sg)) (htonl lkey) (htonll (sg_addr sg)) m) (\<lambda>m.
               Inr (0, pd, m)))))"

definition mlx5_set_data_ptr_seg :: "ilkey_env \<Rightarrow> nat \<Rightarrow> ibv_sge \<Rightarrow> mlx5_pd \<Rightarrow> int \<Rightarrow> memory \<Rightarrow>
    (int \<times> mlx5_pd \<times> memory) res" where
  "mlx5_set_data_ptr_seg env dseg sg pd offset m =
     (if sg_lkey sg = ODP_GLOBAL_R_LKEY \<or> sg_lkey sg = ODP_GLOBAL_W_LKEY
      then set_odp_data_ptr_seg env dseg sg pd m
      else bindR (set_scat dseg (htonl (sg_length sg - of_int offset)) (htonl (sg_lkey sg))
                   (htonll (sg_addr sg + of_int offset)) m) (\<lambda>m. Inr (0, pd, m)))"

definition set_data_ptr_seg_end :: "nat \<Rightarrow> memory \<Rightarrow> memory res" where
  "set_data_ptr_seg_end dseg m = set_scat dseg 0 (htonl MLX5_INVALID_LKEY) 0 m"

text \<open>The inner loop from scatter entry \<open>i\<close> on: the error (0 or -1), the segments written, the rest.\<close>

function recv_segs :: "ilkey_env \<Rightarrow> recv_wr \<Rightarrow> nat \<Rightarrow> int \<Rightarrow> nat \<Rightarrow> mlx5_pd \<Rightarrow> memory \<Rightarrow>
    (int \<times> nat \<times> mlx5_pd \<times> memory) res" where
  "recv_segs env wr scat i j pd m =
     (if i < rnum_sge wr
      then bindR (sge_at (rsg_list wr) i) (\<lambda>sg.
             if sg_length sg = 0 then recv_segs env wr scat (i + 1) j pd m
             else bindR (mlx5_set_data_ptr_seg env (scat + 16 * j) sg pd 0 m) (\<lambda>(err, pd, m).
                    if err \<noteq> 0 then Inr (-1, Suc j, pd, m)
                    else recv_segs env wr scat (i + 1) (Suc j) pd m))
      else Inr (0, j, pd, m))"
  by pat_completeness auto
termination
  by (relation "measure (\<lambda>(env, wr, scat, i, j, pd, m). nat (rnum_sge wr - i))") auto

declare recv_segs.simps [simp del]

text \<open>\<open>set_sig_seg\<close> of \<open>qp.c\<close>: over the \<open>sz\<close> bytes behind the signature segment.\<close>

definition set_rwqe_sig :: "mlx5_qp \<Rightarrow> nat \<Rightarrow> int \<Rightarrow> u16 \<Rightarrow> memory \<Rightarrow> memory res" where
  "set_rwqe_sig qp sig sz idx m =
     bindR (load_bytes (sig + 16) (nat sz) m) (\<lambda>bs.
       let sign = calc_xor bs XOR calc_xor (le32 (q_num qp)) XOR calc_xor (le16 idx) in
       store8 (sig + 4) (NOT sign) m)"

text \<open>The entry of one request at index \<open>ind\<close>, once it has passed the two checks.\<close>

definition recv_entry :: "ilkey_env \<Rightarrow> mlx5_qp \<Rightarrow> recv_wr \<Rightarrow> u32 \<Rightarrow> nat \<Rightarrow> mlx5_pd \<Rightarrow> memory \<Rightarrow>
    (int \<times> mlx5_pd \<times> memory) res" where
  "recv_entry env qp wr ind nreq pd m =
     (let rq = q_rq qp; sig = get_recv_wqe rq ind; scat = sig + (if q_wq_sig qp then 16 else 0) in
      bindR (recv_segs env wr scat 0 0 pd m) (\<lambda>(err, j, pd, m).
        if err \<noteq> 0 then Inr (err, pd, m)
        else bindR (if int j < wq_max_gs rq then set_data_ptr_seg_end (scat + 16 * j) m else Inr m) (\<lambda>m.
             bindR (if q_wq_sig qp
                    then set_rwqe_sig qp sig (min (rnum_sge wr) (2 ^ (wq_wqe_shift rq - 4) - 1) * 16)
                           (ucast (wq_head rq + of_nat nreq)) m
                    else Inr m) (\<lambda>m. Inr (0, pd, m)))))"

text \<open>The loop: the error, the requests not posted, their number, the state. The queue's head is
  moved after it.\<close>

fun post_recv_loop :: "ilkey_env \<Rightarrow> recv_wr list \<Rightarrow> nat \<Rightarrow> u32 \<Rightarrow> mlx5_qp \<Rightarrow> mlx5_pd \<Rightarrow> memory \<Rightarrow>
    (int \<times> recv_wr list \<times> nat \<times> mlx5_qp \<times> mlx5_pd \<times> memory) res" where
  "post_recv_loop env [] nreq ind qp pd m = Inr (0, [], nreq, qp, pd, m)"
| "post_recv_loop env (wr # wrs) nreq ind qp pd m =
     (if \<not> q_ignore_rq_overflow qp \<and> mlx5_wq_overflow (q_rq qp) nreq
      then Inr (ENOMEM, wr # wrs, nreq, qp, pd, m)
      else if wq_max_gs (q_rq qp) < rnum_sge wr then Inr (EINVAL, wr # wrs, nreq, qp, pd, m)
      else bindR (recv_entry env qp wr ind nreq pd m) (\<lambda>(err, pd, m).
             if err \<noteq> 0 then Inr (err, wr # wrs, nreq, qp, pd, m)
             else bindR (write_at (wq_wrid (q_rq qp)) (unat ind) (rwr_id wr)) (\<lambda>ids.
                    post_recv_loop env wrs (Suc nreq) ((ind + 1) AND (wq_wqe_cnt (q_rq qp) - 1))
                      (qp\<lparr>q_rq := (q_rq qp)\<lparr>wq_wrid := ids\<rparr>\<rparr>) pd m)))"

definition mlx5_post_recv :: "ilkey_env \<Rightarrow> recv_wr list \<Rightarrow> mlx5_qp \<Rightarrow> mlx5_pd \<Rightarrow> memory \<Rightarrow>
    (int \<times> recv_wr list \<times> mlx5_qp \<times> mlx5_pd \<times> memory) res" where
  "mlx5_post_recv env wrs qp pd m =
     bindR (post_recv_loop env wrs 0 (wq_head (q_rq qp) AND (wq_wqe_cnt (q_rq qp) - 1)) qp pd m)
       (\<lambda>(err, bad_wr, nreq, qp, pd, m).
         if nreq = 0 then Inr (err, bad_wr, qp, pd, m)
         else let rq = (q_rq qp)\<lparr>wq_head := wq_head (q_rq qp) + of_nat nreq\<rparr>; qp = qp\<lparr>q_rq := rq\<rparr> in
              if (q_type qp = IBV_QPT_RAW_ETH \<or> q_underlay qp) \<and> q_below_rtr qp
              then Inr (err, bad_wr, qp, pd, m)
              else bindR (store32 (wq_db rq) (htonl (wq_head rq AND 0xffff)) m) (\<lambda>m.
                     Inr (err, bad_wr, qp, pd, m)))"

section \<open>The burst variants\<close>

text \<open>\<open>recv_sg_list\<close>: one entry from a scatter list, without checks and without an identifier.\<close>

fun burst_segs :: "ibv_sge list \<Rightarrow> nat \<Rightarrow> nat \<Rightarrow> memory \<Rightarrow> (nat \<times> nat \<times> memory) res" where
  "burst_segs [] scat j m = Inr (scat, j, m)"
| "burst_segs (sg # sgs) scat j m =
     (if sg_length sg = 0 then burst_segs sgs scat j m
      else bindR (set_scat scat (htonl (sg_length sg)) (htonl (sg_lkey sg)) (htonll (sg_addr sg)) m)
             (burst_segs sgs (scat + 16) (Suc j)))"

definition recv_sg_list :: "mlx5_wq \<Rightarrow> ibv_sge list \<Rightarrow> memory \<Rightarrow> (mlx5_wq \<times> memory) res" where
  "recv_sg_list rq sgs m =
     bindR (burst_segs sgs (get_recv_wqe rq (wq_head rq AND (wq_wqe_cnt rq - 1))) 0 m) (\<lambda>(scat, j, m).
     bindR (if int j < wq_max_gs rq then set_data_ptr_seg_end scat m else Inr m) (\<lambda>m.
       let rq = rq\<lparr>wq_head := wq_head rq + 1\<rparr> in
       bindR (store32 (wq_db rq) (htonl (wq_head rq AND 0xffff)) m) (\<lambda>m. Inr (rq, m))))"

text \<open>\<open>recv_burst\<close>: an entry for each scatter entry.\<close>

fun burst_loop :: "mlx5_wq \<Rightarrow> bool \<Rightarrow> bool \<Rightarrow> ibv_sge list \<Rightarrow> u32 \<Rightarrow> memory \<Rightarrow> memory res" where
  "burst_loop rq one_sge mp_rq [] ind m = Inr m"
| "burst_loop rq one_sge mp_rq (sg # sgs) ind m =
     (let wqe = get_recv_wqe rq ind; scat = wqe + (if mp_rq then 16 else 0) in
      bindR (if mp_rq then store_bytes wqe (replicate 16 0) m else Inr m) (\<lambda>m.
      bindR (set_scat scat (htonl (sg_length sg)) (htonl (sg_lkey sg)) (htonll (sg_addr sg)) m) (\<lambda>m.
      bindR (if one_sge then Inr m else set_data_ptr_seg_end (scat + 16) m)
        (burst_loop rq one_sge mp_rq sgs ((ind + 1) AND (wq_wqe_cnt rq - 1))))))"

definition recv_burst :: "mlx5_wq \<Rightarrow> bool \<Rightarrow> bool \<Rightarrow> ibv_sge list \<Rightarrow> memory \<Rightarrow> (mlx5_wq \<times> memory) res" where
  "recv_burst rq one_sge mp_rq sgs m =
     bindR (burst_loop rq one_sge mp_rq sgs (wq_head rq AND (wq_wqe_cnt rq - 1)) m) (\<lambda>m.
       let rq = rq\<lparr>wq_head := wq_head rq + of_nat (length sgs)\<rparr> in
       bindR (store32 (wq_db rq) (htonl (wq_head rq AND 0xffff)) m) (\<lambda>m. Inr (rq, m)))"

end
