(* ===== verification/Qp_Correct.thy ===== *)
theory Qp_Correct
  imports Qp Srq_Correct
begin

text \<open>
  A receive queue is a queue of identifiers: those posted and not yet completed, from \<open>tail\<close> to \<open>head\<close>.
  Posting appends the identifiers of the requests it admits and writes an entry for each; nothing
  outside those entries and the doorbell record changes.
\<close>

section \<open>The ring of entries\<close>

definition rq_len :: "mlx5_wq \<Rightarrow> nat" where
  "rq_len rq = unat (wq_wqe_cnt rq)"

definition rq_at :: "mlx5_wq \<Rightarrow> nat \<Rightarrow> nat" where
  "rq_at rq j = wq_buff rq + j * 2 ^ wq_wqe_shift rq"

definition sig_room :: "mlx5_qp \<Rightarrow> nat" where
  "sig_room qp = (if q_wq_sig qp then 16 else 0)"

definition rq_geom :: "mlx5_qp \<Rightarrow> memory \<Rightarrow> bool" where
  "rq_geom qp m \<longleftrightarrow> (let rq = q_rq qp; n = rq_len rq; b = wq_buff rq; sz = 2 ^ wq_wqe_shift rq in
     (\<exists>k < 32. n = 2 ^ k) \<and> length (wq_wrid rq) = n \<and> 0 \<le> wq_max_gs rq \<and>
     sig_room qp + 16 * nat (wq_max_gs rq) \<le> sz \<and> unat (wq_max_post rq) \<le> n \<and>
     mapped m b (n * sz) \<and> mapped m (wq_db rq) 4 \<and> (wq_db rq + 4 \<le> b \<or> b + n * sz \<le> wq_db rq))"

text \<open>How many requests are outstanding, and their identifiers, the oldest first.\<close>

definition outstanding :: "mlx5_wq \<Rightarrow> nat" where
  "outstanding rq = unat (wq_head rq - wq_tail rq)"

definition ids_from :: "mlx5_wq \<Rightarrow> nat \<Rightarrow> nat \<Rightarrow> u64 list" where
  "ids_from rq t n = map (\<lambda>i. wq_wrid rq ! ((t + i) mod rq_len rq)) [0..<n]"

definition pending :: "mlx5_wq \<Rightarrow> u64 list" where
  "pending rq = ids_from rq (unat (wq_tail rq)) (outstanding rq)"

definition rq_ok :: "mlx5_qp \<Rightarrow> memory \<Rightarrow> bool" where
  "rq_ok qp m \<longleftrightarrow> rq_geom qp m \<and> outstanding (q_rq qp) \<le> unat (wq_max_post (q_rq qp))"

lemma rq_geomD:
  assumes "rq_geom qp m"
  shows "0 < rq_len (q_rq qp)" "rq_len (q_rq qp) \<le> 2147483648" "length (wq_wrid (q_rq qp)) = rq_len (q_rq qp)"
    "rq_len (q_rq qp) dvd 2 ^ 32" "unat (wq_max_post (q_rq qp)) \<le> rq_len (q_rq qp)"
proof -
  obtain k where k: "k < 32" "rq_len (q_rq qp) = 2 ^ k" using assms by (auto simp: rq_geom_def Let_def)
  then have "(2::nat) ^ k \<le> 2 ^ 31" by (intro power_increasing) auto
  then show "rq_len (q_rq qp) \<le> 2147483648" using k by simp
  show "rq_len (q_rq qp) dvd 2 ^ 32" unfolding k(2) using k(1) by (intro le_imp_power_dvd) simp
  show "0 < rq_len (q_rq qp)" using k by simp
  show "length (wq_wrid (q_rq qp)) = rq_len (q_rq qp)" "unat (wq_max_post (q_rq qp)) \<le> rq_len (q_rq qp)"
    using assms by (auto simp: rq_geom_def Let_def)
qed

lemma rq_index:
  assumes "rq_geom qp m"
  shows "unat ((c + of_nat i) AND (wq_wqe_cnt (q_rq qp) - 1)) = (unat c + i) mod rq_len (q_rq qp)"
proof -
  obtain k where "unat (wq_wqe_cnt (q_rq qp)) = 2 ^ k" using assms by (auto simp: rq_geom_def Let_def rq_len_def)
  from unat_and_pow2 [OF this, of "c + of_nat i"]
  have "unat ((c + of_nat i) AND (wq_wqe_cnt (q_rq qp) - 1)) = unat (c + of_nat i) mod rq_len (q_rq qp)"
    by (simp add: rq_len_def)
  also have "unat (c + of_nat i) = (unat c + i) mod 2 ^ 32"
    by (simp add: unat_word_ariths unat_of_nat mod_add_right_eq)
  finally show ?thesis using rq_geomD(4) [OF assms] by (simp add: mod_mod_cancel)
qed

lemma get_recv_at: "get_recv_wqe rq n = rq_at rq (unat n)"
  by (simp add: get_recv_wqe_def rq_at_def push_bit_eq_mult)

lemma rq_at_less: "i < j \<Longrightarrow> rq_at rq i + 2 ^ wq_wqe_shift rq \<le> rq_at rq j"
proof -
  assume "i < j"
  then have "Suc i * 2 ^ wq_wqe_shift rq \<le> j * 2 ^ wq_wqe_shift rq" by (intro mult_le_mono1) simp
  then show ?thesis by (simp add: rq_at_def)
qed

lemma rq_at_end: "j < rq_len rq \<Longrightarrow> rq_at rq j + 2 ^ wq_wqe_shift rq \<le> wq_buff rq + rq_len rq * 2 ^ wq_wqe_shift rq"
  using rq_at_less [of j "rq_len rq" rq] by (simp add: rq_at_def)

lemma rq_part_mapped:
  assumes "rq_geom qp m" "j < rq_len (q_rq qp)" "rq_at (q_rq qp) j \<le> a"
    "a + n \<le> rq_at (q_rq qp) j + 2 ^ wq_wqe_shift (q_rq qp)"
  shows "mapped m a n"
proof (rule mapped_sub)
  show "mapped m (wq_buff (q_rq qp)) (rq_len (q_rq qp) * 2 ^ wq_wqe_shift (q_rq qp))"
    using assms(1) by (simp add: rq_geom_def Let_def)
  show "wq_buff (q_rq qp) \<le> a" using assms(3) by (simp add: rq_at_def)
  show "a + n \<le> wq_buff (q_rq qp) + rq_len (q_rq qp) * 2 ^ wq_wqe_shift (q_rq qp)"
    using assms(4) rq_at_end [OF assms(2)] by linarith
qed

lemma rq_geom_upd [simp]: "rq_geom qp m \<Longrightarrow> rq_geom qp (upd_bytes a bs m)"
  by (auto simp: rq_geom_def Let_def)

text \<open>Two memories that differ inside the entries of \<open>js\<close> only.\<close>

definition entries_only :: "mlx5_wq \<Rightarrow> nat set \<Rightarrow> memory \<Rightarrow> memory \<Rightarrow> bool" where
  "entries_only rq js m m' \<longleftrightarrow>
     (\<forall>x. (\<forall>j \<in> js. x < rq_at rq j \<or> rq_at rq j + 2 ^ wq_wqe_shift rq \<le> x) \<longrightarrow> m' x = m x)"

lemma entries_only_refl [simp]: "entries_only rq js m m"
  by (simp add: entries_only_def)

lemma entries_only_trans:
  "entries_only rq js m m1 \<Longrightarrow> entries_only rq ks m1 m2 \<Longrightarrow> entries_only rq (js \<union> ks) m m2"
  unfolding entries_only_def by (metis UnCI)

lemma entries_only_upd:
  assumes "rq_at rq j \<le> a" "a + length bs \<le> rq_at rq j + 2 ^ wq_wqe_shift rq"
  shows "entries_only rq {j} m (upd_bytes a bs m)"
  using assms by (auto simp: entries_only_def upd_bytes_outside)

lemma entries_only_bytes:
  assumes "entries_only rq js m m'" "j \<notin> js" "rq_at rq j \<le> a" "a + n \<le> rq_at rq j + 2 ^ wq_wqe_shift rq"
  shows "bytes_at m' a n = bytes_at m a n"
proof (rule bytes_at_cong)
  fix x
  assume x: "a \<le> x" "x < a + n"
  have "x < rq_at rq i \<or> rq_at rq i + 2 ^ wq_wqe_shift rq \<le> x" if "i \<in> js" for i
    using that assms x rq_at_less [of i j rq] rq_at_less [of j i rq] by (cases i j rule: linorder_cases) auto
  then show "m' x = m x" using assms(1) by (simp add: entries_only_def)
qed

lemma entries_only_geom:
  assumes "rq_geom qp m" "m' = upd_bytes a bs m"
  shows "rq_geom qp m'"
  using assms by simp

section \<open>One entry\<close>

text \<open>The scatter entries that are not empty; the requests of this theory name regions directly.\<close>

definition full_sges :: "recv_wr \<Rightarrow> ibv_sge list" where
  "full_sges wr = filter (\<lambda>sg. sg_length sg \<noteq> 0) (wr_sges wr)"

definition plain_recv :: "recv_wr \<Rightarrow> bool" where
  "plain_recv wr \<longleftrightarrow> recv_ok wr \<and>
     list_all (\<lambda>sg. sg_lkey sg \<noteq> ODP_GLOBAL_R_LKEY \<and> sg_lkey sg \<noteq> ODP_GLOBAL_W_LKEY) (wr_sges wr)"

definition rq_entry_bytes :: "int \<Rightarrow> recv_wr \<Rightarrow> u8 list" where
  "rq_entry_bytes gs wr = concat (map data_bytes (full_sges wr)) @
     (if int (length (full_sges wr)) < gs then end_bytes else [])"

lemma length_full_sges: "recv_ok wr \<Longrightarrow> int (length (full_sges wr)) \<le> rnum_sge wr"
  unfolding full_sges_def recv_ok_def by (metis length_filter_le of_nat_le_iff)

lemma length_rq_entry: "recv_ok wr \<Longrightarrow> rnum_sge wr \<le> gs \<Longrightarrow> length (rq_entry_bytes gs wr) \<le> 16 * nat gs"
  using length_full_sges [of wr] by (auto simp: rq_entry_bytes_def length_data_list end_bytes_def)

lemma recv_segs_bytes:
  assumes "plain_recv wr" "0 \<le> i" "i \<le> rnum_sge wr"
  shows "recv_segs env wr scat i j pd m =
    (let sgs = filter (\<lambda>sg. sg_length sg \<noteq> 0) (drop (nat i) (wr_sges wr)) in
     bindR (store_bytes (scat + 16 * j) (concat (map data_bytes sgs)) m) (\<lambda>m. Inr (0, j + length sgs, pd, m)))"
  using assms
proof (induction "nat (rnum_sge wr - i)" arbitrary: i j m rule: less_induct)
  case less
  have ok: "recv_ok wr" using less.prems(1) by (simp add: plain_recv_def)
  show ?case
  proof (cases "i < rnum_sge wr")
    case False
    then have "drop (nat i) (wr_sges wr) = []" using less.prems ok by (auto simp: recv_ok_def)
    then show ?thesis using False by (subst recv_segs.simps) simp
  next
    case True
    let ?sg = "wr_sges wr ! nat i" and ?rest = "filter (\<lambda>sg. sg_length sg \<noteq> 0) (drop (Suc (nat i)) (wr_sges wr))"
    have sg: "sge_at (rsg_list wr) i = Inr ?sg" by (rule wr_sge_at [OF ok less.prems(2) True])
    have n: "nat i < length (wr_sges wr)" using True less.prems(2) ok by (auto simp: recv_ok_def)
    then have keys: "sg_lkey ?sg \<noteq> ODP_GLOBAL_R_LKEY \<and> sg_lkey ?sg \<noteq> ODP_GLOBAL_W_LKEY"
      using less.prems(1) by (simp add: plain_recv_def list_all_length)
    have s: "nat (i + 1) = Suc (nat i)" using less.prems(2) by simp
    have rest: "recv_segs env wr scat (i + 1) j' pd m' =
        bindR (store_bytes (scat + 16 * j') (concat (map data_bytes ?rest)) m') (\<lambda>m. Inr (0, j' + length ?rest, pd, m))" for j' m'
      using less.hyps [of "i + 1" j' m'] less.prems True s by (simp add: Let_def)
    show ?thesis
    proof (cases "sg_length ?sg = 0")
      case empty: True
      then have "recv_segs env wr scat i j pd m = recv_segs env wr scat (i + 1) j pd m"
        using True sg by (subst recv_segs.simps) simp
      then show ?thesis using rest empty Cons_nth_drop_Suc [OF n, symmetric] by (simp add: Let_def)
    next
      case False
      have "recv_segs env wr scat i j pd m =
          bindR (store_bytes (scat + 16 * j) (data_bytes ?sg) m) (recv_segs env wr scat (i + 1) (Suc j) pd)"
        using True sg False keys
        by (subst recv_segs.simps) (simp add: mlx5_set_data_ptr_seg_def set_scat_sge bindR_assoc)
      also have "\<dots> = bindR (store_bytes (scat + 16 * j) (data_bytes ?sg) m)
          (\<lambda>m. bindR (store_bytes (scat + 16 * Suc j) (concat (map data_bytes ?rest)) m)
             (\<lambda>m. Inr (0, Suc j + length ?rest, pd, m)))"
        by (simp only: rest [abs_def])
      also have "\<dots> = bindR (store_bytes (scat + 16 * j) (data_bytes ?sg @ concat (map data_bytes ?rest)) m)
          (\<lambda>m. Inr (0, Suc j + length ?rest, pd, m))"
        by (rule store_bytes_seq) simp
      finally show ?thesis using False Cons_nth_drop_Suc [OF n, symmetric] by (simp add: Let_def)
    qed
  qed
qed

text \<open>The signature of an entry: the XOR of what it covers, the queue's number and the counter.\<close>

definition rwqe_signed :: "mlx5_qp \<Rightarrow> nat \<Rightarrow> nat \<Rightarrow> u16 \<Rightarrow> memory \<Rightarrow> bool" where
  "rwqe_signed qp sig sz idx m \<longleftrightarrow>
     calc_xor (bytes_at m (sig + 16) sz) XOR calc_xor (le32 (q_num qp)) XOR calc_xor (le16 idx) XOR
       hd (bytes_at m (sig + 4) 1) = NOT 0"

definition rq_sig_size :: "mlx5_qp \<Rightarrow> recv_wr \<Rightarrow> nat" where
  "rq_sig_size qp wr = nat (min (rnum_sge wr) (2 ^ (wq_wqe_shift (q_rq qp) - 4) - 1) * 16)"

text \<open>What the entry \<open>j\<close> holds for a request whose number is \<open>n\<close>.\<close>

definition holds :: "mlx5_qp \<Rightarrow> memory \<Rightarrow> nat \<Rightarrow> u32 \<Rightarrow> recv_wr \<Rightarrow> bool" where
  "holds qp m j n wr \<longleftrightarrow> (let a = rq_at (q_rq qp) j; eb = rq_entry_bytes (wq_max_gs (q_rq qp)) wr in
     bytes_at m (a + sig_room qp) (length eb) = eb \<and>
     (q_wq_sig qp \<longrightarrow> rwqe_signed qp a (rq_sig_size qp wr) (ucast n) m))"

lemma sign_closes: "x XOR y XOR z XOR NOT (x XOR y XOR z) = NOT (0 :: u8)"
  by (rule bit_word_eqI) (auto simp: bit_simps)

lemma sig_size_fits:
  assumes "rq_geom qp m" "q_wq_sig qp"
  shows "16 + rq_sig_size qp wr \<le> 2 ^ wq_wqe_shift (q_rq qp)"
proof -
  let ?s = "wq_wqe_shift (q_rq qp)"
  have "(2::nat) ^ 4 \<le> 2 ^ ?s" using assms by (auto simp: rq_geom_def Let_def sig_room_def)
  then have s: "4 \<le> ?s" using power_increasing_iff [of "2::nat" 4 ?s] by simp
  have "min (rnum_sge wr) (2 ^ (?s - 4) - 1) * 16 \<le> (2 ^ (?s - 4) - 1) * 16"
    by (rule mult_right_mono [OF min.cobounded2]) simp
  also have "\<dots> = 2 ^ ?s - 16" using power_add [of "2::int" "?s - 4" 4] s by simp
  finally have "int (rq_sig_size qp wr) \<le> 2 ^ ?s - 16"
    using power_increasing [OF s, of "2::int"] by (simp add: rq_sig_size_def)
  then have "int (16 + rq_sig_size qp wr) \<le> int (2 ^ ?s)" by simp
  then show ?thesis by (simp only: of_nat_le_iff)
qed

lemma recv_entry_ok:
  assumes geom: "rq_geom qp m" and ind: "unat ind < rq_len (q_rq qp)"
    and wr: "plain_recv wr" "rnum_sge wr \<le> wq_max_gs (q_rq qp)"
  shows "\<exists>m'. recv_entry env qp wr ind nreq pd m = Inr (0, pd, m') \<and> rq_geom qp m' \<and>
    entries_only (q_rq qp) {unat ind} m m' \<and> holds qp m' (unat ind) (wq_head (q_rq qp) + of_nat nreq) wr"
proof -
  let ?rq = "q_rq qp" and ?a = "rq_at (q_rq qp) (unat ind)"
  let ?scat = "?a + sig_room qp" and ?eb = "rq_entry_bytes (wq_max_gs (q_rq qp)) wr"
  have ok: "recv_ok wr" using wr(1) by (simp add: plain_recv_def)
  then have num: "0 \<le> rnum_sge wr" by (auto simp: recv_ok_def)
  have gs: "0 \<le> wq_max_gs ?rq" "sig_room qp + 16 * nat (wq_max_gs ?rq) \<le> 2 ^ wq_wqe_shift ?rq"
    using geom by (simp_all add: rq_geom_def Let_def)
  have len: "?scat + length ?eb \<le> ?a + 2 ^ wq_wqe_shift ?rq"
    using length_rq_entry [OF ok wr(2)] gs(2) by linarith
  let ?m1 = "upd_bytes ?scat ?eb m"
  have st: "store_bytes ?scat ?eb m = Inr ?m1"
    using rq_part_mapped [OF geom ind _ len] by simp
  have segs: "bindR (recv_segs env wr ?scat 0 0 pd m) (\<lambda>(err, j, pd, m).
        if err \<noteq> 0 then Inr (err, pd, m)
        else bindR (if int j < wq_max_gs ?rq then set_data_ptr_seg_end (?scat + 16 * j) m else Inr m) (f err pd)) = f 0 pd ?m1" for f
  proof -
    let ?data = "concat (map data_bytes (full_sges wr))"
    have run: "recv_segs env wr ?scat 0 0 pd m = bindR (store_bytes ?scat ?data m) (\<lambda>m. Inr (0, length (full_sges wr), pd, m))"
      using recv_segs_bytes [OF wr(1) order_refl num] by (simp add: Let_def full_sges_def)
    show ?thesis
    proof (cases "int (length (full_sges wr)) < wq_max_gs ?rq")
      case True
      have "bindR (store_bytes ?scat ?data m) (\<lambda>m. bindR (store_bytes (?scat + 16 * length (full_sges wr)) end_bytes m) (f 0 pd)) =
          bindR (store_bytes ?scat (?data @ end_bytes) m) (f 0 pd)"
        by (rule store_bytes_seq) (simp add: length_data_list)
      then show ?thesis using True st
        by (simp add: run bindR_assoc set_data_ptr_seg_end_def set_scat_end rq_entry_bytes_def)
    next
      case False
      then show ?thesis using st by (simp add: run bindR_assoc rq_entry_bytes_def)
    qed
  qed
  have geom1: "rq_geom qp ?m1" using geom by simp
  have only: "entries_only ?rq {unat ind} m ?m1" using len by (intro entries_only_upd) simp_all
  have bytes: "bytes_at ?m1 ?scat (length ?eb) = ?eb" by simp
  have room: "?a + (if q_wq_sig qp then 16 else 0) = ?scat" by (simp add: sig_room_def)
  show ?thesis
  proof (cases "q_wq_sig qp")
    case False
    then have "recv_entry env qp wr ind nreq pd m = Inr (0, pd, ?m1)"
      unfolding recv_entry_def Let_def get_recv_at room segs by simp
    then show ?thesis using geom1 only bytes False by (intro exI [of _ ?m1]) (simp add: holds_def Let_def)
  next
    case True
    let ?sz = "rq_sig_size qp wr" and ?idx = "ucast (wq_head ?rq + of_nat nreq) :: u16"
    let ?b = "NOT (calc_xor (bytes_at ?m1 (?a + 16) ?sz) XOR calc_xor (le32 (q_num qp)) XOR calc_xor (le16 ?idx))"
    let ?m2 = "upd_bytes (?a + 4) [?b] ?m1"
    have sz: "?a + 16 + ?sz \<le> ?a + 2 ^ wq_wqe_shift ?rq" using sig_size_fits [OF geom True, of wr] by simp
    have "mapped ?m1 (?a + 16) ?sz" by (rule rq_part_mapped [OF geom1 ind]) (use sz in simp_all)
    moreover have "mapped ?m1 (?a + 4) 1" by (rule rq_part_mapped [OF geom1 ind]) (use sz in simp_all)
    ultimately have "set_rwqe_sig qp ?a (min (rnum_sge wr) (2 ^ (wq_wqe_shift ?rq - 4) - 1) * 16) ?idx ?m1 = Inr ?m2"
      by (simp add: set_rwqe_sig_def store8_def Let_def rq_sig_size_def del: upd_bytes.simps)
    then have run: "recv_entry env qp wr ind nreq pd m = Inr (0, pd, ?m2)"
      unfolding recv_entry_def Let_def get_recv_at room segs using True by simp
    have "bytes_at ?m2 (?a + 16) ?sz = bytes_at ?m1 (?a + 16) ?sz" by (rule bytes_at_disjoint) simp
    moreover have "bytes_at ?m2 (?a + 4) 1 = [?b]" by (rule bytes_at_same') simp
    ultimately have "rwqe_signed qp ?a ?sz ?idx ?m2"
      unfolding rwqe_signed_def by (simp only: list.sel(1) sign_closes)
    moreover have "bytes_at ?m2 ?scat (length ?eb) = ?eb"
      using True by (subst bytes_at_disjoint) (simp_all add: sig_room_def)
    moreover have "entries_only ?rq {unat ind} ?m1 ?m2" using sz by (intro entries_only_upd) simp_all
    from entries_only_trans [OF only this] have "entries_only ?rq {unat ind} m ?m2" by simp
    ultimately show ?thesis using run geom1 by (intro exI [of _ ?m2]) (simp add: holds_def Let_def del: upd_bytes.simps)
  qed
qed

section \<open>Posting a list of requests\<close>

definition with_ids :: "mlx5_qp \<Rightarrow> u64 list \<Rightarrow> mlx5_qp" where
  "with_ids qp ids = qp\<lparr>q_rq := (q_rq qp)\<lparr>wq_wrid := ids\<rparr>\<rparr>"

lemma with_ids_simps [simp]:
  "q_rq (with_ids qp ids) = (q_rq qp)\<lparr>wq_wrid := ids\<rparr>" "q_wq_sig (with_ids qp ids) = q_wq_sig qp"
  "q_num (with_ids qp ids) = q_num qp" "q_ignore_rq_overflow (with_ids qp ids) = q_ignore_rq_overflow qp"
  "q_type (with_ids qp ids) = q_type qp" "q_underlay (with_ids qp ids) = q_underlay qp"
  "q_below_rtr (with_ids qp ids) = q_below_rtr qp" "with_ids (with_ids qp ids) ids' = with_ids qp ids'"
  by (simp_all add: with_ids_def)

lemma rq_geom_ids: "rq_geom (with_ids qp ids) m \<longleftrightarrow> rq_geom qp m \<and> length ids = rq_len (q_rq qp)"
  if "rq_geom qp m \<or> length (wq_wrid (q_rq qp)) = rq_len (q_rq qp)"
  using that by (auto simp: rq_geom_def Let_def rq_len_def sig_room_def)

lemma holds_ids [simp]: "holds (with_ids qp ids) m j n wr = holds qp m j n wr"
  by (simp add: holds_def Let_def rq_at_def sig_room_def rwqe_signed_def rq_sig_size_def)

lemma entries_only_ids [simp]: "entries_only (rq\<lparr>wq_wrid := ids\<rparr>) = entries_only rq"
  by (intro ext) (simp add: entries_only_def rq_at_def)

lemma holds_cong:
  assumes "holds qp m j n wr" and "rq_geom qp m" "recv_ok wr" "rnum_sge wr \<le> wq_max_gs (q_rq qp)"
    and same: "\<And>a k. rq_at (q_rq qp) j \<le> a \<Longrightarrow> a + k \<le> rq_at (q_rq qp) j + 2 ^ wq_wqe_shift (q_rq qp) \<Longrightarrow>
      bytes_at m' a k = bytes_at m a k"
  shows "holds qp m' j n wr"
proof -
  let ?a = "rq_at (q_rq qp) j" and ?eb = "rq_entry_bytes (wq_max_gs (q_rq qp)) wr"
  have "sig_room qp + 16 * nat (wq_max_gs (q_rq qp)) \<le> 2 ^ wq_wqe_shift (q_rq qp)"
    using assms(2) by (simp add: rq_geom_def Let_def)
  then have eb: "bytes_at m' (?a + sig_room qp) (length ?eb) = bytes_at m (?a + sig_room qp) (length ?eb)"
    using length_rq_entry [OF assms(3,4)] by (intro same) simp_all
  show ?thesis
  proof (cases "q_wq_sig qp")
    case False
    then show ?thesis using assms(1) eb by (simp add: holds_def Let_def)
  next
    case True
    note sz = sig_size_fits [OF assms(2) True, of wr]
    have "bytes_at m' (?a + 16) (rq_sig_size qp wr) = bytes_at m (?a + 16) (rq_sig_size qp wr)"
      "bytes_at m' (?a + 4) 1 = bytes_at m (?a + 4) 1" using sz by (auto intro!: same)
    then show ?thesis using assms(1) eb True by (simp add: holds_def Let_def rwqe_signed_def)
  qed
qed

lemma holds_frame:
  assumes "holds qp m j n wr" "entries_only (q_rq qp) js m m'" "j \<notin> js"
    and "rq_geom qp m" "recv_ok wr" "rnum_sge wr \<le> wq_max_gs (q_rq qp)"
  shows "holds qp m' j n wr"
  by (rule holds_cong [OF assms(1,4,5,6)]) (rule entries_only_bytes [OF assms(2,3)])

text \<open>How many requests are admitted when \<open>c\<close> are outstanding, and the error that stops the loop.\<close>

fun rq_admitted :: "int \<Rightarrow> nat \<Rightarrow> nat \<Rightarrow> recv_wr list \<Rightarrow> nat \<times> int" where
  "rq_admitted gs cap c [] = (0, 0)"
| "rq_admitted gs cap c (wr # wrs) =
     (if cap \<le> c then (0, ENOMEM)
      else if gs < rnum_sge wr then (0, EINVAL)
      else (Suc (fst (rq_admitted gs cap (Suc c) wrs)), snd (rq_admitted gs cap (Suc c) wrs)))"

lemma rq_admitted_each:
  assumes "i < fst (rq_admitted gs cap c wrs)"
  shows "i < length wrs \<and> rnum_sge (wrs ! i) \<le> gs"
  using assms by (induction gs cap c wrs arbitrary: i rule: rq_admitted.induct)
    (auto split: if_splits simp: nth_Cons' less_Suc_eq_0_disj)

lemma ring_positions:
  assumes "i < n" "n < (len :: nat)"
  shows "(t + i) mod len \<noteq> (t + n) mod len"
proof
  assume "(t + i) mod len = (t + n) mod len"
  then have "len dvd (t + n) - (t + i)" using mod_eq_dvd_iff_nat [of "t + i" "t + n" len] assms(1) by simp
  then have "len dvd n - i" by simp
  then show False using assms by (simp add: dvd_imp_le nat_dvd_not_less)
qed

lemma ids_from_Suc:
  assumes "n < rq_len rq" "length (wq_wrid rq) = rq_len rq" "p = (t + n) mod rq_len rq"
  shows "ids_from (rq\<lparr>wq_wrid := (wq_wrid rq)[p := x]\<rparr>) t (Suc n) = ids_from rq t n @ [x]"
proof -
  have len: "rq_len (rq\<lparr>wq_wrid := ids\<rparr>) = rq_len rq" for ids by (simp add: rq_len_def)
  have "p < length (wq_wrid rq)" using assms by simp
  moreover have "p \<noteq> (t + i) mod rq_len rq" if "i < n" for i
    using ring_positions [OF that assms(1), of t] assms(3) by simp
  ultimately show ?thesis unfolding ids_from_def len using assms(3) [symmetric] by (auto intro!: map_cong)
qed

definition ring_slots :: "mlx5_wq \<Rightarrow> nat \<Rightarrow> nat \<Rightarrow> nat set" where
  "ring_slots rq p k = (\<lambda>i. (p + i) mod rq_len rq) ` {..<k}"

lemma ids_keep [simp]:
  "rq_len (rq\<lparr>wq_wrid := ids\<rparr>) = rq_len rq" "ring_slots (rq\<lparr>wq_wrid := ids\<rparr>) = ring_slots rq"
  "outstanding (rq\<lparr>wq_wrid := ids\<rparr>) = outstanding rq"
  by (simp_all add: rq_len_def ring_slots_def outstanding_def fun_eq_iff)

lemma ring_slots_Suc: "ring_slots rq p (Suc k) = {p mod rq_len rq} \<union> ring_slots rq (Suc p) k"
  unfolding ring_slots_def lessThan_Suc_eq_insert_0 by (auto simp: image_iff)

lemma ring_slots_fresh:
  assumes "Suc k \<le> rq_len rq"
  shows "p mod rq_len rq \<notin> ring_slots rq (Suc p) k"
proof
  assume "p mod rq_len rq \<in> ring_slots rq (Suc p) k"
  then obtain i where i: "i < k" "(p + 0) mod rq_len rq = (p + Suc i) mod rq_len rq" by (auto simp: ring_slots_def)
  then show False using ring_positions [of 0 "Suc i" "rq_len rq" p] assms by simp
qed

lemma post_recv_loop_ok:
  assumes "rq_geom qp m" "\<forall>wr \<in> set wrs. plain_recv wr" "\<not> q_ignore_rq_overflow qp"
    and "c = outstanding (q_rq qp) + nreq" "c \<le> unat (wq_max_post (q_rq qp))"
    and "rq_admitted (wq_max_gs (q_rq qp)) (unat (wq_max_post (q_rq qp))) c wrs = (k, err)"
    and "unat ind = (unat (wq_head (q_rq qp)) + nreq) mod rq_len (q_rq qp)"
    and "unat ind = (t + c) mod rq_len (q_rq qp)"
  shows "\<exists>ids m'. post_recv_loop env wrs nreq ind qp pd m = Inr (err, drop k wrs, nreq + k, with_ids qp ids, pd, m') \<and>
    rq_geom (with_ids qp ids) m' \<and> c + k \<le> unat (wq_max_post (q_rq qp)) \<and>
    ids_from ((q_rq qp)\<lparr>wq_wrid := ids\<rparr>) t (c + k) = ids_from (q_rq qp) t c @ map rwr_id (take k wrs) \<and>
    entries_only (q_rq qp) (ring_slots (q_rq qp) (unat (wq_head (q_rq qp)) + nreq) k) m m' \<and>
    (\<forall>i < k. holds qp m' ((unat (wq_head (q_rq qp)) + nreq + i) mod rq_len (q_rq qp))
       (wq_head (q_rq qp) + of_nat (nreq + i)) (wrs ! i))"
  using assms
proof (induction wrs arbitrary: nreq ind qp m c k err)
  case Nil
  have "with_ids qp (wq_wrid (q_rq qp)) = qp" by (simp add: with_ids_def)
  then show ?case using Nil by (intro exI [of _ "wq_wrid (q_rq qp)"] exI [of _ m]) simp
next
  case (Cons wr wrs)
  let ?rq = "q_rq qp" and ?cap = "unat (wq_max_post (q_rq qp))"
  have self: "with_ids qp (wq_wrid ?rq) = qp" by (simp add: with_ids_def)
  have cap: "?cap \<le> rq_len ?rq" "rq_len ?rq \<le> 2147483648" using rq_geomD [OF Cons.prems(1)] by simp_all
  have "unat (wq_head ?rq - wq_tail ?rq + of_nat nreq) = c"
    using Cons.prems(4,5) cap by (simp add: outstanding_def unat_word_ariths unat_of_nat)
  then have over: "mlx5_wq_overflow ?rq nreq \<longleftrightarrow> ?cap \<le> c"
    by (simp add: mlx5_wq_overflow_def word_less_nat_alt not_less)
  show ?case
  proof (cases "?cap \<le> c \<or> wq_max_gs ?rq < rnum_sge wr")
    case True
    then have "k = 0" "post_recv_loop env (wr # wrs) nreq ind qp pd m = Inr (err, wr # wrs, nreq, qp, pd, m)"
      using Cons.prems(3,6) over by (auto split: if_splits)
    then show ?thesis using Cons.prems(1,5) self
      by (intro exI [of _ "wq_wrid ?rq"] exI [of _ m]) (simp add: ring_slots_def)
  next
    case False
    then have c: "c < ?cap" and gs: "rnum_sge wr \<le> wq_max_gs ?rq" by auto
    have wr: "plain_recv wr" "recv_ok wr" using Cons.prems(2) by (auto simp: plain_recv_def)
    have ind: "unat ind < rq_len ?rq" using Cons.prems(7) rq_geomD(1) [OF Cons.prems(1)] by simp
    obtain m1 where m1: "recv_entry env qp wr ind nreq pd m = Inr (0, pd, m1)" "rq_geom qp m1"
      "entries_only ?rq {unat ind} m m1" "holds qp m1 (unat ind) (wq_head ?rq + of_nat nreq) wr"
      using recv_entry_ok [OF Cons.prems(1) ind wr(1) gs] by blast
    let ?ids = "(wq_wrid ?rq)[unat ind := rwr_id wr]" and ?ind = "(ind + 1) AND (wq_wqe_cnt ?rq - 1)"
    let ?q1 = "with_ids qp ?ids"
    have len: "length (wq_wrid ?rq) = rq_len ?rq" by (rule rq_geomD(3) [OF Cons.prems(1)])
    have geom1: "rq_geom ?q1 m1" using m1(2) len by (simp add: rq_geom_ids)
    have next_ind: "unat ?ind = (unat ind + 1) mod rq_len ?rq"
      using rq_index [OF Cons.prems(1), of ind 1] by simp
    have step: "post_recv_loop env (wr # wrs) nreq ind qp pd m = post_recv_loop env wrs (Suc nreq) ?ind ?q1 pd m1"
      using Cons.prems(3) over c gs m1(1) ind len by (simp add: with_ids_def)
    obtain k' where k: "k = Suc k'" "rq_admitted (wq_max_gs ?rq) ?cap (Suc c) wrs = (k', err)"
      using Cons.prems(6) c gs by (cases "rq_admitted (wq_max_gs ?rq) ?cap (Suc c) wrs") simp
    have q1: "rq_len (q_rq ?q1) = rq_len ?rq" "outstanding (q_rq ?q1) = outstanding ?rq"
      by (simp_all add: rq_len_def outstanding_def)
    have i1: "unat ?ind = (unat (wq_head (q_rq ?q1)) + Suc nreq) mod rq_len (q_rq ?q1)"
      "unat ?ind = (t + Suc c) mod rq_len (q_rq ?q1)"
      unfolding q1 next_ind by (subst Cons.prems(7), simp add: mod_Suc_eq) (subst Cons.prems(8), simp add: mod_Suc_eq)
    have "\<exists>ids m'. post_recv_loop env wrs (Suc nreq) ?ind ?q1 pd m1 =
        Inr (err, drop k' wrs, Suc nreq + k', with_ids ?q1 ids, pd, m') \<and> rq_geom (with_ids ?q1 ids) m' \<and>
        Suc c + k' \<le> unat (wq_max_post (q_rq ?q1)) \<and>
        ids_from ((q_rq ?q1)\<lparr>wq_wrid := ids\<rparr>) t (Suc c + k') = ids_from (q_rq ?q1) t (Suc c) @ map rwr_id (take k' wrs) \<and>
        entries_only (q_rq ?q1) (ring_slots (q_rq ?q1) (unat (wq_head (q_rq ?q1)) + Suc nreq) k') m1 m' \<and>
        (\<forall>i < k'. holds ?q1 m' ((unat (wq_head (q_rq ?q1)) + Suc nreq + i) mod rq_len (q_rq ?q1))
           (wq_head (q_rq ?q1) + of_nat (Suc nreq + i)) (wrs ! i))"
      by (rule Cons.IH [OF geom1]) (use Cons.prems c k i1 q1 in auto)
    then obtain ids m' where ih: "post_recv_loop env wrs (Suc nreq) ?ind ?q1 pd m1 =
        Inr (err, drop k' wrs, Suc nreq + k', with_ids qp ids, pd, m')" "rq_geom (with_ids qp ids) m'"
      "Suc c + k' \<le> ?cap"
      "ids_from (?rq\<lparr>wq_wrid := ids\<rparr>) t (Suc c + k') = ids_from (?rq\<lparr>wq_wrid := ?ids\<rparr>) t (Suc c) @ map rwr_id (take k' wrs)"
      "entries_only ?rq (ring_slots ?rq (unat (wq_head ?rq) + Suc nreq) k') m1 m'"
      "\<forall>i < k'. holds qp m' ((unat (wq_head ?rq) + Suc nreq + i) mod rq_len ?rq) (wq_head ?rq + of_nat (Suc nreq + i)) (wrs ! i)"
      by auto
    have pos: "(unat (wq_head ?rq) + nreq) mod rq_len ?rq = unat ind" using Cons.prems(7) by simp
    have fresh: "unat ind \<notin> ring_slots ?rq (unat (wq_head ?rq) + Suc nreq) k'"
      using ring_slots_fresh [of k' ?rq "unat (wq_head ?rq) + nreq"] ih(3) cap unfolding pos by simp
    have only: "entries_only ?rq (ring_slots ?rq (unat (wq_head ?rq) + nreq) k) m m'"
      using entries_only_trans [OF m1(3) ih(5)] unfolding k(1) ring_slots_Suc pos by simp
    have first: "holds qp m' (unat ind) (wq_head ?rq + of_nat nreq) wr"
      by (rule holds_frame [OF m1(4) ih(5) fresh m1(2) wr(2) gs])
    have "\<forall>i < k. holds qp m' ((unat (wq_head ?rq) + nreq + i) mod rq_len ?rq) (wq_head ?rq + of_nat (nreq + i)) ((wr # wrs) ! i)"
    proof (intro allI impI)
      fix i
      assume "i < k"
      then show "holds qp m' ((unat (wq_head ?rq) + nreq + i) mod rq_len ?rq) (wq_head ?rq + of_nat (nreq + i)) ((wr # wrs) ! i)"
        using ih(6) first k(1) pos by (cases i) auto
    qed
    moreover have "ids_from (?rq\<lparr>wq_wrid := ids\<rparr>) t (c + k) = ids_from ?rq t c @ map rwr_id (take k (wr # wrs))"
      using ih(4) ids_from_Suc [of c ?rq "unat ind" t "rwr_id wr"] c cap len Cons.prems(8) k(1) by simp
    ultimately show ?thesis using step ih(1,2,3) only k(1) by (intro exI [of _ ids] exI [of _ m']) simp
  qed
qed

lemma ids_from_mod: "t mod rq_len rq = t' mod rq_len rq \<Longrightarrow> ids_from rq t n = ids_from rq t' n"
  unfolding ids_from_def by (metis (no_types, lifting) map_cong mod_add_left_eq)

lemma head_position:
  assumes "rq_geom qp m"
  shows "unat (wq_head (q_rq qp)) mod rq_len (q_rq qp) =
    (unat (wq_tail (q_rq qp)) + outstanding (q_rq qp)) mod rq_len (q_rq qp)"
proof -
  let ?rq = "q_rq qp"
  have "wq_head ?rq = wq_tail ?rq + of_nat (outstanding ?rq)" by (simp add: outstanding_def)
  then have "unat (wq_head ?rq) = unat (wq_tail ?rq + of_nat (outstanding ?rq))" by simp
  also have "\<dots> = (unat (wq_tail ?rq) + outstanding ?rq) mod 2 ^ 32"
    by (simp add: unat_word_ariths unat_of_nat mod_add_right_eq)
  finally have "unat (wq_head ?rq) = (unat (wq_tail ?rq) + outstanding ?rq) mod 2 ^ 32" .
  then show ?thesis using rq_geomD(4) [OF assms] by (simp add: mod_mod_cancel)
qed

lemma unat_advance:
  fixes h t :: u32
  assumes "unat (of_nat k :: u32) = k" "unat (h - t) + k < 2 ^ 32"
  shows "unat (h + of_nat k - t) = unat (h - t) + k"
proof -
  have "h + of_nat k - t = (h - t) + of_nat k" by (simp add: algebra_simps)
  also have "unat \<dots> = unat (h - t) + unat (of_nat k :: u32)"
    using assms by (subst unat_add_lem [THEN iffD1]) simp_all
  finally show ?thesis using assms(1) by simp
qed

lemma rq_geom_head:
  "rq_geom (qp\<lparr>q_rq := (q_rq qp)\<lparr>wq_head := h\<rparr>\<rparr>) m = rq_geom qp m"
  "rq_geom (qp\<lparr>q_rq := (q_rq qp)\<lparr>wq_tail := h\<rparr>\<rparr>) m = rq_geom qp m"
  by (simp_all add: rq_geom_def Let_def rq_len_def sig_room_def)

lemma mlx5_post_recv_ok:
  assumes ok: "rq_ok qp m" and wrs: "\<forall>wr \<in> set wrs. plain_recv wr" and ov: "\<not> q_ignore_rq_overflow qp"
    and adm: "rq_admitted (wq_max_gs (q_rq qp)) (unat (wq_max_post (q_rq qp))) (outstanding (q_rq qp)) wrs = (k, err)"
  shows "\<exists>qp' m'. mlx5_post_recv env wrs qp pd m = Inr (err, drop k wrs, qp', pd, m') \<and> rq_ok qp' m' \<and>
    pending (q_rq qp') = pending (q_rq qp) @ map rwr_id (take k wrs) \<and>
    (\<exists>ids. qp' = qp\<lparr>q_rq := (q_rq qp)\<lparr>wq_wrid := ids, wq_head := wq_head (q_rq qp) + of_nat k\<rparr>\<rparr>) \<and>
    (\<forall>i < k. holds qp' m' ((unat (wq_head (q_rq qp)) + i) mod rq_len (q_rq qp)) (wq_head (q_rq qp) + of_nat i) (wrs ! i)) \<and>
    (0 < k \<and> \<not> ((q_type qp = IBV_QPT_RAW_ETH \<or> q_underlay qp) \<and> q_below_rtr qp) \<longrightarrow>
       bytes_at m' (wq_db (q_rq qp)) 4 = be32 (wq_head (q_rq qp') AND 0xffff))"
proof -
  let ?rq = "q_rq qp" and ?ind = "wq_head (q_rq qp) AND (wq_wqe_cnt (q_rq qp) - 1)"
  let ?raw = "(q_type qp = IBV_QPT_RAW_ETH \<or> q_underlay qp) \<and> q_below_rtr qp"
  have geom: "rq_geom qp m" and cap: "outstanding ?rq \<le> unat (wq_max_post ?rq)" using ok by (simp_all add: rq_ok_def)
  have ind: "unat ?ind = unat (wq_head ?rq) mod rq_len ?rq" using rq_index [OF geom, of "wq_head ?rq" 0] by simp
  have ind': "unat ?ind = (unat (wq_tail ?rq) + outstanding ?rq) mod rq_len ?rq"
    using ind head_position [OF geom] by simp
  have "\<exists>ids m'. post_recv_loop env wrs 0 ?ind qp pd m = Inr (err, drop k wrs, 0 + k, with_ids qp ids, pd, m') \<and>
    rq_geom (with_ids qp ids) m' \<and> outstanding ?rq + k \<le> unat (wq_max_post ?rq) \<and>
    ids_from (?rq\<lparr>wq_wrid := ids\<rparr>) (unat (wq_tail ?rq)) (outstanding ?rq + k) =
      ids_from ?rq (unat (wq_tail ?rq)) (outstanding ?rq) @ map rwr_id (take k wrs) \<and>
    entries_only ?rq (ring_slots ?rq (unat (wq_head ?rq) + 0) k) m m' \<and>
    (\<forall>i < k. holds qp m' ((unat (wq_head ?rq) + 0 + i) mod rq_len ?rq) (wq_head ?rq + of_nat (0 + i)) (wrs ! i))"
    by (rule post_recv_loop_ok [OF geom wrs ov _ cap adm]) (use ind ind' in simp_all)
  then obtain ids m1 where r: "post_recv_loop env wrs 0 ?ind qp pd m = Inr (err, drop k wrs, k, with_ids qp ids, pd, m1)"
    "rq_geom (with_ids qp ids) m1" "outstanding ?rq + k \<le> unat (wq_max_post ?rq)"
    "ids_from (?rq\<lparr>wq_wrid := ids\<rparr>) (unat (wq_tail ?rq)) (outstanding ?rq + k) = pending ?rq @ map rwr_id (take k wrs)"
    "\<forall>i < k. holds qp m1 ((unat (wq_head ?rq) + i) mod rq_len ?rq) (wq_head ?rq + of_nat i) (wrs ! i)"
    by (auto simp: pending_def)
  let ?head = "wq_head ?rq + of_nat k"
  let ?qp = "qp\<lparr>q_rq := ?rq\<lparr>wq_wrid := ids, wq_head := ?head\<rparr>\<rparr>"
  have qp: "?qp = with_ids qp ids\<lparr>q_rq := (q_rq (with_ids qp ids))\<lparr>wq_head := ?head\<rparr>\<rparr>" by (simp add: with_ids_def)
  have "k < 2 ^ 32" using r(3) unat_u32_less [of "wq_max_post ?rq"] by simp
  then have "unat (of_nat k :: u32) = k" by (simp add: unat_of_nat)
  moreover have "outstanding ?rq + k < 2 ^ 32" using r(3) unat_u32_less [of "wq_max_post ?rq"] by simp
  ultimately have out: "outstanding (q_rq ?qp) = outstanding ?rq + k"
    using unat_advance [of k "wq_head ?rq" "wq_tail ?rq"] by (simp add: outstanding_def)
  have geom1: "rq_geom ?qp m'" if "rq_geom (with_ids qp ids) m'" for m' unfolding qp rq_geom_head using that .
  have "rq_len (q_rq ?qp) = rq_len ?rq" by (simp add: rq_len_def)
  then have pend: "pending (q_rq ?qp) = pending ?rq @ map rwr_id (take k wrs)"
    using r(4) unfolding pending_def [of "q_rq ?qp"] out by (simp add: ids_from_def)
  have holds: "holds ?qp m' j n wr = holds qp m' j n wr" for m' j n wr
    by (simp add: holds_def Let_def rq_at_def sig_room_def rwqe_signed_def rq_sig_size_def)
  show ?thesis
  proof (cases "k = 0 \<or> ?raw")
    case True
    then have "mlx5_post_recv env wrs qp pd m = Inr (err, drop k wrs, ?qp, pd, m1)"
      using r(1) by (auto simp: mlx5_post_recv_def Let_def with_ids_def)
    then show ?thesis using True geom1 [OF r(2)] r(3,5) out pend holds
      by (intro exI [of _ ?qp] exI [of _ m1]) (auto simp: rq_ok_def)
  next
    case False
    let ?bs = "le32 (htonl (?head AND 0xffff))"
    let ?m2 = "upd_bytes (wq_db ?rq) ?bs m1"
    have g: "mapped m1 (wq_db ?rq) 4" "wq_db ?rq + 4 \<le> wq_buff ?rq \<or> wq_buff ?rq + rq_len ?rq * 2 ^ wq_wqe_shift ?rq \<le> wq_db ?rq"
      using r(2) by (auto simp: rq_geom_def Let_def)
    have run: "mlx5_post_recv env wrs qp pd m = Inr (err, drop k wrs, ?qp, pd, ?m2)"
      using False r(1) g(1) by (auto simp: mlx5_post_recv_def Let_def with_ids_def store32_def)
    have frame: "bytes_at ?m2 a n = bytes_at m1 a n" if "wq_buff ?rq \<le> a" "a + n \<le> wq_buff ?rq + rq_len ?rq * 2 ^ wq_wqe_shift ?rq" for a n
      using g(2) that by (intro bytes_at_disjoint) auto
    have keep: "holds qp ?m2 ((unat (wq_head ?rq) + i) mod rq_len ?rq) (wq_head ?rq + of_nat i) (wrs ! i)" if i: "i < k" for i
    proof (rule holds_cong [OF r(5) [rule_format, OF i]])
      let ?j = "(unat (wq_head ?rq) + i) mod rq_len ?rq"
      have j: "?j < rq_len ?rq" using rq_geomD(1) [OF geom] by simp
      have wr: "i < length wrs" "rnum_sge (wrs ! i) \<le> wq_max_gs ?rq"
        using rq_admitted_each [of i "wq_max_gs ?rq" "unat (wq_max_post ?rq)" "outstanding ?rq" wrs] adm i by simp_all
      then show "recv_ok (wrs ! i)" "rnum_sge (wrs ! i) \<le> wq_max_gs ?rq" using wrs by (simp_all add: plain_recv_def)
      show "rq_geom qp m1" using r(2) rq_geom_ids [of qp m1] rq_geomD(3) [OF geom] by simp
      show "bytes_at ?m2 a n = bytes_at m1 a n"
        if "rq_at ?rq ?j \<le> a" "a + n \<le> rq_at ?rq ?j + 2 ^ wq_wqe_shift ?rq" for a n
        using that rq_at_end [OF j] by (intro frame) (simp_all add: rq_at_def)
    qed
    have "bytes_at ?m2 (wq_db ?rq) 4 = be32 (?head AND 0xffff)" by (simp only: le32_htonl) (rule bytes_at_same', simp)
    then show ?thesis using run geom1 [of ?m2] r(2,3) out pend keep holds
      by (intro exI [of _ ?qp] exI [of _ ?m2]) (auto simp: rq_ok_def)
  qed
qed

text \<open>A completion takes the oldest identifier: the tail moves by one.\<close>

lemma pending_pop:
  assumes "rq_ok qp m" "0 < outstanding (q_rq qp)"
  shows "pending (q_rq qp) = wq_wrid (q_rq qp) ! (unat (wq_tail (q_rq qp)) mod rq_len (q_rq qp)) #
      pending ((q_rq qp)\<lparr>wq_tail := wq_tail (q_rq qp) + 1\<rparr>)"
    and "rq_ok (qp\<lparr>q_rq := (q_rq qp)\<lparr>wq_tail := wq_tail (q_rq qp) + 1\<rparr>\<rparr>) m"
proof -
  let ?rq = "q_rq qp" and ?rq' = "(q_rq qp)\<lparr>wq_tail := wq_tail (q_rq qp) + 1\<rparr>"
  have geom: "rq_geom qp m" using assms(1) by (simp add: rq_ok_def)
  have "wq_head ?rq - wq_tail ?rq \<noteq> 0" using assms(2) by (auto simp: outstanding_def)
  then have "Suc (unat (wq_head ?rq - wq_tail ?rq - 1)) = unat (wq_head ?rq - wq_tail ?rq)"
    using unat_minus_one [of "wq_head ?rq - wq_tail ?rq"] assms(2) by (simp add: outstanding_def)
  then have out: "outstanding ?rq = Suc (outstanding ?rq')" by (simp add: outstanding_def diff_diff_eq)
  have len: "rq_len ?rq' = rq_len ?rq" by (simp add: rq_len_def)
  have "unat (wq_tail ?rq + 1) = (unat (wq_tail ?rq) + 1) mod 2 ^ 32" by (simp add: unat_word_ariths)
  then have t: "unat (wq_tail ?rq + 1) mod rq_len ?rq = Suc (unat (wq_tail ?rq)) mod rq_len ?rq"
    using rq_geomD(4) [OF geom] by (simp add: mod_mod_cancel)
  have "pending ?rq' = ids_from ?rq (unat (wq_tail ?rq + 1)) (outstanding ?rq')"
    by (simp add: pending_def ids_from_def rq_len_def)
  also have "\<dots> = ids_from ?rq (Suc (unat (wq_tail ?rq))) (outstanding ?rq')" by (rule ids_from_mod [OF t])
  finally show "pending ?rq = wq_wrid ?rq ! (unat (wq_tail ?rq) mod rq_len ?rq) # pending ?rq'"
    unfolding pending_def [of ?rq] out ids_from_def by (simp add: upt_conv_Cons map_Suc_upt [symmetric] del: upt_Suc)
  show "rq_ok (qp\<lparr>q_rq := ?rq'\<rparr>) m"
    using assms(1) out by (simp add: rq_ok_def rq_geom_head)
qed

end
