(* ===== verification/Qp_Inline.thy ===== *)
theory Qp_Inline
  imports Qp_Correct
begin

text \<open>
  What \<open>copy_to_scat\<close> of \<open>qp.c\<close> does with the data of a completion entry, and the burst variants of
  posting: \<open>recv_burst\<close> writes the entries that \<open>mlx5_post_recv\<close> writes for requests of one segment.
\<close>

section \<open>Inline data\<close>

text \<open>
  The bytes found in the segments after the loop without conversion: each segment gets the first bytes
  of the data, as many as remain to be delivered.
\<close>

fun heads :: "ibv_sge list \<Rightarrow> nat \<Rightarrow> u8 list \<Rightarrow> u8 list" where
  "heads [] n d = []"
| "heads (sg # sgs) n d = (let k = min n (unat (sg_length sg)) in take k d @ heads sgs (n - k) d)"

lemma heads_zero [simp]: "heads sgs 0 d = []"
  by (induction sgs) (simp_all add: Let_def)

lemma gathered_zero [simp]: "gathered m sgs 0 = []"
  by (induction sgs) (simp_all add: Let_def bytes_at_def)

lemma take_bytes_at: "k \<le> n \<Longrightarrow> take k (bytes_at m a n) = bytes_at m a k"
  using bytes_at_add [of m a k "n - k"] by simp

lemma scat_step:
  assumes seg: "load32 scat m = Inr (htonl (sg_length sg))" "load64 (scat + 8) m = Inr (htonll (sg_addr sg))"
    and l: "unat (sg_length sg) < 2 ^ 31" and n: "n < 2 ^ 31" and i: "i < mx"
    and tgt: "mapped m (unat (sg_addr sg)) (unat (sg_length sg))" and src: "mapped m src N" "n \<le> N"
  shows "scat_loop False src scat buf (int n) i mx m =
    (let k = min n (unat (sg_length sg)); m' = upd_bytes (unat (sg_addr sg)) (bytes_at m src k) m in
     if n - k = 0 then Inr (IBV_WC_SUCCESS, 0, m')
     else scat_loop False src (scat + 16) (buf + k) (int (n - k)) (i + 1) mx m')"
proof -
  let ?k = "min n (unat (sg_length sg))"
  note copy = piece_size [OF l n]
  have mk: "mapped m src ?k" "mapped m (unat (sg_addr sg)) ?k"
    by (rule mapped_sub [OF src(1)] mapped_sub [OF tgt]; use src(2) in simp)+
  have cp: "memcpy (unat (sg_addr sg)) src (int ?k) m = Inr (upd_bytes (unat (sg_addr sg)) (bytes_at m src ?k) m)"
    using mk by (simp add: memcpy_def)
  have left: "int n - int ?k = 0 \<longleftrightarrow> n - ?k = 0" "int n - int ?k = int (n - ?k)" "nat (int buf + int ?k) = buf + ?k" by auto
  show ?thesis
    by (subst scat_loop.simps)
      (simp only: i seg if_True if_False bindR_Inr Let_def copy htonll_htonll cp left of_nat_eq_0_iff)
qed

lemma scat_loop_heads:
  assumes ent: "mapped m scat (16 * length sgs)" "bytes_at m scat (16 * length sgs) = concat (map data_bytes sgs)"
    and tgt: "targets_ok m sgs scat (16 * length sgs) src N" and src: "mapped m src N" "n \<le> N"
    and n: "n \<le> total_length sgs" "n < 2 ^ 31" and mx: "int (length sgs) \<le> mx - i" and ne: "sgs \<noteq> []"
  shows "\<exists>m'. scat_loop False src scat buf (int n) i mx m = Inr (IBV_WC_SUCCESS, 0, m') \<and>
    gathered m' sgs n = heads sgs n (bytes_at m src N) \<and>
    (\<forall>a k. (\<forall>t \<in> set sgs. apart a k (unat (sg_addr t)) (unat (sg_length t))) \<longrightarrow> bytes_at m' a k = bytes_at m a k)"
  using assms
proof (induction sgs arbitrary: scat buf n i m)
  case Nil
  then show ?case by simp
next
  case (Cons sg sgs)
  let ?a = "unat (sg_addr sg)" and ?l = "unat (sg_length sg)"
  let ?k = "min n ?l"
  let ?m = "upd_bytes ?a (bytes_at m src ?k) m"
  note T = Cons.prems(3) [simplified, unfolded Let_def]
  have seg: "mapped m scat (16 * Suc (length sgs))"
    "bytes_at m scat (16 * Suc (length sgs)) = data_bytes sg @ concat (map data_bytes sgs)"
    using Cons.prems(1,2) by simp_all
  note R = read_segment [OF seg]
  have l: "?l < 2 ^ 31" "mapped m ?a ?l" using T by auto
  have i: "i < mx" using Cons.prems(8) by simp
  have step: "scat_loop False src scat buf (int n) i mx m =
      (if n - ?k = 0 then Inr (IBV_WC_SUCCESS, 0, ?m)
       else scat_loop False src (scat + 16) (buf + ?k) (int (n - ?k)) (i + 1) mx ?m)"
    using scat_step [OF R(1,2) l(1) Cons.prems(7) i l(2) Cons.prems(4,5)] by (simp add: Let_def)
  have piece: "bytes_at m src ?k = take ?k (bytes_at m src N)" using Cons.prems(5) by (simp add: take_bytes_at)
  have first: "bytes_at ?m ?a ?k = take ?k (bytes_at m src N)" unfolding piece [symmetric] by (rule bytes_at_same') simp
  have frame: "bytes_at ?m a j = bytes_at m a j" if "apart a j ?a ?l" for a j
    by (rule bytes_apart) (rule apart_sub [OF that], simp_all)
  show ?case
  proof (cases "n - ?k = 0")
    case True
    then have "n = ?k" by simp
    then show ?thesis using step True first frame by (intro exI [of _ ?m]) (simp add: Let_def)
  next
    case False
    then have k: "?k = ?l" by (simp add: min_def split: if_splits)
    have n': "n - ?k \<le> total_length sgs" "n - ?k < 2 ^ 31" using Cons.prems(6,7) k by (simp_all add: total_length_def)
    have ne: "sgs \<noteq> []" using n'(1) False by (cases sgs) (auto simp: total_length_def)
    have ent': "mapped ?m (scat + 16) (16 * length sgs)"
      using mapped_sub [OF seg(1), of "scat + 16" "16 * length sgs"] by simp
    have "apart (scat + 16) (16 * length sgs) ?a ?l"
      using T by (elim conjE) (erule apart_sub, simp_all)
    then have body': "bytes_at ?m (scat + 16) (16 * length sgs) = concat (map data_bytes sgs)"
      using frame R(3) by simp
    have tgt': "targets_ok ?m sgs (scat + 16) (16 * length sgs) src N"
      by (rule targets_ok_upd, rule targets_ok_sub [where ent = scat and en = "16 * Suc (length sgs)" and src = src and sn = N])
        (use T in simp_all)
    have mx': "int (length sgs) \<le> mx - (i + 1)" using Cons.prems(8) by simp
    have srcT: "apart src N ?a ?l" using T by blast
    have src': "mapped ?m src N" "n - ?k \<le> N" using Cons.prems(4,5) by simp_all
    have same: "bytes_at ?m src N = bytes_at m src N" by (rule frame [OF srcT])
    obtain m' where m': "scat_loop False src (scat + 16) (buf + ?k) (int (n - ?k)) (i + 1) mx ?m = Inr (IBV_WC_SUCCESS, 0, m')"
      "gathered m' sgs (n - ?k) = heads sgs (n - ?k) (bytes_at m src N)"
      "\<forall>a k. (\<forall>t \<in> set sgs. apart a k (unat (sg_addr t)) (unat (sg_length t))) \<longrightarrow> bytes_at m' a k = bytes_at ?m a k"
      using Cons.IH [OF ent' body' tgt' src' n' mx' ne, of "buf + ?k"] unfolding same by blast
    have "\<forall>t \<in> set sgs. apart ?a ?k (unat (sg_addr t)) (unat (sg_length t))"
      using T k by (auto simp: apart_def)
    then have "bytes_at m' ?a ?k = take ?k (bytes_at m src N)" using m'(3) first by simp
    then have "gathered m' (sg # sgs) n = heads (sg # sgs) n (bytes_at m src N)" using m'(2) by (simp add: Let_def)
    moreover have "bytes_at m' a k = bytes_at m a k"
      if "\<forall>t \<in> set (sg # sgs). apart a k (unat (sg_addr t)) (unat (sg_length t))" for a k
      using that m'(3) frame by simp
    ultimately show ?thesis using step False m'(1) by (intro exI [of _ m']) simp
  qed
qed

lemma copy_to_recv_wqe_heads:
  assumes geom: "rq_geom qp m" and ind: "unat idx < rq_len (q_rq qp)"
    and held: "holds qp m (unat idx) c wr" and wr: "plain_recv wr" "rnum_sge wr \<le> wq_max_gs (q_rq qp)"
    and sgs: "sgs = full_sges wr"
    and tgt: "targets_ok m sgs (rq_at (q_rq qp) (unat idx) + sig_room qp) (16 * length sgs) buf n"
    and src: "mapped m buf n" and n: "n \<le> total_length sgs" "n < 2 ^ 31"
  shows "\<exists>m'. mlx5_copy_to_recv_wqe qp idx buf (int n) m = Inr (IBV_WC_SUCCESS, m') \<and>
    gathered m' sgs n = heads sgs n (bytes_at m buf n)"
proof -
  let ?rq = "q_rq qp" and ?a = "rq_at (q_rq qp) (unat idx)"
  let ?eb = "rq_entry_bytes (wq_max_gs (q_rq qp)) wr" and ?d = "concat (map data_bytes (full_sges wr))"
  have ok: "recv_ok wr" using wr(1) by (simp add: plain_recv_def)
  have room: "sig_room qp + 16 * nat (wq_max_gs ?rq) \<le> 2 ^ wq_wqe_shift ?rq" "0 \<le> wq_max_gs ?rq"
    using geom by (simp_all add: rq_geom_def Let_def)
  have cnt: "length sgs \<le> nat (wq_max_gs ?rq)" using length_full_sges [OF ok] wr(2) unfolding sgs by linarith
  have "bytes_at m (?a + sig_room qp) (length ?eb) = ?eb" using held by (simp add: holds_def Let_def)
  then have "take (length ?d) (bytes_at m (?a + sig_room qp) (length ?eb)) = ?d" by (simp add: rq_entry_bytes_def)
  then have body: "bytes_at m (?a + sig_room qp) (16 * length sgs) = ?d"
    by (subst (asm) take_bytes_at) (simp_all add: rq_entry_bytes_def length_data_list sgs)
  have map: "mapped m (?a + sig_room qp) (16 * length sgs)"
    by (rule rq_part_mapped [OF geom ind]) (use cnt room(1) in linarith)+
  have scat: "get_recv_wqe ?rq idx + (if q_wq_sig qp then 16 else 0) = ?a + sig_room qp"
    by (simp add: get_recv_at sig_room_def)
  show ?thesis
  proof (cases "n = 0")
    case True
    then show ?thesis by (simp add: mlx5_copy_to_recv_wqe_def copy_to_scat_def)
  next
    case False
    then have ne: "sgs \<noteq> []" using n(1) by (auto simp: total_length_def)
    then have "16 * length sgs \<le> 2 ^ wq_wqe_shift ?rq" "16 \<le> 16 * length sgs" using cnt room(1) by (simp, cases sgs) auto
    then have s: "(2::nat) ^ 4 \<le> 2 ^ wq_wqe_shift ?rq" by simp
    then have s4: "4 \<le> wq_wqe_shift ?rq" by (simp only: power_increasing_iff)
    then have "(2::nat) ^ wq_wqe_shift ?rq = 16 * 2 ^ (wq_wqe_shift ?rq - 4)"
      using power_add [of "2::nat" 4 "wq_wqe_shift ?rq - 4"] by simp
    then have "length sgs \<le> 2 ^ (wq_wqe_shift ?rq - 4)" using cnt room(1) by linarith
    then have mx: "int (length sgs) \<le> 2 ^ (wq_wqe_shift ?rq - 4) - 0" by (metis diff_zero of_nat_le_iff of_nat_numeral of_nat_power)
    from scat_loop_heads [OF map _ tgt src order_refl n mx ne, of buf] body sgs
    obtain m' where "scat_loop False buf (?a + sig_room qp) buf (int n) 0 (2 ^ (wq_wqe_shift ?rq - 4)) m =
        Inr (IBV_WC_SUCCESS, 0, m')" "gathered m' sgs n = heads sgs n (bytes_at m buf n)" by auto
    then show ?thesis using False scat by (simp add: mlx5_copy_to_recv_wqe_def copy_to_scat_def)
  qed
qed

section \<open>The burst variants\<close>

definition single_request :: "u64 \<Rightarrow> ibv_sge \<Rightarrow> recv_wr" where
  "single_request i sg = \<lparr>rwr_id = i, rsg_list = Some [sg], rnum_sge = 1\<rparr>"

definition plain_sge :: "ibv_sge \<Rightarrow> bool" where
  "plain_sge sg \<longleftrightarrow> sg_length sg \<noteq> 0 \<and> sg_lkey sg \<noteq> ODP_GLOBAL_R_LKEY \<and> sg_lkey sg \<noteq> ODP_GLOBAL_W_LKEY"

lemma single_request_simps [simp]:
  "rwr_id (single_request i sg) = i" "rnum_sge (single_request i sg) = 1"
  "plain_sge sg \<Longrightarrow> plain_recv (single_request i sg)" "sge_at (rsg_list (single_request i sg)) 0 = Inr sg"
  by (simp_all add: single_request_def plain_recv_def recv_ok_def wr_sges_def plain_sge_def sge_at_def deref_def read_int_def)

lemma recv_segs_single:
  "plain_sge sg \<Longrightarrow> recv_segs env (single_request i sg) scat 0 0 pd m =
     bindR (set_scat scat (htonl (sg_length sg)) (htonl (sg_lkey sg)) (htonll (sg_addr sg)) m) (\<lambda>m. Inr (0, 1, pd, m))"
  by (subst recv_segs.simps, simp add: mlx5_set_data_ptr_seg_def plain_sge_def bindR_assoc)
    (subst recv_segs.simps, simp)

text \<open>One turn of the burst, and the entry of the plain variant, for the same segment.\<close>

definition burst_entry :: "mlx5_wq \<Rightarrow> bool \<Rightarrow> ibv_sge \<Rightarrow> u32 \<Rightarrow> memory \<Rightarrow> memory res" where
  "burst_entry rq one_sge sg ind m =
     bindR (set_scat (get_recv_wqe rq ind) (htonl (sg_length sg)) (htonl (sg_lkey sg)) (htonll (sg_addr sg)) m) (\<lambda>m.
       if one_sge then Inr m else set_data_ptr_seg_end (get_recv_wqe rq ind + 16) m)"

lemma burst_loop_entry:
  "burst_loop rq one_sge False (sg # sgs) ind m =
     bindR (burst_entry rq one_sge sg ind m) (burst_loop rq one_sge False sgs ((ind + 1) AND (wq_wqe_cnt rq - 1)))"
  by (simp add: burst_entry_def bindR_assoc Let_def)

lemma recv_entry_single:
  assumes "plain_sge sg" "\<not> q_wq_sig qp" "1 \<le> wq_max_gs (q_rq qp)"
  shows "recv_entry env qp (single_request i sg) ind nreq pd m =
    bindR (burst_entry (q_rq qp) (wq_max_gs (q_rq qp) = 1) sg ind m) (\<lambda>m. Inr (0, pd, m))"
proof -
  have "1 < wq_max_gs (q_rq qp) \<longleftrightarrow> wq_max_gs (q_rq qp) \<noteq> 1" using assms(3) by auto
  then show ?thesis using assms(1,2)
    by (cases "wq_max_gs (q_rq qp) = 1")
      (simp_all add: recv_entry_def burst_entry_def recv_segs_single bindR_assoc Let_def)
qed

lemma burst_loop_ids [simp]:
  "burst_loop (rq\<lparr>wq_wrid := ids\<rparr>) one_sge mp_rq sgs ind m = burst_loop rq one_sge mp_rq sgs ind m"
  by (induction sgs arbitrary: ind m) (simp_all add: get_recv_wqe_def Let_def cong: bindR_cong)

lemma burst_loop_posts:
  assumes "rq_geom qp m" "list_all plain_sge sgs" "length ids = length sgs" "\<not> q_wq_sig qp" "1 \<le> wq_max_gs (q_rq qp)"
    and "outstanding (q_rq qp) + nreq + length sgs \<le> unat (wq_max_post (q_rq qp))" "unat ind < rq_len (q_rq qp)"
  shows "\<exists>wrid m'. post_recv_loop env (map2 single_request ids sgs) nreq ind qp pd m =
      Inr (0, [], nreq + length sgs, with_ids qp wrid, pd, m') \<and> rq_geom (with_ids qp wrid) m' \<and>
    burst_loop (q_rq qp) (wq_max_gs (q_rq qp) = 1) False sgs ind m = Inr m'"
  using assms
proof (induction sgs arbitrary: ids nreq ind qp m)
  case Nil
  then show ?case by (intro exI [of _ "wq_wrid (q_rq qp)"] exI [of _ m]) (simp add: with_ids_def)
next
  case (Cons sg sgs)
  let ?rq = "q_rq qp" and ?ind = "(ind + 1) AND (wq_wqe_cnt (q_rq qp) - 1)"
  obtain i js where ids: "ids = i # js" "length js = length sgs" using Cons.prems(3) by (cases ids) auto
  have sg: "plain_sge sg" "list_all plain_sge sgs" using Cons.prems(2) by simp_all
  obtain m1 where m1: "recv_entry env qp (single_request i sg) ind nreq pd m = Inr (0, pd, m1)" "rq_geom qp m1"
    using recv_entry_ok [OF Cons.prems(1,7), of "single_request i sg" env nreq pd] sg(1) Cons.prems(5) by auto
  then have b: "burst_entry ?rq (wq_max_gs ?rq = 1) sg ind m = Inr m1"
    using recv_entry_single [OF sg(1) Cons.prems(4,5)] by (auto simp: bindR_eq_Inr)
  let ?q1 = "with_ids qp ((wq_wrid ?rq)[unat ind := i])"
  have len: "length (wq_wrid ?rq) = rq_len ?rq" by (rule rq_geomD(3) [OF Cons.prems(1)])
  have geom1: "rq_geom ?q1 m1" using m1(2) len by (simp add: rq_geom_ids)
  have cap: "unat (wq_max_post ?rq) \<le> rq_len ?rq" "rq_len ?rq \<le> 2147483648" using rq_geomD [OF Cons.prems(1)] by simp_all
  have "unat (wq_head ?rq - wq_tail ?rq + of_nat nreq) = outstanding ?rq + nreq"
    using Cons.prems(6) cap by (simp add: outstanding_def unat_word_ariths unat_of_nat)
  then have room: "\<not> mlx5_wq_overflow ?rq nreq"
    using Cons.prems(6) by (simp add: mlx5_wq_overflow_def word_less_nat_alt)
  have ind: "unat ?ind < rq_len (q_rq ?q1)"
    using rq_index [OF Cons.prems(1), of ind 1] rq_geomD(1) [OF Cons.prems(1)] by simp
  have "\<exists>wrid m'. post_recv_loop env (map2 single_request js sgs) (Suc nreq) ?ind ?q1 pd m1 =
      Inr (0, [], Suc nreq + length sgs, with_ids ?q1 wrid, pd, m') \<and> rq_geom (with_ids ?q1 wrid) m' \<and>
    burst_loop (q_rq ?q1) (wq_max_gs (q_rq ?q1) = 1) False sgs ?ind m1 = Inr m'"
    by (rule Cons.IH [OF geom1 sg(2) ids(2)]) (use Cons.prems ind in simp_all)
  then obtain wrid m' where m': "post_recv_loop env (map2 single_request js sgs) (Suc nreq) ?ind ?q1 pd m1 =
      Inr (0, [], Suc nreq + length sgs, with_ids qp wrid, pd, m')" "rq_geom (with_ids qp wrid) m'"
    "burst_loop ?rq (wq_max_gs ?rq = 1) False sgs ?ind m1 = Inr m'" by auto
  have "post_recv_loop env (map2 single_request ids (sg # sgs)) nreq ind qp pd m =
      post_recv_loop env (map2 single_request js sgs) (Suc nreq) ?ind ?q1 pd m1"
    using ids(1) m1(1) room Cons.prems(5,7) len by (simp add: with_ids_def)
  moreover have "burst_loop ?rq (wq_max_gs ?rq = 1) False (sg # sgs) ind m = Inr m'"
    unfolding burst_loop_entry b using m'(3) by simp
  ultimately show ?case using m'(1,2) by (intro exI [of _ wrid] exI [of _ m']) simp
qed

lemma recv_burst_posts:
  assumes "rq_ok qp m" "list_all plain_sge sgs" "sgs \<noteq> []" "length ids = length sgs" "\<not> q_wq_sig qp"
    and "1 \<le> wq_max_gs (q_rq qp)" "outstanding (q_rq qp) + length sgs \<le> unat (wq_max_post (q_rq qp))"
    and "\<not> ((q_type qp = IBV_QPT_RAW_ETH \<or> q_underlay qp) \<and> q_below_rtr qp)"
  shows "\<exists>qp' m'. mlx5_post_recv env (map2 single_request ids sgs) qp pd m = Inr (0, [], qp', pd, m') \<and>
    recv_burst (q_rq qp) (wq_max_gs (q_rq qp) = 1) False sgs m = Inr ((q_rq qp')\<lparr>wq_wrid := wq_wrid (q_rq qp)\<rparr>, m')"
proof -
  let ?rq = "q_rq qp" and ?ind = "wq_head (q_rq qp) AND (wq_wqe_cnt (q_rq qp) - 1)"
  have geom: "rq_geom qp m" using assms(1) by (simp add: rq_ok_def)
  have ind: "unat ?ind < rq_len ?rq"
    using rq_index [OF geom, of "wq_head ?rq" 0] rq_geomD(1) [OF geom] by simp
  obtain wrid m1 where r: "post_recv_loop env (map2 single_request ids sgs) 0 ?ind qp pd m =
      Inr (0, [], length sgs, with_ids qp wrid, pd, m1)" "rq_geom (with_ids qp wrid) m1"
    "burst_loop ?rq (wq_max_gs ?rq = 1) False sgs ?ind m = Inr m1"
    using burst_loop_posts [OF geom assms(2,4,5,6) _ ind, of 0 env pd] assms(7) by auto
  let ?h = "wq_head ?rq + of_nat (length sgs)"
  let ?m2 = "upd_bytes (wq_db ?rq) (le32 (htonl (?h AND 0xffff))) m1"
  let ?qp = "qp\<lparr>q_rq := ?rq\<lparr>wq_wrid := wrid, wq_head := ?h\<rparr>\<rparr>"
  have db: "mapped m1 (wq_db ?rq) 4" using r(2) by (simp add: rq_geom_def Let_def)
  have "mlx5_post_recv env (map2 single_request ids sgs) qp pd m = Inr (0, [], ?qp, pd, ?m2)"
    using r(1) db assms(3,8) by (auto simp: mlx5_post_recv_def Let_def with_ids_def store32_def)
  moreover have "recv_burst ?rq (wq_max_gs ?rq = 1) False sgs m = Inr ((q_rq ?qp)\<lparr>wq_wrid := wq_wrid ?rq\<rparr>, ?m2)"
    using r(3) db by (simp add: recv_burst_def Let_def store32_def)
  ultimately show ?thesis by blast
qed

end
