(* ===== verification/Qp_Samples.thy ===== *)
theory Qp_Samples
  imports Qp_Inline
begin

text \<open>
  A queue pair with a receive queue of four entries of two segments and a send queue of four entries,
  in zeroed memory, and a request that scatters a message over two places: the instances on which
  the properties of receive queues and of polling are tried.
\<close>

definition zero_memory :: memory where
  "zero_memory a = Some 0"

lemma zero_mapped [simp]: "mapped zero_memory a n"
  by (simp add: mapped_iff zero_memory_def)

text \<open>Surroundings without memory for on-demand regions, and a protection domain that has none.\<close>

definition no_regions :: ilkey_env where
  "no_regions = \<lparr>level1_mem = False, level2_mem = (\<lambda>_. False), exp_reg_mr = (\<lambda>_ _ _. None), exp_prefetch_mr = (\<lambda>_ _ _. 0)\<rparr>"

definition sample_pd :: mlx5_pd where
  "sample_pd = \<lparr>r_ilkey = \<lparr>il_table = None, il_access = {IBV_EXP_ACCESS_ON_DEMAND}\<rparr>,
     w_ilkey = \<lparr>il_table = None, il_access = {IBV_EXP_ACCESS_ON_DEMAND, IBV_EXP_ACCESS_LOCAL_WRITE}\<rparr>, remote_ilkey = None\<rparr>"

definition sample_rq :: mlx5_wq where
  "sample_rq = \<lparr>wq_wrid = [0, 0, 0, 0], wq_wqe_cnt = 4, wq_head = 0, wq_tail = 0, wq_max_post = 4, wq_max_gs = 2,
     wq_buff = 12288, wq_wqe_shift = 5, wq_db = 8448, wq_wr_data = []\<rparr>"

definition sample_sq :: mlx5_wq where
  "sample_sq = \<lparr>wq_wrid = [70, 71, 72, 73], wq_wqe_cnt = 4, wq_head = 2, wq_tail = 0, wq_max_post = 4, wq_max_gs = 2,
     wq_buff = 16384, wq_wqe_shift = 6, wq_db = 8452, wq_wr_data = replicate 4 IBV_WC_SEND\<rparr>"

definition sample_rq_qp :: mlx5_qp where
  "sample_rq_qp = \<lparr>q_rsn = 5, q_num = 5, q_type = IBV_QPT_RC, q_srq = 0, q_rq = sample_rq, q_sq = sample_sq,
     q_wqe_head = [0, 1, 0, 0], q_sqstart = 16384, q_sqend = 16640, q_scur_post = 2, q_ignore_rq_overflow = False,
     q_wq_sig = False, q_underlay = False, q_below_rtr = False, q_rx_csum = False, q_masked_endianness = 0,
     q_atomic_hca = False\<rparr>"

lemma sample_rq_qp_fields [simp]:
  "q_rq sample_rq_qp = sample_rq" "q_sq sample_rq_qp = sample_sq" "q_rsn sample_rq_qp = 5" "q_srq sample_rq_qp = 0"
  "q_ignore_rq_overflow sample_rq_qp = False" "q_type sample_rq_qp = IBV_QPT_RC" "q_underlay sample_rq_qp = False"
  "q_wq_sig sample_rq_qp = False" "q_below_rtr sample_rq_qp = False" "q_wqe_head sample_rq_qp = [0, 1, 0, 0]" "rq_len sample_rq = 4"
  "wq_wrid sample_rq = [0, 0, 0, 0]" "wq_head sample_rq = 0" "wq_tail sample_rq = 0" "wq_max_post sample_rq = 4"
  "wq_max_gs sample_rq = 2" "wq_buff sample_rq = 12288" "wq_wqe_shift sample_rq = 5" "wq_db sample_rq = 8448"
  "outstanding sample_rq = 0" "pending sample_rq = []" "wq_wqe_cnt sample_rq = 4"
  by (simp_all add: sample_rq_qp_def sample_rq_def rq_len_def outstanding_def pending_def ids_from_def)

lemma sample_rq_geom:
  assumes "mapped m 12288 128" "mapped m 8448 4"
  shows "rq_geom sample_rq_qp m"
proof -
  have "\<exists>k < 32. (4 :: nat) = 2 ^ k" by (rule exI [of _ 2]) simp
  then show ?thesis using assms by (simp add: rq_geom_def Let_def sig_room_def)
qed

lemma sample_rq_ok: "mapped m 12288 128 \<Longrightarrow> mapped m 8448 4 \<Longrightarrow> rq_ok sample_rq_qp m"
  by (simp add: rq_ok_def sample_rq_geom)

definition sample_request :: "u64 \<Rightarrow> recv_wr" where
  "sample_request i = \<lparr>rwr_id = i, rsg_list = Some [\<lparr>sg_addr = 64, sg_length = 2, sg_lkey = 3\<rparr>,
     \<lparr>sg_addr = 128, sg_length = 2, sg_lkey = 3\<rparr>], rnum_sge = 2\<rparr>"

lemma sample_request_plain [simp]: "plain_recv (sample_request i)" "rnum_sge (sample_request i) = 2" "rwr_id (sample_request i) = i"
  by (simp_all add: plain_recv_def recv_ok_def sample_request_def wr_sges_def deref_def read_int_def ODP_GLOBAL_R_LKEY_def
      ODP_GLOBAL_W_LKEY_def)

lemma sample_request_sges [simp]: "full_sges (sample_request i) =
    [\<lparr>sg_addr = 64, sg_length = 2, sg_lkey = 3\<rparr>, \<lparr>sg_addr = 128, sg_length = 2, sg_lkey = 3\<rparr>]"
  by (simp add: full_sges_def sample_request_def wr_sges_def)

end
