(* ===== verification/Qp_Props.thy ===== *)
theory Qp_Props
  imports Qp_Samples
begin

text \<open>
  What posting receives on a queue pair guarantees, the burst variant, and what becomes of data that
  comes inside a completion entry, each with an instance.
\<close>

section \<open>Posting\<close>

text \<open>C14: posting refines a queue of identifiers. On a receive queue whose entries lie in memory,
  a list of requests is admitted up to the first that finds the queue full or has more segments than
  an entry; the result is that request's error and the rest of the list; the identifiers of the
  admitted ones are appended to those outstanding, each has its entry in the ring, signed where the
  queue signs, and the doorbell record holds the new head when something was posted (for a raw queue,
  once it may receive).\<close>

theorem post_recv_appends:
  assumes "rq_ok qp m" and "\<forall>wr \<in> set wrs. plain_recv wr" and "\<not> q_ignore_rq_overflow qp"
    and "rq_admitted (wq_max_gs (q_rq qp)) (unat (wq_max_post (q_rq qp))) (outstanding (q_rq qp)) wrs = (k, err)"
  shows "\<exists>qp' m'. mlx5_post_recv env wrs qp pd m = Inr (err, drop k wrs, qp', pd, m') \<and> rq_ok qp' m' \<and>
    pending (q_rq qp') = pending (q_rq qp) @ map rwr_id (take k wrs) \<and>
    (\<forall>i < k. holds qp' m' ((unat (wq_head (q_rq qp)) + i) mod rq_len (q_rq qp)) (wq_head (q_rq qp) + of_nat i) (wrs ! i)) \<and>
    (0 < k \<and> \<not> ((q_type qp = IBV_QPT_RAW_ETH \<or> q_underlay qp) \<and> q_below_rtr qp) \<longrightarrow>
       bytes_at m' (wq_db (q_rq qp)) 4 = be32 (wq_head (q_rq qp') AND 0xffff))"
  using mlx5_post_recv_ok [OF assms, of env pd] by blast

theorem post_recv_appends_witness:
  "\<exists>qp' m'. mlx5_post_recv no_regions (map sample_request [1, 2, 3, 4, 5]) sample_rq_qp sample_pd zero_memory =
      Inr (ENOMEM, [sample_request 5], qp', sample_pd, m') \<and> pending (q_rq qp') = [1, 2, 3, 4]"
proof -
  have "rq_admitted (wq_max_gs (q_rq sample_rq_qp)) (unat (wq_max_post (q_rq sample_rq_qp))) (outstanding (q_rq sample_rq_qp))
      (map sample_request [1, 2, 3, 4, 5]) = (4, ENOMEM)" by simp
  then show ?thesis
    using post_recv_appends [OF sample_rq_ok, of zero_memory "map sample_request [1, 2, 3, 4, 5]" 4 ENOMEM no_regions sample_pd] by auto
qed

text \<open>C15: \<open>recv_burst\<close> posts what \<open>mlx5_post_recv\<close> posts. For segments that are not empty and name their
  region, on an unsigned queue with room for all of them, a burst leaves the same memory, the same
  head and the same doorbell record as posting a request of one segment for each; the identifiers
  alone are not kept.\<close>

theorem recv_burst_posts_same:
  assumes "rq_ok qp m" and "list_all plain_sge sgs" and "sgs \<noteq> []" and "length ids = length sgs" and "\<not> q_wq_sig qp"
    and "1 \<le> wq_max_gs (q_rq qp)" and "outstanding (q_rq qp) + length sgs \<le> unat (wq_max_post (q_rq qp))"
    and "\<not> ((q_type qp = IBV_QPT_RAW_ETH \<or> q_underlay qp) \<and> q_below_rtr qp)"
  shows "\<exists>qp' m'. mlx5_post_recv env (map2 single_request ids sgs) qp pd m = Inr (0, [], qp', pd, m') \<and>
    recv_burst (q_rq qp) (wq_max_gs (q_rq qp) = 1) False sgs m = Inr ((q_rq qp')\<lparr>wq_wrid := wq_wrid (q_rq qp)\<rparr>, m')"
  by (rule recv_burst_posts [OF assms])

theorem recv_burst_posts_same_witness:
  "\<exists>qp' m'. mlx5_post_recv no_regions [single_request 7 \<lparr>sg_addr = 64, sg_length = 8, sg_lkey = 3\<rparr>] sample_rq_qp sample_pd zero_memory =
      Inr (0, [], qp', sample_pd, m') \<and>
    recv_burst sample_rq False False [\<lparr>sg_addr = 64, sg_length = 8, sg_lkey = 3\<rparr>] zero_memory =
      Inr ((q_rq qp')\<lparr>wq_wrid := [0, 0, 0, 0]\<rparr>, m')"
  using recv_burst_posts_same [OF sample_rq_ok, of zero_memory "[\<lparr>sg_addr = 64, sg_length = 8, sg_lkey = 3\<rparr>]" "[7]" no_regions sample_pd]
  by (simp add: plain_sge_def ODP_GLOBAL_R_LKEY_def ODP_GLOBAL_W_LKEY_def)

section \<open>Data inside a completion entry\<close>

text \<open>C21: inline data arrives whole in the first segment only. \<open>copy_to_scat\<close> advances \<open>buf\<close>, which only
  the conversion of atomic results reads, and copies from \<open>buf2cpy\<close>, which keeps its first value: a message
  that fits the first segment is delivered, but of a longer one each further segment gets the first
  bytes of the message again, with success reported.\<close>

theorem inline_data_repeats_head:
  assumes "rq_geom qp m" and "unat idx < rq_len (q_rq qp)" and "holds qp m (unat idx) c wr" and "plain_recv wr"
    and "rnum_sge wr \<le> wq_max_gs (q_rq qp)" and "sgs = full_sges wr"
    and "targets_ok m sgs (rq_at (q_rq qp) (unat idx) + sig_room qp) (16 * length sgs) buf n"
    and "mapped m buf n" and "n \<le> total_length sgs" and "n < 2 ^ 31"
  shows "\<exists>m'. mlx5_copy_to_recv_wqe qp idx buf (int n) m = Inr (IBV_WC_SUCCESS, m') \<and>
    gathered m' sgs n = heads sgs n (bytes_at m buf n) \<and>
    (sgs \<noteq> [] \<and> n \<le> unat (sg_length (hd sgs)) \<longrightarrow> gathered m' sgs n = bytes_at m buf n)"
proof -
  have "heads sgs n (bytes_at m buf n) = bytes_at m buf n" if "sgs \<noteq> []" "n \<le> unat (sg_length (hd sgs))"
    using that by (cases sgs) (simp_all add: Let_def)
  then show ?thesis using copy_to_recv_wqe_heads [OF assms(1-10)] by fastforce
qed

text \<open>An entry of two segments of two bytes at 12288, and a message of three bytes at 1024.\<close>

definition two_segments :: memory where
  "two_segments = upd_bytes 12288 (rq_entry_bytes 2 (sample_request 7)) (upd_bytes 1024 [1, 2, 3] zero_memory)"

theorem inline_data_repeats_head_witness:
  "\<exists>m'. mlx5_copy_to_recv_wqe sample_rq_qp 0 1024 3 two_segments = Inr (IBV_WC_SUCCESS, m') \<and>
    bytes_at m' 64 2 @ bytes_at m' 128 1 = [1, 2, 1]"
proof -
  let ?sgs = "full_sges (sample_request 7)"
  have map: "mapped two_segments a n" for a n
    unfolding two_segments_def by (intro mapped_upd zero_mapped)
  have held: "holds sample_rq_qp two_segments 0 0 (sample_request 7)"
    by (simp add: holds_def Let_def two_segments_def rq_at_def sig_room_def)
  have msg: "bytes_at two_segments 1024 3 = [1, 2, 3]"
    unfolding two_segments_def
    by (subst bytes_at_disjoint, simp add: rq_entry_bytes_def byte_simps, rule bytes_at_same') simp
  have "targets_ok two_segments ?sgs 12288 32 1024 3" by (simp add: map apart_def)
  then show ?thesis
    using inline_data_repeats_head [OF sample_rq_geom, of two_segments 0 0 "sample_request 7" ?sgs 1024 3] held msg
    by (simp add: map total_length_def rq_at_def sig_room_def Let_def)
qed

end
