(* ===== verification/Poll_Types.thy ===== *)
theory Poll_Types
  imports Cq Qp
begin

text \<open>
  What polling a completion queue works on: the work completion it fills in, the objects that own the
  entries (queue pairs, shared receive queues, receive work queues, DC targets), the parts of the
  completion queue that only polling uses, and the fields of an entry. An entry is read as its 64
  bytes; it lies in the ring, or is the one a compressed session keeps in the queue (\<open>next_decomp_cqe64\<close>).
\<close>

section \<open>Work completions\<close>

text \<open>The bits of \<open>wc_flags\<close> and \<open>exp_wc_flags\<close>; a flag both have is one constructor.\<close>

datatype wc_flag = IBV_WC_GRH | IBV_WC_WITH_IMM | IBV_WC_WITH_INV
  | IBV_EXP_WC_QP | IBV_EXP_WC_SRQ | IBV_EXP_WC_DCT | IBV_EXP_WC_WITH_TIMESTAMP
  | IBV_EXP_WC_RX_TCP_UDP_CSUM_OK | IBV_EXP_WC_RX_IP_CSUM_OK | IBV_EXP_WC_RX_IPV4_PACKET
  | IBV_EXP_WC_RX_IPV6_PACKET | IBV_EXP_WC_MP_WR_MORE_IN_MSG | IBV_EXP_WC_MP_WR_CONSUMED
  | IBV_EXP_WC_TM_SYNC_REQ | IBV_EXP_WC_TM_MATCH | IBV_EXP_WC_TM_DATA_VALID
  | IBV_EXP_WC_TM_DEL_FAILED | IBV_EXP_WC_TM_RNDV_INCOMPLETE

text \<open>Pointers to verbs objects are the addresses of the driver's objects around them.\<close>

record exp_wc =
  w_wr_id :: u64
  w_status :: wc_status
  w_opcode :: wc_opcode
  w_vendor_err :: u32
  w_byte_len :: u32
  w_imm_data :: u32
  w_qp_num :: u32
  w_src_qp :: u32
  w_flags :: "wc_flag set"
  w_pkey_index :: u16
  w_slid :: u16
  w_sl :: u8
  w_dlid_path_bits :: u8
  w_timestamp :: u64
  w_qp :: nat
  w_srq :: nat
  w_dct :: nat
  w_exp_flags :: "wc_flag set"
  w_mp_strides_offset :: u32
  w_mp_byte_len :: u32
  w_tm_tag :: u64
  w_tm_priv :: u32

text \<open>
  The verbs headers are not part of the sources: where \<open>struct ibv_exp_wc\<close> has the fields whose place
  the code compares with the size of the caller's completions, or that lie behind the end of a plain
  \<open>struct ibv_wc\<close>, and where \<open>struct ibv_exp_tmh\<close> has its two fields.
\<close>

record verbs_layout =
  off_wc_timestamp :: nat
  off_wc_qp :: nat
  off_wc_srq :: nat
  off_wc_dct :: nat
  off_wc_mp_wr :: nat
  off_wc_tm_info :: nat
  off_wc_exp_flags :: nat
  off_tmh_app_ctx :: nat
  off_tmh_tag :: nat

section \<open>Objects\<close>

datatype rsc_type = RSC_QP | RSC_DCT | RSC_RWQ | RSC_MP_RWQ | RSC_XSRQ | RSC_SRQ | RSC_INVAL

text \<open>\<open>next\<close> and the pointers to tags are indices into \<open>tm_list\<close>; \<open>expect_cqe\<close> is an \<open>int8_t\<close>.\<close>

record mlx5_tag_entry =
  tag_next :: "nat option"
  tag_wr_id :: u64
  tag_phase_cnt :: u32
  tag_ptr :: nat
  tag_size :: u32
  tag_expect_cqe :: u8

record mlx5_srq_op =
  op_tag :: "nat option"
  op_wr_id :: u64
  op_wqe_head :: u32

text \<open>
  The fields of \<open>struct mlx5_srq\<close> beside those of \<open>Srq\<close>: strides of multi-packet entries (0 per entry on
  an ordinary queue), the tags and operations of tag matching. \<open>op_head\<close>, \<open>op_tail\<close>, \<open>unexp_in\<close>,
  \<open>unexp_out\<close> are \<open>int\<close>, kept as their 32 bits. \<open>cmd_qp\<close> is the address of a queue pair.
\<close>

record srq_object =
  so_rsn :: u32
  so_type :: rsc_type
  so_srq :: mlx5_srq
  strides_per_wqe :: u32
  consumed_strides :: "u32 list"
  cmd_qp :: nat
  tm_list :: "mlx5_tag_entry list"
  tm_head :: nat
  tm_tail :: nat
  srq_ops :: "mlx5_srq_op list"
  op_head :: u32
  op_tail :: u32
  unexp_in :: u32
  unexp_out :: u32

record mlx5_rwq =
  rw_rsn :: u32
  rw_rq :: mlx5_wq
  rw_rx_csum :: bool
  rw_strides_counter :: "u32 list"
  rw_stride_size :: u16
  rw_strides_in_wqe :: u32
  rw_packet_padding :: u8

datatype rsc_obj = Qp_obj mlx5_qp | Dct_obj u32 nat | Srq_obj srq_object
  | Rwq_obj mlx5_rwq | Mp_rwq_obj mlx5_rwq

fun rsc_type_of :: "rsc_obj \<Rightarrow> rsc_type" where
  "rsc_type_of (Qp_obj _) = RSC_QP"
| "rsc_type_of (Dct_obj _ _) = RSC_DCT"
| "rsc_type_of (Srq_obj s) = so_type s"
| "rsc_type_of (Rwq_obj _) = RSC_RWQ"
| "rsc_type_of (Mp_rwq_obj _) = RSC_MP_RWQ"

fun rsn_of :: "rsc_obj \<Rightarrow> u32" where
  "rsn_of (Qp_obj q) = q_rsn q"
| "rsn_of (Dct_obj n _) = n"
| "rsn_of (Srq_obj s) = so_rsn s"
| "rsn_of (Rwq_obj w) = rw_rsn w"
| "rsn_of (Mp_rwq_obj w) = rw_rsn w"

section \<open>The state of polling\<close>

text \<open>
  Peer-direct data of a queue: the entries lie in memory shared with the peer, eight bytes each (busy
  and next); the table and the list of free entries hold indices of entries, or the mark for none.
\<close>

record cq_peer =
  peer_buf :: nat
  peek_table :: "u32 list"
  peek_free :: u32
  poll_nor_dword :: bool

definition LAST_PEEK_ENTRY :: u32 where "LAST_PEEK_ENTRY = 0xFFFFFFFF"

record drv_cq =
  pc_q :: mlx5_cq
  pc_timestamp :: bool
  compressed_req :: bool
  compressed_rsc :: nat
  pc_peer :: "cq_peer option"
  stall_enable :: bool
  stall_adaptive_enable :: bool
  stall_next_poll :: bool
  stall_last_count :: u64
  stall_cycles :: int

text \<open>
  The queue, the objects by address, memory, and the two cursors that \<open>poll_cq\<close> keeps from one
  completion to the next (0 is \<open>NULL\<close>).
\<close>

record poll_state =
  ps_cq :: drv_cq
  ps_objs :: "nat \<Rightarrow> rsc_obj option"
  ps_mem :: memory
  ps_rsc :: nat
  ps_srq :: nat

text \<open>
  What does not change: the context's tables and version, the layout, and the file's global variables,
  which are set when the driver starts.
\<close>

record poll_env =
  pe_tables :: mlx5_tables
  pe_version :: u8
  pe_layout :: verbs_layout
  pe_freeze :: bool
  stall_cq_dec_step :: int
  stall_cq_inc_step :: int
  stall_cq_poll_min :: int
  stall_cq_poll_max :: int

abbreviation ps_q :: "poll_state \<Rightarrow> mlx5_cq" where
  "ps_q st \<equiv> pc_q (ps_cq st)"

abbreviation set_q :: "mlx5_cq \<Rightarrow> poll_state \<Rightarrow> poll_state" where
  "set_q q st \<equiv> st\<lparr>ps_cq := (ps_cq st)\<lparr>pc_q := q\<rparr>\<rparr>"

definition get_obj :: "poll_state \<Rightarrow> nat \<Rightarrow> rsc_obj res" where
  "get_obj st a = (if a = 0 then Inl (Fault NullDeref) else of_option (Fault BadAddress) (ps_objs st a))"

definition put_obj :: "nat \<Rightarrow> rsc_obj \<Rightarrow> poll_state \<Rightarrow> poll_state" where
  "put_obj a ob st = st\<lparr>ps_objs := (ps_objs st)(a \<mapsto> ob)\<rparr>"

text \<open>The pointers to a queue pair and to a shared receive queue: the code casts without a look.\<close>

definition get_qp :: "poll_state \<Rightarrow> nat \<Rightarrow> mlx5_qp res" where
  "get_qp st a = bindR (get_obj st a) (\<lambda>ob. case ob of Qp_obj q \<Rightarrow> Inr q | _ \<Rightarrow> Inl (Fault WrongType))"

definition get_srq :: "poll_state \<Rightarrow> nat \<Rightarrow> srq_object res" where
  "get_srq st a = bindR (get_obj st a) (\<lambda>ob. case ob of Srq_obj s \<Rightarrow> Inr s | _ \<Rightarrow> Inl (Fault WrongType))"

abbreviation put_qp :: "nat \<Rightarrow> mlx5_qp \<Rightarrow> poll_state \<Rightarrow> poll_state" where
  "put_qp a q \<equiv> put_obj a (Qp_obj q)"

abbreviation put_srq :: "nat \<Rightarrow> srq_object \<Rightarrow> poll_state \<Rightarrow> poll_state" where
  "put_srq a s \<equiv> put_obj a (Srq_obj s)"

section \<open>Fields of an entry\<close>

type_synonym cqe64 = "u8 list"

definition b8 :: "cqe64 \<Rightarrow> nat \<Rightarrow> u8" where
  "b8 c off = hd (drop off c)"

definition b16 :: "cqe64 \<Rightarrow> nat \<Rightarrow> u16" where
  "b16 c off = of_le16 (take 2 (drop off c))"

definition b32 :: "cqe64 \<Rightarrow> nat \<Rightarrow> u32" where
  "b32 c off = of_le32 (take 4 (drop off c))"

definition b64 :: "cqe64 \<Rightarrow> nat \<Rightarrow> u64" where
  "b64 c off = of_le64 (take 8 (drop off c))"

definition c_opcode :: "cqe64 \<Rightarrow> u8" where "c_opcode c = drop_bit 4 (b8 c 63)"
definition c_format :: "cqe64 \<Rightarrow> u8" where "c_format c = drop_bit 2 (b8 c 63 AND 0xc)"
definition c_stride_index :: "cqe64 \<Rightarrow> u16" where "c_stride_index c = ntohs (b16 c 20)"
definition c_flags_rqpn :: "cqe64 \<Rightarrow> u32" where "c_flags_rqpn c = ntohl (b32 c 24)"
definition c_srqn_uidx :: "cqe64 \<Rightarrow> u32" where "c_srqn_uidx c = ntohl (b32 c 32)"
definition c_imm :: "cqe64 \<Rightarrow> u32" where "c_imm c = b32 c 36"
definition c_byte_cnt :: "cqe64 \<Rightarrow> u32" where "c_byte_cnt c = ntohl (b32 c 44)"
definition c_sop_qpn :: "cqe64 \<Rightarrow> u32" where "c_sop_qpn c = ntohl (b32 c 56)"
definition c_wqe_counter :: "cqe64 \<Rightarrow> u16" where "c_wqe_counter c = ntohs (b16 c 60)"

text \<open>Of \<open>struct mlx5_err_cqe\<close>.\<close>

definition e_vendor_synd :: "cqe64 \<Rightarrow> u8" where "e_vendor_synd c = b8 c 54"
definition e_syndrome :: "cqe64 \<Rightarrow> u8" where "e_syndrome c = b8 c 55"

text \<open>Bytes \<open>bs\<close> written at offset \<open>off\<close>.\<close>

definition patch :: "nat \<Rightarrow> u8 list \<Rightarrow> cqe64 \<Rightarrow> cqe64" where
  "patch off bs c = take off c @ bs @ drop (off + length bs) c"

datatype cqe_loc = Ring nat | Title

definition cqe_at :: "poll_state \<Rightarrow> cqe_loc \<Rightarrow> cqe64 res" where
  "cqe_at st loc = (case loc of Ring a \<Rightarrow> load_bytes a 64 (ps_mem st) | Title \<Rightarrow> Inr (next_decomp (ps_q st)))"

text \<open>
  The pointers \<open>cqe64\<close> and \<open>cqe64 - 1\<close> to data inside the entry. The kept entry has no address in the
  model: its format says compressed, so it holds no data.
\<close>

definition inline_at :: "cqe_loc \<Rightarrow> bool \<Rightarrow> nat res" where
  "inline_at loc before = (case loc of Ring a \<Rightarrow> Inr (if before then a - 64 else a) | Title \<Rightarrow> Inl (Fault BadAddress))"

end
