(* ===== verification/Cq_Handlers.thy ===== *)
theory Cq_Handlers
  imports Poll_Types
begin

text \<open>
  The parts of \<open>mlx5_poll_one\<close> in \<open>cq.c\<close>: finding the next entry (with the peek entries of a peer), the
  lazy expansion of a compressed session, and the handlers that turn an entry into a work completion:
  of a send, of a receive, of a multi-packet receive, of an error.
\<close>

section \<open>The next entry\<close>

text \<open>
  The loop of \<open>get_next_cqe\<close> over the peek entries at index \<open>idx\<close>: \<open>False\<close> when one is still busy
  (\<open>EBUSY\<close>). \<open>PEEK_ENTRY\<close> turns the stored index into a pointer. \<open>None\<close> means the fuel ran out.
\<close>

fun reclaim_peeks :: "nat \<Rightarrow> nat \<Rightarrow> cq_peer \<Rightarrow> memory \<Rightarrow> (bool \<times> cq_peer \<times> memory) res option" where
  "reclaim_peeks 0 idx p m = None"
| "reclaim_peeks (Suc n) idx p m =
     (case read_at (peek_table p) idx of
        Inl e \<Rightarrow> Some (Inl e)
      | Inr pe \<Rightarrow>
          if pe = LAST_PEEK_ENTRY then Some (Inr (True, p, m))
          else let a = peer_buf p + 8 * unat pe in
               case bindR (load32 a m) (\<lambda>busy. bindR (load32 (a + 4) m) (\<lambda>nxt. Inr (busy, nxt))) of
                 Inl e \<Rightarrow> Some (Inl e)
               | Inr (busy, nxt) \<Rightarrow>
                   if busy \<noteq> 0 then Some (Inr (False, p, m))
                   else (case store32 (a + 4) (peek_free p) m of
                           Inl e \<Rightarrow> Some (Inl e)
                         | Inr m' \<Rightarrow> reclaim_peeks n idx
                             (p\<lparr>peek_table := (peek_table p)[idx := nxt], peek_free := pe\<rparr>) m'))"

definition is_sw_own :: "mlx5_cq \<Rightarrow> u8 \<Rightarrow> bool" where
  "is_sw_own q b \<longleftrightarrow> cqe_opcode b \<noteq> MLX5_CQE_INVALID \<and>
     (b AND MLX5_CQE_OWNER_MASK \<noteq> 0) = (cq_cons q AND (cq_cqe q + 1) \<noteq> 0)"

definition ring_entry :: "nat \<Rightarrow> poll_state \<Rightarrow> (cqe_loc option \<times> poll_state) res" where
  "ring_entry cqe_sz st =
     (let q = ps_q st; cqe = cq_buf q + unat (cq_cons q AND cq_cqe q) * cqe_sz; cqe64 = cqe64_of cqe_sz cqe in
      bindR (op_own_of cqe64 (ps_mem st)) (\<lambda>b. Inr (if is_sw_own q b then Some (Ring cqe64) else None, st)))"

definition get_next_cqe :: "nat \<Rightarrow> nat \<Rightarrow> poll_state \<Rightarrow> (cqe_loc option \<times> poll_state) res option" where
  "get_next_cqe fuel cqe_sz st =
     (let q = ps_q st in
      if compressed_left q \<noteq> 0 then Some (Inr (Some Title, st))
      else case pc_peer (ps_cq st) of
        None \<Rightarrow> Some (ring_entry cqe_sz st)
      | Some p \<Rightarrow>
          (case reclaim_peeks fuel (unat (cq_cons q AND cq_cqe q)) p (ps_mem st) of
             None \<Rightarrow> None
           | Some (Inl e) \<Rightarrow> Some (Inl e)
           | Some (Inr (free, p, m)) \<Rightarrow>
               let st = st\<lparr>ps_cq := (ps_cq st)\<lparr>pc_peer := Some p\<rparr>, ps_mem := m\<rparr> in
               Some (if free then ring_entry cqe_sz st else Inr (None, st))))"

section \<open>Lazy expansion of a compressed session\<close>

text \<open>The object of an entry; \<open>find_rsc\<close> of the expansion, with the version the caller says.\<close>

definition lookup_rsc :: "poll_env \<Rightarrow> bool \<Rightarrow> cqe64 \<Rightarrow> nat res" where
  "lookup_rsc env cqe_ver c =
     (if cqe_ver then mlx5_find_uidx (pe_tables env) (c_srqn_uidx c AND 0xffffff)
      else mlx5_find_rsc (pe_tables env) (c_sop_qpn c AND 0xffffff))"

text \<open>The two loops of \<open>update_cqe_ownership\<close>: \<open>op_own\<close> of \<open>n\<close> entries from address \<open>a\<close> on.\<close>

fun set_owned :: "nat \<Rightarrow> nat \<Rightarrow> nat \<Rightarrow> u8 \<Rightarrow> memory \<Rightarrow> memory res" where
  "set_owned 0 a sz b m = Inr m"
| "set_owned (Suc n) a sz b m = bindR (store8 (a + 63) b m) (set_owned n (a + sz) sz b)"

definition update_cqe_ownership :: "mlx5_cq \<Rightarrow> nat \<Rightarrow> memory \<Rightarrow> memory res" where
  "update_cqe_ownership q n m =
     (let opown = ucast (drop_bit (cq_log_size q) (cq_cons q)) AND 1 :: u8;
          idx = cq_cons q AND cq_cqe q; step = cq_sz q div 64 * 64;
          first = min n (unat (cq_cqe q) + 1 - unat idx) in
      bindR (set_owned first (get_cqe q idx) step opown m)
        (set_owned (n - first) (get_cqe q 0) step (if opown = 0 then 1 else 0)))"

definition save_mini_arr :: "u32 \<Rightarrow> mlx5_cq \<Rightarrow> memory \<Rightarrow> (mlx5_cq \<times> memory) res" where
  "save_mini_arr cqe_idx q m =
     bindR (load_bytes (get_cqe q (cqe_idx AND cq_cqe q)) 64 m) (\<lambda>mini.
       let q = q\<lparr>mini_array := mini, mini_arr_idx := 0\<rparr> in
       bindR (update_cqe_ownership q (min (unat (compressed_left q)) MLX5_MINI_ARR_SIZE) m) (\<lambda>m. Inr (q, m)))"

definition is_mp_rwq_obj :: "poll_state \<Rightarrow> nat \<Rightarrow> bool res" where
  "is_mp_rwq_obj st a =
     (if a = 0 then Inr False else bindR (get_obj st a) (\<lambda>ob. Inr (rsc_type_of ob = RSC_MP_RWQ)))"

definition save_title :: "poll_env \<Rightarrow> u32 \<Rightarrow> bool \<Rightarrow> poll_state \<Rightarrow> poll_state res" where
  "save_title env cqe_idx rx_only st =
     (let q = ps_q st in
      bindR (load_bytes (get_cqe q (cqe_idx AND cq_cqe q)) 64 (ps_mem st)) (\<lambda>c.
        let req = is_requestor (c_opcode c) in
        bindR (if rx_only \<and> req then Inr 0 else lookup_rsc env (pe_version env \<noteq> 0) c) (\<lambda>rsc.
        bindR (is_mp_rwq_obj st rsc) (\<lambda>mp.
          let q = q\<lparr>next_decomp := c, compressed_left := ucast (c_byte_cnt c),
                    compressed_wqe_cnt := c_wqe_counter c, compressed_mp_rq := mp\<rparr> in
          Inr (st\<lparr>ps_cq := (ps_cq st)\<lparr>pc_q := q, compressed_req := req, compressed_rsc := rsc\<rparr>\<rparr>)))))"

text \<open>The next pair of the session, from the array at hand or the next one.\<close>

definition next_mini :: "mlx5_cq \<Rightarrow> memory \<Rightarrow> (u8 list \<times> mlx5_cq \<times> memory) res" where
  "next_mini q m =
     bindR (if mini_arr_idx q = MLX5_MINI_ARR_SIZE then save_mini_arr (cq_cons q) q m else Inr (q, m)) (\<lambda>(q, m).
     bindR (mini_ent (mini_array q) (mini_arr_idx q)) (\<lambda>ent. Inr (ent, q, m)))"

definition decomp_next_cqe :: "poll_state \<Rightarrow> poll_state res" where
  "decomp_next_cqe st =
     bindR (next_mini (ps_q st) (ps_mem st)) (\<lambda>(ent, q, m).
       let c = patch 44 (drop 4 ent) (next_decomp q);
           q' = (if compressed_req (ps_cq st)
                 then q\<lparr>next_decomp := patch 56 (take 1 (drop 2 ent)) (patch 60 (take 2 ent) c)\<rparr>
                 else q\<lparr>next_decomp := patch 60 (le16 (htons (compressed_wqe_cnt q))) (patch 12 (take 4 ent) c),
                        compressed_wqe_cnt := compressed_wqe_cnt q + wqe_cnt_step (compressed_mp_rq q) ent\<rparr>) in
       Inr ((set_q (q'\<lparr>mini_arr_idx := mini_arr_idx q + 1, compressed_left := compressed_left q - 1\<rparr>) st)\<lparr>ps_mem := m\<rparr>))"

text \<open>The variant for receive completions alone; also the byte count of the pair.\<close>

definition acc_rx_decomp_next_cqe :: "poll_state \<Rightarrow> (u32 \<times> poll_state) res" where
  "acc_rx_decomp_next_cqe st =
     bindR (next_mini (ps_q st) (ps_mem st)) (\<lambda>(ent, q, m).
       Inr (ntohl (of_le32 (drop 4 ent)),
            (set_q (q\<lparr>next_decomp := patch 60 (le16 (htons (compressed_wqe_cnt q))) (next_decomp q),
                      compressed_wqe_cnt := compressed_wqe_cnt q + wqe_cnt_step (compressed_mp_rq q) ent,
                      mini_arr_idx := mini_arr_idx q + 1, compressed_left := compressed_left q - 1\<rparr>) st)\<lparr>ps_mem := m\<rparr>))"

definition start_session :: "poll_env \<Rightarrow> bool \<Rightarrow> poll_state \<Rightarrow> poll_state res" where
  "start_session env rx_only st =
     (if compressed_left (ps_q st) \<noteq> 0 then Inr st
      else bindR (save_title env (cq_cons (ps_q st)) rx_only st) (\<lambda>st.
           bindR (save_mini_arr (cq_cons (ps_q st) + 1) (ps_q st) (ps_mem st)) (\<lambda>(q, m).
             Inr ((set_q q st)\<lparr>ps_mem := m\<rparr>))))"

definition mlx5_decompress_cqe :: "poll_env \<Rightarrow> poll_state \<Rightarrow> poll_state res" where
  "mlx5_decompress_cqe env st = bindR (start_session env False st) decomp_next_cqe"

definition mlx5_acc_rx_decompress_cqe :: "poll_env \<Rightarrow> poll_state \<Rightarrow> (u32 \<times> poll_state) res" where
  "mlx5_acc_rx_decompress_cqe env st = bindR (start_session env True st) acc_rx_decomp_next_cqe"

section \<open>Sends\<close>

text \<open>The send opcode decides the completion's; an opcode the code does not name leaves it.\<close>

definition handle_good_req :: "cqe64 \<Rightarrow> mlx5_wq \<Rightarrow> nat \<Rightarrow> exp_wc \<Rightarrow> exp_wc res" where
  "handle_good_req c wq idx wc =
     (let op = drop_bit 24 (c_sop_qpn c); imm = insert IBV_WC_WITH_IMM (w_flags wc) in
      if op = 0x09 then Inr (wc\<lparr>w_flags := imm, w_opcode := IBV_WC_RDMA_WRITE\<rparr>)
      else if op = 0x08 then Inr (wc\<lparr>w_opcode := IBV_WC_RDMA_WRITE\<rparr>)
      else if op = 0x0b then Inr (wc\<lparr>w_flags := imm, w_opcode := IBV_WC_SEND\<rparr>)
      else if op = 0x0a \<or> op = 0x01 then Inr (wc\<lparr>w_opcode := IBV_WC_SEND\<rparr>)
      else if op = 0x10 then Inr (wc\<lparr>w_opcode := IBV_WC_RDMA_READ, w_byte_len := c_byte_cnt c\<rparr>)
      else if op = 0x11 then Inr (wc\<lparr>w_opcode := IBV_WC_COMP_SWAP, w_byte_len := 8\<rparr>)
      else if op = 0x12 then Inr (wc\<lparr>w_opcode := IBV_WC_FETCH_ADD, w_byte_len := 8\<rparr>)
      else if op = 0x25 then bindR (read_at (wq_wr_data wq) idx) (\<lambda>oc. Inr (wc\<lparr>w_opcode := oc\<rparr>))
      else if op = 0x14 then Inr (wc\<lparr>w_opcode := IBV_EXP_WC_MASKED_COMP_SWAP, w_byte_len := c_byte_cnt c\<rparr>)
      else if op = 0x15 then Inr (wc\<lparr>w_opcode := IBV_EXP_WC_MASKED_FETCH_ADD, w_byte_len := c_byte_cnt c\<rparr>)
      else if op = 0x0e then Inr (wc\<lparr>w_opcode := IBV_EXP_WC_TSO\<rparr>)
      else Inr wc)"

section \<open>Receives\<close>

definition MP_RQ_NUM_STRIDES :: "u32 \<Rightarrow> u32" where
  "MP_RQ_NUM_STRIDES byte_cnt = drop_bit 16 (byte_cnt AND 0x3FFF0000)"

definition count_mp_wr_strides :: "u16 \<Rightarrow> u32 \<Rightarrow> srq_object \<Rightarrow> srq_object res" where
  "count_mp_wr_strides ctr byte_cnt s =
     bindR (read_at (consumed_strides s) (unat ctr)) (\<lambda>n.
       Inr (s\<lparr>consumed_strides := (consumed_strides s)[unat ctr := n + MP_RQ_NUM_STRIDES byte_cnt]\<rparr>))"

definition is_mp_wr_consumed :: "u16 \<Rightarrow> srq_object \<Rightarrow> (bool \<times> srq_object) res" where
  "is_mp_wr_consumed ctr s =
     bindR (read_at (consumed_strides s) (unat ctr)) (\<lambda>n.
       if strides_per_wqe s = n then Inr (True, s\<lparr>consumed_strides := (consumed_strides s)[unat ctr := 0]\<rparr>)
       else Inr (False, s))"

text \<open>\<open>mlx5_free_srq_wqe\<close> on the object; \<open>wrid[ctr]\<close> of its queue.\<close>

definition free_wqe :: "u16 \<Rightarrow> srq_object \<Rightarrow> memory \<Rightarrow> (srq_object \<times> memory) res" where
  "free_wqe ctr s m = bindR (mlx5_free_srq_wqe (unat ctr) (so_srq s) m) (\<lambda>(q, m). Inr (s\<lparr>so_srq := q\<rparr>, m))"

definition srq_wr_id :: "u16 \<Rightarrow> srq_object \<Rightarrow> u64 res" where
  "srq_wr_id ctr s = read_at (srq_wrid (so_srq s)) (unat ctr)"

text \<open>
  A field of the completion that lies behind the size the caller gave is outside the caller's
  completion: writing it is a fault.
\<close>

definition within :: "nat \<Rightarrow> nat \<Rightarrow> unit res" where
  "within wc_size off = assertR (off < wc_size) (Fault OutOfBounds)"

definition handle_strwq_cqe :: "verbs_layout \<Rightarrow> nat \<Rightarrow> cqe64 \<Rightarrow> u16 \<Rightarrow> u32 \<Rightarrow> srq_object \<Rightarrow> memory \<Rightarrow> exp_wc \<Rightarrow>
    wc_flag set \<Rightarrow> (srq_object \<times> memory \<times> exp_wc \<times> wc_flag set) res" where
  "handle_strwq_cqe lay wc_size c ctr byte_cnt s m wc fl =
     bindR (if c_opcode c \<noteq> MLX5_CQE_RESP_WR_IMM
            then let fl = (if byte_cnt AND 0x40000000 = 0 then insert IBV_EXP_WC_MP_WR_MORE_IN_MSG fl else fl) in
                 bindR (within wc_size (off_wc_mp_wr lay)) (\<lambda>_.
                 bindR (count_mp_wr_strides ctr byte_cnt s) (\<lambda>s.
                   Inr (s, wc\<lparr>w_mp_strides_offset := ucast (c_stride_index c),
                              w_mp_byte_len := byte_cnt AND 0x0000FFFF\<rparr>, fl)))
            else bindR (read_at (consumed_strides s) (unat ctr)) (\<lambda>n.
                   Inr (s\<lparr>consumed_strides := (consumed_strides s)[unat ctr := n + 1]\<rparr>, wc\<lparr>w_byte_len := byte_cnt\<rparr>, fl)))
       (\<lambda>(s, wc, fl).
         bindR (is_mp_wr_consumed ctr s) (\<lambda>(consumed, s).
           if consumed
           then bindR (free_wqe ctr s m) (\<lambda>(s, m). Inr (s, m, wc, insert IBV_EXP_WC_MP_WR_CONSUMED fl))
           else Inr (s, m, wc, fl)))"

text \<open>The formats of an entry with data: in the entry itself, or in the 64 bytes before it too.\<close>

definition MLX5_INLINE_DATA32_SEG :: u8 where "MLX5_INLINE_DATA32_SEG = 1"
definition MLX5_INLINE_DATA64_SEG :: u8 where "MLX5_INLINE_DATA64_SEG = 2"

definition inline_data :: "cqe_loc \<Rightarrow> cqe64 \<Rightarrow> nat option res" where
  "inline_data loc c =
     (if c_format c = MLX5_INLINE_DATA32_SEG then bindR (inline_at loc False) (\<lambda>a. Inr (Some a))
      else if c_format c = MLX5_INLINE_DATA64_SEG then bindR (inline_at loc True) (\<lambda>a. Inr (Some a))
      else Inr None)"

text \<open>The first half of \<open>handle_responder\<close>: the receive entry taken, and the data delivered. \<open>byte_cnt\<close>
  becomes an \<open>int\<close> argument.\<close>

definition resp_srq :: "verbs_layout \<Rightarrow> nat \<Rightarrow> cqe64 \<Rightarrow> cqe_loc \<Rightarrow> nat \<Rightarrow> poll_state \<Rightarrow> exp_wc \<Rightarrow> wc_flag set \<Rightarrow>
    (wc_status \<times> poll_state \<times> exp_wc \<times> wc_flag set) res" where
  "resp_srq lay wc_size c loc srq st wc fl =
     bindR (get_srq st srq) (\<lambda>s. let ctr = c_wqe_counter c in
     bindR (srq_wr_id ctr s) (\<lambda>id. let wc = wc\<lparr>w_wr_id := id\<rparr> in
       if strides_per_wqe s \<noteq> 0
       then if c_format c = MLX5_INLINE_DATA32_SEG \<or> c_format c = MLX5_INLINE_DATA64_SEG
            then Inr (IBV_WC_POLL_ERR, st, wc, fl)
            else bindR (handle_strwq_cqe lay wc_size c ctr (c_byte_cnt c) s (ps_mem st) wc fl) (\<lambda>(s, m, wc, fl).
                   Inr (IBV_WC_SUCCESS, (put_srq srq s st)\<lparr>ps_mem := m\<rparr>, wc, fl))
       else let wc = wc\<lparr>w_byte_len := c_byte_cnt c\<rparr> in
            bindR (free_wqe ctr s (ps_mem st)) (\<lambda>(s, m).
            let st = put_srq srq s st in
            bindR (inline_data loc c) (\<lambda>d.
              case d of None \<Rightarrow> Inr (IBV_WC_SUCCESS, st\<lparr>ps_mem := m\<rparr>, wc, fl)
              | Some a \<Rightarrow> bindR (mlx5_copy_to_recv_srq (so_srq s) (unat ctr) a (sint (c_byte_cnt c)) m) (\<lambda>(ok, m).
                  Inr (if ok then IBV_WC_SUCCESS else IBV_WC_LOC_LEN_ERR, st\<lparr>ps_mem := m\<rparr>, wc, fl))))))"

definition resp_rq :: "cqe64 \<Rightarrow> cqe_loc \<Rightarrow> nat \<Rightarrow> poll_state \<Rightarrow> exp_wc \<Rightarrow> (wc_status \<times> poll_state \<times> exp_wc) res" where
  "resp_rq c loc qp st wc =
     bindR (get_qp st qp) (\<lambda>q. let wq = q_rq q; ctr = wq_tail wq AND (wq_wqe_cnt wq - 1) in
     bindR (read_at (wq_wrid wq) (unat (ucast ctr :: u16))) (\<lambda>id.
       let wc = wc\<lparr>w_wr_id := id, w_byte_len := c_byte_cnt c\<rparr>;
           q = q\<lparr>q_rq := wq\<lparr>wq_tail := wq_tail wq + 1\<rparr>\<rparr>; st = put_qp qp q st in
       bindR (inline_data loc c) (\<lambda>d.
         case d of None \<Rightarrow> Inr (IBV_WC_SUCCESS, st, wc)
         | Some a \<Rightarrow> bindR (mlx5_copy_to_recv_wqe q (ucast (ucast ctr :: u16)) a (sint (c_byte_cnt c)) (ps_mem st))
             (\<lambda>(err, m). Inr (err, st\<lparr>ps_mem := m\<rparr>, wc)))))"

text \<open>The second half: what the entry says of the message.\<close>

definition resp_opcode :: "cqe64 \<Rightarrow> exp_wc \<Rightarrow> exp_wc" where
  "resp_opcode c wc =
     (let op = c_opcode c; imm = insert IBV_WC_WITH_IMM (w_flags wc) in
      if op = MLX5_CQE_RESP_WR_IMM
      then wc\<lparr>w_opcode := IBV_WC_RECV_RDMA_WITH_IMM, w_flags := imm, w_imm_data := c_imm c\<rparr>
      else if op = MLX5_CQE_RESP_SEND then wc\<lparr>w_opcode := IBV_WC_RECV\<rparr>
      else if op = MLX5_CQE_RESP_SEND_IMM
      then wc\<lparr>w_opcode := IBV_WC_RECV, w_flags := imm, w_imm_data := c_imm c\<rparr>
      else if op = MLX5_CQE_RESP_SEND_INV
      then wc\<lparr>w_opcode := IBV_WC_RECV, w_flags := insert IBV_WC_WITH_INV (w_flags wc), w_imm_data := ntohl (c_imm c)\<rparr>
      else wc)"

definition resp_source :: "cqe64 \<Rightarrow> nat \<Rightarrow> nat \<Rightarrow> rsc_type \<Rightarrow> poll_state \<Rightarrow> u32 res" where
  "resp_source c qp srq type st =
     (let own = Inr (c_flags_rqpn c AND 0xffffff); num = bindR (get_srq st srq) (\<lambda>s. Inr (srq_srqn (so_srq s))) in
      if srq \<noteq> 0 \<and> type \<noteq> RSC_DCT
      then if type = RSC_INVAL \<or> type = RSC_XSRQ then num
           else bindR (get_qp st qp) (\<lambda>q. if q_type q = IBV_QPT_XRC_RECV \<or> q_type q = IBV_QPT_XRC then num else own)
      else own)"

definition resp_fields :: "cqe64 \<Rightarrow> nat \<Rightarrow> nat \<Rightarrow> rsc_type \<Rightarrow> poll_state \<Rightarrow> exp_wc \<Rightarrow> exp_wc res" where
  "resp_fields c qp srq type st wc =
     (let wc = (resp_opcode c wc)\<lparr>w_slid := ntohs (b16 c 22), w_sl := ucast (drop_bit 24 (c_flags_rqpn c)) AND 0xf\<rparr> in
      bindR (resp_source c qp srq type st) (\<lambda>src.
      let wc = wc\<lparr>w_src_qp := src, w_dlid_path_bits := b8 c 17 AND 0x7f\<rparr> in
      bindR (if qp \<noteq> 0 then bindR (get_qp st qp) (\<lambda>q. Inr (q_type q = IBV_QPT_UD)) else Inr False) (\<lambda>ud.
        let wc = (if (ud \<or> type = RSC_DCT) \<and> drop_bit 28 (c_flags_rqpn c) AND 3 \<noteq> 0
                  then wc\<lparr>w_flags := insert IBV_WC_GRH (w_flags wc)\<rparr> else wc) in
        Inr (wc\<lparr>w_pkey_index := ucast (ntohl (c_imm c) AND 0xffff)\<rparr>))))"

definition handle_responder :: "verbs_layout \<Rightarrow> nat \<Rightarrow> cqe64 \<Rightarrow> cqe_loc \<Rightarrow> nat \<Rightarrow> nat \<Rightarrow> rsc_type \<Rightarrow> poll_state \<Rightarrow>
    exp_wc \<Rightarrow> wc_flag set \<Rightarrow> (wc_status \<times> poll_state \<times> exp_wc \<times> wc_flag set) res" where
  "handle_responder lay wc_size c loc qp srq type st wc fl =
     bindR (if srq \<noteq> 0 then resp_srq lay wc_size c loc srq st wc fl
            else bindR (resp_rq c loc qp st wc) (\<lambda>(err, st, wc). Inr (err, st, wc, fl))) (\<lambda>(err, st, wc, fl).
       if err \<noteq> IBV_WC_SUCCESS then Inr (err, st, wc, fl)
       else bindR (resp_fields c qp srq type st wc) (\<lambda>wc. Inr (IBV_WC_SUCCESS, st, wc, fl)))"

section \<open>Errors\<close>

definition syndrome_status :: "u8 \<Rightarrow> wc_status" where
  "syndrome_status s =
     (if s = 0x01 then IBV_WC_LOC_LEN_ERR
      else if s = 0x02 then IBV_WC_LOC_QP_OP_ERR
      else if s = 0x04 then IBV_WC_LOC_PROT_ERR
      else if s = 0x05 then IBV_WC_WR_FLUSH_ERR
      else if s = 0x06 then IBV_WC_MW_BIND_ERR
      else if s = 0x10 then IBV_WC_BAD_RESP_ERR
      else if s = 0x11 then IBV_WC_LOC_ACCESS_ERR
      else if s = 0x12 then IBV_WC_REM_INV_REQ_ERR
      else if s = 0x13 then IBV_WC_REM_ACCESS_ERR
      else if s = 0x14 then IBV_WC_REM_OP_ERR
      else if s = 0x15 then IBV_WC_RETRY_EXC_ERR
      else if s = 0x16 then IBV_WC_RNR_RETRY_EXC_ERR
      else if s = 0x22 then IBV_WC_REM_ABORT_ERR
      else IBV_WC_GENERAL_ERR)"

definition mlx5_handle_error_cqe :: "cqe64 \<Rightarrow> exp_wc \<Rightarrow> exp_wc" where
  "mlx5_handle_error_cqe c wc =
     wc\<lparr>w_status := syndrome_status (e_syndrome c), w_vendor_err := ucast (e_vendor_synd c)\<rparr>"

text \<open>Also whether the request was a memory registration (\<open>is_umr\<close>).\<close>

definition mlx5_set_bad_wc_opcode :: "cqe64 \<Rightarrow> bool \<Rightarrow> exp_wc \<Rightarrow> exp_wc \<times> bool" where
  "mlx5_set_bad_wc_opcode c is_req wc =
     (if is_req
      then let op = drop_bit 24 (c_sop_qpn c) in
           if op = 0x09 \<or> op = 0x08 then (wc\<lparr>w_opcode := IBV_WC_RDMA_WRITE\<rparr>, False)
           else if op = 0x0b \<or> op = 0x0a \<or> op = 0x01 then (wc\<lparr>w_opcode := IBV_WC_SEND\<rparr>, False)
           else if op = 0x10 then (wc\<lparr>w_opcode := IBV_WC_RDMA_READ\<rparr>, False)
           else if op = 0x11 then (wc\<lparr>w_opcode := IBV_WC_COMP_SWAP\<rparr>, False)
           else if op = 0x12 then (wc\<lparr>w_opcode := IBV_WC_FETCH_ADD\<rparr>, False)
           else if op = 0x25 then (wc, True)
           else if op = 0x14 then (wc\<lparr>w_opcode := IBV_EXP_WC_MASKED_COMP_SWAP\<rparr>, False)
           else if op = 0x15 then (wc\<lparr>w_opcode := IBV_EXP_WC_MASKED_FETCH_ADD\<rparr>, False)
           else if op = 0x0e then (wc\<lparr>w_opcode := IBV_EXP_WC_TSO\<rparr>, False)
           else (wc, False)
      else let op = c_opcode c in
           (if op = MLX5_CQE_RESP_WR_IMM then wc\<lparr>w_opcode := IBV_WC_RECV_RDMA_WITH_IMM\<rparr>
            else if op = MLX5_CQE_RESP_SEND \<or> op = MLX5_CQE_RESP_SEND_IMM then wc\<lparr>w_opcode := IBV_WC_RECV\<rparr>
            else wc, False))"

definition is_odp_pfault_err :: "cqe64 \<Rightarrow> bool" where
  "is_odp_pfault_err c \<longleftrightarrow> e_syndrome c = 0x22 \<and> e_vendor_synd c = 0x93"

end
