(* ===== verification/Tag_Matching.thy ===== *)
theory Tag_Matching
  imports Cq_Handlers
begin

text \<open>
  Tag matching on a shared receive queue, the side of the completions: \<open>handle_tm_list_op\<close> and
  \<open>handle_tag_matching\<close> of \<open>cq.c\<close>, \<open>mlx5_tm_release_tag\<close> of \<open>mlx5.h\<close>. A tag counts the completions it
  still expects; at zero it is appended to the queue of free tags, which is linked through \<open>next\<close> and
  ends at \<open>tm_tail\<close>. List operations complete in the order they were posted.
\<close>

definition set_tag :: "nat \<Rightarrow> mlx5_tag_entry \<Rightarrow> srq_object \<Rightarrow> srq_object" where
  "set_tag i t s = s\<lparr>tm_list := (tm_list s)[i := t]\<rparr>"

definition mlx5_tm_release_tag :: "nat \<Rightarrow> srq_object \<Rightarrow> srq_object res" where
  "mlx5_tm_release_tag i s =
     bindR (read_at (tm_list s) i) (\<lambda>t.
       let n = tag_expect_cqe t - 1; t = t\<lparr>tag_expect_cqe := n\<rparr> in
       if n \<noteq> 0 then Inr (set_tag i t s)
       else let s = set_tag i (t\<lparr>tag_next := None\<rparr>) s in
            bindR (read_at (tm_list s) (tm_tail s)) (\<lambda>last.
              Inr ((set_tag (tm_tail s) (last\<lparr>tag_next := Some i\<rparr>) s)\<lparr>tm_tail := i\<rparr>)))"

text \<open>The operation's tag is released, twice when a removal succeeded.\<close>

definition complete_op_tag :: "cqe64 \<Rightarrow> nat \<Rightarrow> wc_flag set \<Rightarrow> srq_object \<Rightarrow> (srq_object \<times> wc_flag set) res" where
  "complete_op_tag c i fl s =
     bindR (mlx5_tm_release_tag i s) (\<lambda>s.
     bindR (if b8 c 41 = 0x6 \<and> IBV_EXP_WC_TM_DEL_FAILED \<notin> fl then mlx5_tm_release_tag i s else Inr s) (\<lambda>s.
     bindR (read_at (tm_list s) i) (\<lambda>t.
       Inr (s, if ucast (ntohs (b16 c 4)) \<noteq> tag_phase_cnt t then insert IBV_EXP_WC_TM_SYNC_REQ fl else fl))))"

definition handle_tm_list_op :: "cqe64 \<Rightarrow> nat \<Rightarrow> poll_state \<Rightarrow> exp_wc \<Rightarrow> wc_flag set \<Rightarrow>
    (poll_state \<times> exp_wc \<times> wc_flag set) res" where
  "handle_tm_list_op c srq st wc fl =
     bindR (get_srq st srq) (\<lambda>s.
       if op_tail s = op_head s then Inr (st, wc\<lparr>w_status := IBV_WC_GENERAL_ERR\<rparr>, fl)
       else bindR (get_qp st (cmd_qp s)) (\<lambda>qp.
            bindR (read_at (srq_ops s) (unat (op_head s AND (wq_wqe_cnt (q_sq qp) - 1)))) (\<lambda>op.
            bindR (next_index True (op_head s)) (\<lambda>hd'.
            bindR (case op_tag op of
                     None \<Rightarrow> Inr (s\<lparr>op_head := hd'\<rparr>, fl)
                   | Some i \<Rightarrow> complete_op_tag c i fl (s\<lparr>op_head := hd'\<rparr>)) (\<lambda>(s, fl).
              let qp = qp\<lparr>q_sq := (q_sq qp)\<lparr>wq_tail := op_wqe_head op\<rparr>\<rparr> in
              Inr (put_qp (cmd_qp s) qp (put_srq srq s st), wc\<lparr>w_wr_id := op_wr_id op\<rparr>, fl))))))"

text \<open>\<open>tm_wc_flags\<close>.\<close>

definition tm_wc_flags :: "u8 \<Rightarrow> wc_flag set" where
  "tm_wc_flags app_op =
     (if app_op = 0x2 then {IBV_EXP_WC_TM_DATA_VALID}
      else if app_op = 0x1 \<or> app_op = 0x9 then {IBV_EXP_WC_TM_MATCH}
      else if app_op = 0xA \<or> app_op = 0xB \<or> app_op = 0xC then {IBV_EXP_WC_TM_MATCH, IBV_EXP_WC_TM_DATA_VALID}
      else {})"

text \<open>An entry for a posted tag: consumed, or its message has arrived.\<close>

definition handle_tag :: "verbs_layout \<Rightarrow> nat \<Rightarrow> cqe64 \<Rightarrow> cqe_loc \<Rightarrow> nat \<Rightarrow> poll_state \<Rightarrow> exp_wc \<Rightarrow> wc_flag set \<Rightarrow>
    (poll_state \<times> exp_wc \<times> wc_flag set) res" where
  "handle_tag lay wc_size c loc srq st wc fl =
     (let app_op = b8 c 41; i = unat (ntohs (b16 c 42)); wc = wc\<lparr>w_byte_len := c_byte_cnt c\<rparr> in
      bindR (get_srq st srq) (\<lambda>s.
      bindR (read_at (tm_list s) i) (\<lambda>t.
        if tag_expect_cqe t = 0 then Inr (st, wc\<lparr>w_status := IBV_WC_GENERAL_ERR\<rparr>, fl)
        else bindR (within wc_size (off_wc_tm_info lay)) (\<lambda>_.
             let wc = wc\<lparr>w_wr_id := tag_wr_id t, w_opcode := IBV_EXP_WC_TM_RECV,
                         w_tm_tag := htonll (b64 c (off_tmh_tag lay)), w_tm_priv := ntohl (b32 c (off_tmh_app_ctx lay))\<rparr>;
                 fl = fl \<union> tm_wc_flags app_op in
             bindR (if app_op \<noteq> 0x1 \<and> app_op \<noteq> 0x9 then mlx5_tm_release_tag i s else Inr s) (\<lambda>s.
             bindR (if b8 c 63 AND 0x8 = 0 then Inr (wc, ps_mem st)
                    else if tag_size t < c_byte_cnt c then Inr (wc\<lparr>w_status := IBV_WC_LOC_LEN_ERR\<rparr>, ps_mem st)
                    else bindR (inline_at loc True) (\<lambda>a.
                         bindR (memcpy (tag_ptr t) a (int (unat (c_byte_cnt c))) (ps_mem st)) (\<lambda>m. Inr (wc, m)))) (\<lambda>(wc, m).
               let r = (if c_opcode c = MLX5_CQE_RESP_SEND_IMM
                        then (wc\<lparr>w_imm_data := c_imm c\<rparr>, insert IBV_WC_WITH_IMM fl) else (wc, fl)) in
               Inr ((put_srq srq s st)\<lparr>ps_mem := m\<rparr>, fst r, snd r)))))))"

text \<open>An unexpected message: \<open>unexp_in - unexp_out\<close> is an \<open>int\<close> subtraction.\<close>

definition count_unexpected :: "nat \<Rightarrow> poll_state \<Rightarrow> wc_flag set \<Rightarrow> (poll_state \<times> wc_flag set) res" where
  "count_unexpected srq st fl =
     bindR (get_srq st srq) (\<lambda>s.
     bindR (if strides_per_wqe s \<noteq> 0 \<and> IBV_EXP_WC_MP_WR_MORE_IN_MSG \<in> fl then Inr (unexp_in s)
            else next_index True (unexp_in s)) (\<lambda>n.
     bindR (int_diff n (unexp_out s)) (\<lambda>d.
       Inr (put_srq srq (s\<lparr>unexp_in := n\<rparr>) st, if 0x3fff < d then insert IBV_EXP_WC_TM_SYNC_REQ fl else fl))))"

definition handle_tag_matching :: "verbs_layout \<Rightarrow> nat \<Rightarrow> cqe64 \<Rightarrow> cqe_loc \<Rightarrow> nat \<Rightarrow> poll_state \<Rightarrow> exp_wc \<Rightarrow>
    wc_flag set \<Rightarrow> (poll_state \<times> exp_wc \<times> wc_flag set) res" where
  "handle_tag_matching lay wc_size c loc srq st wc fl =
     (let app_op = b8 c 41; wc = wc\<lparr>w_status := IBV_WC_SUCCESS\<rparr> in
      if app_op \<in> {0xB, 0x9, 0xC} then handle_tag lay wc_size c loc srq st wc (insert IBV_EXP_WC_TM_RNDV_INCOMPLETE fl)
      else if app_op \<in> {0xA, 0x1, 0x2} then handle_tag lay wc_size c loc srq st wc fl
      else if app_op = 0x5 then handle_tm_list_op c srq st (wc\<lparr>w_opcode := IBV_EXP_WC_TM_ADD\<rparr>) fl
      else if app_op = 0x6
      then handle_tm_list_op c srq st (wc\<lparr>w_opcode := IBV_EXP_WC_TM_DEL\<rparr>)
             (if ntohl (b32 c 0) AND 0x80000000 = 0 then insert IBV_EXP_WC_TM_DEL_FAILED fl else fl)
      else if app_op = 0x7 then handle_tm_list_op c srq st (wc\<lparr>w_opcode := IBV_EXP_WC_TM_SYNC\<rparr>) fl
      else if app_op = 0x4
      then bindR (handle_responder lay wc_size c loc 0 srq RSC_XSRQ st wc fl) (\<lambda>(err, st, wc, fl).
             Inr (st, wc\<lparr>w_status := err, w_opcode := IBV_EXP_WC_TM_NO_TAG\<rparr>, fl))
      else if app_op = 0x3
      then bindR (handle_responder lay wc_size c loc 0 srq RSC_XSRQ st wc fl) (\<lambda>(err, st, wc, fl).
           bindR (count_unexpected srq st fl) (\<lambda>(st, fl).
             Inr (st, wc\<lparr>w_status := err, w_opcode := IBV_EXP_WC_TM_RECV\<rparr>, fl)))
      else Inr (st, wc, fl))"

end
