(* ===== verification/Cq_Poll.thy ===== *)
theory Cq_Poll
  imports Tag_Matching
begin

text \<open>
  \<open>mlx5_poll_one\<close> and \<open>poll_cq\<close> of \<open>cq.c\<close>. The local variables that survive a \<open>goto repoll\<close> are a
  record: the code initialises them where they are declared, before the label. A result is an option:
  \<open>None\<close> means that the code had not returned when the fuel ran out, or that it sleeps for ever
  after an error because \<open>mlx5_freeze_on_error_cqe\<close> is set.
\<close>

datatype poll_ret = CQ_OK | CQ_EMPTY | CQ_POLL_ERR

datatype poll_outcome = Return poll_ret | Repoll | Frozen

record poll_locals =
  l_flags :: "wc_flag set"
  l_mqp :: nat
  l_rwq :: nat
  l_is_srq :: bool
  l_type :: rsc_type
  l_timestamp_en :: bool

type_synonym polled = "poll_outcome \<times> poll_state \<times> poll_locals \<times> exp_wc"

section \<open>Whose entry it is\<close>

text \<open>The cursor keeps the object of the entry before, when the number is the same.\<close>

definition same_rsc :: "poll_state \<Rightarrow> u32 \<Rightarrow> bool res" where
  "same_rsc st n = (if ps_rsc st = 0 then Inr False else bindR (get_obj st (ps_rsc st)) (\<lambda>ob. Inr (n = rsn_of ob)))"

definition same_srqn :: "poll_state \<Rightarrow> u32 \<Rightarrow> bool res" where
  "same_srqn st n =
     (if ps_srq st = 0 then Inr False else bindR (get_srq st (ps_srq st)) (\<lambda>s. Inr (n = srq_srqn (so_srq s))))"

text \<open>The two cursors after the look-ups; \<open>False\<close> when the code returns \<open>CQ_POLL_ERR\<close>.\<close>

definition find_owner :: "poll_env \<Rightarrow> bool \<Rightarrow> cqe64 \<Rightarrow> poll_state \<Rightarrow> poll_locals \<Rightarrow>
    (bool \<times> poll_state \<times> poll_locals) res" where
  "find_owner env cqe_ver c st l =
     (let rsn = c_sop_qpn c AND 0xffffff; srqn_uidx = c_srqn_uidx c AND 0xffffff in
      if cqe_ver
      then bindR (same_rsc st srqn_uidx) (\<lambda>same.
             if same then Inr (True, st, l)
             else bindR (mlx5_find_uidx (pe_tables env) srqn_uidx) (\<lambda>r. Inr (r \<noteq> 0, st\<lparr>ps_rsc := r\<rparr>, l)))
      else bindR (if is_responder (c_opcode c) \<and> srqn_uidx \<noteq> 0
                  then bindR (same_srqn st srqn_uidx) (\<lambda>same.
                         if same then Inr (True, st, l\<lparr>l_is_srq := True\<rparr>)
                         else bindR (mlx5_find_srq (pe_tables env) srqn_uidx) (\<lambda>s.
                                Inr (s \<noteq> 0, st\<lparr>ps_srq := s\<rparr>, l\<lparr>l_is_srq := True\<rparr>)))
                  else Inr (True, st, l)) (\<lambda>(found, st, l).
             if \<not> found then Inr (False, st, l)
             else bindR (same_rsc st rsn) (\<lambda>same.
                  if same then Inr (True, st, l)
                  else bindR (mlx5_find_rsc (pe_tables env) rsn) (\<lambda>r.
                         Inr (r \<noteq> 0 \<or> srqn_uidx \<noteq> 0, st\<lparr>ps_rsc := r\<rparr>, l)))))"

text \<open>The switch on the object's type, and the \<open>srq\<close> field; \<open>False\<close> for a type the code rejects.\<close>

definition use_owner :: "verbs_layout \<Rightarrow> nat \<Rightarrow> bool \<Rightarrow> bool \<Rightarrow> poll_state \<Rightarrow> poll_locals \<Rightarrow> exp_wc \<Rightarrow>
    (bool \<times> poll_state \<times> poll_locals \<times> exp_wc) res" where
  "use_owner lay wc_size cqe_ver responder st l wc =
     (if ps_rsc st = 0 then Inr (True, st, l, wc)
      else let a = ps_rsc st in
        bindR (get_obj st a) (\<lambda>ob.
          case ob of
            Qp_obj q \<Rightarrow>
              let l = l\<lparr>l_mqp := a, l_type := RSC_QP\<rparr>;
                  r = (if off_wc_qp lay < wc_size
                       then (l\<lparr>l_flags := insert IBV_EXP_WC_QP (l_flags l)\<rparr>, wc\<lparr>w_qp := a\<rparr>) else (l, wc)) in
              if cqe_ver \<and> responder \<and> q_srq q \<noteq> 0
              then Inr (True, st\<lparr>ps_srq := q_srq q\<rparr>, (fst r)\<lparr>l_is_srq := True\<rparr>, snd r)
              else Inr (True, st, fst r, snd r)
          | Dct_obj n dsrq \<Rightarrow>
              let l = l\<lparr>l_is_srq := True, l_type := RSC_DCT\<rparr>;
                  r = (if off_wc_dct lay < wc_size
                       then (l\<lparr>l_flags := insert IBV_EXP_WC_DCT (l_flags l)\<rparr>, wc\<lparr>w_dct := a\<rparr>) else (l, wc)) in
              Inr (True, if cqe_ver then st\<lparr>ps_srq := dsrq\<rparr> else st, fst r, snd r)
          | Srq_obj s \<Rightarrow>
              if so_type s = RSC_XSRQ
              then Inr (True, st\<lparr>ps_srq := a\<rparr>, l\<lparr>l_is_srq := True, l_type := RSC_XSRQ\<rparr>, wc)
              else Inr (False, st, l, wc)
          | Rwq_obj w \<Rightarrow> Inr (True, st, l\<lparr>l_rwq := a, l_type := RSC_RWQ\<rparr>, wc)
          | Mp_rwq_obj w \<Rightarrow> Inr (True, st, l\<lparr>l_rwq := a, l_type := RSC_MP_RWQ\<rparr>, wc)))"

definition note_srq :: "verbs_layout \<Rightarrow> nat \<Rightarrow> poll_state \<Rightarrow> poll_locals \<Rightarrow> exp_wc \<Rightarrow> poll_locals \<times> exp_wc" where
  "note_srq lay wc_size st l wc =
     (if l_is_srq l \<and> off_wc_srq lay < wc_size
      then (l\<lparr>l_flags := insert IBV_EXP_WC_SRQ (l_flags l)\<rparr>, wc\<lparr>w_srq := ps_srq st\<rparr>) else (l, wc))"

section \<open>The cases of the switch on the opcode\<close>

text \<open>\<open>wq->tail = wqe_head[idx] + 1\<close> and the identifier, of a send queue.\<close>

definition retire_send :: "nat \<Rightarrow> nat \<Rightarrow> poll_state \<Rightarrow> exp_wc \<Rightarrow> (poll_state \<times> exp_wc) res" where
  "retire_send qp idx st wc =
     bindR (get_qp st qp) (\<lambda>q.
     bindR (read_at (wq_wrid (q_sq q)) idx) (\<lambda>id.
     bindR (read_at (q_wqe_head q) idx) (\<lambda>h.
       Inr (put_qp qp (q\<lparr>q_sq := (q_sq q)\<lparr>wq_tail := h + 1\<rparr>\<rparr>) st, wc\<lparr>w_wr_id := id\<rparr>))))"

definition send_index :: "mlx5_qp \<Rightarrow> cqe64 \<Rightarrow> nat" where
  "send_index q c = unat (ucast (c_wqe_counter c) AND (wq_wqe_cnt (q_sq q) - 1))"

definition poll_req :: "cqe64 \<Rightarrow> cqe_loc \<Rightarrow> poll_state \<Rightarrow> poll_locals \<Rightarrow> exp_wc \<Rightarrow> polled res" where
  "poll_req c loc st l wc =
     (if l_mqp l = 0 then Inr (Return CQ_POLL_ERR, st, l, wc)
      else bindR (get_qp st (l_mqp l)) (\<lambda>q.
           bindR (handle_good_req c (q_sq q) (send_index q c) wc) (\<lambda>wc.
           bindR (inline_data loc c) (\<lambda>d.
           bindR (case d of None \<Rightarrow> Inr (IBV_WC_SUCCESS, ps_mem st)
                  | Some a \<Rightarrow> mlx5_copy_to_send_wqe q (c_wqe_counter c) a (sint (w_byte_len wc)) (ps_mem st)) (\<lambda>(err, m).
           bindR (retire_send (l_mqp l) (send_index q c) (st\<lparr>ps_mem := m\<rparr>) wc) (\<lambda>(st, wc).
             Inr (Return CQ_OK, st, l, wc\<lparr>w_status := err\<rparr>)))))))"

text \<open>A filler entry of a multi-packet receive queue: \<open>None\<close> when the entry is not one.\<close>

definition poll_filler :: "cqe64 \<Rightarrow> poll_state \<Rightarrow> poll_locals \<Rightarrow> exp_wc \<Rightarrow> polled option res" where
  "poll_filler c st l wc =
     (if c_opcode c \<noteq> MLX5_CQE_RESP_SEND \<or> \<not> l_is_srq l then Inr None
      else bindR (get_srq st (ps_srq st)) (\<lambda>s.
        if strides_per_wqe s = 0 \<or> c_byte_cnt c AND 0x80000000 = 0 then Inr None
        else let ctr = c_wqe_counter c in
             bindR (count_mp_wr_strides ctr (c_byte_cnt c) s) (\<lambda>s.
             bindR (is_mp_wr_consumed ctr s) (\<lambda>(consumed, s).
               if consumed
               then bindR (srq_wr_id ctr s) (\<lambda>id.
                    bindR (free_wqe ctr s (ps_mem st)) (\<lambda>(s, m).
                      Inr (Some (Return CQ_OK, (put_srq (ps_srq st) s st)\<lparr>ps_mem := m\<rparr>,
                        l\<lparr>l_flags := insert IBV_EXP_WC_MP_WR_CONSUMED (l_flags l)\<rparr>,
                        wc\<lparr>w_wr_id := id, w_opcode := IBV_EXP_WC_RECV_NOP\<rparr>))))
               else Inr (Some (Repoll, put_srq (ps_srq st) s st, l\<lparr>l_flags := {}\<rparr>, wc))))))"

definition rx_csum_flags :: "cqe64 \<Rightarrow> wc_flag set" where
  "rx_csum_flags c =
     (if b8 c 28 AND 4 \<noteq> 0 then {IBV_EXP_WC_RX_TCP_UDP_CSUM_OK} else {}) \<union>
     (if b8 c 28 AND 2 \<noteq> 0 then {IBV_EXP_WC_RX_IP_CSUM_OK} else {}) \<union>
     (if b8 c 29 AND 0xC = 0x8 then {IBV_EXP_WC_RX_IPV4_PACKET} else {}) \<union>
     (if b8 c 29 AND 0xC = 0x4 then {IBV_EXP_WC_RX_IPV6_PACKET} else {})"

definition poll_resp :: "verbs_layout \<Rightarrow> nat \<Rightarrow> cqe64 \<Rightarrow> cqe_loc \<Rightarrow> poll_state \<Rightarrow> poll_locals \<Rightarrow> exp_wc \<Rightarrow> polled res" where
  "poll_resp lay wc_size c loc st l wc =
     bindR (poll_filler c st l wc) (\<lambda>f. case f of Some r \<Rightarrow> Inr r | None \<Rightarrow>
       if b8 c 40 = 1
       then if \<not> l_is_srq l then Inr (Return CQ_POLL_ERR, st, l, wc)
            else bindR (handle_tag_matching lay wc_size c loc (ps_srq st) st wc (l_flags l)) (\<lambda>(st, wc, fl).
                   Inr (Return CQ_OK, st, l\<lparr>l_flags := fl\<rparr>, wc))
       else bindR (handle_responder lay wc_size c loc (l_mqp l) (if l_is_srq l then ps_srq st else 0)
                     (l_type l) st wc (l_flags l)) (\<lambda>(err, st, wc, fl).
            bindR (if l_mqp l = 0 then Inr False else bindR (get_qp st (l_mqp l)) (\<lambda>q. Inr (q_rx_csum q))) (\<lambda>csum.
              Inr (Return CQ_OK, st, l\<lparr>l_flags := if csum then fl \<union> rx_csum_flags c else fl\<rparr>, wc\<lparr>w_status := err\<rparr>))))"

definition poll_no_packet :: "verbs_layout \<Rightarrow> nat \<Rightarrow> cqe64 \<Rightarrow> cqe_loc \<Rightarrow> poll_state \<Rightarrow> poll_locals \<Rightarrow> exp_wc \<Rightarrow> polled res" where
  "poll_no_packet lay wc_size c loc st l wc =
     (if b8 c 40 \<noteq> 1 \<or> \<not> l_is_srq l then Inr (Return CQ_POLL_ERR, st, l, wc)
      else bindR (handle_tag_matching lay wc_size c loc (ps_srq st) st wc (l_flags l)) (\<lambda>(st, wc, fl).
             Inr (Return CQ_OK, st, l\<lparr>l_flags := fl\<rparr>, wc)))"

text \<open>Errors worth a message; with \<open>mlx5_freeze_on_error_cqe\<close> the code goes no further.\<close>

definition is_reported :: "cqe64 \<Rightarrow> bool" where
  "is_reported c \<longleftrightarrow> \<not> is_odp_pfault_err c \<and> e_syndrome c \<noteq> 0x05 \<and> e_syndrome c \<noteq> 0x15"

definition poll_req_err :: "cqe64 \<Rightarrow> bool \<Rightarrow> poll_state \<Rightarrow> poll_locals \<Rightarrow> exp_wc \<Rightarrow> polled res" where
  "poll_req_err c is_umr st l wc =
     bindR (get_qp st (l_mqp l)) (\<lambda>q.
     bindR (retire_send (l_mqp l) (send_index q c) st wc) (\<lambda>(st, wc).
     bindR (if is_umr then read_at (wq_wr_data (q_sq q)) (send_index q c) else Inr (w_opcode wc)) (\<lambda>oc.
       Inr (Return CQ_OK, st, l, wc\<lparr>w_opcode := oc\<rparr>))))"

text \<open>The oldest entry of a receive queue, and the tail moved by one.\<close>

definition pop_recv :: "mlx5_wq \<Rightarrow> (u64 \<times> mlx5_wq) res" where
  "pop_recv wq = bindR (read_at (wq_wrid wq) (unat (wq_tail wq AND (wq_wqe_cnt wq - 1)))) (\<lambda>id.
     Inr (id, wq\<lparr>wq_tail := wq_tail wq + 1\<rparr>))"

definition pop_owner :: "poll_locals \<Rightarrow> poll_state \<Rightarrow> (u64 \<times> poll_state) res" where
  "pop_owner l st =
     (if l_rwq l \<noteq> 0
      then bindR (get_obj st (l_rwq l)) (\<lambda>ob. case ob of
             Rwq_obj w \<Rightarrow> bindR (pop_recv (rw_rq w)) (\<lambda>(id, wq). Inr (id, put_obj (l_rwq l) (Rwq_obj (w\<lparr>rw_rq := wq\<rparr>)) st))
           | Mp_rwq_obj w \<Rightarrow> bindR (pop_recv (rw_rq w)) (\<lambda>(id, wq). Inr (id, put_obj (l_rwq l) (Mp_rwq_obj (w\<lparr>rw_rq := wq\<rparr>)) st))
           | _ \<Rightarrow> Inl (Fault WrongType))
      else bindR (get_qp st (l_mqp l)) (\<lambda>q.
           bindR (pop_recv (q_rq q)) (\<lambda>(id, wq). Inr (id, put_qp (l_mqp l) (q\<lparr>q_rq := wq\<rparr>) st))))"

definition poll_resp_err :: "cqe64 \<Rightarrow> poll_state \<Rightarrow> poll_locals \<Rightarrow> exp_wc \<Rightarrow> polled res" where
  "poll_resp_err c st l wc =
     (if l_is_srq l \<and> ps_srq st \<noteq> 0
      then let ctr = c_wqe_counter c in
        bindR (get_srq st (ps_srq st)) (\<lambda>s.
          if is_odp_pfault_err c
          then bindR (mlx5_requeue_srq_wqe (unat ctr) (so_srq s) (ps_mem st)) (\<lambda>(q, m).
                 Inr (Repoll, (put_srq (ps_srq st) (s\<lparr>so_srq := q\<rparr>) st)\<lparr>ps_mem := m\<rparr>, l, wc))
          else bindR (srq_wr_id ctr s) (\<lambda>id. let wc = wc\<lparr>w_wr_id := id\<rparr> in
               if strides_per_wqe s \<noteq> 0
               then bindR (count_mp_wr_strides ctr (c_byte_cnt c) s) (\<lambda>s.
                    bindR (is_mp_wr_consumed ctr s) (\<lambda>(consumed, s).
                      if consumed
                      then bindR (free_wqe ctr s (ps_mem st)) (\<lambda>(s, m).
                             Inr (Return CQ_OK, (put_srq (ps_srq st) s st)\<lparr>ps_mem := m\<rparr>,
                                  l\<lparr>l_flags := insert IBV_EXP_WC_MP_WR_CONSUMED (l_flags l)\<rparr>, wc))
                      else Inr (Return CQ_OK, put_srq (ps_srq st) s st, l, wc)))
               else bindR (free_wqe ctr s (ps_mem st)) (\<lambda>(s, m).
                      Inr (Return CQ_OK, (put_srq (ps_srq st) s st)\<lparr>ps_mem := m\<rparr>, l, wc))))
      else bindR (pop_owner l st) (\<lambda>(id, st). Inr (Return CQ_OK, st, l, wc\<lparr>w_wr_id := id\<rparr>)))"

definition poll_err :: "bool \<Rightarrow> cqe64 \<Rightarrow> poll_state \<Rightarrow> poll_locals \<Rightarrow> exp_wc \<Rightarrow> polled res" where
  "poll_err freeze c st l wc =
     (let is_req = (c_opcode c = MLX5_CQE_REQ_ERR);
          r = mlx5_set_bad_wc_opcode c is_req (mlx5_handle_error_cqe c wc) in
      if is_reported c \<and> freeze then Inr (Frozen, st, l, fst r)
      else if is_req then poll_req_err c (snd r) st l (fst r)
      else poll_resp_err c st l (fst r))"

definition poll_switch :: "poll_env \<Rightarrow> nat \<Rightarrow> cqe64 \<Rightarrow> cqe_loc \<Rightarrow> poll_state \<Rightarrow> poll_locals \<Rightarrow> exp_wc \<Rightarrow> polled res" where
  "poll_switch env wc_size c loc st l wc =
     (let op = c_opcode c; lay = pe_layout env in
      if op = MLX5_CQE_REQ then poll_req c loc st l wc
      else if op \<in> {MLX5_CQE_RESP_SEND, MLX5_CQE_RESP_WR_IMM, MLX5_CQE_RESP_SEND_IMM, MLX5_CQE_RESP_SEND_INV}
      then poll_resp lay wc_size c loc st l wc
      else if op = MLX5_CQE_NO_PACKET then poll_no_packet lay wc_size c loc st l wc
      else if op = MLX5_CQE_REQ_ERR \<or> op = MLX5_CQE_RESP_ERR then poll_err (pe_freeze env) c st l wc
      else Inr (Return CQ_OK, st, l, wc))"

section \<open>One completion\<close>

text \<open>After the switch: the time stamp, the flags, and the entry marked for a peer that needs it.\<close>

definition poll_finish :: "verbs_layout \<Rightarrow> nat \<Rightarrow> cqe64 \<Rightarrow> cqe_loc \<Rightarrow> poll_state \<Rightarrow> poll_locals \<Rightarrow> exp_wc \<Rightarrow>
    (poll_state \<times> exp_wc) res" where
  "poll_finish lay wc_size c loc st l wc =
     bindR (if l_timestamp_en l
            then bindR (within wc_size (off_wc_timestamp lay)) (\<lambda>_.
                   Inr (insert IBV_EXP_WC_WITH_TIMESTAMP (l_flags l), wc\<lparr>w_timestamp := htonll (b64 c 48)\<rparr>))
            else Inr (l_flags l, wc)) (\<lambda>(fl, wc).
       let wc = (if off_wc_exp_flags lay < wc_size then wc\<lparr>w_exp_flags := fl \<union> w_flags wc\<rparr> else wc) in
       case pc_peer (ps_cq st) of
         None \<Rightarrow> Inr (st, wc)
       | Some p \<Rightarrow>
           if poll_nor_dword p then Inr (st, wc)
           else (case loc of
                   Ring a \<Rightarrow> bindR (store8 (a + 63) (push_bit 4 MLX5_CQE_INVALID) (ps_mem st)) (\<lambda>m. Inr (st\<lparr>ps_mem := m\<rparr>, wc))
                 | Title \<Rightarrow> Inr (set_q ((ps_q st)\<lparr>next_decomp := patch 63 [push_bit 4 MLX5_CQE_INVALID] (next_decomp (ps_q st))\<rparr>) st, wc)))"

text \<open>From the entry found to the return or the \<open>repoll\<close>: from the switch on, from the look-ups on, from
  the entry that is read again on (after an expansion it is the one kept), and whole.\<close>

definition poll_served :: "poll_env \<Rightarrow> nat \<Rightarrow> cqe64 \<Rightarrow> cqe_loc \<Rightarrow> poll_state \<Rightarrow> poll_locals \<Rightarrow> exp_wc \<Rightarrow> polled res" where
  "poll_served env wc_size c loc st l wc =
     bindR (poll_switch env wc_size c loc st l wc) (\<lambda>(out, st, l, wc).
       if out = Return CQ_OK
       then bindR (poll_finish (pe_layout env) wc_size c loc st l wc) (\<lambda>(st, wc). Inr (Return CQ_OK, st, l, wc))
       else Inr (out, st, l, wc))"

definition poll_owned :: "poll_env \<Rightarrow> bool \<Rightarrow> nat \<Rightarrow> cqe64 \<Rightarrow> cqe_loc \<Rightarrow> poll_state \<Rightarrow> poll_locals \<Rightarrow> exp_wc \<Rightarrow> polled res" where
  "poll_owned env cqe_ver wc_size c loc st l wc =
     bindR (find_owner env cqe_ver c st l) (\<lambda>(found, st, l).
       if \<not> found then Inr (Return CQ_POLL_ERR, st, l, wc)
       else bindR (use_owner (pe_layout env) wc_size cqe_ver (is_responder (c_opcode c)) st l wc) (\<lambda>(known, st, l, wc).
            if \<not> known then Inr (Return CQ_POLL_ERR, st, l, wc)
            else let r = note_srq (pe_layout env) wc_size st l wc in
                 poll_served env wc_size c loc st (fst r) ((snd r)\<lparr>w_qp_num := c_sop_qpn c AND 0xffffff\<rparr>)))"

definition poll_fetched :: "poll_env \<Rightarrow> bool \<Rightarrow> nat \<Rightarrow> cqe_loc \<Rightarrow> poll_state \<Rightarrow> poll_locals \<Rightarrow> exp_wc \<Rightarrow> polled res" where
  "poll_fetched env cqe_ver wc_size loc st l wc =
     bindR (cqe_at st loc) (\<lambda>c.
       let q = ps_q st; st = set_q (q\<lparr>cq_cons := cq_cons q + 1\<rparr>) st; wc = wc\<lparr>w_flags := {}\<rparr> in
       if \<not> is_requestor (c_opcode c) \<and> \<not> is_responder (c_opcode c) then Inr (Return CQ_POLL_ERR, st, l, wc)
       else poll_owned env cqe_ver wc_size c loc st l wc)"

definition poll_entry :: "poll_env \<Rightarrow> bool \<Rightarrow> nat \<Rightarrow> cqe_loc \<Rightarrow> poll_state \<Rightarrow> poll_locals \<Rightarrow> exp_wc \<Rightarrow> polled res" where
  "poll_entry env cqe_ver wc_size loc st l wc =
     bindR (cqe_at st loc) (\<lambda>c.
     bindR (if c_format c = MLX5_COMPRESSED
            then bindR (mlx5_decompress_cqe env st) (\<lambda>st. Inr (Title, st, l\<lparr>l_timestamp_en := False\<rparr>))
            else Inr (loc, st, l)) (\<lambda>(loc, st, l). poll_fetched env cqe_ver wc_size loc st l wc))"

lemmas poll_entry_defs = poll_entry_def poll_fetched_def poll_owned_def poll_served_def

fun poll_again :: "nat \<Rightarrow> poll_env \<Rightarrow> bool \<Rightarrow> nat \<Rightarrow> poll_state \<Rightarrow> poll_locals \<Rightarrow> exp_wc \<Rightarrow>
    (poll_ret \<times> poll_state \<times> exp_wc) res option" where
  "poll_again 0 env cqe_ver wc_size st l wc = None"
| "poll_again (Suc n) env cqe_ver wc_size st l wc =
     (case get_next_cqe (Suc n) (cq_sz (ps_q st)) st of
        None \<Rightarrow> None
      | Some (Inl e) \<Rightarrow> Some (Inl e)
      | Some (Inr (None, st)) \<Rightarrow> Some (Inr (CQ_EMPTY, st, wc))
      | Some (Inr (Some loc, st)) \<Rightarrow>
          (case poll_entry env cqe_ver wc_size loc st l wc of
             Inl e \<Rightarrow> Some (Inl e)
           | Inr (Return r, st, l, wc) \<Rightarrow> Some (Inr (r, st, wc))
           | Inr (Repoll, st, l, wc) \<Rightarrow> poll_again n env cqe_ver wc_size st l wc
           | Inr (Frozen, st, l, wc) \<Rightarrow> None))"

definition init_locals :: "poll_state \<Rightarrow> poll_locals" where
  "init_locals st = \<lparr>l_flags = {}, l_mqp = 0, l_rwq = 0, l_is_srq = False, l_type = RSC_INVAL,
     l_timestamp_en = pc_timestamp (ps_cq st)\<rparr>"

definition mlx5_poll_one :: "nat \<Rightarrow> poll_env \<Rightarrow> bool \<Rightarrow> nat \<Rightarrow> poll_state \<Rightarrow> exp_wc \<Rightarrow>
    (poll_ret \<times> poll_state \<times> exp_wc) res option" where
  "mlx5_poll_one fuel env cqe_ver wc_size st wc = poll_again fuel env cqe_ver wc_size st (init_locals st) wc"

section \<open>Polling for a number of completions\<close>

text \<open>
  The loop from the \<open>k\<close>-th completion on: the status that ended it, the number polled, the state, and
  the caller's completions, of which there must be \<open>ne\<close>.
\<close>

function poll_loop :: "nat \<Rightarrow> poll_env \<Rightarrow> bool \<Rightarrow> nat \<Rightarrow> int \<Rightarrow> nat \<Rightarrow> poll_state \<Rightarrow> exp_wc list \<Rightarrow>
    (poll_ret \<times> nat \<times> poll_state \<times> exp_wc list) res option" where
  "poll_loop fuel env cqe_ver wc_size ne k st wcs =
     (if int k < ne
      then if length wcs \<le> k then Some (Inl (Fault OutOfBounds))
           else (case mlx5_poll_one fuel env cqe_ver wc_size st (wcs ! k) of
                   None \<Rightarrow> None
                 | Some (Inl e) \<Rightarrow> Some (Inl e)
                 | Some (Inr (r, st, wc)) \<Rightarrow>
                     if r = CQ_OK then poll_loop fuel env cqe_ver wc_size ne (Suc k) st (wcs[k := wc])
                     else Some (Inr (r, k, st, wcs[k := wc])))
      else Some (Inr (CQ_OK, k, st, wcs)))"
  by pat_completeness auto
termination
  by (relation "measure (\<lambda>(fuel, env, v, w, ne, k, st, wcs). nat (ne - int k))") auto

declare poll_loop.simps [simp del]

text \<open>
  The pauses between polls: before, the pause asked for is over (its length is no part of the model);
  after, the next is set. \<open>clock\<close> is the value of the cycle counter then.
\<close>

definition stall_before :: "drv_cq \<Rightarrow> drv_cq" where
  "stall_before pc =
     (if stall_enable pc \<and> \<not> stall_adaptive_enable pc \<and> stall_next_poll pc then pc\<lparr>stall_next_poll := False\<rparr> else pc)"

definition stall_after :: "poll_env \<Rightarrow> u64 \<Rightarrow> poll_ret \<Rightarrow> nat \<Rightarrow> int \<Rightarrow> drv_cq \<Rightarrow> drv_cq" where
  "stall_after env clock err npolled ne pc =
     (if \<not> stall_enable pc then pc
      else if stall_adaptive_enable pc
      then let less = max (stall_cycles pc - stall_cq_dec_step env) (stall_cq_poll_min env);
               more = min (stall_cycles pc + stall_cq_inc_step env) (stall_cq_poll_max env) in
           if npolled = 0 then pc\<lparr>stall_cycles := less, stall_last_count := clock\<rparr>
           else if int npolled < ne then pc\<lparr>stall_cycles := more, stall_last_count := clock\<rparr>
           else pc\<lparr>stall_cycles := less, stall_last_count := 0\<rparr>
      else if err = CQ_EMPTY then pc\<lparr>stall_next_poll := True\<rparr> else pc)"

text \<open>\<open>poll_cq\<close>: the number polled, or \<open>CQ_POLL_ERR\<close> (-2).\<close>

definition drv_poll_cq :: "nat \<Rightarrow> u64 \<Rightarrow> poll_env \<Rightarrow> bool \<Rightarrow> nat \<Rightarrow> int \<Rightarrow> poll_state \<Rightarrow> exp_wc list \<Rightarrow>
    (int \<times> poll_state \<times> exp_wc list) res option" where
  "drv_poll_cq fuel clock env cqe_ver wc_size ne st wcs =
     (let st = st\<lparr>ps_cq := stall_before (ps_cq st), ps_rsc := 0, ps_srq := 0\<rparr> in
      case poll_loop fuel env cqe_ver wc_size ne 0 st wcs of
        None \<Rightarrow> None
      | Some r \<Rightarrow> Some (bindR r (\<lambda>(err, npolled, st, wcs).
          bindR (mlx5_update_cons_index (ps_q st) (ps_mem st)) (\<lambda>m.
            Inr (if err = CQ_POLL_ERR then -2 else int npolled,
                 st\<lparr>ps_cq := stall_after env clock err npolled ne (ps_cq st), ps_mem := m\<rparr>, wcs)))))"

definition mlx5_poll_cq :: "nat \<Rightarrow> u64 \<Rightarrow> poll_env \<Rightarrow> nat \<Rightarrow> int \<Rightarrow> poll_state \<Rightarrow> exp_wc list \<Rightarrow>
    (int \<times> poll_state \<times> exp_wc list) res option" where
  "mlx5_poll_cq fuel clock env sizeof_wc = drv_poll_cq fuel clock env False sizeof_wc"

definition mlx5_poll_cq_1 :: "nat \<Rightarrow> u64 \<Rightarrow> poll_env \<Rightarrow> nat \<Rightarrow> int \<Rightarrow> poll_state \<Rightarrow> exp_wc list \<Rightarrow>
    (int \<times> poll_state \<times> exp_wc list) res option" where
  "mlx5_poll_cq_1 fuel clock env sizeof_wc = drv_poll_cq fuel clock env True sizeof_wc"

definition mlx5_poll_cq_ex :: "nat \<Rightarrow> u64 \<Rightarrow> poll_env \<Rightarrow> nat \<Rightarrow> int \<Rightarrow> poll_state \<Rightarrow> exp_wc list \<Rightarrow>
    (int \<times> poll_state \<times> exp_wc list) res option" where
  "mlx5_poll_cq_ex fuel clock env wc_size = drv_poll_cq fuel clock env False wc_size"

definition mlx5_poll_cq_ex_1 :: "nat \<Rightarrow> u64 \<Rightarrow> poll_env \<Rightarrow> nat \<Rightarrow> int \<Rightarrow> poll_state \<Rightarrow> exp_wc list \<Rightarrow>
    (int \<times> poll_state \<times> exp_wc list) res option" where
  "mlx5_poll_cq_ex_1 fuel clock env wc_size = drv_poll_cq fuel clock env True wc_size"

end
