(* ===== verification/Poll_Correct.thy ===== *)
theory Poll_Correct
  imports Cq_Poll Cq_Ring Qp_Correct
begin

text \<open>
  Polling entries of queue pairs that report a finished send or a message received on the pair's own
  receive queue. Each entry retires one request: the abstract step \<open>retire\<close> gives its identifier and
  the queue pair afterwards; \<open>poll_cq\<close> performs the steps of the entries from the consumer counter on,
  in the order of the ring.
\<close>

section \<open>The entry at the consumer counter\<close>

definition next_proper :: "poll_state \<Rightarrow> nat \<Rightarrow> cqe64" where
  "next_proper st i = proper (entry_at (ps_q st) (ps_mem st) (unat (cq_cons (ps_q st)) + i))"

definition next_addr :: "mlx5_cq \<Rightarrow> nat \<Rightarrow> nat" where
  "next_addr q i = cqe64_of (cq_sz q) (ring_at q (unat (cq_cons q) + i))"

text \<open>A queue outside a compressed session and without a peer.\<close>

definition poll_ring :: "poll_state \<Rightarrow> bool" where
  "poll_ring st \<longleftrightarrow> cq_ring (ps_q st) (ps_mem st) \<and> compressed_left (ps_q st) = 0 \<and> pc_peer (ps_cq st) = None"

definition sw_owned :: "mlx5_cq \<Rightarrow> nat \<Rightarrow> cqe64 \<Rightarrow> bool" where
  "sw_owned q n c \<longleftrightarrow> c_opcode c \<noteq> MLX5_CQE_INVALID \<and> (b8 c 63 AND 1 \<noteq> 0) = odd_pass q n"

lemma length_proper: "cq_ring q m \<Longrightarrow> length (proper (entry_at q m n)) = 64"
  using cqe64_at(2) [of q m] by (simp add: proper_def)

lemma load_proper:
  assumes "cq_ring q m"
  shows "load_bytes (cqe64_of (cq_sz q) (ring_at q n)) 64 m = Inr (proper (entry_at q m n))"
  using load_part [OF assms, of 0 64 n] length_proper [OF assms, of n] by simp

lemma last_proper:
  assumes "cq_ring q m"
  shows "b8 (proper (entry_at q m n)) 63 = last (entry_at q m n)"
proof -
  have "64 \<le> length (entry_at q m n)" using cqe64_at(2) [OF assms] by simp
  then show ?thesis
    by (simp add: b8_def proper_def hd_drop_conv_nth last_conv_nth flip: length_greater_0_conv)
qed

lemma next_cqe:
  assumes "poll_ring st"
  shows "get_next_cqe fuel (cq_sz (ps_q st)) st =
    Some (Inr (if sw_owned (ps_q st) (unat (cq_cons (ps_q st))) (next_proper st 0)
               then Some (Ring (next_addr (ps_q st) 0)) else None, st))"
proof -
  let ?q = "ps_q st" and ?m = "ps_mem st"
  have ring: "cq_ring ?q ?m" using assms by (simp add: poll_ring_def)
  let ?n = "unat (cq_cons ?q)"
  have idx: "idx_of ?n = cq_cons ?q" by (simp add: idx_of_def)
  have at: "cq_buf ?q + unat (cq_cons ?q AND cq_cqe ?q) * cq_sz ?q = ring_at ?q ?n"
    using get_cqe_at [OF ring, of ?n] by (simp add: idx get_cqe_def get_buf_cqe_def)
  have own: "op_own_of (cqe64_of (cq_sz ?q) (ring_at ?q ?n)) ?m = Inr (b8 (next_proper st 0) 63)"
    using op_own_at [OF ring, of ?n] last_proper [OF ring, of ?n] by (simp add: next_proper_def)
  have "is_sw_own ?q (b8 (next_proper st 0) 63) = sw_owned ?q ?n (next_proper st 0)"
    using pass_bit [OF ring, of ?n]
    by (simp add: is_sw_own_def sw_owned_def idx cqe_opcode_def c_opcode_def MLX5_CQE_OWNER_MASK_def)
  then show ?thesis using assms own
    by (simp add: get_next_cqe_def poll_ring_def ring_entry_def at next_addr_def Let_def)
qed

lemma cqe_at_next:
  "poll_ring st \<Longrightarrow> cqe_at st (Ring (next_addr (ps_q st) i)) = Inr (next_proper st i)"
  by (simp add: cqe_at_def next_addr_def next_proper_def poll_ring_def load_proper)

section \<open>Entries of queue pairs\<close>

text \<open>The number an entry is found by, and the table.\<close>

definition key_of :: "bool \<Rightarrow> cqe64 \<Rightarrow> u32" where
  "key_of v c = (if v then c_srqn_uidx c else c_sop_qpn c) AND 0xffffff"

definition table_lookup :: "poll_env \<Rightarrow> bool \<Rightarrow> u32 \<Rightarrow> nat res" where
  "table_lookup env v n = (if v then mlx5_find_uidx (pe_tables env) n else mlx5_find_rsc (pe_tables env) n)"

text \<open>The cursor of \<open>poll_cq\<close> agrees with the table.\<close>

definition cursor_ok :: "poll_env \<Rightarrow> bool \<Rightarrow> poll_state \<Rightarrow> bool" where
  "cursor_ok env v st \<longleftrightarrow> ps_rsc st \<noteq> 0 \<longrightarrow>
     (\<exists>ob. ps_objs st (ps_rsc st) = Some ob \<and> table_lookup env v (rsn_of ob) = Inr (ps_rsc st))"

text \<open>The arrays of a queue pair have an element for each index of an entry.\<close>

definition qp_arrays :: "mlx5_qp \<Rightarrow> bool" where
  "qp_arrays q \<longleftrightarrow> (\<exists>k<32. unat (wq_wqe_cnt (q_sq q)) = 2 ^ k) \<and> (\<exists>k\<le>16. rq_len (q_rq q) = 2 ^ k) \<and>
     length (wq_wrid (q_sq q)) = unat (wq_wqe_cnt (q_sq q)) \<and> length (q_wqe_head q) = unat (wq_wqe_cnt (q_sq q)) \<and>
     length (wq_wr_data (q_sq q)) = unat (wq_wqe_cnt (q_sq q)) \<and> length (wq_wrid (q_rq q)) = rq_len (q_rq q)"

definition plain_cqe :: "bool \<Rightarrow> cqe64 \<Rightarrow> bool" where
  "plain_cqe v c \<longleftrightarrow> c_format c = 0 \<and>
     (c_opcode c = MLX5_CQE_REQ \<or>
      c_opcode c = MLX5_CQE_RESP_SEND \<and> b8 c 40 \<noteq> 1 \<and> (v \<or> c_srqn_uidx c AND 0xffffff = 0))"

definition owned_by :: "poll_env \<Rightarrow> bool \<Rightarrow> (nat \<Rightarrow> rsc_obj option) \<Rightarrow> cqe64 \<Rightarrow> nat \<Rightarrow> mlx5_qp \<Rightarrow> bool" where
  "owned_by env v objs c a q \<longleftrightarrow> a \<noteq> 0 \<and> table_lookup env v (key_of v c) = Inr a \<and> objs a = Some (Qp_obj q) \<and>
     q_rsn q = key_of v c \<and> qp_arrays q \<and> (v \<and> c_opcode c = MLX5_CQE_RESP_SEND \<longrightarrow> q_srq q = 0)"

text \<open>What one entry does: the identifier it reports, and the queue pair afterwards.\<close>

definition retire :: "cqe64 \<Rightarrow> mlx5_qp \<Rightarrow> u64 \<times> mlx5_qp" where
  "retire c q =
     (if c_opcode c = MLX5_CQE_REQ
      then (wq_wrid (q_sq q) ! send_index q c,
            q\<lparr>q_sq := (q_sq q)\<lparr>wq_tail := q_wqe_head q ! send_index q c + 1\<rparr>\<rparr>)
      else (wq_wrid (q_rq q) ! (unat (wq_tail (q_rq q)) mod rq_len (q_rq q)),
            q\<lparr>q_rq := (q_rq q)\<lparr>wq_tail := wq_tail (q_rq q) + 1\<rparr>\<rparr>))"

lemma retire_keeps [simp]:
  "qp_arrays (snd (retire c q)) = qp_arrays q" "q_rsn (snd (retire c q)) = q_rsn q" "q_srq (snd (retire c q)) = q_srq q"
  by (simp_all add: retire_def qp_arrays_def rq_len_def)

definition sent_as :: "u32 \<Rightarrow> wc_opcode option" where
  "sent_as op =
     (if op = 0x09 \<or> op = 0x08 then Some IBV_WC_RDMA_WRITE
      else if op = 0x0b \<or> op = 0x0a \<or> op = 0x01 then Some IBV_WC_SEND
      else if op = 0x10 then Some IBV_WC_RDMA_READ
      else if op = 0x11 then Some IBV_WC_COMP_SWAP
      else if op = 0x12 then Some IBV_WC_FETCH_ADD
      else if op = 0x14 then Some IBV_EXP_WC_MASKED_COMP_SWAP
      else if op = 0x15 then Some IBV_EXP_WC_MASKED_FETCH_ADD
      else if op = 0x0e then Some IBV_EXP_WC_TSO
      else None)"

definition reports :: "cqe64 \<Rightarrow> u64 \<Rightarrow> exp_wc \<Rightarrow> bool" where
  "reports c wid wc \<longleftrightarrow> w_wr_id wc = wid \<and> w_status wc = IBV_WC_SUCCESS \<and> w_qp_num wc = (c_sop_qpn c AND 0xffffff) \<and>
     (c_opcode c = MLX5_CQE_RESP_SEND \<longrightarrow> w_opcode wc = IBV_WC_RECV \<and> w_byte_len wc = c_byte_cnt c) \<and>
     (c_opcode c = MLX5_CQE_REQ \<longrightarrow> (\<forall>oc. sent_as (drop_bit 24 (c_sop_qpn c)) = Some oc \<longrightarrow> w_opcode wc = oc))"

text \<open>Whether the caller's completions have room for the fields the code writes without asking.\<close>

definition room_for_time :: "poll_env \<Rightarrow> nat \<Rightarrow> poll_state \<Rightarrow> bool" where
  "room_for_time env wc_size st \<longleftrightarrow> (pc_timestamp (ps_cq st) \<longrightarrow> off_wc_timestamp (pe_layout env) < wc_size)"

lemma opcodes_differ [simp]:
  "MLX5_CQE_RESP_SEND \<noteq> MLX5_CQE_REQ" "MLX5_CQE_REQ \<noteq> MLX5_CQE_RESP_SEND"
  "is_requestor MLX5_CQE_REQ" "\<not> is_responder MLX5_CQE_REQ" "is_responder MLX5_CQE_RESP_SEND" "\<not> is_requestor MLX5_CQE_RESP_SEND"
  by (simp_all add: is_requestor_def is_responder_def MLX5_CQE_REQ_def MLX5_CQE_RESP_SEND_def MLX5_CQE_REQ_ERR_def
      MLX5_CQE_RESP_WR_IMM_def MLX5_CQE_RESP_SEND_IMM_def MLX5_CQE_RESP_SEND_INV_def MLX5_CQE_RESP_ERR_def MLX5_CQE_NO_PACKET_def)

lemma inline_none: "c_format c = 0 \<Longrightarrow> inline_data loc c = Inr None"
  by (simp add: inline_data_def MLX5_INLINE_DATA32_SEG_def MLX5_INLINE_DATA64_SEG_def)

lemma get_obj_ok: "a \<noteq> 0 \<Longrightarrow> ps_objs st a = Some ob \<Longrightarrow> get_obj st a = Inr ob"
  by (simp add: get_obj_def)

lemma get_qp_ok: "a \<noteq> 0 \<Longrightarrow> ps_objs st a = Some (Qp_obj q) \<Longrightarrow> get_qp st a = Inr q"
  by (simp add: get_qp_def get_obj_ok)

lemma send_index_less:
  assumes "qp_arrays q"
  shows "send_index q c < unat (wq_wqe_cnt (q_sq q))"
proof -
  obtain k where k: "unat (wq_wqe_cnt (q_sq q)) = 2 ^ k" using assms by (auto simp: qp_arrays_def)
  from unat_and_pow2 [OF k] show ?thesis by (simp add: send_index_def k)
qed

lemma recv_index:
  assumes "qp_arrays q"
  shows "unat (ucast (wq_tail (q_rq q) AND (wq_wqe_cnt (q_rq q) - 1)) :: u16) = unat (wq_tail (q_rq q)) mod rq_len (q_rq q)"
    "unat (wq_tail (q_rq q) AND (wq_wqe_cnt (q_rq q) - 1)) = unat (wq_tail (q_rq q)) mod rq_len (q_rq q)"
proof -
  obtain k where k: "k \<le> 16" "rq_len (q_rq q) = 2 ^ k" using assms by (auto simp: qp_arrays_def)
  then have cnt: "unat (wq_wqe_cnt (q_rq q)) = 2 ^ k" by (simp add: rq_len_def)
  from unat_and_pow2 [OF cnt, of "wq_tail (q_rq q)"] show i: "unat (wq_tail (q_rq q) AND (wq_wqe_cnt (q_rq q) - 1)) = unat (wq_tail (q_rq q)) mod rq_len (q_rq q)"
    by (simp only: k(2) cnt)
  have "(2::nat) ^ k \<le> 2 ^ 16" using k(1) by (intro power_increasing) auto
  moreover have "unat (wq_tail (q_rq q)) mod rq_len (q_rq q) < 2 ^ k" by (simp add: k(2))
  ultimately have "unat (wq_tail (q_rq q)) mod rq_len (q_rq q) < 65536" by simp
  then show "unat (ucast (wq_tail (q_rq q) AND (wq_wqe_cnt (q_rq q) - 1)) :: u16) = unat (wq_tail (q_rq q)) mod rq_len (q_rq q)"
    by (simp add: unsigned_ucast_eq i take_bit_nat_eq_self)
qed

section \<open>The steps of one poll\<close>

lemma find_owner_ok:
  assumes "cursor_ok env v st" "owned_by env v (ps_objs st) c a q"
    and "\<not> v \<and> is_responder (c_opcode c) \<longrightarrow> c_srqn_uidx c AND 0xffffff = 0"
  shows "find_owner env v c st l = Inr (True, st\<lparr>ps_rsc := a\<rparr>, l)"
proof -
  have tab: "table_lookup env v (key_of v c) = Inr a" "a \<noteq> 0" using assms(2) by (simp_all add: owned_by_def)
  have same: "st\<lparr>ps_rsc := a\<rparr> = st" if "same_rsc st (key_of v c) = Inr True"
  proof -
    have ne: "ps_rsc st \<noteq> 0" using that by (simp add: same_rsc_def split: if_splits)
    then obtain ob where ob: "ps_objs st (ps_rsc st) = Some ob" "table_lookup env v (rsn_of ob) = Inr (ps_rsc st)"
      using assms(1) by (auto simp: cursor_ok_def)
    then have "key_of v c = rsn_of ob" using that ne by (simp add: same_rsc_def get_obj_ok)
    then have "ps_rsc st = a" using ob(2) tab(1) by simp
    then show ?thesis by simp
  qed
  have res: "\<exists>b. same_rsc st (key_of v c) = Inr b"
    using assms(1) by (auto simp: same_rsc_def cursor_ok_def get_obj_ok)
  then obtain b where b: "same_rsc st (key_of v c) = Inr b" by blast
  show ?thesis
  proof (cases v)
    case True
    then show ?thesis using b same tab by (cases b) (simp_all add: find_owner_def key_of_def table_lookup_def)
  next
    case False
    then have "\<not> (is_responder (c_opcode c) \<and> c_srqn_uidx c AND 0xffffff \<noteq> 0)" using assms(3) by blast
    then show ?thesis using False b same tab
      by (cases b) (auto simp: find_owner_def key_of_def table_lookup_def Let_def)
  qed
qed

lemma use_owner_ok:
  assumes "owned_by env v (ps_objs st) c a q" "ps_rsc st = a"
    and "v \<and> is_responder (c_opcode c) \<longrightarrow> q_srq q = 0"
  shows "\<exists>fl w. use_owner lay wc_size v (is_responder (c_opcode c)) st l wc =
    Inr (True, st, l\<lparr>l_mqp := a, l_type := RSC_QP, l_flags := fl\<rparr>, w) \<and>
    (w = wc \<or> w = wc\<lparr>w_qp := a\<rparr>)"
proof -
  have "get_obj st a = Inr (Qp_obj q)" "a \<noteq> 0" using assms(1) by (simp_all add: owned_by_def get_obj_ok)
  then show ?thesis using assms(2,3)
    by (intro exI [of _ "if off_wc_qp lay < wc_size then insert IBV_EXP_WC_QP (l_flags l) else l_flags l"])
      (auto simp: use_owner_def Let_def)
qed

lemma retire_send_ok:
  assumes "qp_arrays q" "get_qp st a = Inr q"
  shows "retire_send a (send_index q c) st wc =
    Inr (put_qp a (q\<lparr>q_sq := (q_sq q)\<lparr>wq_tail := q_wqe_head q ! send_index q c + 1\<rparr>\<rparr>) st,
         wc\<lparr>w_wr_id := wq_wrid (q_sq q) ! send_index q c\<rparr>)"
  using assms send_index_less [OF assms(1), of c] by (simp add: retire_send_def qp_arrays_def)

lemma poll_req_ok:
  assumes "qp_arrays q" "get_qp st a = Inr q" "l_mqp l = a" "a \<noteq> 0" "c_format c = 0" "c_opcode c = MLX5_CQE_REQ"
  shows "\<exists>w. poll_req c loc st l wc = Inr (Return CQ_OK, put_qp a (snd (retire c q)) st, l, w) \<and>
    w_wr_id w = fst (retire c q) \<and> w_status w = IBV_WC_SUCCESS \<and> w_qp_num w = w_qp_num wc \<and>
    (\<forall>oc. sent_as (drop_bit 24 (c_sop_qpn c)) = Some oc \<longrightarrow> w_opcode w = oc)"
proof -
  have idx: "send_index q c < length (wq_wr_data (q_sq q))"
    using send_index_less [OF assms(1)] assms(1) by (simp add: qp_arrays_def)
  have "\<exists>w. handle_good_req c (q_sq q) (send_index q c) wc = Inr w \<and> w_qp_num w = w_qp_num wc \<and>
      (\<forall>oc. sent_as (drop_bit 24 (c_sop_qpn c)) = Some oc \<longrightarrow> w_opcode w = oc)"
    using idx by (auto simp: handle_good_req_def Let_def sent_as_def)
  then obtain w where w: "handle_good_req c (q_sq q) (send_index q c) wc = Inr w" "w_qp_num w = w_qp_num wc"
      "\<forall>oc. sent_as (drop_bit 24 (c_sop_qpn c)) = Some oc \<longrightarrow> w_opcode w = oc" by blast
  have "st\<lparr>ps_mem := ps_mem st\<rparr> = st" by simp
  then show ?thesis using assms w retire_send_ok [OF assms(1,2), of c w]
    by (simp add: poll_req_def inline_none retire_def)
qed

lemma poll_resp_ok:
  assumes "qp_arrays q" "get_qp st a = Inr q" "l_mqp l = a" "a \<noteq> 0" "plain_cqe v c" "c_opcode c = MLX5_CQE_RESP_SEND"
    and "\<not> l_is_srq l"
  shows "\<exists>l' w. poll_resp lay wc_size c loc st l wc = Inr (Return CQ_OK, put_qp a (snd (retire c q)) st, l', w) \<and>
    l_timestamp_en l' = l_timestamp_en l \<and> w_wr_id w = fst (retire c q) \<and> w_status w = IBV_WC_SUCCESS \<and>
    w_qp_num w = w_qp_num wc \<and> w_opcode w = IBV_WC_RECV \<and> w_byte_len w = c_byte_cnt c"
proof -
  have fmt: "c_format c = 0" "b8 c 40 \<noteq> 1" using assms(5,6) by (auto simp: plain_cqe_def)
  have i: "unat (wq_tail (q_rq q)) mod rq_len (q_rq q) < length (wq_wrid (q_rq q))"
    using assms(1) by (auto simp: qp_arrays_def)
  let ?st = "put_qp a (snd (retire c q)) st"
  have q': "get_qp ?st a = Inr (snd (retire c q))" using assms(4) by (simp add: get_qp_ok put_obj_def)
  have r: "resp_rq c loc a st wc = Inr (IBV_WC_SUCCESS, ?st, wc\<lparr>w_wr_id := fst (retire c q), w_byte_len := c_byte_cnt c\<rparr>)"
    using assms(2,6) recv_index(1) [OF assms(1)] i
    by (simp add: resp_rq_def Let_def inline_none [OF fmt(1)] retire_def)
  have "\<exists>w'. resp_fields c a 0 (l_type l) ?st w = Inr w' \<and> w_wr_id w' = w_wr_id w \<and> w_qp_num w' = w_qp_num w \<and>
      w_opcode w' = IBV_WC_RECV \<and> w_byte_len w' = w_byte_len w" for w
    using assms(4,6) q' by (auto simp: resp_fields_def resp_opcode_def resp_source_def Let_def MLX5_CQE_RESP_SEND_def
        MLX5_CQE_RESP_WR_IMM_def)
  then obtain w where w: "resp_fields c a 0 (l_type l) ?st (wc\<lparr>w_wr_id := fst (retire c q), w_byte_len := c_byte_cnt c\<rparr>) = Inr w"
    "w_wr_id w = fst (retire c q)" "w_qp_num w = w_qp_num wc" "w_opcode w = IBV_WC_RECV" "w_byte_len w = c_byte_cnt c"
    by fastforce
  have "handle_responder lay wc_size c loc a 0 (l_type l) st wc (l_flags l) = Inr (IBV_WC_SUCCESS, ?st, w, l_flags l)"
    using r w(1) by (simp add: handle_responder_def)
  then show ?thesis using assms(3,4,7) fmt(2) q' w
    by (simp add: poll_resp_def poll_filler_def)
qed

section \<open>One completion\<close>

definition advance :: "nat \<Rightarrow> poll_state \<Rightarrow> poll_state" where
  "advance k st = set_q ((ps_q st)\<lparr>cq_cons := cq_cons (ps_q st) + of_nat k\<rparr>) st"

lemma advance_simps [simp]:
  "ps_objs (advance k st) = ps_objs st" "ps_mem (advance k st) = ps_mem st" "ps_rsc (advance k st) = ps_rsc st"
  "ps_srq (advance k st) = ps_srq st" "pc_peer (ps_cq (advance k st)) = pc_peer (ps_cq st)"
  "pc_timestamp (ps_cq (advance k st)) = pc_timestamp (ps_cq st)" "ps_q (advance k st) = (ps_q st)\<lparr>cq_cons := cq_cons (ps_q st) + of_nat k\<rparr>"
  by (simp_all add: advance_def)

lemma put_obj_simps [simp]:
  "ps_objs (put_obj a ob st) = (ps_objs st)(a \<mapsto> ob)" "ps_mem (put_obj a ob st) = ps_mem st" "ps_cq (put_obj a ob st) = ps_cq st"
  "ps_rsc (put_obj a ob st) = ps_rsc st" "ps_srq (put_obj a ob st) = ps_srq st"
  by (simp_all add: put_obj_def)

text \<open>The state after the entry \<open>c\<close> of the queue pair \<open>q\<close> at \<open>a\<close>.\<close>

definition retired :: "nat \<Rightarrow> mlx5_qp \<Rightarrow> cqe64 \<Rightarrow> poll_state \<Rightarrow> poll_state" where
  "retired a q c st = put_qp a (snd (retire c q)) ((advance 1 st)\<lparr>ps_rsc := a\<rparr>)"

lemma retired_simps [simp]:
  "ps_objs (retired a q c st) = (ps_objs st)(a \<mapsto> Qp_obj (snd (retire c q)))" "ps_mem (retired a q c st) = ps_mem st"
  "ps_q (retired a q c st) = (ps_q st)\<lparr>cq_cons := cq_cons (ps_q st) + 1\<rparr>" "ps_rsc (retired a q c st) = a"
  "pc_peer (ps_cq (retired a q c st)) = pc_peer (ps_cq st)" "pc_timestamp (ps_cq (retired a q c st)) = pc_timestamp (ps_cq st)"
  by (simp_all add: retired_def)

lemma owned_by_cong: "owned_by env v objs c a q \<Longrightarrow> objs' a = objs a \<Longrightarrow> owned_by env v objs' c a q"
  by (simp add: owned_by_def)

lemma poll_switch_plain:
  assumes "plain_cqe v c" "qp_arrays q" "get_qp st a = Inr q" "l_mqp l = a" "a \<noteq> 0" "\<not> l_is_srq l"
  shows "\<exists>l' w. poll_switch env wc_size c loc st l wc = Inr (Return CQ_OK, put_qp a (snd (retire c q)) st, l', w) \<and>
    l_timestamp_en l' = l_timestamp_en l \<and> w_wr_id w = fst (retire c q) \<and> w_status w = IBV_WC_SUCCESS \<and>
    w_qp_num w = w_qp_num wc \<and> (c_opcode c = MLX5_CQE_RESP_SEND \<longrightarrow> w_opcode w = IBV_WC_RECV \<and> w_byte_len w = c_byte_cnt c) \<and>
    (c_opcode c = MLX5_CQE_REQ \<longrightarrow> (\<forall>oc. sent_as (drop_bit 24 (c_sop_qpn c)) = Some oc \<longrightarrow> w_opcode w = oc))"
proof (cases "c_opcode c = MLX5_CQE_REQ")
  case True
  then show ?thesis using poll_req_ok [OF assms(2,3,4,5) _ True, of loc wc] assms(1)
    by (auto simp: poll_switch_def Let_def plain_cqe_def)
next
  case False
  then have "c_opcode c = MLX5_CQE_RESP_SEND" using assms(1) by (auto simp: plain_cqe_def)
  then show ?thesis using poll_resp_ok [OF assms(2,3,4,5,1) _ assms(6), of "pe_layout env" wc_size loc wc]
    by (auto simp: poll_switch_def Let_def)
qed

lemma poll_finish_plain:
  assumes "pc_peer (ps_cq st) = None" "l_timestamp_en l \<longrightarrow> off_wc_timestamp lay < wc_size"
  shows "\<exists>w. poll_finish lay wc_size c loc st l wc = Inr (st, w) \<and> w_wr_id w = w_wr_id wc \<and> w_status w = w_status wc \<and>
    w_qp_num w = w_qp_num wc \<and> w_opcode w = w_opcode wc \<and> w_byte_len w = w_byte_len wc"
  using assms by (auto simp: poll_finish_def within_def Let_def)

lemma poll_entry_plain:
  assumes ring: "poll_ring st" and c: "c = next_proper st 0" "plain_cqe v c" and cur: "cursor_ok env v st"
    and own: "owned_by env v (ps_objs st) c a q" and l: "\<not> l_is_srq l" "l_timestamp_en l \<longrightarrow> off_wc_timestamp (pe_layout env) < wc_size"
  shows "\<exists>l' w. poll_entry env v wc_size (Ring (next_addr (ps_q st) 0)) st l wc =
    Inr (Return CQ_OK, retired a q c st, l', w) \<and> reports c (fst (retire c q)) w"
proof -
  let ?st = "advance 1 st" and ?lay = "pe_layout env"
  have op: "c_opcode c = MLX5_CQE_REQ \<or> c_opcode c = MLX5_CQE_RESP_SEND" using c(2) by (auto simp: plain_cqe_def)
  have fmt: "c_format c \<noteq> MLX5_COMPRESSED" using c(2) by (simp add: plain_cqe_def MLX5_COMPRESSED_def)
  have cqe: "cqe_at st (Ring (next_addr (ps_q st) 0)) = Inr c" using cqe_at_next [OF ring] c(1) by simp
  have own1: "owned_by env v (ps_objs ?st) c a q" using own by simp
  have cur1: "cursor_ok env v ?st" using cur by (simp add: cursor_ok_def)
  have fo: "find_owner env v c ?st l = Inr (True, ?st\<lparr>ps_rsc := a\<rparr>, l)"
    by (rule find_owner_ok [OF cur1 own1]) (use c(2) in \<open>auto simp: plain_cqe_def\<close>)
  let ?st2 = "?st\<lparr>ps_rsc := a\<rparr>" and ?wc = "wc\<lparr>w_flags := {}\<rparr>"
  have "v \<and> is_responder (c_opcode c) \<longrightarrow> q_srq q = 0" using own op by (auto simp: owned_by_def)
  from use_owner_ok [of env v ?st2 c a q, OF _ _ this, of ?lay wc_size l ?wc] own obtain fl w1 where
    uo: "use_owner ?lay wc_size v (is_responder (c_opcode c)) ?st2 l ?wc = Inr (True, ?st2, l\<lparr>l_mqp := a, l_type := RSC_QP, l_flags := fl\<rparr>, w1)"
    by auto
  let ?l = "l\<lparr>l_mqp := a, l_type := RSC_QP, l_flags := fl\<rparr>" and ?w = "w1\<lparr>w_qp_num := c_sop_qpn c AND 0xffffff\<rparr>"
  have ns: "note_srq ?lay wc_size ?st2 ?l w1 = (?l, w1)" using l(1) by (simp add: note_srq_def)
  have q: "get_qp ?st2 a = Inr q" "a \<noteq> 0" "qp_arrays q" using own by (simp_all add: owned_by_def get_qp_ok)
  obtain l' w2 where sw: "poll_switch env wc_size c (Ring (next_addr (ps_q st) 0)) ?st2 ?l ?w = Inr (Return CQ_OK, retired a q c st, l', w2)"
    "l_timestamp_en l' = l_timestamp_en l" "w_wr_id w2 = fst (retire c q)" "w_status w2 = IBV_WC_SUCCESS"
    "w_qp_num w2 = c_sop_qpn c AND 0xffffff"
    "c_opcode c = MLX5_CQE_RESP_SEND \<longrightarrow> w_opcode w2 = IBV_WC_RECV \<and> w_byte_len w2 = c_byte_cnt c"
    "c_opcode c = MLX5_CQE_REQ \<longrightarrow> (\<forall>oc. sent_as (drop_bit 24 (c_sop_qpn c)) = Some oc \<longrightarrow> w_opcode w2 = oc)"
    using poll_switch_plain [OF c(2) q(3,1) _ q(2), of ?l env wc_size "Ring (next_addr (ps_q st) 0)" ?w] l(1)
    unfolding retired_def by auto
  have "pc_peer (ps_cq (retired a q c st)) = None" using ring by (simp add: poll_ring_def)
  then obtain w3 where fin: "poll_finish ?lay wc_size c (Ring (next_addr (ps_q st) 0)) (retired a q c st) l' w2 = Inr (retired a q c st, w3)"
    "w_wr_id w3 = w_wr_id w2" "w_status w3 = w_status w2" "w_qp_num w3 = w_qp_num w2" "w_opcode w3 = w_opcode w2" "w_byte_len w3 = w_byte_len w2"
    using poll_finish_plain [of "retired a q c st" l' ?lay wc_size c _ w2] sw(2) l(2) by metis
  have known: "is_requestor (c_opcode c) \<or> is_responder (c_opcode c)" using op by auto
  have "set_q ((ps_q st)\<lparr>cq_cons := cq_cons (ps_q st) + 1\<rparr>) st = ?st" by (simp add: advance_def)
  then have "poll_entry env v wc_size (Ring (next_addr (ps_q st) 0)) st l wc = Inr (Return CQ_OK, retired a q c st, l', w3)"
    using cqe fmt known fo uo ns sw(1) fin(1) by (simp add: poll_entry_defs Let_def)
  moreover have "reports c (fst (retire c q)) w3" using sw(3-7) fin(2-) by (simp add: reports_def)
  ultimately show ?thesis by blast
qed

section \<open>A run of completions\<close>

text \<open>The entries in their order, on the objects: the identifiers reported, the objects afterwards.\<close>

fun retire_all :: "poll_env \<Rightarrow> bool \<Rightarrow> cqe64 list \<Rightarrow> (nat \<Rightarrow> rsc_obj option) \<Rightarrow> u64 list \<times> (nat \<Rightarrow> rsc_obj option)" where
  "retire_all env v [] objs = ([], objs)"
| "retire_all env v (c # cs) objs =
     (case table_lookup env v (key_of v c) of
        Inr a \<Rightarrow>
          (case objs a of
             Some (Qp_obj q) \<Rightarrow>
               let r = retire_all env v cs (objs(a \<mapsto> Qp_obj (snd (retire c q)))) in (fst (retire c q) # fst r, snd r)
           | _ \<Rightarrow> ([], objs))
      | Inl e \<Rightarrow> ([], objs))"

definition plain_run :: "poll_env \<Rightarrow> bool \<Rightarrow> (nat \<Rightarrow> rsc_obj option) \<Rightarrow> cqe64 list \<Rightarrow> bool" where
  "plain_run env v objs cs \<longleftrightarrow> (\<forall>c \<in> set cs. plain_cqe v c \<and> (\<exists>a q. owned_by env v objs c a q))"

lemma owned_by_retired:
  assumes "owned_by env v objs c a q" "objs a' = Some (Qp_obj q')"
  shows "\<exists>q2. owned_by env v (objs(a' \<mapsto> Qp_obj (snd (retire c' q')))) c a q2"
  using assms by (cases "a = a'") (auto simp: owned_by_def)

lemma plain_run_retired:
  "plain_run env v objs cs \<Longrightarrow> objs a = Some (Qp_obj q) \<Longrightarrow> plain_run env v (objs(a \<mapsto> Qp_obj (snd (retire c q)))) cs"
  unfolding plain_run_def using owned_by_retired by blast

lemma retire_all_Cons:
  assumes "owned_by env v objs c a q"
  shows "retire_all env v (c # cs) objs =
    (fst (retire c q) # fst (retire_all env v cs (objs(a \<mapsto> Qp_obj (snd (retire c q))))),
     snd (retire_all env v cs (objs(a \<mapsto> Qp_obj (snd (retire c q))))))"
  using assms by (simp add: owned_by_def Let_def)

lemma length_retire_all: "plain_run env v objs cs \<Longrightarrow> length (fst (retire_all env v cs objs)) = length cs"
proof (induction cs arbitrary: objs)
  case (Cons c cs)
  then obtain a q where own: "owned_by env v objs c a q" by (auto simp: plain_run_def)
  have "plain_run env v (objs(a \<mapsto> Qp_obj (snd (retire c q)))) cs"
    by (rule plain_run_retired) (use Cons.prems own in \<open>auto simp: plain_run_def owned_by_def\<close>)
  then show ?case using Cons.IH retire_all_Cons [OF own] by simp
qed simp

lemma ring_cons [simp]:
  "ring_len (q\<lparr>cq_cons := x\<rparr>) = ring_len q" "ring_at (q\<lparr>cq_cons := x\<rparr>) n = ring_at q n"
  "entry_at (q\<lparr>cq_cons := x\<rparr>) m n = entry_at q m n" "cq_ring (q\<lparr>cq_cons := x\<rparr>) m = cq_ring q m"
  "odd_pass (q\<lparr>cq_cons := x\<rparr>) n = odd_pass q n" "sw_owned (q\<lparr>cq_cons := x\<rparr>) n c = sw_owned q n c"
  by (simp_all add: ring_len_def ring_at_def entry_at_def cq_ring_def odd_pass_def sw_owned_def)

lemma idx_cong:
  assumes "cq_ring q m" "idx_of n = idx_of n'"
  shows "ring_at q n = ring_at q n'" "odd_pass q n = odd_pass q n'"
  using get_cqe_at [OF assms(1), of n] get_cqe_at [OF assms(1), of n'] pass_bit [OF assms(1), of n]
    pass_bit [OF assms(1), of n'] assms(2) by simp_all

lemma next_index_of: "idx_of (unat ((c :: u32) + of_nat k) + i) = idx_of (unat c + (k + i))"
  by (simp add: idx_of_def algebra_simps)

lemma next_proper_advanced:
  assumes "cq_ring (ps_q st) (ps_mem st)" "ps_mem st' = ps_mem st"
    and "ps_q st' = (ps_q st)\<lparr>cq_cons := cq_cons (ps_q st) + of_nat k\<rparr>"
  shows "next_proper st' i = next_proper st (k + i)"
    and "sw_owned (ps_q st') (unat (cq_cons (ps_q st')) + i) c = sw_owned (ps_q st) (unat (cq_cons (ps_q st)) + (k + i)) c"
proof -
  note I = idx_cong [OF assms(1) next_index_of [of "cq_cons (ps_q st)" k i]]
  show "next_proper st' i = next_proper st (k + i)" using I(1) assms(2,3) by (simp add: next_proper_def entry_at_def)
  show "sw_owned (ps_q st') (unat (cq_cons (ps_q st')) + i) c = sw_owned (ps_q st) (unat (cq_cons (ps_q st)) + (k + i)) c"
    using I(2) assms(3) by (simp add: sw_owned_def)
qed

lemma poll_one_plain:
  assumes ring: "poll_ring st" and c: "c = next_proper st 0" "plain_cqe v c" "sw_owned (ps_q st) (unat (cq_cons (ps_q st))) c"
    and cur: "cursor_ok env v st" and own: "owned_by env v (ps_objs st) c a q" and room: "room_for_time env wc_size st"
  shows "\<exists>w. mlx5_poll_one (Suc f) env v wc_size st wc = Some (Inr (CQ_OK, retired a q c st, w)) \<and> reports c (fst (retire c q)) w"
proof -
  obtain l' w where pe: "poll_entry env v wc_size (Ring (next_addr (ps_q st) 0)) st (init_locals st) wc =
      Inr (Return CQ_OK, retired a q c st, l', w)" "reports c (fst (retire c q)) w"
    using poll_entry_plain [OF ring c(1,2) cur own, of "init_locals st" wc_size wc] room
    by (auto simp: init_locals_def room_for_time_def)
  have "get_next_cqe (Suc f) (cq_sz (ps_q st)) st = Some (Inr (Some (Ring (next_addr (ps_q st) 0)), st))"
    using next_cqe [OF ring] c(1,3) by simp
  then show ?thesis using pe by (simp add: mlx5_poll_one_def)
qed

lemma retired_keeps:
  assumes "poll_ring st" "owned_by env v (ps_objs st) c a q" "room_for_time env wc_size st"
  shows "poll_ring (retired a q c st)" "room_for_time env wc_size (retired a q c st)" "cursor_ok env v (retired a q c st)"
  using assms by (simp_all add: poll_ring_def room_for_time_def cursor_ok_def owned_by_def)

text \<open>Entry \<open>i\<close> of the run is the software's and is \<open>cs ! i\<close>.\<close>

definition next_run :: "poll_state \<Rightarrow> cqe64 list \<Rightarrow> bool" where
  "next_run st cs \<longleftrightarrow> (\<forall>i < length cs. next_proper st i = cs ! i \<and>
     sw_owned (ps_q st) (unat (cq_cons (ps_q st)) + i) (cs ! i))"

lemma next_run_retired:
  assumes "poll_ring st" "next_run st (c # cs)"
  shows "next_run (retired a q c st) cs"
proof -
  have ring: "cq_ring (ps_q st) (ps_mem st)" using assms(1) by (simp add: poll_ring_def)
  have q: "ps_q (retired a q c st) = (ps_q st)\<lparr>cq_cons := cq_cons (ps_q st) + of_nat 1\<rparr>" by simp
  note N = next_proper_advanced [OF ring _ q]
  have "next_proper (retired a q c st) i = cs ! i \<and>
      sw_owned (ps_q (retired a q c st)) (unat (cq_cons (ps_q (retired a q c st))) + i) (cs ! i)" if "i < length cs" for i
  proof -
    have "Suc i < length (c # cs)" using that by simp
    then have "next_proper st (1 + i) = cs ! i" "sw_owned (ps_q st) (unat (cq_cons (ps_q st)) + (1 + i)) (cs ! i)"
      using assms(2) by (fastforce simp: next_run_def)+
    then show ?thesis using N(1) N(2) by simp
  qed
  then show ?thesis by (simp add: next_run_def)
qed

lemma poll_loop_plain:
  assumes "poll_ring st" "cursor_ok env v st" "plain_run env v (ps_objs st) cs" "next_run st cs"
    and "room_for_time env wc_size st" "int (k + length cs) \<le> ne" "ne \<le> int (length wcs)"
  shows "\<exists>st' wcs'. poll_loop (Suc f) env v wc_size ne k st wcs = poll_loop (Suc f) env v wc_size ne (k + length cs) st' wcs' \<and>
    poll_ring st' \<and> cursor_ok env v st' \<and> room_for_time env wc_size st' \<and>
    ps_mem st' = ps_mem st \<and> ps_q st' = (ps_q st)\<lparr>cq_cons := cq_cons (ps_q st) + of_nat (length cs)\<rparr> \<and>
    ps_objs st' = snd (retire_all env v cs (ps_objs st)) \<and> length wcs' = length wcs \<and> (\<forall>j < k. wcs' ! j = wcs ! j) \<and>
    (\<forall>i < length cs. reports (cs ! i) (fst (retire_all env v cs (ps_objs st)) ! i) (wcs' ! (k + i)))"
  using assms
proof (induction cs arbitrary: k st wcs)
  case Nil
  then show ?case by (intro exI [of _ st] exI [of _ wcs]) simp
next
  case (Cons c cs)
  have c: "next_proper st 0 = c" "sw_owned (ps_q st) (unat (cq_cons (ps_q st))) c"
    using Cons.prems(4) unfolding next_run_def by fastforce+
  obtain a q where own: "owned_by env v (ps_objs st) c a q" and pl: "plain_cqe v c"
    using Cons.prems(3) by (auto simp: plain_run_def)
  obtain w where w: "mlx5_poll_one (Suc f) env v wc_size st (wcs ! k) = Some (Inr (CQ_OK, retired a q c st, w))"
    "reports c (fst (retire c q)) w"
    using poll_one_plain [OF Cons.prems(1) c(1) [symmetric] pl c(2) Cons.prems(2) own Cons.prems(5)] by blast
  let ?st = "retired a q c st" and ?wcs = "wcs[k := w]"
  have k: "k < length wcs" "int k < ne" using Cons.prems(6,7) by auto
  have step: "poll_loop (Suc f) env v wc_size ne k st wcs = poll_loop (Suc f) env v wc_size ne (Suc k) ?st ?wcs"
    using k w(1) by (subst poll_loop.simps) simp
  have aq: "ps_objs st a = Some (Qp_obj q)" using own by (simp add: owned_by_def)
  have run: "plain_run env v (ps_objs ?st) cs"
    unfolding retired_simps by (rule plain_run_retired) (use Cons.prems(3) aq in \<open>auto simp: plain_run_def\<close>)
  note K = retired_keeps [OF Cons.prems(1) own Cons.prems(5)]
  have room: "int (Suc k + length cs) \<le> ne" "ne \<le> int (length ?wcs)" using Cons.prems(6,7) by simp_all
  obtain st' wcs' where ih: "poll_loop (Suc f) env v wc_size ne (Suc k) ?st ?wcs =
      poll_loop (Suc f) env v wc_size ne (Suc k + length cs) st' wcs'"
    "poll_ring st'" "cursor_ok env v st'" "room_for_time env wc_size st'" "ps_mem st' = ps_mem ?st"
    "ps_q st' = (ps_q ?st)\<lparr>cq_cons := cq_cons (ps_q ?st) + of_nat (length cs)\<rparr>"
    "ps_objs st' = snd (retire_all env v cs (ps_objs ?st))" "length wcs' = length ?wcs" "\<forall>j < Suc k. wcs' ! j = ?wcs ! j"
    "\<forall>i < length cs. reports (cs ! i) (fst (retire_all env v cs (ps_objs ?st)) ! i) (wcs' ! (Suc k + i))"
    using Cons.IH [OF K(1,3) run next_run_retired [OF Cons.prems(1,4)] K(2) room] by blast
  have "reports ((c # cs) ! i) (fst (retire_all env v (c # cs) (ps_objs st)) ! i) (wcs' ! (k + i))" if "i < length (c # cs)" for i
  proof (cases i)
    case 0
    have "wcs' ! k = w" using ih(9) k(1) by simp
    then show ?thesis using 0 w(2) retire_all_Cons [OF own] by simp
  next
    case (Suc j)
    then show ?thesis using ih(10) that retire_all_Cons [OF own] by simp
  qed
  moreover have "\<forall>j < k. wcs' ! j = wcs ! j" using ih(9) by simp
  ultimately show ?case using step ih(1-8) retire_all_Cons [OF own]
    by (intro exI [of _ st'] exI [of _ wcs']) (simp add: add.assoc)
qed

section \<open>The end of a run\<close>

definition nothing_at :: "poll_state \<Rightarrow> nat \<Rightarrow> bool" where
  "nothing_at st n \<longleftrightarrow> \<not> sw_owned (ps_q st) (unat (cq_cons (ps_q st)) + n) (next_proper st n)"

text \<open>An entry of the software's that is neither of a requestor nor of a responder.\<close>

definition stray_at :: "poll_state \<Rightarrow> nat \<Rightarrow> bool" where
  "stray_at st n \<longleftrightarrow> (let c = next_proper st n in
     sw_owned (ps_q st) (unat (cq_cons (ps_q st)) + n) c \<and> c_format c = 0 \<and>
     \<not> is_requestor (c_opcode c) \<and> \<not> is_responder (c_opcode c))"

lemma poll_one_empty:
  "poll_ring st \<Longrightarrow> nothing_at st 0 \<Longrightarrow> mlx5_poll_one (Suc f) env v wc_size st wc = Some (Inr (CQ_EMPTY, st, wc))"
  using next_cqe [of st "Suc f"] by (simp add: mlx5_poll_one_def nothing_at_def)

lemma poll_one_stray:
  assumes "poll_ring st" "stray_at st 0"
  shows "mlx5_poll_one (Suc f) env v wc_size st wc = Some (Inr (CQ_POLL_ERR, advance 1 st, wc\<lparr>w_flags := {}\<rparr>))"
proof -
  have "cqe_at st (Ring (next_addr (ps_q st) 0)) = Inr (next_proper st 0)" by (rule cqe_at_next [OF assms(1)])
  then have "poll_entry env v wc_size (Ring (next_addr (ps_q st) 0)) st (init_locals st) wc =
      Inr (Return CQ_POLL_ERR, advance 1 st, init_locals st, wc\<lparr>w_flags := {}\<rparr>)"
    using assms(2) by (simp add: poll_entry_defs stray_at_def Let_def MLX5_COMPRESSED_def advance_def)
  then show ?thesis using next_cqe [OF assms(1), of "Suc f"] assms(2)
    by (simp add: mlx5_poll_one_def stray_at_def Let_def)
qed

lemma at_advanced:
  assumes "cq_ring (ps_q st) (ps_mem st)" "ps_mem st' = ps_mem st"
    and "ps_q st' = (ps_q st)\<lparr>cq_cons := cq_cons (ps_q st) + of_nat n\<rparr>"
  shows "nothing_at st' 0 = nothing_at st n" "stray_at st' 0 = stray_at st n"
  using next_proper_advanced [OF assms, of 0] by (simp_all add: nothing_at_def stray_at_def Let_def)

section \<open>\<open>poll_cq\<close>\<close>

definition fresh_cursor :: "poll_state \<Rightarrow> poll_state" where
  "fresh_cursor st = st\<lparr>ps_cq := stall_before (ps_cq st), ps_rsc := 0, ps_srq := 0\<rparr>"

lemma fresh_cursor_simps [simp]:
  "ps_q (fresh_cursor st) = ps_q st" "ps_mem (fresh_cursor st) = ps_mem st" "ps_objs (fresh_cursor st) = ps_objs st"
  "poll_ring (fresh_cursor st) = poll_ring st" "cursor_ok env v (fresh_cursor st)"
  "room_for_time env wc_size (fresh_cursor st) = room_for_time env wc_size st" "next_proper (fresh_cursor st) = next_proper st"
  "next_run (fresh_cursor st) cs = next_run st cs" "nothing_at (fresh_cursor st) n = nothing_at st n"
  "stray_at (fresh_cursor st) n = stray_at st n"
  by (simp_all add: fresh_cursor_def stall_before_def poll_ring_def cursor_ok_def room_for_time_def next_proper_def fun_eq_iff
      next_run_def nothing_at_def stray_at_def)

lemma stall_after_keeps [simp]: "pc_q (stall_after env clock err k ne pc) = pc_q pc"
  by (simp add: stall_after_def Let_def)

text \<open>What \<open>poll_cq\<close> has done when its loop ends with status \<open>r\<close> after the entries \<open>cs\<close>.\<close>

lemma drv_poll_cq_run:
  assumes ring: "poll_ring st" and run: "plain_run env v (ps_objs st) cs" "next_run st cs"
    and room: "room_for_time env wc_size st" and n: "int (length cs) \<le> ne" "ne \<le> int (length wcs)"
    and db: "mapped (ps_mem st) (cq_dbrec (ps_q st)) 4"
    and fin: "(int (length cs) = ne \<and> r = CQ_OK \<and> extra = 0) \<or>
      (int (length cs) < ne \<and> nothing_at st (length cs) \<and> r = CQ_EMPTY \<and> extra = 0) \<or>
      (int (length cs) < ne \<and> stray_at st (length cs) \<and> r = CQ_POLL_ERR \<and> extra = 1)"
  shows "\<exists>st' wcs'. drv_poll_cq (Suc f) clock env v wc_size ne st wcs =
      Some (Inr (if r = CQ_POLL_ERR then -2 else int (length cs), st', wcs')) \<and>
    ps_q st' = (ps_q st)\<lparr>cq_cons := cq_cons (ps_q st) + of_nat (length cs + extra)\<rparr> \<and>
    ps_objs st' = snd (retire_all env v cs (ps_objs st)) \<and>
    ps_mem st' = upd_bytes (cq_dbrec (ps_q st)) (be32 (cq_cons (ps_q st') AND 0xffffff)) (ps_mem st) \<and>
    (\<forall>i < length cs. reports (cs ! i) (fst (retire_all env v cs (ps_objs st)) ! i) (wcs' ! i))"
proof -
  let ?st = "fresh_cursor st" and ?n = "length cs"
  have "\<exists>st' wcs'. poll_loop (Suc f) env v wc_size ne 0 ?st wcs = poll_loop (Suc f) env v wc_size ne (0 + ?n) st' wcs' \<and>
    poll_ring st' \<and> cursor_ok env v st' \<and> room_for_time env wc_size st' \<and>
    ps_mem st' = ps_mem ?st \<and> ps_q st' = (ps_q ?st)\<lparr>cq_cons := cq_cons (ps_q ?st) + of_nat ?n\<rparr> \<and>
    ps_objs st' = snd (retire_all env v cs (ps_objs ?st)) \<and> length wcs' = length wcs \<and> (\<forall>j < 0. wcs' ! j = wcs ! j) \<and>
    (\<forall>i < ?n. reports (cs ! i) (fst (retire_all env v cs (ps_objs ?st)) ! i) (wcs' ! (0 + i)))"
    by (rule poll_loop_plain) (use ring run room n in simp_all)
  then obtain st1 wcs1 where L: "poll_loop (Suc f) env v wc_size ne 0 ?st wcs = poll_loop (Suc f) env v wc_size ne ?n st1 wcs1"
    "poll_ring st1" "ps_mem st1 = ps_mem st" "ps_q st1 = (ps_q st)\<lparr>cq_cons := cq_cons (ps_q st) + of_nat ?n\<rparr>"
    "ps_objs st1 = snd (retire_all env v cs (ps_objs st))" "length wcs1 = length wcs"
    "\<forall>i < ?n. reports (cs ! i) (fst (retire_all env v cs (ps_objs st)) ! i) (wcs1 ! i)" by auto
  have cq: "cq_ring (ps_q st) (ps_mem st)" using ring by (simp add: poll_ring_def)
  note A = at_advanced [OF cq L(3,4)]
  have "\<exists>st2 wcs2. poll_loop (Suc f) env v wc_size ne ?n st1 wcs1 = Some (Inr (r, ?n, st2, wcs2)) \<and>
    ps_q st2 = (ps_q st)\<lparr>cq_cons := cq_cons (ps_q st) + of_nat (?n + extra)\<rparr> \<and> ps_objs st2 = ps_objs st1 \<and> ps_mem st2 = ps_mem st \<and>
    (\<forall>i < ?n. wcs2 ! i = wcs1 ! i)"
    using fin
  proof (elim disjE conjE)
    assume "int ?n = ne" "r = CQ_OK" "extra = 0"
    then show ?thesis using L(3,4) by (subst poll_loop.simps) simp
  next
    assume e: "int ?n < ne" "nothing_at st ?n" "r = CQ_EMPTY" "extra = 0"
    then have "mlx5_poll_one (Suc f) env v wc_size st1 (wcs1 ! ?n) = Some (Inr (CQ_EMPTY, st1, wcs1 ! ?n))"
      using A(1) poll_one_empty [OF L(2)] by simp
    then show ?thesis using e n(2) L(3,4,6) by (subst poll_loop.simps) simp
  next
    assume e: "int ?n < ne" "stray_at st ?n" "r = CQ_POLL_ERR" "extra = 1"
    then have "mlx5_poll_one (Suc f) env v wc_size st1 (wcs1 ! ?n) =
        Some (Inr (CQ_POLL_ERR, advance 1 st1, (wcs1 ! ?n)\<lparr>w_flags := {}\<rparr>))"
      using A(2) poll_one_stray [OF L(2)] by simp
    then show ?thesis using e n(2) L(3,4,6) by (subst poll_loop.simps) (simp add: add.assoc)
  qed
  then obtain st2 wcs2 where E: "poll_loop (Suc f) env v wc_size ne 0 ?st wcs = Some (Inr (r, ?n, st2, wcs2))"
    "ps_q st2 = (ps_q st)\<lparr>cq_cons := cq_cons (ps_q st) + of_nat (?n + extra)\<rparr>" "ps_objs st2 = ps_objs st1" "ps_mem st2 = ps_mem st"
    "\<forall>i < ?n. wcs2 ! i = wcs1 ! i" using L(1) by auto
  let ?m = "upd_bytes (cq_dbrec (ps_q st)) (be32 (cq_cons (ps_q st2) AND 0xffffff)) (ps_mem st)"
  have "mlx5_update_cons_index (ps_q st2) (ps_mem st2) = Inr ?m"
    using db E(2,4) by (simp add: mlx5_update_cons_index_def store32_def)
  then have "drv_poll_cq (Suc f) clock env v wc_size ne st wcs =
      Some (Inr (if r = CQ_POLL_ERR then -2 else int ?n, st2\<lparr>ps_cq := stall_after env clock r ?n ne (ps_cq st2), ps_mem := ?m\<rparr>, wcs2))"
    using E(1) by (simp add: drv_poll_cq_def fresh_cursor_def [symmetric])
  then show ?thesis using E(2-5) L(5,7) by auto
qed

text \<open>It ends because there is nothing more, or because as many were polled as were asked for.\<close>

lemma drv_poll_cq_done:
  assumes "poll_ring st" "plain_run env v (ps_objs st) cs" "next_run st cs" "room_for_time env wc_size st"
    and "int (length cs) \<le> ne" "ne \<le> int (length wcs)" "mapped (ps_mem st) (cq_dbrec (ps_q st)) 4"
    and "int (length cs) < ne \<longrightarrow> nothing_at st (length cs)"
  shows "\<exists>st' wcs'. drv_poll_cq (Suc f) clock env v wc_size ne st wcs = Some (Inr (int (length cs), st', wcs')) \<and>
    ps_q st' = (ps_q st)\<lparr>cq_cons := cq_cons (ps_q st) + of_nat (length cs)\<rparr> \<and>
    ps_objs st' = snd (retire_all env v cs (ps_objs st)) \<and>
    ps_mem st' = upd_bytes (cq_dbrec (ps_q st)) (be32 (cq_cons (ps_q st') AND 0xffffff)) (ps_mem st) \<and>
    (\<forall>i < length cs. reports (cs ! i) (fst (retire_all env v cs (ps_objs st)) ! i) (wcs' ! i))"
proof (cases "int (length cs) = ne")
  case True
  then show ?thesis using drv_poll_cq_run [OF assms(1-7), of CQ_OK 0 f clock] by auto
next
  case False
  then have "int (length cs) < ne" using assms(5) by simp
  then show ?thesis using drv_poll_cq_run [OF assms(1-7), of CQ_EMPTY 0 f clock] assms(8) by auto
qed

end
