(* ===== verification/Poll_Typing.thy ===== *)
theory Poll_Typing
  imports Poll_Correct
begin

text \<open>
  Polling follows pointers to objects and casts them to the type it expects: the objects in the tables,
  the receive queue of a queue pair or DC target, the queue pair that posts the operations of a
  tag-matching queue. The shape of an object is its type, its number and the pointers it keeps; polling
  keeps all shapes, and when the pointers have the types they should, no cast is wrong. The rules are
  those of a weakest precondition: \<open>yields r Q\<close> holds when \<open>r\<close> is no wrong cast, and its result has \<open>Q\<close>.
\<close>

section \<open>Results without a wrong cast\<close>

definition yields :: "'a res \<Rightarrow> ('a \<Rightarrow> bool) \<Rightarrow> bool" where
  "yields r Q = (case r of Inl e \<Rightarrow> e \<noteq> Fault WrongType | Inr x \<Rightarrow> Q x)"

definition castless :: "'a res \<Rightarrow> bool" where
  "castless r \<longleftrightarrow> r \<noteq> Inl (Fault WrongType)"

lemma yields_simps [simp]:
  "yields (Inr x) Q = Q x" "yields (Inl e) Q = (e \<noteq> Fault WrongType)"
  "yields (bindR m f) Q = yields m (\<lambda>x. yields (f x) Q)"
  by (simp_all add: yields_def split: sum.splits)

lemma yields_castless: "castless r \<Longrightarrow> yields r Q \<longleftrightarrow> (\<forall>x. r = Inr x \<longrightarrow> Q x)"
  by (cases r) (simp_all add: castless_def)

text \<open>What is known of a call may be used where its result is dealt with.\<close>

lemma yields_known: "yields r P \<Longrightarrow> yields r Q \<longleftrightarrow> (\<forall>x. r = Inr x \<longrightarrow> P x \<longrightarrow> Q x)"
  by (cases r) simp_all

lemma yields_mono: "yields r P \<Longrightarrow> (\<And>x. P x \<Longrightarrow> Q x) \<Longrightarrow> yields r Q"
  by (cases r) simp_all

lemma castless_simps [simp]:
  "castless (Inr x)" "castless (Inl e) = (e \<noteq> Fault WrongType)" "castless (assertR b e) = (b \<or> e \<noteq> Fault WrongType)"
  "castless (of_option e v) = (v \<noteq> None \<or> e \<noteq> Fault WrongType)" "castless (read_at xs i)" "castless (write_at xs i z)"
  "castless (load_bytes a n m)" "castless (store_bytes a bs m)"
  by (auto simp: castless_def assertR_def of_option_def read_at_def write_at_def load_bytes_def store_bytes_def
      split: option.splits if_splits)

lemma castless_bind [simp]: "castless m \<Longrightarrow> (\<And>x. m = Inr x \<Longrightarrow> castless (f x)) \<Longrightarrow> castless (bindR m f)"
  by (cases m) (simp_all add: castless_def)

lemma castless_split [simp]:
  "(b \<Longrightarrow> castless x) \<Longrightarrow> (\<not> b \<Longrightarrow> castless y) \<Longrightarrow> castless (if b then x else y)"
  "castless (f (fst p) (snd p)) \<Longrightarrow> castless (case p of (x, y) \<Rightarrow> f x y)"
  by (auto split: prod.splits)

text \<open>Memory, arrays and counters know no objects.\<close>

lemma castless_memory [simp]:
  "castless (load8 a m)" "castless (load16 a m)" "castless (load32 a m)" "castless (load64 a m)"
  "castless (store8 a x8 m)" "castless (store16 a x16 m)" "castless (store32 a x32 m)" "castless (store64 a x64 m)"
  "castless (memcpy d s k m)" "castless (within w off)" "castless (next_index b n)" "castless (int_diff n n')"
  "castless (inline_at loc bf)" "castless (cqe_at st loc)" "castless (op_own_of a m)"
  by (auto simp: load8_def load16_def load32_def load64_def store8_def store16_def store32_def store64_def memcpy_def
      within_def next_index_def int_diff_def inline_at_def cqe_at_def op_own_of_def Let_def split: cqe_loc.splits)

text \<open>The operations of receive queues, and the look-ups.\<close>

lemma castless_copy_scat [simp]: "castless (copy_scat d s i mx m)"
  by (induction d s i mx m rule: copy_scat.induct) (subst copy_scat.simps, simp)

lemma castless_scatter [simp]: "castless (scatter scat src left i mx m)"
  by (induction scat src left i mx m rule: scatter.induct) (subst scatter.simps, simp add: Let_def)

lemma castless_scat_loop [simp]: "castless (scat_loop conv b scat buf left i mx m)"
  by (induction conv b scat buf left i mx m rule: scat_loop.induct) (subst scat_loop.simps, simp add: Let_def)

lemma castless_queues [simp]:
  "castless (store_link s i n m)" "castless (load_link s i m)" "castless (set_sig_seg s nxt sz i16 m)"
  "castless (mlx5_free_srq_wqe i s m)" "castless (mlx5_requeue_srq_wqe i s m)"
  "castless (mlx5_copy_to_recv_srq s i buf left m)" "castless (copy_to_scat conv scat buf left mx m)"
  "castless (mlx5_copy_to_recv_wqe q i32 buf left m)" "castless (mlx5_copy_to_send_wqe q i16 buf left m)"
  by (simp_all add: store_link_def load_link_def set_sig_seg_def mlx5_free_srq_wqe_def mlx5_requeue_srq_wqe_def
      mlx5_copy_to_recv_srq_def copy_to_scat_def mlx5_copy_to_recv_wqe_def mlx5_copy_to_send_wqe_def Let_def split: option.splits)

lemma castless_finds [simp]:
  "castless (mlx5_find_rsc t n)" "castless (mlx5_find_srq t n)" "castless (mlx5_find_uidx t n)" "castless (lookup_rsc env v c)"
  by (auto simp: mlx5_find_rsc_def mlx5_find_srq_def mlx5_find_uidx_def lookup_rsc_def table_find_def sub_at_def slot_at_def Let_def split: option.splits)

lemma castless_objects [simp]:
  "castless (get_obj st a)" "castless (srq_wr_id c s)" "castless (count_mp_wr_strides c n s)" "castless (is_mp_wr_consumed c s)"
  "castless (free_wqe c s m)" "castless (handle_strwq_cqe lay w cqe c n s m wc fl)" "castless (inline_data loc cqe)"
  "castless (handle_good_req cqe wq i wc)" "castless (mlx5_tm_release_tag i s)" "castless (complete_op_tag cqe i fl s)"
  "castless (pop_recv wq)" "castless (is_mp_rwq_obj st a)"
  by (simp_all add: get_obj_def srq_wr_id_def count_mp_wr_strides_def is_mp_wr_consumed_def free_wqe_def handle_strwq_cqe_def
      inline_data_def handle_good_req_def mlx5_tm_release_tag_def complete_op_tag_def pop_recv_def is_mp_rwq_obj_def Let_def)

lemma castless_set_owned [simp]: "castless (set_owned n a sz b m)"
  by (induction n arbitrary: a m) simp_all

lemma castless_sessions [simp]:
  "castless (update_cqe_ownership q n m)" "castless (save_mini_arr i q m)" "castless (save_title env i rx st)"
  "castless (next_mini q m)" "castless (decomp_next_cqe st)" "castless (start_session env rx st)"
  "castless (mlx5_decompress_cqe env st)"
  by (simp_all add: update_cqe_ownership_def save_mini_arr_def save_title_def next_mini_def decomp_next_cqe_def
      start_session_def mlx5_decompress_cqe_def mini_ent_def Let_def)

text \<open>At a call that knows no objects, every result has to be dealt with.\<close>

lemmas yields_leaf [simp] = castless_simps(5-8) [THEN yields_castless] castless_memory [THEN yields_castless]
  castless_queues [THEN yields_castless] castless_finds [THEN yields_castless] castless_objects(1,2,7,8,11,12) [THEN yields_castless]
  castless_sessions [THEN yields_castless]

lemma yields_split [simp]:
  "yields (if b then r else r') Q = ((b \<longrightarrow> yields r Q) \<and> (\<not> b \<longrightarrow> yields r' Q))"
  "yields (assertR b e) Q = ((b \<longrightarrow> Q ()) \<and> (\<not> b \<longrightarrow> e \<noteq> Fault WrongType))"
  "yields (case p of (x, y) \<Rightarrow> f x y) Q = yields (f (fst p) (snd p)) Q"
  by (cases b; cases p; simp)+

section \<open>Shapes\<close>

datatype shape = Qp_shape u32 nat | Dct_shape u32 nat | Srq_shape u32 rsc_type nat | Rwq_shape u32 | Mp_rwq_shape u32

fun shape_of :: "rsc_obj \<Rightarrow> shape" where
  "shape_of (Qp_obj q) = Qp_shape (q_rsn q) (q_srq q)"
| "shape_of (Dct_obj n d) = Dct_shape n d"
| "shape_of (Srq_obj s) = Srq_shape (so_rsn s) (so_type s) (cmd_qp s)"
| "shape_of (Rwq_obj w) = Rwq_shape (rw_rsn w)"
| "shape_of (Mp_rwq_obj w) = Mp_rwq_shape (rw_rsn w)"

type_synonym shapes = "nat \<Rightarrow> shape option"

definition shapes :: "poll_state \<Rightarrow> shapes" where
  "shapes st = (\<lambda>a. map_option shape_of (ps_objs st a))"

text \<open>A pointer to a queue pair, a shared receive queue, a receive work queue: null, dangling, or right.\<close>

definition qp_ptr :: "shapes \<Rightarrow> nat \<Rightarrow> bool" where
  "qp_ptr T a \<longleftrightarrow> a = 0 \<or> T a = None \<or> (\<exists>n s. T a = Some (Qp_shape n s))"

definition srq_ptr :: "shapes \<Rightarrow> nat \<Rightarrow> bool" where
  "srq_ptr T a \<longleftrightarrow> a = 0 \<or> T a = None \<or> (\<exists>n ty c. T a = Some (Srq_shape n ty c))"

definition rwq_ptr :: "shapes \<Rightarrow> nat \<Rightarrow> bool" where
  "rwq_ptr T a \<longleftrightarrow> a = 0 \<or> T a = None \<or> (\<exists>n. T a = Some (Rwq_shape n) \<or> T a = Some (Mp_rwq_shape n))"

fun typed_shape :: "shapes \<Rightarrow> shape \<Rightarrow> bool" where
  "typed_shape T (Qp_shape n s) = srq_ptr T s"
| "typed_shape T (Dct_shape n d) = srq_ptr T d"
| "typed_shape T (Srq_shape n ty c) = qp_ptr T c"
| "typed_shape T _ = True"

text \<open>Every object's pointers are right, and so are those of the table of shared receive queues.\<close>

definition typed_objects :: "poll_env \<Rightarrow> shapes \<Rightarrow> bool" where
  "typed_objects env T \<longleftrightarrow> (\<forall>a sh. T a = Some sh \<longrightarrow> typed_shape T sh) \<and>
     (\<forall>n a. mlx5_find_srq (pe_tables env) n = Inr a \<longrightarrow> srq_ptr T a)"

lemma shapes_simps [simp]:
  "shapes (st\<lparr>ps_mem := m\<rparr>) = shapes st" "shapes (st\<lparr>ps_cq := pc\<rparr>) = shapes st" "shapes (st\<lparr>ps_rsc := r\<rparr>) = shapes st"
  "shapes (st\<lparr>ps_srq := s\<rparr>) = shapes st"
  "ps_objs st a = Some ob' \<Longrightarrow> shape_of ob = shape_of ob' \<Longrightarrow> shapes (put_obj a ob st) = shapes st"
  "ps_srq (put_obj a ob st) = ps_srq st" "ps_rsc (put_obj a ob st) = ps_rsc st" "ps_mem (put_obj a ob st) = ps_mem st"
  "ps_cq (put_obj a ob st) = ps_cq st"
  by (auto simp: shapes_def put_obj_def fun_eq_iff)

lemma null_ptrs [simp]: "qp_ptr T 0" "srq_ptr T 0" "rwq_ptr T 0"
  by (simp_all add: qp_ptr_def srq_ptr_def rwq_ptr_def)

lemma get_obj_eq [simp]: "get_obj st a = Inr ob \<longleftrightarrow> a \<noteq> 0 \<and> ps_objs st a = Some ob"
  by (auto simp: get_obj_def)

lemma yields_get_qp [simp]:
  "qp_ptr (shapes st) a \<Longrightarrow> yields (get_qp st a) Q \<longleftrightarrow> (\<forall>q. a \<noteq> 0 \<longrightarrow> ps_objs st a = Some (Qp_obj q) \<longrightarrow> Q q)"
  by (cases "ps_objs st a"; cases "the (ps_objs st a)")
    (auto simp: get_qp_def get_obj_def qp_ptr_def shapes_def)

lemma yields_get_srq [simp]:
  "srq_ptr (shapes st) a \<Longrightarrow> yields (get_srq st a) Q \<longleftrightarrow> (\<forall>s. a \<noteq> 0 \<longrightarrow> ps_objs st a = Some (Srq_obj s) \<longrightarrow> Q s)"
  by (cases "ps_objs st a"; cases "the (ps_objs st a)")
    (auto simp: get_srq_def get_obj_def srq_ptr_def shapes_def)

lemma typed_fields:
  assumes "typed_objects env (shapes st)" "ps_objs st a = Some ob"
  shows "ob = Qp_obj q \<Longrightarrow> srq_ptr (shapes st) (q_srq q)" "ob = Dct_obj n d \<Longrightarrow> srq_ptr (shapes st) d"
    "ob = Srq_obj s \<Longrightarrow> qp_ptr (shapes st) (cmd_qp s)"
proof -
  have "shapes st a = Some (shape_of ob)" using assms(2) by (simp add: shapes_def)
  then have "typed_shape (shapes st) (shape_of ob)" using assms(1) unfolding typed_objects_def by blast
  then show "ob = Qp_obj q \<Longrightarrow> srq_ptr (shapes st) (q_srq q)" "ob = Dct_obj n d \<Longrightarrow> srq_ptr (shapes st) d"
    "ob = Srq_obj s \<Longrightarrow> qp_ptr (shapes st) (cmd_qp s)" by auto
qed

section \<open>The handlers\<close>

text \<open>What every step keeps: the shapes, and the cursor to a shared receive queue unless it says otherwise.\<close>

definition kept :: "poll_state \<Rightarrow> poll_state \<Rightarrow> bool" where
  "kept st st' \<longleftrightarrow> shapes st' = shapes st \<and> ps_srq st' = ps_srq st"

lemma kept_refl [simp]: "kept st st"
  by (simp add: kept_def)

lemma shape_keeps [simp]:
  "q_rsn q' = q_rsn q \<Longrightarrow> q_srq q' = q_srq q \<Longrightarrow> shape_of (Qp_obj q') = shape_of (Qp_obj q)"
  by simp

text \<open>The calls that work on one shared receive queue keep its shape.\<close>

definition same_srq_shape :: "srq_object \<Rightarrow> srq_object \<Rightarrow> bool" where
  "same_srq_shape s s' \<longleftrightarrow> so_rsn s' = so_rsn s \<and> so_type s' = so_type s \<and> cmd_qp s' = cmd_qp s"

lemma same_srq_shape_simps [simp]:
  "same_srq_shape s s"
  "ps_objs st a = Some (Srq_obj s) \<Longrightarrow> same_srq_shape s s' \<Longrightarrow> shapes (put_srq a s' st) = shapes st"
  by (simp_all add: same_srq_shape_def)

lemma yields_srq_steps:
  "yields (count_mp_wr_strides c n s) (same_srq_shape s)" "yields (is_mp_wr_consumed c s) (\<lambda>(b, s'). same_srq_shape s s')"
  "yields (free_wqe c s m) (\<lambda>(s', m'). same_srq_shape s s')" "yields (mlx5_tm_release_tag i s) (same_srq_shape s)"
  by (simp_all add: count_mp_wr_strides_def is_mp_wr_consumed_def free_wqe_def mlx5_tm_release_tag_def set_tag_def
      same_srq_shape_def Let_def)

lemmas yields_srq_calls [simp] = yields_srq_steps [THEN yields_known]

lemma yields_srq_handlers:
  "yields (handle_strwq_cqe lay w c ctr n s m wc fl) (\<lambda>(s', _). same_srq_shape s s')"
  "yields (complete_op_tag c i fl s) (\<lambda>(s', _). same_srq_shape s s')"
  by (auto simp: handle_strwq_cqe_def complete_op_tag_def same_srq_shape_def Let_def)

lemmas yields_srq_handled [simp] = yields_srq_handlers [THEN yields_known]

lemma resp_srq_yields:
  "srq_ptr (shapes st) srq \<Longrightarrow> yields (resp_srq lay w c loc srq st wc fl) (\<lambda>(_, st', _, _). kept st st')"
  by (auto simp: resp_srq_def Let_def kept_def split: option.splits)

lemma resp_rq_yields:
  "qp_ptr (shapes st) qp \<Longrightarrow> yields (resp_rq c loc qp st wc) (\<lambda>(_, st', _). kept st st')"
  by (auto simp: resp_rq_def Let_def kept_def split: option.splits)

lemmas resp_yields [simp] = resp_srq_yields [THEN yields_known] resp_rq_yields [THEN yields_known]

lemma resp_fields_yields:
  "qp_ptr (shapes st) qp \<Longrightarrow> srq_ptr (shapes st) srq \<Longrightarrow> yields (resp_fields c qp srq type st wc) (\<lambda>_. True)"
  by (auto simp: resp_fields_def resp_source_def Let_def)

lemmas resp_fields_known [simp] = resp_fields_yields [THEN yields_known]

lemma handle_responder_yields:
  "qp_ptr (shapes st) qp \<Longrightarrow> srq_ptr (shapes st) srq \<Longrightarrow>
     yields (handle_responder lay w c loc qp srq type st wc fl) (\<lambda>(_, st', _, _). kept st st')"
  by (auto simp: handle_responder_def kept_def)

lemmas handle_responder_known [simp] = handle_responder_yields [THEN yields_known]

section \<open>Tag matching\<close>

lemma kept_simps [simp]:
  "kept st (st'\<lparr>ps_mem := m\<rparr>) = kept st st'" "kept st (st'\<lparr>ps_cq := pc\<rparr>) = kept st st'"
  "kept st (st'\<lparr>ps_rsc := r\<rparr>) = kept st st'"
  "ps_objs st' a = Some ob' \<Longrightarrow> shape_of ob = shape_of ob' \<Longrightarrow> kept st (put_obj a ob st') = kept st st'"
  "ps_objs st' a = Some (Srq_obj s) \<Longrightarrow> same_srq_shape s s' \<Longrightarrow> kept st (put_srq a s' st') = kept st st'"
  by (simp_all add: kept_def)

lemma kept_trans: "kept st st1 \<Longrightarrow> kept st1 st2 \<Longrightarrow> kept st st2"
  by (simp add: kept_def)

lemma kept_ptrs [simp]: "kept st st' \<Longrightarrow> shapes st' = shapes st" "kept st st' \<Longrightarrow> ps_srq st' = ps_srq st"
  by (simp_all add: kept_def)

lemma same_srq_shape_counts [simp]:
  "same_srq_shape s (s'\<lparr>op_head := h\<rparr>) = same_srq_shape s s'" "same_srq_shape s (s'\<lparr>unexp_in := n\<rparr>) = same_srq_shape s s'"
  "same_srq_shape (s\<lparr>op_head := h\<rparr>) s' = same_srq_shape s s'"
  by (simp_all add: same_srq_shape_def)

lemma put_obj_other [simp]: "a \<noteq> b \<Longrightarrow> ps_objs (put_obj a ob st) b = ps_objs st b"
  "ps_objs (put_obj a ob st) a = Some ob"
  by (simp_all add: put_obj_def)

text \<open>A list operation changes two objects; they are not the same, for their shapes differ.\<close>

lemma list_op_yields:
  assumes "srq_ptr (shapes st) srq" "typed_objects env (shapes st)"
  shows "yields (handle_tm_list_op c srq st wc fl) (\<lambda>(st', _, _). kept st st')"
proof -
  have q: "qp_ptr (shapes st) (cmd_qp s)" if "ps_objs st srq = Some (Srq_obj s)" for s
    using typed_fields(3) [OF assms(2) that] by simp
  have two: "kept st (put_qp (cmd_qp s') qp' (put_srq srq s' st))"
    if "same_srq_shape s s'" "ps_objs st srq = Some (Srq_obj s)" "ps_objs st (cmd_qp s) = Some (Qp_obj qp)"
      "shape_of (Qp_obj qp') = shape_of (Qp_obj qp)" for qp qp' s s'
  proof -
    have "srq \<noteq> cmd_qp s" using that(2,3) by auto
    moreover have "cmd_qp s' = cmd_qp s" using that(1) by (simp add: same_srq_shape_def)
    moreover have "kept st (put_srq srq s' st)" using kept_simps(5) [OF that(2,1)] by simp
    ultimately show ?thesis using kept_simps(4) [of "put_srq srq s' st" "cmd_qp s"] that(3,4) by simp
  qed
  show ?thesis unfolding handle_tm_list_op_def
    using assms(1) q by (auto simp: Let_def intro!: two two [of s "s\<lparr>op_head := h\<rparr>" for s h, simplified]
      split: option.splits)
qed

lemma handle_tag_yields:
  "srq_ptr (shapes st) srq \<Longrightarrow> yields (handle_tag lay w c loc srq st wc fl) (\<lambda>(st', _, _). kept st st')"
  by (auto simp: handle_tag_def Let_def)

lemma count_unexpected_yields:
  "srq_ptr (shapes st) srq \<Longrightarrow> yields (count_unexpected srq st fl) (\<lambda>(st', _). kept st st')"
  by (auto simp: count_unexpected_def)

lemmas tag_known [simp] = handle_tag_yields [THEN yields_known] count_unexpected_yields [THEN yields_known]

lemma handle_tag_matching_yields:
  assumes "srq_ptr (shapes st) srq" "typed_objects env (shapes st)"
  shows "yields (handle_tag_matching lay w c loc srq st wc fl) (\<lambda>(st', _, _). kept st st')"
proof -
  note list_op_yields [OF assms, THEN yields_known, simp]
  show ?thesis using assms(1) by (auto simp: handle_tag_matching_def Let_def intro: kept_trans)
qed

section \<open>One completion\<close>

text \<open>The cursors and the local pointers have the right types.\<close>

definition typed_locals :: "shapes \<Rightarrow> poll_locals \<Rightarrow> bool" where
  "typed_locals T l \<longleftrightarrow> qp_ptr T (l_mqp l) \<and> rwq_ptr T (l_rwq l)"

lemma typed_locals_simps [simp]:
  "typed_locals T (l\<lparr>l_flags := fl\<rparr>) = typed_locals T l" "typed_locals T (l\<lparr>l_is_srq := b\<rparr>) = typed_locals T l"
  "typed_locals T (l\<lparr>l_type := ty\<rparr>) = typed_locals T l" "typed_locals T (l\<lparr>l_timestamp_en := b\<rparr>) = typed_locals T l"
  "typed_locals T (init_locals st)" "typed_locals T l \<Longrightarrow> qp_ptr T (l_mqp l)"
  by (simp_all add: typed_locals_def init_locals_def)

definition typed_poll :: "poll_state \<Rightarrow> poll_state \<Rightarrow> poll_locals \<Rightarrow> bool" where
  "typed_poll st st' l \<longleftrightarrow> shapes st' = shapes st \<and> srq_ptr (shapes st) (ps_srq st') \<and> typed_locals (shapes st) l"

lemma same_srqn_yields [simp]: "srq_ptr (shapes st) (ps_srq st) \<Longrightarrow> yields (same_srqn st n) Q \<longleftrightarrow> (\<forall>b. same_srqn st n = Inr b \<longrightarrow> Q b)"
  by (rule yields_castless) (auto simp: same_srqn_def castless_def bindR_eq_Inl get_srq_def get_obj_def of_option_def srq_ptr_def
      shapes_def split: option.splits rsc_obj.splits if_splits)

lemma same_rsc_castless: "castless (same_rsc st n)"
  by (simp add: same_rsc_def)

lemmas same_rsc_yields [simp] = same_rsc_castless [THEN yields_castless]

lemma find_owner_yields:
  assumes "srq_ptr (shapes st) (ps_srq st)" "typed_objects env (shapes st)" "typed_locals (shapes st) l"
  shows "yields (find_owner env v c st l) (\<lambda>(_, st', l'). typed_poll st st' l')"
proof -
  have "srq_ptr (shapes st) a" if "mlx5_find_srq (pe_tables env) n = Inr a" for n a
    using assms(2) that by (auto simp: typed_objects_def)
  then show ?thesis using assms(1,3) by (auto simp: find_owner_def typed_poll_def Let_def)
qed

lemma use_owner_yields:
  assumes "srq_ptr (shapes st) (ps_srq st)" "typed_objects env (shapes st)" "typed_locals (shapes st) l"
  shows "yields (use_owner lay w v resp st l wc) (\<lambda>(_, st', l', _). typed_poll st st' l')"
proof (cases "ps_objs st (ps_rsc st)")
  case None
  then show ?thesis using assms by (auto simp: use_owner_def typed_poll_def Let_def)
next
  case (Some ob)
  have at: "shapes st (ps_rsc st) = Some (shape_of ob)" using Some by (simp add: shapes_def)
  note F = typed_fields [OF assms(2) Some]
  show ?thesis
  proof (cases ob)
    case (Qp_obj q)
    then show ?thesis using assms(1,3) at F(1) Some
      by (simp add: use_owner_def typed_poll_def Let_def typed_locals_def qp_ptr_def)
  next
    case (Dct_obj n d)
    then show ?thesis using assms(1,3) F(2) Some by (simp add: use_owner_def typed_poll_def Let_def)
  next
    case (Srq_obj s)
    then show ?thesis using assms(1,3) at Some by (simp add: use_owner_def typed_poll_def Let_def srq_ptr_def)
  next
    case (Rwq_obj w)
    then show ?thesis using assms(1,3) at Some by (simp add: use_owner_def typed_poll_def Let_def typed_locals_def rwq_ptr_def)
  next
    case (Mp_rwq_obj w)
    then show ?thesis using assms(1,3) at Some by (simp add: use_owner_def typed_poll_def Let_def typed_locals_def rwq_ptr_def)
  qed
qed

lemma typed_poll_kept: "kept st st' \<Longrightarrow> srq_ptr (shapes st) (ps_srq st) \<Longrightarrow> typed_locals (shapes st) l \<Longrightarrow> typed_poll st st' l"
  by (simp add: typed_poll_def)

lemma retire_send_yields:
  "qp_ptr (shapes st) a \<Longrightarrow> yields (retire_send a i st wc) (\<lambda>(st', _). kept st st')"
  by (auto simp: retire_send_def)

lemma pop_owner_yields:
  assumes "typed_locals (shapes st) l"
  shows "yields (pop_owner l st) (\<lambda>(_, st'). kept st st')"
proof (cases "l_rwq l = 0")
  case True
  then show ?thesis using assms by (auto simp: pop_owner_def pop_recv_def)
next
  case False
  have "(\<exists>w. ob = Rwq_obj w) \<or> (\<exists>w. ob = Mp_rwq_obj w)" if "ps_objs st (l_rwq l) = Some ob" for ob
    using assms False that by (cases ob) (auto simp: typed_locals_def rwq_ptr_def shapes_def)
  then show ?thesis using False by (auto simp: pop_owner_def pop_recv_def)
qed

lemmas taken_known [simp] = retire_send_yields [THEN yields_known] pop_owner_yields [THEN yields_known]

text \<open>The premises of the cases.\<close>

definition typed_state :: "poll_env \<Rightarrow> poll_state \<Rightarrow> poll_locals \<Rightarrow> bool" where
  "typed_state env st l \<longleftrightarrow> typed_objects env (shapes st) \<and> srq_ptr (shapes st) (ps_srq st) \<and> typed_locals (shapes st) l"

lemma typed_stateD:
  assumes "typed_state env st l"
  shows "typed_objects env (shapes st)" "srq_ptr (shapes st) (ps_srq st)" "typed_locals (shapes st) l"
    "qp_ptr (shapes st) (l_mqp l)"
  using assms by (simp_all add: typed_state_def)

lemma typed_state_step: "typed_state env st l \<Longrightarrow> typed_poll st st' l' \<Longrightarrow> typed_state env st' l'"
  by (simp add: typed_state_def typed_poll_def)

lemma typed_poll_trans: "typed_poll st st1 l1 \<Longrightarrow> typed_poll st1 st2 l2 \<Longrightarrow> typed_poll st st2 l2"
  by (simp add: typed_poll_def)

lemma poll_req_yields:
  assumes "typed_state env st l"
  shows "yields (poll_req c loc st l wc) (\<lambda>(_, st', l', _). typed_poll st st' l')"
  using typed_stateD [OF assms] by (auto simp: poll_req_def typed_poll_def split: option.splits)

lemma poll_filler_yields:
  assumes "typed_state env st l"
  shows "yields (poll_filler c st l wc) (\<lambda>r. case r of None \<Rightarrow> True | Some (_, st', l', _) \<Rightarrow> typed_poll st st' l')"
  using typed_stateD [OF assms] by (auto simp: poll_filler_def Let_def typed_poll_def same_srq_shape_def)

lemma poll_resp_yields:
  assumes "typed_state env st l"
  shows "yields (poll_resp lay w c loc st l wc) (\<lambda>(_, st', l', _). typed_poll st st' l')"
proof -
  note T = typed_stateD [OF assms]
  note handle_tag_matching_yields [OF T(2,1), THEN yields_known, simp] poll_filler_yields [OF assms, THEN yields_known, simp]
  show ?thesis using T
    by (auto simp: poll_resp_def typed_poll_def split: option.splits)
qed

lemma poll_no_packet_yields:
  assumes "typed_state env st l"
  shows "yields (poll_no_packet lay w c loc st l wc) (\<lambda>(_, st', l', _). typed_poll st st' l')"
proof -
  note T = typed_stateD [OF assms]
  note handle_tag_matching_yields [OF T(2,1), THEN yields_known, simp]
  show ?thesis using T by (auto simp: poll_no_packet_def typed_poll_def)
qed

lemma poll_req_err_yields:
  assumes "typed_state env st l"
  shows "yields (poll_req_err c umr st l wc) (\<lambda>(_, st', l', _). typed_poll st st' l')"
  using typed_stateD [OF assms] by (auto simp: poll_req_err_def typed_poll_def)

lemma poll_resp_err_yields:
  assumes "typed_state env st l"
  shows "yields (poll_resp_err c st l wc) (\<lambda>(_, st', l', _). typed_poll st st' l')"
  using typed_stateD [OF assms] by (auto simp: poll_resp_err_def Let_def typed_poll_def same_srq_shape_def)

lemma poll_switch_yields:
  assumes "typed_state env st l"
  shows "yields (poll_switch env w c loc st l wc) (\<lambda>(_, st', l', _). typed_poll st st' l')"
  using typed_stateD [OF assms] poll_req_yields [OF assms] poll_resp_yields [OF assms] poll_no_packet_yields [OF assms]
    poll_req_err_yields [OF assms] poll_resp_err_yields [OF assms]
  by (simp add: poll_switch_def poll_err_def Let_def typed_poll_def)

lemma yields_bind: "yields m P \<Longrightarrow> (\<And>x. P x \<Longrightarrow> yields (f x) Q) \<Longrightarrow> yields (bindR m f) Q"
  by (auto intro: yields_mono)

text \<open>The expansion of a session, and what follows the switch.\<close>

lemma save_title_yields: "yields (save_title env i rx st) (kept st)"
  by (simp add: save_title_def Let_def castless_objects(12) [THEN yields_castless])

lemma decomp_next_yields: "yields (decomp_next_cqe st) (kept st)"
  by (simp add: decomp_next_cqe_def Let_def)

lemma start_session_yields: "yields (start_session env rx st) (kept st)"
proof (cases "compressed_left (ps_q st) = 0")
  case True
  have "yields (bindR (save_title env (cq_cons (ps_q st)) rx st) (\<lambda>st. bindR (save_mini_arr (cq_cons (ps_q st) + 1) (ps_q st) (ps_mem st))
      (\<lambda>(q, m). Inr ((set_q q st)\<lparr>ps_mem := m\<rparr>)))) (kept st)"
    by (rule yields_bind [OF save_title_yields]) auto
  then show ?thesis unfolding start_session_def using True by (simp del: yields_simps(3))
qed (simp add: start_session_def)

lemma decompress_yields: "yields (mlx5_decompress_cqe env st) (kept st)"
proof -
  have "yields (decomp_next_cqe st1) (kept st)" if "kept st st1" for st1
    using decomp_next_yields [of st1] by (rule yields_mono) (use that kept_trans in blast)
  then show ?thesis unfolding mlx5_decompress_cqe_def by (rule yields_bind [OF start_session_yields])
qed

lemma poll_finish_yields: "yields (poll_finish lay w c loc st l wc) (\<lambda>(st', _). kept st st')"
  by (auto simp: poll_finish_def Let_def split: option.splits cqe_loc.splits)

text \<open>The whole of \<open>poll_entry\<close>.\<close>

lemma poll_served_yields:
  assumes "typed_state env st l"
  shows "yields (poll_served env w c loc st l wc) (\<lambda>(_, st', l', _). typed_poll st st' l')"
  unfolding poll_served_def
proof (rule yields_bind [OF poll_switch_yields [OF assms]], clarify)
  fix out st1 l1 wc1
  assume 1: "typed_poll st st1 l1"
  have "yields (bindR (poll_finish (pe_layout env) w c loc st1 l1 wc1) (\<lambda>(st2, wc2). Inr (Return CQ_OK, st2, l1, wc2)))
      (\<lambda>(_, st', l', _). typed_poll st st' l')"
    by (rule yields_bind [OF poll_finish_yields]) (use 1 in \<open>auto simp: typed_poll_def\<close>)
  then show "yields (if out = Return CQ_OK
      then bindR (poll_finish (pe_layout env) w c loc st1 l1 wc1) (\<lambda>(st2, wc2). Inr (Return CQ_OK, st2, l1, wc2))
      else Inr (out, st1, l1, wc1)) (\<lambda>(_, st', l', _). typed_poll st st' l')"
    using 1 by (cases "out = Return CQ_OK") (simp_all del: yields_simps(3))
qed

lemma poll_owned_yields:
  assumes T: "typed_state env st l"
  shows "yields (poll_owned env v w c loc st l wc) (\<lambda>(_, st', l', _). typed_poll st st' l')"
  unfolding poll_owned_def
proof (rule yields_bind [OF find_owner_yields [OF typed_stateD(2,1,3) [OF T]]], clarify)
  fix found st1 l1
  assume 1: "typed_poll st st1 l1"
  note T1 = typed_state_step [OF T 1]
  let ?go = "\<lambda>(known, st, l, wc). if \<not> known then Inr (Return CQ_POLL_ERR, st, l, wc)
      else let r = note_srq (pe_layout env) w st l wc in
        poll_served env w c loc st (fst r) ((snd r)\<lparr>w_qp_num := c_sop_qpn c AND 0xffffff\<rparr>)"
  have "yields (bindR (use_owner (pe_layout env) w v (is_responder (c_opcode c)) st1 l1 wc) ?go)
      (\<lambda>(_, st', l', _). typed_poll st st' l')"
  proof (rule yields_bind [OF use_owner_yields [OF typed_stateD(2,1,3) [OF T1]]], clarify)
    fix known st2 l2 wc2
    assume 2: "typed_poll st1 st2 l2"
    have "typed_state env st2 (fst (note_srq (pe_layout env) w st2 l2 wc2))"
      using typed_state_step [OF T1 2] by (simp add: note_srq_def typed_state_def)
    from poll_served_yields [OF this]
    have "yields (poll_served env w c loc st2 (fst (note_srq (pe_layout env) w st2 l2 wc2)) wc') (\<lambda>(_, st', l', _). typed_poll st st' l')" for wc'
      by (rule yields_mono) (use typed_poll_trans [OF 1 typed_poll_trans [OF 2]] in auto)
    then show "yields (if \<not> known then Inr (Return CQ_POLL_ERR, st2, l2, wc2)
      else let r = note_srq (pe_layout env) w st2 l2 wc2 in
        poll_served env w c loc st2 (fst r) ((snd r)\<lparr>w_qp_num := c_sop_qpn c AND 0xffffff\<rparr>)) (\<lambda>(_, st', l', _). typed_poll st st' l')"
      using typed_poll_trans [OF 1 2] by (simp add: Let_def)
  qed
  then show "yields (if \<not> found then Inr (Return CQ_POLL_ERR, st1, l1, wc)
      else bindR (use_owner (pe_layout env) w v (is_responder (c_opcode c)) st1 l1 wc) ?go) (\<lambda>(_, st', l', _). typed_poll st st' l')"
    using 1 by (cases found) (simp_all del: yields_simps(3))
qed

lemma poll_fetched_yields:
  assumes "typed_state env st l"
  shows "yields (poll_fetched env v w loc st l wc) (\<lambda>(_, st', l', _). typed_poll st st' l')"
proof -
  let ?st = "set_q ((ps_q st)\<lparr>cq_cons := cq_cons (ps_q st) + 1\<rparr>) st"
  have 1: "typed_poll st ?st l" using typed_stateD [OF assms] by (simp add: typed_poll_def)
  have "yields (poll_owned env v w c loc ?st l wc) (\<lambda>(_, st', l', _). typed_poll st st' l')" for c wc
    using poll_owned_yields [OF typed_state_step [OF assms 1]] by (rule yields_mono) (use typed_poll_trans [OF 1] in auto)
  then show ?thesis using 1 by (simp add: poll_fetched_def Let_def)
qed

lemma poll_entry_yields:
  assumes "typed_state env st l"
  shows "yields (poll_entry env v w loc st l wc) (\<lambda>(_, st', l', _). typed_poll st st' l')"
proof -
  have one: "typed_poll st st l" using typed_stateD [OF assms] by (simp add: typed_poll_def)
  have src: "yields (if c_format c = MLX5_COMPRESSED
      then bindR (mlx5_decompress_cqe env st) (\<lambda>st. Inr (Title, st, l\<lparr>l_timestamp_en := False\<rparr>)) else Inr (loc, st, l))
      (\<lambda>(_, st', l'). typed_poll st st' l')" for c
  proof (cases "c_format c = MLX5_COMPRESSED")
    case True
    have "yields (bindR (mlx5_decompress_cqe env st) (\<lambda>st. Inr (Title, st, l\<lparr>l_timestamp_en := False\<rparr>)))
        (\<lambda>(_, st', l'). typed_poll st st' l')"
      by (rule yields_bind [OF decompress_yields]) (use typed_stateD [OF assms] in \<open>auto simp: typed_poll_def\<close>)
    then show ?thesis using True by (simp del: yields_simps(3))
  qed (use one in simp)
  have rest: "yields (poll_fetched env v w loc1 st1 l1 wc) (\<lambda>(_, st', l', _). typed_poll st st' l')"
    if "typed_poll st st1 l1" for loc1 st1 l1
    using poll_fetched_yields [OF typed_state_step [OF assms that]] by (rule yields_mono) (use typed_poll_trans [OF that] in auto)
  show ?thesis unfolding poll_entry_def
    by (rule yields_bind [of _ "\<lambda>_. True"], simp, rule yields_bind [OF src]) (use rest in auto)
qed

section \<open>Whole polls\<close>

text \<open>A result that may not come: \<open>None\<close> when the call had not returned.\<close>

definition yields_some :: "'a res option \<Rightarrow> ('a \<Rightarrow> bool) \<Rightarrow> bool" where
  "yields_some r Q = (case r of None \<Rightarrow> True | Some x \<Rightarrow> yields x Q)"

lemma yields_some_simps [simp]: "yields_some None Q" "yields_some (Some x) Q = yields x Q"
  by (simp_all add: yields_some_def)

lemma yields_some_mono: "yields_some r P \<Longrightarrow> (\<And>x. P x \<Longrightarrow> Q x) \<Longrightarrow> yields_some r Q"
  by (cases r) (auto intro: yields_mono)

lemma reclaim_yields: "yields_some (reclaim_peeks n i p m) (\<lambda>_. True)"
proof (induction n arbitrary: p m)
  case (Suc n)
  have pe: "read_at (peek_table p) i \<noteq> Inl (Fault WrongType)" by (simp add: read_at_def)
  have ld: "bindR (load32 a m) (\<lambda>busy. bindR (load32 (a + 4) m) (\<lambda>nxt. Inr (busy, nxt))) \<noteq> Inl (Fault WrongType)" for a
    by (fold castless_def) simp
  have st: "store32 a x m \<noteq> Inl (Fault WrongType)" for a x by (fold castless_def) simp
  show ?case using Suc pe ld st by (auto simp: Let_def split: sum.splits prod.splits)
qed simp

lemma next_cqe_yields: "yields_some (get_next_cqe n sz st) (\<lambda>(_, st'). kept st st')"
proof -
  have ring: "yields (ring_entry sz st1) (\<lambda>(_, st'). kept st st')" if "kept st st1" for st1
    using that by (simp add: ring_entry_def Let_def)
  show ?thesis
  proof (cases "compressed_left (ps_q st) \<noteq> 0 \<or> pc_peer (ps_cq st) = None")
    case True
    then show ?thesis using ring [of st] by (auto simp: get_next_cqe_def Let_def)
  next
    case False
    then obtain p where p: "compressed_left (ps_q st) = 0" "pc_peer (ps_cq st) = Some p" by auto
    show ?thesis using reclaim_yields [of n "unat (cq_cons (ps_q st) AND cq_cqe (ps_q st))" p "ps_mem st"]
      by (auto simp: get_next_cqe_def Let_def p intro: ring split: option.splits sum.splits)
  qed
qed

lemma poll_again_yields:
  assumes "typed_state env st l"
  shows "yields_some (poll_again n env v w st l wc) (\<lambda>(_, st', _). shapes st' = shapes st \<and> srq_ptr (shapes st) (ps_srq st'))"
  using assms
proof (induction n arbitrary: st l wc)
  case (Suc n)
  let ?Q = "\<lambda>st0. \<lambda>(_, st', _). shapes st' = shapes st0 \<and> srq_ptr (shapes st0) (ps_srq st')"
  show ?case
  proof (cases "get_next_cqe (Suc n) (cq_sz (ps_q st)) st")
    case None
    then show ?thesis by simp
  next
    case (Some r)
    have nx: "yields r (\<lambda>(_, st'). kept st st')" using next_cqe_yields [of "Suc n" "cq_sz (ps_q st)" st] Some by simp
    show ?thesis
    proof (cases r)
      case (Inl e)
      then show ?thesis using nx Some by simp
    next
      case (Inr x)
      obtain lo st1 where x: "x = (lo, st1)" by (cases x)
      have k: "kept st st1" using nx Inr x by simp
      have T1: "typed_state env st1 l" using Suc.prems k by (simp add: typed_state_def)
      show ?thesis
      proof (cases lo)
        case None
        then show ?thesis using Some Inr x typed_stateD(2) [OF T1] k by simp
      next
        case (Some loc)
        have e: "yields (poll_entry env v w loc st1 l wc) (\<lambda>(_, st', l', _). typed_poll st1 st' l')" by (rule poll_entry_yields [OF T1])
        show ?thesis
        proof (cases "poll_entry env v w loc st1 l wc")
          case (Inl er)
          then show ?thesis using e \<open>get_next_cqe (Suc n) (cq_sz (ps_q st)) st = Some r\<close> Inr x Some by simp
        next
          case (Inr y)
          obtain out st2 l2 wc2 where y: "y = (out, st2, l2, wc2)" by (cases y)
          have t: "typed_poll st1 st2 l2" using e Inr y by simp
          have again: "yields_some (poll_again n env v w st2 l2 wc2) (?Q st)"
            using Suc.IH [OF typed_state_step [OF T1 t], of wc2] t k by (simp add: typed_poll_def)
          show ?thesis using again t k Inr y \<open>get_next_cqe (Suc n) (cq_sz (ps_q st)) st = Some r\<close> \<open>r = Inr x\<close> x Some
            by (simp add: typed_poll_def split: poll_outcome.split)
        qed
      qed
    qed
  qed
qed simp

lemma poll_loop_yields:
  assumes "typed_objects env (shapes st)" "srq_ptr (shapes st) (ps_srq st)"
  shows "yields_some (poll_loop n env v w ne k st wcs) (\<lambda>(_, _, st', _). shapes st' = shapes st)"
  using assms
proof (induction n env v w ne k st wcs rule: poll_loop.induct)
  case (1 n env v w ne k st wcs)
  show ?case
  proof (cases "int k < ne \<and> k < length wcs")
    case False
    then show ?thesis by (subst poll_loop.simps) auto
  next
    case True
    have T: "typed_state env st (init_locals st)" using 1(2,3) by (simp add: typed_state_def)
    note P = poll_again_yields [OF T, of n v w "wcs ! k", folded mlx5_poll_one_def]
    show ?thesis
    proof (cases "mlx5_poll_one n env v w st (wcs ! k)")
      case None
      then show ?thesis using True by (subst poll_loop.simps) simp
    next
      case (Some r)
      show ?thesis
      proof (cases r)
        case (Inl e)
        then show ?thesis using True Some P by (subst poll_loop.simps) simp
      next
        case (Inr x)
        obtain o1 st1 wc1 where x: "x = (o1, st1, wc1)" by (cases x)
        have s: "shapes st1 = shapes st" "srq_ptr (shapes st) (ps_srq st1)" using P Some Inr x by simp_all
        then show ?thesis
          using True Some Inr x 1(1) [of r x o1 "(st1, wc1)" st1 wc1] 1(2) by (subst poll_loop.simps) auto
      qed
    qed
  qed
qed

text \<open>A poll keeps the shape of every object and makes no wrong cast.\<close>

lemma drv_poll_cq_yields:
  assumes "typed_objects env (shapes st)"
  shows "yields_some (drv_poll_cq n clock env v w ne st wcs) (\<lambda>(_, st', _). shapes st' = shapes st)"
proof -
  let ?st = "st\<lparr>ps_cq := stall_before (ps_cq st), ps_rsc := 0, ps_srq := 0\<rparr>"
  have "yields_some (poll_loop n env v w ne 0 ?st wcs) (\<lambda>(_, _, st', _). shapes st' = shapes ?st)"
    by (rule poll_loop_yields) (use assms in simp_all)
  moreover have "castless (mlx5_update_cons_index q m)" for q m by (simp add: mlx5_update_cons_index_def)
  ultimately show ?thesis
    by (auto simp: drv_poll_cq_def Let_def yields_castless bindR_eq_Inr elim!: yields_mono split: option.splits)
qed

end
