(* ===== verification/Cq_Family.thy ===== *)
theory Cq_Family
  imports Cq_Poll
begin

text \<open>
  The accelerated polls of \<open>cq.c\<close>: \<open>poll_cnt\<close>, which counts completions and reports nothing else, and
  \<open>__poll_length\<close>, which takes one receive completion and returns its length. Both take the size of an
  entry as an argument; their exported variants only fix arguments.
\<close>

section \<open>Counting\<close>

text \<open>One entry of \<open>poll_cnt\<close>; the object is taken for a queue pair without a look at its type.\<close>

definition count_entry :: "poll_env \<Rightarrow> bool \<Rightarrow> cqe_loc \<Rightarrow> poll_state \<Rightarrow> (poll_ret \<times> poll_state) res" where
  "count_entry env cqe_ver loc st =
     bindR (cqe_at st loc) (\<lambda>c.
     bindR (if c_format c = MLX5_COMPRESSED
            then bindR (mlx5_decompress_cqe env st) (\<lambda>st. Inr (Title, st)) else Inr (loc, st)) (\<lambda>(loc, st).
     bindR (cqe_at st loc) (\<lambda>c.
     bindR (lookup_rsc env cqe_ver c) (\<lambda>a.
       if a = 0 then Inr (CQ_POLL_ERR, st)
       else bindR (get_qp st a) (\<lambda>qp.
            bindR (if c_opcode c = MLX5_CQE_REQ
                   then bindR (read_at (q_wqe_head qp) (send_index qp c)) (\<lambda>h.
                          Inr (Some (qp\<lparr>q_sq := (q_sq qp)\<lparr>wq_tail := h + 1\<rparr>\<rparr>)))
                   else if c_opcode c = MLX5_CQE_RESP_SEND
                   then Inr (Some (qp\<lparr>q_rq := (q_rq qp)\<lparr>wq_tail := wq_tail (q_rq qp) + 1\<rparr>\<rparr>))
                   else Inr None) (\<lambda>r.
              case r of
                None \<Rightarrow> Inr (CQ_POLL_ERR, st)
              | Some qp \<Rightarrow>
                  let st = put_qp a qp st; q = ps_q st in
                  Inr (CQ_OK, set_q (q\<lparr>cq_cons := cq_cons q + 1\<rparr>) st)))))))"

text \<open>At most \<open>n\<close> more entries, after \<open>k\<close>.\<close>

fun count_loop :: "nat \<Rightarrow> poll_env \<Rightarrow> bool \<Rightarrow> nat \<Rightarrow> nat \<Rightarrow> nat \<Rightarrow> poll_state \<Rightarrow>
    (poll_ret \<times> nat \<times> poll_state) res option" where
  "count_loop fuel env cqe_ver cqe_sz 0 k st = Some (Inr (CQ_OK, k, st))"
| "count_loop fuel env cqe_ver cqe_sz (Suc n) k st =
     (case get_next_cqe fuel cqe_sz st of
        None \<Rightarrow> None
      | Some (Inl e) \<Rightarrow> Some (Inl e)
      | Some (Inr (None, st)) \<Rightarrow> Some (Inr (CQ_EMPTY, k, st))
      | Some (Inr (Some loc, st)) \<Rightarrow>
          (case count_entry env cqe_ver loc st of
             Inl e \<Rightarrow> Some (Inl e)
           | Inr (r, st) \<Rightarrow>
               if r = CQ_OK then count_loop fuel env cqe_ver cqe_sz n (Suc k) st else Some (Inr (r, k, st))))"

definition poll_cnt :: "nat \<Rightarrow> poll_env \<Rightarrow> bool \<Rightarrow> nat \<Rightarrow> u32 \<Rightarrow> poll_state \<Rightarrow> (int \<times> poll_state) res option" where
  "poll_cnt fuel env cqe_ver cqe_sz max_entries st =
     (case count_loop fuel env cqe_ver cqe_sz (unat max_entries) 0 st of
        None \<Rightarrow> None
      | Some r \<Rightarrow> Some (bindR r (\<lambda>(err, npolled, st).
          if npolled \<noteq> 0
          then bindR (mlx5_update_cons_index (ps_q st) (ps_mem st)) (\<lambda>m. Inr (int npolled, st\<lparr>ps_mem := m\<rparr>))
          else Inr (if err = CQ_POLL_ERR then -1 else int npolled, st))))"

section \<open>One receive completion\<close>

datatype rx_flag = IBV_EXP_CQ_RX_TCP_UDP_CSUM_OK | IBV_EXP_CQ_RX_IP_CSUM_OK | IBV_EXP_CQ_RX_IPV4_PACKET
  | IBV_EXP_CQ_RX_IPV6_PACKET | IBV_EXP_CQ_RX_TCP_PACKET | IBV_EXP_CQ_RX_UDP_PACKET
  | IBV_EXP_CQ_RX_MULTI_PACKET_LAST_V1 | IBV_EXP_CQ_RX_WITH_TIMESTAMP | IBV_EXP_CQ_RX_CVLAN_STRIPPED_V1

definition get_rx_offloads_flags :: "cqe64 \<Rightarrow> rx_flag set" where
  "get_rx_offloads_flags c =
     (let l3 = b8 c 29 AND 0xC; l4 = b8 c 29 AND 0x70 in
      (if b8 c 28 AND 4 \<noteq> 0 then {IBV_EXP_CQ_RX_TCP_UDP_CSUM_OK} else {}) \<union>
      (if b8 c 28 AND 2 \<noteq> 0 then {IBV_EXP_CQ_RX_IP_CSUM_OK} else {}) \<union>
      (if l3 = 0x8 then {IBV_EXP_CQ_RX_IPV4_PACKET} else {}) \<union>
      (if l3 = 0x4 then {IBV_EXP_CQ_RX_IPV6_PACKET} else {}) \<union>
      (if l4 = 0x10 \<or> l4 = 0x30 \<or> l4 = 0x40 then {IBV_EXP_CQ_RX_TCP_PACKET} else {}) \<union>
      (if l4 = 0x20 then {IBV_EXP_CQ_RX_UDP_PACKET} else {}))"

text \<open>The arguments: where the data may go, and which results the caller asks for (not \<open>NULL\<close>).\<close>

record length_args =
  la_buf :: nat
  la_inl :: bool
  la_offset :: bool
  la_flags :: bool
  la_vlan :: bool
  la_timestamp :: bool

record length_out =
  lo_inl :: u32
  lo_offset :: u32
  lo_flags :: "rx_flag set"
  lo_vlan :: u16
  lo_timestamp :: u64

text \<open>A write through one of the pointers.\<close>

definition given :: "bool \<Rightarrow> unit res" where
  "given b = assertR b (Fault NullDeref)"

text \<open>A multi-packet work queue: \<open>None\<close> for \<open>CQ_POLL_ERR\<close>, else the length.\<close>

definition length_mp :: "length_args \<Rightarrow> cqe64 \<Rightarrow> u32 \<Rightarrow> mlx5_rwq \<Rightarrow> length_out \<Rightarrow>
    ((int \<times> mlx5_rwq \<times> length_out) option) res" where
  "length_mp args c byte_cnt w out =
     (if \<not> la_offset args then Inr None
      else let wqe_id = unat (ucast (ucast (ntohs (b16 c 2)) AND (wq_wqe_cnt (rw_rq w) - 1)) :: u16) in
           bindR (read_at (rw_strides_counter w) wqe_id) (\<lambda>n0.
           bindR (given (la_flags args)) (\<lambda>_.
             let n = n0 + MP_RQ_NUM_STRIDES byte_cnt; full = (n = rw_strides_in_wqe w);
                 fl = (if rw_rx_csum w then get_rx_offloads_flags c else {});
                 fl = (if full then insert IBV_EXP_CQ_RX_MULTI_PACKET_LAST_V1 fl else fl);
                 rq = (if full then (rw_rq w)\<lparr>wq_tail := wq_tail (rw_rq w) + 1\<rparr> else rw_rq w);
                 w' = w\<lparr>rw_strides_counter := (rw_strides_counter w)[wqe_id := if full then 0 else n], rw_rq := rq\<rparr>;
                 sz = (if byte_cnt AND 0x80000000 \<noteq> 0 then 0
                       else sint ((byte_cnt AND 0x0000FFFF) - ucast (rw_packet_padding w)));
                 off = ucast (c_wqe_counter c) * ucast (rw_stride_size w) + ucast (rw_packet_padding w) in
             Inr (Some (sz, w', out\<lparr>lo_flags := fl, lo_offset := off\<rparr>)))))"

text \<open>Data inside the entry: to the caller's buffer, or to the receive entry of the queue pair \<open>qp\<close>.\<close>

definition length_inline :: "length_args \<Rightarrow> cqe64 \<Rightarrow> cqe_loc \<Rightarrow> int \<Rightarrow> nat \<Rightarrow> poll_state \<Rightarrow> length_out \<Rightarrow>
    (bool \<times> poll_state \<times> length_out) res" where
  "length_inline args c loc sz qp st out =
     bindR (inline_at loc (c_format c \<noteq> MLX5_INLINE_DATA32_SEG)) (\<lambda>data.
       if la_buf args \<noteq> 0
       then bindR (given (la_inl args)) (\<lambda>_.
            bindR (memcpy (la_buf args) data sz (ps_mem st)) (\<lambda>m. Inr (True, st\<lparr>ps_mem := m\<rparr>, out\<lparr>lo_inl := 1\<rparr>)))
       else bindR (get_qp st qp) (\<lambda>q.
            bindR (mlx5_copy_to_recv_wqe q (ucast (ucast (wq_tail (q_rq q) AND (wq_wqe_cnt (q_rq q) - 1)) :: u16)) data sz
                     (ps_mem st)) (\<lambda>(err, m). Inr (err = IBV_WC_SUCCESS, st\<lparr>ps_mem := m\<rparr>, out))))"

text \<open>An entry of an ordinary receive queue; \<open>fmt\<close> is 0 in a compressed session.\<close>

definition length_plain :: "length_args \<Rightarrow> cqe64 \<Rightarrow> cqe_loc \<Rightarrow> u8 \<Rightarrow> u32 \<Rightarrow> nat \<Rightarrow> rsc_obj \<Rightarrow> poll_state \<Rightarrow> length_out \<Rightarrow>
    (int option \<times> poll_state \<times> length_out) res" where
  "length_plain args c loc fmt byte_cnt a ob st out =
     (let csum = (case ob of Qp_obj q \<Rightarrow> Some (q_rx_csum q) | Rwq_obj w \<Rightarrow> Some (rw_rx_csum w) | _ \<Rightarrow> None) in
      case csum of
        None \<Rightarrow> Inr (None, st, out)
      | Some cs \<Rightarrow>
          let out = (if la_flags args then out\<lparr>lo_flags := if cs then get_rx_offloads_flags c else {}\<rparr> else out);
              sz = sint byte_cnt; qp = (case ob of Qp_obj q \<Rightarrow> a | _ \<Rightarrow> 0) in
          bindR (if fmt \<noteq> 0 then length_inline args c loc sz qp st out else Inr (True, st, out)) (\<lambda>(ok, st, out).
            if \<not> ok then Inr (None, st, out)
            else case ob of
                   Qp_obj q \<Rightarrow> Inr (Some sz, put_qp a (q\<lparr>q_rq := (q_rq q)\<lparr>wq_tail := wq_tail (q_rq q) + 1\<rparr>\<rparr>) st, out)
                 | Rwq_obj w \<Rightarrow> Inr (Some sz, put_obj a (Rwq_obj (w\<lparr>rw_rq := (rw_rq w)\<lparr>wq_tail := wq_tail (rw_rq w) + 1\<rparr>\<rparr>)) st, out)
                 | _ \<Rightarrow> Inr (None, st, out)))"

text \<open>The entry, or the next of a compressed session, its object and byte count; \<open>None\<close> for a stray.\<close>

definition length_source :: "poll_env \<Rightarrow> bool \<Rightarrow> cqe_loc \<Rightarrow> poll_state \<Rightarrow> ((bool \<times> nat \<times> u32) option \<times> poll_state) res" where
  "length_source env cqe_ver loc st =
     bindR (cqe_at st loc) (\<lambda>c.
       if c_format c = MLX5_COMPRESSED
       then bindR (mlx5_acc_rx_decompress_cqe env st) (\<lambda>(n, st). Inr (Some (True, compressed_rsc (ps_cq st), n), st))
       else if c_opcode c \<noteq> MLX5_CQE_RESP_SEND then Inr (None, st)
       else bindR (lookup_rsc env cqe_ver c) (\<lambda>a. Inr (Some (False, a, c_byte_cnt c), st)))"

text \<open>What follows for every queue: time stamp, stripped tag, the counter and its doorbell.\<close>

definition length_finish :: "length_args \<Rightarrow> cqe64 \<Rightarrow> bool \<Rightarrow> int \<Rightarrow> poll_state \<Rightarrow> length_out \<Rightarrow>
    (int \<times> poll_state \<times> length_out) res" where
  "length_finish args c ts sz st out =
     bindR (if ts then bindR (given (la_flags args)) (\<lambda>_.
              Inr (out\<lparr>lo_timestamp := htonll (b64 c 48), lo_flags := insert IBV_EXP_CQ_RX_WITH_TIMESTAMP (lo_flags out)\<rparr>))
            else Inr out) (\<lambda>out.
     bindR (if la_vlan args \<and> b8 c 29 AND 1 \<noteq> 0
            then bindR (given (la_flags args)) (\<lambda>_.
              Inr (out\<lparr>lo_vlan := ntohs (b16 c 30), lo_flags := insert IBV_EXP_CQ_RX_CVLAN_STRIPPED_V1 (lo_flags out)\<rparr>))
            else Inr out) (\<lambda>out.
       let q = (ps_q st)\<lparr>cq_cons := cq_cons (ps_q st) + 1\<rparr> in
       bindR (mlx5_update_cons_index q (ps_mem st)) (\<lambda>m. Inr (sz, (set_q q st)\<lparr>ps_mem := m\<rparr>, out))))"

definition length_entry :: "poll_env \<Rightarrow> bool \<Rightarrow> length_args \<Rightarrow> cqe_loc \<Rightarrow> poll_state \<Rightarrow> length_out \<Rightarrow>
    (int \<times> poll_state \<times> length_out) res" where
  "length_entry env cqe_ver args loc st out =
     bindR (length_source env cqe_ver loc st) (\<lambda>(src, st).
       case src of
         None \<Rightarrow> Inr (-1, st, out)
       | Some (compressed, a, byte_cnt) \<Rightarrow>
           let loc = (if compressed then Title else loc) in
           bindR (cqe_at st loc) (\<lambda>c.
             if a = 0 then Inr (-1, st, out)
             else bindR (get_obj st a) (\<lambda>ob.
               let ts = (la_timestamp args \<and> pc_timestamp (ps_cq st) \<and> \<not> compressed);
                   fmt = (if compressed then 0 else c_format c) in
               case ob of
                 Mp_rwq_obj w \<Rightarrow>
                   bindR (length_mp args c byte_cnt w out) (\<lambda>r.
                     case r of None \<Rightarrow> Inr (-1, st, out)
                     | Some (sz, w, out) \<Rightarrow> length_finish args c ts sz (put_obj a (Mp_rwq_obj w) st) out)
               | _ \<Rightarrow>
                   bindR (length_plain args c loc fmt byte_cnt a ob st out) (\<lambda>(r, st, out).
                     case r of None \<Rightarrow> Inr (-1, st, out)
                     | Some sz \<Rightarrow> length_finish args c ts sz st out))))"

definition poll_length_all :: "nat \<Rightarrow> poll_env \<Rightarrow> bool \<Rightarrow> nat \<Rightarrow> length_args \<Rightarrow> poll_state \<Rightarrow> length_out \<Rightarrow>
    (int \<times> poll_state \<times> length_out) res option" where
  "poll_length_all fuel env cqe_ver cqe_sz args st out =
     (case get_next_cqe fuel cqe_sz st of
        None \<Rightarrow> None
      | Some r \<Rightarrow> Some (bindR r (\<lambda>(loc, st).
          case loc of
            None \<Rightarrow> Inr (0, st, if la_flags args then out\<lparr>lo_flags := {}\<rparr> else out)
          | Some loc \<Rightarrow> length_entry env cqe_ver args loc st out)))"

text \<open>\<open>poll_length\<close>: without a time stamp.\<close>

definition poll_length :: "nat \<Rightarrow> poll_env \<Rightarrow> bool \<Rightarrow> nat \<Rightarrow> length_args \<Rightarrow> poll_state \<Rightarrow> length_out \<Rightarrow>
    (int \<times> poll_state \<times> length_out) res option" where
  "poll_length fuel env cqe_ver cqe_sz args = poll_length_all fuel env cqe_ver cqe_sz (args\<lparr>la_timestamp := False\<rparr>)"

end
