(* ===== verification/Poll_Family.thy ===== *)
theory Poll_Family
  imports Poll_Correct Cq_Family
begin

text \<open>
  The counting poll does to the queue pairs and the ring what \<open>poll_cq\<close> does; and what the entries of
  receives report, in terms of the receive queue as a queue of identifiers.
\<close>

section \<open>Counting\<close>

definition counted_once :: "nat \<Rightarrow> mlx5_qp \<Rightarrow> cqe64 \<Rightarrow> poll_state \<Rightarrow> poll_state" where
  "counted_once a q c st = advance 1 (put_qp a (snd (retire c q)) st)"

lemma counted_once_simps [simp]:
  "ps_objs (counted_once a q c st) = (ps_objs st)(a \<mapsto> Qp_obj (snd (retire c q)))" "ps_mem (counted_once a q c st) = ps_mem st"
  "ps_q (counted_once a q c st) = (ps_q st)\<lparr>cq_cons := cq_cons (ps_q st) + 1\<rparr>"
  "poll_ring (counted_once a q c st) = poll_ring st"
  by (simp_all add: counted_once_def poll_ring_def)

lemma count_entry_plain:
  assumes ring: "poll_ring st" and c: "c = next_proper st 0" "plain_cqe v c" and own: "owned_by env v (ps_objs st) c a q"
  shows "count_entry env v (Ring (next_addr (ps_q st) 0)) st = Inr (CQ_OK, counted_once a q c st)"
proof -
  have cqe: "cqe_at st (Ring (next_addr (ps_q st) 0)) = Inr c" using cqe_at_next [OF ring] c(1) by simp
  have fmt: "c_format c \<noteq> MLX5_COMPRESSED" using c(2) by (simp add: plain_cqe_def MLX5_COMPRESSED_def)
  have look: "lookup_rsc env v c = Inr a" "a \<noteq> 0" "get_qp st a = Inr q" "qp_arrays q"
    using own by (auto simp: owned_by_def lookup_rsc_def table_lookup_def key_of_def get_qp_ok split: if_splits)
  have idx: "send_index q c < length (q_wqe_head q)"
    using send_index_less [OF look(4), of c] look(4) by (simp add: qp_arrays_def)
  have op: "c_opcode c = MLX5_CQE_REQ \<or> c_opcode c = MLX5_CQE_RESP_SEND" using c(2) by (auto simp: plain_cqe_def)
  then show ?thesis using cqe fmt look(1-3) idx
    by (auto simp: count_entry_def retire_def counted_once_def advance_def Let_def)
qed

lemma next_run_counted:
  assumes "poll_ring st" "next_run st (c # cs)"
  shows "next_run (counted_once a q c st) cs"
proof -
  have "ps_q (counted_once a q c st) = ps_q (retired a q c st)" "ps_mem (counted_once a q c st) = ps_mem (retired a q c st)" by simp_all
  then show ?thesis using next_run_retired [OF assms, of a q] unfolding next_run_def next_proper_def by (simp only:)
qed

lemma count_loop_plain:
  assumes "poll_ring st" "plain_run env v (ps_objs st) cs" "next_run st cs"
  shows "\<exists>st'. count_loop fuel env v (cq_sz (ps_q st)) (length cs + r) k st = count_loop fuel env v (cq_sz (ps_q st)) r (k + length cs) st' \<and>
    poll_ring st' \<and> ps_mem st' = ps_mem st \<and> ps_q st' = (ps_q st)\<lparr>cq_cons := cq_cons (ps_q st) + of_nat (length cs)\<rparr> \<and>
    ps_objs st' = snd (retire_all env v cs (ps_objs st))"
  using assms
proof (induction cs arbitrary: k st)
  case Nil
  then show ?case by (intro exI [of _ st]) simp
next
  case (Cons c cs)
  have c: "next_proper st 0 = c" "sw_owned (ps_q st) (unat (cq_cons (ps_q st))) c"
    using Cons.prems(3) unfolding next_run_def by fastforce+
  obtain a q where own: "owned_by env v (ps_objs st) c a q" and pl: "plain_cqe v c"
    using Cons.prems(2) by (auto simp: plain_run_def)
  let ?st = "counted_once a q c st"
  have "get_next_cqe fuel (cq_sz (ps_q st)) st = Some (Inr (Some (Ring (next_addr (ps_q st) 0)), st))"
    using next_cqe [OF Cons.prems(1)] c by simp
  then have step: "count_loop fuel env v (cq_sz (ps_q st)) (length (c # cs) + r) k st =
      count_loop fuel env v (cq_sz (ps_q ?st)) (length cs + r) (Suc k) ?st"
    using count_entry_plain [OF Cons.prems(1) c(1) [symmetric] pl own] by simp
  have aq: "ps_objs st a = Some (Qp_obj q)" using own by (simp add: owned_by_def)
  have run: "plain_run env v (ps_objs ?st) cs"
    unfolding counted_once_simps by (rule plain_run_retired) (use Cons.prems(2) aq in \<open>auto simp: plain_run_def\<close>)
  have ring: "poll_ring ?st" using Cons.prems(1) by simp
  obtain st' where ih: "count_loop fuel env v (cq_sz (ps_q ?st)) (length cs + r) (Suc k) ?st =
      count_loop fuel env v (cq_sz (ps_q ?st)) r (Suc k + length cs) st'"
    "poll_ring st'" "ps_mem st' = ps_mem ?st" "ps_q st' = (ps_q ?st)\<lparr>cq_cons := cq_cons (ps_q ?st) + of_nat (length cs)\<rparr>"
    "ps_objs st' = snd (retire_all env v cs (ps_objs ?st))"
    using Cons.IH [OF ring run next_run_counted [OF Cons.prems(1,3)], of "Suc k"] by blast
  then show ?case using step retire_all_Cons [OF own] by (intro exI [of _ st']) (simp add: add.assoc)
qed

lemma count_empty:
  "poll_ring st \<Longrightarrow> nothing_at st 0 \<Longrightarrow> r \<noteq> 0 \<Longrightarrow>
     count_loop fuel env v (cq_sz (ps_q st)) r k st = Some (Inr (CQ_EMPTY, k, st))"
  using next_cqe [of st fuel] by (cases r) (simp_all add: nothing_at_def)

lemma poll_cnt_run:
  assumes ring: "poll_ring st" and run: "plain_run env v (ps_objs st) cs" "next_run st cs" "cs \<noteq> []"
    and db: "mapped (ps_mem st) (cq_dbrec (ps_q st)) 4" and n: "length cs \<le> unat mx"
    and fin: "length cs < unat mx \<longrightarrow> nothing_at st (length cs)"
  shows "\<exists>st'. poll_cnt fuel env v (cq_sz (ps_q st)) mx st = Some (Inr (int (length cs), st')) \<and>
    ps_q st' = (ps_q st)\<lparr>cq_cons := cq_cons (ps_q st) + of_nat (length cs)\<rparr> \<and>
    ps_objs st' = snd (retire_all env v cs (ps_objs st)) \<and>
    ps_mem st' = upd_bytes (cq_dbrec (ps_q st)) (be32 (cq_cons (ps_q st') AND 0xffffff)) (ps_mem st)"
proof -
  let ?n = "length cs"
  obtain r where r: "unat mx = ?n + r" using n le_Suc_ex by blast
  obtain st1 where L: "count_loop fuel env v (cq_sz (ps_q st)) (unat mx) 0 st = count_loop fuel env v (cq_sz (ps_q st)) r ?n st1"
    "poll_ring st1" "ps_mem st1 = ps_mem st" "ps_q st1 = (ps_q st)\<lparr>cq_cons := cq_cons (ps_q st) + of_nat ?n\<rparr>"
    "ps_objs st1 = snd (retire_all env v cs (ps_objs st))"
    using count_loop_plain [OF ring run(1,2), of fuel r 0] unfolding r by auto
  have cq: "cq_ring (ps_q st) (ps_mem st)" using ring by (simp add: poll_ring_def)
  have "\<exists>e. count_loop fuel env v (cq_sz (ps_q st)) r ?n st1 = Some (Inr (e, ?n, st1))"
  proof (cases "r = 0")
    case False
    then have "nothing_at st1 0" using fin r at_advanced(1) [OF cq L(3,4)] by simp
    then show ?thesis using count_empty [OF L(2) _ False, of fuel env v ?n] L(4) by simp
  qed simp
  then obtain e where "count_loop fuel env v (cq_sz (ps_q st)) (unat mx) 0 st = Some (Inr (e, ?n, st1))" using L(1) by auto
  moreover have "mlx5_update_cons_index (ps_q st1) (ps_mem st1) =
      Inr (upd_bytes (cq_dbrec (ps_q st)) (be32 (cq_cons (ps_q st1) AND 0xffffff)) (ps_mem st))"
    using db L(3,4) by (simp add: mlx5_update_cons_index_def store32_def)
  ultimately show ?thesis using run(3) L(4,5) by (auto simp: poll_cnt_def)
qed

section \<open>Receives in the order of their posting\<close>

lemma retire_recvs:
  assumes "rq_ok q m" "objs a = Some (Qp_obj q)" "length cs \<le> outstanding (q_rq q)"
    and "\<forall>c \<in> set cs. c_opcode c = MLX5_CQE_RESP_SEND \<and> table_lookup env v (key_of v c) = Inr a"
  shows "\<exists>q'. retire_all env v cs objs = (take (length cs) (pending (q_rq q)), objs(a \<mapsto> Qp_obj q')) \<and> rq_ok q' m \<and>
    pending (q_rq q') = drop (length cs) (pending (q_rq q))"
  using assms
proof (induction cs arbitrary: q objs)
  case Nil
  then have "objs(a \<mapsto> Qp_obj q) = objs" by auto
  then show ?case using Nil by (intro exI [of _ q]) simp
next
  case (Cons c cs)
  let ?rq = "(q_rq q)\<lparr>wq_tail := wq_tail (q_rq q) + 1\<rparr>"
  let ?q = "q\<lparr>q_rq := ?rq\<rparr>"
  have pos: "0 < outstanding (q_rq q)" using Cons.prems(3) by simp
  note P = pending_pop [OF Cons.prems(1) pos]
  have c: "retire c q = (hd (pending (q_rq q)), ?q)" using Cons.prems(4) P(1) by (simp add: retire_def)
  have tl: "pending ?rq = tl (pending (q_rq q))" using P(1) by simp
  have len: "length (pending rq) = outstanding rq" for rq by (simp add: pending_def ids_from_def)
  have "length cs \<le> outstanding (q_rq ?q)" using Cons.prems(3) arg_cong [OF tl, of length] by (simp add: len)
  moreover have "(objs(a \<mapsto> Qp_obj ?q)) a = Some (Qp_obj ?q)" by simp
  moreover have "\<forall>c \<in> set cs. c_opcode c = MLX5_CQE_RESP_SEND \<and> table_lookup env v (key_of v c) = Inr a" using Cons.prems(4) by simp
  ultimately obtain q' where q': "retire_all env v cs (objs(a \<mapsto> Qp_obj ?q)) =
      (take (length cs) (pending (q_rq ?q)), objs(a \<mapsto> Qp_obj ?q, a \<mapsto> Qp_obj q'))" "rq_ok q' m"
    "pending (q_rq q') = drop (length cs) (pending (q_rq ?q))"
    using Cons.IH [OF P(2)] by blast
  have all: "retire_all env v (c # cs) objs =
      (hd (pending (q_rq q)) # take (length cs) (pending (q_rq ?q)), objs(a \<mapsto> Qp_obj q'))"
    using Cons.prems(2,4) c q'(1) by (simp add: Let_def del: fun_upd_apply)
  have p: "pending (q_rq q) = hd (pending (q_rq q)) # pending (q_rq ?q)" using P(1) by simp
  have "take (length (c # cs)) (pending (q_rq q)) = hd (pending (q_rq q)) # take (length cs) (pending (q_rq ?q))"
    by (subst p) simp
  moreover have "drop (length (c # cs)) (pending (q_rq q)) = drop (length cs) (pending (q_rq ?q))" by (subst p) simp
  ultimately show ?case unfolding all using q'(2,3) by (intro exI [of _ q']) (simp del: fun_upd_apply)
qed

end
