(* ===== verification/Poll_Srq.thy ===== *)
theory Poll_Srq
  imports Poll_Correct
begin

text \<open>
  Completions of messages that were received into an entry of a shared receive queue: the entry's
  identifier is reported and the entry goes back to the end of the chain of free entries.
\<close>

section \<open>The switch\<close>

text \<open>What the completion of entry \<open>i\<close> reports.\<close>

definition reports_srq :: "cqe64 \<Rightarrow> srq_object \<Rightarrow> exp_wc \<Rightarrow> bool" where
  "reports_srq c s wc \<longleftrightarrow> w_wr_id wc = srq_wrid (so_srq s) ! unat (c_wqe_counter c) \<and> w_status wc = IBV_WC_SUCCESS \<and>
     w_opcode wc = IBV_WC_RECV \<and> w_byte_len wc = c_byte_cnt c"

text \<open>An entry for a message without inline data, not of tag matching.\<close>

definition message_cqe :: "cqe64 \<Rightarrow> bool" where
  "message_cqe c \<longleftrightarrow> c_opcode c = MLX5_CQE_RESP_SEND \<and> c_format c = 0 \<and> b8 c 40 \<noteq> 1"

definition srq_at :: "poll_state \<Rightarrow> nat \<Rightarrow> srq_object \<Rightarrow> cqe64 \<Rightarrow> bool" where
  "srq_at st b s c \<longleftrightarrow> b \<noteq> 0 \<and> ps_objs st b = Some (Srq_obj s) \<and> strides_per_wqe s = 0 \<and>
     unat (c_wqe_counter c) < length (srq_wrid (so_srq s))"

text \<open>The state after the entry went back.\<close>

definition freed :: "nat \<Rightarrow> srq_object \<Rightarrow> mlx5_srq \<Rightarrow> memory \<Rightarrow> poll_state \<Rightarrow> poll_state" where
  "freed b s srq m st = (put_srq b (s\<lparr>so_srq := srq\<rparr>) st)\<lparr>ps_mem := m\<rparr>"

lemma freed_simps [simp]:
  "ps_objs (freed b s srq m st) = (ps_objs st)(b \<mapsto> Srq_obj (s\<lparr>so_srq := srq\<rparr>))" "ps_mem (freed b s srq m st) = m"
  "ps_cq (freed b s srq m st) = ps_cq st" "ps_rsc (freed b s srq m st) = ps_rsc st" "ps_srq (freed b s srq m st) = ps_srq st"
  by (simp_all add: freed_def)

lemma get_srq_ok: "b \<noteq> 0 \<Longrightarrow> ps_objs st b = Some (Srq_obj s) \<Longrightarrow> get_srq st b = Inr s"
  by (simp add: get_srq_def get_obj_ok)

lemma resp_fields_srq:
  assumes "c_opcode c = MLX5_CQE_RESP_SEND" "get_srq st b = Inr s" "b \<noteq> 0"
    and "qp = 0 \<and> (type = RSC_INVAL \<or> type = RSC_XSRQ \<or> type = RSC_DCT) \<or> get_qp st qp = Inr q"
  shows "\<exists>w. resp_fields c qp b type st wc = Inr w \<and> w_wr_id w = w_wr_id wc \<and> w_opcode w = IBV_WC_RECV \<and> w_byte_len w = w_byte_len wc"
  using assms by (auto simp: resp_fields_def resp_source_def resp_opcode_def Let_def MLX5_CQE_RESP_SEND_def MLX5_CQE_RESP_WR_IMM_def)

lemma poll_switch_srq:
  assumes c: "message_cqe c" and s: "srq_at st b s c" and l: "l_is_srq l" "ps_srq st = b"
    and qp: "l_mqp l = 0 \<and> (l_type l = RSC_INVAL \<or> l_type l = RSC_XSRQ \<or> l_type l = RSC_DCT) \<or>
      l_mqp l \<noteq> 0 \<and> ps_objs st (l_mqp l) = Some (Qp_obj q)"
    and free: "mlx5_free_srq_wqe (unat (c_wqe_counter c)) (so_srq s) (ps_mem st) = Inr (srq, m)"
  shows "\<exists>l' w. poll_switch env wc_size c loc st l wc = Inr (Return CQ_OK, freed b s srq m st, l', w) \<and>
    l_timestamp_en l' = l_timestamp_en l \<and> w_qp_num w = w_qp_num wc \<and> reports_srq c s w"
proof -
  have at: "get_srq st b = Inr s" "b \<noteq> 0" using s by (simp_all add: srq_at_def get_srq_ok)
  let ?st = "freed b s srq m st" and ?w = "wc\<lparr>w_wr_id := srq_wrid (so_srq s) ! unat (c_wqe_counter c), w_byte_len := c_byte_cnt c\<rparr>"
  have r: "resp_srq (pe_layout env) wc_size c loc b st wc (l_flags l) = Inr (IBV_WC_SUCCESS, ?st, ?w, l_flags l)"
    using at(1) s c free
    by (simp add: resp_srq_def srq_at_def message_cqe_def srq_wr_id_def free_wqe_def inline_none freed_def Let_def)
  have q: "get_qp st' (l_mqp l) = Inr q" if "l_mqp l \<noteq> 0" "ps_objs st' = (ps_objs st)(b \<mapsto> Srq_obj s')" for st' s'
  proof -
    have "l_mqp l \<noteq> b" using qp s that(1) by (auto simp: srq_at_def)
    then show ?thesis using qp that by (simp add: get_qp_ok)
  qed
  have "get_srq ?st b = Inr (s\<lparr>so_srq := srq\<rparr>)" using at(2) by (simp add: get_srq_ok)
  from resp_fields_srq [OF _ this at(2), of c "l_mqp l" "l_type l" q ?w] c qp q [of ?st]
  obtain w where w: "resp_fields c (l_mqp l) b (l_type l) ?st ?w = Inr w" "w_wr_id w = srq_wrid (so_srq s) ! unat (c_wqe_counter c)"
    "w_opcode w = IBV_WC_RECV" "w_byte_len w = c_byte_cnt c"
    by (auto simp: message_cqe_def)
  have num: "w_qp_num w = w_qp_num wc"
    using w(1) by (auto simp: resp_fields_def resp_opcode_def Let_def bindR_eq_Inr)
  have h: "handle_responder (pe_layout env) wc_size c loc (l_mqp l) b (l_type l) st wc (l_flags l) = Inr (IBV_WC_SUCCESS, ?st, w, l_flags l)"
    using r w(1) at(2) by (simp add: handle_responder_def)
  have "poll_filler c st l wc = Inr None"
    using at(1) s l by (simp add: poll_filler_def srq_at_def)
  then have "\<exists>l' w'. poll_resp (pe_layout env) wc_size c loc st l wc = Inr (Return CQ_OK, ?st, l', w') \<and>
    l_timestamp_en l' = l_timestamp_en l \<and> w_qp_num w' = w_qp_num wc \<and> reports_srq c s w'"
    using c l h w num q [of ?st] by (cases "l_mqp l = 0") (auto simp: poll_resp_def message_cqe_def reports_srq_def)
  then show ?thesis using c by (simp add: poll_switch_def message_cqe_def Let_def)
qed

section \<open>From the look-ups on\<close>

text \<open>\<open>poll_owned\<close>, once the two cursors and the locals are known.\<close>

lemma poll_owned_srq:
  assumes find: "find_owner env False c st l = Inr (True, st2, l2)" and l2: "l_is_srq l2" "ps_srq st2 = b"
    and use: "use_owner (pe_layout env) wc_size False True st2 l2 wc = Inr (True, st2, l3, wc3)"
      "l_is_srq l3" "l_timestamp_en l3 = l_timestamp_en l"
    and qp: "l_mqp l3 = 0 \<and> (l_type l3 = RSC_INVAL \<or> l_type l3 = RSC_XSRQ \<or> l_type l3 = RSC_DCT) \<or>
      l_mqp l3 \<noteq> 0 \<and> ps_objs st2 (l_mqp l3) = Some (Qp_obj q)"
    and c: "message_cqe c" and s: "srq_at st2 b s c"
    and free: "mlx5_free_srq_wqe (unat (c_wqe_counter c)) (so_srq s) (ps_mem st2) = Inr (srq, m)"
    and env: "pc_peer (ps_cq st2) = None" "l_timestamp_en l \<longrightarrow> off_wc_timestamp (pe_layout env) < wc_size"
  shows "\<exists>l' w. poll_owned env False wc_size c loc st l wc = Inr (Return CQ_OK, freed b s srq m st2, l', w) \<and>
    reports_srq c s w \<and> w_qp_num w = c_sop_qpn c AND 0xffffff"
proof -
  obtain l4 w4 where n: "note_srq (pe_layout env) wc_size st2 l3 wc3 = (l4, w4)" by fastforce
  have l4: "l_is_srq l4" "l_mqp l4 = l_mqp l3" "l_type l4 = l_type l3" "l_timestamp_en l4 = l_timestamp_en l3"
    using n use(2) by (auto simp: note_srq_def split: if_splits)
  let ?w4 = "w4\<lparr>w_qp_num := c_sop_qpn c AND 0xffffff\<rparr>"
  have "\<exists>l' w. poll_switch env wc_size c loc st2 l4 ?w4 = Inr (Return CQ_OK, freed b s srq m st2, l', w) \<and>
    l_timestamp_en l' = l_timestamp_en l4 \<and> w_qp_num w = w_qp_num ?w4 \<and> reports_srq c s w"
    by (rule poll_switch_srq [OF c s l4(1) l2(2) _ free]) (use qp l4 in auto)
  then obtain l5 w5 where sw: "poll_switch env wc_size c loc st2 l4 ?w4 = Inr (Return CQ_OK, freed b s srq m st2, l5, w5)"
    "l_timestamp_en l5 = l_timestamp_en l" "w_qp_num w5 = c_sop_qpn c AND 0xffffff" "reports_srq c s w5"
    using l4(4) use(3) by auto
  have "pc_peer (ps_cq (freed b s srq m st2)) = None" using env(1) by simp
  then obtain w6 where fin: "poll_finish (pe_layout env) wc_size c loc (freed b s srq m st2) l5 w5 = Inr (freed b s srq m st2, w6)"
    "w_wr_id w6 = w_wr_id w5" "w_status w6 = w_status w5" "w_qp_num w6 = w_qp_num w5" "w_opcode w6 = w_opcode w5" "w_byte_len w6 = w_byte_len w5"
    using poll_finish_plain [of "freed b s srq m st2" l5 "pe_layout env" wc_size c loc w5] sw(2) env(2) by metis
  have op: "is_responder (c_opcode c)" using c by (simp add: message_cqe_def)
  have "poll_owned env False wc_size c loc st l wc = Inr (Return CQ_OK, freed b s srq m st2, l5, w6)"
    using find use(1) op n sw(1) fin(1) by (simp add: poll_owned_def poll_served_def Let_def)
  then show ?thesis using sw(3,4) fin(2-) by (simp add: reports_srq_def)
qed

text \<open>The entry names its shared receive queue, and no queue pair or one that the table has.\<close>

definition srq_named :: "poll_env \<Rightarrow> poll_state \<Rightarrow> cqe64 \<Rightarrow> nat \<Rightarrow> nat \<Rightarrow> bool" where
  "srq_named env st c b r \<longleftrightarrow> c_srqn_uidx c AND 0xffffff \<noteq> 0 \<and>
     mlx5_find_srq (pe_tables env) (c_srqn_uidx c AND 0xffffff) = Inr b \<and>
     mlx5_find_rsc (pe_tables env) (c_sop_qpn c AND 0xffffff) = Inr r \<and>
     (r = 0 \<or> (\<exists>q. ps_objs st r = Some (Qp_obj q)))"

lemma find_owner_srq:
  assumes "srq_named env st c b r" "is_responder (c_opcode c)" "ps_rsc st = 0" "ps_srq st = 0" "b \<noteq> 0"
  shows "find_owner env False c st l = Inr (True, st\<lparr>ps_srq := b, ps_rsc := r\<rparr>, l\<lparr>l_is_srq := True\<rparr>)"
  using assms by (simp add: find_owner_def srq_named_def same_srqn_def same_rsc_def Let_def)

lemma use_owner_srq:
  assumes "ps_rsc st = 0 \<or> (\<exists>q. ps_objs st (ps_rsc st) = Some (Qp_obj q))" "l_is_srq l" "l_mqp l = 0" "l_type l = RSC_INVAL"
  shows "\<exists>l' w. use_owner lay wc_size False resp st l wc = Inr (True, st, l', w) \<and> l_is_srq l' \<and> l_timestamp_en l' = l_timestamp_en l \<and>
    (l_mqp l' = 0 \<and> l_type l' = RSC_INVAL \<or> l_mqp l' \<noteq> 0 \<and> (\<exists>q. ps_objs st (l_mqp l') = Some (Qp_obj q)))"
  using assms by (auto simp: use_owner_def get_obj_ok Let_def)

text \<open>One poll: the first entry of a call that is for an entry of a shared receive queue.\<close>

lemma poll_one_srq:
  assumes ring: "poll_ring st" and c: "c = next_proper st 0" "message_cqe c" "sw_owned (ps_q st) (unat (cq_cons (ps_q st))) c"
    and cur: "ps_rsc st = 0" "ps_srq st = 0" and room: "room_for_time env wc_size st"
    and named: "srq_named env st c b r" and s: "srq_at st b s c"
    and free: "mlx5_free_srq_wqe (unat (c_wqe_counter c)) (so_srq s) (ps_mem st) = Inr (srq, m)"
  shows "\<exists>w. mlx5_poll_one (Suc f) env False wc_size st wc =
      Some (Inr (CQ_OK, freed b s srq m ((advance 1 st)\<lparr>ps_srq := b, ps_rsc := r\<rparr>), w)) \<and> reports_srq c s w"
proof -
  let ?loc = "Ring (next_addr (ps_q st) 0)" and ?st = "advance 1 st" and ?wc = "wc\<lparr>w_flags := {}\<rparr>"
  let ?st2 = "?st\<lparr>ps_srq := b, ps_rsc := r\<rparr>" and ?l = "(init_locals st)\<lparr>l_is_srq := True\<rparr>"
  have op: "is_responder (c_opcode c)" using c(2) by (simp add: message_cqe_def)
  have b: "b \<noteq> 0" using s by (simp add: srq_at_def)
  have find: "find_owner env False c ?st (init_locals st) = Inr (True, ?st2, ?l)"
    by (rule find_owner_srq [OF _ op]) (use named cur b in \<open>simp_all add: srq_named_def\<close>)
  have "ps_rsc ?st2 = 0 \<or> (\<exists>q. ps_objs ?st2 (ps_rsc ?st2) = Some (Qp_obj q))" using named by (auto simp: srq_named_def)
  from use_owner_srq [OF this, of ?l "pe_layout env" wc_size True ?wc] obtain l3 w3 q where
    use: "use_owner (pe_layout env) wc_size False True ?st2 ?l ?wc = Inr (True, ?st2, l3, w3)" "l_is_srq l3"
      "l_timestamp_en l3 = l_timestamp_en (init_locals st)"
      "l_mqp l3 = 0 \<and> l_type l3 = RSC_INVAL \<or> l_mqp l3 \<noteq> 0 \<and> ps_objs ?st2 (l_mqp l3) = Some (Qp_obj q)"
    by (auto simp: init_locals_def)
  have "\<exists>l' w. poll_owned env False wc_size c ?loc ?st (init_locals st) ?wc = Inr (Return CQ_OK, freed b s srq m ?st2, l', w) \<and>
    reports_srq c s w \<and> w_qp_num w = c_sop_qpn c AND 0xffffff"
    by (rule poll_owned_srq [OF find _ _ use(1-3)])
      (use use(4) c(2) s free ring room in \<open>auto simp: srq_at_def poll_ring_def room_for_time_def init_locals_def\<close>)
  then obtain l' w where own: "poll_owned env False wc_size c ?loc ?st (init_locals st) ?wc = Inr (Return CQ_OK, freed b s srq m ?st2, l', w)"
    "reports_srq c s w" by blast
  have "cqe_at st ?loc = Inr c" using cqe_at_next [OF ring] c(1) by simp
  moreover have "set_q ((ps_q st)\<lparr>cq_cons := cq_cons (ps_q st) + 1\<rparr>) st = ?st" by (simp add: advance_def)
  moreover have "c_format c \<noteq> MLX5_COMPRESSED" using c(2) by (simp add: message_cqe_def MLX5_COMPRESSED_def)
  ultimately have "poll_entry env False wc_size ?loc st (init_locals st) wc = Inr (Return CQ_OK, freed b s srq m ?st2, l', w)"
    using own(1) op by (simp add: poll_entry_def poll_fetched_def Let_def)
  then show ?thesis using next_cqe [OF ring, of "Suc f"] c(1,3) own(2) by (simp add: mlx5_poll_one_def)
qed

section \<open>After a \<open>goto repoll\<close>\<close>

text \<open>
  An entry of a queue pair of its own, when the entry before it, of a shared receive queue, ended in
  \<open>goto repoll\<close>: the locals still say \<open>is_srq\<close>.
\<close>

lemma poll_fetched_stale:
  assumes ring: "poll_ring st" and c: "c = next_proper st 0" "message_cqe c" "c_srqn_uidx c AND 0xffffff = 0"
    and own: "owned_by env False (ps_objs st) c a q" and cur: "cursor_ok env False st"
    and l: "l_is_srq l" "ps_srq st = b" "l_timestamp_en l \<longrightarrow> off_wc_timestamp (pe_layout env) < wc_size"
    and s: "srq_at st b s c"
    and free: "mlx5_free_srq_wqe (unat (c_wqe_counter c)) (so_srq s) (ps_mem st) = Inr (srq, m)"
  shows "\<exists>l' w. poll_entry env False wc_size (Ring (next_addr (ps_q st) 0)) st l wc =
      Inr (Return CQ_OK, freed b s srq m ((advance 1 st)\<lparr>ps_rsc := a\<rparr>), l', w) \<and> reports_srq c s w"
proof -
  let ?loc = "Ring (next_addr (ps_q st) 0)" and ?st = "advance 1 st" and ?wc = "wc\<lparr>w_flags := {}\<rparr>"
  let ?st2 = "?st\<lparr>ps_rsc := a\<rparr>"
  have op: "is_responder (c_opcode c)" using c(2) by (simp add: message_cqe_def)
  have own1: "owned_by env False (ps_objs ?st) c a q" "owned_by env False (ps_objs ?st2) c a q" using own by simp_all
  have cur1: "cursor_ok env False ?st" using cur by (simp add: cursor_ok_def)
  have find: "find_owner env False c ?st l = Inr (True, ?st2, l)"
    by (rule find_owner_ok [OF cur1 own1(1)]) (use c(3) in simp)
  from use_owner_ok [of env False ?st2 c a q, OF own1(2), of "pe_layout env" wc_size l ?wc] op obtain fl w3 where
    use: "use_owner (pe_layout env) wc_size False True ?st2 l ?wc = Inr (True, ?st2, l\<lparr>l_mqp := a, l_type := RSC_QP, l_flags := fl\<rparr>, w3)"
    by auto
  have "a \<noteq> 0 \<and> ps_objs st a = Some (Qp_obj q)" using own by (simp add: owned_by_def)
  then have "\<exists>l' w. poll_owned env False wc_size c ?loc ?st l ?wc = Inr (Return CQ_OK, freed b s srq m ?st2, l', w) \<and>
    reports_srq c s w \<and> w_qp_num w = c_sop_qpn c AND 0xffffff"
    by (intro poll_owned_srq [OF find l(1) _ use]) (use c(2) s free ring l in \<open>auto simp: srq_at_def poll_ring_def\<close>)
  then obtain l' w where o: "poll_owned env False wc_size c ?loc ?st l ?wc = Inr (Return CQ_OK, freed b s srq m ?st2, l', w)"
    "reports_srq c s w" by blast
  have "cqe_at st ?loc = Inr c" using cqe_at_next [OF ring] c(1) by simp
  moreover have "set_q ((ps_q st)\<lparr>cq_cons := cq_cons (ps_q st) + 1\<rparr>) st = ?st" by (simp add: advance_def)
  moreover have "c_format c \<noteq> MLX5_COMPRESSED" using c(2) by (simp add: message_cqe_def MLX5_COMPRESSED_def)
  ultimately show ?thesis using o op by (simp add: poll_entry_def poll_fetched_def Let_def)
qed

text \<open>An error entry that reports a page fault of a shared receive queue's entry.\<close>

definition fault_cqe :: "cqe64 \<Rightarrow> bool" where
  "fault_cqe c \<longleftrightarrow> c_opcode c = MLX5_CQE_RESP_ERR \<and> is_odp_pfault_err c \<and> c_format c \<noteq> MLX5_COMPRESSED"

text \<open>The ring lies outside the buffer and the doorbell record of the shared receive queue.\<close>

definition ring_apart :: "mlx5_cq \<Rightarrow> mlx5_srq \<Rightarrow> bool" where
  "ring_apart q srq \<longleftrightarrow> (\<forall>x. cq_buf q \<le> x \<and> x < ring_end q \<longrightarrow> srq_apart srq x)"

lemma ring_kept:
  assumes "cq_ring q m" and "\<And>x. cq_buf q \<le> x \<Longrightarrow> x < ring_end q \<Longrightarrow> m' x = m x"
  shows "cq_ring q m'" "entry_at q m' n = entry_at q m n"
proof -
  show "cq_ring q m'" using assms by (auto simp: cq_ring_def mapped_iff ring_end_def)
  show "entry_at q m' n = entry_at q m n"
    unfolding entry_at_def using ring_at_in [of q n] assms(2) by (intro bytes_at_cong) auto
qed

text \<open>The entry that faulted is put back, and the code repolls.\<close>

lemma poll_entry_fault:
  assumes ring: "poll_ring st" and c: "c = next_proper st 0" "fault_cqe c"
    and cur: "ps_rsc st = 0" "ps_srq st = 0" and named: "srq_named env st c b r" and s: "b \<noteq> 0" "ps_objs st b = Some (Srq_obj s)"
    and put: "mlx5_requeue_srq_wqe (unat (c_wqe_counter c)) (so_srq s) (ps_mem st) = Inr (srq, m)"
  shows "\<exists>l w. poll_entry env False wc_size (Ring (next_addr (ps_q st) 0)) st (init_locals st) wc =
      Inr (Repoll, freed b s srq m ((advance 1 st)\<lparr>ps_srq := b, ps_rsc := r\<rparr>), l, w) \<and>
    l_is_srq l \<and> l_timestamp_en l = pc_timestamp (ps_cq st)"
proof -
  let ?loc = "Ring (next_addr (ps_q st) 0)" and ?st = "advance 1 st" and ?wc = "wc\<lparr>w_flags := {}\<rparr>"
  let ?st2 = "?st\<lparr>ps_srq := b, ps_rsc := r\<rparr>" and ?l = "(init_locals st)\<lparr>l_is_srq := True\<rparr>"
  have op: "is_responder (c_opcode c)" "c_opcode c = MLX5_CQE_RESP_ERR"
    using c(2) by (simp_all add: fault_cqe_def is_responder_def)
  have find: "find_owner env False c ?st (init_locals st) = Inr (True, ?st2, ?l)"
    by (rule find_owner_srq [OF _ op(1)]) (use named cur s in \<open>simp_all add: srq_named_def\<close>)
  have "ps_rsc ?st2 = 0 \<or> (\<exists>q. ps_objs ?st2 (ps_rsc ?st2) = Some (Qp_obj q))" using named by (auto simp: srq_named_def)
  from use_owner_srq [OF this, of ?l "pe_layout env" wc_size True ?wc] obtain l3 w3 where
    use: "use_owner (pe_layout env) wc_size False True ?st2 ?l ?wc = Inr (True, ?st2, l3, w3)" "l_is_srq l3"
      "l_timestamp_en l3 = pc_timestamp (ps_cq st)"
    by (auto simp: init_locals_def)
  obtain l4 w4 where n: "note_srq (pe_layout env) wc_size ?st2 l3 w3 = (l4, w4)" by fastforce
  have l4: "l_is_srq l4" "l_timestamp_en l4 = pc_timestamp (ps_cq st)"
    using n use(2,3) by (auto simp: note_srq_def split: if_splits)
  have at: "get_srq ?st2 b = Inr s" using s by (simp add: get_srq_ok)
  have "\<exists>w. poll_resp_err c ?st2 l4 x = Inr (Repoll, freed b s srq m ?st2, l4, w)" for x
    using c(2) put l4(1) s(1) at by (simp add: poll_resp_err_def fault_cqe_def freed_def)
  then have "\<exists>w. poll_switch env wc_size c ?loc ?st2 l4 x = Inr (Repoll, freed b s srq m ?st2, l4, w)" for x
    using op(2) c(2)
    by (simp add: poll_switch_def poll_err_def fault_cqe_def is_reported_def Let_def MLX5_CQE_RESP_ERR_def MLX5_CQE_REQ_def
        MLX5_CQE_RESP_SEND_def MLX5_CQE_RESP_WR_IMM_def MLX5_CQE_RESP_SEND_IMM_def MLX5_CQE_RESP_SEND_INV_def
        MLX5_CQE_NO_PACKET_def MLX5_CQE_REQ_ERR_def)
  then obtain w where "poll_switch env wc_size c ?loc ?st2 l4 (w4\<lparr>w_qp_num := c_sop_qpn c AND 0xffffff\<rparr>) =
      Inr (Repoll, freed b s srq m ?st2, l4, w)" by blast
  then have "poll_owned env False wc_size c ?loc ?st (init_locals st) ?wc = Inr (Repoll, freed b s srq m ?st2, l4, w)"
    using find use(1) op(1) n by (simp add: poll_owned_def poll_served_def Let_def)
  moreover have "cqe_at st ?loc = Inr c" using cqe_at_next [OF ring] c(1) by simp
  moreover have "set_q ((ps_q st)\<lparr>cq_cons := cq_cons (ps_q st) + 1\<rparr>) st = ?st" by (simp add: advance_def)
  ultimately show ?thesis using l4 op c(2) by (simp add: poll_entry_def poll_fetched_def fault_cqe_def Let_def)
qed

text \<open>The next entry then is read with \<open>is_srq\<close> still set.\<close>

lemma poll_one_repolled:
  assumes ring: "poll_ring st" and cur: "ps_rsc st = 0" "ps_srq st = 0" "cursor_ok env False (st\<lparr>ps_rsc := r\<rparr>)"
    and room: "room_for_time env wc_size st" and apart: "ring_apart (ps_q st) (so_srq s)"
    and c1: "c1 = next_proper st 0" "fault_cqe c1" "sw_owned (ps_q st) (unat (cq_cons (ps_q st))) c1"
    and named: "srq_named env st c1 b r" and s: "b \<noteq> 0" "ps_objs st b = Some (Srq_obj s)" "strides_per_wqe s = 0"
    and ok: "srq_ok (so_srq s) (ps_mem st) xs"
    and i1: "i1 = unat (c_wqe_counter c1)" "i1 < srq_max (so_srq s)" "i1 \<notin> set xs"
    and c2: "c2 = next_proper st 1" "message_cqe c2" "c_srqn_uidx c2 AND 0xffffff = 0"
      "sw_owned (ps_q st) (unat (cq_cons (ps_q st)) + 1) c2"
    and own: "owned_by env False (ps_objs st) c2 a q"
    and i2: "i2 = unat (c_wqe_counter c2)" "i2 < srq_max (so_srq s)" "i2 \<notin> set (tl (xs @ [i1]))"
  shows "\<exists>st' w s'. mlx5_poll_one (Suc (Suc f)) env False wc_size st wc = Some (Inr (CQ_OK, st', w)) \<and>
    w_wr_id w = srq_wrid (so_srq s') ! i2 \<and> ps_objs st' a = Some (Qp_obj q) \<and> ps_objs st' b = Some (Srq_obj s') \<and>
    srq_wrid (so_srq s') = (srq_wrid (so_srq s))[hd xs := srq_wrid (so_srq s) ! i1] \<and>
    srq_ok (so_srq s') (ps_mem st') (tl (xs @ [i1]) @ [i2]) \<and>
    ps_q st' = (ps_q st)\<lparr>cq_cons := cq_cons (ps_q st) + 2\<rparr>"
proof -
  let ?srq = "(so_srq s)\<lparr>srq_wrid := (srq_wrid (so_srq s))[hd xs := srq_wrid (so_srq s) ! i1], srq_tail := i1,
    srq_head := hd (tl (xs @ [i1])), srq_counter := srq_counter (so_srq s) + 1\<rparr>"
  obtain m1 where m1: "mlx5_requeue_srq_wqe i1 (so_srq s) (ps_mem st) = Inr (?srq, m1)"
    "srq_ok ?srq m1 (tl (xs @ [i1]))" "\<And>x. srq_apart (so_srq s) x \<Longrightarrow> m1 x = ps_mem st x"
    using requeue_frame [OF ok i1(2,3)] by blast
  let ?s1 = "s\<lparr>so_srq := ?srq\<rparr>" and ?st1 = "freed b s ?srq m1 ((advance 1 st)\<lparr>ps_srq := b, ps_rsc := r\<rparr>)"
  obtain l w1 where first: "poll_entry env False wc_size (Ring (next_addr (ps_q st) 0)) st (init_locals st) wc =
      Inr (Repoll, ?st1, l, w1)" "l_is_srq l" "l_timestamp_en l = pc_timestamp (ps_cq st)"
    using poll_entry_fault [OF ring c1(1,2) cur(1,2) named s(1,2) m1(1) [unfolded i1(1)], of wc_size wc] unfolding i1(1) by blast
  have cq: "cq_ring (ps_q st) (ps_mem st)" using ring by (simp add: poll_ring_def)
  have "m1 x = ps_mem st x" if "cq_buf (ps_q st) \<le> x" "x < ring_end (ps_q st)" for x
    using apart that m1(3) by (simp add: ring_apart_def)
  note kept = ring_kept [OF cq this]
  have ring1: "poll_ring ?st1" using kept(1) ring by (simp add: poll_ring_def cq_ring_def ring_len_def)
  let ?stm = "st\<lparr>ps_mem := m1\<rparr>"
  have q1: "ps_q ?st1 = (ps_q ?stm)\<lparr>cq_cons := cq_cons (ps_q ?stm) + of_nat 1\<rparr>" by simp
  have cqm: "cq_ring (ps_q ?stm) (ps_mem ?stm)" using kept(1) by simp
  note adv = next_proper_advanced [OF cqm _ q1, of 0, simplified]
  have "next_proper ?stm 1 = next_proper st 1" using kept(2) by (simp add: next_proper_def)
  then have next2: "c2 = next_proper ?st1 0" "sw_owned (ps_q ?st1) (unat (cq_cons (ps_q ?st1))) c2"
    using adv c2(1,4) by simp_all
  have ab: "a \<noteq> b" "a \<noteq> 0" "ps_objs st a = Some (Qp_obj q)" using own s(2) by (auto simp: owned_by_def)
  have own1: "owned_by env False (ps_objs ?st1) c2 a q" using own ab by (simp add: owned_by_def)
  have "r \<noteq> b \<or> r = 0" using named s by (auto simp: srq_named_def)
  then have cur1: "cursor_ok env False ?st1" using cur(3) by (auto simp: cursor_ok_def)
  have len: "length (srq_wrid (so_srq s)) = srq_max (so_srq s)" using ok by (simp add: srq_ok_def srq_geom_def)
  have at: "srq_at ?st1 b ?s1 c2" using s i2(1,2) len by (simp add: srq_at_def)
  obtain m2 where m2: "mlx5_free_srq_wqe i2 ?srq m1 = Inr (?srq\<lparr>srq_tail := i2\<rparr>, m2)"
    "srq_ok (?srq\<lparr>srq_tail := i2\<rparr>) m2 (tl (xs @ [i1]) @ [i2])"
    using mlx5_free_srq_wqe_ok [OF m1(2) _ i2(3)] i2(2) by auto
  have "\<exists>l' w. poll_entry env False wc_size (Ring (next_addr (ps_q ?st1) 0)) ?st1 l w1 =
      Inr (Return CQ_OK, freed b ?s1 (?srq\<lparr>srq_tail := i2\<rparr>) m2 ((advance 1 ?st1)\<lparr>ps_rsc := a\<rparr>), l', w) \<and> reports_srq c2 ?s1 w"
    by (rule poll_fetched_stale [OF ring1 next2(1) c2(2,3) own1 cur1 first(2) _ _ at])
      (use first(3) room m2(1) i2(1) in \<open>simp_all add: room_for_time_def\<close>)
  then obtain l' w where second: "poll_entry env False wc_size (Ring (next_addr (ps_q ?st1) 0)) ?st1 l w1 =
      Inr (Return CQ_OK, freed b ?s1 (?srq\<lparr>srq_tail := i2\<rparr>) m2 ((advance 1 ?st1)\<lparr>ps_rsc := a\<rparr>), l', w)" "reports_srq c2 ?s1 w"
    by blast
  let ?st2 = "freed b ?s1 (?srq\<lparr>srq_tail := i2\<rparr>) m2 ((advance 1 ?st1)\<lparr>ps_rsc := a\<rparr>)"
  have "poll_again (Suc f) env False wc_size ?st1 l w1 = Some (Inr (CQ_OK, ?st2, w))"
    using next_cqe [OF ring1, of "Suc f"] next2 second(1) by simp
  then have "mlx5_poll_one (Suc (Suc f)) env False wc_size st wc = Some (Inr (CQ_OK, ?st2, w))"
    using next_cqe [OF ring, of "Suc (Suc f)"] c1(1,3) first(1) by (simp add: mlx5_poll_one_def)
  then show ?thesis using second(2) m2(2) ab i2(1)
    by (intro exI [of _ ?st2] exI [of _ w] exI [of _ "?s1\<lparr>so_srq := ?srq\<lparr>srq_tail := i2\<rparr>\<rparr>"])
      (simp add: reports_srq_def)
qed

end
