(* ===== verification/Poll_Samples.thy ===== *)
theory Poll_Samples
  imports Poll_Typing Poll_Family Poll_Srq Cq_Samples Qp_Samples
begin

text \<open>
  A queue pair, number 5, whose completion queue holds the completion of a send, of a receive, and a
  third entry of choice: the instances on which the properties of polling are tried.
\<close>

definition polled_qp :: mlx5_qp where
  "polled_qp = sample_rq_qp\<lparr>q_rq := sample_rq\<lparr>wq_wrid := [11, 12, 13, 14], wq_head := 2\<rparr>\<rparr>"

definition qp_at_20480 :: "nat \<Rightarrow> rsc_obj option" where
  "qp_at_20480 = (\<lambda>a. if a = 20480 then Some (Qp_obj polled_qp) else None)"

text \<open>The table of queue pairs has the object under number \<open>n\<close>; the others are empty.\<close>

definition env_of :: "u32 \<Rightarrow> nat \<Rightarrow> poll_env" where
  "env_of n a = \<lparr>pe_tables = \<lparr>rsc_table = (\<lambda>i. if i = 0 then \<lparr>sub_table = Some (\<lambda>j. if j = unat n then a else 0), refcnt = 1\<rparr>
       else \<lparr>sub_table = None, refcnt = 0\<rparr>),
     srq_table = (\<lambda>_. \<lparr>sub_table = None, refcnt = 0\<rparr>), uidx_table = (\<lambda>_. \<lparr>sub_table = None, refcnt = 0\<rparr>)\<rparr>,
     pe_version = 0, pe_layout = \<lparr>off_wc_timestamp = 48, off_wc_qp = 56, off_wc_srq = 64, off_wc_dct = 72, off_wc_mp_wr = 80,
       off_wc_tm_info = 88, off_wc_exp_flags = 104, off_tmh_app_ctx = 0, off_tmh_tag = 8\<rparr>,
     pe_freeze = False, stall_cq_dec_step = 0, stall_cq_inc_step = 0, stall_cq_poll_min = 0, stall_cq_poll_max = 0\<rparr>"

definition poll_entries :: "u8 list \<Rightarrow> u8 list \<Rightarrow> u8 list \<Rightarrow> (nat \<Rightarrow> rsc_obj option) \<Rightarrow> poll_state" where
  "poll_entries e0 e1 e2 objs = \<lparr>ps_cq = \<lparr>pc_q = sample_cq, pc_timestamp = False, compressed_req = False, compressed_rsc = 0,
       pc_peer = None, stall_enable = False, stall_adaptive_enable = False, stall_next_poll = False, stall_last_count = 0,
       stall_cycles = 0\<rparr>,
     ps_objs = objs, ps_mem = cq_memory e0 e1 e2 (cqe_bytes 0 0xF0), ps_rsc = 0, ps_srq = 0\<rparr>"

abbreviation poll_sample :: "u8 list \<Rightarrow> (nat \<Rightarrow> rsc_obj option) \<Rightarrow> poll_state" where
  "poll_sample \<equiv> poll_entries (cqe_bytes 5 0) (cqe_bytes 5 0x20)"

definition some_wc :: exp_wc where
  "some_wc = \<lparr>w_wr_id = 0, w_status = IBV_WC_GENERAL_ERR, w_opcode = IBV_WC_SEND, w_vendor_err = 0, w_byte_len = 0, w_imm_data = 0,
     w_qp_num = 0, w_src_qp = 0, w_flags = {}, w_pkey_index = 0, w_slid = 0, w_sl = 0, w_dlid_path_bits = 0, w_timestamp = 0,
     w_qp = 0, w_srq = 0, w_dct = 0, w_exp_flags = {}, w_mp_strides_offset = 0, w_mp_byte_len = 0, w_tm_tag = 0, w_tm_priv = 0\<rparr>"

abbreviation sent_and_received :: "cqe64 list" where
  "sent_and_received \<equiv> [cqe_bytes 5 0, cqe_bytes 5 0x20]"

lemma poll_entries_fields [simp]:
  "ps_q (poll_entries e0 e1 e2 objs) = sample_cq" "ps_objs (poll_entries e0 e1 e2 objs) = objs"
  "ps_mem (poll_entries e0 e1 e2 objs) = cq_memory e0 e1 e2 (cqe_bytes 0 0xF0)"
  "ps_srq (poll_entries e0 e1 e2 objs) = 0" "ps_rsc (poll_entries e0 e1 e2 objs) = 0" "room_for_time env w (poll_entries e0 e1 e2 objs)"
  by (simp_all add: poll_entries_def room_for_time_def)

lemma sample_poll_ring [simp]: "poll_ring (poll_entries e0 e1 e2 objs)"
  using sample_ring by (simp add: poll_ring_def poll_entries_def)

lemma sample_next:
  assumes "length e0 = 64" "length e1 = 64" "length e2 = 64"
  shows "next_proper (poll_entries e0 e1 e2 objs) 0 = e0" "next_proper (poll_entries e0 e1 e2 objs) (Suc 0) = e1"
    "next_proper (poll_entries e0 e1 e2 objs) (Suc (Suc 0)) = e2"
  using sample_entry [OF assms, of "cqe_bytes 0 0xF0"] assms
  by (simp_all add: next_proper_def proper_def numeral_2_eq_2 [symmetric])

lemma sample_owned: "n < 4 \<Longrightarrow> sw_owned sample_cq n c \<longleftrightarrow> c_opcode c \<noteq> MLX5_CQE_INVALID \<and> b8 c 63 AND 1 = 0"
  by (simp add: sw_owned_def odd_pass_def)

lemma zero_order: "ntohl 0 = 0" "ntohs 0 = 0"
  by code_simp+

lemma cqe_bytes_fields [simp]:
  "b8 (cqe_bytes n b) 63 = b" "b8 (cqe_bytes n b) 40 = 0" "c_srqn_uidx (cqe_bytes n b) = 0" "c_wqe_counter (cqe_bytes n b) = 0"
  "c_opcode (cqe_bytes n b) = drop_bit 4 b" "c_format (cqe_bytes n b) = drop_bit 2 (b AND 0xc)"
  by (simp_all add: b8_def cqe_bytes_def c_srqn_uidx_def c_wqe_counter_def c_opcode_def c_format_def b32_def b16_def
      zero_order eval_nat_numeral)

lemma sample_cqe_number [simp]: "c_sop_qpn (cqe_bytes 5 b) = 5"
proof -
  have "take 4 (drop 56 (cqe_bytes 5 b)) = [0, 0, 0, 5]" by (simp add: cqe_bytes_def eval_nat_numeral)
  then have "c_sop_qpn (cqe_bytes 5 b) = ntohl (of_le32 [0, 0, 0, 5])" by (simp only: c_sop_qpn_def b32_def)
  also have "\<dots> = of_le32 [5, 0, 0, 0]" by (simp only: ntohl_def le32_of_le32_4) simp
  finally show ?thesis by simp
qed

lemma sample_env_find: "mlx5_find_rsc (pe_tables (env_of 5 a)) 5 = Inr a"
  by (simp add: env_of_def mlx5_find_rsc_def table_find_def sub_at_def slot_at_def qp_tind_def qp_slot_def
      MLX5_QP_TABLE_SIZE_def MLX5_QP_TABLE_SHIFT_def MLX5_QP_TABLE_MASK_def)

lemma sample_key: "key_of False (cqe_bytes 5 b) = 5"
  by (simp add: key_of_def)

lemma polled_qp_arrays: "qp_arrays polled_qp"
proof -
  have "\<exists>k < 32. (4 :: nat) = 2 ^ k" "\<exists>k \<le> 16. (4 :: nat) = 2 ^ k" by (rule exI [of _ 2], simp)+
  then show ?thesis by (simp add: qp_arrays_def polled_qp_def sample_sq_def rq_len_def)
qed

lemma sample_plain_run: "plain_run (env_of 5 20480) False qp_at_20480 sent_and_received"
  using polled_qp_arrays
  by (simp add: plain_run_def plain_cqe_def owned_by_def table_lookup_def sample_key sample_env_find qp_at_20480_def
      MLX5_CQE_REQ_def MLX5_CQE_RESP_SEND_def) (simp add: polled_qp_def)

lemma sample_next_run: "length e = 64 \<Longrightarrow> next_run (poll_sample e objs) sent_and_received"
  by (auto simp: next_run_def sample_next sample_owned less_Suc_eq MLX5_CQE_INVALID_def)

lemma sample_retired:
  "fst (retire_all (env_of 5 20480) False sent_and_received qp_at_20480) = [70, 11]"
  by (simp add: table_lookup_def sample_key sample_env_find qp_at_20480_def retire_def send_index_def polled_qp_def sample_sq_def
      MLX5_CQE_REQ_def rq_len_def Let_def)

section \<open>A shared receive queue\<close>

text \<open>Four entries, of which entry 1 is free, with the object at 28672 and the number 5.\<close>

definition polled_srq :: srq_object where
  "polled_srq = \<lparr>so_rsn = 5, so_type = RSC_SRQ,
     so_srq = \<lparr>srq_buf = 24576, srq_wrid = [90, 91, 92, 93], srq_srqn = 5, srq_max = 4, srq_max_gs = 1, srq_wqe_shift = 5,
       srq_head = 1, srq_tail = 1, srq_db = 8456, srq_counter = 3, srq_wq_sig = False\<rparr>,
     strides_per_wqe = 0, consumed_strides = [], cmd_qp = 0, tm_list = [], tm_head = 0, tm_tail = 0, srq_ops = [],
     op_head = 0, op_tail = 0, unexp_in = 0, unexp_out = 0\<rparr>"

definition srq_env :: poll_env where
  "srq_env = (env_of 5 20480)\<lparr>pe_tables := (pe_tables (env_of 5 20480))\<lparr>srq_table :=
     (\<lambda>i. if i = 0 then \<lparr>sub_table = Some (\<lambda>j. if j = 5 then 28672 else 0), refcnt = 1\<rparr> else \<lparr>sub_table = None, refcnt = 0\<rparr>)\<rparr>\<rparr>"

definition srq_and_qp :: "nat \<Rightarrow> rsc_obj option" where
  "srq_and_qp = qp_at_20480(28672 \<mapsto> Srq_obj polled_srq)"

text \<open>A message in entry 0 of queue 5, without a queue pair.\<close>

definition srq_cqe :: cqe64 where
  "srq_cqe = replicate 35 0 @ [5] @ replicate 27 0 @ [0x20]"

lemma srq_cqe_last [simp]: "length srq_cqe = 64" "b8 srq_cqe 63 = 0x20"
  by (simp_all add: b8_def srq_cqe_def eval_nat_numeral)

lemma srq_cqe_fields [simp]:
  "b8 srq_cqe 40 = 0" "c_wqe_counter srq_cqe = 0" "c_sop_qpn srq_cqe = 0"
  "c_opcode srq_cqe = MLX5_CQE_RESP_SEND" "c_format srq_cqe = 0"
proof -
  have "take 4 (drop 56 srq_cqe) = [0, 0, 0, 0]" "take 2 (drop 60 srq_cqe) = [0, 0]" "hd (drop 40 srq_cqe) = 0"
    by (simp_all add: srq_cqe_def eval_nat_numeral)
  then show "b8 srq_cqe 40 = 0" "c_wqe_counter srq_cqe = 0" "c_sop_qpn srq_cqe = 0"
    by (simp_all add: b8_def b32_def b16_def c_wqe_counter_def c_sop_qpn_def zero_order)
qed (simp_all add: c_opcode_def c_format_def MLX5_CQE_RESP_SEND_def)

lemma srq_cqe_number [simp]: "c_srqn_uidx srq_cqe = 5"
proof -
  have "take 4 (drop 32 srq_cqe) = [0, 0, 0, 5]" by (simp add: srq_cqe_def eval_nat_numeral)
  then have "c_srqn_uidx srq_cqe = ntohl (of_le32 [0, 0, 0, 5])" by (simp only: c_srqn_uidx_def b32_def)
  also have "\<dots> = of_le32 [5, 0, 0, 0]" by (simp only: ntohl_def le32_of_le32_4) simp
  finally show ?thesis by simp
qed

lemma srq_env_finds:
  "mlx5_find_srq (pe_tables srq_env) 5 = Inr 28672" "mlx5_find_rsc (pe_tables srq_env) 0 = Inr 0"
  "mlx5_find_rsc (pe_tables srq_env) 5 = Inr 20480"
  by (simp_all add: srq_env_def env_of_def mlx5_find_srq_def mlx5_find_rsc_def table_find_def sub_at_def slot_at_def qp_tind_def
      qp_slot_def srq_tind_def srq_slot_def MLX5_QP_TABLE_SIZE_def MLX5_QP_TABLE_SHIFT_def MLX5_QP_TABLE_MASK_def
      MLX5_SRQ_TABLE_SHIFT_def MLX5_SRQ_TABLE_MASK_def)

lemma polled_srq_ok: "srq_ok (so_srq polled_srq) (cq_memory e0 e1 e2 e3) [1]"
  by (simp add: srq_ok_def srq_geom_def polled_srq_def cq_memory_mapped)

end
