(* ===== verification/Poll_Props.thy ===== *)
theory Poll_Props
  imports Poll_Samples Poll_Srq
begin

text \<open>
  What polling a completion queue of the driver guarantees, each with an instance on the sample queue:
  the completion of a send, of a receive, and a third entry.
\<close>

section \<open>Types\<close>

text \<open>C7: polling casts no object to a wrong type and keeps all types. Objects are found through tables of
  plain pointers and cast. When every pointer that an object keeps, and every entry of the table of
  shared receive queues, is null, dangling or of its type, then no call of \<open>poll_cq\<close> takes an object for
  one of another type, whatever the completion queue and the memory hold, errors, tag matching,
  compressed sessions and repolls included; and when it returns, every object has the type, the number
  and the pointers that it had, so that the premise holds for the next call.\<close>

theorem polling_keeps_types:
  assumes "typed_objects env (shapes st)"
  shows "case drv_poll_cq fuel clock env v wc_size ne st wcs of
      None \<Rightarrow> True
    | Some (Inl e) \<Rightarrow> e \<noteq> Fault WrongType
    | Some (Inr (n, st', wcs')) \<Rightarrow> shapes st' = shapes st \<and> typed_objects env (shapes st')"
  using drv_poll_cq_yields [OF assms, of fuel clock v wc_size ne wcs] assms
  by (auto simp: yields_some_def yields_def split: option.splits sum.splits)

theorem polling_keeps_types_witness:
  "case drv_poll_cq 1 0 (env_of 5 20480) False 112 3 (poll_sample (cqe_bytes 0 0xF0) qp_at_20480) [some_wc, some_wc, some_wc] of
      None \<Rightarrow> True
    | Some (Inl e) \<Rightarrow> e \<noteq> Fault WrongType
    | Some (Inr (n, st', wcs')) \<Rightarrow> shapes st' 20480 = Some (Qp_shape 5 0)"
proof -
  have sh: "shapes (poll_sample (cqe_bytes 0 0xF0) qp_at_20480) = (\<lambda>a. if a = 20480 then Some (Qp_shape 5 0) else None)"
    by (simp add: shapes_def qp_at_20480_def polled_qp_def fun_eq_iff)
  have "a = 0" if "mlx5_find_srq (pe_tables (env_of 5 20480)) n = Inr a" for n a
    using that by (simp add: env_of_def mlx5_find_srq_def table_find_def sub_at_def split: if_splits)
  then have "srq_ptr T a" if "mlx5_find_srq (pe_tables (env_of 5 20480)) n = Inr a" for T n a
    using that by (metis null_ptrs(2))
  then have typed: "typed_objects (env_of 5 20480) (shapes (poll_sample (cqe_bytes 0 0xF0) qp_at_20480))"
    unfolding typed_objects_def sh by auto
  show ?thesis using polling_keeps_types [OF typed, of 1 0 False 112 3 "[some_wc, some_wc, some_wc]"]
    unfolding sh by (auto split: option.splits sum.splits)
qed

section \<open>Completions in the order of the ring\<close>

text \<open>C8: \<open>poll_cq\<close> retires the requests of its entries one by one. The ring holds the entries \<open>cs\<close> from the
  consumer counter on, each of a finished send or of a message in the own receive queue of a queue pair
  of the table, and behind them nothing, or there are as many as were asked for. Then \<open>poll_cq\<close> returns
  their number; completion \<open>i\<close> reports entry \<open>i\<close> with the identifier that the abstract steps give it; the
  objects are those after the steps; the counter is past the entries, and its doorbell record says so.\<close>

theorem poll_cq_retires_in_order:
  assumes "poll_ring st" and "plain_run env v (ps_objs st) cs" and "next_run st cs"
    and "room_for_time env wc_size st" and "int (length cs) \<le> ne" and "ne \<le> int (length wcs)"
    and "mapped (ps_mem st) (cq_dbrec (ps_q st)) 4" and "int (length cs) < ne \<longrightarrow> nothing_at st (length cs)"
  shows "\<exists>st' wcs'. drv_poll_cq (Suc f) clock env v wc_size ne st wcs = Some (Inr (int (length cs), st', wcs')) \<and>
    ps_objs st' = snd (retire_all env v cs (ps_objs st)) \<and>
    (\<forall>i < length cs. reports (cs ! i) (fst (retire_all env v cs (ps_objs st)) ! i) (wcs' ! i)) \<and>
    cq_cons (ps_q st') = cq_cons (ps_q st) + of_nat (length cs) \<and>
    ps_mem st' = upd_bytes (cq_dbrec (ps_q st)) (be32 (cq_cons (ps_q st') AND 0xffffff)) (ps_mem st)"
  using drv_poll_cq_done [OF assms, of f clock] by fastforce

text \<open>What the sample's two entries report.\<close>

lemma sample_reports:
  assumes "\<forall>i < length sent_and_received. reports (sent_and_received ! i)
    (fst (retire_all (env_of 5 20480) False sent_and_received qp_at_20480) ! i) (wcs ! i)"
  shows "w_wr_id (wcs ! 0) = 70 \<and> w_wr_id (wcs ! 1) = 11"
  using assms [rule_format, of 0] assms [rule_format, of 1] unfolding sample_retired by (simp add: reports_def)

theorem poll_cq_retires_in_order_witness:
  "\<exists>st' wcs'. drv_poll_cq 1 0 (env_of 5 20480) False 112 3 (poll_sample (cqe_bytes 0 0xF0) qp_at_20480) [some_wc, some_wc, some_wc] =
      Some (Inr (2, st', wcs')) \<and> w_wr_id (wcs' ! 0) = 70 \<and> w_wr_id (wcs' ! 1) = 11"
proof -
  let ?st = "poll_sample (cqe_bytes 0 0xF0) qp_at_20480"
  have "nothing_at ?st (length sent_and_received)"
    by (simp add: nothing_at_def sample_next sample_owned MLX5_CQE_INVALID_def)
  then show ?thesis
    using poll_cq_retires_in_order [of ?st "env_of 5 20480" False sent_and_received 112 3 "[some_wc, some_wc, some_wc]" 0 0]
      sample_plain_run sample_next_run [of "cqe_bytes 0 0xF0" qp_at_20480] sample_reports
    by (auto simp: cq_memory_mapped simp del: retire_all.simps)
qed

text \<open>C10: an error hides the completions before it. With a stray entry behind \<open>cs\<close>, one that neither a
  requestor nor a responder reports, \<open>poll_cq\<close> returns -2 in place of the number, although it has retired
  the requests of \<open>cs\<close>, filled in their completions and moved the counter past them and the stray: the
  caller cannot learn how many completions there are, and they are not reported again.\<close>

theorem poll_cq_error_discards:
  assumes "poll_ring st" and "plain_run env v (ps_objs st) cs" and "next_run st cs"
    and "room_for_time env wc_size st" and "int (length cs) < ne" and "ne \<le> int (length wcs)"
    and "mapped (ps_mem st) (cq_dbrec (ps_q st)) 4" and "stray_at st (length cs)"
  shows "\<exists>st' wcs'. drv_poll_cq (Suc f) clock env v wc_size ne st wcs = Some (Inr (-2, st', wcs')) \<and>
    ps_objs st' = snd (retire_all env v cs (ps_objs st)) \<and>
    (\<forall>i < length cs. reports (cs ! i) (fst (retire_all env v cs (ps_objs st)) ! i) (wcs' ! i)) \<and>
    cq_cons (ps_q st') = cq_cons (ps_q st) + of_nat (length cs + 1)"
  using drv_poll_cq_run [OF assms(1-4) _ assms(6,7), of CQ_POLL_ERR 1 f clock] assms(5,8) by auto

theorem poll_cq_error_discards_witness:
  "\<exists>st' wcs'. drv_poll_cq 1 0 (env_of 5 20480) False 112 3 (poll_sample (cqe_bytes 0 0x50) qp_at_20480) [some_wc, some_wc, some_wc] =
      Some (Inr (-2, st', wcs')) \<and> w_wr_id (wcs' ! 0) = 70 \<and> w_wr_id (wcs' ! 1) = 11 \<and> cq_cons (ps_q st') = 3"
proof -
  let ?st = "poll_sample (cqe_bytes 0 0x50) qp_at_20480"
  have "stray_at ?st (length sent_and_received)"
    by (simp add: stray_at_def sample_next sample_owned Let_def) code_simp
  then show ?thesis
    using poll_cq_error_discards [of ?st "env_of 5 20480" False sent_and_received 112 3 "[some_wc, some_wc, some_wc]" 0 0]
      sample_plain_run sample_next_run [of "cqe_bytes 0 0x50" qp_at_20480] sample_reports
    by (auto simp: cq_memory_mapped simp del: retire_all.simps)
qed

section \<open>The counting poll\<close>

text \<open>C13: \<open>poll_cnt\<close> does what \<open>poll_cq\<close> does. On the same entries, at least one, counting and polling return
  the same number and leave the same queue, objects and memory; only the reports are missing.\<close>

theorem poll_cnt_agrees_with_poll_cq:
  assumes "poll_ring st" and "plain_run env v (ps_objs st) cs" and "next_run st cs" and "cs \<noteq> []"
    and "room_for_time env wc_size st" and "length cs \<le> unat mx" and "unat mx \<le> length wcs"
    and "mapped (ps_mem st) (cq_dbrec (ps_q st)) 4" and "length cs < unat mx \<longrightarrow> nothing_at st (length cs)"
  shows "\<exists>st1 st2 wcs'. poll_cnt fuel env v (cq_sz (ps_q st)) mx st = Some (Inr (int (length cs), st1)) \<and>
    drv_poll_cq (Suc f) clock env v wc_size (int (unat mx)) st wcs = Some (Inr (int (length cs), st2, wcs')) \<and>
    ps_q st1 = ps_q st2 \<and> ps_objs st1 = ps_objs st2 \<and> ps_mem st1 = ps_mem st2"
proof -
  obtain st1 where 1: "poll_cnt fuel env v (cq_sz (ps_q st)) mx st = Some (Inr (int (length cs), st1))"
    "ps_q st1 = (ps_q st)\<lparr>cq_cons := cq_cons (ps_q st) + of_nat (length cs)\<rparr>"
    "ps_objs st1 = snd (retire_all env v cs (ps_objs st))"
    "ps_mem st1 = upd_bytes (cq_dbrec (ps_q st)) (be32 (cq_cons (ps_q st1) AND 0xffffff)) (ps_mem st)"
    using poll_cnt_run [OF assms(1-4) assms(8,6,9)] by blast
  have n: "int (length cs) \<le> int (unat mx)" "int (unat mx) \<le> int (length wcs)" using assms(6,7) by (simp_all only: of_nat_le_iff)
  have "int (length cs) < int (unat mx) \<longrightarrow> nothing_at st (length cs)" using assms(9) by (simp only: of_nat_less_iff)
  from drv_poll_cq_done [OF assms(1-3,5) n assms(8) this, of f clock] 1 show ?thesis by auto
qed

theorem poll_cnt_agrees_with_poll_cq_witness:
  "\<exists>st1 st2 wcs'. poll_cnt 1 (env_of 5 20480) False 64 2 (poll_sample (cqe_bytes 0 0xF0) qp_at_20480) = Some (Inr (2, st1)) \<and>
    drv_poll_cq 1 0 (env_of 5 20480) False 112 2 (poll_sample (cqe_bytes 0 0xF0) qp_at_20480) [some_wc, some_wc] =
      Some (Inr (2, st2, wcs')) \<and> ps_objs st1 = ps_objs st2"
  using poll_cnt_agrees_with_poll_cq [of "poll_sample (cqe_bytes 0 0xF0) qp_at_20480" "env_of 5 20480" False sent_and_received
      112 2 "[some_wc, some_wc]" 1 0 0] sample_plain_run sample_next_run [of "cqe_bytes 0 0xF0" qp_at_20480]
  by (auto simp: cq_memory_mapped simp del: retire_all.simps)

section \<open>From posting to polling\<close>

text \<open>C9: receives complete in the order of their posting. After a list of requests was posted on a queue
  pair, and while the memory stays in place, a poll that finds as many messages for this queue pair as
  \<open>cs\<close> has, at most those outstanding, reports the identifiers that were outstanding first: those from
  before, then the new ones in their order; the others stay outstanding.\<close>

theorem posted_receives_complete_in_order:
  assumes "rq_ok qp m" and "\<forall>wr \<in> set wrs. plain_recv wr" and "\<not> q_ignore_rq_overflow qp"
    and "rq_admitted (wq_max_gs (q_rq qp)) (unat (wq_max_post (q_rq qp))) (outstanding (q_rq qp)) wrs = (k, err)"
    and "mlx5_post_recv ienv wrs qp pd m = Inr (err, rest, qp', pd', m')"
    and "ps_objs st a = Some (Qp_obj qp')" and "dom m' \<subseteq> dom (ps_mem st)"
    and "poll_ring st" and "plain_run env v (ps_objs st) cs" and "next_run st cs"
    and "\<forall>c \<in> set cs. c_opcode c = MLX5_CQE_RESP_SEND \<and> table_lookup env v (key_of v c) = Inr a"
    and "length cs \<le> outstanding (q_rq qp')"
    and "room_for_time env wc_size st" and "int (length cs) \<le> ne" and "ne \<le> int (length wcs)"
    and "mapped (ps_mem st) (cq_dbrec (ps_q st)) 4" and "int (length cs) < ne \<longrightarrow> nothing_at st (length cs)"
  shows "\<exists>st' wcs' qp''. drv_poll_cq (Suc f) clock env v wc_size ne st wcs = Some (Inr (int (length cs), st', wcs')) \<and>
    (\<forall>i < length cs. w_wr_id (wcs' ! i) = (pending (q_rq qp) @ map rwr_id (take k wrs)) ! i) \<and>
    ps_objs st' a = Some (Qp_obj qp'') \<and>
    pending (q_rq qp'') = drop (length cs) (pending (q_rq qp) @ map rwr_id (take k wrs))"
proof -
  have post: "rq_ok qp' m'" "pending (q_rq qp') = pending (q_rq qp) @ map rwr_id (take k wrs)"
    using mlx5_post_recv_ok [OF assms(1-4), of ienv pd] assms(5) by auto
  have "mapped (ps_mem st) b n" if "mapped m' b n" for b n using that assms(7) by (auto simp: mapped_iff domIff subset_eq)
  then have ok: "rq_ok qp' (ps_mem st)" using post(1) by (auto simp: rq_ok_def rq_geom_def Let_def)
  obtain qp'' where all: "retire_all env v cs (ps_objs st) =
      (take (length cs) (pending (q_rq qp')), (ps_objs st)(a \<mapsto> Qp_obj qp''))"
    "pending (q_rq qp'') = drop (length cs) (pending (q_rq qp'))"
    using retire_recvs [of qp' "ps_mem st" "ps_objs st" a cs env v, OF ok assms(6,12,11)] by blast
  obtain st' wcs' where p: "drv_poll_cq (Suc f) clock env v wc_size ne st wcs = Some (Inr (int (length cs), st', wcs'))"
    "ps_objs st' = (ps_objs st)(a \<mapsto> Qp_obj qp'')"
    "\<forall>i < length cs. reports (cs ! i) (take (length cs) (pending (q_rq qp')) ! i) (wcs' ! i)"
    using drv_poll_cq_done [OF assms(8-10,13-17), of f clock] all(1) by auto
  have "\<forall>i < length cs. w_wr_id (wcs' ! i) = pending (q_rq qp') ! i" using p(3) by (simp add: reports_def)
  then show ?thesis using p(1,2) all(2) post(2) by (intro exI [of _ st'] exI [of _ wcs'] exI [of _ qp'']) simp
qed

theorem posted_receives_complete_in_order_witness:
  "\<exists>qp' m' st' wcs'. mlx5_post_recv no_regions (map sample_request [21, 22]) sample_rq_qp sample_pd zero_memory = Inr (0, [], qp', sample_pd, m') \<and>
    drv_poll_cq 1 0 (env_of 5 20480) False 112 3
      (poll_entries (cqe_bytes 5 0x20) (cqe_bytes 0 0xF0) (cqe_bytes 0 0xF0) (\<lambda>a. if a = 20480 then Some (Qp_obj qp') else None))
      [some_wc, some_wc, some_wc] = Some (Inr (1, st', wcs')) \<and> w_wr_id (wcs' ! 0) = 21"
proof -
  have ok: "rq_ok sample_rq_qp zero_memory" by (rule sample_rq_ok) simp_all
  have adm: "rq_admitted (wq_max_gs (q_rq sample_rq_qp)) (unat (wq_max_post (q_rq sample_rq_qp))) (outstanding (q_rq sample_rq_qp))
      (map sample_request [21, 22]) = (2, 0)" by simp
  have plain: "\<forall>wr \<in> set (map sample_request [21, 22]). plain_recv wr" by simp
  obtain qp' m' ids where post: "mlx5_post_recv no_regions (map sample_request [21, 22]) sample_rq_qp sample_pd zero_memory = Inr (0, [], qp', sample_pd, m')"
    "rq_ok qp' m'" "pending (q_rq qp') = [21, 22]" "qp' = sample_rq_qp\<lparr>q_rq := sample_rq\<lparr>wq_wrid := ids, wq_head := 2\<rparr>\<rparr>"
    using mlx5_post_recv_ok [OF ok plain _ adm, of no_regions sample_pd] by auto
  let ?objs = "\<lambda>a. if a = 20480 then Some (Qp_obj qp') else None" and ?c = "cqe_bytes 5 0x20"
  let ?st = "poll_entries ?c (cqe_bytes 0 0xF0) (cqe_bytes 0 0xF0) ?objs"
  have "length ids = 4" using post(2,4) by (simp add: rq_ok_def rq_geom_def Let_def rq_len_def)
  then have arr: "qp_arrays qp'" using polled_qp_arrays post(4) by (simp add: qp_arrays_def polled_qp_def rq_len_def)
  have look: "table_lookup (env_of 5 20480) False (key_of False ?c) = Inr 20480"
    by (simp add: table_lookup_def sample_key sample_env_find)
  have run: "plain_run (env_of 5 20480) False ?objs [?c]"
    using arr look post(4) by (simp add: plain_run_def plain_cqe_def owned_by_def sample_key MLX5_CQE_REQ_def MLX5_CQE_RESP_SEND_def)
  have nxt: "next_run ?st [?c]" "nothing_at ?st (length [?c])"
    by (simp_all add: next_run_def nothing_at_def sample_next sample_owned MLX5_CQE_INVALID_def)
  have "dom m' \<subseteq> dom (ps_mem ?st)" using cq_memory_mapped [of ?c "cqe_bytes 0 0xF0" "cqe_bytes 0 0xF0" "cqe_bytes 0 0xF0" _ 1]
    by (auto simp: mapped_iff domIff)
  moreover have "length [?c] \<le> outstanding (q_rq qp')" using post(4) by (simp add: outstanding_def)
  ultimately show ?thesis
    using posted_receives_complete_in_order [OF ok plain _ adm post(1), of ?st 20480 "env_of 5 20480" False "[?c]" 112 3
        "[some_wc, some_wc, some_wc]" 0 0] run nxt look post(1)
    by (auto simp: cq_memory_mapped MLX5_CQE_RESP_SEND_def simp del: retire_all.simps)
qed

section \<open>Shared receive queues\<close>

text \<open>C11: a message completion returns its entry. When the entry at the consumer counter reports a message
  in entry \<open>i\<close> of a shared receive queue, which is in use (not on the chain \<open>xs\<close> of free entries), a poll
  reports the identifier of that entry with the length and success, and puts it at the end of the
  chain; the queue pair's own receive queue is not touched.\<close>

theorem srq_completion_frees_entry:
  assumes "poll_ring st" and "c = next_proper st 0" and "message_cqe c"
    and "sw_owned (ps_q st) (unat (cq_cons (ps_q st))) c" and "ps_rsc st = 0" and "ps_srq st = 0"
    and "room_for_time env wc_size st" and "srq_named env st c b r" and "srq_at st b s c"
    and "srq_ok (so_srq s) (ps_mem st) xs" and "unat (c_wqe_counter c) < srq_max (so_srq s)"
    and "unat (c_wqe_counter c) \<notin> set xs"
  shows "\<exists>st' w s'. mlx5_poll_one (Suc f) env False wc_size st wc = Some (Inr (CQ_OK, st', w)) \<and>
    w_wr_id w = srq_wrid (so_srq s) ! unat (c_wqe_counter c) \<and> w_status w = IBV_WC_SUCCESS \<and> w_opcode w = IBV_WC_RECV \<and>
    w_byte_len w = c_byte_cnt c \<and> ps_objs st' = (ps_objs st)(b \<mapsto> Srq_obj s') \<and>
    srq_ok (so_srq s') (ps_mem st') (xs @ [unat (c_wqe_counter c)]) \<and> cq_cons (ps_q st') = cq_cons (ps_q st) + 1"
proof -
  obtain m' where m': "mlx5_free_srq_wqe (unat (c_wqe_counter c)) (so_srq s) (ps_mem st) =
      Inr ((so_srq s)\<lparr>srq_tail := unat (c_wqe_counter c)\<rparr>, m')"
    "srq_ok ((so_srq s)\<lparr>srq_tail := unat (c_wqe_counter c)\<rparr>) m' (xs @ [unat (c_wqe_counter c)])"
    using mlx5_free_srq_wqe_ok [OF assms(10-12)] by blast
  show ?thesis using poll_one_srq [OF assms(1-9) m'(1), of f wc] m'(2) by (fastforce simp: reports_srq_def)
qed

theorem srq_completion_frees_entry_witness:
  "\<exists>st' w s'. mlx5_poll_one 1 srq_env False 112 (poll_entries srq_cqe srq_cqe srq_cqe srq_and_qp) some_wc = Some (Inr (CQ_OK, st', w)) \<and>
    w_wr_id w = 90 \<and> ps_objs st' = srq_and_qp(28672 \<mapsto> Srq_obj s') \<and> srq_ok (so_srq s') (ps_mem st') [1, 0]"
proof -
  let ?st = "poll_entries srq_cqe srq_cqe srq_cqe srq_and_qp"
  have c: "next_proper ?st 0 = srq_cqe" by (simp add: sample_next)
  have msg: "message_cqe srq_cqe" by (simp add: message_cqe_def)
  have own: "sw_owned (ps_q ?st) (unat (cq_cons (ps_q ?st))) srq_cqe"
    by (simp add: sample_owned MLX5_CQE_RESP_SEND_def MLX5_CQE_INVALID_def)
  have named: "srq_named srq_env ?st srq_cqe 28672 0" by (simp add: srq_named_def srq_env_finds)
  have at: "srq_at ?st 28672 polled_srq srq_cqe" by (simp add: srq_at_def srq_and_qp_def polled_srq_def)
  have entry: "unat (c_wqe_counter srq_cqe) < srq_max (so_srq polled_srq)" "unat (c_wqe_counter srq_cqe) \<notin> set [1]"
    by (simp_all add: polled_srq_def)
  have ok: "srq_ok (so_srq polled_srq) (ps_mem ?st) [1]" using polled_srq_ok by simp
  show ?thesis
    using srq_completion_frees_entry [OF sample_poll_ring c [symmetric] msg own _ _ _ named at ok entry, of 112 0 some_wc]
    by (auto simp: polled_srq_def)
qed

text \<open>C12: after a page fault the next completion is charged to the wrong queue. \<open>mlx5_poll_one\<close> sets \<open>is_srq\<close>
  before its label \<open>repoll\<close> and not behind it. The first entry reports a page fault of entry \<open>i1\<close> of a
  shared receive queue: its request is put back, under the entry \<open>hd xs\<close> that was next in the chain, and
  the code repolls. The second entry is of a queue pair with a receive queue of its own, in its entry
  \<open>i2\<close>. With fuel for two rounds \<open>mlx5_poll_one\<close> then reports success with an identifier of the shared
  receive queue, puts that queue's entry \<open>i2\<close> at the end of the chain of free entries although no message
  used it, and leaves the queue pair's own receive outstanding; the consumer counter moves by two. The
  ring is assumed apart from the shared receive queue, without compressed entries or a peer, and the
  call to be the first of a \<open>poll_cq\<close> (both cursors zero).\<close>

theorem repoll_charges_stale_srq:
  assumes "poll_ring st" and "ps_rsc st = 0" and "ps_srq st = 0" and "cursor_ok env False (st\<lparr>ps_rsc := r\<rparr>)"
    and "room_for_time env wc_size st" and "ring_apart (ps_q st) (so_srq s)"
    and "c1 = next_proper st 0" and "c_opcode c1 = MLX5_CQE_RESP_ERR" and "is_odp_pfault_err c1"
    and "c_format c1 \<noteq> MLX5_COMPRESSED" and "sw_owned (ps_q st) (unat (cq_cons (ps_q st))) c1"
    and "srq_named env st c1 b r" and "b \<noteq> 0" and "ps_objs st b = Some (Srq_obj s)" and "strides_per_wqe s = 0"
    and "srq_ok (so_srq s) (ps_mem st) xs"
    and "i1 = unat (c_wqe_counter c1)" and "i1 < srq_max (so_srq s)" and "i1 \<notin> set xs"
    and "c2 = next_proper st 1" and "message_cqe c2" and "c_srqn_uidx c2 AND 0xffffff = 0"
    and "sw_owned (ps_q st) (unat (cq_cons (ps_q st)) + 1) c2" and "owned_by env False (ps_objs st) c2 a q"
    and "i2 = unat (c_wqe_counter c2)" and "i2 < srq_max (so_srq s)" and "i2 \<notin> set (tl (xs @ [i1]))"
  shows "\<exists>st' w s'. mlx5_poll_one (Suc (Suc f)) env False wc_size st wc = Some (Inr (CQ_OK, st', w)) \<and>
    w_wr_id w = srq_wrid (so_srq s') ! i2 \<and> ps_objs st' a = Some (Qp_obj q) \<and> ps_objs st' b = Some (Srq_obj s') \<and>
    srq_wrid (so_srq s') = (srq_wrid (so_srq s))[hd xs := srq_wrid (so_srq s) ! i1] \<and>
    srq_ok (so_srq s') (ps_mem st') (tl (xs @ [i1]) @ [i2]) \<and>
    ps_q st' = (ps_q st)\<lparr>cq_cons := cq_cons (ps_q st) + 2\<rparr>"
proof -
  have "fault_cqe c1" using assms(8-10) by (simp add: fault_cqe_def)
  then show ?thesis by (intro poll_one_repolled [OF assms(1-7) _ assms(11-27)])
qed

text \<open>A page fault of entry 2 of queue 5, then a message of queue pair 5.\<close>

definition faulted_cqe :: cqe64 where
  "faulted_cqe = replicate 35 0 @ [5] @ replicate 18 0 @ [0x93, 0x22] @ replicate 5 0 @ [2, 0, 0xE0]"

lemma faulted_cqe_fields:
  "length faulted_cqe = 64" "b8 faulted_cqe 63 = 0xE0" "c_opcode faulted_cqe = MLX5_CQE_RESP_ERR" "c_format faulted_cqe = 0"
  "is_odp_pfault_err faulted_cqe" "c_srqn_uidx faulted_cqe = 5" "c_sop_qpn faulted_cqe = 0" "c_wqe_counter faulted_cqe = 2"
  by code_simp+

theorem repoll_charges_stale_srq_witness:
  "\<exists>st' w. mlx5_poll_one 2 srq_env False 112 (poll_entries faulted_cqe (cqe_bytes 5 0x20) srq_cqe srq_and_qp) some_wc =
      Some (Inr (CQ_OK, st', w)) \<and>
    w_wr_id w = 90 \<and> ps_objs st' 20480 = Some (Qp_obj polled_qp)"
proof -
  let ?c = "cqe_bytes 5 0x20" and ?st = "poll_entries faulted_cqe (cqe_bytes 5 0x20) srq_cqe srq_and_qp"
  have entry: "next_proper ?st 0 = faulted_cqe" "next_proper ?st 1 = ?c"
    using sample_next [of faulted_cqe ?c srq_cqe] faulted_cqe_fields(1) by simp_all
  have odd: "sw_owned (ps_q ?st) (unat (cq_cons (ps_q ?st))) faulted_cqe"
    "sw_owned (ps_q ?st) (unat (cq_cons (ps_q ?st)) + 1) ?c"
    using faulted_cqe_fields by (simp_all add: sample_owned MLX5_CQE_INVALID_def MLX5_CQE_RESP_ERR_def)
  have msg: "message_cqe ?c" by (simp add: message_cqe_def MLX5_CQE_RESP_SEND_def)
  have own: "owned_by srq_env False (ps_objs ?st) ?c 20480 polled_qp"
    using polled_qp_arrays by (simp add: owned_by_def table_lookup_def sample_key srq_env_finds srq_and_qp_def qp_at_20480_def)
      (simp add: polled_qp_def)
  have named: "srq_named srq_env ?st faulted_cqe 28672 0"
    using faulted_cqe_fields srq_env_finds by (simp add: srq_named_def)
  have obj: "ps_objs ?st 28672 = Some (Srq_obj polled_srq)" "strides_per_wqe polled_srq = 0"
    by (simp_all add: srq_and_qp_def polled_srq_def)
  have apart: "ring_apart (ps_q ?st) (so_srq polled_srq)"
    by (simp add: ring_apart_def srq_apart_def polled_srq_def ring_end_def ring_len_def sample_cq_def)
  have ok: "srq_ok (so_srq polled_srq) (ps_mem ?st) [1]" using polled_srq_ok by simp
  have cur: "cursor_ok srq_env False (?st\<lparr>ps_rsc := 0\<rparr>)" by (simp add: cursor_ok_def)
  have "\<exists>st' w s'. mlx5_poll_one (Suc (Suc 0)) srq_env False 112 ?st some_wc = Some (Inr (CQ_OK, st', w)) \<and>
    w_wr_id w = srq_wrid (so_srq s') ! 0 \<and> ps_objs st' 20480 = Some (Qp_obj polled_qp) \<and>
    ps_objs st' 28672 = Some (Srq_obj s') \<and>
    srq_wrid (so_srq s') = (srq_wrid (so_srq polled_srq))[hd [1] := srq_wrid (so_srq polled_srq) ! 2] \<and>
    srq_ok (so_srq s') (ps_mem st') (tl ([1] @ [2]) @ [0]) \<and>
    ps_q st' = (ps_q ?st)\<lparr>cq_cons := cq_cons (ps_q ?st) + 2\<rparr>"
    by (rule repoll_charges_stale_srq [OF sample_poll_ring _ _ cur _ apart entry(1) [symmetric] _ _ _ odd(1) named _ obj ok
          _ _ _ entry(2) [symmetric] msg _ odd(2) own])
      (use faulted_cqe_fields in \<open>simp_all add: MLX5_COMPRESSED_def polled_srq_def\<close>)
  then show ?thesis by (auto simp: polled_srq_def numeral_2_eq_2)
qed

end
