(* ===== verification/Implicit_Correct.thy ===== *)
theory Implicit_Correct
  imports Implicit_Lkey
begin

text \<open>
  The tables of \<open>Implicit_Lkey\<close> in numbers: where the region of a slot begins, when the region found
  covers the range asked for, and what prefetching asks of the adapter. Addresses are those below
  \<open>2 ^ 49\<close>, which the keys tell apart.
\<close>

section \<open>The arithmetic of the keys\<close>

lemma MASK_eq: "MASK n = mask n"
  by (simp add: MASK_def mask_eq_exp_minus_1)

lemmas ilkey_sizes = LEVEL1_SIZE_def LEVEL2_SIZE_def MR_SIZE_def ADDR_EFFECTIVE_BITS_def
  LEVEL1_SHIFT_def LEVEL2_SHIFT_def

lemma keys_eq:
  "key1_of a = unat a div 2 ^ 39 mod 2 ^ 10" "key2_of a = unat a div 2 ^ 28 mod 2 ^ 11"
  by (simp_all add: key1_of_def key2_of_def MASK_eq unat_and_mask ilkey_sizes drop_bit_eq_div unat_div)

lemma keys_below: "key1_of a < 2 ^ LEVEL1_SIZE" "key2_of a < 2 ^ LEVEL2_SIZE"
  unfolding keys_eq ilkey_sizes by (rule mod_less_divisor; simp)+

definition block_base :: "nat \<Rightarrow> nat \<Rightarrow> nat \<Rightarrow> nat" where
  "block_base k1 k2 i = k1 * 2 ^ 39 + k2 * 2 ^ 28 + i * 2 ^ 27"

lemma block_of:
  assumes "unat a < 2 ^ 49"
  shows "block_base (key1_of a) (key2_of a) i = unat a - unat a mod 2 ^ 28 + i * 2 ^ 27"
proof -
  have "unat a div 2 ^ 39 < 2 ^ 10" using assms by (simp add: less_mult_imp_div_less)
  then have k1: "key1_of a = unat a div 2 ^ 39" by (simp add: keys_eq)
  have "unat a div 2 ^ 28 div 2 ^ 11 = unat a div 2 ^ 39" by (simp add: div_mult2_eq [symmetric])
  then have "unat a div 2 ^ 28 = key1_of a * 2 ^ 11 + key2_of a"
    by (metis div_mult_mod_eq k1 keys_eq(2))
  then have "block_base (key1_of a) (key2_of a) i = unat a div 2 ^ 28 * 2 ^ 28 + i * 2 ^ 27"
    by (simp add: block_base_def algebra_simps)
  then show ?thesis by (simp add: minus_mod_eq_div_mult)
qed

lemma odd_block: "odd (drop_bit k a) = odd (unat a div 2 ^ k)" for a :: "'a::len word"
  using bit_unsigned_iff [of a k, where 'a = nat] by (simp add: bit_iff_odd_drop_bit [of a] bit_iff_odd [of "unat a"] bit_imp_le_length)

text \<open>The range asked for, in its block: the second region of the pair is for ranges that, with the
  byte behind them, leave it.\<close>

definition leaves_block :: "u64 \<Rightarrow> u64 \<Rightarrow> bool" where
  "leaves_block addr len \<longleftrightarrow> 2 ^ 28 \<le> unat addr mod 2 ^ 28 + unat len + 1"

lemma div_carry:
  assumes "(off :: nat) < b" "n < b"
  shows "(q * b + off + n + 1) div b = q + (if b \<le> off + n + 1 then 1 else 0)"
proof -
  have "(q * b + (off + n + 1)) div b = q + (off + n + 1) div b"
    using assms by (intro div_mult_self3) simp
  moreover have "(off + n + 1) div b = (if b \<le> off + n + 1 then 1 else 0)"
    using assms by (auto intro: div_nat_eqI)
  ultimately show ?thesis by (simp only: add.assoc)
qed

lemma idx_eq:
  assumes "unat addr < 2 ^ 49" "unat len < 2 ^ 28"
  shows "mr_idx_in_pair addr len = (if leaves_block addr len then 1 else 0)"
proof -
  let ?a = "unat addr" and ?n = "unat len"
  define b :: nat where "b = 2 ^ 28"
  have s: "unat (addr + len + 1) = ?a + ?n + 1"
    using assms by (simp add: unat_word_ariths)
  have "?a mod b < b" "?n < b" using assms(2) by (simp_all add: b_def)
  from div_carry [OF this, of "?a div b"]
  have "(?a + ?n + 1) div b = ?a div b + (if leaves_block addr len then 1 else 0)"
    by (simp only: div_mult_mod_eq leaves_block_def b_def)
  then have "odd ((?a + ?n + 1) div b) = (odd (?a div b) \<noteq> leaves_block addr len)" by simp
  then show ?thesis
    unfolding mr_idx_in_pair_def and_one_eq mod_2_eq_odd odd_block s MR_SIZE_def b_def [symmetric] by auto
qed

lemma base_eq:
  assumes "unat addr < 2 ^ 49" "unat len < 2 ^ 28"
  shows "unat (mr_base_addr addr len) = block_base (key1_of addr) (key2_of addr) (mr_idx_in_pair addr len)"
proof -
  let ?b = "addr AND NOT (mask 28)" and ?p = "push_bit 27 (of_nat (mr_idx_in_pair addr len)) :: u64"
  have "page_base (2 ^ 28) (unat addr) = unat addr - unat addr mod 2 ^ 28"
    by (rule page_base_eq [where k = 28]) (auto simp: unat_u64_less)
  then have b: "unat ?b = unat addr - unat addr mod 2 ^ 28"
    by (simp add: page_base_def mask_eq_exp_minus_1)
  have p: "unat ?p = mr_idx_in_pair addr len * 2 ^ 27" "mr_idx_in_pair addr len \<le> 1"
    by (simp_all add: mr_idx_in_pair_def push_bit_eq_mult)
  have "?b AND ?p = 0"
  proof (rule bit_word_eqI)
    fix n :: nat
    assume "n < LENGTH(64)"
    then show "bit (?b AND ?p) n = bit 0 n"
      by (auto simp: bit_simps mr_idx_in_pair_def)
  qed
  then have "?b OR ?p = ?b + ?p" by (simp add: disjunctive_add_eq_or)
  moreover have "unat ?b + unat ?p < 2 ^ 64" using b p assms(1) by simp
  ultimately have "unat (?b OR ?p) = unat ?b + unat ?p" by (simp add: unat_add_lem [THEN iffD1])
  then show ?thesis
    unfolding mr_base_addr_def MASK_eq MR_SIZE_def block_of [OF assms(1)] b p by simp
qed

lemma key_bounds:
  assumes "drop_bit MR_SIZE len = 0"
  shows "unat len < 2 ^ 28"
proof -
  have "unat len div 2 ^ 28 = 0" using assms
    by (metis MR_SIZE_def drop_bit_eq_div unat_drop_bit_eq unsigned_0)
  then show ?thesis by (simp add: div_eq_0_iff)
qed

lemma drop_eq_0: "drop_bit k a = 0 \<longleftrightarrow> unat a < 2 ^ k" for a :: "'a::len word"
proof -
  have "drop_bit k a = 0 \<longleftrightarrow> unat a div 2 ^ k = 0"
    by (metis drop_bit_eq_div unat_drop_bit_eq unsigned_0 unsigned_word_eqI)
  then show ?thesis by (simp add: div_eq_0_iff)
qed

section \<open>The regions of a table\<close>

definition mr_in :: "mlx5_implicit_lkey \<Rightarrow> nat \<Rightarrow> nat \<Rightarrow> nat \<Rightarrow> odp_mr option" where
  "mr_in il k1 k2 i = (case il_table il of
      None \<Rightarrow> None
    | Some t \<Rightarrow> (case t k1 of None \<Rightarrow> None | Some l \<Rightarrow> l k2 i))"

definition mr_at_slot :: "nat \<Rightarrow> nat \<Rightarrow> nat \<Rightarrow> odp_mr \<Rightarrow> bool" where
  "mr_at_slot k1 k2 i mr \<longleftrightarrow> k1 < 2 ^ LEVEL1_SIZE \<and> k2 < 2 ^ LEVEL2_SIZE \<and> i < 2 \<and>
     unat (om_addr mr) = block_base k1 k2 i \<and> om_length mr = 2 ^ 28 \<and> om_relaxed mr \<and> om_odp mr"

definition ilkey_ok :: "mlx5_implicit_lkey \<Rightarrow> bool" where
  "ilkey_ok il \<longleftrightarrow> (\<forall>k1 k2 i mr. mr_in il k1 k2 i = Some mr \<longrightarrow> mr_at_slot k1 k2 i mr)"

definition covers :: "odp_mr \<Rightarrow> u64 \<Rightarrow> u64 \<Rightarrow> bool" where
  "covers mr addr len \<longleftrightarrow> unat (om_addr mr) \<le> unat addr \<and>
     unat addr + unat len \<le> unat (om_addr mr) + unat (om_length mr)"

text \<open>The ranges one of the two regions of the slot covers.\<close>

definition fits :: "u64 \<Rightarrow> u64 \<Rightarrow> bool" where
  "fits addr len \<longleftrightarrow> (let off = unat addr mod 2 ^ 28 in
     off + unat len + 1 < 2 ^ 28 \<or> 2 ^ 27 \<le> off \<and> off + unat len \<le> 3 * 2 ^ 27)"

lemma ilkey_ok_new: "ilkey_ok \<lparr>il_table = None, il_access = acc\<rparr>"
  by (simp add: ilkey_ok_def mr_in_def)

lemma slot_covers:
  assumes "mr_at_slot (key1_of addr) (key2_of addr) (mr_idx_in_pair addr len) mr"
    and "unat addr < 2 ^ 49" "unat len < 2 ^ 28"
  shows "covers mr addr len \<longleftrightarrow> fits addr len"
proof -
  define off where "off = unat addr mod 2 ^ 28"
  obtain base where base: "unat addr = base + off"
    by (metis off_def mod_less_eq_dividend le_add_diff_inverse2)
  have off: "off < 2 ^ 28" by (simp add: off_def)
  have "unat (om_addr mr) = base + (if leaves_block addr len then 2 ^ 27 else 0)" "om_length mr = 2 ^ 28"
    using assms(1) base unfolding mr_at_slot_def block_of [OF assms(2)] idx_eq [OF assms(2,3)] off_def [symmetric]
    by auto
  then show ?thesis
    using off assms(3) base unfolding covers_def fits_def Let_def leaves_block_def off_def [symmetric]
    by (cases "2 ^ 28 \<le> off + unat len + 1") auto
qed

lemma covers_words:
  assumes "unat addr < 2 ^ 49" "unat len < 2 ^ 28" "unat (om_addr mr) < 2 ^ 50" "om_length mr = 2 ^ 28"
  shows "om_addr mr \<le> addr \<and> addr + len \<le> om_addr mr + om_length mr \<longleftrightarrow> covers mr addr len"
proof -
  have "unat (addr + len) = unat addr + unat len" using assms(1,2) by (simp add: unat_word_ariths)
  moreover have "unat (om_addr mr + om_length mr) = unat (om_addr mr) + unat (om_length mr)"
    using assms(3,4) by (simp add: unat_word_ariths)
  ultimately show ?thesis by (simp add: covers_def word_le_nat_alt)
qed

lemma slot_small:
  assumes "mr_at_slot k1 k2 i mr"
  shows "unat (om_addr mr) < 2 ^ 50"
  using assms by (auto simp: mr_at_slot_def block_base_def ilkey_sizes)

text \<open>The region the code finds in its slot or registers, if there is memory for all of it.\<close>

definition region :: "ilkey_env \<Rightarrow> mlx5_implicit_lkey \<Rightarrow> u64 \<Rightarrow> u64 \<Rightarrow> odp_mr option" where
  "region env il addr len = (case level1_of env il of
      None \<Rightarrow> None
    | Some t \<Rightarrow> (case level2_of env t (key1_of addr) of
        None \<Rightarrow> None
      | Some l \<Rightarrow> slot_mr env (mr_base_addr addr len) (il_access il) (l (key2_of addr) (mr_idx_in_pair addr len))))"

lemma region_at_slot:
  assumes "ilkey_ok il" "unat addr < 2 ^ 49" "unat len < 2 ^ 28" "region env il addr len = Some mr"
  shows "mr_at_slot (key1_of addr) (key2_of addr) (mr_idx_in_pair addr len) mr"
proof (cases "mr_in il (key1_of addr) (key2_of addr) (mr_idx_in_pair addr len)")
  case None
  then obtain mr0 where "mr = mr0\<lparr>om_addr := mr_base_addr addr len, om_length := 2 ^ MR_SIZE,
      om_relaxed := True, om_odp := True\<rparr>"
    using assms(4) by (auto simp: region_def mr_in_def level1_of_def level2_of_def slot_mr_def
        split: option.splits if_splits)
  moreover have "mr_idx_in_pair addr len < 2" by (simp add: mr_idx_in_pair_def)
  ultimately show ?thesis
    using keys_below [of addr] base_eq [OF assms(2,3)] by (simp add: mr_at_slot_def MR_SIZE_def)
next
  case (Some mr0)
  then have "mr = mr0"
    using assms(4) by (auto simp: region_def mr_in_def level1_of_def level2_of_def slot_mr_def
        split: option.splits if_splits)
  then show ?thesis using assms(1) Some by (simp add: ilkey_ok_def)
qed

lemma region_known:
  assumes "mr_in il (key1_of addr) (key2_of addr) (mr_idx_in_pair addr len) = Some mr"
  shows "region env il addr len = Some mr"
  using assms by (auto simp: region_def mr_in_def level1_of_def level2_of_def slot_mr_def split: option.splits)

definition generous :: "ilkey_env \<Rightarrow> bool" where
  "generous env \<longleftrightarrow> level1_mem env \<and> (\<forall>k. level2_mem env k) \<and> (\<forall>a n acc. exp_reg_mr env a n acc \<noteq> None)"

lemma region_generous: "generous env \<Longrightarrow> \<exists>mr. region env il addr len = Some mr"
  by (auto simp: generous_def region_def level1_of_def level2_of_def slot_mr_def split: option.splits)

section \<open>Looking a region up\<close>

lemma get_real_mr_none:
  assumes "unat addr < 2 ^ 49" "unat len < 2 ^ 28" "region env il addr len = None"
  shows "\<exists>il'. mlx5_get_real_mr_from_implicit_lkey env il addr len = Inr (ENOMEM, None, il') \<and>
    mr_in il' = mr_in il \<and> il_access il' = il_access il"
proof -
  have pass: "drop_bit MR_SIZE len = 0" "drop_bit ADDR_EFFECTIVE_BITS addr = 0"
    using assms(1,2) by (simp_all add: drop_eq_0 ilkey_sizes)
  note run = mlx5_get_real_mr_from_implicit_lkey_def Let_def pass
  consider "level1_of env il = None" | t where "level1_of env il = Some t" "level2_of env t (key1_of addr) = None"
    | t l where "level1_of env il = Some t" "level2_of env t (key1_of addr) = Some l"
        "slot_mr env (mr_base_addr addr len) (il_access il) (l (key2_of addr) (mr_idx_in_pair addr len)) = None"
    using assms(3) by (auto simp: region_def split: option.splits)
  then show ?thesis
  proof cases
    case 1
    then show ?thesis by (simp add: run)
  next
    case 2
    then have "mr_in (il\<lparr>il_table := Some t\<rparr>) = mr_in il"
      by (intro ext) (auto simp: mr_in_def level1_of_def split: option.splits if_splits)
    then show ?thesis using 2 by (simp add: run)
  next
    case 3
    then have "mr_in (il\<lparr>il_table := Some (t(key1_of addr \<mapsto> l))\<rparr>) = mr_in il"
      by (intro ext) (auto simp: mr_in_def level1_of_def level2_of_def split: option.splits if_splits)
    then show ?thesis using 3 by (simp add: run)
  qed
qed

lemma get_real_mr_some:
  assumes "ilkey_ok il" "unat addr < 2 ^ 49" "unat len < 2 ^ 28" "region env il addr len = Some mr"
  shows "if fits addr len
    then \<exists>il'. mlx5_get_real_mr_from_implicit_lkey env il addr len = Inr (0, Some mr, il') \<and>
      mr_in il' = (mr_in il)(key1_of addr := (mr_in il (key1_of addr))
        (key2_of addr := (mr_in il (key1_of addr) (key2_of addr))(mr_idx_in_pair addr len \<mapsto> mr))) \<and>
      il_access il' = il_access il \<and> ilkey_ok il' \<and> covers mr addr len
    else mlx5_get_real_mr_from_implicit_lkey env il addr len = Inl (Die ''assert'')"
proof -
  note slot = region_at_slot [OF assms]
  have len: "om_length mr = 2 ^ 28" using slot by (simp add: mr_at_slot_def)
  note words = covers_words [OF assms(2,3) slot_small [OF slot] len] slot_covers [OF slot assms(2,3)]
  obtain t l where t: "level1_of env il = Some t" "level2_of env t (key1_of addr) = Some l"
    "slot_mr env (mr_base_addr addr len) (il_access il) (l (key2_of addr) (mr_idx_in_pair addr len)) = Some mr"
    using assms(4) by (auto simp: region_def split: option.splits)
  let ?il = "il\<lparr>il_table := Some (t(key1_of addr \<mapsto> l(key2_of addr := (l (key2_of addr))(mr_idx_in_pair addr len \<mapsto> mr))))\<rparr>"
  have run: "mlx5_get_real_mr_from_implicit_lkey env il addr len =
      (if fits addr len then Inr (0, Some mr, ?il) else Inl (Die ''assert''))"
    using assms(2,3) t words
    by (simp add: mlx5_get_real_mr_from_implicit_lkey_def Let_def drop_eq_0 MR_SIZE_def
        ADDR_EFFECTIVE_BITS_def LEVEL1_SIZE_def LEVEL2_SIZE_def)
  have l: "l k2 i = mr_in il (key1_of addr) k2 i" for k2 i
    using t by (auto simp: mr_in_def level1_of_def level2_of_def split: option.splits if_splits)
  have other: "(case t k1 of None \<Rightarrow> None | Some l \<Rightarrow> l k2 i) = mr_in il k1 k2 i" if "k1 \<noteq> key1_of addr" for k1 k2 i
    using t that by (auto simp: mr_in_def level1_of_def split: option.splits if_splits)
  have new: "mr_in ?il k1 k2 i = (if k1 = key1_of addr \<and> k2 = key2_of addr \<and> i = mr_idx_in_pair addr len
      then Some mr else mr_in il k1 k2 i)" for k1 k2 i
  proof (cases "k1 = key1_of addr")
    case True
    then show ?thesis using l by (simp add: mr_in_def [of ?il])
  next
    case False
    then show ?thesis using other by (simp add: mr_in_def [of ?il])
  qed
  then have "ilkey_ok ?il" using assms(1) slot by (auto simp: ilkey_ok_def)
  moreover have "mr_in ?il = (mr_in il)(key1_of addr := (mr_in il (key1_of addr))
        (key2_of addr := (mr_in il (key1_of addr) (key2_of addr))(mr_idx_in_pair addr len \<mapsto> mr)))"
    using new by (auto simp: fun_eq_iff)
  ultimately show ?thesis using run words(2) by simp
qed

text \<open>Whatever the surroundings answer, a range one region covers never runs into the assertion.\<close>

lemma get_real_mr_total:
  assumes "ilkey_ok il" "unat addr < 2 ^ 49" "unat len < 2 ^ 28" "fits addr len"
  shows "\<exists>il'. ilkey_ok il' \<and> il_access il' = il_access il \<and>
    (mlx5_get_real_mr_from_implicit_lkey env il addr len = Inr (ENOMEM, None, il') \<and> \<not> generous env \<or>
     (\<exists>mr. mlx5_get_real_mr_from_implicit_lkey env il addr len = Inr (0, Some mr, il') \<and> covers mr addr len))"
proof (cases "region env il addr len")
  case None
  then have "\<not> generous env" using region_generous [of env il addr len] by auto
  then show ?thesis using get_real_mr_none [OF assms(2,3) None] assms(1) by (auto simp: ilkey_ok_def)
next
  case (Some mr)
  then show ?thesis using get_real_mr_some [OF assms(1-3) Some] assms(4) by auto
qed

text \<open>A region that is in its slot is found there, and never replaced.\<close>

lemma get_real_mr_known:
  assumes "ilkey_ok il" "unat addr < 2 ^ 49" "unat len < 2 ^ 28"
    and "mr_in il (key1_of addr) (key2_of addr) (mr_idx_in_pair addr len) = Some mr"
  shows "mlx5_get_real_mr_from_implicit_lkey env il addr len = Inl (Die ''assert'') \<or>
    (\<exists>il'. mlx5_get_real_mr_from_implicit_lkey env il addr len = Inr (0, Some mr, il') \<and> mr_in il' = mr_in il)"
  using get_real_mr_some [OF assms(1-3) region_known [OF assms(4)], of env] assms(4)
  by (auto simp: fun_upd_idem split: if_splits)

lemma get_real_mr_keeps:
  assumes "ilkey_ok il" "unat addr < 2 ^ 49"
    and "mlx5_get_real_mr_from_implicit_lkey env il addr len = Inr (r, m, il')"
  shows "ilkey_ok il'" "mr_in il k1 k2 i = Some mr \<Longrightarrow> mr_in il' k1 k2 i = Some mr"
    "r = 0 \<Longrightarrow> m \<noteq> None \<and> mr_in il' (key1_of addr) (key2_of addr) (mr_idx_in_pair addr len) = m"
proof -
  have "ilkey_ok il' \<and> (mr_in il k1 k2 i = Some mr \<longrightarrow> mr_in il' k1 k2 i = Some mr) \<and>
    (r = 0 \<longrightarrow> m \<noteq> None \<and> mr_in il' (key1_of addr) (key2_of addr) (mr_idx_in_pair addr len) = m)"
  proof (cases "drop_bit MR_SIZE len = 0")
    case False
    then show ?thesis using assms(1,3) by (auto simp: mlx5_get_real_mr_from_implicit_lkey_def Let_def EINVAL_def)
  next
    case True
    then have len: "unat len < 2 ^ 28" by (rule key_bounds)
    show ?thesis
    proof (cases "region env il addr len")
      case None
      then show ?thesis using get_real_mr_none [OF assms(2) len None] assms(1,3) by (auto simp: ilkey_ok_def ENOMEM_def)
    next
      case (Some mr')
      have "mr' = mr" if "mr_in il (key1_of addr) (key2_of addr) (mr_idx_in_pair addr len) = Some mr"
        using region_known [OF that, of env] Some by simp
      then show ?thesis using get_real_mr_some [OF assms(1,2) len Some] assms(3)
        by (auto split: if_splits)
    qed
  qed
  then show "ilkey_ok il'" "mr_in il k1 k2 i = Some mr \<Longrightarrow> mr_in il' k1 k2 i = Some mr"
    "r = 0 \<Longrightarrow> m \<noteq> None \<and> mr_in il' (key1_of addr) (key2_of addr) (mr_idx_in_pair addr len) = m" by auto
qed

section \<open>Prefetching\<close>

text \<open>The calls cover a range without gap or overlap, each within the region it names.\<close>

fun tiles :: "(odp_mr \<times> u64 \<times> u64) list \<Rightarrow> nat \<Rightarrow> nat \<Rightarrow> bool" where
  "tiles [] a e \<longleftrightarrow> a = e"
| "tiles ((mr, x, n) # t) a e \<longleftrightarrow> unat x = a \<and> n \<noteq> 0 \<and> covers mr x n \<and> tiles t (a + unat n) e"

lemma chunk_fits: "fits addr (effective_length addr end_addr)"
proof -
  define off :: nat where "off = unat addr mod 2 ^ 28"
  define half :: nat where "half = unat addr mod 2 ^ 27"
  have "half = off mod 2 ^ 27" by (simp add: half_def off_def mod_mod_cancel)
  moreover have "off < 2 ^ 28" by (simp add: off_def)
  moreover have "off mod 2 ^ 27 = (if off < 2 ^ 27 then off else off - 2 ^ 27)" if "off < 2 ^ 28"
    using that by (simp add: le_mod_geq)
  ultimately have half: "off = half \<and> off < 2 ^ 27 \<or> off = half + 2 ^ 27 \<and> half < 2 ^ 27"
    by (auto split: if_splits)
  have "unat (addr AND PREFETCH_STRIDE_SIZE) = half"
    by (simp add: PREFETCH_STRIDE_SIZE_def MASK_eq MR_SIZE_def unat_and_mask half_def)
  moreover have "half < 2 ^ 27" by (simp add: half_def)
  ultimately have "unat (1 + PREFETCH_STRIDE_SIZE - (addr AND PREFETCH_STRIDE_SIZE)) = 2 ^ 27 - half"
    by (subst unat_sub) (simp_all add: word_le_nat_alt PREFETCH_STRIDE_SIZE_def MASK_def MR_SIZE_def)
  then have "unat (effective_length addr end_addr) \<le> 2 ^ 27 - half"
    by (simp add: effective_length_def min_def word_le_nat_alt)
  then show ?thesis using half unfolding fits_def Let_def off_def [symmetric] by auto
qed

lemma chunk_small: "unat (effective_length addr end_addr) < 2 ^ 28"
proof -
  have "unat (1 + PREFETCH_STRIDE_SIZE - (addr AND PREFETCH_STRIDE_SIZE)) \<le> 2 ^ 27"
  proof -
    have "addr AND PREFETCH_STRIDE_SIZE \<le> 1 + PREFETCH_STRIDE_SIZE"
      by (rule order_trans [OF word_and_le1]) (simp add: PREFETCH_STRIDE_SIZE_def MASK_def MR_SIZE_def)
    then have "unat (1 + PREFETCH_STRIDE_SIZE - (addr AND PREFETCH_STRIDE_SIZE)) =
        unat (1 + PREFETCH_STRIDE_SIZE) - unat (addr AND PREFETCH_STRIDE_SIZE)" by (rule unat_sub)
    also have "\<dots> \<le> 2 ^ 27" by (simp add: PREFETCH_STRIDE_SIZE_def MASK_def MR_SIZE_def)
    finally show ?thesis .
  qed
  then show ?thesis by (simp add: effective_length_def min_def word_le_nat_alt)
qed

definition prefetch_works :: "ilkey_env \<Rightarrow> bool" where
  "prefetch_works env \<longleftrightarrow> generous env \<and> (\<forall>mr a n. exp_prefetch_mr env mr a n = 0)"

lemma prefetch_loop_ok:
  assumes "ilkey_ok il" "addr \<le> end_addr" "unat end_addr \<le> 2 ^ 49"
  shows "\<exists>r t' il' e. prefetch_loop env il addr end_addr t = Inr (r, t @ t', il') \<and> ilkey_ok il' \<and>
    tiles t' (unat addr) e \<and> e \<le> unat end_addr \<and> (r = 0 \<longrightarrow> e = unat end_addr) \<and> (prefetch_works env \<longrightarrow> r = 0)"
  using assms
proof (induction "unat (end_addr - addr)" arbitrary: il addr t rule: less_induct)
  case less
  let ?n = "effective_length addr end_addr"
  show ?case
  proof (cases "addr < end_addr")
    case False
    then show ?thesis using less.prems by (subst prefetch_loop.simps) auto
  next
    case True
    note b = effective_length_bounds [OF True]
    have n: "0 < unat ?n" "unat ?n \<le> unat end_addr - unat addr" "unat addr \<le> unat end_addr"
      using b less.prems(2) by (simp_all add: unat_gt_0 word_le_nat_alt unat_sub)
    then have next_addr: "unat (addr + ?n) = unat addr + unat ?n"
      using less.prems(3) by (simp add: unat_word_ariths)
    have low: "unat addr < 2 ^ 49" using n less.prems(3) by linarith
    obtain il1 where il1: "ilkey_ok il1"
      "mlx5_get_real_mr_from_implicit_lkey env il addr ?n = Inr (ENOMEM, None, il1) \<and> \<not> generous env \<or>
       (\<exists>mr. mlx5_get_real_mr_from_implicit_lkey env il addr ?n = Inr (0, Some mr, il1) \<and> covers mr addr ?n)"
      using get_real_mr_total [OF less.prems(1) low chunk_small chunk_fits] by blast
    from il1(2) show ?thesis
    proof (elim disjE exE conjE)
      assume "mlx5_get_real_mr_from_implicit_lkey env il addr ?n = Inr (ENOMEM, None, il1)" "\<not> generous env"
      then show ?thesis using True il1(1) n(3)
        by (subst prefetch_loop.simps) (auto simp: Let_def ENOMEM_def prefetch_works_def)
    next
      fix mr
      assume mr: "mlx5_get_real_mr_from_implicit_lkey env il addr ?n = Inr (0, Some mr, il1)" "covers mr addr ?n"
      have one: "tiles [(mr, addr, ?n)] (unat addr) (unat addr + unat ?n)"
        using mr(2) n(1) by (auto simp: unat_gt_0)
      show ?thesis
      proof (cases "exp_prefetch_mr env mr addr ?n = 0")
        case False
        then have "prefetch_loop env il addr end_addr t = Inr (exp_prefetch_mr env mr addr ?n, t @ [(mr, addr, ?n)], il1)"
          using True mr(1) by (subst prefetch_loop.simps) (simp add: Let_def)
        then show ?thesis using False il1(1) one n by (auto simp: prefetch_works_def intro!: exI [of _ "unat addr + unat ?n"])
      next
        case ok: True
        have le: "addr + ?n \<le> end_addr" using next_addr n by (simp add: word_le_nat_alt)
        then have "unat (end_addr - (addr + ?n)) < unat (end_addr - addr)"
          using n next_addr less.prems(2) by (simp add: unat_sub)
        from less.hyps [OF this il1(1) le less.prems(3), of "t @ [(mr, addr, ?n)]"]
        obtain r t' il' e where ih: "prefetch_loop env il1 (addr + ?n) end_addr (t @ [(mr, addr, ?n)]) =
            Inr (r, (t @ [(mr, addr, ?n)]) @ t', il')" "ilkey_ok il'" "tiles t' (unat (addr + ?n)) e"
          "e \<le> unat end_addr" "r = 0 \<longrightarrow> e = unat end_addr" "prefetch_works env \<longrightarrow> r = 0" by blast
        have "prefetch_loop env il addr end_addr t = Inr (r, t @ ((mr, addr, ?n) # t'), il')"
          using True mr(1) ok ih(1) by (subst prefetch_loop.simps) (simp add: Let_def)
        moreover have "tiles ((mr, addr, ?n) # t') (unat addr) e"
          using one ih(3) next_addr by simp
        ultimately show ?thesis using ih(2,4-6) by blast
      qed
    qed
  qed
qed

section \<open>Destroying\<close>

definition all_slots :: "(nat \<times> nat \<times> nat) list" where
  "all_slots = List.product [0..<2 ^ LEVEL1_SIZE] (List.product [0..<2 ^ LEVEL2_SIZE] [0, 1])"

definition released_mr :: "mlx5_implicit_lkey \<Rightarrow> nat \<times> nat \<times> nat \<Rightarrow> odp_mr list" where
  "released_mr il = (\<lambda>(k1, k2, i). case mr_in il k1 k2 i of None \<Rightarrow> [] | Some mr \<Rightarrow> [mr\<lparr>om_relaxed := False\<rparr>])"

lemma concat_map_product:
  "concat (map f (List.product xs ys)) = concat (map (\<lambda>x. concat (map (\<lambda>y. f (x, y)) ys)) xs)"
  by (induction xs) (simp_all add: comp_def)

lemma destroy_eq: "mlx5_destroy_implicit_lkey il = concat (map (released_mr il) all_slots)"
proof (cases "il_table il")
  case None
  then have "released_mr il = (\<lambda>_. [])" by (auto simp: released_mr_def mr_in_def)
  then show ?thesis using None by (simp add: mlx5_destroy_implicit_lkey_def concat_eq_Nil_conv)
next
  case (Some t)
  have "(case t k of None \<Rightarrow> [] | Some l \<Rightarrow> destroy_level2 l) =
      concat (map (\<lambda>y. released_mr il (k, y)) (List.product [0..<2 ^ LEVEL2_SIZE] [0, 1]))" for k
    using Some by (cases "t k") (simp_all add: destroy_level2_def concat_map_product released_mr_def mr_in_def
        concat_eq_Nil_conv del: upt_Suc)
  then show ?thesis using Some
    by (simp add: mlx5_destroy_implicit_lkey_def all_slots_def concat_map_product del: upt_Suc)
qed

lemma distinct_keys_concat:
  assumes "distinct xs" "inj_on g (set xs)"
    and "\<And>x y. x \<in> set xs \<Longrightarrow> y \<in> set (f x) \<Longrightarrow> key y = g x" "\<And>x. x \<in> set xs \<Longrightarrow> length (f x) \<le> 1"
  shows "distinct (map key (concat (map f xs)))"
  using assms
proof (induction xs)
  case Nil
  then show ?case by simp
next
  case (Cons x xs)
  have "distinct (map key (f x))"
    using Cons.prems(4) [of x] by (cases "f x") auto
  moreover have "set (map key (f x)) \<inter> set (map key (concat (map f xs))) = {}"
    using Cons.prems by (fastforce simp: inj_on_def)
  moreover have "inj_on g (set xs)" using Cons.prems(2) by simp
  then have "distinct (map key (concat (map f xs)))"
    using Cons.prems(1,3,4) by (intro Cons.IH) auto
  ultimately show ?case by simp
qed

lemma set_all_slots: "(k1, k2, i) \<in> set all_slots \<longleftrightarrow> k1 < 2 ^ LEVEL1_SIZE \<and> k2 < 2 ^ LEVEL2_SIZE \<and> i < 2"
  by (auto simp: all_slots_def simp del: upt_Suc)

lemma block_base_inj: "inj_on (\<lambda>(k1, k2, i). block_base k1 k2 i) (set all_slots)"
proof (rule inj_onI)
  fix x y
  assume xy: "x \<in> set all_slots" "y \<in> set all_slots"
    "(\<lambda>(k1, k2, i). block_base k1 k2 i) x = (\<lambda>(k1, k2, i). block_base k1 k2 i) y"
  obtain k1 k2 i l1 l2 j where x: "x = (k1, k2, i)" and y: "y = (l1, l2, j)" by (metis prod_cases3)
  have in_slots: "(k1, k2, i) \<in> set all_slots" "(l1, l2, j) \<in> set all_slots"
    and eq: "block_base k1 k2 i = block_base l1 l2 j" using xy x y by simp_all
  have split: "block_base k k' n div 2 ^ 27 = (k * 2 ^ 11 + k') * 2 + n" for k k' n
    by (simp add: block_base_def div_mult_self1_is_m algebra_simps)
  have i: "i < 2" "j < 2" "k2 < 2 ^ 11" "l2 < 2 ^ 11"
    using in_slots by (simp_all add: set_all_slots LEVEL2_SIZE_def)
  have e: "(k1 * 2 ^ 11 + k2) * 2 + i = (l1 * 2 ^ 11 + l2) * 2 + j" using eq split by metis
  then have ij: "i = j" using i(1,2) by (metis mod_less mod_mult_self3)
  then have "k1 * 2 ^ 11 + k2 = l1 * 2 ^ 11 + l2" using e by simp
  moreover have "(k1 * 2 ^ 11 + k2) div 2 ^ 11 = k1" "(l1 * 2 ^ 11 + l2) div 2 ^ 11 = l1"
    using i(3,4) by simp_all
  ultimately show "x = y" using ij x y by auto
qed

lemma destroy_ok:
  assumes "ilkey_ok il"
  shows "distinct (map om_addr (mlx5_destroy_implicit_lkey il))"
    "set (mlx5_destroy_implicit_lkey il) = {mr\<lparr>om_relaxed := False\<rparr> | mr k1 k2 i. mr_in il k1 k2 i = Some mr}"
proof -
  have slot: "mr_at_slot k1 k2 i mr" if "mr_in il k1 k2 i = Some mr" for k1 k2 i mr
    using assms that by (simp add: ilkey_ok_def)
  have d: "distinct all_slots" by (simp add: all_slots_def distinct_product del: upt_Suc)
  have "distinct (map (unat \<circ> om_addr) (concat (map (released_mr il) all_slots)))"
  proof (rule distinct_keys_concat [OF d block_base_inj])
    fix x y
    assume "x \<in> set all_slots" "y \<in> set (released_mr il x)"
    then show "(unat \<circ> om_addr) y = (\<lambda>(k1, k2, i). block_base k1 k2 i) x"
      using slot by (auto simp: released_mr_def mr_at_slot_def split: option.splits prod.splits)
  qed (auto simp: released_mr_def split: option.splits)
  then have "distinct (map unat (map om_addr (mlx5_destroy_implicit_lkey il)))"
    unfolding destroy_eq by simp
  then show "distinct (map om_addr (mlx5_destroy_implicit_lkey il))" by (simp only: distinct_map [of unat])
  show "set (mlx5_destroy_implicit_lkey il) = {mr\<lparr>om_relaxed := False\<rparr> | mr k1 k2 i. mr_in il k1 k2 i = Some mr}"
  proof -
    have "set (mlx5_destroy_implicit_lkey il) = (\<Union>s \<in> set all_slots. set (released_mr il s))"
      by (simp add: destroy_eq)
    also have "\<dots> = {mr\<lparr>om_relaxed := False\<rparr> | mr k1 k2 i. (k1, k2, i) \<in> set all_slots \<and> mr_in il k1 k2 i = Some mr}"
      by (force simp: released_mr_def split: option.splits)
    also have "\<dots> = {mr\<lparr>om_relaxed := False\<rparr> | mr k1 k2 i. mr_in il k1 k2 i = Some mr}"
      using slot by (fastforce simp: set_all_slots mr_at_slot_def)
    finally show ?thesis .
  qed
qed

end
