(* ===== verification/Odp_Props.thy ===== *)
theory Odp_Props
  imports Implicit_Correct
begin

text \<open>
  What \<open>implicit_lkey.c\<close> guarantees of regions registered on first use, with instances on an
  empty table whose surroundings grant every request.
\<close>

definition odp_env :: ilkey_env where
  "odp_env = \<lparr>level1_mem = True, level2_mem = (\<lambda>_. True),
     exp_reg_mr = (\<lambda>a n acc. Some \<lparr>om_addr = 0, om_length = 0, om_lkey = 7, om_relaxed = False, om_odp = False\<rparr>),
     exp_prefetch_mr = (\<lambda>mr a n. 0)\<rparr>"

definition empty_ilkey :: mlx5_implicit_lkey where
  "empty_ilkey = \<lparr>il_table = None, il_access = {IBV_EXP_ACCESS_ON_DEMAND}\<rparr>"

lemma odp_env_works [simp]: "generous odp_env" "prefetch_works odp_env"
  by (simp_all add: odp_env_def generous_def prefetch_works_def)

lemma empty_ilkey_ok [simp]: "ilkey_ok empty_ilkey"
  by (simp add: empty_ilkey_def ilkey_ok_new)

section \<open>Looking up\<close>

text \<open>C22: the region that is found covers the range, or the process ends. For an address below
  \<open>2 ^ 49\<close> and fewer than 256 MB, with memory and registrations granted, the look-up returns a region
  that covers the range when the range (and one byte more) stays in its 256 MB block, or starts in the
  block's upper half and ends within the region shifted by 128 MB; every other range, such as 200 MB
  from the 100th megabyte on, passes the size check and runs into the final assertion.\<close>

theorem odp_lookup_covers_or_asserts:
  assumes "ilkey_ok il" and "unat addr < 2 ^ 49" and "unat len < 2 ^ 28" and "generous env"
  shows "if fits addr len
    then \<exists>mr il'. mlx5_get_real_mr_from_implicit_lkey env il addr len = Inr (0, Some mr, il') \<and>
      covers mr addr len \<and> ilkey_ok il'
    else mlx5_get_real_mr_from_implicit_lkey env il addr len = Inl (Die ''assert'')"
proof -
  obtain mr where "region env il addr len = Some mr" using region_generous [OF assms(4)] by blast
  from get_real_mr_some [OF assms(1-3) this] show ?thesis by (auto split: if_splits)
qed

theorem odp_lookup_covers_or_asserts_witness:
  "(\<exists>mr il'. mlx5_get_real_mr_from_implicit_lkey odp_env empty_ilkey 0x1FFFFFF0 64 = Inr (0, Some mr, il') \<and>
      covers mr 0x1FFFFFF0 64) \<and>
   mlx5_get_real_mr_from_implicit_lkey odp_env empty_ilkey 0x6400000 0xC800000 = Inl (Die ''assert'')"
proof
  have "fits 0x1FFFFFF0 64" by (simp add: fits_def)
  then show "\<exists>mr il'. mlx5_get_real_mr_from_implicit_lkey odp_env empty_ilkey 0x1FFFFFF0 64 = Inr (0, Some mr, il') \<and>
      covers mr 0x1FFFFFF0 64"
    using odp_lookup_covers_or_asserts [of empty_ilkey "0x1FFFFFF0" 64 odp_env] by auto
  have "\<not> fits 0x6400000 0xC800000" by (simp add: fits_def)
  then show "mlx5_get_real_mr_from_implicit_lkey odp_env empty_ilkey 0x6400000 0xC800000 = Inl (Die ''assert'')"
    using odp_lookup_covers_or_asserts [of empty_ilkey "0x6400000" "0xC800000" odp_env] by auto
qed

text \<open>A run of look-ups, each with its own surroundings.\<close>

definition look_ups :: "(ilkey_env \<times> u64 \<times> u64) list \<Rightarrow> mlx5_implicit_lkey \<Rightarrow> mlx5_implicit_lkey res" where
  "look_ups = foldR (\<lambda>(env, addr, len) il.
     bindR (mlx5_get_real_mr_from_implicit_lkey env il addr len) (\<lambda>(r, mr, il). Inr il))"

lemma look_ups_keep:
  assumes "look_ups reqs il = Inr il'" "ilkey_ok il" "\<forall>(env, addr, len) \<in> set reqs. unat addr < 2 ^ 49"
    and "mr_in il k1 k2 i = Some mr"
  shows "ilkey_ok il' \<and> mr_in il' k1 k2 i = Some mr"
proof (rule foldR_invariant [OF assms(1) [unfolded look_ups_def]])
  show "ilkey_ok il \<and> mr_in il k1 k2 i = Some mr" using assms(2,4) by simp
next
  fix x s t
  assume x: "x \<in> set reqs" "ilkey_ok s \<and> mr_in s k1 k2 i = Some mr"
    and run: "(case x of (env, addr, len) \<Rightarrow> \<lambda>il. bindR (mlx5_get_real_mr_from_implicit_lkey env il addr len)
      (\<lambda>(r, mr, il). Inr il)) s = Inr t"
  obtain env addr len where e: "x = (env, addr, len)" by (metis prod_cases3)
  obtain r m where "mlx5_get_real_mr_from_implicit_lkey env s addr len = Inr (r, m, t)"
    using run by (auto simp: e bindR_eq_Inr)
  then show "ilkey_ok t \<and> mr_in t k1 k2 i = Some mr"
    using get_real_mr_keeps(1,2) [of s addr env len r m t] x assms(3) e by auto
qed

text \<open>C23: a region is registered once and kept. When a look-up returned a region, a later look-up of
  a range with the same slot returns the same region and registers none (the table does not change),
  whatever was looked up in between and whatever the surroundings answer, unless the range is one that
  the region does not cover, where the assertion fails.\<close>

theorem odp_region_registered_once:
  assumes "ilkey_ok il" and "mlx5_get_real_mr_from_implicit_lkey env il addr len = Inr (0, Some mr, il1)"
    and "look_ups reqs il1 = Inr il2" and "\<forall>(env, addr, len) \<in> set reqs. unat addr < 2 ^ 49"
    and "unat addr < 2 ^ 49" and "unat addr' < 2 ^ 49" and "unat len' < 2 ^ 28"
    and "key1_of addr' = key1_of addr" and "key2_of addr' = key2_of addr"
    and "mr_idx_in_pair addr' len' = mr_idx_in_pair addr len"
  shows "mlx5_get_real_mr_from_implicit_lkey env' il2 addr' len' = Inl (Die ''assert'') \<and> \<not> covers mr addr' len' \<or>
    (\<exists>il3. mlx5_get_real_mr_from_implicit_lkey env' il2 addr' len' = Inr (0, Some mr, il3) \<and>
      mr_in il3 = mr_in il2 \<and> covers mr addr' len')"
proof -
  have "ilkey_ok il1" "mr_in il1 (key1_of addr) (key2_of addr) (mr_idx_in_pair addr len) = Some mr"
    using get_real_mr_keeps(1,3) [OF assms(1,5,2)] by auto
  then have 2: "ilkey_ok il2" "mr_in il2 (key1_of addr') (key2_of addr') (mr_idx_in_pair addr' len') = Some mr"
    using look_ups_keep [OF assms(3) _ assms(4)] assms(8-10) by auto
  have "mr_at_slot (key1_of addr') (key2_of addr') (mr_idx_in_pair addr' len') mr"
    using 2 by (simp add: ilkey_ok_def)
  note slot = slot_covers [OF this assms(6,7)]
  show ?thesis
    using get_real_mr_some [OF 2(1) assms(6,7) region_known [OF 2(2)], of env'] 2(2) slot
    by (auto simp: fun_upd_idem split: if_splits)
qed

theorem odp_region_registered_once_witness:
  "\<exists>mr il1 il2. mlx5_get_real_mr_from_implicit_lkey odp_env empty_ilkey 0x10000000 64 = Inr (0, Some mr, il1) \<and>
    look_ups [(odp_env, 0x20000000, 16)] il1 = Inr il2 \<and>
    (\<exists>il3. mlx5_get_real_mr_from_implicit_lkey (odp_env\<lparr>exp_reg_mr := \<lambda>_ _ _. None\<rparr>) il2 0x10000100 64 =
      Inr (0, Some mr, il3))"
proof -
  have fit: "fits 0x10000000 64" "fits 0x20000000 16" "fits 0x10000100 64" by (simp_all add: fits_def)
  obtain mr il1 where 1: "mlx5_get_real_mr_from_implicit_lkey odp_env empty_ilkey 0x10000000 64 = Inr (0, Some mr, il1)"
    "ilkey_ok il1"
    using odp_lookup_covers_or_asserts [of empty_ilkey "0x10000000" 64 odp_env] fit(1) by auto
  obtain m il2 where "mlx5_get_real_mr_from_implicit_lkey odp_env il1 0x20000000 16 = Inr (0, Some m, il2)"
    using odp_lookup_covers_or_asserts [of il1 "0x20000000" 16 odp_env] fit(2) 1(2) by auto
  then have 2: "look_ups [(odp_env, 0x20000000, 16)] il1 = Inr il2" by (simp add: look_ups_def)
  have keys: "key1_of 0x10000100 = key1_of 0x10000000" "key2_of 0x10000100 = key2_of 0x10000000"
    "mr_idx_in_pair 0x10000100 64 = mr_idx_in_pair 0x10000000 64"
    by (simp_all add: keys_eq idx_eq leaves_block_def)
  have "mr_at_slot (key1_of 0x10000000) (key2_of 0x10000000) (mr_idx_in_pair 0x10000000 64) mr"
    using get_real_mr_keeps(3) [OF empty_ilkey_ok _ 1(1)] 1(2) by (auto simp: ilkey_ok_def)
  then have "covers mr 0x10000100 64" using slot_covers [of "0x10000100" 64 mr] keys fit(3) by simp
  then show ?thesis
    using odp_region_registered_once [OF empty_ilkey_ok 1(1) 2 _ _ _ _ keys,
        of "odp_env\<lparr>exp_reg_mr := \<lambda>_ _ _. None\<rparr>"] 1(1) 2 by auto
qed

section \<open>Prefetching\<close>

text \<open>C24: prefetching covers its range exactly. For a range below \<open>2 ^ 49\<close>, of any length, the loop
  ends and never runs into the assertion; its calls of \<open>ibv_exp_prefetch_mr\<close> follow each other without
  gap or overlap from the start of the range, each within the region it names, up to the end when the
  result is 0, and the result is 0 when every request is granted.\<close>

theorem odp_prefetch_tiles_range:
  assumes "ilkey_ok il" and "unat addr + unat len \<le> 2 ^ 49"
  shows "\<exists>r t il' e. mlx5_prefetch_implicit_lkey env il addr len = Inr (r, t, il') \<and> ilkey_ok il' \<and>
    tiles t (unat addr) e \<and> e \<le> unat addr + unat len \<and> (r = 0 \<longrightarrow> e = unat addr + unat len) \<and>
    (prefetch_works env \<longrightarrow> r = 0)"
proof -
  have s: "unat (addr + len) = unat addr + unat len" using assms(2) by (simp add: unat_word_ariths)
  then have le: "addr \<le> addr + len" by (simp add: word_le_nat_alt)
  then have "mlx5_prefetch_implicit_lkey env il addr len = prefetch_loop env il addr (addr + len) []"
    by (simp add: mlx5_prefetch_implicit_lkey_def Let_def leD)
  then show ?thesis
    using prefetch_loop_ok [OF assms(1) le, of env "[]"] assms(2) s by auto
qed

theorem odp_prefetch_tiles_range_witness:
  "\<exists>t il'. mlx5_prefetch_implicit_lkey odp_env empty_ilkey 0x6400000 0xC800000 = Inr (0, t, il') \<and>
    tiles t 0x6400000 0x12C00000"
  using odp_prefetch_tiles_range [of empty_ilkey "0x6400000" "0xC800000" odp_env] by auto

section \<open>Addresses the check lets through\<close>

text \<open>The keys of an address and of the same address with its upper 15 bits set.\<close>

lemma take_49_iff: "take_bit 49 x = take_bit 49 y \<longleftrightarrow> unat x mod 2 ^ 49 = unat y mod 2 ^ 49" for x y :: u64
  by (simp only: word_unat_eq_iff unsigned_take_bit_eq) (simp only: take_bit_eq_mod)

lemma carry_49: "unat (x + y) mod 2 ^ 49 = (unat x mod 2 ^ 49 + unat y) mod 2 ^ 49" for x y :: u64
proof -
  have "(2::nat) ^ 49 dvd 2 ^ LENGTH(64)" by simp
  then show ?thesis unfolding unat_word_ariths by (simp only: mod_mod_cancel mod_add_left_eq)
qed

lemma take_same:
  assumes "take_bit 49 a = take_bit 49 (b :: u64)"
  shows "key1_of a = key1_of b" "key2_of a = key2_of b" "mr_idx_in_pair a n = mr_idx_in_pair b n"
proof -
  have bits: "bit x k = bit y k" if "take_bit 49 x = take_bit 49 y" "k < 49" for x y :: u64 and k
    using arg_cong [OF that(1), of "\<lambda>z. bit z k"] that(2) by (simp add: bit_take_bit_iff)
  show "key1_of a = key1_of b" unfolding key1_of_def MASK_eq ilkey_sizes
    by (intro arg_cong [where f = unat] bit_word_eqI) (auto simp: bit_simps bits [OF assms])
  show "key2_of a = key2_of b" unfolding key2_of_def MASK_eq ilkey_sizes
    by (intro arg_cong [where f = unat] bit_word_eqI) (auto simp: bit_simps bits [OF assms])
  have sum: "take_bit 49 (a + n + 1) = take_bit 49 (b + n + 1)"
    using assms unfolding take_49_iff add.assoc carry_49 by simp
  have low: "drop_bit 28 x AND 1 = drop_bit 28 y AND 1" if "take_bit 49 x = take_bit 49 y" for x y :: u64
    by (rule bit_word_eqI) (auto simp: bit_simps bits [OF that])
  show "mr_idx_in_pair a n = mr_idx_in_pair b n"
    unfolding mr_idx_in_pair_def MR_SIZE_def low [OF assms] low [OF sum] by (rule refl)
qed

text \<open>The check for canonical addresses lets two addresses share a slot. It looks at bits 49 to 63
  only, which may be all clear or all set, while the keys use bits 28 to 48: once a region was
  registered for an address below \<open>2 ^ 49\<close>, looking up the address with the upper 15 bits set finds that
  region in its slot and runs into the assertion. (The comment says that the check refuses
  addresses that are not canonical; for an address and its counterpart one of the two is not.)\<close>

theorem odp_upper_half_asserts:
  assumes "ilkey_ok il" and "unat addr < 2 ^ 49"
    and "mlx5_get_real_mr_from_implicit_lkey env il addr len = Inr (0, Some mr, il1)"
    and "addr' = addr OR NOT (mask 49)" and "unat addr' + unat len < 2 ^ 64"
  shows "mlx5_get_real_mr_from_implicit_lkey env' il1 addr' len = Inl (Die ''assert'')"
proof -
  have len: "drop_bit MR_SIZE len = 0"
    using assms(3) by (auto simp: mlx5_get_real_mr_from_implicit_lkey_def Let_def EINVAL_def split: if_splits)
  have "take_bit 49 addr' = take_bit 49 addr"
    unfolding assms(4) by (rule bit_word_eqI) (auto simp: bit_simps)
  note same = take_same [OF this]
  have msb: "drop_bit ADDR_EFFECTIVE_BITS addr' = drop_bit ADDR_EFFECTIVE_BITS (NOT 0)"
    unfolding assms(4) ilkey_sizes by (rule bit_word_eqI) (auto simp: bit_simps dest: bit_imp_le_length)
  have slot: "ilkey_ok il1" "mr_in il1 (key1_of addr') (key2_of addr') (mr_idx_in_pair addr' len) = Some mr"
    using get_real_mr_keeps(1,3) [OF assms(1-3)] same by auto
  then have at: "mr_at_slot (key1_of addr') (key2_of addr') (mr_idx_in_pair addr' len) mr"
    by (simp add: ilkey_ok_def)
  have "NOT (mask 49) \<le> addr'" unfolding assms(4) by (simp add: le_word_or1)
  then have "2 ^ 64 - 2 ^ 49 \<le> unat addr'"
    by (simp add: word_le_nat_alt mask_eq_exp_minus_1)
  then have high: "2 ^ 64 - 2 ^ 49 \<le> unat (addr' + len)"
    using assms(5) by (simp add: unat_word_ariths)
  have "unat (om_addr mr + om_length mr) < 2 ^ 51"
    using slot_small [OF at] at by (simp add: mr_at_slot_def unat_word_ariths)
  with high have no: "\<not> addr' + len \<le> om_addr mr + om_length mr" by (simp add: word_le_nat_alt)
  obtain t l where "il_table il1 = Some t" "t (key1_of addr') = Some l"
    "l (key2_of addr') (mr_idx_in_pair addr' len) = Some mr"
    using slot(2) by (auto simp: mr_in_def split: option.splits)
  then show ?thesis
    using len msb no by (simp add: mlx5_get_real_mr_from_implicit_lkey_def Let_def level1_of_def level2_of_def slot_mr_def)
qed

theorem odp_upper_half_asserts_witness:
  "\<exists>mr il1. mlx5_get_real_mr_from_implicit_lkey odp_env empty_ilkey 0x1000000000000 16 = Inr (0, Some mr, il1) \<and>
    mlx5_get_real_mr_from_implicit_lkey odp_env il1 0xFFFF000000000000 16 = Inl (Die ''assert'')"
proof -
  have "fits 0x1000000000000 16" by (simp add: fits_def)
  then obtain mr il1 where 1: "mlx5_get_real_mr_from_implicit_lkey odp_env empty_ilkey 0x1000000000000 16 =
      Inr (0, Some mr, il1)"
    using odp_lookup_covers_or_asserts [of empty_ilkey "0x1000000000000" 16 odp_env] by auto
  have "0xFFFF000000000000 = (0x1000000000000 :: u64) OR NOT (mask 49)" by (simp add: mask_eq_exp_minus_1)
  from odp_upper_half_asserts [OF empty_ilkey_ok _ 1 this, of odp_env] 1 show ?thesis by auto
qed

section \<open>Destroying\<close>

text \<open>C25: destroying a table deregisters each of its regions once, with the flag cleared that would
  have made \<open>ibv_dereg_mr\<close> keep it, and nothing else.\<close>

theorem odp_destroy_releases_each_once:
  assumes "ilkey_ok il"
  shows "distinct (map om_addr (mlx5_destroy_implicit_lkey il)) \<and>
    set (mlx5_destroy_implicit_lkey il) = {mr\<lparr>om_relaxed := False\<rparr> | mr k1 k2 i. mr_in il k1 k2 i = Some mr}"
  using destroy_ok [OF assms] by simp

theorem odp_destroy_releases_each_once_witness:
  "\<exists>mr il1. mlx5_get_real_mr_from_implicit_lkey odp_env empty_ilkey 0x10000000 64 = Inr (0, Some mr, il1) \<and>
    mr\<lparr>om_relaxed := False\<rparr> \<in> set (mlx5_destroy_implicit_lkey il1)"
proof -
  have "fits 0x10000000 64" by (simp add: fits_def)
  then obtain mr il1 where 1: "mlx5_get_real_mr_from_implicit_lkey odp_env empty_ilkey 0x10000000 64 = Inr (0, Some mr, il1)"
    "ilkey_ok il1"
    using odp_lookup_covers_or_asserts [of empty_ilkey "0x10000000" 64 odp_env] by auto
  have "mr_in il1 (key1_of 0x10000000) (key2_of 0x10000000) (mr_idx_in_pair 0x10000000 64) = Some mr"
    using get_real_mr_keeps(3) [OF empty_ilkey_ok _ 1(1)] by simp
  then show ?thesis using odp_destroy_releases_each_once [OF 1(2)] 1(1) by blast
qed

end
