(* ===== verification/Drv_Send.thy ===== *)
theory Drv_Send
  imports Qp Post_Send
begin

text \<open>
  The send side of a queue pair in the driver: the fields of \<open>struct mlx5_qp\<close> beside those of \<open>Qp\<close> that
  building send entries uses, and the doorbell of the driver's \<open>doorbell.h\<close>. The blue-flame page is part
  of the memory. \<open>ss_locked\<close> is the lock of the send queue: taking it while it is held never returns.
\<close>

section \<open>State\<close>

record mlx5_bf =
  dbf_reg :: nat
  dbf_offset :: u32
  dbf_buf_size :: u32
  dbf_method :: mlx5_db_method

datatype mpw_state = MLX5_MPW_STATE_CLOSED | MLX5_MPW_STATE_OPENED | MLX5_MPW_STATE_OPENED_INL
  | MLX5_MPW_STATE_OPENING

text \<open>\<open>mp_last_dseg\<close> and \<open>mp_inl_data\<close> share their place in the code; a state uses one of them.\<close>

record mpw_data =
  mp_state :: mpw_state
  mp_size :: u8
  mp_num_sge :: u8
  mp_len :: u32
  mp_total_len :: u32
  mp_flags :: u32
  mp_scur_post :: u32
  mp_last :: nat
  mp_ctrl_update :: nat

text \<open>
  The queue pair, \<open>gen_data.last_post\<close> and \<open>fm_cache\<close>, the doorbell page, the open multi-packet entry, the
  table of control flags, the largest inline message, and whether the queue pair sends raw Ethernet
  packets (\<open>qp_type\<close> and \<open>link_layer\<close>). The send doorbell record is at \<open>wq_db\<close> of the send queue.
\<close>

record send_side =
  ss_qp :: mlx5_qp
  ss_last_post :: u32
  ss_fm_cache :: u8
  ss_bf :: mlx5_bf
  ss_mpw :: mpw_data
  ss_fm_ce_se_acc :: "u8 list"
  ss_max_inline :: u32
  ss_raw_eth :: bool
  ss_locked :: bool

text \<open>The lock of a thread-safe queue: taking it while it is held waits for ever, as nobody else runs. (For
  a queue of a single thread \<open>mlx5_lock\<close> keeps the state in the lock itself and aborts there.)\<close>

definition lock_sq :: "send_side \<Rightarrow> send_side res" where
  "lock_sq s = (if ss_locked s then Inl (Fault Deadlock) else Inr (s\<lparr>ss_locked := True\<rparr>))"

definition unlock_sq :: "send_side \<Rightarrow> send_side" where
  "unlock_sq s = s\<lparr>ss_locked := False\<rparr>"

definition wqe_at :: "send_side \<Rightarrow> u32 \<Rightarrow> nat" where
  "wqe_at s i = mlx5_get_send_wqe (ss_qp s) (i AND (wq_wqe_cnt (q_sq (ss_qp s)) - 1))"

section \<open>The doorbell\<close>

text \<open>\<open>MLX5_PAIR_TO_64\<close> on a little-endian machine: the first eight bytes of the entry in one store.\<close>

definition drv_write64 :: "nat \<Rightarrow> nat \<Rightarrow> memory \<Rightarrow> memory res" where
  "drv_write64 val dest m =
     bindR (load32 (val + 4) m) (\<lambda>v1. bindR (load32 val m) (\<lambda>v0.
       store64 dest (push_bit 32 (ucast v1) OR ucast v0) m))"

definition drv_bf_copy :: "nat \<Rightarrow> nat \<Rightarrow> u32 \<Rightarrow> mlx5_qp \<Rightarrow> memory \<Rightarrow> memory res" where
  "drv_bf_copy dst src bytecnt qp m = bf_copy_blocks (unat bytecnt div 64) dst src (q_sqend qp) (q_sqstart qp) m"

text \<open>The blue-flame methods differ in their barriers and locks only.\<close>

definition drv_ring_db :: "mlx5_db_method \<Rightarrow> u32 \<Rightarrow> nat \<Rightarrow> int \<Rightarrow> send_side \<Rightarrow> memory \<Rightarrow>
    (send_side \<times> memory) res" where
  "drv_ring_db db_method curr_post seg sz s m =
     (let s = s\<lparr>ss_last_post := curr_post, ss_mpw := (ss_mpw s)\<lparr>mp_state := MLX5_MPW_STATE_CLOSED\<rparr>\<rparr>;
          bf = ss_bf s; dst = dbf_reg bf + unat (dbf_offset bf);
          flipped = s\<lparr>ss_bf := bf\<lparr>dbf_offset := dbf_offset bf XOR dbf_buf_size bf\<rparr>\<rparr> in
      bindR (store32 (wq_db (q_sq (ss_qp s))) (htonl curr_post) m) (\<lambda>m.
        case db_method of
          MLX5_DB_METHOD_DB \<Rightarrow> bindR (drv_write64 seg dst m) (\<lambda>m. Inr (s, m))
        | _ \<Rightarrow> bindR (if of_int sz \<le> dbf_buf_size bf div 64
                    then drv_bf_copy dst seg (of_int (sz * 64)) (ss_qp s) m
                    else mlx5_write_db dst seg m) (\<lambda>m. Inr (flipped, m))))"

end
