(* ===== verification/Tag_Ops.thy ===== *)
theory Tag_Ops
  imports Tag_Matching Drv_Send
begin

text \<open>
  Posting the operations of tag matching: \<open>mlx5_exp_post_srq_ops\<close> of \<open>qp.c\<close>. A receive with a tag takes the
  first free entry of the tag list, a removal and a synchronisation only send a command; each becomes an
  entry of one block in the send queue of the command queue pair, and a signalled one leaves a note
  in the ring \<open>op\<close>, which its completion takes up (\<open>Tag_Matching\<close>).
\<close>

section \<open>Requests\<close>

datatype ops_opcode = IBV_EXP_WR_TAG_ADD | IBV_EXP_WR_TAG_DEL | IBV_EXP_WR_TAG_SYNC | Other_Ops nat

text \<open>\<open>struct ibv_exp_ops_wr\<close>; the flags are \<open>IBV_EXP_OPS_SIGNALED\<close> and \<open>IBV_EXP_OPS_TM_SYNC\<close>.\<close>

record ops_wr =
  ow_wr_id :: u64
  ow_opcode :: ops_opcode
  ow_signaled :: bool
  ow_sync :: bool
  ow_unexpected_cnt :: u32
  ow_handle :: u32
  ow_recv_wr_id :: u64
  ow_num_sge :: int
  ow_sg_list :: "ibv_sge list option"
  ow_tag :: u64
  ow_mask :: u64

definition MLX5_TM_OPCODE_NOP :: u8 where "MLX5_TM_OPCODE_NOP = 0x00"
definition MLX5_TM_OPCODE_APPEND :: u8 where "MLX5_TM_OPCODE_APPEND = 0x01"
definition MLX5_TM_OPCODE_REMOVE :: u8 where "MLX5_TM_OPCODE_REMOVE = 0x02"
definition MLX5_OPCODE_TAG_MATCHING :: u8 where "MLX5_OPCODE_TAG_MATCHING = 0x28"

section \<open>The tag-matching segment\<close>

text \<open>Fields an operation has no use for keep what the block held before.\<close>

definition set_tm_seg :: "nat \<Rightarrow> u8 \<Rightarrow> ops_wr \<Rightarrow> nat \<Rightarrow> memory \<Rightarrow> memory res" where
  "set_tm_seg seg op wr index m =
     bindR (store8 (seg + 1) ((if ow_signaled wr then 0x80 else 0) OR (if ow_sync wr then 0x40 else 0)) m) (\<lambda>m.
     bindR (if ow_sync wr then store16 (seg + 6) (htons (ucast (ow_unexpected_cnt wr))) m else Inr m) (\<lambda>m.
     bindR (store8 seg (push_bit 4 op) m) (\<lambda>m.
       if op = MLX5_TM_OPCODE_NOP then Inr m
       else bindR (store16 (seg + 2) (htons (of_nat index)) m) (\<lambda>m.
            if op = MLX5_TM_OPCODE_REMOVE then Inr m
            else bindR (store64 (seg + 16) (htonll (ow_tag wr)) m) (store64 (seg + 24) (htonll (ow_mask wr)))))))"

section \<open>The notes for completions\<close>

text \<open>\<open>op_tail\<close> is an \<open>int\<close>.\<close>

definition mlx5_tm_add_op :: "nat option \<Rightarrow> u64 \<Rightarrow> nat \<Rightarrow> mlx5_qp \<Rightarrow> srq_object \<Rightarrow> srq_object res" where
  "mlx5_tm_add_op tag wrid nreq qp s =
     bindR (next_index True (op_tail s)) (\<lambda>tl'.
     bindR (write_at (srq_ops s) (unat (op_tail s AND (wq_wqe_cnt (q_sq qp) - 1)))
              \<lparr>op_tag = tag, op_wr_id = wrid, op_wqe_head = wq_head (q_sq qp) + of_nat nreq + 1\<rparr>) (\<lambda>ops.
       let s = s\<lparr>srq_ops := ops, op_tail := tl'\<rparr> in
       case tag of
         None \<Rightarrow> Inr s
       | Some i \<Rightarrow> bindR (read_at (tm_list s) i) (\<lambda>t. Inr (set_tag i (t\<lparr>tag_expect_cqe := tag_expect_cqe t + 1\<rparr>) s))))"

definition note_op :: "ops_wr \<Rightarrow> nat option \<Rightarrow> nat \<Rightarrow> mlx5_qp \<Rightarrow> srq_object \<Rightarrow> srq_object res" where
  "note_op wr tag nreq qp s = (if ow_signaled wr then mlx5_tm_add_op tag (ow_wr_id wr) nreq qp s else Inr s)"

section \<open>One operation\<close>

text \<open>What the surroundings of a request are: the queue, the domain for on-demand keys, the memory.\<close>

type_synonym ops_state = "srq_object \<times> mlx5_pd \<times> memory"

text \<open>A receive with a tag: the first free entry \<open>i\<close> with successor \<open>nxt\<close> is taken; its handle is \<open>i\<close>. The
  index in the segment is the successor's. The result of \<open>set_data_ptr_seg\<close> is not looked at.\<close>

definition post_tag_add :: "ilkey_env \<Rightarrow> ops_wr \<Rightarrow> nat \<Rightarrow> nat \<Rightarrow> mlx5_qp \<Rightarrow> nat \<Rightarrow> nat \<Rightarrow> ops_state \<Rightarrow> ops_state res" where
  "post_tag_add env wr nreq seg qp i nxt = (\<lambda>(s, pd, m).
     bindR (read_at (tm_list s) i) (\<lambda>t.
     bindR (set_tm_seg seg MLX5_TM_OPCODE_APPEND wr nxt m) (\<lambda>m.
       let cnt = (if ow_sync wr then ow_unexpected_cnt wr else unexp_out s);
           t = t\<lparr>tag_next := None, tag_wr_id := ow_recv_wr_id wr, tag_phase_cnt := cnt, tag_expect_cqe := tag_expect_cqe t + 1\<rparr> in
       bindR (note_op wr (Some i) nreq qp ((set_tag i t s)\<lparr>tm_head := nxt, unexp_out := cnt\<rparr>)) (\<lambda>s.
         let data = (if seg + 32 = q_sqend qp then mlx5_get_send_wqe qp 0 else seg + 32) in
         bindR (if ow_num_sge wr = 0 then Inr None
                else bindR (sge_at (ow_sg_list wr) 0) (\<lambda>sg. Inr (if sg_length sg = 0 then None else Some sg))) (\<lambda>sg.
           case sg of
             None \<Rightarrow> bindR (set_data_ptr_seg_end data m) (\<lambda>m. Inr (s, pd, m))
           | Some sg \<Rightarrow>
               bindR (mlx5_set_data_ptr_seg env data sg pd 0 m) (\<lambda>(_, pd, m).
               bindR (read_at (tm_list s) i) (\<lambda>t.
                 Inr (set_tag i (t\<lparr>tag_ptr := unat (sg_addr sg), tag_size := sg_length sg\<rparr>) s, pd, m))))))))"

text \<open>The segments behind the control segment at \<open>seg - 16\<close>: the error, the request with its handle, the
  size of the entry in units of 16 bytes.\<close>

definition post_op_segs :: "ilkey_env \<Rightarrow> ops_wr \<Rightarrow> nat \<Rightarrow> nat \<Rightarrow> mlx5_qp \<Rightarrow> ops_state \<Rightarrow>
    (int \<times> ops_wr \<times> u8 \<times> ops_state) res" where
  "post_op_segs env wr nreq seg qp = (\<lambda>(s, pd, m).
     case ow_opcode wr of
       IBV_EXP_WR_TAG_ADD \<Rightarrow>
         bindR (read_at (tm_list s) (tm_head s)) (\<lambda>t.
           case tag_next t of
             None \<Rightarrow> Inr (ENOMEM, wr, 1, (s, pd, m))
           | Some nxt \<Rightarrow>
               bindR (post_tag_add env wr nreq seg qp (tm_head s) nxt (s, pd, m)) (\<lambda>st.
                 Inr (0, wr\<lparr>ow_handle := of_nat (tm_head s)\<rparr>, 1 + 2 + 1, st)))
     | IBV_EXP_WR_TAG_DEL \<Rightarrow>
         let i = unat (ow_handle wr) in
         bindR (set_tm_seg seg MLX5_TM_OPCODE_REMOVE wr i m) (\<lambda>m.
         bindR (if ow_signaled wr then mlx5_tm_add_op (Some i) (ow_wr_id wr) nreq qp s else mlx5_tm_release_tag i s) (\<lambda>s.
           Inr (0, wr, 1 + 2, (s, pd, m))))
     | IBV_EXP_WR_TAG_SYNC \<Rightarrow>
         bindR (set_tm_seg seg MLX5_TM_OPCODE_NOP wr 0 m) (\<lambda>m.
         bindR (note_op wr None nreq qp s) (\<lambda>s. Inr (0, wr, 1 + 2, (s, pd, m))))
     | Other_Ops n \<Rightarrow> Inr (EINVAL, wr, 1, (s, pd, m)))"

text \<open>The loop: the error, the requests posted (with their handles) and those not, the entry and the
  size last looked at, the state. The number of posted requests is counted from \<open>nreq\<close>.\<close>

fun ops_loop :: "ilkey_env \<Rightarrow> ops_wr list \<Rightarrow> ops_wr list \<Rightarrow> nat \<Rightarrow> u8 \<Rightarrow> mlx5_qp \<Rightarrow> ops_state \<Rightarrow>
    (int \<times> ops_wr list \<times> ops_wr list \<times> nat \<times> u8 \<times> mlx5_qp \<times> ops_state) res" where
  "ops_loop env [] done' ring sz qp st = Inr (0, done', [], ring, sz, qp, st)"
| "ops_loop env (wr # wrs) done' ring sz qp st =
     (let nreq = length done' in
      if mlx5_wq_overflow (q_sq qp) nreq then Inr (ENOMEM, done', wr # wrs, ring, sz, qp, st)
      else let ctrl = mlx5_get_send_wqe qp (q_scur_post qp AND (wq_wqe_cnt (q_sq qp) - 1)) in
           bindR (post_op_segs env wr nreq (ctrl + 16) qp st) (\<lambda>(err, wr, sz, (s, pd, m)).
             if err \<noteq> 0 then Inr (err, done', wr # wrs, ring, sz, qp, (s, pd, m))
             else bindR (set_ctrl_seg ctrl (q_num qp) MLX5_OPCODE_TAG_MATCHING (ucast (q_scur_post qp)) 0 sz 0 0 m) (\<lambda>m.
                  ops_loop env wrs (done' @ [wr]) ctrl sz
                    (qp\<lparr>q_scur_post := q_scur_post qp + of_nat (unat sz * 16 + 63) div 64\<rparr>) (s, pd, m))))"

text \<open>\<open>mlx5_exp_post_srq_ops\<close>: the error, the requests posted and those not, the queue, its command queue
  pair, and the memory.\<close>

definition mlx5_exp_post_srq_ops :: "ilkey_env \<Rightarrow> ops_wr list \<Rightarrow> srq_object \<Rightarrow> send_side \<Rightarrow> mlx5_pd \<Rightarrow> memory \<Rightarrow>
    (int \<times> ops_wr list \<times> ops_wr list \<times> srq_object \<times> send_side \<times> mlx5_pd \<times> memory) res" where
  "mlx5_exp_post_srq_ops env wrs s cmd pd m =
     (if cmd_qp s = 0 then Inr (EINVAL, [], wrs, s, cmd, pd, m)
      else bindR (ops_loop env wrs [] 0 0 (ss_qp cmd) (s, pd, m)) (\<lambda>(err, done', bad_wr, ring, sz, qp, (s, pd, m)).
        if done' = [] then Inr (err, done', bad_wr, s, cmd\<lparr>ss_qp := qp\<rparr>, pd, m)
        else let qp = qp\<lparr>q_sq := (q_sq qp)\<lparr>wq_head := wq_head (q_sq qp) + of_nat (length done')\<rparr>\<rparr> in
             bindR (drv_ring_db (dbf_method (ss_bf cmd)) (q_scur_post qp AND 0xffff) ring ((uint sz + 3) div 4)
                      (cmd\<lparr>ss_qp := qp\<rparr>) m) (\<lambda>(cmd, m).
               Inr (err, done', bad_wr, s, cmd, pd, m))))"

end
