(* ===== verification/Tag_Correct.thy ===== *)
theory Tag_Correct
  imports Tag_Ops Srq_Correct
begin

text \<open>
  The tag list of a tag-matching queue as a queue of free entries. The entries that wait for no
  completion form a chain from \<open>tm_head\<close> to \<open>tm_tail\<close>, of which the last one always stays; posting a receive
  takes the first, and the last completion an entry waits for appends it.
\<close>

section \<open>The chain of free entries\<close>

fun tag_chain :: "mlx5_tag_entry list \<Rightarrow> nat list \<Rightarrow> bool" where
  "tag_chain ts [] \<longleftrightarrow> True"
| "tag_chain ts [i] \<longleftrightarrow> tag_next (ts ! i) = None"
| "tag_chain ts (i # j # F) \<longleftrightarrow> tag_next (ts ! i) = Some j \<and> tag_chain ts (j # F)"

definition tags_ok :: "srq_object \<Rightarrow> nat list \<Rightarrow> bool" where
  "tags_ok s F \<longleftrightarrow> F \<noteq> [] \<and> distinct F \<and> tm_head s = hd F \<and> tm_tail s = last F \<and> tag_chain (tm_list s) F \<and>
     (\<forall>i. i \<in> set F \<longleftrightarrow> i < length (tm_list s) \<and> tag_expect_cqe (tm_list s ! i) = 0)"

definition waits :: "srq_object \<Rightarrow> nat \<Rightarrow> u8 \<Rightarrow> bool" where
  "waits s i n \<longleftrightarrow> i < length (tm_list s) \<and> tag_expect_cqe (tm_list s ! i) = n"

lemma tag_chain_cong:
  "\<forall>i \<in> set F. tag_next (ts ! i) = tag_next (ts' ! i) \<Longrightarrow> tag_chain ts F = tag_chain ts' F"
  by (induction ts F rule: tag_chain.induct) auto

lemma tag_chain_tl: "tag_chain ts (i # F) \<Longrightarrow> tag_chain ts F"
  by (cases F) auto

text \<open>The end of the chain linked to a new last entry.\<close>

lemma tag_chain_snoc:
  assumes "F \<noteq> []" and "distinct F" and "x \<notin> set F" and "tag_chain ts F"
    and "\<forall>i \<in> set F. i \<noteq> last F \<longrightarrow> tag_next (ts' ! i) = tag_next (ts ! i)"
    and "tag_next (ts' ! last F) = Some x" and "tag_next (ts' ! x) = None"
  shows "tag_chain ts' (F @ [x])"
  using assms
proof (induction F rule: tag_chain.induct)
  case (3 _ i j F)
  have "i \<noteq> last (j # F)" using 3(3) by (metis distinct.simps(2) last_in_set list.distinct(1))
  then show ?case using 3 by auto
qed auto

lemma tags_ok_lt: "tags_ok s F \<Longrightarrow> i \<in> set F \<Longrightarrow> i < length (tm_list s)"
  by (auto simp: tags_ok_def)

lemma tags_ok_free: "tags_ok s F \<Longrightarrow> waits s i n \<Longrightarrow> n \<noteq> 0 \<Longrightarrow> i \<notin> set F"
  by (auto simp: tags_ok_def waits_def)

lemma set_tag_simps [simp]:
  "tm_list (set_tag i t s) = (tm_list s)[i := t]" "tm_head (set_tag i t s) = tm_head s"
  "tm_tail (set_tag i t s) = tm_tail s" "op_tail (set_tag i t s) = op_tail s" "op_head (set_tag i t s) = op_head s"
  "srq_ops (set_tag i t s) = srq_ops s" "cmd_qp (set_tag i t s) = cmd_qp s" "unexp_out (set_tag i t s) = unexp_out s"
  "so_srq (set_tag i t s) = so_srq s" "so_type (set_tag i t s) = so_type s" "so_rsn (set_tag i t s) = so_rsn s"
  by (simp_all add: set_tag_def)

section \<open>Releasing an entry\<close>

text \<open>What a release leaves: everything but the tags' counters and links, and the tail.\<close>

definition same_tags :: "srq_object \<Rightarrow> srq_object \<Rightarrow> bool" where
  "same_tags s s' \<longleftrightarrow> s' = s\<lparr>tm_list := tm_list s', tm_tail := tm_tail s'\<rparr> \<and> length (tm_list s') = length (tm_list s) \<and>
     (\<forall>i. i < length (tm_list s) \<longrightarrow> tag_wr_id (tm_list s' ! i) = tag_wr_id (tm_list s ! i) \<and>
        tag_phase_cnt (tm_list s' ! i) = tag_phase_cnt (tm_list s ! i) \<and>
        tag_ptr (tm_list s' ! i) = tag_ptr (tm_list s ! i) \<and> tag_size (tm_list s' ! i) = tag_size (tm_list s ! i))"

text \<open>The free entries after an entry that waits for \<open>n\<close> completions has got one.\<close>

definition freed_tag :: "nat \<Rightarrow> u8 \<Rightarrow> nat list \<Rightarrow> nat list" where
  "freed_tag i n F = (if n = 1 then F @ [i] else F)"

lemma release_tag_waiting:
  assumes ok: "tags_ok s F" and w: "waits s i n" "n \<noteq> 0" "n \<noteq> 1"
  shows "\<exists>s'. mlx5_tm_release_tag i s = Inr s' \<and> tags_ok s' F \<and> waits s' i (n - 1) \<and> same_tags s s' \<and>
    (\<forall>j k. j \<noteq> i \<longrightarrow> waits s' j k = waits s j k)"
proof -
  let ?t = "tm_list s ! i"
  let ?s' = "set_tag i (?t\<lparr>tag_expect_cqe := tag_expect_cqe ?t - 1\<rparr>) s"
  have lt: "i < length (tm_list s)" and e: "tag_expect_cqe ?t = n" using w(1) by (simp_all add: waits_def)
  have "mlx5_tm_release_tag i s = Inr ?s'"
    using w lt e by (simp add: mlx5_tm_release_tag_def read_at_def Let_def)
  moreover have "tags_ok ?s' F"
  proof -
    have "tag_chain (tm_list ?s') F \<longleftrightarrow> tag_chain (tm_list s) F"
      by (rule tag_chain_cong) (simp add: nth_list_update lt)
    moreover have "n - 1 \<noteq> 0" using w(3) by simp
    then have "tag_expect_cqe (tm_list ?s' ! j) = 0 \<longleftrightarrow> tag_expect_cqe (tm_list s ! j) = 0" if "j < length (tm_list s)" for j
      using that w(2) e lt by (auto simp: nth_list_update)
    ultimately show ?thesis using ok unfolding tags_ok_def by (simp cong: conj_cong)
  qed
  moreover have "waits ?s' i (n - 1)" using lt e by (simp add: waits_def)
  moreover have "waits ?s' j k = waits s j k" if "j \<noteq> i" for j k using that by (simp add: waits_def)
  moreover have "same_tags s ?s'" using lt by (simp add: same_tags_def set_tag_def nth_list_update)
  ultimately show ?thesis by blast
qed

lemma release_tag_last:
  assumes ok: "tags_ok s F" and w: "waits s i 1"
  shows "\<exists>s'. mlx5_tm_release_tag i s = Inr s' \<and> tags_ok s' (F @ [i]) \<and> waits s' i 0 \<and> same_tags s s' \<and>
    (\<forall>j k. j \<noteq> i \<longrightarrow> waits s' j k = waits s j k)"
proof -
  let ?t = "tm_list s ! i" and ?l = "last F"
  have lt: "i < length (tm_list s)" and e: "tag_expect_cqe ?t = 1" using w by (simp_all add: waits_def)
  have F: "F \<noteq> []" "distinct F" "i \<notin> set F" "tm_tail s = ?l" "tm_head s = hd F" "tag_chain (tm_list s) F"
    using ok e by (auto simp: tags_ok_def)
  have free: "j \<in> set F \<longleftrightarrow> j < length (tm_list s) \<and> tag_expect_cqe (tm_list s ! j) = 0" for j
    using ok unfolding tags_ok_def by blast
  have "?l \<in> set F" using F(1) by simp
  then have l: "?l < length (tm_list s)" "?l \<noteq> i" using F(3) free by auto
  let ?ts = "(tm_list s)[i := ?t\<lparr>tag_expect_cqe := 0, tag_next := None\<rparr>, ?l := (tm_list s ! ?l)\<lparr>tag_next := Some i\<rparr>]"
  let ?s' = "s\<lparr>tm_list := ?ts, tm_tail := i\<rparr>"
  have run: "mlx5_tm_release_tag i s = Inr ?s'"
    using lt e l F(4) by (simp add: mlx5_tm_release_tag_def read_at_def Let_def set_tag_def nth_list_update)
  have chain: "tag_chain ?ts (F @ [i])"
    by (rule tag_chain_snoc [OF F(1-3,6)]) (use lt l F(3) in \<open>auto simp: nth_list_update\<close>)
  have ex: "tag_expect_cqe (?ts ! j) = (if j = i then 0 else tag_expect_cqe (tm_list s ! j))" if "j < length (tm_list s)" for j
    using that lt l by (simp add: nth_list_update)
  have "j \<in> set (F @ [i]) \<longleftrightarrow> j < length ?ts \<and> tag_expect_cqe (?ts ! j) = 0" for j
    using free [of j] ex [of j] lt by auto
  then have "tags_ok ?s' (F @ [i])"
    unfolding tags_ok_def using F chain by simp
  moreover have "waits ?s' j k = waits s j k" if "j \<noteq> i" for j k using that ex [of j] by (auto simp: waits_def)
  moreover have "waits ?s' i 0" using lt ex [of i] by (simp add: waits_def)
  moreover have "same_tags s ?s'" using lt l by (auto simp: same_tags_def nth_list_update)
  ultimately show ?thesis using run by blast
qed

lemma release_tag:
  assumes "tags_ok s F" and "waits s i n" and "n \<noteq> 0"
  shows "\<exists>s'. mlx5_tm_release_tag i s = Inr s' \<and> tags_ok s' (freed_tag i n F) \<and> waits s' i (n - 1) \<and> same_tags s s' \<and>
    (\<forall>j k. j \<noteq> i \<longrightarrow> waits s' j k = waits s j k)"
  using release_tag_waiting [OF assms] release_tag_last [OF assms(1)] assms(2) by (cases "n = 1") (auto simp: freed_tag_def)

section \<open>Posting\<close>

lemma set_tm_seg_ok:
  assumes "mapped m seg 32"
  shows "\<exists>m'. set_tm_seg seg op wr index m = Inr m' \<and> keeps_mapped m m'"
proof -
  note sub = mapped_sub [OF assms]
  have "mapped m seg 1" "mapped m (Suc seg) 1" "mapped m (seg + 2) 2" "mapped m (seg + 6) 2" "mapped m (seg + 16) 8"
    "mapped m (seg + 24) 8" by (simp_all add: sub)
  then show ?thesis by (auto simp: set_tm_seg_def stores_mapped keeps_mapped_def Let_def simp del: upd_bytes.simps)
qed

text \<open>A request whose segment, if it has one, names its region.\<close>

definition plain_op :: "ops_wr \<Rightarrow> bool" where
  "plain_op wr \<longleftrightarrow> ow_num_sge wr = 0 \<or>
     (\<exists>sg sgs. ow_sg_list wr = Some (sg # sgs) \<and> sg_lkey sg \<noteq> ODP_GLOBAL_R_LKEY \<and> sg_lkey sg \<noteq> ODP_GLOBAL_W_LKEY)"

definition op_sge :: "ops_wr \<Rightarrow> ibv_sge option" where
  "op_sge wr = (if ow_num_sge wr = 0 then None
     else case ow_sg_list wr of Some (sg # sgs) \<Rightarrow> if sg_length sg = 0 then None else Some sg | _ \<Rightarrow> None)"

lemma op_sge_read:
  assumes "plain_op wr"
  shows "(if ow_num_sge wr = 0 then Inr None
    else bindR (sge_at (ow_sg_list wr) 0) (\<lambda>sg. Inr (if sg_length sg = 0 then None else Some sg))) = Inr (op_sge wr)"
  using assms by (auto simp: plain_op_def op_sge_def sge_at_def)

text \<open>Room for one more note: the slot exists and the counter does not overflow.\<close>

definition note_room :: "mlx5_qp \<Rightarrow> srq_object \<Rightarrow> bool" where
  "note_room qp s \<longleftrightarrow> op_tail s \<noteq> 0x7FFFFFFF \<and>
     unat (op_tail s AND (wq_wqe_cnt (q_sq qp) - 1)) < length (srq_ops s)"

definition op_slot :: "mlx5_qp \<Rightarrow> u32 \<Rightarrow> nat" where
  "op_slot qp n = unat (n AND (wq_wqe_cnt (q_sq qp) - 1))"

definition note_for :: "ops_wr \<Rightarrow> nat option \<Rightarrow> nat \<Rightarrow> mlx5_qp \<Rightarrow> mlx5_srq_op" where
  "note_for wr tag nreq qp = \<lparr>op_tag = tag, op_wr_id = ow_wr_id wr, op_wqe_head = wq_head (q_sq qp) + of_nat nreq + 1\<rparr>"

text \<open>The notes after a request.\<close>

definition noted :: "ops_wr \<Rightarrow> nat option \<Rightarrow> nat \<Rightarrow> mlx5_qp \<Rightarrow> srq_object \<Rightarrow> srq_object" where
  "noted wr tag nreq qp s =
     (if ow_signaled wr then s\<lparr>srq_ops := (srq_ops s)[op_slot qp (op_tail s) := note_for wr tag nreq qp], op_tail := op_tail s + 1\<rparr>
      else s)"

lemma noted_simps [simp]:
  "tm_list (noted wr tag nreq qp s) = tm_list s" "tm_head (noted wr tag nreq qp s) = tm_head s"
  "tm_tail (noted wr tag nreq qp s) = tm_tail s" "op_head (noted wr tag nreq qp s) = op_head s"
  "cmd_qp (noted wr tag nreq qp s) = cmd_qp s" "unexp_out (noted wr tag nreq qp s) = unexp_out s"
  by (simp_all add: noted_def)

lemma note_op_run:
  assumes "ow_signaled wr \<Longrightarrow> note_room qp s" and "\<And>i. tag = Some i \<Longrightarrow> i < length (tm_list s)"
  shows "note_op wr tag nreq qp s = Inr (case tag of
      None \<Rightarrow> noted wr tag nreq qp s
    | Some i \<Rightarrow> if ow_signaled wr
        then set_tag i ((tm_list s ! i)\<lparr>tag_expect_cqe := tag_expect_cqe (tm_list s ! i) + 1\<rparr>) (noted wr tag nreq qp s) else s)"
  using assms
  by (auto simp: note_op_def mlx5_tm_add_op_def next_index_def write_at_def read_at_def note_room_def noted_def op_slot_def
      note_for_def split: option.splits)

text \<open>The list after a receive is posted to its first free entry.\<close>

definition added_tag :: "ops_wr \<Rightarrow> nat \<Rightarrow> srq_object \<Rightarrow> mlx5_tag_entry" where
  "added_tag wr i s = (let t = tm_list s ! i in
     t\<lparr>tag_next := None, tag_wr_id := ow_recv_wr_id wr,
       tag_phase_cnt := if ow_sync wr then ow_unexpected_cnt wr else unexp_out s,
       tag_expect_cqe := if ow_signaled wr then 2 else 1,
       tag_ptr := case op_sge wr of None \<Rightarrow> tag_ptr t | Some sg \<Rightarrow> unat (sg_addr sg),
       tag_size := case op_sge wr of None \<Rightarrow> tag_size t | Some sg \<Rightarrow> sg_length sg\<rparr>)"

definition added :: "ops_wr \<Rightarrow> nat \<Rightarrow> mlx5_qp \<Rightarrow> nat \<Rightarrow> nat \<Rightarrow> srq_object \<Rightarrow> srq_object" where
  "added wr nreq qp i nxt s =
     (noted wr (Some i) nreq qp s)\<lparr>tm_list := (tm_list s)[i := added_tag wr i s], tm_head := nxt,
        unexp_out := if ow_sync wr then ow_unexpected_cnt wr else unexp_out s\<rparr>"

lemma post_tag_add_run:
  assumes i: "i < length (tm_list s)" "tag_expect_cqe (tm_list s ! i) = 0" and m: "mapped m seg 48"
    and seg: "seg + 32 \<noteq> q_sqend qp" and op: "plain_op wr" and room: "ow_signaled wr \<Longrightarrow> note_room qp s"
  shows "\<exists>m'. post_tag_add env wr nreq seg qp i nxt (s, pd, m) = Inr (added wr nreq qp i nxt s, pd, m') \<and> keeps_mapped m m'"
proof -
  have "mapped m seg 32" using m by (rule mapped_sub) simp_all
  then obtain m1 where m1: "set_tm_seg seg MLX5_TM_OPCODE_APPEND wr nxt m = Inr m1" "keeps_mapped m m1"
    using set_tm_seg_ok by blast
  have m2: "mapped m1 (seg + 32) 16" by (rule mapped_sub [OF keeps_mappedD [OF m1(2) m]]) simp_all
  let ?cnt = "if ow_sync wr then ow_unexpected_cnt wr else unexp_out s"
  let ?t = "(tm_list s ! i)\<lparr>tag_next := None, tag_wr_id := ow_recv_wr_id wr, tag_phase_cnt := ?cnt, tag_expect_cqe := 1\<rparr>"
  let ?s = "(set_tag i ?t s)\<lparr>tm_head := nxt, unexp_out := ?cnt\<rparr>"
  have nt: "note_op wr (Some i) nreq qp ?s = Inr (if ow_signaled wr
      then set_tag i (?t\<lparr>tag_expect_cqe := 2\<rparr>) (noted wr (Some i) nreq qp ?s) else ?s)"
    using i room by (subst note_op_run) (auto simp: note_room_def)
  let ?s1 = "if ow_signaled wr then set_tag i (?t\<lparr>tag_expect_cqe := 2\<rparr>) (noted wr (Some i) nreq qp ?s) else ?s"
  have t1: "i < length (tm_list ?s1)" using i by simp
  show ?thesis
  proof (cases "op_sge wr")
    case None
    have "?s1 = added wr nreq qp i nxt s"
      using i None by (auto simp: added_def added_tag_def noted_def set_tag_def Let_def)
    then show ?thesis using None i(1,2) m1 m2 seg
      by (auto simp: post_tag_add_def read_at_def Let_def nt op_sge_read [OF op] set_data_ptr_seg_end_def set_scat_end end_bytes_def
          intro: keeps_mapped_trans)
  next
    case (Some sg)
    have plain: "sg_lkey sg \<noteq> ODP_GLOBAL_R_LKEY" "sg_lkey sg \<noteq> ODP_GLOBAL_W_LKEY"
      using Some op by (auto simp: op_sge_def plain_op_def split: if_splits)
    let ?t1 = "tm_list ?s1 ! i"
    have "set_tag i (?t1\<lparr>tag_ptr := unat (sg_addr sg), tag_size := sg_length sg\<rparr>) ?s1 = added wr nreq qp i nxt s"
      using i Some by (auto simp: added_def added_tag_def noted_def set_tag_def Let_def)
    then show ?thesis using Some i(1,2) m1 m2 seg t1 plain
      by (auto simp: post_tag_add_def read_at_def Let_def nt op_sge_read [OF op] mlx5_set_data_ptr_seg_def set_scat_sge
          intro: keeps_mapped_trans)
  qed
qed

lemma added_fields [simp]:
  "tm_head (added wr nreq qp i nxt s) = nxt" "tm_tail (added wr nreq qp i nxt s) = tm_tail s"
  "tm_list (added wr nreq qp i nxt s) = (tm_list s)[i := added_tag wr i s]"
  "cmd_qp (added wr nreq qp i nxt s) = cmd_qp s" "op_head (added wr nreq qp i nxt s) = op_head s"
  "length (srq_ops (added wr nreq qp i nxt s)) = length (srq_ops s)"
  "op_tail (added wr nreq qp i nxt s) = (if ow_signaled wr then op_tail s + 1 else op_tail s)"
  by (simp_all add: added_def noted_def)

lemma added_tag_fields [simp]:
  "tag_next (added_tag wr i s) = None" "tag_wr_id (added_tag wr i s) = ow_recv_wr_id wr"
  "tag_expect_cqe (added_tag wr i s) = (if ow_signaled wr then 2 else 1)"
  by (simp_all add: added_tag_def Let_def)

lemma added_ok:
  assumes ok: "tags_ok s (i # j # F)"
  shows "tags_ok (added wr nreq qp i j s) (j # F)"
    and "waits (added wr nreq qp i j s) i (if ow_signaled wr then 2 else 1)"
    and "x \<noteq> i \<Longrightarrow> waits (added wr nreq qp i j s) x n = waits s x n"
proof -
  have free: "x \<in> set (i # j # F) \<longleftrightarrow> x < length (tm_list s) \<and> tag_expect_cqe (tm_list s ! x) = 0" for x
    using ok unfolding tags_ok_def by blast
  have i: "i < length (tm_list s)" using free [of i] by simp
  have d: "distinct (i # j # F)" "tag_chain (tm_list s) (i # j # F)" "tm_tail s = last (j # F)" using ok by (auto simp: tags_ok_def)
  have "tag_chain ((tm_list s)[i := added_tag wr i s]) (j # F) \<longleftrightarrow> tag_chain (tm_list s) (j # F)"
    by (rule tag_chain_cong) (metis d(1) distinct.simps(2) nth_list_update_neq)
  moreover have "x \<in> set (j # F) \<longleftrightarrow>
      x < length (tm_list s) \<and> tag_expect_cqe ((tm_list s)[i := added_tag wr i s] ! x) = 0" for x
    using free [of x] i d(1) by (cases "x = i") auto
  ultimately show "tags_ok (added wr nreq qp i j s) (j # F)"
    unfolding tags_ok_def using d by (simp cong: conj_cong)
  show "waits (added wr nreq qp i j s) i (if ow_signaled wr then 2 else 1)" using i by (simp add: waits_def)
  show "x \<noteq> i \<Longrightarrow> waits (added wr nreq qp i j s) x n = waits s x n" by (simp add: waits_def)
qed

section \<open>Posting a list of receives\<close>

text \<open>The send queue of the command queue pair: its blocks are memory, and as many as a power of two.\<close>

definition cmd_room :: "mlx5_qp \<Rightarrow> memory \<Rightarrow> bool" where
  "cmd_room qp m \<longleftrightarrow> (\<exists>k. unat (wq_wqe_cnt (q_sq qp)) = 2 ^ k) \<and>
     mapped m (q_sqstart qp) (64 * unat (wq_wqe_cnt (q_sq qp))) \<and>
     q_sqend qp = q_sqstart qp + 64 * unat (wq_wqe_cnt (q_sq qp)) \<and> unat (wq_max_post (q_sq qp)) < 2 ^ 31 \<and>
     unat (wq_head (q_sq qp) - wq_tail (q_sq qp)) \<le> unat (wq_max_post (q_sq qp))"

definition sq_free :: "mlx5_qp \<Rightarrow> nat" where
  "sq_free qp = unat (wq_max_post (q_sq qp)) - unat (wq_head (q_sq qp) - wq_tail (q_sq qp))"

lemma cmd_block:
  assumes "cmd_room qp m"
  shows "mapped m (mlx5_get_send_wqe qp (n AND (wq_wqe_cnt (q_sq qp) - 1))) 64"
    and "mlx5_get_send_wqe qp (n AND (wq_wqe_cnt (q_sq qp) - 1)) + 48 \<noteq> q_sqend qp"
    and "unat (n AND (wq_wqe_cnt (q_sq qp) - 1)) < unat (wq_wqe_cnt (q_sq qp))"
proof -
  let ?c = "wq_wqe_cnt (q_sq qp)"
  obtain k where k: "unat ?c = 2 ^ k" using assms by (auto simp: cmd_room_def)
  have "unat (n AND (?c - 1)) = unat n mod unat ?c" by (rule unat_and_pow2 [OF k])
  then show lt: "unat (n AND (?c - 1)) < unat ?c" using k by simp
  have at: "mlx5_get_send_wqe qp (n AND (?c - 1)) = q_sqstart qp + 64 * unat (n AND (?c - 1))"
    by (simp add: mlx5_get_send_wqe_def push_bit_eq_mult)
  show "mapped m (mlx5_get_send_wqe qp (n AND (?c - 1))) 64"
    unfolding at by (rule mapped_sub [where n = "64 * unat ?c"]) (use assms lt in \<open>auto simp: cmd_room_def\<close>)
  show "mlx5_get_send_wqe qp (n AND (?c - 1)) + 48 \<noteq> q_sqend qp"
    unfolding at using assms lt by (simp add: cmd_room_def)
qed

lemma sq_overflow_iff:
  assumes "unat (wq_max_post (q_sq qp)) < 2 ^ 31" and "unat (wq_head (q_sq qp) - wq_tail (q_sq qp)) \<le> unat (wq_max_post (q_sq qp))"
    and "n < 2 ^ 31"
  shows "mlx5_wq_overflow (q_sq qp) n \<longleftrightarrow> sq_free qp \<le> n"
proof -
  have "unat (wq_head (q_sq qp) - wq_tail (q_sq qp) + of_nat n) = unat (wq_head (q_sq qp) - wq_tail (q_sq qp)) + n"
    using assms by (simp add: unat_word_ariths unat_of_nat)
  then show ?thesis by (auto simp: mlx5_wq_overflow_def sq_free_def word_less_nat_alt not_less)
qed

lemma post_add_step:
  assumes room: "cmd_room qp m" and n: "nreq < sq_free qp" and op: "ow_opcode wr = IBV_EXP_WR_TAG_ADD" "plain_op wr"
    and ok: "tags_ok s (i # j # F)" and nr: "ow_signaled wr \<Longrightarrow> note_room qp s" and l: "length done' = nreq"
  shows "\<exists>m' ring. ops_loop env (wr # wrs) done' ring0 sz0 qp (s, pd, m) =
      ops_loop env wrs (done' @ [wr\<lparr>ow_handle := of_nat i\<rparr>]) ring 4 (qp\<lparr>q_scur_post := q_scur_post qp + 1\<rparr>)
        (added wr nreq qp i j s, pd, m') \<and> keeps_mapped m m' \<and> mapped m' ring 64"
proof -
  let ?idx = "q_scur_post qp AND (wq_wqe_cnt (q_sq qp) - 1)"
  let ?ctrl = "mlx5_get_send_wqe qp ?idx"
  note blk = cmd_block [OF room, of "q_scur_post qp"]
  have "sq_free qp < 2 ^ 31" using room by (auto simp: cmd_room_def sq_free_def)
  then have over: "\<not> mlx5_wq_overflow (q_sq qp) nreq"
    using sq_overflow_iff [of qp nreq] room n by (auto simp: cmd_room_def)
  have seg: "mapped m (?ctrl + 16) 48" "?ctrl + 16 + 32 \<noteq> q_sqend qp"
    using mapped_sub [OF blk(1), of "?ctrl + 16" 48] blk(2) by simp_all
  have head: "tm_head s = i" "i < length (tm_list s)" "tag_expect_cqe (tm_list s ! i) = 0" "tag_next (tm_list s ! i) = Some j"
    using ok by (auto simp: tags_ok_def)
  obtain m1 where m1: "post_tag_add env wr nreq (?ctrl + 16) qp i j (s, pd, m) = Inr (added wr nreq qp i j s, pd, m1)"
    "keeps_mapped m m1"
    using post_tag_add_run [OF head(2,3) seg op(2) nr] by blast
  have segs: "post_op_segs env wr nreq (?ctrl + 16) qp (s, pd, m) =
      Inr (0, wr\<lparr>ow_handle := of_nat i\<rparr>, 4, (added wr nreq qp i j s, pd, m1))"
    using head m1 by (simp add: post_op_segs_def op(1) read_at_def)
  have "mapped m1 ?ctrl 16" by (rule mapped_sub [OF keeps_mappedD [OF m1(2) blk(1)]]) simp_all
  then obtain m2 where m2: "set_ctrl_seg ?ctrl (q_num qp) MLX5_OPCODE_TAG_MATCHING (ucast (q_scur_post qp)) 0 4 0 0 m1 = Inr m2"
    "keeps_mapped m1 m2"
    using set_ctrl_seg_bytes [unfolded set_ctrl_seg_sig_def] by simp
  show ?thesis
    using over segs m2 l keeps_mapped_trans [OF m1(2) m2(2)] keeps_mappedD [OF _ blk(1)]
    by (intro exI [of _ m2] exI [of _ ?ctrl]) (simp add: Let_def)
qed

text \<open>How many receives of a list are posted: as many as the queue and the list have room for.\<close>

definition adds_admitted :: "nat \<Rightarrow> nat \<Rightarrow> nat list \<Rightarrow> ops_wr list \<Rightarrow> nat" where
  "adds_admitted free nreq F wrs = min (length wrs) (min (free - nreq) (length F - 1))"

definition handled :: "ops_wr list \<Rightarrow> nat list \<Rightarrow> ops_wr list" where
  "handled wrs F = map2 (\<lambda>wr i. wr\<lparr>ow_handle := of_nat i\<rparr>) wrs F"

definition adds_done :: "ops_wr list \<Rightarrow> nat list \<Rightarrow> nat \<Rightarrow> srq_object \<Rightarrow> srq_object \<Rightarrow> bool" where
  "adds_done wrs F k s s' \<longleftrightarrow> tags_ok s' (drop k F) \<and>
     (\<forall>l < k. waits s' (F ! l) (if ow_signaled (wrs ! l) then 2 else 1) \<and>
        tag_wr_id (tm_list s' ! (F ! l)) = ow_recv_wr_id (wrs ! l)) \<and>
     length (tm_list s') = length (tm_list s) \<and> (\<forall>x. x \<notin> set (take k F) \<longrightarrow> tm_list s' ! x = tm_list s ! x) \<and>
     cmd_qp s' = cmd_qp s"

lemma adds_done_0: "tags_ok s F \<Longrightarrow> adds_done wrs F 0 s s"
  by (simp add: adds_done_def)

lemma adds_done_Suc:
  assumes ok: "tags_ok s (i # j # F)" and rest: "adds_done wrs (j # F) k (added wr nreq qp i j s) s'"
  shows "adds_done (wr # wrs) (i # j # F) (Suc k) s s'"
proof -
  have d: "distinct (i # j # F)" "i < length (tm_list s)" using ok by (auto simp: tags_ok_def)
  then have "i \<notin> set (take k (j # F))" by (meson distinct.simps(2) in_set_takeD)
  then have i: "tm_list s' ! i = added_tag wr i s" using rest d by (simp add: adds_done_def)
  show ?thesis unfolding adds_done_def
  proof (intro conjI allI impI)
    fix l assume l: "l < Suc k"
    show "waits s' ((i # j # F) ! l) (if ow_signaled ((wr # wrs) ! l) then 2 else 1)"
      using l rest i d by (cases l) (auto simp: adds_done_def waits_def)
    show "tag_wr_id (tm_list s' ! ((i # j # F) ! l)) = ow_recv_wr_id ((wr # wrs) ! l)"
      using l rest i by (cases l) (simp_all add: adds_done_def)
  next
    fix x assume "x \<notin> set (take (Suc k) (i # j # F))"
    then show "tm_list s' ! x = tm_list s ! x" using rest by (simp add: adds_done_def)
  qed (use rest in \<open>simp_all add: adds_done_def\<close>)
qed

lemma ops_loop_adds:
  assumes "\<forall>wr \<in> set wrs. ow_opcode wr = IBV_EXP_WR_TAG_ADD \<and> plain_op wr" and "cmd_room qp m" and "tags_ok s F"
    and "length (srq_ops s) = unat (wq_wqe_cnt (q_sq qp))" and "unat (op_tail s) + length wrs < 2 ^ 31"
    and "nreq + length wrs < 2 ^ 31" and "length done' = nreq" and "k = adds_admitted (sq_free qp) nreq F wrs"
  shows "\<exists>ring sz s' m'. ops_loop env wrs done' ring0 sz0 qp (s, pd, m) =
      Inr (if k = length wrs then 0 else ENOMEM, done' @ handled (take k wrs) (take k F), drop k wrs, ring, sz,
        qp\<lparr>q_scur_post := q_scur_post qp + of_nat k\<rparr>, (s', pd, m')) \<and> adds_done wrs F k s s' \<and> keeps_mapped m m' \<and>
      (mapped m ring0 64 \<and> sz0 \<in> {1, 4} \<or> 0 < k \<longrightarrow> mapped m' ring 64 \<and> sz \<in> {1, 4})"
  using assms
proof (induction wrs arbitrary: done' nreq ring0 sz0 qp s m F k)
  case Nil
  then show ?case using adds_done_0 by (auto simp: adds_admitted_def handled_def)
next
  case (Cons wr wrs)
  note P = Cons.prems
  have over: "mlx5_wq_overflow (q_sq qp) nreq \<longleftrightarrow> sq_free qp \<le> nreq"
    by (rule sq_overflow_iff) (use P(2,6) in \<open>auto simp: cmd_room_def\<close>)
  show ?case
  proof (cases "sq_free qp \<le> nreq")
    case True
    then show ?thesis using over P(3,7,8) adds_done_0 [OF P(3)] by (auto simp: adds_admitted_def handled_def Let_def)
  next
    case room: False
    obtain i F' where F: "F = i # F'" using P(3) by (cases F) (auto simp: tags_ok_def)
    show ?thesis
    proof (cases F')
      case Nil
      have "tm_head s = i" "i < length (tm_list s)" "tag_next (tm_list s ! i) = None"
        using P(3) by (auto simp: tags_ok_def F Nil)
      then show ?thesis using over room P(1,3,7,8) adds_done_0 [OF P(3)]
        by (auto simp: adds_admitted_def handled_def Let_def post_op_segs_def read_at_def F Nil ENOMEM_def)
    next
      case (Cons j G)
      have ok: "tags_ok s (i # j # G)" using P(3) by (simp add: F Cons)
      have nr: "note_room qp s" using P(4,5) cmd_block(3) [OF P(2)] by (auto simp: note_room_def)
      have op: "ow_opcode wr = IBV_EXP_WR_TAG_ADD" "plain_op wr" using P(1) by auto
      obtain m1 ring where step: "ops_loop env (wr # wrs) done' ring0 sz0 qp (s, pd, m) =
          ops_loop env wrs (done' @ [wr\<lparr>ow_handle := of_nat i\<rparr>]) ring 4 (qp\<lparr>q_scur_post := q_scur_post qp + 1\<rparr>)
            (added wr nreq qp i j s, pd, m1)" and m1: "keeps_mapped m m1" "mapped m1 ring 64"
        using post_add_step [OF P(2) _ op ok nr P(7)] room by (metis not_le)
      let ?qp = "qp\<lparr>q_scur_post := q_scur_post qp + 1\<rparr>" and ?k = "adds_admitted (sq_free qp) (Suc nreq) (j # G) wrs"
      have "cmd_room ?qp m1" "sq_free ?qp = sq_free qp"
        using P(2) keeps_mappedD [OF m1(1)] by (auto simp: cmd_room_def sq_free_def)
      moreover have "unat (op_tail (added wr nreq qp i j s)) + length wrs < 2 ^ 31"
        using P(5) by (auto simp: unat_plus_if_size word_size)
      ultimately obtain ring' sz s' m' where rest: "ops_loop env wrs (done' @ [wr\<lparr>ow_handle := of_nat i\<rparr>]) ring 4 ?qp
            (added wr nreq qp i j s, pd, m1) =
          Inr (if ?k = length wrs then 0 else ENOMEM, (done' @ [wr\<lparr>ow_handle := of_nat i\<rparr>]) @ handled (take ?k wrs) (take ?k (j # G)),
            drop ?k wrs, ring', sz, ?qp\<lparr>q_scur_post := q_scur_post ?qp + of_nat ?k\<rparr>, (s', pd, m'))"
        "adds_done wrs (j # G) ?k (added wr nreq qp i j s) s'" "keeps_mapped m1 m'" "mapped m' ring' 64 \<and> sz \<in> {1, 4}"
        using Cons.IH [where m = m1 and F = "j # G" and s = "added wr nreq qp i j s" and qp = ?qp and nreq = "Suc nreq"
            and done' = "done' @ [wr\<lparr>ow_handle := of_nat i\<rparr>]" and k = ?k
            and ?ring0.0 = ring and ?sz0.0 = 4] P added_ok(1) [OF ok] m1(2)
        by auto
      have k: "k = Suc ?k" using room P(8) by (auto simp: adds_admitted_def F Cons)
      show ?thesis
        unfolding step rest(1) F Cons k
        using adds_done_Suc [OF ok rest(2)] keeps_mapped_trans [OF m1(1) rest(3)] rest(4)
        by (intro exI [of _ ring'] exI [of _ sz] exI [of _ s'] exI [of _ m']) (auto simp: handled_def)
    qed
  qed
qed

section \<open>The doorbell of the command queue\<close>

text \<open>The doorbell record and the place of the page the next ring writes to are memory, and apart.\<close>

definition bell_ok :: "send_side \<Rightarrow> memory \<Rightarrow> bool" where
  "bell_ok s m \<longleftrightarrow> (let db = wq_db (q_sq (ss_qp s)); dst = dbf_reg (ss_bf s) + unat (dbf_offset (ss_bf s)) in
     mapped m db 4 \<and> mapped m dst 64 \<and> (db + 4 \<le> dst \<or> dst + 64 \<le> db))"

text \<open>Ringing for one block: the record has the counter, and what rang before is forgotten.\<close>

lemma ring_one_block:
  assumes "bell_ok s m" and "mapped m seg 64"
  shows "\<exists>s' m'. drv_ring_db meth cnt seg 1 s m = Inr (s', m') \<and> ss_qp s' = ss_qp s \<and> ss_last_post s' = cnt \<and>
    mp_state (ss_mpw s') = MLX5_MPW_STATE_CLOSED \<and> bytes_at m' (wq_db (q_sq (ss_qp s))) 4 = be32 cnt \<and> keeps_mapped m m'"
proof -
  let ?db = "wq_db (q_sq (ss_qp s))" and ?dst = "dbf_reg (ss_bf s) + unat (dbf_offset (ss_bf s))"
  have b: "mapped m ?db 4" "mapped m ?dst 64" "?db + 4 \<le> ?dst \<or> ?dst + 64 \<le> ?db"
    using assms(1) by (simp_all add: bell_ok_def Let_def)
  let ?m = "upd_bytes ?db (be32 cnt) m"
  have db: "store32 ?db (htonl cnt) m = Inr ?m" using b(1) by (simp add: store32_def byte_simps)
  have sub: "mapped ?m ?dst 64" "mapped ?m ?dst 8" "mapped ?m seg 64" "mapped ?m seg 8" "mapped ?m seg 4" "mapped ?m (seg + 4) 4"
    using b(2) assms(2) mapped_sub [OF b(2), of ?dst 8] mapped_sub [OF assms(2), of seg 8] mapped_sub [OF assms(2), of seg 4]
      mapped_sub [OF assms(2), of "seg + 4" 4] by simp_all
  have keep: "bytes_at (upd_bytes ?dst bs ?m) ?db 4 = be32 cnt" if "length bs \<le> 64" for bs
    using that b(3) by (subst bytes_at_disjoint) (auto simp: byte_simps)
  have one: "drv_bf_copy ?dst seg (of_int (1 * 64)) (ss_qp s) ?m = Inr (upd_bytes ?dst (bytes_at ?m seg 64) ?m)"
    using sub(1,3) by (simp add: drv_bf_copy_def Let_def flip: One_nat_def) (simp add: Let_def)
  have eight: "mlx5_write_db ?dst seg ?m = Inr (upd_bytes ?dst (bytes_at ?m seg 8) ?m)"
    using sub(2,4) by (simp add: mlx5_write_db_def)
  have w64: "\<exists>x. drv_write64 seg ?dst ?m = Inr (upd_bytes ?dst (le64 x) ?m)"
    using sub(2,5,6) by (simp add: drv_write64_def load32_def stores_mapped) blast
  let ?s = "s\<lparr>ss_last_post := cnt, ss_mpw := (ss_mpw s)\<lparr>mp_state := MLX5_MPW_STATE_CLOSED\<rparr>\<rparr>"
  have blue: "\<exists>m'. (if of_int 1 \<le> dbf_buf_size (ss_bf s) div 64 then drv_bf_copy ?dst seg (of_int (1 * 64)) (ss_qp s) ?m
      else mlx5_write_db ?dst seg ?m) = Inr m' \<and> bytes_at m' ?db 4 = be32 cnt \<and> keeps_mapped m m'"
    using one eight keep by (simp add: keeps_mapped_def)
  show ?thesis
  proof (cases "meth = MLX5_DB_METHOD_DB")
    case True
    then show ?thesis using db w64 keep by (auto simp: drv_ring_db_def Let_def keeps_mapped_def)
  next
    case False
    obtain m' where m': "(if of_int 1 \<le> dbf_buf_size (ss_bf s) div 64 then drv_bf_copy ?dst seg (of_int (1 * 64)) (ss_qp s) ?m
      else mlx5_write_db ?dst seg ?m) = Inr m'" "bytes_at m' ?db 4 = be32 cnt" "keeps_mapped m m'" using blue by blast
    then show ?thesis using False db
      by (intro exI [of _ "?s\<lparr>ss_bf := (ss_bf s)\<lparr>dbf_offset := dbf_offset (ss_bf s) XOR dbf_buf_size (ss_bf s)\<rparr>\<rparr>"] exI [of _ m'])
        (cases meth; simp add: drv_ring_db_def Let_def split: if_splits)
  qed
qed

text \<open>A list of receives, and the doorbell rung once.\<close>

lemma post_adds:
  assumes adds: "\<forall>wr \<in> set wrs. ow_opcode wr = IBV_EXP_WR_TAG_ADD \<and> plain_op wr" and cmd: "cmd_qp s \<noteq> 0"
    and room: "cmd_room (ss_qp cmd) m" and bell: "bell_ok cmd m" and ok: "tags_ok s F"
    and nts: "length (srq_ops s) = unat (wq_wqe_cnt (q_sq (ss_qp cmd)))" "unat (op_tail s) + length wrs < 2 ^ 31"
    and k: "k = adds_admitted (sq_free (ss_qp cmd)) 0 F wrs"
  shows "\<exists>s' cmd' m'. mlx5_exp_post_srq_ops env wrs s cmd pd m =
      Inr (if k = length wrs then 0 else ENOMEM, handled (take k wrs) (take k F), drop k wrs, s', cmd', pd, m') \<and>
    adds_done wrs F k s s' \<and> keeps_mapped m m' \<and>
    wq_head (q_sq (ss_qp cmd')) = wq_head (q_sq (ss_qp cmd)) + of_nat k \<and>
    q_scur_post (ss_qp cmd') = q_scur_post (ss_qp cmd) + of_nat k \<and>
    (0 < k \<longrightarrow> bytes_at m' (wq_db (q_sq (ss_qp cmd))) 4 = be32 (q_scur_post (ss_qp cmd) + of_nat k AND 0xffff))"
proof -
  let ?qp = "ss_qp cmd"
  obtain ring sz s1 m1 where loop: "ops_loop env wrs [] 0 0 ?qp (s, pd, m) =
      Inr (if k = length wrs then 0 else ENOMEM, [] @ handled (take k wrs) (take k F), drop k wrs, ring, sz,
        ?qp\<lparr>q_scur_post := q_scur_post ?qp + of_nat k\<rparr>, (s1, pd, m1))"
    "adds_done wrs F k s s1" "keeps_mapped m m1" "0 < k \<longrightarrow> mapped m1 ring 64 \<and> sz \<in> {1, 4}"
    using ops_loop_adds [OF adds room ok nts, of 0 "[]" k env 0 0 pd] nts(2) k by auto
  have F: "k \<le> length F" "k \<le> length wrs" using k by (auto simp: adds_admitted_def)
  show ?thesis
  proof (cases "k = 0")
    case True
    then show ?thesis using cmd loop by (auto simp: mlx5_exp_post_srq_ops_def handled_def)
  next
    case False
    let ?qp' = "?qp\<lparr>q_scur_post := q_scur_post ?qp + of_nat k, q_sq := (q_sq ?qp)\<lparr>wq_head := wq_head (q_sq ?qp) + of_nat k\<rparr>\<rparr>"
    let ?cmd = "cmd\<lparr>ss_qp := ?qp'\<rparr>"
    have len: "length (handled (take k wrs) (take k F)) = k" using F by (simp add: handled_def)
    have "bell_ok ?cmd m1" using bell keeps_mappedD [OF loop(3)] by (auto simp: bell_ok_def Let_def)
    then obtain cmd' m' where ring: "drv_ring_db (dbf_method (ss_bf cmd)) (q_scur_post ?qp + of_nat k AND 0xffff) ring 1 ?cmd m1 =
        Inr (cmd', m')" "ss_qp cmd' = ?qp'"
      "bytes_at m' (wq_db (q_sq ?qp)) 4 = be32 (q_scur_post ?qp + of_nat k AND 0xffff)" "keeps_mapped m1 m'"
      using ring_one_block [OF \<open>bell_ok ?cmd m1\<close>, of ring "dbf_method (ss_bf cmd)" "q_scur_post ?qp + of_nat k AND 0xffff"]
        loop(4) False by fastforce
    have "(uint sz + 3) div 4 = 1" using loop(4) False by auto
    then have "mlx5_exp_post_srq_ops env wrs s cmd pd m =
        Inr (if k = length wrs then 0 else ENOMEM, handled (take k wrs) (take k F), drop k wrs, s1, cmd', pd, m')"
      using cmd loop(1) False len ring(1) by (auto simp: mlx5_exp_post_srq_ops_def Let_def)
    then show ?thesis using loop(2) keeps_mapped_trans [OF loop(3) ring(4)] ring(2,3) by auto
  qed
qed

end
