(* ===== verification/Tag_Done.thy ===== *)
theory Tag_Done
  imports Tag_Correct
begin

text \<open>
  The completions of a receive with a tag: that of the operation that posted it, and that of its message.
  Each releases the entry once, so that whichever comes last puts it back at the end of the free entries.
\<close>

section \<open>One receive posted\<close>

lemma post_one_add:
  assumes op: "ow_opcode wr = IBV_EXP_WR_TAG_ADD" "plain_op wr" and cmd: "cmd_qp s \<noteq> 0" and room: "cmd_room (ss_qp cmd) m"
    and free: "0 < sq_free (ss_qp cmd)" and bell: "bell_ok cmd m" and ok: "tags_ok s (i # j # F)"
    and nr: "ow_signaled wr \<Longrightarrow> note_room (ss_qp cmd) s"
  shows "\<exists>cmd' m'. mlx5_exp_post_srq_ops env [wr] s cmd pd m =
      Inr (0, [wr\<lparr>ow_handle := of_nat i\<rparr>], [], added wr 0 (ss_qp cmd) i j s, cmd', pd, m') \<and> keeps_mapped m m' \<and>
    ss_qp cmd' = (ss_qp cmd)\<lparr>q_scur_post := q_scur_post (ss_qp cmd) + 1,
      q_sq := (q_sq (ss_qp cmd))\<lparr>wq_head := wq_head (q_sq (ss_qp cmd)) + 1\<rparr>\<rparr>"
proof -
  let ?qp = "ss_qp cmd"
  obtain m1 ring where loop: "ops_loop env [wr] [] 0 0 ?qp (s, pd, m) =
      Inr (0, [wr\<lparr>ow_handle := of_nat i\<rparr>], [], ring, 4, ?qp\<lparr>q_scur_post := q_scur_post ?qp + 1\<rparr>, (added wr 0 ?qp i j s, pd, m1))"
    "keeps_mapped m m1" "mapped m1 ring 64"
    using post_add_step [OF room free op ok nr, of "[]" env "[]" 0 0 pd] by auto
  let ?cmd = "cmd\<lparr>ss_qp := ?qp\<lparr>q_scur_post := q_scur_post ?qp + 1, q_sq := (q_sq ?qp)\<lparr>wq_head := wq_head (q_sq ?qp) + 1\<rparr>\<rparr>\<rparr>"
  have "bell_ok ?cmd m1" using bell keeps_mappedD [OF loop(2)] by (auto simp: bell_ok_def Let_def)
  from ring_one_block [OF this loop(3), of "dbf_method (ss_bf cmd)" "q_scur_post ?qp + 1 AND 0xffff"]
  obtain cmd' m' where "drv_ring_db (dbf_method (ss_bf cmd)) (q_scur_post ?qp + 1 AND 0xffff) ring 1 ?cmd m1 = Inr (cmd', m')"
    "ss_qp cmd' = ss_qp ?cmd" "keeps_mapped m1 m'" by blast
  then show ?thesis using cmd loop(1) keeps_mapped_trans [OF loop(2)] by (auto simp: mlx5_exp_post_srq_ops_def Let_def)
qed

section \<open>Completions\<close>

definition tags_at :: "poll_state \<Rightarrow> nat \<Rightarrow> nat list \<Rightarrow> bool" where
  "tags_at st a F \<longleftrightarrow> (\<exists>s. ps_objs st a = Some (Srq_obj s) \<and> tags_ok s F)"

text \<open>The entries that complete the operation and the message for entry \<open>i\<close>, the message in one piece and in place.\<close>

definition op_cqe :: "cqe64 \<Rightarrow> bool" where
  "op_cqe c \<longleftrightarrow> b8 c 41 = 0x5"

definition tag_cqe :: "nat \<Rightarrow> cqe64 \<Rightarrow> bool" where
  "tag_cqe i c \<longleftrightarrow> b8 c 41 = 0xA \<and> unat (ntohs (b16 c 42)) = i \<and> b8 c 63 AND 0x8 = 0"

definition op_reported :: "ops_wr \<Rightarrow> exp_wc \<Rightarrow> bool" where
  "op_reported wr wc \<longleftrightarrow> w_wr_id wc = ow_wr_id wr \<and> w_opcode wc = IBV_EXP_WC_TM_ADD \<and> w_status wc = IBV_WC_SUCCESS"

definition tag_reported :: "ops_wr \<Rightarrow> cqe64 \<Rightarrow> exp_wc \<Rightarrow> bool" where
  "tag_reported wr c wc \<longleftrightarrow> w_wr_id wc = ow_recv_wr_id wr \<and> w_opcode wc = IBV_EXP_WC_TM_RECV \<and>
     w_byte_len wc = c_byte_cnt c \<and> w_status wc = IBV_WC_SUCCESS"

text \<open>The queue while entry \<open>i\<close> of request \<open>wr\<close> waits for \<open>n\<close> completions.\<close>

definition tag_open :: "ops_wr \<Rightarrow> nat \<Rightarrow> u8 \<Rightarrow> nat list \<Rightarrow> srq_object \<Rightarrow> bool" where
  "tag_open wr i n F s \<longleftrightarrow> tags_ok s F \<and> waits s i n \<and> tag_wr_id (tm_list s ! i) = ow_recv_wr_id wr"

text \<open>The oldest note is that of request \<open>wr\<close>.\<close>

definition op_open :: "ops_wr \<Rightarrow> nat \<Rightarrow> u32 \<Rightarrow> mlx5_qp \<Rightarrow> srq_object \<Rightarrow> bool" where
  "op_open wr i hd' qp s \<longleftrightarrow> op_tail s \<noteq> op_head s \<and> op_head s \<noteq> 0x7FFFFFFF \<and> op_slot qp (op_head s) < length (srq_ops s) \<and>
     srq_ops s ! op_slot qp (op_head s) = \<lparr>op_tag = Some i, op_wr_id = ow_wr_id wr, op_wqe_head = hd'\<rparr>"

lemma same_tags_fields:
  assumes "same_tags s s'"
  shows "cmd_qp s' = cmd_qp s" "srq_ops s' = srq_ops s" "op_head s' = op_head s" "op_tail s' = op_tail s"
proof -
  have e: "s' = s\<lparr>tm_list := tm_list s', tm_tail := tm_tail s'\<rparr>" using assms unfolding same_tags_def by blast
  from arg_cong [OF e, of cmd_qp] show "cmd_qp s' = cmd_qp s" by simp
  from arg_cong [OF e, of srq_ops] show "srq_ops s' = srq_ops s" by simp
  from arg_cong [OF e, of op_head] show "op_head s' = op_head s" by simp
  from arg_cong [OF e, of op_tail] show "op_tail s' = op_tail s" by simp
qed

lemma tag_released:
  assumes "tag_open wr i n F s" "n \<noteq> 0"
  shows "\<exists>s'. mlx5_tm_release_tag i s = Inr s' \<and> tag_open wr i (n - 1) (freed_tag i n F) s' \<and> same_tags s s'"
proof -
  obtain s' where s': "mlx5_tm_release_tag i s = Inr s'" "tags_ok s' (freed_tag i n F)" "waits s' i (n - 1)" "same_tags s s'"
    using release_tag [of s F i n] assms by (auto simp: tag_open_def)
  then show ?thesis using assms(1) by (auto simp: tag_open_def waits_def same_tags_def)
qed

lemma tag_open_op_head [simp]: "tag_open wr i n F (s\<lparr>op_head := h\<rparr>) = tag_open wr i n F s"
  by (simp add: tag_open_def tags_ok_def waits_def)

lemma op_completes:
  assumes c: "op_cqe c" and st: "srq \<noteq> 0" "cmd_qp s \<noteq> 0" "ps_objs st srq = Some (Srq_obj s)"
    "ps_objs st (cmd_qp s) = Some (Qp_obj qp)"
    and t: "tag_open wr i n F s" "n \<noteq> 0" and op: "op_open wr i hd' qp s"
  shows "\<exists>st' wc' fl' s'. handle_tag_matching lay wcs c loc srq st wc fl = Inr (st', wc', fl') \<and> op_reported wr wc' \<and>
    ps_objs st' = (ps_objs st)(srq \<mapsto> Srq_obj s', cmd_qp s \<mapsto> Qp_obj (qp\<lparr>q_sq := (q_sq qp)\<lparr>wq_tail := hd'\<rparr>\<rparr>)) \<and>
    tag_open wr i (n - 1) (freed_tag i n F) s' \<and> same_tags (s\<lparr>op_head := op_head s + 1\<rparr>) s'"
proof -
  let ?s = "s\<lparr>op_head := op_head s + 1\<rparr>" and ?wc = "wc\<lparr>w_status := IBV_WC_SUCCESS, w_opcode := IBV_EXP_WC_TM_ADD\<rparr>"
  have "tag_open wr i n F ?s" using t by simp
  from tag_released [OF this t(2)] obtain s' where s': "mlx5_tm_release_tag i ?s = Inr s'"
    "tag_open wr i (n - 1) (freed_tag i n F) s'" "same_tags ?s s'" by blast
  have lt: "i < length (tm_list s')" using s'(2) by (simp add: tag_open_def waits_def)
  have five: "b8 c 41 = 5" using c by (simp add: op_cqe_def)
  obtain fl' where rel: "complete_op_tag c i fl ?s = Inr (s', fl')"
    using s'(1) lt five by (simp add: complete_op_tag_def read_at_def)
  have step: "handle_tag_matching lay wcs c loc srq st wc fl = handle_tm_list_op c srq st ?wc fl"
    using five by (simp add: handle_tag_matching_def Let_def)
  also have "\<dots> = Inr (put_qp (cmd_qp s') (qp\<lparr>q_sq := (q_sq qp)\<lparr>wq_tail := hd'\<rparr>\<rparr>) (put_srq srq s' st), ?wc\<lparr>w_wr_id := ow_wr_id wr\<rparr>, fl')"
    using st op rel same_tags_fields(1) [OF s'(3)]
    by (simp add: handle_tm_list_op_def get_srq_def get_qp_def get_obj_def op_open_def op_slot_def next_index_def read_at_def Let_def)
  finally show ?thesis using s'(2,3) same_tags_fields(1) [OF s'(3)] by (auto simp: put_obj_def op_reported_def)
qed

lemma message_completes:
  assumes c: "tag_cqe i c" and st: "srq \<noteq> 0" "ps_objs st srq = Some (Srq_obj s)" and t: "tag_open wr i n F s" "n \<noteq> 0"
    and lay: "off_wc_tm_info lay < wcs"
  shows "\<exists>st' wc' fl' s'. handle_tag_matching lay wcs c loc srq st wc fl = Inr (st', wc', fl') \<and> tag_reported wr c wc' \<and>
    ps_objs st' = (ps_objs st)(srq \<mapsto> Srq_obj s') \<and> tag_open wr i (n - 1) (freed_tag i n F) s' \<and> same_tags s s'"
proof -
  obtain s' where s': "mlx5_tm_release_tag i s = Inr s'" "tag_open wr i (n - 1) (freed_tag i n F) s'" "same_tags s s'"
    using tag_released [OF t] by blast
  have i: "i < length (tm_list s)" "tag_expect_cqe (tm_list s ! i) = n" "tag_wr_id (tm_list s ! i) = ow_recv_wr_id wr"
    using t by (simp_all add: tag_open_def waits_def)
  have "handle_tag_matching lay wcs c loc srq st wc fl = handle_tag lay wcs c loc srq st (wc\<lparr>w_status := IBV_WC_SUCCESS\<rparr>) fl"
    using c by (simp add: handle_tag_matching_def tag_cqe_def Let_def)
  moreover obtain wc' fl' where "handle_tag lay wcs c loc srq st (wc\<lparr>w_status := IBV_WC_SUCCESS\<rparr>) fl = Inr (put_srq srq s' st, wc', fl')"
    "tag_reported wr c wc'"
    using c st i t(2) lay s'(1)
    by (cases "c_opcode c = MLX5_CQE_RESP_SEND_IMM") (auto simp: handle_tag_def tag_cqe_def get_srq_def get_obj_def read_at_def within_def assertR_def tag_reported_def put_obj_def Let_def)
  ultimately show ?thesis using s'(2,3) by (auto simp: put_obj_def)
qed

section \<open>Both orders\<close>

definition objs_of :: "poll_state \<Rightarrow> nat \<Rightarrow> srq_object \<Rightarrow> mlx5_qp \<Rightarrow> bool" where
  "objs_of st srq s qp \<longleftrightarrow> ps_objs st srq = Some (Srq_obj s) \<and> ps_objs st (cmd_qp s) = Some (Qp_obj qp)"

lemma added_open:
  assumes ok: "tags_ok s (i # j # F)" and sig: "ow_signaled wr" and room: "note_room qp s" and empty: "op_head s = op_tail s"
  shows "tag_open wr i 2 (j # F) (added wr 0 qp i j s)" and "op_open wr i (wq_head (q_sq qp) + 1) qp (added wr 0 qp i j s)"
proof -
  have "i < length (tm_list s)" using ok by (auto simp: tags_ok_def)
  then show "tag_open wr i 2 (j # F) (added wr 0 qp i j s)"
    using added_ok(1,2) [OF ok, of wr 0 qp] sig by (simp add: tag_open_def)
  show "op_open wr i (wq_head (q_sq qp) + 1) qp (added wr 0 qp i j s)"
    using sig room empty by (simp add: op_open_def added_def noted_def note_room_def op_slot_def note_for_def)
qed

text \<open>The operation completes first, or the message does.\<close>

lemma op_then_message:
  assumes c: "op_cqe c1" "tag_cqe i c2" and a: "srq \<noteq> 0" "cmd_qp s \<noteq> 0" "srq \<noteq> cmd_qp s" and objs: "objs_of st srq s qp"
    and t: "tag_open wr i 2 F s" and op: "op_open wr i hd' qp s" and lay: "off_wc_tm_info lay < wcs"
  shows "\<exists>st1 wc1 fl1 st2 wc2 fl2. handle_tag_matching lay wcs c1 loc srq st wc fl = Inr (st1, wc1, fl1) \<and>
    handle_tag_matching lay wcs c2 loc' srq st1 wc' fl' = Inr (st2, wc2, fl2) \<and> op_reported wr wc1 \<and> tag_reported wr c2 wc2 \<and>
    tags_at st1 srq F \<and> tags_at st2 srq (F @ [i]) \<and>
    ps_objs st2 (cmd_qp s) = Some (Qp_obj (qp\<lparr>q_sq := (q_sq qp)\<lparr>wq_tail := hd'\<rparr>\<rparr>))"
proof -
  obtain st1 wc1 fl1 s1 where 1: "handle_tag_matching lay wcs c1 loc srq st wc fl = Inr (st1, wc1, fl1)" "op_reported wr wc1"
    "ps_objs st1 = (ps_objs st)(srq \<mapsto> Srq_obj s1, cmd_qp s \<mapsto> Qp_obj (qp\<lparr>q_sq := (q_sq qp)\<lparr>wq_tail := hd'\<rparr>\<rparr>))"
    "tag_open wr i 1 F s1"
    using op_completes [OF c(1) a(1,2) _ _ t _ op, of st lay wcs loc wc fl] objs unfolding objs_of_def freed_tag_def by auto
  have at1: "ps_objs st1 srq = Some (Srq_obj s1)" using 1(3) a(3) by simp
  from message_completes [OF c(2) a(1) at1 1(4) _ lay, of loc' wc' fl']
  obtain st2 wc2 fl2 s2 where "handle_tag_matching lay wcs c2 loc' srq st1 wc' fl' = Inr (st2, wc2, fl2)" "tag_reported wr c2 wc2"
    "ps_objs st2 = (ps_objs st1)(srq \<mapsto> Srq_obj s2)" "tag_open wr i 0 (F @ [i]) s2"
    by (auto simp: freed_tag_def)
  then show ?thesis using 1 at1 a(3) by (auto simp: tags_at_def tag_open_def)
qed

lemma message_then_op:
  assumes c: "op_cqe c1" "tag_cqe i c2" and a: "srq \<noteq> 0" "cmd_qp s \<noteq> 0" "srq \<noteq> cmd_qp s" and objs: "objs_of st srq s qp"
    and t: "tag_open wr i 2 F s" and op: "op_open wr i hd' qp s" and lay: "off_wc_tm_info lay < wcs"
  shows "\<exists>st1 wc1 fl1 st2 wc2 fl2. handle_tag_matching lay wcs c2 loc srq st wc fl = Inr (st1, wc1, fl1) \<and>
    handle_tag_matching lay wcs c1 loc' srq st1 wc' fl' = Inr (st2, wc2, fl2) \<and> tag_reported wr c2 wc1 \<and> op_reported wr wc2 \<and>
    tags_at st1 srq F \<and> tags_at st2 srq (F @ [i]) \<and>
    ps_objs st2 (cmd_qp s) = Some (Qp_obj (qp\<lparr>q_sq := (q_sq qp)\<lparr>wq_tail := hd'\<rparr>\<rparr>))"
proof -
  have at: "ps_objs st srq = Some (Srq_obj s)" "ps_objs st (cmd_qp s) = Some (Qp_obj qp)" using objs by (simp_all add: objs_of_def)
  from message_completes [OF c(2) a(1) at(1) t _ lay, of loc wc fl]
  obtain st1 wc1 fl1 s1 where 1: "handle_tag_matching lay wcs c2 loc srq st wc fl = Inr (st1, wc1, fl1)" "tag_reported wr c2 wc1"
    "ps_objs st1 = (ps_objs st)(srq \<mapsto> Srq_obj s1)" "tag_open wr i 1 F s1" "same_tags s s1"
    by (auto simp: freed_tag_def)
  note same = same_tags_fields [OF 1(5)]
  have op1: "op_open wr i hd' qp s1" using op by (simp add: op_open_def same)
  have at1: "ps_objs st1 srq = Some (Srq_obj s1)" "ps_objs st1 (cmd_qp s1) = Some (Qp_obj qp)" using 1(3) at(2) a(3) same by simp_all
  have a1: "cmd_qp s1 \<noteq> 0" using a(2) same by simp
  from op_completes [OF c(1) a(1) a1 at1 1(4) _ op1, of lay wcs loc' wc' fl']
  obtain st2 wc2 fl2 s2 where "handle_tag_matching lay wcs c1 loc' srq st1 wc' fl' = Inr (st2, wc2, fl2)" "op_reported wr wc2"
    "ps_objs st2 = (ps_objs st1)(srq \<mapsto> Srq_obj s2, cmd_qp s1 \<mapsto> Qp_obj (qp\<lparr>q_sq := (q_sq qp)\<lparr>wq_tail := hd'\<rparr>\<rparr>))"
    "tag_open wr i 0 (F @ [i]) s2"
    by (auto simp: freed_tag_def)
  then show ?thesis using 1 at1 a(3) same by (auto simp: tags_at_def tag_open_def)
qed

end
