(* ===== verification/Tag_Props.thy ===== *)
theory Tag_Props
  imports Tag_Done Poll_Samples
begin

text \<open>
  What tag matching on a shared receive queue guarantees: receives take the free entries in their order,
  and an entry comes back when the operation and the message have both completed. The instances are on
  a queue with three entries and the command queue of the sample queue pair.
\<close>

section \<open>The sample\<close>

definition tag_entry :: "nat option \<Rightarrow> mlx5_tag_entry" where
  "tag_entry n = \<lparr>tag_next = n, tag_wr_id = 0, tag_phase_cnt = 0, tag_ptr = 0, tag_size = 0, tag_expect_cqe = 0\<rparr>"

text \<open>As creation leaves it for two tags: one entry more, all linked.\<close>

definition tag_srq :: srq_object where
  "tag_srq = \<lparr>so_rsn = 6, so_type = RSC_SRQ,
     so_srq = \<lparr>srq_buf = 24576, srq_wrid = [], srq_srqn = 6, srq_max = 4, srq_max_gs = 1, srq_wqe_shift = 5,
       srq_head = 0, srq_tail = 3, srq_db = 8456, srq_counter = 0, srq_wq_sig = False\<rparr>,
     strides_per_wqe = 0, consumed_strides = [], cmd_qp = 20480, tm_list = [tag_entry (Some 1), tag_entry (Some 2), tag_entry None],
     tm_head = 0, tm_tail = 2, srq_ops = replicate 4 \<lparr>op_tag = None, op_wr_id = 0, op_wqe_head = 0\<rparr>,
     op_head = 0, op_tail = 0, unexp_in = 0, unexp_out = 0\<rparr>"

definition tag_cmd :: send_side where
  "tag_cmd = \<lparr>ss_qp = sample_rq_qp, ss_last_post = 0, ss_fm_cache = 0,
     ss_bf = \<lparr>dbf_reg = 32768, dbf_offset = 0, dbf_buf_size = 256, dbf_method = MLX5_DB_METHOD_DEDIC_BF\<rparr>,
     ss_mpw = \<lparr>mp_state = MLX5_MPW_STATE_CLOSED, mp_size = 0, mp_num_sge = 0, mp_len = 0, mp_total_len = 0, mp_flags = 0,
       mp_scur_post = 0, mp_last = 0, mp_ctrl_update = 0\<rparr>,
     ss_fm_ce_se_acc = [], ss_max_inline = 0, ss_raw_eth = False, ss_locked = False\<rparr>"

definition add_request :: "u64 \<Rightarrow> u64 \<Rightarrow> ops_wr" where
  "add_request a b = \<lparr>ow_wr_id = a, ow_opcode = IBV_EXP_WR_TAG_ADD, ow_signaled = True, ow_sync = False, ow_unexpected_cnt = 0,
     ow_handle = 0, ow_recv_wr_id = b, ow_num_sge = 0, ow_sg_list = None, ow_tag = 7, ow_mask = 15\<rparr>"

lemma add_request_fields [simp]:
  "ow_opcode (add_request a b) = IBV_EXP_WR_TAG_ADD" "plain_op (add_request a b)" "ow_signaled (add_request a b)"
  "ow_wr_id (add_request a b) = a" "ow_recv_wr_id (add_request a b) = b"
  by (simp_all add: add_request_def plain_op_def)

lemma tag_srq_ok: "tags_ok tag_srq [0, 1, 2]"
  by (auto simp: tags_ok_def tag_srq_def tag_entry_def less_Suc_eq eval_nat_numeral)

lemma tag_srq_fields [simp]:
  "cmd_qp tag_srq = 20480" "length (srq_ops tag_srq) = 4" "op_tail tag_srq = 0" "op_head tag_srq = 0" "length (tm_list tag_srq) = 3"
  by (simp_all add: tag_srq_def)

lemma tag_cmd_room [simp]: "ss_qp tag_cmd = sample_rq_qp" "cmd_room sample_rq_qp zero_memory" "sq_free sample_rq_qp = 2" "bell_ok tag_cmd zero_memory"
proof -
  have "\<exists>k. (4 :: nat) = 2 ^ k" by (rule exI [of _ 2]) simp
  then show "cmd_room sample_rq_qp zero_memory" by (simp add: cmd_room_def sample_rq_qp_def sample_sq_def)
qed (simp_all add: tag_cmd_def sq_free_def bell_ok_def sample_rq_qp_def sample_sq_def Let_def)

section \<open>Posting\<close>

text \<open>C16: receives with tags take the free entries in order. The free entries of the tag list form a chain
  \<open>F\<close> from \<open>tm_head\<close> to \<open>tm_tail\<close>. A list of requests is posted up to the first that finds the command queue
  full or only the last free entry left; that one is returned with \<open>ENOMEM\<close>. The keys of the segments are
  not the two of implicit on-demand regions (\<open>plain_op\<close>). Request \<open>l\<close> gets the \<open>l\<close>-th free
  entry, whose number is the handle, keeps its identifier there, and waits for one completion, or for two
  when it is signalled; the chain is \<open>F\<close> without the entries taken, no other entry changes, the
  counters of the command queue advance by the number posted, and the doorbell record says so.\<close>

theorem tag_receives_take_free_entries:
  assumes "\<forall>wr \<in> set wrs. ow_opcode wr = IBV_EXP_WR_TAG_ADD \<and> plain_op wr" and "cmd_qp s \<noteq> 0"
    and "cmd_room (ss_qp cmd) m" and "bell_ok cmd m" and "tags_ok s F"
    and "length (srq_ops s) = unat (wq_wqe_cnt (q_sq (ss_qp cmd)))" and "unat (op_tail s) + length wrs < 2 ^ 31"
    and "k = min (length wrs) (min (sq_free (ss_qp cmd)) (length F - 1))"
  shows "\<exists>s' cmd' m'. mlx5_exp_post_srq_ops env wrs s cmd pd m =
      Inr (if k = length wrs then 0 else ENOMEM, map2 (\<lambda>wr i. wr\<lparr>ow_handle := of_nat i\<rparr>) (take k wrs) (take k F), drop k wrs,
        s', cmd', pd, m') \<and>
    tags_ok s' (drop k F) \<and>
    (\<forall>l < k. waits s' (F ! l) (if ow_signaled (wrs ! l) then 2 else 1) \<and> tag_wr_id (tm_list s' ! (F ! l)) = ow_recv_wr_id (wrs ! l)) \<and>
    (\<forall>x. x \<notin> set (take k F) \<longrightarrow> tm_list s' ! x = tm_list s ! x) \<and>
    wq_head (q_sq (ss_qp cmd')) = wq_head (q_sq (ss_qp cmd)) + of_nat k \<and>
    (0 < k \<longrightarrow> bytes_at m' (wq_db (q_sq (ss_qp cmd))) 4 = be32 (q_scur_post (ss_qp cmd) + of_nat k AND 0xffff))"
proof -
  have "k = adds_admitted (sq_free (ss_qp cmd)) 0 F wrs" using assms(8) by (simp add: adds_admitted_def)
  from post_adds [OF assms(1-7) this, of env pd] show ?thesis
    unfolding handled_def adds_done_def by blast
qed

theorem tag_receives_take_free_entries_witness:
  "\<exists>s' cmd' m'. mlx5_exp_post_srq_ops no_regions [add_request 1 11, add_request 2 12, add_request 3 13] tag_srq tag_cmd sample_pd
      zero_memory = Inr (ENOMEM, [(add_request 1 11)\<lparr>ow_handle := 0\<rparr>, (add_request 2 12)\<lparr>ow_handle := 1\<rparr>], [add_request 3 13],
        s', cmd', sample_pd, m') \<and> tags_ok s' [2]"
proof -
  let ?wrs = "[add_request 1 11, add_request 2 12, add_request 3 13]"
  have k: "2 = min (length ?wrs) (min (sq_free (ss_qp tag_cmd)) (length [0 :: nat, 1, 2] - 1))" by simp
  have ops: "length (srq_ops tag_srq) = unat (wq_wqe_cnt (q_sq (ss_qp tag_cmd)))" by (simp add: sample_sq_def)
  have lim: "unat (op_tail tag_srq) + length ?wrs < 2 ^ 31" by simp
  have wrs: "\<forall>wr \<in> set ?wrs. ow_opcode wr = IBV_EXP_WR_TAG_ADD \<and> plain_op wr" "cmd_qp tag_srq \<noteq> 0" by simp_all
  have "cmd_room (ss_qp tag_cmd) zero_memory" by simp
  from tag_receives_take_free_entries [OF wrs this tag_cmd_room(4) tag_srq_ok ops lim k, of no_regions sample_pd]
  show ?thesis by simp blast
qed

section \<open>Completion\<close>

text \<open>C17: an entry comes back after both completions, in whichever order. A signalled receive is posted and
  takes the first free entry \<open>i\<close>. The entry for the operation and the entry for a message with tag index \<open>i\<close>
  (an eager message, \<open>app_op\<close> 0xA, whose data is not inline in the entry)
  then arrive in the completion queue in one order or the other. Each is reported under its own
  identifier, that of the operation and that of the receive; after the first of them \<open>i\<close> is not free, after the
  second it is the last of the free entries, and the command queue has no entry outstanding.\<close>

theorem tag_returns_after_both:
  assumes "ow_opcode wr = IBV_EXP_WR_TAG_ADD \<and> plain_op wr \<and> ow_signaled wr" and "cmd_qp s \<noteq> 0"
    and "cmd_room (ss_qp cmd) m" and "0 < sq_free (ss_qp cmd)" and "bell_ok cmd m" and "tags_ok s (i # j # F)"
    and "note_room (ss_qp cmd) s" and "op_head s = op_tail s"
    and "op_cqe c1" and "tag_cqe i c2" and "srq \<noteq> 0" and "srq \<noteq> cmd_qp s" and "off_wc_tm_info lay < wcs"
  shows "\<exists>s' cmd' m'. mlx5_exp_post_srq_ops env [wr] s cmd pd m = Inr (0, [wr\<lparr>ow_handle := of_nat i\<rparr>], [], s', cmd', pd, m') \<and>
    (\<forall>st. ps_objs st srq = Some (Srq_obj s') \<and> ps_objs st (cmd_qp s) = Some (Qp_obj (ss_qp cmd')) \<longrightarrow>
      (\<exists>st1 wc1 fl1 st2 wc2 fl2 qp. handle_tag_matching lay wcs c1 loc srq st wc fl = Inr (st1, wc1, fl1) \<and>
         handle_tag_matching lay wcs c2 loc' srq st1 wc' fl' = Inr (st2, wc2, fl2) \<and> op_reported wr wc1 \<and> tag_reported wr c2 wc2 \<and>
         tags_at st1 srq (j # F) \<and> tags_at st2 srq (j # F @ [i]) \<and>
         ps_objs st2 (cmd_qp s) = Some (Qp_obj qp) \<and> wq_tail (q_sq qp) = wq_head (q_sq qp)) \<and>
      (\<exists>st1 wc1 fl1 st2 wc2 fl2 qp. handle_tag_matching lay wcs c2 loc srq st wc fl = Inr (st1, wc1, fl1) \<and>
         handle_tag_matching lay wcs c1 loc' srq st1 wc' fl' = Inr (st2, wc2, fl2) \<and> tag_reported wr c2 wc1 \<and> op_reported wr wc2 \<and>
         tags_at st1 srq (j # F) \<and> tags_at st2 srq (j # F @ [i]) \<and>
         ps_objs st2 (cmd_qp s) = Some (Qp_obj qp) \<and> wq_tail (q_sq qp) = wq_head (q_sq qp)))"
proof -
  let ?qp = "(ss_qp cmd)\<lparr>q_scur_post := q_scur_post (ss_qp cmd) + 1,
      q_sq := (q_sq (ss_qp cmd))\<lparr>wq_head := wq_head (q_sq (ss_qp cmd)) + 1\<rparr>\<rparr>"
  let ?s = "added wr 0 (ss_qp cmd) i j s" and ?h = "wq_head (q_sq (ss_qp cmd)) + 1"
  obtain cmd' m' where post: "mlx5_exp_post_srq_ops env [wr] s cmd pd m = Inr (0, [wr\<lparr>ow_handle := of_nat i\<rparr>], [], ?s, cmd', pd, m')"
    "ss_qp cmd' = ?qp"
    using post_one_add [OF _ _ assms(2-6) assms(7), of wr env pd] assms(1) by blast
  have open': "tag_open wr i 2 (j # F) ?s" "op_open wr i ?h (ss_qp cmd) ?s"
    using added_open [OF assms(6) _ assms(7,8)] assms(1) by blast+
  then have op: "op_open wr i ?h ?qp ?s" by (simp add: op_open_def op_slot_def)
  have ptr: "cmd_qp ?s \<noteq> 0" "srq \<noteq> cmd_qp ?s" using assms(2,12) by simp_all
  have objs: "objs_of st srq ?s ?qp" if "ps_objs st srq = Some (Srq_obj ?s)" "ps_objs st (cmd_qp s) = Some (Qp_obj (ss_qp cmd'))" for st
    using that post(2) by (simp add: objs_of_def)
  show ?thesis
    using post(1) op_then_message [OF assms(9-11) ptr objs open'(1) op assms(13), of _ loc wc fl loc' wc' fl']
      message_then_op [OF assms(9-11) ptr objs open'(1) op assms(13), of _ loc wc fl loc' wc' fl']
    by fastforce
qed

definition op_done :: cqe64 where
  "op_done = replicate 41 0 @ [5] @ replicate 22 0"

definition message_done :: cqe64 where
  "message_done = replicate 41 0 @ [0xA] @ replicate 22 0"

lemma sample_tag_cqes: "op_cqe op_done" "tag_cqe 0 message_done"
proof -
  show "op_cqe op_done" by (simp add: op_cqe_def b8_def op_done_def eval_nat_numeral)
  have "take 2 (drop 42 message_done) = [0, 0]" "b8 message_done 63 = 0" "b8 message_done 41 = 0xA"
    by (simp_all add: b8_def message_done_def eval_nat_numeral)
  moreover have "ntohs (of_le16 [0, 0]) = 0" by code_simp
  ultimately show "tag_cqe 0 message_done" by (simp add: tag_cqe_def b16_def)
qed

text \<open>Polling after the post, with the queue at 28672.\<close>

definition tag_post_state :: "srq_object \<Rightarrow> send_side \<Rightarrow> poll_state" where
  "tag_post_state s cmd = poll_sample srq_cqe [28672 \<mapsto> Srq_obj s, 20480 \<mapsto> Qp_obj (ss_qp cmd)]"

theorem tag_returns_after_both_witness:
  "\<exists>s' cmd' m' st1 wc1 fl1 st2 wc2 fl2.
    mlx5_exp_post_srq_ops no_regions [add_request 1 11] tag_srq tag_cmd sample_pd zero_memory =
      Inr (0, [(add_request 1 11)\<lparr>ow_handle := 0\<rparr>], [], s', cmd', sample_pd, m') \<and>
    handle_tag_matching (pe_layout srq_env) 112 op_done Title 28672 (tag_post_state s' cmd') some_wc {} = Inr (st1, wc1, fl1) \<and>
    handle_tag_matching (pe_layout srq_env) 112 message_done Title 28672 st1 some_wc {} = Inr (st2, wc2, fl2) \<and>
    w_wr_id wc1 = 1 \<and> w_wr_id wc2 = 11 \<and> tags_at st1 28672 [1, 2] \<and> tags_at st2 28672 [1, 2, 0]"
proof -
  let ?wr = "add_request 1 11" and ?lay = "pe_layout srq_env"
  have wr: "ow_opcode ?wr = IBV_EXP_WR_TAG_ADD \<and> plain_op ?wr \<and> ow_signaled ?wr" and cmd: "cmd_qp tag_srq \<noteq> 0" by simp_all
  have room: "cmd_room (ss_qp tag_cmd) zero_memory" "0 < sq_free (ss_qp tag_cmd)" by simp_all
  have nr: "note_room (ss_qp tag_cmd) tag_srq" "op_head tag_srq = op_tail tag_srq" by (simp_all add: note_room_def)
  have ptr: "(28672 :: nat) \<noteq> 0" "28672 \<noteq> cmd_qp tag_srq" "off_wc_tm_info ?lay < 112" by (simp_all add: srq_env_def env_of_def)
  obtain s' cmd' m' where post: "mlx5_exp_post_srq_ops no_regions [?wr] tag_srq tag_cmd sample_pd zero_memory =
      Inr (0, [?wr\<lparr>ow_handle := of_nat 0\<rparr>], [], s', cmd', sample_pd, m')"
    and done': "ps_objs (tag_post_state s' cmd') 28672 = Some (Srq_obj s') \<and>
        ps_objs (tag_post_state s' cmd') (cmd_qp tag_srq) = Some (Qp_obj (ss_qp cmd')) \<longrightarrow>
      (\<exists>st1 wc1 fl1 st2 wc2 fl2. handle_tag_matching ?lay 112 op_done Title 28672 (tag_post_state s' cmd') some_wc {} = Inr (st1, wc1, fl1) \<and>
         handle_tag_matching ?lay 112 message_done Title 28672 st1 some_wc {} = Inr (st2, wc2, fl2) \<and>
         op_reported ?wr wc1 \<and> tag_reported ?wr message_done wc2 \<and> tags_at st1 28672 [1, 2] \<and> tags_at st2 28672 ([1, 2] @ [0]))"
    using tag_returns_after_both [OF wr cmd room tag_cmd_room(4) tag_srq_ok nr sample_tag_cqes ptr, of no_regions sample_pd Title some_wc "{}"
        Title some_wc "{}"] by auto blast
  have "ps_objs (tag_post_state s' cmd') 28672 = Some (Srq_obj s')" "ps_objs (tag_post_state s' cmd') (cmd_qp tag_srq) = Some (Qp_obj (ss_qp cmd'))"
    by (simp_all add: tag_post_state_def)
  with done' obtain st1 wc1 fl1 st2 wc2 fl2 where "handle_tag_matching ?lay 112 op_done Title 28672 (tag_post_state s' cmd') some_wc {} = Inr (st1, wc1, fl1)"
    "handle_tag_matching ?lay 112 message_done Title 28672 st1 some_wc {} = Inr (st2, wc2, fl2)"
    "op_reported ?wr wc1" "tag_reported ?wr message_done wc2" "tags_at st1 28672 [1, 2]" "tags_at st2 28672 ([1, 2] @ [0])" by blast
  moreover from this have "w_wr_id wc1 = 1" "w_wr_id wc2 = 11" by (simp_all add: op_reported_def tag_reported_def)
  ultimately show ?thesis using post by auto
qed

end
