(* ===== verification/Cq_Exports.thy ===== *)
theory Cq_Exports
  imports Cq_Family
begin

text \<open>
  The exported variants of the accelerated polls of \<open>cq.c\<close>, which fix the arguments of \<open>poll_cnt\<close>,
  \<open>poll_length\<close> and \<open>__poll_length\<close>, and the tables in which an application finds them. The safe
  variants take the size of an entry from the queue and the version from the context, and lock; the
  unsafe ones are compiled for one size and one version. A pointer argument is whether it is given
  (\<open>buf\<close> is an address, 0 for \<open>NULL\<close>).
\<close>

type_synonym poll_cnt_fun = "nat \<Rightarrow> poll_env \<Rightarrow> u32 \<Rightarrow> poll_state \<Rightarrow> (int \<times> poll_state) res option"

type_synonym poll_length_fun = "nat \<Rightarrow> poll_env \<Rightarrow> poll_state \<Rightarrow> length_out \<Rightarrow>
  (int \<times> poll_state \<times> length_out) res option"

section \<open>The variants\<close>

definition mlx5_poll_cnt_safe :: poll_cnt_fun where
  "mlx5_poll_cnt_safe fuel env max_entries st = poll_cnt fuel env (pe_version env = 1) (cq_sz (ps_q st)) max_entries st"

definition mlx5_poll_cnt_unsafe_cqe64 :: poll_cnt_fun where
  "mlx5_poll_cnt_unsafe_cqe64 fuel env max_entries st = poll_cnt fuel env False 64 max_entries st"

definition mlx5_poll_cnt_unsafe_cqe128 :: poll_cnt_fun where
  "mlx5_poll_cnt_unsafe_cqe128 fuel env max_entries st = poll_cnt fuel env False 128 max_entries st"

definition mlx5_poll_cnt_unsafe_cqe64_v1 :: poll_cnt_fun where
  "mlx5_poll_cnt_unsafe_cqe64_v1 fuel env max_entries st = poll_cnt fuel env True 64 max_entries st"

definition mlx5_poll_cnt_unsafe_cqe128_v1 :: poll_cnt_fun where
  "mlx5_poll_cnt_unsafe_cqe128_v1 fuel env max_entries st = poll_cnt fuel env True 128 max_entries st"

definition mlx5_poll_length_safe :: "nat \<Rightarrow> bool \<Rightarrow> poll_length_fun" where
  "mlx5_poll_length_safe buf inl fuel env st out =
     poll_length fuel env (pe_version env = 1) (cq_sz (ps_q st))
       \<lparr>la_buf = buf, la_inl = inl, la_offset = False, la_flags = False, la_vlan = False, la_timestamp = False\<rparr> st out"

definition mlx5_poll_length_unsafe_cqe64 :: "nat \<Rightarrow> bool \<Rightarrow> poll_length_fun" where
  "mlx5_poll_length_unsafe_cqe64 buf inl fuel env st out =
     poll_length fuel env False 64
       \<lparr>la_buf = buf, la_inl = inl, la_offset = False, la_flags = False, la_vlan = False, la_timestamp = False\<rparr> st out"

definition mlx5_poll_length_unsafe_cqe128 :: "nat \<Rightarrow> bool \<Rightarrow> poll_length_fun" where
  "mlx5_poll_length_unsafe_cqe128 buf inl fuel env st out =
     poll_length fuel env False 128
       \<lparr>la_buf = buf, la_inl = inl, la_offset = False, la_flags = False, la_vlan = False, la_timestamp = False\<rparr> st out"

definition mlx5_poll_length_unsafe_cqe64_v1 :: "nat \<Rightarrow> bool \<Rightarrow> poll_length_fun" where
  "mlx5_poll_length_unsafe_cqe64_v1 buf inl fuel env st out =
     poll_length fuel env True 64
       \<lparr>la_buf = buf, la_inl = inl, la_offset = False, la_flags = False, la_vlan = False, la_timestamp = False\<rparr> st out"

definition mlx5_poll_length_unsafe_cqe128_v1 :: "nat \<Rightarrow> bool \<Rightarrow> poll_length_fun" where
  "mlx5_poll_length_unsafe_cqe128_v1 buf inl fuel env st out =
     poll_length fuel env True 128
       \<lparr>la_buf = buf, la_inl = inl, la_offset = False, la_flags = False, la_vlan = False, la_timestamp = False\<rparr> st out"

definition mlx5_poll_length_flags_safe :: "nat \<Rightarrow> bool \<Rightarrow> bool \<Rightarrow> poll_length_fun" where
  "mlx5_poll_length_flags_safe buf inl fl fuel env st out =
     poll_length fuel env (pe_version env = 1) (cq_sz (ps_q st))
       \<lparr>la_buf = buf, la_inl = inl, la_offset = False, la_flags = fl, la_vlan = False, la_timestamp = False\<rparr> st out"

definition mlx5_poll_length_flags_unsafe_cqe64 :: "nat \<Rightarrow> bool \<Rightarrow> bool \<Rightarrow> poll_length_fun" where
  "mlx5_poll_length_flags_unsafe_cqe64 buf inl fl fuel env st out =
     poll_length fuel env False 64
       \<lparr>la_buf = buf, la_inl = inl, la_offset = False, la_flags = fl, la_vlan = False, la_timestamp = False\<rparr> st out"

definition mlx5_poll_length_flags_unsafe_cqe128 :: "nat \<Rightarrow> bool \<Rightarrow> bool \<Rightarrow> poll_length_fun" where
  "mlx5_poll_length_flags_unsafe_cqe128 buf inl fl fuel env st out =
     poll_length fuel env False 128
       \<lparr>la_buf = buf, la_inl = inl, la_offset = False, la_flags = fl, la_vlan = False, la_timestamp = False\<rparr> st out"

definition mlx5_poll_length_flags_unsafe_cqe64_v1 :: "nat \<Rightarrow> bool \<Rightarrow> bool \<Rightarrow> poll_length_fun" where
  "mlx5_poll_length_flags_unsafe_cqe64_v1 buf inl fl fuel env st out =
     poll_length fuel env True 64
       \<lparr>la_buf = buf, la_inl = inl, la_offset = False, la_flags = fl, la_vlan = False, la_timestamp = False\<rparr> st out"

definition mlx5_poll_length_flags_unsafe_cqe128_v1 :: "nat \<Rightarrow> bool \<Rightarrow> bool \<Rightarrow> poll_length_fun" where
  "mlx5_poll_length_flags_unsafe_cqe128_v1 buf inl fl fuel env st out =
     poll_length fuel env True 128
       \<lparr>la_buf = buf, la_inl = inl, la_offset = False, la_flags = fl, la_vlan = False, la_timestamp = False\<rparr> st out"

definition mlx5_poll_length_flags_mp_rq_safe :: "bool \<Rightarrow> bool \<Rightarrow> poll_length_fun" where
  "mlx5_poll_length_flags_mp_rq_safe off fl fuel env st out =
     poll_length fuel env (pe_version env = 1) (cq_sz (ps_q st))
       \<lparr>la_buf = 0, la_inl = False, la_offset = off, la_flags = fl, la_vlan = False, la_timestamp = False\<rparr> st out"

definition mlx5_poll_length_flags_mp_rq_unsafe_cqe64 :: "bool \<Rightarrow> bool \<Rightarrow> poll_length_fun" where
  "mlx5_poll_length_flags_mp_rq_unsafe_cqe64 off fl fuel env st out =
     poll_length fuel env False 64
       \<lparr>la_buf = 0, la_inl = False, la_offset = off, la_flags = fl, la_vlan = False, la_timestamp = False\<rparr> st out"

definition mlx5_poll_length_flags_mp_rq_unsafe_cqe128 :: "bool \<Rightarrow> bool \<Rightarrow> poll_length_fun" where
  "mlx5_poll_length_flags_mp_rq_unsafe_cqe128 off fl fuel env st out =
     poll_length fuel env False 128
       \<lparr>la_buf = 0, la_inl = False, la_offset = off, la_flags = fl, la_vlan = False, la_timestamp = False\<rparr> st out"

definition mlx5_poll_length_flags_mp_rq_unsafe_cqe64_v1 :: "bool \<Rightarrow> bool \<Rightarrow> poll_length_fun" where
  "mlx5_poll_length_flags_mp_rq_unsafe_cqe64_v1 off fl fuel env st out =
     poll_length fuel env True 64
       \<lparr>la_buf = 0, la_inl = False, la_offset = off, la_flags = fl, la_vlan = False, la_timestamp = False\<rparr> st out"

definition mlx5_poll_length_flags_mp_rq_unsafe_cqe128_v1 :: "bool \<Rightarrow> bool \<Rightarrow> poll_length_fun" where
  "mlx5_poll_length_flags_mp_rq_unsafe_cqe128_v1 off fl fuel env st out =
     poll_length fuel env True 128
       \<lparr>la_buf = 0, la_inl = False, la_offset = off, la_flags = fl, la_vlan = False, la_timestamp = False\<rparr> st out"

definition mlx5_poll_length_flags_cvlan_safe :: "nat \<Rightarrow> bool \<Rightarrow> bool \<Rightarrow> bool \<Rightarrow> poll_length_fun" where
  "mlx5_poll_length_flags_cvlan_safe buf inl fl vl fuel env st out =
     poll_length fuel env (pe_version env = 1) (cq_sz (ps_q st))
       \<lparr>la_buf = buf, la_inl = inl, la_offset = False, la_flags = fl, la_vlan = vl, la_timestamp = False\<rparr> st out"

definition mlx5_poll_length_flags_cvlan_unsafe_cqe64 :: "nat \<Rightarrow> bool \<Rightarrow> bool \<Rightarrow> bool \<Rightarrow> poll_length_fun" where
  "mlx5_poll_length_flags_cvlan_unsafe_cqe64 buf inl fl vl fuel env st out =
     poll_length fuel env False 64
       \<lparr>la_buf = buf, la_inl = inl, la_offset = False, la_flags = fl, la_vlan = vl, la_timestamp = False\<rparr> st out"

definition mlx5_poll_length_flags_cvlan_unsafe_cqe128 :: "nat \<Rightarrow> bool \<Rightarrow> bool \<Rightarrow> bool \<Rightarrow> poll_length_fun" where
  "mlx5_poll_length_flags_cvlan_unsafe_cqe128 buf inl fl vl fuel env st out =
     poll_length fuel env False 128
       \<lparr>la_buf = buf, la_inl = inl, la_offset = False, la_flags = fl, la_vlan = vl, la_timestamp = False\<rparr> st out"

definition mlx5_poll_length_flags_cvlan_unsafe_cqe64_v1 :: "nat \<Rightarrow> bool \<Rightarrow> bool \<Rightarrow> bool \<Rightarrow> poll_length_fun" where
  "mlx5_poll_length_flags_cvlan_unsafe_cqe64_v1 buf inl fl vl fuel env st out =
     poll_length fuel env True 64
       \<lparr>la_buf = buf, la_inl = inl, la_offset = False, la_flags = fl, la_vlan = vl, la_timestamp = False\<rparr> st out"

definition mlx5_poll_length_flags_cvlan_unsafe_cqe128_v1 :: "nat \<Rightarrow> bool \<Rightarrow> bool \<Rightarrow> bool \<Rightarrow> poll_length_fun" where
  "mlx5_poll_length_flags_cvlan_unsafe_cqe128_v1 buf inl fl vl fuel env st out =
     poll_length fuel env True 128
       \<lparr>la_buf = buf, la_inl = inl, la_offset = False, la_flags = fl, la_vlan = vl, la_timestamp = False\<rparr> st out"

definition mlx5_poll_length_flags_mp_rq_cvlan_safe :: "bool \<Rightarrow> bool \<Rightarrow> bool \<Rightarrow> poll_length_fun" where
  "mlx5_poll_length_flags_mp_rq_cvlan_safe off fl vl fuel env st out =
     poll_length fuel env (pe_version env = 1) (cq_sz (ps_q st))
       \<lparr>la_buf = 0, la_inl = False, la_offset = off, la_flags = fl, la_vlan = vl, la_timestamp = False\<rparr> st out"

definition mlx5_poll_length_flags_mp_rq_cvlan_unsafe_cqe64 :: "bool \<Rightarrow> bool \<Rightarrow> bool \<Rightarrow> poll_length_fun" where
  "mlx5_poll_length_flags_mp_rq_cvlan_unsafe_cqe64 off fl vl fuel env st out =
     poll_length fuel env False 64
       \<lparr>la_buf = 0, la_inl = False, la_offset = off, la_flags = fl, la_vlan = vl, la_timestamp = False\<rparr> st out"

definition mlx5_poll_length_flags_mp_rq_cvlan_unsafe_cqe128 :: "bool \<Rightarrow> bool \<Rightarrow> bool \<Rightarrow> poll_length_fun" where
  "mlx5_poll_length_flags_mp_rq_cvlan_unsafe_cqe128 off fl vl fuel env st out =
     poll_length fuel env False 128
       \<lparr>la_buf = 0, la_inl = False, la_offset = off, la_flags = fl, la_vlan = vl, la_timestamp = False\<rparr> st out"

definition mlx5_poll_length_flags_mp_rq_cvlan_unsafe_cqe64_v1 :: "bool \<Rightarrow> bool \<Rightarrow> bool \<Rightarrow> poll_length_fun" where
  "mlx5_poll_length_flags_mp_rq_cvlan_unsafe_cqe64_v1 off fl vl fuel env st out =
     poll_length fuel env True 64
       \<lparr>la_buf = 0, la_inl = False, la_offset = off, la_flags = fl, la_vlan = vl, la_timestamp = False\<rparr> st out"

definition mlx5_poll_length_flags_mp_rq_cvlan_unsafe_cqe128_v1 :: "bool \<Rightarrow> bool \<Rightarrow> bool \<Rightarrow> poll_length_fun" where
  "mlx5_poll_length_flags_mp_rq_cvlan_unsafe_cqe128_v1 off fl vl fuel env st out =
     poll_length fuel env True 128
       \<lparr>la_buf = 0, la_inl = False, la_offset = off, la_flags = fl, la_vlan = vl, la_timestamp = False\<rparr> st out"

definition mlx5_poll_length_flags_ts_safe :: "nat \<Rightarrow> bool \<Rightarrow> bool \<Rightarrow> bool \<Rightarrow> poll_length_fun" where
  "mlx5_poll_length_flags_ts_safe buf inl fl ts fuel env st out =
     poll_length_all fuel env (pe_version env = 1) (cq_sz (ps_q st))
       \<lparr>la_buf = buf, la_inl = inl, la_offset = False, la_flags = fl, la_vlan = False, la_timestamp = ts\<rparr> st out"

definition mlx5_poll_length_flags_ts_unsafe_cqe64 :: "nat \<Rightarrow> bool \<Rightarrow> bool \<Rightarrow> bool \<Rightarrow> poll_length_fun" where
  "mlx5_poll_length_flags_ts_unsafe_cqe64 buf inl fl ts fuel env st out =
     poll_length_all fuel env False 64
       \<lparr>la_buf = buf, la_inl = inl, la_offset = False, la_flags = fl, la_vlan = False, la_timestamp = ts\<rparr> st out"

definition mlx5_poll_length_flags_ts_unsafe_cqe128 :: "nat \<Rightarrow> bool \<Rightarrow> bool \<Rightarrow> bool \<Rightarrow> poll_length_fun" where
  "mlx5_poll_length_flags_ts_unsafe_cqe128 buf inl fl ts fuel env st out =
     poll_length_all fuel env False 128
       \<lparr>la_buf = buf, la_inl = inl, la_offset = False, la_flags = fl, la_vlan = False, la_timestamp = ts\<rparr> st out"

definition mlx5_poll_length_flags_ts_unsafe_cqe64_v1 :: "nat \<Rightarrow> bool \<Rightarrow> bool \<Rightarrow> bool \<Rightarrow> poll_length_fun" where
  "mlx5_poll_length_flags_ts_unsafe_cqe64_v1 buf inl fl ts fuel env st out =
     poll_length_all fuel env True 64
       \<lparr>la_buf = buf, la_inl = inl, la_offset = False, la_flags = fl, la_vlan = False, la_timestamp = ts\<rparr> st out"

definition mlx5_poll_length_flags_ts_unsafe_cqe128_v1 :: "nat \<Rightarrow> bool \<Rightarrow> bool \<Rightarrow> bool \<Rightarrow> poll_length_fun" where
  "mlx5_poll_length_flags_ts_unsafe_cqe128_v1 buf inl fl ts fuel env st out =
     poll_length_all fuel env True 128
       \<lparr>la_buf = buf, la_inl = inl, la_offset = False, la_flags = fl, la_vlan = False, la_timestamp = ts\<rparr> st out"

definition mlx5_poll_length_flags_mp_rq_ts_safe :: "bool \<Rightarrow> bool \<Rightarrow> bool \<Rightarrow> poll_length_fun" where
  "mlx5_poll_length_flags_mp_rq_ts_safe off fl ts fuel env st out =
     poll_length_all fuel env (pe_version env = 1) (cq_sz (ps_q st))
       \<lparr>la_buf = 0, la_inl = False, la_offset = off, la_flags = fl, la_vlan = False, la_timestamp = ts\<rparr> st out"

definition mlx5_poll_length_flags_mp_rq_ts_unsafe_cqe64 :: "bool \<Rightarrow> bool \<Rightarrow> bool \<Rightarrow> poll_length_fun" where
  "mlx5_poll_length_flags_mp_rq_ts_unsafe_cqe64 off fl ts fuel env st out =
     poll_length_all fuel env False 64
       \<lparr>la_buf = 0, la_inl = False, la_offset = off, la_flags = fl, la_vlan = False, la_timestamp = ts\<rparr> st out"

definition mlx5_poll_length_flags_mp_rq_ts_unsafe_cqe128 :: "bool \<Rightarrow> bool \<Rightarrow> bool \<Rightarrow> poll_length_fun" where
  "mlx5_poll_length_flags_mp_rq_ts_unsafe_cqe128 off fl ts fuel env st out =
     poll_length_all fuel env False 128
       \<lparr>la_buf = 0, la_inl = False, la_offset = off, la_flags = fl, la_vlan = False, la_timestamp = ts\<rparr> st out"

definition mlx5_poll_length_flags_mp_rq_ts_unsafe_cqe64_v1 :: "bool \<Rightarrow> bool \<Rightarrow> bool \<Rightarrow> poll_length_fun" where
  "mlx5_poll_length_flags_mp_rq_ts_unsafe_cqe64_v1 off fl ts fuel env st out =
     poll_length_all fuel env True 64
       \<lparr>la_buf = 0, la_inl = False, la_offset = off, la_flags = fl, la_vlan = False, la_timestamp = ts\<rparr> st out"

definition mlx5_poll_length_flags_mp_rq_ts_unsafe_cqe128_v1 :: "bool \<Rightarrow> bool \<Rightarrow> bool \<Rightarrow> poll_length_fun" where
  "mlx5_poll_length_flags_mp_rq_ts_unsafe_cqe128_v1 off fl ts fuel env st out =
     poll_length_all fuel env True 128
       \<lparr>la_buf = 0, la_inl = False, la_offset = off, la_flags = fl, la_vlan = False, la_timestamp = ts\<rparr> st out"

definition mlx5_poll_length_flags_cvlan_ts_safe :: "nat \<Rightarrow> bool \<Rightarrow> bool \<Rightarrow> bool \<Rightarrow> bool \<Rightarrow> poll_length_fun" where
  "mlx5_poll_length_flags_cvlan_ts_safe buf inl fl vl ts fuel env st out =
     poll_length_all fuel env (pe_version env = 1) (cq_sz (ps_q st))
       \<lparr>la_buf = buf, la_inl = inl, la_offset = False, la_flags = fl, la_vlan = vl, la_timestamp = ts\<rparr> st out"

definition mlx5_poll_length_flags_cvlan_ts_unsafe_cqe64 :: "nat \<Rightarrow> bool \<Rightarrow> bool \<Rightarrow> bool \<Rightarrow> bool \<Rightarrow> poll_length_fun" where
  "mlx5_poll_length_flags_cvlan_ts_unsafe_cqe64 buf inl fl vl ts fuel env st out =
     poll_length_all fuel env False 64
       \<lparr>la_buf = buf, la_inl = inl, la_offset = False, la_flags = fl, la_vlan = vl, la_timestamp = ts\<rparr> st out"

definition mlx5_poll_length_flags_cvlan_ts_unsafe_cqe128 :: "nat \<Rightarrow> bool \<Rightarrow> bool \<Rightarrow> bool \<Rightarrow> bool \<Rightarrow> poll_length_fun" where
  "mlx5_poll_length_flags_cvlan_ts_unsafe_cqe128 buf inl fl vl ts fuel env st out =
     poll_length_all fuel env False 128
       \<lparr>la_buf = buf, la_inl = inl, la_offset = False, la_flags = fl, la_vlan = vl, la_timestamp = ts\<rparr> st out"

definition mlx5_poll_length_flags_cvlan_ts_unsafe_cqe64_v1 :: "nat \<Rightarrow> bool \<Rightarrow> bool \<Rightarrow> bool \<Rightarrow> bool \<Rightarrow> poll_length_fun" where
  "mlx5_poll_length_flags_cvlan_ts_unsafe_cqe64_v1 buf inl fl vl ts fuel env st out =
     poll_length_all fuel env True 64
       \<lparr>la_buf = buf, la_inl = inl, la_offset = False, la_flags = fl, la_vlan = vl, la_timestamp = ts\<rparr> st out"

definition mlx5_poll_length_flags_cvlan_ts_unsafe_cqe128_v1 :: "nat \<Rightarrow> bool \<Rightarrow> bool \<Rightarrow> bool \<Rightarrow> bool \<Rightarrow> poll_length_fun" where
  "mlx5_poll_length_flags_cvlan_ts_unsafe_cqe128_v1 buf inl fl vl ts fuel env st out =
     poll_length_all fuel env True 128
       \<lparr>la_buf = buf, la_inl = inl, la_offset = False, la_flags = fl, la_vlan = vl, la_timestamp = ts\<rparr> st out"

definition mlx5_poll_length_flags_mp_rq_cvlan_ts_safe :: "bool \<Rightarrow> bool \<Rightarrow> bool \<Rightarrow> bool \<Rightarrow> poll_length_fun" where
  "mlx5_poll_length_flags_mp_rq_cvlan_ts_safe off fl vl ts fuel env st out =
     poll_length_all fuel env (pe_version env = 1) (cq_sz (ps_q st))
       \<lparr>la_buf = 0, la_inl = False, la_offset = off, la_flags = fl, la_vlan = vl, la_timestamp = ts\<rparr> st out"

definition mlx5_poll_length_flags_mp_rq_cvlan_ts_unsafe_cqe64 :: "bool \<Rightarrow> bool \<Rightarrow> bool \<Rightarrow> bool \<Rightarrow> poll_length_fun" where
  "mlx5_poll_length_flags_mp_rq_cvlan_ts_unsafe_cqe64 off fl vl ts fuel env st out =
     poll_length_all fuel env False 64
       \<lparr>la_buf = 0, la_inl = False, la_offset = off, la_flags = fl, la_vlan = vl, la_timestamp = ts\<rparr> st out"

definition mlx5_poll_length_flags_mp_rq_cvlan_ts_unsafe_cqe128 :: "bool \<Rightarrow> bool \<Rightarrow> bool \<Rightarrow> bool \<Rightarrow> poll_length_fun" where
  "mlx5_poll_length_flags_mp_rq_cvlan_ts_unsafe_cqe128 off fl vl ts fuel env st out =
     poll_length_all fuel env False 128
       \<lparr>la_buf = 0, la_inl = False, la_offset = off, la_flags = fl, la_vlan = vl, la_timestamp = ts\<rparr> st out"

definition mlx5_poll_length_flags_mp_rq_cvlan_ts_unsafe_cqe64_v1 :: "bool \<Rightarrow> bool \<Rightarrow> bool \<Rightarrow> bool \<Rightarrow> poll_length_fun" where
  "mlx5_poll_length_flags_mp_rq_cvlan_ts_unsafe_cqe64_v1 off fl vl ts fuel env st out =
     poll_length_all fuel env True 64
       \<lparr>la_buf = 0, la_inl = False, la_offset = off, la_flags = fl, la_vlan = vl, la_timestamp = ts\<rparr> st out"

definition mlx5_poll_length_flags_mp_rq_cvlan_ts_unsafe_cqe128_v1 :: "bool \<Rightarrow> bool \<Rightarrow> bool \<Rightarrow> bool \<Rightarrow> poll_length_fun" where
  "mlx5_poll_length_flags_mp_rq_cvlan_ts_unsafe_cqe128_v1 off fl vl ts fuel env st out =
     poll_length_all fuel env True 128
       \<lparr>la_buf = 0, la_inl = False, la_offset = off, la_flags = fl, la_vlan = vl, la_timestamp = ts\<rparr> st out"

lemmas variant_defs =
  mlx5_poll_cnt_safe_def mlx5_poll_cnt_unsafe_cqe64_def mlx5_poll_cnt_unsafe_cqe128_def
  mlx5_poll_cnt_unsafe_cqe64_v1_def mlx5_poll_cnt_unsafe_cqe128_v1_def mlx5_poll_length_safe_def
  mlx5_poll_length_unsafe_cqe64_def mlx5_poll_length_unsafe_cqe128_def mlx5_poll_length_unsafe_cqe64_v1_def
  mlx5_poll_length_unsafe_cqe128_v1_def mlx5_poll_length_flags_safe_def
  mlx5_poll_length_flags_unsafe_cqe64_def mlx5_poll_length_flags_unsafe_cqe128_def
  mlx5_poll_length_flags_unsafe_cqe64_v1_def mlx5_poll_length_flags_unsafe_cqe128_v1_def
  mlx5_poll_length_flags_mp_rq_safe_def mlx5_poll_length_flags_mp_rq_unsafe_cqe64_def
  mlx5_poll_length_flags_mp_rq_unsafe_cqe128_def mlx5_poll_length_flags_mp_rq_unsafe_cqe64_v1_def
  mlx5_poll_length_flags_mp_rq_unsafe_cqe128_v1_def mlx5_poll_length_flags_cvlan_safe_def
  mlx5_poll_length_flags_cvlan_unsafe_cqe64_def mlx5_poll_length_flags_cvlan_unsafe_cqe128_def
  mlx5_poll_length_flags_cvlan_unsafe_cqe64_v1_def mlx5_poll_length_flags_cvlan_unsafe_cqe128_v1_def
  mlx5_poll_length_flags_mp_rq_cvlan_safe_def mlx5_poll_length_flags_mp_rq_cvlan_unsafe_cqe64_def
  mlx5_poll_length_flags_mp_rq_cvlan_unsafe_cqe128_def mlx5_poll_length_flags_mp_rq_cvlan_unsafe_cqe64_v1_def
  mlx5_poll_length_flags_mp_rq_cvlan_unsafe_cqe128_v1_def mlx5_poll_length_flags_ts_safe_def
  mlx5_poll_length_flags_ts_unsafe_cqe64_def mlx5_poll_length_flags_ts_unsafe_cqe128_def
  mlx5_poll_length_flags_ts_unsafe_cqe64_v1_def mlx5_poll_length_flags_ts_unsafe_cqe128_v1_def
  mlx5_poll_length_flags_mp_rq_ts_safe_def mlx5_poll_length_flags_mp_rq_ts_unsafe_cqe64_def
  mlx5_poll_length_flags_mp_rq_ts_unsafe_cqe128_def mlx5_poll_length_flags_mp_rq_ts_unsafe_cqe64_v1_def
  mlx5_poll_length_flags_mp_rq_ts_unsafe_cqe128_v1_def mlx5_poll_length_flags_cvlan_ts_safe_def
  mlx5_poll_length_flags_cvlan_ts_unsafe_cqe64_def mlx5_poll_length_flags_cvlan_ts_unsafe_cqe128_def
  mlx5_poll_length_flags_cvlan_ts_unsafe_cqe64_v1_def mlx5_poll_length_flags_cvlan_ts_unsafe_cqe128_v1_def
  mlx5_poll_length_flags_mp_rq_cvlan_ts_safe_def mlx5_poll_length_flags_mp_rq_cvlan_ts_unsafe_cqe64_def
  mlx5_poll_length_flags_mp_rq_cvlan_ts_unsafe_cqe128_def
  mlx5_poll_length_flags_mp_rq_cvlan_ts_unsafe_cqe64_v1_def
  mlx5_poll_length_flags_mp_rq_cvlan_ts_unsafe_cqe128_v1_def

section \<open>The families\<close>

record cq_family =
  fam_poll_cnt :: poll_cnt_fun
  fam_poll_length :: "nat \<Rightarrow> bool \<Rightarrow> poll_length_fun"
  fam_poll_length_flags :: "nat \<Rightarrow> bool \<Rightarrow> bool \<Rightarrow> poll_length_fun"
  fam_poll_length_flags_mp_rq :: "bool \<Rightarrow> bool \<Rightarrow> poll_length_fun"
  fam_poll_length_flags_cvlan :: "nat \<Rightarrow> bool \<Rightarrow> bool \<Rightarrow> bool \<Rightarrow> poll_length_fun"
  fam_poll_length_flags_mp_rq_cvlan :: "bool \<Rightarrow> bool \<Rightarrow> bool \<Rightarrow> poll_length_fun"
  fam_poll_length_flags_ts :: "nat \<Rightarrow> bool \<Rightarrow> bool \<Rightarrow> bool \<Rightarrow> poll_length_fun"
  fam_poll_length_flags_mp_rq_ts :: "bool \<Rightarrow> bool \<Rightarrow> bool \<Rightarrow> poll_length_fun"
  fam_poll_length_flags_cvlan_ts :: "nat \<Rightarrow> bool \<Rightarrow> bool \<Rightarrow> bool \<Rightarrow> bool \<Rightarrow> poll_length_fun"
  fam_poll_length_flags_mp_rq_cvlan_ts :: "bool \<Rightarrow> bool \<Rightarrow> bool \<Rightarrow> bool \<Rightarrow> poll_length_fun"

definition mlx5_poll_cq_family_safe :: cq_family where
  "mlx5_poll_cq_family_safe = \<lparr>fam_poll_cnt = mlx5_poll_cnt_safe,
     fam_poll_length = mlx5_poll_length_safe,
     fam_poll_length_flags = mlx5_poll_length_flags_safe,
     fam_poll_length_flags_mp_rq = mlx5_poll_length_flags_mp_rq_safe,
     fam_poll_length_flags_cvlan = mlx5_poll_length_flags_cvlan_safe,
     fam_poll_length_flags_mp_rq_cvlan = mlx5_poll_length_flags_mp_rq_cvlan_safe,
     fam_poll_length_flags_ts = mlx5_poll_length_flags_ts_safe,
     fam_poll_length_flags_mp_rq_ts = mlx5_poll_length_flags_mp_rq_ts_safe,
     fam_poll_length_flags_cvlan_ts = mlx5_poll_length_flags_cvlan_ts_safe,
     fam_poll_length_flags_mp_rq_cvlan_ts = mlx5_poll_length_flags_mp_rq_cvlan_ts_safe\<rparr>"

definition mlx5_poll_cq_family_unsafe_64 :: cq_family where
  "mlx5_poll_cq_family_unsafe_64 = \<lparr>fam_poll_cnt = mlx5_poll_cnt_unsafe_cqe64,
     fam_poll_length = mlx5_poll_length_unsafe_cqe64,
     fam_poll_length_flags = mlx5_poll_length_flags_unsafe_cqe64,
     fam_poll_length_flags_mp_rq = mlx5_poll_length_flags_mp_rq_unsafe_cqe64,
     fam_poll_length_flags_cvlan = mlx5_poll_length_flags_cvlan_unsafe_cqe64,
     fam_poll_length_flags_mp_rq_cvlan = mlx5_poll_length_flags_mp_rq_cvlan_unsafe_cqe64,
     fam_poll_length_flags_ts = mlx5_poll_length_flags_ts_unsafe_cqe64,
     fam_poll_length_flags_mp_rq_ts = mlx5_poll_length_flags_mp_rq_ts_unsafe_cqe64,
     fam_poll_length_flags_cvlan_ts = mlx5_poll_length_flags_cvlan_ts_unsafe_cqe64,
     fam_poll_length_flags_mp_rq_cvlan_ts = mlx5_poll_length_flags_mp_rq_cvlan_ts_unsafe_cqe64\<rparr>"

definition mlx5_poll_cq_family_unsafe_128 :: cq_family where
  "mlx5_poll_cq_family_unsafe_128 = \<lparr>fam_poll_cnt = mlx5_poll_cnt_unsafe_cqe128,
     fam_poll_length = mlx5_poll_length_unsafe_cqe128,
     fam_poll_length_flags = mlx5_poll_length_flags_unsafe_cqe128,
     fam_poll_length_flags_mp_rq = mlx5_poll_length_flags_mp_rq_unsafe_cqe128,
     fam_poll_length_flags_cvlan = mlx5_poll_length_flags_cvlan_unsafe_cqe128,
     fam_poll_length_flags_mp_rq_cvlan = mlx5_poll_length_flags_mp_rq_cvlan_unsafe_cqe128,
     fam_poll_length_flags_ts = mlx5_poll_length_flags_ts_unsafe_cqe128,
     fam_poll_length_flags_mp_rq_ts = mlx5_poll_length_flags_mp_rq_ts_unsafe_cqe128,
     fam_poll_length_flags_cvlan_ts = mlx5_poll_length_flags_cvlan_ts_unsafe_cqe128,
     fam_poll_length_flags_mp_rq_cvlan_ts = mlx5_poll_length_flags_mp_rq_cvlan_ts_unsafe_cqe128\<rparr>"

definition mlx5_poll_cq_family_unsafe_v1_64 :: cq_family where
  "mlx5_poll_cq_family_unsafe_v1_64 = \<lparr>fam_poll_cnt = mlx5_poll_cnt_unsafe_cqe64_v1,
     fam_poll_length = mlx5_poll_length_unsafe_cqe64_v1,
     fam_poll_length_flags = mlx5_poll_length_flags_unsafe_cqe64_v1,
     fam_poll_length_flags_mp_rq = mlx5_poll_length_flags_mp_rq_unsafe_cqe64_v1,
     fam_poll_length_flags_cvlan = mlx5_poll_length_flags_cvlan_unsafe_cqe64_v1,
     fam_poll_length_flags_mp_rq_cvlan = mlx5_poll_length_flags_mp_rq_cvlan_unsafe_cqe64_v1,
     fam_poll_length_flags_ts = mlx5_poll_length_flags_ts_unsafe_cqe64_v1,
     fam_poll_length_flags_mp_rq_ts = mlx5_poll_length_flags_mp_rq_ts_unsafe_cqe64_v1,
     fam_poll_length_flags_cvlan_ts = mlx5_poll_length_flags_cvlan_ts_unsafe_cqe64_v1,
     fam_poll_length_flags_mp_rq_cvlan_ts = mlx5_poll_length_flags_mp_rq_cvlan_ts_unsafe_cqe64_v1\<rparr>"

definition mlx5_poll_cq_family_unsafe_v1_128 :: cq_family where
  "mlx5_poll_cq_family_unsafe_v1_128 = \<lparr>fam_poll_cnt = mlx5_poll_cnt_unsafe_cqe128_v1,
     fam_poll_length = mlx5_poll_length_unsafe_cqe128_v1,
     fam_poll_length_flags = mlx5_poll_length_flags_unsafe_cqe128_v1,
     fam_poll_length_flags_mp_rq = mlx5_poll_length_flags_mp_rq_unsafe_cqe128_v1,
     fam_poll_length_flags_cvlan = mlx5_poll_length_flags_cvlan_unsafe_cqe128_v1,
     fam_poll_length_flags_mp_rq_cvlan = mlx5_poll_length_flags_mp_rq_cvlan_unsafe_cqe128_v1,
     fam_poll_length_flags_ts = mlx5_poll_length_flags_ts_unsafe_cqe128_v1,
     fam_poll_length_flags_mp_rq_ts = mlx5_poll_length_flags_mp_rq_ts_unsafe_cqe128_v1,
     fam_poll_length_flags_cvlan_ts = mlx5_poll_length_flags_cvlan_ts_unsafe_cqe128_v1,
     fam_poll_length_flags_mp_rq_cvlan_ts = mlx5_poll_length_flags_mp_rq_cvlan_ts_unsafe_cqe128_v1\<rparr>"

lemmas family_defs =
  mlx5_poll_cq_family_safe_def
  mlx5_poll_cq_family_unsafe_64_def
  mlx5_poll_cq_family_unsafe_128_def
  mlx5_poll_cq_family_unsafe_v1_64_def
  mlx5_poll_cq_family_unsafe_v1_128_def

text \<open>The two tables, by the size of an entry.\<close>

definition mlx5_poll_cq_family_unsafe_tbl :: "nat \<Rightarrow> cq_family" where
  "mlx5_poll_cq_family_unsafe_tbl sz = (if sz = 64 then mlx5_poll_cq_family_unsafe_64 else mlx5_poll_cq_family_unsafe_128)"

definition mlx5_poll_cq_family_unsafe_v1_tbl :: "nat \<Rightarrow> cq_family" where
  "mlx5_poll_cq_family_unsafe_v1_tbl sz =
     (if sz = 64 then mlx5_poll_cq_family_unsafe_v1_64 else mlx5_poll_cq_family_unsafe_v1_128)"

record intf_params =
  intf_version :: u32
  intf_flags :: u32
  family_flags :: u32

datatype intf_status = IBV_EXP_INTF_STAT_VERSION_NOT_SUPPORTED | IBV_EXP_INTF_STAT_FLAGS_NOT_SUPPORTED
  | IBV_EXP_INTF_STAT_FAMILY_FLAGS_NOT_SUPPORTED | IBV_EXP_INTF_STAT_INVAL_PARARM | IBV_EXP_INTF_STAT_INVAL_OBJ_STATE

definition MLX5_MAX_CQ_FAMILY_VER :: u32 where "MLX5_MAX_CQ_FAMILY_VER = 1"

text \<open>\<open>Inl\<close> is \<open>NULL\<close> with the status; the arguments are the queue, its flag and the context's version.\<close>

definition mlx5_get_poll_cq_family :: "u8 \<Rightarrow> bool \<Rightarrow> mlx5_cq \<Rightarrow> intf_params \<Rightarrow> intf_status + cq_family" where
  "mlx5_get_poll_cq_family version thread_safe q params =
     (if MLX5_MAX_CQ_FAMILY_VER < intf_version params then Inl IBV_EXP_INTF_STAT_VERSION_NOT_SUPPORTED
      else if intf_flags params \<noteq> 0 then Inl IBV_EXP_INTF_STAT_FLAGS_NOT_SUPPORTED
      else if family_flags params \<noteq> 0 then Inl IBV_EXP_INTF_STAT_FAMILY_FLAGS_NOT_SUPPORTED
      else if thread_safe then Inr mlx5_poll_cq_family_safe
      else if cq_sz q \<noteq> 64 \<and> cq_sz q \<noteq> 128 then Inl IBV_EXP_INTF_STAT_INVAL_PARARM
      else if version = 1 then Inr (mlx5_poll_cq_family_unsafe_v1_tbl (cq_sz q))
      else Inr (mlx5_poll_cq_family_unsafe_tbl (cq_sz q)))"

text \<open>A family serves a queue when each of its members does what the member of the safe family does.\<close>

definition same_poll :: "cq_family \<Rightarrow> nat \<Rightarrow> poll_env \<Rightarrow> poll_state \<Rightarrow> bool" where
  "same_poll f fuel env st \<longleftrightarrow>
     (\<forall>n. fam_poll_cnt f fuel env n st = mlx5_poll_cnt_safe fuel env n st) \<and>
     (\<forall>buf inl out. fam_poll_length f buf inl fuel env st out = mlx5_poll_length_safe buf inl fuel env st out) \<and>
     (\<forall>buf inl fl out. fam_poll_length_flags f buf inl fl fuel env st out =
        mlx5_poll_length_flags_safe buf inl fl fuel env st out) \<and>
     (\<forall>off fl out. fam_poll_length_flags_mp_rq f off fl fuel env st out =
        mlx5_poll_length_flags_mp_rq_safe off fl fuel env st out) \<and>
     (\<forall>buf inl fl vl out. fam_poll_length_flags_cvlan f buf inl fl vl fuel env st out =
        mlx5_poll_length_flags_cvlan_safe buf inl fl vl fuel env st out) \<and>
     (\<forall>off fl vl out. fam_poll_length_flags_mp_rq_cvlan f off fl vl fuel env st out =
        mlx5_poll_length_flags_mp_rq_cvlan_safe off fl vl fuel env st out) \<and>
     (\<forall>buf inl fl ts out. fam_poll_length_flags_ts f buf inl fl ts fuel env st out =
        mlx5_poll_length_flags_ts_safe buf inl fl ts fuel env st out) \<and>
     (\<forall>off fl ts out. fam_poll_length_flags_mp_rq_ts f off fl ts fuel env st out =
        mlx5_poll_length_flags_mp_rq_ts_safe off fl ts fuel env st out) \<and>
     (\<forall>buf inl fl vl ts out. fam_poll_length_flags_cvlan_ts f buf inl fl vl ts fuel env st out =
        mlx5_poll_length_flags_cvlan_ts_safe buf inl fl vl ts fuel env st out) \<and>
     (\<forall>off fl vl ts out. fam_poll_length_flags_mp_rq_cvlan_ts f off fl vl ts fuel env st out =
        mlx5_poll_length_flags_mp_rq_cvlan_ts_safe off fl vl ts fuel env st out)"

lemma safe_family_same: "same_poll mlx5_poll_cq_family_safe fuel env st"
  by (simp add: same_poll_def mlx5_poll_cq_family_safe_def)

lemma unsafe_v1_family_same:
  assumes "pe_version env = 1"
  shows "cq_sz (ps_q st) = 64 \<Longrightarrow> same_poll mlx5_poll_cq_family_unsafe_v1_64 fuel env st"
    and "cq_sz (ps_q st) = 128 \<Longrightarrow> same_poll mlx5_poll_cq_family_unsafe_v1_128 fuel env st"
  using assms by (simp_all add: same_poll_def family_defs variant_defs)

lemma unsafe_family_same:
  assumes "pe_version env \<noteq> 1"
  shows "cq_sz (ps_q st) = 64 \<Longrightarrow> same_poll mlx5_poll_cq_family_unsafe_64 fuel env st"
    and "cq_sz (ps_q st) = 128 \<Longrightarrow> same_poll mlx5_poll_cq_family_unsafe_128 fuel env st"
  using assms by (simp_all add: same_poll_def family_defs variant_defs)

lemma family_same:
  assumes "mlx5_get_poll_cq_family (pe_version env) ts (ps_q st) params = Inr f"
  shows "same_poll f fuel env st"
  using assms safe_family_same unsafe_v1_family_same unsafe_family_same
  by (auto simp: mlx5_get_poll_cq_family_def mlx5_poll_cq_family_unsafe_v1_tbl_def mlx5_poll_cq_family_unsafe_tbl_def
      split: if_splits)

end
