(* ===== verification/Qp_Family.thy ===== *)
theory Qp_Family
  imports Cq_Exports
begin

text \<open>
  The exported variants of the receive bursts of \<open>qp.c\<close>, for queue pairs and for work queues, and the
  family of a work queue. The safe variants look whether an entry of the queue takes one segment; the
  unsafe ones are compiled for either answer (\<open>_1sge\<close>). Whether a work queue takes several packets per
  entry is the type of its object.
\<close>

section \<open>Queue pairs\<close>

definition mlx5_recv_burst_safe :: "ibv_sge list \<Rightarrow> mlx5_qp \<Rightarrow> memory \<Rightarrow> (mlx5_qp \<times> memory) res" where
  "mlx5_recv_burst_safe sgs qp m =
     bindR (recv_burst (q_rq qp) (wq_max_gs (q_rq qp) = 1) False sgs m) (\<lambda>(rq, m). Inr (qp\<lparr>q_rq := rq\<rparr>, m))"

definition MLX5_RECV_BURST_UNSAFE :: "bool \<Rightarrow> ibv_sge list \<Rightarrow> mlx5_qp \<Rightarrow> memory \<Rightarrow> (mlx5_qp \<times> memory) res" where
  "MLX5_RECV_BURST_UNSAFE one_sge sgs qp m =
     bindR (recv_burst (q_rq qp) one_sge False sgs m) (\<lambda>(rq, m). Inr (qp\<lparr>q_rq := rq\<rparr>, m))"

section \<open>Work queues\<close>

type_synonym wq_post_fun = "ibv_sge list \<Rightarrow> bool \<Rightarrow> mlx5_rwq \<Rightarrow> memory \<Rightarrow> (mlx5_rwq \<times> memory) res"

definition mlx5_wq_recv_burst_safe :: wq_post_fun where
  "mlx5_wq_recv_burst_safe sgs mp w m =
     bindR (recv_burst (rw_rq w) (wq_max_gs (rw_rq w) = 1) mp sgs m) (\<lambda>(rq, m). Inr (w\<lparr>rw_rq := rq\<rparr>, m))"

definition MLX5_WQ_RECV_BURST_UNSAFE :: "bool \<Rightarrow> wq_post_fun" where
  "MLX5_WQ_RECV_BURST_UNSAFE one_sge sgs mp w m =
     bindR (recv_burst (rw_rq w) one_sge mp sgs m) (\<lambda>(rq, m). Inr (w\<lparr>rw_rq := rq\<rparr>, m))"

definition mlx5_wq_recv_sg_list_safe :: wq_post_fun where
  "mlx5_wq_recv_sg_list_safe sgs mp w m =
     bindR (recv_sg_list (rw_rq w) sgs m) (\<lambda>(rq, m). Inr (w\<lparr>rw_rq := rq\<rparr>, m))"

definition mlx5_wq_recv_sg_list_unsafe :: wq_post_fun where
  "mlx5_wq_recv_sg_list_unsafe sgs mp w m =
     bindR (recv_sg_list (rw_rq w) sgs m) (\<lambda>(rq, m). Inr (w\<lparr>rw_rq := rq\<rparr>, m))"

section \<open>The family of a work queue\<close>

record wq_family =
  fam_recv_sg_list :: wq_post_fun
  fam_recv_burst :: wq_post_fun

definition mlx5_wq_family_safe :: wq_family where
  "mlx5_wq_family_safe = \<lparr>fam_recv_sg_list = mlx5_wq_recv_sg_list_safe, fam_recv_burst = mlx5_wq_recv_burst_safe\<rparr>"

definition mlx5_wq_family_unsafe_tbl :: "bool \<Rightarrow> wq_family" where
  "mlx5_wq_family_unsafe_tbl one_sge =
     \<lparr>fam_recv_sg_list = mlx5_wq_recv_sg_list_unsafe, fam_recv_burst = MLX5_WQ_RECV_BURST_UNSAFE one_sge\<rparr>"

definition MLX5_MAX_WQ_FAMILY_VER :: u32 where "MLX5_MAX_WQ_FAMILY_VER = 0"

definition mlx5_get_wq_family :: "bool \<Rightarrow> mlx5_rwq \<Rightarrow> intf_params \<Rightarrow> intf_status + wq_family" where
  "mlx5_get_wq_family thread_safe w params =
     (if MLX5_MAX_WQ_FAMILY_VER < intf_version params then Inl IBV_EXP_INTF_STAT_VERSION_NOT_SUPPORTED
      else if intf_flags params \<noteq> 0 then Inl IBV_EXP_INTF_STAT_FLAGS_NOT_SUPPORTED
      else if family_flags params \<noteq> 0 then Inl IBV_EXP_INTF_STAT_FAMILY_FLAGS_NOT_SUPPORTED
      else if thread_safe then Inr mlx5_wq_family_safe
      else Inr (mlx5_wq_family_unsafe_tbl (wq_max_gs (rw_rq w) = 1)))"

text \<open>A post leaves the number of segments of an entry, so the family stays the right one.\<close>

lemma recv_burst_frame:
  assumes "recv_burst rq one_sge mp sgs m = Inr (rq', m')"
  shows "wq_max_gs rq' = wq_max_gs rq"
  using assms by (auto simp: recv_burst_def Let_def bindR_eq_Inr)

lemma recv_sg_list_frame:
  assumes "recv_sg_list rq sgs m = Inr (rq', m')"
  shows "wq_max_gs rq' = wq_max_gs rq"
  using assms by (auto simp: recv_sg_list_def Let_def bindR_eq_Inr)

lemma wq_family_same:
  assumes "mlx5_get_wq_family ts w params = Inr f" and "wq_max_gs (rw_rq w') = wq_max_gs (rw_rq w)"
  shows "fam_recv_burst f sgs mp w' m = mlx5_wq_recv_burst_safe sgs mp w' m"
    and "fam_recv_sg_list f sgs mp w' m = mlx5_wq_recv_sg_list_safe sgs mp w' m"
  using assms
  by (auto simp: mlx5_get_wq_family_def mlx5_wq_family_safe_def mlx5_wq_family_unsafe_tbl_def MLX5_WQ_RECV_BURST_UNSAFE_def
      mlx5_wq_recv_burst_safe_def mlx5_wq_recv_sg_list_safe_def mlx5_wq_recv_sg_list_unsafe_def split: if_splits)

lemma wq_post_keeps_family:
  assumes "mlx5_wq_recv_burst_safe sgs mp w m = Inr (w', m') \<or> mlx5_wq_recv_sg_list_safe sgs mp w m = Inr (w', m')"
  shows "wq_max_gs (rw_rq w') = wq_max_gs (rw_rq w)"
  using assms recv_burst_frame recv_sg_list_frame
  by (auto simp: mlx5_wq_recv_burst_safe_def mlx5_wq_recv_sg_list_safe_def bindR_eq_Inr)

end
