(* ===== verification/Family_Props.thy ===== *)
theory Family_Props
  imports Qp_Family Poll_Samples
begin

text \<open>
  The tables of accelerated operations that the driver hands out, with an instance on the sample queue.
\<close>

text \<open>C18: the family that is handed out does what the safe one does. \<open>mlx5_get_poll_cq_family\<close> chooses a table of
  specialised polls by the version of the context and the size of the entries of the queue; each of its
  ten members then does, on that queue in any state, what the member of the safe table does, which looks
  these up at every call. The entry size is a constant of the queue, so the table stays right.\<close>

theorem family_serves_queue:
  assumes "mlx5_get_poll_cq_family (pe_version env) ts (ps_q st0) params = Inr f" and "cq_sz (ps_q st) = cq_sz (ps_q st0)"
  shows "same_poll f fuel env st"
  using family_same [of env ts st params f fuel] assms by (simp add: mlx5_get_poll_cq_family_def cong: if_cong)

theorem family_serves_queue_witness:
  "mlx5_poll_cnt_unsafe_cqe64 1 (env_of 5 20480) 2 (poll_sample (cqe_bytes 0 0xF0) qp_at_20480) =
    mlx5_poll_cnt_safe 1 (env_of 5 20480) 2 (poll_sample (cqe_bytes 0 0xF0) qp_at_20480)"
proof -
  let ?st = "poll_sample (cqe_bytes 0 0xF0) qp_at_20480" and ?params = "\<lparr>intf_version = 1, intf_flags = 0, family_flags = 0\<rparr>"
  have "mlx5_get_poll_cq_family (pe_version (env_of 5 20480)) False (ps_q ?st) ?params = Inr mlx5_poll_cq_family_unsafe_64"
    by (simp add: mlx5_get_poll_cq_family_def env_of_def MLX5_MAX_CQ_FAMILY_VER_def mlx5_poll_cq_family_unsafe_tbl_def)
  from family_serves_queue [OF this, of ?st 1] have "same_poll mlx5_poll_cq_family_unsafe_64 1 (env_of 5 20480) ?st" by simp
  then show ?thesis by (simp add: same_poll_def mlx5_poll_cq_family_unsafe_64_def)
qed

end
