(* ===== verification/Burst.thy ===== *)
theory Burst
  imports Drv_Send Qp_Family
begin

text \<open>
  The send side of the burst family of \<open>qp.c\<close>: \<open>send_pending\<close> puts one message in the send queue without
  ringing, alone in an entry or, on a multi-packet queue, as one more message of the entry that is still
  open; \<open>send_flush_unsafe\<close> rings. The arguments that the C code fixes at compile time are the record
  \<open>burst_kind\<close>. There is no check for a full queue: the family leaves it to the application.
\<close>

section \<open>Arguments\<close>

record burst_abi = verbs_abi +
  IBV_EXP_QP_BURST_IP_CSUM :: u64
  IBV_EXP_QP_BURST_CREATE_ENABLE_MULTI_PACKET_SEND_WR :: u32

record burst_kind =
  bk_eth :: bool
  bk_inl :: bool
  bk_safe :: bool
  bk_sg :: bool
  bk_mpw :: bool
  bk_vlan :: bool

record burst_msg =
  bm_addr :: u64
  bm_length :: u32
  bm_lkey :: u32
  bm_flags :: u32
  bm_vlan_tci :: u16
  bm_num_sge :: int
  bm_sg_list :: "ibv_sge list option"

definition MLX5_MAX_MPW_SGE :: u8 where "MLX5_MAX_MPW_SGE = 5"
definition MLX5_MAX_MPW_SIZE :: u32 where "MLX5_MAX_MPW_SIZE = 0x3FFF"
definition MLX5_OPC_MOD_MPW :: u8 where "MLX5_OPC_MOD_MPW = 0x01"
definition MLX5_OPCODE_TSO :: u8 where "MLX5_OPCODE_TSO = 0x0e"
definition MLX5_OPCODE_SEND :: u8 where "MLX5_OPCODE_SEND = 0x0a"
definition MLX5_INLINE_SEG :: u32 where "MLX5_INLINE_SEG = 0x80000000"
definition MLX5_ETH_INLINE_HEADER_SIZE :: u32 where "MLX5_ETH_INLINE_HEADER_SIZE = 18"
definition MLX5_ETH_VLAN_INLINE_HEADER_SIZE :: u32 where "MLX5_ETH_VLAN_INLINE_HEADER_SIZE = 18"
definition MLX5_ETH_WQE_L3_CSUM :: u8 where "MLX5_ETH_WQE_L3_CSUM = 0x40"
definition MLX5_ETH_WQE_L4_CSUM :: u8 where "MLX5_ETH_WQE_L4_CSUM = 0x80"
definition MLX5_FENCE_MODE_SMALL_AND_FENCE :: u8 where "MLX5_FENCE_MODE_SMALL_AND_FENCE = 0x80"
definition EPERM :: int where "EPERM = 1"

definition has_flag :: "u32 \<Rightarrow> u64 \<Rightarrow> bool" where
  "has_flag fl b \<longleftrightarrow> fl AND ucast b \<noteq> 0"

text \<open>The flags without the request for a completion.\<close>

definition other_flags :: "burst_abi \<Rightarrow> u32 \<Rightarrow> u32" where
  "other_flags A fl = fl AND NOT (ucast (IBV_EXP_QP_BURST_SIGNALED A))"

section \<open>Which entry takes the message\<close>

text \<open>The local pointers of \<open>send_pending\<close>; \<open>None\<close> is one that is not initialised.\<close>

record burst_at =
  at_inl_seg :: "nat option"
  at_inl_data :: "nat option"
  at_dseg :: "nat option"

definition no_place :: burst_at where
  "no_place = \<lparr>at_inl_seg = None, at_inl_data = None, at_dseg = None\<rparr>"

text \<open>The size of the message and the number of its segments.\<close>

definition msg_extent :: "burst_kind \<Rightarrow> burst_msg \<Rightarrow> (u32 \<times> u32) res" where
  "msg_extent kind msg =
     (if bk_sg kind
      then bindR (foldR (\<lambda>i t. bindR (sge_at (bm_sg_list msg) i) (\<lambda>sg. Inr (t + sg_length sg))) [0..bm_num_sge msg - 1] 0)
             (\<lambda>t. Inr (t, of_int (bm_num_sge msg)))
      else Inr (bm_length msg, 1))"

text \<open>The message joins the open entry, or a new one is opened, or none can be open. \<open>ctrl_update + 7\<close> is 28
  bytes on.\<close>

definition mpw_choose :: "burst_abi \<Rightarrow> bool \<Rightarrow> u32 \<Rightarrow> u32 \<Rightarrow> u32 \<Rightarrow> send_side \<Rightarrow> send_side \<times> burst_at" where
  "mpw_choose A inl msz n_sg fl s =
     (let w = ss_mpw s; qp = ss_qp s; fits = (mp_len w = msz \<and> other_flags A (mp_flags w) = other_flags A fl) in
      if inl \<and> mp_state w = MLX5_MPW_STATE_OPENED_INL \<and> fits \<and> mp_total_len w + msz \<le> ss_max_inline s
      then let data = mp_last w + unat (mp_len w) in
           (s\<lparr>ss_mpw := w\<lparr>mp_total_len := mp_total_len w + msz\<rparr>\<rparr>,
            no_place\<lparr>at_inl_seg := Some (mp_ctrl_update w + 28),
              at_inl_data := Some (if q_sqend qp \<le> data then mlx5_get_send_wqe qp 0 + (data - q_sqend qp) else data)\<rparr>)
      else if \<not> inl \<and> mp_state w = MLX5_MPW_STATE_OPENED \<and> fits \<and> ucast (mp_num_sge w) + n_sg \<le> ucast MLX5_MAX_MPW_SGE
      then (s\<lparr>ss_mpw := w\<lparr>mp_num_sge := mp_num_sge w + ucast n_sg\<rparr>\<rparr>,
            no_place\<lparr>at_dseg := Some (if mp_last w + 16 = q_sqend qp then mlx5_get_send_wqe qp 0 else mp_last w + 16)\<rparr>)
      else if inl \<or> msz \<le> MLX5_MAX_MPW_SIZE
      then (s\<lparr>ss_mpw := w\<lparr>mp_state := MLX5_MPW_STATE_OPENING, mp_len := msz, mp_num_sge := ucast n_sg, mp_flags := fl,
              mp_scur_post := q_scur_post qp, mp_total_len := msz\<rparr>\<rparr>, no_place)
      else (s\<lparr>ss_mpw := w\<lparr>mp_state := MLX5_MPW_STATE_CLOSED\<rparr>\<rparr>, no_place))"

definition starts_new :: "burst_kind \<Rightarrow> send_side \<Rightarrow> bool" where
  "starts_new kind s \<longleftrightarrow> bk_vlan kind \<or> bk_inl kind \<and> mp_state (ss_mpw s) \<noteq> MLX5_MPW_STATE_OPENED_INL \<or>
     \<not> bk_inl kind \<and> mp_state (ss_mpw s) \<noteq> MLX5_MPW_STATE_OPENED"

definition opens_entry :: "burst_kind \<Rightarrow> send_side \<Rightarrow> bool" where
  "opens_entry kind s \<longleftrightarrow> bk_mpw kind \<and> mp_state (ss_mpw s) = MLX5_MPW_STATE_OPENING"

section \<open>The head of a new entry\<close>

text \<open>
  The Ethernet segment at \<open>eseg\<close>: \<open>cs_flags\<close> at 4, \<open>mss\<close> at 6, \<open>inline_hdr_sz\<close> at 12, the inline header from
  14 on. The first bytes of the packet go into the header, with the VLAN tag inserted behind the two
  addresses if there is one: the error, and what is left of the message.
\<close>

definition eth_inline_header :: "bool \<Rightarrow> u16 \<Rightarrow> nat \<Rightarrow> u64 \<Rightarrow> u32 \<Rightarrow> memory \<Rightarrow> (int \<times> u64 \<times> u32 \<times> memory) res" where
  "eth_inline_header vlan tci eseg addr len m =
     (if vlan
      then bindR (store16 (eseg + 12) (htons (ucast MLX5_ETH_VLAN_INLINE_HEADER_SIZE)) m) (\<lambda>m.
           if len \<le> MLX5_ETH_VLAN_INLINE_HEADER_SIZE - 4 then Inr (EINVAL, addr, len, m)
           else bindR (memcpy (eseg + 14) (unat addr) 12 m) (\<lambda>m.
                bindR (store32 (eseg + 26) (htonl (0x81000000 OR ucast tci)) m) (\<lambda>m.
                bindR (memcpy (eseg + 30) (unat addr + 12) 2 m) (\<lambda>m.
                  Inr (0, addr + ucast (MLX5_ETH_VLAN_INLINE_HEADER_SIZE - 4), len - (MLX5_ETH_VLAN_INLINE_HEADER_SIZE - 4), m)))))
      else bindR (store16 (eseg + 12) (htons (ucast MLX5_ETH_INLINE_HEADER_SIZE)) m) (\<lambda>m.
           if len \<le> MLX5_ETH_INLINE_HEADER_SIZE then Inr (EINVAL, addr, len, m)
           else bindR (memcpy (eseg + 14) (unat addr) 18 m) (\<lambda>m.
                  Inr (0, addr + ucast MLX5_ETH_INLINE_HEADER_SIZE, len - MLX5_ETH_INLINE_HEADER_SIZE, m))))"

text \<open>The fields that every packet has.\<close>

definition eth_reset :: "burst_abi \<Rightarrow> u32 \<Rightarrow> nat \<Rightarrow> memory \<Rightarrow> memory res" where
  "eth_reset A fl eseg m =
     bindR (store64 eseg 0 m) (\<lambda>m. bindR (store32 (eseg + 8) 0 m) (\<lambda>m.
       if has_flag fl (IBV_EXP_QP_BURST_IP_CSUM A) then store8 (eseg + 4) (MLX5_ETH_WQE_L3_CSUM OR MLX5_ETH_WQE_L4_CSUM) m
       else Inr m))"

text \<open>The error, the places for the data, the size so far in units of 16 bytes, and the message left.\<close>

definition new_entry :: "burst_abi \<Rightarrow> burst_kind \<Rightarrow> burst_msg \<Rightarrow> u64 \<Rightarrow> u32 \<Rightarrow> nat \<Rightarrow> send_side \<Rightarrow> memory \<Rightarrow>
    (int \<times> burst_at \<times> int \<times> u64 \<times> u32 \<times> memory) res" where
  "new_entry A kind msg addr len start s m =
     (if bk_eth kind
      then let eseg = start + 16 in
           bindR (eth_reset A (bm_flags msg) eseg m) (\<lambda>m.
             if opens_entry kind s
             then bindR (store16 (eseg + 6) (htons (ucast (mp_len (ss_mpw s)))) m) (\<lambda>m.
                  bindR (store16 (eseg + 12) 0 m) (\<lambda>m.
                    Inr (0, if bk_inl kind then no_place\<lparr>at_inl_seg := Some (start + 32), at_inl_data := Some (start + 36)\<rparr>
                            else no_place\<lparr>at_dseg := Some (start + 32)\<rparr>, 2, addr, len, m)))
             else bindR (eth_inline_header (bk_vlan kind) (bm_vlan_tci msg) eseg addr len m) (\<lambda>(err, addr, len, m).
                  Inr (err, no_place\<lparr>at_dseg := Some (eseg + 32)\<rparr>, 3, addr, len, m)))
      else Inr (0, no_place\<lparr>at_dseg := Some (start + 16)\<rparr>, 1, addr, len, m))"

section \<open>The data\<close>

definition given_ptr :: "nat option \<Rightarrow> nat res" where
  "given_ptr p = of_option (Fault BadAddress) p"

text \<open>The driver's own inline segment: \<open>None\<close> when the data exceed the queue pair's limit.\<close>

function drv_inl_loop :: "send_side \<Rightarrow> int \<Rightarrow> ibv_sge list option \<Rightarrow> int \<Rightarrow> int \<Rightarrow> nat \<Rightarrow> int \<Rightarrow> memory \<Rightarrow>
    (int option \<times> memory) res" where
  "drv_inl_loop s num sgs i offset wqe inl m =
     (if i < num
      then bindR (sge_at sgs i) (\<lambda>sg.
             let addr = unat (sg_addr sg + of_int offset); len = sint (sg_length sg - of_int offset); inl' = inl + len;
                 qend = int (q_sqend (ss_qp s)) in
             if ss_max_inline s < of_int inl' then Inr (None, m)
             else if int wqe + len > qend
             then let copy = qend - int wqe; wqe0 = mlx5_get_send_wqe (ss_qp s) 0 in
                  bindR (memcpy wqe addr copy m) (\<lambda>m.
                  bindR (memcpy wqe0 (nat (int addr + copy)) (len - copy) m) (\<lambda>m.
                    drv_inl_loop s num sgs (i + 1) 0 (nat (int wqe0 + (len - copy))) inl' m))
             else bindR (memcpy wqe addr len m) (\<lambda>m. drv_inl_loop s num sgs (i + 1) 0 (nat (int wqe + len)) inl' m))
      else Inr (Some inl, m))"
  by pat_completeness auto
termination
  by (relation "measure (\<lambda>(s, num, sgs, i, _). nat (num - i))") auto

declare drv_inl_loop.simps [simp del]

definition drv_set_data_inl_seg :: "send_side \<Rightarrow> int \<Rightarrow> ibv_sge list option \<Rightarrow> nat \<Rightarrow> int \<Rightarrow> int \<Rightarrow> int \<Rightarrow> memory \<Rightarrow>
    (int \<times> int \<times> memory) res" where
  "drv_set_data_inl_seg s num sgs wqe sz idx offset m =
     bindR (drv_inl_loop s num sgs idx offset (wqe + 4) 0 m) (\<lambda>(r, m).
       case r of
         None \<Rightarrow> Inr (ENOMEM, sz, m)
       | Some inl \<Rightarrow>
           if inl \<noteq> 0
           then bindR (store32 wqe (htonl (of_int inl OR MLX5_INLINE_SEG)) m) (\<lambda>m. Inr (0, sz + (inl + 4 + 15) div 16, m))
           else Inr (0, sz, m))"

text \<open>One more message of an entry with inline data: the data run over the end of the queue; the length so far
  goes into the entry's inline segment, from which its size follows.\<close>

definition put_mpw_inline :: "nat \<Rightarrow> nat \<Rightarrow> u64 \<Rightarrow> send_side \<Rightarrow> memory \<Rightarrow> (int \<times> memory) res" where
  "put_mpw_inline seg data addr s m =
     (let qend = q_sqend (ss_qp s); len = unat (mp_len (ss_mpw s)); total = mp_total_len (ss_mpw s) in
      bindR (if qend < data + len
             then let n = int qend - int data in
                  bindR (memcpy data (unat addr) n m)
                    (memcpy (mlx5_get_send_wqe (ss_qp s) 0) (nat (int (unat addr) + n)) (int len - n))
             else memcpy data (unat addr) (int len) m) (\<lambda>m.
      bindR (store32 seg (htonl (total OR MLX5_INLINE_SEG)) m) (\<lambda>m.
        Inr (2 + (int (unat total) + 4 + 15) div 16, m))))"

text \<open>The segments after the first. \<open>i\<close> counts those that were looked at.\<close>

function more_sges :: "send_side \<Rightarrow> int \<Rightarrow> ibv_sge list option \<Rightarrow> int \<Rightarrow> nat \<Rightarrow> int \<Rightarrow> memory \<Rightarrow> (nat \<times> int \<times> memory) res" where
  "more_sges s num sgs i dseg sz m =
     (if i < num - 1
      then bindR (sge_at sgs (i + 1)) (\<lambda>sg.
             if sg_length sg \<noteq> 0
             then let d = (if dseg + 16 = q_sqend (ss_qp s) then mlx5_get_send_wqe (ss_qp s) 0 else dseg + 16) in
                  bindR (set_data_ptr_seg d sg 0 m) (more_sges s num sgs (i + 1) d (sz + 1))
             else more_sges s num sgs (i + 1) dseg sz m)
      else Inr (dseg, sz, m))"
  by pat_completeness auto
termination
  by (relation "measure (\<lambda>(s, num, sgs, i, _). nat (num - i))") auto

declare more_sges.simps [simp del]

text \<open>What is returned first is the place after which the next message of the entry goes.\<close>

definition put_data :: "burst_kind \<Rightarrow> burst_msg \<Rightarrow> burst_at \<Rightarrow> u64 \<Rightarrow> u32 \<Rightarrow> u32 \<Rightarrow> int \<Rightarrow> send_side \<Rightarrow> memory \<Rightarrow>
    (nat \<times> int \<times> memory) res" where
  "put_data kind msg places addr len lkey sz s m =
     bindR (if bk_inl kind \<and> bk_mpw kind
            then bindR (given_ptr (at_inl_data places)) (\<lambda>data. bindR (given_ptr (at_inl_seg places)) (\<lambda>seg.
                 bindR (put_mpw_inline seg data addr s m) (\<lambda>(sz, m). Inr (data, sz, m))))
            else if bk_inl kind
            then bindR (given_ptr (at_dseg places)) (\<lambda>d.
                 bindR (drv_set_data_inl_seg s 1 (Some [\<lparr>sg_addr = addr, sg_length = len, sg_lkey = 0\<rparr>]) d sz 0 0 m)
                   (\<lambda>(_, sz, m). Inr (d, sz, m)))
            else bindR (given_ptr (at_dseg places)) (\<lambda>d.
                 bindR (set_data_ptr_seg d \<lparr>sg_addr = addr, sg_length = len, sg_lkey = lkey\<rparr> 0 m) (\<lambda>m. Inr (d, sz + 1, m))))
       (\<lambda>(d, sz, m).
         if bk_sg kind then more_sges s (bm_num_sge msg) (bm_sg_list msg) 0 d sz m else Inr (d, sz, m))"

section \<open>The control segment\<close>

text \<open>The completion and fence bits of an entry; a fence that is due is applied once.\<close>

definition burst_fm_ce_se :: "burst_abi \<Rightarrow> u32 \<Rightarrow> send_side \<Rightarrow> u8 res" where
  "burst_fm_ce_se A fl s =
     bindR (read_at (ss_fm_ce_se_acc s)
              (unat (fl AND ucast (IBV_EXP_QP_BURST_SOLICITED A OR IBV_EXP_QP_BURST_SIGNALED A OR IBV_EXP_QP_BURST_FENCE A))))
       (\<lambda>fm. Inr (if ss_fm_cache s = 0 then fm
                  else if has_flag fl (IBV_SEND_FENCE A) then fm OR MLX5_FENCE_MODE_SMALL_AND_FENCE
                  else fm OR ss_fm_cache s))"

definition finish_new :: "burst_abi \<Rightarrow> burst_kind \<Rightarrow> u32 \<Rightarrow> nat \<Rightarrow> int \<Rightarrow> send_side \<Rightarrow> memory \<Rightarrow> (send_side \<times> memory) res" where
  "finish_new A kind fl start sz s m =
     bindR (burst_fm_ce_se A fl s) (\<lambda>fm.
       let w = ss_mpw s; qp = ss_qp s; sq = q_sq qp; op = opens_entry kind s;
           stays = (\<not> has_flag fl (IBV_EXP_QP_BURST_SIGNALED A) \<and> mp_num_sge w < MLX5_MAX_MPW_SGE);
           w = (if \<not> op then w
                else if stays
                then w\<lparr>mp_ctrl_update := start + 4, mp_size := of_int sz,
                       mp_state := if bk_inl kind then MLX5_MPW_STATE_OPENED_INL else MLX5_MPW_STATE_OPENED\<rparr>
                else w\<lparr>mp_ctrl_update := start + 4, mp_state := MLX5_MPW_STATE_CLOSED\<rparr>) in
       bindR (set_ctrl_seg start (q_num qp) (if op then MLX5_OPCODE_TSO else MLX5_OPCODE_SEND) (ucast (q_scur_post qp))
                (if op then MLX5_OPC_MOD_MPW else 0) (of_int sz) fm 0 m) (\<lambda>m.
       bindR (write_at (q_wqe_head qp) (unat (q_scur_post qp AND (wq_wqe_cnt sq - 1))) (wq_head sq + 1)) (\<lambda>heads.
         Inr (s\<lparr>ss_fm_cache := 0, ss_mpw := w, ss_last_post := q_scur_post qp,
                ss_qp := qp\<lparr>q_wqe_head := heads, q_sq := sq\<lparr>wq_head := wq_head sq + 1\<rparr>,
                  q_scur_post := q_scur_post qp + of_int ((sz * 16 + 63) div 64)\<rparr>\<rparr>, m))))"

definition finish_join :: "burst_abi \<Rightarrow> burst_kind \<Rightarrow> u32 \<Rightarrow> int \<Rightarrow> send_side \<Rightarrow> memory \<Rightarrow> (send_side \<times> memory) res" where
  "finish_join A kind fl sz s m =
     (let w = ss_mpw s; qp = ss_qp s; size' = (if bk_inl kind then of_int sz else mp_size w + of_int sz);
          sig = has_flag fl (IBV_EXP_QP_BURST_SIGNALED A);
          w' = w\<lparr>mp_size := size', mp_state := if sig \<or> mp_num_sge w = MLX5_MAX_MPW_SGE then MLX5_MPW_STATE_CLOSED else mp_state w\<rparr> in
      bindR (store32 (mp_ctrl_update w) (htonl (push_bit 8 (q_num qp) OR (ucast size' AND 0x3F))) m) (\<lambda>m.
      bindR (if sig
             then bindR (load32 (mp_ctrl_update w + 4) m) (\<lambda>x.
                    store32 (mp_ctrl_update w + 4) (x OR htonl (ucast MLX5_WQE_CTRL_CQ_UPDATE)) m)
             else Inr m) (\<lambda>m.
        Inr (s\<lparr>ss_mpw := w', ss_qp := qp\<lparr>q_scur_post := mp_scur_post w + of_nat ((unat size' * 16 + 63) div 64)\<rparr>\<rparr>, m))))"

section \<open>One message\<close>

text \<open>An error return leaves the send queue locked.\<close>

definition drv_send_pending :: "burst_abi \<Rightarrow> burst_kind \<Rightarrow> burst_msg \<Rightarrow> send_side \<Rightarrow> memory \<Rightarrow> (int \<times> send_side \<times> memory) res" where
  "drv_send_pending A kind msg s m =
     (if bk_mpw kind \<and> bk_vlan kind then Inr (EPERM, s, m)
      else bindR (if bk_safe kind then lock_sq s else Inr s) (\<lambda>s.
           bindR (if bk_mpw kind
                  then bindR (msg_extent kind msg) (\<lambda>(sz, n). Inr (mpw_choose A (bk_inl kind) sz n (bm_flags msg) s))
                  else Inr (s\<lparr>ss_mpw := (ss_mpw s)\<lparr>mp_state := MLX5_MPW_STATE_CLOSED\<rparr>\<rparr>, no_place)) (\<lambda>(s, places).
           bindR (if bk_sg kind then sge_at (bm_sg_list msg) 0
                  else Inr \<lparr>sg_addr = bm_addr msg, sg_length = bm_length msg, sg_lkey = bm_lkey msg\<rparr>) (\<lambda>sg.
             let start = wqe_at s (q_scur_post (ss_qp s)) in
             bindR (if starts_new kind s then new_entry A kind msg (sg_addr sg) (sg_length sg) start s m
                    else Inr (0, places, 0, sg_addr sg, sg_length sg, m)) (\<lambda>(err, places, sz, addr, len, m).
               if err \<noteq> 0 then Inr (err, s, m)
               else bindR (put_data kind msg places addr len (sg_lkey sg) sz s m) (\<lambda>(d, sz, m).
                    let s = (if bk_mpw kind then s\<lparr>ss_mpw := (ss_mpw s)\<lparr>mp_last := d\<rparr>\<rparr> else s) in
                    bindR (if starts_new kind s then finish_new A kind (bm_flags msg) start sz s m
                           else finish_join A kind (bm_flags msg) sz s m) (\<lambda>(s, m).
                      Inr (0, if bk_safe kind then unlock_sq s else s, m))))))))"

section \<open>Ringing\<close>

text \<open>The doorbell is rung for the entry that was started last.\<close>

definition send_flush_unsafe :: "mlx5_db_method \<Rightarrow> send_side \<Rightarrow> memory \<Rightarrow> (send_side \<times> memory) res" where
  "send_flush_unsafe db_method s m =
     (let curr_post = q_scur_post (ss_qp s) AND 0xffff in
      bindR (int_diff curr_post (ss_last_post s)) (\<lambda>d.
      bindR (assertR (d + 0x10000 \<le> 0x7FFFFFFF) (Fault SignedOverflow)) (\<lambda>_.
        drv_ring_db db_method curr_post (wqe_at s (ss_last_post s)) ((d + 0x10000) mod 0x10000) s m)))"

text \<open>The loop of \<open>send_msg_list\<close>, which does not look at what \<open>send_pending\<close> returns.\<close>

definition send_msgs :: "burst_abi \<Rightarrow> u32 \<Rightarrow> bool \<Rightarrow> bool \<Rightarrow> ibv_sge list \<Rightarrow> send_side \<times> memory \<Rightarrow> (send_side \<times> memory) res" where
  "send_msgs A fl raw_eth mpw =
     foldR (\<lambda>sg (s, m).
       bindR (drv_send_pending A
                \<lparr>bk_eth = raw_eth, bk_inl = False, bk_safe = False, bk_sg = False, bk_mpw = mpw, bk_vlan = False\<rparr>
                \<lparr>bm_addr = sg_addr sg, bm_length = sg_length sg, bm_lkey = sg_lkey sg, bm_flags = fl, bm_vlan_tci = 0,
                  bm_num_sge = 0, bm_sg_list = None\<rparr> s m) (\<lambda>(_, s, m). Inr (s, m)))"

definition send_msg_list :: "burst_abi \<Rightarrow> ibv_sge list \<Rightarrow> u32 \<Rightarrow> bool \<Rightarrow> bool \<Rightarrow> mlx5_db_method \<Rightarrow> bool \<Rightarrow> send_side \<Rightarrow> memory \<Rightarrow>
    (int \<times> send_side \<times> memory) res" where
  "send_msg_list A sgs fl raw_eth thread_safe db_method mpw s m =
     bindR (if thread_safe then lock_sq s else Inr s) (\<lambda>s.
     bindR (send_msgs A fl raw_eth mpw sgs (s, m)) (\<lambda>(s, m).
     bindR (send_flush_unsafe db_method s m) (\<lambda>(s, m).
       Inr (0, if thread_safe then unlock_sq s else s, m))))"

end
