(* ===== verification/Burst_Correct.thy ===== *)
theory Burst_Correct
  imports Burst Poll_Types
begin

text \<open>
  The send queue as a ring of 16-byte slots, and multi-packet entries in it: an entry of \<open>n\<close> messages of one
  length takes a control slot, an Ethernet slot and \<open>n\<close> data slots, and messages of one length and one set of flags
  are packed into entries of up to five. The steps of \<open>send_pending\<close> that open an entry and that join one, and the list
  of entries they build up.
\<close>

section \<open>Slots\<close>

definition slot_addr :: "nat \<Rightarrow> nat \<Rightarrow> nat \<Rightarrow> nat" where
  "slot_addr base cnt k = base + 16 * (k mod (4 * cnt))"

definition slot :: "nat \<Rightarrow> nat \<Rightarrow> memory \<Rightarrow> nat \<Rightarrow> u8 list" where
  "slot base cnt m k = bytes_at m (slot_addr base cnt k) 16"

lemma length_slot [simp]: "length (slot base cnt m k) = 16"
  by (simp add: slot_def)

text \<open>Memory that differs in \<open>n\<close> bytes only.\<close>

definition changes :: "nat \<Rightarrow> nat \<Rightarrow> memory \<Rightarrow> memory \<Rightarrow> bool" where
  "changes a n m m' \<longleftrightarrow> keeps_mapped m m' \<and> (\<forall>y. y < a \<or> a + n \<le> y \<longrightarrow> m' y = m y)"

lemma changes_refl [simp]: "changes a n m m"
  by (simp add: changes_def)

lemma changes_trans: "changes a n m1 m2 \<Longrightarrow> changes a n m2 m3 \<Longrightarrow> changes a n m1 m3"
  unfolding changes_def by (auto intro: keeps_mapped_trans)

lemma changes_mono: "changes a n m m' \<Longrightarrow> b \<le> a \<Longrightarrow> a + n \<le> b + k \<Longrightarrow> changes b k m m'"
  unfolding changes_def by auto

lemma changes_upd: "b \<le> a \<Longrightarrow> a + length bs \<le> b + n \<Longrightarrow> changes b n m (upd_bytes a bs m)"
  unfolding changes_def by (auto simp: keeps_mapped_def upd_bytes_outside)

lemma changes_mapped: "changes a n m m' \<Longrightarrow> mapped m b k \<Longrightarrow> mapped m' b k"
  unfolding changes_def by (blast dest: keeps_mappedD)

lemma changes_bytes: "changes a n m m' \<Longrightarrow> b + k \<le> a \<or> a + n \<le> b \<Longrightarrow> bytes_at m' b k = bytes_at m b k"
  unfolding changes_def by (intro bytes_at_cong) auto

lemma changes_slot:
  assumes "changes (slot_addr base cnt j) 16 m m'" and "k mod (4 * cnt) \<noteq> j mod (4 * cnt)"
  shows "slot base cnt m' k = slot base cnt m k"
proof -
  have "16 * (k mod (4 * cnt)) + 16 \<le> 16 * (j mod (4 * cnt)) \<or> 16 * (j mod (4 * cnt)) + 16 \<le> 16 * (k mod (4 * cnt))"
    using assms(2) by linarith
  then show ?thesis unfolding slot_def using changes_bytes [OF assms(1), of "slot_addr base cnt k" 16]
    by (auto simp: slot_addr_def)
qed

lemma slot_within: "0 < cnt \<Longrightarrow> base \<le> slot_addr base cnt k \<and> slot_addr base cnt k + 16 \<le> base + 64 * cnt"
proof -
  assume "0 < cnt"
  then have "k mod (4 * cnt) < 4 * cnt" by simp
  then show ?thesis unfolding slot_addr_def by linarith
qed

lemma slot_mapped:
  assumes "mapped m base (64 * cnt)" "0 < cnt" "off + n \<le> 16"
  shows "mapped m (slot_addr base cnt k + off) n"
  by (rule mapped_sub [OF assms(1)]) (use slot_within [OF assms(2), of base k] assms(3) in auto)

text \<open>A block is four slots in a row, and the slot behind the last is the first.\<close>

lemma slot_in_block: "0 < cnt \<Longrightarrow> i < 4 \<Longrightarrow> slot_addr base cnt (4 * p + i) = slot_addr base cnt (4 * p) + 16 * i"
proof -
  assume "0 < cnt" "i < 4"
  have "(4 * p) mod (4 * cnt) = 4 * (p mod cnt)" by simp
  moreover have "4 * (p mod cnt) + i < 4 * cnt"
  proof -
    have "p mod cnt < cnt" using \<open>0 < cnt\<close> by simp
    then show ?thesis using \<open>i < 4\<close> by linarith
  qed
  moreover have "(4 * p + i) mod (4 * cnt) = (4 * (p mod cnt) + i) mod (4 * cnt)" by (metis mod_add_left_eq mult_mod_right)
  ultimately have "(4 * p + i) mod (4 * cnt) = 4 * (p mod cnt) + i" by simp
  then show ?thesis using \<open>(4 * p) mod (4 * cnt) = 4 * (p mod cnt)\<close> by (simp add: slot_addr_def)
qed

lemma slot_next:
  assumes "0 < cnt"
  shows "(if slot_addr base cnt k + 16 = base + 64 * cnt then base else slot_addr base cnt k + 16) = slot_addr base cnt (k + 1)"
proof (cases "Suc (k mod (4 * cnt)) = 4 * cnt")
  case True
  then have "(k + 1) mod (4 * cnt) = 0" by (simp add: mod_Suc)
  moreover have "16 * (k mod (4 * cnt)) + 16 = 64 * cnt" using True by linarith
  ultimately show ?thesis by (simp add: slot_addr_def)
next
  case False
  then have "(k + 1) mod (4 * cnt) = Suc (k mod (4 * cnt))" using assms by (simp add: mod_Suc)
  moreover have "k mod (4 * cnt) < 4 * cnt" using assms by simp
  then have "16 * (k mod (4 * cnt)) + 16 \<noteq> 64 * cnt" using False by linarith
  ultimately show ?thesis by (simp add: slot_addr_def)
qed

section \<open>What is written\<close>

lemma data_written:
  assumes "mapped m a 16"
  shows "set_data_ptr_seg a sg 0 m = Inr (upd_bytes a (data_bytes sg) m)" "changes a 16 m (upd_bytes a (data_bytes sg) m)"
    "bytes_at (upd_bytes a (data_bytes sg) m) a 16 = data_bytes sg"
  using assms by (simp_all add: set_data_ptr_seg_bytes changes_upd byte_simps)

lemma ctrl_written:
  assumes "mapped m a 16"
  shows "set_ctrl_seg a qpn op idx md ds fm imm m = Inr (upd_bytes a (ctrl_bytes qpn op idx md ds fm imm) m)"
    "changes a 16 m (upd_bytes a (ctrl_bytes qpn op idx md ds fm imm) m)"
    "bytes_at (upd_bytes a (ctrl_bytes qpn op idx md ds fm imm) m) a 16 = ctrl_bytes qpn op idx md ds fm imm"
  using assms set_ctrl_seg_bytes [of a qpn op idx md ds fm imm m] by (simp_all add: set_ctrl_seg_sig_def changes_upd byte_simps)

text \<open>A new size in the control segment.\<close>

lemma ctrl_resized:
  assumes "bytes_at m a 16 = ctrl_bytes qpn op idx md ds fm imm" and "mapped m a 16"
  shows "store32 (a + 4) (htonl (push_bit 8 qpn OR (ucast ds' AND 0x3F))) m =
      Inr (upd_bytes (a + 4) (be32 (push_bit 8 qpn OR (ucast ds' AND 0x3F))) m)"
    and "changes a 16 m (upd_bytes (a + 4) (be32 (push_bit 8 qpn OR (ucast ds' AND 0x3F))) m)"
    and "bytes_at (upd_bytes (a + 4) (be32 (push_bit 8 qpn OR (ucast ds' AND 0x3F))) m) a 16 = ctrl_bytes qpn op idx md ds' fm imm"
proof -
  let ?b = "be32 (push_bit 8 qpn OR (ucast ds' AND 0x3F))"
  have "mapped m (a + 4) 4" by (rule mapped_sub [OF assms(2)]) simp_all
  then show "store32 (a + 4) (htonl (push_bit 8 qpn OR (ucast ds' AND 0x3F))) m = Inr (upd_bytes (a + 4) ?b m)"
    by (simp add: store32_def byte_simps)
  show "changes a 16 m (upd_bytes (a + 4) ?b m)" by (rule changes_upd) simp_all
  have old: "bytes_at m a 4 @ bytes_at m (a + 4) 4 @ bytes_at m (a + 8) 8 = ctrl_bytes qpn op idx md ds fm imm"
    using assms(1) bytes_at_add [of m a 4 12] bytes_at_add [of m "a + 4" 4 8] by (simp add: add.commute)
  have "bytes_at (upd_bytes (a + 4) ?b m) a 16 = bytes_at m a 4 @ ?b @ bytes_at m (a + 8) 8"
    using bytes_at_add [of "upd_bytes (a + 4) ?b m" a 4 12] bytes_at_add [of "upd_bytes (a + 4) ?b m" "a + 4" 4 8]
    by (simp add: byte_simps add.commute)
  then show "bytes_at (upd_bytes (a + 4) ?b m) a 16 = ctrl_bytes qpn op idx md ds' fm imm"
    using old by (simp add: ctrl_bytes_def)
qed

text \<open>The Ethernet segment of an entry for packets of \<open>len\<close> bytes; the inline header is not used.\<close>

definition eth_bytes :: "u8 \<Rightarrow> u16 \<Rightarrow> u8 list" where
  "eth_bytes cs len = [0, 0, 0, 0, cs, 0] @ le16 (htons len) @ [0, 0, 0, 0, 0, 0]"

lemma length_eth_bytes [simp]: "length (eth_bytes cs len) = 14"
  by (simp add: eth_bytes_def)

definition cs_flags :: "burst_abi \<Rightarrow> u32 \<Rightarrow> u8" where
  "cs_flags A fl = (if has_flag fl (IBV_EXP_QP_BURST_IP_CSUM A) then MLX5_ETH_WQE_L3_CSUM OR MLX5_ETH_WQE_L4_CSUM else 0)"

lemma eth_written:
  assumes "mapped m e 16"
  shows "\<exists>m'. bindR (eth_reset A fl e m) (\<lambda>m. bindR (store16 (e + 6) (htons len) m) (store16 (e + 12) 0)) = Inr m' \<and>
    changes e 16 m m' \<and> bytes_at m' e 14 = eth_bytes (cs_flags A fl) len"
proof -
  have sub: "mapped m e 8" "mapped m (e + 8) 4" "mapped m (e + 4) 1" "mapped m (e + 6) 2" "mapped m (e + 12) 2"
    using mapped_sub [OF assms] by simp_all
  let ?m1 = "upd_bytes (e + 8) (le32 0) (upd_bytes e (le64 0) m)"
  let ?m2 = "if has_flag fl (IBV_EXP_QP_BURST_IP_CSUM A) then upd_bytes (e + 4) [cs_flags A fl] ?m1 else ?m1"
  let ?m3 = "upd_bytes (e + 12) (le16 0) (upd_bytes (e + 6) (le16 (htons len)) ?m2)"
  have run: "bindR (eth_reset A fl e m) (\<lambda>m. bindR (store16 (e + 6) (htons len) m) (store16 (e + 12) 0)) = Inr ?m3"
    using sub by (simp add: eth_reset_def stores_mapped cs_flags_def del: upd_bytes.simps)
  have z: "le64 0 = [0, 0, 0, 0, 0, 0, 0, 0]" "le32 0 = [0, 0, 0, 0]" "le16 0 = [0, 0]" by (simp_all add: le64_def le32_def le16_def)
  have "changes e 16 m ?m1" by (intro changes_trans [OF changes_upd changes_upd]) simp_all
  moreover have "changes e 16 ?m1 ?m2" using changes_upd [of e "e + 4" "[cs_flags A fl]" 16 ?m1] by (simp del: upd_bytes.simps)
  moreover have "changes e 16 ?m2 ?m3" by (intro changes_trans [OF changes_upd changes_upd]) simp_all
  ultimately have "changes e 16 m ?m3" by (meson changes_trans)
  moreover have "bytes_at ?m3 e 14 = eth_bytes (cs_flags A fl) len"
    by (simp add: bytes_at_def z eth_bytes_def cs_flags_def le16_def upt_rec)
  ultimately show ?thesis using run by blast
qed

section \<open>The queue\<close>

definition burst_ring :: "send_side \<Rightarrow> nat \<Rightarrow> memory \<Rightarrow> bool" where
  "burst_ring s cnt m \<longleftrightarrow> (\<exists>k \<le> 16. cnt = 2 ^ k) \<and> unat (wq_wqe_cnt (q_sq (ss_qp s))) = cnt \<and>
     q_sqend (ss_qp s) = q_sqstart (ss_qp s) + 64 * cnt \<and> mapped m (q_sqstart (ss_qp s)) (64 * cnt) \<and>
     length (q_wqe_head (ss_qp s)) = cnt"

lemma burst_ring_pos: "burst_ring s cnt m \<Longrightarrow> 0 < cnt"
  by (auto simp: burst_ring_def)

lemma burst_index:
  assumes "burst_ring s cnt m"
  shows "unat (of_nat p AND (wq_wqe_cnt (q_sq (ss_qp s)) - 1)) = p mod cnt"
proof -
  obtain k where k: "k \<le> 16" "cnt = 2 ^ k" "unat (wq_wqe_cnt (q_sq (ss_qp s))) = cnt" using assms by (auto simp: burst_ring_def)
  have "unat (of_nat p AND (wq_wqe_cnt (q_sq (ss_qp s)) - 1)) = unat (of_nat p :: u32) mod 2 ^ k"
    using unat_and_pow2 [of "wq_wqe_cnt (q_sq (ss_qp s))" k] k by simp
  also have "\<dots> = (p mod 2 ^ 32) mod 2 ^ k" by (simp add: unat_of_nat)
  also have "\<dots> = p mod 2 ^ k" using k(1) by (intro mod_mod_cancel le_imp_power_dvd) simp
  finally show ?thesis using k(2) by simp
qed

lemma wqe_at_slot:
  assumes "burst_ring s cnt m"
  shows "wqe_at s (of_nat p) = slot_addr (q_sqstart (ss_qp s)) cnt (4 * p)"
proof -
  have "(4 * p) mod (4 * cnt) = 4 * (p mod cnt)" by simp
  then show ?thesis using burst_index [OF assms, of p]
    by (simp add: wqe_at_def mlx5_get_send_wqe_def push_bit_eq_mult slot_addr_def)
qed

section \<open>One message\<close>

definition mpw_kind :: burst_kind where
  "mpw_kind = \<lparr>bk_eth = True, bk_inl = False, bk_safe = False, bk_sg = False, bk_mpw = True, bk_vlan = False\<rparr>"

definition msg_of :: "u32 \<Rightarrow> ibv_sge \<Rightarrow> burst_msg" where
  "msg_of fl sg = \<lparr>bm_addr = sg_addr sg, bm_length = sg_length sg, bm_lkey = sg_lkey sg, bm_flags = fl, bm_vlan_tci = 0,
     bm_num_sge = 0, bm_sg_list = None\<rparr>"

lemma mpw_kind_fields [simp]:
  "bk_eth mpw_kind" "\<not> bk_inl mpw_kind" "\<not> bk_safe mpw_kind" "\<not> bk_sg mpw_kind" "bk_mpw mpw_kind" "\<not> bk_vlan mpw_kind"
  by (simp_all add: mpw_kind_def)

lemma msg_of_fields [simp]:
  "bm_addr (msg_of fl sg) = sg_addr sg" "bm_length (msg_of fl sg) = sg_length sg" "bm_lkey (msg_of fl sg) = sg_lkey sg"
  "bm_flags (msg_of fl sg) = fl"
  by (simp_all add: msg_of_def)

text \<open>The bits of an entry with flags \<open>fl\<close>; no completion is asked for, and no fence is due.\<close>

definition burst_bits :: "burst_abi \<Rightarrow> u32 \<Rightarrow> send_side \<Rightarrow> nat" where
  "burst_bits A fl s =
     unat (fl AND ucast (IBV_EXP_QP_BURST_SOLICITED A OR IBV_EXP_QP_BURST_SIGNALED A OR IBV_EXP_QP_BURST_FENCE A))"

definition quiet :: "burst_abi \<Rightarrow> u32 \<Rightarrow> u8 \<Rightarrow> send_side \<Rightarrow> bool" where
  "quiet A fl fm s \<longleftrightarrow> \<not> has_flag fl (IBV_EXP_QP_BURST_SIGNALED A) \<and> ss_fm_cache s = 0 \<and>
     burst_bits A fl s < length (ss_fm_ce_se_acc s) \<and> ss_fm_ce_se_acc s ! burst_bits A fl s = fm"

text \<open>The message cannot join.\<close>

definition needs_new :: "burst_abi \<Rightarrow> u32 \<Rightarrow> ibv_sge \<Rightarrow> send_side \<Rightarrow> bool" where
  "needs_new A fl sg s \<longleftrightarrow> \<not> (mp_state (ss_mpw s) = MLX5_MPW_STATE_OPENED \<and> mp_len (ss_mpw s) = sg_length sg \<and>
     other_flags A (mp_flags (ss_mpw s)) = other_flags A fl \<and> ucast (mp_num_sge (ss_mpw s)) + 1 \<le> (5 :: u32))"

definition head_slots :: "burst_abi \<Rightarrow> u32 \<Rightarrow> u8 \<Rightarrow> u32 \<Rightarrow> nat \<Rightarrow> nat \<Rightarrow> nat \<Rightarrow> nat \<Rightarrow> u32 \<Rightarrow> memory \<Rightarrow> bool" where
  "head_slots A fl fm qpn base cnt p n len m \<longleftrightarrow>
     slot base cnt m (4 * p) = ctrl_bytes qpn MLX5_OPCODE_TSO (of_nat p) MLX5_OPC_MOD_MPW (of_nat (2 + n)) fm 0 \<and>
     take 14 (slot base cnt m (4 * p + 1)) = eth_bytes (cs_flags A fl) (ucast len)"

definition only_slots :: "nat \<Rightarrow> nat \<Rightarrow> nat set \<Rightarrow> memory \<Rightarrow> memory \<Rightarrow> bool" where
  "only_slots base cnt K m m' \<longleftrightarrow> changes base (64 * cnt) m m' \<and>
     (\<forall>k. k mod (4 * cnt) \<notin> (\<lambda>k. k mod (4 * cnt)) ` K \<longrightarrow> slot base cnt m' k = slot base cnt m k)"

lemma only_slot:
  assumes "changes (slot_addr base cnt j) 16 m m'" "0 < cnt"
  shows "only_slots base cnt {j} m m'"
  using changes_mono [OF assms(1), of base "64 * cnt"] slot_within [OF assms(2), of base j] changes_slot [OF assms(1)]
  by (auto simp: only_slots_def)

lemma only_slots_trans:
  assumes "only_slots base cnt K m1 m2" "only_slots base cnt L m2 m3"
  shows "only_slots base cnt (K \<union> L) m1 m3"
proof -
  have "slot base cnt m3 k = slot base cnt m1 k" if "k mod (4 * cnt) \<notin> (\<lambda>k. k mod (4 * cnt)) ` (K \<union> L)" for k
    using assms that unfolding only_slots_def image_Un by (metis UnI1 UnI2)
  then show ?thesis using assms by (auto simp: only_slots_def intro: changes_trans)
qed

lemma only_slotsD: "only_slots base cnt K m m' \<Longrightarrow> k mod (4 * cnt) \<notin> (\<lambda>k. k mod (4 * cnt)) ` K \<Longrightarrow> slot base cnt m' k = slot base cnt m k"
  by (simp add: only_slots_def)

lemma four_apart:
  fixes p :: nat
  assumes "0 < cnt" "i < 4" "j < 4" "(4 * p + i) mod (4 * cnt) = (4 * p + j) mod (4 * cnt)"
  shows "i = j"
  by (rule mod_add_inj [OF assms(4)]) (use assms in linarith)+

text \<open>An entry is opened for the message.\<close>

definition opened :: "u32 \<Rightarrow> ibv_sge \<Rightarrow> nat \<Rightarrow> nat \<Rightarrow> send_side \<Rightarrow> send_side" where
  "opened fl sg cnt p s = s\<lparr>ss_fm_cache := 0,
     ss_mpw := \<lparr>mp_state = MLX5_MPW_STATE_OPENED, mp_size = 3, mp_num_sge = 1, mp_len = sg_length sg, mp_total_len = sg_length sg,
       mp_flags = fl, mp_scur_post = of_nat p, mp_last = slot_addr (q_sqstart (ss_qp s)) cnt (4 * p + 2),
       mp_ctrl_update = slot_addr (q_sqstart (ss_qp s)) cnt (4 * p) + 4\<rparr>,
     ss_last_post := of_nat p,
     ss_qp := (ss_qp s)\<lparr>q_wqe_head := (q_wqe_head (ss_qp s))[p mod cnt := wq_head (q_sq (ss_qp s)) + 1],
       q_sq := (q_sq (ss_qp s))\<lparr>wq_head := wq_head (q_sq (ss_qp s)) + 1\<rparr>, q_scur_post := of_nat p + 1\<rparr>\<rparr>"

lemma mpw_full:
  "w\<lparr>mp_len := a, mp_num_sge := b, mp_flags := c, mp_scur_post := d, mp_total_len := e, mp_last := f, mp_ctrl_update := g, mp_size := h,
     mp_state := i\<rparr> = \<lparr>mp_state = i, mp_size = h, mp_num_sge = b, mp_len = a, mp_total_len = e, mp_flags = c, mp_scur_post = d,
     mp_last = f, mp_ctrl_update = g\<rparr>"
  by (cases w) simp

lemma ucast_index [simp]: "(ucast (of_nat p :: u32) :: u16) = of_nat p"
  by transfer simp

lemma send_opens:
  assumes ring: "burst_ring s cnt m" and q: "quiet A fl fm s" and new: "needs_new A fl sg s" and len: "sg_length sg \<le> MLX5_MAX_MPW_SIZE"
    and p: "q_scur_post (ss_qp s) = of_nat p"
  shows "\<exists>m'. drv_send_pending A mpw_kind (msg_of fl sg) s m = Inr (0, opened fl sg cnt p s, m') \<and>
    head_slots A fl fm (q_num (ss_qp s)) (q_sqstart (ss_qp s)) cnt p 1 (sg_length sg) m' \<and>
    slot (q_sqstart (ss_qp s)) cnt m' (4 * p + 2) = data_bytes sg \<and>
    only_slots (q_sqstart (ss_qp s)) cnt {4 * p, 4 * p + 1, 4 * p + 2} m m'"
proof -
  let ?base = "q_sqstart (ss_qp s)" and ?w = "ss_mpw s"
  let ?a = "slot_addr ?base cnt (4 * p)" and ?e = "slot_addr ?base cnt (4 * p + 1)" and ?d = "slot_addr ?base cnt (4 * p + 2)"
  have pos: "0 < cnt" by (rule burst_ring_pos [OF ring])
  have e: "?e = ?a + 16" and d: "?d = ?a + 32" using slot_in_block [OF pos, of 1 ?base p] slot_in_block [OF pos, of 2 ?base p] by simp_all
  have map: "mapped m (slot_addr ?base cnt k) 16" for k
    using slot_mapped [of m ?base cnt 0 16 k] ring pos by (simp add: burst_ring_def)
  obtain m1 where m1: "bindR (eth_reset A fl ?e m) (\<lambda>m. bindR (store16 (?e + 6) (htons (ucast (sg_length sg))) m) (store16 (?e + 12) 0)) = Inr m1"
    "changes ?e 16 m m1" "bytes_at m1 ?e 14 = eth_bytes (cs_flags A fl) (ucast (sg_length sg))"
    using eth_written [OF map] by blast
  note map1 = changes_mapped [OF m1(2) map]
  let ?m2 = "upd_bytes ?d (data_bytes sg) m1"
  note d2 = data_written [OF map1, of "4 * p + 2" sg]
  note map2 = changes_mapped [OF d2(2) map1]
  let ?c = "ctrl_bytes (q_num (ss_qp s)) MLX5_OPCODE_TSO (of_nat p) MLX5_OPC_MOD_MPW 3 fm 0"
  let ?m3 = "upd_bytes ?a ?c ?m2"
  note c3 = ctrl_written [OF map2, of "4 * p" "q_num (ss_qp s)" MLX5_OPCODE_TSO "of_nat p" MLX5_OPC_MOD_MPW 3 fm 0]
  let ?w1 = "?w\<lparr>mp_state := MLX5_MPW_STATE_OPENING, mp_len := sg_length sg, mp_num_sge := 1, mp_flags := fl,
      mp_scur_post := of_nat p, mp_total_len := sg_length sg\<rparr>"
  let ?s1 = "s\<lparr>ss_mpw := ?w1\<rparr>"
  have choose: "mpw_choose A False (sg_length sg) 1 fl s = (?s1, no_place)"
    using new len p by (auto simp: mpw_choose_def needs_new_def Let_def MLX5_MAX_MPW_SGE_def)
  have start: "wqe_at ?s1 (of_nat p) = ?a" using wqe_at_slot [OF ring, of p] by (simp add: wqe_at_def)
  have entry: "new_entry A mpw_kind (msg_of fl sg) (sg_addr sg) (sg_length sg) ?a ?s1 m =
      Inr (0, no_place\<lparr>at_dseg := Some ?d\<rparr>, 2, sg_addr sg, sg_length sg, m1)"
  proof -
    from m1(1) obtain ma mb where "eth_reset A fl (?a + 16) m = Inr ma" "store16 (?a + 16 + 6) (htons (ucast (sg_length sg))) ma = Inr mb"
      "store16 (?a + 16 + 12) 0 mb = Inr m1" unfolding e by (auto simp: bindR_eq_Inr)
    then show ?thesis unfolding d by (simp add: new_entry_def opens_entry_def Let_def)
  qed
  have sg: "\<lparr>sg_addr = sg_addr sg, sg_length = sg_length sg, sg_lkey = sg_lkey sg\<rparr> = sg" by simp
  have put: "put_data mpw_kind (msg_of fl sg) (no_place\<lparr>at_dseg := Some ?d\<rparr>) (sg_addr sg) (sg_length sg) (sg_lkey sg) 2 ?s1 m1 = Inr (?d, 3, ?m2)"
    using d2(1) by (simp add: put_data_def given_ptr_def sg)
  have fm: "burst_fm_ce_se A fl (?s1\<lparr>ss_mpw := ?w1\<lparr>mp_last := ?d\<rparr>\<rparr>) = Inr fm"
    using q by (simp add: burst_fm_ce_se_def quiet_def burst_bits_def)
  have idx: "unat (of_nat p AND (wq_wqe_cnt (q_sq (ss_qp s)) - 1)) = p mod cnt" "p mod cnt < length (q_wqe_head (ss_qp s))"
    using burst_index [OF ring] ring pos by (auto simp: burst_ring_def)
  have fin: "finish_new A mpw_kind fl ?a 3 (?s1\<lparr>ss_mpw := ?w1\<lparr>mp_last := ?d\<rparr>\<rparr>) ?m2 = Inr (opened fl sg cnt p s, ?m3)"
    using q c3(1) idx p fm by (simp add: finish_new_def opens_entry_def quiet_def MLX5_MAX_MPW_SGE_def opened_def mpw_full Let_def)
  have run: "drv_send_pending A mpw_kind (msg_of fl sg) s m = Inr (0, opened fl sg cnt p s, ?m3)"
    using choose entry put fin start p by (simp add: drv_send_pending_def msg_extent_def starts_new_def)
  have apart: "(4 * p + i) mod (4 * cnt) \<noteq> (4 * p + j) mod (4 * cnt)" if "i \<noteq> j" "i < 4" "j < 4" for i j
    using four_apart [OF pos] that by blast
  have "slot ?base cnt ?m3 (4 * p) = ?c" using c3(3) by (simp add: slot_def)
  moreover have "slot ?base cnt ?m3 (4 * p + 2) = data_bytes sg"
    using changes_slot [OF c3(2), of "4 * p + 2"] apart [of 2 0] d2(3) by (simp add: slot_def)
  moreover have "slot ?base cnt ?m3 (4 * p + 1) = slot ?base cnt m1 (4 * p + 1)"
    using changes_slot [OF c3(2), of "4 * p + 1"] changes_slot [OF d2(2), of "4 * p + 1"] apart [of 1 0] apart [of 1 2] by simp
  then have "take 14 (slot ?base cnt ?m3 (4 * p + 1)) = eth_bytes (cs_flags A fl) (ucast (sg_length sg))"
    using m1(3) bytes_at_add [of m1 ?e 14 2] by (simp add: slot_def)
  moreover have "only_slots ?base cnt ({4 * p + 1} \<union> {4 * p + 2} \<union> {4 * p}) m ?m3"
    by (rule only_slots_trans [OF only_slots_trans [OF only_slot [OF m1(2) pos] only_slot [OF d2(2) pos]] only_slot [OF c3(2) pos]])
  ultimately show ?thesis using run by (intro exI [of _ ?m3]) (simp add: head_slots_def insert_commute)
qed

text \<open>An entry with \<open>n\<close> messages is open at block \<open>p\<close>.\<close>

definition entry_open :: "u32 \<Rightarrow> nat \<Rightarrow> nat \<Rightarrow> nat \<Rightarrow> u32 \<Rightarrow> send_side \<Rightarrow> bool" where
  "entry_open fl cnt p n len s \<longleftrightarrow> (let w = ss_mpw s; base = q_sqstart (ss_qp s) in
     mp_state w = MLX5_MPW_STATE_OPENED \<and> mp_len w = len \<and> mp_flags w = fl \<and> mp_num_sge w = of_nat n \<and>
     mp_size w = of_nat (2 + n) \<and> mp_last w = slot_addr base cnt (4 * p + 1 + n) \<and>
     mp_ctrl_update w = slot_addr base cnt (4 * p) + 4 \<and> mp_scur_post w = of_nat p)"

definition joined :: "nat \<Rightarrow> nat \<Rightarrow> nat \<Rightarrow> send_side \<Rightarrow> send_side" where
  "joined cnt p n s = s\<lparr>ss_mpw := (ss_mpw s)\<lparr>mp_num_sge := of_nat (n + 1),
       mp_last := slot_addr (q_sqstart (ss_qp s)) cnt (4 * p + 2 + n), mp_size := of_nat (3 + n),
       mp_state := if n + 1 = 5 then MLX5_MPW_STATE_CLOSED else MLX5_MPW_STATE_OPENED\<rparr>,
     ss_qp := (ss_qp s)\<lparr>q_scur_post := of_nat (p + (n + 6) div 4)\<rparr>\<rparr>"

lemma send_joins:
  assumes ring: "burst_ring s cnt m" and q: "quiet A fl fm s" and opn: "entry_open fl cnt p n (sg_length sg) s"
    and n: "1 \<le> n" "n < 5" and room: "(n + 6) div 4 \<le> cnt"
    and head: "head_slots A fl fm (q_num (ss_qp s)) (q_sqstart (ss_qp s)) cnt p n len m"
  shows "\<exists>m'. drv_send_pending A mpw_kind (msg_of fl sg) s m = Inr (0, joined cnt p n s, m') \<and>
    head_slots A fl fm (q_num (ss_qp s)) (q_sqstart (ss_qp s)) cnt p (n + 1) len m' \<and>
    slot (q_sqstart (ss_qp s)) cnt m' (4 * p + 2 + n) = data_bytes sg \<and>
    only_slots (q_sqstart (ss_qp s)) cnt {4 * p, 4 * p + 2 + n} m m'"
proof -
  let ?base = "q_sqstart (ss_qp s)" and ?w = "ss_mpw s"
  let ?a = "slot_addr ?base cnt (4 * p)" and ?d = "slot_addr ?base cnt (4 * p + 2 + n)"
  have pos: "0 < cnt" by (rule burst_ring_pos [OF ring])
  have map: "mapped m (slot_addr ?base cnt k) 16" for k
    using slot_mapped [of m ?base cnt 0 16 k] ring pos by (simp add: burst_ring_def)
  have cases: "n = 1 \<or> n = 2 \<or> n = 3 \<or> n = 4" using n by linarith
  have w: "mp_state ?w = MLX5_MPW_STATE_OPENED" "mp_len ?w = sg_length sg" "mp_flags ?w = fl" "mp_num_sge ?w = of_nat n"
    "mp_size ?w = of_nat (2 + n)" "mp_last ?w = slot_addr ?base cnt (4 * p + 1 + n)" "mp_ctrl_update ?w = ?a + 4" "mp_scur_post ?w = of_nat p"
    using opn by (simp_all add: entry_open_def Let_def)
  have nxt: "(if mp_last ?w + 16 = q_sqend (ss_qp s) then mlx5_get_send_wqe (ss_qp s) 0 else mp_last ?w + 16) = ?d"
    using slot_next [OF pos, of ?base "4 * p + 1 + n"] ring
    by (simp add: w(6) burst_ring_def mlx5_get_send_wqe_def cong: if_cong)
  let ?s1 = "s\<lparr>ss_mpw := ?w\<lparr>mp_num_sge := of_nat (n + 1)\<rparr>\<rparr>"
  have five: "ucast (of_nat n :: u8) + 1 \<le> (5 :: u32)" "(of_nat n :: u8) + 1 = of_nat (n + 1)" using cases by auto
  have choose: "mpw_choose A False (sg_length sg) 1 fl s = (?s1, no_place\<lparr>at_dseg := Some ?d\<rparr>)"
    using w five nxt by (simp add: mpw_choose_def Let_def MLX5_MAX_MPW_SGE_def)
  let ?m1 = "upd_bytes ?d (data_bytes sg) m"
  note d1 = data_written [OF map, of "4 * p + 2 + n" sg]
  note map1 = changes_mapped [OF d1(2) map]
  have sg: "\<lparr>sg_addr = sg_addr sg, sg_length = sg_length sg, sg_lkey = sg_lkey sg\<rparr> = sg" by simp
  have put: "put_data mpw_kind (msg_of fl sg) (no_place\<lparr>at_dseg := Some ?d\<rparr>) (sg_addr sg) (sg_length sg) (sg_lkey sg) 0 ?s1 m = Inr (?d, 1, ?m1)"
    using d1(1) by (simp add: put_data_def given_ptr_def sg)
  have apart: "(4 * p + i) mod (4 * cnt) \<noteq> (4 * p + (2 + n)) mod (4 * cnt)" if "i < 2" for i
  proof
    assume "(4 * p + i) mod (4 * cnt) = (4 * p + (2 + n)) mod (4 * cnt)"
    moreover have "i < 4 * cnt" "2 + n < 4 * cnt" using room cases that pos by auto
    ultimately have "i = 2 + n" by (rule mod_add_inj)
    then show False using that by simp
  qed
  have ctrl1: "bytes_at ?m1 ?a 16 = ctrl_bytes (q_num (ss_qp s)) MLX5_OPCODE_TSO (of_nat p) MLX5_OPC_MOD_MPW (of_nat (2 + n)) fm 0"
    using changes_slot [OF d1(2), of "4 * p"] apart [of 0] head by (simp add: slot_def head_slots_def add.assoc)
  note c2 = ctrl_resized [OF ctrl1 map1, of "of_nat (3 + n)"]
  let ?m2 = "upd_bytes (?a + 4) (be32 (push_bit 8 (q_num (ss_qp s)) OR (ucast (of_nat (3 + n) :: u8) AND 0x3F))) ?m1"
  have size: "(of_nat (2 + n) :: u8) + 1 = of_nat (3 + n)" "unat (of_nat (3 + n) :: u8) = 3 + n"
    "(unat (of_nat (3 + n) :: u8) * 16 + 63) div 64 = (n + 6) div 4" "(of_nat (n + 1) :: u8) = 5 \<longleftrightarrow> n + 1 = 5"
    using cases by auto
  have fin: "finish_join A mpw_kind fl 1 (?s1\<lparr>ss_mpw := ?w\<lparr>mp_num_sge := of_nat (n + 1), mp_last := ?d\<rparr>\<rparr>) ?m1 = Inr (joined cnt p n s, ?m2)"
    using q c2(1) w size by (simp add: finish_join_def quiet_def MLX5_MAX_MPW_SGE_def joined_def Let_def)
  have "drv_send_pending A mpw_kind (msg_of fl sg) s m = Inr (0, joined cnt p n s, ?m2)"
    using choose put fin w(1) by (simp add: drv_send_pending_def msg_extent_def starts_new_def)
  moreover have "slot ?base cnt ?m2 (4 * p) = ctrl_bytes (q_num (ss_qp s)) MLX5_OPCODE_TSO (of_nat p) MLX5_OPC_MOD_MPW (of_nat (2 + (n + 1))) fm 0"
    using c2(3) by (simp add: slot_def)
  moreover have "slot ?base cnt ?m2 (4 * p + 2 + n) = data_bytes sg"
    using changes_slot [OF c2(2), of "4 * p + 2 + n"] apart [of 0] d1(3) by (simp add: slot_def add.assoc)
  moreover have "slot ?base cnt ?m2 (4 * p + 1) = slot ?base cnt m (4 * p + 1)"
    using changes_slot [OF c2(2), of "4 * p + 1"] changes_slot [OF d1(2), of "4 * p + 1"] four_apart [OF pos, of 1 0 p] apart [of 1]
    by (auto simp: add.assoc)
  moreover have "only_slots ?base cnt ({4 * p + 2 + n} \<union> {4 * p}) m ?m2"
    by (rule only_slots_trans [OF only_slot [OF d1(2) pos] only_slot [OF c2(2) pos]])
  ultimately show ?thesis using head by (intro exI [of _ ?m2]) (simp add: head_slots_def insert_commute)
qed

section \<open>A sequence of messages\<close>

text \<open>The entries a sequence is packed into.\<close>

definition add_msg :: "ibv_sge list list \<Rightarrow> ibv_sge \<Rightarrow> ibv_sge list list" where
  "add_msg gs sg = (if gs \<noteq> [] \<and> length (last gs) < 5 \<and> sg_length (hd (last gs)) = sg_length sg
     then butlast gs @ [last gs @ [sg]] else gs @ [[sg]])"

definition packs :: "ibv_sge list \<Rightarrow> ibv_sge list list" where
  "packs sgs = foldl add_msg [] sgs"

definition entry_blocks :: "ibv_sge list \<Rightarrow> nat" where
  "entry_blocks g = (length g + 5) div 4"

definition total_blocks :: "ibv_sge list list \<Rightarrow> nat" where
  "total_blocks gs = sum_list (map entry_blocks gs)"

lemma total_blocks_simps [simp]:
  "total_blocks [] = 0" "total_blocks (gs @ hs) = total_blocks gs + total_blocks hs" "total_blocks (g # gs) = entry_blocks g + total_blocks gs"
  by (simp_all add: total_blocks_def)

lemma concat_add_msg: "concat (add_msg gs sg) = concat gs @ [sg]"
proof (cases "gs = []")
  case False
  then show ?thesis by (cases gs rule: rev_cases) (simp_all add: add_msg_def)
qed (simp add: add_msg_def)

lemma concat_packs: "concat (packs sgs) = sgs"
proof -
  have "concat (foldl add_msg gs sgs) = concat gs @ sgs" for gs
    by (induction sgs arbitrary: gs) (simp_all add: concat_add_msg)
  then show ?thesis by (simp add: packs_def)
qed

lemma total_add_msg: "total_blocks gs \<le> total_blocks (add_msg gs sg)"
proof (cases "gs = []")
  case False
  then show ?thesis by (cases gs rule: rev_cases) (auto simp: add_msg_def entry_blocks_def intro: div_le_mono)
qed simp

lemma total_packed: "total_blocks gs \<le> total_blocks (foldl add_msg gs sgs)"
  by (induction sgs arbitrary: gs) (auto intro: order_trans [OF total_add_msg])

definition one_length :: "ibv_sge list \<Rightarrow> bool" where
  "one_length g \<longleftrightarrow> 1 \<le> length g \<and> length g \<le> 5 \<and> (\<exists>len. \<forall>sg \<in> set g. sg_length sg = len)"

lemma one_length_add:
  assumes "list_all one_length gs"
  shows "list_all one_length (add_msg gs sg)"
proof (cases "gs = []")
  case False
  then obtain hs g where gs: "gs = hs @ [g]" by (cases gs rule: rev_cases) auto
  then have g: "one_length g" "list_all one_length hs" using assms by simp_all
  show ?thesis
  proof (cases "length g < 5 \<and> sg_length (hd g) = sg_length sg")
    case True
    have ne: "g \<noteq> []" using g(1) by (auto simp: one_length_def)
    obtain len where len: "\<forall>x \<in> set g. sg_length x = len" using g(1) unfolding one_length_def by blast
    then have "sg_length sg = len" using True ne by (metis hd_in_set)
    then have "one_length (g @ [sg])" using True len g(1) by (auto simp: one_length_def)
    then show ?thesis using True g(2) by (simp add: gs add_msg_def)
  next
    case False
    have "add_msg gs sg = gs @ [[sg]]" using False by (auto simp: gs add_msg_def)
    then show ?thesis using assms by (simp add: one_length_def)
  qed
qed (simp add: add_msg_def one_length_def)

lemma one_length_packs: "list_all one_length (packs sgs)"
proof -
  have "list_all one_length gs \<Longrightarrow> list_all one_length (foldl add_msg gs sgs)" for gs
    by (induction sgs arbitrary: gs) (simp_all add: one_length_add)
  then show ?thesis by (simp add: packs_def)
qed

section \<open>The entries in memory\<close>

definition packed_at :: "burst_abi \<Rightarrow> u32 \<Rightarrow> u8 \<Rightarrow> u32 \<Rightarrow> nat \<Rightarrow> nat \<Rightarrow> memory \<Rightarrow> nat \<Rightarrow> ibv_sge list \<Rightarrow> bool" where
  "packed_at A fl fm qpn base cnt m p g \<longleftrightarrow> head_slots A fl fm qpn base cnt p (length g) (sg_length (hd g)) m \<and>
     (\<forall>i < length g. slot base cnt m (4 * p + 2 + i) = data_bytes (g ! i))"

fun packed_all :: "burst_abi \<Rightarrow> u32 \<Rightarrow> u8 \<Rightarrow> u32 \<Rightarrow> nat \<Rightarrow> nat \<Rightarrow> memory \<Rightarrow> nat \<Rightarrow> ibv_sge list list \<Rightarrow> bool" where
  "packed_all A fl fm qpn base cnt m p [] \<longleftrightarrow> True"
| "packed_all A fl fm qpn base cnt m p (g # gs) \<longleftrightarrow> packed_at A fl fm qpn base cnt m p g \<and>
     packed_all A fl fm qpn base cnt m (p + entry_blocks g) gs"

lemma packed_all_append [simp]:
  "packed_all A fl fm qpn base cnt m p (gs @ hs) \<longleftrightarrow> packed_all A fl fm qpn base cnt m p gs \<and>
     packed_all A fl fm qpn base cnt m (p + total_blocks gs) hs"
  by (induction gs arbitrary: p) (auto simp: add.assoc)

lemma window_apart:
  fixes a b n :: nat
  assumes "a < b" "b < a + n"
  shows "a mod n \<noteq> b mod n"
proof
  assume "a mod n = b mod n"
  then have "(a + 0) mod n = (a + (b - a)) mod n" using assms by simp
  then have "0 = b - a" by (rule mod_add_inj) (use assms in linarith)+
  then show False using assms by simp
qed

lemma packed_at_frame:
  assumes g: "packed_at A fl fm qpn base cnt m p g" "g \<noteq> []" and K: "only_slots base cnt K m m'"
    and apart: "\<forall>k \<in> K. 4 * (p + entry_blocks g) \<le> k \<and> k < 4 * (p + cnt)"
  shows "packed_at A fl fm qpn base cnt m' p g"
proof -
  have same: "slot base cnt m' j = slot base cnt m j" if "4 * p \<le> j" "j < 4 * (p + entry_blocks g)" for j
  proof (rule only_slotsD [OF K])
    have "j mod (4 * cnt) \<noteq> k mod (4 * cnt)" if "k \<in> K" for k
      using apart that \<open>4 * p \<le> j\<close> \<open>j < 4 * (p + entry_blocks g)\<close> by (intro window_apart) force+
    then show "j mod (4 * cnt) \<notin> (\<lambda>k. k mod (4 * cnt)) ` K" by blast
  qed
  have len: "2 + length g \<le> 4 * entry_blocks g" "1 < 4 * entry_blocks g" using g(2) by (auto simp: entry_blocks_def)
  show ?thesis using g(1) len same [of "4 * p"] same [of "4 * p + 1"] same
    by (auto simp: packed_at_def head_slots_def)
qed

lemma packed_all_frame:
  assumes "packed_all A fl fm qpn base cnt m p gs" and "list_all one_length gs" and K: "only_slots base cnt K m m'"
    and "\<forall>k \<in> K. 4 * (p + total_blocks gs) \<le> k \<and> k < 4 * (p + cnt)"
  shows "packed_all A fl fm qpn base cnt m' p gs"
  using assms(1,2,4)
proof (induction gs arbitrary: p)
  case (Cons g gs)
  have "packed_at A fl fm qpn base cnt m' p g"
    by (rule packed_at_frame [OF _ _ K]) (use Cons.prems in \<open>force simp: one_length_def\<close>)+
  moreover have "packed_all A fl fm qpn base cnt m' (p + entry_blocks g) gs"
    by (rule Cons.IH) (use Cons.prems in \<open>force simp: algebra_simps\<close>)+
  ultimately show ?case by simp
qed simp

section \<open>The loop\<close>

definition building :: "burst_abi \<Rightarrow> u32 \<Rightarrow> u8 \<Rightarrow> nat \<Rightarrow> nat \<Rightarrow> u32 \<Rightarrow> ibv_sge list list \<Rightarrow> send_side \<Rightarrow> memory \<Rightarrow> bool" where
  "building A fl fm cnt p h gs s m \<longleftrightarrow> burst_ring s cnt m \<and> quiet A fl fm s \<and> list_all one_length gs \<and>
     packed_all A fl fm (q_num (ss_qp s)) (q_sqstart (ss_qp s)) cnt m p gs \<and>
     q_scur_post (ss_qp s) = of_nat (p + total_blocks gs) \<and> wq_head (q_sq (ss_qp s)) = h + of_nat (length gs) \<and>
     (gs \<noteq> [] \<longrightarrow> ss_last_post s = of_nat (p + total_blocks (butlast gs))) \<and>
     (if gs \<noteq> [] \<and> length (last gs) < 5
      then entry_open fl cnt (p + total_blocks (butlast gs)) (length (last gs)) (sg_length (hd (last gs))) s
      else mp_state (ss_mpw s) \<noteq> MLX5_MPW_STATE_OPENED)"

definition same_side :: "send_side \<Rightarrow> send_side \<Rightarrow> bool" where
  "same_side s s' \<longleftrightarrow> ss_bf s' = ss_bf s \<and> q_num (ss_qp s') = q_num (ss_qp s) \<and> q_sqstart (ss_qp s') = q_sqstart (ss_qp s) \<and>
     q_sqend (ss_qp s') = q_sqend (ss_qp s) \<and> wq_db (q_sq (ss_qp s')) = wq_db (q_sq (ss_qp s)) \<and>
     wq_wqe_cnt (q_sq (ss_qp s')) = wq_wqe_cnt (q_sq (ss_qp s)) \<and> ss_locked s' = ss_locked s"

lemma same_side_refl [simp]: "same_side s s"
  by (simp add: same_side_def)

lemma same_side_trans: "same_side s1 s2 \<Longrightarrow> same_side s2 s3 \<Longrightarrow> same_side s1 s3"
  by (simp add: same_side_def)

lemma opened_fields [simp]:
  "q_num (ss_qp (opened fl sg cnt p s)) = q_num (ss_qp s)" "q_sqstart (ss_qp (opened fl sg cnt p s)) = q_sqstart (ss_qp s)"
  "q_scur_post (ss_qp (opened fl sg cnt p s)) = of_nat p + 1" "ss_last_post (opened fl sg cnt p s) = of_nat p"
  "wq_head (q_sq (ss_qp (opened fl sg cnt p s))) = wq_head (q_sq (ss_qp s)) + 1"
  "same_side s (opened fl sg cnt p s)"
  by (simp_all add: opened_def same_side_def)

lemma opened_quiet [simp]: "quiet A fl fm s \<Longrightarrow> quiet A fl fm (opened fl' sg cnt p s)"
  by (simp add: opened_def quiet_def burst_bits_def)

lemma opened_ring: "burst_ring s cnt m \<Longrightarrow> keeps_mapped m m' \<Longrightarrow> burst_ring (opened fl sg cnt p s) cnt m'"
  by (simp add: burst_ring_def opened_def keeps_mappedD)

lemma opened_open: "entry_open fl cnt p 1 (sg_length sg) (opened fl sg cnt p s)"
  by (simp add: entry_open_def opened_def Let_def)

lemma joined_fields [simp]:
  "q_num (ss_qp (joined cnt p n s)) = q_num (ss_qp s)" "q_sqstart (ss_qp (joined cnt p n s)) = q_sqstart (ss_qp s)"
  "q_scur_post (ss_qp (joined cnt p n s)) = of_nat (p + (n + 6) div 4)" "ss_last_post (joined cnt p n s) = ss_last_post s"
  "wq_head (q_sq (ss_qp (joined cnt p n s))) = wq_head (q_sq (ss_qp s))" "same_side s (joined cnt p n s)"
  "quiet A fl fm (joined cnt p n s) = quiet A fl fm s"
  "mp_state (ss_mpw (joined cnt p n s)) = (if n = 4 then MLX5_MPW_STATE_CLOSED else MLX5_MPW_STATE_OPENED)"
  by (simp_all add: joined_def same_side_def quiet_def burst_bits_def)

lemma joined_ring: "burst_ring s cnt m \<Longrightarrow> keeps_mapped m m' \<Longrightarrow> burst_ring (joined cnt p n s) cnt m'"
  by (simp add: burst_ring_def joined_def keeps_mappedD)

lemma joined_open: "entry_open fl cnt p n len s \<Longrightarrow> n < 4 \<Longrightarrow> entry_open fl cnt p (n + 1) len (joined cnt p n s)"
  by (simp add: entry_open_def joined_def Let_def)

lemma only_slots_keeps: "only_slots base cnt K m m' \<Longrightarrow> keeps_mapped m m'"
  by (simp add: only_slots_def changes_def)

lemma build_opens:
  assumes b: "building A fl fm cnt p h gs s m" and len: "sg_length sg \<le> MLX5_MAX_MPW_SIZE" and new: "add_msg gs sg = gs @ [[sg]]"
    and room: "total_blocks (gs @ [[sg]]) \<le> cnt"
  shows "\<exists>s' m'. drv_send_pending A mpw_kind (msg_of fl sg) s m = Inr (0, s', m') \<and> building A fl fm cnt p h (gs @ [[sg]]) s' m' \<and>
    same_side s s' \<and> changes (q_sqstart (ss_qp s)) (64 * cnt) m m'"
proof -
  let ?q = "p + total_blocks gs" and ?base = "q_sqstart (ss_qp s)" and ?n = "q_num (ss_qp s)"
  have ring: "burst_ring s cnt m" "quiet A fl fm s" "q_scur_post (ss_qp s) = of_nat ?q" using b by (simp_all add: building_def)
  have fresh: "needs_new A fl sg s"
  proof (cases "gs \<noteq> [] \<and> length (last gs) < 5")
    case True
    then have "sg_length (hd (last gs)) \<noteq> sg_length sg" using arg_cong [OF new, of length] by (auto simp: add_msg_def)
    then show ?thesis using b True by (simp add: building_def needs_new_def entry_open_def Let_def)
  next
    case False
    then show ?thesis using b by (simp add: building_def needs_new_def)
  qed
  obtain m' where m': "drv_send_pending A mpw_kind (msg_of fl sg) s m = Inr (0, opened fl sg cnt ?q s, m')"
    "head_slots A fl fm ?n ?base cnt ?q 1 (sg_length sg) m'" "slot ?base cnt m' (4 * ?q + 2) = data_bytes sg"
    "only_slots ?base cnt {4 * ?q, 4 * ?q + 1, 4 * ?q + 2} m m'"
    using send_opens [OF ring(1,2) fresh len ring(3)] by blast
  have "packed_all A fl fm ?n ?base cnt m' p gs"
    by (rule packed_all_frame [OF _ _ m'(4)]) (use b room in \<open>auto simp: building_def entry_blocks_def\<close>)
  moreover have "packed_at A fl fm ?n ?base cnt m' ?q [sg]" using m'(2,3) by (simp add: packed_at_def)
  ultimately have "building A fl fm cnt p h (gs @ [[sg]]) (opened fl sg cnt ?q s) m'"
    using b ring(1,2) opened_ring [OF ring(1) only_slots_keeps [OF m'(4)]] opened_open [of fl cnt ?q sg s]
    by (simp add: building_def one_length_def entry_blocks_def add.commute)
  then show ?thesis using m'(1,4) by (auto simp: only_slots_def)
qed

lemma build_joins:
  assumes b: "building A fl fm cnt p h (gs @ [g]) s m" and g: "length g < 5" "sg_length (hd g) = sg_length sg"
    and room: "total_blocks (gs @ [g @ [sg]]) \<le> cnt"
  shows "\<exists>s' m'. drv_send_pending A mpw_kind (msg_of fl sg) s m = Inr (0, s', m') \<and> building A fl fm cnt p h (gs @ [g @ [sg]]) s' m' \<and>
    same_side s s' \<and> changes (q_sqstart (ss_qp s)) (64 * cnt) m m'"
proof -
  let ?q = "p + total_blocks gs" and ?base = "q_sqstart (ss_qp s)" and ?n = "q_num (ss_qp s)" and ?l = "length g"
  have ring: "burst_ring s cnt m" "quiet A fl fm s" and opn: "entry_open fl cnt ?q ?l (sg_length sg) s"
    and old: "packed_all A fl fm ?n ?base cnt m p gs" "packed_at A fl fm ?n ?base cnt m ?q g" "list_all one_length gs" "one_length g"
    using b g by (simp_all add: building_def)
  have l: "1 \<le> ?l" "g \<noteq> []" using old(4) by (auto simp: one_length_def)
  have blocks: "(?l + 6) div 4 = entry_blocks (g @ [sg])" by (simp add: entry_blocks_def)
  have fit: "(?l + 6) div 4 \<le> cnt" using room by (simp add: blocks)
  have head: "head_slots A fl fm ?n ?base cnt ?q ?l (sg_length sg) m" using old(2) g(2) by (simp add: packed_at_def)
  obtain m' where m': "drv_send_pending A mpw_kind (msg_of fl sg) s m = Inr (0, joined cnt ?q ?l s, m')"
    "head_slots A fl fm ?n ?base cnt ?q (?l + 1) (sg_length sg) m'" "slot ?base cnt m' (4 * ?q + 2 + ?l) = data_bytes sg"
    "only_slots ?base cnt {4 * ?q, 4 * ?q + 2 + ?l} m m'"
    using send_joins [OF ring opn l(1) g(1) fit head] by blast
  have wid: "2 + ?l < 4 * cnt" using fit by linarith
  have "packed_all A fl fm ?n ?base cnt m' p gs"
    by (rule packed_all_frame [OF old(1,3) m'(4)]) (use room wid l in \<open>auto simp: entry_blocks_def\<close>)
  moreover have "slot ?base cnt m' (4 * ?q + 2 + i) = data_bytes (g ! i)" if "i < ?l" for i
  proof -
    have "(4 * ?q) mod (4 * cnt) \<noteq> (4 * ?q + 2 + i) mod (4 * cnt)" "(4 * ?q + 2 + i) mod (4 * cnt) \<noteq> (4 * ?q + 2 + ?l) mod (4 * cnt)"
      by (rule window_apart; use that wid in simp)+
    then show ?thesis using only_slotsD [OF m'(4), of "4 * ?q + 2 + i"] old(2) that by (auto simp: packed_at_def)
  qed
  then have "packed_at A fl fm ?n ?base cnt m' ?q (g @ [sg])" using m'(2,3) l(2) g(2) by (auto simp: packed_at_def nth_append less_Suc_eq)
  moreover have "one_length (g @ [sg])" using one_length_add [of "[g]" sg] old(4) g by (simp add: add_msg_def)
  moreover have "wq_head (q_sq (ss_qp s)) = h + of_nat (length (gs @ [g]))" "ss_last_post s = of_nat ?q" using b by (simp_all add: building_def)
  ultimately have "building A fl fm cnt p h (gs @ [g @ [sg]]) (joined cnt ?q ?l s) m'"
    using ring old(3) joined_ring [OF ring(1) only_slots_keeps [OF m'(4)]] joined_open [OF opn] l g
    by (auto simp: building_def blocks add.assoc)
  then show ?thesis using m'(1,4) by (auto simp: only_slots_def)
qed

end
