(* ===== verification/Burst_Family.thy ===== *)
theory Burst_Family
  imports Burst
begin

text \<open>
  The exported variants of the burst family of \<open>qp.c\<close>, which fix the arguments of \<open>send_pending\<close>,
  \<open>send_msg_list\<close> and \<open>send_flush_unsafe\<close>, and the family of a queue pair. The safe variants look up whether
  the queue pair sends raw packets and how it rings, and lock; the unsafe ones are compiled for the answers.
\<close>

type_synonym burst_result = "(int \<times> send_side \<times> memory) res"

abbreviation whole_msg :: "u64 \<Rightarrow> u32 \<Rightarrow> u32 \<Rightarrow> u32 \<Rightarrow> u16 \<Rightarrow> burst_msg" where
  "whole_msg addr len lkey fl tci \<equiv> \<lparr>bm_addr = addr, bm_length = len, bm_lkey = lkey, bm_flags = fl, bm_vlan_tci = tci,
     bm_num_sge = 0, bm_sg_list = None\<rparr>"

abbreviation sg_msg :: "ibv_sge list option \<Rightarrow> u32 \<Rightarrow> u32 \<Rightarrow> u16 \<Rightarrow> burst_msg" where
  "sg_msg sgs num fl tci \<equiv> \<lparr>bm_addr = 0, bm_length = 0, bm_lkey = 0, bm_flags = fl, bm_vlan_tci = tci,
     bm_num_sge = sint num, bm_sg_list = sgs\<rparr>"

abbreviation kind_of :: "bool \<Rightarrow> bool \<Rightarrow> bool \<Rightarrow> bool \<Rightarrow> bool \<Rightarrow> bool \<Rightarrow> burst_kind" where
  "kind_of eth inl safe sg mpw vlan \<equiv>
     \<lparr>bk_eth = eth, bk_inl = inl, bk_safe = safe, bk_sg = sg, bk_mpw = mpw, bk_vlan = vlan\<rparr>"

section \<open>One segment\<close>

definition mlx5_send_pending_safe :: "burst_abi \<Rightarrow> u64 \<Rightarrow> u32 \<Rightarrow> u32 \<Rightarrow> u32 \<Rightarrow> send_side \<Rightarrow> memory \<Rightarrow> burst_result" where
  "mlx5_send_pending_safe A addr len lkey fl s m =
     drv_send_pending A (kind_of (ss_raw_eth s) False True False False False) (whole_msg addr len lkey fl 0) s m"

definition mlx5_send_pending_mpw_safe :: "burst_abi \<Rightarrow> u64 \<Rightarrow> u32 \<Rightarrow> u32 \<Rightarrow> u32 \<Rightarrow> send_side \<Rightarrow> memory \<Rightarrow> burst_result" where
  "mlx5_send_pending_mpw_safe A addr len lkey fl s m =
     drv_send_pending A (kind_of (ss_raw_eth s) False True False True False) (whole_msg addr len lkey fl 0) s m"

definition MLX5_SEND_PENDING_VLAN_SAFE :: "bool \<Rightarrow> burst_abi \<Rightarrow> u64 \<Rightarrow> u32 \<Rightarrow> u32 \<Rightarrow> u32 \<Rightarrow> u16 \<Rightarrow> send_side \<Rightarrow> memory \<Rightarrow>
    burst_result" where
  "MLX5_SEND_PENDING_VLAN_SAFE mpw A addr len lkey fl tci s m =
     drv_send_pending A (kind_of (ss_raw_eth s) False True False mpw True) (whole_msg addr len lkey fl tci) s m"

definition MLX5_SEND_PENDING_UNSAFE :: "bool \<Rightarrow> bool \<Rightarrow> burst_abi \<Rightarrow> u64 \<Rightarrow> u32 \<Rightarrow> u32 \<Rightarrow> u32 \<Rightarrow> send_side \<Rightarrow> memory \<Rightarrow>
    burst_result" where
  "MLX5_SEND_PENDING_UNSAFE eth mpw A addr len lkey fl s m =
     drv_send_pending A (kind_of eth False False False mpw False) (whole_msg addr len lkey fl 0) s m"

definition MLX5_SEND_PENDING_VLAN_UNSAFE :: "bool \<Rightarrow> burst_abi \<Rightarrow> u64 \<Rightarrow> u32 \<Rightarrow> u32 \<Rightarrow> u32 \<Rightarrow> u16 \<Rightarrow> send_side \<Rightarrow> memory \<Rightarrow>
    burst_result" where
  "MLX5_SEND_PENDING_VLAN_UNSAFE mpw A addr len lkey fl tci s m =
     drv_send_pending A (kind_of True False False False mpw True) (whole_msg addr len lkey fl tci) s m"

section \<open>Inline data\<close>

definition mlx5_send_pending_inl_safe :: "burst_abi \<Rightarrow> u64 \<Rightarrow> u32 \<Rightarrow> u32 \<Rightarrow> send_side \<Rightarrow> memory \<Rightarrow> burst_result" where
  "mlx5_send_pending_inl_safe A addr len fl s m =
     drv_send_pending A (kind_of (ss_raw_eth s) True True False False False) (whole_msg addr len 0 fl 0) s m"

definition mlx5_send_pending_inl_mpw_safe :: "burst_abi \<Rightarrow> u64 \<Rightarrow> u32 \<Rightarrow> u32 \<Rightarrow> send_side \<Rightarrow> memory \<Rightarrow> burst_result" where
  "mlx5_send_pending_inl_mpw_safe A addr len fl s m =
     drv_send_pending A (kind_of (ss_raw_eth s) True True False True False) (whole_msg addr len 0 fl 0) s m"

definition MLX5_SEND_PENDING_INL_VLAN_SAFE :: "bool \<Rightarrow> burst_abi \<Rightarrow> u64 \<Rightarrow> u32 \<Rightarrow> u32 \<Rightarrow> u16 \<Rightarrow> send_side \<Rightarrow> memory \<Rightarrow>
    burst_result" where
  "MLX5_SEND_PENDING_INL_VLAN_SAFE mpw A addr len fl tci s m =
     drv_send_pending A (kind_of (ss_raw_eth s) True True False mpw True) (whole_msg addr len 0 fl tci) s m"

definition MLX5_SEND_PENDING_INL_UNSAFE :: "bool \<Rightarrow> bool \<Rightarrow> burst_abi \<Rightarrow> u64 \<Rightarrow> u32 \<Rightarrow> u32 \<Rightarrow> send_side \<Rightarrow> memory \<Rightarrow>
    burst_result" where
  "MLX5_SEND_PENDING_INL_UNSAFE eth mpw A addr len fl s m =
     drv_send_pending A (kind_of eth True False False mpw False) (whole_msg addr len 0 fl 0) s m"

definition MLX5_SEND_PENDING_INL_VLAN_UNSAFE :: "bool \<Rightarrow> burst_abi \<Rightarrow> u64 \<Rightarrow> u32 \<Rightarrow> u32 \<Rightarrow> u16 \<Rightarrow> send_side \<Rightarrow> memory \<Rightarrow>
    burst_result" where
  "MLX5_SEND_PENDING_INL_VLAN_UNSAFE mpw A addr len fl tci s m =
     drv_send_pending A (kind_of True True False False mpw True) (whole_msg addr len 0 fl tci) s m"

section \<open>Several segments\<close>

definition mlx5_send_pending_sg_list_safe :: "burst_abi \<Rightarrow> ibv_sge list option \<Rightarrow> u32 \<Rightarrow> u32 \<Rightarrow> send_side \<Rightarrow> memory \<Rightarrow>
    burst_result" where
  "mlx5_send_pending_sg_list_safe A sgs num fl s m =
     drv_send_pending A (kind_of (ss_raw_eth s) False True True False False) (sg_msg sgs num fl 0) s m"

definition mlx5_send_pending_sg_list_mpw_safe :: "burst_abi \<Rightarrow> ibv_sge list option \<Rightarrow> u32 \<Rightarrow> u32 \<Rightarrow> send_side \<Rightarrow> memory \<Rightarrow>
    burst_result" where
  "mlx5_send_pending_sg_list_mpw_safe A sgs num fl s m =
     drv_send_pending A (kind_of (ss_raw_eth s) False True True True False) (sg_msg sgs num fl 0) s m"

definition MLX5_SEND_PENDING_SG_VLAN_SAFE :: "bool \<Rightarrow> burst_abi \<Rightarrow> ibv_sge list option \<Rightarrow> u32 \<Rightarrow> u32 \<Rightarrow> u16 \<Rightarrow> send_side \<Rightarrow> memory \<Rightarrow>
    burst_result" where
  "MLX5_SEND_PENDING_SG_VLAN_SAFE mpw A sgs num fl tci s m =
     drv_send_pending A (kind_of (ss_raw_eth s) False True True mpw True) (sg_msg sgs num fl tci) s m"

definition MLX5_SEND_PENDING_SG_LIST_UNSAFE :: "bool \<Rightarrow> bool \<Rightarrow> burst_abi \<Rightarrow> ibv_sge list option \<Rightarrow> u32 \<Rightarrow> u32 \<Rightarrow> send_side \<Rightarrow>
    memory \<Rightarrow> burst_result" where
  "MLX5_SEND_PENDING_SG_LIST_UNSAFE eth mpw A sgs num fl s m =
     drv_send_pending A (kind_of eth False False True mpw False) (sg_msg sgs num fl 0) s m"

definition MLX5_SEND_PENDING_SG_VLAN_UNSAFE :: "bool \<Rightarrow> burst_abi \<Rightarrow> ibv_sge list option \<Rightarrow> u32 \<Rightarrow> u32 \<Rightarrow> u16 \<Rightarrow> send_side \<Rightarrow> memory \<Rightarrow>
    burst_result" where
  "MLX5_SEND_PENDING_SG_VLAN_UNSAFE mpw A sgs num fl tci s m =
     drv_send_pending A (kind_of True False False True mpw True) (sg_msg sgs num fl tci) s m"

section \<open>Bursts and flushes\<close>

definition mlx5_send_burst_safe :: "burst_abi \<Rightarrow> ibv_sge list \<Rightarrow> u32 \<Rightarrow> send_side \<Rightarrow> memory \<Rightarrow> burst_result" where
  "mlx5_send_burst_safe A sgs fl s m = send_msg_list A sgs fl (ss_raw_eth s) True (dbf_method (ss_bf s)) False s m"

definition mlx5_send_burst_mpw_safe :: "burst_abi \<Rightarrow> ibv_sge list \<Rightarrow> u32 \<Rightarrow> send_side \<Rightarrow> memory \<Rightarrow> burst_result" where
  "mlx5_send_burst_mpw_safe A sgs fl s m = send_msg_list A sgs fl (ss_raw_eth s) True (dbf_method (ss_bf s)) True s m"

definition MLX5_SEND_BURST_UNSAFE :: "mlx5_db_method \<Rightarrow> bool \<Rightarrow> bool \<Rightarrow> burst_abi \<Rightarrow> ibv_sge list \<Rightarrow> u32 \<Rightarrow> send_side \<Rightarrow> memory \<Rightarrow>
    burst_result" where
  "MLX5_SEND_BURST_UNSAFE db_method eth mpw A sgs fl s m = send_msg_list A sgs fl eth False db_method mpw s m"

definition mlx5_send_flush_safe :: "send_side \<Rightarrow> memory \<Rightarrow> burst_result" where
  "mlx5_send_flush_safe s m =
     bindR (lock_sq s) (\<lambda>s. bindR (send_flush_unsafe (dbf_method (ss_bf s)) s m) (\<lambda>(s, m). Inr (0, unlock_sq s, m)))"

text \<open>\<open>__ring_db\<close> returns 0.\<close>

definition MLX5_SEND_FLUSH_UNSAFE :: "mlx5_db_method \<Rightarrow> send_side \<Rightarrow> memory \<Rightarrow> burst_result" where
  "MLX5_SEND_FLUSH_UNSAFE db_method s m = bindR (send_flush_unsafe db_method s m) (\<lambda>(s, m). Inr (0, s, m))"

section \<open>The family of a queue pair\<close>

record qp_burst_family =
  qf_send_burst :: "burst_abi \<Rightarrow> ibv_sge list \<Rightarrow> u32 \<Rightarrow> send_side \<Rightarrow> memory \<Rightarrow> burst_result"
  qf_send_pending :: "burst_abi \<Rightarrow> u64 \<Rightarrow> u32 \<Rightarrow> u32 \<Rightarrow> u32 \<Rightarrow> send_side \<Rightarrow> memory \<Rightarrow> burst_result"
  qf_send_pending_inline :: "burst_abi \<Rightarrow> u64 \<Rightarrow> u32 \<Rightarrow> u32 \<Rightarrow> send_side \<Rightarrow> memory \<Rightarrow> burst_result"
  qf_send_pending_sg_list :: "burst_abi \<Rightarrow> ibv_sge list option \<Rightarrow> u32 \<Rightarrow> u32 \<Rightarrow> send_side \<Rightarrow> memory \<Rightarrow> burst_result"
  qf_send_flush :: "send_side \<Rightarrow> memory \<Rightarrow> burst_result"
  qf_recv_burst :: "ibv_sge list \<Rightarrow> mlx5_qp \<Rightarrow> memory \<Rightarrow> (mlx5_qp \<times> memory) res"
  qf_send_pending_vlan :: "burst_abi \<Rightarrow> u64 \<Rightarrow> u32 \<Rightarrow> u32 \<Rightarrow> u32 \<Rightarrow> u16 \<Rightarrow> send_side \<Rightarrow> memory \<Rightarrow> burst_result"
  qf_send_pending_inline_vlan :: "burst_abi \<Rightarrow> u64 \<Rightarrow> u32 \<Rightarrow> u32 \<Rightarrow> u16 \<Rightarrow> send_side \<Rightarrow> memory \<Rightarrow> burst_result"
  qf_send_pending_sg_list_vlan :: "burst_abi \<Rightarrow> ibv_sge list option \<Rightarrow> u32 \<Rightarrow> u32 \<Rightarrow> u16 \<Rightarrow> send_side \<Rightarrow> memory \<Rightarrow> burst_result"

definition mlx5_qp_burst_family_safe :: qp_burst_family where
  "mlx5_qp_burst_family_safe = \<lparr>
     qf_send_burst = mlx5_send_burst_safe,
     qf_send_pending = mlx5_send_pending_safe,
     qf_send_pending_inline = mlx5_send_pending_inl_safe,
     qf_send_pending_sg_list = mlx5_send_pending_sg_list_safe,
     qf_send_flush = mlx5_send_flush_safe,
     qf_recv_burst = mlx5_recv_burst_safe,
     qf_send_pending_vlan = MLX5_SEND_PENDING_VLAN_SAFE False,
     qf_send_pending_inline_vlan = MLX5_SEND_PENDING_INL_VLAN_SAFE False,
     qf_send_pending_sg_list_vlan = MLX5_SEND_PENDING_SG_VLAN_SAFE False\<rparr>"

definition mlx5_qp_burst_family_mpw_safe :: qp_burst_family where
  "mlx5_qp_burst_family_mpw_safe = \<lparr>
     qf_send_burst = mlx5_send_burst_mpw_safe,
     qf_send_pending = mlx5_send_pending_mpw_safe,
     qf_send_pending_inline = mlx5_send_pending_inl_mpw_safe,
     qf_send_pending_sg_list = mlx5_send_pending_sg_list_mpw_safe,
     qf_send_flush = mlx5_send_flush_safe,
     qf_recv_burst = mlx5_recv_burst_safe,
     qf_send_pending_vlan = MLX5_SEND_PENDING_VLAN_SAFE True,
     qf_send_pending_inline_vlan = MLX5_SEND_PENDING_INL_VLAN_SAFE True,
     qf_send_pending_sg_list_vlan = MLX5_SEND_PENDING_SG_VLAN_SAFE True\<rparr>"

text \<open>The table of the unsafe families, by its four indices.\<close>

definition mlx5_qp_burst_family_unsafe_tbl :: "mlx5_db_method \<Rightarrow> bool \<Rightarrow> bool \<Rightarrow> bool \<Rightarrow> qp_burst_family" where
  "mlx5_qp_burst_family_unsafe_tbl db_method eth one_sge mpw = \<lparr>
     qf_send_burst = MLX5_SEND_BURST_UNSAFE db_method eth mpw,
     qf_send_pending = MLX5_SEND_PENDING_UNSAFE eth mpw,
     qf_send_pending_inline = MLX5_SEND_PENDING_INL_UNSAFE eth mpw,
     qf_send_pending_sg_list = MLX5_SEND_PENDING_SG_LIST_UNSAFE eth mpw,
     qf_send_flush = MLX5_SEND_FLUSH_UNSAFE db_method,
     qf_recv_burst = MLX5_RECV_BURST_UNSAFE one_sge,
     qf_send_pending_vlan = MLX5_SEND_PENDING_VLAN_UNSAFE mpw,
     qf_send_pending_inline_vlan = MLX5_SEND_PENDING_INL_VLAN_UNSAFE mpw,
     qf_send_pending_sg_list_vlan = MLX5_SEND_PENDING_SG_VLAN_UNSAFE mpw\<rparr>"

definition MLX5_MAX_QP_BURST_FAMILY_VER :: u32 where "MLX5_MAX_QP_BURST_FAMILY_VER = 1"

text \<open>
  What the choice looks at beside the queue pair: whether its state is one from \<open>IBV_QPS_INIT\<close> to
  \<open>IBV_QPS_RTS\<close>, \<open>IBV_EXP_QP_CREATE_MANAGED_SEND\<close>, and the two model flags. \<open>IBV_QPT_RAW_PACKET\<close> is
  \<open>IBV_QPT_RAW_ETH\<close>. \<open>Inl\<close> is \<open>NULL\<close> with the status.
\<close>

record qp_model =
  qm_state_ok :: bool
  qm_managed_send :: bool
  qm_thread_safe :: bool
  qm_multi_packet :: bool


definition mlx5_get_qp_burst_family :: "burst_abi \<Rightarrow> qp_model \<Rightarrow> send_side \<Rightarrow> intf_params \<Rightarrow> intf_status + qp_burst_family" where
  "mlx5_get_qp_burst_family A md s params =
     (let multi = IBV_EXP_QP_BURST_CREATE_ENABLE_MULTI_PACKET_SEND_WR A; qp = ss_qp s in
      if MLX5_MAX_QP_BURST_FAMILY_VER < intf_version params then Inl IBV_EXP_INTF_STAT_VERSION_NOT_SUPPORTED
      else if \<not> qm_state_ok md then Inl IBV_EXP_INTF_STAT_INVAL_OBJ_STATE
      else if qm_managed_send md then Inl IBV_EXP_INTF_STAT_INVAL_PARARM
      else if intf_flags params \<noteq> 0 then Inl IBV_EXP_INTF_STAT_FLAGS_NOT_SUPPORTED
      else if family_flags params AND NOT multi \<noteq> 0 then Inl IBV_EXP_INTF_STAT_FAMILY_FLAGS_NOT_SUPPORTED
      else if q_type qp \<notin> {IBV_QPT_RC, IBV_QPT_UC, IBV_QPT_RAW_ETH} then Inl IBV_EXP_INTF_STAT_INVAL_PARARM
      else let mpw = (family_flags params AND multi \<noteq> 0 \<and> qm_multi_packet md) in
           if qm_thread_safe md
           then Inr (if mpw then mlx5_qp_burst_family_mpw_safe else mlx5_qp_burst_family_safe)
           else Inr (mlx5_qp_burst_family_unsafe_tbl (dbf_method (ss_bf s)) (ss_raw_eth s) (wq_max_gs (q_rq qp) = 1) mpw))"

end
