(* ===== verification/Burst_Run.thy ===== *)
theory Burst_Run
  imports Burst_Correct Burst_Family
begin

text \<open>
  A burst from the first message to the doorbell: the loop packs the messages, ringing changes the doorbell
  record and the page and leaves the queue. And what a packet does that is too short.
\<close>

section \<open>All messages\<close>

lemma build_step:
  assumes b: "building A fl fm cnt p h gs s m" and len: "sg_length sg \<le> MLX5_MAX_MPW_SIZE" and room: "total_blocks (add_msg gs sg) \<le> cnt"
  shows "\<exists>s' m'. drv_send_pending A mpw_kind (msg_of fl sg) s m = Inr (0, s', m') \<and> building A fl fm cnt p h (add_msg gs sg) s' m' \<and>
    same_side s s' \<and> changes (q_sqstart (ss_qp s)) (64 * cnt) m m'"
proof (cases "gs \<noteq> [] \<and> length (last gs) < 5 \<and> sg_length (hd (last gs)) = sg_length sg")
  case True
  then obtain hs g where gs: "gs = hs @ [g]" by (cases gs rule: rev_cases) auto
  then have "add_msg gs sg = hs @ [g @ [sg]]" using True by (simp add: add_msg_def)
  then show ?thesis using build_joins [of A fl fm cnt p h hs g s m sg] b True room gs by simp
next
  case False
  then have new: "add_msg gs sg = gs @ [[sg]]" by (auto simp: add_msg_def)
  show ?thesis using build_opens [OF b len new] room unfolding new by blast
qed

lemma send_msgs_builds:
  assumes "building A fl fm cnt p h gs s m" and "\<forall>sg \<in> set sgs. sg_length sg \<le> MLX5_MAX_MPW_SIZE"
    and "total_blocks (foldl add_msg gs sgs) \<le> cnt"
  shows "\<exists>s' m'. send_msgs A fl True True sgs (s, m) = Inr (s', m') \<and> building A fl fm cnt p h (foldl add_msg gs sgs) s' m' \<and>
    same_side s s' \<and> changes (q_sqstart (ss_qp s)) (64 * cnt) m m'"
  using assms
proof (induction sgs arbitrary: gs s m)
  case (Cons sg sgs)
  have room: "total_blocks (add_msg gs sg) \<le> cnt" using total_packed [of "add_msg gs sg" sgs] Cons.prems(3) by simp
  obtain s1 m1 where 1: "drv_send_pending A mpw_kind (msg_of fl sg) s m = Inr (0, s1, m1)" "building A fl fm cnt p h (add_msg gs sg) s1 m1"
    "same_side s s1" "changes (q_sqstart (ss_qp s)) (64 * cnt) m m1"
    using build_step [OF Cons.prems(1) _ room] Cons.prems(2) by (meson list.set_intros(1))
  obtain s' m' where 2: "send_msgs A fl True True sgs (s1, m1) = Inr (s', m')" "building A fl fm cnt p h (foldl add_msg (add_msg gs sg) sgs) s' m'"
    "same_side s1 s'" "changes (q_sqstart (ss_qp s1)) (64 * cnt) m1 m'"
    using Cons.IH [OF 1(2)] Cons.prems(2,3) by auto
  have "send_msgs A fl True True (sg # sgs) (s, m) = send_msgs A fl True True sgs (s1, m1)"
    using 1(1) by (simp add: send_msgs_def mpw_kind_def msg_of_def)
  moreover have "q_sqstart (ss_qp s1) = q_sqstart (ss_qp s)" using 1(3) by (simp add: same_side_def)
  ultimately show ?case using 2 1(3,4) by (auto intro: same_side_trans changes_trans)
qed (auto simp: send_msgs_def)

section \<open>The doorbell\<close>

text \<open>The record and the page are memory, apart from each other and from the queue.\<close>

definition burst_bell :: "send_side \<Rightarrow> nat \<Rightarrow> memory \<Rightarrow> bool" where
  "burst_bell s cnt m \<longleftrightarrow> (let db = wq_db (q_sq (ss_qp s)); dst = dbf_reg (ss_bf s) + unat (dbf_offset (ss_bf s));
       base = q_sqstart (ss_qp s) in
     mapped m db 4 \<and> mapped m dst 128 \<and> (db + 4 \<le> dst \<or> dst + 128 \<le> db) \<and> (db + 4 \<le> base \<or> base + 64 * cnt \<le> db) \<and>
     (dst + 128 \<le> base \<or> base + 64 * cnt \<le> dst))"

lemma slot_block:
  assumes "0 < cnt"
  shows "mapped m base (64 * cnt) \<Longrightarrow> mapped m (slot_addr base cnt (4 * k)) 64"
    and "(if slot_addr base cnt (4 * k) + 64 = base + 64 * cnt then base else slot_addr base cnt (4 * k) + 64) = slot_addr base cnt (4 * (k + 1))"
proof -
  have a: "slot_addr base cnt (4 * j) = base + 64 * (j mod cnt)" for j
  proof -
    have "(4 * j) mod (4 * cnt) = 4 * (j mod cnt)" by simp
    then show ?thesis by (simp add: slot_addr_def)
  qed
  have lt: "k mod cnt < cnt" using assms by simp
  show "mapped m base (64 * cnt) \<Longrightarrow> mapped m (slot_addr base cnt (4 * k)) 64"
    unfolding a by (erule mapped_sub) (use lt in linarith)+
  show "(if slot_addr base cnt (4 * k) + 64 = base + 64 * cnt then base else slot_addr base cnt (4 * k) + 64) = slot_addr base cnt (4 * (k + 1))"
    unfolding a using lt by (auto simp: mod_Suc)
qed

lemma bf_copy_changes:
  assumes "0 < cnt" and "mapped m base (64 * cnt)" and "mapped m dst (64 * n)"
  shows "\<exists>m'. bf_copy_blocks n dst (slot_addr base cnt (4 * k)) (base + 64 * cnt) base m = Inr m' \<and> changes dst (64 * n) m m'"
  using assms(2,3)
proof (induction n arbitrary: dst k m)
  case (Suc n)
  let ?src = "slot_addr base cnt (4 * k)"
  let ?m = "upd_bytes dst (bytes_at m ?src 64) m"
  have src: "mapped m ?src 64" by (rule slot_block(1) [OF assms(1) Suc.prems(1)])
  have dst: "mapped m dst 64" "mapped m (dst + 64) (64 * n)" using mapped_sub [OF Suc.prems(2)] by simp_all
  obtain m' where m': "bf_copy_blocks n (dst + 64) (slot_addr base cnt (4 * (k + 1))) (base + 64 * cnt) base ?m = Inr m'"
    "changes (dst + 64) (64 * n) ?m m'"
    using Suc.IH [of ?m "dst + 64" "k + 1"] Suc.prems(1) dst(2) by auto
  have "changes dst (64 * Suc n) m ?m" by (rule changes_upd) simp_all
  moreover have "changes dst (64 * Suc n) ?m m'" by (rule changes_mono [OF m'(2)]) simp_all
  ultimately have "changes dst (64 * Suc n) m m'" by (rule changes_trans)
  then show ?case using src dst(1) m'(1) slot_block(2) [OF assms(1), of base k] by (simp add: Let_def)
qed simp

lemma ring_changes:
  assumes ring: "burst_ring s cnt m" and bell: "burst_bell s cnt m" and b: "b \<le> 2"
    and seg: "seg = slot_addr (q_sqstart (ss_qp s)) cnt (4 * k)"
  shows "\<exists>s' m'. drv_ring_db meth c seg (int b) s m = Inr (s', m') \<and> ss_qp s' = ss_qp s \<and> ss_locked s' = ss_locked s \<and>
    mp_state (ss_mpw s') = MLX5_MPW_STATE_CLOSED \<and> bytes_at m' (wq_db (q_sq (ss_qp s))) 4 = be32 c \<and>
    (\<forall>j. slot (q_sqstart (ss_qp s)) cnt m' j = slot (q_sqstart (ss_qp s)) cnt m j)"
proof -
  let ?base = "q_sqstart (ss_qp s)" and ?db = "wq_db (q_sq (ss_qp s))" and ?dst = "dbf_reg (ss_bf s) + unat (dbf_offset (ss_bf s))"
  have pos: "0 < cnt" by (rule burst_ring_pos [OF ring])
  have bl: "mapped m ?db 4" "mapped m ?dst 128" "?db + 4 \<le> ?dst \<or> ?dst + 128 \<le> ?db" "?db + 4 \<le> ?base \<or> ?base + 64 * cnt \<le> ?db"
    "?dst + 128 \<le> ?base \<or> ?base + 64 * cnt \<le> ?dst" using bell by (simp_all add: burst_bell_def Let_def)
  have geo: "mapped m ?base (64 * cnt)" "q_sqend (ss_qp s) = ?base + 64 * cnt" using ring by (simp_all add: burst_ring_def)
  let ?m = "upd_bytes ?db (be32 c) m"
  have db: "store32 ?db (htonl c) m = Inr ?m" using bl(1) by (simp add: store32_def byte_simps)
  have dbm: "changes ?db 4 m ?m" by (rule changes_upd) simp_all
  have apart: "slot_addr ?base cnt j + 16 \<le> a \<or> a + n \<le> slot_addr ?base cnt j" if "a + n \<le> ?base \<or> ?base + 64 * cnt \<le> a" for a n j
    using slot_within [OF pos, of ?base j] that by linarith
  have done': "bytes_at m' ?db 4 = be32 c \<and> (\<forall>j. slot ?base cnt m' j = slot ?base cnt m j)" if "changes ?dst 128 ?m m'" for m'
  proof -
    have "bytes_at m' ?db 4 = bytes_at ?m ?db 4" by (rule changes_bytes [OF that]) (use bl(3) in auto)
    moreover have "bytes_at m' (slot_addr ?base cnt j) 16 = bytes_at m (slot_addr ?base cnt j) 16" for j
      using changes_bytes [OF that, of "slot_addr ?base cnt j" 16] changes_bytes [OF dbm, of "slot_addr ?base cnt j" 16]
        apart [OF bl(4), of j] apart [OF bl(5), of j] by auto
    ultimately show ?thesis by (simp add: slot_def byte_simps)
  qed
  have seg64: "mapped ?m seg 64" unfolding seg by (rule slot_block(1) [OF pos]) (use geo(1) in simp)
  have m8: "mapped ?m ?dst 8" "mapped ?m seg 8" "mapped ?m seg 4" "mapped ?m (seg + 4) 4"
    using mapped_sub [OF bl(2), of ?dst 8] mapped_sub [OF seg64] by simp_all
  obtain x where w64: "drv_write64 seg ?dst ?m = Inr (upd_bytes ?dst (le64 x) ?m)"
    using m8 by (simp add: drv_write64_def load32_def stores_mapped)
  have eight: "mlx5_write_db ?dst seg ?m = Inr (upd_bytes ?dst (bytes_at ?m seg 8) ?m)" using m8 by (simp add: mlx5_write_db_def)
  have "mapped ?m ?dst (64 * b)" using bl(2) b by (intro mapped_upd mapped_sub [OF bl(2)]) simp_all
  then obtain mc where mc: "bf_copy_blocks b ?dst seg (?base + 64 * cnt) ?base ?m = Inr mc" "changes ?dst (64 * b) ?m mc"
    using bf_copy_changes [OF pos, of ?m ?base ?dst b k] geo(1) unfolding seg by auto
  have "b = 0 \<or> b = 1 \<or> b = 2" using b by linarith
  then have "unat (of_int (int b * 64) :: u32) div 64 = b" by auto
  then have copy: "drv_bf_copy ?dst seg (of_int (int b * 64)) (ss_qp s) ?m = Inr mc" using mc(1) geo(2) by (simp add: drv_bf_copy_def)
  have ch: "changes ?dst 128 ?m (upd_bytes ?dst (le64 x) ?m)" "changes ?dst 128 ?m (upd_bytes ?dst (bytes_at ?m seg 8) ?m)" "changes ?dst 128 ?m mc"
    using b by (auto intro: changes_upd changes_mono [OF mc(2)])
  let ?P = "of_int (int b) \<le> dbf_buf_size (ss_bf s) div 64"
  show ?thesis
  proof (cases "meth = MLX5_DB_METHOD_DB")
    case True
    then show ?thesis using db w64 done' [OF ch(1)] by (simp add: drv_ring_db_def Let_def)
  next
    case False
    show ?thesis
    proof (cases ?P)
      case True
      then show ?thesis using False db copy done' [OF ch(3)] by (cases meth) (simp_all add: drv_ring_db_def Let_def)
    next
      case small: False
      then show ?thesis using False db eight done' [OF ch(2)] by (cases meth) (simp_all add: drv_ring_db_def Let_def)
    qed
  qed
qed

lemma sint_small:
  fixes x :: u32
  assumes "unat x < 2 ^ 31"
  shows "sint x = int (unat x)"
proof -
  have u: "uint x = int (unat x)" by simp
  have "int (unat x) < int (2 ^ 31)" using assms by (simp only: of_nat_less_iff)
  then have "uint x < 2 ^ 31" unfolding u by simp
  then have "sint x = uint x" unfolding sint_uint by (intro signed_take_bit_int_eq_self) (simp_all add: order_trans [OF _ uint_ge_0])
  then show ?thesis unfolding u .
qed

text \<open>Flushing after a sequence: the entry started last is copied out. The block counter as an \<open>int\<close> must not be
  negative.\<close>

lemma flush_rings:
  assumes b: "building A fl fm cnt p h gs s m" and bell: "burst_bell s cnt m" and ne: "gs \<noteq> []" and small: "p + total_blocks gs < 2 ^ 31"
  shows "\<exists>s' m'. send_flush_unsafe meth s m = Inr (s', m') \<and> ss_qp s' = ss_qp s \<and> ss_locked s' = ss_locked s \<and>
    mp_state (ss_mpw s') = MLX5_MPW_STATE_CLOSED \<and>
    bytes_at m' (wq_db (q_sq (ss_qp s))) 4 = be32 (of_nat (p + total_blocks gs) AND 0xffff) \<and>
    (\<forall>j. slot (q_sqstart (ss_qp s)) cnt m' j = slot (q_sqstart (ss_qp s)) cnt m j)"
proof -
  obtain hs g where gs: "gs = hs @ [g]" using ne by (cases gs rule: rev_cases) auto
  let ?q = "p + total_blocks hs" and ?b = "entry_blocks g" and ?c = "of_nat (p + total_blocks gs) AND 0xffff :: u32"
  have ring: "burst_ring s cnt m" and post: "q_scur_post (ss_qp s) = of_nat (p + total_blocks gs)" "ss_last_post s = of_nat ?q"
    and g: "one_length g" using b by (simp_all add: building_def gs)
  have blk: "?b \<le> 2" using g by (auto simp: one_length_def entry_blocks_def)
  have total: "p + total_blocks gs = ?q + ?b" by (simp add: gs)
  have c: "unat ?c = (?q + ?b) mod 65536"
  proof -
    have "unat (of_nat (?q + ?b) :: u32) = ?q + ?b" by (simp only: unat_of_nat) (use small total in simp)
    moreover have "unat (of_nat (?q + ?b) AND mask 16 :: u32) = unat (of_nat (?q + ?b) :: u32) mod 2 ^ 16" by (rule unat_and_mask)
    moreover have "(mask 16 :: u32) = 0xffff" by (simp add: mask_eq_exp_minus_1)
    ultimately show ?thesis by (simp only: total) simp
  qed
  have sc: "sint ?c = int ((?q + ?b) mod 65536)" 
  proof -
    have "unat ?c < 2 ^ 31" unfolding c by (rule less_trans [OF mod_less_divisor]) simp_all
    then show ?thesis using sint_small [of ?c] unfolding c by blast
  qed
  have sl: "sint (of_nat ?q :: u32) = int ?q"
  proof -
    have "unat (of_nat ?q :: u32) = ?q" by (simp only: unat_of_nat) (use small total in simp)
    then show ?thesis using small sint_small [of "of_nat ?q"] by (simp add: total)
  qed
  let ?d = "int ((?q + ?b) mod 65536) - int ?q"
  have low: "int ((?q + ?b) mod 65536) < 65536" "int ?q < 2147483648" "0 \<le> int ((?q + ?b) mod 65536)" "0 \<le> int ?q"
    using small by (simp_all add: total)
  then have bounds: "- 2147483648 \<le> ?d" "?d < 2147483648" "?d + 0x10000 \<le> 0x7FFFFFFF" by linarith+
  have d: "int_diff ?c (of_nat ?q) = Inr ?d" unfolding int_diff_def sc sl using bounds by (simp add: Let_def)
  have size: "(?d + 0x10000) mod 0x10000 = int ?b"
  proof -
    have "(?d + 0x10000) mod 0x10000 = (int (?q + ?b) - int ?q) mod 65536" by (simp add: zmod_int mod_diff_left_eq)
    then show ?thesis using blk by simp
  qed
  have "wqe_at s (of_nat ?q) = slot_addr (q_sqstart (ss_qp s)) cnt (4 * ?q)" by (rule wqe_at_slot [OF ring])
  then show ?thesis using ring_changes [OF ring bell blk refl, of meth ?c ?q] d bounds(3) size post
    by (simp add: send_flush_unsafe_def Let_def)
qed

section \<open>A burst\<close>

lemma packed_all_cong:
  assumes "\<forall>j. slot base cnt m' j = slot base cnt m j"
  shows "packed_all A fl fm qpn base cnt m' p gs = packed_all A fl fm qpn base cnt m p gs"
  using assms by (induction gs arbitrary: p) (simp_all add: packed_at_def head_slots_def)

lemma building_locked [simp]: "building A fl fm cnt p h gs (s\<lparr>ss_locked := b\<rparr>) m = building A fl fm cnt p h gs s m"
  by (simp add: building_def burst_ring_def quiet_def burst_bits_def entry_open_def)

lemma burst_bell_locked [simp]: "burst_bell (s\<lparr>ss_locked := b\<rparr>) cnt m = burst_bell s cnt m"
  by (simp add: burst_bell_def)

lemma add_msg_not_Nil: "foldl add_msg gs sgs = [] \<longleftrightarrow> gs = [] \<and> sgs = []"
proof -
  have "add_msg gs sg \<noteq> []" for gs sg by (simp add: add_msg_def)
  then show ?thesis by (induction sgs arbitrary: gs) simp_all
qed

lemma burst_done:
  assumes b: "building A fl fm cnt p h [] s m" and bell: "burst_bell s cnt m" and lock: "\<not> ss_locked s" and ne: "sgs \<noteq> []"
    and len: "\<forall>sg \<in> set sgs. sg_length sg \<le> MLX5_MAX_MPW_SIZE" and room: "total_blocks (packs sgs) \<le> cnt"
    and small: "p + total_blocks (packs sgs) < 2 ^ 31"
  shows "\<exists>s' m'. send_msg_list A sgs fl True safe meth True s m = Inr (0, s', m') \<and>
    packed_all A fl fm (q_num (ss_qp s)) (q_sqstart (ss_qp s)) cnt m' p (packs sgs) \<and>
    wq_head (q_sq (ss_qp s')) = h + of_nat (length (packs sgs)) \<and>
    q_scur_post (ss_qp s') = of_nat (p + total_blocks (packs sgs)) \<and>
    bytes_at m' (wq_db (q_sq (ss_qp s))) 4 = be32 (of_nat (p + total_blocks (packs sgs)) AND 0xffff) \<and>
    mp_state (ss_mpw s') = MLX5_MPW_STATE_CLOSED \<and> \<not> ss_locked s'"
proof -
  let ?s0 = "if safe then s\<lparr>ss_locked := True\<rparr> else s" and ?base = "q_sqstart (ss_qp s)"
  have lk: "(if safe then lock_sq s else Inr s) = Inr ?s0" using lock by (simp add: lock_sq_def)
  have b0: "building A fl fm cnt p h [] ?s0 m" "burst_bell ?s0 cnt m" "ss_qp ?s0 = ss_qp s" using b bell by simp_all
  obtain s1 m1 where 1: "send_msgs A fl True True sgs (?s0, m) = Inr (s1, m1)" "building A fl fm cnt p h (packs sgs) s1 m1"
    "same_side ?s0 s1" "changes ?base (64 * cnt) m m1"
    using send_msgs_builds [OF b0(1) len] room unfolding packs_def b0(3) by blast
  have same: "q_num (ss_qp s1) = q_num (ss_qp s)" "q_sqstart (ss_qp s1) = ?base" "wq_db (q_sq (ss_qp s1)) = wq_db (q_sq (ss_qp s))"
    "ss_locked s1 = ss_locked ?s0" using 1(3) by (simp_all add: same_side_def)
  have "burst_bell s1 cnt m1" using b0(2) 1(3) changes_mapped [OF 1(4)] by (auto simp: burst_bell_def same_side_def Let_def)
  moreover have "packs sgs \<noteq> []" using ne by (simp add: packs_def add_msg_not_Nil)
  ultimately obtain s2 m2 where 2: "send_flush_unsafe meth s1 m1 = Inr (s2, m2)" "ss_qp s2 = ss_qp s1" "ss_locked s2 = ss_locked s1"
    "mp_state (ss_mpw s2) = MLX5_MPW_STATE_CLOSED"
    "bytes_at m2 (wq_db (q_sq (ss_qp s))) 4 = be32 (of_nat (p + total_blocks (packs sgs)) AND 0xffff)"
    "\<forall>j. slot ?base cnt m2 j = slot ?base cnt m1 j"
    using flush_rings [OF 1(2) _ _ small, of meth] unfolding same by blast
  have "packed_all A fl fm (q_num (ss_qp s)) ?base cnt m1 p (packs sgs)" "wq_head (q_sq (ss_qp s1)) = h + of_nat (length (packs sgs))"
    "q_scur_post (ss_qp s1) = of_nat (p + total_blocks (packs sgs))" using 1(2) by (simp_all add: building_def same)
  then show ?thesis using lk 1(1) 2 lock same(4) packed_all_cong [OF 2(6)]
    by (simp add: send_msg_list_def unlock_sq_def)
qed

section \<open>A packet that is too short\<close>

lemma short_packet:
  assumes "burst_ring s cnt m" and "ss_raw_eth s" and "\<not> ss_locked s" and "len \<le> MLX5_ETH_INLINE_HEADER_SIZE"
  shows "\<exists>s' m'. mlx5_send_pending_safe A addr len lkey fl s m = Inr (EINVAL, s', m') \<and> ss_locked s' \<and> ss_qp s' = ss_qp s"
proof -
  let ?start = "wqe_at s (q_scur_post (ss_qp s))" and ?base = "q_sqstart (ss_qp s)"
  obtain p where p: "q_scur_post (ss_qp s) = of_nat p" by (metis word_nat_cases)
  have pos: "0 < cnt" by (rule burst_ring_pos [OF assms(1)])
  have start: "?start = slot_addr ?base cnt (4 * p)" using wqe_at_slot [OF assms(1)] p by simp
  have "mapped m ?start 64" unfolding start by (rule slot_block(1) [OF pos]) (use assms(1) in \<open>simp add: burst_ring_def\<close>)
  then have e: "mapped m (?start + 16) 16" by (rule mapped_sub) simp_all
  have sub: "mapped m (?start + 16) 8" "mapped m (?start + 16 + 8) 4" "mapped m (?start + 16 + 4) 1" "mapped m (?start + 16 + 12) 2"
    using mapped_sub [OF e] by simp_all
  obtain m1 where m1: "eth_reset A fl (?start + 16) m = Inr m1" "keeps_mapped m m1"
    using sub by (cases "has_flag fl (IBV_EXP_QP_BURST_IP_CSUM A)") (auto simp: eth_reset_def stores_mapped keeps_mapped_def simp del: upd_bytes.simps)
  have "mapped m1 (?start + 16 + 12) 2" using m1(2) sub(4) by (rule keeps_mappedD)
  then have "\<exists>m2. eth_inline_header False 0 (?start + 16) addr len m1 = Inr (EINVAL, addr, len, m2)"
    using assms(4) by (simp add: eth_inline_header_def stores_mapped)
  then show ?thesis using m1(1) assms(2,3)
    by (auto simp: mlx5_send_pending_safe_def drv_send_pending_def lock_sq_def starts_new_def wqe_at_def new_entry_def opens_entry_def
        EINVAL_def Let_def)
qed

lemma locked_never_returns:
  assumes "ss_locked s"
  shows "mlx5_send_pending_safe A addr len lkey fl s m = Inl (Fault Deadlock)" "mlx5_send_flush_safe s m = Inl (Fault Deadlock)"
    "mlx5_send_burst_safe A sgs fl s m = Inl (Fault Deadlock)"
  using assms
  by (simp_all add: mlx5_send_pending_safe_def drv_send_pending_def lock_sq_def mlx5_send_flush_safe_def mlx5_send_burst_safe_def send_msg_list_def)

end
