(* ===== verification/Burst_Props.thy ===== *)
theory Burst_Props
  imports Burst_Run Tag_Props
begin

text \<open>
  What a burst of sends guarantees on a raw packet queue with multi-packet entries, and what a packet shorter than
  the inline header does to a thread-safe queue. The instances are on a send queue of four blocks.
\<close>

section \<open>The sample\<close>

definition burst_sample_abi :: burst_abi where
  "burst_sample_abi = \<lparr>IBV_SEND_FENCE = 1, IBV_SEND_SIGNALED = 2, IBV_SEND_SOLICITED = 4, IBV_SEND_INLINE = 8,
     IBV_EXP_SEND_WAIT_EN_LAST = 2048, IBV_EXP_SEND_WITH_CALC = 64, IBV_EXP_QP_BURST_SIGNALED = 1,
     IBV_EXP_QP_BURST_SOLICITED = 2, IBV_EXP_QP_BURST_FENCE = 8, IBV_EXP_QP_CREATE_MANAGED_SEND = 32,
     IBV_EXP_QP_CREATE_MANAGED_RECV = 64, IBV_EXP_QP_BURST_IP_CSUM = 4,
     IBV_EXP_QP_BURST_CREATE_ENABLE_MULTI_PACKET_SEND_WR = 1\<rparr>"

definition burst_side :: send_side where
  "burst_side = tag_cmd\<lparr>ss_qp := sample_rq_qp\<lparr>q_type := IBV_QPT_RAW_ETH\<rparr>, ss_fm_ce_se_acc := replicate 32 0, ss_raw_eth := True\<rparr>"

definition burst_sge :: "u64 \<Rightarrow> ibv_sge" where
  "burst_sge a = \<lparr>sg_addr = a, sg_length = 64, sg_lkey = 3\<rparr>"

lemma burst_side_fields [simp]:
  "ss_raw_eth burst_side" "\<not> ss_locked burst_side" "q_sqstart (ss_qp burst_side) = 16384" "q_num (ss_qp burst_side) = 5"
  "wq_db (q_sq (ss_qp burst_side)) = 8452" "sg_length (burst_sge a) = 64"
  by (simp_all add: burst_side_def tag_cmd_def sample_rq_qp_def sample_sq_def burst_sge_def)

lemma burst_side_ring: "burst_ring burst_side 4 zero_memory"
proof -
  have "\<exists>k \<le> 16. (4 :: nat) = 2 ^ k" by (rule exI [of _ 2]) simp
  then show ?thesis by (simp add: burst_ring_def burst_side_def sample_rq_qp_def sample_sq_def)
qed

lemma burst_side_building: "building burst_sample_abi 0 0 4 2 2 [] burst_side zero_memory"
  using burst_side_ring
  by (simp add: building_def quiet_def burst_bits_def has_flag_def burst_side_def tag_cmd_def sample_rq_qp_def sample_sq_def)

lemma burst_side_bell: "burst_bell burst_side 4 zero_memory"
  by (simp add: burst_bell_def burst_side_def tag_cmd_def sample_rq_qp_def sample_sq_def)

section \<open>Packing\<close>

text \<open>C19: a burst is packed into multi-packet entries and rung once. The messages, in their order, are cut into
  groups of up to five messages of one length; each group becomes one entry of the ring, with the opcode of a
  multi-packet send, the size \<open>2 + n\<close> for \<open>n\<close> messages, the length of its packets, and one data segment for
  each message. The entries follow each other from block \<open>p\<close> on, over the end of the ring if need be; the head of the
  queue advances by the number of entries, the producer counter by their blocks, and the doorbell record holds
  that counter. The last entry is closed and the lock is free, whether the queue is thread-safe or not.
  The messages are at most \<open>MLX5_MAX_MPW_SIZE\<close> (0x3FFF) bytes each, their entries together have room in the
  ring, no entry is open before the burst, and the flags ask for no completion (\<open>building\<close>).\<close>

theorem burst_packs_messages:
  assumes "building A fl fm cnt p h [] s m" and "burst_bell s cnt m" and "\<not> ss_locked s" and "sgs \<noteq> []"
    and "\<forall>sg \<in> set sgs. sg_length sg \<le> MLX5_MAX_MPW_SIZE" and "total_blocks (packs sgs) \<le> cnt"
    and "p + total_blocks (packs sgs) < 2 ^ 31"
  shows "\<exists>s' m'. send_msg_list A sgs fl True safe meth True s m = Inr (0, s', m') \<and>
    concat (packs sgs) = sgs \<and> list_all one_length (packs sgs) \<and>
    packed_all A fl fm (q_num (ss_qp s)) (q_sqstart (ss_qp s)) cnt m' p (packs sgs) \<and>
    wq_head (q_sq (ss_qp s')) = h + of_nat (length (packs sgs)) \<and>
    q_scur_post (ss_qp s') = of_nat (p + total_blocks (packs sgs)) \<and>
    bytes_at m' (wq_db (q_sq (ss_qp s))) 4 = be32 (of_nat (p + total_blocks (packs sgs)) AND 0xffff) \<and>
    mp_state (ss_mpw s') = MLX5_MPW_STATE_CLOSED \<and> \<not> ss_locked s'"
  using burst_done [OF assms] concat_packs one_length_packs by blast

theorem burst_packs_messages_witness:
  "\<exists>s' m'. send_msg_list burst_sample_abi (map burst_sge [0, 64, 128, 192, 256, 320]) 0 True True MLX5_DB_METHOD_DEDIC_BF True
      burst_side zero_memory = Inr (0, s', m') \<and>
    packed_all burst_sample_abi 0 0 5 16384 4 m' 2 [map burst_sge [0, 64, 128, 192, 256], [burst_sge 320]] \<and>
    wq_head (q_sq (ss_qp s')) = 4 \<and> q_scur_post (ss_qp s') = 5 \<and> bytes_at m' 8452 4 = [0, 0, 0, 5]"
proof -
  let ?sgs = "map burst_sge [0, 64, 128, 192, 256, 320]"
  have packs: "packs ?sgs = [map burst_sge [0, 64, 128, 192, 256], [burst_sge 320]]" by (simp add: packs_def add_msg_def)
  have total: "total_blocks (packs ?sgs) = 3" unfolding packs by (simp add: total_blocks_def entry_blocks_def)
  have room: "total_blocks (packs ?sgs) \<le> 4" "2 + total_blocks (packs ?sgs) < 2 ^ 31" unfolding total by simp_all
  have len: "\<forall>sg \<in> set ?sgs. sg_length sg \<le> MLX5_MAX_MPW_SIZE" "?sgs \<noteq> []" by (simp_all add: MLX5_MAX_MPW_SIZE_def)
  have "be32 (of_nat (2 + 3) AND 0xffff) = [0, 0, 0, 5]" by code_simp
  then show ?thesis
    using burst_packs_messages [OF burst_side_building burst_side_bell burst_side_fields(2) len(2,1) room, of True MLX5_DB_METHOD_DEDIC_BF]
    unfolding total unfolding packs by auto
qed

section \<open>Short packets\<close>

text \<open>C20: a packet no longer than the inline header leaves a thread-safe queue locked. The call returns \<open>EINVAL\<close>
  without posting anything and without releasing the lock of the send queue, so whatever is sent next on that queue,
  a message, a burst or a flush, waits for ever.\<close>

theorem short_packet_keeps_lock:
  assumes "burst_ring s cnt m" and "ss_raw_eth s" and "\<not> ss_locked s" and "len \<le> MLX5_ETH_INLINE_HEADER_SIZE"
  shows "\<exists>s' m'. mlx5_send_pending_safe A addr len lkey fl s m = Inr (EINVAL, s', m') \<and> ss_qp s' = ss_qp s \<and>
    mlx5_send_pending_safe A addr' len' lkey' fl' s' m' = Inl (Fault Deadlock) \<and>
    mlx5_send_burst_safe A sgs fl' s' m' = Inl (Fault Deadlock) \<and> mlx5_send_flush_safe s' m' = Inl (Fault Deadlock)"
  using short_packet [OF assms, of A addr lkey fl] locked_never_returns by blast

theorem short_packet_keeps_lock_witness:
  "\<exists>s' m'. mlx5_send_pending_safe burst_sample_abi 0 14 3 0 burst_side zero_memory = Inr (EINVAL, s', m') \<and>
    mlx5_send_pending_safe burst_sample_abi 0 64 3 0 s' m' = Inl (Fault Deadlock) \<and> mlx5_send_flush_safe s' m' = Inl (Fault Deadlock)"
proof -
  have "(14 :: u32) \<le> MLX5_ETH_INLINE_HEADER_SIZE" by (simp add: MLX5_ETH_INLINE_HEADER_SIZE_def)
  from short_packet_keeps_lock [OF burst_side_ring burst_side_fields(1,2) this, of burst_sample_abi 0 3 0 0 64 3 0 "[]"]
  show ?thesis by blast
qed

end
