(* ===== verification/Spec2Isabelle.thy ===== *)
theory Spec2Isabelle
  imports Queue_Props Conn_Props Lookup_Props Mr_Props Completion_Props Verbs_Props
    Pool_Props Srq_Props Cq_Props Qp_Props Poll_Props Odp_Props Tag_Props Family_Props
    Burst_Props
begin

text \<open>
  The RDMA library under \<open>src/ooo/src/rdma\<close>: connections over RDMA with one-sided operations, messages
  and managed work queues, on top of the connection manager, the verbs and the mlx5 direct verbs; and
  the data structures of the modified user-space driver \<open>src/ooo/lib/libmlx5-41mlnx1/src\<close> below it.

  The program. An application starts the agent (\<open>agent.c\<close>), which starts the event loop of
  \<open>connection.c\<close>. Connection-manager events create connections (a socket number, an \<open>rdma_cm_id\<close>, a
  \<open>conn_context\<close>), set them up (device, completion queue, queue pair, entry in two hash tables),
  announce the memory regions (\<open>mr.c\<close>) and finally make them ready, disconnect and clear them. The
  verbs (\<open>verbs.c\<close>) post requests through the wrappers of \<open>mlx5_intf.c\<close>, which keep the library's own
  copy of the producer counter; \<open>mlx5_post_send\<close> builds the work queue entries itself. A polling thread
  per connection takes completions off the queue and advances the counters on which the waits spin.

  The model. The state is one record \<open>world\<close> (World): the static variables of the library, the
  \<open>rdma_cm_id\<close>s by address with the contexts they own, the byte memory, and a trace of the calls that
  leave the repository. What those calls answer is the parameter \<open>env\<close>, a function of the length of the
  trace, so that every theorem holds for any behaviour of the adapter; the values of the verbs flags
  are a parameter (\<open>verbs_abi\<close>) too. Fallible code returns \<open>Inl\<close> with a message (\<open>rc_die\<close>) or a
  fault (null pointer, index out of bounds, store outside the memory, use after free) or \<open>Inr\<close> with
  the result. Waits run with fuel, \<open>None\<close> meaning that they have not returned; what other threads do
  between two looks at the shared state is a function \<open>tick\<close>. Machine integers are words of their
  width where they wrap and integers where C's \<open>int\<close> counts small things.

  The driver's structures are modelled on their own, each as a state with the operations its clients
  call: the library reaches them through the verbs only. They share the byte memory and the results
  of the library's model; what the system gives (pages, buffers) are arguments.

  The theories, in the order of the code's layers.
  \<^item> Prelude: results, loops, arrays with bounds, byte memory, byte orders.
  \<^item> Utils: \<open>utils.h\<close>, counters that wrap and linear scans over arrays of flags.
  \<^item> Table_Spec, Uthash: the contract of a keyed table (locale \<open>keyed_table\<close>) and \<open>uthash.h\<close>, which
    interprets it; Jenkins' hash byte by byte, bucket expansion included.
  \<^item> Conn_Types, World: \<open>common.h\<close>, \<open>connection.h\<close>, \<open>messaging.h\<close>, \<open>globals.h\<close>; the state and its surroundings.
  \<^item> Wqe, Post_Send: the segment writers of \<open>mlx5_intf.h\<close>, \<open>mlx5_intf.c\<close> and \<open>doorbell.h\<close>. Wqe_Ring and
    Post_Correct relate them to a ring of 16-byte chunks.
  \<^item> Conn_Core, Mr, Conn_Setup, Completion: \<open>connection.c\<close>, \<open>mr.c\<close>, \<open>messaging.c\<close>.
  \<^item> Verbs, Rdma_Ops, Exp_Verbs: \<open>verbs.h\<close> and \<open>verbs.c\<close>.
  \<^item> Agent: \<open>agent.c\<close> and the event loop.
  \<^item> Conn_Inv, Conn_Life: the invariant of the connection table, the frame every other operation stays
    in (\<open>keeps\<close>), what an operation that pauses does in terms of what the other threads do meanwhile
    (locale \<open>pauses\<close>), the calls (\<open>app_call\<close>), the steps of the library (\<open>lib_step\<close>) and the reachable states.
  \<^item> Conn_Spec: the abstract table of sockets and the simulation (locale \<open>simulation\<close>).
  \<^item> Conn_Ids: the lookup tables through set-up and tear-down, by the laws of \<open>keyed_table\<close>.
  \<^item> Mr_Correct, Completion_Correct, Verbs_Correct: what the operations of those files do, branch by
    branch.
  \<^item> Pool_Spec: the contracts of the driver, an allocator that hands nothing out twice (locale
    \<open>slot_pool\<close>) and a table of handles that is a finite map (locale \<open>handle_table\<close>). Driver_Base: bits,
    pages and byte orders the driver uses.
  \<^item> Dbrec, Dbrec_Correct: \<open>dbrec.c\<close>, doorbell records, which interprets \<open>slot_pool\<close>.
  \<^item> Rsc_Table: the tables of queue pairs, shared receive queues and user indices (\<open>qp.c\<close>, \<open>srq.c\<close>,
    \<open>mlx5.c\<close>, \<open>mlx5.h\<close>), which interprets \<open>handle_table\<close> twice and \<open>slot_pool\<close> for the indices.
  \<^item> Srq, Srq_Correct: \<open>srq.c\<close>, shared receive queues; the free entries as a queue, and \<open>slot_pool\<close> for
    the entries.
  \<^item> Cq, Cq_Ring, Cq_Clean, Cq_Resize: \<open>cq.c\<close>, the ring of completion entries as a sequence, the removal
    of a queue pair's entries as a filter, the copy into a resized ring.
  \<^item> Implicit_Lkey, Implicit_Correct: \<open>implicit_lkey.c\<close>, regions for on-demand paging that are registered
    when an address is first used, in tables of two levels.
  \<^item> Qp, Qp_Correct, Qp_Inline: \<open>qp.c\<close>, the receive queue of a queue pair as a sequence of requests, the
    burst variants, and inline data scattered into entries.
  \<^item> Poll_Types, Cq_Handlers, Tag_Matching, Cq_Poll: \<open>cq.c\<close>, polling. The objects that completions name
    lie in a store of their own (queue pairs, shared receive queues, work queues, by address, as a sum
    type); a pointer of the wrong type is a fault. Tag matching keeps its list of tags, its operations
    and its free list. \<open>mlx5_poll_one\<close> is cut where the code has its steps: fetching, owner, switch, finish.
  \<^item> Cq_Family: the counting poll and the length poll of \<open>cq.c\<close>. Cq_Exports: their exported variants and
    the tables of them. Qp_Family: the same for the receive bursts.
  \<^item> Drv_Send: the send side of a queue pair in the driver, its doorbell (\<open>doorbell.h\<close>).
  \<^item> Tag_Ops: posting the operations of tag matching (\<open>qp.c\<close>). Tag_Correct, Tag_Done: the list of tags as a
    queue of free entries, from the post of a receive to its two completions.
  \<^item> Burst, Burst_Family: the burst family of \<open>qp.c\<close>, messages put in the send queue without ringing, alone or
    packed into multi-packet entries, the flush, and the exported variants. Burst_Correct, Burst_Run:
    the send queue as a ring of 16-byte slots, the groups of messages a burst is cut into, and the
    invariant of the loop (\<open>building\<close>) from the first message to the doorbell.
  \<^item> Poll_Correct, Poll_Family, Poll_Srq: what polling does to the ring, the queues and the completions.
    Poll_Typing: no object is taken for another, by rules in the style of weakest preconditions.
  \<^item> Pool_Props, Srq_Props, Cq_Props, Qp_Props, Poll_Props, Odp_Props, Tag_Props, Family_Props, Burst_Props: the properties of
    the driver;
    Cq_Samples, Qp_Samples, Poll_Samples: its concrete states.
  \<^item> Samples: concrete states. Queue_Props, Conn_Props, Lookup_Props, Mr_Props, Completion_Props,
    Verbs_Props: the properties, each with an instance on these states.

  What is shown. Posting refines a ring of chunks, and the entries read back as they were asked for;
  the shadow counter agrees for single requests and provably drifts for chains. The connection table is
  exact in every reachable state and simulates an abstract table; connections open at the lowest free
  socket and free it when cleared. Set-up and disconnection keep the two lookup tables consistent, so
  that completions find their connection. The handshake carries regions from one side to the other.
  Polling returns when the queue is empty and counts what it should; the spinning and the blocking wait
  return if and only if the completion arrives, after as many rounds, and provably never for failed requests. Verbs post the requests they are named for; broadcasts
  end and serve every connection once. In the driver, doorbell records, user indices and entries of
  shared receive queues have one owner at a time; the object tables are finite maps; posting to and
  completing on a shared receive queue drop and append entries of a queue; a new completion ring is
  empty, the clean-up of a ring is a filter and a resize keeps the entries of an unchanged size. A new shared
  receive queue is one chain of all its entries, unless its size overflows. Posting receive requests
  appends to a sequence; polling retires the requests of the ring's entries one by one, in order, and
  what was posted completes in that order; the counting poll does the same without the completions;
  polling keeps the types of all objects. An error entry hides the completions before it, and an entry
  served after a repoll may be charged to the queue of the one before. A look-up of an on-demand region
  returns one that covers the range or stops at the code's assert; prefetching tiles the range.
  Receives with tags take the free entries of the list in order, and an entry comes back when both its
  completions have been polled, in whichever order. The specialised polls do what the safe ones do. A burst of sends is packed
  into entries of up to five messages of one length and rung once; a packet that is too short leaves the queue locked.

  Bounds. Loops with fuel: \<open>poll_cq\<close> needs one unit more than there are completions, a broadcast one
  more than there are open connections, a wait one more than the rounds until the completion is seen (for
  the blocking wait \<open>block_rounds\<close> counts the completions of a round too);
  each property states its fuel. The accessors' ten sleeps are the code's own limit. Tables are
  assumed below \<open>2 ^ 30\<close> buckets (\<open>hash_room\<close>), where the doubling of the 32-bit bucket count is exact.

  The copy of a resize takes as fuel one unit more than there are entries before the resize entry.

  A poll takes as fuel one unit more than there are entries it may skip.

  Not modelled. Of the driver: the peek operations of peer-direct (\<open>cq.c\<close>); its own builder for \<open>ibv_post_send\<close> (\<open>qp.c\<close>), which does what the
  library's builder does; the creation of objects through kernel commands (\<open>verbs.c\<close>); erasure coding
  (\<open>ec.c\<close>), buffers from huge pages (\<open>buf.c\<close>), start-up (\<open>mlx5.c\<close>). Of the
  library: the threads' bodies around the modelled steps (\<open>server_loop\<close>, the listening socket);
  random numbers and thread pinning of \<open>utils.c\<close>; the macros of \<open>uthash.h\<close> that nothing uses; the
  programs under \<open>src/ooo/tests\<close>. Inline data is modelled in the segment writers, while the properties
  of posting are about requests without it. Locks are modelled where their value is read
  (\<open>poll_permission\<close>, and the lock of a send queue in the driver, where taking it twice is a fault), not as blocking;
  the driver's operations each run under a lock and are atomic.
\<close>

end
